(* ===== verification/VycorPrelude.thy ===== *)
theory VycorPrelude
  imports Main "HOL-Library.AList" "HOL-Library.Word"
begin

text \<open>
  The vocabulary the component theories share.

  A \<open>std::unordered_map\<close> is an association list with distinct keys (\<open>umap\<close>): lookup is
  \<^const>\<open>map_of\<close>, iteration is the order of the list.  The iteration order of the C++
  container is unspecified; every theorem about an operation that iterates quantifies over
  all association lists, hence over all orders.  \<open>ulist\<close> is "find, or the empty vector",
  \<open>upush\<close> is \<open>m[k].push_back(x)\<close>, \<open>uscrub\<close> the erase-remove idiom of the three
  \<open>removeTUs\<close>.  A \<open>std::set\<close> that the code iterates is a sorted distinct list
  (\<open>insort_insert\<close>); one that is only probed is a HOL set.
\<close>

named_theorems umap_simps \<open>lookups after updates of the unordered-map operations\<close>

type_synonym ('k, 'v) umap = "('k \<times> 'v) list"

subsection \<open>Unordered maps\<close>

definition ulist :: "('k, 'v list) umap \<Rightarrow> 'k \<Rightarrow> 'v list" where
  "ulist m k = (case map_of m k of None \<Rightarrow> [] | Some v \<Rightarrow> v)"

definition upush :: "'k \<Rightarrow> 'v \<Rightarrow> ('k, 'v list) umap \<Rightarrow> ('k, 'v list) umap" where
  "upush k x m = AList.update k (ulist m k @ [x]) m"

definition upush_new :: "'k \<Rightarrow> 'v \<Rightarrow> ('k, 'v list) umap \<Rightarrow> ('k, 'v list) umap" where
  \<comment> \<open>\<open>auto &v = m[k]; if (find(v, x) == end) v.push_back(x)\<close>\<close>
  "upush_new k x m =
     AList.update k (if x \<in> set (ulist m k) then ulist m k else ulist m k @ [x]) m"

definition uinsert :: "'k \<Rightarrow> 'v::linorder \<Rightarrow> ('k, 'v list) umap \<Rightarrow> ('k, 'v list) umap" where
  \<comment> \<open>\<open>m[k].insert(x)\<close> for a map to \<open>std::set\<close>\<close>
  "uinsert k x m = AList.update k (insort_insert x (ulist m k)) m"

definition uemplace :: "'k \<Rightarrow> 'v \<Rightarrow> ('k, 'v) umap \<Rightarrow> ('k, 'v) umap" where
  \<comment> \<open>\<open>m.emplace(k, v)\<close>: an existing entry stays\<close>
  "uemplace k v m = (if k \<in> fst ` set m then m else AList.update k v m)"

definition uscrub :: "('i \<Rightarrow> bool) \<Rightarrow> 'k list \<Rightarrow> ('k, 'i list) umap \<Rightarrow> ('k, 'i list) umap" where
  \<comment> \<open>for each affected key, \<open>auto &v = m[k]; v.erase(remove_if(v, dead), end)\<close>\<close>
  "uscrub dead ks m = fold (\<lambda>k m. AList.update k (filter (\<lambda>i. \<not> dead i) (ulist m k)) m) ks m"

abbreviation ukeys :: "('k, 'v) umap \<Rightarrow> 'k list" where
  "ukeys m \<equiv> map fst m"

lemma ulist_Nil [simp]: "ulist [] k = []"
  by (simp add: ulist_def)

lemma ulist_update [umap_simps]:
  "ulist (AList.update k v m) k' = (if k' = k then v else ulist m k')"
  by (simp add: ulist_def AList.update_conv')

lemma ulist_delete [umap_simps]:
  "ulist (AList.delete k m) k' = (if k' = k then [] else ulist m k')"
  by (simp add: ulist_def AList.delete_conv')

lemma ulist_upush [umap_simps]:
  "ulist (upush k x m) k' = (if k' = k then ulist m k @ [x] else ulist m k')"
  by (simp add: upush_def ulist_update)

lemma set_ulist_upush_new [umap_simps]:
  "set (ulist (upush_new k x m) k') = (if k' = k then insert x (set (ulist m k)) else set (ulist m k'))"
  by (auto simp: upush_new_def ulist_update)

lemma set_ulist_uinsert [umap_simps]:
  "set (ulist (uinsert k x m) k') = (if k' = k then insert x (set (ulist m k)) else set (ulist m k'))"
  by (auto simp: uinsert_def ulist_update set_insort_insert)

lemma map_of_update [umap_simps]: "map_of (AList.update k v m) = (map_of m)(k \<mapsto> v)"
  by (rule AList.update_conv')

lemma map_of_delete' [umap_simps]: "map_of (AList.delete k m) = (map_of m)(k := None)"
  by (rule AList.delete_conv')

lemma map_of_uemplace [umap_simps]:
  "map_of (uemplace k v m) k' = (if k' = k \<and> map_of m k = None then Some v else map_of m k')"
  by (auto simp: uemplace_def AList.update_conv' map_of_eq_None_iff)

lemma ulist_Some: "map_of m k = Some v \<Longrightarrow> ulist m k = v"
  by (simp add: ulist_def)

lemma ulist_None: "map_of m k = None \<Longrightarrow> ulist m k = []"
  by (simp add: ulist_def)

lemma ulist_nonempty_dom: "ulist m k \<noteq> [] \<Longrightarrow> k \<in> dom (map_of m)"
  by (auto simp: ulist_def split: option.splits)

lemma ulist_dom_or_Nil: "k \<notin> fst ` set m \<Longrightarrow> ulist m k = []"
  by (simp add: ulist_def map_of_eq_None_iff[THEN iffD2])

subsection \<open>Distinct keys\<close>

lemma distinct_keys_update [simp, intro]:
  "distinct (ukeys m) \<Longrightarrow> distinct (ukeys (AList.update k v m))"
  by (rule AList.distinct_update)

lemma distinct_keys_delete [simp, intro]:
  "distinct (ukeys m) \<Longrightarrow> distinct (ukeys (AList.delete k m))"
  by (rule AList.distinct_delete)

lemma distinct_keys_upush [simp, intro]: "distinct (ukeys m) \<Longrightarrow> distinct (ukeys (upush k x m))"
  by (simp add: upush_def)

lemma distinct_keys_upush_new [simp, intro]:
  "distinct (ukeys m) \<Longrightarrow> distinct (ukeys (upush_new k x m))"
  by (simp add: upush_new_def)

lemma distinct_keys_uinsert [simp, intro]:
  "distinct (ukeys m) \<Longrightarrow> distinct (ukeys (uinsert k x m))"
  by (simp add: uinsert_def)

lemma distinct_keys_uemplace [simp, intro]:
  "distinct (ukeys m) \<Longrightarrow> distinct (ukeys (uemplace k x m))"
  by (simp add: uemplace_def)

lemma distinct_keys_uscrub [simp, intro]:
  "distinct (ukeys m) \<Longrightarrow> distinct (ukeys (uscrub dead ks m))"
  unfolding uscrub_def by (induction ks arbitrary: m) auto

lemma ulist_in_set: "distinct (ukeys m) \<Longrightarrow> (k, v) \<in> set m \<Longrightarrow> ulist m k = v"
  by (simp add: ulist_def)

lemma filter_idem_not: "filter (\<lambda>i. \<not> dead i) (filter (\<lambda>i. \<not> dead i) xs) = filter (\<lambda>i. \<not> dead i) xs"
  by simp

lemma ulist_uscrub [umap_simps]:
  "ulist (uscrub dead ks m) k =
     (if k \<in> set ks then filter (\<lambda>i. \<not> dead i) (ulist m k) else ulist m k)"
  unfolding uscrub_def by (induction ks arbitrary: m) (auto simp: ulist_update)

text \<open>
  Scrubbing the affected keys removes the dead indices from every vector, as soon as the
  affected keys are all those whose vectors hold one.
\<close>

lemma ulist_uscrub_all:
  assumes "\<And>i. i \<in> set (ulist m k) \<Longrightarrow> dead i \<Longrightarrow> k \<in> set ks"
  shows "ulist (uscrub dead ks m) k = filter (\<lambda>i. \<not> dead i) (ulist m k)"
  using assms by (fastforce simp: ulist_uscrub filter_id_conv intro!: sym[of "filter _ _"])

subsection \<open>Index lists into a growing table\<close>

text \<open>
  The adjacency vectors of all three indexes hold, in ascending order, exactly the positions
  of the live records that match a key.  \<open>positions P xs\<close> is that list.
\<close>

definition positions :: "('a \<Rightarrow> bool) \<Rightarrow> 'a list \<Rightarrow> nat list" where
  "positions P xs = filter (\<lambda>i. P (xs ! i)) [0..<length xs]"

lemma positions_Nil [simp]: "positions P [] = []"
  by (simp add: positions_def)

lemma positions_snoc [simp]:
  "positions P (xs @ [x]) = positions P xs @ (if P x then [length xs] else [])"
  by (auto simp: positions_def nth_append intro!: filter_cong)

lemma in_set_positions [simp]: "i \<in> set (positions P xs) \<longleftrightarrow> i < length xs \<and> P (xs ! i)"
  by (auto simp: positions_def)

lemma distinct_positions [simp]: "distinct (positions P xs)"
  by (simp add: positions_def)

lemma filter_positions:
  "filter Q (positions P xs) = filter (\<lambda>i. P (xs ! i) \<and> Q i) [0..<length xs]"
  by (auto simp: positions_def intro: filter_cong)

lemma positions_cong:
  assumes "length xs = length ys" and "\<And>i. i < length xs \<Longrightarrow> P (xs ! i) = Q (ys ! i)"
  shows "positions P xs = positions Q ys"
  using assms by (auto simp: positions_def intro!: filter_cong)

lemma map_nth_positions: "map ((!) xs) (positions P xs) = filter P xs"
proof (induction xs rule: rev_induct)
  case (snoc x xs)
  have "map ((!) (xs @ [x])) (positions P xs) = map ((!) xs) (positions P xs)"
    by (rule map_cong) (auto simp: nth_append)
  with snoc show ?case by simp
qed simp

lemma positions_list_update:
  assumes "i < length xs" and "P y = P (xs ! i)"
  shows "positions P (xs[i := y]) = positions P xs"
  using assms by (intro positions_cong) (auto simp: nth_list_update)

subsection \<open>Folds\<close>

lemma fold_invariant:
  assumes "I s" and "\<And>x s. x \<in> set xs \<Longrightarrow> I s \<Longrightarrow> I (f x s)"
  shows "I (fold f xs s)"
  using assms by (induction xs arbitrary: s) auto

subsection \<open>Counting occurrences across the vectors of a map\<close>

definition ucount :: "('k, 'v list) umap \<Rightarrow> 'v \<Rightarrow> nat" where
  "ucount m x = sum_list (map (\<lambda>p. count_list (snd p) x) m)"

lemma ucount_Nil [simp]: "ucount [] x = 0"
  by (simp add: ucount_def)

lemma ucount_update:
  "distinct (ukeys m) \<Longrightarrow>
     ucount (AList.update k v m) x + count_list (ulist m k) x = ucount m x + count_list v x"
proof (induction m)
  case Nil
  then show ?case by (simp add: ucount_def)
next
  case (Cons p m)
  then show ?case
    by (cases p) (auto simp: ucount_def ulist_def map_of_eq_None_iff[THEN iffD2])
qed

lemma ucount_delete:
  "distinct (ukeys m) \<Longrightarrow> ucount (AList.delete k m) x + count_list (ulist m k) x = ucount m x"
proof (induction m)
  case (Cons p m)
  have "fst p = k \<Longrightarrow> AList.delete k m = m"
    using Cons.prems by (auto intro!: AList.delete_id)
  with Cons show ?case
    by (cases p) (auto simp: ucount_def ulist_def map_of_eq_None_iff[THEN iffD2])
qed (simp add: ucount_def)

lemma ucount_upush:
  "distinct (ukeys m) \<Longrightarrow> ucount (upush k y m) x = ucount m x + (if x = y then 1 else 0)"
  using ucount_update[of m k "ulist m k @ [y]" x] by (simp add: upush_def)

lemma count_list_le_ucount: "distinct (ukeys m) \<Longrightarrow> count_list (ulist m k) x \<le> ucount m x"
  using ucount_delete[of m k x] by simp

lemma set_ulist_ucount: "distinct (ukeys m) \<Longrightarrow> x \<in> set (ulist m k) \<Longrightarrow> 0 < ucount m x"
  using count_list_le_ucount[of m k x] by (metis count_list_0_iff gr0I le_zero_eq)

end
