(* ===== verification/Interner.thy ===== *)
theory Interner
  imports VycorPrelude
begin

text \<open>
  \<open>StringInterner\<close> (include/vycor/callgraph/StringInterner.h): a table of strings whose
  positions are the 32-bit ids, and a hash index from the string back to its id.  The
  reader/writer lock has no sequential effect; the double lookup of \<open>intern\<close> is one
  lookup here.  \<open>wf_interner\<close> is the invariant; ids are \<open>32 word\<close>, so the narrowing
  \<open>static_cast<Id>(strings_.size())\<close> is \<^term>\<open>word_of_nat\<close> and injectivity holds only
  below the capacity \<open>2 ^ 32\<close>, which the theorems make explicit (\<open>has_room\<close>).
\<close>

type_synonym sid = "32 word"

record interner =
  strings :: "string list"
  index :: "(string, sid) umap"

definition empty_interner :: interner where
  "empty_interner = \<lparr>strings = [], index = []\<rparr>"

definition intern :: "string \<Rightarrow> interner \<Rightarrow> sid \<times> interner" where
  "intern s I =
     (case map_of (index I) s of
        Some i \<Rightarrow> (i, I)
      | None \<Rightarrow>
          (let i = word_of_nat (length (strings I)) in
           (i, I\<lparr>strings := strings I @ [s], index := uemplace s i (index I)\<rparr>)))"

definition resolve :: "interner \<Rightarrow> sid \<Rightarrow> string" where
  "resolve I i = strings I ! unat i"

definition find_id :: "interner \<Rightarrow> string \<Rightarrow> sid option" where
  "find_id I s = map_of (index I) s"

definition interner_size :: "interner \<Rightarrow> nat" where
  "interner_size I = length (strings I)"

definition rebuildIndex :: "string list \<Rightarrow> (string, sid) umap" where
  "rebuildIndex ss =
     fold (\<lambda>i m. uemplace (ss ! i) (word_of_nat i) m) [0..<length ss] []"

definition installStrings :: "string list \<Rightarrow> interner \<Rightarrow> bool \<times> interner" where
  "installStrings ss I =
     (if strings I \<noteq> [] then (False, I)
      else (True, I\<lparr>strings := ss, index := rebuildIndex ss\<rparr>))"

definition payloadBytes :: "interner \<Rightarrow> nat" where
  "payloadBytes I = fold (\<lambda>s total. total + length s) (strings I) 0"

text \<open>The table passed through a sequence of \<open>intern\<close> calls, with the ids they return.\<close>

fun intern_all :: "string list \<Rightarrow> interner \<Rightarrow> sid list \<times> interner" where
  "intern_all [] I = ([], I)"
| "intern_all (s # ss) I =
     (let (i, I1) = intern s I; (is, I2) = intern_all ss I1 in (i # is, I2))"

subsection \<open>Invariant\<close>

definition wf_interner :: "interner \<Rightarrow> bool" where
  "wf_interner I \<longleftrightarrow>
     length (strings I) \<le> 2 ^ 32 \<and>
     (\<forall>s i. map_of (index I) s = Some i \<longleftrightarrow> unat i < length (strings I) \<and> strings I ! unat i = s)"

definition has_room :: "nat \<Rightarrow> interner \<Rightarrow> bool" where
  "has_room n I \<longleftrightarrow> length (strings I) + n \<le> 2 ^ 32"

definition valid_id :: "interner \<Rightarrow> sid \<Rightarrow> bool" where
  "valid_id I i \<longleftrightarrow> unat i < length (strings I)"

definition interner_le :: "interner \<Rightarrow> interner \<Rightarrow> bool" where
  \<comment> \<open>a later table: the old strings keep their ids\<close>
  "interner_le I J \<longleftrightarrow> (\<exists>ss. strings J = strings I @ ss)"

lemma has_room_mono: "has_room n I \<Longrightarrow> m \<le> n \<Longrightarrow> has_room m I"
  by (simp add: has_room_def)

lemma interner_le_refl [simp]: "interner_le I I"
  by (simp add: interner_le_def)

lemma interner_le_trans: "interner_le I J \<Longrightarrow> interner_le J K \<Longrightarrow> interner_le I K"
  by (auto simp: interner_le_def)

lemma unat_of_nat_room: "n < 2 ^ 32 \<Longrightarrow> unat (word_of_nat n :: sid) = n"
  by (simp add: unat_of_nat take_bit_nat_eq_self)

lemma wf_interner_empty [simp]: "wf_interner empty_interner"
  by (simp add: wf_interner_def empty_interner_def)

lemma find_id_iff:
  "wf_interner I \<Longrightarrow> find_id I s = Some i \<longleftrightarrow> valid_id I i \<and> resolve I i = s"
  by (simp add: wf_interner_def find_id_def valid_id_def resolve_def)

lemma find_id_resolve [simp]: "wf_interner I \<Longrightarrow> valid_id I i \<Longrightarrow> find_id I (resolve I i) = Some i"
  by (simp add: find_id_iff)

lemma find_id_None_iff: "wf_interner I \<Longrightarrow> find_id I s = None \<longleftrightarrow> s \<notin> set (strings I)"
proof -
  assume wf: "wf_interner I"
  have "s \<in> set (strings I) \<longleftrightarrow> (\<exists>i. find_id I s = Some i)"
  proof
    assume "s \<in> set (strings I)"
    then obtain n where n: "n < length (strings I)" "strings I ! n = s"
      by (auto simp: in_set_conv_nth)
    with wf have "n < 2 ^ 32" by (simp add: wf_interner_def)
    with n have "valid_id I (word_of_nat n) \<and> resolve I (word_of_nat n) = s"
      by (simp add: valid_id_def resolve_def unat_of_nat_room)
    with wf show "\<exists>i. find_id I s = Some i" by (blast dest: find_id_iff)
  next
    assume "\<exists>i. find_id I s = Some i"
    with wf show "s \<in> set (strings I)"
      by (auto simp: find_id_iff valid_id_def resolve_def)
  qed
  then show ?thesis by auto
qed

lemma resolve_inj:
  assumes "wf_interner I" and "valid_id I i" and "valid_id I j"
  shows "resolve I i = resolve I j \<longleftrightarrow> i = j"
proof
  assume "resolve I i = resolve I j"
  then have "Some i = Some j"
    using find_id_resolve[OF assms(1,2)] find_id_resolve[OF assms(1,3)] by metis
  then show "i = j" by simp
qed simp

lemma wf_interner_distinct: "wf_interner I \<Longrightarrow> distinct (strings I)"
proof (unfold distinct_conv_nth, intro allI impI)
  fix i j
  assume wf: "wf_interner I"
    and i: "i < length (strings I)" and j: "j < length (strings I)" and "i \<noteq> j"
  from wf i j have "i < 2 ^ 32" "j < 2 ^ 32" by (simp_all add: wf_interner_def)
  with resolve_inj[OF wf, of "word_of_nat i" "word_of_nat j"] i j \<open>i \<noteq> j\<close>
  show "strings I ! i \<noteq> strings I ! j"
    by (metis resolve_def unat_of_nat_room valid_id_def)
qed

subsection \<open>Interning\<close>

lemma intern_cases:
  assumes "wf_interner I"
  obtains (old) i where "find_id I s = Some i" "intern s I = (i, I)" "valid_id I i" "resolve I i = s"
  | (new) "s \<notin> set (strings I)"
      "intern s I = (word_of_nat (length (strings I)),
         I\<lparr>strings := strings I @ [s],
           index := uemplace s (word_of_nat (length (strings I))) (index I)\<rparr>)"
proof (cases "find_id I s")
  case None
  then have "map_of (index I) s = None" by (simp add: find_id_def)
  with new None show ?thesis
    using find_id_None_iff[OF assms, of s] by (simp add: intern_def Let_def)
next
  case (Some i)
  moreover from Some have "map_of (index I) s = Some i" by (simp add: find_id_def)
  ultimately show ?thesis
    using old assms by (simp add: intern_def find_id_iff)
qed

lemma intern_wf_resolve:
  assumes wf: "wf_interner I" and room: "has_room 1 I" and "intern s I = (i, J)"
  shows "wf_interner J" and "resolve J i = s" and "valid_id J i" and "interner_le I J"
    and "length (strings J) \<le> Suc (length (strings I))"
proof -
  have "wf_interner J \<and> resolve J i = s \<and> valid_id J i \<and> interner_le I J \<and>
        length (strings J) \<le> Suc (length (strings I))"
    using wf
  proof (cases rule: intern_cases[of I s])
    case (old j)
    with assms show ?thesis by auto
  next
    case new
    let ?n = "length (strings I)"
    let ?J = "I\<lparr>strings := strings I @ [s], index := uemplace s (word_of_nat ?n) (index I)\<rparr>"
    from new assms have J: "J = ?J" "i = word_of_nat ?n" by auto
    from room have n: "unat (word_of_nat ?n :: sid) = ?n"
      by (intro unat_of_nat_room) (simp add: has_room_def)
    have none: "map_of (index I) s = None"
      using find_id_None_iff[OF wf, of s] new(1) by (simp add: find_id_def)
    have "wf_interner ?J"
      unfolding wf_interner_def
    proof (intro conjI allI)
      show "length (strings ?J) \<le> 2 ^ 32" using room by (simp add: has_room_def)
      fix t k
      have old: "map_of (index I) t = Some k \<longleftrightarrow> unat k < ?n \<and> strings I ! unat k = t"
        using wf by (simp add: wf_interner_def)
      show "map_of (index ?J) t = Some k \<longleftrightarrow> unat k < length (strings ?J) \<and> strings ?J ! unat k = t"
      proof (cases "t = s")
        case True
        have "unat k < ?n \<Longrightarrow> strings I ! unat k \<noteq> s" using new(1) by (metis nth_mem)
        with True n none show ?thesis
          by (auto simp: umap_simps nth_append less_Suc_eq) (metis n word_unat_eq_iff)
      next
        case False
        with old show ?thesis
          by (auto simp: umap_simps nth_append less_Suc_eq)
      qed
    qed
    with J n show ?thesis
      by (auto simp: resolve_def valid_id_def interner_le_def nth_append)
  qed
  then show "wf_interner J" "resolve J i = s" "valid_id J i" "interner_le I J"
    "length (strings J) \<le> Suc (length (strings I))" by auto
qed

text \<open>A later table gives every old id its old string.\<close>

lemma interner_le_resolve:
  "interner_le I J \<Longrightarrow> valid_id I i \<Longrightarrow> valid_id J i \<and> resolve J i = resolve I i"
  by (auto simp: interner_le_def valid_id_def resolve_def nth_append)

lemma interner_le_find:
  assumes "wf_interner I" and "wf_interner J" and "interner_le I J" and "find_id I s = Some i"
  shows "find_id J s = Some i"
  using assms by (simp add: find_id_iff interner_le_resolve)

lemma intern_find:
  "wf_interner I \<Longrightarrow> has_room 1 I \<Longrightarrow> intern s I = (i, J) \<Longrightarrow> find_id J s = Some i"
  using intern_wf_resolve[of I s i J] by (simp add: find_id_iff)

lemma intern_known: "find_id I s = Some i \<Longrightarrow> intern s I = (i, I)"
  by (simp add: intern_def find_id_def)

lemma intern_room:
  "wf_interner I \<Longrightarrow> has_room (Suc n) I \<Longrightarrow> intern s I = (i, J) \<Longrightarrow> has_room n J"
  using intern_wf_resolve(5)[of I s i J] by (simp add: has_room_def)

lemma intern_all_wf:
  assumes "wf_interner I" and "has_room (length ss) I" and "intern_all ss I = (is, J)"
  shows "wf_interner J \<and> interner_le I J \<and> length is = length ss \<and>
         (\<forall>n < length ss. valid_id J (is ! n) \<and> resolve J (is ! n) = ss ! n)"
  using assms
proof (induction ss arbitrary: I "is")
  case (Cons s ss)
  obtain i I1 where i: "intern s I = (i, I1)" by fastforce
  obtain js I2 where js: "intern_all ss I1 = (js, I2)" by fastforce
  from Cons.prems i js have eqs: "is = i # js" "J = I2" by auto
  from Cons.prems have "has_room 1 I" by (auto intro: has_room_mono)
  note one = intern_wf_resolve[OF Cons.prems(1) this i]
  from Cons.prems i have "has_room (length ss) I1" by (auto intro: intern_room)
  from Cons.IH[OF one(1) this] js eqs
  have rest: "wf_interner J" "interner_le I1 J" "length js = length ss"
    "\<And>n. n < length ss \<Longrightarrow> valid_id J (js ! n) \<and> resolve J (js ! n) = ss ! n" by auto
  have "valid_id J i \<and> resolve J i = s"
    using interner_le_resolve[OF rest(2) one(3)] one(2) by simp
  with rest one eqs show ?case
    by (auto simp: nth_Cons' intro: interner_le_trans)
qed simp

subsection \<open>A growing table\<close>

definition extends_interner :: "interner \<Rightarrow> interner \<Rightarrow> bool" where
  "extends_interner I J \<longleftrightarrow> wf_interner I \<and> wf_interner J \<and> interner_le I J"

lemma extends_interner_facts:
  assumes "extends_interner I J"
  shows "valid_id I i \<Longrightarrow> valid_id J i" and "valid_id I i \<Longrightarrow> resolve J i = resolve I i"
    and "find_id I s = Some i \<Longrightarrow> find_id J s = Some i"
  using assms interner_le_resolve[of I J i] interner_le_find[of I J s i]
  by (auto simp: extends_interner_def)

lemma extends_interner_trans: "extends_interner I J \<Longrightarrow> extends_interner J K \<Longrightarrow> extends_interner I K"
  by (auto simp: extends_interner_def intro: interner_le_trans)

lemma extends_interner_refl: "wf_interner I \<Longrightarrow> extends_interner I I"
  by (simp add: extends_interner_def)

lemma extends_intern:
  assumes "wf_interner I" and "has_room 1 I" and "intern s I = (i, J)"
  shows "extends_interner I J" and "valid_id J i" and "resolve J i = s" and "find_id J s = Some i"
  using intern_wf_resolve[OF assms] intern_find[OF assms] assms(1) by (auto simp: extends_interner_def)

subsection \<open>Bulk installation\<close>

lemma map_of_rebuildIndex_aux:
  assumes "distinct ss" and "n \<le> length ss"
  shows "map_of (fold (\<lambda>i m. uemplace (ss ! i) (word_of_nat i) m) [0..<n] []) s = Some (k :: sid) \<longleftrightarrow>
           (\<exists>i < n. ss ! i = s \<and> k = word_of_nat i)"
  using assms(2)
proof (induction n arbitrary: s k)
  case (Suc n)
  let ?m = "fold (\<lambda>i m. uemplace (ss ! i) (word_of_nat i :: sid) m) [0..<n] []"
  have IH: "map_of ?m s = Some k \<longleftrightarrow> (\<exists>i < n. ss ! i = s \<and> k = word_of_nat i)" for s k
    using Suc by simp
  have "map_of ?m (ss ! n) = None"
  proof (rule ccontr)
    assume "map_of ?m (ss ! n) \<noteq> None"
    then obtain i where "i < n" "ss ! i = ss ! n" using IH by blast
    with assms(1) Suc.prems show False by (simp add: nth_eq_iff_index_eq)
  qed
  with IH[of s k] IH[of "ss ! n"] show ?case
    by (auto simp: umap_simps less_Suc_eq)
qed simp

lemma installStrings_wf:
  assumes "distinct ss" and "length ss \<le> 2 ^ 32" and "strings I = []"
  shows "wf_interner (snd (installStrings ss I))"
  unfolding wf_interner_def
proof (intro conjI allI)
  show "length (strings (snd (installStrings ss I))) \<le> 2 ^ 32"
    using assms by (simp add: installStrings_def)
  fix s and k :: sid
  have un: "i < length ss \<Longrightarrow> unat (word_of_nat i :: sid) = i" for i
    using assms(2) by (simp add: unat_of_nat_room)
  have "map_of (rebuildIndex ss) s = Some k \<longleftrightarrow> (\<exists>i < length ss. ss ! i = s \<and> k = word_of_nat i)"
    unfolding rebuildIndex_def by (rule map_of_rebuildIndex_aux[OF assms(1) order.refl])
  also have "\<dots> \<longleftrightarrow> unat k < length ss \<and> ss ! unat k = s"
    using un by (auto simp: un)
  finally show "map_of (index (snd (installStrings ss I))) s = Some k \<longleftrightarrow>
      unat k < length (strings (snd (installStrings ss I))) \<and>
      strings (snd (installStrings ss I)) ! unat k = s"
    using assms(3) by (simp add: installStrings_def)
qed

end
