(* ===== verification/Closure.thy ===== *)
theory Closure
  imports VycorPrelude
begin

text \<open>
  \<open>CallGraph::transitiveClosure\<close> (src/callgraph/CallGraph.cpp): an explicit-stack search
  over one of the relation maps.  The stack's top is the head of the list.  The search is a
  total function because every pushed element is new and a value of the (finite) map; its
  result is characterised against the reflexive transitive closure of the relation.  The
  second loop, of \<open>getAllDerivedClasses\<close>, marks on pop instead of on push and therefore
  may report a class more than once.
\<close>

definition tc_push :: "'a \<Rightarrow> 'a list \<times> 'a list \<times> 'a set \<Rightarrow> 'a list \<times> 'a list \<times> 'a set" where
  "tc_push next s =
     (case s of (result, stack, visited) \<Rightarrow>
        if next \<in> visited then (result, stack, visited)
        else (result @ [next], next # stack, insert next visited))"

fun fresh :: "'a set \<Rightarrow> 'a list \<Rightarrow> 'a list" where
  "fresh V [] = []"
| "fresh V (x # xs) = (if x \<in> V then fresh V xs else x # fresh (insert x V) xs)"

definition urange :: "('k, 'v list) umap \<Rightarrow> 'v set" where
  "urange m = (\<Union>p \<in> set m. set (snd p))"

lemma finite_urange [simp]: "finite (urange m)"
  by (simp add: urange_def)

lemma ulist_urange: "set (ulist m k) \<subseteq> urange m"
proof (cases "map_of m k")
  case (Some v)
  then have "(k, v) \<in> set m" by (rule map_of_SomeD)
  with Some show ?thesis by (force simp: ulist_def urange_def)
qed (simp add: ulist_def)

lemma set_fresh: "set (fresh V xs) = set xs - V"
  by (induction V xs rule: fresh.induct) auto

lemma distinct_fresh: "distinct (fresh V xs)"
  by (induction V xs rule: fresh.induct) (auto simp: set_fresh)

lemma fold_tc_push:
  "fold tc_push nexts (result, stack, visited) =
     (result @ fresh visited nexts, rev (fresh visited nexts) @ stack, visited \<union> set nexts)"
  by (induction nexts arbitrary: result stack visited) (auto simp: tc_push_def)

function tc_loop :: "('a, 'a list) umap \<Rightarrow> 'a list \<times> 'a list \<times> 'a set \<Rightarrow> 'a list" where
  "tc_loop rel (result, [], visited) = result"
| "tc_loop rel (result, cur # stack, visited) =
     tc_loop rel (fold tc_push (ulist rel cur) (result, stack, visited))"
  by pat_completeness auto
termination
proof (relation "inv_image (less_than <*lex*> less_than)
    (\<lambda>(rel, result, stack, visited). (card (urange rel - visited), length stack))")
  fix rel :: "('a, 'a list) umap" and result cur stack visited
  let ?new = "fresh visited (ulist rel cur)"
  have "card (urange rel - (visited \<union> set (ulist rel cur))) < card (urange rel - visited)"
    if "?new \<noteq> []"
  proof (rule psubset_card_mono)
    from that have "set (ulist rel cur) - visited \<noteq> {}"
      by (metis set_fresh set_empty)
    with ulist_urange[of rel cur]
    show "urange rel - (visited \<union> set (ulist rel cur)) \<subset> urange rel - visited" by auto
  qed simp
  moreover have "visited \<union> set (ulist rel cur) = visited" if "?new = []"
    using that set_fresh[of visited "ulist rel cur"] by auto
  ultimately show "((rel, fold tc_push (ulist rel cur) (result, stack, visited)),
      rel, result, cur # stack, visited)
     \<in> inv_image (less_than <*lex*> less_than)
        (\<lambda>(rel, result, stack, visited). (card (urange rel - visited), length stack))"
    by (cases "?new = []") (auto simp: fold_tc_push)
qed auto

definition transitiveClosure :: "'a \<Rightarrow> ('a, 'a list) umap \<Rightarrow> 'a list" where
  "transitiveClosure start rel =
     (case map_of rel start of
        None \<Rightarrow> []
      | Some _ \<Rightarrow> tc_loop rel ([], [start], {start}))"

subsection \<open>Correctness\<close>

definition rel_of :: "('a, 'b list) umap \<Rightarrow> ('a \<times> 'b) set" where
  \<comment> \<open>the relation a map of vectors stands for\<close>
  "rel_of m = {(a, b). b \<in> set (ulist m a)}"

lemma rel_of_iff [simp]: "(a, b) \<in> rel_of m \<longleftrightarrow> b \<in> set (ulist m a)"
  by (simp add: rel_of_def)

lemma tc_loop_spec:
  assumes "visited = insert start (set result)" and "start \<notin> set result" and "distinct result"
    and "set stack \<subseteq> visited" and "visited \<subseteq> (rel_of rel)\<^sup>* `` {start}"
    and "\<And>x. x \<in> visited \<Longrightarrow> x \<notin> set stack \<Longrightarrow> set (ulist rel x) \<subseteq> visited"
  shows "set (tc_loop rel (result, stack, visited)) = (rel_of rel)\<^sup>* `` {start} - {start}
         \<and> distinct (tc_loop rel (result, stack, visited))"
  using assms
proof (induction rel "(result, stack, visited)" arbitrary: result stack visited rule: tc_loop.induct)
  case (1 rel result visited)
  have "x \<in> visited" if "(start, x) \<in> (rel_of rel)\<^sup>*" for x
    using that
  proof (induction rule: rtrancl_induct)
    case base
    from 1 show ?case by simp
  next
    case (step y z)
    with "1.prems"(6)[of y] show ?case by auto
  qed
  with 1 show ?case by auto
next
  case (2 rel result cur stack visited)
  let ?nx = "ulist rel cur"
  have st: "fold tc_push ?nx (result, stack, visited) =
      (result @ fresh visited ?nx, rev (fresh visited ?nx) @ stack, visited \<union> set ?nx)"
    by (rule fold_tc_push)
  have cur: "(start, cur) \<in> (rel_of rel)\<^sup>*" using "2.prems"(4,5) by auto
  have "set (tc_loop rel (result @ fresh visited ?nx, rev (fresh visited ?nx) @ stack, visited \<union> set ?nx))
      = (rel_of rel)\<^sup>* `` {start} - {start} \<and>
      distinct (tc_loop rel (result @ fresh visited ?nx, rev (fresh visited ?nx) @ stack, visited \<union> set ?nx))"
  proof (rule "2.hyps"[OF st])
    show "visited \<union> set ?nx = insert start (set (result @ fresh visited ?nx))"
      using "2.prems"(1) by (auto simp: set_fresh)
    show "start \<notin> set (result @ fresh visited ?nx)"
      using "2.prems"(1,2) by (auto simp: set_fresh)
    show "distinct (result @ fresh visited ?nx)"
      using "2.prems"(1,3) by (auto simp: set_fresh distinct_fresh)
    show "set (rev (fresh visited ?nx) @ stack) \<subseteq> visited \<union> set ?nx"
      using "2.prems"(4) by (auto simp: set_fresh)
    show "visited \<union> set ?nx \<subseteq> (rel_of rel)\<^sup>* `` {start}"
      using "2.prems"(5) cur by (auto intro: rtrancl_into_rtrancl)
    show "set (ulist rel x) \<subseteq> visited \<union> set ?nx"
      if "x \<in> visited \<union> set ?nx" and "x \<notin> set (rev (fresh visited ?nx) @ stack)" for x
      using "2.prems"(6)[of x] that by (cases "x = cur") (auto simp: set_fresh)
  qed
  with st show ?case by simp
qed

lemma transitiveClosure_spec:
  "set (transitiveClosure start rel) = (rel_of rel)\<^sup>* `` {start} - {start}"
  "distinct (transitiveClosure start rel)"
proof -
  have "set (transitiveClosure start rel) = (rel_of rel)\<^sup>* `` {start} - {start} \<and>
        distinct (transitiveClosure start rel)"
  proof (cases "map_of rel start")
    case None
    then have "ulist rel start = []" by (simp add: ulist_None)
    then have "x = start" if "(start, x) \<in> (rel_of rel)\<^sup>*" for x
      using that by (auto elim: converse_rtranclE)
    with None show ?thesis by (auto simp: transitiveClosure_def)
  next
    case (Some v)
    then show ?thesis
      using tc_loop_spec[of "{start}" start "[]" "[start]" rel]
      by (simp add: transitiveClosure_def)
  qed
  then show "set (transitiveClosure start rel) = (rel_of rel)\<^sup>* `` {start} - {start}"
    "distinct (transitiveClosure start rel)" by auto
qed

text \<open>Two maps that hold converse relations have converse closures.\<close>

lemma transitiveClosure_converse:
  assumes "rel_of bwd = (rel_of fwd)\<inverse>"
  shows "b \<in> set (transitiveClosure a fwd) \<longleftrightarrow> a \<in> set (transitiveClosure b bwd)"
  using assms by (auto simp: transitiveClosure_spec rtrancl_converse)

subsection \<open>The derived-class walk\<close>

function derived_loop :: "('a, 'a list) umap \<Rightarrow> 'a list \<Rightarrow> 'a list \<Rightarrow> 'a set \<Rightarrow> 'a list" where
  "derived_loop rel result [] visited = result"
| "derived_loop rel result (cls # stack) visited =
     (if cls \<in> visited then derived_loop rel result stack visited
      else derived_loop rel (result @ ulist rel cls) (rev (ulist rel cls) @ stack)
             (insert cls visited))"
  by pat_completeness auto
termination
proof (relation "inv_image (less_than <*lex*> less_than)
    (\<lambda>(rel, result, stack, visited). (card (fst ` set rel - visited), length stack))",
    goal_cases)
  case (3 rel result cls stack visited)
  show ?case
  proof (cases "cls \<in> fst ` set rel")
    case True
    with 3 have "card (fst ` set rel - insert cls visited) < card (fst ` set rel - visited)"
      by (intro psubset_card_mono) auto
    then show ?thesis by simp
  next
    case False
    then have "ulist rel cls = []" by (rule ulist_dom_or_Nil)
    moreover from False have "fst ` set rel - insert cls visited = fst ` set rel - visited" by auto
    ultimately show ?thesis by simp
  qed
qed auto

definition derivedClosure :: "'a \<Rightarrow> ('a, 'a list) umap \<Rightarrow> 'a list" where
  "derivedClosure base rel = derived_loop rel [] [base] {}"

lemma derived_loop_spec:
  assumes "set result \<subseteq> (rel_of rel)\<^sup>+ `` {base}"
    and "set stack \<subseteq> (rel_of rel)\<^sup>* `` {base}"
    and "visited \<subseteq> (rel_of rel)\<^sup>* `` {base}"
    and "base \<in> visited \<union> set stack"
    and "set result \<subseteq> visited \<union> set stack"
    and "\<And>x. x \<in> visited \<Longrightarrow> set (ulist rel x) \<subseteq> set result"
  shows "set (derived_loop rel result stack visited) = (rel_of rel)\<^sup>+ `` {base}"
  using assms
proof (induction rel result stack visited rule: derived_loop.induct)
  case (1 rel result visited)
  have "x \<in> set result" if "(base, x) \<in> (rel_of rel)\<^sup>+" for x
    using that
  proof (induction rule: trancl_induct)
    case (base y)
    with "1.prems"(4,6) show ?case by auto
  next
    case (step y z)
    with "1.prems"(5,6) show ?case by auto
  qed
  with "1.prems"(1) show ?case by auto
next
  case (2 rel result cls stack visited)
  show ?case
  proof (cases "cls \<in> visited")
    case True
    with 2 show ?thesis by auto
  next
    case False
    have cls: "(base, cls) \<in> (rel_of rel)\<^sup>*" using "2.prems"(2) by auto
    have "set (derived_loop rel (result @ ulist rel cls) (rev (ulist rel cls) @ stack) (insert cls visited))
        = (rel_of rel)\<^sup>+ `` {base}"
    proof (rule "2.IH"(2)[OF False])
      show "set (result @ ulist rel cls) \<subseteq> (rel_of rel)\<^sup>+ `` {base}"
        using "2.prems"(1) cls by (auto intro: rtrancl_into_trancl1)
      show "set (rev (ulist rel cls) @ stack) \<subseteq> (rel_of rel)\<^sup>* `` {base}"
        using "2.prems"(2) cls by (auto intro: rtrancl_into_rtrancl)
      show "set (ulist rel x) \<subseteq> set (result @ ulist rel cls)" if "x \<in> insert cls visited" for x
        using that "2.prems"(6)[of x] by auto
    qed (use "2.prems"(3-5) cls in auto)
    with False show ?thesis by simp
  qed
qed

lemma derivedClosure_spec: "set (derivedClosure base rel) = (rel_of rel)\<^sup>+ `` {base}"
  unfolding derivedClosure_def by (rule derived_loop_spec) auto

end
