(* ===== verification/CallGraph.thy ===== *)
theory CallGraph
  imports Interner Closure "HOL-Library.List_Lexorder" "HOL-Library.Char_ord"
begin

text \<open>
  The data model and the operations of \<open>class CallGraph\<close>
  (include/vycor/callgraph/CallGraph.h, src/callgraph/CallGraph.cpp): interned nodes keyed by
  USR, deduplicated edges with a registration count, the relation maps (derived classes,
  overrides, effective implementations, function returns) and the per-TU provenance that
  \<open>removeTUs\<close> releases.  The mutex has no sequential effect and the \<open>assert(!readOnly_)\<close>
  of the mutators, compiled out of release builds, is not modelled.  \<open>unsigned\<close> line
  numbers and indirection depths are only stored and compared, so they are naturals; so is
  the registration count \<open>refs\<close>, one per \<open>addEdge\<close> call.
\<close>

subsection \<open>Enumerations and records\<close>

datatype EdgeKind =
    DirectCall | VirtualDispatch | FunctionPointer | ConstructorCall | DestructorCall
  | OperatorCall | TemplateInstantiation | LambdaCall | ThreadEntry | FunctionPointerReturn

datatype Confidence = Proven | Plausible | UnknownConfidence

datatype ExecutionContext = Synchronous | ThreadSpawn | AsyncTask | PackagedTask | Invoke

record CallGraphNode =
  qualifiedName :: string
  nodeFile :: string
  nodeLine :: nat
  isEntryPoint :: bool
  isVirtual :: bool
  enclosingClass :: string
  usr :: string

record CallGraphEdge =
  callerName :: string
  calleeName :: string
  kind :: EdgeKind
  confidence :: Confidence
  callSite :: string
  indirectionDepth :: nat
  execContext :: ExecutionContext
  callerUsr :: string
  calleeUsr :: string

record EdgeRef =
  refCaller :: sid
  refCallee :: sid
  refCallSite :: sid
  refKind :: EdgeKind
  refConfidence :: Confidence
  refExecContext :: ExecutionContext
  refDepth :: nat

record StoredEdge =
  seCaller :: sid
  seCallee :: sid
  seCallSite :: sid
  seKind :: EdgeKind
  seConfidence :: Confidence
  seExecContext :: ExecutionContext
  seDepth :: nat
  refs :: nat

type_synonym EdgeKey =
  "sid \<times> sid \<times> sid \<times> EdgeKind \<times> Confidence \<times> ExecutionContext \<times> nat"

definition keyOf :: "StoredEdge \<Rightarrow> EdgeKey" where
  "keyOf se = (seCaller se, seCallee se, seCallSite se, seKind se, seConfidence se,
               seExecContext se, seDepth se)"

record CallGraph =
  cgInterner :: interner
  nodes :: "(sid, CallGraphNode) umap"
  byName :: "(sid, sid list) umap"
  edges :: "StoredEdge list"
  edgeIndex :: "(EdgeKey, nat) umap"
  outEdges :: "(sid, nat list) umap"
  inEdges :: "(sid, nat list) umap"
  derivedClasses :: "(sid, sid list) umap"
  methodOverrides :: "(sid, sid list) umap"
  overrideBases :: "(sid, sid list) umap"
  effectiveImplClasses :: "(sid, sid list) umap"
  functionReturns :: "(sid, sid list) umap"
  returnedBy :: "(sid, sid list) umap"
  tuEdges :: "(sid, nat list) umap"
  nodeContributors :: "(sid, sid list) umap"
  tuNodes :: "(sid, sid list) umap"
  liveEdgeCount :: nat

definition empty_graph :: CallGraph where
  "empty_graph =
     \<lparr>cgInterner = empty_interner, nodes = [], byName = [], edges = [], edgeIndex = [],
      outEdges = [], inEdges = [], derivedClasses = [], methodOverrides = [],
      overrideBases = [], effectiveImplClasses = [], functionReturns = [], returnedBy = [],
      tuEdges = [], nodeContributors = [], tuNodes = [], liveEdgeCount = 0\<rparr>"

subsection \<open>Nodes\<close>

definition backfill :: "CallGraphNode \<Rightarrow> CallGraphNode \<Rightarrow> CallGraphNode" where
  \<comment> \<open>the union semantics of a repeated registration: the first display name stays\<close>
  "backfill old node =
     old\<lparr>nodeFile := (if nodeFile node \<noteq> [] then nodeFile node else nodeFile old),
         nodeLine := (if nodeLine node \<noteq> 0 then nodeLine node else nodeLine old),
         isEntryPoint := (if isEntryPoint node then True else isEntryPoint old),
         isVirtual := (if isVirtual node then True else isVirtual old),
         enclosingClass :=
           (if enclosingClass node \<noteq> [] then enclosingClass node else enclosingClass old)\<rparr>"

definition register_node :: "sid \<Rightarrow> sid \<Rightarrow> CallGraphNode \<Rightarrow> CallGraph \<Rightarrow> CallGraph" where
  "register_node nameId displayId node g =
     (case map_of (nodes g) nameId of
        None \<Rightarrow> g\<lparr>byName := upush_new displayId nameId (byName g),
                 nodes := uemplace nameId node (nodes g)\<rparr>
      | Some old \<Rightarrow> g\<lparr>nodes := AList.update nameId (backfill old node) (nodes g)\<rparr>)"

definition add_contributor :: "sid \<Rightarrow> sid \<Rightarrow> CallGraph \<Rightarrow> CallGraph" where
  \<comment> \<open>\<open>if (nodeContributors_[n].insert(tu).second) tuNodes_[tu].push_back(n)\<close>\<close>
  "add_contributor nameId tuId g =
     (if tuId \<in> set (ulist (nodeContributors g) nameId) then g
      else g\<lparr>nodeContributors := uinsert nameId tuId (nodeContributors g),
             tuNodes := upush tuId nameId (tuNodes g)\<rparr>)"

definition addNode :: "CallGraphNode \<Rightarrow> string \<Rightarrow> CallGraph \<Rightarrow> CallGraph" where
  "addNode node0 tuPath g =
     (let node = (if usr node0 = [] then node0\<lparr>usr := qualifiedName node0\<rparr> else node0);
          (nameId, I1) = intern (usr node) (cgInterner g);
          (displayId, I2) = intern (qualifiedName node) I1;
          g1 = register_node nameId displayId node (g\<lparr>cgInterner := I2\<rparr>)
      in if tuPath = [] then g1
         else let (tuId, I3) = intern tuPath I2
              in add_contributor nameId tuId (g1\<lparr>cgInterner := I3\<rparr>))"

definition displayFor :: "CallGraph \<Rightarrow> sid \<Rightarrow> string" where
  "displayFor g usrId =
     (case map_of (nodes g) usrId of
        Some n \<Rightarrow> qualifiedName n
      | None \<Rightarrow> resolve (cgInterner g) usrId)"

definition resolveUsrIds :: "CallGraph \<Rightarrow> string \<Rightarrow> sid list" where
  "resolveUsrIds g name =
     (case find_id (cgInterner g) name of
        None \<Rightarrow> []
      | Some i \<Rightarrow>
          (if map_of (nodes g) i \<noteq> None then [i]
           else if ulist (byName g) i \<noteq> [] then ulist (byName g) i
           else [i]))"

definition usrsForName :: "CallGraph \<Rightarrow> string \<Rightarrow> string list" where
  "usrsForName g name = map (resolve (cgInterner g)) (resolveUsrIds g name)"

definition materialize :: "CallGraph \<Rightarrow> EdgeRef \<Rightarrow> CallGraphEdge" where
  "materialize g r =
     \<lparr>callerName = displayFor g (refCaller r), calleeName = displayFor g (refCallee r),
      kind = refKind r, confidence = refConfidence r,
      callSite = resolve (cgInterner g) (refCallSite r), indirectionDepth = refDepth r,
      execContext = refExecContext r, callerUsr = resolve (cgInterner g) (refCaller r),
      calleeUsr = resolve (cgInterner g) (refCallee r)\<rparr>"

subsection \<open>Edges\<close>

definition probe_edge :: "StoredEdge \<Rightarrow> CallGraph \<Rightarrow> nat \<times> CallGraph" where
  \<comment> \<open>the dedup probe of \<open>addEdge\<close> and \<open>absorb\<close>: the position of the edge, its count
      raised by \<open>refs se\<close> when it is already stored\<close>
  "probe_edge se g =
     (case map_of (edgeIndex g) (keyOf se) of
        Some idx \<Rightarrow>
          (idx, g\<lparr>edges := (edges g)[idx := (edges g ! idx)\<lparr>refs := refs (edges g ! idx) + refs se\<rparr>]\<rparr>)
      | None \<Rightarrow>
          (let idx = length (edges g) in
           (idx, g\<lparr>outEdges := upush (seCaller se) idx (outEdges g),
                   inEdges := upush (seCallee se) idx (inEdges g),
                   edges := edges g @ [se],
                   edgeIndex := uemplace (keyOf se) idx (edgeIndex g),
                   liveEdgeCount := Suc (liveEdgeCount g)\<rparr>)))"

definition addEdge :: "CallGraphEdge \<Rightarrow> string \<Rightarrow> CallGraph \<Rightarrow> CallGraph" where
  "addEdge edge tuPath g =
     (let (callerId, I1) = intern (callerName edge) (cgInterner g);
          (calleeId, I2) = intern (calleeName edge) I1;
          (siteId, I3) = intern (callSite edge) I2;
          se = \<lparr>seCaller = callerId, seCallee = calleeId, seCallSite = siteId,
                seKind = kind edge, seConfidence = confidence edge,
                seExecContext = execContext edge, seDepth = indirectionDepth edge, refs = 1\<rparr>;
          (idx, g1) = probe_edge se (g\<lparr>cgInterner := I3\<rparr>)
      in if tuPath = [] then g1
         else let (tuId, I4) = intern tuPath I3
              in g1\<lparr>cgInterner := I4, tuEdges := upush tuId idx (tuEdges g1)\<rparr>)"

subsection \<open>Edge queries in id space\<close>

definition ref_of :: "StoredEdge \<Rightarrow> EdgeRef" where
  "ref_of se =
     \<lparr>refCaller = seCaller se, refCallee = seCallee se, refCallSite = seCallSite se,
      refKind = seKind se, refConfidence = seConfidence se,
      refExecContext = seExecContext se, refDepth = seDepth se\<rparr>"

text \<open>\<open>if (!seen.insert(key).second) continue; result.push_back(r);\<close>\<close>

definition synth :: "'k \<Rightarrow> 'r \<Rightarrow> 'k set \<times> 'r list \<Rightarrow> 'k set \<times> 'r list" where
  "synth key r s =
     (case s of (seen, result) \<Rightarrow>
        if key \<in> seen then (seen, result) else (insert key seen, result @ [r]))"

definition joined_kind :: "StoredEdge \<Rightarrow> EdgeKind" where
  \<comment> \<open>the kind of an edge synthesised from a deferred function-return row\<close>
  "joined_kind se = (if seExecContext se \<noteq> Synchronous then ThreadEntry else FunctionPointer)"

definition dispatches :: "StoredEdge \<Rightarrow> bool" where
  "dispatches se \<longleftrightarrow> \<not> (refs se = 0 \<or> seKind se \<noteq> VirtualDispatch \<or> seConfidence se \<noteq> Plausible)"

definition defers :: "StoredEdge \<Rightarrow> bool" where
  "defers se \<longleftrightarrow> \<not> (refs se = 0 \<or> seKind se \<noteq> FunctionPointerReturn)"

definition callee_stored :: "StoredEdge \<Rightarrow> (sid \<times> sid) set \<times> EdgeRef list \<Rightarrow> (sid \<times> sid) set \<times> EdgeRef list" where
  "callee_stored se s =
     (case s of (seen, result) \<Rightarrow>
        if refs se = 0 then s
        else if seKind se = FunctionPointerReturn then s
        else ((if seKind se = VirtualDispatch then insert (seCallee se, seCallSite se) seen else seen),
              result @ [ref_of se]))"

definition callee_virtual :: "CallGraph \<Rightarrow> StoredEdge \<Rightarrow> (sid \<times> sid) set \<times> EdgeRef list \<Rightarrow> (sid \<times> sid) set \<times> EdgeRef list" where
  "callee_virtual g se s =
     (if \<not> dispatches se then s
      else fold (\<lambda>ovId. synth (ovId, seCallSite se) ((ref_of se)\<lparr>refCallee := ovId\<rparr>))
             (transitiveClosure (seCallee se) (methodOverrides g)) s)"

definition callee_returns :: "CallGraph \<Rightarrow> StoredEdge \<Rightarrow> (sid \<times> sid) set \<times> EdgeRef list \<Rightarrow> (sid \<times> sid) set \<times> EdgeRef list" where
  "callee_returns g se s =
     (if \<not> defers se then s
      else fold (\<lambda>retId. synth (retId, seCallSite se)
                    ((ref_of se)\<lparr>refCallee := retId, refKind := joined_kind se\<rparr>))
             (ulist (functionReturns g) (seCallee se)) s)"

definition calleeRefsOf :: "CallGraph \<Rightarrow> sid \<Rightarrow> EdgeRef list" where
  "calleeRefsOf g caller =
     (case map_of (outEdges g) caller of
        None \<Rightarrow> []
      | Some idxs \<Rightarrow>
          (let s1 = fold (\<lambda>idx. callee_stored (edges g ! idx)) idxs ({}, []);
               s2 = fold (\<lambda>idx. callee_virtual g (edges g ! idx)) idxs s1;
               s3 = fold (\<lambda>idx. callee_returns g (edges g ! idx)) idxs s2
           in snd s3))"

definition caller_stored :: "StoredEdge \<Rightarrow> (sid \<times> sid) set \<times> EdgeRef list \<Rightarrow> (sid \<times> sid) set \<times> EdgeRef list" where
  "caller_stored se s =
     (case s of (seen, result) \<Rightarrow>
        if refs se = 0 then s
        else if seKind se = FunctionPointerReturn then s
        else (insert (seCaller se, seCallSite se) seen, result @ [ref_of se]))"

definition caller_virtual :: "sid \<Rightarrow> StoredEdge \<Rightarrow> (sid \<times> sid) set \<times> EdgeRef list \<Rightarrow> (sid \<times> sid) set \<times> EdgeRef list" where
  "caller_virtual callee se s =
     (if \<not> dispatches se then s
      else synth (seCaller se, seCallSite se) ((ref_of se)\<lparr>refCallee := callee\<rparr>) s)"

definition caller_returns :: "sid \<Rightarrow> StoredEdge \<Rightarrow> (sid \<times> sid) set \<times> EdgeRef list \<Rightarrow> (sid \<times> sid) set \<times> EdgeRef list" where
  "caller_returns callee se s =
     (if \<not> defers se then s
      else synth (seCaller se, seCallSite se)
             ((ref_of se)\<lparr>refCallee := callee, refKind := joined_kind se\<rparr>) s)"

definition callerRefsOf :: "CallGraph \<Rightarrow> sid \<Rightarrow> EdgeRef list" where
  "callerRefsOf g callee =
     (let s1 = fold (\<lambda>idx. caller_stored (edges g ! idx)) (ulist (inEdges g) callee) ({}, []);
          s2 = fold (\<lambda>baseId. fold (\<lambda>idx. caller_virtual callee (edges g ! idx))
                                 (ulist (inEdges g) baseId))
                 (transitiveClosure callee (overrideBases g)) s1;
          s3 = fold (\<lambda>returner. fold (\<lambda>idx. caller_returns callee (edges g ! idx))
                                   (ulist (inEdges g) returner))
                 (ulist (returnedBy g) callee) s2
      in snd s3)"

subsection \<open>By-name queries\<close>

definition calleesOf :: "CallGraph \<Rightarrow> string \<Rightarrow> CallGraphEdge list" where
  "calleesOf g name =
     concat (map (\<lambda>usrId. map (materialize g) (calleeRefsOf g usrId)) (resolveUsrIds g name))"

definition callersOf :: "CallGraph \<Rightarrow> string \<Rightarrow> CallGraphEdge list" where
  "callersOf g name =
     concat (map (\<lambda>usrId. map (materialize g) (callerRefsOf g usrId)) (resolveUsrIds g name))"

definition storedInDegree_id :: "CallGraph \<Rightarrow> sid \<Rightarrow> nat" where
  "storedInDegree_id g i =
     fold (\<lambda>idx count. if refs (edges g ! idx) > 0 then Suc count else count)
       (ulist (inEdges g) i) 0"

definition storedInDegree :: "CallGraph \<Rightarrow> string \<Rightarrow> nat" where
  "storedInDegree g name =
     fold (\<lambda>usrId count. count + storedInDegree_id g usrId) (resolveUsrIds g name) 0"

definition nodeCount :: "CallGraph \<Rightarrow> nat" where
  "nodeCount g = length (nodes g)"

definition edgeCount :: "CallGraph \<Rightarrow> nat" where
  "edgeCount g = liveEdgeCount g"

definition allNodes :: "CallGraph \<Rightarrow> CallGraphNode list" where
  "allNodes g = map snd (nodes g)"

definition findNode :: "CallGraph \<Rightarrow> string \<Rightarrow> CallGraphNode option" where
  "findNode g name =
     fold (\<lambda>usrId best.
             case map_of (nodes g) usrId of
               None \<Rightarrow> best
             | Some n \<Rightarrow>
                 (case best of
                    None \<Rightarrow> Some n
                  | Some b \<Rightarrow> if usr n < usr b then Some n else best))
       (resolveUsrIds g name) None"

subsection \<open>Relations\<close>

definition addDerivedClass :: "string \<Rightarrow> string \<Rightarrow> CallGraph \<Rightarrow> CallGraph" where
  "addDerivedClass baseClass derivedClass g =
     (let (baseId, I1) = intern baseClass (cgInterner g);
          (derivedId, I2) = intern derivedClass I1
      in g\<lparr>cgInterner := I2, derivedClasses := upush_new baseId derivedId (derivedClasses g)\<rparr>)"

definition getDerivedClasses :: "CallGraph \<Rightarrow> string \<Rightarrow> string list" where
  "getDerivedClasses g baseClass =
     (case find_id (cgInterner g) baseClass of
        None \<Rightarrow> []
      | Some i \<Rightarrow> map (resolve (cgInterner g)) (ulist (derivedClasses g) i))"

definition getAllDerivedClasses :: "CallGraph \<Rightarrow> string \<Rightarrow> string list" where
  "getAllDerivedClasses g baseClass =
     (case find_id (cgInterner g) baseClass of
        None \<Rightarrow> []
      | Some i \<Rightarrow> map (resolve (cgInterner g)) (derivedClosure i (derivedClasses g)))"

definition relate_override :: "sid \<Rightarrow> sid \<Rightarrow> CallGraph \<Rightarrow> CallGraph" where
  "relate_override baseId overrideId g =
     g\<lparr>methodOverrides := upush_new baseId overrideId (methodOverrides g),
       overrideBases := upush_new overrideId baseId (overrideBases g)\<rparr>"

definition addMethodOverride :: "string \<Rightarrow> string \<Rightarrow> CallGraph \<Rightarrow> CallGraph" where
  "addMethodOverride baseMethod overrideMethod g =
     (let (baseId, I1) = intern baseMethod (cgInterner g);
          (overrideId, I2) = intern overrideMethod I1
      in relate_override baseId overrideId (g\<lparr>cgInterner := I2\<rparr>))"

text \<open>The union of per-candidate id lists without repetition, in order of appearance.\<close>

definition union_ids :: "(sid \<Rightarrow> sid list) \<Rightarrow> sid list \<Rightarrow> sid list" where
  "union_ids f us =
     snd (fold (\<lambda>u s. fold (\<lambda>i. synth i i) (f u) s) us ({}, []))"

definition getOverrides :: "CallGraph \<Rightarrow> string \<Rightarrow> string list" where
  "getOverrides g baseMethod =
     map (displayFor g) (union_ids (ulist (methodOverrides g)) (resolveUsrIds g baseMethod))"

definition getTransitiveOverrides :: "CallGraph \<Rightarrow> string \<Rightarrow> string list" where
  "getTransitiveOverrides g baseMethod =
     map (displayFor g)
       (union_ids (\<lambda>u. transitiveClosure u (methodOverrides g)) (resolveUsrIds g baseMethod))"

definition getOverriddenBases :: "CallGraph \<Rightarrow> string \<Rightarrow> string list" where
  "getOverriddenBases g method =
     map (displayFor g)
       (union_ids (\<lambda>u. transitiveClosure u (overrideBases g)) (resolveUsrIds g method))"

definition addEffectiveImpl :: "string \<Rightarrow> string \<Rightarrow> CallGraph \<Rightarrow> CallGraph" where
  "addEffectiveImpl concreteClass implMethod g =
     (let (implId, I1) = intern implMethod (cgInterner g);
          (classId, I2) = intern concreteClass I1
      in g\<lparr>cgInterner := I2, effectiveImplClasses := uinsert implId classId (effectiveImplClasses g)\<rparr>)"

definition getClassesForImpl :: "CallGraph \<Rightarrow> string \<Rightarrow> string list" where
  "getClassesForImpl g implMethod =
     map (resolve (cgInterner g))
       (union_ids (ulist (effectiveImplClasses g)) (resolveUsrIds g implMethod))"

definition relate_return :: "sid \<Rightarrow> sid \<Rightarrow> CallGraph \<Rightarrow> CallGraph" where
  "relate_return funcId retId g =
     g\<lparr>functionReturns := uinsert funcId retId (functionReturns g),
       returnedBy := (if retId \<in> set (ulist (functionReturns g) funcId) then returnedBy g
                      else upush retId funcId (returnedBy g))\<rparr>"

definition addFunctionReturn :: "string \<Rightarrow> string \<Rightarrow> CallGraph \<Rightarrow> CallGraph" where
  "addFunctionReturn funcName returnedFunc g =
     (let (funcId, I1) = intern funcName (cgInterner g);
          (retId, I2) = intern returnedFunc I1
      in relate_return funcId retId (g\<lparr>cgInterner := I2\<rparr>))"

definition getFunctionReturns :: "CallGraph \<Rightarrow> string \<Rightarrow> string set" where
  "getFunctionReturns g funcName =
     set (concat (map (\<lambda>u. map (displayFor g) (ulist (functionReturns g) u))
                    (resolveUsrIds g funcName)))"

subsection \<open>Shard merge\<close>

definition remap_edge :: "(sid \<Rightarrow> sid) \<Rightarrow> StoredEdge \<Rightarrow> StoredEdge" where
  "remap_edge rm se =
     se\<lparr>seCaller := rm (seCaller se), seCallee := rm (seCallee se), seCallSite := rm (seCallSite se)\<rparr>"

definition absorb_node :: "(sid \<Rightarrow> sid) \<Rightarrow> CallGraph \<Rightarrow> sid \<times> CallGraphNode \<Rightarrow> CallGraph \<Rightarrow> CallGraph" where
  "absorb_node rm shard p g =
     (case p of (shardNameId, node) \<Rightarrow>
        let nameId = rm shardNameId;
            g1 = (case map_of (nodes g) nameId of
                    None \<Rightarrow>
                      (let (displayId, I) = intern (qualifiedName node) (cgInterner g)
                       in register_node nameId displayId node (g\<lparr>cgInterner := I\<rparr>))
                  | Some old \<Rightarrow> g\<lparr>nodes := AList.update nameId (backfill old node) (nodes g)\<rparr>)
        in fold (\<lambda>shardTu. add_contributor nameId (rm shardTu))
             (ulist (nodeContributors shard) shardNameId) g1)"

definition absorb_edge :: "(sid \<Rightarrow> sid) \<Rightarrow> StoredEdge \<Rightarrow> nat option list \<times> CallGraph \<Rightarrow> nat option list \<times> CallGraph" where
  \<comment> \<open>\<open>edgeRemap\<close> is built in order; \<^const>\<open>None\<close> is \<open>kDeadEdge\<close>\<close>
  "absorb_edge rm src s =
     (case s of (edgeRemap, g) \<Rightarrow>
        if refs src = 0 then (edgeRemap @ [None], g)
        else let (idx, g1) = probe_edge (remap_edge rm src) g in (edgeRemap @ [Some idx], g1))"

definition absorb_tu_edges :: "(sid \<Rightarrow> sid) \<Rightarrow> nat option list \<Rightarrow> sid \<times> nat list \<Rightarrow> CallGraph \<Rightarrow> CallGraph" where
  "absorb_tu_edges rm edgeRemap p g =
     (case p of (shardTu, idxs) \<Rightarrow>
        let tuId = rm shardTu in
        g\<lparr>tuEdges := AList.update tuId
             (ulist (tuEdges g) tuId @ List.map_filter (\<lambda>i. edgeRemap ! i) idxs) (tuEdges g)\<rparr>)"

definition absorb_relations :: "(sid \<Rightarrow> sid) \<Rightarrow> CallGraph \<Rightarrow> CallGraph \<Rightarrow> CallGraph" where
  "absorb_relations rm shard g0 =
     (let g1 = fold (\<lambda>(base, vec) g.
                       g\<lparr>derivedClasses :=
                           fold (\<lambda>d. upush_new (rm base) (rm d)) vec
                             (AList.update (rm base) (ulist (derivedClasses g) (rm base))
                                (derivedClasses g))\<rparr>)
                 (derivedClasses shard) g0;
          g2 = fold (\<lambda>(base, vec). fold (\<lambda>ov. relate_override (rm base) (rm ov)) vec)
                 (methodOverrides shard) g1;
          g3 = fold (\<lambda>(impl, classes) g.
                       g\<lparr>effectiveImplClasses :=
                           fold (\<lambda>cls. uinsert (rm impl) (rm cls)) classes
                             (AList.update (rm impl) (ulist (effectiveImplClasses g) (rm impl))
                                (effectiveImplClasses g))\<rparr>)
                 (effectiveImplClasses shard) g2
      in fold (\<lambda>(fn, rets). fold (\<lambda>ret. relate_return (rm fn) (rm ret)) rets)
           (functionReturns shard) g3)"

definition absorb :: "CallGraph \<Rightarrow> CallGraph \<Rightarrow> CallGraph" where
  "absorb shard g =
     (let (ids, I) = intern_all (strings (cgInterner shard)) (cgInterner g);
          rm = (\<lambda>i. ids ! unat i);
          g1 = fold (absorb_node rm shard) (nodes shard) (g\<lparr>cgInterner := I\<rparr>);
          (edgeRemap, g2) = fold (absorb_edge rm) (edges shard) ([], g1);
          g3 = fold (absorb_tu_edges rm edgeRemap) (tuEdges shard) g2
      in absorb_relations rm shard g3)"

subsection \<open>Removal and compaction\<close>

text \<open>The state of the first pass: the graph, the dead indices, the affected endpoints, the count.\<close>

record Release =
  relGraph :: CallGraph
  relDead :: "nat set"
  relCallers :: "sid list"
  relCallees :: "sid list"
  relRemoved :: nat

definition release_edge :: "nat \<Rightarrow> Release \<Rightarrow> Release" where
  "release_edge idx r =
     (let g = relGraph r; e = edges g ! idx in
      if refs e = 0 then r
      else let e1 = e\<lparr>refs := refs e - 1\<rparr>; g1 = g\<lparr>edges := (edges g)[idx := e1]\<rparr> in
           if refs e1 > 0 then r\<lparr>relGraph := g1\<rparr>
           else r\<lparr>relGraph := g1\<lparr>edgeIndex := AList.delete (keyOf e1) (edgeIndex g1),
                                  liveEdgeCount := liveEdgeCount g1 - 1\<rparr>,
                  relDead := insert idx (relDead r),
                  relCallers := List.insert (seCaller e1) (relCallers r),
                  relCallees := List.insert (seCallee e1) (relCallees r),
                  relRemoved := Suc (relRemoved r)\<rparr>)"

definition release_tu :: "sid \<Rightarrow> Release \<Rightarrow> Release" where
  "release_tu tuId r =
     (case map_of (tuEdges (relGraph r)) tuId of
        None \<Rightarrow> r
      | Some idxs \<Rightarrow>
          (let r1 = fold release_edge idxs r in
           r1\<lparr>relGraph := (relGraph r1)\<lparr>tuEdges := AList.delete tuId (tuEdges (relGraph r1))\<rparr>\<rparr>))"

definition drop_name :: "sid \<Rightarrow> CallGraphNode \<Rightarrow> CallGraph \<Rightarrow> CallGraph" where
  "drop_name nodeId node g =
     (case find_id (cgInterner g) (qualifiedName node) of
        None \<Rightarrow> g
      | Some displayId \<Rightarrow>
          (case map_of (byName g) displayId of
             None \<Rightarrow> g
           | Some vec \<Rightarrow>
               (let vec1 = removeAll nodeId vec in
                g\<lparr>byName := (if vec1 = [] then AList.delete displayId (byName g)
                             else AList.update displayId vec1 (byName g))\<rparr>)))"

definition release_node :: "sid \<Rightarrow> sid \<Rightarrow> CallGraph \<Rightarrow> CallGraph" where
  "release_node tuId nodeId g =
     (case map_of (nodeContributors g) nodeId of
        None \<Rightarrow> g
      | Some cs \<Rightarrow>
          (let cs1 = removeAll tuId cs in
           if cs1 \<noteq> [] then g\<lparr>nodeContributors := AList.update nodeId cs1 (nodeContributors g)\<rparr>
           else let g1 = (case map_of (nodes g) nodeId of
                            None \<Rightarrow> g
                          | Some node \<Rightarrow>
                              (drop_name nodeId node g)\<lparr>nodes := AList.delete nodeId (nodes g)\<rparr>)
                in g1\<lparr>nodeContributors := AList.delete nodeId (nodeContributors g)\<rparr>))"

definition release_tu_nodes :: "sid \<Rightarrow> CallGraph \<Rightarrow> CallGraph" where
  "release_tu_nodes tuId g =
     (case map_of (tuNodes g) tuId of
        None \<Rightarrow> g
      | Some ns \<Rightarrow>
          (let g1 = fold (release_node tuId) ns g in
           g1\<lparr>tuNodes := AList.delete tuId (tuNodes g1)\<rparr>))"

definition removeTUs :: "string list \<Rightarrow> CallGraph \<Rightarrow> nat \<times> CallGraph" where
  "removeTUs tuPaths g =
     (let tuIds = List.map_filter (find_id (cgInterner g)) tuPaths;
          r = fold release_tu tuIds
                \<lparr>relGraph = g, relDead = {}, relCallers = [], relCallees = [], relRemoved = 0\<rparr>;
          g1 = (relGraph r)
                 \<lparr>outEdges := uscrub (\<lambda>i. i \<in> relDead r) (relCallers r) (outEdges (relGraph r)),
                  inEdges := uscrub (\<lambda>i. i \<in> relDead r) (relCallees r) (inEdges (relGraph r))\<rparr>
      in (relRemoved r, fold release_tu_nodes tuIds g1))"

definition removeTU :: "string \<Rightarrow> CallGraph \<Rightarrow> nat \<times> CallGraph" where
  "removeTU tuPath g = removeTUs [tuPath] g"

record Compaction =
  newEdges :: "StoredEdge list"
  newIndex :: "(EdgeKey, nat) umap"
  newOut :: "(sid, nat list) umap"
  newIn :: "(sid, nat list) umap"
  newRemap :: "(nat, nat) umap"

definition compact_edge :: "CallGraph \<Rightarrow> nat \<Rightarrow> Compaction \<Rightarrow> Compaction" where
  "compact_edge g old c =
     (let edge = edges g ! old in
      if refs edge = 0 then c
      else let neu = length (newEdges c) in
           c\<lparr>newRemap := uemplace old neu (newRemap c),
             newOut := upush (seCaller edge) neu (newOut c),
             newIn := upush (seCallee edge) neu (newIn c),
             newIndex := uemplace (keyOf edge) neu (newIndex c),
             newEdges := newEdges c @ [edge]\<rparr>)"

definition compact_tu :: "(nat, nat) umap \<Rightarrow> sid \<times> nat list \<Rightarrow> (sid, nat list) umap \<Rightarrow> (sid, nat list) umap" where
  "compact_tu remap p m =
     (case p of (tuId, indices) \<Rightarrow>
        let vec = ulist m tuId @ List.map_filter (map_of remap) indices in
        if vec = [] then AList.delete tuId m else AList.update tuId vec m)"

definition compact :: "CallGraph \<Rightarrow> CallGraph" where
  "compact g =
     (let c = fold (compact_edge g) [0..<length (edges g)]
                \<lparr>newEdges = [], newIndex = [], newOut = [], newIn = [], newRemap = []\<rparr>
      in g\<lparr>edges := newEdges c, edgeIndex := newIndex c, outEdges := newOut c,
           inEdges := newIn c, tuEdges := fold (compact_tu (newRemap c)) (tuEdges g) []\<rparr>)"

text \<open>
  The strings of a call graph, the finite set in which every walk over its edges stays, and the
  arithmetic of a worklist that visits each of them once.
\<close>

definition graph_strings :: "CallGraph \<Rightarrow> string set" where
  "graph_strings g = range (resolve (cgInterner g))"

lemma finite_graph_strings [simp]: "finite (graph_strings g)"
  by (simp add: graph_strings_def)

lemma calleeUsr_graph_strings: "e \<in> set (calleesOf g u) \<Longrightarrow> calleeUsr e \<in> graph_strings g"
  by (auto simp: calleesOf_def materialize_def graph_strings_def)

definition display_names :: "CallGraph \<Rightarrow> string set" where
  "display_names g = graph_strings g \<union> (\<lambda>(i, n). qualifiedName n) ` set (nodes g)"

lemma finite_display_names [simp]: "finite (display_names g)"
  by (simp add: display_names_def)

lemma displayFor_display_names: "displayFor g i \<in> display_names g"
  by (force simp: displayFor_def display_names_def graph_strings_def split: option.splits dest: map_of_SomeD)

lemma callerName_display_names: "e \<in> set (callersOf g u) \<Longrightarrow> callerName e \<in> display_names g"
  by (auto simp: callersOf_def materialize_def displayFor_display_names)

lemma card_unvisited:
  assumes "finite A" and "u \<in> A" and "u \<notin> V"
  shows "Suc (card (A - insert u V)) = card (A - V)"
proof -
  have "A - insert u V = (A - V) - {u}" by blast
  then show ?thesis using assms by (simp only:) (rule card_Suc_Diff1; simp)
qed

lemma card_unvisited_insert:
  assumes "finite A" and "u \<notin> V"
  shows "card (A - insert u V) < card (insert u A - V)"
  using card_unvisited[of "insert u A" u V] assms card_mono[of "insert u A - insert u V" "A - insert u V"]
  by (simp add: insert_Diff_if)

lemma card_unvisited_mono: "finite A \<Longrightarrow> B \<subseteq> A \<Longrightarrow> card (B - V) \<le> card (A - V)"
  by (rule card_mono) auto

end
