(* ===== verification/CallGraphEdges.thy ===== *)
theory CallGraphEdges
  imports CallGraph
begin

text \<open>
  The edge table of \<open>CallGraph\<close>: its invariant (adjacency vectors hold exactly the live
  positions of their endpoint in ascending order, the dedup index is the inverse of the
  table on live edges, the live count is right, every TU registration is backed by a
  reference) and its preservation by \<open>probe_edge\<close>, the release pass of \<open>removeTUs\<close> and
  \<open>compact\<close>, with the exact effect of each on the reference counts.
\<close>

subsection \<open>Invariant\<close>

definition live_at :: "StoredEdge list \<Rightarrow> nat \<Rightarrow> bool" where
  "live_at es i \<longleftrightarrow> i < length es \<and> refs (es ! i) > 0"

definition adjacency_ok :: "(StoredEdge \<Rightarrow> sid) \<Rightarrow> (sid, nat list) umap \<Rightarrow> StoredEdge list \<Rightarrow> bool" where
  "adjacency_ok endpoint m es \<longleftrightarrow>
     (\<forall>c. ulist m c = positions (\<lambda>e. refs e > 0 \<and> endpoint e = c) es)"

definition index_ok :: "(EdgeKey, nat) umap \<Rightarrow> StoredEdge list \<Rightarrow> bool" where
  "index_ok ix es \<longleftrightarrow> (\<forall>k i. map_of ix k = Some i \<longleftrightarrow> live_at es i \<and> keyOf (es ! i) = k)"

definition refs_at :: "StoredEdge list \<Rightarrow> nat \<Rightarrow> nat" where
  "refs_at es i = (if i < length es then refs (es ! i) else 0)"

definition backing_ok :: "(sid, nat list) umap \<Rightarrow> StoredEdge list \<Rightarrow> bool" where
  "backing_ok te es \<longleftrightarrow>
     distinct (ukeys te) \<and> (\<forall>i. ucount te i \<le> refs_at es i)"

definition edge_inv :: "CallGraph \<Rightarrow> bool" where
  "edge_inv g \<longleftrightarrow>
     adjacency_ok seCaller (outEdges g) (edges g) \<and>
     adjacency_ok seCallee (inEdges g) (edges g) \<and>
     index_ok (edgeIndex g) (edges g) \<and>
     liveEdgeCount g = card {i. live_at (edges g) i} \<and>
     backing_ok (tuEdges g) (edges g)"

lemma finite_live [simp]: "finite {i. live_at es i}"
  by (rule finite_subset[of _ "{..<length es}"]) (auto simp: live_at_def)

lemma edge_inv_empty: "edge_inv empty_graph"
  by (simp add: edge_inv_def empty_graph_def adjacency_ok_def index_ok_def backing_ok_def live_at_def)

lemma index_okI:
  "(\<And>k i. map_of ix k = Some i \<longleftrightarrow> live_at es i \<and> keyOf (es ! i) = k) \<Longrightarrow> index_ok ix es"
  by (simp only: index_ok_def) blast

lemma index_ok_iff:
  "index_ok ix es \<Longrightarrow> map_of ix k = Some i \<longleftrightarrow> live_at es i \<and> keyOf (es ! i) = k"
  by (simp only: index_ok_def)

lemma index_ok_None:
  "index_ok ix es \<Longrightarrow> map_of ix k = None \<Longrightarrow> live_at es i \<Longrightarrow> keyOf (es ! i) \<noteq> k"
  using index_ok_iff[of ix es k i] by auto

lemma index_ok_inj:
  "index_ok ix es \<Longrightarrow> live_at es i \<Longrightarrow> live_at es j \<Longrightarrow> keyOf (es ! i) = keyOf (es ! j) \<Longrightarrow> i = j"
  using index_ok_iff[of ix es "keyOf (es ! j)" i] index_ok_iff[of ix es "keyOf (es ! j)" j] by auto

lemma backing_ok_live:
  assumes "backing_ok te es" and "i \<in> set (ulist te tu)"
  shows "live_at es i"
proof -
  have "0 < ucount te i"
    using assms by (auto simp: backing_ok_def intro: set_ulist_ucount)
  then show ?thesis
    using assms(1) by (auto simp: backing_ok_def live_at_def refs_at_def dest!: spec[of _ i] split: if_splits)
qed

lemma backing_ok_mono:
  "backing_ok te es \<Longrightarrow> (\<And>i. refs_at es i \<le> refs_at es' i) \<Longrightarrow> backing_ok te es'"
  unfolding backing_ok_def by (meson le_trans)

text \<open>The number of registrations of a key: the count of its live edge, or 0.\<close>

definition key_refs :: "CallGraph \<Rightarrow> EdgeKey \<Rightarrow> nat" where
  "key_refs g k = (case map_of (edgeIndex g) k of None \<Rightarrow> 0 | Some i \<Rightarrow> refs (edges g ! i))"

text \<open>How often a TU registered a key.\<close>

definition tu_refs :: "CallGraph \<Rightarrow> sid \<Rightarrow> EdgeKey \<Rightarrow> nat" where
  "tu_refs g tu k =
     length (filter (\<lambda>i. keyOf (edges g ! i) = k) (ulist (tuEdges g) tu))"

lemma tu_refs_eq_count:
  assumes "edge_inv g"
  shows "tu_refs g tu k =
           (case map_of (edgeIndex g) k of None \<Rightarrow> 0 | Some i \<Rightarrow> count_list (ulist (tuEdges g) tu) i)"
proof -
  have ix: "index_ok (edgeIndex g) (edges g)" and bk: "backing_ok (tuEdges g) (edges g)"
    using assms by (auto simp: edge_inv_def)
  have live: "live_at (edges g) i" if "i \<in> set (ulist (tuEdges g) tu)" for i
    using bk that by (rule backing_ok_live)
  show ?thesis
  proof (cases "map_of (edgeIndex g) k")
    case None
    then have "filter (\<lambda>i. keyOf (edges g ! i) = k) (ulist (tuEdges g) tu) = []"
      using index_ok_None[OF ix] live by (auto simp: filter_empty_conv)
    with None show ?thesis by (simp add: tu_refs_def)
  next
    case (Some i)
    then have "keyOf (edges g ! j) = k \<longleftrightarrow> j = i" if "j \<in> set (ulist (tuEdges g) tu)" for j
      using index_ok_inj[OF ix live[OF that], of i] index_ok_iff[OF ix, of k i] Some by auto
    then have "filter (\<lambda>j. keyOf (edges g ! j) = k) (ulist (tuEdges g) tu)
        = filter (\<lambda>j. i = j) (ulist (tuEdges g) tu)"
      by (auto intro: filter_cong)
    with Some show ?thesis by (simp add: tu_refs_def count_list_eq_length_filter)
  qed
qed

lemma tu_refs_le: "edge_inv g \<Longrightarrow> tu_refs g tu k \<le> key_refs g k"
proof -
  assume inv: "edge_inv g"
  show ?thesis
  proof (cases "map_of (edgeIndex g) k")
    case None
    with inv show ?thesis by (simp add: tu_refs_eq_count)
  next
    case (Some i)
    with inv have "i < length (edges g)" and bk: "backing_ok (tuEdges g) (edges g)"
      by (auto simp: edge_inv_def index_ok_iff live_at_def)
    then have "ucount (tuEdges g) i \<le> refs (edges g ! i)"
      by (auto simp: backing_ok_def refs_at_def dest!: spec[of _ i])
    moreover from bk have "count_list (ulist (tuEdges g) tu) i \<le> ucount (tuEdges g) i"
      by (auto simp: backing_ok_def intro: count_list_le_ucount)
    ultimately show ?thesis
      using Some by (simp add: tu_refs_eq_count[OF inv] key_refs_def)
  qed
qed

subsection \<open>The dedup probe\<close>

lemma live_at_snoc:
  "live_at (es @ [e]) i \<longleftrightarrow> live_at es i \<or> (i = length es \<and> refs e > 0)"
  by (auto simp: live_at_def nth_append)

lemma live_at_bump:
  "j < length es \<Longrightarrow> refs e' > 0 \<Longrightarrow> refs (es ! j) > 0 \<Longrightarrow> live_at (es[j := e']) i \<longleftrightarrow> live_at es i"
  by (auto simp: live_at_def nth_list_update)

lemma keyOf_refs_update [simp]: "keyOf (e\<lparr>refs := n\<rparr>) = keyOf e"
  by (simp add: keyOf_def)

lemma probe_edge_inv:
  assumes inv: "edge_inv g" and pos: "refs se > 0" and probe: "probe_edge se g = (idx, g')"
  shows "edge_inv g'"
    and "map_of (edgeIndex g') (keyOf se) = Some idx"
    and "\<And>k. key_refs g' k = key_refs g k + (if k = keyOf se then refs se else 0)"
    and "\<And>tu k. tu_refs g' tu k = tu_refs g tu k"
proof -
  have ix: "index_ok (edgeIndex g) (edges g)" and bk: "backing_ok (tuEdges g) (edges g)"
    and out: "adjacency_ok seCaller (outEdges g) (edges g)"
    and inn: "adjacency_ok seCallee (inEdges g) (edges g)"
    and cnt: "liveEdgeCount g = card {i. live_at (edges g) i}"
    using inv by (auto simp: edge_inv_def)
  have tu_range: "i < length (edges g)" if "i \<in> set (ulist (tuEdges g) tu)" for i tu
    using backing_ok_live[OF bk that] by (simp add: live_at_def)
  have "edge_inv g' \<and> map_of (edgeIndex g') (keyOf se) = Some idx \<and>
        (\<forall>k. key_refs g' k = key_refs g k + (if k = keyOf se then refs se else 0)) \<and>
        (\<forall>tu k. tu_refs g' tu k = tu_refs g tu k)"
  proof (cases "map_of (edgeIndex g) (keyOf se)")
    case (Some j)
    let ?e = "(edges g ! j)\<lparr>refs := refs (edges g ! j) + refs se\<rparr>"
    have j: "j < length (edges g)" "refs (edges g ! j) > 0" "keyOf (edges g ! j) = keyOf se"
      using index_ok_iff[OF ix, of "keyOf se" j] Some by (auto simp: live_at_def)
    have g': "g' = g\<lparr>edges := (edges g)[j := ?e]\<rparr>" "idx = j"
      using probe Some by (auto simp: probe_edge_def)
    have live: "live_at ((edges g)[j := ?e]) i \<longleftrightarrow> live_at (edges g) i" for i
      using j by (intro live_at_bump) auto
    have adj: "positions (\<lambda>e. refs e > 0 \<and> P e) ((edges g)[j := ?e]) =
               positions (\<lambda>e. refs e > 0 \<and> P e) (edges g)" if "P ?e = P (edges g ! j)" for P
      using j that by (intro positions_list_update) auto
    have key: "keyOf ((edges g)[j := ?e] ! i) = keyOf (edges g ! i)" if "i < length (edges g)" for i
      using that j by (auto simp: nth_list_update)
    have "index_ok (edgeIndex g) ((edges g)[j := ?e])"
      using index_ok_iff[OF ix] live key by (intro index_okI) (metis live_at_def)
    moreover have "backing_ok (tuEdges g) ((edges g)[j := ?e])"
      by (rule backing_ok_mono[OF bk]) (use j in \<open>auto simp: refs_at_def nth_list_update\<close>)
    moreover have "adjacency_ok seCaller (outEdges g) ((edges g)[j := ?e])"
      "adjacency_ok seCallee (inEdges g) ((edges g)[j := ?e])"
      using out inn adj by (auto simp: adjacency_ok_def)
    ultimately have "edge_inv g'"
      using g' cnt live by (simp add: edge_inv_def)
    moreover have "key_refs g' k = key_refs g k + (if k = keyOf se then refs se else 0)" for k
      using g' Some j index_ok_iff[OF ix, of k j] unfolding key_refs_def
      by (auto simp: nth_list_update live_at_def split: option.splits)
    moreover have "tu_refs g' tu k = tu_refs g tu k" for tu k
      unfolding tu_refs_def using g' key tu_range by (auto intro!: arg_cong[of _ _ length] filter_cong)
    ultimately show ?thesis using g' Some by simp
  next
    case None
    let ?n = "length (edges g)"
    have g': "g' = g\<lparr>outEdges := upush (seCaller se) ?n (outEdges g),
                     inEdges := upush (seCallee se) ?n (inEdges g),
                     edges := edges g @ [se],
                     edgeIndex := uemplace (keyOf se) ?n (edgeIndex g),
                     liveEdgeCount := Suc (liveEdgeCount g)\<rparr>" "idx = ?n"
      using probe None by (auto simp: probe_edge_def Let_def)
    have "{i. live_at (edges g @ [se]) i} = insert ?n {i. live_at (edges g) i}"
      using pos by (auto simp: live_at_snoc)
    then have card: "card {i. live_at (edges g @ [se]) i} = Suc (card {i. live_at (edges g) i})"
      by (simp add: live_at_def)
    have "index_ok (uemplace (keyOf se) ?n (edgeIndex g)) (edges g @ [se])"
    proof (rule index_okI)
      fix k i
      show "map_of (uemplace (keyOf se) ?n (edgeIndex g)) k = Some i \<longleftrightarrow>
            live_at (edges g @ [se]) i \<and> keyOf ((edges g @ [se]) ! i) = k"
        using index_ok_iff[OF ix, of k i] None pos unfolding live_at_def
        by (cases "k = keyOf se"; cases "i < ?n")
          (auto simp: umap_simps nth_append less_Suc_eq)
    qed
    moreover have "backing_ok (tuEdges g) (edges g @ [se])"
      using bk by (rule backing_ok_mono) (auto simp: refs_at_def nth_append)
    moreover have "adjacency_ok seCaller (upush (seCaller se) ?n (outEdges g)) (edges g @ [se])"
      "adjacency_ok seCallee (upush (seCallee se) ?n (inEdges g)) (edges g @ [se])"
      using out inn pos by (auto simp: adjacency_ok_def umap_simps)
    ultimately have "edge_inv g'"
      using g' cnt card by (simp add: edge_inv_def)
    moreover have "key_refs g' k = key_refs g k + (if k = keyOf se then refs se else 0)" for k
    proof (cases "map_of (edgeIndex g) k")
      case None
      with g' \<open>map_of (edgeIndex g) (keyOf se) = None\<close> show ?thesis
        by (simp add: key_refs_def umap_simps)
    next
      case (Some i)
      with index_ok_iff[OF ix, of k i] have "i < ?n" by (simp add: live_at_def)
      with g' Some \<open>map_of (edgeIndex g) (keyOf se) = None\<close> show ?thesis
        by (auto simp: key_refs_def umap_simps nth_append)
    qed
    moreover have "tu_refs g' tu k = tu_refs g tu k" for tu k
      unfolding tu_refs_def using g' tu_range
      by (auto simp: nth_append intro!: arg_cong[of _ _ length] filter_cong)
    ultimately show ?thesis using g' None by (simp add: umap_simps)
  qed
  then show "edge_inv g'" "map_of (edgeIndex g') (keyOf se) = Some idx"
    "\<And>k. key_refs g' k = key_refs g k + (if k = keyOf se then refs se else 0)"
    "\<And>tu k. tu_refs g' tu k = tu_refs g tu k" by blast+
qed

subsection \<open>The release pass of \<open>removeTUs\<close>\<close>

definition release_ok :: "CallGraph \<Rightarrow> Release \<Rightarrow> bool" where
  "release_ok g0 r \<longleftrightarrow>
     (let es = edges (relGraph r) in
      length es = length (edges g0) \<and>
      (\<forall>i < length es. es ! i = (edges g0 ! i)\<lparr>refs := refs (es ! i)\<rparr> \<and> refs (es ! i) \<le> refs (edges g0 ! i)) \<and>
      relDead r = {i. live_at (edges g0) i \<and> \<not> live_at es i} \<and>
      (\<forall>i \<in> relDead r. seCaller (edges g0 ! i) \<in> set (relCallers r) \<and>
                         seCallee (edges g0 ! i) \<in> set (relCallees r)) \<and>
      relRemoved r = card (relDead r) \<and>
      index_ok (edgeIndex (relGraph r)) es \<and>
      liveEdgeCount (relGraph r) = card {i. live_at es i} \<and>
      relGraph r = g0\<lparr>edges := es, edgeIndex := edgeIndex (relGraph r),
                      liveEdgeCount := liveEdgeCount (relGraph r), tuEdges := tuEdges (relGraph r)\<rparr>)"

lemma release_okI:
  assumes "relGraph r = g0\<lparr>edges := es, edgeIndex := ix, liveEdgeCount := n, tuEdges := te\<rparr>"
    and "length es = length (edges g0)"
    and "\<And>i. i < length es \<Longrightarrow>
           es ! i = (edges g0 ! i)\<lparr>refs := refs (es ! i)\<rparr> \<and> refs (es ! i) \<le> refs (edges g0 ! i)"
    and "relDead r = {i. live_at (edges g0) i \<and> \<not> live_at es i}"
    and "\<And>i. i \<in> relDead r \<Longrightarrow> seCaller (edges g0 ! i) \<in> set (relCallers r) \<and>
                                seCallee (edges g0 ! i) \<in> set (relCallees r)"
    and "relRemoved r = card (relDead r)" and "index_ok ix es" and "n = card {i. live_at es i}"
  shows "release_ok g0 r"
  using assms unfolding release_ok_def Let_def by simp

lemma release_ok_init:
  "edge_inv g \<Longrightarrow>
     release_ok g \<lparr>relGraph = g, relDead = {}, relCallers = [], relCallees = [], relRemoved = 0\<rparr>"
  by (simp add: release_ok_def edge_inv_def Let_def)

lemma release_ok_fields:
  assumes "release_ok g0 r" and "i < length (edges g0)"
  shows "length (edges (relGraph r)) = length (edges g0)"
    and "seCaller (edges (relGraph r) ! i) = seCaller (edges g0 ! i)"
    and "seCallee (edges (relGraph r) ! i) = seCallee (edges g0 ! i)"
    and "keyOf (edges (relGraph r) ! i) = keyOf (edges g0 ! i)"
    and "refs (edges (relGraph r) ! i) \<le> refs (edges g0 ! i)"
proof -
  have "length (edges (relGraph r)) = length (edges g0) \<and>
     edges (relGraph r) ! i = (edges g0 ! i)\<lparr>refs := refs (edges (relGraph r) ! i)\<rparr> \<and>
     refs (edges (relGraph r) ! i) \<le> refs (edges g0 ! i)"
    using assms by (auto simp: release_ok_def Let_def)
  moreover have "seCaller (e\<lparr>refs := n\<rparr>) = seCaller e" "seCallee (e\<lparr>refs := n\<rparr>) = seCallee e" for e n
    by simp_all
  ultimately show "length (edges (relGraph r)) = length (edges g0)"
    "seCaller (edges (relGraph r) ! i) = seCaller (edges g0 ! i)"
    "seCallee (edges (relGraph r) ! i) = seCallee (edges g0 ! i)"
    "keyOf (edges (relGraph r) ! i) = keyOf (edges g0 ! i)"
    "refs (edges (relGraph r) ! i) \<le> refs (edges g0 ! i)"
    by (metis, metis, metis, metis keyOf_refs_update, metis)
qed

lemma live_at_drop:
  "j < length es \<Longrightarrow> refs e' = 0 \<Longrightarrow> {i. live_at (es[j := e']) i} = {i. live_at es i} - {j}"
  by (auto simp: live_at_def nth_list_update)

lemma release_edge_ok:
  assumes ok: "release_ok g0 r" and idx: "idx < length (edges g0)"
  shows "release_ok g0 (release_edge idx r)"
    and "refs_at (edges (relGraph (release_edge idx r))) i =
           refs_at (edges (relGraph r)) i - (if i = idx then 1 else 0)"
    and "tuEdges (relGraph (release_edge idx r)) = tuEdges (relGraph r)"
proof -
  let ?g = "relGraph r" and ?es = "edges (relGraph r)"
  let ?e = "?es ! idx" and ?e1 = "(edges (relGraph r) ! idx)\<lparr>refs := refs (edges (relGraph r) ! idx) - 1\<rparr>"
  have len: "length ?es = length (edges g0)"
    and el: "\<And>i. i < length ?es \<Longrightarrow> ?es ! i = (edges g0 ! i)\<lparr>refs := refs (?es ! i)\<rparr> \<and> refs (?es ! i) \<le> refs (edges g0 ! i)"
    and dead: "relDead r = {i. live_at (edges g0) i \<and> \<not> live_at ?es i}"
    and ends: "\<And>i. i \<in> relDead r \<Longrightarrow> seCaller (edges g0 ! i) \<in> set (relCallers r) \<and>
                         seCallee (edges g0 ! i) \<in> set (relCallees r)"
    and cnt: "relRemoved r = card (relDead r)"
    and ix: "index_ok (edgeIndex ?g) ?es"
    and lc: "liveEdgeCount ?g = card {i. live_at ?es i}"
    and fr: "?g = g0\<lparr>edges := ?es, edgeIndex := edgeIndex ?g,
                      liveEdgeCount := liveEdgeCount ?g, tuEdges := tuEdges ?g\<rparr>"
    using ok unfolding release_ok_def Let_def by blast+
  have fin: "finite (relDead r)" by (simp add: dead)
  have el1: "?es[idx := ?e1] ! i = (edges g0 ! i)\<lparr>refs := refs (?es[idx := ?e1] ! i)\<rparr> \<and>
             refs (?es[idx := ?e1] ! i) \<le> refs (edges g0 ! i)" if "i < length ?es" for i
  proof (cases "i = idx")
    case True
    obtain n where "?es ! idx = (edges g0 ! idx)\<lparr>refs := n\<rparr>" "n \<le> refs (edges g0 ! idx)"
      using el[of idx] idx len by metis
    with True idx len show ?thesis by simp
  next
    case False
    with el[OF that] show ?thesis by simp
  qed
  have key1: "keyOf (?es[idx := ?e1] ! i) = keyOf (?es ! i)" if "i < length ?es" for i
    using that by (cases "i = idx") auto
  consider (dead0) "refs ?e = 0" | (kept) "refs ?e > 1" | (died) "refs ?e = 1" by linarith
  then have "release_ok g0 (release_edge idx r) \<and>
     (\<forall>i. refs_at (edges (relGraph (release_edge idx r))) i = refs_at ?es i - (if i = idx then 1 else 0)) \<and>
     tuEdges (relGraph (release_edge idx r)) = tuEdges ?g"
  proof cases
    case dead0
    then show ?thesis using ok by (simp add: release_edge_def Let_def refs_at_def)
  next
    case kept
    have r1: "release_edge idx r = r\<lparr>relGraph := ?g\<lparr>edges := ?es[idx := ?e1]\<rparr>\<rparr>"
      (is "_ = ?r1")
      using kept by (simp add: release_edge_def Let_def)
    have live: "live_at (?es[idx := ?e1]) i \<longleftrightarrow> live_at ?es i" for i
      using kept idx len by (intro live_at_bump) auto
    have ix1: "index_ok (edgeIndex ?g) (?es[idx := ?e1])"
      using index_ok_iff[OF ix] live key1 by (intro index_okI) (metis live_at_def)
    have gr: "relGraph ?r1 = g0\<lparr>edges := ?es[idx := ?e1], edgeIndex := edgeIndex ?g,
                      liveEdgeCount := liveEdgeCount ?g, tuEdges := tuEdges ?g\<rparr>"
      by (subst fr) simp
    have "release_ok g0 ?r1"
    proof (rule release_okI[OF gr _ _ _ _ _ ix1])
      show "relDead ?r1 = {i. live_at (edges g0) i \<and> \<not> live_at (?es[idx := ?e1]) i}"
        using dead live by simp
      show "liveEdgeCount ?g = card {i. live_at (?es[idx := ?e1]) i}"
        using lc live by simp
    qed (use len el1 ends cnt in simp_all)
    with r1 have "release_ok g0 (release_edge idx r)" by simp
    then show ?thesis using r1 idx len kept by (auto simp: refs_at_def nth_list_update)
  next
    case died
    have r1: "release_edge idx r =
        r\<lparr>relGraph := ?g\<lparr>edges := ?es[idx := ?e1], edgeIndex := AList.delete (keyOf ?e) (edgeIndex ?g),
             liveEdgeCount := liveEdgeCount ?g - 1\<rparr>,
          relDead := insert idx (relDead r),
          relCallers := List.insert (seCaller ?e) (relCallers r),
          relCallees := List.insert (seCallee ?e) (relCallees r),
          relRemoved := Suc (relRemoved r)\<rparr>"
      (is "_ = ?r1")
      using died by (simp add: release_edge_def Let_def)
    have live_idx: "live_at ?es idx" using died idx len by (simp add: live_at_def)
    have liveset: "{i. live_at (?es[idx := ?e1]) i} = {i. live_at ?es i} - {idx}"
      using died idx len by (intro live_at_drop) auto
    then have live: "live_at (?es[idx := ?e1]) i \<longleftrightarrow> live_at ?es i \<and> i \<noteq> idx" for i by blast
    have live0: "live_at (edges g0) idx"
      using live_idx el[of idx] len by (auto simp: live_at_def)
    have "idx \<notin> relDead r" using dead live_idx by simp
    have ix1: "index_ok (AList.delete (keyOf ?e) (edgeIndex ?g)) (?es[idx := ?e1])"
    proof (rule index_okI)
      fix k i
      show "map_of (AList.delete (keyOf ?e) (edgeIndex ?g)) k = Some i \<longleftrightarrow>
            live_at (?es[idx := ?e1]) i \<and> keyOf (?es[idx := ?e1] ! i) = k"
        using index_ok_iff[OF ix, of k i] index_ok_inj[OF ix, of i idx] live_idx live[of i]
          key1[of i] by (auto simp: umap_simps live_at_def)
    qed
    have gr: "relGraph ?r1
        = g0\<lparr>edges := ?es[idx := ?e1], edgeIndex := AList.delete (keyOf ?e) (edgeIndex ?g),
             liveEdgeCount := liveEdgeCount ?g - 1, tuEdges := tuEdges ?g\<rparr>"
      by (subst fr) simp
    have "release_ok g0 ?r1"
    proof (rule release_okI[OF gr _ _ _ _ _ ix1])
      show "relDead ?r1 = {i. live_at (edges g0) i \<and> \<not> live_at (?es[idx := ?e1]) i}"
        using dead live live0 by auto
      show "liveEdgeCount ?g - 1 = card {i. live_at (?es[idx := ?e1]) i}"
        unfolding liveset lc using live_idx by simp
      show "relRemoved ?r1 = card (relDead ?r1)"
        using cnt fin \<open>idx \<notin> relDead r\<close> by simp
      have "seCaller ?e = seCaller (edges g0 ! idx)" "seCallee ?e = seCallee (edges g0 ! idx)"
        using release_ok_fields[OF ok idx] by auto
      then show "seCaller (edges g0 ! i) \<in> set (relCallers ?r1) \<and> seCallee (edges g0 ! i) \<in> set (relCallees ?r1)"
        if "i \<in> relDead ?r1" for i
        using that ends[of i] by auto
    qed (use len el1 in simp_all)
    with r1 have "release_ok g0 (release_edge idx r)" by simp
    then show ?thesis using r1 idx len died by (auto simp: refs_at_def nth_list_update)
  qed
  then show "release_ok g0 (release_edge idx r)"
    "refs_at (edges (relGraph (release_edge idx r))) i = refs_at ?es i - (if i = idx then 1 else 0)"
    "tuEdges (relGraph (release_edge idx r)) = tuEdges ?g" by blast+
qed

lemma release_edges_ok:
  assumes "release_ok g0 r" and "set idxs \<subseteq> {..<length (edges g0)}"
  shows "release_ok g0 (fold release_edge idxs r)
       \<and> refs_at (edges (relGraph (fold release_edge idxs r))) i =
           refs_at (edges (relGraph r)) i - count_list idxs i
       \<and> tuEdges (relGraph (fold release_edge idxs r)) = tuEdges (relGraph r)"
  using assms
proof (induction idxs arbitrary: r)
  case (Cons idx idxs)
  then have idx: "idx < length (edges g0)" by simp
  note one = release_edge_ok[OF Cons.prems(1) idx]
  from Cons.IH[OF one(1)] Cons.prems(2) one(2)[of i] one(3) show ?case by auto
qed simp

lemma release_tu_ok:
  assumes ok: "release_ok g0 r"
    and bk: "backing_ok (tuEdges (relGraph r)) (edges (relGraph r))"
  shows "release_ok g0 (release_tu tu r)"
    and "backing_ok (tuEdges (relGraph (release_tu tu r))) (edges (relGraph (release_tu tu r)))"
    and "refs_at (edges (relGraph (release_tu tu r))) i =
           refs_at (edges (relGraph r)) i - count_list (ulist (tuEdges (relGraph r)) tu) i"
    and "ulist (tuEdges (relGraph (release_tu tu r))) t =
           (if t = tu then [] else ulist (tuEdges (relGraph r)) t)"
proof -
  let ?te = "tuEdges (relGraph r)"
  have "release_ok g0 (release_tu tu r) \<and>
     backing_ok (tuEdges (relGraph (release_tu tu r))) (edges (relGraph (release_tu tu r))) \<and>
     (\<forall>i. refs_at (edges (relGraph (release_tu tu r))) i =
           refs_at (edges (relGraph r)) i - count_list (ulist ?te tu) i) \<and>
     (\<forall>t. ulist (tuEdges (relGraph (release_tu tu r))) t = (if t = tu then [] else ulist ?te t))"
  proof (cases "map_of ?te tu")
    case None
    then show ?thesis using ok bk by (auto simp: release_tu_def ulist_None)
  next
    case (Some idxs)
    let ?r1 = "fold release_edge idxs r"
    let ?r2 = "?r1\<lparr>relGraph := (relGraph ?r1)\<lparr>tuEdges := AList.delete tu (tuEdges (relGraph ?r1))\<rparr>\<rparr>"
    have r2: "release_tu tu r = ?r2" using Some by (simp add: release_tu_def Let_def)
    have ul: "ulist ?te tu = idxs" using Some by (rule ulist_Some)
    have range: "set idxs \<subseteq> {..<length (edges g0)}"
    proof
      fix i assume "i \<in> set idxs"
      with backing_ok_live[OF bk, of i tu] ul have "i < length (edges (relGraph r))"
        by (simp add: live_at_def)
      then show "i \<in> {..<length (edges g0)}"
        using ok by (simp add: release_ok_def Let_def)
    qed
    note fo = release_edges_ok[OF ok range]
    have ok2: "release_ok g0 ?r2"
    proof (rule release_okI)
      let ?es = "edges (relGraph ?r1)"
      show "relGraph ?r2 = g0\<lparr>edges := ?es, edgeIndex := edgeIndex (relGraph ?r1),
              liveEdgeCount := liveEdgeCount (relGraph ?r1), tuEdges := AList.delete tu ?te\<rparr>"
      proof -
        have fr1: "relGraph ?r1 = g0\<lparr>edges := ?es, edgeIndex := edgeIndex (relGraph ?r1),
              liveEdgeCount := liveEdgeCount (relGraph ?r1), tuEdges := ?te\<rparr>"
          using fo unfolding release_ok_def Let_def by metis
        have "x\<lparr>tuEdges := d'\<rparr> = g0\<lparr>edges := a, edgeIndex := b, liveEdgeCount := c, tuEdges := d'\<rparr>"
          if "x = g0\<lparr>edges := a, edgeIndex := b, liveEdgeCount := c, tuEdges := d\<rparr>"
          for x a b c d d'
          using that by simp
        from this[OF fr1] show ?thesis using fo by simp
      qed
    qed (use fo in \<open>auto simp: release_ok_def Let_def\<close>)
    have "backing_ok (AList.delete tu ?te) (edges (relGraph ?r1))"
      unfolding backing_ok_def
    proof (intro conjI allI)
      show "distinct (ukeys (AList.delete tu ?te))" using bk by (auto simp: backing_ok_def)
      fix i
      have "ucount (AList.delete tu ?te) i + count_list idxs i = ucount ?te i"
        using ucount_delete[of ?te tu i] bk ul by (simp add: backing_ok_def)
      moreover have "ucount ?te i \<le> refs_at (edges (relGraph r)) i"
        using bk by (simp add: backing_ok_def)
      ultimately show "ucount (AList.delete tu ?te) i \<le> refs_at (edges (relGraph ?r1)) i"
        using fo[of i] by linarith
    qed
    with ok2 r2 fo ul show ?thesis by (simp add: umap_simps)
  qed
  then show "release_ok g0 (release_tu tu r)"
    "backing_ok (tuEdges (relGraph (release_tu tu r))) (edges (relGraph (release_tu tu r)))"
    "refs_at (edges (relGraph (release_tu tu r))) i =
           refs_at (edges (relGraph r)) i - count_list (ulist ?te tu) i"
    "ulist (tuEdges (relGraph (release_tu tu r))) t = (if t = tu then [] else ulist ?te t)" by blast+
qed

lemma release_tus_ok:
  fixes tus :: "sid list"
  assumes "release_ok g0 r" and "backing_ok (tuEdges (relGraph r)) (edges (relGraph r))"
  defines "r' \<equiv> fold release_tu tus r"
  shows "release_ok g0 r'
     \<and> backing_ok (tuEdges (relGraph r')) (edges (relGraph r'))
     \<and> (\<forall>i. refs_at (edges (relGraph r')) i = refs_at (edges (relGraph r)) i -
           (\<Sum>t \<in> set tus. count_list (ulist (tuEdges (relGraph r)) t) i))
     \<and> (\<forall>t. ulist (tuEdges (relGraph r')) t =
           (if t \<in> set tus then [] else ulist (tuEdges (relGraph r)) t))"
  using assms(1,2) unfolding r'_def
proof (induction tus arbitrary: r)
  case (Cons tu tus)
  let ?r1 = "release_tu tu r" and ?te = "tuEdges (relGraph r)"
  note one = release_tu_ok[OF Cons.prems, of tu]
  have "(\<Sum>t \<in> set tus. count_list (ulist (tuEdges (relGraph ?r1)) t) i)
      = (\<Sum>t \<in> set tus - {tu}. count_list (ulist ?te t) i)" for i
    by (subst one(4)) (auto intro!: sum.mono_neutral_cong_right split: if_splits)
  moreover have "(\<Sum>t \<in> set (tu # tus). count_list (ulist ?te t) i)
      = count_list (ulist ?te tu) i + (\<Sum>t \<in> set tus - {tu}. count_list (ulist ?te t) i)" for i
    by (simp add: sum.insert_remove)
  ultimately show ?case
    using Cons.IH[OF one(1,2)] one(3,4) by auto
qed simp

subsection \<open>What \<open>removeTUs\<close> does to the edges\<close>

definition edge_part where
  "edge_part g = (edges g, edgeIndex g, outEdges g, inEdges g, tuEdges g, liveEdgeCount g)"

lemma edge_part_cong:
  assumes "edge_part g = edge_part h"
  shows "edge_inv g = edge_inv h" and "key_refs g k = key_refs h k" and "tu_refs g t k = tu_refs h t k"
  using assms
  by (auto simp: edge_part_def edge_inv_def key_refs_def tu_refs_def cong: option.case_cong)

lemma edge_part_release_node [simp]: "edge_part (release_node tu n g) = edge_part g"
  by (auto simp: edge_part_def release_node_def drop_name_def Let_def split: option.splits)

lemma edge_part_fold:
  "(\<And>x g. x \<in> set xs \<Longrightarrow> edge_part (f x g) = edge_part g) \<Longrightarrow> edge_part (fold f xs g) = edge_part g"
  by (induction xs arbitrary: g) auto

lemma edge_part_release_tu_nodes [simp]: "edge_part (release_tu_nodes tu g) = edge_part g"
proof (cases "map_of (tuNodes g) tu")
  case (Some ns)
  have "edge_part (fold (release_node tu) ns g) = edge_part g"
    by (rule edge_part_fold) simp
  with Some show ?thesis by (simp add: release_tu_nodes_def edge_part_def Let_def)
qed (simp add: release_tu_nodes_def)

lemma edge_part_release_all [simp]: "edge_part (fold release_tu_nodes tus g) = edge_part g"
  by (rule edge_part_fold) simp

lemma adjacency_scrub:
  assumes adj: "adjacency_ok endpoint m es"
    and len: "length es' = length es"
    and ends: "\<And>i. i < length es \<Longrightarrow> endpoint (es' ! i) = endpoint (es ! i) \<and> refs (es' ! i) \<le> refs (es ! i)"
    and ks: "\<And>i. live_at es i \<Longrightarrow> \<not> live_at es' i \<Longrightarrow> endpoint (es ! i) \<in> set ks"
  shows "adjacency_ok endpoint (uscrub (\<lambda>i. live_at es i \<and> \<not> live_at es' i) ks m) es'"
  unfolding adjacency_ok_def
proof
  fix c
  let ?dead = "\<lambda>i. live_at es i \<and> \<not> live_at es' i"
  have mc: "ulist m c = positions (\<lambda>e. refs e > 0 \<and> endpoint e = c) es"
    using adj by (simp add: adjacency_ok_def)
  have "ulist (uscrub ?dead ks m) c = filter (\<lambda>i. \<not> ?dead i) (ulist m c)"
    by (rule ulist_uscrub_all) (use ks mc in auto)
  also have "\<dots> = positions (\<lambda>e. refs e > 0 \<and> endpoint e = c) es'"
    unfolding mc positions_def filter_filter len
    using ends by (intro filter_cong) (auto simp: live_at_def len intro: less_le_trans)
  finally show "ulist (uscrub ?dead ks m) c = positions (\<lambda>e. refs e > 0 \<and> endpoint e = c) es'" .
qed

lemma removeTUs_edges:
  fixes g :: CallGraph and tuPaths :: "string list"
  assumes inv: "edge_inv g"
  defines "tus \<equiv> List.map_filter (find_id (cgInterner g)) tuPaths"
  shows "edge_inv (snd (removeTUs tuPaths g))"
    and "key_refs (snd (removeTUs tuPaths g)) k = key_refs g k - (\<Sum>t \<in> set tus. tu_refs g t k)"
    and "tu_refs (snd (removeTUs tuPaths g)) t k = (if t \<in> set tus then 0 else tu_refs g t k)"
    and "fst (removeTUs tuPaths g) = edgeCount g - edgeCount (snd (removeTUs tuPaths g))"
proof -
  let ?r0 = "\<lparr>relGraph = g, relDead = {}, relCallers = [], relCallees = [], relRemoved = 0\<rparr>"
  define r where "r = fold release_tu tus ?r0"
  let ?es = "edges (relGraph r)"
  let ?g1 = "(relGraph r)
                 \<lparr>outEdges := uscrub (\<lambda>i. i \<in> relDead r) (relCallers r) (outEdges (relGraph r)),
                  inEdges := uscrub (\<lambda>i. i \<in> relDead r) (relCallees r) (inEdges (relGraph r))\<rparr>"
  have res: "removeTUs tuPaths g = (relRemoved r, fold release_tu_nodes tus ?g1)"
    by (simp add: removeTUs_def Let_def r_def tus_def)
  have bk0: "backing_ok (tuEdges g) (edges g)" using inv by (simp add: edge_inv_def)
  have all: "release_ok g r" "backing_ok (tuEdges (relGraph r)) ?es"
    "\<And>i. refs_at ?es i = refs_at (edges g) i - (\<Sum>t \<in> set tus. count_list (ulist (tuEdges g) t) i)"
    "\<And>t. ulist (tuEdges (relGraph r)) t = (if t \<in> set tus then [] else ulist (tuEdges g) t)"
    using release_tus_ok[OF release_ok_init[OF inv], of tus] bk0 unfolding r_def by auto
  have len: "length ?es = length (edges g)"
    and dead: "relDead r = {i. live_at (edges g) i \<and> \<not> live_at ?es i}"
    and ends: "\<And>i. i \<in> relDead r \<Longrightarrow> seCaller (edges g ! i) \<in> set (relCallers r) \<and>
                         seCallee (edges g ! i) \<in> set (relCallees r)"
    and cnt: "relRemoved r = card (relDead r)"
    and ix: "index_ok (edgeIndex (relGraph r)) ?es"
    and lc: "liveEdgeCount (relGraph r) = card {i. live_at ?es i}"
    and fr: "relGraph r = g\<lparr>edges := ?es, edgeIndex := edgeIndex (relGraph r),
                      liveEdgeCount := liveEdgeCount (relGraph r), tuEdges := tuEdges (relGraph r)\<rparr>"
    using all(1) unfolding release_ok_def Let_def by blast+
  note fields = release_ok_fields[OF all(1)]
  have io: "outEdges (relGraph r) = outEdges g" "inEdges (relGraph r) = inEdges g"
    by (subst fr, simp)+
  have inv1: "edge_inv ?g1"
  proof -
    have "adjacency_ok seCaller (uscrub (\<lambda>i. i \<in> relDead r) (relCallers r) (outEdges g)) ?es"
      unfolding dead mem_Collect_eq
      by (rule adjacency_scrub) (use inv len fields ends dead in \<open>auto simp: edge_inv_def\<close>)
    moreover have "adjacency_ok seCallee (uscrub (\<lambda>i. i \<in> relDead r) (relCallees r) (inEdges g)) ?es"
      unfolding dead mem_Collect_eq
      by (rule adjacency_scrub) (use inv len fields ends dead in \<open>auto simp: edge_inv_def\<close>)
    ultimately show ?thesis using ix lc all(2) io by (simp add: edge_inv_def)
  qed
  have ep: "edge_part (snd (removeTUs tuPaths g)) = edge_part ?g1" by (simp add: res)
  show "edge_inv (snd (removeTUs tuPaths g))" using inv1 edge_part_cong(1)[OF ep] by simp
  have tu1: "tu_refs ?g1 t k = (if t \<in> set tus then 0 else tu_refs g t k)"
  proof -
    have "keyOf (?es ! i) = keyOf (edges g ! i)" if "i \<in> set (ulist (tuEdges g) t)" for i
      using backing_ok_live[OF bk0 that] fields(4)[of i] by (simp add: live_at_def)
    then show ?thesis
      by (auto simp: tu_refs_def all(4) intro!: arg_cong[of _ _ length] filter_cong)
  qed
  show "tu_refs (snd (removeTUs tuPaths g)) t k = (if t \<in> set tus then 0 else tu_refs g t k)"
    using tu1 edge_part_cong(3)[OF ep] by simp
  have "key_refs ?g1 k = key_refs g k - (\<Sum>t \<in> set tus. tu_refs g t k)"
  proof (cases "map_of (edgeIndex g) k")
    case None
    have "map_of (edgeIndex (relGraph r)) k = None"
    proof (rule ccontr)
      assume "map_of (edgeIndex (relGraph r)) k \<noteq> None"
      then obtain i where "live_at ?es i" "keyOf (?es ! i) = k" using index_ok_iff[OF ix] by blast
      with fields[of i] len have "live_at (edges g) i" "keyOf (edges g ! i) = k"
        by (auto simp: live_at_def)
      with None inv index_ok_None[of "edgeIndex g" "edges g" k i] show False by (auto simp: edge_inv_def)
    qed
    with None show ?thesis by (simp add: key_refs_def)
  next
    case (Some i)
    have i: "live_at (edges g) i" "keyOf (edges g ! i) = k"
      using Some inv index_ok_iff[of "edgeIndex g" "edges g" k i] by (auto simp: edge_inv_def)
    have "key_refs ?g1 k = refs_at ?es i"
    proof (cases "live_at ?es i")
      case True
      with i fields[of i] index_ok_iff[OF ix, of k i] have "map_of (edgeIndex (relGraph r)) k = Some i"
        by (simp add: live_at_def len)
      with True show ?thesis by (simp add: key_refs_def refs_at_def live_at_def)
    next
      case False
      have "map_of (edgeIndex (relGraph r)) k = None"
      proof (rule ccontr)
        assume "map_of (edgeIndex (relGraph r)) k \<noteq> None"
        then obtain j where j: "live_at ?es j" "keyOf (?es ! j) = k" using index_ok_iff[OF ix] by blast
        with fields[of j] len have "live_at (edges g) j" "keyOf (edges g ! j) = k"
          by (auto simp: live_at_def)
        with i inv have "j = i" by (auto simp: edge_inv_def intro: index_ok_inj)
        with False j show False by simp
      qed
      with False show ?thesis by (auto simp: key_refs_def refs_at_def live_at_def)
    qed
    also have "\<dots> = refs_at (edges g) i - (\<Sum>t \<in> set tus. count_list (ulist (tuEdges g) t) i)"
      by (rule all(3))
    also have "\<dots> = key_refs g k - (\<Sum>t \<in> set tus. tu_refs g t k)"
      using Some i by (simp add: key_refs_def refs_at_def live_at_def tu_refs_eq_count[OF inv])
    finally show ?thesis .
  qed
  then show "key_refs (snd (removeTUs tuPaths g)) k = key_refs g k - (\<Sum>t \<in> set tus. tu_refs g t k)"
    using edge_part_cong(2)[OF ep] by simp
  have "{i. live_at ?es i} \<subseteq> {i. live_at (edges g) i}"
    using fields len by (fastforce simp: live_at_def)
  then have "card (relDead r) = card {i. live_at (edges g) i} - card {i. live_at ?es i}"
    unfolding dead by (subst card_Diff_subset[symmetric]) (auto intro!: arg_cong[of _ _ card])
  moreover have "edgeCount (snd (removeTUs tuPaths g)) = liveEdgeCount (relGraph r)"
    using ep by (simp add: edge_part_def edgeCount_def)
  ultimately show "fst (removeTUs tuPaths g) = edgeCount g - edgeCount (snd (removeTUs tuPaths g))"
    using inv cnt lc by (simp add: res edgeCount_def edge_inv_def)
qed

end
