(* ===== verification/CallGraphCompact.thy ===== *)
theory CallGraphCompact
  imports CallGraphEdges
begin

text \<open>
  \<open>CallGraph::compact\<close>: the live edges move to the front in their old order, every index
  that survives is renumbered, and neither the registration counts nor the list of live
  edges at any endpoint changes.
\<close>

definition live :: "StoredEdge \<Rightarrow> bool" where
  "live e \<longleftrightarrow> refs e > 0"

definition rank :: "StoredEdge list \<Rightarrow> nat \<Rightarrow> nat" where
  \<comment> \<open>the new position of a live edge\<close>
  "rank es i = length (filter live (take i es))"

lemma live_at_live: "live_at es i \<longleftrightarrow> i < length es \<and> live (es ! i)"
  by (simp add: live_at_def live_def)

lemma nth_filter_rank: "live_at es i \<Longrightarrow> filter live es ! rank es i = es ! i"
proof -
  assume i: "live_at es i"
  then have "es = take i es @ es ! i # drop (Suc i) es"
    by (simp add: live_at_def id_take_nth_drop)
  then have "filter live es = filter live (take i es) @ es ! i # filter live (drop (Suc i) es)"
    using i by (metis filter.simps(2) filter_append live_at_live)
  then show ?thesis by (simp add: rank_def nth_append)
qed

lemma rank_less: "live_at es i \<Longrightarrow> rank es i < length (filter live es)"
proof -
  assume i: "live_at es i"
  then have "es = take i es @ es ! i # drop (Suc i) es"
    by (simp add: live_at_def id_take_nth_drop)
  then have "filter live es = filter live (take i es) @ es ! i # filter live (drop (Suc i) es)"
    using i by (metis filter.simps(2) filter_append live_at_live)
  then show ?thesis by (simp add: rank_def)
qed

lemma rank_strict: "live_at es i \<Longrightarrow> i < j \<Longrightarrow> rank es i < rank es j"
proof -
  assume i: "live_at es i" and ij: "i < j"
  have len: "i < length (take j es)" "take i (take j es) = take i es" "take j es ! i = es ! i"
    using i ij by (auto simp: live_at_def min_def)
  then have "live_at (take j es) i" using i by (simp add: live_at_live)
  from rank_less[OF this] len show ?thesis by (simp add: rank_def)
qed

lemma rank_inj: "live_at es i \<Longrightarrow> live_at es j \<Longrightarrow> rank es i = rank es j \<Longrightarrow> i = j"
  by (metis less_irrefl nat_neq_iff rank_strict)

lemma rank_surj: "j < length (filter live es) \<Longrightarrow> \<exists>i. live_at es i \<and> rank es i = j"
proof (induction es rule: rev_induct)
  case (snoc e es)
  show ?case
  proof (cases "j < length (filter live es)")
    case True
    with snoc obtain i where "live_at es i" "rank es i = j" by auto
    then show ?thesis
      by (intro exI[of _ i]) (auto simp: live_at_def nth_append rank_def)
  next
    case False
    with snoc have "live e" "j = length (filter live es)" by (auto split: if_splits)
    then show ?thesis
      by (intro exI[of _ "length es"]) (auto simp: live_at_live nth_append rank_def)
  qed
qed simp

subsection \<open>The compaction loop\<close>

definition compacted :: "CallGraph \<Rightarrow> nat \<Rightarrow> Compaction" where
  "compacted g n = fold (compact_edge g) [0..<n]
     \<lparr>newEdges = [], newIndex = [], newOut = [], newIn = [], newRemap = []\<rparr>"

lemma compacted_spec:
  assumes "n \<le> length (edges g)"
    and ix: "index_ok (edgeIndex g) (edges g)"
  shows "newEdges (compacted g n) = filter live (take n (edges g))"
    and "adjacency_ok seCaller (newOut (compacted g n)) (newEdges (compacted g n))"
    and "adjacency_ok seCallee (newIn (compacted g n)) (newEdges (compacted g n))"
    and "index_ok (newIndex (compacted g n)) (newEdges (compacted g n))"
    and "map_of (newRemap (compacted g n)) i =
           (if i < n \<and> live_at (edges g) i then Some (rank (edges g) i) else None)"
proof -
  have "newEdges (compacted g n) = filter live (take n (edges g)) \<and>
     adjacency_ok seCaller (newOut (compacted g n)) (newEdges (compacted g n)) \<and>
     adjacency_ok seCallee (newIn (compacted g n)) (newEdges (compacted g n)) \<and>
     index_ok (newIndex (compacted g n)) (newEdges (compacted g n)) \<and>
     (\<forall>i. map_of (newRemap (compacted g n)) i =
           (if i < n \<and> live_at (edges g) i then Some (rank (edges g) i) else None))"
    using assms(1)
  proof (induction n)
    case 0
    then show ?case by (simp add: compacted_def adjacency_ok_def index_ok_def live_at_def)
  next
    case (Suc n)
    let ?c = "compacted g n" and ?e = "edges g ! n"
    have IH: "newEdges ?c = filter live (take n (edges g))"
      "adjacency_ok seCaller (newOut ?c) (newEdges ?c)"
      "adjacency_ok seCallee (newIn ?c) (newEdges ?c)"
      "index_ok (newIndex ?c) (newEdges ?c)"
      "\<And>i. map_of (newRemap ?c) i =
           (if i < n \<and> live_at (edges g) i then Some (rank (edges g) i) else None)"
      using Suc by auto
    have n: "n < length (edges g)" using Suc.prems by simp
    have step: "compacted g (Suc n) = compact_edge g n ?c" by (simp add: compacted_def)
    have take: "take (Suc n) (edges g) = take n (edges g) @ [?e]"
      using n by (simp add: take_Suc_conv_app_nth)
    show ?case
    proof (cases "refs ?e = 0")
      case True
      then have "\<not> live ?e" "\<not> live_at (edges g) n" by (simp_all add: live_def live_at_def)
      with IH take True show ?thesis
        by (auto simp: step compact_edge_def Let_def less_Suc_eq)
    next
      case False
      let ?k = "length (newEdges ?c)"
      have k: "?k = rank (edges g) n" using IH(1) by (simp add: rank_def)
      have fields: "newEdges (compacted g (Suc n)) = newEdges ?c @ [?e]"
        "newOut (compacted g (Suc n)) = upush (seCaller ?e) ?k (newOut ?c)"
        "newIn (compacted g (Suc n)) = upush (seCallee ?e) ?k (newIn ?c)"
        "newIndex (compacted g (Suc n)) = uemplace (keyOf ?e) ?k (newIndex ?c)"
        "newRemap (compacted g (Suc n)) = uemplace n ?k (newRemap ?c)"
        using False by (simp_all add: step compact_edge_def Let_def)
      have live_n: "live_at (edges g) n" using False n by (simp add: live_at_def)
      have none: "map_of (newIndex ?c) (keyOf ?e) = None"
      proof (rule ccontr)
        assume "map_of (newIndex ?c) (keyOf ?e) \<noteq> None"
        then obtain j where j: "live_at (newEdges ?c) j" "keyOf (newEdges ?c ! j) = keyOf ?e"
          using index_ok_iff[OF IH(4)] by blast
        then obtain i where i: "i < n" "newEdges ?c ! j = edges g ! i" "live_at (edges g) i"
          using nth_mem[of j "newEdges ?c"] n IH(1)
          by (auto simp: live_at_live in_set_conv_nth)
        with j index_ok_inj[OF ix i(3) live_n] show False by simp
      qed
      have "index_ok (uemplace (keyOf ?e) ?k (newIndex ?c)) (newEdges ?c @ [?e])"
      proof (rule index_okI)
        fix key i
        show "map_of (uemplace (keyOf ?e) ?k (newIndex ?c)) key = Some i \<longleftrightarrow>
              live_at (newEdges ?c @ [?e]) i \<and> keyOf ((newEdges ?c @ [?e]) ! i) = key"
          using index_ok_iff[OF IH(4), of key i] none False unfolding live_at_def
          by (cases "key = keyOf ?e"; cases "i < ?k") (auto simp: umap_simps nth_append less_Suc_eq)
      qed
      moreover have "adjacency_ok seCaller (newOut (compacted g (Suc n))) (newEdges ?c @ [?e])"
        "adjacency_ok seCallee (newIn (compacted g (Suc n))) (newEdges ?c @ [?e])"
        using IH(2,3) False by (auto simp: fields adjacency_ok_def umap_simps)
      moreover have "map_of (uemplace n ?k (newRemap ?c)) i =
           (if i < Suc n \<and> live_at (edges g) i then Some (rank (edges g) i) else None)" for i
        using IH(5) live_n k by (auto simp: umap_simps less_Suc_eq)
      moreover have "newEdges ?c @ [?e] = filter live (take (Suc n) (edges g))"
        using IH(1) take False by (simp add: live_def)
      ultimately show ?thesis by (simp add: fields)
    qed
  qed
  then show "newEdges (compacted g n) = filter live (take n (edges g))"
    "adjacency_ok seCaller (newOut (compacted g n)) (newEdges (compacted g n))"
    "adjacency_ok seCallee (newIn (compacted g n)) (newEdges (compacted g n))"
    "index_ok (newIndex (compacted g n)) (newEdges (compacted g n))"
    "map_of (newRemap (compacted g n)) i =
           (if i < n \<and> live_at (edges g) i then Some (rank (edges g) i) else None)"
    by blast+
qed

subsection \<open>Renumbered provenance\<close>

lemma compact_tu_fold:
  assumes "distinct (ukeys te)" and "\<And>k. k \<in> fst ` set te \<Longrightarrow> ulist m k = []" and "distinct (ukeys m)"
  shows "ulist (fold (compact_tu remap) te m) k =
           (if k \<in> fst ` set te then List.map_filter (map_of remap) (ulist te k) else ulist m k)
         \<and> distinct (ukeys (fold (compact_tu remap) te m))"
  using assms
proof (induction te arbitrary: m)
  case (Cons p te)
  obtain tu idxs where p: "p = (tu, idxs)" by fastforce
  have tu: "tu \<notin> fst ` set te" "ulist m tu = []" using Cons.prems p by auto
  let ?m1 = "compact_tu remap p m"
  have m1: "ulist ?m1 k = (if k = tu then List.map_filter (map_of remap) idxs else ulist m k)" for k
    using tu by (auto simp: p compact_tu_def Let_def umap_simps)
  have "distinct (ukeys ?m1)" using Cons.prems(3) by (auto simp: p compact_tu_def Let_def)
  moreover have "ulist ?m1 k' = []" if "k' \<in> fst ` set te" for k'
    using that m1 tu Cons.prems(2)[of k'] by auto
  ultimately have IH: "ulist (fold (compact_tu remap) te ?m1) k =
       (if k \<in> fst ` set te then List.map_filter (map_of remap) (ulist te k) else ulist ?m1 k)
     \<and> distinct (ukeys (fold (compact_tu remap) te ?m1))"
    using Cons.IH[of ?m1] Cons.prems(1) by auto
  have "ulist (p # te) k = (if k = tu then idxs else ulist te k)" by (simp add: p ulist_def)
  with IH m1[of k] tu p show ?case by auto
qed simp

lemma map_filter_Some: "(\<And>x. x \<in> set xs \<Longrightarrow> f x = Some (h x)) \<Longrightarrow> List.map_filter f xs = map h xs"
  by (induction xs) (auto simp: List.map_filter_simps)

lemma count_list_map_inj:
  "(\<And>x. x \<in> set xs \<Longrightarrow> f x = f y \<Longrightarrow> x = y) \<Longrightarrow> count_list (map f xs) (f y) = count_list xs y"
  by (induction xs) auto

lemma ucount_as_sum:
  assumes "distinct (ukeys m)" and "finite K" and "fst ` set m \<subseteq> K"
  shows "ucount m x = (\<Sum>k \<in> K. count_list (ulist m k) x)"
proof -
  have "ucount m x = (\<Sum>p \<leftarrow> m. count_list (ulist m (fst p)) x)"
    unfolding ucount_def using assms(1)
    by (auto intro!: arg_cong[of _ _ sum_list] simp: ulist_in_set)
  also have "\<dots> = (\<Sum>k \<leftarrow> ukeys m. count_list (ulist m k) x)" by (simp add: comp_def)
  also have "\<dots> = (\<Sum>k \<in> set (ukeys m). count_list (ulist m k) x)"
    by (rule sum.distinct_set_conv_list[symmetric, OF assms(1)])
  also have "\<dots> = (\<Sum>k \<in> fst ` set m. count_list (ulist m k) x)" by simp
  also have "\<dots> = (\<Sum>k \<in> K. count_list (ulist m k) x)"
    using assms(2,3) by (intro sum.mono_neutral_left) (auto simp: ulist_dom_or_Nil)
  finally show ?thesis .
qed

lemma compact_edges:
  assumes inv: "edge_inv g"
  shows "edge_inv (compact g)"
    and "edges (compact g) = filter live (edges g)"
    and "key_refs (compact g) k = key_refs g k"
    and "tu_refs (compact g) t k = tu_refs g t k"
proof -
  let ?n = "length (edges g)" and ?es = "filter live (edges g)"
  let ?c = "compacted g ?n"
  have ix: "index_ok (edgeIndex g) (edges g)" and bk: "backing_ok (tuEdges g) (edges g)"
    using inv by (auto simp: edge_inv_def)
  note spec = compacted_spec[of ?n g, OF order.refl ix]
  have cg: "compact g = g\<lparr>edges := newEdges ?c, edgeIndex := newIndex ?c, outEdges := newOut ?c,
           inEdges := newIn ?c, tuEdges := fold (compact_tu (newRemap ?c)) (tuEdges g) []\<rparr>"
    by (simp add: compact_def compacted_def Let_def)
  let ?te = "fold (compact_tu (newRemap ?c)) (tuEdges g) []"
  have dk: "distinct (ukeys (tuEdges g))" using bk by (simp add: backing_ok_def)
  have remap: "map_of (newRemap ?c) i = Some (rank (edges g) i)" if "live_at (edges g) i" for i
    using spec(5)[of i] that by (simp add: live_at_def)
  have te: "ulist ?te t = map (rank (edges g)) (ulist (tuEdges g) t)"
    and te_dist: "distinct (ukeys ?te)" for t
  proof -
    have "List.map_filter (map_of (newRemap ?c)) (ulist (tuEdges g) t)
        = map (rank (edges g)) (ulist (tuEdges g) t)"
      using backing_ok_live[OF bk, of _ t] remap by (intro map_filter_Some) blast
    then show "ulist ?te t = map (rank (edges g)) (ulist (tuEdges g) t)" "distinct (ukeys ?te)"
      using compact_tu_fold[OF dk, of "[]" "newRemap ?c" t]
      by (auto simp: ulist_dom_or_Nil split: if_splits)
  qed
  have count: "count_list (ulist ?te t) (rank (edges g) i) = count_list (ulist (tuEdges g) t) i"
    if "live_at (edges g) i" for t i
    unfolding te using backing_ok_live[OF bk] that by (intro count_list_map_inj) (blast intro: rank_inj)
  have zero: "count_list (ulist ?te t) j = 0" if "j \<ge> length ?es" for t j
    unfolding te using backing_ok_live[OF bk] rank_less that
    by (fastforce simp: count_list_0_iff)
  have uc: "ucount ?te j \<le> refs_at ?es j" for j
  proof -
    let ?K = "fst ` set (tuEdges g) \<union> fst ` set ?te"
    have sum1: "ucount ?te j = (\<Sum>k \<in> ?K. count_list (ulist ?te k) j)"
      using te_dist by (intro ucount_as_sum) auto
    show ?thesis
    proof (cases "j < length ?es")
      case True
      then obtain i where i: "live_at (edges g) i" "rank (edges g) i = j" using rank_surj by blast
      have "ucount ?te j = (\<Sum>k \<in> ?K. count_list (ulist (tuEdges g) k) i)"
        unfolding sum1 using count[OF i(1)] i(2) by simp
      also have "\<dots> = ucount (tuEdges g) i"
        using dk by (intro ucount_as_sum[symmetric]) auto
      also have "\<dots> \<le> refs_at (edges g) i" using bk by (simp add: backing_ok_def)
      also have "\<dots> = refs_at ?es j"
        using i True nth_filter_rank[OF i(1)] by (simp add: refs_at_def live_at_def)
      finally show ?thesis .
    next
      case False
      then show ?thesis unfolding sum1 using zero by simp
    qed
  qed
  show ed: "edges (compact g) = ?es" using spec(1) by (simp add: cg)
  have lives: "{i. live_at ?es i} = {..<length ?es}"
    using nth_mem[of _ ?es] by (auto simp: live_at_live)
  have "card {i. live_at (edges g) i} = length ?es"
    by (simp add: length_filter_conv_card live_at_live)
  then have "liveEdgeCount g = card {i. live_at ?es i}"
    using inv lives by (simp add: edge_inv_def)
  then show inv': "edge_inv (compact g)"
    using spec(1-4) te_dist uc by (simp add: edge_inv_def cg backing_ok_def)
  have newix: "map_of (edgeIndex (compact g)) k =
      (case map_of (edgeIndex g) k of None \<Rightarrow> None | Some i \<Rightarrow> Some (rank (edges g) i))"
  proof (cases "map_of (edgeIndex g) k")
    case (Some i)
    then have i: "live_at (edges g) i" "keyOf (edges g ! i) = k" using index_ok_iff[OF ix] by auto
    have "live_at ?es (rank (edges g) i)" using rank_less[OF i(1)] lives by auto
    moreover have "index_ok (edgeIndex (compact g)) ?es" using spec(1,4) by (simp add: cg)
    ultimately show ?thesis
      using index_ok_iff[of "edgeIndex (compact g)" ?es k "rank (edges g) i"] Some i
        nth_filter_rank[OF i(1)] by simp
  next
    case None
    have "index_ok (edgeIndex (compact g)) ?es" using spec(1,4) by (simp add: cg)
    then have "map_of (edgeIndex (compact g)) k = None"
    proof (rule_tac ccontr)
      assume io: "index_ok (edgeIndex (compact g)) ?es" and "map_of (edgeIndex (compact g)) k \<noteq> None"
      then obtain j where "live_at ?es j" "keyOf (?es ! j) = k" using index_ok_iff by blast
      then obtain i where "live_at (edges g) i" "keyOf (edges g ! i) = k"
        using rank_surj[of j "edges g"] nth_filter_rank by (auto simp: live_at_def)
      with None index_ok_None[OF ix] show False by blast
    qed
    with None show ?thesis by simp
  qed
  show "key_refs (compact g) k = key_refs g k"
  proof (cases "map_of (edgeIndex g) k")
    case (Some i)
    then have "live_at (edges g) i" using index_ok_iff[OF ix] by auto
    then show ?thesis using Some newix ed by (simp add: key_refs_def nth_filter_rank)
  qed (simp add: key_refs_def newix)
  show "tu_refs (compact g) t k = tu_refs g t k"
  proof -
    have t: "ulist (tuEdges (compact g)) t = map (rank (edges g)) (ulist (tuEdges g) t)"
      using te by (simp add: cg)
    show ?thesis
    proof (cases "map_of (edgeIndex g) k")
      case (Some i)
      then have "live_at (edges g) i" using index_ok_iff[OF ix] by auto
      with count[of i t] Some newix t te show ?thesis
        by (simp add: tu_refs_eq_count[OF inv] tu_refs_eq_count[OF inv'])
    qed (simp add: tu_refs_eq_count[OF inv] tu_refs_eq_count[OF inv'] newix)
  qed
qed

text \<open>The live edges at an endpoint, in table order: what the adjacency vectors denote.\<close>

definition live_out :: "CallGraph \<Rightarrow> sid \<Rightarrow> StoredEdge list" where
  "live_out g c = filter (\<lambda>e. refs e > 0 \<and> seCaller e = c) (edges g)"

definition live_in :: "CallGraph \<Rightarrow> sid \<Rightarrow> StoredEdge list" where
  "live_in g c = filter (\<lambda>e. refs e > 0 \<and> seCallee e = c) (edges g)"

lemma map_outEdges: "edge_inv g \<Longrightarrow> map ((!) (edges g)) (ulist (outEdges g) c) = live_out g c"
  by (simp add: edge_inv_def adjacency_ok_def live_out_def map_nth_positions)

lemma map_inEdges: "edge_inv g \<Longrightarrow> map ((!) (edges g)) (ulist (inEdges g) c) = live_in g c"
  by (simp add: edge_inv_def adjacency_ok_def live_in_def map_nth_positions)

lemma live_out_compact: "edge_inv g \<Longrightarrow> live_out (compact g) c = live_out g c"
  by (auto simp: live_out_def compact_edges(2) live_def intro!: filter_cong)

lemma live_in_compact: "edge_inv g \<Longrightarrow> live_in (compact g) c = live_in g c"
  by (auto simp: live_in_def compact_edges(2) live_def intro!: filter_cong)

end
