(* ===== verification/CallGraphQuery.thy ===== *)
theory CallGraphQuery
  imports CallGraphCompact
begin

text \<open>
  The id-level edge queries.  Both directions build their result in three passes over a pair
  (\<open>seen\<close>, \<open>result\<close>); the combinator \<open>extends\<close> tracks which call keys a pass adds.  The
  specification \<open>call_reaches\<close> says which functions a stored edge can invoke: its static
  target, every transitive override of a plausible virtual dispatch, every function the
  target of a deferred row returns.  Callee and caller queries are both exactly that
  relation, so they are converse to each other.
\<close>

subsection \<open>Passes that extend a deduplicated result\<close>

definition covers :: "('r \<Rightarrow> 'k) \<Rightarrow> 'k set \<times> 'r list \<Rightarrow> bool" where
  "covers kf s \<longleftrightarrow> fst s \<subseteq> kf ` set (snd s)"

definition extends :: "('r \<Rightarrow> 'k) \<Rightarrow> ('k set \<times> 'r list \<Rightarrow> 'k set \<times> 'r list) \<Rightarrow> 'k set \<Rightarrow> 'r set \<Rightarrow> bool" where
  "extends kf F K R \<longleftrightarrow>
     (\<forall>s. covers kf s \<longrightarrow>
        covers kf (F s) \<and> kf ` set (snd (F s)) = kf ` set (snd s) \<union> K \<and>
        set (snd s) \<subseteq> set (snd (F s)) \<and> set (snd (F s)) \<subseteq> set (snd s) \<union> R)"

lemma extendsI:
  "(\<And>s. covers kf s \<Longrightarrow>
        covers kf (F s) \<and> kf ` set (snd (F s)) = kf ` set (snd s) \<union> K \<and>
        set (snd s) \<subseteq> set (snd (F s)) \<and> set (snd (F s)) \<subseteq> set (snd s) \<union> R) \<Longrightarrow>
   extends kf F K R"
  by (simp add: extends_def)

lemma extends_skip: "extends kf (\<lambda>s. s) {} R"
  by (simp add: extends_def)

lemma extends_weaken: "extends kf F K R \<Longrightarrow> K = K' \<Longrightarrow> R \<subseteq> R' \<Longrightarrow> extends kf F K' R'"
  by (fastforce simp: extends_def)

lemma extends_synth: "kf r = k \<Longrightarrow> extends kf (synth k r) {k} {r}"
  by (rule extendsI) (auto simp: covers_def synth_def split: prod.splits)

lemma extendsD:
  assumes "extends kf F K R" and "covers kf s"
  shows "covers kf (F s)" and "kf ` set (snd (F s)) = kf ` set (snd s) \<union> K"
    and "set (snd s) \<subseteq> set (snd (F s))" and "set (snd (F s)) \<subseteq> set (snd s) \<union> R"
  using assms by (simp_all only: extends_def)

lemma extends_comp:
  assumes "extends kf F K R" and "extends kf G K' R'"
  shows "extends kf (\<lambda>s. G (F s)) (K \<union> K') (R \<union> R')"
proof (rule extendsI, intro conjI)
  fix s assume s: "covers kf s"
  note 1 = extendsD[OF assms(1) s]
  note 2 = extendsD[OF assms(2) 1(1)]
  show "covers kf (G (F s))" by (rule 2(1))
  show "kf ` set (snd (G (F s))) = kf ` set (snd s) \<union> (K \<union> K')" by (simp only: 1 2 Un_assoc)
  show "set (snd s) \<subseteq> set (snd (G (F s)))" using 1(3) 2(3) by (rule order_trans)
  show "set (snd (G (F s))) \<subseteq> set (snd s) \<union> (R \<union> R')" using 1(4) 2(4) by blast
qed

lemma extends_fold:
  assumes "\<And>x. x \<in> set xs \<Longrightarrow> extends kf (F x) (K x) (R x)"
  shows "extends kf (fold F xs) (\<Union>x \<in> set xs. K x) (\<Union>x \<in> set xs. R x)"
  using assms
proof (induction xs)
  case Nil
  then show ?case by (simp add: extends_def)
next
  case (Cons x xs)
  have "extends kf (\<lambda>s. fold F xs (F x s)) (K x \<union> (\<Union>x \<in> set xs. K x)) (R x \<union> (\<Union>x \<in> set xs. R x))"
    by (rule extends_comp) (use Cons in auto)
  then show ?case by (simp add: comp_def)
qed

lemma extends_result:
  "extends kf F K R \<Longrightarrow> kf ` set (snd (F ({}, []))) = K \<and> set (snd (F ({}, []))) \<subseteq> R"
  using extendsD[of kf F K R "({}, [])"] by (simp add: covers_def)

subsection \<open>Which functions a stored edge invokes\<close>

definition edge_targets :: "CallGraph \<Rightarrow> StoredEdge \<Rightarrow> sid set" where
  "edge_targets g e =
     (if seKind e = FunctionPointerReturn then set (ulist (functionReturns g) (seCallee e))
      else if seKind e = VirtualDispatch \<and> seConfidence e = Plausible
           then (rel_of (methodOverrides g))\<^sup>* `` {seCallee e}
      else {seCallee e})"

definition expand_ref :: "StoredEdge \<Rightarrow> sid \<Rightarrow> EdgeRef" where
  \<comment> \<open>the edge view a query reports for a stored edge and one of its targets\<close>
  "expand_ref e b =
     (ref_of e)\<lparr>refCallee := b,
                refKind := (if seKind e = FunctionPointerReturn then joined_kind e else seKind e)\<rparr>"

definition live_edge :: "CallGraph \<Rightarrow> StoredEdge \<Rightarrow> bool" where
  "live_edge g e \<longleftrightarrow> e \<in> set (edges g) \<and> refs e > 0"

definition call_reaches :: "CallGraph \<Rightarrow> sid \<Rightarrow> sid \<Rightarrow> sid \<Rightarrow> bool" where
  \<comment> \<open>function \<open>a\<close> can invoke \<open>b\<close> at call site \<open>s\<close>\<close>
  "call_reaches g a b s \<longleftrightarrow>
     (\<exists>e. live_edge g e \<and> seCaller e = a \<and> seCallSite e = s \<and> b \<in> edge_targets g e)"

lemma expand_ref_simps [simp]:
  "refCaller (expand_ref e b) = seCaller e" "refCallee (expand_ref e b) = b"
  "refCallSite (expand_ref e b) = seCallSite e"
  by (simp_all add: expand_ref_def ref_of_def)

lemma set_live_out: "e \<in> set (live_out g a) \<longleftrightarrow> live_edge g e \<and> seCaller e = a"
  by (auto simp: live_out_def live_edge_def)

lemma set_live_in: "e \<in> set (live_in g b) \<longleftrightarrow> live_edge g e \<and> seCallee e = b"
  by (auto simp: live_in_def live_edge_def)

lemma live_edge_compact: "edge_inv g \<Longrightarrow> live_edge (compact g) e \<longleftrightarrow> live_edge g e"
  by (auto simp: live_edge_def compact_edges(2) live_def)

lemma edge_targets_simps:
  "defers e \<Longrightarrow> edge_targets g e = set (ulist (functionReturns g) (seCallee e))"
  "dispatches e \<Longrightarrow>
     edge_targets g e = insert (seCallee e) (set (transitiveClosure (seCallee e) (methodOverrides g)))"
  by (auto simp: edge_targets_def defers_def dispatches_def transitiveClosure_spec)

subsection \<open>The callee query\<close>

abbreviation calleeKey :: "EdgeRef \<Rightarrow> sid \<times> sid" where
  "calleeKey r \<equiv> (refCallee r, refCallSite r)"

abbreviation callerKey :: "EdgeRef \<Rightarrow> sid \<times> sid" where
  "callerKey r \<equiv> (refCaller r, refCallSite r)"

definition stored_shown :: "StoredEdge \<Rightarrow> bool" where
  "stored_shown e \<longleftrightarrow> refs e > 0 \<and> seKind e \<noteq> FunctionPointerReturn"

lemma calleeRefsOf_live:
  assumes "edge_inv g"
  shows "calleeRefsOf g a =
     snd (fold (callee_returns g) (live_out g a)
           (fold (callee_virtual g) (live_out g a)
             (fold callee_stored (live_out g a) ({}, []))))"
proof (cases "map_of (outEdges g) a")
  case None
  then have "live_out g a = []" using map_outEdges[OF assms, of a] by (simp add: ulist_None)
  with None show ?thesis by (simp add: calleeRefsOf_def)
next
  case (Some idxs)
  then have L: "live_out g a = map ((!) (edges g)) idxs"
    using map_outEdges[OF assms, of a] by (simp add: ulist_Some)
  show ?thesis by (simp add: calleeRefsOf_def Some L Let_def fold_map comp_def)
qed

lemma extends_callee_stored:
  "extends calleeKey (callee_stored e)
     (if stored_shown e then {(seCallee e, seCallSite e)} else {})
     (if stored_shown e then {ref_of e} else {})"
  by (rule extendsI)
    (auto simp: covers_def callee_stored_def stored_shown_def ref_of_def split: prod.splits)

lemma extends_callee_virtual:
  "extends calleeKey (callee_virtual g e)
     (if dispatches e then (\<lambda>b. (b, seCallSite e)) ` set (transitiveClosure (seCallee e) (methodOverrides g)) else {})
     (if dispatches e then expand_ref e ` set (transitiveClosure (seCallee e) (methodOverrides g)) else {})"
proof (cases "dispatches e")
  case True
  then have "(ref_of e)\<lparr>refCallee := b\<rparr> = expand_ref e b" for b
    by (auto simp: dispatches_def expand_ref_def ref_of_def)
  then have "callee_virtual g e = fold (\<lambda>b. synth (b, seCallSite e) (expand_ref e b))
      (transitiveClosure (seCallee e) (methodOverrides g))"
    using True by (simp add: callee_virtual_def fun_eq_iff)
  moreover have "extends calleeKey (fold (\<lambda>b. synth (b, seCallSite e) (expand_ref e b))
      (transitiveClosure (seCallee e) (methodOverrides g)))
      (\<Union>b \<in> set (transitiveClosure (seCallee e) (methodOverrides g)). {(b, seCallSite e)})
      (\<Union>b \<in> set (transitiveClosure (seCallee e) (methodOverrides g)). {expand_ref e b})"
    by (intro extends_fold extends_synth) simp
  ultimately show ?thesis using True by (simp add: UNION_singleton_eq_range)
next
  case False
  then have "callee_virtual g e = (\<lambda>s. s)" by (simp add: callee_virtual_def fun_eq_iff)
  with False show ?thesis by (simp add: extends_skip)
qed

lemma extends_callee_returns:
  "extends calleeKey (callee_returns g e)
     (if defers e then (\<lambda>b. (b, seCallSite e)) ` set (ulist (functionReturns g) (seCallee e)) else {})
     (if defers e then expand_ref e ` set (ulist (functionReturns g) (seCallee e)) else {})"
proof (cases "defers e")
  case True
  then have "(ref_of e)\<lparr>refCallee := b, refKind := joined_kind e\<rparr> = expand_ref e b" for b
    by (auto simp: defers_def expand_ref_def)
  then have "callee_returns g e = fold (\<lambda>b. synth (b, seCallSite e) (expand_ref e b))
      (ulist (functionReturns g) (seCallee e))"
    using True by (simp add: callee_returns_def fun_eq_iff)
  moreover have "extends calleeKey (fold (\<lambda>b. synth (b, seCallSite e) (expand_ref e b))
      (ulist (functionReturns g) (seCallee e)))
      (\<Union>b \<in> set (ulist (functionReturns g) (seCallee e)). {(b, seCallSite e)})
      (\<Union>b \<in> set (ulist (functionReturns g) (seCallee e)). {expand_ref e b})"
    by (intro extends_fold extends_synth) simp
  ultimately show ?thesis using True by (simp add: UNION_singleton_eq_range)
next
  case False
  then have "callee_returns g e = (\<lambda>s. s)" by (simp add: callee_returns_def fun_eq_iff)
  with False show ?thesis by (simp add: extends_skip)
qed

lemma ref_of_expand: "stored_shown e \<Longrightarrow> ref_of e = expand_ref e (seCallee e)"
  by (simp add: stored_shown_def expand_ref_def ref_of_def)

lemma live_cases:
  assumes "live_edge g e"
  shows "defers e \<longleftrightarrow> \<not> stored_shown e" and "dispatches e \<Longrightarrow> stored_shown e"
  using assms by (auto simp: live_edge_def defers_def stored_shown_def dispatches_def)

lemma edge_targets_other:
  "live_edge g e \<Longrightarrow> stored_shown e \<Longrightarrow> \<not> dispatches e \<Longrightarrow> edge_targets g e = {seCallee e}"
  by (auto simp: edge_targets_def stored_shown_def dispatches_def live_edge_def)

lemma calleeRefsOf_spec:
  assumes inv: "edge_inv g"
  shows "calleeKey ` set (calleeRefsOf g a) = {(b, s). call_reaches g a b s}"
    and "r \<in> set (calleeRefsOf g a) \<Longrightarrow>
           \<exists>e. live_edge g e \<and> seCaller e = a \<and> refCallee r \<in> edge_targets g e \<and> r = expand_ref e (refCallee r)"
proof -
  let ?L = "live_out g a"
  let ?F = "\<lambda>s. fold (callee_returns g) ?L (fold (callee_virtual g) ?L (fold callee_stored ?L s))"
  let ?K1 = "\<lambda>e. if stored_shown e then {(seCallee e, seCallSite e)} else {}"
  let ?K2 = "\<lambda>e. if dispatches e then (\<lambda>b. (b, seCallSite e)) ` set (transitiveClosure (seCallee e) (methodOverrides g)) else {}"
  let ?K3 = "\<lambda>e. if defers e then (\<lambda>b. (b, seCallSite e)) ` set (ulist (functionReturns g) (seCallee e)) else {}"
  let ?R1 = "\<lambda>e. if stored_shown e then {ref_of e} else {}"
  let ?R2 = "\<lambda>e. if dispatches e then expand_ref e ` set (transitiveClosure (seCallee e) (methodOverrides g)) else {}"
  let ?R3 = "\<lambda>e. if defers e then expand_ref e ` set (ulist (functionReturns g) (seCallee e)) else {}"
  have "extends calleeKey ?F (((\<Union>e \<in> set ?L. ?K1 e) \<union> (\<Union>e \<in> set ?L. ?K2 e)) \<union> (\<Union>e \<in> set ?L. ?K3 e))
      (((\<Union>e \<in> set ?L. ?R1 e) \<union> (\<Union>e \<in> set ?L. ?R2 e)) \<union> (\<Union>e \<in> set ?L. ?R3 e))"
    by (intro extends_comp extends_fold extends_callee_stored extends_callee_virtual extends_callee_returns)
  from extends_result[OF this] calleeRefsOf_live[OF inv, of a]
  have keys: "calleeKey ` set (calleeRefsOf g a) = (\<Union>e \<in> set ?L. ?K1 e \<union> ?K2 e \<union> ?K3 e)"
    and refs: "set (calleeRefsOf g a) \<subseteq> (\<Union>e \<in> set ?L. ?R1 e \<union> ?R2 e \<union> ?R3 e)"
    by (auto simp: UN_Un_distrib)
  have K: "?K1 e \<union> ?K2 e \<union> ?K3 e = (\<lambda>b. (b, seCallSite e)) ` edge_targets g e"
    and R: "?R1 e \<union> ?R2 e \<union> ?R3 e \<subseteq> expand_ref e ` edge_targets g e" if "live_edge g e" for e
    using live_cases[OF that] edge_targets_simps(1)[of e g] edge_targets_simps(2)[of e g]
      edge_targets_other[OF that] ref_of_expand[of e]
    by (cases "dispatches e"; cases "stored_shown e"; auto)+
  show "calleeKey ` set (calleeRefsOf g a) = {(b, s). call_reaches g a b s}"
    unfolding keys by (auto simp: set_live_out K call_reaches_def)
  assume "r \<in> set (calleeRefsOf g a)"
  with refs obtain e where "live_edge g e" "seCaller e = a" "r \<in> ?R1 e \<union> ?R2 e \<union> ?R3 e"
    by (fastforce simp: set_live_out)
  with R[of e] obtain b where "live_edge g e" "seCaller e = a" "b \<in> edge_targets g e" "r = expand_ref e b"
    by blast
  then show "\<exists>e. live_edge g e \<and> seCaller e = a \<and> refCallee r \<in> edge_targets g e \<and> r = expand_ref e (refCallee r)"
    by (intro exI[of _ e]) simp
qed

subsection \<open>The caller query\<close>

definition relations_ok :: "CallGraph \<Rightarrow> bool" where
  \<comment> \<open>the reverse maps hold the converse relations\<close>
  "relations_ok g \<longleftrightarrow>
     rel_of (overrideBases g) = (rel_of (methodOverrides g))\<inverse> \<and>
     rel_of (returnedBy g) = (rel_of (functionReturns g))\<inverse>"

lemma extends_caller_stored:
  "extends callerKey (caller_stored e)
     (if stored_shown e then {(seCaller e, seCallSite e)} else {})
     (if stored_shown e then {ref_of e} else {})"
  by (rule extendsI)
    (auto simp: covers_def caller_stored_def stored_shown_def ref_of_def split: prod.splits)

lemma extends_caller_virtual:
  "extends callerKey (caller_virtual b e)
     (if dispatches e then {(seCaller e, seCallSite e)} else {})
     (if dispatches e then {expand_ref e b} else {})"
proof (cases "dispatches e")
  case True
  then have "(ref_of e)\<lparr>refCallee := b\<rparr> = expand_ref e b"
    by (auto simp: dispatches_def expand_ref_def ref_of_def)
  with True have "caller_virtual b e = synth (seCaller e, seCallSite e) (expand_ref e b)"
    by (simp add: caller_virtual_def fun_eq_iff)
  with True show ?thesis by (simp add: extends_synth)
next
  case False
  then have "caller_virtual b e = (\<lambda>s. s)" by (simp add: caller_virtual_def fun_eq_iff)
  with False show ?thesis by (simp add: extends_skip)
qed

lemma extends_caller_returns:
  "extends callerKey (caller_returns b e)
     (if defers e then {(seCaller e, seCallSite e)} else {})
     (if defers e then {expand_ref e b} else {})"
proof (cases "defers e")
  case True
  then have "(ref_of e)\<lparr>refCallee := b, refKind := joined_kind e\<rparr> = expand_ref e b"
    by (auto simp: defers_def expand_ref_def)
  with True have "caller_returns b e = synth (seCaller e, seCallSite e) (expand_ref e b)"
    by (simp add: caller_returns_def fun_eq_iff)
  with True show ?thesis by (simp add: extends_synth)
next
  case False
  then have "caller_returns b e = (\<lambda>s. s)" by (simp add: caller_returns_def fun_eq_iff)
  with False show ?thesis by (simp add: extends_skip)
qed

lemma fold_positions:
  "edge_inv g \<Longrightarrow> fold (\<lambda>idx. f (edges g ! idx)) (ulist (inEdges g) c) = fold f (live_in g c)"
  by (simp add: map_inEdges[symmetric] fold_map comp_def)

lemma callerRefsOf_live:
  assumes "edge_inv g"
  shows "callerRefsOf g b =
     snd (fold (\<lambda>returner. fold (caller_returns b) (live_in g returner)) (ulist (returnedBy g) b)
           (fold (\<lambda>base. fold (caller_virtual b) (live_in g base)) (transitiveClosure b (overrideBases g))
             (fold caller_stored (live_in g b) ({}, []))))"
  by (simp add: callerRefsOf_def Let_def fold_positions[OF assms])

lemma callerRefsOf_spec:
  assumes inv: "edge_inv g" and rel: "relations_ok g"
  shows "callerKey ` set (callerRefsOf g b) = {(a, s). call_reaches g a b s}"
    and "r \<in> set (callerRefsOf g b) \<Longrightarrow>
           \<exists>e. live_edge g e \<and> b \<in> edge_targets g e \<and> r = expand_ref e b"
proof -
  let ?bases = "transitiveClosure b (overrideBases g)" and ?rets = "ulist (returnedBy g) b"
  let ?F = "\<lambda>s. fold (\<lambda>returner. fold (caller_returns b) (live_in g returner)) ?rets
           (fold (\<lambda>base. fold (caller_virtual b) (live_in g base)) ?bases
             (fold caller_stored (live_in g b) s))"
  let ?k = "\<lambda>e. {(seCaller e, seCallSite e)}"
  let ?K1 = "\<lambda>e. if stored_shown e then ?k e else {}" and ?R1 = "\<lambda>e. if stored_shown e then {ref_of e} else {}"
  let ?K2 = "\<lambda>e. if dispatches e then ?k e else {}" and ?R2 = "\<lambda>e. if dispatches e then {expand_ref e b} else {}"
  let ?K3 = "\<lambda>e. if defers e then ?k e else {}" and ?R3 = "\<lambda>e. if defers e then {expand_ref e b} else {}"
  have "extends callerKey ?F
      (((\<Union>e \<in> set (live_in g b). ?K1 e) \<union> (\<Union>c \<in> set ?bases. \<Union>e \<in> set (live_in g c). ?K2 e)) \<union>
        (\<Union>c \<in> set ?rets. \<Union>e \<in> set (live_in g c). ?K3 e))
      (((\<Union>e \<in> set (live_in g b). ?R1 e) \<union> (\<Union>c \<in> set ?bases. \<Union>e \<in> set (live_in g c). ?R2 e)) \<union>
        (\<Union>c \<in> set ?rets. \<Union>e \<in> set (live_in g c). ?R3 e))"
    by (intro extends_comp extends_fold extends_caller_stored extends_caller_virtual extends_caller_returns)
  from extends_result[OF this] callerRefsOf_live[OF inv, of b]
  have keys: "callerKey ` set (callerRefsOf g b) =
      ((\<Union>e \<in> set (live_in g b). ?K1 e) \<union> (\<Union>c \<in> set ?bases. \<Union>e \<in> set (live_in g c). ?K2 e)) \<union>
        (\<Union>c \<in> set ?rets. \<Union>e \<in> set (live_in g c). ?K3 e)"
    and refs: "set (callerRefsOf g b) \<subseteq>
      ((\<Union>e \<in> set (live_in g b). ?R1 e) \<union> (\<Union>c \<in> set ?bases. \<Union>e \<in> set (live_in g c). ?R2 e)) \<union>
        (\<Union>c \<in> set ?rets. \<Union>e \<in> set (live_in g c). ?R3 e)"
    by simp_all
  have base: "c \<in> set ?bases \<longleftrightarrow> b \<in> set (transitiveClosure c (methodOverrides g))" for c
    using rel transitiveClosure_converse[of "overrideBases g" "methodOverrides g" b c]
    by (simp add: relations_ok_def)
  have ret: "c \<in> set ?rets \<longleftrightarrow> b \<in> set (ulist (functionReturns g) c)" for c
    using rel by (auto simp: relations_ok_def set_eq_iff)
  have tgt: "b \<in> edge_targets g e \<longleftrightarrow>
      (stored_shown e \<and> seCallee e = b) \<or> (dispatches e \<and> seCallee e \<in> set ?bases) \<or>
      (defers e \<and> seCallee e \<in> set ?rets)" if "live_edge g e" for e
    using live_cases[OF that] edge_targets_simps(1)[of e g] edge_targets_simps(2)[of e g]
      edge_targets_other[OF that] base[of "seCallee e"] ret[of "seCallee e"]
    by (cases "dispatches e"; cases "stored_shown e") auto
  show "callerKey ` set (callerRefsOf g b) = {(a, s). call_reaches g a b s}"
  proof (intro equalityI subsetI)
    fix p assume p: "p \<in> callerKey ` set (callerRefsOf g b)"
    obtain a s where [simp]: "p = (a, s)" by fastforce
    from p obtain c e where "e \<in> set (live_in g c)" "seCaller e = a" "seCallSite e = s"
      "(stored_shown e \<and> c = b) \<or> (dispatches e \<and> c \<in> set ?bases) \<or> (defers e \<and> c \<in> set ?rets)"
      unfolding keys by (fastforce split: if_splits)
    then show "p \<in> {(a, s). call_reaches g a b s}"
      using tgt[of e] by (auto simp: call_reaches_def set_live_in)
  next
    fix p assume p: "p \<in> {(a, s). call_reaches g a b s}"
    obtain a s where [simp]: "p = (a, s)" by fastforce
    from p obtain e where e: "live_edge g e" "seCaller e = a" "seCallSite e = s" "b \<in> edge_targets g e"
      by (auto simp: call_reaches_def)
    with tgt[OF e(1)] have "e \<in> set (live_in g (seCallee e))" by (simp add: set_live_in)
    with e tgt[OF e(1)] show "p \<in> callerKey ` set (callerRefsOf g b)"
      unfolding keys by fastforce
  qed
  assume "r \<in> set (callerRefsOf g b)"
  with refs obtain c e where e: "e \<in> set (live_in g c)"
      "(stored_shown e \<and> c = b \<and> r = ref_of e) \<or> (dispatches e \<and> c \<in> set ?bases \<and> r = expand_ref e b) \<or>
       (defers e \<and> c \<in> set ?rets \<and> r = expand_ref e b)"
    by (fastforce split: if_splits)
  then have "live_edge g e \<and> b \<in> edge_targets g e \<and> r = expand_ref e b"
    using tgt[of e] ref_of_expand[of e] by (auto simp: set_live_in)
  then show "\<exists>e. live_edge g e \<and> b \<in> edge_targets g e \<and> r = expand_ref e b" by blast
qed

subsection \<open>Compaction is invisible to the queries\<close>

lemma compact_fields [simp]:
  "methodOverrides (compact g) = methodOverrides g" "overrideBases (compact g) = overrideBases g"
  "functionReturns (compact g) = functionReturns g" "returnedBy (compact g) = returnedBy g"
  "cgInterner (compact g) = cgInterner g" "nodes (compact g) = nodes g" "byName (compact g) = byName g"
  "liveEdgeCount (compact g) = liveEdgeCount g" "nodeContributors (compact g) = nodeContributors g"
  "tuNodes (compact g) = tuNodes g" "derivedClasses (compact g) = derivedClasses g"
  "effectiveImplClasses (compact g) = effectiveImplClasses g"
  by (simp_all add: compact_def Let_def)

lemma callee_steps_compact:
  "callee_virtual (compact g) = callee_virtual g" "callee_returns (compact g) = callee_returns g"
  by (simp_all add: fun_eq_iff callee_virtual_def callee_returns_def)

lemma calleeRefsOf_compact: "edge_inv g \<Longrightarrow> calleeRefsOf (compact g) a = calleeRefsOf g a"
  by (simp add: calleeRefsOf_live compact_edges(1) live_out_compact callee_steps_compact)

lemma callerRefsOf_compact: "edge_inv g \<Longrightarrow> callerRefsOf (compact g) b = callerRefsOf g b"
  by (simp add: callerRefsOf_live compact_edges(1) live_in_compact)

lemma resolveUsrIds_compact [simp]: "resolveUsrIds (compact g) name = resolveUsrIds g name"
  by (simp add: resolveUsrIds_def split: option.split)

lemma materialize_compact [simp]: "materialize (compact g) = materialize g"
  by (simp add: fun_eq_iff materialize_def displayFor_def split: option.split)

end
