(* ===== verification/CallGraphNodes.thy ===== *)
theory CallGraphNodes
  imports CallGraphQuery
begin

text \<open>
  The node side of \<open>CallGraph\<close>: the invariant that ties \<open>nodes_\<close>, the disambiguation
  index \<open>byName_\<close> and the two provenance maps together, validity of every stored id, and
  the preservation of both by node registration and by the node pass of \<open>removeTUs\<close>.
\<close>

subsection \<open>Invariants\<close>

definition names_ok :: "interner \<Rightarrow> (sid, CallGraphNode) umap \<Rightarrow> (sid, sid list) umap \<Rightarrow> bool" where
  "names_ok I ns bn \<longleftrightarrow>
     distinct (ukeys ns) \<and> distinct (ukeys bn) \<and> (\<forall>d. distinct (ulist bn d)) \<and>
     (\<forall>u n. map_of ns u = Some n \<longrightarrow> valid_id I u \<and> resolve I u = usr n) \<and>
     (\<forall>u n. map_of ns u = Some n \<longrightarrow> (\<exists>d. find_id I (qualifiedName n) = Some d)) \<and>
     (\<forall>d u. u \<in> set (ulist bn d) \<longleftrightarrow>
        (\<exists>n. map_of ns u = Some n \<and> find_id I (qualifiedName n) = Some d))"

definition provenance_ok :: "(sid \<Rightarrow> sid list) \<Rightarrow> (sid, sid list) umap \<Rightarrow> sid set \<Rightarrow> bool" where
  \<comment> \<open>\<open>tn\<close> is the TU-to-nodes list; the removal pass holds it in a loop variable\<close>
  "provenance_ok tn con registered \<longleftrightarrow>
     distinct (ukeys con) \<and>
     (\<forall>t n. n \<in> set (tn t) \<longleftrightarrow> t \<in> set (ulist con n)) \<and>
     (\<forall>t. distinct (tn t)) \<and> (\<forall>n. distinct (ulist con n)) \<and>
     (\<forall>n \<in> fst ` set con. ulist con n \<noteq> [] \<and> n \<in> registered)"

definition nodes_ok_with :: "(sid \<Rightarrow> sid list) \<Rightarrow> CallGraph \<Rightarrow> bool" where
  "nodes_ok_with tn g \<longleftrightarrow>
     names_ok (cgInterner g) (nodes g) (byName g) \<and>
     provenance_ok tn (nodeContributors g) (fst ` set (nodes g))"

definition nodes_ok :: "CallGraph \<Rightarrow> bool" where
  "nodes_ok g \<longleftrightarrow> distinct (ukeys (tuNodes g)) \<and> nodes_ok_with (ulist (tuNodes g)) g"

definition pairs_valid :: "interner \<Rightarrow> (sid \<times> sid) set \<Rightarrow> bool" where
  "pairs_valid I r \<longleftrightarrow> (\<forall>(a, b) \<in> r. valid_id I a \<and> valid_id I b)"

definition edge_valid :: "interner \<Rightarrow> StoredEdge \<Rightarrow> bool" where
  "edge_valid I e \<longleftrightarrow> valid_id I (seCaller e) \<and> valid_id I (seCallee e) \<and> valid_id I (seCallSite e)"

definition rel_keys_ok :: "CallGraph \<Rightarrow> bool" where
  "rel_keys_ok g \<longleftrightarrow> distinct (ukeys (derivedClasses g)) \<and> distinct (ukeys (methodOverrides g)) \<and>
     distinct (ukeys (effectiveImplClasses g)) \<and> distinct (ukeys (functionReturns g))"

definition ids_ok :: "CallGraph \<Rightarrow> bool" where
  "ids_ok g \<longleftrightarrow>
     (\<forall>e \<in> set (edges g). edge_valid (cgInterner g) e) \<and>
     (\<forall>t. ulist (tuEdges g) t \<noteq> [] \<longrightarrow> valid_id (cgInterner g) t) \<and>
     pairs_valid (cgInterner g) (rel_of (nodeContributors g)) \<and>
     pairs_valid (cgInterner g) (rel_of (methodOverrides g)) \<and>
     pairs_valid (cgInterner g) (rel_of (functionReturns g)) \<and>
     pairs_valid (cgInterner g) (rel_of (derivedClasses g)) \<and>
     pairs_valid (cgInterner g) (rel_of (effectiveImplClasses g)) \<and>
     rel_keys_ok g"

definition wf_graph :: "CallGraph \<Rightarrow> bool" where
  "wf_graph g \<longleftrightarrow> wf_interner (cgInterner g) \<and> edge_inv g \<and> nodes_ok g \<and> relations_ok g \<and> ids_ok g"

lemma wf_graphD:
  assumes "wf_graph g"
  shows "wf_interner (cgInterner g)" and "edge_inv g" and "nodes_ok g" and "relations_ok g" and "ids_ok g"
  using assms by (auto simp: wf_graph_def)

lemma rel_of_Nil [simp]: "rel_of [] = {}"
  by (auto simp: rel_of_def)

lemma wf_graph_empty: "wf_graph empty_graph"
proof -
  have "nodes_ok empty_graph" "ids_ok empty_graph" "relations_ok empty_graph"
    by (auto simp: nodes_ok_def nodes_ok_with_def names_ok_def provenance_ok_def ids_ok_def
        relations_ok_def pairs_valid_def empty_graph_def rel_keys_ok_def)
  moreover have "cgInterner empty_graph = empty_interner" by (simp add: empty_graph_def)
  ultimately show ?thesis by (simp add: wf_graph_def edge_inv_empty)
qed

lemma names_okD:
  assumes "names_ok I ns bn"
  shows "distinct (ukeys ns)" and "distinct (ukeys bn)" and "distinct (ulist bn d)"
    and "map_of ns u = Some n \<Longrightarrow> valid_id I u \<and> resolve I u = usr n"
    and "map_of ns u = Some n \<Longrightarrow> \<exists>d. find_id I (qualifiedName n) = Some d"
    and "u \<in> set (ulist bn d) \<longleftrightarrow>
           (\<exists>n. map_of ns u = Some n \<and> find_id I (qualifiedName n) = Some d)"
  using assms unfolding names_ok_def by (elim conjE, iprover)+

lemma names_okI:
  assumes "distinct (ukeys ns)" and "distinct (ukeys bn)" and "\<And>d. distinct (ulist bn d)"
    and "\<And>u n. map_of ns u = Some n \<Longrightarrow> valid_id I u \<and> resolve I u = usr n"
    and "\<And>u n. map_of ns u = Some n \<Longrightarrow> \<exists>d. find_id I (qualifiedName n) = Some d"
    and "\<And>u d. u \<in> set (ulist bn d) \<longleftrightarrow>
           (\<exists>n. map_of ns u = Some n \<and> find_id I (qualifiedName n) = Some d)"
  shows "names_ok I ns bn"
  unfolding names_ok_def using assms(1-3) by (intro conjI allI impI assms) assumption+

lemma provenance_okD:
  assumes "provenance_ok tn con reg"
  shows "distinct (ukeys con)" and "x \<in> set (tn t) \<longleftrightarrow> t \<in> set (ulist con x)"
    and "distinct (tn t)" and "distinct (ulist con x)"
    and "x \<in> fst ` set con \<Longrightarrow> ulist con x \<noteq> []" and "x \<in> fst ` set con \<Longrightarrow> x \<in> reg"
  using assms unfolding provenance_ok_def by (elim conjE, blast)+

lemma provenance_okI:
  assumes "distinct (ukeys con)" and "\<And>x t. x \<in> set (tn t) \<longleftrightarrow> t \<in> set (ulist con x)"
    and "\<And>t. distinct (tn t)" and "\<And>x. distinct (ulist con x)"
    and "\<And>x. x \<in> fst ` set con \<Longrightarrow> ulist con x \<noteq> []" and "\<And>x. x \<in> fst ` set con \<Longrightarrow> x \<in> reg"
  shows "provenance_ok tn con reg"
  unfolding provenance_ok_def using assms by metis

lemma in_contributors_key: "t \<in> set (ulist con x) \<Longrightarrow> x \<in> fst ` set con"
  by (metis empty_iff list.set(1) ulist_dom_or_Nil)

lemma in_keys_Some: "x \<in> fst ` set m \<longleftrightarrow> (\<exists>v. map_of m x = Some v)"
  by (metis map_of_eq_None_iff not_None_eq)

subsection \<open>A growing interner\<close>

lemma names_ok_interner:
  assumes ok: "names_ok I ns bn" and ext: "extends_interner I J"
  shows "names_ok J ns bn"
proof (rule names_okI)
  note D = names_okD[OF ok] and X = extends_interner_facts[OF ext]
  show "distinct (ukeys ns)" "distinct (ukeys bn)" "distinct (ulist bn d)" for d by (rule D)+
  show "valid_id J u \<and> resolve J u = usr n" if "map_of ns u = Some n" for u n
    using D(4)[OF that] X by simp
  show "\<exists>d. find_id J (qualifiedName n) = Some d" if "map_of ns u = Some n" for u n
    using D(5)[OF that] X(3) by blast
  have "find_id J (qualifiedName n) = Some d \<longleftrightarrow> find_id I (qualifiedName n) = Some d"
    if "map_of ns u = Some n" for u n d
    using D(5)[OF that] X(3) by (metis option.inject)
  then show "u \<in> set (ulist bn d) \<longleftrightarrow>
           (\<exists>n. map_of ns u = Some n \<and> find_id J (qualifiedName n) = Some d)" for u d
    unfolding D(6) by metis
qed

lemma nodes_ok_with_interner:
  "nodes_ok_with tn g \<Longrightarrow> extends_interner (cgInterner g) J \<Longrightarrow> nodes_ok_with tn (g\<lparr>cgInterner := J\<rparr>)"
  by (auto simp: nodes_ok_with_def intro: names_ok_interner)

lemma pairs_valid_interner: "pairs_valid I r \<Longrightarrow> extends_interner I J \<Longrightarrow> pairs_valid J r"
  by (auto simp: pairs_valid_def dest: extends_interner_facts)

lemma ids_ok_interner:
  assumes "ids_ok g" and "extends_interner (cgInterner g) J"
  shows "ids_ok (g\<lparr>cgInterner := J\<rparr>)"
  using assms by (auto simp: ids_ok_def edge_valid_def rel_keys_ok_def
      intro: extends_interner_facts pairs_valid_interner)

lemma wf_graph_interner:
  assumes "wf_graph g" and "extends_interner (cgInterner g) J"
  shows "wf_graph (g\<lparr>cgInterner := J\<rparr>)"
proof -
  have "edge_part (g\<lparr>cgInterner := J\<rparr>) = edge_part g" by (simp add: edge_part_def)
  from edge_part_cong(1)[OF this] assms show ?thesis
    by (auto simp: wf_graph_def nodes_ok_def relations_ok_def extends_interner_def
        intro: nodes_ok_with_interner ids_ok_interner)
qed

subsection \<open>Registering a node\<close>

lemma fst_update: "fst ` set (AList.update k v m) = insert k (fst ` set m)"
  by (simp add: AList.dom_update)

lemma fst_delete: "fst ` set (AList.delete k m) = fst ` set m - {k}"
  by (force simp: AList.delete_eq)

lemma fst_uemplace: "fst ` set (uemplace k v m) = insert k (fst ` set m)"
  by (auto simp: uemplace_def AList.dom_update)

lemma provenance_ok_mono: "provenance_ok tn con reg \<Longrightarrow> reg \<subseteq> reg' \<Longrightarrow> provenance_ok tn con reg'"
  by (unfold provenance_ok_def) blast

lemma names_ok_fresh:
  assumes ok: "names_ok I ns bn" and none: "map_of ns u = None"
    and u: "valid_id I u \<and> resolve I u = usr n" and d: "find_id I (qualifiedName n) = Some d"
  shows "names_ok I (uemplace u n ns) (upush_new d u bn)"
proof (rule names_okI)
  note D = names_okD[OF ok]
  have fresh: "u \<notin> set (ulist bn c)" for c using D(6)[of u c] none by simp
  have ns': "map_of (uemplace u n ns) x = (if x = u then Some n else map_of ns x)" for x
    using none by (auto simp: umap_simps)
  have bn': "ulist (upush_new d u bn) x = (if x = d then ulist bn d @ [u] else ulist bn x)" for x
    using fresh by (simp add: upush_new_def umap_simps)
  show "distinct (ukeys (uemplace u n ns))" "distinct (ukeys (upush_new d u bn))"
    using D(1,2) by auto
  show "distinct (ulist (upush_new d u bn) c)" for c using D(3) fresh by (simp add: bn')
  show "valid_id I x \<and> resolve I x = usr m" if "map_of (uemplace u n ns) x = Some m" for x m
    using that u D(4)[of x m] unfolding ns' by (cases "x = u") auto
  show "\<exists>c. find_id I (qualifiedName m) = Some c" if "map_of (uemplace u n ns) x = Some m" for x m
    using that d D(5)[of x m] unfolding ns' by (cases "x = u") auto
  show "x \<in> set (ulist (upush_new d u bn) c) \<longleftrightarrow>
        (\<exists>m. map_of (uemplace u n ns) x = Some m \<and> find_id I (qualifiedName m) = Some c)" for x c
    using D(6)[of x c] fresh d unfolding ns' bn' by (cases "x = u"; cases "c = d") auto
qed

lemma names_ok_backfill:
  assumes ok: "names_ok I ns bn" and old: "map_of ns u = Some old"
  shows "names_ok I (AList.update u (backfill old n) ns) bn"
proof (rule names_okI)
  note D = names_okD[OF ok]
  have q: "qualifiedName (backfill old n) = qualifiedName old" "usr (backfill old n) = usr old"
    by (simp_all add: backfill_def)
  have ns': "map_of (AList.update u (backfill old n) ns) x =
        (if x = u then Some (backfill old n) else map_of ns x)" for x
    by (simp add: umap_simps)
  show "distinct (ukeys (AList.update u (backfill old n) ns))" "distinct (ukeys bn)"
    "distinct (ulist bn c)" for c using D(1-3) by auto
  show "valid_id I x \<and> resolve I x = usr m" if "map_of (AList.update u (backfill old n) ns) x = Some m" for x m
    using that old q D(4)[of x] unfolding ns' by (cases "x = u") auto
  show "\<exists>c. find_id I (qualifiedName m) = Some c"
    if "map_of (AList.update u (backfill old n) ns) x = Some m" for x m
    using that old q D(5)[of x] unfolding ns' by (cases "x = u") auto
  show "x \<in> set (ulist bn c) \<longleftrightarrow> (\<exists>m. map_of (AList.update u (backfill old n) ns) x = Some m \<and>
             find_id I (qualifiedName m) = Some c)" for x c
    using D(6)[of x c] old q unfolding ns' by (cases "x = u") auto
qed

lemma backfill_node_ok:
  assumes "nodes_ok_with tn g" and "map_of (nodes g) u = Some old"
  shows "nodes_ok_with tn (g\<lparr>nodes := AList.update u (backfill old n) (nodes g)\<rparr>)"
  using assms names_ok_backfill[OF _ assms(2)]
    provenance_ok_mono[of tn "nodeContributors g" "fst ` set (nodes g)" "insert u (fst ` set (nodes g))"]
  by (simp add: nodes_ok_with_def fst_update subset_insertI)

lemma register_node_ok:
  assumes ok: "nodes_ok_with tn g"
    and u: "valid_id (cgInterner g) u" "resolve (cgInterner g) u = usr n"
    and d: "find_id (cgInterner g) (qualifiedName n) = Some d"
  shows "nodes_ok_with tn (register_node u d n g)"
    and "u \<in> fst ` set (nodes (register_node u d n g))"
proof -
  have "nodes_ok_with tn (register_node u d n g) \<and> u \<in> fst ` set (nodes (register_node u d n g))"
  proof (cases "map_of (nodes g) u")
    case None
    then have "names_ok (cgInterner g) (uemplace u n (nodes g)) (upush_new d u (byName g))"
      using ok u d by (intro names_ok_fresh) (auto simp: nodes_ok_with_def)
    moreover have "provenance_ok tn (nodeContributors g) (fst ` set (uemplace u n (nodes g)))"
      using ok by (auto simp: nodes_ok_with_def fst_uemplace intro: provenance_ok_mono)
    ultimately show ?thesis using None by (simp add: register_node_def nodes_ok_with_def fst_uemplace)
  next
    case (Some old)
    then show ?thesis using backfill_node_ok[OF ok Some] by (simp add: register_node_def fst_update)
  qed
  then show "nodes_ok_with tn (register_node u d n g)"
    "u \<in> fst ` set (nodes (register_node u d n g))" by blast+
qed

lemma add_contributor_ok:
  assumes ok: "nodes_ok g" and reg: "u \<in> fst ` set (nodes g)"
  shows "nodes_ok (add_contributor u t g)"
proof (cases "t \<in> set (ulist (nodeContributors g) u)")
  case False
  let ?con = "nodeContributors g" and ?tn = "ulist (tuNodes g)"
  have pok: "provenance_ok ?tn ?con (fst ` set (nodes g))" using ok by (simp add: nodes_ok_def nodes_ok_with_def)
  note D = provenance_okD[OF pok]
  have con: "set (ulist (uinsert u t ?con) x) = (if x = u then insert t (set (ulist ?con u)) else set (ulist ?con x))" for x
    by (rule set_ulist_uinsert)
  have "provenance_ok (ulist (upush t u (tuNodes g))) (uinsert u t ?con) (fst ` set (nodes g))"
  proof (rule provenance_okI)
    show "distinct (ukeys (uinsert u t ?con))" using D(1) by auto
    show "x \<in> set (ulist (upush t u (tuNodes g)) s) \<longleftrightarrow> s \<in> set (ulist (uinsert u t ?con) x)" for x s
      using D(2)[of x s] D(2)[of x t] unfolding con by (auto simp: umap_simps)
    show "distinct (ulist (upush t u (tuNodes g)) s)" for s
      using D(3) D(2)[of u t] False by (auto simp: umap_simps)
    show "distinct (ulist (uinsert u t ?con) x)" for x
      using D(4) by (auto simp: uinsert_def umap_simps intro: distinct_insort_insert)
    fix x assume "x \<in> fst ` set (uinsert u t ?con)"
    then have x: "x = u \<or> x \<in> fst ` set ?con" by (simp add: uinsert_def fst_update)
    then show "ulist (uinsert u t ?con) x \<noteq> []"
      using D(5)[of x] con[of x] by (cases "x = u") auto
    from x D(6)[of x] reg show "x \<in> fst ` set (nodes g)" by blast
  qed
  moreover have "distinct (ukeys (upush t u (tuNodes g)))" using ok by (auto simp: nodes_ok_def)
  ultimately show ?thesis using False ok by (simp add: nodes_ok_def nodes_ok_with_def add_contributor_def)
qed (simp add: add_contributor_def ok)

subsection \<open>Releasing a translation unit's nodes\<close>

lemma names_ok_drop:
  assumes ok: "names_ok I ns bn" and node: "map_of ns u = Some n"
    and d: "find_id I (qualifiedName n) = Some d" and bn': "distinct (ukeys bn')"
    and eff: "\<And>c. ulist bn' c = (if c = d then removeAll u (ulist bn d) else ulist bn c)"
  shows "names_ok I (AList.delete u ns) bn'"
proof (rule names_okI)
  note D = names_okD[OF ok]
  show "distinct (ukeys (AList.delete u ns))" using D(1) by auto
  show "distinct (ukeys bn')" by (rule bn')
  show "distinct (ulist bn' c)" for c using D(3) by (simp add: eff distinct_removeAll)
  have del: "map_of (AList.delete u ns) x = (if x = u then None else map_of ns x)" for x
    by (simp add: umap_simps)
  show "valid_id I x \<and> resolve I x = usr m" if "map_of (AList.delete u ns) x = Some m" for x m
    using that D(4)[of x m] unfolding del by (auto split: if_splits)
  show "\<exists>c. find_id I (qualifiedName m) = Some c" if "map_of (AList.delete u ns) x = Some m" for x m
    using that D(5)[of x m] unfolding del by (auto split: if_splits)
  show "x \<in> set (ulist bn' c) \<longleftrightarrow>
        (\<exists>m. map_of (AList.delete u ns) x = Some m \<and> find_id I (qualifiedName m) = Some c)" for x c
    using D(6)[of x c] node d unfolding del eff by (cases "x = u"; cases "c = d") auto
qed

lemma drop_name_fields [simp]:
  "nodes (drop_name u n g) = nodes g" "nodeContributors (drop_name u n g) = nodeContributors g"
  "cgInterner (drop_name u n g) = cgInterner g" "tuNodes (drop_name u n g) = tuNodes g"
  by (simp_all add: drop_name_def Let_def split: option.split)

lemma drop_name_byName:
  assumes "names_ok I ns (byName g)" and "find_id (cgInterner g) (qualifiedName n) = Some d"
  shows "distinct (ukeys (byName (drop_name u n g)))"
    and "ulist (byName (drop_name u n g)) c =
           (if c = d then removeAll u (ulist (byName g) d) else ulist (byName g) c)"
  using assms names_okD(2)[OF assms(1)]
  by (auto simp: drop_name_def Let_def umap_simps ulist_Some ulist_None split: option.split)

lemma provenance_ok_release:
  assumes ok: "provenance_ok (tn(tu := n # rest)) con reg"
    and con': "\<And>x. ulist con' x = (if x = n then removeAll tu (ulist con n) else ulist con x)"
    and keys: "distinct (ukeys con')" "\<And>x. x \<in> fst ` set con' \<Longrightarrow> x \<in> fst ` set con \<and> ulist con' x \<noteq> []"
    and reg: "\<And>x. x \<in> fst ` set con' \<Longrightarrow> x \<in> reg \<Longrightarrow> x \<in> reg'"
  shows "provenance_ok (tn(tu := rest)) con' reg'"
proof (rule provenance_okI)
  note D = provenance_okD[OF ok]
  show "distinct (ukeys con')" by (rule keys)
  have dist: "distinct (n # rest)" using D(3)[of tu] by simp
  show "x \<in> set ((tn(tu := rest)) t) \<longleftrightarrow> t \<in> set (ulist con' x)" for x t
    using D(2)[of x t] D(2)[of x tu] dist unfolding con' by (cases "t = tu"; cases "x = n") auto
  show "distinct ((tn(tu := rest)) t)" for t using D(3)[of t] dist by (cases "t = tu") auto
  show "distinct (ulist con' x)" for x using D(4) by (simp add: con' distinct_removeAll)
  show "ulist con' x \<noteq> []" if "x \<in> fst ` set con'" for x using keys(2)[OF that] by simp
  show "x \<in> reg'" if "x \<in> fst ` set con'" for x using keys(2)[OF that] D(6) reg[OF that] by blast
qed

text \<open>One step of the pass: the head of the TU's list loses this contributor.\<close>

definition node_release :: "sid set \<Rightarrow> CallGraph \<Rightarrow> CallGraph \<Rightarrow> sid set \<Rightarrow> bool" where
  \<comment> \<open>from \<open>g\<close> to \<open>h\<close> exactly the nodes of \<open>ns\<close> lost the contributors of \<open>tus\<close>\<close>
  "node_release tus g h ns \<longleftrightarrow>
     cgInterner h = cgInterner g \<and>
     (\<forall>x. ulist (nodeContributors h) x =
            (if x \<in> ns then filter (\<lambda>t. t \<notin> tus) (ulist (nodeContributors g) x)
             else ulist (nodeContributors g) x)) \<and>
     (\<forall>x. map_of (nodes h) x =
            (if x \<in> ns \<and> ulist (nodeContributors g) x \<noteq> [] \<and> set (ulist (nodeContributors g) x) \<subseteq> tus
             then None else map_of (nodes g) x))"

lemma removeAll_filter: "removeAll t xs = filter (\<lambda>x. x \<notin> {t}) xs"
  by (induction xs) auto

lemma release_node_ok:
  assumes ok: "nodes_ok_with (tn(tu := n # rest)) g"
  shows "nodes_ok_with (tn(tu := rest)) (release_node tu n g)"
    and "node_release {tu} g (release_node tu n g) {n}"
proof -
  let ?h = "release_node tu n g"
  have nok: "names_ok (cgInterner g) (nodes g) (byName g)"
    and pok: "provenance_ok (tn(tu := n # rest)) (nodeContributors g) (fst ` set (nodes g))"
    using ok by (simp_all add: nodes_ok_with_def)
  note N = names_okD[OF nok] and D = provenance_okD[OF pok]
  have tu: "tu \<in> set (ulist (nodeContributors g) n)" using D(2)[of n tu] by simp
  then have key: "n \<in> fst ` set (nodeContributors g)" by (rule in_contributors_key)
  then obtain cs where cs: "map_of (nodeContributors g) n = Some cs" by (auto simp: in_keys_Some)
  then have ul: "ulist (nodeContributors g) n = cs" by (rule ulist_Some)
  from D(6)[OF key] obtain node where node: "map_of (nodes g) n = Some node" by (auto simp: in_keys_Some)
  from N(5)[OF node] obtain d where d: "find_id (cgInterner g) (qualifiedName node) = Some d" by blast
  have sub: "removeAll tu cs = [] \<longleftrightarrow> set cs \<subseteq> {tu}"
    by (auto simp: removeAll_filter filter_empty_conv)
  have "nodes_ok_with (tn(tu := rest)) ?h \<and> node_release {tu} g ?h {n}"
  proof (cases "removeAll tu cs = []")
    case False
    then have h: "?h = g\<lparr>nodeContributors := AList.update n (removeAll tu cs) (nodeContributors g)\<rparr>"
      using cs by (simp add: release_node_def)
    have "provenance_ok (tn(tu := rest)) (nodeContributors ?h) (fst ` set (nodes ?h))"
    proof (rule provenance_ok_release[OF pok])
      show "ulist (nodeContributors ?h) x =
          (if x = n then removeAll tu (ulist (nodeContributors g) n) else ulist (nodeContributors g) x)" for x
        using ul by (simp add: h umap_simps)
      show "distinct (ukeys (nodeContributors ?h))" using D(1) by (simp add: h)
      fix x assume "x \<in> fst ` set (nodeContributors ?h)"
      then have x: "x \<in> fst ` set (nodeContributors g)" using key by (auto simp: h fst_update)
      then show "x \<in> fst ` set (nodeContributors g) \<and> ulist (nodeContributors ?h) x \<noteq> []"
        using D(5)[of x] False by (simp add: h umap_simps)
      show "x \<in> fst ` set (nodes ?h)" if "x \<in> fst ` set (nodes g)"
        using that by (simp add: h)
    qed
    moreover have "node_release {tu} g ?h {n}"
      using False sub ul by (simp add: node_release_def h umap_simps removeAll_filter)
    ultimately show ?thesis using nok by (simp add: nodes_ok_with_def h)
  next
    case True
    let ?d = "drop_name n node g"
    have h: "?h = ?d\<lparr>nodes := AList.delete n (nodes g),
                     nodeContributors := AList.delete n (nodeContributors g)\<rparr>"
      using True cs node by (simp add: release_node_def)
    have "names_ok (cgInterner g) (AList.delete n (nodes g)) (byName ?d)"
      by (rule names_ok_drop[OF nok node d]) (rule drop_name_byName[OF nok d])+
    moreover have "provenance_ok (tn(tu := rest)) (nodeContributors ?h) (fst ` set (nodes ?h))"
    proof (rule provenance_ok_release[OF pok])
      show "ulist (nodeContributors ?h) x =
          (if x = n then removeAll tu (ulist (nodeContributors g) n) else ulist (nodeContributors g) x)" for x
        using True ul by (simp add: h umap_simps)
      show "distinct (ukeys (nodeContributors ?h))" using D(1) by (simp add: h)
      fix x assume "x \<in> fst ` set (nodeContributors ?h)"
      then have x: "x \<noteq> n \<and> x \<in> fst ` set (nodeContributors g)" by (auto simp: h fst_delete)
      then show "x \<in> fst ` set (nodeContributors g) \<and> ulist (nodeContributors ?h) x \<noteq> []"
        using D(5)[of x] by (simp add: h umap_simps)
      show "x \<in> fst ` set (nodes ?h)" if "x \<in> fst ` set (nodes g)"
        using that x by (simp add: h fst_delete)
    qed
    moreover have "node_release {tu} g ?h {n}"
      using True sub ul tu by (simp add: node_release_def h umap_simps removeAll_filter) (metis empty_iff list.set(1))
    ultimately show ?thesis by (simp add: nodes_ok_with_def h)
  qed
  then show "nodes_ok_with (tn(tu := rest)) ?h" "node_release {tu} g ?h {n}" by blast+
qed

lemma node_releaseD:
  assumes "node_release tus g h ns"
  shows "cgInterner h = cgInterner g"
    and "ulist (nodeContributors h) x =
           (if x \<in> ns then filter (\<lambda>t. t \<notin> tus) (ulist (nodeContributors g) x)
            else ulist (nodeContributors g) x)"
    and "map_of (nodes h) x =
           (if x \<in> ns \<and> ulist (nodeContributors g) x \<noteq> [] \<and> set (ulist (nodeContributors g) x) \<subseteq> tus
            then None else map_of (nodes g) x)"
  using assms unfolding node_release_def by (elim conjE, iprover)+

lemma node_release_refl: "node_release tus g g {}"
  by (simp add: node_release_def)

lemma node_release_more:
  assumes "node_release tus g h ns" and "node_release tus h k ms" and "ns \<inter> ms = {}"
  shows "node_release tus g k (ns \<union> ms)"
  unfolding node_release_def node_releaseD[OF assms(2)] node_releaseD[OF assms(1)]
  using assms(3) by auto

lemma node_release_trans:
  assumes "node_release A g h UNIV" and "node_release B h k UNIV"
  shows "node_release (A \<union> B) g k UNIV"
  unfolding node_release_def node_releaseD[OF assms(2)] node_releaseD[OF assms(1)]
  by (auto simp: filter_empty_conv intro: filter_cong)

lemma tuNodes_frame [simp]:
  "nodes_ok_with tn (g\<lparr>tuNodes := m\<rparr>) = nodes_ok_with tn g"
  "node_release tus g (h\<lparr>tuNodes := m\<rparr>) ns = node_release tus g h ns"
  by (simp_all add: nodes_ok_with_def node_release_def)

lemma release_nodes_ok:
  assumes "nodes_ok_with (tn(tu := ns)) g"
  shows "nodes_ok_with (tn(tu := [])) (fold (release_node tu) ns g)
       \<and> node_release {tu} g (fold (release_node tu) ns g) (set ns)"
  using assms
proof (induction ns arbitrary: g)
  case (Cons n rest)
  note one = release_node_ok[OF Cons.prems]
  have "distinct (n # rest)"
    using provenance_okD(3)[of "tn(tu := n # rest)" "nodeContributors g" _ tu] Cons.prems
    unfolding nodes_ok_with_def by fastforce
  then have "{n} \<inter> set rest = {}" by auto
  from node_release_more[OF one(2) _ this] Cons.IH[OF one(1)] show ?case by simp
qed (simp add: node_release_refl)

lemma release_nodes_tuNodes: "tuNodes (fold (release_node tu) ns g) = tuNodes g"
  by (induction ns arbitrary: g) (simp_all add: release_node_def Let_def split: option.split)

lemma release_tu_nodes_ok:
  assumes ok: "nodes_ok g"
  shows "nodes_ok (release_tu_nodes tu g)" and "node_release {tu} g (release_tu_nodes tu g) UNIV"
proof -
  let ?tn = "ulist (tuNodes g)" and ?con = "ulist (nodeContributors g)"
  have dist: "distinct (ukeys (tuNodes g))" and okw: "nodes_ok_with (?tn(tu := ?tn tu)) g"
    using ok by (simp_all add: nodes_ok_def)
  from okw have D: "n \<in> set (?tn t) \<longleftrightarrow> t \<in> set (?con n)" for n t
    using provenance_okD(2)[of ?tn "nodeContributors g" _ n t] ok
    unfolding nodes_ok_def nodes_ok_with_def by blast
  have "nodes_ok (release_tu_nodes tu g) \<and> node_release {tu} g (release_tu_nodes tu g) (set (?tn tu))"
  proof (cases "map_of (tuNodes g) tu")
    case None
    then show ?thesis using ok by (simp add: release_tu_nodes_def ulist_None node_release_refl)
  next
    case (Some ns)
    then have ns: "?tn tu = ns" by (rule ulist_Some)
    have "(ulist (AList.delete tu (tuNodes g))) = ?tn(tu := [])" by (auto simp: umap_simps)
    then show ?thesis using release_nodes_ok[OF okw] Some dist ns
      by (simp add: release_tu_nodes_def Let_def nodes_ok_def release_nodes_tuNodes)
  qed
  moreover have "filter (\<lambda>t. t \<notin> {tu}) (?con x) = ?con x" if "x \<notin> set (?tn tu)" for x
    using that D[of x tu] by (auto intro: filter_True)
  moreover have "x \<in> set (?tn tu)" if "?con x \<noteq> []" "set (?con x) \<subseteq> {tu}" for x
    using that D[of x tu] by (cases "?con x") auto
  ultimately show "nodes_ok (release_tu_nodes tu g)"
    "node_release {tu} g (release_tu_nodes tu g) UNIV"
    unfolding node_release_def by auto
qed

lemma release_all_nodes_ok:
  assumes "nodes_ok g"
  shows "nodes_ok (fold release_tu_nodes tus g) \<and> node_release (set tus) g (fold release_tu_nodes tus g) UNIV"
  using assms
proof (induction tus arbitrary: g)
  case Nil
  then show ?case by (auto simp: node_release_def)
next
  case (Cons tu tus)
  note one = release_tu_nodes_ok[OF Cons.prems, of tu]
  from node_release_trans[OF one(2)] Cons.IH[OF one(1)] show ?case by simp
qed

end
