(* ===== verification/CallGraphWf.thy ===== *)
theory CallGraphWf
  imports CallGraphNodes
begin

text \<open>
  Every mutator of \<open>CallGraph\<close> preserves \<open>wf_graph\<close>: registration of nodes, edges and
  relations, \<open>removeTUs\<close>, \<open>compact\<close> and \<open>absorb\<close>.  The only hypothesis is room in the
  32-bit id space for the strings the operation may intern.  The same lemmas give each
  operation's effect on the registration counts \<open>key_refs\<close> and \<open>tu_refs\<close>.
\<close>

subsection \<open>Relations\<close>

lemma rel_of_upush_new [simp]: "rel_of (upush_new k x m) = insert (k, x) (rel_of m)"
  by (auto simp: rel_of_def umap_simps split: if_splits)

lemma rel_of_uinsert [simp]: "rel_of (uinsert k x m) = insert (k, x) (rel_of m)"
  by (auto simp: rel_of_def umap_simps split: if_splits)

lemma rel_of_upush [simp]: "rel_of (upush k x m) = insert (k, x) (rel_of m)"
  by (auto simp: rel_of_def umap_simps split: if_splits)

lemma rel_of_touch [simp]: "rel_of (AList.update k (ulist m k) m) = rel_of m"
  by (auto simp: rel_of_def umap_simps split: if_splits)

lemma pairs_valid_insert [simp]:
  "pairs_valid I (insert p r) \<longleftrightarrow> valid_id I (fst p) \<and> valid_id I (snd p) \<and> pairs_valid I r"
  by (cases p) (auto simp: pairs_valid_def)

lemma relate_override_rel [simp]:
  "rel_of (methodOverrides (relate_override b ov g)) = insert (b, ov) (rel_of (methodOverrides g))"
  "rel_of (overrideBases (relate_override b ov g)) = insert (ov, b) (rel_of (overrideBases g))"
  by (simp_all add: relate_override_def)

lemma relate_return_rel [simp]:
  "rel_of (functionReturns (relate_return f r g)) = insert (f, r) (rel_of (functionReturns g))"
  by (simp_all add: relate_return_def)

lemma relations_ok_relate:
  "relations_ok g \<Longrightarrow> relations_ok (relate_override b ov g)"
  "relations_ok g \<Longrightarrow> relations_ok (relate_return f r g)"
proof -
  assume ok: "relations_ok g"
  have fields: "functionReturns (relate_override b ov g) = functionReturns g"
    "returnedBy (relate_override b ov g) = returnedBy g"
    "methodOverrides (relate_return f r g) = methodOverrides g"
    "overrideBases (relate_return f r g) = overrideBases g"
    by (simp_all add: relate_override_def relate_return_def)
  show "relations_ok (relate_override b ov g)"
    using ok by (auto simp: relations_ok_def fields simp del: rel_of_iff)
  have "rel_of (returnedBy (relate_return f r g)) = insert (r, f) (rel_of (returnedBy g))"
  proof (cases "r \<in> set (ulist (functionReturns g) f)")
    case True
    then have "(r, f) \<in> rel_of (returnedBy g)" using ok by (simp add: relations_ok_def del: rel_of_iff) simp
    then show ?thesis using True by (auto simp: relate_return_def)
  qed (simp add: relate_return_def)
  then show "relations_ok (relate_return f r g)"
    using ok by (auto simp: relations_ok_def fields simp del: rel_of_iff)
qed

lemma edge_part_relate [simp]:
  "edge_part (relate_override b ov g) = edge_part g" "edge_part (relate_return f r g) = edge_part g"
  by (simp_all add: relate_override_def relate_return_def edge_part_def)

lemma wf_relate:
  assumes wf: "wf_graph g" and v: "valid_id (cgInterner g) a" "valid_id (cgInterner g) b"
  shows "wf_graph (relate_override a b g)" and "wf_graph (relate_return a b g)"
    and "wf_graph (g\<lparr>derivedClasses := upush_new a b (derivedClasses g)\<rparr>)"
    and "wf_graph (g\<lparr>effectiveImplClasses := uinsert a b (effectiveImplClasses g)\<rparr>)"
proof -
  note W = wf_graphD[OF wf]
  have ids: "ids_ok (relate_override a b g)" "ids_ok (relate_return a b g)"
    "ids_ok (g\<lparr>derivedClasses := upush_new a b (derivedClasses g)\<rparr>)"
    "ids_ok (g\<lparr>effectiveImplClasses := uinsert a b (effectiveImplClasses g)\<rparr>)"
    using W(5) v by (simp_all add: ids_ok_def rel_keys_ok_def relate_override_def relate_return_def del: rel_of_iff)
  have nd: "nodes_ok (relate_override a b g) = nodes_ok g" "nodes_ok (relate_return a b g) = nodes_ok g"
    by (simp_all add: nodes_ok_def nodes_ok_with_def relate_override_def relate_return_def)
  have I: "cgInterner (relate_override a b g) = cgInterner g" "cgInterner (relate_return a b g) = cgInterner g"
    by (simp_all add: relate_override_def relate_return_def)
  note eo = edge_part_cong(1)[OF edge_part_relate(1)] and er = edge_part_cong(1)[OF edge_part_relate(2)]
  show "wf_graph (relate_override a b g)" "wf_graph (relate_return a b g)"
    using W ids relations_ok_relate nd I eo er by (simp_all add: wf_graph_def)
  have "edge_part (g\<lparr>derivedClasses := x\<rparr>) = edge_part g"
    "edge_part (g\<lparr>effectiveImplClasses := x\<rparr>) = edge_part g" for x by (simp_all add: edge_part_def)
  note ec = this[THEN edge_part_cong(1)]
  show "wf_graph (g\<lparr>derivedClasses := upush_new a b (derivedClasses g)\<rparr>)"
    "wf_graph (g\<lparr>effectiveImplClasses := uinsert a b (effectiveImplClasses g)\<rparr>)"
    using W ids ec by (simp_all add: wf_graph_def nodes_ok_def nodes_ok_with_def relations_ok_def)
qed

text \<open>Two strings interned one after the other: the table grows, both ids are valid in it.\<close>

lemma intern2:
  assumes "wf_interner I" and "has_room 2 I" and "intern s I = (i, J)" and "intern t J = (j, K)"
  shows "extends_interner I K" and "valid_id K i" and "valid_id K j"
    and "resolve K i = s" and "resolve K j = t" and "find_id K s = Some i" and "find_id K t = Some j"
    and "has_room n I \<Longrightarrow> has_room (n - 2) K"
proof -
  have r1: "has_room 1 I" using assms(2) by (rule has_room_mono) simp
  note one = extends_intern[OF assms(1) r1 assms(3)]
  have wfJ: "wf_interner J" using one(1) by (simp add: extends_interner_def)
  have r2: "has_room 1 J" using intern_room[OF assms(1) _ assms(3), of 1] assms(2) by (simp add: numeral_2_eq_2)
  note two = extends_intern[OF wfJ r2 assms(4)]
  show "extends_interner I K" by (rule extends_interner_trans[OF one(1) two(1)])
  show "valid_id K i" "resolve K i = s" "find_id K s = Some i"
    using extends_interner_facts[OF two(1)] one by auto
  show "valid_id K j" "resolve K j = t" "find_id K t = Some j" using two by auto
  have "length (strings K) \<le> Suc (length (strings J))" "length (strings J) \<le> Suc (length (strings I))"
    using intern_wf_resolve(5)[OF assms(1) r1 assms(3)] intern_wf_resolve(5)[OF wfJ r2 assms(4)] by auto
  then show "has_room (n - 2) K" if "has_room n I"
    using that assms(2) by (auto simp: has_room_def)
qed

lemma wf_add_relation:
  assumes wf: "wf_graph g" and room: "has_room 2 (cgInterner g)"
  shows "wf_graph (addDerivedClass x y g)" and "wf_graph (addMethodOverride x y g)"
    and "wf_graph (addEffectiveImpl x y g)" and "wf_graph (addFunctionReturn x y g)"
proof -
  have step: "wf_graph (g\<lparr>cgInterner := K\<rparr>) \<and> valid_id K i \<and> valid_id K j"
    if "intern s (cgInterner g) = (i, J)" "intern t J = (j, K)" for s t i j J K
    using intern2(1-3)[OF wf_graphD(1)[OF wf] room that] wf_graph_interner[OF wf] by blast
  obtain i J j K where xy: "intern x (cgInterner g) = (i, J)" "intern y J = (j, K)" by (metis surj_pair)
  obtain i' J' j' K' where yx: "intern y (cgInterner g) = (i', J')" "intern x J' = (j', K')"
    by (metis surj_pair)
  note s = step[OF xy] and s' = step[OF yx]
  have "wf_graph (g\<lparr>cgInterner := K\<rparr>)" "wf_graph (g\<lparr>cgInterner := K'\<rparr>)" using s s' by auto
  note r = wf_relate[OF this(1), of i j] and r' = wf_relate(4)[OF this(2), of i' j']
  show "wf_graph (addDerivedClass x y g)" "wf_graph (addMethodOverride x y g)"
    "wf_graph (addFunctionReturn x y g)"
    using r s by (simp_all add: addDerivedClass_def addMethodOverride_def addFunctionReturn_def xy)
  show "wf_graph (addEffectiveImpl x y g)" using r' s' by (simp add: addEffectiveImpl_def yx)
qed

subsection \<open>Nodes\<close>

lemma wf_nodesI:
  assumes wf: "wf_graph g" and ok: "nodes_ok h" and c: "pairs_valid (cgInterner g) (rel_of (nodeContributors h))"
    and h: "h = g\<lparr>nodes := nodes h, byName := byName h, nodeContributors := nodeContributors h,
                  tuNodes := tuNodes h\<rparr>"
  shows "wf_graph h"
proof -
  note W = wf_graphD[OF wf]
  have "edge_part h = edge_part g" by (subst h) (simp add: edge_part_def)
  then have "edge_inv h" using W(2) edge_part_cong(1) by blast
  moreover have "relations_ok h" by (subst h) (use W(4) in \<open>simp add: relations_ok_def\<close>)
  moreover have "ids_ok h" by (subst h) (use W(5) c in \<open>simp add: ids_ok_def rel_keys_ok_def\<close>)
  moreover have "wf_interner (cgInterner h)" by (subst h) (simp add: W(1))
  ultimately show ?thesis using ok by (simp add: wf_graph_def)
qed

lemma register_node_fields:
  "nodeContributors (register_node u d n g) = nodeContributors g"
  "tuNodes (register_node u d n g) = tuNodes g" "cgInterner (register_node u d n g) = cgInterner g"
  by (simp_all add: register_node_def split: option.split)

lemma wf_register_node:
  assumes wf: "wf_graph g" and u: "valid_id (cgInterner g) u" "resolve (cgInterner g) u = usr n"
    and d: "find_id (cgInterner g) (qualifiedName n) = Some d"
  shows "wf_graph (register_node u d n g)" and "u \<in> fst ` set (nodes (register_node u d n g))"
proof -
  note W = wf_graphD[OF wf]
  have ok: "nodes_ok_with (ulist (tuNodes g)) g" using W(3) by (simp add: nodes_ok_def)
  note r = register_node_ok[OF ok u d]
  show "u \<in> fst ` set (nodes (register_node u d n g))" by (rule r)
  show "wf_graph (register_node u d n g)"
    by (rule wf_nodesI[OF wf])
      (use r W(3,5) in \<open>simp_all add: nodes_ok_def register_node_fields ids_ok_def\<close>,
       simp add: register_node_def split: option.split)
qed

lemma add_contributor_fields:
  "cgInterner (add_contributor u t g) = cgInterner g" "nodes (add_contributor u t g) = nodes g"
  by (simp_all add: add_contributor_def)

lemma wf_add_contributor:
  assumes wf: "wf_graph g" and u: "u \<in> fst ` set (nodes g)" and t: "valid_id (cgInterner g) t"
  shows "wf_graph (add_contributor u t g)"
proof (rule wf_nodesI[OF wf])
  note W = wf_graphD[OF wf]
  show "nodes_ok (add_contributor u t g)" by (rule add_contributor_ok[OF W(3) u])
  have "valid_id (cgInterner g) u"
    using u W(3) names_okD(4)[of "cgInterner g" "nodes g" "byName g" u]
    unfolding in_keys_Some nodes_ok_def nodes_ok_with_def by blast
  then show "pairs_valid (cgInterner g) (rel_of (nodeContributors (add_contributor u t g)))"
    using W(5) t by (simp add: add_contributor_def ids_ok_def)
qed (simp add: add_contributor_def)

lemma wf_addNode:
  assumes wf: "wf_graph g" and room: "has_room 3 (cgInterner g)"
  shows "wf_graph (addNode n t g)"
proof -
  define m where "m = (if usr n = [] then n\<lparr>usr := qualifiedName n\<rparr> else n)"
  obtain i I1 j I2 where ij: "intern (usr m) (cgInterner g) = (i, I1)" "intern (qualifiedName m) I1 = (j, I2)"
    by (metis surj_pair)
  obtain k I3 where k: "intern t I2 = (k, I3)" by fastforce
  have r2: "has_room 2 (cgInterner g)" using room by (rule has_room_mono) simp
  note two = intern2[OF wf_graphD(1)[OF wf] r2 ij]
  have r1: "has_room 1 I2" using two(8)[OF room] by simp
  have wf2: "wf_interner I2" using two(1) by (simp add: extends_interner_def)
  note three = extends_intern[OF wf2 r1 k]
  let ?g1 = "register_node i j m (g\<lparr>cgInterner := I2\<rparr>)"
  have g1: "wf_graph ?g1" "i \<in> fst ` set (nodes ?g1)"
    by (rule wf_register_node; use wf_graph_interner[OF wf two(1)] two in simp)+
  have "wf_graph (?g1\<lparr>cgInterner := I3\<rparr>)"
    by (rule wf_graph_interner[OF g1(1)]) (simp add: register_node_fields three)
  then have "wf_graph (add_contributor i k (?g1\<lparr>cgInterner := I3\<rparr>))"
    by (rule wf_add_contributor) (use g1(2) three in simp_all)
  then show ?thesis using g1 unfolding addNode_def m_def[symmetric] Let_def by (simp add: ij k)
qed

subsection \<open>Edges\<close>

lemma wf_edgesI:
  assumes wf: "wf_graph g" and inv: "edge_inv h"
    and e: "\<And>e. e \<in> set (edges h) \<Longrightarrow> edge_valid (cgInterner g) e"
    and t: "\<And>t. ulist (tuEdges h) t \<noteq> [] \<Longrightarrow> valid_id (cgInterner g) t"
    and h: "h = g\<lparr>edges := edges h, edgeIndex := edgeIndex h, outEdges := outEdges h,
                  inEdges := inEdges h, tuEdges := tuEdges h, liveEdgeCount := liveEdgeCount h\<rparr>"
  shows "wf_graph h"
proof -
  note W = wf_graphD[OF wf]
  have I: "cgInterner h = cgInterner g" by (subst h) simp
  have "nodes_ok h" by (subst h) (use W(3) in \<open>simp add: nodes_ok_def nodes_ok_with_def\<close>)
  moreover have "relations_ok h" by (subst h) (use W(4) in \<open>simp add: relations_ok_def\<close>)
  moreover have "ids_ok h"
  proof -
    have "nodeContributors h = nodeContributors g" "methodOverrides h = methodOverrides g"
      "functionReturns h = functionReturns g" "derivedClasses h = derivedClasses g"
      "effectiveImplClasses h = effectiveImplClasses g" by (subst h, simp)+
    then show ?thesis using W(5) e t I by (simp add: ids_ok_def rel_keys_ok_def)
  qed
  ultimately show ?thesis using inv W(1) I by (simp add: wf_graph_def)
qed

lemma probe_edge_frame:
  assumes "probe_edge se g = (idx, h)"
  shows "h = g\<lparr>edges := edges h, edgeIndex := edgeIndex h, outEdges := outEdges h,
               inEdges := inEdges h, tuEdges := tuEdges g, liveEdgeCount := liveEdgeCount h\<rparr>"
  using assms by (auto simp: probe_edge_def Let_def split: option.splits)

lemma probe_edge_edges:
  assumes inv: "edge_inv g" and probe: "probe_edge se g = (idx, h)"
  shows "idx < length (edges h)" and "length (edges g) \<le> length (edges h)"
    and "i < length (edges h) \<Longrightarrow>
           refs (edges h ! i) = refs_at (edges g) i + (if i = idx then refs se else 0)"
    and "i < length (edges h) \<Longrightarrow> keyOf (edges h ! i) = (if i = idx then keyOf se else keyOf (edges g ! i))"
proof -
  have ix: "index_ok (edgeIndex g) (edges g)" using inv by (simp add: edge_inv_def)
  have "idx < length (edges h) \<and> length (edges g) \<le> length (edges h) \<and>
    (i < length (edges h) \<longrightarrow>
       refs (edges h ! i) = refs_at (edges g) i + (if i = idx then refs se else 0) \<and>
       keyOf (edges h ! i) = (if i = idx then keyOf se else keyOf (edges g ! i)))"
  proof (cases "map_of (edgeIndex g) (keyOf se)")
    case None
    then have h: "edges h = edges g @ [se]" "idx = length (edges g)"
      using probe by (auto simp: probe_edge_def Let_def)
    show ?thesis by (auto simp: h refs_at_def nth_append less_Suc_eq)
  next
    case (Some j)
    then have h: "edges h = (edges g)[j := (edges g ! j)\<lparr>refs := refs (edges g ! j) + refs se\<rparr>]" "idx = j"
      using probe by (auto simp: probe_edge_def)
    have "j < length (edges g)" "keyOf (edges g ! j) = keyOf se"
      using index_ok_iff[OF ix, of "keyOf se" j] Some by (auto simp: live_at_def)
    then show ?thesis by (auto simp: h refs_at_def nth_list_update)
  qed
  then show "idx < length (edges h)" "length (edges g) \<le> length (edges h)"
    "i < length (edges h) \<Longrightarrow> refs (edges h ! i) = refs_at (edges g) i + (if i = idx then refs se else 0)"
    "i < length (edges h) \<Longrightarrow> keyOf (edges h ! i) = (if i = idx then keyOf se else keyOf (edges g ! i))"
    by blast+
qed

lemma edge_valid_keyOf: "keyOf e = keyOf e' \<Longrightarrow> edge_valid I e = edge_valid I e'"
  by (simp add: keyOf_def edge_valid_def)

lemma wf_probe_edge:
  assumes wf: "wf_graph g" and v: "edge_valid (cgInterner g) se" and pos: "refs se > 0"
    and probe: "probe_edge se g = (idx, h)"
  shows "wf_graph h"
proof (rule wf_edgesI[OF wf])
  note W = wf_graphD[OF wf]
  show "edge_inv h" by (rule probe_edge_inv(1)[OF W(2) pos probe])
  have te: "tuEdges h = tuEdges g" by (subst probe_edge_frame[OF probe]) simp
  show "valid_id (cgInterner g) t" if "ulist (tuEdges h) t \<noteq> []" for t
    using W(5) that by (simp add: ids_ok_def te)
  show "h = g\<lparr>edges := edges h, edgeIndex := edgeIndex h, outEdges := outEdges h,
               inEdges := inEdges h, tuEdges := tuEdges h, liveEdgeCount := liveEdgeCount h\<rparr>"
    using probe_edge_frame[OF probe] te by simp
  fix e assume "e \<in> set (edges h)"
  then obtain i where i: "i < length (edges h)" "e = edges h ! i" by (auto simp: in_set_conv_nth)
  note E = probe_edge_edges[OF W(2) probe]
  show "edge_valid (cgInterner g) e"
  proof (cases "i = idx")
    case True
    with E(4)[OF i(1)] i v show ?thesis using edge_valid_keyOf[of e se] by simp
  next
    case False
    have "i < length (edges g)"
    proof (rule ccontr)
      assume "\<not> i < length (edges g)"
      then have "i = idx" using probe i(1)
        by (auto simp: probe_edge_def Let_def split: option.splits)
      with False show False by simp
    qed
    moreover have "keyOf e = keyOf (edges g ! i)" using E(4)[OF i(1)] i False by simp
    ultimately show ?thesis using W(5) edge_valid_keyOf[of e "edges g ! i"] by (simp add: ids_ok_def)
  qed
qed

text \<open>Appending to a TU's list keeps the backing when the counts were raised before.\<close>

lemma backing_ok_push:
  assumes "distinct (ukeys te)" and "\<And>i. ucount te i + (if i = j then 1 else 0) \<le> refs_at es i"
  shows "backing_ok (upush t j te) es"
  using assms by (simp add: backing_ok_def ucount_upush eq_commute[of j])

lemma tag_edge_inv:
  assumes inv: "edge_inv g" and j: "\<And>i. ucount (tuEdges g) i + (if i = j then 1 else 0) \<le> refs_at (edges g) i"
  shows "edge_inv (g\<lparr>tuEdges := upush t j (tuEdges g)\<rparr>)"
    and "key_refs (g\<lparr>tuEdges := upush t j (tuEdges g)\<rparr>) k = key_refs g k"
    and "tu_refs (g\<lparr>tuEdges := upush t j (tuEdges g)\<rparr>) t' k =
           tu_refs g t' k + (if t' = t \<and> k = keyOf (edges g ! j) then 1 else 0)"
proof -
  have "distinct (ukeys (tuEdges g))" using inv by (simp add: edge_inv_def backing_ok_def)
  from backing_ok_push[OF this j] inv show "edge_inv (g\<lparr>tuEdges := upush t j (tuEdges g)\<rparr>)"
    by (simp add: edge_inv_def)
  show "key_refs (g\<lparr>tuEdges := upush t j (tuEdges g)\<rparr>) k = key_refs g k"
    by (simp add: key_refs_def cong: option.case_cong)
  show "tu_refs (g\<lparr>tuEdges := upush t j (tuEdges g)\<rparr>) t' k =
           tu_refs g t' k + (if t' = t \<and> k = keyOf (edges g ! j) then 1 else 0)"
    by (auto simp: tu_refs_def umap_simps)
qed

lemma register_edge:
  assumes wf: "wf_graph g" and v: "edge_valid (cgInterner g) se" and one: "refs se = 1"
    and t: "valid_id (cgInterner g) t" and probe: "probe_edge se g = (idx, h)"
  shows "wf_graph (h\<lparr>tuEdges := upush t idx (tuEdges h)\<rparr>)"
    and "key_refs (h\<lparr>tuEdges := upush t idx (tuEdges h)\<rparr>) k = key_refs g k + (if k = keyOf se then 1 else 0)"
    and "tu_refs (h\<lparr>tuEdges := upush t idx (tuEdges h)\<rparr>) t' k =
           tu_refs g t' k + (if t' = t \<and> k = keyOf se then 1 else 0)"
proof -
  note W = wf_graphD[OF wf]
  have pos: "refs se > 0" using one by simp
  note P = probe_edge_inv[OF W(2) pos probe] and E = probe_edge_edges[OF W(2) probe]
  have wfh: "wf_graph h" by (rule wf_probe_edge[OF wf v pos probe])
  have te: "tuEdges h = tuEdges g" "cgInterner h = cgInterner g" by (subst probe_edge_frame[OF probe], simp)+
  have "ucount (tuEdges h) i + (if i = idx then 1 else 0) \<le> refs_at (edges h) i" for i
  proof (cases "i < length (edges h)")
    case True
    have "ucount (tuEdges g) i \<le> refs_at (edges g) i" using W(2) by (simp add: edge_inv_def backing_ok_def)
    with True E(3)[OF True] one te show ?thesis by (cases "i = idx") (simp_all add: refs_at_def)
  next
    case False
    moreover from False have "ucount (tuEdges g) i \<le> 0"
      using W(2) E(2) by (auto simp: edge_inv_def backing_ok_def refs_at_def dest: spec[of _ i])
    ultimately show ?thesis using E(1) te by auto
  qed
  note T = tag_edge_inv[OF P(1) this, of t]
  show "key_refs (h\<lparr>tuEdges := upush t idx (tuEdges h)\<rparr>) k = key_refs g k + (if k = keyOf se then 1 else 0)"
    using T(2) P(3) one by simp
  show "tu_refs (h\<lparr>tuEdges := upush t idx (tuEdges h)\<rparr>) t' k =
           tu_refs g t' k + (if t' = t \<and> k = keyOf se then 1 else 0)"
    using T(3)[of t' k] P(4)[of t' k] E(4)[OF E(1)] by simp
  show "wf_graph (h\<lparr>tuEdges := upush t idx (tuEdges h)\<rparr>)"
    by (rule wf_edgesI[OF wfh])
      (use T(1) wf_graphD(5)[OF wfh] t te in \<open>auto simp: ids_ok_def umap_simps split: if_splits\<close>)
qed

subsection \<open>Registration counts by name\<close>

type_synonym SKey =
  "string \<times> string \<times> string \<times> EdgeKind \<times> Confidence \<times> ExecutionContext \<times> nat"

definition skey_of :: "CallGraphEdge \<Rightarrow> SKey" where
  "skey_of e = (callerName e, calleeName e, callSite e, kind e, confidence e, execContext e,
                indirectionDepth e)"

definition id_key :: "interner \<Rightarrow> SKey \<Rightarrow> EdgeKey option" where
  "id_key I sk =
     (case sk of (a, b, s, k, c, x, d) \<Rightarrow>
        (case (find_id I a, find_id I b, find_id I s) of
           (Some a', Some b', Some s') \<Rightarrow> Some (a', b', s', k, c, x, d)
         | _ \<Rightarrow> None))"

definition valid_key :: "interner \<Rightarrow> EdgeKey \<Rightarrow> bool" where
  "valid_key I k = (case k of (a, b, s, _) \<Rightarrow> valid_id I a \<and> valid_id I b \<and> valid_id I s)"

definition str_key :: "interner \<Rightarrow> EdgeKey \<Rightarrow> SKey" where
  "str_key I k = (case k of (a, b, s, r) \<Rightarrow> (resolve I a, resolve I b, resolve I s, r))"

definition edge_refs :: "CallGraph \<Rightarrow> SKey \<Rightarrow> nat" where
  "edge_refs g sk = (case id_key (cgInterner g) sk of None \<Rightarrow> 0 | Some k \<Rightarrow> key_refs g k)"

definition tu_edge_refs :: "CallGraph \<Rightarrow> string \<Rightarrow> SKey \<Rightarrow> nat" where
  "tu_edge_refs g tu sk =
     (case (find_id (cgInterner g) tu, id_key (cgInterner g) sk) of
        (Some t, Some k) \<Rightarrow> tu_refs g t k | _ \<Rightarrow> 0)"

lemma id_key_iff: "wf_interner I \<Longrightarrow> id_key I sk = Some k \<longleftrightarrow> valid_key I k \<and> str_key I k = sk"
  by (cases sk; cases k)
    (auto simp: id_key_def valid_key_def str_key_def find_id_iff resolve_inj split: option.splits)

lemma id_key_extends:
  assumes ext: "extends_interner I J" and "id_key I sk = Some k"
  shows "id_key J sk = Some k"
  using assms(2) extends_interner_facts(3)[OF ext]
  by (cases sk) (auto simp: id_key_def split: option.splits)

lemma id_key_extends_valid:
  assumes ext: "extends_interner I J" and k: "id_key J sk = Some k" "valid_key I k"
  shows "id_key I sk = Some k"
proof -
  have "wf_interner I" "wf_interner J" using ext by (auto simp: extends_interner_def)
  moreover have "str_key J k = str_key I k"
    using k(2) extends_interner_facts(2)[OF ext] by (cases k) (auto simp: str_key_def valid_key_def)
  ultimately show ?thesis using k by (simp add: id_key_iff)
qed

lemma key_refs_valid:
  assumes wf: "wf_graph g" and pos: "key_refs g k > 0"
  shows "valid_key (cgInterner g) k"
proof -
  obtain i where i: "map_of (edgeIndex g) k = Some i"
    using pos by (auto simp: key_refs_def split: option.splits)
  have "index_ok (edgeIndex g) (edges g)" using wf_graphD(2)[OF wf] by (simp add: edge_inv_def)
  from index_ok_iff[OF this, of k i] i have "i < length (edges g)" "keyOf (edges g ! i) = k"
    by (auto simp: live_at_def)
  then show ?thesis using wf_graphD(5)[OF wf] nth_mem[of i "edges g"]
    by (auto simp: ids_ok_def edge_valid_def valid_key_def keyOf_def)
qed

lemma tu_refs_valid:
  assumes wf: "wf_graph g" and pos: "tu_refs g t k > 0"
  shows "valid_key (cgInterner g) k" and "valid_id (cgInterner g) t"
proof -
  show "valid_key (cgInterner g) k"
    by (rule key_refs_valid[OF wf]) (use tu_refs_le[OF wf_graphD(2)[OF wf], of t k] pos in simp)
  have "ulist (tuEdges g) t \<noteq> []" using pos by (auto simp: tu_refs_def)
  then show "valid_id (cgInterner g) t" using wf_graphD(5)[OF wf] by (simp add: ids_ok_def)
qed

lemma find_id_extends_valid:
  assumes ext: "extends_interner I J" and "find_id J s = Some i" "valid_id I i"
  shows "find_id I s = Some i"
  using assms extends_interner_facts(2)[OF ext] by (auto simp: extends_interner_def find_id_iff)

lemma edge_refs_grow:
  assumes wf: "wf_graph g" and ext: "extends_interner (cgInterner g) J"
  shows "(case id_key J sk of None \<Rightarrow> 0 | Some k \<Rightarrow> key_refs g k) = edge_refs g sk"
proof (cases "id_key (cgInterner g) sk")
  case None
  have "key_refs g k = 0" if "id_key J sk = Some k" for k
    using key_refs_valid[OF wf, of k] id_key_extends_valid[OF ext that] None by (metis gr0I option.distinct(1))
  then show ?thesis using None by (simp add: edge_refs_def split: option.split)
qed (simp add: edge_refs_def id_key_extends[OF ext])

lemma tu_edge_refs_grow:
  assumes wf: "wf_graph g" and ext: "extends_interner (cgInterner g) J"
  shows "(case (find_id J tu, id_key J sk) of (Some t, Some k) \<Rightarrow> tu_refs g t k | _ \<Rightarrow> 0)
           = tu_edge_refs g tu sk"
proof (cases "\<exists>t k. find_id (cgInterner g) tu = Some t \<and> id_key (cgInterner g) sk = Some k")
  case True
  then obtain t k where "find_id (cgInterner g) tu = Some t" "id_key (cgInterner g) sk = Some k" by blast
  then show ?thesis using id_key_extends[OF ext, of sk k] extends_interner_facts(3)[OF ext, of tu t]
    by (simp add: tu_edge_refs_def)
next
  case False
  have "tu_refs g t k = 0" if "find_id J tu = Some t" "id_key J sk = Some k" for t k
    using tu_refs_valid[OF wf, of t k] False id_key_extends_valid[OF ext that(2)]
      find_id_extends_valid[OF ext that(1)] by (metis gr0I)
  then show ?thesis using False by (auto simp: tu_edge_refs_def split: option.splits)
qed

subsection \<open>\<open>addEdge\<close>, \<open>compact\<close> and \<open>removeTUs\<close>\<close>

lemma edge_refs_of: "id_key (cgInterner g) sk = Some k \<Longrightarrow> edge_refs g sk = key_refs g k"
  by (simp add: edge_refs_def)

lemma key_refs_frame [simp]:
  "key_refs (g\<lparr>cgInterner := I\<rparr>) k = key_refs g k" "tu_refs (g\<lparr>cgInterner := I\<rparr>) t k = tu_refs g t k"
  by (simp_all add: key_refs_def tu_refs_def cong: option.case_cong)

lemma edge_refs_interner:
  assumes "wf_graph g" and "extends_interner (cgInterner g) J"
  shows "edge_refs (g\<lparr>cgInterner := J\<rparr>) sk = edge_refs g sk"
    and "tu_edge_refs (g\<lparr>cgInterner := J\<rparr>) t sk = tu_edge_refs g t sk"
  using edge_refs_grow[OF assms] tu_edge_refs_grow[OF assms]
  by (simp_all add: edge_refs_def tu_edge_refs_def cong: option.case_cong)

lemma id_key_eq:
  "wf_interner I \<Longrightarrow> id_key I a = Some x \<Longrightarrow> id_key I b = Some y \<Longrightarrow> x = y \<longleftrightarrow> a = b"
  by (metis id_key_iff option.inject)

lemma edge_refs_bump:
  assumes wf: "wf_interner (cgInterner g)" and I: "cgInterner h = cgInterner g"
    and key: "id_key (cgInterner g) sk0 = Some k0"
    and bump: "\<And>k. key_refs h k = key_refs g k + (if k = k0 then n else 0)"
  shows "edge_refs h sk = edge_refs g sk + (if sk = sk0 then n else 0)"
  using key bump I id_key_eq[OF wf _ key, of sk] by (auto simp: edge_refs_def split: option.splits)

lemma tu_edge_refs_bump:
  assumes wf: "wf_interner (cgInterner g)" and I: "cgInterner h = cgInterner g"
    and key: "id_key (cgInterner g) sk0 = Some k0" and t: "find_id (cgInterner g) t0 = Some i0"
    and bump: "\<And>i k. tu_refs h i k = tu_refs g i k + (if i = i0 \<and> k = k0 then n else 0)"
  shows "tu_edge_refs h t sk = tu_edge_refs g t sk + (if t = t0 \<and> sk = sk0 then n else 0)"
proof (cases "\<exists>i k. find_id (cgInterner g) t = Some i \<and> id_key (cgInterner g) sk = Some k")
  case True
  then obtain i k where ik: "find_id (cgInterner g) t = Some i" "id_key (cgInterner g) sk = Some k" by blast
  have "i = i0 \<longleftrightarrow> t = t0" using ik(1) t wf by (metis find_id_iff option.inject)
  then show ?thesis using ik I bump id_key_eq[OF wf ik(2) key] by (simp add: tu_edge_refs_def)
next
  case False
  then have "\<not> (t = t0 \<and> sk = sk0)" using key t by blast
  moreover have "tu_edge_refs h t sk = 0" "tu_edge_refs g t sk = 0"
    using False I by (auto simp: tu_edge_refs_def split: option.splits)
  ultimately show ?thesis by auto
qed

lemma intern_length: "intern s I = (i, J) \<Longrightarrow> length (strings J) \<le> Suc (length (strings I))"
  by (auto simp: intern_def Let_def split: option.splits)

lemma addEdge_untagged:
  assumes wf: "wf_graph g" and v: "edge_valid (cgInterner g) se" and one: "refs se = 1"
    and key: "id_key (cgInterner g) sk0 = Some (keyOf se)" and probe: "probe_edge se g = (idx, h)"
  shows "wf_graph h" and "edge_refs h sk = edge_refs g sk + (if sk = sk0 then 1 else 0)"
    and "tu_edge_refs h t sk = tu_edge_refs g t sk"
proof -
  have pos: "refs se > 0" using one by simp
  note P = probe_edge_inv(3,4)[OF wf_graphD(2)[OF wf] pos probe]
  have I: "cgInterner h = cgInterner g" by (subst probe_edge_frame[OF probe]) simp
  show "wf_graph h" by (rule wf_probe_edge[OF wf v pos probe])
  show "edge_refs h sk = edge_refs g sk + (if sk = sk0 then 1 else 0)"
    by (rule edge_refs_bump[OF wf_graphD(1)[OF wf] I key]) (simp add: P one)
  show "tu_edge_refs h t sk = tu_edge_refs g t sk"
    using P(2) I by (simp add: tu_edge_refs_def cong: option.case_cong)
qed

lemma addEdge_tagged:
  assumes wf: "wf_graph g" and v: "edge_valid (cgInterner g) se" and one: "refs se = 1"
    and key: "id_key (cgInterner g) sk0 = Some (keyOf se)" and probe: "probe_edge se g = (idx, h)"
    and t: "find_id (cgInterner g) t0 = Some i"
  defines "h' \<equiv> h\<lparr>tuEdges := upush i idx (tuEdges h)\<rparr>"
  shows "wf_graph h'" and "edge_refs h' sk = edge_refs g sk + (if sk = sk0 then 1 else 0)"
    and "tu_edge_refs h' t sk = tu_edge_refs g t sk + (if t = t0 \<and> sk = sk0 then 1 else 0)"
proof -
  note wfI = wf_graphD(1)[OF wf]
  have "valid_id (cgInterner g) i" using t find_id_iff[OF wfI] by blast
  note R = register_edge[OF wf v one this probe, folded h'_def]
  have I: "cgInterner h' = cgInterner g" unfolding h'_def by (subst probe_edge_frame[OF probe]) simp
  show "wf_graph h'" by (rule R(1))
  show "edge_refs h' sk = edge_refs g sk + (if sk = sk0 then 1 else 0)"
    by (rule edge_refs_bump[OF wfI I key]) (simp add: R)
  show "tu_edge_refs h' t sk = tu_edge_refs g t sk + (if t = t0 \<and> sk = sk0 then 1 else 0)"
    by (rule tu_edge_refs_bump[OF wfI I key t]) (simp add: R)
qed

lemma probe_edge_interner:
  "probe_edge se (g\<lparr>cgInterner := J\<rparr>) = apsnd (\<lambda>h. h\<lparr>cgInterner := J\<rparr>) (probe_edge se g)"
  by (simp add: probe_edge_def Let_def split: option.split)

text \<open>The four strings of a registration, interned in the order of the code.\<close>

lemma intern_edge:
  assumes wf: "wf_interner I" and room: "has_room 4 I"
    and "intern (callerName e) I = (a, I1)" and "intern (calleeName e) I1 = (b, I2)"
    and "intern (callSite e) I2 = (s, I3)" and "intern t I3 = (u, I4)"
  defines "se \<equiv> \<lparr>seCaller = a, seCallee = b, seCallSite = s, seKind = kind e,
    seConfidence = confidence e, seExecContext = execContext e, seDepth = indirectionDepth e, refs = 1\<rparr>"
  shows "extends_interner I I3" and "extends_interner I I4" and "find_id I4 t = Some u"
    and "edge_valid I3 se" and "edge_valid I4 se"
    and "id_key I3 (skey_of e) = Some (keyOf se)" and "id_key I4 (skey_of e) = Some (keyOf se)"
proof -
  have "has_room 2 I" using room by (rule has_room_mono) simp
  note A = intern2[OF wf this assms(3,4)]
  have wf2: "wf_interner I2" and r2: "has_room 2 I2" using A(1) A(8)[OF room] by (auto simp: extends_interner_def)
  note S = intern2[OF wf2 r2 assms(5,6)]
  have r1: "has_room 1 I2" using r2 by (rule has_room_mono) simp
  note T = extends_intern[OF wf2 r1 assms(5)]
  have "wf_interner I3" "has_room 1 I3"
    using T(1) intern_room[OF wf2 _ assms(5), of 1] r2 by (auto simp: extends_interner_def numeral_2_eq_2)
  note U = extends_intern[OF this assms(6)]
  note X = extends_interner_facts[OF T(1)] and Y = extends_interner_facts[OF U(1)]
  show "extends_interner I I3" by (rule extends_interner_trans[OF A(1) T(1)])
  show "extends_interner I I4" by (rule extends_interner_trans[OF A(1) S(1)])
  show "find_id I4 t = Some u" by (rule U(4))
  show v: "edge_valid I3 se" using A(2,3) T(2) X(1) by (auto simp: se_def edge_valid_def)
  then show "edge_valid I4 se" using Y(1) by (auto simp: edge_valid_def)
  have "find_id I3 (callerName e) = Some a" "find_id I3 (calleeName e) = Some b"
    "find_id I3 (callSite e) = Some s" using A(6,7) T(4) X(3) by auto
  then show k: "id_key I3 (skey_of e) = Some (keyOf se)"
    by (simp add: id_key_def skey_of_def keyOf_def se_def)
  show "id_key I4 (skey_of e) = Some (keyOf se)" by (rule id_key_extends[OF U(1) k])
qed

lemma addEdge_laws:
  assumes wf: "wf_graph g" and room: "has_room 4 (cgInterner g)"
  shows "wf_graph (addEdge e t g)"
    and "edge_refs (addEdge e t g) sk = edge_refs g sk + (if sk = skey_of e then 1 else 0)"
    and "tu_edge_refs (addEdge e t g) t' sk =
           tu_edge_refs g t' sk + (if t \<noteq> [] \<and> t' = t \<and> sk = skey_of e then 1 else 0)"
proof -
  let ?h = "addEdge e t g"
  obtain a I1 b I2 s I3 u I4 where i: "intern (callerName e) (cgInterner g) = (a, I1)"
    "intern (calleeName e) I1 = (b, I2)" "intern (callSite e) I2 = (s, I3)" "intern t I3 = (u, I4)"
    by (metis surj_pair)
  define se where "se = \<lparr>seCaller = a, seCallee = b, seCallSite = s, seKind = kind e,
    seConfidence = confidence e, seExecContext = execContext e, seDepth = indirectionDepth e, refs = 1\<rparr>"
  obtain idx h where probe: "probe_edge se g = (idx, h)" by fastforce
  note E = intern_edge[OF wf_graphD(1)[OF wf] room i, folded se_def]
  have one: "refs se = 1" by (simp add: se_def)
  have g3: "wf_graph (g\<lparr>cgInterner := I3\<rparr>)" and g4: "wf_graph (g\<lparr>cgInterner := I4\<rparr>)"
    using wf_graph_interner[OF wf] E(1,2) by auto
  have p3: "probe_edge se (g\<lparr>cgInterner := I3\<rparr>) = (idx, h\<lparr>cgInterner := I3\<rparr>)"
    and p4: "probe_edge se (g\<lparr>cgInterner := I4\<rparr>) = (idx, h\<lparr>cgInterner := I4\<rparr>)"
    by (simp_all add: probe_edge_interner probe)
  note U = addEdge_untagged[OF g3 _ one _ p3] and T = addEdge_tagged[OF g4 _ one _ p4]
  note R = edge_refs_interner[OF wf E(1)] edge_refs_interner[OF wf E(2)]
  have "wf_graph ?h \<and> edge_refs ?h sk = edge_refs g sk + (if sk = skey_of e then 1 else 0) \<and>
     tu_edge_refs ?h t' sk = tu_edge_refs g t' sk + (if t \<noteq> [] \<and> t' = t \<and> sk = skey_of e then 1 else 0)"
  proof (cases "t = []")
    case True
    have "?h = h\<lparr>cgInterner := I3\<rparr>" unfolding addEdge_def Let_def using True
      by (simp add: i p3[unfolded se_def] del: One_nat_def)
    then show ?thesis using U E R True by simp
  next
    case False
    have "?h = h\<lparr>cgInterner := I4, tuEdges := upush u idx (tuEdges h)\<rparr>"
      unfolding addEdge_def Let_def using False by (simp add: i p3[unfolded se_def] del: One_nat_def)
    then show ?thesis using T[of "skey_of e" t u] E R False by simp
  qed
  then show "wf_graph ?h" "edge_refs ?h sk = edge_refs g sk + (if sk = skey_of e then 1 else 0)"
     "tu_edge_refs ?h t' sk = tu_edge_refs g t' sk + (if t \<noteq> [] \<and> t' = t \<and> sk = skey_of e then 1 else 0)"
    by blast+
qed

lemma addEdge_room: "has_room (n + 4) (cgInterner g) \<Longrightarrow> has_room n (cgInterner (addEdge e t g))"
proof -
  assume room: "has_room (n + 4) (cgInterner g)"
  obtain a I1 b I2 s I3 u I4 where i: "intern (callerName e) (cgInterner g) = (a, I1)"
    "intern (calleeName e) I1 = (b, I2)" "intern (callSite e) I2 = (s, I3)" "intern t I3 = (u, I4)"
    by (metis surj_pair)
  have "cgInterner (addEdge e t g) = (if t = [] then I3 else I4)"
    unfolding addEdge_def Let_def by (simp add: i probe_edge_interner case_prod_unfold)
  then show ?thesis using room i[THEN intern_length] by (auto simp: has_room_def)
qed

text \<open>The edge pass touches only the edge fields; the node pass then runs on its result.\<close>

lemma removeTUs_frame:
  fixes g :: CallGraph and tuPaths :: "string list"
  assumes inv: "edge_inv g"
  defines "tus \<equiv> List.map_filter (find_id (cgInterner g)) tuPaths"
  obtains es ix oe ie te n where
    "snd (removeTUs tuPaths g) = fold release_tu_nodes tus
       (g\<lparr>edges := es, edgeIndex := ix, outEdges := oe, inEdges := ie, tuEdges := te, liveEdgeCount := n\<rparr>)"
    and "length es = length (edges g)" and "\<And>i. i < length es \<Longrightarrow> keyOf (es ! i) = keyOf (edges g ! i)"
    and "\<And>t. ulist te t = (if t \<in> set tus then [] else ulist (tuEdges g) t)"
proof -
  let ?r0 = "\<lparr>relGraph = g, relDead = {}, relCallers = [], relCallees = [], relRemoved = 0\<rparr>"
  define r where "r = fold release_tu tus ?r0"
  let ?es = "edges (relGraph r)"
  have bk0: "backing_ok (tuEdges g) (edges g)" using inv by (simp add: edge_inv_def)
  have all: "release_ok g r" "\<And>t. ulist (tuEdges (relGraph r)) t = (if t \<in> set tus then [] else ulist (tuEdges g) t)"
    using release_tus_ok[OF release_ok_init[OF inv], of tus] bk0 unfolding r_def by auto
  have fr: "relGraph r = g\<lparr>edges := ?es, edgeIndex := edgeIndex (relGraph r),
                      liveEdgeCount := liveEdgeCount (relGraph r), tuEdges := tuEdges (relGraph r)\<rparr>"
    and len: "length ?es = length (edges g)"
    using all(1) unfolding release_ok_def Let_def by blast+
  have "\<exists>oe ie. snd (removeTUs tuPaths g) = fold release_tu_nodes tus
    ((relGraph r)\<lparr>outEdges := oe, inEdges := ie\<rparr>)"
    unfolding removeTUs_def Let_def tus_def[symmetric] r_def[symmetric] snd_conv by blast
  then obtain oe ie where "snd (removeTUs tuPaths g) = fold release_tu_nodes tus
    ((relGraph r)\<lparr>outEdges := oe, inEdges := ie\<rparr>)" by blast
  then have "snd (removeTUs tuPaths g) = fold release_tu_nodes tus
    (g\<lparr>edges := ?es, edgeIndex := edgeIndex (relGraph r), outEdges := oe, inEdges := ie,
       tuEdges := tuEdges (relGraph r), liveEdgeCount := liveEdgeCount (relGraph r)\<rparr>)"
    by (subst (asm) fr) (cases g, simp)
  then show ?thesis
    by (rule that) (use len all(2) release_ok_fields(4)[OF all(1)] in auto)
qed

definition no_nodes :: "CallGraph \<Rightarrow> CallGraph" where
  "no_nodes g = g\<lparr>nodes := [], byName := [], nodeContributors := [], tuNodes := []\<rparr>"

lemma no_nodes_release_node [simp]: "no_nodes (release_node t n g) = no_nodes g"
  by (simp add: no_nodes_def release_node_def drop_name_def Let_def split: option.split)

lemma no_nodes_fields: "cgInterner (no_nodes g) = cgInterner g" "edge_part (no_nodes g) = edge_part g"
  by (simp_all add: no_nodes_def edge_part_def)

lemma no_nodes_fold: "(\<And>x g. no_nodes (f x g) = no_nodes g) \<Longrightarrow> no_nodes (fold f xs g) = no_nodes g"
  by (induction xs arbitrary: g) auto

lemma no_nodes_release_tu_nodes [simp]: "no_nodes (release_tu_nodes t g) = no_nodes g"
proof (cases "map_of (tuNodes g) t")
  case (Some ns)
  have "no_nodes (h\<lparr>tuNodes := m\<rparr>) = no_nodes h" for h m by (simp add: no_nodes_def)
  with Some show ?thesis by (simp add: release_tu_nodes_def Let_def no_nodes_fold)
qed (simp add: release_tu_nodes_def)

lemma no_nodes_eq:
  "no_nodes h = no_nodes g \<Longrightarrow>
     h = g\<lparr>nodes := nodes h, byName := byName h, nodeContributors := nodeContributors h, tuNodes := tuNodes h\<rparr>"
  by (cases h; cases g) (simp add: no_nodes_def)

lemma wf_release_nodes:
  assumes wf: "wf_graph g"
  shows "wf_graph (fold release_tu_nodes tus g)"
proof (rule wf_nodesI[OF wf])
  let ?h = "fold release_tu_nodes tus g"
  have R: "nodes_ok ?h" "node_release (set tus) g ?h UNIV"
    using release_all_nodes_ok[OF wf_graphD(3)[OF wf]] by auto
  show "nodes_ok ?h" by (rule R)
  have "rel_of (nodeContributors ?h) \<subseteq> rel_of (nodeContributors g)"
    by (auto simp: node_releaseD(2)[OF R(2)])
  then show "pairs_valid (cgInterner g) (rel_of (nodeContributors ?h))"
    using wf_graphD(5)[OF wf] unfolding ids_ok_def pairs_valid_def by blast
  show "?h = g\<lparr>nodes := nodes ?h, byName := byName ?h, nodeContributors := nodeContributors ?h,
                  tuNodes := tuNodes ?h\<rparr>"
    by (rule no_nodes_eq) (simp add: no_nodes_fold)
qed

lemma wf_removeTUs:
  assumes wf: "wf_graph g"
  shows "wf_graph (snd (removeTUs ts g))" and "cgInterner (snd (removeTUs ts g)) = cgInterner g"
proof -
  note W = wf_graphD[OF wf]
  let ?tus = "List.map_filter (find_id (cgInterner g)) ts"
  obtain es ix oe ie te n where h: "snd (removeTUs ts g) = fold release_tu_nodes ?tus
       (g\<lparr>edges := es, edgeIndex := ix, outEdges := oe, inEdges := ie, tuEdges := te, liveEdgeCount := n\<rparr>)"
      (is "_ = fold _ _ ?g1")
    and len: "length es = length (edges g)" and keys: "\<And>i. i < length es \<Longrightarrow> keyOf (es ! i) = keyOf (edges g ! i)"
    and te: "\<And>t. ulist te t = (if t \<in> set ?tus then [] else ulist (tuEdges g) t)"
    by (rule removeTUs_frame[OF W(2), of ts]) (rule that; assumption)
  have "no_nodes (snd (removeTUs ts g)) = no_nodes ?g1" by (simp add: h no_nodes_fold)
  then have I: "cgInterner (snd (removeTUs ts g)) = cgInterner ?g1" and "edge_part (snd (removeTUs ts g)) = edge_part ?g1"
    by (metis no_nodes_fields)+
  then have inv: "edge_inv ?g1" using removeTUs_edges(1)[OF W(2), of ts] edge_part_cong(1) by blast
  have "edge_valid (cgInterner g) e" if "e \<in> set es" for e
  proof -
    from that obtain i where i: "i < length es" "e = es ! i" by (auto simp: in_set_conv_nth)
    then show ?thesis using keys[OF i(1)] len W(5) edge_valid_keyOf[of e "edges g ! i"] by (simp add: ids_ok_def)
  qed
  then have "wf_graph ?g1"
    using W(5) te by (intro wf_edgesI[OF wf inv]) (simp_all add: ids_ok_def split: if_splits)
  from wf_release_nodes[OF this] show "wf_graph (snd (removeTUs ts g))" by (simp add: h)
  from I show "cgInterner (snd (removeTUs ts g)) = cgInterner g" by simp
qed

lemma set_map_filter: "x \<in> set (List.map_filter f xs) \<longleftrightarrow> (\<exists>y \<in> set xs. f y = Some x)"
  by (induction xs) (auto simp: List.map_filter_simps split: option.splits)

lemma sum_found:
  fixes f :: "sid \<Rightarrow> nat"
  assumes "wf_interner I"
  shows "(\<Sum>i \<in> set (List.map_filter (find_id I) ts). f i)
       = (\<Sum>t \<in> set ts. case find_id I t of None \<Rightarrow> 0 | Some i \<Rightarrow> f i)"
proof -
  let ?T = "{t \<in> set ts. find_id I t \<noteq> None}"
  have "(\<Sum>t \<in> set ts. case find_id I t of None \<Rightarrow> 0 | Some i \<Rightarrow> f i) = (\<Sum>t \<in> ?T. f (the (find_id I t)))"
    by (rule sum.mono_neutral_cong_right) auto
  also have "\<dots> = (\<Sum>i \<in> (\<lambda>t. the (find_id I t)) ` ?T. f i)"
  proof (rule sum.reindex[symmetric, unfolded comp_def])
    show "inj_on (\<lambda>t. the (find_id I t)) ?T"
      by (rule inj_onI) (use assms in \<open>auto simp: find_id_iff\<close>)
  qed
  also have "(\<lambda>t. the (find_id I t)) ` ?T = set (List.map_filter (find_id I) ts)"
    by (force simp: set_map_filter)
  finally show ?thesis by simp
qed

lemma removeTUs_laws:
  assumes wf: "wf_graph g"
  shows "edge_refs (snd (removeTUs ts g)) sk = edge_refs g sk - (\<Sum>t \<in> set ts. tu_edge_refs g t sk)"
    and "tu_edge_refs (snd (removeTUs ts g)) t sk = (if t \<in> set ts then 0 else tu_edge_refs g t sk)"
proof -
  note E = removeTUs_edges[OF wf_graphD(2)[OF wf], of ts] and I = wf_removeTUs(2)[OF wf, of ts]
  note wfI = wf_graphD(1)[OF wf]
  show "edge_refs (snd (removeTUs ts g)) sk = edge_refs g sk - (\<Sum>t \<in> set ts. tu_edge_refs g t sk)"
  proof (cases "id_key (cgInterner g) sk")
    case (Some k)
    have "(\<Sum>t \<in> set ts. tu_edge_refs g t sk)
        = (\<Sum>t \<in> set ts. case find_id (cgInterner g) t of None \<Rightarrow> 0 | Some i \<Rightarrow> tu_refs g i k)"
      using Some by (intro sum.cong) (auto simp: tu_edge_refs_def split: option.split)
    then show ?thesis using Some E(2)[of k] by (simp add: edge_refs_def I sum_found[OF wfI])
  qed (simp add: edge_refs_def I)
  show "tu_edge_refs (snd (removeTUs ts g)) t sk = (if t \<in> set ts then 0 else tu_edge_refs g t sk)"
  proof (cases "find_id (cgInterner g) t")
    case (Some i)
    have "i \<in> set (List.map_filter (find_id (cgInterner g)) ts) \<longleftrightarrow> t \<in> set ts"
      using Some wfI by (auto simp: set_map_filter find_id_iff)
    then show ?thesis using Some by (simp add: tu_edge_refs_def I E(3) split: option.split)
  qed (simp add: tu_edge_refs_def I)
qed

lemma compact_laws:
  assumes wf: "wf_graph g"
  shows "wf_graph (compact g)" and "edge_refs (compact g) sk = edge_refs g sk"
    and "tu_edge_refs (compact g) t sk = tu_edge_refs g t sk" and "cgInterner (compact g) = cgInterner g"
proof -
  note W = wf_graphD[OF wf] and C = compact_edges[OF wf_graphD(2)[OF wf]]
  show I: "cgInterner (compact g) = cgInterner g" by (simp add: compact_def Let_def)
  show "edge_refs (compact g) sk = edge_refs g sk" "tu_edge_refs (compact g) t sk = tu_edge_refs g t sk"
    by (simp_all add: edge_refs_def tu_edge_refs_def I C cong: option.case_cong)
  show "wf_graph (compact g)"
  proof (rule wf_edgesI[OF wf C(1)])
    show "edge_valid (cgInterner g) e" if "e \<in> set (edges (compact g))" for e
      using that W(5) C(2) by (auto simp: ids_ok_def)
    show "valid_id (cgInterner g) t" if ne: "ulist (tuEdges (compact g)) t \<noteq> []" for t
    proof -
      obtain i where i: "i \<in> set (ulist (tuEdges (compact g)) t)" using hd_in_set[OF ne] by blast
      have "0 < tu_refs (compact g) t (keyOf (edges (compact g) ! i))"
        using i by (force simp: tu_refs_def filter_empty_conv)
      then show ?thesis using tu_refs_valid(2)[OF wf] C(4) by simp
    qed
  qed (simp add: compact_def Let_def)
qed

end
