(* ===== verification/CallGraphAbsorb.thy ===== *)
theory CallGraphAbsorb
  imports CallGraphWf
begin

text \<open>
  The shard merge \<open>CallGraph::absorb\<close>: after it the graph is well formed again, each
  registration count is the sum of the counts of the two graphs, by edge name and by
  translation unit, and each relation is the union of the two.
\<close>

subsection \<open>The id remap\<close>

definition remap_ok :: "interner \<Rightarrow> interner \<Rightarrow> (sid \<Rightarrow> sid) \<Rightarrow> bool" where
  "remap_ok S J rm \<longleftrightarrow> wf_interner S \<and> wf_interner J \<and>
     (\<forall>i. valid_id S i \<longrightarrow> valid_id J (rm i) \<and> resolve J (rm i) = resolve S i)"

lemma remap_okD:
  assumes "remap_ok S J rm" and "valid_id S i"
  shows "valid_id J (rm i)" and "resolve J (rm i) = resolve S i"
  using assms by (auto simp: remap_ok_def)

lemma remap_ok_inj: "remap_ok S J rm \<Longrightarrow> valid_id S i \<Longrightarrow> valid_id S j \<Longrightarrow> rm i = rm j \<longleftrightarrow> i = j"
  by (metis remap_ok_def resolve_inj)

lemma remap_ok_find:
  assumes "remap_ok S J rm" and "find_id S s = Some i"
  shows "find_id J s = Some (rm i)"
  using assms by (auto simp: remap_ok_def find_id_iff)

lemma remap_ok_find_iff:
  assumes "remap_ok S J rm" and "valid_id S i"
  shows "find_id J s = Some (rm i) \<longleftrightarrow> find_id S s = Some i"
  using assms by (auto simp: remap_ok_def find_id_iff)

lemma intern_all_remap:
  assumes S: "wf_interner S" and I: "wf_interner I" and room: "has_room (length (strings S)) I"
    and all: "intern_all (strings S) I = (ids, J)"
  shows "remap_ok S J (\<lambda>i. ids ! unat i)" and "extends_interner I J"
  using intern_all_wf[OF I room all] S I
  by (auto simp: remap_ok_def extends_interner_def valid_id_def resolve_def)

definition rkey :: "(sid \<Rightarrow> sid) \<Rightarrow> EdgeKey \<Rightarrow> EdgeKey" where
  "rkey rm k = (case k of (a, b, s, r) \<Rightarrow> (rm a, rm b, rm s, r))"

lemma keyOf_remap [simp]: "keyOf (remap_edge rm e) = rkey rm (keyOf e)" "refs (remap_edge rm e) = refs e"
  by (simp_all add: remap_edge_def keyOf_def rkey_def)

lemma id_key_remap:
  assumes "remap_ok S J rm" and "id_key S sk = Some k"
  shows "id_key J sk = Some (rkey rm k)"
  using assms(2) remap_ok_find[OF assms(1)]
  by (cases sk) (auto simp: id_key_def rkey_def split: option.splits)

lemma rkey_inj:
  assumes "remap_ok S J rm" and "valid_key S k" and "valid_key S k'"
  shows "rkey rm k = rkey rm k' \<longleftrightarrow> k = k'"
  using assms by (cases k; cases k') (auto simp: rkey_def valid_key_def remap_ok_inj)

lemma edge_valid_remap:
  "remap_ok S J rm \<Longrightarrow> edge_valid S e \<Longrightarrow> edge_valid J (remap_edge rm e)"
  by (auto simp: edge_valid_def remap_edge_def dest: remap_okD)

subsection \<open>Nodes\<close>

text \<open>What the node and relation passes leave alone.\<close>

lemma edge_part_register_node: "edge_part (register_node u d n g) = edge_part g"
  by (simp add: edge_part_def register_node_def split: option.split)

lemma edge_part_add_contributor: "edge_part (add_contributor u t g) = edge_part g"
  by (simp add: edge_part_def add_contributor_def)

definition same_edges :: "CallGraph \<Rightarrow> CallGraph \<Rightarrow> bool" where
  "same_edges g h \<longleftrightarrow> wf_graph h \<and> cgInterner h = cgInterner g \<and> edge_part h = edge_part g"

lemma same_edges_refl: "wf_graph g \<Longrightarrow> same_edges g g"
  by (simp add: same_edges_def)

lemma same_edges_trans: "same_edges g h \<Longrightarrow> same_edges h k \<Longrightarrow> same_edges g k"
  by (simp add: same_edges_def)

lemma same_edges_fold:
  assumes "wf_graph g"
    and "\<And>x h. x \<in> set xs \<Longrightarrow> wf_graph h \<Longrightarrow> cgInterner h = cgInterner g \<Longrightarrow> same_edges h (f x h)"
  shows "same_edges g (fold f xs g)"
proof -
  have "same_edges g (fold f xs h)" if "same_edges g h" for h
    using that
  proof (rule fold_invariant)
    fix x h assume "x \<in> set xs" "same_edges g h"
    then show "same_edges g (f x h)"
      using assms(2)[of x h] same_edges_trans by (auto simp: same_edges_def)
  qed
  then show ?thesis using same_edges_refl[OF assms(1)] by blast
qed

lemma absorb_node_same_edges:
  assumes wf: "wf_graph g" and sh: "wf_graph shard"
    and rm: "remap_ok (cgInterner shard) (cgInterner g) rm" and p: "p \<in> set (nodes shard)"
  shows "same_edges g (absorb_node rm shard p g)"
proof -
  obtain i node where pi: "p = (i, node)" by fastforce
  have nok: "names_ok (cgInterner shard) (nodes shard) (byName shard)"
    using wf_graphD(3)[OF sh] by (simp add: nodes_ok_def nodes_ok_with_def)
  note N = names_okD[OF nok]
  have mi: "map_of (nodes shard) i = Some node" using N(1) p pi by simp
  have i: "valid_id (cgInterner g) (rm i)" "resolve (cgInterner g) (rm i) = usr node"
    using remap_okD[OF rm] N(4)[OF mi] by auto
  obtain d where d: "find_id (cgInterner g) (qualifiedName node) = Some d"
    using N(5)[OF mi] remap_ok_find[OF rm] by blast
  let ?g1 = "register_node (rm i) d node g"
  have g1: "same_edges g ?g1"
    using wf_register_node(1)[OF wf i d] by (simp add: same_edges_def register_node_fields edge_part_register_node)
  have reg: "rm i \<in> fst ` set (nodes ?g1)" by (rule wf_register_node(2)[OF wf i d])
  have ab: "absorb_node rm shard p g =
      fold (\<lambda>t. add_contributor (rm i) (rm t)) (ulist (nodeContributors shard) i) ?g1"
    using intern_known[OF d] by (simp add: absorb_node_def pi register_node_def Let_def split: option.split)
  have "same_edges ?g1 (fold (\<lambda>t. add_contributor (rm i) (rm t)) ts ?g1)"
    if ts: "set ts \<subseteq> set (ulist (nodeContributors shard) i)" for ts
  proof -
    have "same_edges ?g1 h \<and> rm i \<in> fst ` set (nodes h)"
      if "h = fold (\<lambda>t. add_contributor (rm i) (rm t)) ts ?g1" for h
      unfolding that
    proof (rule fold_invariant)
      show "same_edges ?g1 ?g1 \<and> rm i \<in> fst ` set (nodes ?g1)"
        using g1 reg by (simp add: same_edges_def)
      fix t h assume t: "t \<in> set ts" and h: "same_edges ?g1 h \<and> rm i \<in> fst ` set (nodes h)"
      have "(i, t) \<in> rel_of (nodeContributors shard)" using t ts by auto
      then have "valid_id (cgInterner shard) t" using wf_graphD(5)[OF sh] by (auto simp: ids_ok_def pairs_valid_def)
      then have "valid_id (cgInterner h) (rm t)"
        using remap_okD(1)[OF rm] h by (simp add: same_edges_def register_node_fields)
      then show "same_edges ?g1 (add_contributor (rm i) (rm t) h) \<and>
                 rm i \<in> fst ` set (nodes (add_contributor (rm i) (rm t) h))"
        using h wf_add_contributor[of h "rm i" "rm t"]
        by (simp add: same_edges_def add_contributor_fields edge_part_add_contributor)
    qed
    then show ?thesis by blast
  qed
  from this[OF subset_refl] same_edges_trans[OF g1] ab show ?thesis by simp
qed

lemma absorb_nodes_same_edges:
  assumes "wf_graph g" and "wf_graph shard" and "remap_ok (cgInterner shard) (cgInterner g) rm"
  shows "same_edges g (fold (absorb_node rm shard) (nodes shard) g)"
  using assms by (intro same_edges_fold absorb_node_same_edges) auto

subsection \<open>Edges\<close>

text \<open>
  The state after the first \<open>n\<close> shard edges: the remap sends each live one to a stored
  edge with the remapped key, and the counts grew by what was sent there.
\<close>

definition sent :: "StoredEdge list \<Rightarrow> nat option list \<Rightarrow> (nat \<Rightarrow> nat) \<Rightarrow> nat \<Rightarrow> nat" where
  "sent es remap c j = (\<Sum>i < length remap. if remap ! i = Some j then c i else 0)"

definition edges_absorbed :: "(sid \<Rightarrow> sid) \<Rightarrow> StoredEdge list \<Rightarrow> CallGraph \<Rightarrow> nat option list \<Rightarrow> CallGraph \<Rightarrow> bool" where
  "edges_absorbed rm es g remap h \<longleftrightarrow>
     wf_graph h \<and> cgInterner h = cgInterner g \<and> length remap = length es \<and>
     (\<forall>i < length es. live_at es i \<longrightarrow>
        (\<exists>j. remap ! i = Some j \<and> j < length (edges h) \<and> keyOf (edges h ! j) = rkey rm (keyOf (es ! i)))) \<and>
     (\<forall>j. refs_at (edges h) j = refs_at (edges g) j + sent es remap (\<lambda>i. refs (es ! i)) j) \<and>
     (\<forall>k. key_refs h k = key_refs g k + (\<Sum>e \<leftarrow> es. if rkey rm (keyOf e) = k then refs e else 0)) \<and>
     tuEdges h = tuEdges g \<and> length (edges g) \<le> length (edges h) \<and>
     (\<forall>i < length (edges g). keyOf (edges h ! i) = keyOf (edges g ! i))"

lemma edges_absorbedD:
  assumes "edges_absorbed rm es g remap h"
  shows "wf_graph h" and "cgInterner h = cgInterner g" and "length remap = length es"
    and "live_at es i \<Longrightarrow>
        (\<exists>j. remap ! i = Some j \<and> j < length (edges h) \<and> keyOf (edges h ! j) = rkey rm (keyOf (es ! i)))"
    and "refs_at (edges h) j = refs_at (edges g) j + sent es remap (\<lambda>i. refs (es ! i)) j"
    and "key_refs h k = key_refs g k + (\<Sum>e \<leftarrow> es. if rkey rm (keyOf e) = k then refs e else 0)"
    and "tuEdges h = tuEdges g" and "length (edges g) \<le> length (edges h)"
    and "i < length (edges g) \<Longrightarrow> keyOf (edges h ! i) = keyOf (edges g ! i)"
  using assms unfolding edges_absorbed_def by (simp_all add: live_at_def del: split_paired_All)

lemma sent_snoc:
  assumes "\<And>i. i < length remap \<Longrightarrow> c' i = c i"
  shows "sent es' (remap @ [r]) c' j = sent es remap c j + (if r = Some j then c' (length remap) else 0)"
proof -
  have "(\<Sum>i < length remap. if (remap @ [r]) ! i = Some j then c' i else 0) = sent es remap c j"
    unfolding sent_def using assms by (intro sum.cong) (auto simp: nth_append)
  then show ?thesis by (simp add: sent_def)
qed

lemma edges_absorbed_snoc:
  assumes ok: "edges_absorbed rm es g remap h" and rm: "remap_ok S (cgInterner g) rm"
    and v: "edge_valid S e" and step: "absorb_edge rm e (remap, h) = (remap', h')"
  shows "edges_absorbed rm (es @ [e]) g remap' h'"
proof (cases "refs e = 0")
  case True
  then have eq: "remap' = remap @ [None]" "h' = h" using step by (auto simp: absorb_edge_def)
  have "sent (es @ [e]) (remap @ [None]) (\<lambda>i. refs ((es @ [e]) ! i)) j = sent es remap (\<lambda>i. refs (es ! i)) j" for j
    using edges_absorbedD(3)[OF ok] by (subst sent_snoc[where c = "\<lambda>i. refs (es ! i)"]) (auto simp: nth_append)
  with ok True show ?thesis
    by (auto simp: edges_absorbed_def eq nth_append live_at_snoc less_Suc_eq live_at_def)
next
  case False
  note D = edges_absorbedD[OF ok]
  obtain idx where probe: "probe_edge (remap_edge rm e) h = (idx, h')" and eq: "remap' = remap @ [Some idx]"
    using step False by (auto simp: absorb_edge_def split: prod.splits)
  have pos: "refs (remap_edge rm e) > 0" using False by simp
  have v': "edge_valid (cgInterner h) (remap_edge rm e)" using edge_valid_remap[OF rm v] D(2) by simp
  note W = wf_graphD(2)[OF D(1)]
  note P = probe_edge_inv[OF W pos probe] and E = probe_edge_edges[OF W probe]
  have fr: "cgInterner h' = cgInterner h" "tuEdges h' = tuEdges h" by (subst probe_edge_frame[OF probe], simp)+
  have keys: "keyOf (edges h' ! j) = keyOf (edges h ! j)" if "j < length (edges h)" for j
  proof (cases "j = idx")
    case True
    then have "map_of (edgeIndex h) (rkey rm (keyOf e)) = Some j"
      using probe that by (auto simp: probe_edge_def Let_def split: option.splits)
    then have "keyOf (edges h ! j) = rkey rm (keyOf e)"
      using W index_ok_iff[of "edgeIndex h" "edges h" "rkey rm (keyOf e)" j] by (simp add: edge_inv_def)
    with E(4)[of j] True E(1) show ?thesis by simp
  qed (use E(4)[of j] E(2) that in simp)
  have refs': "refs_at (edges h') j = refs_at (edges h) j + (if j = idx then refs e else 0)" for j
    using E(1,2) E(3)[of j] by (auto simp: refs_at_def)
  show ?thesis
    unfolding edges_absorbed_def
  proof (intro conjI allI impI)
    show "wf_graph h'" by (rule wf_probe_edge[OF D(1) v' pos probe])
    show "cgInterner h' = cgInterner g" "tuEdges h' = tuEdges g" using fr D(2,7) by simp_all
    show "length remap' = length (es @ [e])" using D(3) eq by simp
    show "length (edges g) \<le> length (edges h')" using D(8) E(2) by simp
    show "keyOf (edges h' ! i) = keyOf (edges g ! i)" if "i < length (edges g)" for i
      using keys[of i] D(8) D(9)[OF that] that by simp
    show "key_refs h' k = key_refs g k + (\<Sum>e \<leftarrow> es @ [e]. if rkey rm (keyOf e) = k then refs e else 0)" for k
      using P(3)[of k] D(6)[of k] by auto
    have "sent (es @ [e]) remap' (\<lambda>i. refs ((es @ [e]) ! i)) j
        = sent es remap (\<lambda>i. refs (es ! i)) j + (if j = idx then refs e else 0)" for j
      unfolding eq using D(3) by (subst sent_snoc[where c = "\<lambda>i. refs (es ! i)"]) (auto simp: nth_append)
    then show "refs_at (edges h') j = refs_at (edges g) j + sent (es @ [e]) remap' (\<lambda>i. refs ((es @ [e]) ! i)) j" for j
      using refs'[of j] D(5)[of j] by simp
    fix i assume "i < length (es @ [e])" and live: "live_at (es @ [e]) i"
    show "\<exists>j. remap' ! i = Some j \<and> j < length (edges h') \<and> keyOf (edges h' ! j) = rkey rm (keyOf ((es @ [e]) ! i))"
    proof (cases "i < length es")
      case True
      then have "live_at es i" using live by (simp add: live_at_snoc)
      from D(4)[OF this] obtain j where "remap ! i = Some j" "j < length (edges h)"
        "keyOf (edges h ! j) = rkey rm (keyOf (es ! i))" by blast
      then show ?thesis using True D(3) E(2) keys[of j] eq by (auto simp: nth_append)
    next
      case False
      then have "i = length es" using \<open>i < length (es @ [e])\<close> by simp
      then show ?thesis using D(3) eq E(1) E(4)[OF E(1)] by (auto simp: nth_append)
    qed
  qed
qed

lemma edges_absorbed_all:
  assumes wf: "wf_graph g" and rm: "remap_ok S (cgInterner g) rm"
    and v: "\<And>e. e \<in> set es \<Longrightarrow> edge_valid S e" and "fold (absorb_edge rm) es ([], g) = (remap, h)"
  shows "edges_absorbed rm es g remap h"
  using v assms(4)
proof (induction es arbitrary: remap h rule: rev_induct)
  case Nil
  then show ?case using wf by (simp add: edges_absorbed_def sent_def live_at_def)
next
  case (snoc e es)
  obtain remap1 h1 where one: "fold (absorb_edge rm) es ([], g) = (remap1, h1)" by fastforce
  have "edges_absorbed rm es g remap1 h1" using snoc.IH[OF _ one] snoc.prems(1) by simp
  then show ?case
    by (rule edges_absorbed_snoc[OF _ rm]) (use snoc.prems one in auto)
qed

subsection \<open>Per-TU edge lists\<close>

lemma count_map_filter:
  assumes "set idxs \<subseteq> {..<length remap}"
  shows "count_list (List.map_filter (\<lambda>i. remap ! i) idxs) j = sent es remap (count_list idxs) j"
  using assms
proof (induction idxs)
  case (Cons x idxs)
  have "sent es remap (count_list (x # idxs)) j
      = (\<Sum>i < length remap. (if remap ! i = Some j then count_list idxs i else 0) +
           (if i = x then (if remap ! i = Some j then 1 else 0) else 0))"
    unfolding sent_def by (intro sum.cong) auto
  also have "\<dots> = sent es remap (count_list idxs) j + (if remap ! x = Some j then 1 else 0)"
    using Cons.prems by (simp add: sum.distrib sent_def)
  finally show ?case using Cons by (simp only:) (simp add: List.map_filter_simps split: option.split)
qed (simp add: List.map_filter_simps sent_def)

lemma sent_sum: "(\<Sum>x \<leftarrow> xs. sent es remap (c x) j) = sent es remap (\<lambda>i. \<Sum>x \<leftarrow> xs. c x i) j"
  by (induction xs) (auto simp: sent_def sum.distrib[symmetric] intro!: sum.cong)

lemma sent_mono: "(\<And>i. i < length remap \<Longrightarrow> c i \<le> d i) \<Longrightarrow> sent es remap c j \<le> sent es remap d j"
  unfolding sent_def by (intro sum_mono) auto

lemma absorb_tu_edges_fields:
  "tuEdges (absorb_tu_edges rm remap p g) = AList.update (rm (fst p))
     (ulist (tuEdges g) (rm (fst p)) @ List.map_filter (\<lambda>i. remap ! i) (snd p)) (tuEdges g)"
  "absorb_tu_edges rm remap p g = g\<lparr>tuEdges := tuEdges (absorb_tu_edges rm remap p g)\<rparr>"
  by (simp_all add: absorb_tu_edges_def Let_def split: prod.split)

lemma absorb_tu_edges_fold:
  fixes te :: "(sid, nat list) umap" and rm :: "sid \<Rightarrow> sid" and remap :: "nat option list"
    and h :: CallGraph
  assumes dist: "distinct (ukeys (tuEdges h))"
    and range: "\<And>p. p \<in> set te \<Longrightarrow> set (snd p) \<subseteq> {..<length remap}"
  defines "h' \<equiv> fold (absorb_tu_edges rm remap) te h"
  shows "h' = h\<lparr>tuEdges := tuEdges h'\<rparr>
       \<and> distinct (ukeys (tuEdges h'))
       \<and> ulist (tuEdges h') u = ulist (tuEdges h) u @
           concat (map (\<lambda>p. if rm (fst p) = u then List.map_filter (\<lambda>i. remap ! i) (snd p) else []) te)
       \<and> ucount (tuEdges h') j = ucount (tuEdges h) j + sent es remap (ucount te) j"
  using assms(1,2) unfolding h'_def
proof (induction te arbitrary: h)
  case Nil
  then show ?case by (simp add: sent_def ucount_def)
next
  case (Cons p te)
  let ?h1 = "absorb_tu_edges rm remap p h" and ?new = "List.map_filter (\<lambda>i. remap ! i) (snd p)"
  note F = absorb_tu_edges_fields[of rm remap p h]
  have d1: "distinct (ukeys (tuEdges ?h1))" using Cons.prems(1) F(1) by auto
  have "ucount (tuEdges ?h1) j + count_list (ulist (tuEdges h) (rm (fst p))) j =
        ucount (tuEdges h) j + (count_list (ulist (tuEdges h) (rm (fst p))) j + count_list ?new j)"
    unfolding F(1) using ucount_update[OF Cons.prems(1)] by simp
  moreover have "count_list ?new j = sent es remap (count_list (snd p)) j"
    by (rule count_map_filter) (use Cons.prems(2) in simp)
  ultimately have "ucount (tuEdges ?h1) j = ucount (tuEdges h) j + sent es remap (count_list (snd p)) j"
    by simp
  moreover have "sent es remap (ucount (p # te)) j =
      sent es remap (count_list (snd p)) j + sent es remap (ucount te) j"
    by (auto simp: sent_def ucount_def sum.distrib[symmetric] intro!: sum.cong)
  moreover have "ulist (tuEdges ?h1) u = ulist (tuEdges h) u @ (if rm (fst p) = u then ?new else [])"
    unfolding F(1) by (auto simp: umap_simps)
  moreover have "h\<lparr>tuEdges := x\<rparr> = ?h1\<lparr>tuEdges := x\<rparr>" for x by (subst F(2)) simp
  ultimately show ?case using Cons.IH[OF d1] Cons.prems(2) by auto
qed

lemma filter_map_filter_length:
  assumes "\<And>i. i \<in> set idxs \<Longrightarrow> \<exists>j. f i = Some j \<and> P j = Q i"
  shows "length (filter P (List.map_filter f idxs)) = length (filter Q idxs)"
  using assms by (induction idxs) (fastforce simp: List.map_filter_simps)+

lemma sum_list_single:
  assumes "distinct (ukeys m)" and "\<And>k v. (k, v) \<in> set m \<Longrightarrow> f k v \<noteq> 0 \<Longrightarrow> k = a"
    and "\<And>k. f k [] = (0::nat)"
  shows "(\<Sum>p \<leftarrow> m. f (fst p) (snd p)) = f a (ulist m a)"
  using assms(1,2)
proof (induction m)
  case (Cons p m)
  obtain k v where p: "p = (k, v)" by fastforce
  have IH: "(\<Sum>p \<leftarrow> m. f (fst p) (snd p)) = f a (ulist m a)"
    by (rule Cons.IH) (use Cons.prems in auto)
  show ?case
  proof (cases "k = a")
    case True
    then have "ulist m a = []" using Cons.prems(1) p by (intro ulist_dom_or_Nil) auto
    then show ?thesis using IH p True assms(3) by (simp add: ulist_def)
  next
    case False
    then have "f k v = 0" using Cons.prems(2)[of k v] p by auto
    then show ?thesis using IH p False by (simp add: ulist_def)
  qed
qed (simp add: assms(3))

lemma key_refs_sum:
  assumes inv: "edge_inv g"
  shows "key_refs g k = (\<Sum>e \<leftarrow> edges g. if keyOf e = k then refs e else 0)"
proof -
  have ix: "index_ok (edgeIndex g) (edges g)" using inv by (simp add: edge_inv_def)
  let ?f = "\<lambda>i. if keyOf (edges g ! i) = k then refs (edges g ! i) else 0"
  have "(\<Sum>e \<leftarrow> edges g. if keyOf e = k then refs e else 0) = (\<Sum>i < length (edges g). ?f i)"
    by (simp add: sum_list_sum_nth atLeast0LessThan)
  also have "\<dots> = key_refs g k"
  proof (cases "map_of (edgeIndex g) k")
    case None
    have "?f i = 0" if "i < length (edges g)" for i
      using index_ok_None[OF ix None, of i] that by (auto simp: live_at_def)
    then show ?thesis using None by (simp add: key_refs_def)
  next
    case (Some j)
    then have j: "j < length (edges g)" "keyOf (edges g ! j) = k" "live_at (edges g) j"
      using index_ok_iff[OF ix, of k j] by (auto simp: live_at_def)
    have "?f i = 0" if "i < length (edges g)" "i \<noteq> j" for i
      using index_ok_inj[OF ix _ j(3), of i] that j by (auto simp: live_at_def)
    then have "(\<Sum>i < length (edges g). ?f i) = (\<Sum>i \<in> {j}. ?f i)"
      using j by (intro sum.mono_neutral_right) auto
    then show ?thesis using Some j by (simp add: key_refs_def)
  qed
  finally show ?thesis by simp
qed

text \<open>Edges and per-TU lists together.\<close>

lemma absorb_edges_laws:
  assumes wf: "wf_graph g" and sh: "wf_graph shard"
    and rm: "remap_ok (cgInterner shard) (cgInterner g) rm"
    and run: "fold (absorb_edge rm) (edges shard) ([], g) = (remap, h)"
  defines "h' \<equiv> fold (absorb_tu_edges rm remap) (tuEdges shard) h"
  shows "wf_graph h'" and "cgInterner h' = cgInterner g"
    and "valid_key (cgInterner shard) k \<Longrightarrow> key_refs h' (rkey rm k) = key_refs g (rkey rm k) + key_refs shard k"
    and "(\<And>k'. valid_key (cgInterner shard) k' \<Longrightarrow> rkey rm k' \<noteq> k) \<Longrightarrow> key_refs h' k = key_refs g k"
    and "valid_key (cgInterner shard) k \<Longrightarrow> valid_id (cgInterner shard) t \<Longrightarrow>
           tu_refs h' (rm t) (rkey rm k) = tu_refs g (rm t) (rkey rm k) + tu_refs shard t k"
    and "(\<And>t' k'. valid_key (cgInterner shard) k' \<Longrightarrow> valid_id (cgInterner shard) t' \<Longrightarrow>
             \<not> (rkey rm k' = k \<and> rm t' = t)) \<Longrightarrow> tu_refs h' t k = tu_refs g t k"
proof -
  let ?es = "edges shard" and ?te = "tuEdges shard" and ?S = "cgInterner shard"
  note W = wf_graphD[OF wf] and Z = wf_graphD[OF sh]
  have A: "edges_absorbed rm ?es g remap h"
    by (rule edges_absorbed_all[OF wf rm _ run]) (use Z(5) in \<open>simp add: ids_ok_def\<close>)
  note D = edges_absorbedD[OF A]
  have bk: "backing_ok ?te ?es" and ix: "index_ok (edgeIndex shard) ?es" using Z(2) by (auto simp: edge_inv_def)
  have distte: "distinct (ukeys ?te)" using bk by (simp add: backing_ok_def)
  have pl: "live_at ?es i" if "p \<in> set ?te" "i \<in> set (snd p)" for p i
    using backing_ok_live[OF bk, of i "fst p"] ulist_in_set[OF distte, of "fst p" "snd p"] that by simp
  have range: "set (snd p) \<subseteq> {..<length remap}" if "p \<in> set ?te" for p
    using pl[OF that] D(3) by (auto simp: live_at_def)
  have distg: "distinct (ukeys (tuEdges h))" using D(7) W(2) by (simp add: edge_inv_def backing_ok_def)
  have F: "h' = h\<lparr>tuEdges := tuEdges h'\<rparr> \<and> distinct (ukeys (tuEdges h'))
       \<and> ulist (tuEdges h') u = ulist (tuEdges h) u @
           concat (map (\<lambda>p. if rm (fst p) = u then List.map_filter (\<lambda>i. remap ! i) (snd p) else []) ?te)
       \<and> ucount (tuEdges h') j = ucount (tuEdges h) j + sent ?es remap (ucount ?te) j" for u j
    unfolding h'_def by (rule absorb_tu_edges_fold[OF distg range])
  have fr: "h' = h\<lparr>tuEdges := tuEdges h'\<rparr>" using F by blast
  have fields: "edges h' = edges h" "edgeIndex h' = edgeIndex h" "cgInterner h' = cgInterner h"
    by (subst fr, simp)+
  have kr: "key_refs h' k = key_refs h k" for k using fields by (simp add: key_refs_def cong: option.case_cong)
  show "cgInterner h' = cgInterner g" using fields D(2) by simp
  have valid_live: "valid_key ?S (keyOf (?es ! i))" if "i < length ?es" for i
    using Z(5) nth_mem[OF that] by (auto simp: ids_ok_def edge_valid_def valid_key_def keyOf_def)
  have backing: "backing_ok (tuEdges h') (edges h')"
    unfolding backing_ok_def
  proof (intro conjI allI)
    show "distinct (ukeys (tuEdges h'))" using F by blast
    fix j
    have "ucount ?te i \<le> refs (?es ! i)" if "i < length remap" for i
      using bk that D(3) unfolding backing_ok_def refs_at_def by (metis)
    then have "sent ?es remap (ucount ?te) j \<le> sent ?es remap (\<lambda>i. refs (?es ! i)) j" by (rule sent_mono)
    moreover have "ucount (tuEdges g) j \<le> refs_at (edges g) j" using W(2) by (simp add: edge_inv_def backing_ok_def)
    moreover have "ucount (tuEdges h') j = ucount (tuEdges h) j + sent ?es remap (ucount ?te) j" using F by blast
    ultimately show "ucount (tuEdges h') j \<le> refs_at (edges h') j" using D(5)[of j] D(7) fields by simp
  qed
  have inv: "edge_inv h'"
  proof -
    have "edge_inv (h\<lparr>tuEdges := te\<rparr>)" if "backing_ok te (edges h)" for te
      using wf_graphD(2)[OF D(1)] that by (simp add: edge_inv_def)
    then show ?thesis using backing fields fr by metis
  qed
  have ul: "ulist (tuEdges h') u = ulist (tuEdges h) u @
       concat (map (\<lambda>p. if rm (fst p) = u then List.map_filter (\<lambda>i. remap ! i) (snd p) else []) ?te)" for u
    using F[of u] by blast
  have te_valid: "valid_id ?S (fst p)" if "p \<in> set ?te" "snd p \<noteq> []" for p
    using Z(5) that ulist_in_set[OF distte, of "fst p" "snd p"] by (simp add: ids_ok_def)
  show "wf_graph h'"
  proof (rule wf_edgesI[OF D(1) inv])
    show "edge_valid (cgInterner h) e" if "e \<in> set (edges h')" for e
      using wf_graphD(5)[OF D(1)] that fields by (simp add: ids_ok_def)
    show "h' = h\<lparr>edges := edges h', edgeIndex := edgeIndex h', outEdges := outEdges h',
        inEdges := inEdges h', tuEdges := tuEdges h', liveEdgeCount := liveEdgeCount h'\<rparr>"
      by (subst (1 2 3 4 5 7) fr) simp
    fix u assume ne: "ulist (tuEdges h') u \<noteq> []"
    show "valid_id (cgInterner h) u"
    proof (cases "ulist (tuEdges h) u = []")
      case False
      then show ?thesis using wf_graphD(5)[OF D(1)] by (simp add: ids_ok_def)
    next
      case True
      with ne ul[of u] obtain p where p: "p \<in> set ?te" "rm (fst p) = u"
        "List.map_filter (\<lambda>i. remap ! i) (snd p) \<noteq> []"
        by (auto split: if_splits)
      then have "snd p \<noteq> []" by (auto simp: List.map_filter_simps)
      with p show ?thesis using te_valid remap_okD(1)[OF rm] D(2) by metis
    qed
  qed
  have es_valid: "valid_key ?S (keyOf e)" if "e \<in> set ?es" for e
    using Z(5) that by (auto simp: ids_ok_def edge_valid_def valid_key_def keyOf_def)
  show "key_refs h' (rkey rm k) = key_refs g (rkey rm k) + key_refs shard k" if k: "valid_key ?S k"
  proof -
    have "(\<Sum>e \<leftarrow> ?es. if rkey rm (keyOf e) = rkey rm k then refs e else 0)
        = (\<Sum>e \<leftarrow> ?es. if keyOf e = k then refs e else 0)"
      using es_valid rkey_inj[OF rm _ k] by (intro arg_cong[of _ _ sum_list] map_cong) auto
    then show ?thesis using kr D(6)[of "rkey rm k"] key_refs_sum[OF Z(2)] by simp
  qed
  show "key_refs h' k = key_refs g k" if "\<And>k'. valid_key ?S k' \<Longrightarrow> rkey rm k' \<noteq> k"
  proof -
    have "(\<Sum>e \<leftarrow> ?es. if rkey rm (keyOf e) = k then refs e else 0) = (\<Sum>e \<leftarrow> ?es. 0)"
      using that es_valid by (intro arg_cong[of _ _ sum_list] map_cong) auto
    then show ?thesis using kr D(6)[of k] by simp
  qed
  have tr: "tu_refs h' u K = tu_refs g u K +
      (\<Sum>p \<leftarrow> ?te. if rm (fst p) = u then length (filter (\<lambda>i. rkey rm (keyOf (?es ! i)) = K) (snd p)) else 0)"
    for u K
  proof -
    have old: "keyOf (edges h ! i) = keyOf (edges g ! i)" if "i \<in> set (ulist (tuEdges g) u)" for i
      using D(9)[of i] backing_ok_live[of "tuEdges g" "edges g" i u] W(2) that
      by (auto simp: edge_inv_def live_at_def)
    have new: "length (filter (\<lambda>j. keyOf (edges h ! j) = K) (List.map_filter (\<lambda>i. remap ! i) (snd p)))
        = length (filter (\<lambda>i. rkey rm (keyOf (?es ! i)) = K) (snd p))" if "p \<in> set ?te" for p
      using D(4) pl[OF that] by (intro filter_map_filter_length) metis
    have "length (filter (\<lambda>j. keyOf (edges h ! j) = K) (ulist (tuEdges g) u)) = tu_refs g u K"
      unfolding tu_refs_def using old by (auto intro!: arg_cong[of _ _ length] filter_cong)
    moreover have "length (filter (\<lambda>j. keyOf (edges h ! j) = K)
          (concat (map (\<lambda>p. if rm (fst p) = u then List.map_filter (\<lambda>i. remap ! i) (snd p) else []) ps)))
        = (\<Sum>p \<leftarrow> ps. if rm (fst p) = u then length (filter (\<lambda>i. rkey rm (keyOf (?es ! i)) = K) (snd p)) else 0)"
      if "set ps \<subseteq> set ?te" for ps
      using that new by (induction ps) auto
    ultimately show ?thesis using D(7) fields by (simp add: tu_refs_def ul)
  qed
  have nonzero: "valid_id ?S t' \<and> (\<exists>i \<in> set v. valid_key ?S (keyOf (?es ! i)) \<and> rkey rm (keyOf (?es ! i)) = K)"
    if "(t', v) \<in> set ?te" "length (filter (\<lambda>i. rkey rm (keyOf (?es ! i)) = K) v) \<noteq> 0" for t' v K
  proof -
    from that(2) obtain i where i: "i \<in> set v" "rkey rm (keyOf (?es ! i)) = K"
      by (auto simp: filter_empty_conv)
    then have "i < length ?es" using pl[OF that(1)] by (simp add: live_at_def)
    then show ?thesis using i valid_live te_valid[OF that(1)] by (cases v) auto
  qed
  show "tu_refs h' (rm t) (rkey rm k) = tu_refs g (rm t) (rkey rm k) + tu_refs shard t k"
    if k: "valid_key ?S k" and t: "valid_id ?S t"
  proof -
    let ?f = "\<lambda>t' v. if rm t' = rm t then length (filter (\<lambda>i. rkey rm (keyOf (?es ! i)) = rkey rm k) v) else 0"
    have "(\<Sum>p \<leftarrow> ?te. ?f (fst p) (snd p)) = ?f t (ulist ?te t)"
    proof (rule sum_list_single[OF distte])
      fix t' v assume "(t', v) \<in> set ?te" "?f t' v \<noteq> 0"
      then show "t' = t" using nonzero[of t' v "rkey rm k"] remap_ok_inj[OF rm _ t] by (auto split: if_splits)
    qed simp
    moreover have "filter (\<lambda>i. rkey rm (keyOf (?es ! i)) = rkey rm k) (ulist ?te t)
        = filter (\<lambda>i. keyOf (?es ! i) = k) (ulist ?te t)"
      using rkey_inj[OF rm _ k] valid_live backing_ok_live[OF bk, of _ t]
      by (intro filter_cong) (auto simp: live_at_def)
    ultimately show ?thesis using tr[of "rm t" "rkey rm k"] by (simp add: tu_refs_def)
  qed
  show "tu_refs h' t k = tu_refs g t k"
    if none: "\<And>t' k'. valid_key ?S k' \<Longrightarrow> valid_id ?S t' \<Longrightarrow> \<not> (rkey rm k' = k \<and> rm t' = t)"
  proof -
    have "(\<Sum>p \<leftarrow> ?te. if rm (fst p) = t then length (filter (\<lambda>i. rkey rm (keyOf (?es ! i)) = k) (snd p)) else 0)
        = (\<Sum>p \<leftarrow> ?te. 0)"
    proof (intro arg_cong[of _ _ sum_list] map_cong refl)
      fix p assume p: "p \<in> set ?te"
      show "(if rm (fst p) = t then length (filter (\<lambda>i. rkey rm (keyOf (?es ! i)) = k) (snd p)) else 0) = 0"
        using nonzero[of "fst p" "snd p" k] none p by (metis (no_types, lifting) prod.collapse)
    qed
    then show ?thesis using tr[of t k] by simp
  qed
qed

subsection \<open>Relations\<close>

lemma wf_touch:
  assumes wf: "wf_graph g"
  shows "wf_graph (g\<lparr>derivedClasses := AList.update k (ulist (derivedClasses g) k) (derivedClasses g)\<rparr>)"
    and "wf_graph (g\<lparr>effectiveImplClasses := AList.update k (ulist (effectiveImplClasses g) k) (effectiveImplClasses g)\<rparr>)"
proof -
  have "edge_part (g\<lparr>derivedClasses := x\<rparr>) = edge_part g"
    "edge_part (g\<lparr>effectiveImplClasses := x\<rparr>) = edge_part g" for x by (simp_all add: edge_part_def)
  note ec = this[THEN edge_part_cong(1)]
  show "wf_graph (g\<lparr>derivedClasses := AList.update k (ulist (derivedClasses g) k) (derivedClasses g)\<rparr>)"
    "wf_graph (g\<lparr>effectiveImplClasses := AList.update k (ulist (effectiveImplClasses g) k) (effectiveImplClasses g)\<rparr>)"
    using wf ec by (simp_all add: wf_graph_def nodes_ok_def nodes_ok_with_def relations_ok_def ids_ok_def rel_keys_ok_def del: rel_of_iff)
qed

text \<open>One row of a relation of the shard, merged by \<open>ins\<close> for each of its elements.\<close>

lemma same_edges_row:
  assumes rm: "remap_ok (cgInterner shard) (cgInterner g) rm" and wf: "wf_graph g"
    and v: "pairs_valid (cgInterner shard) (rel_of m)" and d: "distinct (ukeys m)" and p: "p \<in> set m"
    and ins: "\<And>a b h. wf_graph h \<Longrightarrow> valid_id (cgInterner h) a \<Longrightarrow> valid_id (cgInterner h) b \<Longrightarrow> same_edges h (ins a b h)"
  shows "same_edges g (fold (\<lambda>x. ins (rm (fst p)) (rm x)) (snd p) g)"
proof (rule same_edges_fold[OF wf])
  fix x h assume x: "x \<in> set (snd p)" and h: "wf_graph h" "cgInterner h = cgInterner g"
  have "(fst p, x) \<in> rel_of m" using x ulist_in_set[OF d, of "fst p" "snd p"] p by simp
  then have "valid_id (cgInterner shard) (fst p)" "valid_id (cgInterner shard) x"
    using v by (auto simp: pairs_valid_def)
  then show "same_edges h (ins (rm (fst p)) (rm x) h)"
    using ins[OF h(1)] remap_okD(1)[OF rm] h(2) by simp
qed

lemma upush_new_fold:
  "fold (\<lambda>x h. h\<lparr>derivedClasses := upush_new a (f x) (derivedClasses h)\<rparr>) xs g
     = g\<lparr>derivedClasses := fold (\<lambda>x. upush_new a (f x)) xs (derivedClasses g)\<rparr>"
  by (induction xs arbitrary: g) simp_all

lemma uinsert_fold:
  "fold (\<lambda>x h. h\<lparr>effectiveImplClasses := uinsert a (f x) (effectiveImplClasses h)\<rparr>) xs g
     = g\<lparr>effectiveImplClasses := fold (\<lambda>x. uinsert a (f x)) xs (effectiveImplClasses g)\<rparr>"
  by (induction xs arbitrary: g) simp_all

definition absorb_derived :: "(sid \<Rightarrow> sid) \<Rightarrow> sid \<times> sid list \<Rightarrow> CallGraph \<Rightarrow> CallGraph" where
  "absorb_derived rm = (\<lambda>(base, vec) g.
     g\<lparr>derivedClasses := fold (\<lambda>d. upush_new (rm base) (rm d)) vec
          (AList.update (rm base) (ulist (derivedClasses g) (rm base)) (derivedClasses g))\<rparr>)"

definition absorb_impls :: "(sid \<Rightarrow> sid) \<Rightarrow> sid \<times> sid list \<Rightarrow> CallGraph \<Rightarrow> CallGraph" where
  "absorb_impls rm = (\<lambda>(impl, classes) g.
     g\<lparr>effectiveImplClasses := fold (\<lambda>cls. uinsert (rm impl) (rm cls)) classes
          (AList.update (rm impl) (ulist (effectiveImplClasses g) (rm impl)) (effectiveImplClasses g))\<rparr>)"

lemma absorb_relations_alt:
  "absorb_relations rm shard g =
     fold (\<lambda>p. fold (\<lambda>ret. relate_return (rm (fst p)) (rm ret)) (snd p)) (functionReturns shard)
       (fold (absorb_impls rm) (effectiveImplClasses shard)
         (fold (\<lambda>p. fold (\<lambda>ov. relate_override (rm (fst p)) (rm ov)) (snd p)) (methodOverrides shard)
           (fold (absorb_derived rm) (derivedClasses shard) g)))"
  by (simp add: absorb_relations_def absorb_derived_def absorb_impls_def Let_def case_prod_unfold)

lemma absorb_relations_same_edges:
  assumes wf: "wf_graph g" and sh: "wf_graph shard"
    and rm: "remap_ok (cgInterner shard) (cgInterner g) rm"
  shows "same_edges g (absorb_relations rm shard g)"
proof -
  have Z: "pairs_valid (cgInterner shard) (rel_of (methodOverrides shard))"
    "pairs_valid (cgInterner shard) (rel_of (functionReturns shard))"
    "pairs_valid (cgInterner shard) (rel_of (derivedClasses shard))"
    "pairs_valid (cgInterner shard) (rel_of (effectiveImplClasses shard))"
    and keys: "distinct (ukeys (derivedClasses shard))" "distinct (ukeys (methodOverrides shard))"
      "distinct (ukeys (effectiveImplClasses shard))" "distinct (ukeys (functionReturns shard))"
    using wf_graphD(5)[OF sh] by (simp_all add: ids_ok_def rel_keys_ok_def)
  have ep: "edge_part (h\<lparr>derivedClasses := x\<rparr>) = edge_part h"
    "edge_part (h\<lparr>effectiveImplClasses := x\<rparr>) = edge_part h" for h x by (simp_all add: edge_part_def)
  have ins: "same_edges h (relate_override a b h)" "same_edges h (relate_return a b h)"
    "same_edges h (h\<lparr>derivedClasses := upush_new a b (derivedClasses h)\<rparr>)"
    "same_edges h (h\<lparr>effectiveImplClasses := uinsert a b (effectiveImplClasses h)\<rparr>)"
    if "wf_graph h" "valid_id (cgInterner h) a" "valid_id (cgInterner h) b" for h a b
    using wf_relate[OF that] ep by (simp_all add: same_edges_def) (simp_all add: relate_override_def relate_return_def)
  have 1: "same_edges h (absorb_derived rm p h)"
    if "p \<in> set (derivedClasses shard)" "wf_graph h" "cgInterner h = cgInterner g" for p h
  proof -
    let ?h1 = "h\<lparr>derivedClasses := AList.update (rm (fst p)) (ulist (derivedClasses h) (rm (fst p))) (derivedClasses h)\<rparr>"
    have t: "same_edges h ?h1" using wf_touch(1)[OF that(2)] ep by (simp add: same_edges_def)
    have "same_edges ?h1 (fold (\<lambda>x. (\<lambda>a b h. h\<lparr>derivedClasses := upush_new a b (derivedClasses h)\<rparr>) (rm (fst p)) (rm x)) (snd p) ?h1)"
      by (rule same_edges_row[OF _ _ Z(3) keys(1) that(1) ins(3)]) (use rm that(3) t in \<open>simp_all add: same_edges_def\<close>)
    then show ?thesis using same_edges_trans[OF t] by (simp add: absorb_derived_def case_prod_unfold upush_new_fold)
  qed
  have 3: "same_edges h (absorb_impls rm p h)"
    if "p \<in> set (effectiveImplClasses shard)" "wf_graph h" "cgInterner h = cgInterner g" for p h
  proof -
    let ?h1 = "h\<lparr>effectiveImplClasses := AList.update (rm (fst p)) (ulist (effectiveImplClasses h) (rm (fst p))) (effectiveImplClasses h)\<rparr>"
    have t: "same_edges h ?h1" using wf_touch(2)[OF that(2)] ep by (simp add: same_edges_def)
    have "same_edges ?h1 (fold (\<lambda>x. (\<lambda>a b h. h\<lparr>effectiveImplClasses := uinsert a b (effectiveImplClasses h)\<rparr>) (rm (fst p)) (rm x)) (snd p) ?h1)"
      by (rule same_edges_row[OF _ _ Z(4) keys(3) that(1) ins(4)]) (use rm that(3) t in \<open>simp_all add: same_edges_def\<close>)
    then show ?thesis using same_edges_trans[OF t] by (simp add: absorb_impls_def case_prod_unfold uinsert_fold)
  qed
  have 2: "same_edges h (fold (\<lambda>ov. relate_override (rm (fst p)) (rm ov)) (snd p) h)"
    if "p \<in> set (methodOverrides shard)" "wf_graph h" "cgInterner h = cgInterner g" for p h
    by (rule same_edges_row[OF _ that(2) Z(1) keys(2) that(1) ins(1)]) (use rm that(3) in simp_all)
  have 4: "same_edges h (fold (\<lambda>r. relate_return (rm (fst p)) (rm r)) (snd p) h)"
    if "p \<in> set (functionReturns shard)" "wf_graph h" "cgInterner h = cgInterner g" for p h
    by (rule same_edges_row[OF _ that(2) Z(2) keys(4) that(1) ins(2)]) (use rm that(3) in simp_all)
  have step: "same_edges g h \<Longrightarrow> same_edges g (fold F m h)"
    if "\<And>p h. p \<in> set m \<Longrightarrow> wf_graph h \<Longrightarrow> cgInterner h = cgInterner g \<Longrightarrow> same_edges h (F p h)" for F and m :: "(sid, sid list) umap" and h
    by (rule same_edges_trans, assumption, rule same_edges_fold) (use that in \<open>auto simp: same_edges_def\<close>)
  show ?thesis unfolding absorb_relations_alt
    by (rule step[OF 4], assumption+, rule step[OF 3], assumption+, rule step[OF 2], assumption+,
        rule step[OF 1], assumption+, rule same_edges_refl[OF wf])
qed

subsection \<open>The whole merge\<close>

lemma edge_refs_same:
  assumes "cgInterner h = cgInterner g" and "edge_part h = edge_part g"
  shows "edge_refs h sk = edge_refs g sk" and "tu_edge_refs h t sk = tu_edge_refs g t sk"
  using assms edge_part_cong(2,3)[OF assms(2)]
  by (simp_all add: edge_refs_def tu_edge_refs_def cong: option.case_cong)

lemma absorb_edge_refs:
  assumes wf: "wf_graph g" and sh: "wf_graph shard"
    and rm: "remap_ok (cgInterner shard) (cgInterner g) rm"
    and run: "fold (absorb_edge rm) (edges shard) ([], g) = (remap, h)"
  defines "h' \<equiv> fold (absorb_tu_edges rm remap) (tuEdges shard) h"
  shows "edge_refs h' sk = edge_refs g sk + edge_refs shard sk"
    and "tu_edge_refs h' t sk = tu_edge_refs g t sk + tu_edge_refs shard t sk"
proof -
  note A = absorb_edges_laws[OF wf sh rm run, folded h'_def]
  let ?S = "cgInterner shard" and ?I = "cgInterner g"
  have wS: "wf_interner ?S" and wI: "wf_interner ?I" using rm by (auto simp: remap_ok_def)
  have key: "id_key ?S sk = Some k" if "valid_key ?S k" "id_key ?I sk = Some (rkey rm k)" for k
  proof -
    have "str_key ?I (rkey rm k) = str_key ?S k"
      using that(1) remap_okD(2)[OF rm] by (cases k) (auto simp: str_key_def rkey_def valid_key_def)
    then show ?thesis using that wS wI by (simp add: id_key_iff)
  qed
  show "edge_refs h' sk = edge_refs g sk + edge_refs shard sk"
  proof (cases "id_key ?S sk")
    case (Some k)
    then have "valid_key ?S k" using wS by (simp add: id_key_iff)
    then show ?thesis using Some id_key_remap[OF rm Some] A(2,3) by (simp add: edge_refs_def)
  next
    case None
    have "key_refs h' K = key_refs g K" if "id_key ?I sk = Some K" for K
      by (rule A(4)) (use key that None in fastforce)
    then show ?thesis using None A(2) by (simp add: edge_refs_def split: option.split)
  qed
  show "tu_edge_refs h' t sk = tu_edge_refs g t sk + tu_edge_refs shard t sk"
  proof (cases "\<exists>i k. find_id ?S t = Some i \<and> id_key ?S sk = Some k")
    case True
    then obtain i k where ik: "find_id ?S t = Some i" "id_key ?S sk = Some k" by blast
    then have "valid_key ?S k" "valid_id ?S i" using wS by (simp_all add: id_key_iff find_id_iff)
    then show ?thesis using ik id_key_remap[OF rm ik(2)] remap_ok_find[OF rm ik(1)] A(2,5)
      by (simp add: tu_edge_refs_def)
  next
    case False
    have "tu_refs h' u K = tu_refs g u K" if "find_id ?I t = Some u" "id_key ?I sk = Some K" for u K
      by (rule A(6)) (use key remap_ok_find_iff[OF rm] that False in blast)
    moreover have "tu_edge_refs shard t sk = 0" using False by (auto simp: tu_edge_refs_def split: option.split)
    ultimately show ?thesis using A(2) by (simp add: tu_edge_refs_def split: option.split)
  qed
qed

lemma absorb_laws:
  assumes wf: "wf_graph g" and sh: "wf_graph shard"
    and room: "has_room (length (strings (cgInterner shard))) (cgInterner g)"
  shows "wf_graph (absorb shard g)"
    and "edge_refs (absorb shard g) sk = edge_refs g sk + edge_refs shard sk"
    and "tu_edge_refs (absorb shard g) t sk = tu_edge_refs g t sk + tu_edge_refs shard t sk"
    and "extends_interner (cgInterner g) (cgInterner (absorb shard g))"
proof -
  obtain ids J where ids: "intern_all (strings (cgInterner shard)) (cgInterner g) = (ids, J)" by fastforce
  define rm where "rm = (\<lambda>i. ids ! unat (i :: sid))"
  note R = intern_all_remap[OF wf_graphD(1)[OF sh] wf_graphD(1)[OF wf] room ids, folded rm_def]
  let ?g0 = "g\<lparr>cgInterner := J\<rparr>"
  define g1 where "g1 = fold (absorb_node rm shard) (nodes shard) ?g0"
  obtain remap g2 where run: "fold (absorb_edge rm) (edges shard) ([], g1) = (remap, g2)" by fastforce
  define g3 where "g3 = fold (absorb_tu_edges rm remap) (tuEdges shard) g2"
  have ab: "absorb shard g = absorb_relations rm shard g3"
    using run by (simp add: absorb_def ids rm_def[symmetric] g1_def g3_def Let_def)
  have wf0: "wf_graph ?g0" by (rule wf_graph_interner[OF wf R(2)])
  have S1: "same_edges ?g0 g1" unfolding g1_def by (rule absorb_nodes_same_edges[OF wf0 sh]) (simp add: R)
  then have wf1: "wf_graph g1" and rm1: "remap_ok (cgInterner shard) (cgInterner g1) rm"
    using R(1) by (simp_all add: same_edges_def)
  note A = absorb_edges_laws(1,2)[OF wf1 sh rm1 run, folded g3_def]
    and E = absorb_edge_refs[OF wf1 sh rm1 run, folded g3_def]
  have S3: "same_edges g3 (absorb_relations rm shard g3)"
    by (rule absorb_relations_same_edges[OF A(1) sh]) (simp add: A(2) rm1)
  have old: "edge_refs g1 sk = edge_refs g sk" "tu_edge_refs g1 t sk = tu_edge_refs g t sk"
    using S1 edge_refs_same[of g1 ?g0] edge_refs_interner[OF wf R(2)] by (simp_all add: same_edges_def)
  show "wf_graph (absorb shard g)" using S3 by (simp add: ab same_edges_def)
  show "edge_refs (absorb shard g) sk = edge_refs g sk + edge_refs shard sk"
    "tu_edge_refs (absorb shard g) t sk = tu_edge_refs g t sk + tu_edge_refs shard t sk"
    using S3 edge_refs_same[of "absorb_relations rm shard g3" g3] E old by (simp_all add: ab same_edges_def)
  show "extends_interner (cgInterner g) (cgInterner (absorb shard g))"
    using S3 A(2) S1 R(2) by (simp add: ab same_edges_def)
qed

end
