(* ===== verification/TuStore.thy ===== *)
theory TuStore
  imports VycorPrelude
begin

text \<open>
  The contract the three indexes share for incremental re-indexing.  A registration carries
  the translation unit it came from (the empty path means "untagged"); \<open>removes\<close> takes back
  the registrations of the given units.  \<open>inv n s\<close> says that \<open>s\<close> is well formed with room
  for \<open>n\<close> more registrations, \<open>total\<close> counts the registrations of a key and \<open>contrib\<close> those
  of one unit.  The consequence proved here once is what the incremental mode rests on:
  removing units is rebuilding without them.
\<close>

locale tu_store =
  fixes inv :: "nat \<Rightarrow> 's \<Rightarrow> bool"
    and add :: "'e \<Rightarrow> string \<Rightarrow> 's \<Rightarrow> 's"
    and removes :: "string list \<Rightarrow> 's \<Rightarrow> 's"
    and key :: "'e \<Rightarrow> 'k"
    and total :: "'s \<Rightarrow> 'k \<Rightarrow> nat"
    and contrib :: "'s \<Rightarrow> string \<Rightarrow> 'k \<Rightarrow> nat"
  assumes inv_add: "inv (Suc n) s \<Longrightarrow> inv n (add e t s)"
    and inv_removes: "inv n s \<Longrightarrow> inv n (removes ts s)"
    and total_add: "inv (Suc n) s \<Longrightarrow> total (add e t s) k = total s k + (if k = key e then 1 else 0)"
    and contrib_add: "inv (Suc n) s \<Longrightarrow>
          contrib (add e t s) u k = contrib s u k + (if t \<noteq> [] \<and> u = t \<and> k = key e then 1 else 0)"
    and total_removes: "inv n s \<Longrightarrow> total (removes ts s) k = total s k - (\<Sum>t \<in> set ts. contrib s t k)"
    and contrib_removes: "inv n s \<Longrightarrow> contrib (removes ts s) t k = (if t \<in> set ts then 0 else contrib s t k)"
begin

definition register :: "('e \<times> string) list \<Rightarrow> 's \<Rightarrow> 's" where
  "register regs s = fold (\<lambda>(e, t). add e t) regs s"

definition tagged_with :: "string \<Rightarrow> 'k \<Rightarrow> 'e \<times> string \<Rightarrow> bool" where
  "tagged_with u k p \<longleftrightarrow> snd p \<noteq> [] \<and> snd p = u \<and> key (fst p) = k"

lemma register_counts:
  assumes "inv (length regs + n) s"
  shows "inv n (register regs s)"
    and "total (register regs s) k = total s k + length (filter (\<lambda>p. key (fst p) = k) regs)"
    and "contrib (register regs s) u k = contrib s u k + length (filter (tagged_with u k) regs)"
proof -
  have "inv n (register regs s)
      \<and> total (register regs s) k = total s k + length (filter (\<lambda>p. key (fst p) = k) regs)
      \<and> contrib (register regs s) u k = contrib s u k + length (filter (tagged_with u k) regs)"
    using assms
  proof (induction regs arbitrary: s)
    case (Cons p regs)
    obtain e t where p: "p = (e, t)" by fastforce
    have inv: "inv (Suc (length regs + n)) s" using Cons.prems by simp
    have step: "register (p # regs) s = register regs (add e t s)" by (simp add: register_def p)
    from Cons.IH[OF inv_add[OF inv]] show ?case
      unfolding step by (auto simp: total_add[OF inv] contrib_add[OF inv] p tagged_with_def)
  qed (simp add: register_def)
  then show "inv n (register regs s)"
    "total (register regs s) k = total s k + length (filter (\<lambda>p. key (fst p) = k) regs)"
    "contrib (register regs s) u k = contrib s u k + length (filter (tagged_with u k) regs)" by blast+
qed

definition survives :: "string list \<Rightarrow> 'e \<times> string \<Rightarrow> bool" where
  "survives ts p \<longleftrightarrow> snd p = [] \<or> snd p \<notin> set ts"

lemma count_split:
  "length (filter (\<lambda>p. key (fst p) = k) regs) =
     length (filter (\<lambda>p. key (fst p) = k) (filter (survives ts) regs))
     + (\<Sum>t \<in> set ts. length (filter (tagged_with t k) regs))"
proof (induction regs)
  case (Cons p regs)
  have "(\<Sum>t \<in> set ts. length (filter (tagged_with t k) (p # regs)))
      = (\<Sum>t \<in> set ts. length (filter (tagged_with t k) regs)) +
        (\<Sum>t \<in> set ts. if t = snd p then (if snd p \<noteq> [] \<and> key (fst p) = k then 1 else 0) else 0)"
    unfolding sum.distrib[symmetric] by (intro sum.cong) (auto simp: tagged_with_def)
  with Cons show ?case by (auto simp: survives_def)
qed simp

lemma survivors_tagged:
  "filter (tagged_with u k) (filter (survives ts) regs) =
     (if u \<in> set ts then [] else filter (tagged_with u k) regs)"
proof -
  have "survives ts p \<and> tagged_with u k p \<longleftrightarrow> u \<notin> set ts \<and> tagged_with u k p" for p
    by (auto simp: survives_def tagged_with_def)
  then show ?thesis by simp
qed

lemma survivors_contrib:
  "length (filter (tagged_with u k) (filter (survives ts) regs)) =
     (if u \<in> set ts then 0 else length (filter (tagged_with u k) regs))"
  by (simp add: survivors_tagged del: filter_filter)

text \<open>Removing units equals rebuilding from the registrations that survive.\<close>

lemma remove_is_rebuild:
  assumes inv: "inv (length regs) s"
    and empty: "\<And>k. total s k = 0" "\<And>t k. contrib s t k = 0"
  shows "total (removes ts (register regs s)) k = total (register (filter (survives ts) regs) s) k"
    and "contrib (removes ts (register regs s)) u k = contrib (register (filter (survives ts) regs) s) u k"
proof -
  have a: "inv (length regs + 0) s" using inv by simp
  note A = register_counts[OF a]
  have "length (filter (survives ts) regs) + (length regs - length (filter (survives ts) regs)) = length regs"
    by (simp add: length_filter_le)
  then have b: "inv (length (filter (survives ts) regs) + (length regs - length (filter (survives ts) regs))) s"
    using inv by simp
  note B = register_counts[OF b]
  show "total (removes ts (register regs s)) k = total (register (filter (survives ts) regs) s) k"
    using count_split[of k regs ts] by (simp add: total_removes[OF A(1)] A(2,3) B(2) empty)
  show "contrib (removes ts (register regs s)) u k = contrib (register (filter (survives ts) regs) s) u k"
    by (simp add: contrib_removes[OF A(1)] A(3) B(3) empty survivors_contrib del: filter_filter)
qed

text \<open>
  A re-scan: the old registrations of the unit go, the new ones come.  The result does not
  depend on when the unit was first scanned.
\<close>

lemma rescan_is_rebuild:
  assumes inv: "inv (length regs + length fresh) s"
    and empty: "\<And>k. total s k = 0" "\<And>t k. contrib s t k = 0"
  shows "total (register fresh (removes [t] (register regs s))) k =
         total (register (filter (survives [t]) regs @ fresh) s) k"
proof -
  note inv = inv
  have "inv (length fresh) (register regs s)" by (rule register_counts(1)[OF inv])
  from inv_removes[OF this, of "[t]"] have r: "inv (length fresh + 0) (removes [t] (register regs s))" by simp
  have "length (filter (survives [t]) regs @ fresh) + (length regs - length (filter (survives [t]) regs))
      = length regs + length fresh" by (simp add: length_filter_le)
  then have b: "inv (length (filter (survives [t]) regs @ fresh) + (length regs - length (filter (survives [t]) regs))) s"
    using inv by (simp add: add.commute)
  show ?thesis
    using register_counts(2)[OF r] register_counts(2)[OF b] count_split[of k regs "[t]"]
      register_counts(2,3)[OF inv] register_counts(1)[OF inv]
    by (simp add: total_removes empty)
qed

end

text \<open>
  The contract of an index whose content is a log: registrations are appended in order, the
  removal of units filters the log and merging a shard appends the shard's log.  \<open>inv es s\<close>
  says that \<open>s\<close> is well formed with room for the registrations \<open>es\<close>, \<open>norm\<close> is what is stored
  of a registration and \<open>from\<close> tells which registrations a set of units owns.  The
  consequences proved here once: removing units is rebuilding without them, and scanning in
  shards is scanning in sequence.
\<close>

locale tu_log =
  fixes inv :: "'e list \<Rightarrow> 's \<Rightarrow> bool"
    and add :: "'e \<Rightarrow> 's \<Rightarrow> 's"
    and removes :: "string list \<Rightarrow> 's \<Rightarrow> 's"
    and merge :: "'s \<Rightarrow> 's \<Rightarrow> 's"
    and content :: "'s \<Rightarrow> 'e list"
    and norm :: "'e \<Rightarrow> 'e"
    and owned :: "string list \<Rightarrow> 'e \<Rightarrow> bool"
    and fits :: "'s \<Rightarrow> 's \<Rightarrow> bool"
  assumes inv_add: "inv (e # es) s \<Longrightarrow> inv es (add e s)"
    and content_add: "inv (e # es) s \<Longrightarrow> content (add e s) = content s @ [norm e]"
    and inv_filter: "inv es s \<Longrightarrow> inv (filter P es) s"
    and content_removes: "inv es s \<Longrightarrow> content (removes ts s) = filter (\<lambda>e. \<not> owned ts e) (content s)"
    and owned_norm: "owned ts (norm e) = owned ts e"
    and content_merge: "inv [] s \<Longrightarrow> inv [] shard \<Longrightarrow> fits shard s \<Longrightarrow>
          content (merge shard s) = content s @ content shard"
begin

definition register :: "'e list \<Rightarrow> 's \<Rightarrow> 's" where
  "register es s = fold add es s"

lemma register_content:
  assumes "inv es s"
  shows "inv [] (register es s)" and "content (register es s) = content s @ map norm es"
proof -
  have "inv [] (register es s) \<and> content (register es s) = content s @ map norm es"
    using assms
  proof (induction es arbitrary: s)
    case (Cons e es)
    have "register (e # es) s = register es (add e s)" by (simp add: register_def)
    with Cons.IH[OF inv_add[OF Cons.prems]] show ?case by (simp add: content_add[OF Cons.prems])
  qed (simp add: register_def)
  then show "inv [] (register es s)" "content (register es s) = content s @ map norm es" by blast+
qed

lemma remove_is_rebuild:
  assumes "inv es s" and "content s = []"
  shows "content (removes ts (register es s)) = content (register (filter (\<lambda>e. \<not> owned ts e) es) s)"
proof -
  have "content (removes ts (register es s)) = filter (\<lambda>e. \<not> owned ts e) (map norm es)"
    by (simp add: content_removes[OF register_content(1)[OF assms(1)]] register_content(2)[OF assms(1)] assms(2))
  also have "\<dots> = map norm (filter (\<lambda>e. \<not> owned ts e) es)" by (simp add: filter_map comp_def owned_norm)
  also have "\<dots> = content (register (filter (\<lambda>e. \<not> owned ts e) es) s)"
    by (simp add: register_content(2)[OF inv_filter[OF assms(1)]] assms(2))
  finally show ?thesis .
qed

lemma merge_is_register:
  assumes "inv (es @ fs) s" and "inv es s" and "inv fs sh" and "content sh = []"
    and "fits (register fs sh) (register es s)"
  shows "content (merge (register fs sh) (register es s)) = content (register (es @ fs) s)"
  using content_merge[OF register_content(1)[OF assms(2)] register_content(1)[OF assms(3)] assms(5)]
  by (simp add: register_content(2)[OF assms(1)] register_content(2)[OF assms(2)] register_content(2)[OF assms(3)] assms(4))

end

text \<open>
  The inversion of a per-unit index that the snapshot writer does for edges and for channel sites: from
  the list of positions of each unit to the list of units of each live position, a unit as often as it
  is registered.
\<close>

definition invert_units :: "(nat \<Rightarrow> bool) \<Rightarrow> ('t, nat list) umap \<Rightarrow> (nat, 't list) umap" where
  "invert_units live m =
     fold (\<lambda>(t, idxs). fold (\<lambda>idx r. if live idx then upush idx t r else r) idxs) m []"

lemma ulist_invert_units:
  "ulist (invert_units live m) i = concat (map (\<lambda>(t, idxs). if live i then replicate (count_list idxs i) t else []) m)"
  for m :: "('t, nat list) umap"
proof -
  have row: "ulist (fold (\<lambda>idx r. if live idx then upush idx t r else r) idxs r) i
      = ulist r i @ (if live i then replicate (count_list idxs i) t else [])" for t :: 't and idxs r
    by (induction idxs arbitrary: r) (simp_all add: umap_simps replicate_app_Cons_same)
  have "ulist (fold (\<lambda>(t, idxs). fold (\<lambda>idx r. if live idx then upush idx t r else r) idxs) te r) i
      = ulist r i @ concat (map (\<lambda>(t, idxs). if live i then replicate (count_list idxs i) t else []) te)"
    for te :: "('t, nat list) umap" and r
    by (induction te arbitrary: r) (auto simp: row)
  then show ?thesis by (simp add: invert_units_def)
qed

lemma length_invert_units: "live i \<Longrightarrow> length (ulist (invert_units live m) i) = ucount m i"
  by (simp add: ulist_invert_units length_concat ucount_def comp_def case_prod_beta)

lemma count_invert_units:
  fixes m :: "('t, nat list) umap"
  assumes "distinct (ukeys m)" and "live i"
  shows "count_list (ulist (invert_units live m) i) t = count_list (ulist m t) i"
proof -
  have "count_list (concat (map (\<lambda>(t', idxs). replicate (count_list idxs i) t') te)) t = count_list (ulist te t) i"
    if "distinct (ukeys te)" for te :: "('t, nat list) umap"
    using that
  proof (induction te)
    case (Cons p te)
    obtain t' idxs where p: "p = (t', idxs)" by fastforce
    have rep: "count_list (replicate n a) b = (if a = b then n else 0)" for n and a b :: 't
      by (induction n) auto
    have "ulist te t' = []" using Cons.prems p by (intro ulist_dom_or_Nil) simp
    moreover have "ulist (p # te) t = (if t = t' then idxs else ulist te t)" by (simp add: p ulist_def)
    ultimately show ?case using Cons by (auto simp: p rep)
  qed simp
  then show ?thesis using assms by (simp add: ulist_invert_units)
qed

lemma in_invert_units: "distinct (ukeys m) \<Longrightarrow> t \<in> set (ulist (invert_units live m) i) \<Longrightarrow> i \<in> set (ulist m t)"
  by (auto simp: ulist_invert_units ulist_in_set count_list_0_iff split: if_splits)

end
