(* ===== verification/CallGraphProps.thy ===== *)
theory CallGraphProps
  imports CallGraphAbsorb TuStore
begin

text \<open>
  The graphs the program can build, as an inductive set closed under every mutator of
  \<open>CallGraph\<close>, and the properties of that set: the global invariant, the agreement of the two
  call queries, name resolution, provenance, compaction and merging.
\<close>

subsection \<open>The graphs that can be built\<close>

inductive built :: "CallGraph \<Rightarrow> bool" where
  empty: "built empty_graph"
| addNode: "built g \<Longrightarrow> has_room 3 (cgInterner g) \<Longrightarrow> built (addNode n t g)"
| addEdge: "built g \<Longrightarrow> has_room 4 (cgInterner g) \<Longrightarrow> built (addEdge e t g)"
| addDerivedClass: "built g \<Longrightarrow> has_room 2 (cgInterner g) \<Longrightarrow> built (addDerivedClass x y g)"
| addMethodOverride: "built g \<Longrightarrow> has_room 2 (cgInterner g) \<Longrightarrow> built (addMethodOverride x y g)"
| addEffectiveImpl: "built g \<Longrightarrow> has_room 2 (cgInterner g) \<Longrightarrow> built (addEffectiveImpl x y g)"
| addFunctionReturn: "built g \<Longrightarrow> has_room 2 (cgInterner g) \<Longrightarrow> built (addFunctionReturn x y g)"
| absorb: "built g \<Longrightarrow> built shard \<Longrightarrow> has_room (length (strings (cgInterner shard))) (cgInterner g) \<Longrightarrow>
           built (absorb shard g)"
| removeTUs: "built g \<Longrightarrow> built (snd (removeTUs ts g))"
| compact: "built g \<Longrightarrow> built (compact g)"

lemma built_invariant: "built g \<Longrightarrow> wf_graph g"
  by (induction rule: built.induct)
    (auto intro: wf_graph_empty wf_addNode addEdge_laws wf_add_relation absorb_laws wf_removeTUs compact_laws)

text \<open>A table with few strings has room; the concrete examples use this bound.\<close>

definition small_table :: "interner \<Rightarrow> bool" where
  "small_table I \<longleftrightarrow> length (strings I) \<le> 50"

lemma small_table_room: "small_table I \<Longrightarrow> n \<le> 50 \<Longrightarrow> has_room n I"
  by (simp add: small_table_def has_room_def)

lemma built_small:
  assumes "built g" and "small_table (cgInterner g)"
  shows "built (addNode n t g)" and "built (addEdge e t g)" and "built (addMethodOverride x y g)"
    and "built (addDerivedClass x y g)" and "built (addFunctionReturn x y g)"
  using assms by (auto intro!: built.intros small_table_room)

subsection \<open>Names and ids\<close>

lemma wf_resolveUsrIds_valid:
  assumes wf: "wf_graph g" and "i \<in> set (resolveUsrIds g n)"
  shows "valid_id (cgInterner g) i"
proof -
  have nok: "names_ok (cgInterner g) (nodes g) (byName g)"
    using wf_graphD(3)[OF wf] by (simp add: nodes_ok_def nodes_ok_with_def)
  have "valid_id (cgInterner g) i" if "i \<in> set (ulist (byName g) j)" for j
    using names_okD(4)[OF nok, of i] names_okD(6)[OF nok, of i j] that by blast
  moreover have "valid_id (cgInterner g) j" if "find_id (cgInterner g) n = Some j" for j
    using that find_id_iff[OF wf_graphD(1)[OF wf]] by blast
  ultimately show ?thesis using assms(2)
    by (cases "find_id (cgInterner g) n") (auto simp: resolveUsrIds_def split: if_splits)
qed

lemma call_reaches_valid:
  assumes wf: "wf_graph g" and "call_reaches g a b s"
  shows "valid_id (cgInterner g) a" and "valid_id (cgInterner g) b" and "valid_id (cgInterner g) s"
proof -
  obtain e where e: "live_edge g e" "seCaller e = a" "seCallSite e = s" "b \<in> edge_targets g e"
    using assms(2) by (auto simp: call_reaches_def)
  have ids: "ids_ok g" by (rule wf_graphD(5)[OF wf])
  then have v: "edge_valid (cgInterner g) e" using e(1) by (auto simp: ids_ok_def live_edge_def)
  then show "valid_id (cgInterner g) a" "valid_id (cgInterner g) s" using e by (auto simp: edge_valid_def)
  have callee: "valid_id (cgInterner g) (seCallee e)" using v by (simp add: edge_valid_def)
  have rets: "pairs_valid (cgInterner g) (rel_of (functionReturns g))"
    and ovs: "pairs_valid (cgInterner g) (rel_of (methodOverrides g))" using ids by (simp_all add: ids_ok_def)
  have "valid_id (cgInterner g) x" if "(seCallee e, x) \<in> (rel_of (methodOverrides g))\<^sup>*" for x
    using that by (induction rule: rtrancl_induct) (use callee ovs in \<open>auto simp: pairs_valid_def\<close>)
  moreover have "valid_id (cgInterner g) x" if "x \<in> set (ulist (functionReturns g) y)" for x y
    using rets that unfolding pairs_valid_def by (metis case_prodD rel_of_iff)
  ultimately show "valid_id (cgInterner g) b"
    using e(4) callee unfolding edge_targets_def by (auto split: if_splits)
qed

lemma resolve_eq:
  assumes "wf_graph g" and "valid_id (cgInterner g) i" and "valid_id (cgInterner g) j"
  shows "resolve (cgInterner g) i = resolve (cgInterner g) j \<longleftrightarrow> i = j"
  using resolve_inj[OF wf_graphD(1)[OF assms(1)] assms(2,3)] .

text \<open>A reported edge as the triple of caller USR, callee USR and call site.\<close>

definition call_triple :: "CallGraphEdge \<Rightarrow> string \<times> string \<times> string" where
  "call_triple e = (callerUsr e, calleeUsr e, callSite e)"

lemma call_triple_materialize:
  "call_triple (materialize g r) = (resolve (cgInterner g) (refCaller r),
     resolve (cgInterner g) (refCallee r), resolve (cgInterner g) (refCallSite r))"
  by (simp add: call_triple_def materialize_def)

lemma calleesOf_triples:
  assumes wf: "wf_graph g"
  shows "call_triple ` set (calleesOf g n) =
     {(resolve (cgInterner g) a, resolve (cgInterner g) b, resolve (cgInterner g) s) | a b s.
        a \<in> set (resolveUsrIds g n) \<and> call_reaches g a b s}" (is "_ = ?R")
proof -
  note E = calleeRefsOf_spec[OF wf_graphD(2)[OF wf]]
  have row: "call_triple ` materialize g ` set (calleeRefsOf g a) =
      {(resolve (cgInterner g) a, resolve (cgInterner g) b, resolve (cgInterner g) s) | b s. call_reaches g a b s}" for a
  proof -
    have a: "refCaller r = a" if "r \<in> set (calleeRefsOf g a)" for r
      using E(2)[OF that] by (metis expand_ref_simps(1))
    have "call_triple ` materialize g ` set (calleeRefsOf g a)
        = (\<lambda>(b, s). (resolve (cgInterner g) a, resolve (cgInterner g) b, resolve (cgInterner g) s)) `
            calleeKey ` set (calleeRefsOf g a)"
      unfolding image_image by (rule image_cong) (simp_all add: call_triple_materialize a)
    also have "\<dots> = {(resolve (cgInterner g) a, resolve (cgInterner g) b, resolve (cgInterner g) s) | b s. call_reaches g a b s}"
      unfolding E(1) by auto
    finally show ?thesis .
  qed
  have "call_triple ` set (calleesOf g n) = (\<Union>a \<in> set (resolveUsrIds g n). call_triple ` materialize g ` set (calleeRefsOf g a))"
    by (auto simp: calleesOf_def)
  then show ?thesis unfolding row by auto
qed

lemma callersOf_triples:
  assumes wf: "wf_graph g"
  shows "call_triple ` set (callersOf g n) =
     {(resolve (cgInterner g) a, resolve (cgInterner g) b, resolve (cgInterner g) s) | a b s.
        b \<in> set (resolveUsrIds g n) \<and> call_reaches g a b s}"
proof -
  note E = callerRefsOf_spec[OF wf_graphD(2,4)[OF wf]]
  have row: "call_triple ` materialize g ` set (callerRefsOf g b) =
      {(resolve (cgInterner g) a, resolve (cgInterner g) b, resolve (cgInterner g) s) | a s. call_reaches g a b s}" for b
  proof -
    have b: "refCallee r = b" if "r \<in> set (callerRefsOf g b)" for r
      using E(2)[OF that] by (metis expand_ref_simps(2))
    have "call_triple ` materialize g ` set (callerRefsOf g b)
        = (\<lambda>(a, s). (resolve (cgInterner g) a, resolve (cgInterner g) b, resolve (cgInterner g) s)) `
            callerKey ` set (callerRefsOf g b)"
      unfolding image_image by (rule image_cong) (simp_all add: call_triple_materialize b)
    also have "\<dots> = {(resolve (cgInterner g) a, resolve (cgInterner g) b, resolve (cgInterner g) s) | a s. call_reaches g a b s}"
      unfolding E(1) by auto
    finally show ?thesis .
  qed
  have "call_triple ` set (callersOf g n) = (\<Union>b \<in> set (resolveUsrIds g n). call_triple ` materialize g ` set (callerRefsOf g b))"
    by (auto simp: callersOf_def)
  then show ?thesis unfolding row by auto
qed

text \<open>The names a query string stands for.\<close>

lemma usrsForName_iff:
  assumes wf: "wf_graph g" and v: "valid_id (cgInterner g) i"
  shows "resolve (cgInterner g) i \<in> set (usrsForName g n) \<longleftrightarrow> i \<in> set (resolveUsrIds g n)"
  using wf_resolveUsrIds_valid[OF wf] resolve_eq[OF wf v] by (auto simp: usrsForName_def)

subsection \<open>The properties\<close>

text \<open>Concrete graphs for the witnesses.\<close>

definition demo_node :: "string \<Rightarrow> string \<Rightarrow> CallGraphNode" where
  "demo_node u q = \<lparr>qualifiedName = q, nodeFile = ''a.cpp'', nodeLine = 3, isEntryPoint = False,
     isVirtual = True, enclosingClass = ''A'', usr = u\<rparr>"

definition demo_edge :: "string \<Rightarrow> string \<Rightarrow> EdgeKind \<Rightarrow> CallGraphEdge" where
  "demo_edge a b k = \<lparr>callerName = a, calleeName = b, kind = k, confidence = Plausible,
     callSite = ''m.cpp:7'', indirectionDepth = 0, execContext = Synchronous, callerUsr = a, calleeUsr = b\<rparr>"

definition demo :: CallGraph where
  "demo = addEdge (demo_edge ''u:main'' ''u:f'' VirtualDispatch) ''m.cpp''
            (addMethodOverride ''u:f'' ''u:g''
              (addNode (demo_node ''u:g'' ''B::f'') ''b.cpp''
                (addNode (demo_node ''u:f'' ''A::f'') ''a.cpp'' empty_graph)))"

definition demo_shard :: CallGraph where
  "demo_shard = addEdge (demo_edge ''u:main'' ''u:f'' VirtualDispatch) ''n.cpp''
                  (addNode (demo_node ''u:f'' ''A::f'') ''n.cpp'' empty_graph)"

lemma built_demo: "built demo"
  unfolding demo_def
  by (rule built_small built.empty)+ (code_simp+)

lemma built_demo_shard: "built demo_shard"
  unfolding demo_shard_def
  by (rule built_small built.empty)+ (code_simp+)



text \<open>C3: \<open>calleesOf\<close> and \<open>callersOf\<close> are dual: the calls from \<open>x\<close> that the callee query reports
  into the functions named \<open>y\<close> are the calls the caller query of \<open>y\<close> reports from the functions
  named \<open>x\<close>, through virtual dispatch and deferred function returns alike.\<close>

theorem callees_callers_dual:
  assumes "built g"
  shows "{t \<in> call_triple ` set (calleesOf g x). fst (snd t) \<in> set (usrsForName g y)}
       = {t \<in> call_triple ` set (callersOf g y). fst t \<in> set (usrsForName g x)}"
proof -
  note wf = built_invariant[OF assms]
  have "resolve (cgInterner g) a \<in> set (usrsForName g x) \<longleftrightarrow> a \<in> set (resolveUsrIds g x)"
    "resolve (cgInterner g) b \<in> set (usrsForName g y) \<longleftrightarrow> b \<in> set (resolveUsrIds g y)"
    if "call_reaches g a b s" for a b s
    using usrsForName_iff[OF wf] call_reaches_valid[OF wf that] by auto
  then show ?thesis unfolding calleesOf_triples[OF wf] callersOf_triples[OF wf] by fastforce
qed

theorem callees_callers_dual_witness:
  "{t \<in> call_triple ` set (calleesOf demo ''u:main''). fst (snd t) \<in> set (usrsForName demo ''u:g'')}
       = {t \<in> call_triple ` set (callersOf demo ''u:g''). fst t \<in> set (usrsForName demo ''u:main'')}
   \<and> call_triple ` set (callersOf demo ''u:g'') = {(''u:main'', ''u:g'', ''m.cpp:7'')}"
  by (rule conjI[OF callees_callers_dual[OF built_demo]]) code_simp

text \<open>C4: The callee query reports exactly the calls of the graph: the stored callee of every live
  edge, every transitive override of it when the edge is a plausible virtual dispatch, and the
  returned functions instead of it when the edge defers to a function-return row.\<close>

theorem calleesOf_exact:
  assumes "built g"
  shows "call_triple ` set (calleesOf g n) =
     {(resolve (cgInterner g) a, resolve (cgInterner g) b, resolve (cgInterner g) s) | a b s.
        a \<in> set (resolveUsrIds g n) \<and> call_reaches g a b s}"
  by (rule calleesOf_triples[OF built_invariant[OF assms]])

theorem calleesOf_exact_witness:
  "call_triple ` set (calleesOf demo ''u:main'') =
     {(resolve (cgInterner demo) a, resolve (cgInterner demo) b, resolve (cgInterner demo) s) | a b s.
        a \<in> set (resolveUsrIds demo ''u:main'') \<and> call_reaches demo a b s}
   \<and> map calleeUsr (calleesOf demo ''u:main'') = [''u:f'', ''u:g'']"
  by (rule conjI[OF calleesOf_exact[OF built_demo]]) code_simp

text \<open>The call graph is a provenance store in the sense of \<open>TuStore\<close>.\<close>

definition graph_room :: "nat \<Rightarrow> CallGraph \<Rightarrow> bool" where
  "graph_room n g \<longleftrightarrow> wf_graph g \<and> has_room (4 * n) (cgInterner g)"

definition drop_units :: "string list \<Rightarrow> CallGraph \<Rightarrow> CallGraph" where
  "drop_units ts g = snd (removeTUs ts g)"

lemma has_room_4: "has_room (4 * Suc n) I \<Longrightarrow> has_room 4 I \<and> has_room (4 * n + 4) I"
  by (simp add: has_room_def)

interpretation cg: tu_store graph_room addEdge drop_units skey_of edge_refs tu_edge_refs
proof
  fix n g e t ts u k
  assume "graph_room (Suc n) g"
  then have wf: "wf_graph g" and room: "has_room 4 (cgInterner g)" "has_room (4 * n + 4) (cgInterner g)"
    using has_room_4[of n "cgInterner g"] by (simp_all add: graph_room_def)
  note L = addEdge_laws[OF wf room(1)]
  show "graph_room n (addEdge e t g)" using L(1) addEdge_room[OF room(2)] by (simp add: graph_room_def)
  show "edge_refs (addEdge e t g) k = edge_refs g k + (if k = skey_of e then 1 else 0)" by (rule L(2))
  show "tu_edge_refs (addEdge e t g) u k =
      tu_edge_refs g u k + (if t \<noteq> [] \<and> u = t \<and> k = skey_of e then 1 else 0)" by (rule L(3))
next
  fix n g ts t k
  assume "graph_room n g"
  then have wf: "wf_graph g" and room: "has_room (4 * n) (cgInterner g)" by (simp_all add: graph_room_def)
  show "graph_room n (drop_units ts g)" using wf_removeTUs[OF wf] room by (simp add: graph_room_def drop_units_def)
  show "edge_refs (drop_units ts g) k = edge_refs g k - (\<Sum>t \<in> set ts. tu_edge_refs g t k)"
    "tu_edge_refs (drop_units ts g) t k = (if t \<in> set ts then 0 else tu_edge_refs g t k)"
    unfolding drop_units_def by (rule removeTUs_laws[OF wf])+
qed

definition register_edges :: "(CallGraphEdge \<times> string) list \<Rightarrow> CallGraph \<Rightarrow> CallGraph" where
  "register_edges regs g = fold (\<lambda>(e, t). addEdge e t) regs g"

lemma register_edges_store: "cg.register = register_edges"
  by (simp add: cg.register_def register_edges_def fun_eq_iff)

lemma graph_room_empty: "4 * n \<le> 2 ^ 32 \<Longrightarrow> graph_room n empty_graph"
  by (simp add: graph_room_def wf_graph_empty has_room_def) (simp add: empty_graph_def empty_interner_def)

lemma refs_empty: "edge_refs empty_graph k = 0" "tu_edge_refs empty_graph t k = 0"
  by (simp_all add: edge_refs_def tu_edge_refs_def id_key_def empty_graph_def find_id_def empty_interner_def
      split: prod.split)

text \<open>C2: Removing translation units is rebuilding without them: after any sequence of edge
  registrations, \<open>removeTUs\<close> leaves every edge with the registration count it would have if only
  the untagged registrations and those of other units had been made, so exactly the edges the
  removed units alone contributed are gone.\<close>

theorem removeTUs_rebuilds:
  assumes "4 * length regs \<le> 2 ^ 32"
  shows "edge_refs (snd (removeTUs ts (register_edges regs empty_graph))) k =
         edge_refs (register_edges (filter (\<lambda>(e, t). t = [] \<or> t \<notin> set ts) regs) empty_graph) k"
proof -
  have "cg.survives ts = (\<lambda>(e, t). t = [] \<or> t \<notin> set ts)" by (auto simp: cg.survives_def)
  then show ?thesis
    using cg.remove_is_rebuild(1)[OF graph_room_empty[OF assms] refs_empty, of ts k]
    by (simp add: register_edges_store drop_units_def)
qed

definition demo_regs :: "(CallGraphEdge \<times> string) list" where
  "demo_regs = [(demo_edge ''u:a'' ''u:b'' DirectCall, ''a.cpp''), (demo_edge ''u:a'' ''u:b'' DirectCall, ''b.cpp''),
     (demo_edge ''u:a'' ''u:c'' DirectCall, ''b.cpp'')]"

theorem removeTUs_rebuilds_witness:
  "edge_refs (snd (removeTUs [''b.cpp''] (register_edges demo_regs empty_graph))) (skey_of (demo_edge ''u:a'' ''u:b'' DirectCall)) =
   edge_refs (register_edges (filter (\<lambda>(e, t). t = [] \<or> t \<notin> set [''b.cpp'']) demo_regs) empty_graph)
     (skey_of (demo_edge ''u:a'' ''u:b'' DirectCall))
   \<and> edge_refs (snd (removeTUs [''b.cpp''] (register_edges demo_regs empty_graph))) (skey_of (demo_edge ''u:a'' ''u:b'' DirectCall)) = 1"
  by (rule conjI[OF removeTUs_rebuilds]) (simp add: demo_regs_def, code_simp)

lemma edgeCount_keys:
  assumes wf: "wf_graph g"
  shows "edgeCount g = card {k. edge_refs g k > 0}"
proof -
  let ?L = "{i. live_at (edges g) i}" and ?f = "\<lambda>i. str_key (cgInterner g) (keyOf (edges g ! i))"
  have inv: "edge_inv g" and wfI: "wf_interner (cgInterner g)" using wf_graphD[OF wf] by auto
  have ix: "index_ok (edgeIndex g) (edges g)" using inv by (simp add: edge_inv_def)
  have live: "valid_key (cgInterner g) (keyOf (edges g ! i)) \<and> key_refs g (keyOf (edges g ! i)) > 0"
    if "live_at (edges g) i" for i
  proof -
    have "map_of (edgeIndex g) (keyOf (edges g ! i)) = Some i" using index_ok_iff[OF ix] that by blast
    then have "key_refs g (keyOf (edges g ! i)) > 0" using that by (simp add: key_refs_def live_at_def)
    then show ?thesis using key_refs_valid[OF wf] by blast
  qed
  have "inj_on ?f ?L"
  proof (rule inj_onI, unfold mem_Collect_eq)
    fix i j assume ij: "live_at (edges g) i" "live_at (edges g) j" "?f i = ?f j"
    then have "keyOf (edges g ! i) = keyOf (edges g ! j)"
      using live[OF ij(1)] live[OF ij(2)] id_key_iff[OF wfI] by (metis option.inject)
    then show "i = j" using index_ok_inj[OF ix ij(1,2)] by blast
  qed
  moreover have "?f ` ?L = {k. edge_refs g k > 0}"
  proof (intro set_eqI iffI)
    fix k assume "k \<in> ?f ` ?L"
    then obtain i where i: "live_at (edges g) i" "k = ?f i" by blast
    then have "id_key (cgInterner g) k = Some (keyOf (edges g ! i))" using live[OF i(1)] id_key_iff[OF wfI] by blast
    then show "k \<in> {k. edge_refs g k > 0}" using live[OF i(1)] by (simp add: edge_refs_def)
  next
    fix k assume "k \<in> {k. edge_refs g k > 0}"
    then obtain x where x: "id_key (cgInterner g) k = Some x" "key_refs g x > 0"
      by (auto simp: edge_refs_def split: option.splits)
    then obtain i where i: "map_of (edgeIndex g) x = Some i" by (auto simp: key_refs_def split: option.splits)
    then have "live_at (edges g) i \<and> keyOf (edges g ! i) = x" using index_ok_iff[OF ix] by blast
    then show "k \<in> ?f ` ?L" using x(1) id_key_iff[OF wfI] by (intro image_eqI[of _ _ i]) auto
  qed
  ultimately have "card {k. edge_refs g k > 0} = card ?L" by (metis card_image)
  then show ?thesis using inv by (simp add: edgeCount_def edge_inv_def)
qed

text \<open>\<open>edgeCount\<close> is the number of distinct edges with a live registration, and \<open>removeTUs\<close>
  returns exactly how many of them it made disappear.\<close>

theorem edgeCount_removed:
  assumes "built g"
  shows "edgeCount g = card {k. edge_refs g k > 0}
       \<and> fst (removeTUs ts g) = edgeCount g - edgeCount (snd (removeTUs ts g))"
  using edgeCount_keys removeTUs_edges(4) wf_graphD(2) built_invariant[OF assms] by blast

theorem edgeCount_removed_witness:
  "(edgeCount demo = card {k. edge_refs demo k > 0}
       \<and> fst (removeTUs [''m.cpp''] demo) = edgeCount demo - edgeCount (snd (removeTUs [''m.cpp''] demo)))
   \<and> fst (removeTUs [''m.cpp''] demo) = 1"
  by (rule conjI[OF edgeCount_removed[OF built_demo]]) code_simp

text \<open>Compaction is invisible: every query answers as before, in the same order, and no tombstoned
  edge is left.\<close>

theorem compact_invisible:
  assumes "built g"
  shows "calleesOf (compact g) n = calleesOf g n \<and> callersOf (compact g) n = callersOf g n
       \<and> storedInDegree (compact g) n = storedInDegree g n \<and> findNode (compact g) n = findNode g n
       \<and> edgeCount (compact g) = edgeCount g \<and> edge_refs (compact g) k = edge_refs g k
       \<and> tu_edge_refs (compact g) t k = tu_edge_refs g t k
       \<and> length (edges (compact g)) = edgeCount g"
proof -
  note wf = built_invariant[OF assms]
  note inv = wf_graphD(2)[OF wf]
  have deg: "storedInDegree_id h i = length (live_in h i)" if "edge_inv h" for h i
  proof -
    have count: "fold (\<lambda>idx count. if refs (edges h ! idx) > 0 then Suc count else count) idxs c
      = c + length (filter (\<lambda>e. refs e > 0) (map ((!) (edges h)) idxs))" for idxs c
      by (induction idxs arbitrary: c) auto
    show ?thesis unfolding storedInDegree_id_def count map_inEdges[OF that]
      by (auto simp: live_in_def intro!: arg_cong[of _ _ length] filter_cong)
  qed
  have "storedInDegree (compact g) n = storedInDegree g n"
    unfolding storedInDegree_def resolveUsrIds_compact
    by (simp add: deg[OF inv] deg[OF compact_edges(1)[OF inv]] live_in_compact[OF inv])
  moreover have "findNode (compact g) n = findNode g n" by (simp add: findNode_def)
  moreover have "edgeCount (compact g) = edgeCount g" by (simp add: edgeCount_def)
  moreover have "length (edges (compact g)) = edgeCount g"
  proof -
    have "length (filter live (edges g)) = card {i. i < length (edges g) \<and> live (edges g ! i)}"
      by (rule length_filter_conv_card)
    then show ?thesis using inv by (simp add: compact_edges(2)[OF inv] edgeCount_def edge_inv_def live_at_live)
  qed
  moreover have "calleesOf (compact g) n = calleesOf g n" "callersOf (compact g) n = callersOf g n"
    by (simp_all add: calleesOf_def callersOf_def calleeRefsOf_compact[OF inv] callerRefsOf_compact[OF inv])
  ultimately show ?thesis using compact_laws(2,3)[OF wf] by blast
qed

definition demo_removed :: CallGraph where
  "demo_removed = snd (removeTUs [''m.cpp''] (addEdge (demo_edge ''u:g'' ''u:f'' DirectCall) ''k.cpp'' demo))"

lemma built_demo_removed: "built demo_removed"
  unfolding demo_removed_def
  by (rule built.removeTUs built_small built_demo)+ (code_simp+)

theorem compact_invisible_witness:
  "(calleesOf (compact demo_removed) ''u:g'' = calleesOf demo_removed ''u:g''
       \<and> callersOf (compact demo_removed) ''u:g'' = callersOf demo_removed ''u:g''
       \<and> storedInDegree (compact demo_removed) ''u:g'' = storedInDegree demo_removed ''u:g''
       \<and> findNode (compact demo_removed) ''u:g'' = findNode demo_removed ''u:g''
       \<and> edgeCount (compact demo_removed) = edgeCount demo_removed
       \<and> edge_refs (compact demo_removed) (skey_of (demo_edge ''u:g'' ''u:f'' DirectCall))
           = edge_refs demo_removed (skey_of (demo_edge ''u:g'' ''u:f'' DirectCall))
       \<and> tu_edge_refs (compact demo_removed) ''k.cpp'' (skey_of (demo_edge ''u:g'' ''u:f'' DirectCall))
           = tu_edge_refs demo_removed ''k.cpp'' (skey_of (demo_edge ''u:g'' ''u:f'' DirectCall))
       \<and> length (edges (compact demo_removed)) = edgeCount demo_removed)
   \<and> length (edges demo_removed) = 2 \<and> edgeCount demo_removed = 1"
  by (rule conjI[OF compact_invisible[OF built_demo_removed]]) code_simp

text \<open>Merging a shard adds its registrations: by edge and by translation unit, the counts of the
  merged graph are the sums of the counts of the two, whatever ids the shard used.\<close>

theorem absorb_adds:
  assumes "built g" and "built shard" and "has_room (length (strings (cgInterner shard))) (cgInterner g)"
  shows "edge_refs (absorb shard g) k = edge_refs g k + edge_refs shard k
       \<and> tu_edge_refs (absorb shard g) t k = tu_edge_refs g t k + tu_edge_refs shard t k"
  using absorb_laws(2,3)[OF built_invariant[OF assms(1)] built_invariant[OF assms(2)] assms(3)] by blast

theorem absorb_adds_witness:
  "(edge_refs (absorb demo_shard demo) (skey_of (demo_edge ''u:main'' ''u:f'' VirtualDispatch))
     = edge_refs demo (skey_of (demo_edge ''u:main'' ''u:f'' VirtualDispatch))
       + edge_refs demo_shard (skey_of (demo_edge ''u:main'' ''u:f'' VirtualDispatch))
   \<and> tu_edge_refs (absorb demo_shard demo) ''n.cpp'' (skey_of (demo_edge ''u:main'' ''u:f'' VirtualDispatch))
     = tu_edge_refs demo ''n.cpp'' (skey_of (demo_edge ''u:main'' ''u:f'' VirtualDispatch))
       + tu_edge_refs demo_shard ''n.cpp'' (skey_of (demo_edge ''u:main'' ''u:f'' VirtualDispatch)))
   \<and> edge_refs (absorb demo_shard demo) (skey_of (demo_edge ''u:main'' ''u:f'' VirtualDispatch)) = 2"
  by (rule conjI[OF absorb_adds[OF built_demo built_demo_shard small_table_room]]) code_simp+

lemma allNodes_iff:
  assumes wf: "wf_graph g"
  shows "x \<in> set (allNodes g) \<longleftrightarrow> (\<exists>i. find_id (cgInterner g) (usr x) = Some i \<and> map_of (nodes g) i = Some x)"
    and "x \<in> set (allNodes g) \<Longrightarrow> find_id (cgInterner g) n = Some i \<Longrightarrow>
           x \<in> set (allNodes g) \<and> usr x = n \<longleftrightarrow> map_of (nodes g) i = Some x"
proof -
  have nok: "names_ok (cgInterner g) (nodes g) (byName g)"
    using wf_graphD(3)[OF wf] by (simp add: nodes_ok_def nodes_ok_with_def)
  note N = names_okD[OF nok] and F = find_id_iff[OF wf_graphD(1)[OF wf]]
  have in_all: "y \<in> set (allNodes g) \<longleftrightarrow> (\<exists>i. map_of (nodes g) i = Some y)" for y
    using N(1) by (force simp: allNodes_def)
  have id: "find_id (cgInterner g) (usr y) = Some i" if "map_of (nodes g) i = Some y" for i y
    using N(4)[OF that] F by simp
  show "x \<in> set (allNodes g) \<longleftrightarrow> (\<exists>i. find_id (cgInterner g) (usr x) = Some i \<and> map_of (nodes g) i = Some x)"
    using in_all id by blast
  show "x \<in> set (allNodes g) \<Longrightarrow> find_id (cgInterner g) n = Some i \<Longrightarrow>
           x \<in> set (allNodes g) \<and> usr x = n \<longleftrightarrow> map_of (nodes g) i = Some x"
    using in_all id N(4) F by (metis option.inject)
qed

lemma resolveUsrIds_cases:
  assumes wf: "wf_graph g"
  shows "i \<in> set (resolveUsrIds g n) \<longleftrightarrow>
     (\<exists>j. find_id (cgInterner g) n = Some j \<and>
        (if \<exists>x. map_of (nodes g) j = Some x then i = j
         else if \<exists>k x. map_of (nodes g) k = Some x \<and> qualifiedName x = n
              then \<exists>x. map_of (nodes g) i = Some x \<and> qualifiedName x = n
         else i = j))"
proof (cases "find_id (cgInterner g) n")
  case (Some j)
  have nok: "names_ok (cgInterner g) (nodes g) (byName g)"
    using wf_graphD(3)[OF wf] by (simp add: nodes_ok_def nodes_ok_with_def)
  have "find_id (cgInterner g) q = Some j \<longleftrightarrow> q = n" for q
    using Some find_id_iff[OF wf_graphD(1)[OF wf]] by metis
  then have mem: "k \<in> set (ulist (byName g) j) \<longleftrightarrow> (\<exists>x. map_of (nodes g) k = Some x \<and> qualifiedName x = n)" for k
    using names_okD(6)[OF nok, of k j] by simp
  have "ulist (byName g) j \<noteq> [] \<longleftrightarrow> (\<exists>k x. map_of (nodes g) k = Some x \<and> qualifiedName x = n)"
    using mem by (metis empty_iff list.set(1) list.set_intros(1) list.exhaust)
  then show ?thesis using Some mem[of i] by (simp add: resolveUsrIds_def) blast
qed (simp add: resolveUsrIds_def)

text \<open>A query name resolves to a USR first: a node with that USR hides every display name;
  otherwise the name stands for all the functions displayed under it; otherwise, when the string
  is only an edge endpoint, for itself; an unknown string for nothing.\<close>

theorem usrsForName_resolution:
  assumes "built g"
  shows "set (usrsForName g n) =
     (if \<exists>x \<in> set (allNodes g). usr x = n then {n}
      else if \<exists>x \<in> set (allNodes g). qualifiedName x = n
           then usr ` {x \<in> set (allNodes g). qualifiedName x = n}
      else if find_id (cgInterner g) n \<noteq> None then {n} else {})"
proof -
  note wf = built_invariant[OF assms]
  have nok: "names_ok (cgInterner g) (nodes g) (byName g)"
    using wf_graphD(3)[OF wf] by (simp add: nodes_ok_def nodes_ok_with_def)
  note N = names_okD[OF nok] and F = find_id_iff[OF wf_graphD(1)[OF wf]]
  have nd: "(\<exists>x \<in> set (allNodes g). P x) \<longleftrightarrow> (\<exists>k x. map_of (nodes g) k = Some x \<and> P x)" for P
    using N(1) by (force simp: allNodes_def)
  show ?thesis
  proof (cases "find_id (cgInterner g) n")
    case None
    then have "\<not> (\<exists>k x. map_of (nodes g) k = Some x \<and> (usr x = n \<or> qualifiedName x = n))"
      using N(4,5) F by (metis option.distinct(1))
    then show ?thesis using None nd by (auto simp: usrsForName_def resolveUsrIds_def)
  next
    case (Some j)
    have j: "resolve (cgInterner g) j = n" using Some F by blast
    have usr: "(\<exists>x \<in> set (allNodes g). usr x = n) \<longleftrightarrow> (\<exists>x. map_of (nodes g) j = Some x)"
      unfolding nd using N(4) F Some by (metis option.inject)
    let ?named = "\<exists>k x. map_of (nodes g) k = Some x \<and> qualifiedName x = n"
    have ids: "set (resolveUsrIds g n) =
        (if \<exists>x. map_of (nodes g) j = Some x then {j}
         else if ?named then {i. \<exists>x. map_of (nodes g) i = Some x \<and> qualifiedName x = n} else {j})"
      by (rule set_eqI, subst resolveUsrIds_cases[OF wf]) (auto simp: Some)
    have img: "resolve (cgInterner g) ` {i. \<exists>x. map_of (nodes g) i = Some x \<and> qualifiedName x = n}
        = usr ` {x \<in> set (allNodes g). qualifiedName x = n}"
    proof (intro set_eqI iffI)
      fix u assume "u \<in> resolve (cgInterner g) ` {i. \<exists>x. map_of (nodes g) i = Some x \<and> qualifiedName x = n}"
      then obtain i x where "map_of (nodes g) i = Some x" "qualifiedName x = n" "u = resolve (cgInterner g) i" by blast
      moreover from this N(4) have "u = usr x" by simp
      ultimately show "u \<in> usr ` {x \<in> set (allNodes g). qualifiedName x = n}" using nd[of "\<lambda>y. y = x"] by blast
    next
      fix u assume "u \<in> usr ` {x \<in> set (allNodes g). qualifiedName x = n}"
      then obtain x where x: "x \<in> set (allNodes g)" "qualifiedName x = n" "u = usr x" by blast
      then obtain i where "map_of (nodes g) i = Some x" using nd[of "\<lambda>y. y = x"] by blast
      moreover from this N(4) x have "u = resolve (cgInterner g) i" by simp
      ultimately show "u \<in> resolve (cgInterner g) ` {i. \<exists>x. map_of (nodes g) i = Some x \<and> qualifiedName x = n}"
        using x by blast
    qed
    have named: "?named \<longleftrightarrow> (\<exists>x \<in> set (allNodes g). qualifiedName x = n)" using nd by simp
    have set_usrs: "set (usrsForName g n) = resolve (cgInterner g) ` set (resolveUsrIds g n)" by (simp add: usrsForName_def)
    show ?thesis
      unfolding set_usrs ids usr using img j Some named by (simp split: if_split)
  qed
qed

theorem usrsForName_resolution_witness:
  "set (usrsForName demo ''A::f'') =
     (if \<exists>x \<in> set (allNodes demo). usr x = ''A::f'' then {''A::f''}
      else if \<exists>x \<in> set (allNodes demo). qualifiedName x = ''A::f''
           then usr ` {x \<in> set (allNodes demo). qualifiedName x = ''A::f''}
      else if find_id (cgInterner demo) ''A::f'' \<noteq> None then {''A::f''} else {})
   \<and> usrsForName demo ''A::f'' = [''u:f'']"
  by (rule conjI[OF usrsForName_resolution[OF built_demo]]) code_simp

text \<open>The loop of \<open>findNode\<close> keeps the least candidate.\<close>

definition least_candidate :: "('a \<Rightarrow> CallGraphNode option) \<Rightarrow> 'a list \<Rightarrow> CallGraphNode option \<Rightarrow> bool" where
  "least_candidate f ids best \<longleftrightarrow>
     (case best of None \<Rightarrow> \<forall>i \<in> set ids. f i = None
      | Some b \<Rightarrow> (\<exists>i \<in> set ids. f i = Some b) \<and> (\<forall>i \<in> set ids. \<forall>y. f i = Some y \<longrightarrow> usr b \<le> usr y))"

lemma least_candidate_fold:
  "least_candidate f ids
     (fold (\<lambda>i best. case f i of None \<Rightarrow> best
        | Some n \<Rightarrow> (case best of None \<Rightarrow> Some n | Some b \<Rightarrow> if usr n < usr b then Some n else best)) ids None)"
proof (induction ids rule: rev_induct)
  case (snoc i ids)
  then show ?case
    by (fastforce simp: least_candidate_def split: option.splits)
qed (simp add: least_candidate_def)

text \<open>\<open>findNode\<close> returns a registered node that the name denotes, the one with the least USR
  when several functions share the display name, and nothing exactly when no node has the name.\<close>

theorem findNode_least:
  assumes "built g"
  shows "case findNode g n of
     None \<Rightarrow> \<not> (\<exists>x \<in> set (allNodes g). usr x = n \<or> qualifiedName x = n)
   | Some x \<Rightarrow> x \<in> set (allNodes g) \<and> usr x \<in> set (usrsForName g n)
               \<and> (\<forall>y \<in> set (allNodes g). usr y \<in> set (usrsForName g n) \<longrightarrow> usr x \<le> usr y)"
proof -
  note wf = built_invariant[OF assms]
  have nok: "names_ok (cgInterner g) (nodes g) (byName g)"
    using wf_graphD(3)[OF wf] by (simp add: nodes_ok_def nodes_ok_with_def)
  note N = names_okD[OF nok]
  have all: "x \<in> set (allNodes g) \<longleftrightarrow> (\<exists>k. map_of (nodes g) k = Some x)" for x
    using N(1) by (force simp: allNodes_def)
  have den: "usr y \<in> set (usrsForName g n) \<longleftrightarrow> k \<in> set (resolveUsrIds g n)" if "map_of (nodes g) k = Some y" for k y
    using usrsForName_iff[OF wf, of k n] N(4)[OF that] by simp
  have L: "least_candidate (map_of (nodes g)) (resolveUsrIds g n) (findNode g n)"
    using least_candidate_fold[of "map_of (nodes g)" "resolveUsrIds g n"] by (simp add: findNode_def)
  have named: "usr y \<in> set (usrsForName g n) \<or> (\<exists>x \<in> set (allNodes g). usr x = n \<and> usr x \<in> set (usrsForName g n))"
    if "y \<in> set (allNodes g)" "usr y = n \<or> qualifiedName y = n" for y
    using that unfolding usrsForName_resolution[OF assms] by auto
  show ?thesis
  proof (cases "findNode g n")
    case None
    then have none: "\<forall>i \<in> set (resolveUsrIds g n). map_of (nodes g) i = None"
      using L by (simp add: least_candidate_def)
    have "usr y \<notin> set (usrsForName g n)" if "y \<in> set (allNodes g)" for y
      using that none den unfolding all by (metis option.distinct(1))
    then have "\<not> (usr y = n \<or> qualifiedName y = n)" if "y \<in> set (allNodes g)" for y
      using named[OF that] that by blast
    then show ?thesis using None by auto
  next
    case (Some x)
    then obtain i where i: "i \<in> set (resolveUsrIds g n)" "map_of (nodes g) i = Some x"
      and least: "\<And>i y. i \<in> set (resolveUsrIds g n) \<Longrightarrow> map_of (nodes g) i = Some y \<Longrightarrow> usr x \<le> usr y"
      using L by (auto simp: least_candidate_def)
    have "usr x \<le> usr y" if "y \<in> set (allNodes g)" "usr y \<in> set (usrsForName g n)" for y
    proof -
      obtain k where k: "map_of (nodes g) k = Some y" using \<open>y \<in> set (allNodes g)\<close> unfolding all by blast
      show ?thesis by (rule least[OF _ k]) (use den[OF k] that(2) in simp)
    qed
    moreover have "x \<in> set (allNodes g)" "usr x \<in> set (usrsForName g n)"
      using i den[OF i(2)] unfolding all by auto
    ultimately show ?thesis using Some by simp
  qed
qed

theorem findNode_least_witness:
  "(case findNode demo ''A::f'' of
     None \<Rightarrow> \<not> (\<exists>x \<in> set (allNodes demo). usr x = ''A::f'' \<or> qualifiedName x = ''A::f'')
   | Some x \<Rightarrow> x \<in> set (allNodes demo) \<and> usr x \<in> set (usrsForName demo ''A::f'')
               \<and> (\<forall>y \<in> set (allNodes demo). usr y \<in> set (usrsForName demo ''A::f'') \<longrightarrow> usr x \<le> usr y))
   \<and> map_option usr (findNode demo ''A::f'') = Some ''u:f''"
  by (rule conjI[OF findNode_least[OF built_demo]]) code_simp

definition contributors :: "CallGraph \<Rightarrow> string \<Rightarrow> string set" where
  "contributors g u =
     (case find_id (cgInterner g) u of None \<Rightarrow> {}
      | Some i \<Rightarrow> resolve (cgInterner g) ` set (ulist (nodeContributors g) i))"

lemma nodes_removeTUs:
  fixes g :: CallGraph and ts :: "string list"
  assumes wf: "wf_graph g"
  defines "tus \<equiv> List.map_filter (find_id (cgInterner g)) ts"
  shows "node_release (set tus) g (snd (removeTUs ts g)) UNIV"
proof -
  note W = wf_graphD[OF wf]
  obtain es ix oe ie te n where h: "snd (removeTUs ts g) = fold release_tu_nodes tus
       (g\<lparr>edges := es, edgeIndex := ix, outEdges := oe, inEdges := ie, tuEdges := te, liveEdgeCount := n\<rparr>)"
      (is "_ = fold _ _ ?g1")
    by (rule removeTUs_frame[OF W(2), of ts, folded tus_def]) (rule that; assumption)
  have "nodes_ok ?g1" using W(3) by (simp add: nodes_ok_def nodes_ok_with_def)
  then have "node_release (set tus) ?g1 (fold release_tu_nodes tus ?g1) UNIV" using release_all_nodes_ok by blast
  then show ?thesis unfolding h by (simp add: node_release_def)
qed

text \<open>\<open>removeTUs\<close> removes exactly the nodes all of whose contributing units were removed; a node
  without a recorded contributor, and one that another unit still contributes, stays as it was.\<close>

theorem removeTUs_nodes:
  assumes "built g"
  shows "x \<in> set (allNodes (snd (removeTUs ts g))) \<longleftrightarrow>
     x \<in> set (allNodes g) \<and> \<not> (contributors g (usr x) \<noteq> {} \<and> contributors g (usr x) \<subseteq> set ts)"
proof -
  note wf = built_invariant[OF assms]
  have wf': "wf_graph (snd (removeTUs ts g))" by (rule wf_removeTUs(1)[OF wf])
  let ?I = "cgInterner g" and ?tus = "List.map_filter (find_id (cgInterner g)) ts"
  have F: "find_id ?I s = Some i \<longleftrightarrow> valid_id ?I i \<and> resolve ?I i = s" for s i
    using find_id_iff[OF wf_graphD(1)[OF wf]] .
  note R = node_releaseD[OF nodes_removeTUs[OF wf, of ts]]
  show ?thesis
  proof (cases "find_id ?I (usr x)")
    case None
    then show ?thesis using allNodes_iff(1)[OF wf, of x] allNodes_iff(1)[OF wf', of x] R(1) by simp
  next
    case (Some i)
    let ?cs = "ulist (nodeContributors g) i"
    have valid: "valid_id ?I t" if "t \<in> set ?cs" for t
    proof -
      have "(i, t) \<in> rel_of (nodeContributors g)" using that by simp
      then show ?thesis using wf_graphD(5)[OF wf] unfolding ids_ok_def pairs_valid_def by blast
    qed
    have "t \<in> set ?tus \<longleftrightarrow> resolve ?I t \<in> set ts" if "t \<in> set ?cs" for t
      using valid[OF that] F by (auto simp: set_map_filter)
    then have "set ?cs \<subseteq> set ?tus \<longleftrightarrow> contributors g (usr x) \<subseteq> set ts"
      using Some by (auto simp: contributors_def)
    moreover have "?cs \<noteq> [] \<longleftrightarrow> contributors g (usr x) \<noteq> {}" using Some by (simp add: contributors_def)
    ultimately show ?thesis
      using allNodes_iff(1)[OF wf, of x] allNodes_iff(1)[OF wf', of x] R(1) R(3)[of i] Some by auto
  qed
qed

theorem removeTUs_nodes_witness:
  "(demo_node ''u:f'' ''A::f'' \<in> set (allNodes (snd (removeTUs [''a.cpp''] demo))) \<longleftrightarrow>
     demo_node ''u:f'' ''A::f'' \<in> set (allNodes demo)
     \<and> \<not> (contributors demo (usr (demo_node ''u:f'' ''A::f'')) \<noteq> {}
          \<and> contributors demo (usr (demo_node ''u:f'' ''A::f'')) \<subseteq> set [''a.cpp'']))
   \<and> map usr (allNodes (snd (removeTUs [''a.cpp''] demo))) = [''u:g'']"
  by (rule conjI[OF removeTUs_nodes[OF built_demo]]) code_simp

text \<open>\<open>getAllDerivedClasses\<close> lists exactly the classes reachable by one or more
  \<open>getDerivedClasses\<close> steps.\<close>

theorem getAllDerivedClasses_closure:
  assumes "built g"
  shows "set (getAllDerivedClasses g c) = {(x, y). y \<in> set (getDerivedClasses g x)}\<^sup>+ `` {c}"
proof -
  note wf = built_invariant[OF assms]
  let ?I = "cgInterner g" and ?R = "rel_of (derivedClasses g)" and ?S = "{(x, y). y \<in> set (getDerivedClasses g x)}"
  have F: "find_id ?I s = Some i \<longleftrightarrow> valid_id ?I i \<and> resolve ?I i = s" for s i
    using find_id_iff[OF wf_graphD(1)[OF wf]] .
  have v: "valid_id ?I a \<and> valid_id ?I b" if "(a, b) \<in> ?R" for a b
    using wf_graphD(5)[OF wf] that unfolding ids_ok_def pairs_valid_def by blast
  have S_iff: "(x, y) \<in> ?S \<longleftrightarrow> (\<exists>a b. (a, b) \<in> ?R \<and> resolve ?I a = x \<and> resolve ?I b = y)" for x y
  proof
    assume "(x, y) \<in> ?S"
    then obtain a where a: "find_id ?I x = Some a" "y \<in> resolve ?I ` set (ulist (derivedClasses g) a)"
      by (cases "find_id ?I x") (auto simp: getDerivedClasses_def)
    then obtain b where "b \<in> set (ulist (derivedClasses g) a)" "y = resolve ?I b" by blast
    then show "\<exists>a b. (a, b) \<in> ?R \<and> resolve ?I a = x \<and> resolve ?I b = y"
      using F[of x a] a(1) by (intro exI[of _ a] exI[of _ b]) simp
  next
    assume "\<exists>a b. (a, b) \<in> ?R \<and> resolve ?I a = x \<and> resolve ?I b = y"
    then obtain a b where ab: "(a, b) \<in> ?R" "resolve ?I a = x" "resolve ?I b = y" by blast
    then have "find_id ?I x = Some a" using F[of x a] v[OF ab(1)] by simp
    then show "(x, y) \<in> ?S" using ab by (auto simp: getDerivedClasses_def)
  qed
  have up: "(resolve ?I a, resolve ?I b) \<in> ?S\<^sup>+" if "(a, b) \<in> ?R\<^sup>+" for a b
    using that
  proof (induction rule: trancl_induct)
    case (base y)
    then have "(resolve ?I a, resolve ?I y) \<in> ?S" unfolding S_iff by blast
    then show ?case by (rule trancl.intros(1))
  next
    case (step y z)
    then have "(resolve ?I y, resolve ?I z) \<in> ?S" unfolding S_iff by blast
    with step.IH show ?case by (rule trancl.intros(2))
  qed
  have down: "\<exists>a b. (a, b) \<in> ?R\<^sup>+ \<and> resolve ?I a = x \<and> resolve ?I b = y" if "(x, y) \<in> ?S\<^sup>+" for x y
    using that
  proof (induction rule: trancl_induct)
    case (base y)
    then obtain a b where "(a, b) \<in> ?R" "resolve ?I a = x" "resolve ?I b = y" unfolding S_iff by blast
    then show ?case by (blast intro: trancl.intros(1))
  next
    case (step y z)
    then obtain a b where ab: "(a, b) \<in> ?R\<^sup>+" "resolve ?I a = x" "resolve ?I b = y" by blast
    obtain b' d where bd: "(b', d) \<in> ?R" "resolve ?I b' = y" "resolve ?I d = z"
      using step.hyps(2) unfolding S_iff by blast
    obtain d' where "(d', b) \<in> ?R" using tranclD2[OF ab(1)] by blast
    then have "valid_id ?I b" using v by blast
    then have "b' = b" using bd ab(3) v[OF bd(1)] resolve_eq[OF wf, of b' b] by simp
    then have "(a, d) \<in> ?R\<^sup>+" using ab(1) bd(1) by (auto intro: trancl.intros(2))
    then show ?case using ab(2) bd(3) by blast
  qed
  show ?thesis
  proof (cases "find_id ?I c")
    case None
    have "\<not> (\<exists>y. (c, y) \<in> ?S\<^sup>+)"
    proof
      assume "\<exists>y. (c, y) \<in> ?S\<^sup>+"
      then obtain y a b where "(a, b) \<in> ?R\<^sup>+" "resolve ?I a = c" using down by blast
      moreover from this(1) obtain d where "(a, d) \<in> ?R" by (meson tranclD)
      ultimately have "find_id ?I c = Some a" using F[of c a] v by simp
      with None show False by simp
    qed
    then show ?thesis using None by (auto simp: getAllDerivedClasses_def)
  next
    case (Some i)
    then have i: "valid_id ?I i" "resolve ?I i = c" using F by auto
    have "a = i" if ab: "(a, b) \<in> ?R\<^sup>+" "resolve ?I a = c" for a b
    proof -
      obtain d where "(a, d) \<in> ?R" using tranclD[OF ab(1)] by blast
      then have "valid_id ?I a" using v by blast
      then show ?thesis using ab(2) i resolve_eq[OF wf, of a i] by simp
    qed
    then have "y \<in> resolve ?I ` (?R\<^sup>+ `` {i}) \<longleftrightarrow> (c, y) \<in> ?S\<^sup>+" for y
      using up[of i] down[of c y] i by blast
    then show ?thesis using Some by (auto simp: getAllDerivedClasses_def derivedClosure_spec)
  qed
qed

definition demo_classes :: CallGraph where
  "demo_classes = addDerivedClass ''B'' ''A'' (addDerivedClass ''A'' ''C'' (addDerivedClass ''A'' ''B'' empty_graph))"

lemma built_demo_classes: "built demo_classes"
  unfolding demo_classes_def
  by (rule built_small built.empty)+ (code_simp+)

theorem getAllDerivedClasses_closure_witness:
  "set (getAllDerivedClasses demo_classes ''A'')
     = {(x, y). y \<in> set (getDerivedClasses demo_classes x)}\<^sup>+ `` {''A''}
   \<and> getAllDerivedClasses demo_classes ''A'' = [''B'', ''C'', ''A'']"
  by (rule conjI[OF getAllDerivedClasses_closure[OF built_demo_classes]]) code_simp

end
