(* ===== verification/ControlFlow.thy ===== *)
theory ControlFlow
  imports Interner
begin

text \<open>
  \<open>class ControlFlowIndex\<close> (include/vycor/callgraph/ControlFlowIndex.h,
  src/callgraph/ControlFlowIndex.cpp): one record per call site with the try/catch scopes, the
  conditional guards and the RAII locals around it, stored with interned ids and with the three
  kinds of sets shared through dedup tables.  A dedup key is the byte dump of a set; the host
  byte order of \<open>keyU32\<close> is taken little endian.  The mutex and the reserve hints have no
  sequential effect; the read-only load flag \<open>trackTu\<close> is the Boolean argument of
  \<open>insertStored\<close>.
\<close>

subsection \<open>Contexts\<close>

datatype RaiiKind = Lock | SmartPtr | OtherRaii

record RaiiLocal =
  typeName :: string
  varName :: string
  declLocation :: string
  raiiKind :: RaiiKind

record CatchHandlerInfo =
  caughtType :: string
  isCatchAll :: bool
  handlerLocation :: string
  bodySummary :: string

record TryCatchScope =
  tryLocation :: string
  enclosingFunction :: string
  handlers :: "CatchHandlerInfo list"
  nestingDepth :: "32 word"

datatype NoexceptSpec = NoSpec | Noexcept | NoexceptFalse | ThrowNone | UnknownSpec

record ConditionalGuard =
  conditionText :: string
  guardLocation :: string
  inTrueBranch :: bool
  isAssertion :: bool

record CallSiteContext =
  ctxCallerName :: string
  ctxCalleeName :: string
  ctxCallSite :: string
  ctxCallerUsr :: string
  ctxCalleeUsr :: string
  ctxTuPath :: string
  enclosingTryCatches :: "TryCatchScope list"
  enclosingGuards :: "ConditionalGuard list"
  callerNoexcept :: NoexceptSpec
  insideCatchBlock :: bool
  liveRaiiLocals :: "RaiiLocal list"

record StoredRaiiLocal =
  srTypeName :: sid
  srVarName :: sid
  srDeclLocation :: sid
  srKind :: RaiiKind

record StoredContext =
  scCaller :: sid
  scCallee :: sid
  scCallerDisplay :: sid
  scCalleeDisplay :: sid
  scSite :: sid
  scTuPath :: sid
  scScopeSet :: "32 word"
  scGuardSet :: "32 word"
  scRaiiSet :: "32 word"
  scCallerNoexcept :: NoexceptSpec
  scInsideCatchBlock :: bool
  scLive :: bool

definition kNoString :: sid where
  "kNoString = 0xFFFFFFFF"

subsection \<open>Set-table keys\<close>

definition keyU32 :: "32 word \<Rightarrow> string" where
  "keyU32 v = map (\<lambda>i. char_of (unat (drop_bit (8 * i) v))) [0, 1, 2, 3]"

definition keyStr :: "string \<Rightarrow> string" where
  "keyStr s = keyU32 (word_of_nat (length s)) @ s"

definition keyFlag :: "bool \<Rightarrow> string" where
  "keyFlag b = [char_of (if b then 1 else 0 :: nat)]"

definition handlerKey :: "CatchHandlerInfo \<Rightarrow> string" where
  "handlerKey h = keyStr (caughtType h) @ keyFlag (isCatchAll h) @ keyStr (handlerLocation h)
                  @ keyStr (bodySummary h)"

definition scopeKey :: "TryCatchScope \<Rightarrow> string" where
  "scopeKey scope =
     keyStr (tryLocation scope) @ keyStr (enclosingFunction scope) @ keyU32 (nestingDepth scope)
     @ keyU32 (word_of_nat (length (handlers scope))) @ concat (map handlerKey (handlers scope))"

definition scopeSetKey :: "TryCatchScope list \<Rightarrow> string" where
  "scopeSetKey scopes = fold (\<lambda>scope key. key @ scopeKey scope) scopes []"

definition guardKey :: "ConditionalGuard \<Rightarrow> string" where
  "guardKey g = keyStr (conditionText g) @ keyStr (guardLocation g) @ keyFlag (inTrueBranch g)
                @ keyFlag (isAssertion g)"

definition guardSetKey :: "ConditionalGuard list \<Rightarrow> string" where
  "guardSetKey guards = fold (\<lambda>g key. key @ guardKey g) guards []"

primrec raiiCode :: "RaiiKind \<Rightarrow> nat" where
  "raiiCode Lock = 0" | "raiiCode SmartPtr = 1" | "raiiCode OtherRaii = 2"

definition raiiKey :: "StoredRaiiLocal \<Rightarrow> string" where
  "raiiKey l = keyU32 (srTypeName l) @ keyU32 (srVarName l) @ keyU32 (srDeclLocation l)
               @ [char_of (raiiCode (srKind l))]"

definition raiiSetKey :: "StoredRaiiLocal list \<Rightarrow> string" where
  "raiiSetKey locals = fold (\<lambda>l key. key @ raiiKey l) locals []"

subsection \<open>The index\<close>

record ControlFlowIndex =
  cfInterner :: interner
  contexts :: "StoredContext list"
  scopeSets :: "TryCatchScope list list"
  guardSets :: "ConditionalGuard list list"
  raiiSets :: "StoredRaiiLocal list list"
  scopeSetIds :: "(string, 32 word) umap"
  guardSetIds :: "(string, 32 word) umap"
  raiiSetIds :: "(string, 32 word) umap"
  byCallee :: "(sid, nat list) umap"
  byCaller :: "(sid, nat list) umap"
  byCalleeDisplay :: "(sid, nat list) umap"
  byCallerDisplay :: "(sid, nat list) umap"
  bySite :: "(sid, nat list) umap"
  byTu :: "(sid, nat list) umap"
  noProvenance :: "nat list"
  liveCount :: nat

definition empty_index :: ControlFlowIndex where
  "empty_index =
     \<lparr>cfInterner = empty_interner, contexts = [], scopeSets = [[]], guardSets = [[]],
      raiiSets = [[]], scopeSetIds = [], guardSetIds = [], raiiSetIds = [], byCallee = [],
      byCaller = [], byCalleeDisplay = [], byCallerDisplay = [], bySite = [], byTu = [],
      noProvenance = [], liveCount = 0\<rparr>"

text \<open>The common body of \<open>internScopeSet\<close>, \<open>internGuardSet\<close> and \<open>internRaiiSet\<close>.\<close>

definition intern_set :: "string \<Rightarrow> 'a list \<Rightarrow> 'a list list \<times> (string, 32 word) umap \<Rightarrow>
    32 word \<times> 'a list list \<times> (string, 32 word) umap" where
  "intern_set key xs t =
     (case t of (tbl, ids) \<Rightarrow>
        if xs = [] then (0, tbl, ids)
        else (case map_of ids key of
                Some i \<Rightarrow> (i, tbl, ids)
              | None \<Rightarrow> (let i = word_of_nat (length tbl) in (i, tbl @ [xs], uemplace key i ids))))"

definition internScopeSet :: "string \<Rightarrow> TryCatchScope list \<Rightarrow> ControlFlowIndex \<Rightarrow> 32 word \<times> ControlFlowIndex" where
  "internScopeSet key xs s =
     (let (i, tbl, ids) = intern_set key xs (scopeSets s, scopeSetIds s)
      in (i, s\<lparr>scopeSets := tbl, scopeSetIds := ids\<rparr>))"

definition internGuardSet :: "string \<Rightarrow> ConditionalGuard list \<Rightarrow> ControlFlowIndex \<Rightarrow> 32 word \<times> ControlFlowIndex" where
  "internGuardSet key xs s =
     (let (i, tbl, ids) = intern_set key xs (guardSets s, guardSetIds s)
      in (i, s\<lparr>guardSets := tbl, guardSetIds := ids\<rparr>))"

definition internRaiiSet :: "string \<Rightarrow> StoredRaiiLocal list \<Rightarrow> ControlFlowIndex \<Rightarrow> 32 word \<times> ControlFlowIndex" where
  "internRaiiSet key xs s =
     (let (i, tbl, ids) = intern_set key xs (raiiSets s, raiiSetIds s)
      in (i, s\<lparr>raiiSets := tbl, raiiSetIds := ids\<rparr>))"

definition insertStored :: "StoredContext \<Rightarrow> bool \<Rightarrow> ControlFlowIndex \<Rightarrow> ControlFlowIndex" where
  \<comment> \<open>the ids, set indices and flags arrive as the record that is stored\<close>
  "insertStored c trackTu s =
     (let idx = length (contexts s);
          s1 = s\<lparr>byCallee := upush (scCallee c) idx (byCallee s),
                 byCaller := upush (scCaller c) idx (byCaller s),
                 byCalleeDisplay :=
                   (if scCalleeDisplay c \<noteq> scCallee c
                    then upush (scCalleeDisplay c) idx (byCalleeDisplay s) else byCalleeDisplay s),
                 byCallerDisplay :=
                   (if scCallerDisplay c \<noteq> scCaller c
                    then upush (scCallerDisplay c) idx (byCallerDisplay s) else byCallerDisplay s),
                 bySite := upush (scSite c) idx (bySite s)\<rparr>;
          s2 = (if \<not> trackTu then s1
                else if scTuPath c \<noteq> kNoString then s1\<lparr>byTu := upush (scTuPath c) idx (byTu s1)\<rparr>
                else s1\<lparr>noProvenance := noProvenance s1 @ [idx]\<rparr>)
      in s2\<lparr>contexts := contexts s2 @ [c\<lparr>scLive := True\<rparr>], liveCount := Suc (liveCount s2)\<rparr>)"

fun internRaiiLocals :: "RaiiLocal list \<Rightarrow> interner \<Rightarrow> StoredRaiiLocal list \<times> interner" where
  "internRaiiLocals [] I = ([], I)"
| "internRaiiLocals (l # ls) I =
     (let (t, I1) = intern (typeName l) I;
          (v, I2) = intern (varName l) I1;
          (d, I3) = intern (declLocation l) I2;
          (rest, I4) = internRaiiLocals ls I3
      in (\<lparr>srTypeName = t, srVarName = v, srDeclLocation = d, srKind = raiiKind l\<rparr> # rest, I4))"

definition intern_unless :: "bool \<Rightarrow> sid \<Rightarrow> string \<Rightarrow> interner \<Rightarrow> sid \<times> interner" where
  \<comment> \<open>\<open>s.empty() ? dflt : interner_.intern(s)\<close>\<close>
  "intern_unless e dflt s I = (if e then (dflt, I) else intern s I)"

definition addCallSiteContext :: "CallSiteContext \<Rightarrow> ControlFlowIndex \<Rightarrow> ControlFlowIndex" where
  "addCallSiteContext ctx s =
     (let (calleeDisplayId, I1) = intern (ctxCalleeName ctx) (cfInterner s);
          (callerDisplayId, I2) = intern (ctxCallerName ctx) I1;
          (calleeId, I3) = intern_unless (ctxCalleeUsr ctx = []) calleeDisplayId (ctxCalleeUsr ctx) I2;
          (callerId, I4) = intern_unless (ctxCallerUsr ctx = []) callerDisplayId (ctxCallerUsr ctx) I3;
          (siteId, I5) = intern (ctxCallSite ctx) I4;
          (tuId, I6) = intern_unless (ctxTuPath ctx = []) kNoString (ctxTuPath ctx) I5;
          (locals, I7) = internRaiiLocals (liveRaiiLocals ctx) I6;
          scopeK = (if enclosingTryCatches ctx = [] then [] else scopeSetKey (enclosingTryCatches ctx));
          guardK = (if enclosingGuards ctx = [] then [] else guardSetKey (enclosingGuards ctx));
          (scopeSet, s1) = internScopeSet scopeK (enclosingTryCatches ctx) (s\<lparr>cfInterner := I7\<rparr>);
          (guardSet, s2) = internGuardSet guardK (enclosingGuards ctx) s1;
          (raiiSet, s3) = internRaiiSet (raiiSetKey locals) locals s2
      in insertStored
           \<lparr>scCaller = callerId, scCallee = calleeId, scCallerDisplay = callerDisplayId,
            scCalleeDisplay = calleeDisplayId, scSite = siteId, scTuPath = tuId,
            scScopeSet = scopeSet, scGuardSet = guardSet, scRaiiSet = raiiSet,
            scCallerNoexcept = callerNoexcept ctx, scInsideCatchBlock = insideCatchBlock ctx,
            scLive = True\<rparr> True s3)"

subsection \<open>Queries\<close>

definition materializeContext :: "ControlFlowIndex \<Rightarrow> StoredContext \<Rightarrow> CallSiteContext" where
  "materializeContext s c =
     (let r = resolve (cfInterner s) in
      \<lparr>ctxCallerName = r (scCallerDisplay c), ctxCalleeName = r (scCalleeDisplay c),
       ctxCallSite = r (scSite c), ctxCallerUsr = r (scCaller c), ctxCalleeUsr = r (scCallee c),
       ctxTuPath = (if scTuPath c \<noteq> kNoString then r (scTuPath c) else []),
       enclosingTryCatches = scopeSets s ! unat (scScopeSet c),
       enclosingGuards = guardSets s ! unat (scGuardSet c),
       callerNoexcept = scCallerNoexcept c, insideCatchBlock = scInsideCatchBlock c,
       liveRaiiLocals =
         map (\<lambda>l. \<lparr>typeName = r (srTypeName l), varName = r (srVarName l),
                   declLocation = r (srDeclLocation l), raiiKind = srKind l\<rparr>)
           (raiiSets s ! unat (scRaiiSet c))\<rparr>)"

definition indicesFor :: "ControlFlowIndex \<Rightarrow> (sid, nat list) umap \<Rightarrow> (sid, nat list) umap \<Rightarrow> string \<Rightarrow> nat list option" where
  "indicesFor s usrMap displayMap name =
     (case find_id (cfInterner s) name of
        None \<Rightarrow> None
      | Some i \<Rightarrow> (case map_of usrMap i of
                    Some v \<Rightarrow> Some v
                  | None \<Rightarrow> map_of displayMap i))"

definition collect_live :: "ControlFlowIndex \<Rightarrow> (StoredContext \<Rightarrow> bool) \<Rightarrow> nat list \<Rightarrow> CallSiteContext list" where
  \<comment> \<open>the loop \<open>if (live && P) result.push_back(materialize(..))\<close>\<close>
  "collect_live s P idxs =
     fold (\<lambda>idx result. if scLive (contexts s ! idx) \<and> P (contexts s ! idx)
                        then result @ [materializeContext s (contexts s ! idx)] else result) idxs []"

definition contextsAtSite :: "ControlFlowIndex \<Rightarrow> string \<Rightarrow> CallSiteContext list" where
  "contextsAtSite s site =
     (case find_id (cfInterner s) site of
        None \<Rightarrow> []
      | Some i \<Rightarrow> (case map_of (bySite s) i of None \<Rightarrow> [] | Some v \<Rightarrow> collect_live s (\<lambda>_. True) v))"

fun first_live :: "ControlFlowIndex \<Rightarrow> (StoredContext \<Rightarrow> bool) \<Rightarrow> nat list \<Rightarrow> CallSiteContext option" where
  "first_live s P [] = None"
| "first_live s P (idx # idxs) =
     (if scLive (contexts s ! idx) \<and> P (contexts s ! idx)
      then Some (materializeContext s (contexts s ! idx)) else first_live s P idxs)"

definition contextAtSite :: "ControlFlowIndex \<Rightarrow> string \<Rightarrow> CallSiteContext option" where
  "contextAtSite s site =
     (case find_id (cfInterner s) site of
        None \<Rightarrow> None
      | Some i \<Rightarrow> (case map_of (bySite s) i of None \<Rightarrow> None | Some v \<Rightarrow> first_live s (\<lambda>_. True) v))"

definition contextAtSiteFor :: "ControlFlowIndex \<Rightarrow> string \<Rightarrow> string \<Rightarrow> CallSiteContext option" where
  \<comment> \<open>the caller-qualified overload of \<open>contextAtSite\<close>\<close>
  "contextAtSiteFor s site callerUsrOrName =
     (case find_id (cfInterner s) site of
        None \<Rightarrow> None
      | Some i \<Rightarrow>
          (case find_id (cfInterner s) callerUsrOrName of
             None \<Rightarrow> None
           | Some c \<Rightarrow>
               (case map_of (bySite s) i of
                  None \<Rightarrow> None
                | Some v \<Rightarrow> first_live s (\<lambda>e. scCaller e = c \<or> scCallerDisplay e = c) v)))"

definition contextsForCallee :: "ControlFlowIndex \<Rightarrow> string \<Rightarrow> CallSiteContext list" where
  "contextsForCallee s name =
     (case indicesFor s (byCallee s) (byCalleeDisplay s) name of
        None \<Rightarrow> [] | Some v \<Rightarrow> collect_live s (\<lambda>_. True) v)"

definition contextsForCaller :: "ControlFlowIndex \<Rightarrow> string \<Rightarrow> CallSiteContext list" where
  "contextsForCaller s name =
     (case indicesFor s (byCaller s) (byCallerDisplay s) name of
        None \<Rightarrow> [] | Some v \<Rightarrow> collect_live s (\<lambda>_. True) v)"

definition protectedCallsTo :: "ControlFlowIndex \<Rightarrow> string \<Rightarrow> CallSiteContext list" where
  "protectedCallsTo s name =
     (case indicesFor s (byCallee s) (byCalleeDisplay s) name of
        None \<Rightarrow> [] | Some v \<Rightarrow> collect_live s (\<lambda>c. scScopeSet c \<noteq> 0) v)"

definition unprotectedCallsTo :: "ControlFlowIndex \<Rightarrow> string \<Rightarrow> CallSiteContext list" where
  "unprotectedCallsTo s name =
     (case indicesFor s (byCallee s) (byCalleeDisplay s) name of
        None \<Rightarrow> [] | Some v \<Rightarrow> collect_live s (\<lambda>c. scScopeSet c = 0) v)"

definition forEachContext :: "ControlFlowIndex \<Rightarrow> (CallSiteContext \<Rightarrow> 'b \<Rightarrow> 'b) \<Rightarrow> 'b \<Rightarrow> 'b" where
  \<comment> \<open>the callback is a step on the state it captures\<close>
  "forEachContext s f =
     fold (\<lambda>c b. if scLive c then f (materializeContext s c) b else b) (contexts s)"

definition allContexts :: "ControlFlowIndex \<Rightarrow> CallSiteContext list" where
  "allContexts s = forEachContext s (\<lambda>ctx result. result @ [ctx]) []"

definition contextCount :: "ControlFlowIndex \<Rightarrow> nat" where
  "contextCount s = liveCount s"

subsection \<open>Shard merge\<close>

definition remap_locals :: "(sid \<Rightarrow> sid) \<Rightarrow> StoredRaiiLocal list \<Rightarrow> StoredRaiiLocal list" where
  "remap_locals rm = map (\<lambda>l. l\<lparr>srTypeName := rm (srTypeName l), srVarName := rm (srVarName l),
                               srDeclLocation := rm (srDeclLocation l)\<rparr>)"

fun absorb_sets :: "('a list \<Rightarrow> 's \<Rightarrow> 32 word \<times> 's) \<Rightarrow> 'a list list \<Rightarrow> 's \<Rightarrow> 32 word list \<times> 's" where
  \<comment> \<open>the loop \<open>for (i = 1; ...) remap[i] = internSet(...)\<close> over the sets after the first\<close>
  "absorb_sets f [] s = ([], s)"
| "absorb_sets f (x # xs) s = (let (i, s1) = f x s; (js, s2) = absorb_sets f xs s1 in (i # js, s2))"

definition absorb_context :: "(sid \<Rightarrow> sid) \<Rightarrow> (32 word \<Rightarrow> 32 word) \<Rightarrow> (32 word \<Rightarrow> 32 word) \<Rightarrow>
    (32 word \<Rightarrow> 32 word) \<Rightarrow> StoredContext \<Rightarrow> ControlFlowIndex \<Rightarrow> ControlFlowIndex" where
  "absorb_context rm sm gm lm c s =
     (if \<not> scLive c then s
      else insertStored
        \<lparr>scCaller = rm (scCaller c), scCallee = rm (scCallee c),
         scCallerDisplay = rm (scCallerDisplay c), scCalleeDisplay = rm (scCalleeDisplay c),
         scSite = rm (scSite c),
         scTuPath = (if scTuPath c = kNoString then kNoString else rm (scTuPath c)),
         scScopeSet = sm (scScopeSet c), scGuardSet = gm (scGuardSet c),
         scRaiiSet = lm (scRaiiSet c), scCallerNoexcept = scCallerNoexcept c,
         scInsideCatchBlock = scInsideCatchBlock c, scLive = True\<rparr> True s)"

definition absorbIndex :: "ControlFlowIndex \<Rightarrow> ControlFlowIndex \<Rightarrow> ControlFlowIndex" where
  "absorbIndex shard s =
     (let (ids, I) = intern_all (strings (cfInterner shard)) (cfInterner s);
          rm = (\<lambda>i. ids ! unat i);
          (scopeRemap, s1) = absorb_sets (\<lambda>x. internScopeSet (scopeSetKey x) x)
                               (drop 1 (scopeSets shard)) (s\<lparr>cfInterner := I\<rparr>);
          (guardRemap, s2) = absorb_sets (\<lambda>x. internGuardSet (guardSetKey x) x)
                               (drop 1 (guardSets shard)) s1;
          (raiiRemap, s3) = absorb_sets
                               (\<lambda>x. internRaiiSet (raiiSetKey (remap_locals rm x)) (remap_locals rm x))
                               (drop 1 (raiiSets shard)) s2
      in fold (absorb_context rm (\<lambda>i. (0 # scopeRemap) ! unat i) (\<lambda>i. (0 # guardRemap) ! unat i)
                 (\<lambda>i. (0 # raiiRemap) ! unat i))
           (contexts shard) s3)"

subsection \<open>Removal and compaction\<close>

record ContextRelease =
  crIndex :: ControlFlowIndex
  crDead :: "nat set"
  crCallees :: "sid list"
  crCallers :: "sid list"
  crCalleeDisplays :: "sid list"
  crCallerDisplays :: "sid list"
  crSites :: "sid list"
  crRemoved :: nat

definition fromRemovedTu :: "ControlFlowIndex \<Rightarrow> string list \<Rightarrow> StoredContext \<Rightarrow> bool" where
  \<comment> \<open>the site spelling starts with the path of a removed unit and a colon\<close>
  "fromRemovedTu s tuPaths c =
     list_ex (\<lambda>t. let p = t @ '':'' in take (length p) (resolve (cfInterner s) (scSite c)) = p) tuPaths"

definition release_context :: "(StoredContext \<Rightarrow> bool) \<Rightarrow> nat \<Rightarrow> ContextRelease \<Rightarrow> ContextRelease" where
  "release_context chosen i r =
     (let s = crIndex r; c = contexts s ! i in
      if \<not> scLive c then r
      else if \<not> chosen c then r
      else r\<lparr>crCallees := List.insert (scCallee c) (crCallees r),
             crCallers := List.insert (scCaller c) (crCallers r),
             crCalleeDisplays := (if scCalleeDisplay c \<noteq> scCallee c
               then List.insert (scCalleeDisplay c) (crCalleeDisplays r) else crCalleeDisplays r),
             crCallerDisplays := (if scCallerDisplay c \<noteq> scCaller c
               then List.insert (scCallerDisplay c) (crCallerDisplays r) else crCallerDisplays r),
             crSites := List.insert (scSite c) (crSites r),
             crDead := insert i (crDead r),
             crIndex := s\<lparr>contexts := (contexts s)[i := c\<lparr>scLive := False\<rparr>],
                          liveCount := liveCount s - 1\<rparr>,
             crRemoved := Suc (crRemoved r)\<rparr>)"

definition scrub_site :: "nat set \<Rightarrow> sid \<Rightarrow> (sid, nat list) umap \<Rightarrow> (sid, nat list) umap" where
  "scrub_site dead i m =
     (case map_of m i of
        None \<Rightarrow> m
      | Some v \<Rightarrow> (let v1 = filter (\<lambda>x. x \<notin> dead) v in
                  if v1 = [] then AList.delete i m else AList.update i v1 m))"

definition erase_tu :: "interner \<Rightarrow> string \<Rightarrow> (sid, nat list) umap \<Rightarrow> (sid, nat list) umap" where
  "erase_tu I tuPath m =
     (case find_id I tuPath of None \<Rightarrow> m | Some i \<Rightarrow> AList.delete i m)"

definition removeContexts :: "string list \<Rightarrow> ControlFlowIndex \<Rightarrow> nat \<times> ControlFlowIndex" where
  \<comment> \<open>\<open>ControlFlowIndex::removeTUs\<close>\<close>
  "removeContexts tuPaths s =
     (let candidates = concat (map (\<lambda>t. case find_id (cfInterner s) t of
                                          None \<Rightarrow> [] | Some i \<Rightarrow> ulist (byTu s) i) tuPaths);
          r0 = fold (release_context (\<lambda>_. True)) candidates
                 \<lparr>crIndex = s, crDead = {}, crCallees = [], crCallers = [], crCalleeDisplays = [],
                  crCallerDisplays = [], crSites = [], crRemoved = 0\<rparr>;
          r = fold (release_context (fromRemovedTu s tuPaths)) (noProvenance s) r0;
          s1 = crIndex r; dead = (\<lambda>i. i \<in> crDead r);
          s2 = s1\<lparr>byCallee := uscrub dead (crCallees r) (byCallee s1),
                  byCaller := uscrub dead (crCallers r) (byCaller s1),
                  byCalleeDisplay := uscrub dead (crCalleeDisplays r) (byCalleeDisplay s1),
                  byCallerDisplay := uscrub dead (crCallerDisplays r) (byCallerDisplay s1),
                  bySite := fold (scrub_site (crDead r)) (crSites r) (bySite s1)\<rparr>
      in (crRemoved r,
          if crDead r = {} then s2
          else s2\<lparr>byTu := fold (erase_tu (cfInterner s2)) tuPaths (byTu s2),
                  noProvenance := filter (\<lambda>i. \<not> dead i) (noProvenance s2)\<rparr>))"

definition removeContextsOf :: "string \<Rightarrow> ControlFlowIndex \<Rightarrow> nat \<times> ControlFlowIndex" where
  \<comment> \<open>\<open>ControlFlowIndex::removeTU\<close>\<close>
  "removeContextsOf tuPath s = removeContexts [tuPath] s"

definition compactIndex :: "ControlFlowIndex \<Rightarrow> ControlFlowIndex" where
  \<comment> \<open>the set tables stay; each live context is appended again with its old ids\<close>
  "compactIndex s =
     (fold (\<lambda>c t. if \<not> scLive c then t else insertStored c True t) (contexts s)
       (s\<lparr>contexts := [], byCallee := [], byCaller := [], byCalleeDisplay := [],
          byCallerDisplay := [], bySite := [], byTu := [], noProvenance := []\<rparr>))
     \<lparr>liveCount := liveCount s\<rparr>"

end
