(* ===== verification/ControlFlowKeys.thy ===== *)
theory ControlFlowKeys
  imports ControlFlow
begin

text \<open>
  The dedup keys of the set tables identify the sets: a key dump can be read back, because every
  variable-length field carries its length.  The lengths are truncated to 32 bits by the code,
  so the result holds for strings and handler lists shorter than \<open>2 ^ 32\<close> (\<open>scopes_ok\<close>,
  \<open>guards_ok\<close>).  The locale \<open>set_table\<close> is the contract of a dedup table; it is interpreted on
  the three kinds of sets.
\<close>

subsection \<open>Self-delimiting dumps\<close>

lemma length_keyU32 [simp]: "length (keyU32 v) = 4"
  by (simp add: keyU32_def)

lemma char_of_mod: "char_of m = (char_of n :: char) \<Longrightarrow> (m :: nat) mod 256 = n mod 256"
  by (drule arg_cong[of _ _ "of_char :: char \<Rightarrow> nat"]) simp

lemma keyU32_inj: "keyU32 v = keyU32 w \<Longrightarrow> v = w"
proof (rule bit_eqI)
  fix n assume eq: "keyU32 v = keyU32 w" and n: "possible_bit TYPE(32 word) n"
  have byte: "unat (drop_bit (8 * i) v) mod 256 = unat (drop_bit (8 * i) w) mod 256" if "i \<in> {0, 1, 2, 3}" for i
    using that eq by (auto simp: keyU32_def dest!: char_of_mod)
  have "n < 32" using n by (simp add: possible_bit_word)
  then have "n div 8 \<in> {0, 1, 2, 3}" by auto
  from byte[OF this] have "take_bit 8 (unat (drop_bit (8 * (n div 8)) v)) = take_bit 8 (unat (drop_bit (8 * (n div 8)) w))"
    by (simp add: take_bit_eq_mod)
  then have "bit (take_bit 8 (unat (drop_bit (8 * (n div 8)) v))) (n mod 8)
      = bit (take_bit 8 (unat (drop_bit (8 * (n div 8)) w))) (n mod 8)" by simp
  then show "bit v n = bit w n" by (simp add: bit_take_bit_iff bit_unsigned_iff bit_drop_bit_eq)
qed

definition delimited :: "('a \<Rightarrow> bool) \<Rightarrow> ('a \<Rightarrow> string) \<Rightarrow> bool" where
  "delimited ok f \<longleftrightarrow> (\<forall>a b x y. ok a \<longrightarrow> ok b \<longrightarrow> f a @ x = f b @ y \<longrightarrow> a = b \<and> x = y)"

lemma delimitedI: "(\<And>a b x y. ok a \<Longrightarrow> ok b \<Longrightarrow> f a @ x = f b @ y \<Longrightarrow> a = b \<and> x = y) \<Longrightarrow> delimited ok f"
  unfolding delimited_def by blast

lemma delimitedD: "delimited ok f \<Longrightarrow> ok a \<Longrightarrow> ok b \<Longrightarrow> f a @ x = f b @ y \<Longrightarrow> a = b \<and> x = y"
  unfolding delimited_def by blast

definition str_ok :: "string \<Rightarrow> bool" where
  "str_ok s \<longleftrightarrow> length s < 2 ^ 32"

lemma delimited_keyU32: "delimited (\<lambda>_. True) keyU32"
  by (rule delimitedI) (metis append_eq_append_conv keyU32_inj length_keyU32)

lemma delimited_keyStr: "delimited str_ok keyStr"
proof (rule delimitedI)
  fix a b x y assume ok: "str_ok a" "str_ok b" and eq: "keyStr a @ x = keyStr b @ y"
  then have "keyU32 (word_of_nat (length a)) @ a @ x = keyU32 (word_of_nat (length b)) @ b @ y"
    by (simp add: keyStr_def)
  from delimitedD[OF delimited_keyU32 TrueI TrueI this]
  have "(word_of_nat (length a) :: 32 word) = word_of_nat (length b)" and rest: "a @ x = b @ y" by blast+
  then have "length a = length b" using ok by (metis str_ok_def unat_of_nat_room)
  with rest show "a = b \<and> x = y" by simp
qed

lemma delimited_keyFlag: "delimited (\<lambda>_. True) keyFlag"
  by (rule delimitedI) (auto simp: keyFlag_def char_of_eq_iff split: if_splits)

text \<open>A list of self-delimiting dumps of known length is self-delimiting.\<close>

lemma concat_delimited:
  assumes "delimited ok f" and "list_all ok as" and "list_all ok bs" and "length as = length bs"
    and "concat (map f as) @ x = concat (map f bs) @ y"
  shows "as = bs \<and> x = y"
  using assms(4,2,3,5)
proof (induction as bs rule: list_induct2)
  case (Cons a as b bs)
  have "f a @ (concat (map f as) @ x) = f b @ (concat (map f bs) @ y)" using Cons.prems(3) by simp
  from delimitedD[OF assms(1) _ _ this] Cons show ?case by simp
qed simp

text \<open>A list of non-empty self-delimiting dumps that runs to the end is determined by its dump.\<close>

lemma concat_inj:
  assumes "delimited ok f" and "\<And>a. f a \<noteq> []"
  shows "list_all ok as \<Longrightarrow> list_all ok bs \<Longrightarrow> concat (map f as) = concat (map f bs) \<Longrightarrow> as = bs"
proof (induction as arbitrary: bs)
  case Nil
  show ?case
  proof (cases bs)
    case (Cons b bs')
    with Nil.prems(3) assms(2)[of b] show ?thesis by simp
  qed simp
next
  case (Cons a as)
  show ?case
  proof (cases bs)
    case Nil
    with Cons.prems(3) assms(2)[of a] show ?thesis by simp
  next
    case bs: (Cons b bs')
    have eq: "f a @ concat (map f as) = f b @ concat (map f bs')" using Cons.prems(3) bs by simp
    have ok: "ok a" "ok b" "list_all ok as" "list_all ok bs'" using Cons.prems(1,2) bs by simp_all
    from delimitedD[OF assms(1) ok(1,2) eq] have "a = b" "concat (map f as) = concat (map f bs')" by blast+
    with Cons.IH[OF ok(3,4)] bs show ?thesis by simp
  qed
qed

lemma fold_append_concat: "fold (\<lambda>x key. key @ f x) xs k = k @ concat (map f xs)"
  by (induction xs arbitrary: k) auto

subsection \<open>Scopes, guards and locals\<close>

definition handler_ok :: "CatchHandlerInfo \<Rightarrow> bool" where
  "handler_ok h \<longleftrightarrow> str_ok (caughtType h) \<and> str_ok (handlerLocation h) \<and> str_ok (bodySummary h)"

definition scope_ok :: "TryCatchScope \<Rightarrow> bool" where
  "scope_ok s \<longleftrightarrow> str_ok (tryLocation s) \<and> str_ok (enclosingFunction s) \<and>
     length (handlers s) < 2 ^ 32 \<and> list_all handler_ok (handlers s)"

definition guard_ok :: "ConditionalGuard \<Rightarrow> bool" where
  "guard_ok g \<longleftrightarrow> str_ok (conditionText g) \<and> str_ok (guardLocation g)"

lemma delimited_handlerKey: "delimited handler_ok handlerKey"
proof (rule delimitedI)
  fix a b x y assume ok: "handler_ok a" "handler_ok b" and eq: "handlerKey a @ x = handlerKey b @ y"
  have "keyStr (caughtType a) @ keyFlag (isCatchAll a) @ keyStr (handlerLocation a) @ keyStr (bodySummary a) @ x
      = keyStr (caughtType b) @ keyFlag (isCatchAll b) @ keyStr (handlerLocation b) @ keyStr (bodySummary b) @ y"
    using eq by (simp add: handlerKey_def)
  note 1 = delimitedD[OF delimited_keyStr _ _ this]
  have c: "caughtType a = caughtType b" and r1: "keyFlag (isCatchAll a) @ keyStr (handlerLocation a) @ keyStr (bodySummary a) @ x
      = keyFlag (isCatchAll b) @ keyStr (handlerLocation b) @ keyStr (bodySummary b) @ y"
    using 1 ok unfolding handler_ok_def by blast+
  note 2 = delimitedD[OF delimited_keyFlag TrueI TrueI r1]
  note 3 = delimitedD[OF delimited_keyStr _ _ conjunct2[OF 2]]
  have l: "handlerLocation a = handlerLocation b" and r3: "keyStr (bodySummary a) @ x = keyStr (bodySummary b) @ y"
    using 3 ok unfolding handler_ok_def by blast+
  note 4 = delimitedD[OF delimited_keyStr _ _ r3]
  show "a = b \<and> x = y" using c l 2 4 ok by (simp add: handler_ok_def)
qed

lemma delimited_scopeKey: "delimited scope_ok scopeKey"
proof (rule delimitedI)
  fix a b x y assume ok: "scope_ok a" "scope_ok b" and eq: "scopeKey a @ x = scopeKey b @ y"
  have "keyStr (tryLocation a) @ keyStr (enclosingFunction a) @ keyU32 (nestingDepth a)
       @ keyU32 (word_of_nat (length (handlers a))) @ concat (map handlerKey (handlers a)) @ x
      = keyStr (tryLocation b) @ keyStr (enclosingFunction b) @ keyU32 (nestingDepth b)
       @ keyU32 (word_of_nat (length (handlers b))) @ concat (map handlerKey (handlers b)) @ y"
    using eq by (simp add: scopeKey_def)
  note 1 = delimitedD[OF delimited_keyStr _ _ this]
  have t: "tryLocation a = tryLocation b" and r1: "keyStr (enclosingFunction a) @ keyU32 (nestingDepth a)
       @ keyU32 (word_of_nat (length (handlers a))) @ concat (map handlerKey (handlers a)) @ x
      = keyStr (enclosingFunction b) @ keyU32 (nestingDepth b)
       @ keyU32 (word_of_nat (length (handlers b))) @ concat (map handlerKey (handlers b)) @ y"
    using 1 ok unfolding scope_ok_def by blast+
  note 2 = delimitedD[OF delimited_keyStr _ _ r1]
  have f: "enclosingFunction a = enclosingFunction b" and r2: "keyU32 (nestingDepth a)
       @ keyU32 (word_of_nat (length (handlers a))) @ concat (map handlerKey (handlers a)) @ x
      = keyU32 (nestingDepth b)
       @ keyU32 (word_of_nat (length (handlers b))) @ concat (map handlerKey (handlers b)) @ y"
    using 2 ok unfolding scope_ok_def by blast+
  note 3 = delimitedD[OF delimited_keyU32 TrueI TrueI r2]
  note 4 = delimitedD[OF delimited_keyU32 TrueI TrueI conjunct2[OF 3]]
  have len: "length (handlers a) = length (handlers b)"
    using conjunct1[OF 4] ok unfolding scope_ok_def by (metis unat_of_nat_room)
  have "handlers a = handlers b \<and> x = y"
    by (rule concat_delimited[OF delimited_handlerKey _ _ len conjunct2[OF 4]])
      (use ok in \<open>simp_all add: scope_ok_def\<close>)
  then show "a = b \<and> x = y" using t f 3 by simp
qed

lemma delimited_guardKey: "delimited guard_ok guardKey"
proof (rule delimitedI)
  fix a b x y assume ok: "guard_ok a" "guard_ok b" and eq: "guardKey a @ x = guardKey b @ y"
  have "keyStr (conditionText a) @ keyStr (guardLocation a) @ keyFlag (inTrueBranch a) @ keyFlag (isAssertion a) @ x
      = keyStr (conditionText b) @ keyStr (guardLocation b) @ keyFlag (inTrueBranch b) @ keyFlag (isAssertion b) @ y"
    using eq by (simp add: guardKey_def)
  note 1 = delimitedD[OF delimited_keyStr _ _ this]
  have c: "conditionText a = conditionText b" and r1: "keyStr (guardLocation a) @ keyFlag (inTrueBranch a)
       @ keyFlag (isAssertion a) @ x
      = keyStr (guardLocation b) @ keyFlag (inTrueBranch b) @ keyFlag (isAssertion b) @ y"
    using 1 ok unfolding guard_ok_def by blast+
  note 2 = delimitedD[OF delimited_keyStr _ _ r1]
  have l: "guardLocation a = guardLocation b" and r2: "keyFlag (inTrueBranch a) @ keyFlag (isAssertion a) @ x
      = keyFlag (inTrueBranch b) @ keyFlag (isAssertion b) @ y"
    using 2 ok unfolding guard_ok_def by blast+
  note 3 = delimitedD[OF delimited_keyFlag TrueI TrueI r2]
  note 4 = delimitedD[OF delimited_keyFlag TrueI TrueI conjunct2[OF 3]]
  show "a = b \<and> x = y" using c l 3 4 by simp
qed

lemma raiiCode_inj: "char_of (raiiCode a) = (char_of (raiiCode b) :: char) \<longleftrightarrow> a = b"
proof
  assume "char_of (raiiCode a) = (char_of (raiiCode b) :: char)"
  then have "raiiCode a mod 256 = raiiCode b mod 256" by (rule char_of_mod)
  then show "a = b" by (cases a; cases b) simp_all
qed simp

lemma delimited_raiiKey: "delimited (\<lambda>_. True) raiiKey"
proof (rule delimitedI)
  fix a b x y assume eq: "raiiKey a @ x = raiiKey b @ y"
  have "keyU32 (srTypeName a) @ keyU32 (srVarName a) @ keyU32 (srDeclLocation a) @ char_of (raiiCode (srKind a)) # x
      = keyU32 (srTypeName b) @ keyU32 (srVarName b) @ keyU32 (srDeclLocation b) @ char_of (raiiCode (srKind b)) # y"
    using eq by (simp add: raiiKey_def)
  note 1 = delimitedD[OF delimited_keyU32 TrueI TrueI this]
  note 2 = delimitedD[OF delimited_keyU32 TrueI TrueI conjunct2[OF 1]]
  note 3 = delimitedD[OF delimited_keyU32 TrueI TrueI conjunct2[OF 2]]
  have "srKind a = srKind b" "x = y" using conjunct2[OF 3] raiiCode_inj unfolding list.inject by blast+
  then show "a = b \<and> x = y" using 1 2 3 by simp
qed

lemma keys_nonempty: "scopeKey s \<noteq> []" "guardKey g \<noteq> []" "raiiKey l \<noteq> []"
proof -
  have "length (keyStr s) \<noteq> 0" for s by (simp add: keyStr_def)
  then show "scopeKey s \<noteq> []" "guardKey g \<noteq> []" by (simp_all add: scopeKey_def guardKey_def)
qed (simp add: raiiKey_def)

subsection \<open>Dedup tables\<close>

definition table_ok :: "('a list \<Rightarrow> string) \<Rightarrow> ('a list \<Rightarrow> bool) \<Rightarrow> 'a list list \<Rightarrow> (string, 32 word) umap \<Rightarrow> bool" where
  "table_ok key ok tbl ids \<longleftrightarrow>
     tbl \<noteq> [] \<and> tbl ! 0 = [] \<and> length tbl \<le> 2 ^ 32 \<and>
     (\<forall>i < length tbl. 0 < i \<longrightarrow> tbl ! i \<noteq> [] \<and> ok (tbl ! i)) \<and>
     (\<forall>k w. map_of ids k = Some w \<longrightarrow> 0 < unat w \<and> unat w < length tbl \<and> key (tbl ! unat w) = k)"

lemma table_ok_index:
  assumes "table_ok key ok tbl ids" and "unat w < length tbl"
  shows "w = 0 \<longleftrightarrow> tbl ! unat w = []"
proof
  assume "w = 0"
  then show "tbl ! unat w = []" using assms(1) by (simp add: table_ok_def)
next
  assume "tbl ! unat w = []"
  then have "unat w = 0" using assms by (auto simp: table_ok_def)
  then show "w = 0" by (simp add: unat_eq_zero)
qed

locale set_table =
  fixes key :: "'a list \<Rightarrow> string" and ok :: "'a list \<Rightarrow> bool"
  assumes key_inj: "ok a \<Longrightarrow> ok b \<Longrightarrow> key a = key b \<Longrightarrow> a = b"
begin

text \<open>Interning a set gives an index under which the table holds that very set.\<close>

lemma intern_set_ok:
  assumes tok: "table_ok key ok tbl ids" and room: "length tbl < 2 ^ 32" and xs: "ok xs"
    and k: "xs \<noteq> [] \<Longrightarrow> k = key xs" and run: "intern_set k xs (tbl, ids) = (w, tbl', ids')"
  shows "table_ok key ok tbl' ids'" and "unat w < length tbl'" and "tbl' ! unat w = xs"
    and "\<exists>ys. tbl' = tbl @ ys \<and> length ys \<le> 1"
proof -
  have "table_ok key ok tbl' ids' \<and> unat w < length tbl' \<and> tbl' ! unat w = xs \<and> (\<exists>ys. tbl' = tbl @ ys \<and> length ys \<le> 1)"
  proof (cases "xs = []")
    case True
    then show ?thesis using run tok by (auto simp: intern_set_def table_ok_def)
  next
    case False
    show ?thesis
    proof (cases "map_of ids k")
      case (Some i)
      then have i: "0 < unat i" "unat i < length tbl" "key (tbl ! unat i) = k" using tok by (auto simp: table_ok_def)
      then have "ok (tbl ! unat i)" using tok by (auto simp: table_ok_def)
      then have "tbl ! unat i = xs" using key_inj xs i(3) k[OF False] by metis
      moreover have "w = i" "tbl' = tbl" "ids' = ids" using run Some False by (auto simp: intern_set_def)
      ultimately show ?thesis using tok i by simp
    next
      case None
      then have eqs: "w = word_of_nat (length tbl)" "tbl' = tbl @ [xs]" "ids' = uemplace k w ids"
        using run False by (auto simp: intern_set_def Let_def)
      have w: "unat w = length tbl" using room eqs(1) by (simp add: unat_of_nat_room)
      have "0 < unat v \<and> unat v < length tbl' \<and> key (tbl' ! unat v) = k'" if "map_of ids' k' = Some v" for k' v
      proof (cases "k' = k")
        case True
        then have "v = w" using that None by (simp add: eqs(3) umap_simps)
        then show ?thesis using w tok True k[OF False] by (auto simp: eqs(2) table_ok_def)
      next
        case False
        then have "map_of ids k' = Some v" using that by (simp add: eqs(3) umap_simps)
        then have "0 < unat v" "unat v < length tbl" "key (tbl ! unat v) = k'" using tok unfolding table_ok_def by blast+
        then show ?thesis by (simp add: eqs(2) nth_append)
      qed
      moreover have "tbl' ! i \<noteq> [] \<and> ok (tbl' ! i)" if "i < length tbl'" "0 < i" for i
        using that tok False xs by (auto simp: eqs(2) table_ok_def nth_append less_Suc_eq)
      moreover have "tbl' \<noteq> []" "tbl' ! 0 = []" "length tbl' \<le> 2 ^ 32"
        using tok room by (auto simp: eqs(2) table_ok_def nth_append)
      ultimately show ?thesis using w unfolding table_ok_def by (auto simp: eqs(2))
    qed
  qed
  then show "table_ok key ok tbl' ids'" "unat w < length tbl'" "tbl' ! unat w = xs"
    "\<exists>ys. tbl' = tbl @ ys \<and> length ys \<le> 1" by blast+
qed

end

interpretation scope_table: set_table scopeSetKey "list_all scope_ok"
  by unfold_locales (auto simp: scopeSetKey_def fold_append_concat
      intro: concat_inj[OF delimited_scopeKey keys_nonempty(1)])

interpretation guard_table: set_table guardSetKey "list_all guard_ok"
  by unfold_locales (auto simp: guardSetKey_def fold_append_concat
      intro: concat_inj[OF delimited_guardKey keys_nonempty(2)])

interpretation raii_table: set_table raiiSetKey "\<lambda>_. True"
  by unfold_locales (auto simp: raiiSetKey_def fold_append_concat list_all_iff
      intro: concat_inj[OF delimited_raiiKey keys_nonempty(3)])

end
