(* ===== verification/ControlFlowSpec.thy ===== *)
theory ControlFlowSpec
  imports ControlFlowKeys
begin

text \<open>
  The abstract content of a \<open>ControlFlowIndex\<close> is the list of its live contexts
  (\<open>allContexts\<close>).  \<open>cf_inv\<close> is the representation invariant; every operation preserves it
  and acts on the list as the obvious list operation: insertion appends the normalised context,
  merging appends the shard's list, removal filters, compaction changes nothing, and the
  queries are filters.
\<close>

subsection \<open>Representation invariant\<close>

definition index_map :: "(StoredContext \<Rightarrow> sid option) \<Rightarrow> (sid, nat list) umap \<Rightarrow> StoredContext list \<Rightarrow> bool" where
  "index_map sel m cs \<longleftrightarrow> (\<forall>k. ulist m k = positions (\<lambda>c. scLive c \<and> sel c = Some k) cs)"

definition callee_key :: "StoredContext \<Rightarrow> sid option" where
  "callee_key c = Some (scCallee c)"
definition caller_key :: "StoredContext \<Rightarrow> sid option" where
  "caller_key c = Some (scCaller c)"
definition callee_display_key :: "StoredContext \<Rightarrow> sid option" where
  "callee_display_key c = (if scCalleeDisplay c \<noteq> scCallee c then Some (scCalleeDisplay c) else None)"
definition caller_display_key :: "StoredContext \<Rightarrow> sid option" where
  "caller_display_key c = (if scCallerDisplay c \<noteq> scCaller c then Some (scCallerDisplay c) else None)"
definition site_key :: "StoredContext \<Rightarrow> sid option" where
  "site_key c = Some (scSite c)"
definition tu_key :: "StoredContext \<Rightarrow> sid option" where
  "tu_key c = (if scTuPath c \<noteq> kNoString then Some (scTuPath c) else None)"

definition maps_ok :: "ControlFlowIndex \<Rightarrow> bool" where
  "maps_ok s \<longleftrightarrow>
     index_map callee_key (byCallee s) (contexts s) \<and>
     index_map caller_key (byCaller s) (contexts s) \<and>
     index_map callee_display_key (byCalleeDisplay s) (contexts s) \<and>
     index_map caller_display_key (byCallerDisplay s) (contexts s) \<and>
     index_map site_key (bySite s) (contexts s) \<and>
     index_map tu_key (byTu s) (contexts s) \<and>
     noProvenance s = positions (\<lambda>c. scLive c \<and> tu_key c = None) (contexts s) \<and>
     liveCount s = length (filter scLive (contexts s))"

definition tables_ok :: "ControlFlowIndex \<Rightarrow> bool" where
  "tables_ok s \<longleftrightarrow>
     table_ok scopeSetKey (list_all scope_ok) (scopeSets s) (scopeSetIds s) \<and>
     table_ok guardSetKey (list_all guard_ok) (guardSets s) (guardSetIds s) \<and>
     table_ok raiiSetKey (\<lambda>_. True) (raiiSets s) (raiiSetIds s)"

definition local_valid :: "interner \<Rightarrow> StoredRaiiLocal \<Rightarrow> bool" where
  "local_valid I l \<longleftrightarrow> valid_id I (srTypeName l) \<and> valid_id I (srVarName l) \<and> valid_id I (srDeclLocation l)"

definition stored_valid :: "ControlFlowIndex \<Rightarrow> StoredContext \<Rightarrow> bool" where
  "stored_valid s c \<longleftrightarrow>
     valid_id (cfInterner s) (scCaller c) \<and> valid_id (cfInterner s) (scCallee c) \<and>
     valid_id (cfInterner s) (scCallerDisplay c) \<and> valid_id (cfInterner s) (scCalleeDisplay c) \<and>
     valid_id (cfInterner s) (scSite c) \<and>
     (scTuPath c \<noteq> kNoString \<longrightarrow>
        valid_id (cfInterner s) (scTuPath c) \<and> resolve (cfInterner s) (scTuPath c) \<noteq> []) \<and>
     unat (scScopeSet c) < length (scopeSets s) \<and> unat (scGuardSet c) < length (guardSets s) \<and>
     unat (scRaiiSet c) < length (raiiSets s)"

definition data_ok :: "ControlFlowIndex \<Rightarrow> bool" where
  "data_ok s \<longleftrightarrow>
     wf_interner (cfInterner s) \<and> length (strings (cfInterner s)) < 2 ^ 32 \<and> tables_ok s \<and>
     (\<forall>xs \<in> set (raiiSets s). \<forall>l \<in> set xs. local_valid (cfInterner s) l)"

definition cf_inv :: "ControlFlowIndex \<Rightarrow> bool" where
  "cf_inv s \<longleftrightarrow> data_ok s \<and> maps_ok s \<and> (\<forall>c \<in> set (contexts s). stored_valid s c)"

text \<open>The data part only grows.\<close>

definition cf_extends :: "ControlFlowIndex \<Rightarrow> ControlFlowIndex \<Rightarrow> bool" where
  "cf_extends s t \<longleftrightarrow>
     data_ok s \<and> data_ok t \<and> extends_interner (cfInterner s) (cfInterner t) \<and>
     (\<exists>xs. scopeSets t = scopeSets s @ xs) \<and> (\<exists>xs. guardSets t = guardSets s @ xs) \<and>
     (\<exists>xs. raiiSets t = raiiSets s @ xs)"

lemma cf_extends_trans: "cf_extends s t \<Longrightarrow> cf_extends t u \<Longrightarrow> cf_extends s u"
  by (auto simp: cf_extends_def intro: extends_interner_trans)

lemma cf_extends_refl: "data_ok s \<Longrightarrow> cf_extends s s"
  by (simp add: cf_extends_def data_ok_def extends_interner_refl)

lemma kNoString_invalid: "length (strings I) < 2 ^ 32 \<Longrightarrow> valid_id I i \<Longrightarrow> i \<noteq> kNoString"
  by (auto simp: valid_id_def kNoString_def)

lemma stored_valid_extends:
  assumes ext: "cf_extends s t" and v: "stored_valid s c"
  shows "stored_valid t c" and "materializeContext t c = materializeContext s c"
proof -
  have I: "extends_interner (cfInterner s) (cfInterner t)" and ds: "data_ok s" using ext by (auto simp: cf_extends_def)
  note X = extends_interner_facts[OF I]
  obtain xs ys zs where tabs: "scopeSets t = scopeSets s @ xs" "guardSets t = guardSets s @ ys"
    "raiiSets t = raiiSets s @ zs" using ext by (auto simp: cf_extends_def)
  show "stored_valid t c" using v X(1,2) by (auto simp: stored_valid_def tabs)
  have r: "unat (scRaiiSet c) < length (raiiSets s)" using v by (simp add: stored_valid_def)
  have "resolve (cfInterner t) i = resolve (cfInterner s) i" if "l \<in> set (raiiSets s ! unat (scRaiiSet c))"
    "i \<in> {srTypeName l, srVarName l, srDeclLocation l}" for l i
  proof -
    have "raiiSets s ! unat (scRaiiSet c) \<in> set (raiiSets s)" using r by simp
    then have "local_valid (cfInterner s) l" using ds that(1) unfolding data_ok_def by blast
    then show ?thesis using that(2) X(2) by (auto simp: local_valid_def)
  qed
  then show "materializeContext t c = materializeContext s c"
    using v X(2) r by (simp add: materializeContext_def stored_valid_def tabs nth_append Let_def)
qed

subsection \<open>The queries are filters\<close>

lemma allContexts_eq: "allContexts s = map (materializeContext s) (filter scLive (contexts s))"
proof -
  have "fold (\<lambda>c b. if scLive c then b @ [materializeContext s c] else b) cs acc
      = acc @ map (materializeContext s) (filter scLive cs)" for cs acc
    by (induction cs arbitrary: acc) auto
  then show ?thesis by (simp add: allContexts_def forEachContext_def)
qed

lemma collect_live_eq:
  "collect_live s P idxs = map (\<lambda>i. materializeContext s (contexts s ! i))
     (filter (\<lambda>i. scLive (contexts s ! i) \<and> P (contexts s ! i)) idxs)"
proof -
  have "fold (\<lambda>idx result. if scLive (contexts s ! idx) \<and> P (contexts s ! idx)
        then result @ [materializeContext s (contexts s ! idx)] else result) idxs acc
      = acc @ map (\<lambda>i. materializeContext s (contexts s ! i))
          (filter (\<lambda>i. scLive (contexts s ! i) \<and> P (contexts s ! i)) idxs)" for acc
    by (induction idxs arbitrary: acc) auto
  then show ?thesis by (simp add: collect_live_def)
qed

lemma collect_live_positions:
  "collect_live s P (positions (\<lambda>c. scLive c \<and> Q c) (contexts s)) =
     map (materializeContext s) (filter (\<lambda>c. scLive c \<and> Q c \<and> P c) (contexts s))"
proof -
  have "filter (\<lambda>i. scLive (contexts s ! i) \<and> P (contexts s ! i)) (positions (\<lambda>c. scLive c \<and> Q c) (contexts s))
      = positions (\<lambda>c. scLive c \<and> Q c \<and> P c) (contexts s)"
    by (auto simp: positions_def intro: filter_cong)
  then have "collect_live s P (positions (\<lambda>c. scLive c \<and> Q c) (contexts s))
      = map (materializeContext s) (map ((!) (contexts s)) (positions (\<lambda>c. scLive c \<and> Q c \<and> P c) (contexts s)))"
    by (simp add: collect_live_eq)
  then show ?thesis by (simp add: map_nth_positions)
qed

lemma first_live_head: "first_live s P idxs = (case collect_live s P idxs of [] \<Rightarrow> None | x # _ \<Rightarrow> Some x)"
  by (induction idxs) (simp_all add: collect_live_eq)

lemma filter_allContexts:
  assumes "\<And>c. c \<in> set (contexts s) \<Longrightarrow> scLive c \<Longrightarrow> Q c = R (materializeContext s c)"
  shows "map (materializeContext s) (filter (\<lambda>c. scLive c \<and> Q c) (contexts s)) = filter R (allContexts s)"
proof -
  have "filter (\<lambda>c. scLive c \<and> Q c) (contexts s) = filter (\<lambda>c. scLive c \<and> R (materializeContext s c)) (contexts s)"
    using assms by (intro filter_cong) auto
  then show ?thesis by (simp add: allContexts_eq filter_map comp_def conj_commute)
qed

subsection \<open>Insertion\<close>

lemma index_map_push:
  assumes "index_map sel m cs" and "scLive c"
  shows "index_map sel (case sel c of None \<Rightarrow> m | Some k \<Rightarrow> upush k (length cs) m) (cs @ [c])"
  using assms by (auto simp: index_map_def umap_simps split: option.split)

lemma index_map_set_live: "sel (c\<lparr>scLive := b\<rparr>) = sel c \<Longrightarrow> scLive (c\<lparr>scLive := b\<rparr>) = b"
  by simp

lemma key_set_live [simp]:
  "callee_key (c\<lparr>scLive := b\<rparr>) = callee_key c" "caller_key (c\<lparr>scLive := b\<rparr>) = caller_key c"
  "callee_display_key (c\<lparr>scLive := b\<rparr>) = callee_display_key c"
  "caller_display_key (c\<lparr>scLive := b\<rparr>) = caller_display_key c"
  "site_key (c\<lparr>scLive := b\<rparr>) = site_key c" "tu_key (c\<lparr>scLive := b\<rparr>) = tu_key c"
  by (simp_all add: callee_key_def caller_key_def callee_display_key_def caller_display_key_def
      site_key_def tu_key_def)

lemma insertStored_fields:
  "contexts (insertStored c b s) = contexts s @ [c\<lparr>scLive := True\<rparr>]"
  "cfInterner (insertStored c b s) = cfInterner s" "scopeSets (insertStored c b s) = scopeSets s"
  "guardSets (insertStored c b s) = guardSets s" "raiiSets (insertStored c b s) = raiiSets s"
  "scopeSetIds (insertStored c b s) = scopeSetIds s" "guardSetIds (insertStored c b s) = guardSetIds s"
  "raiiSetIds (insertStored c b s) = raiiSetIds s"
  "liveCount (insertStored c b s) = Suc (liveCount s)"
  by (simp_all add: insertStored_def Let_def)

lemma data_ok_cong:
  assumes "cfInterner t = cfInterner s" and "scopeSets t = scopeSets s" and "guardSets t = guardSets s"
    and "raiiSets t = raiiSets s" and "scopeSetIds t = scopeSetIds s" and "guardSetIds t = guardSetIds s"
    and "raiiSetIds t = raiiSetIds s"
  shows "data_ok t = data_ok s" and "stored_valid t c = stored_valid s c"
    and "materializeContext t c = materializeContext s c"
  using assms by (simp_all add: data_ok_def tables_ok_def stored_valid_def materializeContext_def)

lemma insertStored_maps:
  assumes ok: "maps_ok s"
  shows "maps_ok (insertStored c True s)"
proof -
  let ?c = "c\<lparr>scLive := True\<rparr>" and ?n = "length (contexts s)" and ?t = "insertStored c True s"
  have push: "index_map sel (case sel c of None \<Rightarrow> m | Some k \<Rightarrow> upush k ?n m) (contexts s @ [?c])"
    if "index_map sel m (contexts s)" "sel ?c = sel c" for sel m
    using index_map_push[OF that(1), of ?c] that(2) by simp
  have m: "byCallee ?t = (case callee_key c of None \<Rightarrow> byCallee s | Some k \<Rightarrow> upush k ?n (byCallee s))"
    "byCaller ?t = (case caller_key c of None \<Rightarrow> byCaller s | Some k \<Rightarrow> upush k ?n (byCaller s))"
    "byCalleeDisplay ?t = (case callee_display_key c of None \<Rightarrow> byCalleeDisplay s | Some k \<Rightarrow> upush k ?n (byCalleeDisplay s))"
    "byCallerDisplay ?t = (case caller_display_key c of None \<Rightarrow> byCallerDisplay s | Some k \<Rightarrow> upush k ?n (byCallerDisplay s))"
    "bySite ?t = (case site_key c of None \<Rightarrow> bySite s | Some k \<Rightarrow> upush k ?n (bySite s))"
    "byTu ?t = (case tu_key c of None \<Rightarrow> byTu s | Some k \<Rightarrow> upush k ?n (byTu s))"
    by (simp_all add: insertStored_def Let_def callee_key_def caller_key_def callee_display_key_def
        caller_display_key_def site_key_def tu_key_def)
  have np: "noProvenance ?t = noProvenance s @ (if tu_key c = None then [?n] else [])"
    by (simp add: insertStored_def Let_def tu_key_def)
  show ?thesis using ok unfolding maps_ok_def m np insertStored_fields
    by (auto intro!: push)
qed

lemma insertStored_spec:
  assumes inv: "cf_inv s" and v: "stored_valid s c"
  shows "cf_inv (insertStored c True s)"
    and "allContexts (insertStored c True s) = allContexts s @ [materializeContext s c]"
proof -
  note C = data_ok_cong[of "insertStored c True s" s, OF insertStored_fields(2-8)]
  have live: "stored_valid s (c\<lparr>scLive := b\<rparr>) = stored_valid s c"
    "materializeContext s (c\<lparr>scLive := b\<rparr>) = materializeContext s c" for b
    by (simp_all add: stored_valid_def materializeContext_def Let_def)
  show "cf_inv (insertStored c True s)"
    using inv v insertStored_maps[of s c] by (auto simp: cf_inv_def C insertStored_fields live)
  show "allContexts (insertStored c True s) = allContexts s @ [materializeContext s c]"
    by (simp add: allContexts_eq insertStored_fields C live)
qed

definition cf_room :: "nat \<Rightarrow> interner \<Rightarrow> bool" where
  \<comment> \<open>below the capacity by one, so that no id is \<open>kNoString\<close>\<close>
  "cf_room n I \<longleftrightarrow> wf_interner I \<and> length (strings I) + n < 2 ^ 32"

lemma intern_grow:
  assumes "cf_room (Suc n) I" and "intern s I = (i, J)"
  shows "extends_interner I J" and "valid_id J i" and "resolve J i = s" and "cf_room n J"
proof -
  have wf: "wf_interner I" and room: "has_room 1 I" using assms(1) by (auto simp: cf_room_def has_room_def)
  note E = extends_intern[OF wf room assms(2)]
  show "extends_interner I J" "valid_id J i" "resolve J i = s" by (rule E)+
  show "cf_room n J" using assms(1) E(1) intern_wf_resolve(5)[OF wf room assms(2)]
    by (simp add: cf_room_def extends_interner_def)
qed

lemma intern_unless_grow:
  assumes "cf_room (Suc n) I" and "intern_unless e d s I = (i, J)"
  shows "extends_interner I J" and "e \<Longrightarrow> i = d" and "\<not> e \<Longrightarrow> valid_id J i \<and> resolve J i = s"
    and "cf_room n J"
proof -
  have "extends_interner I J \<and> (e \<longrightarrow> i = d) \<and> (\<not> e \<longrightarrow> valid_id J i \<and> resolve J i = s) \<and> cf_room n J"
  proof (cases e)
    case True
    then show ?thesis using assms by (auto simp: intern_unless_def cf_room_def extends_interner_def)
  next
    case False
    then have "intern s I = (i, J)" using assms(2) by (simp add: intern_unless_def)
    from intern_grow[OF assms(1) this] False show ?thesis by simp
  qed
  then show "extends_interner I J" "e \<Longrightarrow> i = d" "\<not> e \<Longrightarrow> valid_id J i \<and> resolve J i = s" "cf_room n J" by blast+
qed

definition show_local :: "interner \<Rightarrow> StoredRaiiLocal \<Rightarrow> RaiiLocal" where
  "show_local I l = \<lparr>typeName = resolve I (srTypeName l), varName = resolve I (srVarName l),
     declLocation = resolve I (srDeclLocation l), raiiKind = srKind l\<rparr>"

lemma show_local_extends:
  "extends_interner I J \<Longrightarrow> local_valid I l \<Longrightarrow> show_local J l = show_local I l"
  "extends_interner I J \<Longrightarrow> local_valid I l \<Longrightarrow> local_valid J l"
  by (auto simp: show_local_def local_valid_def dest: extends_interner_facts)

lemma internRaiiLocals_grow:
  assumes "cf_room (3 * length ls + n) I" and "internRaiiLocals ls I = (rs, J)"
  shows "extends_interner I J \<and> cf_room n J \<and> map (show_local J) rs = ls \<and> (\<forall>l \<in> set rs. local_valid J l)"
  using assms
proof (induction ls arbitrary: I rs J)
  case Nil
  then show ?case by (simp add: extends_interner_refl cf_room_def)
next
  case (Cons l ls)
  obtain t I1 v I2 d I3 rest I4 where i: "intern (typeName l) I = (t, I1)" "intern (varName l) I1 = (v, I2)"
    "intern (declLocation l) I2 = (d, I3)" "internRaiiLocals ls I3 = (rest, I4)" by (metis surj_pair)
  have eq: "rs = \<lparr>srTypeName = t, srVarName = v, srDeclLocation = d, srKind = raiiKind l\<rparr> # rest" "J = I4"
    using Cons.prems(2) i by auto
  have "3 * length (l # ls) + n = Suc (Suc (Suc (3 * length ls + n)))" by simp
  then have "cf_room (Suc (Suc (Suc (3 * length ls + n)))) I" using Cons.prems(1) by metis
  note 1 = intern_grow[OF this i(1)]
  note 2 = intern_grow[OF 1(4) i(2)]
  note 3 = intern_grow[OF 2(4) i(3)]
  have rest: "extends_interner I3 I4" "cf_room n I4" "map (show_local I4) rest = ls" "\<forall>l \<in> set rest. local_valid I4 l"
    using Cons.IH[OF 3(4) i(4)] by auto
  note x13 = extends_interner_trans[OF 2(1) 3(1)]
  note x14 = extends_interner_trans[OF x13 rest(1)] and x24 = extends_interner_trans[OF 3(1) rest(1)]
  have v: "valid_id I4 t" "valid_id I4 v" "valid_id I4 d"
    and r: "resolve I4 t = typeName l" "resolve I4 v = varName l" "resolve I4 d = declLocation l"
    using 1(2,3) 2(2,3) 3(2,3) extends_interner_facts(1,2)[OF x14] extends_interner_facts(1,2)[OF x24]
      extends_interner_facts(1,2)[OF rest(1)] by simp_all
  have "extends_interner I I4" by (rule extends_interner_trans[OF 1(1) x14])
  moreover have "show_local I4 \<lparr>srTypeName = t, srVarName = v, srDeclLocation = d, srKind = raiiKind l\<rparr> = l"
    using r by (simp add: show_local_def)
  ultimately show ?case using rest v by (simp add: eq local_valid_def)
qed

text \<open>What is stored for a context: the USRs default to the display names.\<close>

definition normalise :: "CallSiteContext \<Rightarrow> CallSiteContext" where
  "normalise ctx = ctx\<lparr>ctxCalleeUsr := (if ctxCalleeUsr ctx = [] then ctxCalleeName ctx else ctxCalleeUsr ctx),
                       ctxCallerUsr := (if ctxCallerUsr ctx = [] then ctxCallerName ctx else ctxCallerUsr ctx)\<rparr>"

definition context_ok :: "CallSiteContext \<Rightarrow> bool" where
  "context_ok ctx \<longleftrightarrow> list_all scope_ok (enclosingTryCatches ctx) \<and> list_all guard_ok (enclosingGuards ctx)"

definition context_strings :: "CallSiteContext \<Rightarrow> nat" where
  "context_strings ctx = 6 + 3 * length (liveRaiiLocals ctx)"

definition table_room :: "nat \<Rightarrow> ControlFlowIndex \<Rightarrow> bool" where
  "table_room n s \<longleftrightarrow> length (scopeSets s) + n \<le> 2 ^ 32 \<and> length (guardSets s) + n \<le> 2 ^ 32
                     \<and> length (raiiSets s) + n \<le> 2 ^ 32"

text \<open>The set interning steps, seen on the whole index: the data grows, the maps stay.\<close>

definition grows :: "ControlFlowIndex \<Rightarrow> ControlFlowIndex \<Rightarrow> bool" where
  "grows s t \<longleftrightarrow> cf_extends s t \<and> contexts t = contexts s \<and> maps_ok t = maps_ok s"

lemma grows_trans: "grows s t \<Longrightarrow> grows t u \<Longrightarrow> grows s u"
  by (auto simp: grows_def intro: cf_extends_trans)

lemma grows_inv:
  assumes "grows s t" and "cf_inv s"
  shows "cf_inv t" and "allContexts t = allContexts s"
proof -
  have ext: "cf_extends s t" and c: "contexts t = contexts s" and m: "maps_ok t = maps_ok s"
    using assms(1) by (auto simp: grows_def)
  note X = stored_valid_extends[OF ext]
  show "cf_inv t" using assms(2) ext X(1) by (auto simp: cf_inv_def c m cf_extends_def)
  show "allContexts t = allContexts s"
    using assms(2) X(2) unfolding allContexts_eq c by (intro map_cong) (auto simp: cf_inv_def)
qed

lemma grows_interner:
  assumes ok: "data_ok s" and ext: "extends_interner (cfInterner s) J" and len: "length (strings J) < 2 ^ 32"
  shows "grows s (s\<lparr>cfInterner := J\<rparr>)"
proof -
  have "data_ok (s\<lparr>cfInterner := J\<rparr>)"
    using ok ext len show_local_extends(2)[OF ext] by (auto simp: data_ok_def tables_ok_def extends_interner_def)
  then show ?thesis using ok ext by (simp add: grows_def cf_extends_def maps_ok_def)
qed

lemma internScopeSet_ok:
  assumes ok: "data_ok s" and room: "length (scopeSets s) < 2 ^ 32" and xs: "list_all scope_ok xs"
    and k: "xs \<noteq> [] \<Longrightarrow> k = scopeSetKey xs" and run: "internScopeSet k xs s = (w, t)"
  shows "grows s t" and "unat w < length (scopeSets t)" and "scopeSets t ! unat w = xs"
    and "cfInterner t = cfInterner s" and "guardSets t = guardSets s" and "raiiSets t = raiiSets s"
    and "length (scopeSets t) \<le> Suc (length (scopeSets s))"
proof -
  obtain tbl ids where i: "intern_set k xs (scopeSets s, scopeSetIds s) = (w, tbl, ids)"
    and t: "t = s\<lparr>scopeSets := tbl, scopeSetIds := ids\<rparr>"
    using run by (auto simp: internScopeSet_def split: prod.splits)
  have tok: "table_ok scopeSetKey (list_all scope_ok) (scopeSets s) (scopeSetIds s)"
    using ok by (simp add: data_ok_def tables_ok_def)
  note T = scope_table.intern_set_ok[OF tok room xs k i]
  have "data_ok t" using ok T(1) by (simp add: t data_ok_def tables_ok_def)
  then show "grows s t" using ok T(4) by (auto simp: grows_def cf_extends_def t maps_ok_def data_ok_def extends_interner_refl)
  show "unat w < length (scopeSets t)" "scopeSets t ! unat w = xs" using T by (simp_all add: t)
  show "cfInterner t = cfInterner s" "guardSets t = guardSets s" "raiiSets t = raiiSets s" by (simp_all add: t)
  show "length (scopeSets t) \<le> Suc (length (scopeSets s))" using T(4) by (auto simp: t)
qed

lemma internGuardSet_ok:
  assumes ok: "data_ok s" and room: "length (guardSets s) < 2 ^ 32" and xs: "list_all guard_ok xs"
    and k: "xs \<noteq> [] \<Longrightarrow> k = guardSetKey xs" and run: "internGuardSet k xs s = (w, t)"
  shows "grows s t" and "unat w < length (guardSets t)" and "guardSets t ! unat w = xs"
    and "cfInterner t = cfInterner s" and "scopeSets t = scopeSets s" and "raiiSets t = raiiSets s"
    and "length (guardSets t) \<le> Suc (length (guardSets s))"
proof -
  obtain tbl ids where i: "intern_set k xs (guardSets s, guardSetIds s) = (w, tbl, ids)"
    and t: "t = s\<lparr>guardSets := tbl, guardSetIds := ids\<rparr>"
    using run by (auto simp: internGuardSet_def split: prod.splits)
  have tok: "table_ok guardSetKey (list_all guard_ok) (guardSets s) (guardSetIds s)"
    using ok by (simp add: data_ok_def tables_ok_def)
  note T = guard_table.intern_set_ok[OF tok room xs k i]
  have "data_ok t" using ok T(1) by (simp add: t data_ok_def tables_ok_def)
  then show "grows s t" using ok T(4) by (auto simp: grows_def cf_extends_def t maps_ok_def data_ok_def extends_interner_refl)
  show "unat w < length (guardSets t)" "guardSets t ! unat w = xs" using T by (simp_all add: t)
  show "cfInterner t = cfInterner s" "scopeSets t = scopeSets s" "raiiSets t = raiiSets s" by (simp_all add: t)
  show "length (guardSets t) \<le> Suc (length (guardSets s))" using T(4) by (auto simp: t)
qed

lemma internRaiiSet_ok:
  assumes ok: "data_ok s" and room: "length (raiiSets s) < 2 ^ 32" and xs: "\<forall>l \<in> set xs. local_valid (cfInterner s) l"
    and k: "k = raiiSetKey xs" and run: "internRaiiSet k xs s = (w, t)"
  shows "grows s t" and "unat w < length (raiiSets t)" and "raiiSets t ! unat w = xs"
    and "cfInterner t = cfInterner s" and "scopeSets t = scopeSets s" and "guardSets t = guardSets s"
    and "length (raiiSets t) \<le> Suc (length (raiiSets s))"
proof -
  obtain tbl ids where i: "intern_set k xs (raiiSets s, raiiSetIds s) = (w, tbl, ids)"
    and t: "t = s\<lparr>raiiSets := tbl, raiiSetIds := ids\<rparr>"
    using run by (auto simp: internRaiiSet_def split: prod.splits)
  have tok: "table_ok raiiSetKey (\<lambda>_. True) (raiiSets s) (raiiSetIds s)"
    using ok by (simp add: data_ok_def tables_ok_def)
  note T = raii_table.intern_set_ok[OF tok room TrueI k i]
  have "set tbl \<subseteq> insert xs (set (raiiSets s))"
    using i by (auto simp: intern_set_def Let_def split: if_splits option.splits)
  then have "data_ok t" using ok T(1) xs by (auto simp: t data_ok_def tables_ok_def)
  then show "grows s t" using ok T(4) by (auto simp: grows_def cf_extends_def t maps_ok_def data_ok_def extends_interner_refl)
  show "unat w < length (raiiSets t)" "raiiSets t ! unat w = xs" using T by (simp_all add: t)
  show "cfInterner t = cfInterner s" "scopeSets t = scopeSets s" "guardSets t = guardSets s" by (simp_all add: t)
  show "length (raiiSets t) \<le> Suc (length (raiiSets s))" using T(4) by (auto simp: t)
qed

lemma materialize_eqI:
  assumes "resolve (cfInterner s) (scCallerDisplay c) = ctxCallerName ctx"
    and "resolve (cfInterner s) (scCalleeDisplay c) = ctxCalleeName ctx"
    and "resolve (cfInterner s) (scCaller c) = ctxCallerUsr ctx"
    and "resolve (cfInterner s) (scCallee c) = ctxCalleeUsr ctx"
    and "resolve (cfInterner s) (scSite c) = ctxCallSite ctx"
    and "(if scTuPath c \<noteq> kNoString then resolve (cfInterner s) (scTuPath c) else []) = ctxTuPath ctx"
    and "scopeSets s ! unat (scScopeSet c) = enclosingTryCatches ctx"
    and "guardSets s ! unat (scGuardSet c) = enclosingGuards ctx"
    and "map (show_local (cfInterner s)) (raiiSets s ! unat (scRaiiSet c)) = liveRaiiLocals ctx"
    and "scCallerNoexcept c = callerNoexcept ctx" and "scInsideCatchBlock c = insideCatchBlock ctx"
  shows "materializeContext s c = ctx"
  using assms by (cases ctx) (simp add: materializeContext_def Let_def show_local_def[abs_def])

text \<open>The interning prologue of \<open>addCallSiteContext\<close>.\<close>

lemma intern_context:
  assumes room: "cf_room (context_strings ctx + n) I"
    and i1: "intern (ctxCalleeName ctx) I = (calleeD, I1)" and i2: "intern (ctxCallerName ctx) I1 = (callerD, I2)"
    and i3: "intern_unless (ctxCalleeUsr ctx = []) calleeD (ctxCalleeUsr ctx) I2 = (callee, I3)"
    and i4: "intern_unless (ctxCallerUsr ctx = []) callerD (ctxCallerUsr ctx) I3 = (caller, I4)"
    and i5: "intern (ctxCallSite ctx) I4 = (site, I5)"
    and i6: "intern_unless (ctxTuPath ctx = []) kNoString (ctxTuPath ctx) I5 = (tu, I6)"
    and i7: "internRaiiLocals (liveRaiiLocals ctx) I6 = (locals, I7)"
  shows "extends_interner I I7" and "cf_room n I7"
    and "valid_id I7 calleeD \<and> resolve I7 calleeD = ctxCalleeName ctx"
    and "valid_id I7 callerD \<and> resolve I7 callerD = ctxCallerName ctx"
    and "valid_id I7 callee \<and> resolve I7 callee = ctxCalleeUsr (normalise ctx)"
    and "valid_id I7 caller \<and> resolve I7 caller = ctxCallerUsr (normalise ctx)"
    and "valid_id I7 site \<and> resolve I7 site = ctxCallSite ctx"
    and "tu \<noteq> kNoString \<longrightarrow> valid_id I7 tu \<and> resolve I7 tu \<noteq> []"
    and "(if tu \<noteq> kNoString then resolve I7 tu else []) = ctxTuPath ctx"
    and "map (show_local I7) locals = liveRaiiLocals ctx" and "\<forall>l \<in> set locals. local_valid I7 l"
proof -
  have "context_strings ctx + n = Suc (Suc (Suc (Suc (Suc (Suc (3 * length (liveRaiiLocals ctx) + n))))))"
    by (simp add: context_strings_def)
  then have r: "cf_room (Suc (Suc (Suc (Suc (Suc (Suc (3 * length (liveRaiiLocals ctx) + n))))))) I"
    using room by metis
  note 1 = intern_grow[OF r i1]
  note 2 = intern_grow[OF 1(4) i2]
  note 3 = intern_unless_grow[OF 2(4) i3]
  note 4 = intern_unless_grow[OF 3(4) i4]
  note 5 = intern_grow[OF 4(4) i5]
  note 6 = intern_unless_grow[OF 5(4) i6]
  have 7: "extends_interner I6 I7" "cf_room n I7" "map (show_local I7) locals = liveRaiiLocals ctx"
    "\<forall>l \<in> set locals. local_valid I7 l" using internRaiiLocals_grow[OF 6(4) i7] by auto
  note x57 = extends_interner_trans[OF 6(1) 7(1)]
  note x47 = extends_interner_trans[OF 5(1) x57]
  note x37 = extends_interner_trans[OF 4(1) x47]
  note x27 = extends_interner_trans[OF 3(1) x37]
  note x17 = extends_interner_trans[OF 2(1) x27]
  show "extends_interner I I7" by (rule extends_interner_trans[OF 1(1) x17])
  show "cf_room n I7" "map (show_local I7) locals = liveRaiiLocals ctx" "\<forall>l \<in> set locals. local_valid I7 l"
    by (rule 7)+
  show cd: "valid_id I7 calleeD \<and> resolve I7 calleeD = ctxCalleeName ctx"
    using 1(2,3) extends_interner_facts(1,2)[OF x17] by simp
  show cr: "valid_id I7 callerD \<and> resolve I7 callerD = ctxCallerName ctx"
    using 2(2,3) extends_interner_facts(1,2)[OF x27] by simp
  show "valid_id I7 callee \<and> resolve I7 callee = ctxCalleeUsr (normalise ctx)"
    using cd 3(2,3) extends_interner_facts(1,2)[OF x37] by (cases "ctxCalleeUsr ctx = []") (simp_all add: normalise_def)
  show "valid_id I7 caller \<and> resolve I7 caller = ctxCallerUsr (normalise ctx)"
    using cr 4(2,3) extends_interner_facts(1,2)[OF x47] by (cases "ctxCallerUsr ctx = []") (simp_all add: normalise_def)
  show "valid_id I7 site \<and> resolve I7 site = ctxCallSite ctx"
    using 5(2,3) extends_interner_facts(1,2)[OF x57] by simp
  have "tu = kNoString" if "ctxTuPath ctx = []" using 6(2) that by simp
  moreover have "valid_id I7 tu \<and> resolve I7 tu = ctxTuPath ctx \<and> tu \<noteq> kNoString" if "ctxTuPath ctx \<noteq> []"
    using 6(3) that extends_interner_facts(1,2)[OF 7(1)] kNoString_invalid[of I7 tu] 7(2) by (simp add: cf_room_def)
  ultimately show "tu \<noteq> kNoString \<longrightarrow> valid_id I7 tu \<and> resolve I7 tu \<noteq> []" "(if tu \<noteq> kNoString then resolve I7 tu else []) = ctxTuPath ctx"
    by (cases "ctxTuPath ctx = []"; simp)+
qed

definition index_room :: "nat \<Rightarrow> nat \<Rightarrow> ControlFlowIndex \<Rightarrow> bool" where
  \<comment> \<open>room for \<open>m\<close> strings and \<open>n\<close> sets\<close>
  "index_room m n s \<longleftrightarrow> cf_room m (cfInterner s) \<and> table_room n s"

lemma addCallSiteContext_spec:
  assumes inv: "cf_inv s" and room: "index_room (context_strings ctx + m) (Suc n) s" and ok: "context_ok ctx"
  shows "cf_inv (addCallSiteContext ctx s)"
    and "allContexts (addCallSiteContext ctx s) = allContexts s @ [normalise ctx]"
    and "index_room m n (addCallSiteContext ctx s)"
proof -
  obtain calleeD I1 callerD I2 callee I3 caller I4 site I5 tu I6 locals I7 where
    i: "intern (ctxCalleeName ctx) (cfInterner s) = (calleeD, I1)" "intern (ctxCallerName ctx) I1 = (callerD, I2)"
    "intern_unless (ctxCalleeUsr ctx = []) calleeD (ctxCalleeUsr ctx) I2 = (callee, I3)"
    "intern_unless (ctxCallerUsr ctx = []) callerD (ctxCallerUsr ctx) I3 = (caller, I4)"
    "intern (ctxCallSite ctx) I4 = (site, I5)"
    "intern_unless (ctxTuPath ctx = []) kNoString (ctxTuPath ctx) I5 = (tu, I6)"
    "internRaiiLocals (liveRaiiLocals ctx) I6 = (locals, I7)" by (metis surj_pair)
  have iroom: "cf_room (context_strings ctx + m) (cfInterner s)" and troom: "table_room (Suc n) s"
    using room by (auto simp: index_room_def)
  note P = intern_context[OF iroom i]
  have dok: "data_ok s" using inv by (simp add: cf_inv_def)
  let ?s0 = "s\<lparr>cfInterner := I7\<rparr>"
  have g0: "grows s ?s0" by (rule grows_interner[OF dok P(1)]) (use P(2) in \<open>simp add: cf_room_def\<close>)
  let ?sk = "if enclosingTryCatches ctx = [] then [] else scopeSetKey (enclosingTryCatches ctx)"
  let ?gk = "if enclosingGuards ctx = [] then [] else guardSetKey (enclosingGuards ctx)"
  obtain sw s1 where s1: "internScopeSet ?sk (enclosingTryCatches ctx) ?s0 = (sw, s1)" by fastforce
  obtain gw s2 where s2: "internGuardSet ?gk (enclosingGuards ctx) s1 = (gw, s2)" by fastforce
  obtain rw s3 where s3: "internRaiiSet (raiiSetKey locals) locals s2 = (rw, s3)" by fastforce
  have d0: "data_ok ?s0" using g0 by (simp add: grows_def cf_extends_def)
  have t: "length (scopeSets s) + Suc n \<le> 2 ^ 32" "length (guardSets s) + Suc n \<le> 2 ^ 32" "length (raiiSets s) + Suc n \<le> 2 ^ 32"
    using troom by (auto simp: table_room_def)
  note S = internScopeSet_ok[OF d0 _ _ _ s1]
  have S': "grows ?s0 s1" "unat sw < length (scopeSets s1)" "scopeSets s1 ! unat sw = enclosingTryCatches ctx"
    "cfInterner s1 = I7" "guardSets s1 = guardSets s" "raiiSets s1 = raiiSets s" "length (scopeSets s1) \<le> Suc (length (scopeSets s))"
    using S t ok by (simp_all add: context_ok_def)
  have d1: "data_ok s1" using S'(1) by (simp add: grows_def cf_extends_def)
  note G = internGuardSet_ok[OF d1 _ _ _ s2]
  have G': "grows s1 s2" "unat gw < length (guardSets s2)" "guardSets s2 ! unat gw = enclosingGuards ctx"
    "cfInterner s2 = I7" "scopeSets s2 = scopeSets s1" "raiiSets s2 = raiiSets s" "length (guardSets s2) \<le> Suc (length (guardSets s))"
    using G t ok S' by (simp_all add: context_ok_def)
  have d2: "data_ok s2" using G'(1) by (simp add: grows_def cf_extends_def)
  note R = internRaiiSet_ok[OF d2 _ _ refl s3]
  have R': "grows s2 s3" "unat rw < length (raiiSets s3)" "raiiSets s3 ! unat rw = locals"
    "cfInterner s3 = I7" "scopeSets s3 = scopeSets s1" "guardSets s3 = guardSets s2" "length (raiiSets s3) \<le> Suc (length (raiiSets s))"
    using R t G' P(11) by simp_all
  have g: "grows s s3" by (rule grows_trans[OF grows_trans[OF grows_trans[OF g0 S'(1)] G'(1)] R'(1)])
  define c where "c = \<lparr>scCaller = caller, scCallee = callee, scCallerDisplay = callerD,
            scCalleeDisplay = calleeD, scSite = site, scTuPath = tu,
            scScopeSet = sw, scGuardSet = gw, scRaiiSet = rw,
            scCallerNoexcept = callerNoexcept ctx, scInsideCatchBlock = insideCatchBlock ctx,
            scLive = True\<rparr>"
  have eq: "addCallSiteContext ctx s = insertStored c True s3"
    by (simp add: addCallSiteContext_def i s1 s2 s3 c_def Let_def)
  have v: "stored_valid s3 c"
    using P S' G' R' by (simp add: stored_valid_def c_def)
  have m: "materializeContext s3 c = normalise ctx"
    by (rule materialize_eqI) (use P S' G' R' in \<open>simp_all add: c_def normalise_def split: if_splits\<close>)
  note N = insertStored_spec[OF grows_inv(1)[OF g inv] v]
  show "cf_inv (addCallSiteContext ctx s)" unfolding eq by (rule N)
  show "allContexts (addCallSiteContext ctx s) = allContexts s @ [normalise ctx]"
    unfolding eq N(2) m grows_inv(2)[OF g inv] ..
  show "index_room m n (addCallSiteContext ctx s)"
    using P(2) t S' G' R' by (simp add: eq index_room_def table_room_def insertStored_fields)
qed

end
