(* ===== verification/ControlFlowRemove.thy ===== *)
theory ControlFlowRemove
  imports ControlFlowSpec
begin

text \<open>
  \<open>ControlFlowIndex::removeTUs\<close> and \<open>compact\<close>: removal filters the abstract list, by the
  recorded unit where a context has one and by the site prefix where it has none, keeps the
  representation invariant and counts what it removed; compaction keeps the list.
\<close>

subsection \<open>The release pass\<close>

definition mark_dead :: "nat set \<Rightarrow> StoredContext list \<Rightarrow> StoredContext list" where
  "mark_dead dead cs = map (\<lambda>i. if i \<in> dead then (cs ! i)\<lparr>scLive := False\<rparr> else cs ! i) [0..<length cs]"

lemma length_mark_dead [simp]: "length (mark_dead dead cs) = length cs"
  by (simp add: mark_dead_def)

lemma nth_mark_dead [simp]:
  "i < length cs \<Longrightarrow> mark_dead dead cs ! i = (if i \<in> dead then (cs ! i)\<lparr>scLive := False\<rparr> else cs ! i)"
  by (simp add: mark_dead_def)

lemma mark_dead_empty [simp]: "mark_dead {} cs = cs"
  by (simp add: mark_dead_def map_nth)

lemma mark_dead_insert:
  "i < length cs \<Longrightarrow> i \<notin> dead \<Longrightarrow> (mark_dead dead cs)[i := (cs ! i)\<lparr>scLive := False\<rparr>] = mark_dead (insert i dead) cs"
  by (rule nth_equalityI) (auto simp: nth_list_update)

definition dead_range :: "nat set \<Rightarrow> StoredContext list \<Rightarrow> bool" where
  "dead_range dead cs \<longleftrightarrow> (\<forall>i \<in> dead. i < length cs \<and> scLive (cs ! i))"

definition released :: "ControlFlowIndex \<Rightarrow> nat set \<Rightarrow> ContextRelease \<Rightarrow> bool" where
  "released s dead r \<longleftrightarrow>
     dead_range dead (contexts s) \<and> crDead r = dead \<and> crRemoved r = card dead \<and>
     crIndex r = s\<lparr>contexts := mark_dead dead (contexts s), liveCount := liveCount s - card dead\<rparr> \<and>
     (\<forall>i \<in> dead. let c = contexts s ! i in
        scCallee c \<in> set (crCallees r) \<and> scCaller c \<in> set (crCallers r) \<and>
        (scCalleeDisplay c \<noteq> scCallee c \<longrightarrow> scCalleeDisplay c \<in> set (crCalleeDisplays r)) \<and>
        (scCallerDisplay c \<noteq> scCaller c \<longrightarrow> scCallerDisplay c \<in> set (crCallerDisplays r)) \<and>
        scSite c \<in> set (crSites r))"

lemma dead_range_finite: "dead_range dead cs \<Longrightarrow> finite dead"
  by (rule finite_subset[of _ "{..<length cs}"]) (auto simp: dead_range_def)

definition ignores_live :: "(StoredContext \<Rightarrow> 'a) \<Rightarrow> bool" where
  "ignores_live f \<longleftrightarrow> (\<forall>c. f (c\<lparr>scLive := False\<rparr>) = f c)"

lemma ignores_liveD: "ignores_live f \<Longrightarrow> f (c\<lparr>scLive := False\<rparr>) = f c"
  by (simp add: ignores_live_def)

definition chosen_by :: "(StoredContext \<Rightarrow> bool) \<Rightarrow> StoredContext list \<Rightarrow> nat list \<Rightarrow> nat set" where
  "chosen_by Q cs idxs = {i \<in> set idxs. scLive (cs ! i) \<and> Q (cs ! i)}"

lemma release_context_step:
  assumes R: "released s dead r" and i: "i < length (contexts s)"
    and Q: "ignores_live Q"
  shows "released s (dead \<union> chosen_by Q (contexts s) [i]) (release_context Q i r)"
proof -
  let ?cs = "contexts s" and ?c = "contexts s ! i"
  have fin: "finite dead" and dr: "dead_range dead ?cs"
    using R dead_range_finite by (auto simp: released_def)
  have ix: "crIndex r = s\<lparr>contexts := mark_dead dead ?cs, liveCount := liveCount s - card dead\<rparr>"
    using R by (simp add: released_def)
  show ?thesis
  proof (cases "i \<notin> dead \<and> scLive ?c \<and> Q ?c")
    case True
    then have "chosen_by Q ?cs [i] = {i}" by (auto simp: chosen_by_def)
    moreover have "release_context Q i r = r\<lparr>crCallees := List.insert (scCallee ?c) (crCallees r),
             crCallers := List.insert (scCaller ?c) (crCallers r),
             crCalleeDisplays := (if scCalleeDisplay ?c \<noteq> scCallee ?c
               then List.insert (scCalleeDisplay ?c) (crCalleeDisplays r) else crCalleeDisplays r),
             crCallerDisplays := (if scCallerDisplay ?c \<noteq> scCaller ?c
               then List.insert (scCallerDisplay ?c) (crCallerDisplays r) else crCallerDisplays r),
             crSites := List.insert (scSite ?c) (crSites r), crDead := insert i (crDead r),
             crIndex := s\<lparr>contexts := mark_dead (insert i dead) ?cs, liveCount := liveCount s - card dead - 1\<rparr>,
             crRemoved := Suc (crRemoved r)\<rparr>"
      using True i by (simp add: release_context_def ix Let_def mark_dead_insert)
    ultimately show ?thesis using R True i fin dr
      by (simp add: released_def dead_range_def Let_def)
  next
    case False
    then have "chosen_by Q ?cs [i] \<subseteq> dead" by (auto simp: chosen_by_def)
    then have "dead \<union> chosen_by Q ?cs [i] = dead" by blast
    moreover have "release_context Q i r = r"
      using False i by (auto simp: release_context_def ix Let_def ignores_liveD[OF Q])
    ultimately show ?thesis using R by simp
  qed
qed

lemma release_contexts:
  assumes "released s dead r" and "set idxs \<subseteq> {..<length (contexts s)}"
    and Q: "ignores_live Q"
  shows "released s (dead \<union> chosen_by Q (contexts s) idxs) (fold (release_context Q) idxs r)"
  using assms(1,2)
proof (induction idxs arbitrary: dead r)
  case Nil
  then show ?case by (simp add: chosen_by_def)
next
  case (Cons i idxs)
  have eq: "dead \<union> chosen_by Q (contexts s) [i] \<union> chosen_by Q (contexts s) idxs = dead \<union> chosen_by Q (contexts s) (i # idxs)"
    by (auto simp: chosen_by_def)
  have i: "i < length (contexts s)" and rest: "set idxs \<subseteq> {..<length (contexts s)}" using Cons.prems(2) by auto
  from Cons.IH[OF release_context_step[OF Cons.prems(1) i Q] rest] show ?case unfolding eq by simp
qed

subsection \<open>Scrubbing\<close>

lemma positions_mark_dead:
  assumes "ignores_live sel"
  shows "positions (\<lambda>c. scLive c \<and> sel c = k) (mark_dead dead cs) =
         filter (\<lambda>i. i \<notin> dead) (positions (\<lambda>c. scLive c \<and> sel c = k) cs)"
  by (auto simp: positions_def ignores_liveD[OF assms] intro!: filter_cong split: if_splits)

lemma index_map_scrub:
  assumes m: "index_map sel m cs" and sel: "ignores_live sel"
    and ks: "\<And>i k. i \<in> dead \<Longrightarrow> sel (cs ! i) = Some k \<Longrightarrow> k \<in> set ks"
  shows "index_map sel (uscrub (\<lambda>i. i \<in> dead) ks m) (mark_dead dead cs)"
  unfolding index_map_def
proof
  fix k
  have "ulist (uscrub (\<lambda>i. i \<in> dead) ks m) k = filter (\<lambda>i. i \<notin> dead) (ulist m k)"
    by (rule ulist_uscrub_all) (use m ks in \<open>auto simp: index_map_def\<close>)
  then show "ulist (uscrub (\<lambda>i. i \<in> dead) ks m) k = positions (\<lambda>c. scLive c \<and> sel c = Some k) (mark_dead dead cs)"
    using m by (simp add: positions_mark_dead[OF sel] index_map_def)
qed

lemma ulist_scrub_site: "ulist (scrub_site dead i m) k = (if k = i then filter (\<lambda>x. x \<notin> dead) (ulist m k) else ulist m k)"
  by (auto simp: scrub_site_def Let_def umap_simps ulist_Some ulist_None split: option.split)

lemma scrub_sites_ulist: "ulist (fold (scrub_site dead) ks m) k = ulist (uscrub (\<lambda>i. i \<in> dead) ks m) k"
proof (induction ks arbitrary: m)
  case (Cons a ks)
  have "ulist (uscrub (\<lambda>i. i \<in> dead) ks m1) k = ulist (uscrub (\<lambda>i. i \<in> dead) ks m2) k"
    if "ulist m1 k = ulist m2 k" for m1 m2 :: "(sid, nat list) umap"
    using that by (simp add: ulist_uscrub)
  from this[of "scrub_site dead a m" "AList.update a (filter (\<lambda>i. i \<notin> dead) (ulist m a)) m"]
  have "ulist (uscrub (\<lambda>i. i \<in> dead) ks (scrub_site dead a m)) k = ulist (uscrub (\<lambda>i. i \<in> dead) (a # ks) m) k"
    by (simp add: ulist_scrub_site umap_simps uscrub_def)
  with Cons show ?case by simp
qed (simp add: uscrub_def)

lemma ulist_erase_tus:
  "ulist (fold (erase_tu I) ts m) k = (if \<exists>t \<in> set ts. find_id I t = Some k then [] else ulist m k)"
  by (induction ts arbitrary: m) (auto simp: erase_tu_def umap_simps split: option.split)

subsection \<open>What \<open>removeTUs\<close> does to the contexts\<close>

definition removed_from :: "string list \<Rightarrow> CallSiteContext \<Rightarrow> bool" where
  "removed_from ts ctx \<longleftrightarrow>
     (if ctxTuPath ctx \<noteq> [] then ctxTuPath ctx \<in> set ts
      else (\<exists>t \<in> set ts. take (length t + 1) (ctxCallSite ctx) = t @ '':''))"

definition tu_ids :: "ControlFlowIndex \<Rightarrow> string list \<Rightarrow> sid set" where
  "tu_ids s ts = {i. \<exists>t \<in> set ts. find_id (cfInterner s) t = Some i}"

definition doomed :: "ControlFlowIndex \<Rightarrow> string list \<Rightarrow> StoredContext \<Rightarrow> bool" where
  "doomed s ts c \<longleftrightarrow> (case tu_key c of Some i \<Rightarrow> i \<in> tu_ids s ts | None \<Rightarrow> fromRemovedTu s ts c)"

lemma ignores_live_keys:
  "ignores_live callee_key" "ignores_live caller_key" "ignores_live callee_display_key"
  "ignores_live caller_display_key" "ignores_live site_key" "ignores_live tu_key"
  by (simp_all add: ignores_live_def)

lemma ignores_live_fromRemovedTu: "ignores_live (fromRemovedTu s ts)"
  by (simp add: ignores_live_def fromRemovedTu_def)

lemma doomed_removed:
  assumes "cf_inv s" and "c \<in> set (contexts s)"
  shows "doomed s ts c = removed_from ts (materializeContext s c)"
proof -
  have wf: "wf_interner (cfInterner s)" and v: "stored_valid s c"
    using assms by (auto simp: cf_inv_def data_ok_def)
  show ?thesis
  proof (cases "scTuPath c = kNoString")
    case True
    then show ?thesis
      by (simp add: doomed_def tu_key_def removed_from_def materializeContext_def fromRemovedTu_def
          list_ex_iff Let_def)
  next
    case False
    then have ok: "valid_id (cfInterner s) (scTuPath c)" "resolve (cfInterner s) (scTuPath c) \<noteq> []"
      using v by (auto simp: stored_valid_def)
    then have "scTuPath c \<in> tu_ids s ts \<longleftrightarrow> resolve (cfInterner s) (scTuPath c) \<in> set ts"
      using find_id_iff[OF wf] by (auto simp: tu_ids_def)
    then show ?thesis using False ok
      by (simp add: doomed_def tu_key_def removed_from_def materializeContext_def Let_def)
  qed
qed

definition dead_of :: "ControlFlowIndex \<Rightarrow> string list \<Rightarrow> nat set" where
  "dead_of s ts = {i. i < length (contexts s) \<and> scLive (contexts s ! i) \<and> doomed s ts (contexts s ! i)}"

lemma in_case_Nil: "i \<in> set (case x of None \<Rightarrow> [] | Some k \<Rightarrow> f k) \<longleftrightarrow> (\<exists>k. x = Some k \<and> i \<in> set (f k))"
  by (cases x) auto

lemma removal_pass:
  assumes inv: "cf_inv s"
  shows "released s (dead_of s ts)
    (fold (release_context (fromRemovedTu s ts)) (noProvenance s)
      (fold (release_context (\<lambda>_. True))
        (concat (map (\<lambda>t. case find_id (cfInterner s) t of None \<Rightarrow> [] | Some i \<Rightarrow> ulist (byTu s) i) ts))
        \<lparr>crIndex = s, crDead = {}, crCallees = [], crCallers = [], crCalleeDisplays = [],
         crCallerDisplays = [], crSites = [], crRemoved = 0\<rparr>))"
proof -
  let ?cs = "contexts s"
  let ?cand = "concat (map (\<lambda>t. case find_id (cfInterner s) t of None \<Rightarrow> [] | Some i \<Rightarrow> ulist (byTu s) i) ts)"
  have m: "index_map tu_key (byTu s) ?cs"
    and np: "noProvenance s = positions (\<lambda>c. scLive c \<and> tu_key c = None) ?cs"
    using inv by (auto simp: cf_inv_def maps_ok_def)
  have cand: "i \<in> set ?cand \<longleftrightarrow> i < length ?cs \<and> scLive (?cs ! i) \<and> (\<exists>k \<in> tu_ids s ts. tu_key (?cs ! i) = Some k)" for i
  proof -
    have "i \<in> set ?cand \<longleftrightarrow> (\<exists>t \<in> set ts. \<exists>k. find_id (cfInterner s) t = Some k \<and> i \<in> set (ulist (byTu s) k))"
      by (simp add: in_case_Nil) metis
    also have "\<dots> \<longleftrightarrow> (\<exists>k \<in> tu_ids s ts. i \<in> set (ulist (byTu s) k))" unfolding tu_ids_def by blast
    finally show ?thesis using m by (auto simp: index_map_def)
  qed
  have start: "released s {} \<lparr>crIndex = s, crDead = {}, crCallees = [], crCallers = [], crCalleeDisplays = [],
         crCallerDisplays = [], crSites = [], crRemoved = 0\<rparr>"
    by (simp add: released_def dead_range_def)
  have True_ok: "ignores_live (\<lambda>_. True)" by (simp add: ignores_live_def)
  have "set ?cand \<subseteq> {..<length ?cs}" using cand by blast
  note one = release_contexts[OF start this True_ok]
  have "set (noProvenance s) \<subseteq> {..<length ?cs}" by (auto simp: np)
  note two = release_contexts[OF one this ignores_live_fromRemovedTu[of s ts]]
  have "{} \<union> chosen_by (\<lambda>_. True) ?cs ?cand \<union> chosen_by (fromRemovedTu s ts) ?cs (noProvenance s) = dead_of s ts"
    unfolding chosen_by_def dead_of_def doomed_def
  proof (intro set_eqI, unfold Un_iff mem_Collect_eq cand)
    fix i
    show "(i \<in> {} \<or> (i < length ?cs \<and> scLive (?cs ! i) \<and> (\<exists>k \<in> tu_ids s ts. tu_key (?cs ! i) = Some k)) \<and> scLive (?cs ! i) \<and> True)
        \<or> i \<in> set (noProvenance s) \<and> scLive (?cs ! i) \<and> fromRemovedTu s ts (?cs ! i)
        \<longleftrightarrow> i < length ?cs \<and> scLive (?cs ! i) \<and> (case tu_key (?cs ! i) of Some i \<Rightarrow> i \<in> tu_ids s ts | None \<Rightarrow> fromRemovedTu s ts (?cs ! i))"
      by (cases "tu_key (?cs ! i)") (auto simp: np)
  qed
  then show ?thesis using two by simp
qed

lemma filter_live_mark:
  assumes "dead = {i. i < length cs \<and> scLive (cs ! i) \<and> Q (cs ! i)}"
  shows "filter scLive (mark_dead dead cs) = filter (\<lambda>c. scLive c \<and> \<not> Q c) cs"
proof -
  have "mark_dead dead cs = map (\<lambda>c. if scLive c \<and> Q c then c\<lparr>scLive := False\<rparr> else c) cs"
    by (rule nth_equalityI) (auto simp: assms)
  moreover have "filter scLive (map (\<lambda>c. if scLive c \<and> Q c then c\<lparr>scLive := False\<rparr> else c) cs)
      = filter (\<lambda>c. scLive c \<and> \<not> Q c) cs" by (induction cs) auto
  ultimately show ?thesis by simp
qed

lemma releasedD:
  assumes "released s dead r" and "i \<in> dead"
  shows "callee_key (contexts s ! i) = Some k \<Longrightarrow> k \<in> set (crCallees r)"
    and "caller_key (contexts s ! i) = Some k \<Longrightarrow> k \<in> set (crCallers r)"
    and "callee_display_key (contexts s ! i) = Some k \<Longrightarrow> k \<in> set (crCalleeDisplays r)"
    and "caller_display_key (contexts s ! i) = Some k \<Longrightarrow> k \<in> set (crCallerDisplays r)"
    and "site_key (contexts s ! i) = Some k \<Longrightarrow> k \<in> set (crSites r)"
  using assms by (auto simp: released_def Let_def callee_key_def caller_key_def callee_display_key_def
      caller_display_key_def site_key_def split: if_splits)

lemma index_map_cong: "(\<And>k. ulist m k = ulist m' k) \<Longrightarrow> index_map sel m cs = index_map sel m' cs"
  by (simp add: index_map_def)

lemma mark_dead_spec:
  assumes inv: "cf_inv s" and dr: "dead_range dead (contexts s)"
  shows "length (filter scLive (mark_dead dead (contexts s))) = length (filter scLive (contexts s)) - card dead"
proof -
  let ?cs = "contexts s"
  have "length (filter scLive (mark_dead dead ?cs)) = card ({i. i < length ?cs \<and> scLive (?cs ! i)} - dead)"
    unfolding length_filter_conv_card by (rule arg_cong[of _ _ card]) (auto split: if_splits)
  also have "\<dots> = card {i. i < length ?cs \<and> scLive (?cs ! i)} - card dead"
    by (rule card_Diff_subset) (use dr dead_range_finite in \<open>auto simp: dead_range_def\<close>)
  finally show ?thesis by (simp add: length_filter_conv_card)
qed

lemma removeContexts_spec:
  assumes inv: "cf_inv s"
  shows "cf_inv (snd (removeContexts ts s))"
    and "allContexts (snd (removeContexts ts s)) = filter (\<lambda>ctx. \<not> removed_from ts ctx) (allContexts s)"
    and "fst (removeContexts ts s) = length (filter (removed_from ts) (allContexts s))"
    and "cfInterner (snd (removeContexts ts s)) = cfInterner s"
proof -
  let ?cs = "contexts s" and ?dead = "dead_of s ts"
  define r where "r = fold (release_context (fromRemovedTu s ts)) (noProvenance s)
      (fold (release_context (\<lambda>_. True))
        (concat (map (\<lambda>t. case find_id (cfInterner s) t of None \<Rightarrow> [] | Some i \<Rightarrow> ulist (byTu s) i) ts))
        \<lparr>crIndex = s, crDead = {}, crCallees = [], crCallers = [], crCalleeDisplays = [],
         crCallerDisplays = [], crSites = [], crRemoved = 0\<rparr>)"
  have R: "released s ?dead r" unfolding r_def by (rule removal_pass[OF inv])
  have ix: "crIndex r = s\<lparr>contexts := mark_dead ?dead ?cs, liveCount := liveCount s - card ?dead\<rparr>"
    and dead: "crDead r = ?dead" and n: "crRemoved r = card ?dead" and dr: "dead_range ?dead ?cs"
    using R by (auto simp: released_def)
  let ?h = "snd (removeContexts ts s)"
  have h: "fst (removeContexts ts s) = card ?dead" "contexts ?h = mark_dead ?dead ?cs"
    "liveCount ?h = liveCount s - card ?dead"
    "byCallee ?h = uscrub (\<lambda>i. i \<in> ?dead) (crCallees r) (byCallee s)"
    "byCaller ?h = uscrub (\<lambda>i. i \<in> ?dead) (crCallers r) (byCaller s)"
    "byCalleeDisplay ?h = uscrub (\<lambda>i. i \<in> ?dead) (crCalleeDisplays r) (byCalleeDisplay s)"
    "byCallerDisplay ?h = uscrub (\<lambda>i. i \<in> ?dead) (crCallerDisplays r) (byCallerDisplay s)"
    "bySite ?h = fold (scrub_site ?dead) (crSites r) (bySite s)"
    "byTu ?h = (if ?dead = {} then byTu s else fold (erase_tu (cfInterner s)) ts (byTu s))"
    "noProvenance ?h = (if ?dead = {} then noProvenance s else filter (\<lambda>i. i \<notin> ?dead) (noProvenance s))"
    and same: "cfInterner ?h = cfInterner s" "scopeSets ?h = scopeSets s" "guardSets ?h = guardSets s"
    "raiiSets ?h = raiiSets s" "scopeSetIds ?h = scopeSetIds s" "guardSetIds ?h = guardSetIds s"
    "raiiSetIds ?h = raiiSetIds s"
    unfolding removeContexts_def Let_def r_def[symmetric] by (simp_all add: ix dead n)
  note C = data_ok_cong[OF same]
  have M: "maps_ok s" using inv by (simp add: cf_inv_def)
  note K = ignores_live_keys
  have tu: "index_map tu_key (byTu ?h) (mark_dead ?dead ?cs)"
  proof (cases "?dead = {}")
    case True
    then show ?thesis using M by (simp add: h maps_ok_def)
  next
    case False
    have "ulist (byTu ?h) k = positions (\<lambda>c. scLive c \<and> tu_key c = Some k) (mark_dead ?dead ?cs)" for k
    proof -
      have old: "ulist (byTu s) k = positions (\<lambda>c. scLive c \<and> tu_key c = Some k) ?cs"
        using M by (simp add: maps_ok_def index_map_def)
      have "ulist (byTu ?h) k = (if k \<in> tu_ids s ts then [] else ulist (byTu s) k)"
        using False by (simp add: h ulist_erase_tus tu_ids_def)
      also have "\<dots> = filter (\<lambda>i. i \<notin> ?dead) (ulist (byTu s) k)"
        unfolding old by (auto simp: dead_of_def doomed_def filter_empty_conv intro!: filter_True[symmetric])
      finally show ?thesis by (simp add: positions_mark_dead[OF K(6)] old)
    qed
    then show ?thesis by (simp add: index_map_def)
  qed
  have np: "noProvenance ?h = positions (\<lambda>c. scLive c \<and> tu_key c = None) (mark_dead ?dead ?cs)"
    using M by (simp add: h positions_mark_dead[OF K(6)] maps_ok_def)
  have site: "index_map site_key (bySite ?h) (mark_dead ?dead ?cs)"
    unfolding h index_map_cong[OF scrub_sites_ulist]
    by (rule index_map_scrub) (use M K releasedD[OF R] in \<open>auto simp: maps_ok_def\<close>)
  have maps: "maps_ok ?h"
    unfolding maps_ok_def h(2)
  proof (intro conjI)
    show "index_map callee_key (byCallee ?h) (mark_dead ?dead ?cs)"
      unfolding h by (rule index_map_scrub) (use M K releasedD[OF R] in \<open>auto simp: maps_ok_def\<close>)
    show "index_map caller_key (byCaller ?h) (mark_dead ?dead ?cs)"
      unfolding h by (rule index_map_scrub) (use M K releasedD[OF R] in \<open>auto simp: maps_ok_def\<close>)
    show "index_map callee_display_key (byCalleeDisplay ?h) (mark_dead ?dead ?cs)"
      unfolding h by (rule index_map_scrub) (use M K releasedD[OF R] in \<open>auto simp: maps_ok_def\<close>)
    show "index_map caller_display_key (byCallerDisplay ?h) (mark_dead ?dead ?cs)"
      unfolding h by (rule index_map_scrub) (use M K releasedD[OF R] in \<open>auto simp: maps_ok_def\<close>)
    show "liveCount ?h = length (filter scLive (mark_dead ?dead ?cs))"
      using M by (simp add: h mark_dead_spec[OF inv dr] maps_ok_def)
  qed (rule site tu np)+
  have live_cong: "stored_valid s (c\<lparr>scLive := b\<rparr>) = stored_valid s c" for c b by (simp add: stored_valid_def)
  have "stored_valid s c" if mem: "c \<in> set (mark_dead ?dead ?cs)" for c
  proof -
    obtain i where i: "i < length (mark_dead ?dead ?cs)" "mark_dead ?dead ?cs ! i = c"
      using mem unfolding in_set_conv_nth by blast
    then have len: "i < length ?cs" by simp
    then have "stored_valid s (?cs ! i)" using inv by (simp add: cf_inv_def)
    then show ?thesis unfolding i(2)[symmetric] nth_mark_dead[OF len] by (simp add: live_cong split: if_split)
  qed
  then show "cf_inv ?h" using inv maps by (simp add: cf_inv_def C h(2))
  have fl: "filter scLive (mark_dead ?dead ?cs) = filter (\<lambda>c. scLive c \<and> \<not> doomed s ts c) ?cs"
    by (rule filter_live_mark) (simp add: dead_of_def)
  show "allContexts ?h = filter (\<lambda>ctx. \<not> removed_from ts ctx) (allContexts s)"
    unfolding allContexts_eq[of ?h] h(2) fl C(3)[abs_def]
    by (subst filter_allContexts[symmetric]) (simp_all add: doomed_removed[OF inv])
  have "card ?dead = length (filter (\<lambda>c. scLive c \<and> doomed s ts c) ?cs)"
    unfolding length_filter_conv_card dead_of_def ..
  also have "\<dots> = length (filter (removed_from ts) (allContexts s))"
    by (subst filter_allContexts[of s "doomed s ts" "removed_from ts", symmetric]) (simp_all add: doomed_removed[OF inv])
  finally show "fst (removeContexts ts s) = length (filter (removed_from ts) (allContexts s))" by (simp add: h)
  show "cfInterner ?h = cfInterner s" by (rule same)
qed

subsection \<open>Compaction\<close>

definition cleared :: "ControlFlowIndex \<Rightarrow> ControlFlowIndex" where
  "cleared s = s\<lparr>contexts := [], byCallee := [], byCaller := [], byCalleeDisplay := [],
          byCallerDisplay := [], bySite := [], byTu := [], noProvenance := [], liveCount := 0\<rparr>"

lemma cleared_inv: "cf_inv s \<Longrightarrow> cf_inv (cleared s) \<and> allContexts (cleared s) = []"
  using data_ok_cong(1)[of "cleared s" s]
  by (simp add: cf_inv_def maps_ok_def index_map_def allContexts_eq) (simp add: cleared_def)

text \<open>Appending the live contexts of a list again.\<close>

lemma reinsert_spec:
  assumes "cf_inv t" and "\<And>c. c \<in> set cs \<Longrightarrow> stored_valid t c"
  defines "t' \<equiv> fold (\<lambda>c t. if \<not> scLive c then t else insertStored c True t) cs t"
  shows "cf_inv t' \<and> allContexts t' = allContexts t @ map (materializeContext t) (filter scLive cs) \<and> (\<forall>c. stored_valid t' c = stored_valid t c)
       \<and> cfInterner t' = cfInterner t"
  using assms(1,2) unfolding t'_def
proof (induction cs arbitrary: t)
  case (Cons c cs)
  show ?case
  proof (cases "scLive c")
    case True
    note C = data_ok_cong[of "insertStored c True t" t, OF insertStored_fields(2-8)]
    have v: "stored_valid t c" using Cons.prems by simp
    note S = insertStored_spec[OF Cons.prems(1) v]
    have "stored_valid (insertStored c True t) d" if "d \<in> set cs" for d using Cons.prems(2) that by (simp add: C)
    from Cons.IH[OF S(1) this] True show ?thesis by (simp add: S(2) C insertStored_fields)
  qed (use Cons in simp)
qed simp

definition no_stale :: "(sid, nat list) umap \<Rightarrow> bool" where
  "no_stale m \<longleftrightarrow> (\<forall>k v. map_of m k = Some v \<longrightarrow> v \<noteq> [])"

definition no_stale_keys :: "ControlFlowIndex \<Rightarrow> bool" where
  \<comment> \<open>no key of the four name maps is left with an empty vector\<close>
  "no_stale_keys s \<longleftrightarrow> no_stale (byCallee s) \<and> no_stale (byCaller s)
     \<and> no_stale (byCalleeDisplay s) \<and> no_stale (byCallerDisplay s)"

lemma no_stale_push [simp]: "no_stale m \<Longrightarrow> no_stale (upush k i m)"
  by (auto simp: no_stale_def upush_def umap_simps)

lemma insertStored_no_stale: "no_stale_keys s \<Longrightarrow> no_stale_keys (insertStored c b s)"
  by (auto simp: no_stale_keys_def insertStored_def Let_def)

lemma compactIndex_spec:
  assumes inv: "cf_inv s"
  shows "cf_inv (compactIndex s)" and "allContexts (compactIndex s) = allContexts s"
    and "no_stale_keys (compactIndex s)" and "cfInterner (compactIndex s) = cfInterner s"
    and "length (contexts (compactIndex s)) = length (allContexts s)"
proof -
  let ?f = "\<lambda>c t. if \<not> scLive c then t else insertStored c True t"
  define t where "t = fold ?f (contexts s) (cleared s)"
  have c: "cf_inv (cleared s)" "allContexts (cleared s) = []" using cleared_inv[OF inv] by auto
  have C: "stored_valid (cleared s) d = stored_valid s d" "materializeContext (cleared s) = materializeContext s" for d
    by (simp_all add: cleared_def stored_valid_def materializeContext_def fun_eq_iff)
  have v: "stored_valid (cleared s) d" if "d \<in> set (contexts s)" for d
    using that inv by (simp add: C cf_inv_def)
  have T: "cf_inv t" "allContexts t = allContexts s" "cfInterner t = cfInterner s"
    using reinsert_spec[OF c(1) v] c(2) unfolding t_def C(2) allContexts_eq[of s]
    by (simp_all add: cleared_def)
  have "liveCount t = liveCount s"
  proof -
    have "liveCount t = length (allContexts t)" "liveCount s = length (allContexts s)"
      using T(1) inv by (simp_all add: cf_inv_def maps_ok_def allContexts_eq)
    then show ?thesis using T(2) by simp
  qed
  moreover have "liveCount (fold ?f cs u\<lparr>liveCount := n\<rparr>) = n" for cs u n by simp
  moreover have free: "(fold ?f cs (u\<lparr>liveCount := n\<rparr>))\<lparr>liveCount := m\<rparr> = (fold ?f cs u)\<lparr>liveCount := m\<rparr>" for cs u n m
  proof (induction cs arbitrary: u n)
    case (Cons c cs)
    have "insertStored c True (u\<lparr>liveCount := n\<rparr>) = (insertStored c True u)\<lparr>liveCount := Suc n\<rparr>"
      by (simp add: insertStored_def Let_def)
    with Cons show ?case by simp
  qed simp
  moreover have "t\<lparr>liveCount := liveCount t\<rparr> = t" by simp
  moreover have "compactIndex s = t\<lparr>liveCount := liveCount s\<rparr>"
    unfolding compactIndex_def t_def cleared_def
    using free[of "liveCount s" "contexts s" 0 "s\<lparr>contexts := [], byCallee := [], byCaller := [], byCalleeDisplay := [],
          byCallerDisplay := [], bySite := [], byTu := [], noProvenance := []\<rparr>"] by simp
  ultimately have eq: "compactIndex s = t" by metis
  show "cf_inv (compactIndex s)" "allContexts (compactIndex s) = allContexts s"
    "cfInterner (compactIndex s) = cfInterner s" unfolding eq by (rule T)+
  have "no_stale_keys (fold ?f cs u) \<and> length (contexts (fold ?f cs u)) = length (contexts u) + length (filter scLive cs)"
    if "no_stale_keys u" for cs u
    using that by (induction cs arbitrary: u) (simp_all add: insertStored_no_stale insertStored_fields)
  moreover have "no_stale_keys (cleared s)" by (simp add: cleared_def no_stale_keys_def no_stale_def)
  ultimately have "no_stale_keys t \<and> length (contexts t) = length (filter scLive (contexts s))"
    unfolding t_def by (simp add: cleared_def)
  then show "no_stale_keys (compactIndex s)" "length (contexts (compactIndex s)) = length (allContexts s)"
    unfolding eq by (simp_all add: allContexts_eq)
qed

end
