(* ===== verification/ControlFlowMerge.thy ===== *)
theory ControlFlowMerge
  imports ControlFlowRemove
begin

text \<open>
  \<open>ControlFlowIndex::absorb\<close>: the shard's strings and sets are interned here, its live contexts
  are appended with remapped ids, and the abstract list of the result is the concatenation.
\<close>

lemma cf_extends_tables:
  assumes "cf_extends s t"
  shows "unat w < length (scopeSets s) \<Longrightarrow> unat w < length (scopeSets t) \<and> scopeSets t ! unat w = scopeSets s ! unat w"
    and "unat w < length (guardSets s) \<Longrightarrow> unat w < length (guardSets t) \<and> guardSets t ! unat w = guardSets s ! unat w"
    and "unat w < length (raiiSets s) \<Longrightarrow> unat w < length (raiiSets t) \<and> raiiSets t ! unat w = raiiSets s ! unat w"
  using assms by (auto simp: cf_extends_def nth_append)

text \<open>One loop over the sets of a table of the shard; \<open>T\<close> is that table here, \<open>g\<close> the remapped set.\<close>

definition set_step :: "(ControlFlowIndex \<Rightarrow> 'a list list) \<Rightarrow> (ControlFlowIndex \<Rightarrow> 'b) \<Rightarrow> ('a list \<Rightarrow> 'a list) \<Rightarrow>
    ('a list \<Rightarrow> ControlFlowIndex \<Rightarrow> 32 word \<times> ControlFlowIndex) \<Rightarrow> ('a list \<Rightarrow> ControlFlowIndex \<Rightarrow> bool) \<Rightarrow> bool" where
  "set_step T frame g f pre \<longleftrightarrow>
     (\<forall>x s w t. data_ok s \<longrightarrow> length (T s) < 2 ^ 32 \<longrightarrow> pre x s \<longrightarrow> f x s = (w, t) \<longrightarrow>
        grows s t \<and> cfInterner t = cfInterner s \<and> frame t = frame s \<and> unat w < length (T t) \<and>
        T t ! unat w = g x \<and> length (T t) \<le> Suc (length (T s)))"

definition prefix_stable :: "(ControlFlowIndex \<Rightarrow> 'a list list) \<Rightarrow> bool" where
  "prefix_stable T \<longleftrightarrow> (\<forall>s t i. cf_extends s t \<longrightarrow> i < length (T s) \<longrightarrow> i < length (T t) \<and> T t ! i = T s ! i)"

lemma prefix_stable_tables: "prefix_stable scopeSets" "prefix_stable guardSets" "prefix_stable raiiSets"
  by (auto simp: prefix_stable_def cf_extends_def nth_append)

lemma absorb_sets_ok:
  assumes step: "set_step T frame g f pre" and stable: "prefix_stable T"
    and "data_ok s" and "length (T s) + length xs \<le> 2 ^ 32" and "absorb_sets f xs s = (ws, t)"
    and "\<And>x u. x \<in> set xs \<Longrightarrow> cfInterner u = cfInterner s \<Longrightarrow> pre x u"
  shows "(grows s t \<or> xs = []) \<and> cf_extends s t \<and> contexts t = contexts s \<and> maps_ok t = maps_ok s
       \<and> cfInterner t = cfInterner s \<and> frame t = frame s \<and> length ws = length xs
       \<and> (\<forall>i < length xs. unat (ws ! i) < length (T t) \<and> T t ! unat (ws ! i) = g (xs ! i))
       \<and> length (T t) \<le> length (T s) + length xs"
  using assms(3-)
proof (induction xs arbitrary: s ws)
  case Nil
  then show ?case by (simp add: cf_extends_refl)
next
  case (Cons x xs)
  obtain w s1 where one: "f x s = (w, s1)" by fastforce
  obtain vs where rest: "absorb_sets f xs s1 = (vs, t)" and ws: "ws = w # vs"
    using Cons.prems(3) one by (auto split: prod.splits)
  have len: "length (T s) < 2 ^ 32" using Cons.prems(2) by simp
  have pre: "pre x s" using Cons.prems(4) by simp
  have S: "grows s s1" "cfInterner s1 = cfInterner s" "frame s1 = frame s" "unat w < length (T s1)"
    "T s1 ! unat w = g x" "length (T s1) \<le> Suc (length (T s))"
    using step[unfolded set_step_def] Cons.prems(1) len pre one by blast+
  have d1: "data_ok s1" using S(1) by (simp add: grows_def cf_extends_def)
  have l1: "length (T s1) + length xs \<le> 2 ^ 32" using S(6) Cons.prems(2) by simp
  have p1: "pre y u" if "y \<in> set xs" "cfInterner u = cfInterner s1" for y u
    using Cons.prems(4)[of y u] that S(2) by simp
  have IH: "cf_extends s1 t" "contexts t = contexts s1" "maps_ok t = maps_ok s1" "cfInterner t = cfInterner s1"
    "frame t = frame s1" "length vs = length xs"
    "\<forall>i < length xs. unat (vs ! i) < length (T t) \<and> T t ! unat (vs ! i) = g (xs ! i)"
    "length (T t) \<le> length (T s1) + length xs"
    using Cons.IH[OF d1 l1 rest p1] by blast+
  have ext: "cf_extends s t" using S(1) IH(1) cf_extends_trans by (auto simp: grows_def)
  have w: "unat w < length (T t) \<and> T t ! unat w = g x"
    using stable[unfolded prefix_stable_def] IH(1) S(4,5) by metis
  have all: "\<forall>i < length (x # xs). unat ((w # vs) ! i) < length (T t) \<and> T t ! unat ((w # vs) ! i) = g ((x # xs) ! i)"
    using w IH(7) by (auto simp: nth_Cons split: nat.split)
  have c: "contexts t = contexts s" "maps_ok t = maps_ok s" using IH(2,3) S(1) by (simp_all add: grows_def)
  then have "grows s t" using ext by (simp add: grows_def)
  then show ?case using ext c all IH S ws by simp
qed

lemma scope_step: "set_step scopeSets (\<lambda>s. (guardSets s, raiiSets s)) (\<lambda>x. x)
    (\<lambda>x. internScopeSet (scopeSetKey x) x) (\<lambda>x _. list_all scope_ok x)"
  unfolding set_step_def using internScopeSet_ok by (metis (no_types, lifting))

lemma guard_step: "set_step guardSets (\<lambda>s. (scopeSets s, raiiSets s)) (\<lambda>x. x)
    (\<lambda>x. internGuardSet (guardSetKey x) x) (\<lambda>x _. list_all guard_ok x)"
  unfolding set_step_def using internGuardSet_ok by (metis (no_types, lifting))

lemma raii_step: "set_step raiiSets (\<lambda>s. (scopeSets s, guardSets s)) (remap_locals rm)
    (\<lambda>x. internRaiiSet (raiiSetKey (remap_locals rm x)) (remap_locals rm x))
    (\<lambda>x s. \<forall>l \<in> set (remap_locals rm x). local_valid (cfInterner s) l)"
  unfolding set_step_def using internRaiiSet_ok by (metis (no_types, lifting))

lemma intern_all_grow:
  assumes "cf_room (length ss + n) I" and "intern_all ss I = (ids, J)"
  shows "extends_interner I J \<and> cf_room n J \<and> length ids = length ss
       \<and> (\<forall>k < length ss. valid_id J (ids ! k) \<and> resolve J (ids ! k) = ss ! k)"
  using assms
proof (induction ss arbitrary: I ids)
  case Nil
  then show ?case by (simp add: extends_interner_refl cf_room_def)
next
  case (Cons s ss)
  obtain i I1 js where i: "intern s I = (i, I1)" and js: "intern_all ss I1 = (js, J)" and ids: "ids = i # js"
    using Cons.prems(2) by (auto split: prod.splits)
  have room: "cf_room (Suc (length ss + n)) I" using Cons.prems(1) by simp
  note G = intern_grow[OF room i]
  have IH: "extends_interner I1 J" "cf_room n J" "length js = length ss"
    "\<forall>k < length ss. valid_id J (js ! k) \<and> resolve J (js ! k) = ss ! k" using Cons.IH[OF G(4) js] by blast+
  have "valid_id J i \<and> resolve J i = s" using G(2,3) extends_interner_facts(1,2)[OF IH(1)] by simp
  then have "\<forall>k < length (s # ss). valid_id J (ids ! k) \<and> resolve J (ids ! k) = (s # ss) ! k"
    using IH(4) by (auto simp: ids nth_Cons split: nat.split)
  then show ?case using IH extends_interner_trans[OF G(1) IH(1)] by (simp add: ids)
qed

text \<open>What a remap of set indices does: the set behind the new index is the remapped old one.\<close>

lemma set_remap:
  assumes tbl: "table_ok key ok tbl ids" and here: "T \<noteq> []" "T ! 0 = []"
    and ws: "\<forall>i < length (drop 1 tbl). unat (ws ! i) < length T \<and> T ! unat (ws ! i) = g (drop 1 tbl ! i)"
    and g: "g [] = []" and w: "unat (w :: 32 word) < length tbl"
  shows "unat ((0 # ws) ! unat w) < length T \<and> T ! unat ((0 # ws :: 32 word list) ! unat w) = g (tbl ! unat w)"
proof (cases "unat w")
  case 0
  have "tbl ! 0 = []" using tbl by (simp add: table_ok_def)
  then show ?thesis using 0 here g by simp
next
  case (Suc j)
  have "j < length (drop 1 tbl)" using w Suc by simp
  then have "unat (ws ! j) < length T \<and> T ! unat (ws ! j) = g (drop 1 tbl ! j)" using ws by blast
  then show ?thesis using w Suc by simp
qed

definition remap_context :: "(sid \<Rightarrow> sid) \<Rightarrow> (32 word \<Rightarrow> 32 word) \<Rightarrow> (32 word \<Rightarrow> 32 word) \<Rightarrow>
    (32 word \<Rightarrow> 32 word) \<Rightarrow> StoredContext \<Rightarrow> StoredContext" where
  "remap_context rm sm gm lm c =
     \<lparr>scCaller = rm (scCaller c), scCallee = rm (scCallee c),
      scCallerDisplay = rm (scCallerDisplay c), scCalleeDisplay = rm (scCalleeDisplay c),
      scSite = rm (scSite c), scTuPath = (if scTuPath c = kNoString then kNoString else rm (scTuPath c)),
      scScopeSet = sm (scScopeSet c), scGuardSet = gm (scGuardSet c),
      scRaiiSet = lm (scRaiiSet c), scCallerNoexcept = scCallerNoexcept c,
      scInsideCatchBlock = scInsideCatchBlock c, scLive = scLive c\<rparr>"

lemma absorb_context_fold:
  "fold (absorb_context rm sm gm lm) cs t =
   fold (\<lambda>c t. if \<not> scLive c then t else insertStored c True t) (map (remap_context rm sm gm lm) cs) t"
  by (induction cs arbitrary: t) (auto simp: absorb_context_def remap_context_def)

lemma remap_context_ok:
  assumes R: "\<And>i. valid_id (cfInterner sh) i \<Longrightarrow> valid_id (cfInterner t) (rm i) \<and> resolve (cfInterner t) (rm i) = resolve (cfInterner sh) i"
    and S: "\<And>w. unat w < length (scopeSets sh) \<Longrightarrow> unat (sm w) < length (scopeSets t) \<and> scopeSets t ! unat (sm w) = scopeSets sh ! unat w"
    and G: "\<And>w. unat w < length (guardSets sh) \<Longrightarrow> unat (gm w) < length (guardSets t) \<and> guardSets t ! unat (gm w) = guardSets sh ! unat w"
    and L: "\<And>w. unat w < length (raiiSets sh) \<Longrightarrow> unat (lm w) < length (raiiSets t) \<and> raiiSets t ! unat (lm w) = remap_locals rm (raiiSets sh ! unat w)"
    and d: "data_ok sh" "data_ok t" and v: "stored_valid sh c"
  shows "stored_valid t (remap_context rm sm gm lm c)"
    and "materializeContext t (remap_context rm sm gm lm c) = materializeContext sh c"
proof -
  have len: "length (strings (cfInterner t)) < 2 ^ 32" using d(2) by (simp add: data_ok_def)
  have ne: "rm i \<noteq> kNoString" if "valid_id (cfInterner sh) i" for i
    using kNoString_invalid[OF len] R[OF that] by blast
  show "stored_valid t (remap_context rm sm gm lm c)"
    using v R S G L by (auto simp: stored_valid_def remap_context_def)
  have r: "unat (scRaiiSet c) < length (raiiSets sh)" using v by (simp add: stored_valid_def)
  then have "raiiSets sh ! unat (scRaiiSet c) \<in> set (raiiSets sh)" by simp
  then have lv: "\<forall>l \<in> set (raiiSets sh ! unat (scRaiiSet c)). local_valid (cfInterner sh) l"
    using d(1) unfolding data_ok_def by blast
  have ml: "map (show_local (cfInterner t)) (remap_locals rm (raiiSets sh ! unat (scRaiiSet c)))
      = map (show_local (cfInterner sh)) (raiiSets sh ! unat (scRaiiSet c))"
    using lv R by (auto simp: remap_locals_def show_local_def local_valid_def)
  show "materializeContext t (remap_context rm sm gm lm c) = materializeContext sh c"
    by (rule materialize_eqI)
      (use v R S G L[OF r] ne ml in \<open>auto simp: stored_valid_def remap_context_def materializeContext_def Let_def show_local_def[abs_def]\<close>)
qed

lemma local_valid_remap:
  assumes "\<And>i. valid_id I i \<Longrightarrow> valid_id J (rm i)" and "\<forall>l \<in> set x. local_valid I l"
  shows "\<forall>l \<in> set (remap_locals rm x). local_valid J l"
  using assms by (auto simp: remap_locals_def local_valid_def)

definition merge_room :: "ControlFlowIndex \<Rightarrow> ControlFlowIndex \<Rightarrow> bool" where
  "merge_room shard s \<longleftrightarrow>
     length (strings (cfInterner shard)) + length (strings (cfInterner s)) < 2 ^ 32 \<and>
     length (scopeSets shard) + length (scopeSets s) \<le> 2 ^ 32 \<and>
     length (guardSets shard) + length (guardSets s) \<le> 2 ^ 32 \<and>
     length (raiiSets shard) + length (raiiSets s) \<le> 2 ^ 32"

lemma absorbIndex_spec:
  assumes inv: "cf_inv s" and sh: "cf_inv shard" and room: "merge_room shard s"
  shows "cf_inv (absorbIndex shard s)" and "allContexts (absorbIndex shard s) = allContexts s @ allContexts shard"
proof -
  let ?S = "cfInterner shard"
  obtain ids J where ids: "intern_all (strings ?S) (cfInterner s) = (ids, J)" by fastforce
  define rm where "rm = (\<lambda>i. ids ! unat (i :: sid))"
  have dok: "data_ok s" and dsh: "data_ok shard" using inv sh by (auto simp: cf_inv_def)
  have cr: "cf_room (length (strings ?S) + 0) (cfInterner s)"
    using room dok by (simp add: cf_room_def merge_room_def data_ok_def)
  have G: "extends_interner (cfInterner s) J" "cf_room 0 J" "length ids = length (strings ?S)"
    "\<forall>k < length (strings ?S). valid_id J (ids ! k) \<and> resolve J (ids ! k) = strings ?S ! k"
    using intern_all_grow[OF cr ids] by blast+
  have R: "valid_id J (rm i) \<and> resolve J (rm i) = resolve ?S i" if "valid_id ?S i" for i
    using G(4) that by (simp add: rm_def valid_id_def resolve_def)
  let ?s0 = "s\<lparr>cfInterner := J\<rparr>"
  have g0: "grows s ?s0" by (rule grows_interner[OF dok G(1)]) (use G(2) in \<open>simp add: cf_room_def\<close>)
  have d0: "data_ok ?s0" using g0 by (simp add: grows_def cf_extends_def)
  let ?f1 = "\<lambda>x. internScopeSet (scopeSetKey x) x" and ?f2 = "\<lambda>x. internGuardSet (guardSetKey x) x"
  let ?f3 = "\<lambda>x. internRaiiSet (raiiSetKey (remap_locals rm x)) (remap_locals rm x)"
  obtain ws1 s1 where r1: "absorb_sets ?f1 (drop 1 (scopeSets shard)) ?s0 = (ws1, s1)" by fastforce
  obtain ws2 s2 where r2: "absorb_sets ?f2 (drop 1 (guardSets shard)) s1 = (ws2, s2)" by fastforce
  obtain ws3 s3 where r3: "absorb_sets ?f3 (drop 1 (raiiSets shard)) s2 = (ws3, s3)" by fastforce
  have tsh: "table_ok scopeSetKey (list_all scope_ok) (scopeSets shard) (scopeSetIds shard)"
    "table_ok guardSetKey (list_all guard_ok) (guardSets shard) (guardSetIds shard)"
    "table_ok raiiSetKey (\<lambda>_. True) (raiiSets shard) (raiiSetIds shard)"
    using dsh by (auto simp: data_ok_def tables_ok_def)
  have mem: "\<exists>i < length t. 0 < i \<and> t ! i = x" if "x \<in> set (drop 1 t)" for x and t :: "'z list"
  proof -
    obtain i where "i < length (drop 1 t)" "drop 1 t ! i = x" using \<open>x \<in> set (drop 1 t)\<close> by (metis in_set_conv_nth)
    then show ?thesis by (intro exI[of _ "Suc i"]) simp
  qed
  have p1: "list_all scope_ok x" if "x \<in> set (drop 1 (scopeSets shard))" for x
    using mem[OF that] tsh(1) by (auto simp: table_ok_def)
  have p2: "list_all guard_ok x" if "x \<in> set (drop 1 (guardSets shard))" for x
    using mem[OF that] tsh(2) by (auto simp: table_ok_def)
  have p3: "\<forall>l \<in> set (remap_locals rm x). local_valid J l" if "x \<in> set (drop 1 (raiiSets shard))" for x
  proof (rule local_valid_remap)
    show "\<forall>l \<in> set x. local_valid ?S l" using in_set_dropD[OF that] dsh unfolding data_ok_def by blast
  qed (use R in blast)
  have l1: "length (scopeSets ?s0) + length (drop 1 (scopeSets shard)) \<le> 2 ^ 32" using room by (auto simp: merge_room_def)
  have A1: "cf_extends ?s0 s1" "contexts s1 = contexts ?s0" "maps_ok s1 = maps_ok ?s0" "cfInterner s1 = J"
    "guardSets s1 = guardSets s" "raiiSets s1 = raiiSets s"
    "\<forall>i < length (drop 1 (scopeSets shard)). unat (ws1 ! i) < length (scopeSets s1) \<and> scopeSets s1 ! unat (ws1 ! i) = drop 1 (scopeSets shard) ! i"
    using absorb_sets_ok[OF scope_step prefix_stable_tables(1) d0 l1 r1 p1] by simp_all
  have d1: "data_ok s1" using A1(1) by (simp add: cf_extends_def)
  have l2: "length (guardSets s1) + length (drop 1 (guardSets shard)) \<le> 2 ^ 32" using room by (auto simp: merge_room_def A1)
  have A2: "cf_extends s1 s2" "contexts s2 = contexts s1" "maps_ok s2 = maps_ok s1" "cfInterner s2 = J"
    "scopeSets s2 = scopeSets s1" "raiiSets s2 = raiiSets s"
    "\<forall>i < length (drop 1 (guardSets shard)). unat (ws2 ! i) < length (guardSets s2) \<and> guardSets s2 ! unat (ws2 ! i) = drop 1 (guardSets shard) ! i"
    using absorb_sets_ok[OF guard_step prefix_stable_tables(2) d1 l2 r2 p2] A1 by simp_all
  have d2: "data_ok s2" using A2(1) by (simp add: cf_extends_def)
  have l3: "length (raiiSets s2) + length (drop 1 (raiiSets shard)) \<le> 2 ^ 32" using room by (auto simp: merge_room_def A2)
  have p3': "\<forall>l \<in> set (remap_locals rm x). local_valid (cfInterner u) l"
    if "x \<in> set (drop 1 (raiiSets shard))" "cfInterner u = cfInterner s2" for x u
    using p3[OF that(1)] that(2) A2(4) by simp
  have A3: "cf_extends s2 s3" "contexts s3 = contexts s2" "maps_ok s3 = maps_ok s2" "cfInterner s3 = J"
    "scopeSets s3 = scopeSets s1" "guardSets s3 = guardSets s2"
    "\<forall>i < length (drop 1 (raiiSets shard)). unat (ws3 ! i) < length (raiiSets s3) \<and> raiiSets s3 ! unat (ws3 ! i) = remap_locals rm (drop 1 (raiiSets shard) ! i)"
    using absorb_sets_ok[OF raii_step prefix_stable_tables(3) d2 l3 r3 p3'] A2 by simp_all
  have g: "grows s s3"
    using g0 A1(1-3) A2(1-3) A3(1-3) by (auto simp: grows_def intro: cf_extends_trans)
  have d3: "data_ok s3" using g by (simp add: grows_def cf_extends_def)
  have ts3: "scopeSets s3 \<noteq> []" "scopeSets s3 ! 0 = []" "guardSets s3 \<noteq> []" "guardSets s3 ! 0 = []"
    "raiiSets s3 \<noteq> []" "raiiSets s3 ! 0 = []" using d3 by (auto simp: data_ok_def tables_ok_def table_ok_def)
  let ?sm = "\<lambda>i. (0 # ws1) ! unat (i :: 32 word)" and ?gm = "\<lambda>i. (0 # ws2) ! unat (i :: 32 word)"
  let ?lm = "\<lambda>i. (0 # ws3) ! unat (i :: 32 word)"
  note sr1 = set_remap[OF tsh(1) ts3(1,2), of ws1 "\<lambda>x. x"] and sr2 = set_remap[OF tsh(2) ts3(3,4), of ws2 "\<lambda>x. x"]
    and sr3 = set_remap[OF tsh(3) ts3(5,6), of ws3 "remap_locals rm"]
  have nil: "remap_locals rm [] = []" by (simp add: remap_locals_def)
  have X: "stored_valid s3 (remap_context rm ?sm ?gm ?lm c)"
    "materializeContext s3 (remap_context rm ?sm ?gm ?lm c) = materializeContext shard c" if "stored_valid shard c" for c
    using remap_context_ok[of shard s3 rm ?sm ?gm ?lm, OF _ _ _ _ dsh d3 that] R sr1 sr2 sr3 A1(7) A2(7) A3 nil by simp_all
  have shv: "stored_valid shard c" if "c \<in> set (contexts shard)" for c using sh that by (simp add: cf_inv_def)
  have eq: "absorbIndex shard s = fold (\<lambda>c t. if \<not> scLive c then t else insertStored c True t)
      (map (remap_context rm ?sm ?gm ?lm) (contexts shard)) s3"
    unfolding absorbIndex_def Let_def ids prod.case rm_def[symmetric] r1 r2 r3 absorb_context_fold ..
  have val: "stored_valid s3 c" if "c \<in> set (map (remap_context rm ?sm ?gm ?lm) (contexts shard))" for c
    using that X(1) shv by auto
  let ?cs = "map (remap_context rm ?sm ?gm ?lm) (contexts shard)"
  have F: "cf_inv (absorbIndex shard s) \<and> allContexts (absorbIndex shard s)
      = allContexts s3 @ map (materializeContext s3) (filter scLive ?cs)
      \<and> (\<forall>c. stored_valid (absorbIndex shard s) c = stored_valid s3 c) \<and> cfInterner (absorbIndex shard s) = cfInterner s3"
    unfolding eq by (rule reinsert_spec[OF grows_inv(1)[OF g inv]]) (rule val)
  show "cf_inv (absorbIndex shard s)" by (rule conjunct1[OF F])
  have lv: "scLive (remap_context rm ?sm ?gm ?lm c) = scLive c" for c by (simp add: remap_context_def)
  have "map (materializeContext s3) (filter scLive (map (remap_context rm ?sm ?gm ?lm) (contexts shard)))
      = map (materializeContext shard) (filter scLive (contexts shard))"
    using X(2) shv by (simp add: filter_map comp_def lv)
  then show "allContexts (absorbIndex shard s) = allContexts s @ allContexts shard"
    unfolding conjunct1[OF conjunct2[OF F]] by (simp add: grows_inv(2)[OF g inv] allContexts_eq[of shard])
qed

end
