(* ===== verification/ControlFlowProps.thy ===== *)
theory ControlFlowProps
  imports ControlFlowMerge TuStore
begin

text \<open>
  Properties of the control flow index: the invariant over every index that can be built, the
  algebra of registration, removal, merging and compaction on the list of contexts, what the
  queries answer, and the answer that goes missing between \<open>removeTUs\<close> and \<open>compact\<close>.
\<close>

subsection \<open>The indexes that can be built\<close>

inductive cf_built :: "ControlFlowIndex \<Rightarrow> bool" where
  empty: "cf_built empty_index"
| add: "cf_built s \<Longrightarrow> index_room (context_strings ctx) 1 s \<Longrightarrow> context_ok ctx \<Longrightarrow> cf_built (addCallSiteContext ctx s)"
| merge: "cf_built s \<Longrightarrow> cf_built shard \<Longrightarrow> merge_room shard s \<Longrightarrow> cf_built (absorbIndex shard s)"
| remove: "cf_built s \<Longrightarrow> cf_built (snd (removeContexts ts s))"
| compact: "cf_built s \<Longrightarrow> cf_built (compactIndex s)"

lemma cf_inv_empty: "cf_inv empty_index"
  by (simp add: cf_inv_def data_ok_def tables_ok_def maps_ok_def index_map_def table_ok_def
      empty_index_def empty_interner_def wf_interner_def)

lemma addCallSiteContext_one:
  assumes "cf_inv s" and "index_room (context_strings ctx) 1 s" and "context_ok ctx"
  shows "cf_inv (addCallSiteContext ctx s)"
    and "allContexts (addCallSiteContext ctx s) = allContexts s @ [normalise ctx]"
  using addCallSiteContext_spec[of s ctx 0 0] assms by simp_all

lemma cf_built_inv: "cf_built s \<Longrightarrow> cf_inv s"
  by (induction rule: cf_built.induct)
    (auto intro: cf_inv_empty addCallSiteContext_one absorbIndex_spec removeContexts_spec compactIndex_spec)

lemma allContexts_empty: "allContexts empty_index = []"
  by (simp add: allContexts_eq empty_index_def)

lemma fold_add_inv:
  "cf_inv s \<Longrightarrow> index_room (sum_list (map context_strings es)) (length es) s \<Longrightarrow> list_all context_ok es \<Longrightarrow>
     cf_inv (fold addCallSiteContext es s)"
proof (induction es arbitrary: s)
  case (Cons e es)
  then show ?case
    using addCallSiteContext_spec[of s e "sum_list (map context_strings es)" "length es"] by simp
qed simp

subsection \<open>The index as a log\<close>

definition log_inv :: "CallSiteContext list \<Rightarrow> ControlFlowIndex \<Rightarrow> bool" where
  "log_inv es s \<longleftrightarrow> cf_inv s \<and> index_room (sum_list (map context_strings es)) (length es) s \<and> list_all context_ok es"

definition drop_contexts :: "string list \<Rightarrow> ControlFlowIndex \<Rightarrow> ControlFlowIndex" where
  "drop_contexts ts s = snd (removeContexts ts s)"

lemma index_room_mono: "index_room m n s \<Longrightarrow> m' \<le> m \<Longrightarrow> n' \<le> n \<Longrightarrow> index_room m' n' s"
  by (auto simp: index_room_def cf_room_def table_room_def)

lemma sum_list_filter_le: "sum_list (map f (filter P xs)) \<le> sum_list (map f xs)" for f :: "'a \<Rightarrow> nat"
  by (induction xs) auto

interpretation cf: tu_log log_inv addCallSiteContext drop_contexts absorbIndex allContexts normalise removed_from merge_room
proof unfold_locales
  fix e es s assume "log_inv (e # es) s"
  then have S: "cf_inv s" "index_room (context_strings e + sum_list (map context_strings es)) (Suc (length es)) s"
    "context_ok e" "list_all context_ok es" by (simp_all add: log_inv_def)
  note A = addCallSiteContext_spec[OF S(1-3)]
  show "log_inv es (addCallSiteContext e s)" using A S(4) by (simp add: log_inv_def)
  show "allContexts (addCallSiteContext e s) = allContexts s @ [normalise e]" by (rule A(2))
next
  fix es s P assume "log_inv es s"
  then show "log_inv (filter P es) s"
    by (auto simp: log_inv_def list_all_iff intro: index_room_mono sum_list_filter_le)
next
  fix es s ts assume "log_inv es s"
  then show "allContexts (drop_contexts ts s) = filter (\<lambda>e. \<not> removed_from ts e) (allContexts s)"
    using removeContexts_spec(2)[of s ts] by (simp add: log_inv_def drop_contexts_def)
next
  fix ts e show "removed_from ts (normalise e) = removed_from ts e" by (simp add: removed_from_def normalise_def)
next
  fix s shard assume "log_inv [] s" "log_inv [] shard" "merge_room shard s"
  then show "allContexts (absorbIndex shard s) = allContexts s @ allContexts shard"
    by (simp add: log_inv_def absorbIndex_spec(2))
qed

definition scan :: "CallSiteContext list \<Rightarrow> ControlFlowIndex" where
  "scan es = fold addCallSiteContext es empty_index"

lemma register_scan: "cf.register es empty_index = scan es"
  by (simp add: cf.register_def scan_def)

subsection \<open>Name queries\<close>

lemma resolve_iff:
  assumes "wf_interner I" and "valid_id I i"
  shows "resolve I i = n \<longleftrightarrow> find_id I n = Some i"
  using assms by (auto simp: find_id_iff)

definition named :: "('c \<Rightarrow> string) \<Rightarrow> ('c \<Rightarrow> string) \<Rightarrow> 'c list \<Rightarrow> string \<Rightarrow> 'c \<Rightarrow> bool" where
  \<comment> \<open>by USR when some element has that USR, else by display name\<close>
  "named usr disp cs n c = (if \<exists>d \<in> set cs. usr d = n then usr c = n else disp c = n)"

lemma name_query:
  assumes inv: "cf_inv s" and fresh: "no_stale usrMap"
    and um: "index_map (\<lambda>c. Some (uid c)) usrMap (contexts s)"
    and dm: "index_map (\<lambda>c. if did c \<noteq> uid c then Some (did c) else None) dispMap (contexts s)"
    and ids: "\<And>c. stored_valid s c \<Longrightarrow> valid_id (cfInterner s) (uid c) \<and> valid_id (cfInterner s) (did c)"
    and usr: "\<And>c. usr (materializeContext s c) = resolve (cfInterner s) (uid c)"
    and disp: "\<And>c. disp (materializeContext s c) = resolve (cfInterner s) (did c)"
    and P: "\<And>c. c \<in> set (contexts s) \<Longrightarrow> P c = Q (materializeContext s c)"
  shows "(case indicesFor s usrMap dispMap n of None \<Rightarrow> [] | Some v \<Rightarrow> collect_live s P v)
       = filter (\<lambda>c. named usr disp (allContexts s) n c \<and> Q c) (allContexts s)"
proof -
  let ?I = "cfInterner s" and ?cs = "contexts s"
  have wf: "wf_interner ?I" using inv by (simp add: cf_inv_def data_ok_def)
  have v: "valid_id ?I (uid c) \<and> valid_id ?I (did c)" if "c \<in> set ?cs" for c
    using inv ids that by (simp add: cf_inv_def)
  have u: "usr (materializeContext s c) = n \<longleftrightarrow> find_id ?I n = Some (uid c)" if "c \<in> set ?cs" for c
    using resolve_iff[OF wf] v[OF that] by (simp add: usr)
  have d: "disp (materializeContext s c) = n \<longleftrightarrow> find_id ?I n = Some (did c)" if "c \<in> set ?cs" for c
    using resolve_iff[OF wf] v[OF that] by (simp add: disp)
  have ex: "(\<exists>x \<in> set (allContexts s). usr x = n) \<longleftrightarrow> (\<exists>c \<in> set ?cs. scLive c \<and> find_id ?I n = Some (uid c))"
    using u by (auto simp: allContexts_eq)
  have goal: "map (materializeContext s) (filter (\<lambda>c. scLive c \<and> S c \<and> P c) ?cs)
      = filter (\<lambda>c. named usr disp (allContexts s) n c \<and> Q c) (allContexts s)"
    if "\<And>c. c \<in> set ?cs \<Longrightarrow> scLive c \<Longrightarrow> S c = named usr disp (allContexts s) n (materializeContext s c)" for S
    by (rule filter_allContexts) (use that P in blast)
  show ?thesis
  proof (cases "find_id ?I n")
    case None
    then have "\<not> named usr disp (allContexts s) n x" if "x \<in> set (allContexts s)" for x
      using that u d ex by (auto simp: named_def allContexts_eq)
    then show ?thesis using None by (simp add: indicesFor_def)
  next
    case (Some i)
    have pu: "ulist usrMap i = positions (\<lambda>c. scLive c \<and> uid c = i) ?cs"
      using um by (simp add: index_map_def)
    show ?thesis
    proof (cases "map_of usrMap i")
      case (Some w)
      then have w: "w = positions (\<lambda>c. scLive c \<and> uid c = i) ?cs" and "w \<noteq> []"
        using pu fresh by (auto simp: ulist_Some no_stale_def)
      then obtain j where "j < length ?cs" "scLive (?cs ! j)" "uid (?cs ! j) = i"
        using in_set_positions[of _ "\<lambda>c. scLive c \<and> uid c = i" ?cs] by (metis list.set_intros(1) neq_Nil_conv)
      then have e: "\<exists>x \<in> set (allContexts s). usr x = n" using ex \<open>find_id ?I n = Some i\<close> by (metis nth_mem)
      have "(case indicesFor s usrMap dispMap n of None \<Rightarrow> [] | Some v \<Rightarrow> collect_live s P v)
          = map (materializeContext s) (filter (\<lambda>c. scLive c \<and> uid c = i \<and> P c) ?cs)"
        using \<open>find_id ?I n = Some i\<close> Some by (simp add: indicesFor_def w collect_live_positions)
      also have "\<dots> = filter (\<lambda>c. named usr disp (allContexts s) n c \<and> Q c) (allContexts s)"
        by (rule goal) (use e u \<open>find_id ?I n = Some i\<close> in \<open>auto simp: named_def\<close>)
      finally show ?thesis .
    next
      case None
      then have nil: "positions (\<lambda>c. scLive c \<and> uid c = i) ?cs = []" using pu by (simp add: ulist_None)
      have no: "uid c \<noteq> i" if mem: "c \<in> set ?cs" "scLive c" for c
      proof
        assume i: "uid c = i"
        obtain j where "j < length ?cs" "?cs ! j = c" using mem(1) by (auto simp: in_set_conv_nth)
        then have "j \<in> set (positions (\<lambda>c. scLive c \<and> uid c = i) ?cs)" using i mem(2) by simp
        then show False using nil by simp
      qed
      then have ne: "\<not> (\<exists>x \<in> set (allContexts s). usr x = n)" using ex \<open>find_id ?I n = Some i\<close> by auto
      have pd: "ulist dispMap i = positions (\<lambda>c. scLive c \<and> (if did c \<noteq> uid c then Some (did c) else None) = Some i) ?cs"
        using dm by (simp add: index_map_def)
      have "(case indicesFor s usrMap dispMap n of None \<Rightarrow> [] | Some v \<Rightarrow> collect_live s P v) = collect_live s P (ulist dispMap i)"
        using \<open>find_id ?I n = Some i\<close> None
        by (cases "map_of dispMap i") (simp_all add: indicesFor_def ulist_def collect_live_def)
      also have "\<dots> = map (materializeContext s)
          (filter (\<lambda>c. scLive c \<and> ((if did c \<noteq> uid c then Some (did c) else None) = Some i) \<and> P c) ?cs)"
        by (simp only: pd collect_live_positions)
      also have "\<dots> = filter (\<lambda>c. named usr disp (allContexts s) n c \<and> Q c) (allContexts s)"
        by (rule goal) (use ne no d \<open>find_id ?I n = Some i\<close> in \<open>auto simp: named_def\<close>)
      finally show ?thesis .
    qed
  qed
qed

lemma scope_nonempty:
  assumes "cf_inv s" and "c \<in> set (contexts s)"
  shows "scScopeSet c = 0 \<longleftrightarrow> enclosingTryCatches (materializeContext s c) = []"
  using assms table_ok_index[of scopeSetKey "list_all scope_ok" "scopeSets s" "scopeSetIds s" "scScopeSet c"]
  by (simp add: cf_inv_def data_ok_def tables_ok_def stored_valid_def materializeContext_def Let_def)

lemma inv_parts:
  assumes "cf_inv s"
  shows "index_map (\<lambda>c. Some (scCallee c)) (byCallee s) (contexts s)"
    and "index_map (\<lambda>c. Some (scCaller c)) (byCaller s) (contexts s)"
    and "index_map (\<lambda>c. if scCalleeDisplay c \<noteq> scCallee c then Some (scCalleeDisplay c) else None) (byCalleeDisplay s) (contexts s)"
    and "index_map (\<lambda>c. if scCallerDisplay c \<noteq> scCaller c then Some (scCallerDisplay c) else None) (byCallerDisplay s) (contexts s)"
    and "index_map (\<lambda>c. Some (scSite c)) (bySite s) (contexts s)"
  using assms
  by (simp_all add: cf_inv_def maps_ok_def callee_key_def[abs_def] caller_key_def[abs_def]
      callee_display_key_def[abs_def] caller_display_key_def[abs_def] site_key_def[abs_def])

lemma callee_query:
  assumes inv: "cf_inv s" and fresh: "no_stale_keys s"
    and P: "\<And>c. c \<in> set (contexts s) \<Longrightarrow> P c = Q (materializeContext s c)"
  shows "(case indicesFor s (byCallee s) (byCalleeDisplay s) n of None \<Rightarrow> [] | Some v \<Rightarrow> collect_live s P v)
       = filter (\<lambda>c. named ctxCalleeUsr ctxCalleeName (allContexts s) n c \<and> Q c) (allContexts s)"
  by (rule name_query[where uid=scCallee and did=scCalleeDisplay, OF inv _ inv_parts(1)[OF inv] inv_parts(3)[OF inv]])
    (use fresh P in \<open>auto simp: no_stale_keys_def stored_valid_def materializeContext_def Let_def\<close>)

lemma caller_query:
  assumes inv: "cf_inv s" and fresh: "no_stale_keys s"
    and P: "\<And>c. c \<in> set (contexts s) \<Longrightarrow> P c = Q (materializeContext s c)"
  shows "(case indicesFor s (byCaller s) (byCallerDisplay s) n of None \<Rightarrow> [] | Some v \<Rightarrow> collect_live s P v)
       = filter (\<lambda>c. named ctxCallerUsr ctxCallerName (allContexts s) n c \<and> Q c) (allContexts s)"
  by (rule name_query[where uid=scCaller and did=scCallerDisplay, OF inv _ inv_parts(2)[OF inv] inv_parts(4)[OF inv]])
    (use fresh P in \<open>auto simp: no_stale_keys_def stored_valid_def materializeContext_def Let_def\<close>)

lemma name_queries:
  assumes inv: "cf_inv s" and fresh: "no_stale_keys s"
  shows "contextsForCallee s n = filter (named ctxCalleeUsr ctxCalleeName (allContexts s) n) (allContexts s)"
    and "contextsForCaller s n = filter (named ctxCallerUsr ctxCallerName (allContexts s) n) (allContexts s)"
    and "protectedCallsTo s n = filter (\<lambda>c. enclosingTryCatches c \<noteq> []) (contextsForCallee s n)"
    and "unprotectedCallsTo s n = filter (\<lambda>c. enclosingTryCatches c = []) (contextsForCallee s n)"
proof -
  have T: "(\<lambda>_. True) c = (\<lambda>_. True) (materializeContext s c)" for c :: StoredContext by simp
  note all = callee_query[OF inv fresh T, of n] and allr = caller_query[OF inv fresh T, of n]
  show c: "contextsForCallee s n = filter (named ctxCalleeUsr ctxCalleeName (allContexts s) n) (allContexts s)"
    using all by (simp add: contextsForCallee_def cong: option.case_cong)
  show "contextsForCaller s n = filter (named ctxCallerUsr ctxCallerName (allContexts s) n) (allContexts s)"
    using allr by (simp add: contextsForCaller_def cong: option.case_cong)
  have p1: "(scScopeSet x \<noteq> 0) = (enclosingTryCatches (materializeContext s x) \<noteq> [])" if "x \<in> set (contexts s)" for x
    using scope_nonempty[OF inv that] by simp
  show "protectedCallsTo s n = filter (\<lambda>c. enclosingTryCatches c \<noteq> []) (contextsForCallee s n)"
    unfolding c protectedCallsTo_def
    using callee_query[where Q="\<lambda>c. enclosingTryCatches c \<noteq> []", OF inv fresh p1, of n] by (simp add: conj_commute)
  show "unprotectedCallsTo s n = filter (\<lambda>c. enclosingTryCatches c = []) (contextsForCallee s n)"
    unfolding c unprotectedCallsTo_def
    using callee_query[where Q="\<lambda>c. enclosingTryCatches c = []", OF inv fresh scope_nonempty[OF inv], of n]
    by (simp add: conj_commute)
qed

subsection \<open>Site queries\<close>

definition first_of :: "'a list \<Rightarrow> 'a option" where
  "first_of xs = (case xs of [] \<Rightarrow> None | x # _ \<Rightarrow> Some x)"

lemma first_of_Nil [simp]: "first_of [] = None"
  by (simp add: first_of_def)

lemma site_query:
  assumes inv: "cf_inv s" and P: "\<And>c. c \<in> set (contexts s) \<Longrightarrow> P c = Q (materializeContext s c)"
    and i: "find_id (cfInterner s) site = Some i"
  shows "collect_live s P (ulist (bySite s) i) = filter (\<lambda>c. ctxCallSite c = site \<and> Q c) (allContexts s)"
proof -
  have wf: "wf_interner (cfInterner s)" using inv by (simp add: cf_inv_def data_ok_def)
  have sel: "(scSite c = i) = (ctxCallSite (materializeContext s c) = site)" if "c \<in> set (contexts s)" for c
    using that inv resolve_iff[OF wf, of "scSite c" site] i
    by (auto simp: cf_inv_def stored_valid_def materializeContext_def Let_def)
  have u: "ulist (bySite s) i = positions (\<lambda>c. scLive c \<and> scSite c = i) (contexts s)"
    using inv_parts(5)[OF inv] by (simp add: index_map_def)
  show ?thesis unfolding u collect_live_positions
    by (rule filter_allContexts) (use sel P in blast)
qed

lemma no_site:
  assumes inv: "cf_inv s" and "find_id (cfInterner s) site = None"
  shows "filter (\<lambda>c. ctxCallSite c = site \<and> Q c) (allContexts s) = []"
proof -
  have wf: "wf_interner (cfInterner s)" using inv by (simp add: cf_inv_def data_ok_def)
  have "ctxCallSite (materializeContext s c) \<noteq> site" if "c \<in> set (contexts s)" for c
    using that inv resolve_iff[OF wf, of "scSite c" site] assms(2)
    by (auto simp: cf_inv_def stored_valid_def materializeContext_def Let_def)
  then show ?thesis by (auto simp: allContexts_eq filter_empty_conv)
qed

lemma collect_live_Nil [simp]: "collect_live s P [] = []" "first_live s P [] = None"
  by (simp_all add: collect_live_def)

lemma first_live_first: "first_live s P v = first_of (collect_live s P v)"
  by (simp add: first_live_head first_of_def)

lemma site_queries:
  assumes inv: "cf_inv s"
  shows "contextsAtSite s site = filter (\<lambda>c. ctxCallSite c = site) (allContexts s)"
    and "contextAtSite s site = first_of (filter (\<lambda>c. ctxCallSite c = site) (allContexts s))"
    and "contextAtSiteFor s site n = first_of (filter (\<lambda>c. ctxCallSite c = site \<and>
           (ctxCallerUsr c = n \<or> ctxCallerName c = n)) (allContexts s))"
proof -
  have T: "(\<lambda>_. True) c = (\<lambda>_. True) (materializeContext s c)" for c :: StoredContext by simp
  have c: "collect_live s (\<lambda>_. True) (ulist (bySite s) i) = filter (\<lambda>c. ctxCallSite c = site) (allContexts s)"
    if "find_id (cfInterner s) site = Some i" for i
    using site_query[OF inv T that] by simp
  note ns = no_site[OF inv, of site "\<lambda>_. True", simplified]
  have cs: "(case map_of (bySite s) i of None \<Rightarrow> [] | Some v \<Rightarrow> collect_live s P v) = collect_live s P (ulist (bySite s) i)" for i P
    by (simp add: ulist_def split: option.split)
  have fs: "(case map_of (bySite s) i of None \<Rightarrow> None | Some v \<Rightarrow> first_live s P v) = first_of (collect_live s P (ulist (bySite s) i))" for i P
    by (simp add: ulist_def first_live_first split: option.split)
  show "contextsAtSite s site = filter (\<lambda>c. ctxCallSite c = site) (allContexts s)"
    by (cases "find_id (cfInterner s) site") (simp_all add: contextsAtSite_def ns c cs)
  show "contextAtSite s site = first_of (filter (\<lambda>c. ctxCallSite c = site) (allContexts s))"
    by (cases "find_id (cfInterner s) site") (simp_all add: contextAtSite_def ns c fs)
  show "contextAtSiteFor s site n = first_of (filter (\<lambda>c. ctxCallSite c = site \<and>
           (ctxCallerUsr c = n \<or> ctxCallerName c = n)) (allContexts s))"
  proof (cases "find_id (cfInterner s) site")
    case None
    then show ?thesis using no_site[OF inv None, of "\<lambda>c. ctxCallerUsr c = n \<or> ctxCallerName c = n"]
      by (simp add: contextAtSiteFor_def)
  next
    case (Some i)
    have wf: "wf_interner (cfInterner s)" using inv by (simp add: cf_inv_def data_ok_def)
    have v: "valid_id (cfInterner s) (scCaller c) \<and> valid_id (cfInterner s) (scCallerDisplay c)" if "c \<in> set (contexts s)" for c
      using inv that by (simp add: cf_inv_def stored_valid_def)
    have who: "(ctxCallerUsr (materializeContext s c) = n \<or> ctxCallerName (materializeContext s c) = n)
        = (find_id (cfInterner s) n = Some (scCaller c) \<or> find_id (cfInterner s) n = Some (scCallerDisplay c))"
      if "c \<in> set (contexts s)" for c
      using resolve_iff[OF wf, of _ n] v[OF that] by (simp add: materializeContext_def Let_def)
    show ?thesis
    proof (cases "find_id (cfInterner s) n")
      case None
      then have "filter (\<lambda>c. ctxCallSite c = site \<and> (ctxCallerUsr c = n \<or> ctxCallerName c = n)) (allContexts s) = []"
        using who by (auto simp: allContexts_eq filter_empty_conv)
      then show ?thesis using Some None by (simp add: contextAtSiteFor_def)
    next
      case (Some k)
      have q: "(scCaller c = k \<or> scCallerDisplay c = k) = (ctxCallerUsr (materializeContext s c) = n \<or> ctxCallerName (materializeContext s c) = n)"
        if "c \<in> set (contexts s)" for c using who[OF that] Some by auto
      show ?thesis using site_query[where Q="\<lambda>c. ctxCallerUsr c = n \<or> ctxCallerName c = n", OF inv q \<open>find_id (cfInterner s) site = Some i\<close>]
        by (simp add: contextAtSiteFor_def \<open>find_id (cfInterner s) site = Some i\<close> Some fs)
    qed
  qed
qed

subsection \<open>Concrete indexes\<close>

definition demo_scope :: TryCatchScope where
  "demo_scope = \<lparr>tryLocation = ''a:2'', enclosingFunction = ''f'',
     handlers = [\<lparr>caughtType = ''E'', isCatchAll = False, handlerLocation = ''a:4'', bodySummary = []\<rparr>],
     nestingDepth = 0\<rparr>"

definition demo_guard :: ConditionalGuard where
  "demo_guard = \<lparr>conditionText = ''p'', guardLocation = ''a:1'', inTrueBranch = True, isAssertion = False\<rparr>"

definition demo_ctx :: "string \<Rightarrow> string \<Rightarrow> string \<Rightarrow> string \<Rightarrow> TryCatchScope list \<Rightarrow> CallSiteContext" where
  "demo_ctx usr name site tu scopes =
     \<lparr>ctxCallerName = ''f'', ctxCalleeName = name, ctxCallSite = site, ctxCallerUsr = ''c:f'', ctxCalleeUsr = usr,
      ctxTuPath = tu, enclosingTryCatches = scopes, enclosingGuards = [demo_guard], callerNoexcept = NoSpec,
      insideCatchBlock = False,
      liveRaiiLocals = [\<lparr>typeName = ''std::lock_guard'', varName = ''l'', declLocation = ''a:1'', raiiKind = Lock\<rparr>]\<rparr>"

text \<open>Two units call \<open>g\<close>; the first one knows it by USR \<open>g\<close>, the second only by display name.\<close>

definition demo_log :: "CallSiteContext list" where
  "demo_log = [demo_ctx ''g'' ''g'' ''a:3'' ''a'' [demo_scope], demo_ctx ''c:g'' ''g'' ''b:7'' ''b'' []]"

definition demo_log2 :: "CallSiteContext list" where
  "demo_log2 = [demo_ctx ''c:h'' ''h'' ''c:9'' [] [demo_scope]]"

lemma demo_ok: "list_all context_ok (demo_log @ demo_log2)"
  by (simp add: demo_log_def demo_log2_def demo_ctx_def context_ok_def demo_scope_def scope_ok_def
      handler_ok_def str_ok_def demo_guard_def guard_ok_def)

lemma log_inv_empty:
  assumes "sum_list (map context_strings es) < 2 ^ 32" and "length es < 2 ^ 32" and "list_all context_ok es"
  shows "log_inv es empty_index"
  using assms cf_inv_empty
  by (simp add: log_inv_def index_room_def cf_room_def table_room_def cf_inv_def data_ok_def)
    (simp add: empty_index_def empty_interner_def)

lemma demo_inv: "log_inv demo_log empty_index" "log_inv demo_log2 empty_index" "log_inv (demo_log @ demo_log2) empty_index"
  using demo_ok
  by (intro log_inv_empty; simp add: demo_log_def demo_log2_def context_strings_def demo_ctx_def)+

definition small_index :: "ControlFlowIndex \<Rightarrow> bool" where
  "small_index s \<longleftrightarrow> length (strings (cfInterner s)) \<le> 50 \<and> length (scopeSets s) \<le> 50
     \<and> length (guardSets s) \<le> 50 \<and> length (raiiSets s) \<le> 50"

lemma small_merge: "small_index shard \<Longrightarrow> small_index s \<Longrightarrow> merge_room shard s"
  by (simp add: small_index_def merge_room_def)

lemma demo_small: "small_index (scan demo_log)" "small_index (scan demo_log2)"
  by code_simp+

lemma cf_built_scan:
  assumes "log_inv es s" and "cf_built s"
  shows "cf_built (fold addCallSiteContext es s)"
  using assms
proof (induction es arbitrary: s)
  case (Cons e es)
  have L: "log_inv (e # es) s" by (rule Cons.prems(1))
  then have "index_room (context_strings e) 1 s" "context_ok e"
    by (auto simp: log_inv_def intro: index_room_mono)
  then have "cf_built (addCallSiteContext e s)" by (rule cf_built.add[OF Cons.prems(2)])
  from Cons.IH[OF cf.inv_add[OF L] this] show ?case by simp
qed simp

lemma built_demo_scan: "cf_built (scan demo_log)" "cf_built (scan demo_log2)"
  using cf_built_scan[OF demo_inv(1) cf_built.empty] cf_built_scan[OF demo_inv(2) cf_built.empty]
  by (simp_all add: scan_def)

lemma built_demo_merge: "cf_built (absorbIndex (scan demo_log2) (scan demo_log))"
  by (rule cf_built.merge[OF built_demo_scan small_merge[OF demo_small(2,1)]])

subsection \<open>Properties\<close>



text \<open>C6: Removing translation units from a scanned index leaves the contexts, in order, of an index
  scanned without the contexts those units own (by recorded unit, or by the site prefix when
  none is recorded), and the number returned is the number of contexts that went.\<close>

theorem removeContexts_rescan:
  assumes "log_inv es empty_index"
  shows "allContexts (snd (removeContexts ts (scan es))) = allContexts (scan (filter (\<lambda>c. \<not> removed_from ts c) es))
       \<and> fst (removeContexts ts (scan es)) = length (filter (removed_from ts) es)
       \<and> contextCount (snd (removeContexts ts (scan es))) = length (filter (\<lambda>c. \<not> removed_from ts c) es)"
proof -
  note R = cf.remove_is_rebuild[OF assms allContexts_empty, of ts, unfolded register_scan drop_contexts_def]
  note C = cf.register_content[OF assms, unfolded register_scan allContexts_empty append_Nil]
  have inv: "cf_inv (scan es)" using C(1) by (simp add: log_inv_def)
  note S = removeContexts_spec[OF inv, of ts]
  have live: "contextCount s = length (allContexts s)" if "cf_inv s" for s
    using that by (simp add: contextCount_def allContexts_eq cf_inv_def maps_ok_def)
  have k: "removed_from ts \<circ> normalise = removed_from ts" by (rule ext) (simp add: cf.owned_norm)
  have k2: "(\<lambda>c. \<not> removed_from ts c) \<circ> normalise = (\<lambda>c. \<not> removed_from ts c)" by (rule ext) (simp add: cf.owned_norm)
  have "fst (removeContexts ts (scan es)) = length (filter (removed_from ts) es)"
    unfolding S(3) C(2) by (simp add: filter_map k)
  moreover have "contextCount (snd (removeContexts ts (scan es))) = length (filter (\<lambda>c. \<not> removed_from ts c) es)"
    unfolding live[OF S(1)] S(2) C(2) by (simp add: filter_map k2)
  ultimately show ?thesis using R by blast
qed

theorem removeContexts_rescan_witness:
  "allContexts (snd (removeContexts [''a''] (scan demo_log))) = allContexts (scan (filter (\<lambda>c. \<not> removed_from [''a''] c) demo_log))"
  using removeContexts_rescan[OF demo_inv(1), of "[''a'']"] by blast

text \<open>Scanning in shards is scanning in sequence: the index of one worker merged into that of
  another lists the same contexts, in the same order, as one index fed both streams.\<close>

theorem sharded_scan:
  assumes "log_inv (es @ fs) empty_index" and "log_inv es empty_index" and "log_inv fs empty_index"
    and "merge_room (scan fs) (scan es)"
  shows "allContexts (absorbIndex (scan fs) (scan es)) = allContexts (scan (es @ fs))"
  using cf.merge_is_register[OF assms(1-3) allContexts_empty] assms(4) by (simp add: register_scan)

theorem sharded_scan_witness:
  "allContexts (absorbIndex (scan demo_log2) (scan demo_log)) = allContexts (scan (demo_log @ demo_log2))"
  by (rule sharded_scan[OF demo_inv(3,1,2) small_merge[OF demo_small(2,1)]])

text \<open>After \<open>compact\<close> (and on any built index without emptied keys) the name queries are
  filters of the context list: by USR when some context has the queried USR, else by display
  name; protected and unprotected calls are the two halves of the callee query.  Compaction
  itself leaves the context list as it was.\<close>

theorem compact_queries:
  assumes "cf_built s"
  shows "allContexts (compactIndex s) = allContexts s
       \<and> contextsForCallee (compactIndex s) n = filter (named ctxCalleeUsr ctxCalleeName (allContexts s) n) (allContexts s)
       \<and> contextsForCaller (compactIndex s) n = filter (named ctxCallerUsr ctxCallerName (allContexts s) n) (allContexts s)
       \<and> protectedCallsTo (compactIndex s) n = filter (\<lambda>c. enclosingTryCatches c \<noteq> []) (contextsForCallee (compactIndex s) n)
       \<and> unprotectedCallsTo (compactIndex s) n = filter (\<lambda>c. enclosingTryCatches c = []) (contextsForCallee (compactIndex s) n)"
proof -
  note K = compactIndex_spec[OF cf_built_inv[OF assms]]
  show ?thesis using name_queries[OF K(1,3), of n] by (simp only: K(2))
qed

theorem compact_queries_witness:
  "allContexts (compactIndex (absorbIndex (scan demo_log2) (scan demo_log))) = allContexts (absorbIndex (scan demo_log2) (scan demo_log))"
  using compact_queries[OF built_demo_merge] by blast

text \<open>The site queries on any built index: all contexts of the site in order, the first of them,
  and the first whose caller has the given USR or display name.\<close>

theorem site_lookup:
  assumes "cf_built s"
  shows "contextsAtSite s site = filter (\<lambda>c. ctxCallSite c = site) (allContexts s)
       \<and> contextAtSite s site = first_of (filter (\<lambda>c. ctxCallSite c = site) (allContexts s))
       \<and> contextAtSiteFor s site n = first_of (filter (\<lambda>c. ctxCallSite c = site \<and>
           (ctxCallerUsr c = n \<or> ctxCallerName c = n)) (allContexts s))"
  using site_queries[OF cf_built_inv[OF assms]] by blast

theorem site_lookup_witness: "contextsAtSite (scan demo_log) ''b:7'' = [demo_ctx ''c:g'' ''g'' ''b:7'' ''b'' []]"
proof -
  have "filter (\<lambda>c. ctxCallSite c = ''b:7'') (allContexts (scan demo_log)) = [demo_ctx ''c:g'' ''g'' ''b:7'' ''b'' []]"
    by code_simp
  then show ?thesis using site_lookup[OF built_demo_scan(1)] by simp
qed

text \<open>Between \<open>removeTUs\<close> and \<open>compact\<close> a context can be unreachable by name: the emptied
  vector of the removed USR \<open>g\<close> stays in \<open>byCallee_\<close> and hides the display-name entry, so
  the live call to \<open>g\<close> from the other unit is not reported until the index is compacted.\<close>

theorem removed_usr_hides_display_name:
  "let s = snd (removeContexts [''a''] (scan demo_log)) in
     map ctxCalleeName (allContexts s) = [''g''] \<and> contextsForCallee s ''g'' = [] \<and>
     unprotectedCallsTo s ''g'' = [] \<and> contextsForCallee (compactIndex s) ''g'' = allContexts s"
  by code_simp

end
