(* ===== verification/Channel.thy ===== *)
theory Channel
  imports ControlFlow TuStore
begin

text \<open>
  \<open>class ChannelIndex\<close> (include/vycor/callgraph/ChannelIndex.h, src/callgraph/ChannelIndex.cpp):
  the producer and consumer sites of channels, deduplicated by content with a registration count
  per site and a list of site indices per translation unit.  The mutex and the move operations
  have no sequential effect; the count \<open>refs\<close> is taken as unbounded (a wrap of the 32-bit
  counter needs \<open>2 ^ 32\<close> registrations of one site).
\<close>

datatype ChannelOperation = Produce | Consume

record ChannelTypeSpec =
  qualifiedTypeName :: string
  produceMethods :: "string list"
  consumeMethods :: "string list"
  specCategory :: string

record ChannelSite =
  channelId :: string
  channelTypeName :: string
  category :: string
  op :: ChannelOperation
  siteFunctionUsr :: string
  siteFunctionDisplay :: string
  chCallSite :: string
  chEnclosingGuards :: "ConditionalGuard list"
  chTuPath :: string

record StoredSite =
  site :: ChannelSite
  siteRefs :: nat
  siteLive :: bool

datatype SiteKey = SiteKey string string string ChannelOperation

definition siteKey :: "ChannelSite \<Rightarrow> SiteKey" where
  "siteKey s = SiteKey (channelId s) (chCallSite s) (siteFunctionUsr s) (op s)"

record ChannelIndex =
  sites :: "StoredSite list"
  siteIndex :: "(SiteKey, nat) umap"
  byChannel :: "(string, nat list) umap"
  byFunctionUsr :: "(string, nat list) umap"
  byFunctionDisplay :: "(string, nat list) umap"
  chByTu :: "(string, nat list) umap"
  chLiveCount :: nat

definition empty_channels :: ChannelIndex where
  "empty_channels = \<lparr>sites = [], siteIndex = [], byChannel = [], byFunctionUsr = [],
     byFunctionDisplay = [], chByTu = [], chLiveCount = 0\<rparr>"

subsection \<open>Registration\<close>

definition probe_site :: "ChannelSite \<Rightarrow> ChannelIndex \<Rightarrow> nat \<times> ChannelIndex" where
  \<comment> \<open>the first part of \<open>addSite\<close>: find or insert the site, and its index\<close>
  "probe_site s c =
     (case map_of (siteIndex c) (siteKey s) of
        Some idx \<Rightarrow>
          (idx, c\<lparr>sites := (sites c)[idx := (sites c ! idx)\<lparr>siteRefs := Suc (siteRefs (sites c ! idx))\<rparr>]\<rparr>)
      | None \<Rightarrow>
          (let idx = length (sites c) in
           (idx, c\<lparr>sites := sites c @ [\<lparr>site = s, siteRefs = 1, siteLive = True\<rparr>],
                   siteIndex := uemplace (siteKey s) idx (siteIndex c),
                   byChannel := upush (channelId s) idx (byChannel c),
                   byFunctionUsr := upush (siteFunctionUsr s) idx (byFunctionUsr c),
                   byFunctionDisplay :=
                     (if siteFunctionDisplay s \<noteq> siteFunctionUsr s
                      then upush (siteFunctionDisplay s) idx (byFunctionDisplay c) else byFunctionDisplay c),
                   chLiveCount := Suc (chLiveCount c)\<rparr>)))"

definition addSite :: "ChannelSite \<Rightarrow> ChannelIndex \<Rightarrow> ChannelIndex" where
  "addSite s c =
     (let (idx, c1) = probe_site s c in
      if chTuPath s \<noteq> [] then c1\<lparr>chByTu := upush (chTuPath s) idx (chByTu c1)\<rparr> else c1)"

subsection \<open>Queries\<close>

definition collect_sites :: "ChannelIndex \<Rightarrow> (ChannelSite \<Rightarrow> bool) \<Rightarrow> nat list \<Rightarrow> ChannelSite list" where
  \<comment> \<open>the loop \<open>if (s.live && P) result.push_back(s.site)\<close>\<close>
  "collect_sites c P idxs =
     fold (\<lambda>i result. if siteLive (sites c ! i) \<and> P (site (sites c ! i))
                      then result @ [site (sites c ! i)] else result) idxs []"

definition producersOf :: "ChannelIndex \<Rightarrow> string \<Rightarrow> ChannelSite list" where
  "producersOf c ch =
     (case map_of (byChannel c) ch of
        None \<Rightarrow> [] | Some v \<Rightarrow> collect_sites c (\<lambda>s. op s = Produce) v)"

definition consumersOf :: "ChannelIndex \<Rightarrow> string \<Rightarrow> ChannelSite list" where
  "consumersOf c ch =
     (case map_of (byChannel c) ch of
        None \<Rightarrow> [] | Some v \<Rightarrow> collect_sites c (\<lambda>s. op s = Consume) v)"

definition sitesForFunction :: "ChannelIndex \<Rightarrow> string \<Rightarrow> ChannelSite list" where
  "sitesForFunction c f =
     (let collect = (\<lambda>m. case map_of m f of None \<Rightarrow> [] | Some v \<Rightarrow> collect_sites c (\<lambda>_. True) v)
      in collect (byFunctionUsr c) @ collect (byFunctionDisplay c))"

definition allChannelIds :: "ChannelIndex \<Rightarrow> string list" where
  "allChannelIds c =
     map fst (filter (\<lambda>(k, v). list_ex (\<lambda>i. siteLive (sites c ! i)) v) (byChannel c))"

definition allSites :: "ChannelIndex \<Rightarrow> ChannelSite list" where
  "allSites c = fold (\<lambda>s result. if siteLive s then result @ [site s] else result) (sites c) []"

definition channelSize :: "ChannelIndex \<Rightarrow> nat" where
  "channelSize c = chLiveCount c"

subsection \<open>Merging\<close>

definition absorbChannels :: "ChannelIndex \<Rightarrow> ChannelIndex \<Rightarrow> ChannelIndex" where
  "absorbChannels shard c =
     fold (\<lambda>stored c. if \<not> siteLive stored then c else (addSite (site stored) ^^ siteRefs stored) c)
       (sites shard) c"

subsection \<open>Removal\<close>

record SiteRelease =
  srIndex :: ChannelIndex
  srDead :: "nat set"
  srChannels :: "string list"
  srFuncUsr :: "string list"
  srFuncDisplay :: "string list"
  srRemoved :: nat

definition release_site :: "nat \<Rightarrow> SiteRelease \<Rightarrow> SiteRelease" where
  "release_site idx r =
     (let c = srIndex r; se = sites c ! idx in
      if siteRefs se = 0 then r
      else
        let se1 = se\<lparr>siteRefs := siteRefs se - 1\<rparr> in
        if siteRefs se1 > 0 then r\<lparr>srIndex := c\<lparr>sites := (sites c)[idx := se1]\<rparr>\<rparr>
        else r\<lparr>srDead := insert idx (srDead r),
               srChannels := List.insert (channelId (site se)) (srChannels r),
               srFuncUsr := List.insert (siteFunctionUsr (site se)) (srFuncUsr r),
               srFuncDisplay :=
                 (if siteFunctionDisplay (site se) \<noteq> siteFunctionUsr (site se)
                  then List.insert (siteFunctionDisplay (site se)) (srFuncDisplay r) else srFuncDisplay r),
               srIndex := c\<lparr>siteIndex := AList.delete (siteKey (site se)) (siteIndex c),
                            sites := (sites c)[idx := se1\<lparr>siteLive := False\<rparr>],
                            chLiveCount := chLiveCount c - 1\<rparr>,
               srRemoved := Suc (srRemoved r)\<rparr>)"

definition release_unit :: "string \<Rightarrow> SiteRelease \<Rightarrow> SiteRelease" where
  "release_unit tuPath r =
     (case map_of (chByTu (srIndex r)) tuPath of
        None \<Rightarrow> r
      | Some idxs \<Rightarrow>
          (let r1 = fold release_site idxs r
           in r1\<lparr>srIndex := (srIndex r1)\<lparr>chByTu := AList.delete tuPath (chByTu (srIndex r1))\<rparr>\<rparr>))"

definition scrub_row :: "nat set \<Rightarrow> string \<Rightarrow> (string, nat list) umap \<Rightarrow> (string, nat list) umap" where
  "scrub_row dead k m =
     (case map_of m k of
        None \<Rightarrow> m
      | Some v \<Rightarrow> (let v1 = filter (\<lambda>i. i \<notin> dead) v in
                  if v1 = [] then AList.delete k m else AList.update k v1 m))"

definition removeSites :: "string list \<Rightarrow> ChannelIndex \<Rightarrow> nat \<times> ChannelIndex" where
  \<comment> \<open>\<open>ChannelIndex::removeTUs\<close>\<close>
  "removeSites tuPaths c =
     (let r = fold release_unit tuPaths
                \<lparr>srIndex = c, srDead = {}, srChannels = [], srFuncUsr = [], srFuncDisplay = [], srRemoved = 0\<rparr>;
          c1 = srIndex r
      in (srRemoved r,
          c1\<lparr>byChannel := fold (scrub_row (srDead r)) (srChannels r) (byChannel c1),
             byFunctionUsr := fold (scrub_row (srDead r)) (srFuncUsr r) (byFunctionUsr c1),
             byFunctionDisplay := fold (scrub_row (srDead r)) (srFuncDisplay r) (byFunctionDisplay c1)\<rparr>))"

definition removeSitesOf :: "string \<Rightarrow> ChannelIndex \<Rightarrow> nat \<times> ChannelIndex" where
  \<comment> \<open>\<open>ChannelIndex::removeTU\<close>\<close>
  "removeSitesOf tuPath c = removeSites [tuPath] c"

subsection \<open>Compaction\<close>

fun compact_sites :: "StoredSite list \<Rightarrow> StoredSite list \<times> nat option list \<Rightarrow> StoredSite list \<times> nat option list" where
  \<comment> \<open>the new sites and, for every old index, the new one (\<open>None\<close> is \<open>static_cast<size_t>(-1)\<close>)\<close>
  "compact_sites [] acc = acc"
| "compact_sites (s # ss) (newSites, oldToNew) =
     compact_sites ss (if \<not> siteLive s then (newSites, oldToNew @ [None])
                       else (newSites @ [s], oldToNew @ [Some (length newSites)]))"

definition remapInto :: "nat option list \<Rightarrow> (string, nat list) umap \<Rightarrow> (string, nat list) umap" where
  "remapInto oldToNew src =
     fold (\<lambda>(k, v) dst. let nv = List.map_filter (\<lambda>i. oldToNew ! i) v in
                        if nv = [] then dst else uemplace k nv dst) src []"

definition remapKeys :: "nat option list \<Rightarrow> (SiteKey, nat) umap \<Rightarrow> (SiteKey, nat) umap" where
  "remapKeys oldToNew src =
     fold (\<lambda>(k, i) dst. case oldToNew ! i of None \<Rightarrow> dst | Some j \<Rightarrow> uemplace k j dst) src []"

definition compactChannels :: "ChannelIndex \<Rightarrow> ChannelIndex" where
  "compactChannels c =
     (let (newSites, oldToNew) = compact_sites (sites c) ([], []) in
      c\<lparr>sites := newSites, siteIndex := remapKeys oldToNew (siteIndex c),
        byChannel := remapInto oldToNew (byChannel c),
        byFunctionUsr := remapInto oldToNew (byFunctionUsr c),
        byFunctionDisplay := remapInto oldToNew (byFunctionDisplay c),
        chByTu := remapInto oldToNew (chByTu c)\<rparr>)"

end
