(* ===== verification/ChannelSpec.thy ===== *)
theory ChannelSpec
  imports Channel
begin

text \<open>
  The representation invariant of \<open>ChannelIndex\<close> and what its mutators do to the registration
  counts: the contract of \<open>TuStore\<close>, proved for the model.
\<close>

subsection \<open>Invariant\<close>

definition rows_ok :: "(ChannelSite \<Rightarrow> string option) \<Rightarrow> (string, nat list) umap \<Rightarrow> StoredSite list \<Rightarrow> bool" where
  "rows_ok sel m ss \<longleftrightarrow> distinct (ukeys m) \<and>
     (\<forall>k. ulist m k = positions (\<lambda>s. siteLive s \<and> sel (site s) = Some k) ss)"

definition display_row :: "ChannelSite \<Rightarrow> string option" where
  "display_row s = (if siteFunctionDisplay s \<noteq> siteFunctionUsr s then Some (siteFunctionDisplay s) else None)"

definition site_at :: "StoredSite list \<Rightarrow> SiteKey \<Rightarrow> nat \<Rightarrow> bool" where
  "site_at ss k i \<longleftrightarrow> i < length ss \<and> siteLive (ss ! i) \<and> siteKey (site (ss ! i)) = k"

definition index_exact :: "(SiteKey, nat) umap \<Rightarrow> StoredSite list \<Rightarrow> bool" where
  "index_exact m ss \<longleftrightarrow> distinct (ukeys m) \<and> (\<forall>k i. map_of m k = Some i \<longleftrightarrow> site_at ss k i)"

definition refs_backed :: "(string, nat list) umap \<Rightarrow> StoredSite list \<Rightarrow> bool" where
  "refs_backed m ss \<longleftrightarrow> distinct (ukeys m) \<and>
     (\<forall>i. ucount m i \<le> (if i < length ss then siteRefs (ss ! i) else 0))"

definition ch_inv :: "ChannelIndex \<Rightarrow> bool" where
  "ch_inv c \<longleftrightarrow>
     rows_ok (\<lambda>s. Some (channelId s)) (byChannel c) (sites c) \<and>
     rows_ok (\<lambda>s. Some (siteFunctionUsr s)) (byFunctionUsr c) (sites c) \<and>
     rows_ok display_row (byFunctionDisplay c) (sites c) \<and>
     index_exact (siteIndex c) (sites c) \<and> refs_backed (chByTu c) (sites c) \<and>
     (\<forall>s \<in> set (sites c). siteLive s \<longleftrightarrow> siteRefs s > 0) \<and>
     chLiveCount c = length (filter siteLive (sites c))"

lemma ch_invD:
  assumes "ch_inv c"
  shows "rows_ok (\<lambda>s. Some (channelId s)) (byChannel c) (sites c)"
    and "rows_ok (\<lambda>s. Some (siteFunctionUsr s)) (byFunctionUsr c) (sites c)"
    and "rows_ok display_row (byFunctionDisplay c) (sites c)"
    and "index_exact (siteIndex c) (sites c)" and "refs_backed (chByTu c) (sites c)"
    and "i < length (sites c) \<Longrightarrow> siteLive (sites c ! i) \<longleftrightarrow> siteRefs (sites c ! i) > 0"
    and "chLiveCount c = length (filter siteLive (sites c))"
  using assms by (auto simp: ch_inv_def)

lemma ch_inv_empty: "ch_inv empty_channels"
  by (simp add: ch_inv_def empty_channels_def rows_ok_def index_exact_def refs_backed_def site_at_def)

definition site_refs :: "ChannelIndex \<Rightarrow> SiteKey \<Rightarrow> nat" where
  "site_refs c k = (case map_of (siteIndex c) k of None \<Rightarrow> 0 | Some i \<Rightarrow> siteRefs (sites c ! i))"

definition tu_site_refs :: "ChannelIndex \<Rightarrow> string \<Rightarrow> SiteKey \<Rightarrow> nat" where
  "tu_site_refs c t k =
     (case map_of (siteIndex c) k of None \<Rightarrow> 0 | Some i \<Rightarrow> count_list (ulist (chByTu c) t) i)"

lemma index_exactD: "index_exact m ss \<Longrightarrow> map_of m k = Some i \<longleftrightarrow> site_at ss k i"
  by (simp add: index_exact_def)

lemma rows_push:
  assumes "rows_ok sel m ss" and "siteLive s" and "sel (site s) = Some k"
  shows "rows_ok sel (upush k (length ss) m) (ss @ [s])"
  using assms by (auto simp: rows_ok_def umap_simps)

lemma rows_skip:
  assumes "rows_ok sel m ss" and "sel (site s) = None"
  shows "rows_ok sel m (ss @ [s])"
  using assms by (auto simp: rows_ok_def)

lemma rows_update:
  assumes "rows_ok sel m ss" and "i < length ss" and "site s = site (ss ! i)" and "siteLive s = siteLive (ss ! i)"
  shows "rows_ok sel m (ss[i := s])"
  using assms by (auto simp: rows_ok_def positions_list_update)

lemma filter_live_update: "i < length ss \<Longrightarrow> siteLive s = siteLive (ss ! i) \<Longrightarrow>
    length (filter siteLive (ss[i := s])) = length (filter siteLive ss)"
  unfolding length_filter_conv_card by (rule arg_cong[of _ _ card]) (auto simp: nth_list_update)

lemma refs_backed_range: "refs_backed m ss \<Longrightarrow> i \<in> set (ulist m t) \<Longrightarrow> i < length ss"
  using set_ulist_ucount[of m i t] by (auto simp: refs_backed_def split: if_splits dest!: spec[of _ i])

subsection \<open>Registration\<close>

lemma probe_site_old:
  assumes inv: "ch_inv c" and old: "map_of (siteIndex c) (siteKey s) = Some i"
  shows "ch_inv (snd (probe_site s c))" and "fst (probe_site s c) = i"
    and "siteIndex (snd (probe_site s c)) = siteIndex c" and "chByTu (snd (probe_site s c)) = chByTu c"
    and "sites (snd (probe_site s c)) = (sites c)[i := (sites c ! i)\<lparr>siteRefs := Suc (siteRefs (sites c ! i))\<rparr>]"
proof -
  note I = ch_invD[OF inv]
  have i: "i < length (sites c)" "siteLive (sites c ! i)"
    using old index_exactD[OF I(4)] by (auto simp: site_at_def)
  let ?s = "(sites c ! i)\<lparr>siteRefs := Suc (siteRefs (sites c ! i))\<rparr>"
  let ?ss = "(sites c)[i := ?s]"
  have p: "probe_site s c = (i, c\<lparr>sites := ?ss\<rparr>)" using old by (simp add: probe_site_def)
  have at: "site_at ?ss k j = site_at (sites c) k j" for k j
    by (cases "j = i") (auto simp: site_at_def nth_list_update)
  have "\<forall>x \<in> set ?ss. siteLive x \<longleftrightarrow> siteRefs x > 0"
    using I(6) i by (auto simp: in_set_conv_nth nth_list_update split: if_splits)
  moreover have "ucount (chByTu c) j \<le> (if j < length ?ss then siteRefs (?ss ! j) else 0)" for j
    using I(5) i by (cases "j = i") (auto simp: refs_backed_def dest!: spec[of _ j])
  ultimately show "ch_inv (snd (probe_site s c))"
    using I i unfolding p
    by (simp add: ch_inv_def rows_update index_exact_def at refs_backed_def filter_live_update)
qed (use old in \<open>simp_all add: probe_site_def\<close>)

lemma probe_site_new:
  assumes inv: "ch_inv c" and new: "map_of (siteIndex c) (siteKey s) = None"
  shows "ch_inv (snd (probe_site s c))" and "fst (probe_site s c) = length (sites c)"
    and "map_of (siteIndex (snd (probe_site s c))) = (map_of (siteIndex c))(siteKey s \<mapsto> length (sites c))"
    and "chByTu (snd (probe_site s c)) = chByTu c"
    and "sites (snd (probe_site s c)) = sites c @ [\<lparr>site = s, siteRefs = 1, siteLive = True\<rparr>]"
proof -
  note I = ch_invD[OF inv]
  let ?s = "\<lparr>site = s, siteRefs = 1, siteLive = True\<rparr>" and ?n = "length (sites c)"
  let ?disp = "if siteFunctionDisplay s \<noteq> siteFunctionUsr s
    then upush (siteFunctionDisplay s) ?n (byFunctionDisplay c) else byFunctionDisplay c"
  have p: "snd (probe_site s c) = c\<lparr>sites := sites c @ [?s], siteIndex := uemplace (siteKey s) ?n (siteIndex c),
      byChannel := upush (channelId s) ?n (byChannel c), byFunctionUsr := upush (siteFunctionUsr s) ?n (byFunctionUsr c),
      byFunctionDisplay := ?disp, chLiveCount := Suc (chLiveCount c)\<rparr>"
    using new by (simp add: probe_site_def Let_def)
  have none: "\<not> site_at (sites c) (siteKey s) i" for i using new index_exactD[OF I(4)] by (metis option.distinct(1))
  have ix: "index_exact (uemplace (siteKey s) ?n (siteIndex c)) (sites c @ [?s])"
    using I(4) new none by (auto simp: index_exact_def umap_simps site_at_def nth_append)
  have disp: "rows_ok display_row ?disp (sites c @ [?s])"
    using rows_push[OF I(3), of ?s "siteFunctionDisplay s"] rows_skip[OF I(3), of ?s]
    by (simp add: display_row_def)
  have backed: "refs_backed (chByTu c) (sites c @ [?s])"
    using I(5) by (auto simp: refs_backed_def nth_append split: if_splits dest: spec)
  have live: "\<forall>x \<in> set (sites c @ [?s]). siteLive x \<longleftrightarrow> siteRefs x > 0"
    using I(6) by (auto simp: in_set_conv_nth)
  show "ch_inv (snd (probe_site s c))"
    unfolding p using ix disp backed live rows_push[OF I(1), of ?s "channelId s"] rows_push[OF I(2), of ?s "siteFunctionUsr s"] I(7)
    by (simp add: ch_inv_def)
  show "map_of (siteIndex (snd (probe_site s c))) = (map_of (siteIndex c))(siteKey s \<mapsto> ?n)"
    using new unfolding p by (auto simp: umap_simps)
qed (use new in \<open>simp_all add: probe_site_def Let_def\<close>)

lemma push_unit:
  assumes inv: "ch_inv c" and i: "i < length (sites c)" and room: "ucount (chByTu c) i < siteRefs (sites c ! i)"
  shows "ch_inv (c\<lparr>chByTu := upush t i (chByTu c)\<rparr>)"
proof -
  have b: "refs_backed (chByTu c) (sites c)" by (rule ch_invD(5)[OF inv])
  then have d: "distinct (ukeys (chByTu c))" by (simp add: refs_backed_def)
  have "ucount (upush t i (chByTu c)) j \<le> (if j < length (sites c) then siteRefs (sites c ! j) else 0)" for j
    using b i room unfolding ucount_upush[OF d] refs_backed_def by (cases "j = i") (auto dest: spec[of _ j])
  then have "refs_backed (upush t i (chByTu c)) (sites c)" using d by (simp add: refs_backed_def)
  then show ?thesis using inv by (simp add: ch_inv_def)
qed

lemma addSite_spec:
  assumes inv: "ch_inv c"
  shows "ch_inv (addSite s c)"
    and "site_refs (addSite s c) k = site_refs c k + (if k = siteKey s then 1 else 0)"
    and "tu_site_refs (addSite s c) u k =
           tu_site_refs c u k + (if chTuPath s \<noteq> [] \<and> u = chTuPath s \<and> k = siteKey s then 1 else 0)"
proof -
  note I = ch_invD[OF inv]
  have uc: "ucount (chByTu c) j \<le> (if j < length (sites c) then siteRefs (sites c ! j) else 0)" for j
    using I(5) by (simp add: refs_backed_def)
  have "ch_inv (addSite s c) \<and> site_refs (addSite s c) k = site_refs c k + (if k = siteKey s then 1 else 0)
    \<and> tu_site_refs (addSite s c) u k = tu_site_refs c u k + (if chTuPath s \<noteq> [] \<and> u = chTuPath s \<and> k = siteKey s then 1 else 0)"
  proof (cases "map_of (siteIndex c) (siteKey s)")
    case (Some i)
    note P = probe_site_old[OF inv Some]
    have ii: "i < length (sites c)" "siteKey (site (sites c ! i)) = siteKey s"
      using Some index_exactD[OF I(4)] by (auto simp: site_at_def)
    obtain c1 where p: "probe_site s c = (i, c1)" using P(2) by (metis prod.collapse)
    have c1: "ch_inv c1" "siteIndex c1 = siteIndex c" "chByTu c1 = chByTu c"
      "sites c1 = (sites c)[i := (sites c ! i)\<lparr>siteRefs := Suc (siteRefs (sites c ! i))\<rparr>]" using P p by simp_all
    have "ucount (chByTu c1) i < siteRefs (sites c1 ! i)" using uc[of i] ii by (simp add: c1)
    then have "ch_inv (c1\<lparr>chByTu := upush t i (chByTu c1)\<rparr>)" for t
      using c1 ii by (intro push_unit) simp_all
    moreover have "j = i \<longleftrightarrow> k = siteKey s" if "map_of (siteIndex c) k = Some j" for j
      using Some that ii(2) index_exactD[OF I(4), of k j] by (auto simp: site_at_def)
    ultimately show ?thesis using c1 ii Some
      by (auto simp: addSite_def p site_refs_def tu_site_refs_def umap_simps split: option.split)
  next
    case None
    note P = probe_site_new[OF inv None]
    let ?n = "length (sites c)"
    obtain c1 where p: "probe_site s c = (?n, c1)" using P(2) by (metis prod.collapse)
    have c1: "ch_inv c1" "map_of (siteIndex c1) = (map_of (siteIndex c))(siteKey s \<mapsto> ?n)" "chByTu c1 = chByTu c"
      "sites c1 = sites c @ [\<lparr>site = s, siteRefs = 1, siteLive = True\<rparr>]" using P p by simp_all
    have z: "ucount (chByTu c) ?n = 0" using uc[of ?n] by simp
    have d: "distinct (ukeys (chByTu c))" using I(5) by (simp add: refs_backed_def)
    have cz: "count_list (ulist (chByTu c) t) ?n = 0" for t
      using count_list_le_ucount[OF d, of t ?n] z by simp
    have "ch_inv (c1\<lparr>chByTu := upush t ?n (chByTu c1)\<rparr>)" for t
      using c1 z by (intro push_unit) simp_all
    moreover have "j < ?n" if "map_of (siteIndex c) k = Some j" for j
      using that index_exactD[OF I(4)] by (auto simp: site_at_def)
    ultimately show ?thesis using c1 None cz
      by (auto simp: addSite_def p site_refs_def tu_site_refs_def umap_simps nth_append split: option.split)
  qed
  then show "ch_inv (addSite s c)" "site_refs (addSite s c) k = site_refs c k + (if k = siteKey s then 1 else 0)"
    "tu_site_refs (addSite s c) u k =
       tu_site_refs c u k + (if chTuPath s \<noteq> [] \<and> u = chTuPath s \<and> k = siteKey s then 1 else 0)" by blast+
qed

subsection \<open>Merging\<close>

lemma addSite_times:
  assumes "ch_inv c"
  shows "ch_inv ((addSite s ^^ n) c) \<and> site_refs ((addSite s ^^ n) c) k = site_refs c k + (if k = siteKey s then n else 0)"
  by (induction n) (use assms in \<open>simp_all add: addSite_spec\<close>)

lemma sum_keys:
  assumes "index_exact m ss"
  shows "(\<Sum>s \<leftarrow> filter siteLive ss. if siteKey (site s) = k then siteRefs s else 0)
       = (case map_of m k of None \<Rightarrow> 0 | Some i \<Rightarrow> siteRefs (ss ! i))"
proof -
  let ?f = "\<lambda>i. if siteLive (ss ! i) \<and> siteKey (site (ss ! i)) = k then siteRefs (ss ! i) else 0"
  have "(\<Sum>s \<leftarrow> filter siteLive ss. if siteKey (site s) = k then siteRefs s else 0)
      = (\<Sum>s \<leftarrow> ss. if siteLive s \<and> siteKey (site s) = k then siteRefs s else 0)"
    by (induction ss) auto
  also have "\<dots> = (\<Sum>i < length ss. ?f i)" by (simp add: sum_list_sum_nth atLeast0LessThan)
  also have "\<dots> = (case map_of m k of None \<Rightarrow> 0 | Some i \<Rightarrow> siteRefs (ss ! i))"
  proof (cases "map_of m k")
    case None
    then have "\<not> site_at ss k i" for i using index_exactD[OF assms] by (metis option.distinct(1))
    then show ?thesis using None by (auto simp: site_at_def intro: sum.neutral)
  next
    case (Some j)
    then have j: "site_at ss k j" using index_exactD[OF assms] by blast
    have u: "i = j" if "site_at ss k i" for i using that Some index_exactD[OF assms, of k i] by simp
    have fi: "(siteLive (ss ! i) \<and> siteKey (site (ss ! i)) = k) = (i = j)" if "i \<in> {..<length ss}" for i
    proof (cases "i = j")
      case True
      then show ?thesis using j by (simp add: site_at_def)
    next
      case False
      then have "\<not> site_at ss k i" using u[of i] by blast
      then show ?thesis using that False by (simp add: site_at_def)
    qed
    have "(\<Sum>i < length ss. ?f i) = (\<Sum>i < length ss. if i = j then siteRefs (ss ! j) else 0)"
      by (rule sum.cong[OF refl]) (simp only: fi split: if_split; blast)
    then show ?thesis using j Some by (simp add: site_at_def)
  qed
  finally show ?thesis .
qed

lemma absorbChannels_spec:
  assumes inv: "ch_inv c" and sh: "ch_inv shard"
  shows "ch_inv (absorbChannels shard c)"
    and "site_refs (absorbChannels shard c) k = site_refs c k + site_refs shard k"
proof -
  have "ch_inv (fold (\<lambda>stored c. if \<not> siteLive stored then c else (addSite (site stored) ^^ siteRefs stored) c) ss c)
      \<and> site_refs (fold (\<lambda>stored c. if \<not> siteLive stored then c else (addSite (site stored) ^^ siteRefs stored) c) ss c) k
        = site_refs c k + (\<Sum>s \<leftarrow> filter siteLive ss. if siteKey (site s) = k then siteRefs s else 0)" for ss
    using inv
  proof (induction ss arbitrary: c)
    case (Cons s ss)
    show ?case using Cons.IH[of "(addSite (site s) ^^ siteRefs s) c"] Cons.IH[OF Cons.prems]
      addSite_times[OF Cons.prems, where s="site s" and n="siteRefs s" and k=k] by auto
  qed simp
  from this[of "sites shard"] show "ch_inv (absorbChannels shard c)"
    "site_refs (absorbChannels shard c) k = site_refs c k + site_refs shard k"
    by (auto simp: absorbChannels_def sum_keys[OF ch_invD(4)[OF sh]] site_refs_def)
qed

end
