(* ===== verification/ChannelRemove.thy ===== *)
theory ChannelRemove
  imports ChannelSpec
begin

text \<open>
  \<open>ChannelIndex::removeTUs\<close>: the loop over the registrations in closed form, and the laws of the
  contract it satisfies.
\<close>

definition spent :: "nat list \<Rightarrow> StoredSite list \<Rightarrow> StoredSite list" where
  \<comment> \<open>the sites after taking back one registration per element of the list\<close>
  "spent L ss = map (\<lambda>i. let s = ss ! i; n = siteRefs s - count_list L i in
                        s\<lparr>siteRefs := n, siteLive := (siteLive s \<and> n > 0)\<rparr>) [0..<length ss]"

definition gone :: "nat list \<Rightarrow> StoredSite list \<Rightarrow> nat set" where
  "gone L ss = {i. i < length ss \<and> 0 < siteRefs (ss ! i) \<and> siteRefs (ss ! i) \<le> count_list L i}"

lemma length_spent [simp]: "length (spent L ss) = length ss"
  by (simp add: spent_def)

lemma nth_spent:
  "i < length ss \<Longrightarrow> siteRefs (spent L ss ! i) = siteRefs (ss ! i) - count_list L i"
  "i < length ss \<Longrightarrow> siteLive (spent L ss ! i) = (siteLive (ss ! i) \<and> count_list L i < siteRefs (ss ! i))"
  "i < length ss \<Longrightarrow> site (spent L ss ! i) = site (ss ! i)"
  by (simp_all add: spent_def Let_def)

lemma site_eqI: "site a = site b \<Longrightarrow> siteRefs a = siteRefs b \<Longrightarrow> siteLive a = siteLive b \<Longrightarrow> a = (b :: StoredSite)"
  by (cases a; cases b) simp

lemma finite_gone [simp]: "finite (gone L ss)"
  by (rule finite_subset[of _ "{..<length ss}"]) (auto simp: gone_def)

definition release_ok :: "ChannelIndex \<Rightarrow> nat list \<Rightarrow> (string, nat list) umap \<Rightarrow> SiteRelease \<Rightarrow> bool" where
  "release_ok c L M r \<longleftrightarrow>
     srDead r = gone L (sites c) \<and> srRemoved r = card (gone L (sites c)) \<and>
     distinct (ukeys (siteIndex (srIndex r))) \<and>
     (\<forall>k i. map_of (siteIndex (srIndex r)) k = Some i \<longleftrightarrow> map_of (siteIndex c) k = Some i \<and> i \<notin> gone L (sites c)) \<and>
     sites (srIndex r) = spent L (sites c) \<and> chLiveCount (srIndex r) = chLiveCount c - card (gone L (sites c)) \<and>
     byChannel (srIndex r) = byChannel c \<and> byFunctionUsr (srIndex r) = byFunctionUsr c \<and>
     byFunctionDisplay (srIndex r) = byFunctionDisplay c \<and> chByTu (srIndex r) = M \<and>
     (\<forall>i \<in> gone L (sites c). channelId (site (sites c ! i)) \<in> set (srChannels r) \<and>
        siteFunctionUsr (site (sites c ! i)) \<in> set (srFuncUsr r) \<and>
        (\<forall>d. display_row (site (sites c ! i)) = Some d \<longrightarrow> d \<in> set (srFuncDisplay r)))"

lemma count_snoc: "count_list (L @ [j]) i = count_list L i + (if i = j then 1 else 0)"
  by simp

lemma release_site_step:
  assumes inv: "ch_inv c" and R: "release_ok c L M r" and idx: "idx < length (sites c)"
  shows "release_ok c (L @ [idx]) M (release_site idx r)"
proof -
  let ?ss = "sites c" and ?c = "srIndex r"
  have ss: "sites ?c = spent L ?ss" and dead: "srDead r = gone L ?ss" using R by (auto simp: release_ok_def)
  have n: "siteRefs (sites ?c ! idx) = siteRefs (?ss ! idx) - count_list L idx"
    "site (sites ?c ! idx) = site (?ss ! idx)" using idx by (simp_all add: ss nth_spent)
  consider (none) "siteRefs (?ss ! idx) \<le> count_list L idx"
    | (some) "Suc (count_list L idx) < siteRefs (?ss ! idx)" | (last) "siteRefs (?ss ! idx) = Suc (count_list L idx)" by linarith
  then show ?thesis
  proof cases
    case none
    have "spent (L @ [idx]) ?ss = spent L ?ss"
      using none by (intro nth_equalityI site_eqI) (auto simp: nth_spent)
    moreover have "gone (L @ [idx]) ?ss = gone L ?ss" using none by (auto simp: gone_def)
    moreover have "release_site idx r = r" using none n by (simp add: release_site_def Let_def)
    ultimately show ?thesis using R by (simp add: release_ok_def)
  next
    case some
    let ?s = "(sites ?c ! idx)\<lparr>siteRefs := siteRefs (sites ?c ! idx) - 1\<rparr>"
    have "spent (L @ [idx]) ?ss = (spent L ?ss)[idx := ?s]"
      using some idx n by (intro nth_equalityI site_eqI) (auto simp: nth_spent nth_list_update ss)
    moreover have "gone (L @ [idx]) ?ss = gone L ?ss" using some by (auto simp: gone_def)
    moreover have "release_site idx r = r\<lparr>srIndex := ?c\<lparr>sites := (sites ?c)[idx := ?s]\<rparr>\<rparr>"
      using some n by (simp add: release_site_def Let_def)
    ultimately show ?thesis using R by (simp add: release_ok_def)
  next
    case last
    let ?s = "(sites ?c ! idx)\<lparr>siteRefs := siteRefs (sites ?c ! idx) - 1, siteLive := False\<rparr>"
    let ?k = "siteKey (site (?ss ! idx))"
    have sp: "spent (L @ [idx]) ?ss = (spent L ?ss)[idx := ?s]"
      using last idx n by (intro nth_equalityI site_eqI) (auto simp: nth_spent nth_list_update ss)
    have gn: "gone (L @ [idx]) ?ss = insert idx (gone L ?ss)" and new: "idx \<notin> gone L ?ss"
      using last idx by (auto simp: gone_def)
    have live: "siteLive (?ss ! idx)" using ch_invD(6)[OF inv idx] last by simp
    have ix: "map_of (siteIndex c) k = Some idx \<longleftrightarrow> k = ?k" for k
      using index_exactD[OF ch_invD(4)[OF inv], of k idx] idx live by (auto simp: site_at_def)
    let ?disp = "if siteFunctionDisplay (site (?ss ! idx)) \<noteq> siteFunctionUsr (site (?ss ! idx))
        then List.insert (siteFunctionDisplay (site (?ss ! idx))) (srFuncDisplay r) else srFuncDisplay r"
    have rel: "release_site idx r = r\<lparr>srDead := insert idx (srDead r),
        srChannels := List.insert (channelId (site (?ss ! idx))) (srChannels r),
        srFuncUsr := List.insert (siteFunctionUsr (site (?ss ! idx))) (srFuncUsr r),
        srFuncDisplay := ?disp,
        srIndex := ?c\<lparr>siteIndex := AList.delete ?k (siteIndex ?c), sites := (sites ?c)[idx := ?s],
          chLiveCount := chLiveCount ?c - 1\<rparr>, srRemoved := Suc (srRemoved r)\<rparr>"
      using last n by (simp add: release_site_def Let_def)
    have maps: "map_of (AList.delete ?k (siteIndex ?c)) k = Some i \<longleftrightarrow>
        map_of (siteIndex c) k = Some i \<and> i \<notin> gone (L @ [idx]) ?ss" for k i
    proof -
      have "map_of (siteIndex ?c) k = Some i \<longleftrightarrow> map_of (siteIndex c) k = Some i \<and> i \<notin> gone L ?ss"
        using R by (auto simp: release_ok_def)
      then show ?thesis using ix[of k] by (auto simp: gn umap_simps)
    qed
    have "distinct (ukeys (AList.delete ?k (siteIndex ?c)))" using R by (auto simp: release_ok_def)
    moreover have "\<forall>d. display_row (site (?ss ! idx)) = Some d \<longrightarrow> d \<in> set ?disp" by (auto simp: display_row_def)
    moreover have "card (gone (L @ [idx]) ?ss) = Suc (card (gone L ?ss))" using new by (simp add: gn)
    moreover have "\<forall>i \<in> gone L ?ss. \<forall>d. display_row (site (?ss ! i)) = Some d \<longrightarrow> d \<in> set ?disp"
      using R by (auto simp: release_ok_def)
    ultimately show ?thesis
      using R maps unfolding rel release_ok_def sp by (simp add: gn new ss)
  qed
qed

lemma release_sites:
  assumes inv: "ch_inv c" and "release_ok c L M r" and "set idxs \<subseteq> {..<length (sites c)}"
  shows "release_ok c (L @ idxs) M (fold release_site idxs r)"
  using assms(2,3)
proof (induction idxs arbitrary: L r)
  case (Cons i idxs)
  have "release_ok c (L @ [i]) M (release_site i r)" using release_site_step[OF inv Cons.prems(1)] Cons.prems(2) by simp
  from Cons.IH[OF this] Cons.prems(2) show ?case by simp
qed simp

fun unit_list :: "ChannelIndex \<Rightarrow> string list \<Rightarrow> nat list" where
  \<comment> \<open>the registrations of the units, last unit first, repetitions ignored\<close>
  "unit_list c [] = []"
| "unit_list c (t # ts) = (if t \<in> set ts then unit_list c ts else unit_list c ts @ ulist (chByTu c) t)"

lemma count_unit_list:
  "count_list (unit_list c ts) i = (\<Sum>t \<in> set ts. count_list (ulist (chByTu c) t) i)"
  by (induction ts) (auto simp: insert_absorb add.commute)

definition units_left :: "ChannelIndex \<Rightarrow> string list \<Rightarrow> (string, nat list) umap \<Rightarrow> bool" where
  "units_left c ts M \<longleftrightarrow> distinct (ukeys M) \<and>
     (\<forall>t. ulist M t = (if t \<in> set ts then [] else ulist (chByTu c) t)) \<and>
     (\<forall>i. ucount M i + count_list (unit_list c ts) i = ucount (chByTu c) i)"

lemma release_unit_step:
  assumes inv: "ch_inv c" and R: "release_ok c (unit_list c ts) M r" and M: "units_left c ts M"
  shows "\<exists>M'. release_ok c (unit_list c (t # ts)) M' (release_unit t r) \<and> units_left c (t # ts) M'"
proof -
  have rM: "chByTu (srIndex r) = M" using R by (simp add: release_ok_def)
  have dist: "distinct (ukeys M)" and ul: "\<And>u. ulist M u = (if u \<in> set ts then [] else ulist (chByTu c) u)"
    using M by (auto simp: units_left_def)
  show ?thesis
  proof (cases "map_of M t")
    case None
    then have e: "ulist M t = []" by (simp add: ulist_None)
    then have "unit_list c (t # ts) = unit_list c ts" using ul[of t] by auto
    moreover have "release_unit t r = r" using None rM by (simp add: release_unit_def)
    moreover have "units_left c (t # ts) M" using M e by (auto simp: units_left_def ul)
    ultimately show ?thesis using R by auto
  next
    case (Some idxs)
    let ?M = "AList.delete t M"
    have i: "ulist M t = idxs" using Some by (simp add: ulist_Some)
    have L: "unit_list c (t # ts) = unit_list c ts @ idxs" using ul[of t] i by auto
    have "i < length (sites c)" if "i \<in> set idxs" for i
      using that ul[of t] i refs_backed_range[OF ch_invD(5)[OF inv], of i t] by (auto split: if_splits)
    then have "release_ok c (unit_list c (t # ts)) M (fold release_site idxs r)"
      unfolding L by (intro release_sites[OF inv R]) auto
    then have "release_ok c (unit_list c (t # ts)) ?M (release_unit t r)"
      using Some rM by (simp add: release_unit_def release_ok_def Let_def)
    moreover have "units_left c (t # ts) ?M"
    proof -
      have "ucount ?M i + count_list (unit_list c (t # ts)) i = ucount (chByTu c) i" for i
      proof -
        have "ucount ?M i + count_list idxs i = ucount M i" using ucount_delete[OF dist, of t i] \<open>ulist M t = idxs\<close> by simp
        moreover have "ucount M i + count_list (unit_list c ts) i = ucount (chByTu c) i" using M by (simp add: units_left_def)
        ultimately show ?thesis by (simp only: L count_list_append)
      qed
      then show ?thesis using dist by (auto simp: units_left_def ul umap_simps)
    qed
    ultimately show ?thesis by blast
  qed
qed

lemma release_units:
  fixes ts
  assumes inv: "ch_inv c"
  defines "r \<equiv> fold release_unit ts \<lparr>srIndex = c, srDead = {}, srChannels = [], srFuncUsr = [], srFuncDisplay = [], srRemoved = 0\<rparr>"
  shows "\<exists>M. release_ok c (unit_list c (rev ts)) M r \<and> units_left c (rev ts) M"
  unfolding r_def
proof (induction ts rule: rev_induct)
  case Nil
  have "gone [] (sites c) = {}" by (auto simp: gone_def)
  moreover have "spent [] (sites c) = sites c"
    using ch_invD(6)[OF inv] by (intro nth_equalityI site_eqI) (auto simp: nth_spent)
  ultimately have "release_ok c [] (chByTu c) \<lparr>srIndex = c, srDead = {}, srChannels = [], srFuncUsr = [], srFuncDisplay = [], srRemoved = 0\<rparr>"
    using ch_invD(4)[OF inv] by (simp add: release_ok_def index_exact_def)
  moreover have "units_left c [] (chByTu c)" using ch_invD(5)[OF inv] by (simp add: units_left_def refs_backed_def)
  ultimately show ?case by auto
next
  case (snoc t ts)
  then obtain M where "release_ok c (unit_list c (rev ts)) M (fold release_unit ts
      \<lparr>srIndex = c, srDead = {}, srChannels = [], srFuncUsr = [], srFuncDisplay = [], srRemoved = 0\<rparr>)"
    and "units_left c (rev ts) M" by blast
  from release_unit_step[OF inv this, of t] show ?case by (simp del: unit_list.simps)
qed

lemma ulist_scrub_row: "ulist (scrub_row dead k' m) k = (if k = k' then filter (\<lambda>i. i \<notin> dead) (ulist m k) else ulist m k)"
  by (auto simp: scrub_row_def Let_def umap_simps ulist_Some ulist_None split: option.split)

lemma ulist_scrub_rows: "ulist (fold (scrub_row dead) ks m) k = (if k \<in> set ks then filter (\<lambda>i. i \<notin> dead) (ulist m k) else ulist m k)"
  by (induction ks arbitrary: m) (auto simp: ulist_scrub_row)

lemma distinct_scrub_rows: "distinct (ukeys m) \<Longrightarrow> distinct (ukeys (fold (scrub_row dead) ks m))"
  by (induction ks arbitrary: m) (auto simp: scrub_row_def Let_def split: option.split)

lemma rows_scrub:
  assumes inv: "ch_inv c" and rows: "rows_ok sel m (sites c)"
    and ks: "\<And>i k. i \<in> gone L (sites c) \<Longrightarrow> sel (site (sites c ! i)) = Some k \<Longrightarrow> k \<in> set ks"
  shows "rows_ok sel (fold (scrub_row (gone L (sites c))) ks m) (spent L (sites c))"
proof -
  let ?ss = "sites c" and ?d = "gone L (sites c)"
  have live: "siteLive (spent L ?ss ! i) \<longleftrightarrow> siteLive (?ss ! i) \<and> i \<notin> ?d" if "i < length ?ss" for i
    using ch_invD(6)[OF inv that] that by (auto simp: nth_spent gone_def)
  have "ulist (fold (scrub_row ?d) ks m) k = positions (\<lambda>s. siteLive s \<and> sel (site s) = Some k) (spent L ?ss)" for k
  proof -
    have row: "ulist m k = positions (\<lambda>s. siteLive s \<and> sel (site s) = Some k) ?ss" using rows by (simp add: rows_ok_def)
    have "positions (\<lambda>s. siteLive s \<and> sel (site s) = Some k) (spent L ?ss) = filter (\<lambda>i. i \<notin> ?d) (ulist m k)"
      unfolding row positions_def using live by (auto simp: nth_spent(3) intro!: filter_cong)
    moreover have "filter (\<lambda>i. i \<notin> ?d) (ulist m k) = ulist m k" if "k \<notin> set ks"
      using ks that unfolding row by (auto simp: filter_id_conv)
    ultimately show ?thesis by (simp add: ulist_scrub_rows)
  qed
  then show ?thesis using rows by (simp add: rows_ok_def distinct_scrub_rows)
qed

lemma removeSites_spec:
  assumes inv: "ch_inv c"
  shows "ch_inv (snd (removeSites ts c))"
    and "site_refs (snd (removeSites ts c)) k = site_refs c k - (\<Sum>t \<in> set ts. tu_site_refs c t k)"
    and "tu_site_refs (snd (removeSites ts c)) u k = (if u \<in> set ts then 0 else tu_site_refs c u k)"
    and "sites (snd (removeSites ts c)) = spent (unit_list c (rev ts)) (sites c)"
    and "fst (removeSites ts c) = card (gone (unit_list c (rev ts)) (sites c))"
proof -
  let ?L = "unit_list c (rev ts)" and ?ss = "sites c" and ?c = "snd (removeSites ts c)"
  let ?D = "gone ?L ?ss"
  obtain r where r: "r = fold release_unit ts \<lparr>srIndex = c, srDead = {}, srChannels = [], srFuncUsr = [], srFuncDisplay = [], srRemoved = 0\<rparr>"
    by blast
  obtain M where R: "release_ok c ?L M r" and M: "units_left c (rev ts) M" using release_units[OF inv, of ts] r by blast
  note I = ch_invD[OF inv]
  have cnt: "count_list ?L i = (\<Sum>t \<in> set ts. count_list (ulist (chByTu c) t) i)" for i by (simp add: count_unit_list)
  have c': "sites ?c = spent ?L ?ss" "chByTu ?c = M" "chLiveCount ?c = chLiveCount c - card ?D"
    "siteIndex ?c = siteIndex (srIndex r)"
    "byChannel ?c = fold (scrub_row ?D) (srChannels r) (byChannel c)"
    "byFunctionUsr ?c = fold (scrub_row ?D) (srFuncUsr r) (byFunctionUsr c)"
    "byFunctionDisplay ?c = fold (scrub_row ?D) (srFuncDisplay r) (byFunctionDisplay c)"
    "fst (removeSites ts c) = card ?D"
    using R by (auto simp: removeSites_def r[symmetric] Let_def release_ok_def)
  show "sites ?c = spent ?L ?ss" "fst (removeSites ts c) = card ?D" by (rule c')+
  have ix: "map_of (siteIndex ?c) k = Some i \<longleftrightarrow> map_of (siteIndex c) k = Some i \<and> i \<notin> ?D" for k i
    using R by (auto simp: release_ok_def c')
  have dropped: "map_of (siteIndex ?c) k = None" if none: "\<forall>i. map_of (siteIndex c) k = Some i \<longrightarrow> i \<in> ?D" for k
  proof (rule ccontr)
    assume "map_of (siteIndex ?c) k \<noteq> None"
    then obtain i where "map_of (siteIndex ?c) k = Some i" by blast
    then show False using ix[of k i] none by blast
  qed
  have at: "site_at (spent ?L ?ss) k i \<longleftrightarrow> site_at ?ss k i \<and> i \<notin> ?D" for k i
    using I(6)[of i] by (auto simp: site_at_def nth_spent gone_def)
  have "index_exact (siteIndex ?c) (spent ?L ?ss)"
    using R I(4) ix by (auto simp: index_exact_def at c' release_ok_def)
  moreover have backed: "ucount M i \<le> (if i < length ?ss then siteRefs (spent ?L ?ss ! i) else 0)" for i
  proof -
    have "ucount M i + count_list ?L i = ucount (chByTu c) i" using M by (simp add: units_left_def)
    moreover have "ucount (chByTu c) i \<le> (if i < length ?ss then siteRefs (?ss ! i) else 0)" using I(5) by (simp add: refs_backed_def)
    ultimately show ?thesis by (auto simp: nth_spent split: if_splits)
  qed
  then have "refs_backed M (spent ?L ?ss)" using M by (simp add: refs_backed_def units_left_def)
  moreover have "\<forall>s \<in> set (spent ?L ?ss). siteLive s \<longleftrightarrow> siteRefs s > 0"
    using I(6) by (auto simp: in_set_conv_nth nth_spent)
  moreover have "chLiveCount c - card ?D = length (filter siteLive (spent ?L ?ss))"
  proof -
    have "{i. i < length ?ss \<and> siteLive (spent ?L ?ss ! i)} = {i. i < length ?ss \<and> siteLive (?ss ! i)} - ?D"
      using I(6) by (auto simp: nth_spent gone_def)
    moreover have "?D \<subseteq> {i. i < length ?ss \<and> siteLive (?ss ! i)}" using I(6) by (auto simp: gone_def)
    ultimately show ?thesis by (simp add: I(7) length_filter_conv_card card_Diff_subset)
  qed
  moreover have "rows_ok (\<lambda>s. Some (channelId s)) (fold (scrub_row ?D) (srChannels r) (byChannel c)) (spent ?L ?ss)"
    "rows_ok (\<lambda>s. Some (siteFunctionUsr s)) (fold (scrub_row ?D) (srFuncUsr r) (byFunctionUsr c)) (spent ?L ?ss)"
    "rows_ok display_row (fold (scrub_row ?D) (srFuncDisplay r) (byFunctionDisplay c)) (spent ?L ?ss)"
    using R by (auto intro!: rows_scrub[OF inv] I(1-3) simp: release_ok_def)
  ultimately show "ch_inv ?c" unfolding ch_inv_def c'(1,2,3,5-7) by blast
  show "site_refs ?c k = site_refs c k - (\<Sum>t \<in> set ts. tu_site_refs c t k)"
  proof (cases "map_of (siteIndex c) k")
    case None
    then have "map_of (siteIndex ?c) k = None" by (intro dropped) simp
    then show ?thesis using None by (simp add: site_refs_def)
  next
    case (Some i)
    then have i: "i < length ?ss" using index_exactD[OF I(4)] by (simp add: site_at_def)
    have "site_refs ?c k = siteRefs (?ss ! i) - count_list ?L i"
    proof (cases "i \<in> ?D")
      case True
      then have "map_of (siteIndex ?c) k = None" using Some by (intro dropped) simp
      then show ?thesis using True by (simp add: site_refs_def gone_def)
    next
      case False
      then have "map_of (siteIndex ?c) k = Some i" using ix[of k i] Some by simp
      then show ?thesis using i by (simp add: site_refs_def c' nth_spent)
    qed
    then show ?thesis using Some by (simp add: site_refs_def tu_site_refs_def cnt)
  qed
  show "tu_site_refs ?c u k = (if u \<in> set ts then 0 else tu_site_refs c u k)"
  proof (cases "map_of (siteIndex c) k")
    case None
    then have "map_of (siteIndex ?c) k = None" by (intro dropped) simp
    then show ?thesis using None by (simp add: tu_site_refs_def)
  next
    case (Some i)
    have ul: "ulist M u = (if u \<in> set ts then [] else ulist (chByTu c) u)" using M by (simp add: units_left_def)
    show ?thesis
    proof (cases "i \<in> ?D")
      case True
      then have "map_of (siteIndex ?c) k = None" using Some by (intro dropped) simp
      moreover have "ucount M i = 0" using backed[of i] True by (simp add: gone_def nth_spent)
      then have "count_list (ulist M u) i = 0" using count_list_le_ucount[OF conjunct1[OF M[unfolded units_left_def]], of u i] by simp
      ultimately show ?thesis using Some ul by (simp add: tu_site_refs_def split: if_splits)
    next
      case False
      then have "map_of (siteIndex ?c) k = Some i" using ix[of k i] Some by simp
      then show ?thesis using Some by (simp add: tu_site_refs_def c' ul)
    qed
  qed
qed

end
