(* ===== verification/ChannelProps.thy ===== *)
theory ChannelProps
  imports ChannelRemove
begin

text \<open>
  Compaction, the queries and the properties of \<open>ChannelIndex\<close>.
\<close>

subsection \<open>Compaction\<close>

definition new_index :: "StoredSite list \<Rightarrow> nat \<Rightarrow> nat" where
  "new_index ss i = length (filter siteLive (take i ss))"

lemma compact_sites_eq:
  "compact_sites ss (news, otn) =
     (news @ filter siteLive ss,
      otn @ map (\<lambda>i. if siteLive (ss ! i) then Some (length news + new_index ss i) else None) [0..<length ss])"
proof (induction ss arbitrary: news otn)
  case (Cons s ss)
  have "[0..<length (s # ss)] = 0 # map Suc [0..<length ss]" by (simp add: map_Suc_upt upt_conv_Cons del: upt_Suc)
  then show ?case using Cons by (auto simp: new_index_def)
qed simp

definition old_to_new :: "StoredSite list \<Rightarrow> nat option list" where
  "old_to_new ss = snd (compact_sites ss ([], []))"

lemma nth_old_to_new: "i < length ss \<Longrightarrow> old_to_new ss ! i = (if siteLive (ss ! i) then Some (new_index ss i) else None)"
  by (simp add: old_to_new_def compact_sites_eq)

lemma map_new_index:
  assumes "\<And>s. P s \<Longrightarrow> siteLive s"
  shows "map (new_index ss) (positions P ss) = positions P (filter siteLive ss)"
proof (induction ss rule: rev_induct)
  case (snoc s ss)
  have "map (new_index (ss @ [s])) (positions P ss) = map (new_index ss) (positions P ss)"
    by (rule map_cong) (auto simp: new_index_def)
  moreover have "new_index (ss @ [s]) (length ss) = length (filter siteLive ss)" by (simp add: new_index_def)
  ultimately show ?case using snoc assms[of s] by (cases "P s") simp_all
qed simp

lemma new_index_inj:
  assumes "i < length ss" "siteLive (ss ! i)" "j < length ss" "siteLive (ss ! j)" "new_index ss i = new_index ss j"
  shows "i = j"
proof -
  have "map (new_index ss) (positions siteLive ss) = positions siteLive (filter siteLive ss)" by (rule map_new_index)
  then have "distinct (map (new_index ss) (positions siteLive ss))" by simp
  then have "inj_on (new_index ss) (set (positions siteLive ss))" by (simp add: distinct_map)
  then show ?thesis using assms by (auto dest: inj_onD)
qed

lemma positions_new_index:
  assumes "\<And>s. P s \<Longrightarrow> siteLive s"
  shows "j < length (filter siteLive ss) \<and> P (filter siteLive ss ! j) \<longleftrightarrow>
         (\<exists>i < length ss. P (ss ! i) \<and> new_index ss i = j)"
proof -
  have "j \<in> set (positions P (filter siteLive ss)) \<longleftrightarrow> j \<in> set (map (new_index ss) (positions P ss))"
    using map_new_index[of P ss] assms by metis
  then show ?thesis by auto
qed

lemma nth_new_index:
  assumes "i < length ss" "siteLive (ss ! i)"
  shows "new_index ss i < length (filter siteLive ss)" and "filter siteLive ss ! new_index ss i = ss ! i"
proof -
  have "new_index ss i < length (filter siteLive ss) \<and> siteLive (filter siteLive ss ! new_index ss i) \<and> filter siteLive ss ! new_index ss i = ss ! i"
    using positions_new_index[of "\<lambda>s. siteLive s \<and> s = ss ! i" "new_index ss i" ss] assms by auto
  then show "new_index ss i < length (filter siteLive ss)" "filter siteLive ss ! new_index ss i = ss ! i" by auto
qed

lemma update_fresh: "k \<notin> fst ` set m \<Longrightarrow> AList.update k v m = m @ [(k, v)]"
  by (induction m) auto

lemma remapInto_eq:
  assumes "distinct (ukeys m)"
  shows "remapInto otn m = filter (\<lambda>p. snd p \<noteq> []) (map (\<lambda>p. (fst p, List.map_filter ((!) otn) (snd p))) m)"
  using assms
proof (induction m rule: rev_induct)
  case (snoc p m)
  have "fst ` set (remapInto otn m) \<subseteq> fst ` set m" using snoc by (auto simp: image_iff) force
  then have "fst p \<notin> fst ` set (remapInto otn m)" using snoc.prems by auto
  moreover have "remapInto otn (m @ [p]) = (if List.map_filter ((!) otn) (snd p) = [] then remapInto otn m
      else uemplace (fst p) (List.map_filter ((!) otn) (snd p)) (remapInto otn m))"
    by (simp add: remapInto_def Let_def split: prod.split)
  ultimately show ?case using snoc by (simp add: uemplace_def update_fresh)
qed (simp add: remapInto_def)

lemma remapInto_keys: "distinct (ukeys m) \<Longrightarrow> distinct (ukeys (remapInto otn m))"
  by (simp only: remapInto_eq) (rule distinct_map_filter, simp add: comp_def)

lemma remapInto_ulist:
  assumes "distinct (ukeys m)"
  shows "ulist (remapInto otn m) k = List.map_filter ((!) otn) (ulist m k)"
  using assms
proof (induction m)
  case (Cons p m)
  have none: "fst p = k \<Longrightarrow> map_of m k = None" using Cons.prems by (auto simp: map_of_eq_None_iff)
  have IH: "ulist (remapInto otn m) k = List.map_filter ((!) otn) (ulist m k)" using Cons by simp
  have eq: "remapInto otn (p # m) = (if List.map_filter ((!) otn) (snd p) = [] then remapInto otn m
      else (fst p, List.map_filter ((!) otn) (snd p)) # remapInto otn m)"
    using Cons.prems by (simp add: remapInto_eq)
  show ?case
  proof (cases "fst p = k")
    case True
    then have "ulist m k = []" using none by (simp add: ulist_def)
    then have "ulist (remapInto otn m) k = []" using IH by (simp add: List.map_filter_simps)
    then show ?thesis using True unfolding eq by (cases p) (simp add: ulist_def)
  next
    case False
    then show ?thesis using IH unfolding eq by (cases p) (auto simp: ulist_def)
  qed
qed (simp add: remapInto_def List.map_filter_simps)

lemma remapKeys_lookup:
  assumes "distinct (ukeys m)"
  shows "distinct (ukeys (remapKeys otn m)) \<and>
    (map_of (remapKeys otn m) k = Some j \<longleftrightarrow> (\<exists>i. map_of m k = Some i \<and> otn ! i = Some j))"
  using assms
proof (induction m arbitrary: j rule: rev_induct)
  case (snoc p m)
  obtain k' i where p: "p = (k', i)" by fastforce
  have fresh: "map_of m k' = None" using snoc.prems by (auto simp: p map_of_eq_None_iff)
  have IH: "distinct (ukeys (remapKeys otn m))"
    "\<And>j. map_of (remapKeys otn m) k = Some j \<longleftrightarrow> (\<exists>i. map_of m k = Some i \<and> otn ! i = Some j)"
    using snoc by auto
  have eq: "remapKeys otn (m @ [p]) = (case otn ! i of None \<Rightarrow> remapKeys otn m | Some j \<Rightarrow> uemplace k' j (remapKeys otn m))"
    by (simp add: remapKeys_def p split: option.split)
  have app: "map_of (m @ [p]) k = Some x \<longleftrightarrow> (if k = k' then x = i else map_of m k = Some x)" for x
    using fresh by (auto simp: p map_add_Some_iff)
  have none: "map_of (remapKeys otn m) k = None" if "k = k'"
    using IH(2) fresh that by (cases "map_of (remapKeys otn m) k") auto
  show ?case unfolding eq app using IH none by (cases "otn ! i") (auto simp: umap_simps)
qed (simp add: remapKeys_def)

lemma map_filter_live:
  assumes "\<And>i. i \<in> set v \<Longrightarrow> i < length ss \<and> siteLive (ss ! i)"
  shows "List.map_filter ((!) (old_to_new ss)) v = map (new_index ss) v"
  using assms by (induction v) (auto simp: List.map_filter_simps nth_old_to_new)

lemma rows_compact:
  assumes "rows_ok sel m ss"
  shows "rows_ok sel (remapInto (old_to_new ss) m) (filter siteLive ss)"
proof -
  have d: "distinct (ukeys m)" and row: "\<And>k. ulist m k = positions (\<lambda>s. siteLive s \<and> sel (site s) = Some k) ss"
    using assms by (auto simp: rows_ok_def)
  have "ulist (remapInto (old_to_new ss) m) k = positions (\<lambda>s. siteLive s \<and> sel (site s) = Some k) (filter siteLive ss)" for k
    unfolding remapInto_ulist[OF d] row by (subst map_filter_live) (auto intro!: map_new_index)
  then show ?thesis using remapInto_keys[OF d] by (simp add: rows_ok_def)
qed

lemma backed_rows_live:
  assumes inv: "ch_inv c" and i: "i \<in> set (ulist (chByTu c) t)"
  shows "i < length (sites c) \<and> siteLive (sites c ! i)"
proof -
  have b: "refs_backed (chByTu c) (sites c)" by (rule ch_invD(5)[OF inv])
  have l: "i < length (sites c)" by (rule refs_backed_range[OF b i])
  have "0 < ucount (chByTu c) i" using b i by (intro set_ulist_ucount) (auto simp: refs_backed_def)
  also have "\<dots> \<le> siteRefs (sites c ! i)" using b l by (auto simp: refs_backed_def dest: spec[of _ i])
  finally show ?thesis using ch_invD(6)[OF inv l] l by simp
qed

lemma count_map_inj: "(\<And>x. x \<in> set xs \<Longrightarrow> f x = f y \<Longrightarrow> x = y) \<Longrightarrow> count_list (map f xs) (f y) = count_list xs y"
  by (induction xs) auto

lemma ucount_remap:
  assumes d: "distinct (ukeys m)" and live: "\<And>t i. i \<in> set (ulist m t) \<Longrightarrow> i < length ss \<and> siteLive (ss ! i)"
  shows "i < length ss \<Longrightarrow> siteLive (ss ! i) \<Longrightarrow> ucount (remapInto (old_to_new ss) m) (new_index ss i) = ucount m i"
    and "j \<ge> length (filter siteLive ss) \<Longrightarrow> ucount (remapInto (old_to_new ss) m) j = 0"
proof -
  have mf: "List.map_filter ((!) (old_to_new ss)) (snd p) = map (new_index ss) (snd p)"
    and lv: "\<And>i. i \<in> set (snd p) \<Longrightarrow> i < length ss \<and> siteLive (ss ! i)" if "p \<in> set m" for p
    using live[of _ "fst p"] ulist_in_set[OF d, of "fst p" "snd p"] that by (auto intro!: map_filter_live)
  have uc: "ucount (remapInto (old_to_new ss) m) j = (\<Sum>p \<leftarrow> m. count_list (map (new_index ss) (snd p)) j)" for j
  proof -
    have "ucount (filter (\<lambda>p. snd p \<noteq> []) xs) j = ucount xs j" for xs :: "(string, nat list) umap"
      by (induction xs) (auto simp: ucount_def)
    then have "ucount (remapInto (old_to_new ss) m) j
        = (\<Sum>p \<leftarrow> m. count_list (List.map_filter ((!) (old_to_new ss)) (snd p)) j)"
      by (simp add: remapInto_eq[OF d] ucount_def comp_def)
    then show ?thesis using mf by (simp cong: map_cong)
  qed
  show "ucount (remapInto (old_to_new ss) m) (new_index ss i) = ucount m i" if "i < length ss" "siteLive (ss ! i)"
  proof -
    have "count_list (map (new_index ss) (snd p)) (new_index ss i) = count_list (snd p) i" if p: "p \<in> set m" for p
      by (rule count_map_inj) (use lv[OF p] new_index_inj \<open>i < length ss\<close> \<open>siteLive (ss ! i)\<close> in blast)
    then show ?thesis unfolding uc by (simp add: ucount_def cong: map_cong)
  qed
  show "ucount (remapInto (old_to_new ss) m) j = 0" if "j \<ge> length (filter siteLive ss)"
  proof -
    have "count_list (map (new_index ss) (snd p)) j = 0" if "p \<in> set m" for p
      using lv[OF that] nth_new_index(1)[of _ ss] \<open>j \<ge> length (filter siteLive ss)\<close>
      by (fastforce simp: count_list_0_iff)
    then show ?thesis unfolding uc by simp
  qed
qed

lemma compactChannels_fields:
  "sites (compactChannels c) = filter siteLive (sites c)"
  "siteIndex (compactChannels c) = remapKeys (old_to_new (sites c)) (siteIndex c)"
  "byChannel (compactChannels c) = remapInto (old_to_new (sites c)) (byChannel c)"
  "byFunctionUsr (compactChannels c) = remapInto (old_to_new (sites c)) (byFunctionUsr c)"
  "byFunctionDisplay (compactChannels c) = remapInto (old_to_new (sites c)) (byFunctionDisplay c)"
  "chByTu (compactChannels c) = remapInto (old_to_new (sites c)) (chByTu c)"
  "chLiveCount (compactChannels c) = chLiveCount c"
  by (simp_all add: compactChannels_def old_to_new_def compact_sites_eq)

lemma compactChannels_spec:
  assumes inv: "ch_inv c"
  shows "ch_inv (compactChannels c)" and "site_refs (compactChannels c) k = site_refs c k"
    and "tu_site_refs (compactChannels c) t k = tu_site_refs c t k"
proof -
  let ?ss = "sites c"
  note I = ch_invD[OF inv]
  have dx: "distinct (ukeys (siteIndex c))" using I(4) by (simp add: index_exact_def)
  have dt: "distinct (ukeys (chByTu c))" using I(5) by (simp add: refs_backed_def)
  note bl = backed_rows_live[OF inv]
  have ix: "map_of (remapKeys (old_to_new ?ss) (siteIndex c)) k = Some j \<longleftrightarrow> (\<exists>i. site_at ?ss k i \<and> new_index ?ss i = j)" for k j
    using remapKeys_lookup[OF dx] index_exactD[OF I(4)] by (fastforce simp: site_at_def nth_old_to_new)
  have at: "site_at (filter siteLive ?ss) k j \<longleftrightarrow> (\<exists>i. site_at ?ss k i \<and> new_index ?ss i = j)" for k j
    using positions_new_index[of "\<lambda>s. siteLive s \<and> siteKey (site s) = k" j ?ss] by (auto simp: site_at_def)
  have ixc: "index_exact (remapKeys (old_to_new ?ss) (siteIndex c)) (filter siteLive ?ss)"
    using remapKeys_lookup[OF dx, of "old_to_new ?ss"] ix at unfolding index_exact_def by blast
  have "ucount (remapInto (old_to_new ?ss) (chByTu c)) j
      \<le> (if j < length (filter siteLive ?ss) then siteRefs (filter siteLive ?ss ! j) else 0)" for j
  proof (cases "j < length (filter siteLive ?ss)")
    case True
    then have "siteLive (filter siteLive ?ss ! j)" using nth_mem by fastforce
    then obtain i where i: "i < length ?ss" "siteLive (?ss ! i)" "new_index ?ss i = j"
      using positions_new_index[of siteLive j ?ss] True by auto
    have "ucount (chByTu c) i \<le> siteRefs (?ss ! i)" using I(5) i(1) by (auto simp: refs_backed_def dest: spec[of _ i])
    then show ?thesis using ucount_remap(1)[OF dt bl i(1,2)] nth_new_index[OF i(1,2)] i(3) True by simp
  next
    case False
    then show ?thesis using ucount_remap(2)[OF dt bl, where j=j] by simp
  qed
  then have bkc: "refs_backed (remapInto (old_to_new ?ss) (chByTu c)) (filter siteLive ?ss)"
    using remapInto_keys[OF dt] by (simp add: refs_backed_def)
  have lvc: "\<forall>s \<in> set (filter siteLive ?ss). siteLive s \<longleftrightarrow> siteRefs s > 0" using inv by (auto simp: ch_inv_def)
  have cnt: "chLiveCount c = length (filter siteLive (filter siteLive ?ss))" using I(7) by simp
  show "ch_inv (compactChannels c)"
    unfolding ch_inv_def compactChannels_fields
    by (intro conjI rows_compact[OF I(1)] rows_compact[OF I(2)] rows_compact[OF I(3)] ixc bkc lvc cnt)
  have look: "map_of (siteIndex (compactChannels c)) k = map_option (new_index ?ss) (map_of (siteIndex c) k)" for k
  proof (cases "map_of (siteIndex c) k")
    case None
    then have "\<not> site_at ?ss k i" for i using index_exactD[OF I(4), of k i] by simp
    then have "map_of (siteIndex (compactChannels c)) k \<noteq> Some j" for j by (simp add: compactChannels_fields ix)
    then have "map_of (siteIndex (compactChannels c)) k = None" by (meson not_None_eq)
    then show ?thesis using None by simp
  next
    case (Some i)
    then have "site_at ?ss k i" using index_exactD[OF I(4), of k i] by simp
    then have "map_of (siteIndex (compactChannels c)) k = Some (new_index ?ss i)"
      unfolding compactChannels_fields ix by blast
    then show ?thesis using Some by simp
  qed
  have live: "i < length ?ss \<and> siteLive (?ss ! i)" if "map_of (siteIndex c) k = Some i" for i k
    using that index_exactD[OF I(4), of k i] by (simp add: site_at_def)
  show "site_refs (compactChannels c) k = site_refs c k"
    using live[of k] nth_new_index(2)[of _ ?ss]
    by (cases "map_of (siteIndex c) k") (simp_all add: site_refs_def look compactChannels_fields(1))
  show "tu_site_refs (compactChannels c) t k = tu_site_refs c t k"
  proof (cases "map_of (siteIndex c) k")
    case (Some i)
    have "ulist (chByTu (compactChannels c)) t = map (new_index ?ss) (ulist (chByTu c) t)"
      unfolding compactChannels_fields remapInto_ulist[OF dt] by (rule map_filter_live) (rule bl)
    moreover have "count_list (map (new_index ?ss) (ulist (chByTu c) t)) (new_index ?ss i) = count_list (ulist (chByTu c) t) i"
      using bl live[OF Some] new_index_inj by (intro count_map_inj) blast
    ultimately show ?thesis using Some by (simp add: tu_site_refs_def look)
  qed (simp add: tu_site_refs_def look)
qed

subsection \<open>Queries\<close>

lemma allSites_eq: "allSites c = map site (filter siteLive (sites c))"
proof -
  have "fold (\<lambda>s result. if siteLive s then result @ [site s] else result) ss acc = acc @ map site (filter siteLive ss)" for ss :: "StoredSite list" and acc
    by (induction ss arbitrary: acc) auto
  then show ?thesis by (simp add: allSites_def)
qed

lemma collect_sites_positions:
  "collect_sites c P (positions (\<lambda>s. siteLive s \<and> Q (site s)) (sites c)) = filter (\<lambda>s. Q s \<and> P s) (allSites c)"
proof -
  have col: "collect_sites c P idxs = map (\<lambda>i. site (sites c ! i)) (filter (\<lambda>i. siteLive (sites c ! i) \<and> P (site (sites c ! i))) idxs)" for idxs
  proof -
    have "fold (\<lambda>i result. if siteLive (sites c ! i) \<and> P (site (sites c ! i)) then result @ [site (sites c ! i)] else result) idxs acc
        = acc @ map (\<lambda>i. site (sites c ! i)) (filter (\<lambda>i. siteLive (sites c ! i) \<and> P (site (sites c ! i))) idxs)" for acc
      by (induction idxs arbitrary: acc) auto
    then show ?thesis by (simp add: collect_sites_def)
  qed
  have "filter (\<lambda>i. siteLive (sites c ! i) \<and> P (site (sites c ! i))) (positions (\<lambda>s. siteLive s \<and> Q (site s)) (sites c))
      = positions (\<lambda>s. siteLive s \<and> Q (site s) \<and> P (site s)) (sites c)"
    by (auto simp: positions_def intro: filter_cong)
  then have "collect_sites c P (positions (\<lambda>s. siteLive s \<and> Q (site s)) (sites c))
      = map site (map ((!) (sites c)) (positions (\<lambda>s. siteLive s \<and> Q (site s) \<and> P (site s)) (sites c)))"
    by (simp add: col)
  then show ?thesis by (simp add: map_nth_positions allSites_eq filter_map comp_def conj_ac)
qed

lemma collect_sites_row:
  assumes "rows_ok sel m (sites c)"
  shows "(case map_of m k of None \<Rightarrow> [] | Some v \<Rightarrow> collect_sites c P v) = filter (\<lambda>s. sel s = Some k \<and> P s) (allSites c)"
proof -
  have "(case map_of m k of None \<Rightarrow> [] | Some v \<Rightarrow> collect_sites c P v) = collect_sites c P (ulist m k)"
    by (simp add: ulist_def collect_sites_def split: option.split)
  then show ?thesis using assms collect_sites_positions[of c P "\<lambda>s. sel s = Some k"] by (simp add: rows_ok_def)
qed

lemma queries_spec:
  assumes inv: "ch_inv c"
  shows "producersOf c k = filter (\<lambda>s. channelId s = k \<and> op s = Produce) (allSites c)"
    and "consumersOf c k = filter (\<lambda>s. channelId s = k \<and> op s = Consume) (allSites c)"
    and "sitesForFunction c k = filter (\<lambda>s. siteFunctionUsr s = k) (allSites c)
           @ filter (\<lambda>s. siteFunctionDisplay s = k \<and> siteFunctionUsr s \<noteq> k) (allSites c)"
    and "distinct (allChannelIds c)" and "set (allChannelIds c) = channelId ` set (allSites c)"
    and "channelSize c = length (allSites c)" and "distinct (map siteKey (allSites c))"
proof -
  note I = ch_invD[OF inv]
  show "producersOf c k = filter (\<lambda>s. channelId s = k \<and> op s = Produce) (allSites c)"
    "consumersOf c k = filter (\<lambda>s. channelId s = k \<and> op s = Consume) (allSites c)"
    by (simp_all add: producersOf_def consumersOf_def collect_sites_row[OF I(1)])
  have "display_row s = Some k \<longleftrightarrow> siteFunctionDisplay s = k \<and> siteFunctionUsr s \<noteq> k" for s
    by (auto simp: display_row_def)
  then show "sitesForFunction c k = filter (\<lambda>s. siteFunctionUsr s = k) (allSites c)
           @ filter (\<lambda>s. siteFunctionDisplay s = k \<and> siteFunctionUsr s \<noteq> k) (allSites c)"
    by (simp add: sitesForFunction_def Let_def collect_sites_row[OF I(2)] collect_sites_row[OF I(3)])
  show "channelSize c = length (allSites c)" by (simp add: channelSize_def allSites_eq I(7))
  have d: "distinct (ukeys (byChannel c))" and row: "\<And>k. ulist (byChannel c) k = positions (\<lambda>s. siteLive s \<and> channelId (site s) = k) (sites c)"
    using I(1) by (auto simp: rows_ok_def)
  show "distinct (allChannelIds c)" unfolding allChannelIds_def by (rule distinct_map_filter[OF d])
  have ids: "k \<in> set (allChannelIds c) \<longleftrightarrow> (\<exists>i \<in> set (ulist (byChannel c) k). siteLive (sites c ! i))" for k
  proof
    assume "k \<in> set (allChannelIds c)"
    then obtain v where "(k, v) \<in> set (byChannel c)" "list_ex (\<lambda>i. siteLive (sites c ! i)) v" by (auto simp: allChannelIds_def)
    then show "\<exists>i \<in> set (ulist (byChannel c) k). siteLive (sites c ! i)" using ulist_in_set[OF d] by (auto simp: list_ex_iff)
  next
    assume r: "\<exists>i \<in> set (ulist (byChannel c) k). siteLive (sites c ! i)"
    then obtain v where v: "map_of (byChannel c) k = Some v" by (cases "map_of (byChannel c) k") (auto simp: ulist_None)
    then have "(k, v) \<in> set (byChannel c)" by (rule map_of_SomeD)
    then show "k \<in> set (allChannelIds c)" using r v by (force simp: allChannelIds_def ulist_Some list_ex_iff)
  qed
  have "k \<in> set (allChannelIds c) \<longleftrightarrow> (\<exists>s \<in> set (sites c). siteLive s \<and> channelId (site s) = k)" for k
    unfolding ids row Bex_def in_set_positions by (metis in_set_conv_nth)
  then show "set (allChannelIds c) = channelId ` set (allSites c)"
    unfolding allSites_eq by (intro set_eqI) (force simp: image_iff)
  have "distinct (map (\<lambda>i. siteKey (site (sites c ! i))) (positions siteLive (sites c)))"
  proof -
    have "i = j" if "i \<in> set (positions siteLive (sites c))" "j \<in> set (positions siteLive (sites c))"
      "siteKey (site (sites c ! i)) = siteKey (site (sites c ! j))" for i j
      using that index_exactD[OF I(4), of "siteKey (site (sites c ! j))"] by (metis in_set_positions option.inject site_at_def)
    then show ?thesis by (auto simp: distinct_map inj_on_def)
  qed
  moreover have "map siteKey (allSites c) = map (\<lambda>i. siteKey (site (sites c ! i))) (positions siteLive (sites c))"
    using map_nth_positions[of "sites c" siteLive] by (simp add: allSites_eq map_nth_positions[symmetric] comp_def)
  ultimately show "distinct (map siteKey (allSites c))" by simp
qed

subsection \<open>The indexes that can be built\<close>

inductive ch_built :: "ChannelIndex \<Rightarrow> bool" where
  empty: "ch_built empty_channels"
| add: "ch_built c \<Longrightarrow> ch_built (addSite s c)"
| merge: "ch_built c \<Longrightarrow> ch_built shard \<Longrightarrow> ch_built (absorbChannels shard c)"
| remove: "ch_built c \<Longrightarrow> ch_built (snd (removeSites ts c))"
| compact: "ch_built c \<Longrightarrow> ch_built (compactChannels c)"

lemma ch_built_inv: "ch_built c \<Longrightarrow> ch_inv c"
  by (induction rule: ch_built.induct)
    (auto intro: ch_inv_empty addSite_spec absorbChannels_spec removeSites_spec compactChannels_spec)



lemma siteKey_tag [simp]: "siteKey (s\<lparr>chTuPath := t\<rparr>) = siteKey s"
  by (simp add: siteKey_def)


definition register_sites :: "(ChannelSite \<times> string) list \<Rightarrow> ChannelIndex" where
  "register_sites regs = fold (\<lambda>(s, t). addSite (s\<lparr>chTuPath := t\<rparr>)) regs empty_channels"


definition demo_site :: "string \<Rightarrow> ChannelOperation \<Rightarrow> ChannelSite" where
  "demo_site loc oper = \<lparr>channelId = ''q'', channelTypeName = ''Queue'', category = ''queue'', op = oper,
     siteFunctionUsr = ''c:f'', siteFunctionDisplay = ''f'', chCallSite = loc, chEnclosingGuards = [], chTuPath = []\<rparr>"

definition demo_sites :: "(ChannelSite \<times> string) list" where
  "demo_sites = [(demo_site ''h:3'' Produce, ''a''), (demo_site ''h:3'' Produce, ''b''), (demo_site ''b:9'' Consume, ''b'')]"

lemma built_register: "ch_built (register_sites regs)"
proof -
  have "ch_built c \<Longrightarrow> ch_built (fold (\<lambda>(s, t). addSite (s\<lparr>chTuPath := t\<rparr>)) regs c)" for c
    by (induction regs arbitrary: c) (auto intro: ch_built.add)
  then show ?thesis by (simp add: register_sites_def ch_built.empty)
qed

lemma live_refs:
  assumes "ch_inv c"
  shows "site_refs c k > 0 \<longleftrightarrow> k \<in> siteKey ` set (allSites c)"
proof -
  note I = ch_invD[OF assms]
  have "k \<in> siteKey ` set (allSites c) \<longleftrightarrow> (\<exists>i. site_at (sites c) k i)"
    by (auto simp: allSites_eq site_at_def in_set_conv_nth image_iff)
  also have "\<dots> \<longleftrightarrow> site_refs c k > 0"
  proof (cases "map_of (siteIndex c) k")
    case None
    then have "\<not> site_at (sites c) k i" for i using index_exactD[OF I(4), of k i] by simp
    then show ?thesis using None by (simp add: site_refs_def)
  next
    case (Some i)
    then have "site_at (sites c) k i" using index_exactD[OF I(4), of k i] by simp
    moreover from this have "siteRefs (sites c ! i) > 0" using I(6)[of i] by (simp add: site_at_def)
    ultimately show ?thesis using Some by (auto simp: site_refs_def)
  qed
  finally show ?thesis ..
qed

subsection \<open>Properties\<close>

text \<open>Every channel index the mutators can build is well formed, and its queries are filters of
  its list of sites: producers and consumers of a channel, the sites of a function by USR and then by
  display name, the channel ids without repetition; no two sites have the same content key.\<close>

theorem channel_queries:
  assumes "ch_built c"
  shows "ch_inv c \<and> distinct (map siteKey (allSites c)) \<and> channelSize c = length (allSites c)
    \<and> producersOf c k = filter (\<lambda>s. channelId s = k \<and> op s = Produce) (allSites c)
    \<and> consumersOf c k = filter (\<lambda>s. channelId s = k \<and> op s = Consume) (allSites c)
    \<and> sitesForFunction c k = filter (\<lambda>s. siteFunctionUsr s = k) (allSites c)
           @ filter (\<lambda>s. siteFunctionDisplay s = k \<and> siteFunctionUsr s \<noteq> k) (allSites c)
    \<and> distinct (allChannelIds c) \<and> set (allChannelIds c) = channelId ` set (allSites c)"
  using queries_spec[OF ch_built_inv[OF assms]] ch_built_inv[OF assms] by (simp only: simp_thms)

theorem channel_queries_witness:
  "producersOf (snd (removeSites [''a''] (register_sites demo_sites))) ''q''
     = filter (\<lambda>s. channelId s = ''q'' \<and> op s = Produce) (allSites (snd (removeSites [''a''] (register_sites demo_sites))))"
  using channel_queries[OF ch_built.remove[OF built_register]] by blast



text \<open>Merging a shard adds its registration counts site by site, and compaction is invisible: the
  listed sites (hence every query), the counts and the contributions of each unit stay.\<close>

theorem channel_merge_compact:
  assumes "ch_built c" and "ch_built shard"
  shows "site_refs (absorbChannels shard c) k = site_refs c k + site_refs shard k
    \<and> siteKey ` set (allSites (absorbChannels shard c)) = siteKey ` set (allSites c) \<union> siteKey ` set (allSites shard)
    \<and> allSites (compactChannels c) = allSites c \<and> site_refs (compactChannels c) k = site_refs c k
    \<and> tu_site_refs (compactChannels c) t k = tu_site_refs c t k \<and> length (sites (compactChannels c)) = channelSize c"
proof -
  note c = ch_built_inv[OF assms(1)] and sh = ch_built_inv[OF assms(2)]
  have "k \<in> siteKey ` set (allSites (absorbChannels shard c)) \<longleftrightarrow>
      k \<in> siteKey ` set (allSites c) \<union> siteKey ` set (allSites shard)" for k
    using live_refs[OF absorbChannels_spec(1)[OF c sh], of k] live_refs[OF c, of k] live_refs[OF sh, of k]
      absorbChannels_spec(2)[OF c sh, of k] by auto
  then have "siteKey ` set (allSites (absorbChannels shard c)) = siteKey ` set (allSites c) \<union> siteKey ` set (allSites shard)"
    by blast
  then show ?thesis
    using absorbChannels_spec(2)[OF c sh, of k] compactChannels_spec(2,3)[OF c] queries_spec(6)[OF c]
    by (simp add: allSites_eq compactChannels_fields)
qed

theorem channel_merge_compact_witness:
  "allSites (compactChannels (register_sites demo_sites)) = allSites (register_sites demo_sites)"
  using channel_merge_compact[OF built_register built_register] by blast

text \<open>Merging does not keep the contributors: a site that units \<open>a\<close> and \<open>b\<close> registered in a shard is
  replayed with the unit of its first registration only, so that removing \<open>a\<close> after the merge
  drops a site that \<open>b\<close> still contributes, while removing \<open>a\<close> before the merge keeps it.\<close>

theorem merge_forgets_contributors:
  "let shard = register_sites demo_sites; merged = absorbChannels shard empty_channels in
     map chCallSite (allSites (snd (removeSites [''a''] merged))) = [''b:9''] \<and>
     map chCallSite (allSites (absorbChannels (snd (removeSites [''a''] shard)) empty_channels)) = [''h:3'', ''b:9'']"
  by code_simp

end
