(* ===== verification/Diagnostics.thy ===== *)
theory Diagnostics
  imports Main "HOL-Library.Word"
begin

text \<open>
  \<open>struct Diagnostic\<close> (include/vycor/anneal/GlobalIndex.h).  The enumeration is unscoped and is read
  back from its 32-bit code, so a value may carry no enumerator: \<open>UnnamedKind\<close> holds such a code.
\<close>

datatype DiagnosticKind =
    ADL_Fallback
  | ADL_Ambiguity
  | ADL_SameScore
  | CTAD_Fallback
  | Coverage_GVAMismatch
  | Coverage_DiscardableODR
  | Coverage_AvailableExternally
  | Coverage_PropertyDivergence
  | DeadCode_Pessimistic
  | DeadCode_Optimistic
  | ODR_DuplicateDefinition
  | ODR_DivergentDefinition
  | Specialization_Invisible
  | DefaultArg_Divergent
  | StaticInit_OrderDependency
  | StaticInit_Hazard
  | Exception_Escape
  | HeaderStatic_Duplicated
  | ExceptionSpec_Divergent
  | CustomKind
  | UnnamedKind "32 word"

record Diagnostic =
  dgKind :: DiagnosticKind
  dgCallLocation :: string
  dgResolvedDecl :: string
  dgBetterDecl :: string
  dgMissingHeader :: string
  dgMessage :: string
  dgCheckName :: string

definition enumerators :: "DiagnosticKind list" where
  "enumerators =
     [ADL_Fallback, ADL_Ambiguity, ADL_SameScore, CTAD_Fallback, Coverage_GVAMismatch,
      Coverage_DiscardableODR, Coverage_AvailableExternally, Coverage_PropertyDivergence,
      DeadCode_Pessimistic, DeadCode_Optimistic, ODR_DuplicateDefinition, ODR_DivergentDefinition,
      Specialization_Invisible, DefaultArg_Divergent, StaticInit_OrderDependency, StaticInit_Hazard,
      Exception_Escape, HeaderStatic_Duplicated, ExceptionSpec_Divergent, CustomKind]"

primrec kind_code :: "DiagnosticKind \<Rightarrow> 32 word" where
  "kind_code ADL_Fallback = 0" | "kind_code ADL_Ambiguity = 1" | "kind_code ADL_SameScore = 2"
| "kind_code CTAD_Fallback = 3" | "kind_code Coverage_GVAMismatch = 4" | "kind_code Coverage_DiscardableODR = 5"
| "kind_code Coverage_AvailableExternally = 6" | "kind_code Coverage_PropertyDivergence = 7"
| "kind_code DeadCode_Pessimistic = 8" | "kind_code DeadCode_Optimistic = 9"
| "kind_code ODR_DuplicateDefinition = 10" | "kind_code ODR_DivergentDefinition = 11"
| "kind_code Specialization_Invisible = 12" | "kind_code DefaultArg_Divergent = 13"
| "kind_code StaticInit_OrderDependency = 14" | "kind_code StaticInit_Hazard = 15"
| "kind_code Exception_Escape = 16" | "kind_code HeaderStatic_Duplicated = 17"
| "kind_code ExceptionSpec_Divergent = 18" | "kind_code CustomKind = 19" | "kind_code (UnnamedKind c) = c"

definition kind_of_code :: "32 word \<Rightarrow> DiagnosticKind" where
  \<comment> \<open>\<open>static_cast<Diagnostic::Kind>(u32)\<close>\<close>
  "kind_of_code c = (if c < 20 then enumerators ! unat c else UnnamedKind c)"

definition kind_ok :: "DiagnosticKind \<Rightarrow> bool" where
  "kind_ok k = (case k of UnnamedKind c \<Rightarrow> 20 \<le> c | _ \<Rightarrow> True)"

lemma kind_round: "kind_ok k \<Longrightarrow> kind_of_code (kind_code k) = k"
  by (cases k) (simp_all add: kind_of_code_def enumerators_def kind_ok_def)

end
