(* ===== verification/DeadCode.thy ===== *)
theory DeadCode
  imports CallGraphProps CallGraph Render Diagnostics "HOL-Library.List_Lexorder" "HOL-Library.Char_ord"
begin

text \<open>
  \<open>DeadCodeAnalyzer\<close> (include/vycor/anneal/DeadCodeAnalyzer.h, src/anneal/DeadCodeAnalyzer.cpp):
  a breadth-first walk over the call graph in USR space.  The optimistic walk follows a plausible
  virtual call only when the class of its target is constructed on a reached path, so such
  edges are deferred and re-checked.  The walk is modelled loop by loop (\<open>drain\<close> is the queue
  loop, \<open>recheck\<close> the loop over the deferred edges, \<open>passes\<close> the outer loop); both while loops are
  total functions: a name enters the queue once and a class is constructed once, and both range
  over the finite set of strings of the graph.
\<close>

subsection \<open>The walk\<close>

datatype Liveness = Alive | OptimisticallyAlive | Dead

record Walk =
  wQueue :: "string list"
  wAlive :: "string set"
  wClasses :: "string set"
  wDeferred :: "string list"
  wChanged :: bool

definition discover :: "string \<Rightarrow> Walk \<Rightarrow> Walk" where
  \<comment> \<open>\<open>if (alive.insert(u).second) queue.push(u)\<close>\<close>
  "discover u w =
     (if u \<in> wAlive w then w
      else w\<lparr>wAlive := insert u (wAlive w), wQueue := wQueue w @ [u]\<rparr>)"

definition ownClass :: "CallGraph \<Rightarrow> string \<Rightarrow> string option" where
  \<comment> \<open>\<open>node && !node->enclosingClass.empty()\<close>\<close>
  "ownClass g u =
     (case findNode g u of
        None \<Rightarrow> None
      | Some n \<Rightarrow> if enclosingClass n = [] then None else Some (enclosingClass n))"

definition constructible :: "CallGraph \<Rightarrow> string set \<Rightarrow> string \<Rightarrow> bool" where
  "constructible g classes callee =
     (list_ex (\<lambda>cls. cls \<in> classes) (getClassesForImpl g callee) \<or>
      (case ownClass g callee of None \<Rightarrow> False | Some c \<Rightarrow> c \<in> classes))"

definition shouldFollowEdge :: "bool \<Rightarrow> CallGraph \<Rightarrow> string set \<Rightarrow> CallGraphEdge \<Rightarrow> bool" where
  "shouldFollowEdge includeVirtualPlausible g classes edge =
     (if confidence edge = Proven then True
      else if \<not> includeVirtualPlausible then False
      else if kind edge = FunctionPointer then True
      else if kind edge = VirtualDispatch then constructible g classes (calleeUsr edge)
      else True)"

definition note_constructor :: "CallGraph \<Rightarrow> CallGraphEdge \<Rightarrow> Walk \<Rightarrow> Walk" where
  "note_constructor g edge w =
     (if kind edge = ConstructorCall
      then (case ownClass g (calleeUsr edge) of
              None \<Rightarrow> w
            | Some c \<Rightarrow> if c \<in> wClasses w then w
                        else w\<lparr>wClasses := insert c (wClasses w), wChanged := True\<rparr>)
      else w)"

definition walk_edge :: "bool \<Rightarrow> CallGraph \<Rightarrow> CallGraphEdge \<Rightarrow> Walk \<Rightarrow> Walk" where
  "walk_edge opt g edge w0 =
     (let w = note_constructor g edge w0 in
      if shouldFollowEdge opt g (wClasses w) edge then discover (calleeUsr edge) w
      else if opt \<and> kind edge = VirtualDispatch \<and> confidence edge = Plausible
      then w\<lparr>wDeferred := wDeferred w @ [calleeUsr edge]\<rparr>
      else w)"

definition undiscovered :: "CallGraph \<Rightarrow> Walk \<Rightarrow> nat" where
  "undiscovered g w = card (graph_strings g - wAlive w)"

lemma discover_measure:
  assumes "u \<in> graph_strings g"
  shows "undiscovered g (discover u w) + length (wQueue (discover u w)) = undiscovered g w + length (wQueue w)"
proof (cases "u \<in> wAlive w")
  case False
  then show ?thesis using card_unvisited[of "graph_strings g" u "wAlive w"] assms
    by (simp add: discover_def undiscovered_def)
qed (simp add: discover_def)

lemma walk_edge_measure:
  assumes "calleeUsr e \<in> graph_strings g"
  shows "undiscovered g (walk_edge opt g e w) + length (wQueue (walk_edge opt g e w)) = undiscovered g w + length (wQueue w)"
proof -
  have n: "undiscovered g (note_constructor g e w) = undiscovered g w" "wQueue (note_constructor g e w) = wQueue w"
    by (simp_all add: note_constructor_def undiscovered_def split: option.split)
  show ?thesis using discover_measure[OF assms, of "note_constructor g e w"] n
    by (simp add: walk_edge_def Let_def) (simp add: undiscovered_def)
qed

lemma walk_edges_measure:
  "set es \<subseteq> set (calleesOf g u) \<Longrightarrow>
     undiscovered g (fold (walk_edge opt g) es w) + length (wQueue (fold (walk_edge opt g) es w))
     = undiscovered g w + length (wQueue w)"
proof (induction es arbitrary: w)
  case (Cons e es)
  have "calleeUsr e \<in> graph_strings g" using Cons.prems by (intro calleeUsr_graph_strings[of e g u]) simp
  then show ?case using Cons by (simp add: walk_edge_measure)
qed simp

function drain :: "bool \<Rightarrow> CallGraph \<Rightarrow> Walk \<Rightarrow> Walk" where
  "drain opt g w =
     (case wQueue w of
        [] \<Rightarrow> w
      | current # rest \<Rightarrow>
          drain opt g (fold (walk_edge opt g) (calleesOf g current) (w\<lparr>wQueue := rest\<rparr>)))"
  by pat_completeness auto
termination
proof (relation "measure (\<lambda>(opt, g, w). undiscovered g w + length (wQueue w))")
  fix opt g and w :: Walk and current rest
  assume "wQueue w = current # rest"
  then show "((opt, g, fold (walk_edge opt g) (calleesOf g current) (w\<lparr>wQueue := rest\<rparr>)), opt, g, w)
      \<in> measure (\<lambda>(opt, g, w). undiscovered g w + length (wQueue w))"
    using walk_edges_measure[of "calleesOf g current" g current opt "w\<lparr>wQueue := rest\<rparr>"]
    by (simp add: undiscovered_def)
qed simp

declare drain.simps [simp del]

definition recheck_edge :: "CallGraph \<Rightarrow> string \<Rightarrow> Walk \<times> string list \<Rightarrow> Walk \<times> string list" where
  "recheck_edge g callee p =
     (case p of (w, stillDeferred) \<Rightarrow>
        if constructible g (wClasses w) callee
        then (if callee \<in> wAlive w then (w, stillDeferred)
              else ((discover callee w)\<lparr>wChanged := True\<rparr>, stillDeferred))
        else (w, stillDeferred @ [callee]))"

definition recheck :: "CallGraph \<Rightarrow> Walk \<Rightarrow> Walk" where
  "recheck g w =
     (let (w1, stillDeferred) = fold (recheck_edge g) (wDeferred w) (w, [])
      in w1\<lparr>wDeferred := stillDeferred\<rparr>)"

text \<open>Only new classes set the flag during a pass, which bounds the number of passes.\<close>

definition all_classes :: "CallGraph \<Rightarrow> string set" where
  "all_classes g = {c. \<exists>u \<in> graph_strings g. ownClass g u = Some c}"

lemma finite_all_classes [simp]: "finite (all_classes g)"
proof -
  have "all_classes g \<subseteq> (\<lambda>u. the (ownClass g u)) ` graph_strings g" by (force simp: all_classes_def)
  then show ?thesis by (rule finite_subset) simp
qed

definition class_progress :: "CallGraph \<Rightarrow> Walk \<Rightarrow> Walk \<Rightarrow> bool" where
  "class_progress g w w' \<longleftrightarrow>
     wClasses w \<subseteq> wClasses w' \<and>
     (wChanged w' \<longrightarrow> wChanged w \<or> (\<exists>c \<in> all_classes g. c \<in> wClasses w' \<and> c \<notin> wClasses w))"

lemma class_progress_refl [simp]: "class_progress g w w"
  by (simp add: class_progress_def)

lemma class_progress_trans: "class_progress g a b \<Longrightarrow> class_progress g b c \<Longrightarrow> class_progress g a c"
  unfolding class_progress_def by blast

lemma walk_edge_classes: "calleeUsr e \<in> graph_strings g \<Longrightarrow> class_progress g w (walk_edge opt g e w)"
  by (auto simp: class_progress_def walk_edge_def note_constructor_def discover_def Let_def all_classes_def split: option.splits)

lemma walk_edges_classes:
  "set es \<subseteq> set (calleesOf g u) \<Longrightarrow> class_progress g w (fold (walk_edge opt g) es w)"
proof (induction es arbitrary: w)
  case (Cons e es)
  have "class_progress g w (walk_edge opt g e w)" using Cons.prems by (intro walk_edge_classes calleeUsr_graph_strings[of e g u]) simp
  moreover have "class_progress g (walk_edge opt g e w) (fold (walk_edge opt g) es (walk_edge opt g e w))"
    using Cons by simp
  ultimately show ?case by (auto intro: class_progress_trans)
qed simp

lemma drain_classes: "class_progress g w (drain opt g w)"
proof (induction opt g w rule: drain.induct)
  case (1 opt g w)
  show ?case
  proof (cases "wQueue w")
    case (Cons current rest)
    have "class_progress g w (w\<lparr>wQueue := rest\<rparr>)" by (simp add: class_progress_def)
    moreover have "class_progress g (w\<lparr>wQueue := rest\<rparr>) (fold (walk_edge opt g) (calleesOf g current) (w\<lparr>wQueue := rest\<rparr>))"
      by (rule walk_edges_classes[of _ g current]) simp
    ultimately show ?thesis using 1[OF Cons] Cons
      by (subst drain.simps) (auto intro: class_progress_trans)
  qed (simp add: drain.simps)
qed

lemma recheck_classes: "wClasses (recheck g w) = wClasses w"
proof -
  have "wClasses (fst (fold (recheck_edge g) ds (w, xs))) = wClasses w" for ds xs w
    by (induction ds arbitrary: w xs) (simp_all add: recheck_edge_def discover_def)
  then show ?thesis by (simp add: recheck_def split: prod.split) (metis fst_conv)
qed

function passes :: "bool \<Rightarrow> CallGraph \<Rightarrow> Walk \<Rightarrow> Walk" where
  "passes opt g w =
     (let w1 = drain opt g (w\<lparr>wChanged := False\<rparr>) in
      if \<not> wChanged w1 then w1
      else passes opt g (if opt then recheck g w1 else w1))"
  by pat_completeness auto
termination
proof (relation "measure (\<lambda>(opt, g, w). card (all_classes g - wClasses w))")
  fix opt g w w1
  assume w1: "w1 = drain opt g (w\<lparr>wChanged := False\<rparr>)" and ch: "\<not> \<not> wChanged w1"
  let ?w2 = "if opt then recheck g w1 else w1"
  have "class_progress g (w\<lparr>wChanged := False\<rparr>) w1" unfolding w1 by (rule drain_classes)
  then obtain c where "wClasses w \<subseteq> wClasses w1" "c \<in> all_classes g" "c \<in> wClasses w1" "c \<notin> wClasses w"
    using ch by (auto simp: class_progress_def)
  then have "all_classes g - wClasses w1 \<subset> all_classes g - wClasses w" by blast
  then have "card (all_classes g - wClasses w1) < card (all_classes g - wClasses w)"
    by (intro psubset_card_mono) simp_all
  then show "((opt, g, ?w2), opt, g, w) \<in> measure (\<lambda>(opt, g, w). card (all_classes g - wClasses w))"
    by (simp add: recheck_classes)
qed simp

declare passes.simps [simp del]

definition seed_walk :: "CallGraph \<Rightarrow> string list \<Rightarrow> Walk \<Rightarrow> Walk" where
  \<comment> \<open>the two seeding loops, over the entry points and the public API\<close>
  "seed_walk g names w = fold (\<lambda>name. fold discover (usrsForName g name)) names w"

subsection \<open>The analyzer\<close>

record DeadCodeAnalyzer =
  dcGraph :: CallGraph
  entryPoints :: "string list"
  publicApi :: "string list"
  pessimisticAlive :: "string set"
  optimisticAlive :: "string set"

definition newAnalyzer :: "CallGraph \<Rightarrow> string list \<Rightarrow> string list \<Rightarrow> DeadCodeAnalyzer" where
  \<comment> \<open>\<open>publicApi_\<close> is a \<open>std::set\<close>: ascending and without repetition\<close>
  "newAnalyzer g entries api =
     \<lparr>dcGraph = g, entryPoints = entries, publicApi = sort (remdups api),
      pessimisticAlive = {}, optimisticAlive = {}\<rparr>"

definition bfs :: "bool \<Rightarrow> DeadCodeAnalyzer \<Rightarrow> string set" where
  "bfs opt a =
     wAlive (passes opt (dcGraph a)
       (seed_walk (dcGraph a) (publicApi a)
         (seed_walk (dcGraph a) (entryPoints a)
           \<lparr>wQueue = [], wAlive = {}, wClasses = {}, wDeferred = [], wChanged = True\<rparr>)))"

definition analyzePessimistic :: "DeadCodeAnalyzer \<Rightarrow> DeadCodeAnalyzer" where
  "analyzePessimistic a = a\<lparr>pessimisticAlive := bfs False a\<rparr>"

definition analyzeOptimistic :: "DeadCodeAnalyzer \<Rightarrow> DeadCodeAnalyzer" where
  "analyzeOptimistic a = a\<lparr>optimisticAlive := bfs True a\<rparr>"

primrec rank :: "Liveness \<Rightarrow> nat" where
  "rank Alive = 2" | "rank OptimisticallyAlive = 1" | "rank Dead = 0"

definition livenessOf :: "DeadCodeAnalyzer \<Rightarrow> CallGraphNode \<Rightarrow> Liveness" where
  "livenessOf a node =
     (if usr node \<in> pessimisticAlive a then Alive
      else if usr node \<in> optimisticAlive a then OptimisticallyAlive
      else Dead)"

definition merge_verdict :: "DeadCodeAnalyzer \<Rightarrow> CallGraphNode \<Rightarrow> (string, Liveness) umap \<Rightarrow> (string, Liveness) umap" where
  "merge_verdict a node results =
     (let liveness = livenessOf a node in
      case map_of results (qualifiedName node) of
        None \<Rightarrow> uemplace (qualifiedName node) liveness results
      | Some old \<Rightarrow> (if rank liveness > rank old
                     then AList.update (qualifiedName node) liveness results else results))"

definition getResults :: "DeadCodeAnalyzer \<Rightarrow> (string, Liveness) umap" where
  "getResults a = fold (merge_verdict a) (allNodes (dcGraph a)) []"

definition deadMessage :: "string \<Rightarrow> string" where
  "deadMessage n = ''Dead code: '' @ n @ '' is not reachable from any entry point.''"

definition maybeDeadMessage :: "string \<Rightarrow> string" where
  "maybeDeadMessage n =
     ''Possibly dead code: '' @ n @ '' is only reachable through plausible (not proven) call paths.''"

definition diagnose :: "DeadCodeAnalyzer \<Rightarrow> string \<times> Liveness \<Rightarrow> Diagnostic list" where
  \<comment> \<open>the body of the loop: what it pushes for one entry of the results\<close>
  "diagnose a kv =
     (case findNode (dcGraph a) (fst kv) of
        None \<Rightarrow> []
      | Some node \<Rightarrow>
          (let loc = nodeFile node @ '':'' @ nat_string (nodeLine node) in
           if take 1 (nodeFile node) = ''<'' then []
           else if snd kv = Dead
           then [\<lparr>dgKind = DeadCode_Pessimistic, dgCallLocation = loc, dgResolvedDecl = fst kv,
                  dgBetterDecl = [], dgMissingHeader = [], dgMessage = deadMessage (fst kv), dgCheckName = []\<rparr>]
           else if snd kv = OptimisticallyAlive
           then [\<lparr>dgKind = DeadCode_Optimistic, dgCallLocation = loc, dgResolvedDecl = fst kv,
                  dgBetterDecl = [], dgMissingHeader = [], dgMessage = maybeDeadMessage (fst kv), dgCheckName = []\<rparr>]
           else []))"

definition getDiagnostics :: "DeadCodeAnalyzer \<Rightarrow> Diagnostic list" where
  "getDiagnostics a = concat (map (diagnose a) (getResults a))"

end
