(* ===== verification/DeadCodeProps.thy ===== *)
theory DeadCodeProps
  imports DeadCode
begin

text \<open>
  The walk computes a least fixpoint: the reached functions and the constructed classes are
  defined together by rules, and the set the loops return is the set the rules define.
\<close>

subsection \<open>Reachability by rules\<close>

definition candidate_class :: "CallGraph \<Rightarrow> string \<Rightarrow> string \<Rightarrow> bool" where
  "candidate_class g u c \<longleftrightarrow> c \<in> set (getClassesForImpl g u) \<or> ownClass g u = Some c"

inductive reached :: "bool \<Rightarrow> CallGraph \<Rightarrow> string set \<Rightarrow> string \<Rightarrow> bool"
  and constructed :: "bool \<Rightarrow> CallGraph \<Rightarrow> string set \<Rightarrow> string \<Rightarrow> bool" for opt g S where
  seed: "u \<in> S \<Longrightarrow> reached opt g S u"
| proven: "reached opt g S u \<Longrightarrow> e \<in> set (calleesOf g u) \<Longrightarrow> confidence e = Proven \<Longrightarrow> reached opt g S (calleeUsr e)"
| plausible: "reached opt g S u \<Longrightarrow> e \<in> set (calleesOf g u) \<Longrightarrow> opt \<Longrightarrow> kind e \<noteq> VirtualDispatch \<Longrightarrow>
    reached opt g S (calleeUsr e)"
| dispatch: "reached opt g S u \<Longrightarrow> e \<in> set (calleesOf g u) \<Longrightarrow> opt \<Longrightarrow> kind e = VirtualDispatch \<Longrightarrow>
    candidate_class g (calleeUsr e) c \<Longrightarrow> constructed opt g S c \<Longrightarrow> reached opt g S (calleeUsr e)"
| construct: "reached opt g S u \<Longrightarrow> e \<in> set (calleesOf g u) \<Longrightarrow> kind e = ConstructorCall \<Longrightarrow>
    ownClass g (calleeUsr e) = Some c \<Longrightarrow> constructed opt g S c"

lemma constructible_iff: "constructible g C u \<longleftrightarrow> (\<exists>c \<in> C. candidate_class g u c)"
  by (auto simp: constructible_def candidate_class_def list_ex_iff split: option.splits)

lemma reached_mono:
  assumes "S \<subseteq> T"
  shows "(reached False g S u \<longrightarrow> reached opt g T u) \<and> (constructed False g S c \<longrightarrow> constructed opt g T c)"
proof -
  show ?thesis
  proof (rule reached_constructed.induct)
    fix v assume "v \<in> S" then show "reached opt g T v" using assms by (blast intro: reached_constructed.seed)
  qed (auto intro: reached_constructed.intros)
qed

subsection \<open>Soundness\<close>

definition deferred_ok :: "bool \<Rightarrow> CallGraph \<Rightarrow> string set \<Rightarrow> string \<Rightarrow> bool" where
  "deferred_ok opt g S d \<longleftrightarrow> opt \<and> (\<exists>u e. reached opt g S u \<and> e \<in> set (calleesOf g u) \<and>
     kind e = VirtualDispatch \<and> calleeUsr e = d)"

definition sound :: "bool \<Rightarrow> CallGraph \<Rightarrow> string set \<Rightarrow> Walk \<Rightarrow> bool" where
  "sound opt g S w \<longleftrightarrow>
     wAlive w \<subseteq> {u. reached opt g S u} \<and> set (wQueue w) \<subseteq> wAlive w \<and>
     wClasses w \<subseteq> {c. constructed opt g S c} \<and>
     (\<forall>d \<in> set (wDeferred w). deferred_ok opt g S d)"

lemma walk_edge_sound:
  assumes s: "sound opt g S w" and r: "reached opt g S u" and e: "e \<in> set (calleesOf g u)"
  shows "sound opt g S (walk_edge opt g e w)"
proof -
  let ?w = "note_constructor g e w"
  have s1: "sound opt g S ?w"
    using s reached_constructed.construct[OF r e]
    by (auto simp: sound_def note_constructor_def split: option.splits)
  have f: "reached opt g S (calleeUsr e)" if fo: "shouldFollowEdge opt g (wClasses ?w) e"
  proof (cases "confidence e = Proven")
    case True then show ?thesis by (rule reached_constructed.proven[OF r e])
  next
    case False
    then have opt: opt using fo by (auto simp: shouldFollowEdge_def split: if_splits)
    show ?thesis
    proof (cases "kind e = VirtualDispatch")
      case True
      then have "constructible g (wClasses ?w) (calleeUsr e)" using fo False opt by (simp add: shouldFollowEdge_def)
      then obtain c where "c \<in> wClasses ?w" "candidate_class g (calleeUsr e) c" by (auto simp: constructible_iff)
      then show ?thesis using s1 reached_constructed.dispatch[OF r e opt True] by (auto simp: sound_def)
    qed (rule reached_constructed.plausible[OF r e opt])
  qed
  have d: "deferred_ok opt g S (calleeUsr e)" if "opt" "kind e = VirtualDispatch"
    using r e that by (auto simp: deferred_ok_def)
  show ?thesis
    using s1 f d by (auto simp: walk_edge_def Let_def sound_def discover_def)
qed

lemma drain_sound: "sound opt g S w \<Longrightarrow> sound opt g S (drain opt g w)"
proof (induction opt g w rule: drain.induct)
  case (1 opt g w)
  show ?case
  proof (cases "wQueue w")
    case (Cons u rest)
    have "sound opt g S (w\<lparr>wQueue := rest\<rparr>)" and r: "reached opt g S u"
      using "1.prems" Cons by (auto simp: sound_def)
    then have "sound opt g S (fold (walk_edge opt g) (calleesOf g u) (w\<lparr>wQueue := rest\<rparr>))"
      by (intro fold_invariant[where I="sound opt g S"]) (auto intro: walk_edge_sound[OF _ r])
    from "1.IH"[OF Cons this] show ?thesis by (subst drain.simps) (simp add: Cons)
  qed (use "1.prems" in \<open>simp add: drain.simps\<close>)
qed

definition recheck_inv :: "CallGraph \<Rightarrow> Walk \<Rightarrow> string list \<Rightarrow> Walk \<times> string list \<Rightarrow> bool" where
  \<comment> \<open>what the loop over the deferred edges has done after the prefix \<open>ds\<close>\<close>
  "recheck_inv g w ds p \<longleftrightarrow>
     (case p of (w1, still) \<Rightarrow>
        wClasses w1 = wClasses w \<and> wDeferred w1 = wDeferred w \<and> wAlive w \<subseteq> wAlive w1 \<and>
        wAlive w1 = wAlive w \<union> {d \<in> set ds. constructible g (wClasses w) d} \<and>
        (\<exists>new. wQueue w1 = wQueue w @ new \<and> wAlive w1 = wAlive w \<union> set new) \<and>
        set still = {d \<in> set ds. \<not> constructible g (wClasses w) d})"

lemma recheck_fold: "recheck_inv g w ds (fold (recheck_edge g) ds (w, []))"
proof (induction ds rule: rev_induct)
  case Nil
  show ?case by (simp add: recheck_inv_def)
next
  case (snoc d ds)
  obtain w1 still where p: "fold (recheck_edge g) ds (w, []) = (w1, still)" by fastforce
  have I: "recheck_inv g w ds (w1, still)" using snoc p by simp
  then obtain new where new: "wQueue w1 = wQueue w @ new" "wAlive w1 = wAlive w \<union> set new"
    by (auto simp: recheck_inv_def)
  have "wQueue w1 @ [d] = wQueue w @ (new @ [d])" "insert d (wAlive w1) = wAlive w \<union> set (new @ [d])"
    using new by auto
  then have ex: "\<exists>n. wQueue w1 @ [d] = wQueue w @ n \<and> insert d (wAlive w1) = wAlive w \<union> set n" by blast
  have step: "fold (recheck_edge g) (ds @ [d]) (w, []) = recheck_edge g d (w1, still)" by (simp add: p)
  show ?case
  proof (cases "constructible g (wClasses w) d")
    case False
    then have "recheck_edge g d (w1, still) = (w1, still @ [d])" using I by (simp add: recheck_edge_def recheck_inv_def)
    then show ?thesis unfolding step using I False by (auto simp: recheck_inv_def)
  next
    case True
    show ?thesis
    proof (cases "d \<in> wAlive w1")
      case False
      then have "recheck_edge g d (w1, still) = ((discover d w1)\<lparr>wChanged := True\<rparr>, still)"
        using I True by (simp add: recheck_edge_def recheck_inv_def)
      then show ?thesis unfolding step using I True ex False by (auto simp: recheck_inv_def discover_def)
    next
      case d: True
      then have "recheck_edge g d (w1, still) = (w1, still)"
        using I True by (simp add: recheck_edge_def recheck_inv_def)
      then show ?thesis unfolding step using I True d by (auto simp: recheck_inv_def)
    qed
  qed
qed

lemma recheck_spec:
  shows "wClasses (recheck g w) = wClasses w"
    and "wAlive (recheck g w) = wAlive w \<union> {d \<in> set (wDeferred w). constructible g (wClasses w) d}"
    and "\<exists>new. wQueue (recheck g w) = wQueue w @ new \<and> wAlive (recheck g w) = wAlive w \<union> set new"
    and "set (wDeferred (recheck g w)) = {d \<in> set (wDeferred w). \<not> constructible g (wClasses w) d}"
  using recheck_fold[of g w "wDeferred w"] by (auto simp: recheck_def recheck_inv_def split: prod.splits)

lemma recheck_sound:
  assumes "sound opt g S w"
  shows "sound opt g S (recheck g w)"
proof -
  obtain new where new: "wQueue (recheck g w) = wQueue w @ new" "wAlive (recheck g w) = wAlive w \<union> set new"
    using recheck_spec(3) by blast
  have "reached opt g S d" if mem: "d \<in> set (wDeferred w)" and con: "constructible g (wClasses w) d" for d
  proof -
    obtain c where c: "c \<in> wClasses w" "candidate_class g d c" using con by (auto simp: constructible_iff)
    have "deferred_ok opt g S d" "constructed opt g S c" using assms mem c(1) by (auto simp: sound_def)
    then show ?thesis using c(2) by (auto simp: deferred_ok_def intro: reached_constructed.dispatch)
  qed
  then have "wAlive (recheck g w) \<subseteq> {u. reached opt g S u}"
    using assms by (auto simp: recheck_spec(2) sound_def)
  then show ?thesis using assms new by (auto simp: sound_def recheck_spec(1,4))
qed

lemma passes_sound: "sound opt g S w \<Longrightarrow> sound opt g S (passes opt g w)"
proof (induction opt g w rule: passes.induct)
  case (1 opt g w)
  have "sound opt g S (w\<lparr>wChanged := False\<rparr>)" using "1.prems" by (simp add: sound_def)
  from drain_sound[OF this] have d: "sound opt g S (drain opt g (w\<lparr>wChanged := False\<rparr>))" .
  let ?w1 = "drain opt g (w\<lparr>wChanged := False\<rparr>)"
  show ?case
  proof (cases "wChanged ?w1")
    case True
    have "sound opt g S (if opt then recheck g ?w1 else ?w1)" using d recheck_sound[OF d] by (cases opt) auto
    from "1.IH"[OF refl _ this] True have "sound opt g S (passes opt g (if opt then recheck g ?w1 else ?w1))" by simp
    moreover have "passes opt g w = passes opt g (if opt then recheck g ?w1 else ?w1)"
      using True passes.simps[of opt g w] by (simp add: Let_def)
    ultimately show ?thesis by metis
  next
    case False
    then show ?thesis using d passes.simps[of opt g w] by (simp add: Let_def)
  qed
qed

subsection \<open>Completeness\<close>

definition settled :: "bool \<Rightarrow> CallGraph \<Rightarrow> Walk \<Rightarrow> CallGraphEdge \<Rightarrow> bool" where
  "settled opt g w e \<longleftrightarrow>
     (kind e = ConstructorCall \<longrightarrow> (\<forall>c. ownClass g (calleeUsr e) = Some c \<longrightarrow> c \<in> wClasses w)) \<and>
     (confidence e = Proven \<or> opt \<and> kind e \<noteq> VirtualDispatch \<longrightarrow> calleeUsr e \<in> wAlive w) \<and>
     (opt \<and> kind e = VirtualDispatch \<and> confidence e = Plausible \<longrightarrow>
        calleeUsr e \<in> wAlive w \<or> calleeUsr e \<in> set (wDeferred w))"

definition closed_walk :: "bool \<Rightarrow> CallGraph \<Rightarrow> Walk \<Rightarrow> bool" where
  \<comment> \<open>every reached name off the queue has all its edges settled; deferred targets are not constructible
      unless a class was added since the flag was cleared\<close>
  "closed_walk opt g w \<longleftrightarrow>
     (\<forall>u \<in> wAlive w - set (wQueue w). \<forall>e \<in> set (calleesOf g u). settled opt g w e) \<and>
     (wChanged w \<or> (\<forall>d \<in> set (wDeferred w). \<not> constructible g (wClasses w) d))"

definition walk_le :: "Walk \<Rightarrow> Walk \<Rightarrow> bool" where
  "walk_le w w' \<longleftrightarrow> wAlive w \<subseteq> wAlive w' \<and> wClasses w \<subseteq> wClasses w' \<and>
     set (wDeferred w) \<subseteq> set (wDeferred w') \<union> wAlive w'"

lemma walk_le_trans: "walk_le a b \<Longrightarrow> walk_le b c \<Longrightarrow> walk_le a c"
  unfolding walk_le_def by blast

lemma settled_mono: "settled opt g w e \<Longrightarrow> walk_le w w' \<Longrightarrow> settled opt g w' e"
  unfolding settled_def walk_le_def by blast

lemma walk_edge_le: "walk_le w (walk_edge opt g e w)"
  by (auto simp: walk_le_def walk_edge_def note_constructor_def discover_def Let_def split: option.split)

lemma walk_edge_settles: "settled opt g (walk_edge opt g e w) e"
  by (auto simp: settled_def walk_edge_def note_constructor_def shouldFollowEdge_def discover_def Let_def split: option.splits)

lemma walk_edge_fresh:
  assumes "wChanged w \<or> (\<forall>d \<in> set (wDeferred w). \<not> constructible g (wClasses w) d)"
  shows "wChanged (walk_edge opt g e w) \<or>
     (\<forall>d \<in> set (wDeferred (walk_edge opt g e w)). \<not> constructible g (wClasses (walk_edge opt g e w)) d)"
  using assms
  by (auto simp: walk_edge_def note_constructor_def shouldFollowEdge_def discover_def Let_def split: option.splits)

lemma walk_edge_queue: "wAlive (walk_edge opt g e w) - set (wQueue (walk_edge opt g e w)) \<subseteq> wAlive w - set (wQueue w)
    \<and> wQueue (walk_edge opt g e w) = wQueue w @ drop (length (wQueue w)) (wQueue (walk_edge opt g e w))"
  by (auto simp: walk_edge_def note_constructor_def discover_def Let_def split: option.split)

lemma walk_edges_closed:
  fixes w :: Walk and opt g es
  defines "w' \<equiv> fold (walk_edge opt g) es w"
  shows "walk_le w w' \<and> (\<forall>e \<in> set es. settled opt g w' e)
     \<and> wAlive w' - set (wQueue w') \<subseteq> wAlive w - set (wQueue w)
     \<and> ((wChanged w \<or> (\<forall>d \<in> set (wDeferred w). \<not> constructible g (wClasses w) d)) \<longrightarrow>
        (wChanged w' \<or> (\<forall>d \<in> set (wDeferred w'). \<not> constructible g (wClasses w') d)))"
  unfolding w'_def
proof (induction es rule: rev_induct)
  case Nil
  show ?case by (auto simp: walk_le_def)
next
  case (snoc e es)
  let ?v = "fold (walk_edge opt g) es w"
  have le: "walk_le ?v (walk_edge opt g e ?v)" by (rule walk_edge_le)
  show ?case
    using snoc walk_edge_settles[of opt g e ?v] settled_mono[OF _ le] walk_le_trans[OF _ le]
      walk_edge_queue[of opt g e ?v] walk_edge_fresh[of ?v g opt e]
    by simp blast
qed

lemma drain_closed:
  assumes "closed_walk opt g w"
  shows "closed_walk opt g (drain opt g w) \<and> wQueue (drain opt g w) = [] \<and> wAlive w \<subseteq> wAlive (drain opt g w)"
  using assms
proof (induction opt g w rule: drain.induct)
  case (1 opt g w)
  show ?case
  proof (cases "wQueue w")
    case (Cons u rest)
    let ?w0 = "w\<lparr>wQueue := rest\<rparr>" and ?w' = "fold (walk_edge opt g) (calleesOf g u) (w\<lparr>wQueue := rest\<rparr>)"
    note F = walk_edges_closed[of ?w0 opt g "calleesOf g u"]
    have le: "walk_le ?w0 ?w'" using F by blast
    have "settled opt g ?w' e" if "v \<in> wAlive ?w' - set (wQueue ?w')" "e \<in> set (calleesOf g v)" for v e
    proof (cases "v = u")
      case True
      then show ?thesis using F that(2) by blast
    next
      case False
      have "v \<in> wAlive ?w0 - set (wQueue ?w0)" using F that(1) by blast
      then have "v \<in> wAlive w - set (wQueue w)" using Cons False by simp
      then have "settled opt g w e" using "1.prems" that(2) by (auto simp: closed_walk_def)
      then have "settled opt g ?w0 e" by (simp add: settled_def)
      then show ?thesis by (rule settled_mono[OF _ le])
    qed
    moreover have "wChanged ?w0 \<or> (\<forall>d \<in> set (wDeferred ?w0). \<not> constructible g (wClasses ?w0) d)"
      using "1.prems" by (simp add: closed_walk_def)
    then have "wChanged ?w' \<or> (\<forall>d \<in> set (wDeferred ?w'). \<not> constructible g (wClasses ?w') d)"
      using F by blast
    ultimately have c: "closed_walk opt g ?w'" unfolding closed_walk_def by blast
    have "wAlive w \<subseteq> wAlive ?w'" using le by (simp add: walk_le_def)
    with "1.IH"[OF Cons c] show ?thesis using drain.simps[of opt g w] Cons by auto
  qed (use "1.prems" in \<open>simp add: drain.simps\<close>)
qed

lemma recheck_closed:
  assumes "closed_walk opt g w" and "wQueue w = []"
  shows "closed_walk opt g (recheck g w\<lparr>wChanged := False\<rparr>) \<and> wAlive w \<subseteq> wAlive (recheck g w)"
proof -
  obtain new where new: "wQueue (recheck g w) = new" "wAlive (recheck g w) = wAlive w \<union> set new"
    using recheck_spec(3)[of g w] assms(2) by auto
  have le: "walk_le w (recheck g w\<lparr>wChanged := False\<rparr>)"
    using recheck_spec(1,2,4)[of g w] by (auto simp: walk_le_def)
  have "settled opt g w e" if "u \<in> wAlive (recheck g w) - set (wQueue (recheck g w))" "e \<in> set (calleesOf g u)" for u e
    using assms that new by (auto simp: closed_walk_def)
  then have "settled opt g (recheck g w\<lparr>wChanged := False\<rparr>) e"
    if "u \<in> wAlive (recheck g w) - set (wQueue (recheck g w))" "e \<in> set (calleesOf g u)" for u e
    using settled_mono[OF _ le] that by blast
  moreover have "\<forall>d \<in> set (wDeferred (recheck g w)). \<not> constructible g (wClasses (recheck g w)) d"
    by (simp add: recheck_spec(1,4))
  ultimately show ?thesis using new by (auto simp: closed_walk_def)
qed

definition ready :: "bool \<Rightarrow> CallGraph \<Rightarrow> Walk \<Rightarrow> bool" where
  "ready opt g w \<longleftrightarrow> closed_walk opt g (w\<lparr>wChanged := False\<rparr>) \<and> (\<not> opt \<longrightarrow> wDeferred w = [])"

lemma drain_pessimistic: "wDeferred w = [] \<Longrightarrow> wDeferred (drain False g w) = []"
proof (induction "False" g w rule: drain.induct)
  case (1 g w)
  have "wDeferred (fold (walk_edge False g) es v) = []" if "wDeferred v = []" for es v
    using that by (induction es arbitrary: v)
      (auto simp: walk_edge_def note_constructor_def discover_def Let_def split: option.split)
  then show ?case using 1 by (cases "wQueue w") (simp_all add: drain.simps[of False g w])
qed

lemma passes_closed:
  assumes "ready opt g w"
  shows "closed_walk opt g (passes opt g w) \<and> wQueue (passes opt g w) = [] \<and> \<not> wChanged (passes opt g w)
       \<and> wAlive w \<subseteq> wAlive (passes opt g w)"
  using assms
proof (induction opt g w rule: passes.induct)
  case (1 opt g w)
  let ?w1 = "drain opt g (w\<lparr>wChanged := False\<rparr>)" and ?w2 = "if opt then recheck g (drain opt g (w\<lparr>wChanged := False\<rparr>)) else drain opt g (w\<lparr>wChanged := False\<rparr>)"
  have d: "closed_walk opt g ?w1 \<and> wQueue ?w1 = [] \<and> wAlive w \<subseteq> wAlive ?w1"
    using drain_closed[of opt g "w\<lparr>wChanged := False\<rparr>"] "1.prems" by (simp add: ready_def)
  have def: "wDeferred ?w1 = []" if "\<not> opt"
    using drain_pessimistic[of "w\<lparr>wChanged := False\<rparr>" g] "1.prems" that by (simp add: ready_def)
  have r: "ready opt g ?w2 \<and> wAlive ?w1 \<subseteq> wAlive ?w2"
  proof (cases opt)
    case True
    then show ?thesis using recheck_closed[of opt g ?w1] d by (simp add: ready_def)
  next
    case False
    then show ?thesis using d def by (auto simp: ready_def closed_walk_def settled_def)
  qed
  show ?case
  proof (cases "wChanged ?w1")
    case True
    then have eq: "passes opt g w = passes opt g ?w2" using passes.simps[of opt g w] by (simp add: Let_def)
    have "wAlive w \<subseteq> wAlive ?w2" using d r by blast
    then show ?thesis unfolding eq using "1.IH"[OF refl _ conjunct1[OF r]] True by blast
  next
    case False
    then show ?thesis using d passes.simps[of opt g w] by (simp add: Let_def)
  qed
qed

definition known_dispatch :: "CallGraph \<Rightarrow> bool" where
  \<comment> \<open>no virtual call is stored with unknown confidence; the builders store \<open>Proven\<close> or \<open>Plausible\<close>\<close>
  "known_dispatch g \<longleftrightarrow> list_all (\<lambda>se. seKind se = VirtualDispatch \<longrightarrow> seConfidence se \<noteq> UnknownConfidence) (edges g)"

lemma known_dispatch_callees:
  assumes wf: "wf_graph g" and k: "known_dispatch g" and e: "e \<in> set (calleesOf g u)" and "kind e = VirtualDispatch"
  shows "confidence e = Proven \<or> confidence e = Plausible"
proof -
  obtain i r where r: "r \<in> set (calleeRefsOf g i)" and e': "e = materialize g r"
    using e by (auto simp: calleesOf_def)
  obtain se where se: "live_edge g se" and eq: "r = expand_ref se (refCallee r)"
    using calleeRefsOf_spec(2)[OF wf_graphD(2)[OF wf] r] by blast
  have "refKind (expand_ref se b) = (if seKind se = FunctionPointerReturn then joined_kind se else seKind se)"
    "refConfidence (expand_ref se b) = seConfidence se" for b by (simp_all add: expand_ref_def ref_of_def)
  from this[of "refCallee r"] have "refKind r = (if seKind se = FunctionPointerReturn then joined_kind se else seKind se)"
    "refConfidence r = seConfidence se" unfolding eq[symmetric] .
  then have "seKind se = VirtualDispatch" "confidence e = seConfidence se"
    using assms(4) by (auto simp: e' materialize_def joined_kind_def split: if_splits)
  then show ?thesis using k se by (cases "seConfidence se") (auto simp: known_dispatch_def live_edge_def list_all_iff)
qed

lemma closed_complete:
  assumes wf: "wf_graph g" and k: "known_dispatch g"
    and c: "closed_walk opt g w" "wQueue w = []" "\<not> wChanged w" and S: "S \<subseteq> wAlive w"
  shows "(reached opt g S u \<longrightarrow> u \<in> wAlive w) \<and> (constructed opt g S cl \<longrightarrow> cl \<in> wClasses w)"
proof -
  have st: "settled opt g w e" if "v \<in> wAlive w" "e \<in> set (calleesOf g v)" for v e
    using c that by (simp add: closed_walk_def)
  have nd: "\<not> constructible g (wClasses w) d" if "d \<in> set (wDeferred w)" for d
    using c that by (simp add: closed_walk_def)
  show ?thesis
  proof (rule reached_constructed.induct[where ?P1.0="\<lambda>u. u \<in> wAlive w" and ?P2.0="\<lambda>c. c \<in> wClasses w"])
    fix v e cc
    assume v: "v \<in> wAlive w" and e: "e \<in> set (calleesOf g v)" and o: opt and kd: "kind e = VirtualDispatch"
      and cc: "candidate_class g (calleeUsr e) cc" "cc \<in> wClasses w"
    have "constructible g (wClasses w) (calleeUsr e)" using cc unfolding constructible_iff by blast
    then have "calleeUsr e \<notin> set (wDeferred w)" using nd by blast
    moreover have "calleeUsr e \<in> wAlive w \<or> calleeUsr e \<in> set (wDeferred w)"
      using st[OF v e] known_dispatch_callees[OF wf k e kd] o kd unfolding settled_def by blast
    ultimately show "calleeUsr e \<in> wAlive w" by blast
  next
    fix v e assume "v \<in> wAlive w" "e \<in> set (calleesOf g v)" "confidence e = Proven"
    then show "calleeUsr e \<in> wAlive w" using st[of v e] unfolding settled_def by blast
  next
    fix v e assume "v \<in> wAlive w" "e \<in> set (calleesOf g v)" "opt" "kind e \<noteq> VirtualDispatch"
    then show "calleeUsr e \<in> wAlive w" using st[of v e] unfolding settled_def by blast
  next
    fix v e cc assume "v \<in> wAlive w" "e \<in> set (calleesOf g v)" "kind e = ConstructorCall" "ownClass g (calleeUsr e) = Some cc"
    then show "cc \<in> wClasses w" using st[of v e] unfolding settled_def by blast
  next
    fix v assume "v \<in> S" then show "v \<in> wAlive w" using S by blast
  qed
qed

subsection \<open>The analyses\<close>

definition seeds :: "DeadCodeAnalyzer \<Rightarrow> string set" where
  "seeds a = (\<Union>n \<in> set (entryPoints a) \<union> set (publicApi a). set (usrsForName (dcGraph a) n))"

definition seeding :: "Walk \<Rightarrow> bool" where
  \<comment> \<open>nothing taken off the queue yet\<close>
  "seeding w \<longleftrightarrow> wAlive w = set (wQueue w) \<and> wClasses w = {} \<and> wDeferred w = []"

lemma discover_all: "seeding w \<Longrightarrow> seeding (fold discover us w) \<and> wAlive (fold discover us w) = wAlive w \<union> set us"
proof (induction us arbitrary: w)
  case (Cons u us)
  have "seeding (discover u w)" "wAlive (discover u w) = insert u (wAlive w)"
    using Cons.prems by (auto simp: seeding_def discover_def)
  then show ?case using Cons.IH[of "discover u w"] by auto
qed simp

lemma seed_walk_spec:
  "seeding w \<Longrightarrow> seeding (seed_walk g ns w) \<and> wAlive (seed_walk g ns w) = wAlive w \<union> (\<Union>n \<in> set ns. set (usrsForName g n))"
proof (induction ns arbitrary: w)
  case (Cons n ns)
  show ?case
    using Cons.IH[of "fold discover (usrsForName g n) w"] discover_all[OF Cons.prems, of "usrsForName g n"]
    by (auto simp: seed_walk_def)
qed (simp add: seed_walk_def)

lemma bfs_spec:
  assumes wf: "wf_graph (dcGraph a)" and k: "known_dispatch (dcGraph a)"
  shows "bfs opt a = {u. reached opt (dcGraph a) (seeds a) u}"
proof -
  let ?g = "dcGraph a" and ?start = "\<lparr>wQueue = [], wAlive = {}, wClasses = {}, wDeferred = [], wChanged = True\<rparr>"
  let ?w = "seed_walk (dcGraph a) (publicApi a) (seed_walk (dcGraph a) (entryPoints a)
    \<lparr>wQueue = [], wAlive = {}, wClasses = {}, wDeferred = [], wChanged = True\<rparr>)"
  have "seeding ?start" by (simp add: seeding_def)
  note s1 = seed_walk_spec[OF this, of ?g "entryPoints a"]
  note s2 = seed_walk_spec[OF conjunct1[OF s1], of ?g "publicApi a"]
  have w: "seeding ?w" by (rule conjunct1[OF s2])
  have wa: "wAlive ?w = seeds a"
    unfolding conjunct2[OF s2] conjunct2[OF s1] by (auto simp: seeds_def)
  have "sound opt ?g (seeds a) ?w"
    using w wa by (auto simp: sound_def seeding_def intro: reached_constructed.seed)
  from passes_sound[OF this] have snd: "bfs opt a \<subseteq> {u. reached opt ?g (seeds a) u}" by (simp add: bfs_def sound_def)
  have "ready opt ?g ?w" using w by (simp add: ready_def closed_walk_def seeding_def)
  note P = passes_closed[OF this]
  have "wAlive (passes opt ?g ?w) = bfs opt a" by (simp add: bfs_def)
  then have "seeds a \<subseteq> bfs opt a" using P wa by simp
  then have "reached opt ?g (seeds a) u \<longrightarrow> u \<in> bfs opt a" for u
    using closed_complete[OF wf k, of opt "passes opt ?g ?w" "seeds a" u "[]"] P by (simp add: bfs_def)
  with snd show ?thesis by blast
qed

definition analyzed :: "DeadCodeAnalyzer \<Rightarrow> DeadCodeAnalyzer" where
  "analyzed a = analyzeOptimistic (analyzePessimistic a)"

lemma analyzed_fields:
  "dcGraph (analyzed a) = dcGraph a" "pessimisticAlive (analyzed a) = bfs False a"
  "optimisticAlive (analyzed a) = bfs True a"
proof -
  have "bfs True (analyzePessimistic a) = bfs True a" by (simp add: analyzePessimistic_def bfs_def)
  then show "dcGraph (analyzed a) = dcGraph a" "pessimisticAlive (analyzed a) = bfs False a"
    "optimisticAlive (analyzed a) = bfs True a"
    by (simp_all add: analyzed_def analyzeOptimistic_def) (simp_all add: analyzePessimistic_def)
qed

definition best_verdict :: "DeadCodeAnalyzer \<Rightarrow> CallGraphNode list \<Rightarrow> string \<Rightarrow> Liveness option \<Rightarrow> bool" where
  "best_verdict a ns n r \<longleftrightarrow>
     (case r of
        None \<Rightarrow> \<forall>node \<in> set ns. qualifiedName node \<noteq> n
      | Some l \<Rightarrow> (\<exists>node \<in> set ns. qualifiedName node = n \<and> livenessOf a node = l) \<and>
                  (\<forall>node \<in> set ns. qualifiedName node = n \<longrightarrow> rank (livenessOf a node) \<le> rank l))"

lemma results_best: "best_verdict a ns n (map_of (fold (merge_verdict a) ns []) n)"
proof (induction ns rule: rev_induct)
  case Nil
  show ?case by (simp add: best_verdict_def)
next
  case (snoc x ns)
  let ?m = "fold (merge_verdict a) ns []"
  have m: "map_of (fold (merge_verdict a) (ns @ [x]) []) n =
      (if qualifiedName x = n
       then (case map_of ?m n of None \<Rightarrow> Some (livenessOf a x)
             | Some old \<Rightarrow> Some (if rank (livenessOf a x) > rank old then livenessOf a x else old))
       else map_of ?m n)"
    by (auto simp: merge_verdict_def Let_def umap_simps split: option.split)
  show ?case
  proof (cases "map_of ?m n")
    case None
    then show ?thesis using snoc unfolding m by (auto simp: best_verdict_def)
  next
    case (Some old)
    then show ?thesis using snoc unfolding m by (auto simp: best_verdict_def)
  qed
qed

lemma rank_le: "rank a \<le> rank b \<longleftrightarrow> b = Alive \<or> (b = OptimisticallyAlive \<and> a \<noteq> Alive) \<or> a = Dead"
  by (cases a; cases b) simp_all

definition display_reached :: "CallGraph \<Rightarrow> string set \<Rightarrow> string \<Rightarrow> bool" where
  "display_reached g U n \<longleftrightarrow> (\<exists>node \<in> set (allNodes g). qualifiedName node = n \<and> usr node \<in> U)"

lemma getResults_iff:
  shows "map_of (getResults a) n = Some l \<longleftrightarrow>
     (\<exists>node \<in> set (allNodes (dcGraph a)). qualifiedName node = n) \<and>
     l = (if display_reached (dcGraph a) (pessimisticAlive a) n then Alive
          else if display_reached (dcGraph a) (optimisticAlive a) n then OptimisticallyAlive else Dead)"
proof -
  note B = results_best[of a "allNodes (dcGraph a)" n, folded getResults_def]
  show ?thesis
  proof (cases "map_of (getResults a) n")
    case None
    then show ?thesis using B by (auto simp: best_verdict_def)
  next
    case (Some r)
    then have b: "\<exists>node \<in> set (allNodes (dcGraph a)). qualifiedName node = n \<and> livenessOf a node = r"
      "\<forall>node \<in> set (allNodes (dcGraph a)). qualifiedName node = n \<longrightarrow> rank (livenessOf a node) \<le> rank r"
      using B by (auto simp: best_verdict_def)
    have P: "display_reached (dcGraph a) (pessimisticAlive a) n \<longleftrightarrow> r = Alive"
    proof
      assume "display_reached (dcGraph a) (pessimisticAlive a) n"
      then obtain node where "node \<in> set (allNodes (dcGraph a))" "qualifiedName node = n" "livenessOf a node = Alive"
        by (auto simp: display_reached_def livenessOf_def)
      then show "r = Alive" using b(2) by (auto simp: rank_le dest!: bspec)
    qed (use b(1) in \<open>auto simp: display_reached_def livenessOf_def split: if_splits\<close>)
    have O: "r = OptimisticallyAlive" if o: "display_reached (dcGraph a) (optimisticAlive a) n" and na: "r \<noteq> Alive"
    proof -
      obtain node where "node \<in> set (allNodes (dcGraph a))" "qualifiedName node = n" "livenessOf a node \<noteq> Dead"
        using o by (auto simp: display_reached_def livenessOf_def)
      then show ?thesis using b(2) na by (auto simp: rank_le dest!: bspec)
    qed
    have O': "display_reached (dcGraph a) (optimisticAlive a) n" if "r = OptimisticallyAlive"
      using b(1) that by (auto simp: display_reached_def livenessOf_def split: if_splits)
    have "r = (if display_reached (dcGraph a) (pessimisticAlive a) n then Alive
          else if display_reached (dcGraph a) (optimisticAlive a) n then OptimisticallyAlive else Dead)"
      using P O O' by (cases r) auto
    then show ?thesis using Some b(1) by auto
  qed
qed

lemma diagnose_iff:
  "d \<in> set (diagnose a (n, l)) \<longleftrightarrow>
     (\<exists>node. findNode (dcGraph a) n = Some node \<and> take 1 (nodeFile node) \<noteq> ''<'' \<and>
        dgCallLocation d = nodeFile node @ '':'' @ nat_string (nodeLine node) \<and> dgResolvedDecl d = n \<and>
        (dgKind d = DeadCode_Pessimistic \<and> l = Dead \<and>
           dgMessage d = deadMessage n \<or>
         dgKind d = DeadCode_Optimistic \<and> l = OptimisticallyAlive \<and>
           dgMessage d = maybeDeadMessage n) \<and>
        dgBetterDecl d = [] \<and> dgMissingHeader d = [] \<and> dgCheckName d = [])"
proof (cases "findNode (dcGraph a) n")
  case None
  then show ?thesis by (simp add: diagnose_def)
next
  case (Some node)
  have eq: "d = \<lparr>dgKind = k, dgCallLocation = x, dgResolvedDecl = y, dgBetterDecl = [], dgMissingHeader = [],
        dgMessage = z, dgCheckName = []\<rparr> \<longleftrightarrow>
      dgKind d = k \<and> dgCallLocation d = x \<and> dgResolvedDecl d = y \<and> dgMessage d = z \<and>
      dgBetterDecl d = [] \<and> dgMissingHeader d = [] \<and> dgCheckName d = []" for k x y z by (cases d) auto
  show ?thesis
    by (cases "take 1 (nodeFile node) = ''<''"; cases l)
      (simp_all add: diagnose_def Let_def Some eq conj_ac del: take_Suc)
qed

text \<open>A small program: \<open>main\<close> constructs an \<open>A\<close> and calls \<open>f\<close> virtually; \<open>g\<close> is never called.\<close>

definition dead_node :: "string \<Rightarrow> string \<Rightarrow> string \<Rightarrow> CallGraphNode" where
  "dead_node u q c = \<lparr>qualifiedName = q, nodeFile = ''a.cpp'', nodeLine = 12, isEntryPoint = False,
     isVirtual = False, enclosingClass = c, usr = u\<rparr>"

definition demo_dead :: CallGraph where
  "demo_dead =
     addEdge (demo_edge ''u:main'' ''u:f'' VirtualDispatch) ''a.cpp''
       (addEdge ((demo_edge ''u:main'' ''u:A'' ConstructorCall)\<lparr>confidence := Proven\<rparr>) ''a.cpp''
         (addNode (dead_node ''u:g'' ''g'' []) ''a.cpp''
           (addNode (dead_node ''u:f'' ''A::f'' ''A'') ''a.cpp''
             (addNode (dead_node ''u:A'' ''A::A'' ''A'') ''a.cpp''
               (addNode (dead_node ''u:main'' ''main'' []) ''a.cpp'' empty_graph)))))"

lemma built_demo_dead: "built demo_dead"
  unfolding demo_dead_def
  by (rule built_small built.empty)+ (code_simp+)

definition demo_analyzer :: DeadCodeAnalyzer where
  "demo_analyzer = newAnalyzer demo_dead [''main''] []"

lemma demo_analyzer_ok: "built (dcGraph demo_analyzer)" "known_dispatch (dcGraph demo_analyzer)"
  unfolding demo_analyzer_def newAnalyzer_def using built_demo_dead
  by (simp, simp, code_simp)

subsection \<open>Properties\<close>

text \<open>C8: The dead-code walk computes exactly the least set of functions closed under the rules:
  the entry points and public API are reached, a proven edge of a reached function reaches its target,
  and in the optimistic walk so does a plausible edge, where a virtual one needs a class of the
  target whose constructor is called from a reached function.  Nothing is missed although a class
  may be constructed after the virtual call was met.\<close>

theorem bfs_least_fixpoint:
  assumes "built (dcGraph a)" and "known_dispatch (dcGraph a)"
  shows "bfs opt a = {u. reached opt (dcGraph a) (seeds a) u}"
  by (rule bfs_spec[OF built_invariant[OF assms(1)] assms(2)])

theorem bfs_least_fixpoint_witness:
  "bfs True demo_analyzer = {u. reached True (dcGraph demo_analyzer) (seeds demo_analyzer) u}
   \<and> bfs True demo_analyzer = {''u:main'', ''u:A'', ''u:f''}"
  by (rule conjI[OF bfs_least_fixpoint[OF demo_analyzer_ok]]) code_simp

text \<open>The pessimistic analysis is contained in the optimistic one, so the verdict \<open>Alive\<close> never
  contradicts the optimistic walk, and the verdict of a display name is the most alive one of the
  functions that share it: alive if one is reached by proven edges, else optimistically alive
  if one is reached at all, else dead; a name has a verdict exactly when a node has it.\<close>

theorem verdicts_exact:
  assumes "built (dcGraph a)" and "known_dispatch (dcGraph a)"
  shows "pessimisticAlive (analyzed a) \<subseteq> optimisticAlive (analyzed a)
    \<and> (map_of (getResults (analyzed a)) n = Some l \<longleftrightarrow>
        (\<exists>node \<in> set (allNodes (dcGraph a)). qualifiedName node = n) \<and>
        l = (if display_reached (dcGraph a) {u. reached False (dcGraph a) (seeds a) u} n then Alive
             else if display_reached (dcGraph a) {u. reached True (dcGraph a) (seeds a) u} n
             then OptimisticallyAlive else Dead))"
proof -
  note spec = bfs_spec[OF built_invariant[OF assms(1)] assms(2)]
  have "pessimisticAlive (analyzed a) \<subseteq> optimisticAlive (analyzed a)"
    using reached_mono[of "seeds a" "seeds a" "dcGraph a" _ True "[]"] by (auto simp: analyzed_fields spec)
  then show ?thesis using getResults_iff[of "analyzed a" n l] by (simp add: analyzed_fields spec)
qed

theorem verdicts_exact_witness:
  "pessimisticAlive (analyzed demo_analyzer) \<subseteq> optimisticAlive (analyzed demo_analyzer)
   \<and> map_of (getResults (analyzed demo_analyzer)) ''A::f'' = Some OptimisticallyAlive
   \<and> map_of (getResults (analyzed demo_analyzer)) ''g'' = Some Dead
   \<and> map_of (getResults (analyzed demo_analyzer)) ''A::A'' = Some Alive"
  by (rule conjI[OF conjunct1[OF verdicts_exact[OF demo_analyzer_ok]]]) code_simp

text \<open>A dead-code diagnostic is reported for exactly the display names judged dead or only
  optimistically alive whose node is found in a real file (not in a pseudo file such as
  \<open><built-in>\<close>), with the location of that node.\<close>

theorem diagnostics_exact:
  "(\<exists>d \<in> set (getDiagnostics a). dgKind d = k \<and> dgResolvedDecl d = n \<and> dgCallLocation d = loc) \<longleftrightarrow>
     (\<exists>node l. (n, l) \<in> set (getResults a) \<and> findNode (dcGraph a) n = Some node \<and> take 1 (nodeFile node) \<noteq> ''<''
        \<and> loc = nodeFile node @ '':'' @ nat_string (nodeLine node)
        \<and> (k = DeadCode_Pessimistic \<and> l = Dead \<or> k = DeadCode_Optimistic \<and> l = OptimisticallyAlive))"
proof -
  have mem: "d \<in> set (getDiagnostics a) \<longleftrightarrow> (\<exists>m l. (m, l) \<in> set (getResults a) \<and> d \<in> set (diagnose a (m, l)))" for d
    by (auto simp: getDiagnostics_def)
  show ?thesis (is "?L \<longleftrightarrow> ?R")
  proof
    assume ?L
    then show ?R unfolding mem Bex_def diagnose_iff by blast
  next
    assume ?R
    then obtain node l where r: "(n, l) \<in> set (getResults a)" "findNode (dcGraph a) n = Some node"
      "take 1 (nodeFile node) \<noteq> ''<''" "loc = nodeFile node @ '':'' @ nat_string (nodeLine node)"
      "k = DeadCode_Pessimistic \<and> l = Dead \<or> k = DeadCode_Optimistic \<and> l = OptimisticallyAlive" by blast
    then have "\<exists>d. d \<in> set (diagnose a (n, l)) \<and> dgKind d = k"
      by (cases l) (auto simp: diagnose_def Let_def)
    then obtain d where d: "d \<in> set (diagnose a (n, l))" "dgKind d = k" by blast
    then show ?L using r(1,2,4) unfolding mem Bex_def by (intro exI[of _ d]) (auto simp: diagnose_iff)
  qed
qed

end
