(* ===== verification/Oracle.thy ===== *)
theory Oracle
  imports ControlFlowProps CallGraph Render
begin

text \<open>
  \<open>class ControlFlowOracle\<close> (include/vycor/callgraph/ControlFlowOracle.h,
  src/callgraph/ControlFlowOracle.cpp): exception-safety queries over a call graph and a control
  flow index.  The recursive lambda of \<open>findPathsToTarget\<close> and its loop over the callers are the
  mutually recursive \<open>dfs\<close> and \<open>dfs_callers\<close>; they terminate because a name is on the current path
  once.  The worklist of \<open>queryNearestCatches\<close> is the recursive function \<open>search\<close>, which marks
  a name when it pushes it.
\<close>

subsection \<open>Exception types\<close>

definition stdExceptionHierarchy :: "(string \<times> string) list" where
  "stdExceptionHierarchy =
     [(''std::bad_alloc'', ''std::exception''),
      (''std::bad_cast'', ''std::exception''),
      (''std::bad_typeid'', ''std::exception''),
      (''std::bad_function_call'', ''std::exception''),
      (''std::bad_weak_ptr'', ''std::exception''),
      (''std::bad_array_new_length'', ''std::bad_alloc''),
      (''std::logic_error'', ''std::exception''),
      (''std::runtime_error'', ''std::exception''),
      (''std::domain_error'', ''std::logic_error''),
      (''std::invalid_argument'', ''std::logic_error''),
      (''std::length_error'', ''std::logic_error''),
      (''std::out_of_range'', ''std::logic_error''),
      (''std::overflow_error'', ''std::runtime_error''),
      (''std::underflow_error'', ''std::runtime_error''),
      (''std::range_error'', ''std::runtime_error''),
      (''std::system_error'', ''std::runtime_error''),
      (''std::ios_base::failure'', ''std::system_error''),
      (''std::filesystem::filesystem_error'', ''std::system_error'')]"

definition pop_trailing :: "char \<Rightarrow> string \<Rightarrow> string" where
  \<comment> \<open>\<open>while (!s.empty() && s.back() == c) s.pop_back()\<close>\<close>
  "pop_trailing c s = rev (dropWhile (\<lambda>x. x = c) (rev s))"

definition stripType :: "string \<Rightarrow> string" where
  "stripType t =
     (let s = pop_trailing (CHR ''&'') t;
          s1 = (if take 6 s = ''const '' then drop 6 s else s)
      in pop_trailing (CHR '' '') s1)"

function isa_walk :: "(string \<times> string) list \<Rightarrow> string \<Rightarrow> string \<Rightarrow> string \<Rightarrow> string set \<Rightarrow> bool" where
  \<comment> \<open>the loop \<open>while (visited.insert(current).second)\<close>\<close>
  "isa_walk H caught current thrown visited =
     (if current \<in> visited then False
      else let visited1 = insert current visited in
           case map_of H current of
             None \<Rightarrow> False
           | Some base \<Rightarrow>
               (if base = caught then True
                else if base = thrown \<or> base \<in> visited1 then False
                else isa_walk H caught base base visited1))"
  by pat_completeness auto
termination
proof (relation "measure (\<lambda>(H, caught, current, thrown, visited). card (insert current (snd ` set H) - visited))")
  fix H :: "(string \<times> string) list" and caught current thrown base :: string and visited visited1 :: "string set"
  assume a: "current \<notin> visited" "visited1 = insert current visited" "map_of H current = Some base"
  have "base \<in> snd ` set H" using map_of_SomeD[OF a(3)] by force
  then show "((H, caught, base, base, visited1), H, caught, current, thrown, visited)
      \<in> measure (\<lambda>(H, caught, current, thrown, visited). card (insert current (snd ` set H) - visited))"
    using card_unvisited_insert[of "snd ` set H" current visited] a(1,2) by (simp add: insert_absorb)
qed simp

declare isa_walk.simps [simp del]

definition isSubtypeOf :: "string \<Rightarrow> string \<Rightarrow> bool" where
  "isSubtypeOf thrownType caughtTy =
     (if thrownType = caughtTy then True
      else let thrown = stripType thrownType; caught = stripType caughtTy in
           if thrown = caught then True
           else isa_walk stdExceptionHierarchy caught thrown thrown {})"

definition handler_matches :: "string \<Rightarrow> CatchHandlerInfo \<Rightarrow> bool" where
  "handler_matches exceptionType h = (isCatchAll h \<or> isSubtypeOf exceptionType (caughtType h))"

definition isCaughtByScope :: "string \<Rightarrow> TryCatchScope \<Rightarrow> bool" where
  "isCaughtByScope exceptionType scope = list_ex (handler_matches exceptionType) (handlers scope)"

subsection \<open>Results\<close>

datatype Protection = AlwaysCaught | SometimesCaught | NeverCaught | NoexceptBarrier | UnknownProtection

record PathInfo =
  callChain :: "string list"
  tryCatchesOnPath :: "TryCatchScope list"
  guardsOnPath :: "ConditionalGuard list"
  isCaught :: bool
  caughtAt :: string
  caughtBy :: string

record ExceptionPathResult =
  protection :: Protection
  paths :: "PathInfo list"
  summary :: string

record CallSiteExceptionInfo =
  csCallSite :: string
  csCaller :: string
  csCallee :: string
  csIsUnderTryCatch :: bool
  csEnclosingScopes :: "TryCatchScope list"
  csEnclosingGuards :: "ConditionalGuard list"
  csCallerNoexcept :: NoexceptSpec
  csWouldTerminateIfThrows :: bool

record NearestCatchInfo =
  pathSegment :: "string list"
  ncScope :: TryCatchScope
  framesFromTarget :: nat

record ControlFlowOracle =
  orGraph :: CallGraph
  orIndex :: ControlFlowIndex

definition queryCallSite :: "ControlFlowOracle \<Rightarrow> string \<Rightarrow> CallSiteExceptionInfo" where
  "queryCallSite q site =
     (case contextAtSite (orIndex q) site of
        None \<Rightarrow> \<lparr>csCallSite = site, csCaller = [], csCallee = [], csIsUnderTryCatch = False,
                 csEnclosingScopes = [], csEnclosingGuards = [], csCallerNoexcept = NoSpec,
                 csWouldTerminateIfThrows = False\<rparr>
      | Some ctx \<Rightarrow>
          \<lparr>csCallSite = site, csCaller = ctxCallerName ctx, csCallee = ctxCalleeName ctx,
           csIsUnderTryCatch = (enclosingTryCatches ctx \<noteq> []),
           csEnclosingScopes = enclosingTryCatches ctx, csEnclosingGuards = enclosingGuards ctx,
           csCallerNoexcept = callerNoexcept ctx,
           csWouldTerminateIfThrows = (callerNoexcept ctx = Noexcept)\<rparr>)"

subsection \<open>Paths\<close>

definition dfs_size :: "CallGraph \<times> string list \<times> nat \<times> string \<times> string list \<times> string set \<times> string list list
    + CallGraph \<times> string list \<times> nat \<times> CallGraphEdge list \<times> string list \<times> string set \<times> string list list
    \<Rightarrow> nat \<times> nat \<times> nat" where
  "dfs_size x =
     (case x of
        Inl (g, entries, n, node, path, onPath, out) \<Rightarrow>
          (card (insert node (display_names g) - onPath), if node \<in> onPath then 2 else 0, 0)
      | Inr (g, entries, n, es, path, onPath, out) \<Rightarrow>
          (card (callerName ` set es \<union> display_names g - onPath), 1, length es))"

function (sequential) dfs :: "CallGraph \<Rightarrow> string list \<Rightarrow> nat \<Rightarrow> string \<Rightarrow> string list \<Rightarrow> string set \<Rightarrow>
    string list list \<Rightarrow> string list list"
  and dfs_callers :: "CallGraph \<Rightarrow> string list \<Rightarrow> nat \<Rightarrow> CallGraphEdge list \<Rightarrow> string list \<Rightarrow> string set \<Rightarrow>
    string list list \<Rightarrow> string list list" where
  \<comment> \<open>the path and its set are passed down, so the pops and erases are the return\<close>
  "dfs g entries maxPaths node currentPath onPath outPaths =
     (if length outPaths \<ge> maxPaths then outPaths
      else let path = currentPath @ [node]; onPath1 = insert node onPath in
           if node \<in> set entries then outPaths @ [rev path]
           else dfs_callers g entries maxPaths (callersOf g node) path onPath1 outPaths)"
| "dfs_callers g entries maxPaths [] path onPath outPaths = outPaths"
| "dfs_callers g entries maxPaths (edge # es) path onPath outPaths =
     (if callerName edge \<in> onPath then dfs_callers g entries maxPaths es path onPath outPaths
      else let outPaths1 = dfs g entries maxPaths (callerName edge) path onPath outPaths in
           if length outPaths1 \<ge> maxPaths then outPaths1
           else dfs_callers g entries maxPaths es path onPath outPaths1)"
  by pat_completeness auto

termination
proof (relation "inv_image (less_than <*lex*> less_than <*lex*> less_than) dfs_size")
  show "wf (inv_image (less_than <*lex*> less_than <*lex*> less_than) dfs_size)"
    by (intro wf_inv_image wf_lex_prod wf_less_than)
next
  fix g entries maxPaths node currentPath outPaths and onPath onPath1 :: "string set" and path
  assume a: "onPath1 = insert node onPath"
  have cs: "callerName ` set (callersOf g node) \<union> display_names g = display_names g"
    using callerName_display_names by fast
  show "(Inr (g, entries, maxPaths, callersOf g node, path, onPath1, outPaths),
         Inl (g, entries, maxPaths, node, currentPath, onPath, outPaths))
     \<in> inv_image (less_than <*lex*> less_than <*lex*> less_than) dfs_size"
  proof (cases "node \<in> onPath")
    case True
    have "card (display_names g - onPath) \<le> card (insert node (display_names g) - onPath)"
      by (rule card_mono) auto
    then show ?thesis using True by (auto simp: dfs_size_def cs a insert_absorb)
  next
    case False
    then show ?thesis using card_unvisited_insert[of "display_names g" node onPath]
      by (simp add: dfs_size_def cs a)
  qed
next
  fix g entries maxPaths path outPaths and edge :: CallGraphEdge and es and onPath :: "string set"
  assume a: "callerName edge \<notin> onPath"
  have "card (insert (callerName edge) (display_names g) - onPath)
      \<le> card (callerName ` set (edge # es) \<union> display_names g - onPath)"
    by (rule card_mono) auto
  then show "(Inl (g, entries, maxPaths, callerName edge, path, onPath, outPaths),
         Inr (g, entries, maxPaths, edge # es, path, onPath, outPaths))
     \<in> inv_image (less_than <*lex*> less_than <*lex*> less_than) dfs_size"
    using a by (auto simp: dfs_size_def)
qed (auto simp: dfs_size_def less_le intro!: card_mono)

declare dfs.simps [simp del]

definition findPathsToTarget :: "ControlFlowOracle \<Rightarrow> string \<Rightarrow> string list \<Rightarrow> nat \<Rightarrow> string list list" where
  "findPathsToTarget q target entryPoints maxPaths =
     dfs (orGraph q) entryPoints maxPaths target [] {} []"

subsection \<open>Protection on the paths\<close>

definition matching_context :: "ControlFlowOracle \<Rightarrow> string \<times> string \<Rightarrow> CallSiteContext option" where
  \<comment> \<open>the loop over \<open>contextsForCaller\<close> that skips other callees and breaks at the first match\<close>
  "matching_context q hop =
     (case hop of (caller, callee) \<Rightarrow>
        List.find (\<lambda>ctx. ctxCalleeName ctx = callee) (contextsForCaller (orIndex q) caller))"

definition caughtByOf :: "string \<Rightarrow> TryCatchScope \<Rightarrow> string" where
  "caughtByOf exceptionType scope =
     (case List.find (handler_matches exceptionType) (handlers scope) of
        None \<Rightarrow> []
      | Some h \<Rightarrow> if isCatchAll h then ''...'' else caughtType h)"

definition visit_scope :: "string \<Rightarrow> TryCatchScope \<Rightarrow> PathInfo \<Rightarrow> PathInfo" where
  "visit_scope exceptionType scope pi0 =
     (let pi = pi0\<lparr>tryCatchesOnPath := tryCatchesOnPath pi0 @ [scope]\<rparr> in
      if \<not> isCaught pi \<and> isCaughtByScope exceptionType scope
      then pi\<lparr>isCaught := True, caughtAt := tryLocation scope, caughtBy := caughtByOf exceptionType scope\<rparr>
      else pi)"

definition visit_hop :: "ControlFlowOracle \<Rightarrow> string \<Rightarrow> string \<times> string \<Rightarrow> PathInfo \<Rightarrow> PathInfo" where
  "visit_hop q exceptionType hop pi =
     (case matching_context q hop of
        None \<Rightarrow> pi
      | Some ctx \<Rightarrow>
          (let pi1 = fold (visit_scope exceptionType) (enclosingTryCatches ctx) pi;
               pi2 = pi1\<lparr>guardsOnPath := guardsOnPath pi1 @ enclosingGuards ctx\<rparr>
           in if callerNoexcept ctx = Noexcept \<and> \<not> isCaught pi2 then pi2\<lparr>isCaught := False\<rparr> else pi2))"

definition hops :: "string list \<Rightarrow> (string \<times> string) list" where
  "hops chain = zip chain (tl chain)"

definition empty_path :: "string list \<Rightarrow> PathInfo" where
  "empty_path chain = \<lparr>callChain = chain, tryCatchesOnPath = [], guardsOnPath = [], isCaught = False,
                       caughtAt = [], caughtBy = []\<rparr>"

definition walk_chain :: "ControlFlowOracle \<Rightarrow> string \<Rightarrow> string list \<Rightarrow> PathInfo" where
  "walk_chain q exceptionType chain = fold (visit_hop q exceptionType) (hops chain) (empty_path chain)"

definition buildSummary :: "ExceptionPathResult \<Rightarrow> string \<Rightarrow> string \<Rightarrow> string" where
  "buildSummary result functionName exceptionType =
     (case protection result of
        AlwaysCaught \<Rightarrow>
          functionName @ '' throwing '' @ exceptionType @ '' is caught on all ''
          @ nat_string (length (paths result)) @ '' path(s) from entry points.''
          @ (case paths result of
               [] \<Rightarrow> []
             | p # ps \<Rightarrow> if caughtBy p = [] then []
                         else '' Caught by '' @ caughtBy p @ '' at '' @ caughtAt p @ ''.'')
      | NeverCaught \<Rightarrow>
          functionName @ '' throwing '' @ exceptionType @ '' is NOT caught on any of the ''
          @ nat_string (length (paths result)) @ '' path(s) from entry points.''
      | SometimesCaught \<Rightarrow>
          functionName @ '' throwing '' @ exceptionType @ '' is caught on ''
          @ nat_string (length (filter isCaught (paths result))) @ '' of ''
          @ nat_string (length (paths result)) @ '' path(s).''
          @ (case List.find (\<lambda>p. \<not> isCaught p) (paths result) of
               None \<Rightarrow> []
             | Some p \<Rightarrow> '' Uncaught path: '' @ join '' -> '' (callChain p) @ ''.'')
      | NoexceptBarrier \<Rightarrow>
          functionName @ '' is called through a noexcept function, which would cause std::terminate rather than propagation.''
      | UnknownProtection \<Rightarrow> ''No call paths found from entry points to '' @ functionName @ ''.'')"

definition count_verdict :: "PathInfo list \<Rightarrow> Protection" where
  \<comment> \<open>the counters \<open>caughtCount\<close> and \<open>uncaughtCount\<close> and the verdict they give\<close>
  "count_verdict pis =
     (let (caughtCount, uncaughtCount) =
            fold (\<lambda>pi (c, u). if isCaught pi then (Suc c, u) else (c, Suc u)) pis (0, 0) in
      if uncaughtCount = (0 :: nat) then AlwaysCaught
      else if caughtCount = (0 :: nat) then NeverCaught
      else SometimesCaught)"

definition queryExceptionProtection :: "ControlFlowOracle \<Rightarrow> string \<Rightarrow> string \<Rightarrow> string list \<Rightarrow> ExceptionPathResult" where
  "queryExceptionProtection q functionName exceptionType entryPoints =
     (let rawPaths = findPathsToTarget q functionName entryPoints 100;
          result = (if rawPaths = []
                    then \<lparr>protection = UnknownProtection, paths = [], summary = []\<rparr>
                    else let pis = map (walk_chain q exceptionType) rawPaths in
                         \<lparr>protection = count_verdict pis, paths = pis, summary = []\<rparr>)
      in result\<lparr>summary := buildSummary result functionName exceptionType\<rparr>)"

definition collect_hop :: "ControlFlowOracle \<Rightarrow> string \<times> string \<Rightarrow> PathInfo \<Rightarrow> PathInfo" where
  "collect_hop q hop pi =
     (case matching_context q hop of
        None \<Rightarrow> pi
      | Some ctx \<Rightarrow> pi\<lparr>tryCatchesOnPath := tryCatchesOnPath pi @ enclosingTryCatches ctx,
                       guardsOnPath := guardsOnPath pi @ enclosingGuards ctx\<rparr>)"

definition queryAllPathContexts :: "ControlFlowOracle \<Rightarrow> string \<Rightarrow> string list \<Rightarrow> nat \<Rightarrow> PathInfo list" where
  "queryAllPathContexts q functionName entryPoints maxPaths =
     map (\<lambda>chain. fold (collect_hop q) (hops chain) (empty_path chain))
       (findPathsToTarget q functionName entryPoints maxPaths)"

definition queryThrowPropagation :: "ControlFlowOracle \<Rightarrow> string \<Rightarrow> string \<Rightarrow> string list \<Rightarrow> ExceptionPathResult" where
  "queryThrowPropagation q throwingFunction thrownType entryPoints =
     queryExceptionProtection q throwingFunction thrownType entryPoints"

subsection \<open>Nearest catches\<close>

datatype SearchState = SearchState (func: string) (pathSoFar: "string list") (depth: nat)

record Search =
  seResult :: "NearestCatchInfo list"
  seQueue :: "SearchState list"
  seVisited :: "string set"

definition search_edge :: "ControlFlowOracle \<Rightarrow> SearchState \<Rightarrow> CallGraphEdge \<Rightarrow> Search \<Rightarrow> Search" where
  "search_edge q state edge w =
     (let caller = callerName edge in
      if caller \<in> seVisited w then w
      else let path = caller # pathSoFar state in
           case matching_context q (caller, func state) of
             Some ctx \<Rightarrow>
               (case enclosingTryCatches ctx of
                  scope # _ \<Rightarrow>
                    w\<lparr>seResult := seResult w @ [\<lparr>pathSegment = path, ncScope = scope,
                                                framesFromTarget = depth state + 1\<rparr>]\<rparr>
                | [] \<Rightarrow> w\<lparr>seVisited := insert caller (seVisited w),
                          seQueue := seQueue w @ [SearchState caller path (depth state + 1)]\<rparr>)
           | None \<Rightarrow> w\<lparr>seVisited := insert caller (seVisited w),
                       seQueue := seQueue w @ [SearchState caller path (depth state + 1)]\<rparr>)"

definition unsearched :: "ControlFlowOracle \<Rightarrow> Search \<Rightarrow> nat" where
  "unsearched q w = card (display_names (orGraph q) - seVisited w) + length (seQueue w)"

lemma search_edge_size:
  assumes "callerName e \<in> display_names (orGraph q)"
  shows "unsearched q (search_edge q state e w) = unsearched q w"
  using card_unvisited[OF finite_display_names assms, of "seVisited w"]
  by (auto simp: search_edge_def unsearched_def Let_def split: option.split list.split)

lemma search_edges_size:
  "set es \<subseteq> set (callersOf (orGraph q) f) \<Longrightarrow> unsearched q (fold (search_edge q state) es w) = unsearched q w"
proof (induction es arbitrary: w)
  case (Cons e es)
  then have "callerName e \<in> display_names (orGraph q)" by (intro callerName_display_names[of e _ f]) simp
  then show ?case using Cons by (simp add: search_edge_size)
qed simp

function search :: "ControlFlowOracle \<Rightarrow> Search \<Rightarrow> Search" where
  \<comment> \<open>the worklist is popped at its back\<close>
  "search q w =
     (if seQueue w = [] then w
      else let state = last (seQueue w); w1 = w\<lparr>seQueue := butlast (seQueue w)\<rparr> in
           if depth state > 20 then search q w1
           else search q (fold (search_edge q state) (callersOf (orGraph q) (func state)) w1))"
  by pat_completeness auto
termination
proof (relation "measure (\<lambda>(q, w). unsearched q w)")
  fix q and w w1 :: Search and state
  assume a: "seQueue w \<noteq> []" "w1 = w\<lparr>seQueue := butlast (seQueue w)\<rparr>"
  then have "unsearched q w1 < unsearched q w" by (simp add: unsearched_def)
  then show "((q, w1), q, w) \<in> measure (\<lambda>(q, w). unsearched q w)"
    and "((q, fold (search_edge q state) (callersOf (orGraph q) (func state)) w1), q, w)
      \<in> measure (\<lambda>(q, w). unsearched q w)"
    using search_edges_size[where f = "func state" and q = q and state = state and w = w1, OF order_refl] by simp_all
qed simp

declare search.simps [simp del]

definition queryNearestCatches :: "ControlFlowOracle \<Rightarrow> string \<Rightarrow> NearestCatchInfo list" where
  "queryNearestCatches q functionName =
     seResult (search q \<lparr>seResult = [], seQueue = [SearchState functionName [functionName] 0],
                         seVisited = {functionName}\<rparr>)"

end
