(* ===== verification/OracleProps.thy ===== *)
theory OracleProps
  imports Oracle
begin

text \<open>
  Properties of the exception-safety oracle: the paths it reports are exactly the cycle-free call
  chains from an entry point, its verdict is the one those chains give, and a reported nearest
  catch protects a real call on an otherwise unprotected chain.
\<close>

subsection \<open>The exception hierarchy\<close>

fun listed_after_base :: "(string \<times> string) list \<Rightarrow> bool" where
  \<comment> \<open>the entry of a base, where it has one, precedes the entries that name it\<close>
  "listed_after_base [] = True"
| "listed_after_base (p # H) = (snd p \<notin> set (map fst (p # H)) \<and> listed_after_base H)"

lemma hierarchy_listed: "listed_after_base stdExceptionHierarchy"
  by code_simp

lemma hierarchy_distinct: "distinct (map fst stdExceptionHierarchy)"
  by code_simp

lemma listed_acyclic: "listed_after_base H \<Longrightarrow> acyclic (set H)"
proof (induction H)
  case (Cons p H)
  have "snd p \<notin> Domain (set H)" "snd p \<noteq> fst p" using Cons.prems by (auto simp: Domain_fst)
  then have "(snd p, fst p) \<notin> (set H)\<^sup>*" by (metis Not_Domain_rtrancl)
  then show ?case using Cons by (cases p) (simp add: acyclic_insert)
qed (simp add: wf_acyclic)

text \<open>The walk with its visited set finds a caught type exactly when it is a proper ancestor.\<close>

lemma isa_walk_spec:
  assumes "acyclic (set H)" and "distinct (map fst H)" and "\<forall>v \<in> visited. (v, current) \<in> (set H)\<^sup>+"
  shows "isa_walk H caught current current visited \<longleftrightarrow> (current, caught) \<in> (set H)\<^sup>+"
  using assms(3)
proof (induction "card (insert current (snd ` set H) - visited)" arbitrary: current visited rule: less_induct)
  case less
  have c: "current \<notin> visited" using less.prems assms(1) by (auto simp: acyclic_def)
  show ?case
  proof (cases "map_of H current")
    case None
    then have "current \<notin> Domain (set H)" by (auto simp: map_of_eq_None_iff Domain_fst)
    then have "(current, caught) \<notin> (set H)\<^sup>+" by (metis Domain.DomainI tranclD)
    then show ?thesis using None c by (subst isa_walk.simps) simp
  next
    case (Some base)
    then have b: "(current, base) \<in> set H" by (rule map_of_SomeD)
    have u: "(current, x) \<in> set H \<longleftrightarrow> x = base" for x
      using Some b map_of_is_SomeI[OF assms(2), of current x] by auto
    have up: "(current, caught) \<in> (set H)\<^sup>+ \<longleftrightarrow> base = caught \<or> (base, caught) \<in> (set H)\<^sup>+"
      using b u by (metis r_into_trancl' tranclD trancl_into_trancl2 rtrancl_eq_or_trancl)
    have v: "\<forall>v \<in> insert current visited. (v, base) \<in> (set H)\<^sup>+"
      using less.prems b by (auto intro: trancl_into_trancl)
    then have nb: "base \<notin> insert current visited" using assms(1) by (auto simp: acyclic_def)
    have "base \<in> snd ` set H" using b by force
    then have "card (insert base (snd ` set H) - insert current visited) < card (insert current (snd ` set H) - visited)"
      using card_unvisited_insert[of "snd ` set H" current visited] c by (simp add: insert_absorb)
    from less.hyps[OF this v] show ?thesis using Some c nb up by (subst isa_walk.simps) (simp, blast)
  qed
qed

lemma isSubtypeOf_iff:
  "isSubtypeOf t c \<longleftrightarrow> stripType t = stripType c \<or> (stripType t, stripType c) \<in> (set stdExceptionHierarchy)\<^sup>+"
  using isa_walk_spec[OF listed_acyclic[OF hierarchy_listed] hierarchy_distinct, of "{}" "stripType t" "stripType c"]
  by (auto simp: isSubtypeOf_def Let_def)

subsection \<open>The paths\<close>

definition calls_into :: "CallGraph \<Rightarrow> string \<Rightarrow> string set" where
  "calls_into g n = callerName ` set (callersOf g n)"

text \<open>What the recursion may still append to the current path: a cycle-free climb over callers.\<close>

fun climb :: "CallGraph \<Rightarrow> string set \<Rightarrow> string set \<Rightarrow> string list \<Rightarrow> bool" where
  "climb g E on [] = False"
| "climb g E on (n # q) =
     (n \<notin> on \<and> (if n \<in> E then q = [] else q \<noteq> [] \<and> hd q \<in> calls_into g n \<and> climb g E (insert n on) q))"

definition climbs :: "CallGraph \<Rightarrow> string set \<Rightarrow> string set \<Rightarrow> string list \<Rightarrow> string set \<Rightarrow> string list set" where
  "climbs g E starts path on = (\<lambda>q. rev (path @ q)) ` {q. climb g E on q \<and> hd q \<in> starts}"

lemma climbs_Un: "climbs g E (S \<union> T) path on = climbs g E S path on \<union> climbs g E T path on"
  by (auto simp: climbs_def)

lemma climbs_empty [simp]: "climbs g E {} path on = {}"
  by (simp add: climbs_def)

lemma climb_on: "climb g E on q \<Longrightarrow> hd q \<notin> on"
  by (cases q) auto

lemma climbs_visited: "n \<in> on \<Longrightarrow> climbs g E {n} path on = {}"
  by (auto simp: climbs_def dest: climb_on)

lemma climbs_entry:
  assumes "n \<notin> on" and "n \<in> E"
  shows "climbs g E {n} path on = {rev (path @ [n])}"
proof -
  have "climb g E on q \<and> hd q \<in> {n} \<longleftrightarrow> q = [n]" for q using assms by (cases q) auto
  then show ?thesis by (simp only: climbs_def) simp
qed

lemma climbs_node:
  assumes "n \<notin> on" and "n \<notin> E"
  shows "climbs g E {n} path on = climbs g E (calls_into g n) (path @ [n]) (insert n on)"
proof -
  have "climb g E on q \<and> hd q \<in> {n} \<longleftrightarrow>
      (\<exists>r. q = n # r \<and> climb g E (insert n on) r \<and> hd r \<in> calls_into g n)" for q
    using assms by (cases q) auto
  then have "{q. climb g E on q \<and> hd q \<in> {n}} = (#) n ` {r. climb g E (insert n on) r \<and> hd r \<in> calls_into g n}"
    by blast
  then show ?thesis by (simp add: climbs_def image_image)
qed

definition found :: "nat \<Rightarrow> string list set \<Rightarrow> string list list \<Rightarrow> string list list \<Rightarrow> bool" where
  \<comment> \<open>\<open>out1\<close> is \<open>out\<close> with paths of \<open>P\<close> appended, all of them when it stays below the bound\<close>
  "found mx P out out1 \<longleftrightarrow>
     (\<exists>new. out1 = out @ new \<and> (length out \<le> mx \<longrightarrow> length out1 \<le> mx) \<and> set new \<subseteq> P
        \<and> (length out1 < mx \<longrightarrow> P \<subseteq> set new))"

lemma found_refl: "found mx {} out out"
  by (simp add: found_def)

lemma found_full: "mx \<le> length out \<Longrightarrow> found mx P out out"
  by (auto simp: found_def)

lemma found_one: "length out < mx \<Longrightarrow> found mx {p} out (out @ [p])"
  by (auto simp: found_def)

lemma found_trans:
  assumes "found mx P out out1" and "found mx Q out1 out2"
  shows "found mx (P \<union> Q) out out2"
proof -
  obtain n1 where 1: "out1 = out @ n1" "length out \<le> mx \<longrightarrow> length out1 \<le> mx" "set n1 \<subseteq> P"
    "length out1 < mx \<longrightarrow> P \<subseteq> set n1" using assms(1) by (auto simp only: found_def)
  obtain n2 where 2: "out2 = out1 @ n2" "length out1 \<le> mx \<longrightarrow> length out2 \<le> mx" "set n2 \<subseteq> Q"
    "length out2 < mx \<longrightarrow> Q \<subseteq> set n2" using assms(2) by (auto simp only: found_def)
  show ?thesis unfolding found_def using 1 2 by (intro exI[of _ "n1 @ n2"]) auto
qed

lemma found_stop: "found mx P out out1 \<Longrightarrow> mx \<le> length out1 \<Longrightarrow> P \<subseteq> Q \<Longrightarrow> found mx Q out out1"
  by (fastforce simp: found_def)

lemma dfs_found:
  shows "onPath = set currentPath \<Longrightarrow> node \<notin> onPath \<Longrightarrow>
      found maxPaths (climbs g (set entries) {node} currentPath onPath) outPaths
        (dfs g entries maxPaths node currentPath onPath outPaths)"
    and "onPath = set path \<Longrightarrow>
      found maxPaths (climbs g (set entries) (callerName ` set es) path onPath) outPaths
        (dfs_callers g entries maxPaths es path onPath outPaths)"
proof (induction g entries maxPaths node currentPath onPath outPaths
    and g entries maxPaths es path onPath outPaths rule: dfs_dfs_callers.induct)
  case (1 g entries maxPaths node currentPath onPath outPaths)
  show ?case
  proof (cases "maxPaths \<le> length outPaths")
    case True then show ?thesis by (simp add: dfs.simps found_full)
  next
    case room: False
    show ?thesis
    proof (cases "node \<in> set entries")
      case True
      then show ?thesis using room 1(3) by (simp add: dfs.simps climbs_entry found_one)
    next
      case False
      have "insert node onPath = set (currentPath @ [node])" using 1(2) by simp
      from 1(1)[OF room refl refl False this] show ?thesis using room False 1(3)
        by (simp add: dfs.simps[of g entries maxPaths node] climbs_node calls_into_def Let_def)
    qed
  qed
next
  case (2 g entries maxPaths path onPath outPaths)
  show ?case by (simp add: found_refl)
next
  case (3 g entries maxPaths edge es path onPath outPaths)
  let ?C = "\<lambda>S. climbs g (set entries) S path onPath" and ?c = "callerName edge"
  have U: "?C (callerName ` set (edge # es)) = ?C {?c} \<union> ?C (callerName ` set es)"
    by (simp add: climbs_Un[symmetric])
  show ?case
  proof (cases "?c \<in> onPath")
    case True
    then show ?thesis using 3(1)[OF True 3(4)] unfolding U by (simp add: climbs_visited)
  next
    case False
    note one = 3(2)[OF False 3(4) False]
    show ?thesis
    proof (cases "maxPaths \<le> length (dfs g entries maxPaths ?c path onPath outPaths)")
      case True
      then show ?thesis using found_stop[OF one True Un_upper1] False unfolding U by simp
    next
      case more: False
      show ?thesis using found_trans[OF one 3(3)[OF False refl more 3(4)]] False more unfolding U by simp
    qed
  qed
qed

text \<open>The specification of a reported path, written from the entry point down.\<close>

definition entry_chain :: "CallGraph \<Rightarrow> string set \<Rightarrow> string \<Rightarrow> string list \<Rightarrow> bool" where
  "entry_chain g E target p \<longleftrightarrow>
     p \<noteq> [] \<and> hd p \<in> E \<and> set (tl p) \<inter> E = {} \<and> last p = target \<and> distinct p
     \<and> successively (\<lambda>caller callee. caller \<in> calls_into g callee) p"

lemma climb_iff:
  "climb g E on q \<longleftrightarrow> q \<noteq> [] \<and> distinct q \<and> set q \<inter> on = {} \<and> last q \<in> E \<and> set (butlast q) \<inter> E = {}
     \<and> successively (\<lambda>callee caller. caller \<in> calls_into g callee) q"
proof (induction q arbitrary: on)
  case (Cons n q)
  have split: "successively P (n # q) \<longleftrightarrow> q = [] \<or> P n (hd q) \<and> successively P q" for P :: "string \<Rightarrow> string \<Rightarrow> bool"
    by (cases q) auto
  show ?case unfolding climb.simps(2) Cons.IH split by (cases "q = []") (simp_all, blast)
qed simp

lemma climbs_chains: "climbs g E {t} [] {} = {p. entry_chain g E t p}"
proof -
  have "climb g E {} (rev p) \<and> hd (rev p) = t \<longleftrightarrow> entry_chain g E t p" for p
    by (auto simp: climb_iff entry_chain_def last_rev hd_rev butlast_rev successively_rev)
  then have "{q. climb g E {} q \<and> hd q \<in> {t}} = rev ` {p. entry_chain g E t p}"
    by (auto simp: image_iff) (metis rev_rev_ident)
  then show ?thesis by (simp add: climbs_def image_image)
qed

lemma findPaths_spec:
  fixes q t E n
  defines "out \<equiv> findPathsToTarget q t E n"
  shows "length out \<le> n" and "p \<in> set out \<Longrightarrow> entry_chain (orGraph q) (set E) t p"
    and "length out < n \<Longrightarrow> entry_chain (orGraph q) (set E) t p \<Longrightarrow> p \<in> set out"
proof -
  have "found n {p. entry_chain (orGraph q) (set E) t p} [] out"
    using dfs_found(1)[of "{}" "[]" t n "orGraph q" E "[]"]
    by (simp add: out_def findPathsToTarget_def climbs_chains)
  then have "length out \<le> n" "set out \<subseteq> {p. entry_chain (orGraph q) (set E) t p}"
    "length out < n \<longrightarrow> {p. entry_chain (orGraph q) (set E) t p} \<subseteq> set out"
    by (simp_all add: found_def)
  then show "length out \<le> n" and "p \<in> set out \<Longrightarrow> entry_chain (orGraph q) (set E) t p"
    and "length out < n \<Longrightarrow> entry_chain (orGraph q) (set E) t p \<Longrightarrow> p \<in> set out" by blast+
qed

subsection \<open>Protection\<close>

definition hop_scopes :: "ControlFlowOracle \<Rightarrow> string \<times> string \<Rightarrow> TryCatchScope list" where
  "hop_scopes q hop = (case matching_context q hop of None \<Rightarrow> [] | Some ctx \<Rightarrow> enclosingTryCatches ctx)"

definition hop_guards :: "ControlFlowOracle \<Rightarrow> string \<times> string \<Rightarrow> ConditionalGuard list" where
  "hop_guards q hop = (case matching_context q hop of None \<Rightarrow> [] | Some ctx \<Rightarrow> enclosingGuards ctx)"

definition located :: "string \<Rightarrow> PathInfo \<Rightarrow> bool" where
  \<comment> \<open>the verdict fields are those of the first catching scope in the list\<close>
  "located T pi \<longleftrightarrow>
     isCaught pi = list_ex (isCaughtByScope T) (tryCatchesOnPath pi)
     \<and> caughtAt pi = (case List.find (isCaughtByScope T) (tryCatchesOnPath pi) of
                        None \<Rightarrow> [] | Some scope \<Rightarrow> tryLocation scope)
     \<and> caughtBy pi = (case List.find (isCaughtByScope T) (tryCatchesOnPath pi) of
                        None \<Rightarrow> [] | Some scope \<Rightarrow> caughtByOf T scope)"

lemma find_snoc:
  "List.find P (xs @ [x]) = (case List.find P xs of None \<Rightarrow> if P x then Some x else None | Some y \<Rightarrow> Some y)"
  by (induction xs) auto

lemma list_ex_find: "list_ex P xs \<longleftrightarrow> List.find P xs \<noteq> None"
  by (induction xs) auto

lemma visit_scope_fields:
  "tryCatchesOnPath (visit_scope T s pi) = tryCatchesOnPath pi @ [s]"
  "guardsOnPath (visit_scope T s pi) = guardsOnPath pi" "callChain (visit_scope T s pi) = callChain pi"
  "located T pi \<Longrightarrow> located T (visit_scope T s pi)"
  by (simp_all add: visit_scope_def located_def Let_def find_snoc list_ex_find split: option.splits)

lemma visit_scopes_fields:
  "tryCatchesOnPath (fold (visit_scope T) ss pi) = tryCatchesOnPath pi @ ss"
  "guardsOnPath (fold (visit_scope T) ss pi) = guardsOnPath pi"
  "callChain (fold (visit_scope T) ss pi) = callChain pi"
  "located T pi \<Longrightarrow> located T (fold (visit_scope T) ss pi)"
  by (induction ss arbitrary: pi) (simp_all add: visit_scope_fields)

lemma visit_hop_fields:
  "tryCatchesOnPath (visit_hop q T h pi) = tryCatchesOnPath pi @ hop_scopes q h"
  "guardsOnPath (visit_hop q T h pi) = guardsOnPath pi @ hop_guards q h"
  "callChain (visit_hop q T h pi) = callChain pi"
  "located T pi \<Longrightarrow> located T (visit_hop q T h pi)"
proof -
  have drop: "(if b \<and> \<not> isCaught r then r\<lparr>isCaught := False\<rparr> else r) = r" for b and r :: PathInfo by simp
  show "located T pi \<Longrightarrow> located T (visit_hop q T h pi)"
    using visit_scopes_fields(4)[of T pi]
    by (simp add: visit_hop_def Let_def drop split: option.split) (simp add: located_def)
qed (simp_all add: visit_hop_def hop_scopes_def hop_guards_def Let_def visit_scopes_fields split: option.split)

lemma visit_hops_fields:
  "tryCatchesOnPath (fold (visit_hop q T) hs pi) = tryCatchesOnPath pi @ concat (map (hop_scopes q) hs)"
  "guardsOnPath (fold (visit_hop q T) hs pi) = guardsOnPath pi @ concat (map (hop_guards q) hs)"
  "callChain (fold (visit_hop q T) hs pi) = callChain pi"
  "located T pi \<Longrightarrow> located T (fold (visit_hop q T) hs pi)"
  by (induction hs arbitrary: pi) (simp_all add: visit_hop_fields)

lemma collect_hops_fields:
  "tryCatchesOnPath (fold (collect_hop q) hs pi) = tryCatchesOnPath pi @ concat (map (hop_scopes q) hs)"
  "guardsOnPath (fold (collect_hop q) hs pi) = guardsOnPath pi @ concat (map (hop_guards q) hs)"
  "callChain (fold (collect_hop q) hs pi) = callChain pi"
  by (induction hs arbitrary: pi)
    (simp_all add: collect_hop_def hop_scopes_def hop_guards_def split: option.split)

lemma walk_chain_fields:
  "tryCatchesOnPath (walk_chain q T c) = concat (map (hop_scopes q) (hops c))"
  "guardsOnPath (walk_chain q T c) = concat (map (hop_guards q) (hops c))"
  "callChain (walk_chain q T c) = c" "located T (walk_chain q T c)"
proof -
  have "located T (empty_path c)" by (simp add: located_def empty_path_def)
  then show "located T (walk_chain q T c)" unfolding walk_chain_def by (rule visit_hops_fields(4))
qed (simp_all add: walk_chain_def visit_hops_fields empty_path_def)

lemma count_verdict_eq:
  "count_verdict pis = (if \<forall>p \<in> set pis. isCaught p then AlwaysCaught
                        else if \<forall>p \<in> set pis. \<not> isCaught p then NeverCaught else SometimesCaught)"
proof -
  have "fold (\<lambda>pi (c, u). if isCaught pi then (Suc c, u) else (c, Suc u)) pis (c0, u0)
      = (c0 + length (filter isCaught pis), u0 + length (filter (\<lambda>p. \<not> isCaught p) pis))" for c0 u0
    by (induction pis arbitrary: c0 u0) auto
  then show ?thesis by (auto simp: count_verdict_def filter_empty_conv)
qed

lemma protection_fields:
  "paths (queryExceptionProtection q f T E) = map (walk_chain q T) (findPathsToTarget q f E 100)"
  "protection (queryExceptionProtection q f T E)
     = (if findPathsToTarget q f E 100 = [] then UnknownProtection
        else count_verdict (map (walk_chain q T) (findPathsToTarget q f E 100)))"
  by (simp_all add: queryExceptionProtection_def Let_def)

subsection \<open>Nearest catches\<close>

definition open_chain :: "ControlFlowOracle \<Rightarrow> string \<Rightarrow> string list \<Rightarrow> bool" where
  \<comment> \<open>a cycle-free call chain into the target none of whose calls is under a try block\<close>
  "open_chain q t p \<longleftrightarrow>
     p \<noteq> [] \<and> last p = t \<and> distinct p
     \<and> successively (\<lambda>caller callee. caller \<in> calls_into (orGraph q) callee \<and> hop_scopes q (caller, callee) = []) p"

definition nearest_ok :: "ControlFlowOracle \<Rightarrow> string \<Rightarrow> NearestCatchInfo \<Rightarrow> bool" where
  "nearest_ok q t r \<longleftrightarrow>
     (\<exists>caller p. pathSegment r = caller # p \<and> open_chain q t p \<and> caller \<notin> set p
        \<and> caller \<in> calls_into (orGraph q) (hd p) \<and> hop_scopes q (caller, hd p) \<noteq> []
        \<and> ncScope r = hd (hop_scopes q (caller, hd p))
        \<and> framesFromTarget r = length p \<and> framesFromTarget r \<le> 21)"

definition state_ok :: "ControlFlowOracle \<Rightarrow> string \<Rightarrow> string set \<Rightarrow> SearchState \<Rightarrow> bool" where
  "state_ok q t V st \<longleftrightarrow>
     open_chain q t (pathSoFar st) \<and> hd (pathSoFar st) = func st \<and> length (pathSoFar st) = depth st + 1
     \<and> set (pathSoFar st) \<subseteq> V"

definition search_ok :: "ControlFlowOracle \<Rightarrow> string \<Rightarrow> Search \<Rightarrow> bool" where
  "search_ok q t w \<longleftrightarrow> list_all (state_ok q t (seVisited w)) (seQueue w) \<and> list_all (nearest_ok q t) (seResult w)"

lemma search_edge_cases:
  "search_edge q state e w =
     (if callerName e \<in> seVisited w then w
      else if hop_scopes q (callerName e, func state) \<noteq> []
      then w\<lparr>seResult := seResult w @ [\<lparr>pathSegment = callerName e # pathSoFar state,
                ncScope = hd (hop_scopes q (callerName e, func state)), framesFromTarget = depth state + 1\<rparr>]\<rparr>
      else w\<lparr>seVisited := insert (callerName e) (seVisited w),
             seQueue := seQueue w @ [SearchState (callerName e) (callerName e # pathSoFar state) (depth state + 1)]\<rparr>)"
  by (simp add: search_edge_def hop_scopes_def Let_def split: option.split list.split)

lemma state_ok_mono: "state_ok q t V st \<Longrightarrow> V \<subseteq> W \<Longrightarrow> state_ok q t W st"
  by (auto simp: state_ok_def)

lemma search_edge_ok:
  assumes "search_ok q t w" and "state_ok q t (seVisited w) st" and "depth st \<le> 20"
    and "e \<in> set (callersOf (orGraph q) (func st))"
  shows "search_ok q t (search_edge q st e w) \<and> seVisited w \<subseteq> seVisited (search_edge q st e w)"
proof (cases "callerName e \<in> seVisited w")
  case True
  then show ?thesis using assms(1) by (simp add: search_edge_cases)
next
  case new: False
  have st: "open_chain q t (pathSoFar st)" "hd (pathSoFar st) = func st" "length (pathSoFar st) = depth st + 1"
    "set (pathSoFar st) \<subseteq> seVisited w" using assms(2) by (simp_all add: state_ok_def)
  have fresh: "callerName e \<notin> set (pathSoFar st)" using new st(4) by blast
  have call: "callerName e \<in> calls_into (orGraph q) (func st)" using assms(4) by (simp add: calls_into_def)
  show ?thesis
  proof (cases "hop_scopes q (callerName e, func st) = []")
    case True
    obtain n p where "pathSoFar st = n # p" using st(3) by (cases "pathSoFar st") auto
    then have "open_chain q t (callerName e # pathSoFar st)"
      using st(1,2) fresh call True by (simp add: open_chain_def split: if_splits)
    then have "state_ok q t (insert (callerName e) (seVisited w))
        (SearchState (callerName e) (callerName e # pathSoFar st) (depth st + 1))"
      using st(3,4) by (auto simp: state_ok_def)
    then show ?thesis using new True assms(1) state_ok_mono[of q t "seVisited w" _ "insert (callerName e) (seVisited w)"]
      by (auto simp: search_edge_cases search_ok_def list_all_iff)
  next
    case False
    have "nearest_ok q t \<lparr>pathSegment = callerName e # pathSoFar st,
        ncScope = hd (hop_scopes q (callerName e, func st)), framesFromTarget = depth st + 1\<rparr>"
      using st(1-3) fresh call False assms(3) by (simp add: nearest_ok_def)
    then show ?thesis using new False assms(1) by (simp add: search_edge_cases search_ok_def)
  qed
qed

lemma search_edges_ok:
  assumes "search_ok q t w" and "state_ok q t (seVisited w) st" and "depth st \<le> 20"
    and "set es \<subseteq> set (callersOf (orGraph q) (func st))"
  shows "search_ok q t (fold (search_edge q st) es w)"
  using assms
proof (induction es arbitrary: w)
  case (Cons e es)
  have "e \<in> set (callersOf (orGraph q) (func st))" using Cons.prems(4) by simp
  note one = search_edge_ok[OF Cons.prems(1-3) this]
  then show ?case using Cons.IH[of "search_edge q st e w"] Cons.prems state_ok_mono by simp
qed simp

lemma search_result_ok: "search_ok q t w \<Longrightarrow> search_ok q t (search q w)"
proof (induction q w rule: search.induct)
  case (1 q w)
  show ?case
  proof (cases "seQueue w = []")
    case True then show ?thesis using 1(3) by (simp add: search.simps)
  next
    case False
    let ?st = "last (seQueue w)" and ?w = "w\<lparr>seQueue := butlast (seQueue w)\<rparr>"
    have "seQueue w = butlast (seQueue w) @ [?st]" using False by simp
    then have "list_all (state_ok q t (seVisited w)) (butlast (seQueue w) @ [?st])"
      using 1(3) by (simp add: search_ok_def)
    then have ok: "search_ok q t ?w" "state_ok q t (seVisited ?w) ?st" using 1(3) by (simp_all add: search_ok_def)
    show ?thesis
    proof (cases "depth ?st > 20")
      case True
      then show ?thesis using 1(1)[OF False refl refl True ok(1)] False
        by (simp add: search.simps[of q w] Let_def)
    next
      case shallow: False
      then have "depth ?st \<le> 20" by simp
      then show ?thesis using 1(2)[OF False refl refl shallow search_edges_ok[OF ok _ order_refl]] False shallow
        by (simp add: search.simps[of q w] Let_def)
    qed
  qed
qed

lemma queryNearestCatches_ok: "r \<in> set (queryNearestCatches q t) \<Longrightarrow> nearest_ok q t r"
proof -
  have "search_ok q t \<lparr>seResult = [], seQueue = [SearchState t [t] 0], seVisited = {t}\<rparr>"
    by (simp add: search_ok_def state_ok_def open_chain_def)
  from search_result_ok[OF this] show "r \<in> set (queryNearestCatches q t) \<Longrightarrow> nearest_ok q t r"
    by (simp add: queryNearestCatches_def search_ok_def list_all_iff)
qed

subsection \<open>The oracle\<close>

definition demo_call :: "string \<Rightarrow> string \<Rightarrow> CallGraphEdge" where
  "demo_call a b = \<lparr>callerName = a, calleeName = b, kind = DirectCall, confidence = Proven, callSite = a @ b,
     indirectionDepth = 0, execContext = Synchronous, callerUsr = a, calleeUsr = b\<rparr>"

definition demo_try :: "string \<Rightarrow> string \<Rightarrow> TryCatchScope" where
  "demo_try loc T = \<lparr>tryLocation = loc, enclosingFunction = [],
     handlers = [\<lparr>caughtType = T, isCatchAll = False, handlerLocation = [], bodySummary = []\<rparr>], nestingDepth = 0\<rparr>"

definition demo_site :: "string \<Rightarrow> string \<Rightarrow> TryCatchScope list \<Rightarrow> NoexceptSpec \<Rightarrow> CallSiteContext" where
  "demo_site a b scopes ne = \<lparr>ctxCallerName = a, ctxCalleeName = b, ctxCallSite = a @ b, ctxCallerUsr = a,
     ctxCalleeUsr = b, ctxTuPath = ''m'', enclosingTryCatches = scopes, enclosingGuards = [],
     callerNoexcept = ne, insideCatchBlock = False, liveRaiiLocals = []\<rparr>"

text \<open>\<open>m\<close> calls \<open>f\<close> and \<open>g\<close>, which both call \<open>t\<close>; the calls to and from \<open>f\<close> are in try blocks.\<close>

definition demo_oracle :: ControlFlowOracle where
  "demo_oracle =
     \<lparr>orGraph = fold (\<lambda>e. addEdge e []) [demo_call ''f'' ''t'', demo_call ''g'' ''t'', demo_call ''m'' ''f'',
        demo_call ''m'' ''g''] empty_graph,
      orIndex = fold addCallSiteContext
        [demo_site ''m'' ''f'' [demo_try ''m:1'' ''const std::exception &''] NoSpec,
         demo_site ''f'' ''t'' [demo_try ''f:1'' ''std::bad_alloc'', demo_try ''f:0'' ''E''] NoSpec,
         demo_site ''g'' ''t'' [] Noexcept] empty_index\<rparr>"

text \<open>The hierarchy match of a thrown type against a handler: after qualifiers, references and
  trailing blanks are stripped the handler type equals the thrown type or is one of its ancestors in
  the table of standard exceptions, to any height.\<close>

theorem isSubtypeOf_exact:
  "isSubtypeOf t c =
     ((stripType t, stripType c) \<in> (set stdExceptionHierarchy)\<^sup>*)"
  unfolding isSubtypeOf_iff rtrancl_eq_or_trancl by blast

text \<open>C9: The path search returns at most \<open>maxPaths\<close> paths, each a cycle-free call chain that starts
  at an entry point, meets no other entry point and ends at the target; when it stops below the
  bound it has found every such chain.\<close>

theorem paths_exact:
  "length (findPathsToTarget q t E n) \<le> n
   \<and> set (findPathsToTarget q t E n) \<subseteq> {p. entry_chain (orGraph q) (set E) t p}
   \<and> (length (findPathsToTarget q t E n) < n \<longrightarrow>
        set (findPathsToTarget q t E n) = {p. entry_chain (orGraph q) (set E) t p})"
  using findPaths_spec[where q = q and t = t and E = E and n = n] by blast

theorem paths_exact_witness:
  "{p. entry_chain (orGraph demo_oracle) (set [''m'']) ''t'' p} = {[''m'', ''f'', ''t''], [''m'', ''g'', ''t'']}"
proof -
  have "findPathsToTarget demo_oracle ''t'' [''m''] 9 = [[''m'', ''f'', ''t''], [''m'', ''g'', ''t'']]" by code_simp
  then show ?thesis using paths_exact[of demo_oracle "''t''" "[''m'']" 9] by simp
qed

text \<open>C10: The verdict on a function and an exception type is decided by the reported paths: unknown
  without a path, always or never caught when all or none of the paths are, sometimes otherwise.  A
  path is caught when one of its calls has a try block whose handlers match.  The noexcept verdict
  is never given, although a noexcept caller ends the unwinding.\<close>

theorem verdict_exact:
  "let r = queryExceptionProtection q f T E;
       caught = (\<lambda>p. \<exists>hop \<in> set (hops p). \<exists>s \<in> set (hop_scopes q hop). isCaughtByScope T s);
       chains = findPathsToTarget q f E 100 in
     map callChain (paths r) = chains
     \<and> map callChain (filter isCaught (paths r)) = filter caught chains
     \<and> (protection r = UnknownProtection) = (chains = [])
     \<and> (protection r = AlwaysCaught) = (chains \<noteq> [] \<and> filter caught chains = chains)
     \<and> (protection r = NeverCaught) = (chains \<noteq> [] \<and> filter caught chains = [])
     \<and> protection r \<noteq> NoexceptBarrier"
proof -
  let ?caught = "\<lambda>p. \<exists>hop \<in> set (hops p). \<exists>s \<in> set (hop_scopes q hop). isCaughtByScope T s"
  have c: "isCaught (walk_chain q T p) = ?caught p" for p
    using walk_chain_fields(4)[of T q p] by (simp only: located_def walk_chain_fields) (auto simp: list_ex_iff)
  have m: "map callChain (map (walk_chain q T) ps) = ps" for ps by (induction ps) (simp_all add: walk_chain_fields)
  have f: "filter isCaught (map (walk_chain q T) ps) = map (walk_chain q T) (filter ?caught ps)" for ps
    by (induction ps) (simp_all add: c)
  show ?thesis
    by (simp add: Let_def protection_fields m f count_verdict_eq c del: map_map)
      (auto simp: filter_id_conv filter_empty_conv neq_Nil_conv)
qed

text \<open>The scopes and guards of a path are those of its calls in order from the entry point, and the
  catch location and handler it reports are those of the first matching scope in that order.\<close>

theorem caught_at_first_scope:
  "let r = walk_chain q T p; catch = List.find (isCaughtByScope T) (concat (map (hop_scopes q) (hops p))) in
     tryCatchesOnPath r = concat (map (hop_scopes q) (hops p))
     \<and> guardsOnPath r = concat (map (hop_guards q) (hops p))
     \<and> isCaught r = (catch \<noteq> None)
     \<and> caughtAt r = (case catch of None \<Rightarrow> [] | Some s \<Rightarrow> tryLocation s)
     \<and> caughtBy r = (case catch of None \<Rightarrow> [] | Some s \<Rightarrow> caughtByOf T s)"
  using walk_chain_fields[where q = q and T = T and c = p]
  by (simp add: located_def Let_def list_ex_find)

text \<open>The reported catch is the one nearest to the entry point, not the one that stops the unwinding:
  \<open>t\<close> throws through \<open>f\<close>, whose handler at \<open>f:1\<close> matches, and the report names \<open>m:1\<close>, while the
  nearest-catch query of the same oracle names \<open>f:1\<close>.\<close>

theorem caught_at_is_outermost:
  "map (\<lambda>p. (callChain p, caughtAt p)) (filter isCaught (paths (queryThrowPropagation demo_oracle ''t'' ''std::bad_alloc'' [''m''])))
     = [([''m'', ''f'', ''t''], ''m:1'')]
   \<and> map (\<lambda>r. (pathSegment r, tryLocation (ncScope r))) (queryNearestCatches demo_oracle ''t'') = [([''f'', ''t''], ''f:1'')]"
  by code_simp

text \<open>The path contexts query and the protection query agree: the same chains, scopes and guards,
  in the same order.\<close>

theorem path_contexts_agree:
  "map (\<lambda>p. (callChain p, tryCatchesOnPath p, guardsOnPath p)) (queryAllPathContexts q f E 100)
   = map (\<lambda>p. (callChain p, tryCatchesOnPath p, guardsOnPath p)) (paths (queryExceptionProtection q f T E))"
  by (simp add: queryAllPathContexts_def protection_fields walk_chain_fields collect_hops_fields)
    (simp add: empty_path_def)

text \<open>C11: Every nearest catch is real: its segment is a cycle-free call chain into the function, its first
  call is in the try block reported (the innermost one), no later call is in any, and the frame
  count is the number of calls, at most 21.\<close>

theorem nearest_catches_sound:
  "set (queryNearestCatches q t) \<subseteq> {r. nearest_ok q t r}"
  using queryNearestCatches_ok by blast

definition demo_diamond :: "string list \<Rightarrow> ControlFlowOracle" where
  "demo_diamond fs =
     \<lparr>orGraph = fold (\<lambda>e. addEdge e []) (concat (map (\<lambda>f. [demo_call f ''t'', demo_call ''m'' f]) fs)) empty_graph,
      orIndex = addCallSiteContext (demo_site ''m'' ''f'' [demo_try ''m:1'' ''E''] NoSpec) empty_index\<rparr>"

text \<open>The nearest catches are not all of them: a caller first met outside a try block is marked, and
  its protected call on another chain is then skipped.  Here \<open>m\<close> calls \<open>f\<close> in a try block and \<open>g\<close>
  outside, both call \<open>t\<close>, and whether the try block is reported depends on the order of the edges.\<close>

theorem nearest_catch_missed:
  "map pathSegment (queryNearestCatches (demo_diamond [''f'', ''g'']) ''t'') = []
   \<and> map pathSegment (queryNearestCatches (demo_diamond [''g'', ''f'']) ''t'') = [[''m'', ''f'', ''t'']]"
  by code_simp

end
