(* ===== verification/CollapseFilter.thy ===== *)
theory CollapseFilter
  imports Render
begin

text \<open>
  \<open>class CollapseFilter\<close> (include/vycor/callgraph/CollapseFilter.h, src/callgraph/CollapseFilter.cpp):
  the path filter that drops an edge inside collapsed code.  Patterns are stored with a slash at
  both ends and looked up as substrings; the theorem says what that means for path components.
\<close>

type_synonym collapse_filter = "string list"

definition normalisePattern :: "string \<Rightarrow> string" where
  "normalisePattern p =
     (let n0 = (if p \<noteq> [] \<and> hd p \<noteq> CHR ''/'' then ''/'' else []);
          n1 = n0 @ p
      in if n1 \<noteq> [] \<and> last n1 \<noteq> CHR ''/'' then n1 @ ''/'' else n1)"

definition newCollapseFilter :: "string list \<Rightarrow> collapse_filter" where
  "newCollapseFilter patterns = map normalisePattern patterns"

fun str_contains :: "string \<Rightarrow> string \<Rightarrow> bool" where
  \<comment> \<open>\<open>s.find(p) != npos\<close>\<close>
  "str_contains p [] = (p = [])"
| "str_contains p (c # s) = (take (length p) (c # s) = p \<or> str_contains p s)"

definition isCollapsed :: "collapse_filter \<Rightarrow> string \<Rightarrow> bool" where
  "isCollapsed patterns filePath = list_ex (\<lambda>pattern. str_contains pattern filePath) patterns"

definition emptyFilter :: "collapse_filter \<Rightarrow> bool" where
  "emptyFilter patterns = (patterns = [])"

subsection \<open>Path components\<close>

fun split_on :: "char \<Rightarrow> string \<Rightarrow> string list" where
  "split_on c [] = [[]]"
| "split_on c (x # xs) =
     (if x = c then [] # split_on c xs
      else (case split_on c xs of w # ws \<Rightarrow> (x # w) # ws | [] \<Rightarrow> [[x]]))"

lemma split_on_neq [simp]: "split_on c xs \<noteq> []"
  by (induction xs) (auto split: list.split)

lemma split_on_append: "split_on c (xs @ c # ys) = split_on c xs @ split_on c ys"
proof (induction xs)
  case (Cons x xs)
  then show ?case by (cases "split_on c xs") simp_all
qed simp

lemma split_on_free: "c \<notin> set w \<Longrightarrow> split_on c w = [w]"
  by (induction w) auto

lemma join_Cons: "ws \<noteq> [] \<Longrightarrow> join sep (w # ws) = w @ sep @ join sep ws"
  by (cases ws) auto

lemma join_append: "vs \<noteq> [] \<Longrightarrow> ws \<noteq> [] \<Longrightarrow> join sep (vs @ ws) = join sep vs @ sep @ join sep ws"
proof (induction vs)
  case (Cons v vs)
  then show ?case by (cases "vs = []") (simp_all add: join_Cons)
qed simp

lemma split_on_join: "ws \<noteq> [] \<Longrightarrow> \<forall>w \<in> set ws. c \<notin> set w \<Longrightarrow> split_on c (join [c] ws) = ws"
  by (induction "[c]" ws rule: join.induct) (auto simp: split_on_free split_on_append)

lemma join_split_on: "join [c] (split_on c s) = s"
proof (induction s)
  case (Cons x s)
  show ?case
  proof (cases "split_on c s")
    case (Cons w ws)
    then show ?thesis using Cons.IH by (cases ws) (auto simp: join_Cons)
  qed simp
qed simp

lemma str_contains_iff: "str_contains p s \<longleftrightarrow> (\<exists>u v. s = u @ p @ v)"
proof (induction s)
  case (Cons c s)
  have "(\<exists>u v. c # s = u @ p @ v) \<longleftrightarrow> (\<exists>v. c # s = p @ v) \<or> (\<exists>u v. s = u @ p @ v)"
    unfolding Cons_eq_append_conv[of c s] by (metis append_Nil)
  moreover have "take (length p) (c # s) = p \<longleftrightarrow> (\<exists>v. c # s = p @ v)"
    by (metis append_eq_conv_conj append_take_drop_id)
  ultimately show ?case using Cons.IH by simp
qed auto

text \<open>A component pattern occurs strictly inside the path: something precedes and something follows.\<close>

definition within :: "string list \<Rightarrow> string list \<Rightarrow> bool" where
  "within ps cs \<longleftrightarrow> (\<exists>a b. cs = a @ ps @ b \<and> a \<noteq> [] \<and> b \<noteq> [])"

lemma contains_components:
  assumes "ps \<noteq> []" and "\<forall>w \<in> set ps. CHR ''/'' \<notin> set w"
  shows "str_contains (''/'' @ join ''/'' ps @ ''/'') s \<longleftrightarrow> within ps (split_on (CHR ''/'') s)"
proof
  assume "str_contains (''/'' @ join ''/'' ps @ ''/'') s"
  then obtain u v where "s = u @ CHR ''/'' # (join ''/'' ps @ CHR ''/'' # v)" by (auto simp: str_contains_iff)
  then have "split_on (CHR ''/'') s = split_on (CHR ''/'') u @ ps @ split_on (CHR ''/'') v"
    by (simp add: split_on_append split_on_join[OF assms])
  then show "within ps (split_on (CHR ''/'') s)" unfolding within_def by (metis split_on_neq)
next
  assume "within ps (split_on (CHR ''/'') s)"
  then obtain a b where ab: "split_on (CHR ''/'') s = a @ ps @ b" "a \<noteq> []" "b \<noteq> []" by (auto simp: within_def)
  have "s = join ''/'' (a @ ps @ b)" using join_split_on[of "CHR ''/''" s] ab(1) by simp
  also have "\<dots> = join ''/'' a @ (''/'' @ join ''/'' ps @ ''/'') @ join ''/'' b"
    using ab assms(1) by (simp add: join_append)
  finally show "str_contains (''/'' @ join ''/'' ps @ ''/'') s" unfolding str_contains_iff by blast
qed

lemma normalise_components:
  assumes "ps \<noteq> []" and "\<forall>w \<in> set ps. w \<noteq> [] \<and> CHR ''/'' \<notin> set w"
  shows "normalisePattern (join ''/'' ps) = ''/'' @ join ''/'' ps @ ''/''"
proof -
  have "join ''/'' ps \<noteq> [] \<and> hd (join ''/'' ps) \<noteq> CHR ''/'' \<and> last (join ''/'' ps) \<noteq> CHR ''/''"
    using assms
  proof (induction "''/''" ps rule: join.induct)
    case (2 x)
    then have "x \<noteq> []" "CHR ''/'' \<notin> set x" by simp_all
    then have "hd x \<noteq> CHR ''/''" "last x \<noteq> CHR ''/''" by (metis hd_in_set, metis last_in_set)
    then show ?case using \<open>x \<noteq> []\<close> by simp
  next
    case (3 x y xs)
    then show ?case by (cases x) auto
  qed simp
  then show ?thesis by (simp add: normalisePattern_def)
qed

text \<open>C12: The collapse filter matches whole path components: a file is collapsed exactly when the
  components of one of the patterns occur in a row inside its path, with a component (or the root)
  before them and a component after them.\<close>

theorem isCollapsed_components:
  assumes "\<forall>ps \<in> set pats. ps \<noteq> [] \<and> (\<forall>w \<in> set ps. w \<noteq> [] \<and> CHR ''/'' \<notin> set w)"
  shows "isCollapsed (newCollapseFilter (map (join ''/'') pats)) path
     = list_ex (\<lambda>ps. within ps (split_on (CHR ''/'') path)) pats"
proof -
  have "str_contains (normalisePattern (join ''/'' ps)) path = within ps (split_on (CHR ''/'') path)"
    if "ps \<in> set pats" for ps
    using normalise_components[of ps] contains_components[of ps path] bspec[OF assms that] by simp
  then show ?thesis by (auto simp: isCollapsed_def newCollapseFilter_def list_ex_iff)
qed

theorem isCollapsed_components_witness:
  "list_ex (\<lambda>ps. within ps (split_on (CHR ''/'') ''/x/Client/Math/a.h'')) [[''Client'', ''Math'']]
   \<and> \<not> isCollapsed (newCollapseFilter [''Client/Math'']) ''/x/Client/MathExtras/a.h''"
proof -
  have "isCollapsed (newCollapseFilter (map (join ''/'') [[''Client'', ''Math'']])) ''/x/Client/Math/a.h''" by code_simp
  then have "list_ex (\<lambda>ps. within ps (split_on (CHR ''/'') ''/x/Client/Math/a.h'')) [[''Client'', ''Math'']]"
    by (subst (asm) isCollapsed_components) simp_all
  moreover have "\<not> isCollapsed (newCollapseFilter [''Client/Math'']) ''/x/Client/MathExtras/a.h''" by code_simp
  ultimately show ?thesis by blast
qed

text \<open>An empty pattern is stored as the empty string, which every path contains, so it collapses
  the whole program.\<close>

theorem empty_pattern_collapses_all: "isCollapsed (newCollapseFilter (pats @ [[]])) path"
  by (cases path) (simp_all add: isCollapsed_def newCollapseFilter_def normalisePattern_def)

end
