(* ===== verification/TypeRelations.thy ===== *)
theory TypeRelations
  imports Interner
begin

text \<open>
  \<open>struct TypeRelationIndex\<close> (include/vycor/anneal/GlobalIndex.h, src/anneal/GlobalIndex.cpp): the
  base-class, converting-constructor and conversion-operator edges of the indexed types, and the
  convertibility test of the overload scorer.  The write lock has no sequential effect.
\<close>

subsection \<open>The index\<close>

record TypeRelationIndex =
  trInterner :: interner
  bases :: "(sid, sid list) umap"
  ctorEdges :: "(sid, sid list) umap"
  convOpEdges :: "(sid, sid list) umap"

definition empty_types :: TypeRelationIndex where
  "empty_types = \<lparr>trInterner = empty_interner, bases = [], ctorEdges = [], convOpEdges = []\<rparr>"

definition addBase :: "string \<Rightarrow> string \<Rightarrow> TypeRelationIndex \<Rightarrow> TypeRelationIndex" where
  "addBase derived base s =
     (let (derivedId, I1) = intern derived (trInterner s);
          (baseId, I2) = intern base I1
      in s\<lparr>trInterner := I2, bases := upush_new derivedId baseId (bases s)\<rparr>)"

definition addCtorEdge :: "string \<Rightarrow> string \<Rightarrow> TypeRelationIndex \<Rightarrow> TypeRelationIndex" where
  "addCtorEdge toType fromType s =
     (let (toId, I1) = intern toType (trInterner s);
          (fromId, I2) = intern fromType I1
      in s\<lparr>trInterner := I2, ctorEdges := upush_new toId fromId (ctorEdges s)\<rparr>)"

definition addConvOpEdge :: "string \<Rightarrow> string \<Rightarrow> TypeRelationIndex \<Rightarrow> TypeRelationIndex" where
  "addConvOpEdge fromType toType s =
     (let (fromId, I1) = intern fromType (trInterner s);
          (toId, I2) = intern toType I1
      in s\<lparr>trInterner := I2, convOpEdges := upush_new fromId toId (convOpEdges s)\<rparr>)"

definition forEachEdge :: "interner \<Rightarrow> (sid, sid list) umap \<Rightarrow> (string \<Rightarrow> string \<Rightarrow> 'b \<Rightarrow> 'b) \<Rightarrow> 'b \<Rightarrow> 'b" where
  \<comment> \<open>the loops of \<open>forEachBase\<close>, \<open>forEachCtorEdge\<close> and \<open>forEachConvOpEdge\<close>\<close>
  "forEachEdge I m fn = fold (\<lambda>(k, v). fold (\<lambda>x. fn (resolve I k) (resolve I x)) v) m"

definition forEachBase :: "TypeRelationIndex \<Rightarrow> (string \<Rightarrow> string \<Rightarrow> 'b \<Rightarrow> 'b) \<Rightarrow> 'b \<Rightarrow> 'b" where
  "forEachBase s fn = forEachEdge (trInterner s) (bases s) fn"

definition forEachCtorEdge :: "TypeRelationIndex \<Rightarrow> (string \<Rightarrow> string \<Rightarrow> 'b \<Rightarrow> 'b) \<Rightarrow> 'b \<Rightarrow> 'b" where
  "forEachCtorEdge s fn = forEachEdge (trInterner s) (ctorEdges s) fn"

definition forEachConvOpEdge :: "TypeRelationIndex \<Rightarrow> (string \<Rightarrow> string \<Rightarrow> 'b \<Rightarrow> 'b) \<Rightarrow> 'b \<Rightarrow> 'b" where
  "forEachConvOpEdge s fn = forEachEdge (trInterner s) (convOpEdges s) fn"

definition absorbTypes :: "TypeRelationIndex \<Rightarrow> TypeRelationIndex \<Rightarrow> TypeRelationIndex" where
  "absorbTypes other s =
     forEachConvOpEdge other addConvOpEdge
       (forEachCtorEdge other addCtorEdge
         (forEachBase other addBase s))"

subsection \<open>Convertibility\<close>

definition arithmeticTypeNames :: "string list" where
  "arithmeticTypeNames =
     [''bool'', ''char'', ''signedchar'', ''unsignedchar'', ''wchar_t'', ''char8_t'', ''char16_t'',
      ''char32_t'', ''short'', ''shortint'', ''unsignedshort'', ''unsignedshortint'', ''int'',
      ''unsigned'', ''unsignedint'', ''long'', ''longint'', ''unsignedlong'', ''unsignedlongint'',
      ''longlong'', ''longlongint'', ''unsignedlonglong'', ''unsignedlonglongint'', ''float'',
      ''double'', ''longdouble'']"

definition isArithmeticTypeName :: "string \<Rightarrow> bool" where
  "isArithmeticTypeName normalized = (normalized \<in> set arithmeticTypeNames)"

definition stripPointer :: "string \<Rightarrow> string" where
  "stripPointer s = (if s \<noteq> [] \<and> last s = CHR ''*'' then butlast s else s)"

function base_search :: "(sid, sid list) umap \<Rightarrow> sid \<Rightarrow> sid list \<Rightarrow> sid set \<Rightarrow> bool" where
  \<comment> \<open>the stack is popped at its back; the inner loop returns at the first hit\<close>
  "base_search m baseId stack seen =
     (if stack = [] then False
      else let cur = last stack; rest = butlast stack in
           if cur \<in> seen then base_search m baseId rest seen
           else (case map_of m cur of
                   None \<Rightarrow> base_search m baseId rest (insert cur seen)
                 | Some v \<Rightarrow> if baseId \<in> set v then True
                             else base_search m baseId (rest @ v) (insert cur seen)))"
  by pat_completeness auto
termination
proof (relation "measures [\<lambda>(m, baseId, stack, seen). card (UNIV - seen), \<lambda>(m, baseId, stack, seen). length stack]")
  fix m :: "(sid, sid list) umap" and baseId cur :: sid and stack rest and seen :: "sid set"
  assume "cur \<notin> seen"
  then have "card (UNIV - insert cur seen) < card (UNIV - seen)" by (intro psubset_card_mono) auto
  then show "((m, baseId, rest, insert cur seen), m, baseId, stack, seen)
      \<in> measures [\<lambda>(m, baseId, stack, seen). card (UNIV - seen), \<lambda>(m, baseId, stack, seen). length stack]"
    and "((m, baseId, rest @ v, insert cur seen), m, baseId, stack, seen)
      \<in> measures [\<lambda>(m, baseId, stack, seen). card (UNIV - seen), \<lambda>(m, baseId, stack, seen). length stack]" for v
    by simp_all
qed auto

declare base_search.simps [simp del]

definition isBaseOrSelf :: "TypeRelationIndex \<Rightarrow> string \<Rightarrow> string \<Rightarrow> bool" where
  "isBaseOrSelf s derived maybeBase =
     (if derived = maybeBase then True
      else (case (find_id (trInterner s) derived, find_id (trInterner s) maybeBase) of
              (Some d, Some b) \<Rightarrow> base_search (bases s) b [d] {}
            | _ \<Rightarrow> False))"

definition edge_listed :: "interner \<Rightarrow> (sid, sid list) umap \<Rightarrow> string \<Rightarrow> string \<Rightarrow> bool" where
  \<comment> \<open>the two lookups and the scan that follow the base-class test\<close>
  "edge_listed I m key x =
     (case find_id I key of
        None \<Rightarrow> False
      | Some k \<Rightarrow> (case map_of m k of
                    None \<Rightarrow> False
                  | Some v \<Rightarrow> (case find_id I x of None \<Rightarrow> False | Some i \<Rightarrow> i \<in> set v)))"

definition isConvertible :: "TypeRelationIndex \<Rightarrow> string \<Rightarrow> string \<Rightarrow> bool" where
  "isConvertible s from_type to_type =
     (if from_type = to_type then True
      else if isArithmeticTypeName from_type \<and> isArithmeticTypeName to_type then True
      else let fromClass = stripPointer from_type; toClass = stripPointer to_type in
           if (if fromClass \<noteq> from_type \<or> toClass \<noteq> to_type
               then fromClass \<noteq> from_type \<and> toClass \<noteq> to_type \<and> isBaseOrSelf s fromClass toClass
               else isBaseOrSelf s fromClass toClass \<and> fromClass \<noteq> toClass) then True
           else if edge_listed (trInterner s) (ctorEdges s) to_type from_type then True
           else edge_listed (trInterner s) (convOpEdges s) from_type to_type)"

end
