(* ===== verification/GlobalIndex.thy ===== *)
theory GlobalIndex
  imports TypeRelations Render
begin

text \<open>
  \<open>class GlobalIndex\<close> (include/vycor/anneal/GlobalIndex.h, src/anneal/GlobalIndex.cpp): the
  project-wide database the analyses consult.  Overloads, guides, coverage properties and
  specializations are kept per interned name; the other entries are vectors with a set of
  content keys, or with a map from a key to a position, that make an insertion a no-op or a merge.
  \<open>unsigned\<close> and \<open>int\<close> fields are \<open>32 word\<close> (an \<open>int\<close> in two's complement), \<open>uint64_t\<close> is
  \<open>64 word\<close>; the write lock has no sequential effect.  Field names carry the entry's initials.
\<close>

subsection \<open>Entries\<close>

record FunctionOverloadEntry =
  foName :: string
  foHeader :: string
  foParams :: "string list"
  foReturn :: string
  foLine :: "32 word"

record DeductionGuideEntry =
  gdTemplate :: string
  gdHeader :: string
  gdParams :: "string list"
  gdDeduced :: string
  gdLine :: "32 word"

record CoveragePropertyEntry =
  cpName :: string
  cpHeader :: string
  cpLine :: "32 word"
  cpClass :: string
  cpGvaLinkage :: "32 word"
  cpInlined :: bool
  cpConstexpr :: bool
  cpDefaulted :: bool
  cpTrivial :: bool
  cpVirtual :: bool
  cpStatic :: bool
  cpImplicit :: bool
  cpTemplatedKind :: "32 word"
  cpStorageClass :: "32 word"
  cpFormalLinkage :: "32 word"
  cpStmtCount :: "32 word"
  cpSignature :: string

record OdrEntry =
  odName :: string
  odSignature :: string
  odIsClass :: bool
  odClass :: string
  odFile :: string
  odLine :: "32 word"
  odHash :: "64 word"

record SpecializationEntry =
  spTemplate :: string
  spArgs :: string
  spHeader :: string
  spLine :: "32 word"

record DefaultArgEntry =
  daName :: string
  daSignature :: string
  daParamIndex :: "32 word"
  daParamName :: string
  daText :: string
  daFile :: string
  daLine :: "32 word"

record StaticInitEntry =
  siName :: string
  siFile :: string
  siLine :: "32 word"
  siDynamic :: bool
  siConstructorFn :: bool
  siGlobals :: "string list"
  siCalls :: "string list"

record FunctionSummaryEntry =
  fsName :: string
  fsFile :: string
  fsLine :: "32 word"
  fsNoexcept :: bool
  fsThrows :: bool
  fsCalls :: "string list"
  fsUnguarded :: "string list"
  fsGlobals :: "string list"

record HeaderStaticEntry =
  hsName :: string
  hsFile :: string
  hsLine :: "32 word"
  hsConst :: bool
  hsTus :: "string list"

record ExceptionSpecEntry =
  xsName :: string
  xsSignature :: string
  xsNoexcept :: bool
  xsFile :: string
  xsLine :: "32 word"

record GlobalIndex =
  giInterner :: interner
  overloads :: "(sid, FunctionOverloadEntry list) umap"
  guides :: "(sid, DeductionGuideEntry list) umap"
  coverageProps :: "(sid, CoveragePropertyEntry list) umap"
  odrEntries :: "OdrEntry list"
  odrKeys :: "string set"
  specializations :: "(sid, SpecializationEntry list) umap"
  defaultArgs :: "DefaultArgEntry list"
  defaultArgKeys :: "string set"
  staticInits :: "StaticInitEntry list"
  staticInitByName :: "(string, nat) umap"
  staticInitKeys :: "string set"
  functionSummaries :: "FunctionSummaryEntry list"
  functionSummaryByName :: "(string, nat) umap"
  headerStatics :: "HeaderStaticEntry list"
  headerStaticBySite :: "(string, nat) umap"
  exceptionSpecs :: "ExceptionSpecEntry list"
  exceptionSpecKeys :: "string set"
  giTypes :: TypeRelationIndex

definition empty_global :: GlobalIndex where
  "empty_global =
     \<lparr>giInterner = empty_interner, overloads = [], guides = [], coverageProps = [], odrEntries = [],
      odrKeys = {}, specializations = [], defaultArgs = [], defaultArgKeys = {}, staticInits = [],
      staticInitByName = [], staticInitKeys = {}, functionSummaries = [], functionSummaryByName = [],
      headerStatics = [], headerStaticBySite = [], exceptionSpecs = [], exceptionSpecKeys = {},
      giTypes = empty_types\<rparr>"

subsection \<open>Insertion\<close>

definition addFunctionOverload :: "FunctionOverloadEntry \<Rightarrow> GlobalIndex \<Rightarrow> GlobalIndex" where
  "addFunctionOverload entry g =
     (let (key, I) = intern (foName entry) (giInterner g)
      in g\<lparr>giInterner := I, overloads := upush key entry (overloads g)\<rparr>)"

definition addDeductionGuide :: "DeductionGuideEntry \<Rightarrow> GlobalIndex \<Rightarrow> GlobalIndex" where
  "addDeductionGuide entry g =
     (let (key, I) = intern (gdTemplate entry) (giInterner g)
      in g\<lparr>giInterner := I, guides := upush key entry (guides g)\<rparr>)"

definition addCoverageProperty :: "CoveragePropertyEntry \<Rightarrow> GlobalIndex \<Rightarrow> GlobalIndex" where
  "addCoverageProperty entry g =
     (let (key, I) = intern (cpClass entry) (giInterner g)
      in g\<lparr>giInterner := I, coverageProps := upush key entry (coverageProps g)\<rparr>)"

definition same_specialization :: "SpecializationEntry \<Rightarrow> SpecializationEntry \<Rightarrow> bool" where
  "same_specialization entry existing =
     (spArgs existing = spArgs entry \<and> spHeader existing = spHeader entry \<and> spLine existing = spLine entry)"

definition addSpecialization :: "SpecializationEntry \<Rightarrow> GlobalIndex \<Rightarrow> GlobalIndex" where
  \<comment> \<open>\<open>specializations_[key]\<close> creates the empty vector before the scan\<close>
  "addSpecialization entry g =
     (let (key, I) = intern (spTemplate entry) (giInterner g);
          v = ulist (specializations g) key
      in g\<lparr>giInterner := I,
           specializations := AList.update key
             (if list_ex (same_specialization entry) v then v else v @ [entry]) (specializations g)\<rparr>)"

definition odrKey :: "OdrEntry \<Rightarrow> string" where
  "odrKey e = odName e @ ''|'' @ odSignature e @ (if odIsClass e then ''|c|'' else ''|f|'') @ odFile e @ ''|''
              @ nat_string (unat (odLine e)) @ ''|'' @ nat_string (unat (odHash e))"

definition addOdrEntry :: "OdrEntry \<Rightarrow> GlobalIndex \<Rightarrow> GlobalIndex" where
  "addOdrEntry entry g =
     (let key = odrKey entry in
      if key \<in> odrKeys g then g
      else g\<lparr>odrKeys := insert key (odrKeys g), odrEntries := odrEntries g @ [entry]\<rparr>)"

definition defaultArgKey :: "DefaultArgEntry \<Rightarrow> string" where
  "defaultArgKey e = daName e @ ''|'' @ daSignature e @ ''|'' @ nat_string (unat (daParamIndex e)) @ ''|''
                     @ daText e @ ''|'' @ daFile e @ ''|'' @ nat_string (unat (daLine e))"

definition addDefaultArg :: "DefaultArgEntry \<Rightarrow> GlobalIndex \<Rightarrow> GlobalIndex" where
  "addDefaultArg entry g =
     (let key = defaultArgKey entry in
      if key \<in> defaultArgKeys g then g
      else g\<lparr>defaultArgKeys := insert key (defaultArgKeys g), defaultArgs := defaultArgs g @ [entry]\<rparr>)"

definition exceptionSpecKey :: "ExceptionSpecEntry \<Rightarrow> string" where
  "exceptionSpecKey e = xsName e @ ''|'' @ xsSignature e @ ''|'' @ (if xsNoexcept e then ''1|'' else ''0|'')
                        @ xsFile e @ ''|'' @ nat_string (unat (xsLine e))"

definition addExceptionSpec :: "ExceptionSpecEntry \<Rightarrow> GlobalIndex \<Rightarrow> GlobalIndex" where
  "addExceptionSpec entry g =
     (let key = exceptionSpecKey entry in
      if key \<in> exceptionSpecKeys g then g
      else g\<lparr>exceptionSpecKeys := insert key (exceptionSpecKeys g),
             exceptionSpecs := exceptionSpecs g @ [entry]\<rparr>)"

definition staticInitKey :: "StaticInitEntry \<Rightarrow> string" where
  "staticInitKey e = siName e @ ''|'' @ siFile e @ ''|'' @ nat_string (unat (siLine e))"

definition addStaticInit :: "StaticInitEntry \<Rightarrow> GlobalIndex \<Rightarrow> GlobalIndex" where
  "addStaticInit entry g =
     (let key = staticInitKey entry in
      if key \<in> staticInitKeys g then g
      else let inits = staticInits g @ [entry] in
           g\<lparr>staticInitKeys := insert key (staticInitKeys g), staticInits := inits,
             staticInitByName := uemplace (siName entry) (length inits - 1) (staticInitByName g)\<rparr>)"

definition merge_names :: "string list \<Rightarrow> string list \<Rightarrow> string list" where
  "merge_names into from_list = fold (\<lambda>name into. if name \<in> set into then into else into @ [name]) from_list into"

definition merge_summary :: "FunctionSummaryEntry \<Rightarrow> FunctionSummaryEntry \<Rightarrow> FunctionSummaryEntry" where
  "merge_summary existing entry =
     existing\<lparr>fsNoexcept := fsNoexcept existing \<or> fsNoexcept entry,
              fsThrows := fsThrows existing \<or> fsThrows entry,
              fsCalls := merge_names (fsCalls existing) (fsCalls entry),
              fsUnguarded := merge_names (fsUnguarded existing) (fsUnguarded entry),
              fsGlobals := merge_names (fsGlobals existing) (fsGlobals entry)\<rparr>"

definition addFunctionSummary :: "FunctionSummaryEntry \<Rightarrow> GlobalIndex \<Rightarrow> GlobalIndex" where
  "addFunctionSummary entry g =
     (case map_of (functionSummaryByName g) (fsName entry) of
        None \<Rightarrow> (let sums = functionSummaries g @ [entry] in
                 g\<lparr>functionSummaries := sums,
                   functionSummaryByName := uemplace (fsName entry) (length sums - 1) (functionSummaryByName g)\<rparr>)
      | Some i \<Rightarrow> g\<lparr>functionSummaries :=
                      (functionSummaries g)[i := merge_summary (functionSummaries g ! i) entry]\<rparr>)"

definition headerStaticKey :: "HeaderStaticEntry \<Rightarrow> string" where
  "headerStaticKey e = hsFile e @ ''|'' @ nat_string (unat (hsLine e))"

definition addHeaderStatic :: "HeaderStaticEntry \<Rightarrow> GlobalIndex \<Rightarrow> GlobalIndex" where
  "addHeaderStatic entry g =
     (let key = headerStaticKey entry in
      case map_of (headerStaticBySite g) key of
        None \<Rightarrow> (let statics = headerStatics g @ [entry] in
                 g\<lparr>headerStatics := statics,
                   headerStaticBySite := uemplace key (length statics - 1) (headerStaticBySite g)\<rparr>)
      | Some i \<Rightarrow> (let existing = headerStatics g ! i in
                  g\<lparr>headerStatics := (headerStatics g)[i :=
                      existing\<lparr>hsTus := merge_names (hsTus existing) (hsTus entry)\<rparr>]\<rparr>))"

subsection \<open>Queries\<close>

definition find_by_name :: "interner \<Rightarrow> (sid, 'e list) umap \<Rightarrow> string \<Rightarrow> 'e list" where
  \<comment> \<open>the common body of the name queries\<close>
  "find_by_name I m name =
     (case find_id I name of
        None \<Rightarrow> []
      | Some i \<Rightarrow> (case map_of m i of None \<Rightarrow> [] | Some v \<Rightarrow> v))"

definition findOverloads :: "GlobalIndex \<Rightarrow> string \<Rightarrow> FunctionOverloadEntry list" where
  "findOverloads g name = find_by_name (giInterner g) (overloads g) name"

definition findDeductionGuides :: "GlobalIndex \<Rightarrow> string \<Rightarrow> DeductionGuideEntry list" where
  "findDeductionGuides g name = find_by_name (giInterner g) (guides g) name"

definition findClassMethods :: "GlobalIndex \<Rightarrow> string \<Rightarrow> CoveragePropertyEntry list" where
  "findClassMethods g cls = find_by_name (giInterner g) (coverageProps g) cls"

definition findSpecializations :: "GlobalIndex \<Rightarrow> string \<Rightarrow> SpecializationEntry list" where
  "findSpecializations g name = find_by_name (giInterner g) (specializations g) name"

definition findFunctionSummary :: "GlobalIndex \<Rightarrow> string \<Rightarrow> FunctionSummaryEntry option" where
  "findFunctionSummary g name = map_option (\<lambda>i. functionSummaries g ! i) (map_of (functionSummaryByName g) name)"

definition findStaticInit :: "GlobalIndex \<Rightarrow> string \<Rightarrow> StaticInitEntry option" where
  "findStaticInit g name = map_option (\<lambda>i. staticInits g ! i) (map_of (staticInitByName g) name)"

definition allIndexedClasses :: "GlobalIndex \<Rightarrow> string list" where
  "allIndexedClasses g = map (\<lambda>kv. resolve (giInterner g) (fst kv)) (coverageProps g)"

definition count_values :: "('k, 'e list) umap \<Rightarrow> nat" where
  "count_values m = fold (\<lambda>kv count. count + length (snd kv)) m 0"

definition overloadCount :: "GlobalIndex \<Rightarrow> nat" where
  "overloadCount g = count_values (overloads g)"

definition guideCount :: "GlobalIndex \<Rightarrow> nat" where
  "guideCount g = count_values (guides g)"

definition coverageEntryCount :: "GlobalIndex \<Rightarrow> nat" where
  "coverageEntryCount g = count_values (coverageProps g)"

definition specializationCount :: "GlobalIndex \<Rightarrow> nat" where
  "specializationCount g = count_values (specializations g)"

definition odrEntryCount :: "GlobalIndex \<Rightarrow> nat" where
  "odrEntryCount g = length (odrEntries g)"

definition defaultArgCount :: "GlobalIndex \<Rightarrow> nat" where
  "defaultArgCount g = length (defaultArgs g)"

definition staticInitCount :: "GlobalIndex \<Rightarrow> nat" where
  "staticInitCount g = length (staticInits g)"

definition functionSummaryCount :: "GlobalIndex \<Rightarrow> nat" where
  "functionSummaryCount g = length (functionSummaries g)"

definition headerStaticCount :: "GlobalIndex \<Rightarrow> nat" where
  "headerStaticCount g = length (headerStatics g)"

definition exceptionSpecCount :: "GlobalIndex \<Rightarrow> nat" where
  "exceptionSpecCount g = length (exceptionSpecs g)"

subsection \<open>Enumeration and merge\<close>

definition forEachKeyed :: "('k, 'e list) umap \<Rightarrow> ('e \<Rightarrow> 'b \<Rightarrow> 'b) \<Rightarrow> 'b \<Rightarrow> 'b" where
  \<comment> \<open>the nested loop of the four enumerations over keyed vectors\<close>
  "forEachKeyed m fn = fold (\<lambda>kv. fold fn (snd kv)) m"

definition forEachOverload :: "GlobalIndex \<Rightarrow> (FunctionOverloadEntry \<Rightarrow> 'b \<Rightarrow> 'b) \<Rightarrow> 'b \<Rightarrow> 'b" where
  "forEachOverload g fn = forEachKeyed (overloads g) fn"

definition forEachDeductionGuide :: "GlobalIndex \<Rightarrow> (DeductionGuideEntry \<Rightarrow> 'b \<Rightarrow> 'b) \<Rightarrow> 'b \<Rightarrow> 'b" where
  "forEachDeductionGuide g fn = forEachKeyed (guides g) fn"

definition forEachCoverageProperty :: "GlobalIndex \<Rightarrow> (CoveragePropertyEntry \<Rightarrow> 'b \<Rightarrow> 'b) \<Rightarrow> 'b \<Rightarrow> 'b" where
  "forEachCoverageProperty g fn = forEachKeyed (coverageProps g) fn"

definition forEachSpecialization :: "GlobalIndex \<Rightarrow> (SpecializationEntry \<Rightarrow> 'b \<Rightarrow> 'b) \<Rightarrow> 'b \<Rightarrow> 'b" where
  "forEachSpecialization g fn = forEachKeyed (specializations g) fn"

definition absorbGlobal :: "GlobalIndex \<Rightarrow> GlobalIndex \<Rightarrow> GlobalIndex" where
  "absorbGlobal shard g0 =
     (let g1 = forEachOverload shard addFunctionOverload g0;
          g2 = forEachDeductionGuide shard addDeductionGuide g1;
          g3 = forEachCoverageProperty shard addCoverageProperty g2;
          g4 = fold addOdrEntry (odrEntries shard) g3;
          g5 = forEachSpecialization shard addSpecialization g4;
          g6 = fold addDefaultArg (defaultArgs shard) g5;
          g7 = fold addStaticInit (staticInits shard) g6;
          g8 = fold addFunctionSummary (functionSummaries shard) g7;
          g9 = fold addHeaderStatic (headerStatics shard) g8;
          g10 = fold addExceptionSpec (exceptionSpecs shard) g9
      in g10\<lparr>giTypes := absorbTypes (giTypes shard) (giTypes g10)\<rparr>)"

end
