(* ===== verification/TypeRelationsSpec.thy ===== *)
theory TypeRelationsSpec
  imports TypeRelations
begin

text \<open>
  The type relation index as three sets of string pairs: what the mutators add, what merging
  gives, and what the two tests decide.
\<close>

subsection \<open>Edges between strings\<close>

definition edge_rel :: "interner \<Rightarrow> (sid, sid list) umap \<Rightarrow> (string \<times> string) set" where
  "edge_rel I m = {(resolve I k, resolve I x) |k x. x \<in> set (ulist m k)}"

definition edges_ok :: "interner \<Rightarrow> (sid, sid list) umap \<Rightarrow> bool" where
  "edges_ok I m \<longleftrightarrow> distinct (ukeys m) \<and> (\<forall>k x. x \<in> set (ulist m k) \<longrightarrow> valid_id I k \<and> valid_id I x)"

definition edge_list :: "interner \<Rightarrow> (sid, sid list) umap \<Rightarrow> (string \<times> string) list" where
  "edge_list I m = concat (map (\<lambda>(k, v). map (\<lambda>x. (resolve I k, resolve I x)) v) m)"

lemma forEachEdge_list: "forEachEdge I m fn b = fold (\<lambda>(x, y). fn x y) (edge_list I m) b"
  by (induction m arbitrary: b) (auto simp: forEachEdge_def edge_list_def fold_map comp_def)

lemma set_edge_list: "edges_ok I m \<Longrightarrow> set (edge_list I m) = edge_rel I m"
proof -
  assume ok: "edges_ok I m"
  have u: "v = ulist m k" if "(k, v) \<in> set m" for k v
    using that ok ulist_in_set[of m k v] by (simp add: edges_ok_def)
  have m: "(k, ulist m k) \<in> set m" if "x \<in> set (ulist m k)" for k x
  proof (cases "map_of m k")
    case (Some v)
    then show ?thesis using map_of_SomeD[OF Some] by (simp add: ulist_Some)
  qed (use that in \<open>simp add: ulist_None\<close>)
  show ?thesis
  proof
    show "set (edge_list I m) \<subseteq> edge_rel I m"
    proof
      fix p assume "p \<in> set (edge_list I m)"
      then obtain k v x where "(k, v) \<in> set m" "x \<in> set v" "p = (resolve I k, resolve I x)"
        by (auto simp: edge_list_def)
      then show "p \<in> edge_rel I m" using u[of k v] by (auto simp: edge_rel_def)
    qed
    show "edge_rel I m \<subseteq> set (edge_list I m)"
    proof
      fix p assume "p \<in> edge_rel I m"
      then obtain k x where "x \<in> set (ulist m k)" "p = (resolve I k, resolve I x)" by (auto simp: edge_rel_def)
      then show "p \<in> set (edge_list I m)" using m[of x k] by (force simp: edge_list_def)
    qed
  qed
qed

lemma edges_extend:
  assumes "extends_interner I J" and "edges_ok I m"
  shows "edges_ok J m" and "edge_rel J m = edge_rel I m"
proof -
  show "edges_ok J m" using assms by (auto simp: edges_ok_def dest: extends_interner_facts)
  have "resolve J k = resolve I k \<and> resolve J x = resolve I x" if "x \<in> set (ulist m k)" for k x
    using that assms by (auto simp: edges_ok_def dest: extends_interner_facts)
  then show "edge_rel J m = edge_rel I m" unfolding edge_rel_def by (metis (no_types, lifting))
qed

lemma edges_upush:
  assumes "edges_ok J m" and "valid_id J i" and "valid_id J j"
  shows "edges_ok J (upush_new i j m)"
    and "edge_rel J (upush_new i j m) = insert (resolve J i, resolve J j) (edge_rel J m)"
  using assms by (auto simp: edges_ok_def edge_rel_def set_ulist_upush_new split: if_splits)

lemma intern_two:
  assumes "wf_interner I" and "has_room (Suc (Suc n)) I" and "intern a I = (i, I1)" and "intern b I1 = (j, I2)"
  shows "extends_interner I I2" and "valid_id I2 i" and "valid_id I2 j" and "resolve I2 i = a"
    and "resolve I2 j = b" and "has_room n I2" and "wf_interner I2"
proof -
  have r: "has_room 1 I" using assms(2) by (rule has_room_mono) simp
  note 1 = extends_intern[OF assms(1) r assms(3)]
  have w: "wf_interner I1" using 1(1) by (simp add: extends_interner_def)
  have r1: "has_room (Suc n) I1" by (rule intern_room[OF assms(1,2,3)])
  have r2: "has_room 1 I1" using r1 by (rule has_room_mono) simp
  note 2 = extends_intern[OF w r2 assms(4)]
  show "extends_interner I I2" by (rule extends_interner_trans[OF 1(1) 2(1)])
  show "valid_id I2 i" "resolve I2 i = a" using extends_interner_facts[OF 2(1)] 1 by auto
  show "valid_id I2 j" "resolve I2 j = b" by (rule 2)+
  show "has_room n I2" by (rule intern_room[OF w r1 assms(4)])
  show "wf_interner I2" using 2(1) by (simp add: extends_interner_def)
qed

subsection \<open>The mutators\<close>

definition types_ok :: "TypeRelationIndex \<Rightarrow> bool" where
  "types_ok s \<longleftrightarrow> wf_interner (trInterner s) \<and> edges_ok (trInterner s) (bases s)
     \<and> edges_ok (trInterner s) (ctorEdges s) \<and> edges_ok (trInterner s) (convOpEdges s)"

definition types_room :: "nat \<Rightarrow> TypeRelationIndex \<Rightarrow> bool" where
  "types_room n s \<longleftrightarrow> has_room (2 * n) (trInterner s)"

definition base_rel :: "TypeRelationIndex \<Rightarrow> (string \<times> string) set" where
  "base_rel s = edge_rel (trInterner s) (bases s)"

definition ctor_rel :: "TypeRelationIndex \<Rightarrow> (string \<times> string) set" where
  "ctor_rel s = edge_rel (trInterner s) (ctorEdges s)"

definition convop_rel :: "TypeRelationIndex \<Rightarrow> (string \<times> string) set" where
  "convop_rel s = edge_rel (trInterner s) (convOpEdges s)"

definition rels :: "TypeRelationIndex \<Rightarrow> (string \<times> string) set \<times> (string \<times> string) set \<times> (string \<times> string) set" where
  "rels s = (base_rel s, ctor_rel s, convop_rel s)"

lemma types_ok_empty: "types_ok empty_types" "rels empty_types = ({}, {}, {})"
  by (simp_all add: types_ok_def edges_ok_def empty_types_def rels_def base_rel_def ctor_rel_def convop_rel_def edge_rel_def)

lemma addBase_spec:
  assumes "types_ok s" and "types_room (Suc n) s"
  shows "types_ok (addBase d b s) \<and> types_room n (addBase d b s) \<and>
     rels (addBase d b s) = (insert (d, b) (base_rel s), ctor_rel s, convop_rel s)"
proof -
  obtain i I1 where i: "intern d (trInterner s) = (i, I1)" by fastforce
  obtain j I2 where j: "intern b I1 = (j, I2)" by fastforce
  have w: "wf_interner (trInterner s)" using assms(1) by (simp add: types_ok_def)
  have r: "has_room (Suc (Suc (2 * n))) (trInterner s)" using assms(2) by (simp add: types_room_def)
  note I = intern_two[OF w r i j]
  note E = edges_extend[OF I(1)]
  show ?thesis using assms(1) I E edges_upush[OF E(1) I(2,3)] i j
    by (simp add: addBase_def types_ok_def types_room_def rels_def base_rel_def ctor_rel_def convop_rel_def)
qed

lemma addCtorEdge_spec:
  assumes "types_ok s" and "types_room (Suc n) s"
  shows "types_ok (addCtorEdge t f s) \<and> types_room n (addCtorEdge t f s) \<and>
     rels (addCtorEdge t f s) = (base_rel s, insert (t, f) (ctor_rel s), convop_rel s)"
proof -
  obtain i I1 where i: "intern t (trInterner s) = (i, I1)" by fastforce
  obtain j I2 where j: "intern f I1 = (j, I2)" by fastforce
  have w: "wf_interner (trInterner s)" using assms(1) by (simp add: types_ok_def)
  have r: "has_room (Suc (Suc (2 * n))) (trInterner s)" using assms(2) by (simp add: types_room_def)
  note I = intern_two[OF w r i j]
  note E = edges_extend[OF I(1)]
  show ?thesis using assms(1) I E edges_upush[OF E(1) I(2,3)] i j
    by (simp add: addCtorEdge_def types_ok_def types_room_def rels_def base_rel_def ctor_rel_def convop_rel_def)
qed

lemma addConvOpEdge_spec:
  assumes "types_ok s" and "types_room (Suc n) s"
  shows "types_ok (addConvOpEdge f t s) \<and> types_room n (addConvOpEdge f t s) \<and>
     rels (addConvOpEdge f t s) = (base_rel s, ctor_rel s, insert (f, t) (convop_rel s))"
proof -
  obtain i I1 where i: "intern f (trInterner s) = (i, I1)" by fastforce
  obtain j I2 where j: "intern t I1 = (j, I2)" by fastforce
  have w: "wf_interner (trInterner s)" using assms(1) by (simp add: types_ok_def)
  have r: "has_room (Suc (Suc (2 * n))) (trInterner s)" using assms(2) by (simp add: types_room_def)
  note I = intern_two[OF w r i j]
  note E = edges_extend[OF I(1)]
  show ?thesis using assms(1) I E edges_upush[OF E(1) I(2,3)] i j
    by (simp add: addConvOpEdge_def types_ok_def types_room_def rels_def base_rel_def ctor_rel_def convop_rel_def)
qed

lemmas edge_steps =
  addBase_spec[unfolded rels_def] addCtorEdge_spec[unfolded rels_def] addConvOpEdge_spec[unfolded rels_def]

text \<open>The three folds of a merge, once.\<close>

lemma fold_edges:
  assumes step: "\<And>x y s n. types_ok s \<Longrightarrow> types_room (Suc n) s \<Longrightarrow>
      types_ok (f x y s) \<and> types_room n (f x y s) \<and> rels (f x y s) = add (x, y) (rels s)"
    and "types_ok s" and "types_room (length es + n) s"
  shows "types_ok (fold (\<lambda>(x, y). f x y) es s) \<and> types_room n (fold (\<lambda>(x, y). f x y) es s)
     \<and> rels (fold (\<lambda>(x, y). f x y) es s) = fold add es (rels s)"
  using assms(2,3)
proof (induction es arbitrary: s)
  case (Cons e es)
  obtain x y where e: "e = (x, y)" by fastforce
  show ?case using Cons step[of s "length es + n" x y] by (simp add: e)
qed simp

definition edge_total :: "TypeRelationIndex \<Rightarrow> nat" where
  "edge_total s = length (edge_list (trInterner s) (bases s)) + length (edge_list (trInterner s) (ctorEdges s))
     + length (edge_list (trInterner s) (convOpEdges s))"

lemma absorbTypes_spec:
  assumes "types_ok s" and "types_ok other" and "types_room (edge_total other + n) s"
  shows "types_ok (absorbTypes other s)" and "types_room n (absorbTypes other s)"
    and "base_rel (absorbTypes other s) = base_rel s \<union> base_rel other"
    and "ctor_rel (absorbTypes other s) = ctor_rel s \<union> ctor_rel other"
    and "convop_rel (absorbTypes other s) = convop_rel s \<union> convop_rel other"
proof -
  let ?I = "trInterner other"
  let ?b = "edge_list ?I (bases other)" and ?c = "edge_list ?I (ctorEdges other)" and ?v = "edge_list ?I (convOpEdges other)"
  let ?s1 = "fold (\<lambda>(x, y). addBase x y) ?b s"
  let ?s2 = "fold (\<lambda>(x, y). addCtorEdge x y) ?c ?s1"
  have r: "types_room (length ?b + (length ?c + (length ?v + n))) s"
    using assms(3) by (simp add: edge_total_def add.assoc)
  have 1: "types_ok ?s1 \<and> types_room (length ?c + (length ?v + n)) ?s1
      \<and> rels ?s1 = fold (\<lambda>p (x, y, z). (insert p x, y, z)) ?b (rels s)"
    by (rule fold_edges[OF _ assms(1) r]) (simp add: edge_steps rels_def)
  have 2: "types_ok ?s2 \<and> types_room (length ?v + n) ?s2
      \<and> rels ?s2 = fold (\<lambda>p (x, y, z). (x, insert p y, z)) ?c (rels ?s1)"
    by (rule fold_edges[OF _ conjunct1[OF 1] conjunct1[OF conjunct2[OF 1]]]) (simp add: edge_steps rels_def)
  have 3: "types_ok (absorbTypes other s) \<and> types_room n (absorbTypes other s)
      \<and> rels (absorbTypes other s) = fold (\<lambda>p (x, y, z). (x, y, insert p z)) ?v (rels ?s2)"
    unfolding absorbTypes_def forEachBase_def forEachCtorEdge_def forEachConvOpEdge_def forEachEdge_list
    by (rule fold_edges[OF _ conjunct1[OF 2] conjunct1[OF conjunct2[OF 2]]]) (simp add: edge_steps rels_def)
  have f: "fold (\<lambda>p (x, y, z). (insert p x, y, z)) es (B, C, V) = (B \<union> set es, C, V)"
    "fold (\<lambda>p (x, y, z). (x, insert p y, z)) es (B, C, V) = (B, C \<union> set es, V)"
    "fold (\<lambda>p (x, y, z). (x, y, insert p z)) es (B, C, V) = (B, C, V \<union> set es)"
    for es and B C V :: "(string \<times> string) set" by (induction es arbitrary: B C V) auto
  have "rels (absorbTypes other s) = (base_rel s \<union> set ?b, ctor_rel s \<union> set ?c, convop_rel s \<union> set ?v)"
    using conjunct2[OF conjunct2[OF 1]] conjunct2[OF conjunct2[OF 2]] conjunct2[OF conjunct2[OF 3]]
    by (simp only: rels_def f)
  then show "base_rel (absorbTypes other s) = base_rel s \<union> base_rel other"
    "ctor_rel (absorbTypes other s) = ctor_rel s \<union> ctor_rel other"
    "convop_rel (absorbTypes other s) = convop_rel s \<union> convop_rel other"
    using assms(2) by (simp_all add: rels_def types_ok_def set_edge_list base_rel_def ctor_rel_def convop_rel_def)
  show "types_ok (absorbTypes other s)" "types_room n (absorbTypes other s)" using 3 by blast+
qed

subsection \<open>The search\<close>

definition succ_rel :: "(sid, sid list) umap \<Rightarrow> (sid \<times> sid) set" where
  "succ_rel m = {(k, x). x \<in> set (ulist m k)}"

text \<open>A way from a searched id to the target leaves through the stack.\<close>

lemma leave_seen:
  assumes "(c, b) \<in> (succ_rel m)\<^sup>+" and "c \<in> seen"
    and "\<forall>c \<in> seen. b \<notin> set (ulist m c) \<and> set (ulist m c) \<subseteq> seen \<union> S"
  shows "\<exists>d \<in> S - seen. (d, b) \<in> (succ_rel m)\<^sup>+"
  using assms(1,2)
proof (induction rule: converse_trancl_induct)
  case (base c)
  then show ?case using assms(3) by (auto simp: succ_rel_def)
next
  case (step c d)
  then have "d \<in> seen \<union> S" using assms(3) by (auto simp: succ_rel_def)
  then show ?case using step by blast
qed

lemma base_search_spec:
  "\<forall>c \<in> seen. b \<notin> set (ulist m c) \<and> set (ulist m c) \<subseteq> seen \<union> set stack \<Longrightarrow>
     base_search m b stack seen \<longleftrightarrow> (\<exists>c \<in> set stack. (c, b) \<in> (succ_rel m)\<^sup>+)"
proof (induction m b stack seen rule: base_search.induct)
  case (1 m b stack seen)
  show ?case
  proof (cases "stack = []")
    case True
    then show ?thesis by (simp add: base_search.simps)
  next
    case False
    let ?cur = "last stack" and ?rest = "butlast stack"
    have st: "set stack = insert ?cur (set ?rest)"
      using arg_cong[OF append_butlast_last_id[OF False], of set] by simp
    show ?thesis
    proof (cases "?cur \<in> seen")
      case True
      have inv: "\<forall>c \<in> seen. b \<notin> set (ulist m c) \<and> set (ulist m c) \<subseteq> seen \<union> set ?rest"
      proof -
        have "seen \<union> set stack = seen \<union> set ?rest" unfolding st using True by (simp add: insert_absorb)
        then show ?thesis using 1(4) by simp
      qed
      have "\<exists>d \<in> set ?rest. (d, b) \<in> (succ_rel m)\<^sup>+" if "(?cur, b) \<in> (succ_rel m)\<^sup>+"
        using leave_seen[OF that True inv] by blast
      then show ?thesis using 1(1)[OF False refl refl True inv] False True
        by (subst base_search.simps) (auto simp: Let_def st)
    next
      case new: False
      have up: "(?cur, b) \<in> (succ_rel m)\<^sup>+ \<longleftrightarrow> b \<in> set (ulist m ?cur) \<or> (\<exists>d \<in> set (ulist m ?cur). (d, b) \<in> (succ_rel m)\<^sup>+)"
        by (subst trancl_unfold_left) (auto simp: succ_rel_def rtrancl_eq_or_trancl)
      show ?thesis
      proof (cases "map_of m ?cur")
        case None
        then have e: "ulist m ?cur = []" by (rule ulist_None)
        have inv: "\<forall>c \<in> insert ?cur seen. b \<notin> set (ulist m c) \<and> set (ulist m c) \<subseteq> insert ?cur seen \<union> set ?rest"
          using 1(4) e st by fastforce
        show ?thesis using 1(2)[OF False refl refl new None inv] False new None up e
          by (subst base_search.simps) (auto simp: Let_def st)
      next
        case (Some v)
        then have e: "ulist m ?cur = v" by (rule ulist_Some)
        show ?thesis
        proof (cases "b \<in> set v")
          case True
          then show ?thesis using False new Some up e by (subst base_search.simps) (auto simp: Let_def st)
        next
          case no: False
          have inv: "\<forall>c \<in> insert ?cur seen. b \<notin> set (ulist m c) \<and> set (ulist m c) \<subseteq> insert ?cur seen \<union> set (?rest @ v)"
            using 1(4) e st no by fastforce
          show ?thesis using 1(3)[OF False refl refl new Some no inv] False new Some no up e
            by (subst base_search.simps) (auto simp: Let_def st)
        qed
      qed
    qed
  qed
qed

text \<open>Ids and strings describe the same paths.\<close>

lemma succ_trancl_iff:
  assumes "wf_interner I" and "edges_ok I m" and "valid_id I i" and "valid_id I j"
  shows "(i, j) \<in> (succ_rel m)\<^sup>+ \<longleftrightarrow> (resolve I i, resolve I j) \<in> (edge_rel I m)\<^sup>+"
proof
  assume "(i, j) \<in> (succ_rel m)\<^sup>+"
  then show "(resolve I i, resolve I j) \<in> (edge_rel I m)\<^sup>+"
  proof (induction rule: trancl_induct)
    case (base k)
    then show ?case by (auto simp: succ_rel_def edge_rel_def)
  next
    case (step k l)
    then have "(resolve I k, resolve I l) \<in> edge_rel I m" by (auto simp: succ_rel_def edge_rel_def)
    with step.IH show ?case by (rule trancl_into_trancl)
  qed
next
  assume "(resolve I i, resolve I j) \<in> (edge_rel I m)\<^sup>+"
  then have "\<exists>l. resolve I l = resolve I j \<and> valid_id I l \<and> (i, l) \<in> (succ_rel m)\<^sup>+"
  proof (induction rule: trancl_induct)
    case (base t)
    then obtain k x where x: "x \<in> set (ulist m k)" "resolve I k = resolve I i" "t = resolve I x"
      by (auto simp: edge_rel_def)
    then have "valid_id I k" "valid_id I x" using assms(2) by (auto simp: edges_ok_def)
    then have "k = i" using resolve_inj[OF assms(1) _ assms(3)] x(2) by blast
    then show ?case using x \<open>valid_id I x\<close> by (auto simp: succ_rel_def)
  next
    case (step t u)
    from step.IH obtain l where l: "resolve I l = t" "valid_id I l" "(i, l) \<in> (succ_rel m)\<^sup>+" by blast
    from step.hyps(2) obtain k x where x: "x \<in> set (ulist m k)" "resolve I k = t" "u = resolve I x"
      by (auto simp: edge_rel_def)
    then have v: "valid_id I k" "valid_id I x" using assms(2) by (auto simp: edges_ok_def)
    then have "k = l" using resolve_inj[OF assms(1) v(1) l(2)] x(2) l(1) by simp
    then have "(l, x) \<in> succ_rel m" using x(1) by (simp add: succ_rel_def)
    with l(3) have "(i, x) \<in> (succ_rel m)\<^sup>+" by (rule trancl_into_trancl)
    then show ?case using x(3) v(2) by blast
  qed
  then obtain l where "resolve I l = resolve I j" "valid_id I l" "(i, l) \<in> (succ_rel m)\<^sup>+" by blast
  moreover have "l = j" using resolve_inj[OF assms(1) \<open>valid_id I l\<close> assms(4)] calculation(1) by blast
  ultimately show "(i, j) \<in> (succ_rel m)\<^sup>+" by simp
qed

lemma edge_rel_known:
  assumes "wf_interner I" and "edges_ok I m" and "(a, b) \<in> (edge_rel I m)\<^sup>+"
  shows "find_id I a \<noteq> None" and "find_id I b \<noteq> None"
proof -
  have e: "find_id I x \<noteq> None \<and> find_id I y \<noteq> None" if "(x, y) \<in> edge_rel I m" for x y
    using that assms(1,2) by (auto simp: edge_rel_def edges_ok_def)
  obtain c where "(a, c) \<in> edge_rel I m" using assms(3) by (blast dest: tranclD)
  then show "find_id I a \<noteq> None" using e by blast
  obtain d where "(d, b) \<in> edge_rel I m" using assms(3) by (blast dest: tranclD2)
  then show "find_id I b \<noteq> None" using e by blast
qed

lemma isBaseOrSelf_spec:
  assumes "types_ok s"
  shows "isBaseOrSelf s d b \<longleftrightarrow> (d, b) \<in> (base_rel s)\<^sup>*"
proof (cases "d = b")
  case False
  have w: "wf_interner (trInterner s)" "edges_ok (trInterner s) (bases s)" using assms by (simp_all add: types_ok_def)
  have r: "(d, b) \<in> (base_rel s)\<^sup>* \<longleftrightarrow> (d, b) \<in> (base_rel s)\<^sup>+" using False by (simp add: rtrancl_eq_or_trancl)
  show ?thesis
  proof (cases "find_id (trInterner s) d = None \<or> find_id (trInterner s) b = None")
    case True
    then have "(d, b) \<notin> (base_rel s)\<^sup>+" using edge_rel_known[OF w, of d b] unfolding base_rel_def by blast
    then show ?thesis using True False r by (auto simp: isBaseOrSelf_def split: option.split)
  next
    case known: False
    then obtain i j where ij: "find_id (trInterner s) d = Some i" "find_id (trInterner s) b = Some j" by auto
    then have v: "valid_id (trInterner s) i" "valid_id (trInterner s) j" "resolve (trInterner s) i = d" "resolve (trInterner s) j = b"
      using w(1) by (auto simp: find_id_iff)
    have "isBaseOrSelf s d b \<longleftrightarrow> (i, j) \<in> (succ_rel (bases s))\<^sup>+"
      using False ij base_search_spec[of "{}" j "bases s" "[i]"] by (simp add: isBaseOrSelf_def)
    then show ?thesis using succ_trancl_iff[OF w v(1,2)] v(3,4) r by (simp add: base_rel_def)
  qed
qed (simp add: isBaseOrSelf_def)

lemma edge_listed_spec:
  assumes "wf_interner I" and "edges_ok I m"
  shows "edge_listed I m a b \<longleftrightarrow> (a, b) \<in> edge_rel I m"
proof
  assume "edge_listed I m a b"
  then obtain k v i where "find_id I a = Some k" "map_of m k = Some v" "find_id I b = Some i" "i \<in> set v"
    by (auto simp: edge_listed_def split: option.splits)
  then have "i \<in> set (ulist m k)" "resolve I k = a" "resolve I i = b"
    using assms(1) by (auto simp: ulist_Some find_id_iff)
  then show "(a, b) \<in> edge_rel I m" by (auto simp: edge_rel_def)
next
  assume "(a, b) \<in> edge_rel I m"
  then obtain k x where x: "x \<in> set (ulist m k)" "a = resolve I k" "b = resolve I x" by (auto simp: edge_rel_def)
  then have v: "valid_id I k" "valid_id I x" using assms(2) by (auto simp: edges_ok_def)
  obtain v where "map_of m k = Some v" using x(1) by (cases "map_of m k") (auto simp: ulist_None)
  then show "edge_listed I m a b" using x v assms(1) by (simp add: edge_listed_def ulist_Some)
qed

lemma isConvertible_spec:
  assumes "types_ok s"
  shows "isConvertible s f t \<longleftrightarrow>
     f = t \<or> isArithmeticTypeName f \<and> isArithmeticTypeName t
     \<or> (stripPointer f = f \<longleftrightarrow> stripPointer t = t) \<and> (stripPointer f, stripPointer t) \<in> (base_rel s)\<^sup>*
     \<or> (t, f) \<in> ctor_rel s \<or> (f, t) \<in> convop_rel s"
proof -
  have e: "edge_listed (trInterner s) (ctorEdges s) t f \<longleftrightarrow> (t, f) \<in> ctor_rel s"
    "edge_listed (trInterner s) (convOpEdges s) f t \<longleftrightarrow> (f, t) \<in> convop_rel s"
    using assms by (simp_all add: types_ok_def edge_listed_spec ctor_rel_def convop_rel_def)
  show ?thesis unfolding isConvertible_def e isBaseOrSelf_spec[OF assms] Let_def by auto
qed

end
