(* ===== verification/GlobalIndexSpec.thy ===== *)
theory GlobalIndexSpec
  imports GlobalIndex TypeRelationsSpec
begin

text \<open>
  What the global index promises: \<open>Answers\<close> is its abstract state, the functions from names to
  entries and the lists of distinct sites that the queries show, \<open>spec_step\<close> says what one
  registration does to them, and \<open>register_refines\<close> that every mutator implements it.
\<close>

subsection \<open>Registrations and answers\<close>

datatype Registration =
    ROverload FunctionOverloadEntry
  | RGuide DeductionGuideEntry
  | RCoverage CoveragePropertyEntry
  | ROdr OdrEntry
  | RSpecialization SpecializationEntry
  | RDefaultArg DefaultArgEntry
  | RStaticInit StaticInitEntry
  | RSummary FunctionSummaryEntry
  | RHeaderStatic HeaderStaticEntry
  | RExceptionSpec ExceptionSpecEntry
  | RBase string string
  | RCtorEdge string string
  | RConvOpEdge string string

definition on_types :: "(TypeRelationIndex \<Rightarrow> TypeRelationIndex) \<Rightarrow> GlobalIndex \<Rightarrow> GlobalIndex" where
  "on_types f g = g\<lparr>giTypes := f (giTypes g)\<rparr>"

primrec register_entry :: "Registration \<Rightarrow> GlobalIndex \<Rightarrow> GlobalIndex" where
  "register_entry (ROverload e) = addFunctionOverload e"
| "register_entry (RGuide e) = addDeductionGuide e"
| "register_entry (RCoverage e) = addCoverageProperty e"
| "register_entry (ROdr e) = addOdrEntry e"
| "register_entry (RSpecialization e) = addSpecialization e"
| "register_entry (RDefaultArg e) = addDefaultArg e"
| "register_entry (RStaticInit e) = addStaticInit e"
| "register_entry (RSummary e) = addFunctionSummary e"
| "register_entry (RHeaderStatic e) = addHeaderStatic e"
| "register_entry (RExceptionSpec e) = addExceptionSpec e"
| "register_entry (RBase d b) = on_types (addBase d b)"
| "register_entry (RCtorEdge t f) = on_types (addCtorEdge t f)"
| "register_entry (RConvOpEdge f t) = on_types (addConvOpEdge f t)"

record Answers =
  anOverloads :: "string \<Rightarrow> FunctionOverloadEntry list"
  anGuides :: "string \<Rightarrow> DeductionGuideEntry list"
  anMethods :: "string \<Rightarrow> CoveragePropertyEntry list"
  anSpecializations :: "string \<Rightarrow> SpecializationEntry list"
  anOdr :: "OdrEntry list"
  anDefaultArgs :: "DefaultArgEntry list"
  anStaticInits :: "StaticInitEntry list"
  anExceptionSpecs :: "ExceptionSpecEntry list"
  anSummaries :: "string \<Rightarrow> FunctionSummaryEntry option"
  anHeaderStatics :: "string \<Rightarrow> HeaderStaticEntry option"
  anBases :: "(string \<times> string) set"
  anCtors :: "(string \<times> string) set"
  anConvOps :: "(string \<times> string) set"

definition header_static_at :: "GlobalIndex \<Rightarrow> string \<Rightarrow> HeaderStaticEntry option" where
  "header_static_at g site = List.find (\<lambda>e. headerStaticKey e = site) (headerStatics g)"

definition answers :: "GlobalIndex \<Rightarrow> Answers" where
  "answers g =
     \<lparr>anOverloads = findOverloads g, anGuides = findDeductionGuides g, anMethods = findClassMethods g,
      anSpecializations = findSpecializations g, anOdr = odrEntries g, anDefaultArgs = defaultArgs g,
      anStaticInits = staticInits g, anExceptionSpecs = exceptionSpecs g,
      anSummaries = findFunctionSummary g, anHeaderStatics = header_static_at g,
      anBases = base_rel (giTypes g), anCtors = ctor_rel (giTypes g), anConvOps = convop_rel (giTypes g)\<rparr>"

definition add_new :: "('e \<Rightarrow> 'k) \<Rightarrow> 'e \<Rightarrow> 'e list \<Rightarrow> 'e list" where
  \<comment> \<open>append unless an entry with the same key is there\<close>
  "add_new key e es = (if key e \<in> key ` set es then es else es @ [e])"

definition specialization_key :: "SpecializationEntry \<Rightarrow> string \<times> string \<times> 32 word" where
  "specialization_key e = (spArgs e, spHeader e, spLine e)"

definition merge_opt :: "('e \<Rightarrow> 'e \<Rightarrow> 'e) \<Rightarrow> 'e option \<Rightarrow> 'e \<Rightarrow> 'e option" where
  "merge_opt f old e = Some (case old of None \<Rightarrow> e | Some x \<Rightarrow> f x e)"

definition merge_header_static :: "HeaderStaticEntry \<Rightarrow> HeaderStaticEntry \<Rightarrow> HeaderStaticEntry" where
  "merge_header_static x e = x\<lparr>hsTus := merge_names (hsTus x) (hsTus e)\<rparr>"

primrec spec_step :: "Registration \<Rightarrow> Answers \<Rightarrow> Answers" where
  "spec_step (ROverload e) A = A\<lparr>anOverloads := (anOverloads A)(foName e := anOverloads A (foName e) @ [e])\<rparr>"
| "spec_step (RGuide e) A = A\<lparr>anGuides := (anGuides A)(gdTemplate e := anGuides A (gdTemplate e) @ [e])\<rparr>"
| "spec_step (RCoverage e) A = A\<lparr>anMethods := (anMethods A)(cpClass e := anMethods A (cpClass e) @ [e])\<rparr>"
| "spec_step (ROdr e) A = A\<lparr>anOdr := add_new odrKey e (anOdr A)\<rparr>"
| "spec_step (RSpecialization e) A = A\<lparr>anSpecializations :=
     (anSpecializations A)(spTemplate e := add_new specialization_key e (anSpecializations A (spTemplate e)))\<rparr>"
| "spec_step (RDefaultArg e) A = A\<lparr>anDefaultArgs := add_new defaultArgKey e (anDefaultArgs A)\<rparr>"
| "spec_step (RStaticInit e) A = A\<lparr>anStaticInits := add_new staticInitKey e (anStaticInits A)\<rparr>"
| "spec_step (RSummary e) A = A\<lparr>anSummaries :=
     (anSummaries A)(fsName e := merge_opt merge_summary (anSummaries A (fsName e)) e)\<rparr>"
| "spec_step (RHeaderStatic e) A = A\<lparr>anHeaderStatics :=
     (anHeaderStatics A)(headerStaticKey e := merge_opt merge_header_static (anHeaderStatics A (headerStaticKey e)) e)\<rparr>"
| "spec_step (RExceptionSpec e) A = A\<lparr>anExceptionSpecs := add_new exceptionSpecKey e (anExceptionSpecs A)\<rparr>"
| "spec_step (RBase d b) A = A\<lparr>anBases := insert (d, b) (anBases A)\<rparr>"
| "spec_step (RCtorEdge t f) A = A\<lparr>anCtors := insert (t, f) (anCtors A)\<rparr>"
| "spec_step (RConvOpEdge f t) A = A\<lparr>anConvOps := insert (f, t) (anConvOps A)\<rparr>"

subsection \<open>Keyed vectors\<close>

definition keyed_ok :: "interner \<Rightarrow> ('e \<Rightarrow> string) \<Rightarrow> (sid, 'e list) umap \<Rightarrow> bool" where
  "keyed_ok I name m \<longleftrightarrow> distinct (ukeys m) \<and>
     (\<forall>k. map_of m k \<noteq> None \<longrightarrow> valid_id I k) \<and> (\<forall>k. \<forall>e \<in> set (ulist m k). name e = resolve I k)"

lemma find_by_name_ulist:
  "find_by_name I m n = (case find_id I n of None \<Rightarrow> [] | Some i \<Rightarrow> ulist m i)"
  by (simp add: find_by_name_def ulist_def split: option.split)

lemma keyed_extend:
  assumes "extends_interner I J" and "keyed_ok I name m"
  shows "keyed_ok J name m" and "find_by_name J m = find_by_name I m"
proof -
  have d: "valid_id I k" if "e \<in> set (ulist m k)" for k e
    using that assms(2) by (cases "map_of m k") (auto simp: keyed_ok_def ulist_None)
  show "keyed_ok J name m" unfolding keyed_ok_def
  proof (intro conjI allI impI ballI)
    show "distinct (ukeys m)" using assms(2) by (simp add: keyed_ok_def)
    show "valid_id J k" if "map_of m k \<noteq> None" for k
      using that assms(2) extends_interner_facts(1)[OF assms(1)] unfolding keyed_ok_def by blast
    show "name e = resolve J k" if "e \<in> set (ulist m k)" for k e
      using that d assms(2) extends_interner_facts(2)[OF assms(1)] by (simp add: keyed_ok_def)
  qed
  show "find_by_name J m = find_by_name I m"
  proof
    fix n
    show "find_by_name J m n = find_by_name I m n"
    proof (cases "find_id I n")
      case None
      have "ulist m i = []" if "find_id J n = Some i" for i
      proof (rule ccontr)
        assume "ulist m i \<noteq> []"
        then have v: "valid_id I i" using d[of "hd (ulist m i)" i] by simp
        then have "resolve J i = resolve I i" using assms(1) by (auto dest: extends_interner_facts)
        moreover have "resolve J i = n" using that assms(1) by (simp add: extends_interner_def find_id_iff)
        ultimately have "find_id I n = Some i" using v assms(1) by (auto simp: extends_interner_def)
        with None show False by simp
      qed
      then show ?thesis using None by (simp add: find_by_name_ulist split: option.split)
    next
      case (Some i)
      then show ?thesis using extends_interner_facts(3)[OF assms(1), of n i] by (simp add: find_by_name_ulist)
    qed
  qed
qed

lemma keyed_update:
  assumes "wf_interner I" and "keyed_ok I name m" and "find_id I s = Some k" and "\<forall>e \<in> set v. name e = s"
  shows "keyed_ok I name (AList.update k v m)" and "find_by_name I (AList.update k v m) = (find_by_name I m)(s := v)"
proof -
  have k: "valid_id I k" "resolve I k = s" using assms(1,3) by (simp_all add: find_id_iff)
  show "keyed_ok I name (AList.update k v m)"
    using assms(2,4) k by (simp add: keyed_ok_def map_of_update ulist_update)
  show "find_by_name I (AList.update k v m) = (find_by_name I m)(s := v)"
  proof
    fix n
    show "find_by_name I (AList.update k v m) n = ((find_by_name I m)(s := v)) n"
    proof (cases "find_id I n")
      case None
      then show ?thesis using assms(3) by (auto simp: find_by_name_ulist)
    next
      case (Some i)
      have "i = k \<longleftrightarrow> n = s" using Some assms(1,3) resolve_inj[OF assms(1), of i k] by (auto simp: find_id_iff)
      then show ?thesis using Some by (simp add: find_by_name_ulist ulist_update)
    qed
  qed
qed

lemma keyed_names: "wf_interner I \<Longrightarrow> keyed_ok I name m \<Longrightarrow> e \<in> set (find_by_name I m n) \<Longrightarrow> name e = n"
  by (cases "find_id I n") (simp_all add: keyed_ok_def find_by_name_ulist find_id_iff)

text \<open>Interning a name and updating its vector, the shape of the four keyed mutators.\<close>

lemma keyed_add:
  assumes "wf_interner I" and "has_room (Suc n) I" and "intern s I = (k, J)" and "keyed_ok I name m"
    and "\<forall>e \<in> set (f (find_by_name I m s)). name e = s"
  shows "extends_interner I J" and "has_room n J"
    and "keyed_ok J name (AList.update k (f (ulist m k)) m)"
    and "find_by_name J (AList.update k (f (ulist m k)) m) = (find_by_name I m)(s := f (find_by_name I m s))"
proof -
  have r: "has_room 1 I" using assms(2) by (rule has_room_mono) simp
  note E = extends_intern[OF assms(1) r assms(3)]
  show x: "extends_interner I J" by (rule E(1))
  then have w: "wf_interner J" by (simp add: extends_interner_def)
  note X = keyed_extend[OF x assms(4)]
  have u: "ulist m k = find_by_name I m s" using X(2) E(4) by (metis find_by_name_ulist option.simps(5))
  show "has_room n J" by (rule intern_room[OF assms(1,2,3)])
  have a: "\<forall>e \<in> set (f (ulist m k)). name e = s" using assms(5) u by simp
  show "keyed_ok J name (AList.update k (f (ulist m k)) m)" by (rule keyed_update(1)[OF w X(1) E(4) a])
  show "find_by_name J (AList.update k (f (ulist m k)) m) = (find_by_name I m)(s := f (find_by_name I m s))"
    using keyed_update(2)[OF w X(1) E(4) a] X(2) u by simp
qed

subsection \<open>Vectors with an index by key\<close>

definition positions_ok :: "('e \<Rightarrow> string) \<Rightarrow> 'e list \<Rightarrow> (string, nat) umap \<Rightarrow> bool" where
  "positions_ok key es m \<longleftrightarrow> (\<forall>k i. map_of m k = Some i \<longleftrightarrow> i < length es \<and> key (es ! i) = k)"

lemma positions_find:
  assumes "positions_ok key es m"
  shows "List.find (\<lambda>e. key e = k) es = map_option (\<lambda>i. es ! i) (map_of m k)"
proof (cases "map_of m k")
  case None
  then have "\<forall>i < length es. key (es ! i) \<noteq> k" using assms by (auto simp: positions_ok_def) (metis option.distinct(1))
  then show ?thesis using None by (auto simp: find_None_iff in_set_conv_nth)
next
  case (Some i)
  then have i: "i < length es" "key (es ! i) = k" using assms by (simp_all add: positions_ok_def)
  have "key (es ! j) \<noteq> k" if "j < i" for j
    using that i assms Some by (auto simp: positions_ok_def) (metis less_trans nat_neq_iff option.inject)
  then have "List.find (\<lambda>e. key e = k) es = Some (es ! i)"
    unfolding find_Some_iff using i by (intro exI[of _ i]) (auto simp: nat_neq_iff)
  then show ?thesis using Some by simp
qed

lemma positions_unique:
  "positions_ok key es m \<Longrightarrow> i < length es \<Longrightarrow> j < length es \<Longrightarrow> key (es ! i) = key (es ! j) \<longleftrightarrow> i = j"
  unfolding positions_ok_def by (metis option.inject)

lemma positions_append:
  assumes "positions_ok key es m" and "map_of m (key e) = None"
  shows "positions_ok key (es @ [e]) (uemplace (key e) (length es) m)"
  unfolding positions_ok_def
proof (intro allI)
  fix k i
  have old: "map_of m k = Some i \<longleftrightarrow> i < length es \<and> key (es ! i) = k" for k i
    using assms(1) by (simp add: positions_ok_def)
  have "key (es ! i) \<noteq> key e" if "i < length es" using old[of "key e" i] that assms(2) by simp
  then show "map_of (uemplace (key e) (length es) m) k = Some i \<longleftrightarrow>
      i < length (es @ [e]) \<and> key ((es @ [e]) ! i) = k"
    using assms(2) by (cases "k = key e") (auto simp: umap_simps old nth_append less_Suc_eq)
qed

lemma positions_replace:
  assumes "positions_ok key es m" and "map_of m k = Some i" and "key e = k"
  shows "positions_ok key (es[i := e]) m"
    and "List.find (\<lambda>e. key e = k') (es[i := e]) = (if k' = k then Some e else List.find (\<lambda>e. key e = k') es)"
proof -
  have old: "map_of m k = Some i \<longleftrightarrow> i < length es \<and> key (es ! i) = k" for k i
    using assms(1) by (simp add: positions_ok_def)
  have i: "i < length es" "key (es ! i) = k" using assms(2) by (simp_all add: old)
  show ok: "positions_ok key (es[i := e]) m" unfolding positions_ok_def
  proof (intro allI)
    fix k' j
    show "map_of m k' = Some j \<longleftrightarrow> j < length (es[i := e]) \<and> key (es[i := e] ! j) = k'"
      using assms(3) i by (cases "j = i") (simp_all add: old)
  qed
  have j: "j = i \<longleftrightarrow> k' = k" if "map_of m k' = Some j" for j
    using that i positions_unique[OF assms(1), of i j] by (auto simp: old)
  show "List.find (\<lambda>e. key e = k') (es[i := e]) = (if k' = k then Some e else List.find (\<lambda>e. key e = k') es)"
  proof (cases "map_of m k'")
    case None
    then show ?thesis using assms(2) unfolding positions_find[OF ok] positions_find[OF assms(1)] by auto
  next
    case (Some j)
    then show ?thesis using j[OF Some] i(1) unfolding positions_find[OF ok] positions_find[OF assms(1)]
      by (cases "j = i") simp_all
  qed
qed

subsection \<open>The invariant and the refinement\<close>

definition gi_names_ok :: "GlobalIndex \<Rightarrow> bool" where
  "gi_names_ok g \<longleftrightarrow> wf_interner (giInterner g)
     \<and> keyed_ok (giInterner g) foName (overloads g) \<and> keyed_ok (giInterner g) gdTemplate (guides g)
     \<and> keyed_ok (giInterner g) cpClass (coverageProps g)
     \<and> keyed_ok (giInterner g) spTemplate (specializations g)"

definition gi_keys_ok :: "GlobalIndex \<Rightarrow> bool" where
  "gi_keys_ok g \<longleftrightarrow> odrKeys g = odrKey ` set (odrEntries g)
     \<and> defaultArgKeys g = defaultArgKey ` set (defaultArgs g)
     \<and> exceptionSpecKeys g = exceptionSpecKey ` set (exceptionSpecs g)
     \<and> staticInitKeys g = staticInitKey ` set (staticInits g)"

definition first_positions :: "GlobalIndex \<Rightarrow> bool" where
  \<comment> \<open>\<open>staticInitByName_\<close> points at the first entry of each name\<close>
  "first_positions g \<longleftrightarrow>
     (\<forall>n. (\<forall>i. map_of (staticInitByName g) n = Some i \<longrightarrow> i < length (staticInits g))
        \<and> findStaticInit g n = List.find (\<lambda>e. siName e = n) (staticInits g))"

definition gi_positions_ok :: "GlobalIndex \<Rightarrow> bool" where
  "gi_positions_ok g \<longleftrightarrow> positions_ok fsName (functionSummaries g) (functionSummaryByName g)
     \<and> positions_ok headerStaticKey (headerStatics g) (headerStaticBySite g) \<and> first_positions g"

definition gi_ok :: "nat \<Rightarrow> GlobalIndex \<Rightarrow> bool" where
  \<comment> \<open>well formed, with room for \<open>n\<close> more registrations\<close>
  "gi_ok n g \<longleftrightarrow> gi_names_ok g \<and> gi_keys_ok g \<and> gi_positions_ok g \<and> types_ok (giTypes g)
     \<and> has_room n (giInterner g) \<and> types_room n (giTypes g)"

lemmas gi_parts = gi_names_ok_def gi_keys_ok_def gi_positions_ok_def first_positions_def

definition empty_answers :: Answers where
  "empty_answers =
     \<lparr>anOverloads = \<lambda>_. [], anGuides = \<lambda>_. [], anMethods = \<lambda>_. [], anSpecializations = \<lambda>_. [], anOdr = [],
      anDefaultArgs = [], anStaticInits = [], anExceptionSpecs = [], anSummaries = \<lambda>_. None,
      anHeaderStatics = \<lambda>_. None, anBases = {}, anCtors = {}, anConvOps = {}\<rparr>"

lemma gi_ok_empty: "n \<le> 2 ^ 31 \<Longrightarrow> gi_ok n empty_global"
  using types_ok_empty
  by (simp add: gi_ok_def gi_parts keyed_ok_def positions_ok_def findStaticInit_def empty_global_def has_room_def
      types_room_def empty_interner_def wf_interner_def empty_types_def)

lemma answers_empty: "answers empty_global = empty_answers"
  using types_ok_empty(2)
  by (simp add: answers_def empty_answers_def fun_eq_iff empty_global_def findOverloads_def findDeductionGuides_def
      findClassMethods_def findSpecializations_def find_by_name_def find_id_def empty_interner_def
      findFunctionSummary_def header_static_at_def rels_def)

lemma gi_ok_mono: "gi_ok n g \<Longrightarrow> m \<le> n \<Longrightarrow> gi_ok m g"
  by (auto simp: gi_ok_def types_room_def intro: has_room_mono)

text \<open>The four keyed mutators.\<close>

lemma gi_room: "gi_ok (Suc n) g \<Longrightarrow> has_room n (giInterner g) \<and> types_room n (giTypes g)"
  by (auto simp: gi_ok_def types_room_def intro: has_room_mono)

lemma names_extend:
  assumes "extends_interner (giInterner g) J" and "gi_names_ok g"
  shows "wf_interner J \<and> keyed_ok J foName (overloads g) \<and> keyed_ok J gdTemplate (guides g)
      \<and> keyed_ok J cpClass (coverageProps g) \<and> keyed_ok J spTemplate (specializations g)
      \<and> find_by_name J (overloads g) = find_by_name (giInterner g) (overloads g)
      \<and> find_by_name J (guides g) = find_by_name (giInterner g) (guides g)
      \<and> find_by_name J (coverageProps g) = find_by_name (giInterner g) (coverageProps g)
      \<and> find_by_name J (specializations g) = find_by_name (giInterner g) (specializations g)"
  using assms keyed_extend[OF assms(1), of foName "overloads g"] keyed_extend[OF assms(1), of gdTemplate "guides g"]
    keyed_extend[OF assms(1), of cpClass "coverageProps g"] keyed_extend[OF assms(1), of spTemplate "specializations g"]
  by (simp add: gi_names_ok_def extends_interner_def)

lemma query_funs:
  "findOverloads g = find_by_name (giInterner g) (overloads g)"
  "findDeductionGuides g = find_by_name (giInterner g) (guides g)"
  "findClassMethods g = find_by_name (giInterner g) (coverageProps g)"
  "findSpecializations g = find_by_name (giInterner g) (specializations g)"
  "findFunctionSummary g = (\<lambda>n. map_option (\<lambda>i. functionSummaries g ! i) (map_of (functionSummaryByName g) n))"
  "header_static_at g = (\<lambda>site. List.find (\<lambda>e. headerStaticKey e = site) (headerStatics g))"
  by (rule ext, simp add: findOverloads_def findDeductionGuides_def findClassMethods_def findSpecializations_def
      findFunctionSummary_def header_static_at_def)+

lemmas query_defs = answers_def query_funs findStaticInit_def

lemma addFunctionOverload_refines:
  assumes "gi_ok (Suc n) g"
  shows "gi_ok n (addFunctionOverload e g) \<and> answers (addFunctionOverload e g) = spec_step (ROverload e) (answers g)"
proof -
  obtain k J where i: "intern (foName e) (giInterner g) = (k, J)" by fastforce
  have g: "wf_interner (giInterner g)" "has_room (Suc n) (giInterner g)" "keyed_ok (giInterner g) foName (overloads g)"
    "gi_names_ok g" using assms by (simp_all add: gi_ok_def gi_names_ok_def)
  have a: "\<forall>x \<in> set ((\<lambda>v. v @ [e]) (find_by_name (giInterner g) (overloads g) (foName e))). foName x = foName e"
    using keyed_names[OF g(1,3)] by auto
  note K = keyed_add[where f = "\<lambda>v. v @ [e]", OF g(1,2) i g(3) a]
  show ?thesis using assms K(2-) names_extend[OF K(1) g(4)] i gi_room[OF assms]
    by (simp add: addFunctionOverload_def gi_ok_def gi_parts query_defs upush_def)
qed

lemma addDeductionGuide_refines:
  assumes "gi_ok (Suc n) g"
  shows "gi_ok n (addDeductionGuide e g) \<and> answers (addDeductionGuide e g) = spec_step (RGuide e) (answers g)"
proof -
  obtain k J where i: "intern (gdTemplate e) (giInterner g) = (k, J)" by fastforce
  have g: "wf_interner (giInterner g)" "has_room (Suc n) (giInterner g)" "keyed_ok (giInterner g) gdTemplate (guides g)"
    "gi_names_ok g" using assms by (simp_all add: gi_ok_def gi_names_ok_def)
  have a: "\<forall>x \<in> set ((\<lambda>v. v @ [e]) (find_by_name (giInterner g) (guides g) (gdTemplate e))). gdTemplate x = gdTemplate e"
    using keyed_names[OF g(1,3)] by auto
  note K = keyed_add[where f = "\<lambda>v. v @ [e]", OF g(1,2) i g(3) a]
  show ?thesis using assms K(2-) names_extend[OF K(1) g(4)] i gi_room[OF assms]
    by (simp add: addDeductionGuide_def gi_ok_def gi_parts query_defs upush_def)
qed

lemma addCoverageProperty_refines:
  assumes "gi_ok (Suc n) g"
  shows "gi_ok n (addCoverageProperty e g) \<and> answers (addCoverageProperty e g) = spec_step (RCoverage e) (answers g)"
proof -
  obtain k J where i: "intern (cpClass e) (giInterner g) = (k, J)" by fastforce
  have g: "wf_interner (giInterner g)" "has_room (Suc n) (giInterner g)" "keyed_ok (giInterner g) cpClass (coverageProps g)"
    "gi_names_ok g" using assms by (simp_all add: gi_ok_def gi_names_ok_def)
  have a: "\<forall>x \<in> set ((\<lambda>v. v @ [e]) (find_by_name (giInterner g) (coverageProps g) (cpClass e))). cpClass x = cpClass e"
    using keyed_names[OF g(1,3)] by auto
  note K = keyed_add[where f = "\<lambda>v. v @ [e]", OF g(1,2) i g(3) a]
  show ?thesis using assms K(2-) names_extend[OF K(1) g(4)] i gi_room[OF assms]
    by (simp add: addCoverageProperty_def gi_ok_def gi_parts query_defs upush_def)
qed

lemma addSpecialization_add_new:
  "addSpecialization e g =
     (let (key, I) = intern (spTemplate e) (giInterner g)
      in g\<lparr>giInterner := I, specializations :=
           AList.update key (add_new specialization_key e (ulist (specializations g) key)) (specializations g)\<rparr>)"
proof -
  have "list_ex (same_specialization e) v \<longleftrightarrow> specialization_key e \<in> specialization_key ` set v" for v
    by (induction v) (auto simp: same_specialization_def specialization_key_def)
  then show ?thesis by (simp add: addSpecialization_def add_new_def Let_def)
qed

lemma addSpecialization_refines:
  assumes "gi_ok (Suc n) g"
  shows "gi_ok n (addSpecialization e g) \<and> answers (addSpecialization e g) = spec_step (RSpecialization e) (answers g)"
proof -
  obtain k J where i: "intern (spTemplate e) (giInterner g) = (k, J)" by fastforce
  have g: "wf_interner (giInterner g)" "has_room (Suc n) (giInterner g)" "keyed_ok (giInterner g) spTemplate (specializations g)"
    "gi_names_ok g" using assms by (simp_all add: gi_ok_def gi_names_ok_def)
  have a: "\<forall>x \<in> set (add_new specialization_key e (find_by_name (giInterner g) (specializations g) (spTemplate e))). spTemplate x = spTemplate e"
    using keyed_names[OF g(1,3)] by (auto simp: add_new_def)
  note K = keyed_add[where f = "add_new specialization_key e", OF g(1,2) i g(3) a]
  show ?thesis using assms K(2-) names_extend[OF K(1) g(4)] i gi_room[OF assms]
    by (simp add: addSpecialization_add_new gi_ok_def gi_parts query_defs upush_def)
qed

text \<open>The vectors deduplicated by a content key.\<close>

lemma dedup_refines:
  assumes "gi_ok (Suc n) g"
  shows "gi_ok n (addOdrEntry o1 g) \<and> answers (addOdrEntry o1 g) = spec_step (ROdr o1) (answers g)"
    and "gi_ok n (addDefaultArg d g) \<and> answers (addDefaultArg d g) = spec_step (RDefaultArg d) (answers g)"
    and "gi_ok n (addExceptionSpec x g) \<and> answers (addExceptionSpec x g) = spec_step (RExceptionSpec x) (answers g)"
  using assms gi_room[OF assms]
  by (auto simp: addOdrEntry_def addDefaultArg_def addExceptionSpec_def Let_def gi_ok_def gi_parts query_defs add_new_def)

lemma find_snoc_first:
  "List.find P (xs @ [x]) = (case List.find P xs of None \<Rightarrow> if P x then Some x else None | Some y \<Rightarrow> Some y)"
  by (induction xs) auto

lemma first_positions_append:
  assumes "first_positions g"
  shows "first_positions (g\<lparr>staticInitKeys := K, staticInits := staticInits g @ [e],
      staticInitByName := uemplace (siName e) (length (staticInits g)) (staticInitByName g)\<rparr>)"
    (is "first_positions ?g")
  unfolding first_positions_def
proof (intro allI conjI impI)
  fix k i
  have old: "\<And>i. map_of (staticInitByName g) k = Some i \<Longrightarrow> i < length (staticInits g)"
    "map_option ((!) (staticInits g)) (map_of (staticInitByName g) k) = List.find (\<lambda>e. siName e = k) (staticInits g)"
    using assms by (simp_all add: first_positions_def findStaticInit_def)
  show "i < length (staticInits ?g)" if "map_of (staticInitByName ?g) k = Some i"
    using that old(1) by (auto simp: umap_simps split: if_splits)
  show "findStaticInit ?g k = List.find (\<lambda>e. siName e = k) (staticInits ?g)"
  proof (cases "map_of (staticInitByName g) k")
    case None
    then show ?thesis using old(2)[symmetric] by (simp add: findStaticInit_def umap_simps find_snoc_first)
  next
    case (Some j)
    then have "List.find (\<lambda>e. siName e = k) (staticInits g) = Some (staticInits g ! j)" using old(2) by simp
    then show ?thesis using Some old(1) by (auto simp: findStaticInit_def umap_simps find_snoc_first nth_append)
  qed
qed

lemma addStaticInit_refines:
  assumes "gi_ok (Suc n) g"
  shows "gi_ok n (addStaticInit e g) \<and> answers (addStaticInit e g) = spec_step (RStaticInit e) (answers g)"
proof (cases "staticInitKey e \<in> staticInitKeys g")
  case True
  then show ?thesis using assms gi_ok_mono[OF assms, of n]
    by (simp add: addStaticInit_def Let_def gi_ok_def gi_keys_ok_def query_defs add_new_def)
next
  case False
  have f: "first_positions g" using assms by (simp add: gi_ok_def gi_positions_ok_def)
  note F = first_positions_append[OF f, of e "insert (staticInitKey e) (staticInitKeys g)"]
  show ?thesis using False assms gi_room[OF assms] F
    by (simp add: addStaticInit_def Let_def gi_ok_def gi_names_ok_def gi_keys_ok_def gi_positions_ok_def query_defs add_new_def)
qed

text \<open>The entries merged by name or by site.\<close>

lemma find_by_key_append:
  "List.find (\<lambda>x. key x = key e) es = None \<Longrightarrow>
     List.find (\<lambda>x. key x = k) (es @ [e]) = ((\<lambda>k. List.find (\<lambda>x. key x = k) es)(key e := Some e)) k"
  by (auto simp: find_snoc_first split: option.split)

lemma summaries_by_find:
  assumes "positions_ok fsName (functionSummaries h) (functionSummaryByName h)"
  shows "findFunctionSummary h = (\<lambda>k. List.find (\<lambda>x. fsName x = k) (functionSummaries h))"
  by (rule ext) (simp add: findFunctionSummary_def positions_find[OF assms])

lemma gi_ok_summaries:
  assumes "gi_ok (Suc n) g" and "positions_ok fsName F M"
  shows "gi_ok n (g\<lparr>functionSummaries := F, functionSummaryByName := M\<rparr>)"
    and "answers (g\<lparr>functionSummaries := F, functionSummaryByName := M\<rparr>)
       = (answers g)\<lparr>anSummaries := \<lambda>k. List.find (\<lambda>x. fsName x = k) F\<rparr>"
  using assms gi_room[OF assms(1)] summaries_by_find[of "g\<lparr>functionSummaries := F, functionSummaryByName := M\<rparr>"]
  by (simp_all add: gi_ok_def gi_parts query_defs)

lemma addFunctionSummary_refines:
  assumes "gi_ok (Suc n) g"
  shows "gi_ok n (addFunctionSummary e g) \<and> answers (addFunctionSummary e g) = spec_step (RSummary e) (answers g)"
proof -
  let ?F = "functionSummaries g" and ?M = "functionSummaryByName g"
  have p: "positions_ok fsName ?F ?M" using assms by (simp add: gi_ok_def gi_positions_ok_def)
  have a: "anSummaries (answers g) = (\<lambda>k. List.find (\<lambda>x. fsName x = k) ?F)"
    by (simp add: answers_def summaries_by_find[OF p])
  show ?thesis
  proof (cases "map_of ?M (fsName e)")
    case None
    have n: "List.find (\<lambda>x. fsName x = fsName e) ?F = None" using None by (simp add: positions_find[OF p])
    have u: "(\<lambda>k. List.find (\<lambda>x. fsName x = k) (?F @ [e])) = (\<lambda>k. List.find (\<lambda>x. fsName x = k) ?F)(fsName e := Some e)"
      by (rule ext) (rule find_by_key_append[OF n])
    show ?thesis using None gi_ok_summaries[OF assms positions_append[of fsName, OF p None]] n
      by (simp add: addFunctionSummary_def a u merge_opt_def)
  next
    case (Some i)
    let ?x = "merge_summary (?F ! i) e"
    have i: "i < length ?F" "fsName (?F ! i) = fsName e" using p Some by (simp_all add: positions_ok_def)
    have x: "fsName ?x = fsName e" using i(2) by (simp add: merge_summary_def)
    note R = positions_replace[OF p Some x]
    have n: "List.find (\<lambda>x. fsName x = fsName e) ?F = Some (?F ! i)" using Some by (simp add: positions_find[OF p])
    have u: "(\<lambda>k. List.find (\<lambda>y. fsName y = k) (?F[i := ?x])) = (\<lambda>k. List.find (\<lambda>y. fsName y = k) ?F)(fsName e := Some ?x)"
      by (rule ext) (simp add: R(2))
    have h: "addFunctionSummary e g = g\<lparr>functionSummaries := ?F[i := ?x], functionSummaryByName := ?M\<rparr>"
      using Some by (simp add: addFunctionSummary_def)
    show ?thesis unfolding h using gi_ok_summaries[OF assms R(1)] n by (simp add: a u merge_opt_def)
  qed
qed

lemma gi_ok_statics:
  assumes "gi_ok (Suc n) g" and "positions_ok headerStaticKey F M"
  shows "gi_ok n (g\<lparr>headerStatics := F, headerStaticBySite := M\<rparr>)"
    and "answers (g\<lparr>headerStatics := F, headerStaticBySite := M\<rparr>)
       = (answers g)\<lparr>anHeaderStatics := \<lambda>k. List.find (\<lambda>x. headerStaticKey x = k) F\<rparr>"
  using assms gi_room[OF assms(1)] by (simp_all add: gi_ok_def gi_parts query_defs)

lemma addHeaderStatic_refines:
  assumes "gi_ok (Suc n) g"
  shows "gi_ok n (addHeaderStatic e g) \<and> answers (addHeaderStatic e g) = spec_step (RHeaderStatic e) (answers g)"
proof -
  let ?F = "headerStatics g" and ?M = "headerStaticBySite g" and ?k = "headerStaticKey e"
  have p: "positions_ok headerStaticKey ?F ?M" using assms by (simp add: gi_ok_def gi_positions_ok_def)
  have a: "anHeaderStatics (answers g) = (\<lambda>k. List.find (\<lambda>x. headerStaticKey x = k) ?F)"
    by (simp add: answers_def query_funs)
  show ?thesis
  proof (cases "map_of ?M ?k")
    case None
    have n: "List.find (\<lambda>x. headerStaticKey x = ?k) ?F = None" using None by (simp add: positions_find[OF p])
    have u: "(\<lambda>k. List.find (\<lambda>x. headerStaticKey x = k) (?F @ [e])) = (\<lambda>k. List.find (\<lambda>x. headerStaticKey x = k) ?F)(?k := Some e)"
      by (rule ext) (rule find_by_key_append[OF n])
    show ?thesis using None gi_ok_statics[OF assms positions_append[of headerStaticKey, OF p None]] n
      by (simp add: addHeaderStatic_def Let_def a u merge_opt_def)
  next
    case (Some i)
    let ?x = "merge_header_static (?F ! i) e"
    have i: "i < length ?F" "headerStaticKey (?F ! i) = ?k" using p Some by (simp_all add: positions_ok_def)
    have x: "headerStaticKey ?x = ?k" using i(2) by (simp add: merge_header_static_def headerStaticKey_def)
    note R = positions_replace[OF p Some x]
    have n: "List.find (\<lambda>x. headerStaticKey x = ?k) ?F = Some (?F ! i)" using Some by (simp add: positions_find[OF p])
    have u: "(\<lambda>k. List.find (\<lambda>y. headerStaticKey y = k) (?F[i := ?x])) = (\<lambda>k. List.find (\<lambda>y. headerStaticKey y = k) ?F)(?k := Some ?x)"
      by (rule ext) (simp add: R(2))
    have h: "addHeaderStatic e g = g\<lparr>headerStatics := ?F[i := ?x], headerStaticBySite := ?M\<rparr>"
      using Some by (simp add: addHeaderStatic_def Let_def merge_header_static_def)
    show ?thesis unfolding h using gi_ok_statics[OF assms R(1)] n by (simp add: a u merge_opt_def)
  qed
qed

text \<open>The type edges.\<close>

lemma on_types_refines:
  assumes "gi_ok (Suc n) g"
  shows "gi_ok n (on_types (addBase x y) g) \<and> answers (on_types (addBase x y) g) = spec_step (RBase x y) (answers g)"
    and "gi_ok n (on_types (addCtorEdge x y) g) \<and> answers (on_types (addCtorEdge x y) g) = spec_step (RCtorEdge x y) (answers g)"
    and "gi_ok n (on_types (addConvOpEdge x y) g) \<and> answers (on_types (addConvOpEdge x y) g) = spec_step (RConvOpEdge x y) (answers g)"
proof -
  have t: "types_ok (giTypes g)" "types_room (Suc n) (giTypes g)" using assms by (simp_all add: gi_ok_def)
  note S = addBase_spec[OF t, of x y] addCtorEdge_spec[OF t, of x y] addConvOpEdge_spec[OF t, of x y]
  show "gi_ok n (on_types (addBase x y) g) \<and> answers (on_types (addBase x y) g) = spec_step (RBase x y) (answers g)"
    "gi_ok n (on_types (addCtorEdge x y) g) \<and> answers (on_types (addCtorEdge x y) g) = spec_step (RCtorEdge x y) (answers g)"
    "gi_ok n (on_types (addConvOpEdge x y) g) \<and> answers (on_types (addConvOpEdge x y) g) = spec_step (RConvOpEdge x y) (answers g)"
    using assms gi_room[OF assms] S by (simp_all add: on_types_def rels_def gi_ok_def gi_parts query_defs)
qed

lemma register_refines:
  assumes "gi_ok (Suc n) g"
  shows "gi_ok n (register_entry r g) \<and> answers (register_entry r g) = spec_step r (answers g)"
  by (cases r) (simp_all only: register_entry.simps addFunctionOverload_refines[OF assms] addDeductionGuide_refines[OF assms]
    addCoverageProperty_refines[OF assms] dedup_refines[OF assms] addSpecialization_refines[OF assms]
    addStaticInit_refines[OF assms] addFunctionSummary_refines[OF assms] addHeaderStatic_refines[OF assms]
    on_types_refines[OF assms] simp_thms)

lemma register_all:
  "gi_ok (length rs + n) g \<Longrightarrow>
     gi_ok n (fold register_entry rs g) \<and> answers (fold register_entry rs g) = fold spec_step rs (answers g)"
proof (induction rs arbitrary: g)
  case (Cons r rs)
  then have "gi_ok (Suc (length rs + n)) g" by simp
  note one = register_refines[OF this, of r]
  then show ?case using Cons.IH[of "register_entry r g"] by simp
qed simp

end
