(* ===== verification/GlobalIndexProps.thy ===== *)
theory GlobalIndexProps
  imports GlobalIndexSpec
begin

text \<open>
  Properties of the global index over whole histories of registrations, and of merging: a merge
  replays the registrations the shard's enumeration lists, so its answers are computed from the
  answers of both sides.
\<close>

subsection \<open>Closed forms of a history\<close>

definition overloads_in :: "Registration list \<Rightarrow> FunctionOverloadEntry list" where
  "overloads_in rs = concat (map (\<lambda>r. case r of ROverload e \<Rightarrow> [e] | _ \<Rightarrow> []) rs)"

definition guides_in :: "Registration list \<Rightarrow> DeductionGuideEntry list" where
  "guides_in rs = concat (map (\<lambda>r. case r of RGuide e \<Rightarrow> [e] | _ \<Rightarrow> []) rs)"

definition methods_in :: "Registration list \<Rightarrow> CoveragePropertyEntry list" where
  "methods_in rs = concat (map (\<lambda>r. case r of RCoverage e \<Rightarrow> [e] | _ \<Rightarrow> []) rs)"

definition odr_in :: "Registration list \<Rightarrow> OdrEntry list" where
  "odr_in rs = concat (map (\<lambda>r. case r of ROdr e \<Rightarrow> [e] | _ \<Rightarrow> []) rs)"

definition specializations_in :: "Registration list \<Rightarrow> SpecializationEntry list" where
  "specializations_in rs = concat (map (\<lambda>r. case r of RSpecialization e \<Rightarrow> [e] | _ \<Rightarrow> []) rs)"

definition default_args_in :: "Registration list \<Rightarrow> DefaultArgEntry list" where
  "default_args_in rs = concat (map (\<lambda>r. case r of RDefaultArg e \<Rightarrow> [e] | _ \<Rightarrow> []) rs)"

definition static_inits_in :: "Registration list \<Rightarrow> StaticInitEntry list" where
  "static_inits_in rs = concat (map (\<lambda>r. case r of RStaticInit e \<Rightarrow> [e] | _ \<Rightarrow> []) rs)"

definition exception_specs_in :: "Registration list \<Rightarrow> ExceptionSpecEntry list" where
  "exception_specs_in rs = concat (map (\<lambda>r. case r of RExceptionSpec e \<Rightarrow> [e] | _ \<Rightarrow> []) rs)"

definition summaries_in :: "Registration list \<Rightarrow> FunctionSummaryEntry list" where
  "summaries_in rs = concat (map (\<lambda>r. case r of RSummary e \<Rightarrow> [e] | _ \<Rightarrow> []) rs)"

definition header_statics_in :: "Registration list \<Rightarrow> HeaderStaticEntry list" where
  "header_statics_in rs = concat (map (\<lambda>r. case r of RHeaderStatic e \<Rightarrow> [e] | _ \<Rightarrow> []) rs)"

definition bases_in :: "Registration list \<Rightarrow> (string \<times> string) set" where
  "bases_in rs = {(d, b). RBase d b \<in> set rs}"

definition ctors_in :: "Registration list \<Rightarrow> (string \<times> string) set" where
  "ctors_in rs = {(t, f). RCtorEdge t f \<in> set rs}"

definition conv_ops_in :: "Registration list \<Rightarrow> (string \<times> string) set" where
  "conv_ops_in rs = {(f, t). RConvOpEdge f t \<in> set rs}"

lemmas in_defs = overloads_in_def guides_in_def methods_in_def odr_in_def specializations_in_def default_args_in_def
  static_inits_in_def exception_specs_in_def summaries_in_def header_statics_in_def bases_in_def ctors_in_def conv_ops_in_def

lemma spec_keyed:
  "anOverloads (fold spec_step rs A) n = anOverloads A n @ filter (\<lambda>e. foName e = n) (overloads_in rs)"
  "anGuides (fold spec_step rs A) n = anGuides A n @ filter (\<lambda>e. gdTemplate e = n) (guides_in rs)"
  "anMethods (fold spec_step rs A) n = anMethods A n @ filter (\<lambda>e. cpClass e = n) (methods_in rs)"
  "anSpecializations (fold spec_step rs A) n =
     fold (add_new specialization_key) (filter (\<lambda>e. spTemplate e = n) (specializations_in rs)) (anSpecializations A n)"
  by (induction rs arbitrary: A) (simp_all add: in_defs split: Registration.split)

lemma spec_dedup:
  "anOdr (fold spec_step rs A) = fold (add_new odrKey) (odr_in rs) (anOdr A)"
  "anDefaultArgs (fold spec_step rs A) = fold (add_new defaultArgKey) (default_args_in rs) (anDefaultArgs A)"
  "anStaticInits (fold spec_step rs A) = fold (add_new staticInitKey) (static_inits_in rs) (anStaticInits A)"
  "anExceptionSpecs (fold spec_step rs A) = fold (add_new exceptionSpecKey) (exception_specs_in rs) (anExceptionSpecs A)"
  by (induction rs arbitrary: A) (simp_all add: in_defs split: Registration.split)

lemma spec_merged:
  "anSummaries (fold spec_step rs A) n
     = fold (\<lambda>e old. merge_opt merge_summary old e) (filter (\<lambda>e. fsName e = n) (summaries_in rs)) (anSummaries A n)"
  "anHeaderStatics (fold spec_step rs A) s
     = fold (\<lambda>e old. merge_opt merge_header_static old e) (filter (\<lambda>e. headerStaticKey e = s) (header_statics_in rs))
         (anHeaderStatics A s)"
  by (induction rs arbitrary: A) (simp_all add: in_defs split: Registration.split)

lemma spec_edges:
  "anBases (fold spec_step rs A) = anBases A \<union> bases_in rs"
  "anCtors (fold spec_step rs A) = anCtors A \<union> ctors_in rs"
  "anConvOps (fold spec_step rs A) = anConvOps A \<union> conv_ops_in rs"
proof -
  have "anBases (fold spec_step rs A) = anBases A \<union> bases_in rs
      \<and> anCtors (fold spec_step rs A) = anCtors A \<union> ctors_in rs
      \<and> anConvOps (fold spec_step rs A) = anConvOps A \<union> conv_ops_in rs"
  proof (induction rs arbitrary: A)
    case (Cons r rs)
    then show ?case by (cases r) (auto simp: in_defs)
  qed (simp add: in_defs)
  then show "anBases (fold spec_step rs A) = anBases A \<union> bases_in rs"
    "anCtors (fold spec_step rs A) = anCtors A \<union> ctors_in rs"
    "anConvOps (fold spec_step rs A) = anConvOps A \<union> conv_ops_in rs" by blast+
qed

lemma find_append:
  "List.find P (xs @ ys) = (case List.find P xs of None \<Rightarrow> List.find P ys | Some x \<Rightarrow> Some x)"
  by (induction xs) auto

text \<open>A deduplicated vector: distinct keys, the keys of everything registered, first occurrences.\<close>

lemma add_new_fold:
  assumes "distinct (map key acc)"
  shows "distinct (map key (fold (add_new key) es acc))"
    and "key ` set (fold (add_new key) es acc) = key ` set acc \<union> key ` set es"
    and "List.find (\<lambda>e. key e = k) (fold (add_new key) es acc) = List.find (\<lambda>e. key e = k) (acc @ es)"
proof -
  have "distinct (map key (fold (add_new key) es acc))
      \<and> key ` set (fold (add_new key) es acc) = key ` set acc \<union> key ` set es
      \<and> List.find (\<lambda>e. key e = k) (fold (add_new key) es acc) = List.find (\<lambda>e. key e = k) (acc @ es)"
    using assms
  proof (induction es arbitrary: acc)
    case (Cons e es)
    have d: "distinct (map key (add_new key e acc))" using Cons.prems by (auto simp: add_new_def)
    have f: "List.find (\<lambda>e. key e = k) (add_new key e acc @ es) = List.find (\<lambda>e. key e = k) (acc @ e # es)"
    proof (cases "key e \<in> key ` set acc \<and> key e = k")
      case True
      then have "List.find (\<lambda>e. key e = k) acc \<noteq> None" by (auto simp: find_None_iff)
      then obtain y where "List.find (\<lambda>e. key e = k) acc = Some y" by blast
      then show ?thesis using True by (simp add: add_new_def find_append[of _ acc])
    next
      case False
      then show ?thesis by (auto simp: add_new_def find_append split: option.split)
    qed
    show ?case using Cons.IH[OF d] f by (auto simp: add_new_def)
  qed simp
  then show "distinct (map key (fold (add_new key) es acc))"
    "key ` set (fold (add_new key) es acc) = key ` set acc \<union> key ` set es"
    "List.find (\<lambda>e. key e = k) (fold (add_new key) es acc) = List.find (\<lambda>e. key e = k) (acc @ es)" by blast+
qed

subsection \<open>Merging replays the enumeration\<close>

definition entries_of :: "('k, 'e list) umap \<Rightarrow> 'e list" where
  "entries_of m = concat (map snd m)"

definition log_of :: "GlobalIndex \<Rightarrow> Registration list" where
  "log_of g =
     map ROverload (entries_of (overloads g)) @ map RGuide (entries_of (guides g))
     @ map RCoverage (entries_of (coverageProps g)) @ map ROdr (odrEntries g)
     @ map RSpecialization (entries_of (specializations g)) @ map RDefaultArg (defaultArgs g)
     @ map RStaticInit (staticInits g) @ map RSummary (functionSummaries g)
     @ map RHeaderStatic (headerStatics g) @ map RExceptionSpec (exceptionSpecs g)
     @ map (\<lambda>(d, b). RBase d b) (edge_list (trInterner (giTypes g)) (bases (giTypes g)))
     @ map (\<lambda>(t, f). RCtorEdge t f) (edge_list (trInterner (giTypes g)) (ctorEdges (giTypes g)))
     @ map (\<lambda>(f, t). RConvOpEdge f t) (edge_list (trInterner (giTypes g)) (convOpEdges (giTypes g)))"

lemma forEachKeyed_entries: "forEachKeyed m f = fold f (entries_of m)"
  by (induction m) (simp_all add: forEachKeyed_def entries_of_def fun_eq_iff)

lemma fold_register_map: "fold register_entry (map c es) = fold (\<lambda>e. register_entry (c e)) es"
  by (simp add: fold_map comp_def)

lemma fold_on_types:
  "fold (\<lambda>(x, y). on_types (f x y)) es g = g\<lparr>giTypes := fold (\<lambda>(x, y). f x y) es (giTypes g)\<rparr>"
  by (induction es arbitrary: g) (auto simp: on_types_def)

lemma case_register:
  "(\<lambda>p. register_entry (case p of (x, y) \<Rightarrow> c x y)) = (\<lambda>(x, y). register_entry (c x y))"
  by auto

lemma absorbGlobal_log: "absorbGlobal shard g = fold register_entry (log_of shard) g"
proof -
  have "absorbTypes t s = fold (\<lambda>(x, y). addConvOpEdge x y) (edge_list (trInterner t) (convOpEdges t))
      (fold (\<lambda>(x, y). addCtorEdge x y) (edge_list (trInterner t) (ctorEdges t))
        (fold (\<lambda>(x, y). addBase x y) (edge_list (trInterner t) (bases t)) s))" for t s
    by (simp add: absorbTypes_def forEachBase_def forEachCtorEdge_def forEachConvOpEdge_def forEachEdge_list)
  then show ?thesis
    by (simp add: absorbGlobal_def log_of_def forEachOverload_def forEachDeductionGuide_def forEachCoverageProperty_def
        forEachSpecialization_def forEachKeyed_entries fold_register_map case_register fold_on_types Let_def)
qed

lemma concat_single: "concat (map (\<lambda>e. [e]) es) = es" "concat (map (\<lambda>e. []) fs) = []"
  by (induction es) (auto simp: concat_eq_Nil_conv)

lemma log_entries:
  "overloads_in (log_of g) = entries_of (overloads g)" "guides_in (log_of g) = entries_of (guides g)"
  "methods_in (log_of g) = entries_of (coverageProps g)" "odr_in (log_of g) = odrEntries g"
  "specializations_in (log_of g) = entries_of (specializations g)" "default_args_in (log_of g) = defaultArgs g"
  "static_inits_in (log_of g) = staticInits g" "exception_specs_in (log_of g) = exceptionSpecs g"
  "summaries_in (log_of g) = functionSummaries g" "header_statics_in (log_of g) = headerStatics g"
  by (simp_all add: in_defs log_of_def comp_def concat_single split_beta)

lemma edge_images:
  "RBase a b \<in> (\<lambda>p. RBase (fst p) (snd p)) ` R \<longleftrightarrow> (a, b) \<in> R"
  "RCtorEdge a b \<in> (\<lambda>p. RCtorEdge (fst p) (snd p)) ` R \<longleftrightarrow> (a, b) \<in> R"
  "RConvOpEdge a b \<in> (\<lambda>p. RConvOpEdge (fst p) (snd p)) ` R \<longleftrightarrow> (a, b) \<in> R"
  by force+

lemma log_edges:
  assumes "types_ok (giTypes g)"
  shows "bases_in (log_of g) = base_rel (giTypes g)" and "ctors_in (log_of g) = ctor_rel (giTypes g)"
    and "conv_ops_in (log_of g) = convop_rel (giTypes g)"
  using assms set_edge_list[of "trInterner (giTypes g)"]
  by (auto simp: in_defs log_of_def types_ok_def base_rel_def ctor_rel_def convop_rel_def split_beta edge_images)

lemma entries_filter:
  assumes "wf_interner I" and "keyed_ok I name m"
  shows "filter (\<lambda>e. name e = n) (entries_of m) = find_by_name I m n"
proof -
  have "filter (\<lambda>e. name e = n) (concat (map snd m')) = find_by_name I m' n"
    if "distinct (ukeys m')" "\<forall>(k, v) \<in> set m'. valid_id I k \<and> (\<forall>e \<in> set v. name e = resolve I k)" for m'
    using that
  proof (induction m')
    case (Cons p m')
    obtain k v where p: "p = (k, v)" by fastforce
    have k: "valid_id I k" "\<forall>e \<in> set v. name e = resolve I k" using Cons.prems(2) by (simp_all add: p)
    have IH: "filter (\<lambda>e. name e = n) (concat (map snd m')) = find_by_name I m' n"
      using Cons by (simp add: p)
    have fresh: "map_of m' k = None" using Cons.prems(1) by (simp add: p map_of_eq_None_iff)
    show ?case
    proof (cases "resolve I k = n")
      case True
      then have "find_id I n = Some k" using assms(1) k(1) by auto
      then show ?thesis using IH k(2) True fresh by (simp add: p find_by_name_def filter_id_conv)
    next
      case False
      then have "find_id I n \<noteq> Some k" using assms(1) by (auto simp: find_id_iff)
      then have "find_by_name I (p # m') n = find_by_name I m' n"
        by (auto simp: p find_by_name_def split: option.split)
      moreover have "filter (\<lambda>e. name e = n) v = []" using k(2) False by (auto simp: filter_empty_conv)
      ultimately show ?thesis using IH by (simp add: p)
    qed
  qed (simp add: find_by_name_def split: option.split)
  moreover have "\<forall>(k, v) \<in> set m. valid_id I k \<and> (\<forall>e \<in> set v. name e = resolve I k)"
  proof (clarify)
    fix k v assume kv: "(k, v) \<in> set m"
    have "map_of m k = Some v" using kv assms(2) by (simp add: keyed_ok_def)
    then show "valid_id I k \<and> (\<forall>e \<in> set v. name e = resolve I k)"
      using assms(2) ulist_Some[of m k v] unfolding keyed_ok_def by blast
  qed
  ultimately show ?thesis using assms(2) by (simp add: entries_of_def keyed_ok_def)
qed

subsection \<open>Merged entries\<close>

lemma filter_distinct_key:
  "distinct (map key es) \<Longrightarrow> filter (\<lambda>e. key e = k) es = (case List.find (\<lambda>e. key e = k) es of None \<Rightarrow> [] | Some e \<Rightarrow> [e])"
proof (induction es)
  case (Cons e es)
  show ?case
  proof (cases "key e = k")
    case True
    have "filter (\<lambda>x. key x = k) es = []" using Cons.prems True
      by (auto simp: filter_empty_conv) (metis image_eqI)
    then show ?thesis using True by simp
  qed (use Cons in simp)
qed simp

lemma positions_distinct: "positions_ok key es m \<Longrightarrow> distinct (map key es)"
  by (auto simp: distinct_conv_nth positions_unique)

lemma set_merge_names: "set (merge_names xs ys) = set xs \<union> set ys"
  unfolding merge_names_def by (induction ys arbitrary: xs) auto

definition summary_union :: "FunctionSummaryEntry list \<Rightarrow> FunctionSummaryEntry \<Rightarrow> bool" where
  \<comment> \<open>\<open>s\<close> sums up the registrations \<open>es\<close> of one function\<close>
  "summary_union es s \<longleftrightarrow>
     fsName s = fsName (hd es) \<and> fsFile s = fsFile (hd es) \<and> fsLine s = fsLine (hd es)
     \<and> fsNoexcept s = list_ex fsNoexcept es \<and> fsThrows s = list_ex fsThrows es
     \<and> set (fsCalls s) = (\<Union>e \<in> set es. set (fsCalls e))
     \<and> set (fsUnguarded s) = (\<Union>e \<in> set es. set (fsUnguarded e))
     \<and> set (fsGlobals s) = (\<Union>e \<in> set es. set (fsGlobals e))"

lemma merge_summary_union:
  assumes "summary_union es s" and "es \<noteq> []"
  shows "summary_union (es @ [e]) (merge_summary s e)"
  using assms by (auto simp: summary_union_def merge_summary_def set_merge_names)

lemma fold_merge_summaries:
  "es \<noteq> [] \<Longrightarrow> \<exists>s. fold (\<lambda>e old. merge_opt merge_summary old e) es None = Some s \<and> summary_union es s"
proof (induction es rule: rev_induct)
  case (snoc e es)
  show ?case
  proof (cases "es = []")
    case True
    then show ?thesis by (simp add: merge_opt_def summary_union_def)
  next
    case False
    then obtain s where s: "fold (\<lambda>e old. merge_opt merge_summary old e) es None = Some s" "summary_union es s"
      using snoc.IH by blast
    then show ?thesis using merge_summary_union[OF s(2) False] by (simp add: merge_opt_def)
  qed
qed simp

definition build_global :: "Registration list \<Rightarrow> GlobalIndex" where
  "build_global rs = fold register_entry rs empty_global"

lemma build_global_spec:
  assumes "length rs + n \<le> 2 ^ 31"
  shows "gi_ok n (build_global rs)" and "answers (build_global rs) = fold spec_step rs empty_answers"
proof -
  have "gi_ok (length rs + n) empty_global" by (rule gi_ok_empty[OF assms])
  from register_all[OF this] show "gi_ok n (build_global rs)" "answers (build_global rs) = fold spec_step rs empty_answers"
    by (simp_all add: build_global_def answers_empty)
qed

lemmas answers_sel = answers_def empty_answers_def

lemma global_answers:
  assumes "length rs \<le> 2 ^ 31"
  defines "g \<equiv> build_global rs"
  shows "findOverloads g n = filter (\<lambda>e. foName e = n) (overloads_in rs)"
    and "findDeductionGuides g n = filter (\<lambda>e. gdTemplate e = n) (guides_in rs)"
    and "findClassMethods g n = filter (\<lambda>e. cpClass e = n) (methods_in rs)"
    and "findSpecializations g n = fold (add_new specialization_key) (filter (\<lambda>e. spTemplate e = n) (specializations_in rs)) []"
    and "odrEntries g = fold (add_new odrKey) (odr_in rs) []"
    and "defaultArgs g = fold (add_new defaultArgKey) (default_args_in rs) []"
    and "staticInits g = fold (add_new staticInitKey) (static_inits_in rs) []"
    and "exceptionSpecs g = fold (add_new exceptionSpecKey) (exception_specs_in rs) []"
    and "findFunctionSummary g n = fold (\<lambda>e old. merge_opt merge_summary old e) (filter (\<lambda>e. fsName e = n) (summaries_in rs)) None"
    and "base_rel (giTypes g) = bases_in rs" and "ctor_rel (giTypes g) = ctors_in rs" and "convop_rel (giTypes g) = conv_ops_in rs"
proof -
  have a: "answers g = fold spec_step rs empty_answers" unfolding g_def by (rule build_global_spec(2)[of _ 0]) (use assms(1) in simp)
  show "findOverloads g n = filter (\<lambda>e. foName e = n) (overloads_in rs)"
    using arg_cong[OF a, of "\<lambda>A. anOverloads A n"] by (simp add: spec_keyed answers_sel)
  show "findDeductionGuides g n = filter (\<lambda>e. gdTemplate e = n) (guides_in rs)"
    using arg_cong[OF a, of "\<lambda>A. anGuides A n"] by (simp add: spec_keyed answers_sel)
  show "findClassMethods g n = filter (\<lambda>e. cpClass e = n) (methods_in rs)"
    using arg_cong[OF a, of "\<lambda>A. anMethods A n"] by (simp add: spec_keyed answers_sel)
  show "findSpecializations g n = fold (add_new specialization_key) (filter (\<lambda>e. spTemplate e = n) (specializations_in rs)) []"
    using arg_cong[OF a, of "\<lambda>A. anSpecializations A n"] by (simp add: spec_keyed answers_sel)
  show "odrEntries g = fold (add_new odrKey) (odr_in rs) []"
    using arg_cong[OF a, of anOdr] by (simp add: spec_dedup answers_sel)
  show "defaultArgs g = fold (add_new defaultArgKey) (default_args_in rs) []"
    using arg_cong[OF a, of anDefaultArgs] by (simp add: spec_dedup answers_sel)
  show "staticInits g = fold (add_new staticInitKey) (static_inits_in rs) []"
    using arg_cong[OF a, of anStaticInits] by (simp add: spec_dedup answers_sel)
  show "exceptionSpecs g = fold (add_new exceptionSpecKey) (exception_specs_in rs) []"
    using arg_cong[OF a, of anExceptionSpecs] by (simp add: spec_dedup answers_sel)
  show "findFunctionSummary g n = fold (\<lambda>e old. merge_opt merge_summary old e) (filter (\<lambda>e. fsName e = n) (summaries_in rs)) None"
    using arg_cong[OF a, of "\<lambda>A. anSummaries A n"] by (simp add: spec_merged answers_sel)
  show "base_rel (giTypes g) = bases_in rs" "ctor_rel (giTypes g) = ctors_in rs" "convop_rel (giTypes g) = conv_ops_in rs"
    using arg_cong[OF a, of anBases] arg_cong[OF a, of anCtors] arg_cong[OF a, of anConvOps]
    by (simp_all add: spec_edges answers_sel)
qed

lemma absorb_answers:
  assumes "gi_ok (length (log_of shard) + m) g" and "gi_ok 0 shard"
  defines "r \<equiv> absorbGlobal shard g"
  shows "findOverloads r n = findOverloads g n @ findOverloads shard n"
    and "findDeductionGuides r n = findDeductionGuides g n @ findDeductionGuides shard n"
    and "findClassMethods r n = findClassMethods g n @ findClassMethods shard n"
    and "findSpecializations r n = fold (add_new specialization_key) (findSpecializations shard n) (findSpecializations g n)"
    and "odrEntries r = fold (add_new odrKey) (odrEntries shard) (odrEntries g)"
    and "defaultArgs r = fold (add_new defaultArgKey) (defaultArgs shard) (defaultArgs g)"
    and "staticInits r = fold (add_new staticInitKey) (staticInits shard) (staticInits g)"
    and "exceptionSpecs r = fold (add_new exceptionSpecKey) (exceptionSpecs shard) (exceptionSpecs g)"
    and "findFunctionSummary r n = (case findFunctionSummary shard n of None \<Rightarrow> findFunctionSummary g n
           | Some e \<Rightarrow> merge_opt merge_summary (findFunctionSummary g n) e)"
    and "base_rel (giTypes r) = base_rel (giTypes g) \<union> base_rel (giTypes shard)"
    and "ctor_rel (giTypes r) = ctor_rel (giTypes g) \<union> ctor_rel (giTypes shard)"
    and "convop_rel (giTypes r) = convop_rel (giTypes g) \<union> convop_rel (giTypes shard)"
proof -
  have a: "answers r = fold spec_step (log_of shard) (answers g)"
    using register_all[OF assms(1)] by (simp add: r_def absorbGlobal_log)
  have w: "wf_interner (giInterner shard)" "keyed_ok (giInterner shard) foName (overloads shard)"
    "keyed_ok (giInterner shard) gdTemplate (guides shard)" "keyed_ok (giInterner shard) cpClass (coverageProps shard)"
    "keyed_ok (giInterner shard) spTemplate (specializations shard)" "types_ok (giTypes shard)"
    "positions_ok fsName (functionSummaries shard) (functionSummaryByName shard)"
    using assms(2) by (simp_all add: gi_ok_def gi_names_ok_def gi_positions_ok_def)
  note f = entries_filter[OF w(1,2)] entries_filter[OF w(1,3)] entries_filter[OF w(1,4)] entries_filter[OF w(1,5)]
  show "findOverloads r n = findOverloads g n @ findOverloads shard n"
    using arg_cong[OF a, of "\<lambda>A. anOverloads A n"] by (simp add: spec_keyed log_entries f answers_def query_funs)
  show "findDeductionGuides r n = findDeductionGuides g n @ findDeductionGuides shard n"
    using arg_cong[OF a, of "\<lambda>A. anGuides A n"] by (simp add: spec_keyed log_entries f answers_def query_funs)
  show "findClassMethods r n = findClassMethods g n @ findClassMethods shard n"
    using arg_cong[OF a, of "\<lambda>A. anMethods A n"] by (simp add: spec_keyed log_entries f answers_def query_funs)
  show "findSpecializations r n = fold (add_new specialization_key) (findSpecializations shard n) (findSpecializations g n)"
    using arg_cong[OF a, of "\<lambda>A. anSpecializations A n"] by (simp add: spec_keyed log_entries f answers_def query_funs)
  show "odrEntries r = fold (add_new odrKey) (odrEntries shard) (odrEntries g)"
    using arg_cong[OF a, of anOdr] by (simp add: spec_dedup log_entries answers_def)
  show "defaultArgs r = fold (add_new defaultArgKey) (defaultArgs shard) (defaultArgs g)"
    using arg_cong[OF a, of anDefaultArgs] by (simp add: spec_dedup log_entries answers_def)
  show "staticInits r = fold (add_new staticInitKey) (staticInits shard) (staticInits g)"
    using arg_cong[OF a, of anStaticInits] by (simp add: spec_dedup log_entries answers_def)
  show "exceptionSpecs r = fold (add_new exceptionSpecKey) (exceptionSpecs shard) (exceptionSpecs g)"
    using arg_cong[OF a, of anExceptionSpecs] by (simp add: spec_dedup log_entries answers_def)
  have s: "filter (\<lambda>e. fsName e = n) (functionSummaries shard) = (case findFunctionSummary shard n of None \<Rightarrow> [] | Some e \<Rightarrow> [e])"
    using filter_distinct_key[OF positions_distinct[OF w(7)], of n] by (simp add: summaries_by_find[OF w(7)])
  show "findFunctionSummary r n = (case findFunctionSummary shard n of None \<Rightarrow> findFunctionSummary g n
       | Some e \<Rightarrow> merge_opt merge_summary (findFunctionSummary g n) e)"
    using arg_cong[OF a, of "\<lambda>A. anSummaries A n"]
    by (simp add: spec_merged log_entries answers_def s split: option.split)
  show "base_rel (giTypes r) = base_rel (giTypes g) \<union> base_rel (giTypes shard)"
    "ctor_rel (giTypes r) = ctor_rel (giTypes g) \<union> ctor_rel (giTypes shard)"
    "convop_rel (giTypes r) = convop_rel (giTypes g) \<union> convop_rel (giTypes shard)"
    using arg_cong[OF a, of anBases] arg_cong[OF a, of anCtors] arg_cong[OF a, of anConvOps] log_edges[OF w(6)]
    by (simp_all add: spec_edges answers_def)
qed

subsection \<open>The global index\<close>

definition demo_overload :: "string \<Rightarrow> string \<Rightarrow> FunctionOverloadEntry" where
  "demo_overload n h = \<lparr>foName = n, foHeader = h, foParams = [''int''], foReturn = ''void'', foLine = 3\<rparr>"

definition demo_odr :: "string \<Rightarrow> 64 word \<Rightarrow> OdrEntry" where
  "demo_odr n h = \<lparr>odName = n, odSignature = ''()'', odIsClass = False, odClass = [], odFile = ''a.h'', odLine = 9, odHash = h\<rparr>"

definition demo_summary :: "string \<Rightarrow> bool \<Rightarrow> string list \<Rightarrow> FunctionSummaryEntry" where
  "demo_summary n t cs = \<lparr>fsName = n, fsFile = ''a.cpp'', fsLine = 2, fsNoexcept = False, fsThrows = t,
     fsCalls = cs, fsUnguarded = cs, fsGlobals = []\<rparr>"

definition demo_entries :: "Registration list" where
  "demo_entries =
     [ROverload (demo_overload ''f'' ''a.h''), ROdr (demo_odr ''f'' 1), ROverload (demo_overload ''f'' ''b.h''),
      RSummary (demo_summary ''f'' False [''g'']), ROdr (demo_odr ''f'' 1), RBase ''D'' ''C'', RBase ''C'' ''B'',
      RSummary (demo_summary ''f'' True [''h'']), ROdr (demo_odr ''f'' 2)]"



text \<open>What the index holds after any history: the overloads of a name are its registrations in
  order; the ODR sites have distinct keys, exactly those registered, and each key keeps its first
  entry; the summary of a function exists once it was registered, keeps the first site, and is
  the union of its registrations.\<close>

theorem index_history:
  fixes n k :: string
  assumes "length rs \<le> 2 ^ 31"
  defines "g \<equiv> build_global rs" and "sums \<equiv> filter (\<lambda>e. fsName e = n) (summaries_in rs)"
  shows "findOverloads g n = filter (\<lambda>e. foName e = n) (overloads_in rs)
    \<and> distinct (map odrKey (odrEntries g)) \<and> odrKey ` set (odrEntries g) = odrKey ` set (odr_in rs)
    \<and> List.find (\<lambda>e. odrKey e = k) (odrEntries g) = List.find (\<lambda>e. odrKey e = k) (odr_in rs)
    \<and> (findFunctionSummary g n = None \<longleftrightarrow> sums = [])
    \<and> (\<forall>s. findFunctionSummary g n = Some s \<longrightarrow> summary_union sums s)"
proof -
  note A = global_answers[OF assms(1), folded g_def]
  have d: "distinct (map odrKey [])" by simp
  note D = add_new_fold[OF d, where es = "odr_in rs"]
  have "(findFunctionSummary g n = None \<longleftrightarrow> sums = []) \<and> (\<forall>s. findFunctionSummary g n = Some s \<longrightarrow> summary_union sums s)"
  proof (cases "sums = []")
    case True
    then show ?thesis using A(9)[of n] by (simp add: sums_def)
  next
    case False
    obtain s where "findFunctionSummary g n = Some s" "summary_union sums s"
      using fold_merge_summaries[OF False] A(9)[of n] by (auto simp: sums_def)
    then show ?thesis using False by simp
  qed
  then show ?thesis using A(1)[of n] A(5) D(1,2) D(3)[of k] by simp
qed

theorem index_history_witness:
  "odrKey ` set (odrEntries (build_global demo_entries)) = odrKey ` set (odr_in demo_entries)
   \<and> length (odrEntries (build_global demo_entries)) = 2
   \<and> map_option fsCalls (findFunctionSummary (build_global demo_entries) ''f'') = Some [''g'', ''h'']"
proof (intro conjI)
  have "length demo_entries \<le> 2 ^ 31" by (simp add: demo_entries_def)
  from index_history[OF this] show "odrKey ` set (odrEntries (build_global demo_entries)) = odrKey ` set (odr_in demo_entries)"
    by blast
qed code_simp+

text \<open>Merging a shard replays its registrations: name queries append the shard's answers, site
  vectors gain the shard's new keys, summaries are merged, and the type relations are united.\<close>

theorem absorb_replays:
  assumes "length rs + length (log_of shard) \<le> 2 ^ 31" and "shard = build_global ss" and "length ss \<le> 2 ^ 31"
  shows "absorbGlobal shard (build_global rs) = build_global (rs @ log_of shard)
    \<and> findOverloads (absorbGlobal shard (build_global rs)) n = findOverloads (build_global rs) n @ findOverloads shard n
    \<and> odrKey ` set (odrEntries (absorbGlobal shard (build_global rs)))
        = odrKey ` set (odrEntries (build_global rs)) \<union> odrKey ` set (odrEntries shard)
    \<and> findFunctionSummary (absorbGlobal shard (build_global rs)) n
        = (case findFunctionSummary shard n of None \<Rightarrow> findFunctionSummary (build_global rs) n
           | Some e \<Rightarrow> merge_opt merge_summary (findFunctionSummary (build_global rs) n) e)
    \<and> base_rel (giTypes (absorbGlobal shard (build_global rs)))
        = base_rel (giTypes (build_global rs)) \<union> base_rel (giTypes shard)"
proof -
  have s: "gi_ok 0 shard" using build_global_spec(1)[of ss 0] assms(2,3) by simp
  have g: "gi_ok (length (log_of shard) + 0) (build_global rs)" by (rule build_global_spec(1)) (use assms(1) in simp)
  note R = absorb_answers[OF g s]
  have "gi_ok 0 (build_global rs)" using g by (rule gi_ok_mono) simp
  have "distinct (map odrKey (odrEntries (build_global rs)))"
    using global_answers(5)[of rs] assms(1) add_new_fold(1)[of odrKey "[]"] by simp
  then have o: "odrKey ` set (odrEntries (absorbGlobal shard (build_global rs)))
        = odrKey ` set (odrEntries (build_global rs)) \<union> odrKey ` set (odrEntries shard)"
    by (simp add: R(5) add_new_fold(2))
  have l: "absorbGlobal shard (build_global rs) = build_global (rs @ log_of shard)"
    by (simp add: absorbGlobal_log build_global_def)
  show ?thesis by (intro conjI l o R(1)[of n] R(9)[of n] R(10))
qed

theorem absorb_replays_witness:
  "findOverloads (absorbGlobal (build_global demo_entries) (build_global demo_entries)) ''f''
     = findOverloads (build_global demo_entries) ''f'' @ findOverloads (build_global demo_entries) ''f''"
proof -
  have "length (log_of (build_global demo_entries)) = 7" by code_simp
  then have l: "length demo_entries + length (log_of (build_global demo_entries)) \<le> 2 ^ 31" by (simp add: demo_entries_def)
  have d: "length demo_entries \<le> 2 ^ 31" by (simp add: demo_entries_def)
  show ?thesis using absorb_replays[OF l refl d, of "''f''"] by blast
qed

text \<open>C14: Convertibility after any history: identity, two arithmetic builtins, a derived-to-base step
  of any length through registered bases (for both types, or both pointed-to types), a registered
  converting constructor or a registered conversion operator; nothing else.\<close>

theorem convertible_exact:
  assumes "length rs \<le> 2 ^ 31"
  shows "isBaseOrSelf (giTypes (build_global rs)) d b = ((d, b) \<in> (bases_in rs)\<^sup>*)
    \<and> (isConvertible (giTypes (build_global rs)) f t \<longleftrightarrow>
     f = t \<or> isArithmeticTypeName f \<and> isArithmeticTypeName t
     \<or> (stripPointer f = f) = (stripPointer t = t) \<and> (stripPointer f, stripPointer t) \<in> (bases_in rs)\<^sup>*
     \<or> (t, f) \<in> ctors_in rs \<or> (f, t) \<in> conv_ops_in rs)"
proof -
  have t: "types_ok (giTypes (build_global rs))" using build_global_spec(1)[of rs 0] assms by (simp add: gi_ok_def)
  note A = global_answers(10-12)[OF assms]
  show ?thesis using isBaseOrSelf_spec[OF t, of d b] isConvertible_spec[OF t, of f t] by (simp only: A)
qed

theorem convertible_exact_witness:
  "isConvertible (giTypes (build_global demo_entries)) ''D*'' ''B*''
   \<and> \<not> isConvertible (giTypes (build_global demo_entries)) ''D*'' ''B''"
proof
  have l: "length demo_entries \<le> 2 ^ 31" by (simp add: demo_entries_def)
  have "(''D'', ''C'') \<in> bases_in demo_entries" "(''C'', ''B'') \<in> bases_in demo_entries"
    by (simp_all add: bases_in_def demo_entries_def)
  then have "(stripPointer ''D*'', stripPointer ''B*'') \<in> (bases_in demo_entries)\<^sup>*" by (simp add: stripPointer_def)
  moreover have "(stripPointer ''D*'' = ''D*'') = (stripPointer ''B*'' = ''B*'')" by (simp add: stripPointer_def)
  ultimately show "isConvertible (giTypes (build_global demo_entries)) ''D*'' ''B*''"
    using convertible_exact[OF l, where f = "''D*''" and t = "''B*''"] by blast
  show "\<not> isConvertible (giTypes (build_global demo_entries)) ''D*'' ''B''" by code_simp
qed

end
