(* ===== verification/Wire.thy ===== *)
theory Wire
  imports Main "HOL-Library.Word"
begin

text \<open>
  The binary form of the checkpoint journal and of the worker shards (the writers and the
  bounds-checked \<open>Reader\<close> of src/anneal/Checkpoint.cpp).  A buffer is a string of bytes that
  the writers append to; the reader is its input, a position and the sticky flag \<open>ok\<close>.
  \<open>reader_at pre suf\<close> is the reader of \<open>pre @ suf\<close> that has consumed \<open>pre\<close>: the facts of
  the collection \<open>reads\<close> say what each getter returns there, so that a decoder is executed by
  rewriting on what its encoder wrote.
\<close>

named_theorems reads and wires

unbundle bit_operations_syntax

subsection \<open>Writers\<close>

definition putU8 :: "8 word \<Rightarrow> string \<Rightarrow> string" where
  "putU8 v b = b @ [char_of (unat v)]"

definition putU32 :: "32 word \<Rightarrow> string \<Rightarrow> string" where
  "putU32 v b = fold (\<lambda>i b. b @ [char_of (unat (drop_bit (8 * i) v AND 0xFF))]) [0..<4] b"

definition putU64 :: "64 word \<Rightarrow> string \<Rightarrow> string" where
  "putU64 v b = fold (\<lambda>i b. b @ [char_of (unat (drop_bit (8 * i) v AND 0xFF))]) [0..<8] b"

definition putStr :: "string \<Rightarrow> string \<Rightarrow> string" where
  "putStr s b = putU32 (word_of_nat (length s)) b @ s"

subsection \<open>The reader\<close>

record Reader =
  rdData :: string
  rdPos :: nat
  rdOk :: bool

definition newReader :: "string \<Rightarrow> Reader" where
  "newReader d = \<lparr>rdData = d, rdPos = 0, rdOk = True\<rparr>"

definition need :: "nat \<Rightarrow> Reader \<Rightarrow> bool \<times> Reader" where
  "need n r = (if \<not> rdOk r \<or> length (rdData r) - rdPos r < n then (False, r\<lparr>rdOk := False\<rparr>) else (True, r))"

definition byte_at :: "Reader \<Rightarrow> nat \<Rightarrow> nat" where
  "byte_at r i = of_char (rdData r ! (rdPos r + i))"

definition getU8 :: "Reader \<Rightarrow> 8 word \<times> Reader" where
  "getU8 r =
     (case need 1 r of
        (False, r1) \<Rightarrow> (0, r1)
      | (True, r1) \<Rightarrow> (word_of_nat (byte_at r1 0), r1\<lparr>rdPos := rdPos r1 + 1\<rparr>))"

definition le_bytes :: "Reader \<Rightarrow> nat \<Rightarrow> 'a::len word" where
  \<comment> \<open>\<open>for (i < n) v |= data[pos++] << (8 * i)\<close>\<close>
  "le_bytes r n = fold (\<lambda>i v. v OR push_bit (8 * i) (word_of_nat (byte_at r i))) [0..<n] 0"

definition getU32 :: "Reader \<Rightarrow> 32 word \<times> Reader" where
  "getU32 r =
     (case need 4 r of
        (False, r1) \<Rightarrow> (0, r1)
      | (True, r1) \<Rightarrow> (le_bytes r1 4, r1\<lparr>rdPos := rdPos r1 + 4\<rparr>))"

definition getU64 :: "Reader \<Rightarrow> 64 word \<times> Reader" where
  "getU64 r =
     (case need 8 r of
        (False, r1) \<Rightarrow> (0, r1)
      | (True, r1) \<Rightarrow> (le_bytes r1 8, r1\<lparr>rdPos := rdPos r1 + 8\<rparr>))"

definition getStr :: "Reader \<Rightarrow> string \<times> Reader" where
  "getStr r =
     (let (n, r1) = getU32 r in
      case need (unat n) r1 of
        (False, r2) \<Rightarrow> ([], r2)
      | (True, r2) \<Rightarrow> (take (unat n) (drop (rdPos r2) (rdData r2)), r2\<lparr>rdPos := rdPos r2 + unat n\<rparr>))"

subsection \<open>Counted sequences\<close>

definition putList :: "('a \<Rightarrow> string \<Rightarrow> string) \<Rightarrow> 'a list \<Rightarrow> string \<Rightarrow> string" where
  "putList put xs b = fold put xs (putU32 (word_of_nat (length xs)) b)"

fun read_n :: "(Reader \<Rightarrow> 'a \<times> Reader) \<Rightarrow> nat \<Rightarrow> Reader \<Rightarrow> 'a list \<times> Reader" where
  \<comment> \<open>\<open>for (i = 0; i < n && r.ok; ++i) v.push_back(get(r))\<close>\<close>
  "read_n get 0 r = ([], r)"
| "read_n get (Suc n) r =
     (if \<not> rdOk r then ([], r)
      else let (x, r1) = get r; (xs, r2) = read_n get n r1 in (x # xs, r2))"

definition readList :: "(Reader \<Rightarrow> 'a \<times> Reader) \<Rightarrow> Reader \<Rightarrow> 'a list \<times> Reader" where
  "readList get r = (let (n, r1) = getU32 r in read_n get (unat n) r1)"

subsection \<open>Reading back what was written\<close>

definition reader_at :: "string \<Rightarrow> string \<Rightarrow> Reader" where
  "reader_at pre suf = \<lparr>rdData = pre @ suf, rdPos = length pre, rdOk = True\<rparr>"

lemma newReader_at: "newReader d = reader_at [] d"
  by (simp add: newReader_def reader_at_def)

lemma reader_at_ok [simp]: "rdOk (reader_at pre suf)"
  by (simp add: reader_at_def)

text \<open>What a writer appends.\<close>

definition wU8 :: "8 word \<Rightarrow> string" where "wU8 v = putU8 v []"
definition wU32 :: "32 word \<Rightarrow> string" where "wU32 v = putU32 v []"
definition wU64 :: "64 word \<Rightarrow> string" where "wU64 v = putU64 v []"
definition wStr :: "string \<Rightarrow> string" where "wStr s = putStr s []"

definition wList :: "('a \<Rightarrow> string \<Rightarrow> string) \<Rightarrow> 'a list \<Rightarrow> string" where
  "wList put xs = putList put xs []"

lemma put_w [wires]:
  "putU8 v b = b @ wU8 v" "putU32 w b = b @ wU32 w" "putU64 x b = b @ wU64 x" "putStr s b = b @ wStr s"
  by (simp_all add: wU8_def wU32_def wU64_def wStr_def putU8_def putU32_def putU64_def putStr_def upt_rec)

lemma w_length [simp]:
  "length (wU8 v) = 1" "length (wU32 w) = 4" "length (wU64 x) = 8" "length (wStr s) = 4 + length s"
  by (simp_all add: wU8_def wU32_def wU64_def wStr_def putU8_def putU32_def putU64_def putStr_def upt_rec)

lemma byte_word: "word_of_nat (of_char (char_of (unat (v AND 0xFF) :: nat) :: char)) = take_bit 8 (v :: 'a::len word)"
proof -
  have "v AND 0xFF = take_bit 8 v" by (simp add: take_bit_eq_mask mask_eq_exp_minus_1)
  moreover have "unat (take_bit 8 v) mod 256 = unat (take_bit 8 v)"
    using take_bit_eq_mod[of 8 "unat (take_bit 8 v)"] by (simp add: unsigned_take_bit_eq)
  ultimately show ?thesis by simp
qed

lemma le_round:
  "fold (\<lambda>i w. w OR push_bit (8 * i) (take_bit 8 (drop_bit (8 * i) v))) [0..<n] 0 = take_bit (8 * n) (v :: 'a::len word)"
proof (induction n)
  case (Suc n)
  have "take_bit (8 * n) v OR push_bit (8 * n) (take_bit 8 (drop_bit (8 * n) v)) = take_bit (8 * Suc n) v"
    by (rule bit_word_eqI) (auto simp: bit_or_iff bit_take_bit_iff bit_push_bit_iff bit_drop_bit_eq)
  then show ?case using Suc.IH by simp
qed simp

lemma reads_U8 [reads]: "getU8 (reader_at pre (wU8 v @ suf)) = (v, reader_at (pre @ wU8 v) suf)"
proof -
  have "unat v mod 256 = unat v" using unsigned_less[of v, where ?'a = nat] by simp
  then show ?thesis by (simp add: getU8_def need_def reader_at_def byte_at_def wU8_def putU8_def nth_append)
qed

lemma wU32_nth: "i < 4 \<Longrightarrow> wU32 v ! i = char_of (unat (drop_bit (8 * i) v AND 0xFF))"
proof -
  assume "i < 4"
  then have "i \<in> {0, 1, 2, 3}" by auto
  then show ?thesis by (auto simp: wU32_def putU32_def upt_rec)
qed

lemma wU64_nth: "i < 8 \<Longrightarrow> wU64 v ! i = char_of (unat (drop_bit (8 * i) v AND 0xFF))"
proof -
  assume "i < 8"
  then have "i \<in> {0, 1, 2, 3, 4, 5, 6, 7}" by auto
  then show ?thesis by (auto simp: wU64_def putU64_def upt_rec)
qed

lemma le_bytes_at:
  assumes "length bs = n" and "\<And>i. i < n \<Longrightarrow> bs ! i = char_of (unat (drop_bit (8 * i) v AND 0xFF))"
  shows "le_bytes (reader_at pre (bs @ suf)) n = take_bit (8 * n) (v :: 'a::len word)"
proof -
  have b: "word_of_nat (byte_at (reader_at pre (bs @ suf)) i) = take_bit 8 (drop_bit (8 * i) v)" if "i < n" for i
    using that assms byte_word[of "drop_bit (8 * i) v"] by (simp add: byte_at_def reader_at_def nth_append)
  have "le_bytes (reader_at pre (bs @ suf)) n
      = fold (\<lambda>i w. w OR push_bit (8 * i) (take_bit 8 (drop_bit (8 * i) v))) [0..<n] 0"
    unfolding le_bytes_def by (rule fold_cong) (simp_all add: b)
  then show ?thesis by (simp only: le_round)
qed

lemma reads_U32 [reads]: "getU32 (reader_at pre (wU32 v @ suf)) = (v, reader_at (pre @ wU32 v) suf)"
  using le_bytes_at[of "wU32 v" 4 v pre suf]
  by (simp add: wU32_nth getU32_def need_def) (simp add: reader_at_def take_bit_word_eq_self)

lemma reads_U64 [reads]: "getU64 (reader_at pre (wU64 v @ suf)) = (v, reader_at (pre @ wU64 v) suf)"
  using le_bytes_at[of "wU64 v" 8 v pre suf]
  by (simp add: wU64_nth getU64_def need_def) (simp add: reader_at_def take_bit_word_eq_self)

definition str_fits :: "string \<Rightarrow> bool" where
  "str_fits s \<longleftrightarrow> length s < 2 ^ 32"

lemma unat_length: "n < 2 ^ 32 \<Longrightarrow> unat (word_of_nat n :: 32 word) = n"
  by (simp add: unat_of_nat take_bit_nat_eq_self)

lemma wStr_split: "wStr s = wU32 (word_of_nat (length s)) @ s"
  by (simp add: wStr_def wU32_def putStr_def)

lemma reads_Str [reads]:
  "str_fits s \<Longrightarrow> getStr (reader_at pre (wStr s @ suf)) = (s, reader_at (pre @ wStr s) suf)"
  by (simp add: getStr_def wStr_split str_fits_def reads_U32 unat_length need_def) (simp add: reader_at_def)

subsection \<open>Codecs\<close>

text \<open>
  The contract between a writer and its reader: what the writer appends does not depend on the
  buffer, and the reader consumes exactly that and returns the value, as long as its lengths fit.
  Counted lists of a codec are written and read back; an interpretation adds these facts to the
  collections.
\<close>

definition list_fits :: "('a \<Rightarrow> bool) \<Rightarrow> 'a list \<Rightarrow> bool" where
  "list_fits fits xs \<longleftrightarrow> list_all fits xs \<and> length xs < 2 ^ 32"

locale codec =
  fixes put :: "'a \<Rightarrow> string \<Rightarrow> string"
    and get :: "Reader \<Rightarrow> 'a \<times> Reader"
    and fits :: "'a \<Rightarrow> bool"
  assumes puts: "put x b = b @ put x []"
    and gets: "fits x \<Longrightarrow> get (reader_at pre (put x [] @ suf)) = (x, reader_at (pre @ put x []) suf)"
begin

lemma fold_put: "fold put xs b = b @ fold put xs []"
proof (induction xs arbitrary: b)
  case (Cons x xs)
  show ?case using Cons.IH[of "put x b"] Cons.IH[of "put x []"] puts[of x b] by simp
qed simp

lemma wList_split: "wList put xs = wU32 (word_of_nat (length xs)) @ fold put xs []"
  using fold_put[of xs "wU32 (word_of_nat (length xs))"] by (simp add: wList_def putList_def wU32_def)

lemma list_put [wires]: "putList put xs b = b @ wList put xs"
  using fold_put[of xs "b @ wU32 (word_of_nat (length xs))"] by (simp add: putList_def wList_split put_w)

lemma read_n_fold:
  "list_all fits xs \<Longrightarrow> read_n get (length xs) (reader_at pre (fold put xs [] @ suf)) = (xs, reader_at (pre @ fold put xs []) suf)"
proof (induction xs arbitrary: pre)
  case (Cons x xs)
  have f: "fold put (x # xs) [] = put x [] @ fold put xs []" using fold_put[of xs "put x []"] by simp
  have "get (reader_at pre (put x [] @ fold put xs [] @ suf)) = (x, reader_at (pre @ put x []) (fold put xs [] @ suf))"
    using Cons.prems by (intro gets) simp
  then show ?case using Cons.IH[of "pre @ put x []"] Cons.prems unfolding f by simp
qed simp

lemma list_get [reads]:
  "list_fits fits xs \<Longrightarrow> readList get (reader_at pre (wList put xs @ suf)) = (xs, reader_at (pre @ wList put xs) suf)"
  using read_n_fold[of xs "pre @ wU32 (word_of_nat (length xs))" suf]
  by (simp add: list_fits_def wList_split readList_def reads_U32 unat_length)

end

interpretation strings: codec putStr getStr str_fits
  by unfold_locales (simp_all add: put_w reads_Str)

end
