(* ===== verification/CheckpointCodec.thy ===== *)
theory CheckpointCodec
  imports Wire GlobalIndexProps Diagnostics
begin

text \<open>
  The payload of a journal record or worker shard (\<open>AnnealIndexPayload\<close>, include/vycor/anneal/Checkpoint.h,
  src/anneal/Checkpoint.cpp): one unit's contribution to the global index in value form, its wire
  form and back, and a unit's diagnostics.  Each entry type is an interpretation of \<open>codec\<close>,
  whose laws the round trip of the whole payload is a rewriting with.
\<close>

subsection \<open>Flags\<close>

definition flag :: "nat \<Rightarrow> 8 word \<Rightarrow> bool" where
  \<comment> \<open>\<open>flags & (1 << i)\<close>\<close>
  "flag i x = (x AND push_bit i 1 \<noteq> 0)"

definition two_flags :: "bool \<Rightarrow> bool \<Rightarrow> 8 word" where
  "two_flags a b = (if a then 0x01 else 0) OR (if b then 0x02 else 0)"

definition coverage_flags :: "CoveragePropertyEntry \<Rightarrow> 8 word" where
  "coverage_flags e =
     ((((((if cpInlined e then 0x01 else 0) OR (if cpConstexpr e then 0x02 else 0))
         OR (if cpDefaulted e then 0x04 else 0)) OR (if cpTrivial e then 0x08 else 0))
       OR (if cpVirtual e then 0x10 else 0)) OR (if cpStatic e then 0x20 else 0))
     OR (if cpImplicit e then 0x40 else 0)"

subsection \<open>Entries\<close>

definition putOverload :: "FunctionOverloadEntry \<Rightarrow> string \<Rightarrow> string" where
  "putOverload e b =
     (let b1 = putStr (foName e) b;
          b2 = putStr (foHeader e) b1;
          b3 = putList putStr (foParams e) b2;
          b4 = putStr (foReturn e) b3
      in putU32 (foLine e) b4)"

definition getOverload :: "Reader \<Rightarrow> FunctionOverloadEntry \<times> Reader" where
  "getOverload r =
     (let (x1, r1) = getStr r;
          (x2, r2) = getStr r1;
          (x3, r3) = readList getStr r2;
          (x4, r4) = getStr r3;
          (x5, r5) = getU32 r4
      in (\<lparr>foName = x1, foHeader = x2, foParams = x3, foReturn = x4, foLine = x5\<rparr>, r5))"

definition overload_fits :: "FunctionOverloadEntry \<Rightarrow> bool" where
  "overload_fits e \<longleftrightarrow> str_fits (foName e) \<and> str_fits (foHeader e) \<and> list_fits str_fits (foParams e) \<and> str_fits (foReturn e)"

definition putGuide :: "DeductionGuideEntry \<Rightarrow> string \<Rightarrow> string" where
  "putGuide e b =
     (let b1 = putStr (gdTemplate e) b;
          b2 = putStr (gdHeader e) b1;
          b3 = putList putStr (gdParams e) b2;
          b4 = putStr (gdDeduced e) b3
      in putU32 (gdLine e) b4)"

definition getGuide :: "Reader \<Rightarrow> DeductionGuideEntry \<times> Reader" where
  "getGuide r =
     (let (x1, r1) = getStr r;
          (x2, r2) = getStr r1;
          (x3, r3) = readList getStr r2;
          (x4, r4) = getStr r3;
          (x5, r5) = getU32 r4
      in (\<lparr>gdTemplate = x1, gdHeader = x2, gdParams = x3, gdDeduced = x4, gdLine = x5\<rparr>, r5))"

definition guide_fits :: "DeductionGuideEntry \<Rightarrow> bool" where
  "guide_fits e \<longleftrightarrow> str_fits (gdTemplate e) \<and> str_fits (gdHeader e) \<and> list_fits str_fits (gdParams e) \<and> str_fits (gdDeduced e)"

definition putCoverage :: "CoveragePropertyEntry \<Rightarrow> string \<Rightarrow> string" where
  "putCoverage e b =
     (let b1 = putStr (cpName e) b;
          b2 = putStr (cpHeader e) b1;
          b3 = putU32 (cpLine e) b2;
          b4 = putStr (cpClass e) b3;
          b5 = putU32 (cpGvaLinkage e) b4;
          b6 = putU8 (coverage_flags e) b5;
          b7 = putU32 (cpTemplatedKind e) b6;
          b8 = putU32 (cpStorageClass e) b7;
          b9 = putU32 (cpFormalLinkage e) b8;
          b10 = putU32 (cpStmtCount e) b9
      in putStr (cpSignature e) b10)"

definition getCoverage :: "Reader \<Rightarrow> CoveragePropertyEntry \<times> Reader" where
  "getCoverage r =
     (let (x1, r1) = getStr r;
          (x2, r2) = getStr r1;
          (x3, r3) = getU32 r2;
          (x4, r4) = getStr r3;
          (x5, r5) = getU32 r4;
          (x6, r6) = getU8 r5;
          (x7, r7) = getU32 r6;
          (x8, r8) = getU32 r7;
          (x9, r9) = getU32 r8;
          (x10, r10) = getU32 r9;
          (x11, r11) = getStr r10
      in (\<lparr>cpName = x1, cpHeader = x2, cpLine = x3, cpClass = x4, cpGvaLinkage = x5,
            cpInlined = flag 0 x6, cpConstexpr = flag 1 x6, cpDefaulted = flag 2 x6,
            cpTrivial = flag 3 x6, cpVirtual = flag 4 x6, cpStatic = flag 5 x6,
            cpImplicit = flag 6 x6, cpTemplatedKind = x7, cpStorageClass = x8, cpFormalLinkage = x9,
            cpStmtCount = x10, cpSignature = x11\<rparr>, r11))"

definition coverage_fits :: "CoveragePropertyEntry \<Rightarrow> bool" where
  "coverage_fits e \<longleftrightarrow> str_fits (cpName e) \<and> str_fits (cpHeader e) \<and> str_fits (cpClass e) \<and> str_fits (cpSignature e)"

definition putOdr :: "OdrEntry \<Rightarrow> string \<Rightarrow> string" where
  "putOdr e b =
     (let b1 = putStr (odName e) b;
          b2 = putStr (odSignature e) b1;
          b3 = putU8 (if odIsClass e then 1 else 0) b2;
          b4 = putStr (odClass e) b3;
          b5 = putStr (odFile e) b4;
          b6 = putU32 (odLine e) b5
      in putU64 (odHash e) b6)"

definition getOdr :: "Reader \<Rightarrow> OdrEntry \<times> Reader" where
  "getOdr r =
     (let (x1, r1) = getStr r;
          (x2, r2) = getStr r1;
          (x3, r3) = getU8 r2;
          (x4, r4) = getStr r3;
          (x5, r5) = getStr r4;
          (x6, r6) = getU32 r5;
          (x7, r7) = getU64 r6
      in (\<lparr>odName = x1, odSignature = x2, odIsClass = (x3 \<noteq> 0), odClass = x4, odFile = x5,
            odLine = x6, odHash = x7\<rparr>, r7))"

definition odr_fits :: "OdrEntry \<Rightarrow> bool" where
  "odr_fits e \<longleftrightarrow> str_fits (odName e) \<and> str_fits (odSignature e) \<and> str_fits (odClass e) \<and> str_fits (odFile e)"

definition putSpecialization :: "SpecializationEntry \<Rightarrow> string \<Rightarrow> string" where
  "putSpecialization e b =
     (let b1 = putStr (spTemplate e) b;
          b2 = putStr (spArgs e) b1;
          b3 = putStr (spHeader e) b2
      in putU32 (spLine e) b3)"

definition getSpecialization :: "Reader \<Rightarrow> SpecializationEntry \<times> Reader" where
  "getSpecialization r =
     (let (x1, r1) = getStr r;
          (x2, r2) = getStr r1;
          (x3, r3) = getStr r2;
          (x4, r4) = getU32 r3
      in (\<lparr>spTemplate = x1, spArgs = x2, spHeader = x3, spLine = x4\<rparr>, r4))"

definition specialization_fits :: "SpecializationEntry \<Rightarrow> bool" where
  "specialization_fits e \<longleftrightarrow> str_fits (spTemplate e) \<and> str_fits (spArgs e) \<and> str_fits (spHeader e)"

definition putDefaultArg :: "DefaultArgEntry \<Rightarrow> string \<Rightarrow> string" where
  "putDefaultArg e b =
     (let b1 = putStr (daName e) b;
          b2 = putStr (daSignature e) b1;
          b3 = putU32 (daParamIndex e) b2;
          b4 = putStr (daParamName e) b3;
          b5 = putStr (daText e) b4;
          b6 = putStr (daFile e) b5
      in putU32 (daLine e) b6)"

definition getDefaultArg :: "Reader \<Rightarrow> DefaultArgEntry \<times> Reader" where
  "getDefaultArg r =
     (let (x1, r1) = getStr r;
          (x2, r2) = getStr r1;
          (x3, r3) = getU32 r2;
          (x4, r4) = getStr r3;
          (x5, r5) = getStr r4;
          (x6, r6) = getStr r5;
          (x7, r7) = getU32 r6
      in (\<lparr>daName = x1, daSignature = x2, daParamIndex = x3, daParamName = x4, daText = x5,
            daFile = x6, daLine = x7\<rparr>, r7))"

definition defaultArg_fits :: "DefaultArgEntry \<Rightarrow> bool" where
  "defaultArg_fits e \<longleftrightarrow> str_fits (daName e) \<and> str_fits (daSignature e) \<and> str_fits (daParamName e) \<and> str_fits (daText e) \<and> str_fits (daFile e)"

definition putStaticInit :: "StaticInitEntry \<Rightarrow> string \<Rightarrow> string" where
  "putStaticInit e b =
     (let b1 = putStr (siName e) b;
          b2 = putStr (siFile e) b1;
          b3 = putU32 (siLine e) b2;
          b4 = putU8 (two_flags (siDynamic e) (siConstructorFn e)) b3;
          b5 = putList putStr (siGlobals e) b4
      in putList putStr (siCalls e) b5)"

definition getStaticInit :: "Reader \<Rightarrow> StaticInitEntry \<times> Reader" where
  "getStaticInit r =
     (let (x1, r1) = getStr r;
          (x2, r2) = getStr r1;
          (x3, r3) = getU32 r2;
          (x4, r4) = getU8 r3;
          (x5, r5) = readList getStr r4;
          (x6, r6) = readList getStr r5
      in (\<lparr>siName = x1, siFile = x2, siLine = x3, siDynamic = flag 0 x4,
            siConstructorFn = flag 1 x4, siGlobals = x5, siCalls = x6\<rparr>, r6))"

definition staticInit_fits :: "StaticInitEntry \<Rightarrow> bool" where
  "staticInit_fits e \<longleftrightarrow> str_fits (siName e) \<and> str_fits (siFile e) \<and> list_fits str_fits (siGlobals e) \<and> list_fits str_fits (siCalls e)"

definition putSummary :: "FunctionSummaryEntry \<Rightarrow> string \<Rightarrow> string" where
  "putSummary e b =
     (let b1 = putStr (fsName e) b;
          b2 = putStr (fsFile e) b1;
          b3 = putU32 (fsLine e) b2;
          b4 = putU8 (two_flags (fsNoexcept e) (fsThrows e)) b3;
          b5 = putList putStr (fsCalls e) b4;
          b6 = putList putStr (fsUnguarded e) b5
      in putList putStr (fsGlobals e) b6)"

definition getSummary :: "Reader \<Rightarrow> FunctionSummaryEntry \<times> Reader" where
  "getSummary r =
     (let (x1, r1) = getStr r;
          (x2, r2) = getStr r1;
          (x3, r3) = getU32 r2;
          (x4, r4) = getU8 r3;
          (x5, r5) = readList getStr r4;
          (x6, r6) = readList getStr r5;
          (x7, r7) = readList getStr r6
      in (\<lparr>fsName = x1, fsFile = x2, fsLine = x3, fsNoexcept = flag 0 x4, fsThrows = flag 1 x4,
            fsCalls = x5, fsUnguarded = x6, fsGlobals = x7\<rparr>, r7))"

definition summary_fits :: "FunctionSummaryEntry \<Rightarrow> bool" where
  "summary_fits e \<longleftrightarrow> str_fits (fsName e) \<and> str_fits (fsFile e) \<and> list_fits str_fits (fsCalls e) \<and> list_fits str_fits (fsUnguarded e) \<and> list_fits str_fits (fsGlobals e)"

definition putHeaderStatic :: "HeaderStaticEntry \<Rightarrow> string \<Rightarrow> string" where
  "putHeaderStatic e b =
     (let b1 = putStr (hsName e) b;
          b2 = putStr (hsFile e) b1;
          b3 = putU32 (hsLine e) b2;
          b4 = putU8 (if hsConst e then 1 else 0) b3
      in putList putStr (hsTus e) b4)"

definition getHeaderStatic :: "Reader \<Rightarrow> HeaderStaticEntry \<times> Reader" where
  "getHeaderStatic r =
     (let (x1, r1) = getStr r;
          (x2, r2) = getStr r1;
          (x3, r3) = getU32 r2;
          (x4, r4) = getU8 r3;
          (x5, r5) = readList getStr r4
      in (\<lparr>hsName = x1, hsFile = x2, hsLine = x3, hsConst = (x4 \<noteq> 0), hsTus = x5\<rparr>, r5))"

definition headerStatic_fits :: "HeaderStaticEntry \<Rightarrow> bool" where
  "headerStatic_fits e \<longleftrightarrow> str_fits (hsName e) \<and> str_fits (hsFile e) \<and> list_fits str_fits (hsTus e)"

definition putExceptionSpec :: "ExceptionSpecEntry \<Rightarrow> string \<Rightarrow> string" where
  "putExceptionSpec e b =
     (let b1 = putStr (xsName e) b;
          b2 = putStr (xsSignature e) b1;
          b3 = putU8 (if xsNoexcept e then 1 else 0) b2;
          b4 = putStr (xsFile e) b3
      in putU32 (xsLine e) b4)"

definition getExceptionSpec :: "Reader \<Rightarrow> ExceptionSpecEntry \<times> Reader" where
  "getExceptionSpec r =
     (let (x1, r1) = getStr r;
          (x2, r2) = getStr r1;
          (x3, r3) = getU8 r2;
          (x4, r4) = getStr r3;
          (x5, r5) = getU32 r4
      in (\<lparr>xsName = x1, xsSignature = x2, xsNoexcept = (x3 \<noteq> 0), xsFile = x4, xsLine = x5\<rparr>, r5))"

definition exceptionSpec_fits :: "ExceptionSpecEntry \<Rightarrow> bool" where
  "exceptionSpec_fits e \<longleftrightarrow> str_fits (xsName e) \<and> str_fits (xsSignature e) \<and> str_fits (xsFile e)"

definition putDiagnostic :: "Diagnostic \<Rightarrow> string \<Rightarrow> string" where
  "putDiagnostic e b =
     (let b1 = putU32 (kind_code (dgKind e)) b;
          b2 = putStr (dgCallLocation e) b1;
          b3 = putStr (dgResolvedDecl e) b2;
          b4 = putStr (dgBetterDecl e) b3;
          b5 = putStr (dgMissingHeader e) b4;
          b6 = putStr (dgMessage e) b5
      in putStr (dgCheckName e) b6)"

definition getDiagnostic :: "Reader \<Rightarrow> Diagnostic \<times> Reader" where
  "getDiagnostic r =
     (let (x1, r1) = getU32 r;
          (x2, r2) = getStr r1;
          (x3, r3) = getStr r2;
          (x4, r4) = getStr r3;
          (x5, r5) = getStr r4;
          (x6, r6) = getStr r5;
          (x7, r7) = getStr r6
      in (\<lparr>dgKind = kind_of_code x1, dgCallLocation = x2, dgResolvedDecl = x3, dgBetterDecl = x4,
            dgMissingHeader = x5, dgMessage = x6, dgCheckName = x7\<rparr>, r7))"

definition diagnostic_fits :: "Diagnostic \<Rightarrow> bool" where
  "diagnostic_fits e \<longleftrightarrow> kind_ok (dgKind e) \<and> str_fits (dgCallLocation e) \<and> str_fits (dgResolvedDecl e) \<and> str_fits (dgBetterDecl e) \<and> str_fits (dgMissingHeader e) \<and> str_fits (dgMessage e) \<and> str_fits (dgCheckName e)"

subsection \<open>The payload\<close>

record AnnealIndexPayload =
  plOverloads :: "FunctionOverloadEntry list"
  plGuides :: "DeductionGuideEntry list"
  plCoverage :: "CoveragePropertyEntry list"
  plOdr :: "OdrEntry list"
  plSpecializations :: "SpecializationEntry list"
  plDefaultArgs :: "DefaultArgEntry list"
  plStaticInits :: "StaticInitEntry list"
  plSummaries :: "FunctionSummaryEntry list"
  plHeaderStatics :: "HeaderStaticEntry list"
  plExceptionSpecs :: "ExceptionSpecEntry list"
  plBaseEdges :: "(string \<times> string) list"
  plCtorEdges :: "(string \<times> string) list"
  plConvOpEdges :: "(string \<times> string) list"

definition push :: "'a \<Rightarrow> 'a list \<Rightarrow> 'a list" where
  \<comment> \<open>\<open>v.push_back(e)\<close>\<close>
  "push e v = v @ [e]"

definition capture :: "GlobalIndex \<Rightarrow> AnnealIndexPayload" where
  "capture shard =
     \<lparr>plOverloads = forEachOverload shard push [], plGuides = forEachDeductionGuide shard push [],
      plCoverage = forEachCoverageProperty shard push [], plOdr = fold push (odrEntries shard) [],
      plSpecializations = forEachSpecialization shard push [],
      plDefaultArgs = fold push (defaultArgs shard) [], plStaticInits = fold push (staticInits shard) [],
      plSummaries = fold push (functionSummaries shard) [],
      plHeaderStatics = fold push (headerStatics shard) [],
      plExceptionSpecs = fold push (exceptionSpecs shard) [],
      plBaseEdges = forEachBase (giTypes shard) (\<lambda>d b. push (d, b)) [],
      plCtorEdges = forEachCtorEdge (giTypes shard) (\<lambda>to_t from_t. push (to_t, from_t)) [],
      plConvOpEdges = forEachConvOpEdge (giTypes shard) (\<lambda>from_t to_t. push (from_t, to_t)) []\<rparr>"

definition applyTo :: "AnnealIndexPayload \<Rightarrow> GlobalIndex \<Rightarrow> GlobalIndex" where
  "applyTo p g0 =
     (let g1 = fold addFunctionOverload (plOverloads p) g0;
          g2 = fold addDeductionGuide (plGuides p) g1;
          g3 = fold addCoverageProperty (plCoverage p) g2;
          g4 = fold addOdrEntry (plOdr p) g3;
          g5 = fold addSpecialization (plSpecializations p) g4;
          g6 = fold addDefaultArg (plDefaultArgs p) g5;
          g7 = fold addStaticInit (plStaticInits p) g6;
          g8 = fold addFunctionSummary (plSummaries p) g7;
          g9 = fold addHeaderStatic (plHeaderStatics p) g8;
          g10 = fold addExceptionSpec (plExceptionSpecs p) g9;
          t1 = fold (\<lambda>(d, b). addBase d b) (plBaseEdges p) (giTypes g10);
          t2 = fold (\<lambda>(t, f). addCtorEdge t f) (plCtorEdges p) t1;
          t3 = fold (\<lambda>(f, t). addConvOpEdge f t) (plConvOpEdges p) t2
      in g10\<lparr>giTypes := t3\<rparr>)"

definition putPair :: "string \<times> string \<Rightarrow> string \<Rightarrow> string" where
  "putPair p b = putStr (snd p) (putStr (fst p) b)"

definition putStringPairs :: "(string \<times> string) list \<Rightarrow> string \<Rightarrow> string" where
  "putStringPairs v b = putList putPair v b"

definition getPair :: "Reader \<Rightarrow> (string \<times> string) \<times> Reader" where
  "getPair r = (let (a, r1) = getStr r; (b, r2) = getStr r1 in ((a, b), r2))"

definition readStringPairs :: "Reader \<Rightarrow> (string \<times> string) list \<times> Reader" where
  "readStringPairs r = readList getPair r"

definition pair_fits :: "string \<times> string \<Rightarrow> bool" where
  "pair_fits p \<longleftrightarrow> str_fits (fst p) \<and> str_fits (snd p)"

definition encodeIndexPayload :: "AnnealIndexPayload \<Rightarrow> string \<Rightarrow> string" where
  "encodeIndexPayload p out =
     (let b1 = putList putOverload (plOverloads p) out;
          b2 = putList putGuide (plGuides p) b1;
          b3 = putList putCoverage (plCoverage p) b2;
          b4 = putStringPairs (plBaseEdges p) b3;
          b5 = putStringPairs (plCtorEdges p) b4;
          b6 = putStringPairs (plConvOpEdges p) b5;
          b7 = putList putOdr (plOdr p) b6;
          b8 = putList putSpecialization (plSpecializations p) b7;
          b9 = putList putDefaultArg (plDefaultArgs p) b8;
          b10 = putList putStaticInit (plStaticInits p) b9;
          b11 = putList putSummary (plSummaries p) b10;
          b12 = putList putHeaderStatic (plHeaderStatics p) b11
      in putList putExceptionSpec (plExceptionSpecs p) b12)"

definition decodeIndexPayload :: "Reader \<Rightarrow> AnnealIndexPayload \<times> Reader" where
  \<comment> \<open>the Boolean it returns is \<open>rdOk\<close> of the reader it leaves\<close>
  "decodeIndexPayload r =
     (let (x1, r1) = readList getOverload r;
          (x2, r2) = readList getGuide r1;
          (x3, r3) = readList getCoverage r2;
          (x4, r4) = readStringPairs r3;
          (x5, r5) = readStringPairs r4;
          (x6, r6) = readStringPairs r5;
          (x7, r7) = readList getOdr r6;
          (x8, r8) = readList getSpecialization r7;
          (x9, r9) = readList getDefaultArg r8;
          (x10, r10) = readList getStaticInit r9;
          (x11, r11) = readList getSummary r10;
          (x12, r12) = readList getHeaderStatic r11;
          (x13, r13) = readList getExceptionSpec r12
      in (\<lparr>plOverloads = x1, plGuides = x2, plCoverage = x3, plOdr = x7, plSpecializations = x8,
            plDefaultArgs = x9, plStaticInits = x10, plSummaries = x11, plHeaderStatics = x12,
            plExceptionSpecs = x13, plBaseEdges = x4, plCtorEdges = x5, plConvOpEdges = x6\<rparr>, r13))"

definition payload_fits :: "AnnealIndexPayload \<Rightarrow> bool" where
  "payload_fits p \<longleftrightarrow>
     list_fits overload_fits (plOverloads p) \<and> list_fits guide_fits (plGuides p)
     \<and> list_fits coverage_fits (plCoverage p) \<and> list_fits odr_fits (plOdr p)
     \<and> list_fits specialization_fits (plSpecializations p) \<and> list_fits defaultArg_fits (plDefaultArgs p)
     \<and> list_fits staticInit_fits (plStaticInits p) \<and> list_fits summary_fits (plSummaries p)
     \<and> list_fits headerStatic_fits (plHeaderStatics p) \<and> list_fits exceptionSpec_fits (plExceptionSpecs p)
     \<and> list_fits pair_fits (plBaseEdges p) \<and> list_fits pair_fits (plCtorEdges p)
     \<and> list_fits pair_fits (plConvOpEdges p)"

definition encodeDiagnostics :: "Diagnostic list \<Rightarrow> string \<Rightarrow> string" where
  "encodeDiagnostics diags out = putList putDiagnostic diags out"

definition decodeDiagnostics :: "Reader \<Rightarrow> Diagnostic list \<times> Reader" where
  "decodeDiagnostics r = readList getDiagnostic r"

subsection \<open>Round trips\<close>

lemma two_flags_facts: "flag 0 (two_flags a b) = a" "flag 1 (two_flags a b) = b"
  by (cases a; cases b; simp add: flag_def two_flags_def)+

lemma coverage_flags_facts:
  "flag 0 (coverage_flags e) = cpInlined e" "flag 1 (coverage_flags e) = cpConstexpr e"
  "flag 2 (coverage_flags e) = cpDefaulted e" "flag 3 (coverage_flags e) = cpTrivial e"
  "flag 4 (coverage_flags e) = cpVirtual e" "flag 5 (coverage_flags e) = cpStatic e"
  "flag 6 (coverage_flags e) = cpImplicit e"
  unfolding flag_def coverage_flags_def by (simp_all split: if_split)

lemmas flag_facts = two_flags_facts two_flags_facts[unfolded One_nat_def] coverage_flags_facts
  coverage_flags_facts[unfolded One_nat_def]

interpretation overloads: codec putOverload getOverload overload_fits
  by unfold_locales (simp_all add: putOverload_def getOverload_def overload_fits_def wires reads flag_facts kind_round)

interpretation guides: codec putGuide getGuide guide_fits
  by unfold_locales (simp_all add: putGuide_def getGuide_def guide_fits_def wires reads flag_facts kind_round)

interpretation coverages: codec putCoverage getCoverage coverage_fits
  by unfold_locales (simp_all add: putCoverage_def getCoverage_def coverage_fits_def wires reads flag_facts kind_round)

interpretation odrs: codec putOdr getOdr odr_fits
  by unfold_locales (simp_all add: putOdr_def getOdr_def odr_fits_def wires reads flag_facts kind_round)

interpretation specializations: codec putSpecialization getSpecialization specialization_fits
  by unfold_locales (simp_all add: putSpecialization_def getSpecialization_def specialization_fits_def wires reads flag_facts kind_round)

interpretation defaultArgs: codec putDefaultArg getDefaultArg defaultArg_fits
  by unfold_locales (simp_all add: putDefaultArg_def getDefaultArg_def defaultArg_fits_def wires reads flag_facts kind_round)

interpretation staticInits: codec putStaticInit getStaticInit staticInit_fits
  by unfold_locales (simp_all add: putStaticInit_def getStaticInit_def staticInit_fits_def wires reads flag_facts kind_round)

interpretation summarys: codec putSummary getSummary summary_fits
  by unfold_locales (simp_all add: putSummary_def getSummary_def summary_fits_def wires reads flag_facts kind_round)

interpretation headerStatics: codec putHeaderStatic getHeaderStatic headerStatic_fits
  by unfold_locales (simp_all add: putHeaderStatic_def getHeaderStatic_def headerStatic_fits_def wires reads flag_facts kind_round)

interpretation exceptionSpecs: codec putExceptionSpec getExceptionSpec exceptionSpec_fits
  by unfold_locales (simp_all add: putExceptionSpec_def getExceptionSpec_def exceptionSpec_fits_def wires reads flag_facts kind_round)

interpretation diagnostics: codec putDiagnostic getDiagnostic diagnostic_fits
  by unfold_locales (simp_all add: putDiagnostic_def getDiagnostic_def diagnostic_fits_def wires reads flag_facts kind_round)

interpretation pairs: codec putPair getPair pair_fits
  by unfold_locales (simp_all add: putPair_def getPair_def pair_fits_def wires reads)

interpretation payloads: codec encodeIndexPayload decodeIndexPayload payload_fits
  by unfold_locales (simp_all add: encodeIndexPayload_def decodeIndexPayload_def putStringPairs_def
      readStringPairs_def payload_fits_def wires reads)

interpretation diagnostic_lists: codec encodeDiagnostics decodeDiagnostics "list_fits diagnostic_fits"
  by unfold_locales (simp_all add: encodeDiagnostics_def decodeDiagnostics_def wires reads)

end
