(* ===== verification/Checkpoint.thy ===== *)
theory Checkpoint
  imports CheckpointCodec "HOL-Library.List_Lexorder" "HOL-Library.Char_ord"
begin

text \<open>
  The checkpoint journal and the worker shard files (include/vycor/anneal/Checkpoint.h,
  include/vycor/callgraph/FileStamp.h, src/anneal/Checkpoint.cpp).  A file is its bytes; opening,
  writing and flushing a stream succeed.  The two readers of framed files compute
  \<open>need(len + 4)\<close> in 32 bits and then step \<open>len\<close> bytes forward, so they can leave the buffer: the
  result \<open>None\<close> stands for that out-of-bounds access, which C++ leaves undefined.
\<close>

subsection \<open>Hashes and stamps\<close>

record FileStamp =
  stPath :: string
  stMtime :: "64 word"
  stSize :: "64 word"

definition fnv32 :: "string \<Rightarrow> 32 word" where
  "fnv32 data = fold (\<lambda>c h. (h XOR of_char c) * 16777619) data 2166136261"

definition fnv64 :: "string \<Rightarrow> 64 word \<Rightarrow> 64 word" where
  "fnv64 data seed = fold (\<lambda>c h. (h XOR of_char c) * 1099511628211) data seed"

definition kFnv64Seed :: "64 word" where
  "kFnv64Seed = 14695981039346656037"

definition stampKey :: "FileStamp \<Rightarrow> string" where
  "stampKey s = stPath s @ ''|'' @ nat_string (unat (stMtime s)) @ ''|'' @ nat_string (unat (stSize s))"

definition annealStampSetHash :: "FileStamp list \<Rightarrow> 64 word" where
  "annealStampSetHash stamps =
     fold (\<lambda>k h. fnv64 [CHR 0x0A] (fnv64 k h)) (sort (map stampKey stamps)) kFnv64Seed"

text \<open>
  The options that the journal's identity depends on.  The version string is generated by the build
  and the organization checks register themselves, so both are arguments; the callback that runs
  isolated workers is left out of the record.
\<close>

record AnalysisOptions =
  enableAdlDiag :: bool
  enableCtadDiag :: bool
  enableSpecializationDiag :: bool
  enableStaticInitOrderDiag :: bool
  enableDefaultArgDiag :: bool
  enableExceptionSpecDiag :: bool
  enableHeaderStaticDiag :: bool
  enableExceptionEscapeDiag :: bool
  enableCoverageDiag :: bool
  enableOdrDiag :: bool
  warnSameScore :: bool
  modelConvertibility :: bool
  disabledChecks :: "string list"
  threadCount :: "32 word"
  checkpointPath :: string
  workerCount :: "32 word"

definition digit :: "bool \<Rightarrow> string" where
  "digit b = (if b then ''1'' else ''0'')"

definition optionsCanon :: "string \<Rightarrow> string list \<Rightarrow> AnalysisOptions \<Rightarrow> string" where
  "optionsCanon version registered opts =
     version @ ''|v1|ws='' @ digit (warnSameScore opts) @ ''|mc='' @ digit (modelConvertibility opts)
     @ ''|odr='' @ digit (enableOdrDiag opts) @ ''|adl='' @ digit (enableAdlDiag opts)
     @ ''|ctad='' @ digit (enableCtadDiag opts) @ ''|spec='' @ digit (enableSpecializationDiag opts)
     @ ''|defarg='' @ digit (enableDefaultArgDiag opts) @ ''|sinit='' @ digit (enableStaticInitOrderDiag opts)
     @ ''|xesc='' @ digit (enableExceptionEscapeDiag opts) @ ''|hsd='' @ digit (enableHeaderStaticDiag opts)
     @ ''|xsd='' @ digit (enableExceptionSpecDiag opts) @ ''|checks=''
     @ concat (map (\<lambda>n. n @ '','') (sort (filter (\<lambda>n. n \<notin> set (disabledChecks opts)) registered)))"

definition annealOptionsFingerprint :: "string \<Rightarrow> string list \<Rightarrow> AnalysisOptions \<Rightarrow> 64 word" where
  "annealOptionsFingerprint version registered opts = fnv64 (optionsCanon version registered opts) kFnv64Seed"

definition putStamp :: "FileStamp \<Rightarrow> string \<Rightarrow> string" where
  "putStamp stamp b = putU64 (stSize stamp) (putU64 (stMtime stamp) b)"

subsection \<open>The journal in memory\<close>

record Phase1Record =
  p1Stamp :: FileStamp
  p1Payload :: AnnealIndexPayload

record Phase2Record =
  p2Stamp :: FileStamp
  p2SetHash :: "64 word"
  p2Diagnostics :: "Diagnostic list"

record AttemptState =
  asStamp :: FileStamp
  asCount :: "32 word"

record AnnealCheckpoint =
  ckOut :: string
  ckPhase1 :: "(string, Phase1Record) umap"
  ckPhase2 :: "(string, Phase2Record) umap"
  ckAttempts :: "(string, AttemptState) umap"

definition kPhaseIndex :: "8 word" where "kPhaseIndex = 1"
definition kPhaseAnalyze :: "8 word" where "kPhaseAnalyze = 2"
definition kKindAttempt :: "8 word" where "kKindAttempt = 1"
definition kKindPhase1 :: "8 word" where "kKindPhase1 = 2"
definition kKindPhase2 :: "8 word" where "kKindPhase2 = 3"
definition kVersion :: "32 word" where "kVersion = 8"
definition kHeaderSize :: nat where "kHeaderSize = 4 + 4 + 8"
definition kMagic :: string where "kMagic = ''VYCJ''"

definition attemptKey :: "8 word \<Rightarrow> string \<Rightarrow> string" where
  "attemptKey phase tu = [char_of (unat phase), CHR 0x00] @ tu"

definition note_attempt :: "8 word \<Rightarrow> string \<Rightarrow> FileStamp \<Rightarrow> (string, AttemptState) umap \<Rightarrow> (string, AttemptState) umap" where
  \<comment> \<open>\<open>auto &state = attempts_[attemptKey(phase, tu)]; ...\<close>, a missing state being default constructed\<close>
  "note_attempt phase tu stamp m =
     (let key = attemptKey phase tu;
          state = (case map_of m key of
                     Some s \<Rightarrow> s
                   | None \<Rightarrow> \<lparr>asStamp = \<lparr>stPath = [], stMtime = 0, stSize = 0\<rparr>, asCount = 0\<rparr>)
      in AList.update key
           (if asStamp state = stamp then state\<lparr>asCount := asCount state + 1\<rparr>
            else \<lparr>asStamp = stamp, asCount = 1\<rparr>) m)"

subsection \<open>Loading\<close>

definition load_attempt :: "Reader \<Rightarrow> AnnealCheckpoint \<Rightarrow> AnnealCheckpoint" where
  "load_attempt r ck =
     (let (phase, r1) = getU8 r; (tu, r2) = getStr r1; (m, r3) = getU64 r2; (s, r4) = getU64 r3 in
      if \<not> rdOk r4 then ck
      else ck\<lparr>ckAttempts := note_attempt phase tu \<lparr>stPath = tu, stMtime = m, stSize = s\<rparr> (ckAttempts ck)\<rparr>)"

definition load_phase1 :: "Reader \<Rightarrow> AnnealCheckpoint \<Rightarrow> AnnealCheckpoint" where
  "load_phase1 r ck =
     (let (tu, r1) = getStr r; (m, r2) = getU64 r1; (s, r3) = getU64 r2; (p, r4) = decodeIndexPayload r3 in
      if \<not> rdOk r4 then ck
      else ck\<lparr>ckAttempts := AList.delete (attemptKey kPhaseIndex tu) (ckAttempts ck),
              ckPhase1 := AList.update tu
                \<lparr>p1Stamp = \<lparr>stPath = tu, stMtime = m, stSize = s\<rparr>, p1Payload = p\<rparr> (ckPhase1 ck)\<rparr>)"

definition load_phase2 :: "Reader \<Rightarrow> AnnealCheckpoint \<Rightarrow> AnnealCheckpoint" where
  "load_phase2 r ck =
     (let (tu, r1) = getStr r; (m, r2) = getU64 r1; (s, r3) = getU64 r2; (h, r4) = getU64 r3;
          (ds, r5) = decodeDiagnostics r4 in
      if \<not> rdOk r5 then ck
      else ck\<lparr>ckAttempts := AList.delete (attemptKey kPhaseAnalyze tu) (ckAttempts ck),
              ckPhase2 := AList.update tu
                \<lparr>p2Stamp = \<lparr>stPath = tu, stMtime = m, stSize = s\<rparr>, p2SetHash = h, p2Diagnostics = ds\<rparr> (ckPhase2 ck)\<rparr>)"

definition load_record :: "8 word \<Rightarrow> string \<Rightarrow> AnnealCheckpoint \<Rightarrow> AnnealCheckpoint" where
  "load_record kind payload ck =
     (let r = newReader payload in
      if kind = kKindAttempt then load_attempt r ck
      else if kind = kKindPhase1 then load_phase1 r ck
      else if kind = kKindPhase2 then load_phase2 r ck
      else ck)"

lemma getU8_frame:
  "getU8 r = (v, r1) \<Longrightarrow> rdOk r1 \<Longrightarrow> rdOk r \<and> rdData r1 = rdData r \<and> rdPos r1 = rdPos r + 1"
  by (auto simp: getU8_def need_def split: if_splits)

lemma getU32_frame:
  "getU32 r = (v, r1) \<Longrightarrow> rdData r1 = rdData r \<and> rdPos r \<le> rdPos r1 \<and> (rdOk r1 \<longrightarrow> rdOk r)"
  by (auto simp: getU32_def need_def split: if_splits)

lemma need_frame: "need n r = (True, r1) \<Longrightarrow> r1 = r \<and> rdOk r"
  by (auto simp: need_def split: if_splits)

text \<open>One round of a framed file moves the reader forward.\<close>

lemma frame_progress:
  assumes "getU8 stream = (kind, s1)" and "getU32 s1 = (len, s2)" and "need n s2 = (True, s3)"
    and "getU32 (s3\<lparr>rdPos := rdPos s3 + unat len\<rparr>) = (checksum, s4)"
  shows "rdData s4 = rdData stream \<and> rdPos stream < rdPos s4"
proof -
  have 3: "s3 = s2" "rdOk s2" using need_frame[OF assms(3)] by simp_all
  have 2: "rdData s2 = rdData s1" "rdPos s1 \<le> rdPos s2" "rdOk s1" using getU32_frame[OF assms(2)] 3(2) by simp_all
  have 1: "rdData s1 = rdData stream" "rdPos s1 = rdPos stream + 1" using getU8_frame[OF assms(1) 2(3)] by simp_all
  have "rdData s4 = rdData s3" "rdPos s3 + unat len \<le> rdPos s4" using getU32_frame[OF assms(4)] by simp_all
  then show ?thesis using 1 2 3 by simp
qed

function load_loop :: "Reader \<Rightarrow> AnnealCheckpoint \<Rightarrow> AnnealCheckpoint option" where
  "load_loop stream ck =
     (if \<not> (rdOk stream \<and> rdPos stream < length (rdData stream)) then Some ck
      else let (kind, s1) = getU8 stream; (len, s2) = getU32 s1; (enough, s3) = need (unat (len + 4)) s2 in
           if \<not> enough then Some ck
           else if rdPos s3 + unat len > length (rdData s3) then None
           else let payload = take (unat len) (drop (rdPos s3) (rdData s3));
                    (checksum, s4) = getU32 (s3\<lparr>rdPos := rdPos s3 + unat len\<rparr>) in
                if checksum \<noteq> fnv32 payload then Some ck
                else load_loop s4 (load_record kind payload ck))"
  by pat_completeness auto
termination
proof (relation "measure (\<lambda>(stream, ck). length (rdData stream) - rdPos stream)")
  fix stream s1 s2 s3 s4 :: Reader and ck kind len enough payload checksum x y z w
  assume a: "\<not> \<not> (rdOk stream \<and> rdPos stream < length (rdData stream))"
    "x = getU8 stream" "(kind, s1) = x" "y = getU32 s1" "(len, s2) = y" "z = need (unat (len + 4)) s2" "(enough, s3) = z"
    "\<not> \<not> enough" "w = getU32 (s3\<lparr>rdPos := rdPos s3 + unat len\<rparr>)" "(checksum, s4) = w"
  have "rdData s4 = rdData stream \<and> rdPos stream < rdPos s4"
    by (rule frame_progress[of stream kind s1 len s2 "unat (len + 4)" s3 checksum]) (use a in auto)
  then show "((s4, load_record kind payload ck), stream, ck) \<in> measure (\<lambda>(stream, ck). length (rdData stream) - rdPos stream)"
    using a(1) by (simp add: diff_less_mono2)
qed simp

declare load_loop.simps [simp del]

definition loadRecords :: "string \<Rightarrow> AnnealCheckpoint \<Rightarrow> AnnealCheckpoint option" where
  "loadRecords data ck = load_loop (newReader data) ck"

definition journal_header :: "64 word \<Rightarrow> string" where
  "journal_header fingerprint = putU64 fingerprint (putU32 kVersion kMagic)"

definition openCheckpoint :: "string option \<Rightarrow> 64 word \<Rightarrow> AnnealCheckpoint option" where
  \<comment> \<open>\<open>AnnealCheckpoint::open\<close>, given the bytes of the file if it can be read; \<open>OF_Append\<close> keeps them,
    \<open>OF_None\<close> truncates the file\<close>
  "openCheckpoint file optionsFingerprint =
     (let fresh = \<lparr>ckOut = journal_header optionsFingerprint, ckPhase1 = [], ckPhase2 = [], ckAttempts = []\<rparr> in
      case file of
        None \<Rightarrow> Some fresh
      | Some buf \<Rightarrow>
          (if length buf \<ge> kHeaderSize \<and> take 4 buf = kMagic
           then let (version, h1) = getU32 (newReader (take (kHeaderSize - 4) (drop 4 buf)));
                    (fingerprint, h2) = getU64 h1 in
                if version = kVersion \<and> fingerprint = optionsFingerprint
                then loadRecords (drop kHeaderSize buf) (fresh\<lparr>ckOut := buf\<rparr>)
                else Some fresh
           else Some fresh))"

subsection \<open>Queries\<close>

definition attempts :: "AnnealCheckpoint \<Rightarrow> 8 word \<Rightarrow> string \<Rightarrow> FileStamp \<Rightarrow> 32 word" where
  "attempts ck phase tu stamp =
     (case map_of (ckAttempts ck) (attemptKey phase tu) of
        None \<Rightarrow> 0
      | Some s \<Rightarrow> if asStamp s = stamp then asCount s else 0)"

definition replayPhase1 :: "AnnealCheckpoint \<Rightarrow> string \<Rightarrow> FileStamp \<Rightarrow> GlobalIndex \<Rightarrow> bool \<times> GlobalIndex" where
  "replayPhase1 ck tu stamp into =
     (case map_of (ckPhase1 ck) tu of
        None \<Rightarrow> (False, into)
      | Some rec \<Rightarrow> if p1Stamp rec = stamp then (True, applyTo (p1Payload rec) into) else (False, into))"

definition replayPhase2 :: "AnnealCheckpoint \<Rightarrow> string \<Rightarrow> FileStamp \<Rightarrow> 64 word \<Rightarrow> Diagnostic list \<Rightarrow> bool \<times> Diagnostic list" where
  "replayPhase2 ck tu stamp indexSetHash out =
     (case map_of (ckPhase2 ck) tu of
        None \<Rightarrow> (False, out)
      | Some rec \<Rightarrow> if p2Stamp rec = stamp \<and> p2SetHash rec = indexSetHash
                    then (True, out @ p2Diagnostics rec) else (False, out))"

subsection \<open>Appends\<close>

definition frame :: "8 word \<Rightarrow> string \<Rightarrow> string" where
  "frame kind payload = putU32 (fnv32 payload) (putU32 (word_of_nat (length payload)) (putU8 kind []) @ payload)"

definition appendRecord :: "8 word \<Rightarrow> string \<Rightarrow> AnnealCheckpoint \<Rightarrow> AnnealCheckpoint" where
  "appendRecord kind payload ck = ck\<lparr>ckOut := ckOut ck @ frame kind payload\<rparr>"

definition recordAttempt :: "8 word \<Rightarrow> string \<Rightarrow> FileStamp \<Rightarrow> AnnealCheckpoint \<Rightarrow> AnnealCheckpoint" where
  "recordAttempt phase tu stamp ck =
     (let payload = putStamp stamp (putStr tu (putU8 phase []));
          ck1 = appendRecord kKindAttempt payload ck
      in ck1\<lparr>ckAttempts := note_attempt phase tu stamp (ckAttempts ck1)\<rparr>)"

definition recordPhase1 :: "string \<Rightarrow> FileStamp \<Rightarrow> AnnealIndexPayload \<Rightarrow> AnnealCheckpoint \<Rightarrow> AnnealCheckpoint" where
  "recordPhase1 tu stamp contribution ck =
     (let payload = encodeIndexPayload contribution (putStamp stamp (putStr tu []));
          ck1 = appendRecord kKindPhase1 payload ck
      in ck1\<lparr>ckAttempts := AList.delete (attemptKey kPhaseIndex tu) (ckAttempts ck1)\<rparr>)"

definition recordPhase1Shard :: "string \<Rightarrow> FileStamp \<Rightarrow> GlobalIndex \<Rightarrow> AnnealCheckpoint \<Rightarrow> AnnealCheckpoint" where
  "recordPhase1Shard tu stamp shard ck = recordPhase1 tu stamp (capture shard) ck"

definition recordPhase2 :: "string \<Rightarrow> FileStamp \<Rightarrow> 64 word \<Rightarrow> Diagnostic list \<Rightarrow> AnnealCheckpoint \<Rightarrow> AnnealCheckpoint" where
  "recordPhase2 tu stamp indexSetHash diags ck =
     (let payload = encodeDiagnostics diags (putU64 indexSetHash (putStamp stamp (putStr tu [])));
          ck1 = appendRecord kKindPhase2 payload ck
      in ck1\<lparr>ckAttempts := AList.delete (attemptKey kPhaseAnalyze tu) (ckAttempts ck1)\<rparr>)"

subsection \<open>Worker shard files\<close>

definition kShardVersion :: "32 word" where "kShardVersion = 8"
definition kIndexShardMagic :: string where "kIndexShardMagic = ''VYAI''"
definition kDiagShardMagic :: string where "kDiagShardMagic = ''VYAD''"
definition kGlobalIndexMagic :: string where "kGlobalIndexMagic = ''VYGI''"

definition putShardEntry :: "string \<times> string \<Rightarrow> string \<Rightarrow> string" where
  "putShardEntry e buf =
     (case e of (tu, payload) \<Rightarrow>
        putU32 (fnv32 payload) (putU32 (word_of_nat (length payload)) (putStr tu buf) @ payload))"

definition writeShardFile :: "string \<Rightarrow> (string \<times> string) list \<Rightarrow> string" where
  \<comment> \<open>the bytes of the file\<close>
  "writeShardFile magic tuPayloads =
     fold putShardEntry tuPayloads (putU32 (word_of_nat (length tuPayloads)) (putU32 kShardVersion magic))"

fun shard_entries :: "(string \<Rightarrow> Reader \<Rightarrow> 's \<Rightarrow> bool \<times> 's) \<Rightarrow> nat \<Rightarrow> Reader \<Rightarrow> 's \<Rightarrow> (bool \<times> 's) option" where
  \<comment> \<open>the loop over the entries, with the state the callback works on\<close>
  "shard_entries fn 0 stream s = Some (rdOk stream, s)"
| "shard_entries fn (Suc n) stream s =
     (let (tu, s1) = getStr stream; (len, s2) = getU32 s1; (enough, s3) = need (unat (len + 4)) s2 in
      if \<not> enough then Some (False, s)
      else if rdPos s3 + unat len > length (rdData s3) then None
      else let payload = take (unat len) (drop (rdPos s3) (rdData s3));
               (checksum, s4) = getU32 (s3\<lparr>rdPos := rdPos s3 + unat len\<rparr>) in
           if checksum \<noteq> fnv32 payload then Some (False, s)
           else let (good, t) = fn tu (newReader payload) s in
                if \<not> good then Some (False, t) else shard_entries fn n s4 t)"

definition readShardFile :: "string \<Rightarrow> string option \<Rightarrow> (string \<Rightarrow> Reader \<Rightarrow> 's \<Rightarrow> bool \<times> 's) \<Rightarrow> 's \<Rightarrow> (bool \<times> 's) option" where
  "readShardFile magic file fn s =
     (case file of
        None \<Rightarrow> Some (False, s)
      | Some buf \<Rightarrow>
          (let (enough, r) = need 8 (newReader buf) in
           if \<not> enough \<or> take 4 buf \<noteq> magic then Some (False, s)
           else let (version, r1) = getU32 (r\<lparr>rdPos := 4\<rparr>) in
                if version \<noteq> kShardVersion then Some (False, s)
                else let (count, r2) = getU32 r1 in shard_entries fn (unat count) r2 s))"

definition writeAnnealIndexShard :: "(string \<times> AnnealIndexPayload) list \<Rightarrow> string" where
  "writeAnnealIndexShard tus =
     writeShardFile kIndexShardMagic (map (\<lambda>(tu, payload). (tu, encodeIndexPayload payload [])) tus)"

definition readAnnealIndexShard :: "string option \<Rightarrow> (string \<Rightarrow> AnnealIndexPayload \<Rightarrow> 's \<Rightarrow> 's) \<Rightarrow> 's \<Rightarrow> (bool \<times> 's) option" where
  "readAnnealIndexShard file fn =
     readShardFile kIndexShardMagic file
       (\<lambda>tu r s. let (payload, r1) = decodeIndexPayload r in
                 if \<not> rdOk r1 then (False, s) else (True, fn tu payload s))"

definition writeAnnealDiagShard :: "(string \<times> Diagnostic list) list \<Rightarrow> string" where
  "writeAnnealDiagShard tus =
     writeShardFile kDiagShardMagic (map (\<lambda>(tu, diags). (tu, encodeDiagnostics diags [])) tus)"

definition readAnnealDiagShard :: "string option \<Rightarrow> (string \<Rightarrow> Diagnostic list \<Rightarrow> 's \<Rightarrow> 's) \<Rightarrow> 's \<Rightarrow> (bool \<times> 's) option" where
  "readAnnealDiagShard file fn =
     readShardFile kDiagShardMagic file
       (\<lambda>tu r s. let (diags, r1) = decodeDiagnostics r in
                 if \<not> rdOk r1 then (False, s) else (True, fn tu diags s))"

definition writeGlobalIndexFile :: "GlobalIndex \<Rightarrow> string" where
  "writeGlobalIndexFile idx = writeShardFile kGlobalIndexMagic [(''<merged>'', encodeIndexPayload (capture idx) [])]"

definition readGlobalIndexFile :: "string option \<Rightarrow> GlobalIndex \<Rightarrow> (bool \<times> GlobalIndex) option" where
  "readGlobalIndexFile file into =
     readShardFile kGlobalIndexMagic file
       (\<lambda>tu r g. let (payload, r1) = decodeIndexPayload r in
                 if \<not> rdOk r1 then (False, g) else (True, applyTo payload g)) into"

end
