(* ===== verification/CheckpointProps.thy ===== *)
theory CheckpointProps
  imports Checkpoint "HOL-Library.Sublist"
begin

text \<open>
  Properties of the checkpoint journal and of the shard files: a journal cut anywhere in its last
  record loads as the records before it, the counters and replays are those of the recorded
  history, payloads and shards round trip, and handing the merged index to a worker is merging it.
\<close>

subsection \<open>Capturing and applying\<close>

lemma fold_push: "fold push xs acc = acc @ xs"
  by (induction xs arbitrary: acc) (simp_all add: push_def)

lemma capture_entries:
  "capture g = \<lparr>plOverloads = entries_of (overloads g), plGuides = entries_of (guides g),
     plCoverage = entries_of (coverageProps g), plOdr = odrEntries g,
     plSpecializations = entries_of (specializations g), plDefaultArgs = defaultArgs g, plStaticInits = staticInits g,
     plSummaries = functionSummaries g, plHeaderStatics = headerStatics g, plExceptionSpecs = exceptionSpecs g,
     plBaseEdges = edge_list (trInterner (giTypes g)) (bases (giTypes g)),
     plCtorEdges = edge_list (trInterner (giTypes g)) (ctorEdges (giTypes g)),
     plConvOpEdges = edge_list (trInterner (giTypes g)) (convOpEdges (giTypes g))\<rparr>"
  by (simp add: capture_def forEachOverload_def forEachDeductionGuide_def forEachCoverageProperty_def
      forEachSpecialization_def forEachKeyed_entries fold_push forEachBase_def forEachCtorEdge_def
      forEachConvOpEdge_def forEachEdge_list)

lemma applyTo_capture: "applyTo (capture shard) g = absorbGlobal shard g"
  by (simp add: applyTo_def capture_entries absorbGlobal_def forEachOverload_def forEachDeductionGuide_def
      forEachCoverageProperty_def forEachSpecialization_def forEachKeyed_entries absorbTypes_def forEachBase_def
      forEachCtorEdge_def forEachConvOpEdge_def forEachEdge_list Let_def)

subsection \<open>Framed records\<close>

lemmas reads_end [reads] =
  reads_U64[where suf = "[]", simplified] payloads.gets[where suf = "[]", simplified]
  diagnostic_lists.gets[where suf = "[]", simplified]

lemma frame_w: "frame kind p = wU8 kind @ wU32 (word_of_nat (length p)) @ p @ wU32 (fnv32 p)"
  by (simp add: frame_def put_w)

lemma need_at: "need n (reader_at pre suf) = (if n \<le> length suf then (True, reader_at pre suf) else (False, (reader_at pre suf)\<lparr>rdOk := False\<rparr>))"
  by (auto simp: need_def reader_at_def)

lemma len_room:
  assumes "n + 4 < 2 ^ 32"
  shows "unat (word_of_nat n + 4 :: 32 word) = n + 4" and "unat (word_of_nat n :: 32 word) = n"
proof -
  have "word_of_nat n + 4 = (word_of_nat (n + 4) :: 32 word)" by simp
  then show "unat (word_of_nat n + 4 :: 32 word) = n + 4" using unat_length[of "n + 4"] assms by simp
  show "unat (word_of_nat n :: 32 word) = n" using assms by (intro unat_length) simp
qed

lemma skip_at: "(reader_at pre (p @ suf))\<lparr>rdPos := rdPos (reader_at pre (p @ suf)) + length p\<rparr> = reader_at (pre @ p) suf"
  by (simp add: reader_at_def)

lemma data_at: "rdData (reader_at pre suf) = pre @ suf" "rdPos (reader_at pre suf) = length pre"
  by (simp_all add: reader_at_def)

lemma load_loop_end: "load_loop (reader_at pre []) ck = Some ck"
  by (simp add: load_loop.simps reader_at_def)

lemma load_loop_frame:
  assumes "length p + 4 < 2 ^ 32"
  shows "load_loop (reader_at pre (frame kind p @ suf)) ck
     = load_loop (reader_at (pre @ frame kind p) suf) (load_record kind p ck)"
proof -
  have s: "(reader_at (pre @ wU8 kind @ wU32 (word_of_nat (length p))) (p @ wU32 (fnv32 p) @ suf))\<lparr>rdPos := length pre + 5 + length p\<rparr>
      = reader_at (pre @ wU8 kind @ wU32 (word_of_nat (length p)) @ p) (wU32 (fnv32 p) @ suf)"
    by (simp add: reader_at_def)
  show ?thesis
    unfolding frame_w
    by (subst load_loop.simps) (simp add: reads_U8 reads_U32 need_at len_room[OF assms] data_at s)
qed

lemma load_loop_stop: "\<not> fst (need (unat (len + 4)) s2) \<Longrightarrow> getU8 r = (k, s1) \<Longrightarrow> getU32 s1 = (len, s2) \<Longrightarrow> load_loop r ck = Some ck"
  by (subst load_loop.simps) (auto simp: Let_def split: prod.splits)

lemma load_loop_torn:
  assumes "length p + 4 < 2 ^ 32" and "strict_prefix t (frame kind p)"
  shows "load_loop (reader_at pre t) ck = Some ck"
proof (cases "t = []")
  case True
  then show ?thesis by (simp add: load_loop_end)
next
  case False
  obtain u where u: "frame kind p = t @ u" "u \<noteq> []" using assms(2) by (auto simp: strict_prefix_def prefix_def)
  have len: "length t + length u = 9 + length p" using arg_cong[OF u(1), of length] by (simp add: frame_w)
  have ul: "length u > 0" using u(2) by simp
  obtain c t1 where c: "t = c # t1" using False by (cases t) auto
  have w8: "wU8 kind = [c]" and t1: "wU32 (word_of_nat (length p)) @ p @ wU32 (fnv32 p) = t1 @ u"
    using u(1) c by (auto simp: frame_w wU8_def putU8_def)
  have g8: "getU8 (reader_at pre t) = (kind, reader_at (pre @ wU8 kind) t1)"
    using reads_U8[of pre kind t1] by (simp add: c w8)
  show ?thesis
  proof (cases "length t1 < 4")
    case True
    have "getU32 (reader_at (pre @ wU8 kind) t1) = (0, (reader_at (pre @ wU8 kind) t1)\<lparr>rdOk := False\<rparr>)"
      using True by (simp add: getU32_def need_at)
    then show ?thesis by (intro load_loop_stop[OF _ g8]) (auto simp: need_def)
  next
    case False
    have "take 4 t1 = wU32 (word_of_nat (length p))"
      using arg_cong[OF t1, of "take 4"] False by simp
    then obtain t2 where t2: "t1 = wU32 (word_of_nat (length p)) @ t2" using append_take_drop_id[of 4 t1] by metis
    have "length t = 5 + length t2" using c t2 by simp
    then have "length t2 < length p + 4" using len ul by linarith
    then have "\<not> fst (need (unat (word_of_nat (length p) + 4 :: 32 word)) (reader_at ((pre @ wU8 kind) @ wU32 (word_of_nat (length p))) t2))"
      by (simp add: need_at len_room[OF assms(1)])
    then show ?thesis by (rule load_loop_stop[OF _ g8]) (simp add: t2 reads_U32)
  qed
qed

subsection \<open>Journal histories\<close>

datatype JournalEvent =
    Attempt "8 word" string FileStamp
  | Phase1 string FileStamp AnnealIndexPayload
  | Phase2 string FileStamp "64 word" "Diagnostic list"

primrec run_event :: "JournalEvent \<Rightarrow> AnnealCheckpoint \<Rightarrow> AnnealCheckpoint" where
  "run_event (Attempt phase tu stamp) = recordAttempt phase tu stamp"
| "run_event (Phase1 tu stamp p) = recordPhase1 tu stamp p"
| "run_event (Phase2 tu stamp h ds) = recordPhase2 tu stamp h ds"

text \<open>What a record means when it is loaded.\<close>

primrec apply_event :: "JournalEvent \<Rightarrow> AnnealCheckpoint \<Rightarrow> AnnealCheckpoint" where
  "apply_event (Attempt phase tu stamp) ck = ck\<lparr>ckAttempts := note_attempt phase tu stamp (ckAttempts ck)\<rparr>"
| "apply_event (Phase1 tu stamp p) ck =
     ck\<lparr>ckAttempts := AList.delete (attemptKey kPhaseIndex tu) (ckAttempts ck),
        ckPhase1 := AList.update tu \<lparr>p1Stamp = stamp, p1Payload = p\<rparr> (ckPhase1 ck)\<rparr>"
| "apply_event (Phase2 tu stamp h ds) ck =
     ck\<lparr>ckAttempts := AList.delete (attemptKey kPhaseAnalyze tu) (ckAttempts ck),
        ckPhase2 := AList.update tu \<lparr>p2Stamp = stamp, p2SetHash = h, p2Diagnostics = ds\<rparr> (ckPhase2 ck)\<rparr>"

primrec event_bytes :: "JournalEvent \<Rightarrow> string" where
  "event_bytes (Attempt phase tu stamp) = putStamp stamp (putStr tu (putU8 phase []))"
| "event_bytes (Phase1 tu stamp p) = encodeIndexPayload p (putStamp stamp (putStr tu []))"
| "event_bytes (Phase2 tu stamp h ds) = encodeDiagnostics ds (putU64 h (putStamp stamp (putStr tu [])))"

primrec event_kind :: "JournalEvent \<Rightarrow> 8 word" where
  "event_kind (Attempt phase tu stamp) = kKindAttempt"
| "event_kind (Phase1 tu stamp p) = kKindPhase1"
| "event_kind (Phase2 tu stamp h ds) = kKindPhase2"

primrec event_content_fits :: "JournalEvent \<Rightarrow> bool" where
  "event_content_fits (Attempt phase tu stamp) = (str_fits tu \<and> stPath stamp = tu)"
| "event_content_fits (Phase1 tu stamp p) = (str_fits tu \<and> stPath stamp = tu \<and> payload_fits p)"
| "event_content_fits (Phase2 tu stamp h ds) = (str_fits tu \<and> stPath stamp = tu \<and> list_fits diagnostic_fits ds)"

definition event_fits :: "JournalEvent \<Rightarrow> bool" where
  "event_fits ev \<longleftrightarrow> event_content_fits ev \<and> length (event_bytes ev) + 4 < 2 ^ 32"

definition event_frame :: "JournalEvent \<Rightarrow> string" where
  "event_frame ev = frame (event_kind ev) (event_bytes ev)"

lemma payload_put: "encodeIndexPayload p b = b @ encodeIndexPayload p []"
  by (rule payloads.puts)

lemma diagnostics_put: "encodeDiagnostics ds b = b @ encodeDiagnostics ds []"
  by (rule diagnostic_lists.puts)

lemma load_event: "event_fits ev \<Longrightarrow> load_record (event_kind ev) (event_bytes ev) ck = apply_event ev ck"
proof (cases ev)
  case (Attempt phase tu stamp)
  assume "event_fits ev"
  then show ?thesis using Attempt
    by (cases stamp) (simp add: event_fits_def load_record_def load_attempt_def newReader_at putStamp_def wires reads)
next
  case (Phase1 tu stamp p)
  assume "event_fits ev"
  then show ?thesis using Phase1
    by (cases stamp) (simp add: event_fits_def load_record_def load_phase1_def newReader_at putStamp_def put_w reads
        kKindPhase1_def kKindAttempt_def payload_put[of p "wStr _ @ _"])
next
  case (Phase2 tu stamp h ds)
  assume "event_fits ev"
  then show ?thesis using Phase2
    by (cases stamp) (simp add: event_fits_def load_record_def load_phase2_def newReader_at putStamp_def put_w reads
        kKindPhase1_def kKindPhase2_def kKindAttempt_def diagnostics_put[of ds "wStr _ @ _"])
qed

lemma load_loop_events:
  assumes "list_all event_fits evs"
  shows "load_loop (reader_at pre (concat (map event_frame evs) @ t)) ck
     = load_loop (reader_at (pre @ concat (map event_frame evs)) t) (fold apply_event evs ck)"
  using assms
proof (induction evs arbitrary: pre ck)
  case (Cons ev evs)
  then have "length (event_bytes ev) + 4 < 2 ^ 32" by (simp add: event_fits_def)
  then show ?case using Cons load_loop_frame[of "event_bytes ev" pre "event_kind ev"]
    by (simp add: event_frame_def[of ev] load_event)
qed simp

subsection \<open>Reopening\<close>

definition fresh_checkpoint :: "64 word \<Rightarrow> AnnealCheckpoint" where
  "fresh_checkpoint fp = \<lparr>ckOut = journal_header fp, ckPhase1 = [], ckPhase2 = [], ckAttempts = []\<rparr>"

lemma open_fresh: "openCheckpoint None fp = Some (fresh_checkpoint fp)"
  by (simp add: openCheckpoint_def fresh_checkpoint_def)

lemma header_w: "journal_header fp = ''VYCJ'' @ wU32 kVersion @ wU64 fp"
  by (simp add: journal_header_def put_w kMagic_def)

lemma run_event_out: "ckOut (run_event ev ck) = ckOut ck @ event_frame ev"
  by (cases ev) (simp_all add: recordAttempt_def recordPhase1_def recordPhase2_def appendRecord_def event_frame_def Let_def)

lemma run_events_out: "ckOut (fold run_event evs ck) = ckOut ck @ concat (map event_frame evs)"
  by (induction evs arbitrary: ck) (simp_all add: run_event_out)

lemma run_event_attempts:
  "ckAttempts ck = ckAttempts ck' \<Longrightarrow> ckAttempts (run_event ev ck) = ckAttempts (apply_event ev ck')"
  by (cases ev) (simp_all add: recordAttempt_def recordPhase1_def recordPhase2_def appendRecord_def Let_def)

lemma run_events_attempts:
  "ckAttempts ck = ckAttempts ck' \<Longrightarrow> ckAttempts (fold run_event evs ck) = ckAttempts (fold apply_event evs ck')"
proof (induction evs arbitrary: ck ck')
  case (Cons ev evs)
  show ?case using Cons.IH[OF run_event_attempts[OF Cons.prems, of ev]] by simp
qed simp

lemma open_body:
  "openCheckpoint (Some (journal_header fp @ body)) fp = loadRecords body ((fresh_checkpoint fp)\<lparr>ckOut := journal_header fp @ body\<rparr>)"
proof -
  obtain buf where buf: "buf = journal_header fp @ body" by simp
  have t: "take 4 buf = kMagic" "drop kHeaderSize buf = body" "kHeaderSize \<le> length buf"
    "newReader (take (kHeaderSize - 4) (drop 4 buf)) = reader_at [] (wU32 kVersion @ wU64 fp)"
    by (simp_all add: buf header_w kMagic_def kHeaderSize_def newReader_at)
  have r: "getU32 (reader_at [] (wU32 kVersion @ wU64 fp)) = (kVersion, reader_at (wU32 kVersion) (wU64 fp))"
    "getU64 (reader_at (wU32 kVersion) (wU64 fp)) = (fp, reader_at (wU32 kVersion @ wU64 fp) [])"
    using reads_U32[of "[]" kVersion "wU64 fp"] reads_U64[of "wU32 kVersion" fp "[]"] by simp_all
  show ?thesis unfolding openCheckpoint_def buf[symmetric] by (simp add: t r fresh_checkpoint_def)
qed

definition torn_frame :: "string \<Rightarrow> bool" where
  \<comment> \<open>what a kill in the middle of an append leaves: part of one frame, or nothing\<close>
  "torn_frame t \<longleftrightarrow> (\<exists>kind p. length p + 4 < 2 ^ 32 \<and> strict_prefix t (frame kind p))"

lemma torn_empty: "torn_frame []"
proof -
  have "length (frame 0 []) = 9" by (simp add: frame_w)
  then have "strict_prefix [] (frame 0 [])" by (auto simp: strict_prefix_def)
  then show ?thesis unfolding torn_frame_def by (intro exI[of _ 0] exI[of _ "[]"]) simp
qed

lemma reopen_spec:
  assumes "list_all event_fits evs" and "torn_frame t"
  shows "openCheckpoint (Some (ckOut (fold run_event evs (fresh_checkpoint fp)) @ t)) fp
     = Some (fold apply_event evs ((fresh_checkpoint fp)\<lparr>ckOut := ckOut (fold run_event evs (fresh_checkpoint fp)) @ t\<rparr>))"
proof -
  let ?body = "concat (map event_frame evs) @ t"
  have f: "ckOut (fold run_event evs (fresh_checkpoint fp)) @ t = journal_header fp @ ?body"
    by (simp add: run_events_out) (simp add: fresh_checkpoint_def)
  obtain kind p where kp: "length p + 4 < 2 ^ 32" "strict_prefix t (frame kind p)" using assms(2) by (auto simp: torn_frame_def)
  have "loadRecords ?body ck = Some (fold apply_event evs ck)" for ck
    using load_loop_events[OF assms(1), of "[]" t ck] load_loop_torn[OF kp]
    by (simp add: loadRecords_def newReader_at)
  then show ?thesis unfolding f open_body by simp
qed

subsection \<open>Counters\<close>

primrec about :: "8 word \<Rightarrow> string \<Rightarrow> JournalEvent \<Rightarrow> bool" where
  "about phase tu (Attempt p t stamp) = (p = phase \<and> t = tu)"
| "about phase tu (Phase1 t stamp pl) = (phase = kPhaseIndex \<and> t = tu)"
| "about phase tu (Phase2 t stamp h ds) = (phase = kPhaseAnalyze \<and> t = tu)"

primrec attempt_with :: "FileStamp \<Rightarrow> JournalEvent \<Rightarrow> bool" where
  "attempt_with stamp (Attempt p t s) = (s = stamp)"
| "attempt_with stamp (Phase1 t s pl) = False"
| "attempt_with stamp (Phase2 t s h ds) = False"

definition recent_attempts :: "JournalEvent list \<Rightarrow> 8 word \<Rightarrow> string \<Rightarrow> FileStamp \<Rightarrow> nat" where
  \<comment> \<open>attempts with this stamp since the last other event of this phase and unit\<close>
  "recent_attempts evs phase tu stamp = length (takeWhile (attempt_with stamp) (filter (about phase tu) (rev evs)))"

lemma attemptKey_inj: "attemptKey p t = attemptKey p' t' \<longleftrightarrow> p = p' \<and> t = t'"
proof -
  have "(char_of (unat p) :: char) = char_of (unat p') \<longleftrightarrow> p = p'"
  proof
    assume "(char_of (unat p) :: char) = char_of (unat p')"
    then have "(of_char (char_of (unat p) :: char) :: nat) = of_char (char_of (unat p') :: char)" by simp
    then have "unat p = unat p'" using unsigned_less[of p, where ?'a = nat] unsigned_less[of p', where ?'a = nat] by simp
    then show "p = p'" by (simp add: word_unat_eq_iff)
  qed simp
  then show ?thesis by (simp add: attemptKey_def)
qed

lemma attempts_apply:
  "attempts (apply_event ev ck) phase tu stamp =
     (if \<not> about phase tu ev then attempts ck phase tu stamp
      else if attempt_with stamp ev then attempts ck phase tu stamp + 1 else 0)"
proof (cases ev)
  case (Attempt p t s)
  show ?thesis
  proof (cases "p = phase \<and> t = tu")
    case True
    show ?thesis
    proof (cases "map_of (ckAttempts ck) (attemptKey phase tu)")
      case None
      then show ?thesis using Attempt True by (auto simp: attempts_def note_attempt_def Let_def umap_simps)
    next
      case (Some st)
      then show ?thesis using Attempt True by (auto simp: attempts_def note_attempt_def Let_def umap_simps)
    qed
  next
    case False
    then have "attemptKey p t \<noteq> attemptKey phase tu" by (simp add: attemptKey_inj)
    then show ?thesis using Attempt False by (auto simp: attempts_def note_attempt_def Let_def umap_simps)
  qed
next
  case (Phase1 t s pl)
  then show ?thesis by (auto simp: attempts_def umap_simps attemptKey_inj)
next
  case (Phase2 t s h ds)
  then show ?thesis by (auto simp: attempts_def umap_simps attemptKey_inj)
qed

lemma attempts_history:
  "ckAttempts ck = [] \<Longrightarrow> attempts (fold apply_event evs ck) phase tu stamp = word_of_nat (recent_attempts evs phase tu stamp)"
proof (induction evs rule: rev_induct)
  case Nil
  then show ?case by (simp add: attempts_def recent_attempts_def)
next
  case (snoc ev evs)
  then show ?case by (simp add: attempts_apply recent_attempts_def)
qed

subsection \<open>Replays\<close>

primrec last_phase1 :: "string \<Rightarrow> JournalEvent list \<Rightarrow> (FileStamp \<times> AnnealIndexPayload) option" where
  "last_phase1 tu [] = None"
| "last_phase1 tu (ev # evs) =
     (case last_phase1 tu evs of
        Some x \<Rightarrow> Some x
      | None \<Rightarrow> (case ev of Phase1 t stamp p \<Rightarrow> if t = tu then Some (stamp, p) else None | _ \<Rightarrow> None))"

lemma phase1_history:
  "map_of (ckPhase1 (fold apply_event evs ck)) tu =
     (case last_phase1 tu evs of None \<Rightarrow> map_of (ckPhase1 ck) tu
      | Some (stamp, p) \<Rightarrow> Some \<lparr>p1Stamp = stamp, p1Payload = p\<rparr>)"
proof (induction evs arbitrary: ck)
  case (Cons ev evs)
  show ?case using Cons.IH[of "apply_event ev ck"]
    by (cases ev) (auto simp: umap_simps split: option.splits)
qed simp

subsection \<open>Shard files\<close>

definition wEntry :: "string \<Rightarrow> string \<Rightarrow> string" where
  "wEntry tu p = wStr tu @ wU32 (word_of_nat (length p)) @ p @ wU32 (fnv32 p)"

lemma fold_entries: "fold putShardEntry es b = b @ concat (map (\<lambda>(tu, p). wEntry tu p) es)"
  by (induction es arbitrary: b) (auto simp: putShardEntry_def wEntry_def put_w)

lemma shard_entries_spec:
  assumes "\<And>tu p s. (tu, p) \<in> set es \<Longrightarrow> str_fits tu \<and> length p + 4 < 2 ^ 32 \<and> fn tu (newReader p) s = (True, g tu p s)"
  shows "shard_entries fn (length es) (reader_at pre (concat (map (\<lambda>(tu, p). wEntry tu p) es))) s
     = Some (True, fold (\<lambda>(tu, p). g tu p) es s)"
  using assms
proof (induction es arbitrary: pre s)
  case (Cons e es)
  obtain tu p where e: "e = (tu, p)" by fastforce
  obtain rest where rest: "rest = concat (map (\<lambda>(tu, p). wEntry tu p) es)" by simp
  have f: "str_fits tu" "length p + 4 < 2 ^ 32" "fn tu (newReader p) s = (True, g tu p s)"
    using Cons.prems[of tu p s] unfolding e by auto
  have s: "(reader_at (pre @ wStr tu @ wU32 (word_of_nat (length p))) (p @ wU32 (fnv32 p) @ rest))\<lparr>rdPos := length pre + (8 + (length tu + length p))\<rparr>
      = reader_at (pre @ wStr tu @ wU32 (word_of_nat (length p)) @ p) (wU32 (fnv32 p) @ rest)"
    by (simp add: reader_at_def)
  have step: "shard_entries fn (Suc (length es)) (reader_at pre (wEntry tu p @ rest)) s
      = shard_entries fn (length es) (reader_at (pre @ wEntry tu p) rest) (g tu p s)"
    by (simp add: wEntry_def f reads_Str reads_U32 need_at len_room[OF f(2)] data_at s add.assoc)
  have "shard_entries fn (length es) (reader_at (pre @ wEntry tu p) rest) (g tu p s) = Some (True, fold (\<lambda>(tu, p). g tu p) es (g tu p s))"
    unfolding rest by (rule Cons.IH, rule Cons.prems) simp
  then show ?case using step by (simp add: e rest)
qed (simp add: reader_at_def)

lemma readShard_writeShard:
  assumes "\<And>tu p s. (tu, p) \<in> set es \<Longrightarrow> str_fits tu \<and> length p + 4 < 2 ^ 32 \<and> fn tu (newReader p) s = (True, g tu p s)"
    and "length es < 2 ^ 32" and "length magic = 4"
  shows "readShardFile magic (Some (writeShardFile magic es)) fn s = Some (True, fold (\<lambda>(tu, p). g tu p) es s)"
proof -
  let ?es = "concat (map (\<lambda>(tu, p). wEntry tu p) es)"
  have w: "writeShardFile magic es = magic @ wU32 kShardVersion @ wU32 (word_of_nat (length es)) @ ?es"
    by (simp add: writeShardFile_def fold_entries put_w)
  have p: "(newReader (writeShardFile magic es))\<lparr>rdPos := 4\<rparr> = reader_at magic (wU32 kShardVersion @ wU32 (word_of_nat (length es)) @ ?es)"
    using assms(3) by (simp add: w newReader_def reader_at_def)
  have n: "need 8 (newReader (writeShardFile magic es)) = (True, newReader (writeShardFile magic es))"
    using assms(3) by (simp add: need_def newReader_def w)
  have t: "take 4 (writeShardFile magic es) = magic" using assms(3) by (simp add: w)
  show ?thesis
    unfolding readShardFile_def
    by (simp add: n t p reads_U32 unat_length[OF assms(2)] shard_entries_spec[OF assms(1)])
qed

subsection \<open>Properties\<close>

text \<open>what the encoders write, the decoders read back: a payload of the index and a list of
  diagnostics whose strings and lists are shorter than \<open>2 ^ 32\<close> come back unchanged, and the reader
  stops at the end of the bytes without error.\<close>

theorem payload_roundtrip:
  assumes "payload_fits p" and "list_fits diagnostic_fits ds"
  shows "decodeIndexPayload (newReader (encodeIndexPayload p [])) =
      (p, \<lparr>rdData = encodeIndexPayload p [], rdPos = length (encodeIndexPayload p []), rdOk = True\<rparr>)
     \<and> decodeDiagnostics (newReader (encodeDiagnostics ds [])) =
      (ds, \<lparr>rdData = encodeDiagnostics ds [], rdPos = length (encodeDiagnostics ds []), rdOk = True\<rparr>)"
  using payloads.gets[OF assms(1), of "[]" "[]"] diagnostic_lists.gets[OF assms(2), of "[]" "[]"]
  by (simp_all add: newReader_at) (simp_all add: reader_at_def)

definition sample_payload :: AnnealIndexPayload where
  "sample_payload = (capture empty_global)\<lparr>plHeaderStatics :=
     [\<lparr>hsName = ''S'', hsFile = ''s.h'', hsLine = 3, hsConst = True, hsTus = [''a.cpp'']\<rparr>], plBaseEdges := [(''D'', ''B'')]\<rparr>"

lemmas empty_capture = capture_entries[of empty_global, unfolded empty_global_def empty_types_def, simplified]

lemma sample_payload_fits: "payload_fits sample_payload" "payload_fits (capture empty_global)"
  by (simp_all add: sample_payload_def empty_global_def empty_types_def empty_capture payload_fits_def list_fits_def
      headerStatic_fits_def pair_fits_def str_fits_def entries_of_def edge_list_def)

lemmas payload_bytes = encodeIndexPayload_def putStringPairs_def putList_def put_w putHeaderStatic_def putPair_def
  sample_payload_def empty_global_def empty_types_def empty_capture entries_of_def edge_list_def

lemma sample_payload_short:
  "length (encodeIndexPayload sample_payload b) = length b + 92"
  "length (encodeIndexPayload (capture empty_global) []) = 52"
  by (simp_all add: payload_bytes)

lemma payload_roundtrip_witness:
  "fst (decodeIndexPayload (newReader (encodeIndexPayload sample_payload []))) = sample_payload"
  using payload_roundtrip[of sample_payload "[]"] sample_payload_fits by (simp add: list_fits_def)

text \<open>C15: the journal survives being killed.  Whatever attempts and records a run has appended, and
  wherever inside its next append the process was killed, opening the file again with the same
  options loads exactly the recorded history, in order.\<close>

theorem journal_reload:
  assumes "list_all event_fits evs" and "torn_frame t"
  shows "openCheckpoint (Some (ckOut (fold run_event evs (fresh_checkpoint fp)) @ t)) fp
     = Some (fold apply_event evs ((fresh_checkpoint fp)\<lparr>ckOut := ckOut (fold run_event evs (fresh_checkpoint fp)) @ t\<rparr>))"
  by (rule reopen_spec[OF assms])

definition stamp_a :: FileStamp where
  "stamp_a = \<lparr>stPath = ''a'', stMtime = 7, stSize = 9\<rparr>"

definition sample_events :: "JournalEvent list" where
  "sample_events = [Attempt 1 ''a'' stamp_a, Attempt 1 ''a'' stamp_a, Phase1 ''a'' stamp_a sample_payload,
     Attempt 2 ''a'' stamp_a]"

lemma sample_events_fit: "list_all event_fits sample_events"
  by (simp add: sample_events_def event_fits_def str_fits_def stamp_a_def sample_payload_fits sample_payload_short
      putStamp_def put_w)

lemma torn_sample: "torn_frame [CHR 0x01]"
proof -
  have "frame 1 [] = CHR 0x01 # tl (frame 1 [])" by code_simp
  moreover have "length (frame 1 []) = 9" by (simp add: frame_w)
  ultimately have "strict_prefix [CHR 0x01] (frame 1 [])"
    by (metis One_nat_def append_Cons append_Nil length_Cons list.size(3) numeral_eq_one_iff prefixI semiring_norm(86) strict_prefixI)
  then show ?thesis unfolding torn_frame_def by (intro exI[of _ 1] exI[of _ "[]"]) simp
qed

lemma journal_reload_witness:
  "openCheckpoint (Some (ckOut (fold run_event sample_events (fresh_checkpoint 5)) @ [CHR 0x01])) 5
     = Some (fold apply_event sample_events ((fresh_checkpoint 5)\<lparr>ckOut := ckOut (fold run_event sample_events (fresh_checkpoint 5)) @ [CHR 0x01]\<rparr>))"
  by (rule journal_reload[OF sample_events_fit torn_sample])

lemma attempts_cong: "ckAttempts ck = ckAttempts ck' \<Longrightarrow> attempts ck phase tu stamp = attempts ck' phase tu stamp"
  by (simp add: attempts_def)

lemma attempts_running:
  "attempts (fold run_event evs (fresh_checkpoint fp)) phase tu stamp = word_of_nat (recent_attempts evs phase tu stamp)"
  using attempts_cong[OF run_events_attempts[OF refl]] attempts_history[of "fresh_checkpoint fp" evs]
  by (simp add: fresh_checkpoint_def)

text \<open>a restart continues the run.  The running process and the reloaded journal count the same
  attempts, those with this stamp since the last other record of the phase and translation unit, and
  replaying a unit whose last phase 1 record holds the contribution of its shard, with an unchanged
  stamp, is merging that shard into the index.\<close>

theorem restart_exact:
  assumes "list_all event_fits evs" and "torn_frame t"
    and "openCheckpoint (Some (ckOut (fold run_event evs (fresh_checkpoint fp)) @ t)) fp = Some ck"
  shows "attempts (fold run_event evs (fresh_checkpoint fp)) phase tu stamp = word_of_nat (recent_attempts evs phase tu stamp)
     \<and> attempts ck phase tu stamp = word_of_nat (recent_attempts evs phase tu stamp)
     \<and> (last_phase1 tu evs = Some (stamp, capture shard) \<longrightarrow> replayPhase1 ck tu stamp into = (True, absorbGlobal shard into))"
proof (intro conjI impI)
  let ?f = "(fresh_checkpoint fp)\<lparr>ckOut := ckOut (fold run_event evs (fresh_checkpoint fp)) @ t\<rparr>"
  have ck: "ck = fold apply_event evs ?f" using reopen_spec[OF assms(1,2)] assms(3) by simp
  show "attempts (fold run_event evs (fresh_checkpoint fp)) phase tu stamp = word_of_nat (recent_attempts evs phase tu stamp)"
    by (rule attempts_running)
  show "attempts ck phase tu stamp = word_of_nat (recent_attempts evs phase tu stamp)"
    unfolding ck by (rule attempts_history) (simp add: fresh_checkpoint_def)
  assume "last_phase1 tu evs = Some (stamp, capture shard)"
  then show "replayPhase1 ck tu stamp into = (True, absorbGlobal shard into)"
    using phase1_history[of evs ?f tu] by (simp add: ck replayPhase1_def applyTo_capture)
qed

lemma restart_exact_witness:
  "\<exists>ck. openCheckpoint (Some (ckOut (fold run_event sample_events (fresh_checkpoint 5)) @ [CHR 0x01])) 5 = Some ck
     \<and> attempts ck 1 ''a'' stamp_a = 0 \<and> attempts ck 2 ''a'' stamp_a = 1"
proof -
  obtain ck where ck: "openCheckpoint (Some (ckOut (fold run_event sample_events (fresh_checkpoint 5)) @ [CHR 0x01])) 5 = Some ck"
    using reopen_spec[OF sample_events_fit torn_sample] by blast
  have "recent_attempts sample_events 1 ''a'' stamp_a = 0" "recent_attempts sample_events 2 ''a'' stamp_a = 1" by code_simp+
  moreover have "attempts ck phase ''a'' stamp_a = word_of_nat (recent_attempts sample_events phase ''a'' stamp_a)" for phase
    using restart_exact[OF sample_events_fit torn_sample ck] by blast
  ultimately show ?thesis using ck by simp
qed

text \<open>handing work to other processes loses nothing.  An index shard delivers every unit and
  payload written to it, in order, and reading the file of the merged index into an index is merging
  the index itself, as long as every entry is shorter than \<open>2 ^ 32 - 4\<close> bytes.\<close>

theorem shard_handoff:
  assumes "\<And>tu p. (tu, p) \<in> set tus \<Longrightarrow> str_fits tu \<and> payload_fits p \<and> length (encodeIndexPayload p []) + 4 < 2 ^ 32"
    and "length tus < 2 ^ 32"
    and "payload_fits (capture g)" and "length (encodeIndexPayload (capture g) []) + 4 < 2 ^ 32"
  shows "readAnnealIndexShard (Some (writeAnnealIndexShard tus)) fn s = Some (True, fold (\<lambda>(tu, p). fn tu p) tus s)
     \<and> readGlobalIndexFile (Some (writeGlobalIndexFile g)) into = Some (True, absorbGlobal g into)"
proof
  define ps where "ps = map (\<lambda>(tu, p). (tu, encodeIndexPayload p [])) tus"
  define dec where "dec = (\<lambda>bytes. fst (decodeIndexPayload (newReader bytes)))"
  have good: "payload_fits p \<Longrightarrow> decodeIndexPayload (newReader (encodeIndexPayload p [])) = (p, reader_at (encodeIndexPayload p []) [])" for p
    using payloads.gets[of p "[]" "[]"] by (simp add: newReader_at)
  have "readAnnealIndexShard (Some (writeAnnealIndexShard tus)) fn s = Some (True, fold (\<lambda>(tu, p). (\<lambda>b. fn tu (dec b)) p) ps s)"
    unfolding readAnnealIndexShard_def writeAnnealIndexShard_def ps_def[symmetric]
    by (rule readShard_writeShard) (use assms(1,2) in \<open>auto simp: ps_def dec_def good kIndexShardMagic_def\<close>)
  moreover have "fold (\<lambda>(tu, p). (\<lambda>b. fn tu (dec b)) p) ps s = fold (\<lambda>(tu, p). fn tu p) tus s"
    unfolding ps_def fold_map by (rule fold_cong) (use assms(1) in \<open>auto simp: dec_def good\<close>)
  ultimately show "readAnnealIndexShard (Some (writeAnnealIndexShard tus)) fn s = Some (True, fold (\<lambda>(tu, p). fn tu p) tus s)"
    by simp
  have "readGlobalIndexFile (Some (writeGlobalIndexFile g)) into
      = Some (True, fold (\<lambda>(tu, b). applyTo (dec b)) [(''<merged>'', encodeIndexPayload (capture g) [])] into)"
    unfolding readGlobalIndexFile_def writeGlobalIndexFile_def
    by (rule readShard_writeShard) (use assms(3,4) in \<open>auto simp: dec_def good kGlobalIndexMagic_def str_fits_def\<close>)
  then show "readGlobalIndexFile (Some (writeGlobalIndexFile g)) into = Some (True, absorbGlobal g into)"
    by (simp add: dec_def good[OF assms(3)] applyTo_capture)
qed

lemma shard_handoff_witness:
  "readAnnealIndexShard (Some (writeAnnealIndexShard [(''a'', sample_payload)])) (\<lambda>tu p s. tu # s) [] = Some (True, [''a''])"
    using shard_handoff[of "[(''a'', sample_payload)]" empty_global "\<lambda>tu p s. tu # s" "[]"]
    by (simp add: str_fits_def sample_payload_fits sample_payload_short)

text \<open>opening keeps a torn tail and appends after it, so the next records are swallowed.  Here
  the file ends with the first byte of a record; the attempt recorded after it is counted by the
  running process and is gone when the journal is opened the next time, so a unit that crashes the
  process never reaches its limit of attempts.\<close>

theorem torn_tail_swallows:
  "(let ck = the (openCheckpoint (Some (journal_header 5 @ [CHR 0x01])) 5);
        ck1 = recordAttempt kPhaseIndex ''a'' stamp_a ck;
        ck2 = the (openCheckpoint (Some (ckOut ck1)) 5) in
    attempts ck1 kPhaseIndex ''a'' stamp_a = 1 \<and> attempts ck2 kPhaseIndex ''a'' stamp_a = 0)"
  by code_simp

text \<open>C16: the bounds check of a record adds 4 to the length in 32 bits.  A length of at least
  \<open>2 ^ 32 - 4\<close> wraps to a small number, passes the check and makes the loader step out of the buffer.\<close>

theorem length_wraps:
  assumes "2 ^ 32 - 4 \<le> unat len" and "4 \<le> length rest" and "length rest < unat len"
  shows "openCheckpoint (Some (journal_header fp @ wU8 kind @ wU32 len @ rest)) fp = None"
proof -
  have "unat len < 2 ^ 32" using unsigned_less[of len, where ?'a = nat] by simp
  then have "unat (len + 4) \<le> length rest" using assms(1,2) by (simp add: unat_plus_if')
  then show ?thesis
    unfolding open_body loadRecords_def newReader_at
    by (subst load_loop.simps) (use assms(3) reads_U8[of "[]" kind] in \<open>simp add: reads_U32 need_at data_at\<close>)
qed

lemma length_wraps_witness: "openCheckpoint (Some (journal_header 1 @ wU8 1 @ wU32 (2 ^ 32 - 1) @ ''abcd'')) 1 = None"
  by (rule length_wraps) (simp_all add: unat_minus_one)

end
