(* ===== verification/SnapshotMeta.thy ===== *)
theory SnapshotMeta
  imports Wire Channel Checkpoint
begin

text \<open>
  The byte reader of snapshots (src/callgraph/Snapshot.cpp).  It differs from the reader of the
  checkpoint: a failed read only clears the flag, later reads still go on, and the loops test the
  flag.  The writers are the same four functions, so the contract \<open>codec\<close> of a writer and its
  reader is reused; \<open>counted\<close> extends it for elements that write at least one byte, which is what the
  plausibility bound of \<open>count()\<close> needs.
\<close>

named_theorems sreads \<open>snapshot readers at the bytes their writers wrote\<close>

unbundle bit_operations_syntax

subsection \<open>Reading\<close>

definition snU8 :: "Reader \<Rightarrow> 8 word \<times> Reader" where
  "snU8 r =
     (if rdPos r + 1 > length (rdData r) then (0, r\<lparr>rdOk := False\<rparr>)
      else (word_of_nat (byte_at r 0), r\<lparr>rdPos := rdPos r + 1\<rparr>))"

definition snU32 :: "Reader \<Rightarrow> 32 word \<times> Reader" where
  "snU32 r =
     (if rdPos r + 4 > length (rdData r) then (0, r\<lparr>rdOk := False\<rparr>)
      else (le_bytes r 4, r\<lparr>rdPos := rdPos r + 4\<rparr>))"

definition snU64 :: "Reader \<Rightarrow> 64 word \<times> Reader" where
  "snU64 r =
     (if rdPos r + 8 > length (rdData r) then (0, r\<lparr>rdOk := False\<rparr>)
      else (le_bytes r 8, r\<lparr>rdPos := rdPos r + 8\<rparr>))"

definition snBytes :: "32 word \<Rightarrow> Reader \<Rightarrow> string \<times> Reader" where
  "snBytes len r =
     (if rdPos r + unat len > length (rdData r) then ([], r\<lparr>rdOk := False\<rparr>)
      else (take (unat len) (drop (rdPos r) (rdData r)), r\<lparr>rdPos := rdPos r + unat len\<rparr>))"

definition lenStr :: "Reader \<Rightarrow> string \<times> Reader" where
  "lenStr r = (let (n, r1) = snU32 r in snBytes n r1)"

definition snCount :: "Reader \<Rightarrow> 32 word \<times> Reader" where
  \<comment> \<open>a count larger than the number of bytes left is corrupt\<close>
  "snCount r =
     (let (n, r1) = snU32 r in
      if rdOk r1 \<and> unat n > length (rdData r1) - rdPos r1 then (0, r1\<lparr>rdOk := False\<rparr>) else (n, r1))"

fun repeat_ok :: "nat \<Rightarrow> (Reader \<Rightarrow> 's \<Rightarrow> Reader \<times> 's) \<Rightarrow> Reader \<Rightarrow> 's \<Rightarrow> Reader \<times> 's" where
  \<comment> \<open>\<open>for (i = 0; r.ok && i < n; ++i) body\<close> on the state that the body writes\<close>
  "repeat_ok 0 body r s = (r, s)"
| "repeat_ok (Suc n) body r s =
     (if \<not> rdOk r then (r, s) else let (r1, s1) = body r s in repeat_ok n body r1 s1)"

definition count_loop :: "(Reader \<Rightarrow> 's \<Rightarrow> Reader \<times> 's) \<Rightarrow> Reader \<Rightarrow> 's \<Rightarrow> Reader \<times> 's" where
  "count_loop body r s = (let (n, r1) = snCount r in repeat_ok (unat n) body r1 s)"

definition readItems :: "(Reader \<Rightarrow> 'a \<times> Reader) \<Rightarrow> Reader \<Rightarrow> 'a list \<times> Reader" where
  \<comment> \<open>\<open>n = r.count(); for (...) v.push_back(get(r))\<close>\<close>
  "readItems get r = (let (n, r1) = snCount r in read_n get (unat n) r1)"

subsection \<open>Reading back\<close>

lemma snU8_at [sreads]: "snU8 (reader_at pre (wU8 v @ suf)) = (v, reader_at (pre @ wU8 v) suf)"
  using reads_U8[of pre v suf] by (auto simp: snU8_def getU8_def need_def reader_at_def split: if_splits)

lemma snU32_at [sreads]: "snU32 (reader_at pre (wU32 v @ suf)) = (v, reader_at (pre @ wU32 v) suf)"
  using reads_U32[of pre v suf] by (auto simp: snU32_def getU32_def need_def reader_at_def split: if_splits)

lemma snU64_at [sreads]: "snU64 (reader_at pre (wU64 v @ suf)) = (v, reader_at (pre @ wU64 v) suf)"
  using reads_U64[of pre v suf] by (auto simp: snU64_def getU64_def need_def reader_at_def split: if_splits)

lemma snBytes_at: "length s = unat n \<Longrightarrow> snBytes n (reader_at pre (s @ suf)) = (s, reader_at (pre @ s) suf)"
  by (simp add: snBytes_def reader_at_def)

lemma lenStr_at [sreads]:
  "str_fits s \<Longrightarrow> lenStr (reader_at pre (wStr s @ suf)) = (s, reader_at (pre @ wStr s) suf)"
  using snBytes_at[of s "word_of_nat (length s)" "pre @ wU32 (word_of_nat (length s))" suf]
  by (simp add: lenStr_def wStr_split str_fits_def snU32_at unat_length)

lemma snCount_at:
  "n < 2 ^ 32 \<Longrightarrow> n \<le> length suf \<Longrightarrow>
     snCount (reader_at pre (wU32 (word_of_nat n) @ suf)) = (word_of_nat n, reader_at (pre @ wU32 (word_of_nat n)) suf)"
  by (simp add: snCount_def snU32_at unat_length) (simp add: reader_at_def)

definition wItems :: "('a \<Rightarrow> string) \<Rightarrow> 'a list \<Rightarrow> string" where
  \<comment> \<open>a count and the bytes of the elements\<close>
  "wItems w xs = wU32 (word_of_nat (length xs)) @ concat (map w xs)"

lemma concat_map_length: "(\<And>x. x \<in> set xs \<Longrightarrow> w x \<noteq> []) \<Longrightarrow> length xs \<le> length (concat (map w xs))"
proof (induction xs)
  case (Cons x xs)
  then have "w x \<noteq> []" "length xs \<le> length (concat (map w xs))" by auto
  then show ?case by (cases "w x") auto
qed simp

lemma repeat_ok_items:
  assumes "\<And>x pre suf s. x \<in> set xs \<Longrightarrow> body (reader_at pre (w x @ suf)) s = (reader_at (pre @ w x) suf, f x s)"
  shows "repeat_ok (length xs) body (reader_at pre (concat (map w xs) @ suf)) s
     = (reader_at (pre @ concat (map w xs)) suf, fold f xs s)"
  using assms
proof (induction xs arbitrary: pre s)
  case (Cons x xs)
  show ?case using Cons.IH[of "pre @ w x"] Cons.prems by simp
qed simp

lemma snCount_items:
  "(\<And>x. x \<in> set xs \<Longrightarrow> w x \<noteq> []) \<Longrightarrow> length xs < 2 ^ 32 \<Longrightarrow>
   snCount (reader_at pre (wItems w xs @ suf))
     = (word_of_nat (length xs), reader_at (pre @ wU32 (word_of_nat (length xs))) (concat (map w xs) @ suf))"
  using concat_map_length[of xs w] snCount_at[of "length xs" "concat (map w xs) @ suf" pre] by (simp add: wItems_def)

lemma count_loop_items:
  assumes "\<And>x pre suf s. x \<in> set xs \<Longrightarrow> body (reader_at pre (w x @ suf)) s = (reader_at (pre @ w x) suf, f x s)"
    and "\<And>x. x \<in> set xs \<Longrightarrow> w x \<noteq> []" and "length xs < 2 ^ 32"
  shows "count_loop body (reader_at pre (wItems w xs @ suf)) s = (reader_at (pre @ wItems w xs) suf, fold f xs s)"
  using repeat_ok_items[of xs body w f "pre @ wU32 (word_of_nat (length xs))" suf s] assms
  by (simp add: count_loop_def snCount_items unat_length) (simp add: wItems_def)

subsection \<open>Counted sequences of a codec\<close>

locale counted = codec put get fits for put :: "'a \<Rightarrow> string \<Rightarrow> string" and get and fits +
  assumes put_nonempty: "put x [] \<noteq> []"
begin

lemma fold_length: "length xs \<le> length (fold put xs [])"
proof (induction xs)
  case (Cons x xs)
  have "fold put (x # xs) [] = put x [] @ fold put xs []" using fold_put[of xs "put x []"] by simp
  then show ?case using Cons put_nonempty[of x] by (cases "put x []") auto
qed simp

lemma list_nonempty: "wList put xs \<noteq> []"
  using arg_cong[OF wList_split, of length xs] by auto

lemma items_get [sreads]:
  "list_fits fits xs \<Longrightarrow> readItems get (reader_at pre (wList put xs @ suf)) = (xs, reader_at (pre @ wList put xs) suf)"
proof -
  assume f: "list_fits fits xs"
  then have n: "length xs < 2 ^ 32" by (simp add: list_fits_def)
  have c: "snCount (reader_at pre (wU32 (word_of_nat (length xs)) @ fold put xs [] @ suf))
      = (word_of_nat (length xs), reader_at (pre @ wU32 (word_of_nat (length xs))) (fold put xs [] @ suf))"
    using n fold_length[of xs] by (intro snCount_at) auto
  show ?thesis
    using read_n_fold[of xs "pre @ wU32 (word_of_nat (length xs))" suf] f n
    by (simp add: list_fits_def wList_split readItems_def c unat_length)
qed

end

lemma w_nonempty [simp]: "wU8 v \<noteq> []" "wU32 w \<noteq> []" "wU64 x \<noteq> []" "wStr s \<noteq> []"
  by (metis list.size(3) w_length(1) zero_neq_one)
     (metis list.size(3) w_length(2) zero_neq_numeral,
      metis list.size(3) w_length(3) zero_neq_numeral,
      metis add_is_0 list.size(3) w_length(4) zero_neq_numeral)

interpretation snStrings: counted putStr lenStr str_fits
  by unfold_locales (simp_all add: put_w lenStr_at)

interpretation snIds: counted putU32 snU32 "\<lambda>_. True"
  by unfold_locales (simp_all add: put_w snU32_at)

text \<open>
  The meta section of a snapshot (include/vycor/callgraph/Snapshot.h, src/callgraph/Snapshot.cpp):
  the build configuration, the stamps of the baked units and of every file they opened, and the
  dirty check of a warm start.  The file system is the argument \<open>stat\<close>: the modification time in
  nanoseconds and the size of a path, or \<open>None\<close> when the file cannot be read.
\<close>

record SnapshotMeta =
  smCollapsePaths :: "string list"
  smLockAllowlist :: "string list"
  smLockBuiltins :: bool
  smChannelTypes :: "ChannelTypeSpec list"
  smFiles :: "FileStamp list"
  smDeps :: "FileStamp list"
  smTuDeps :: "32 word list list"
  smEntryPoints :: "string list"

definition empty_meta :: SnapshotMeta where
  "empty_meta = \<lparr>smCollapsePaths = [], smLockAllowlist = [], smLockBuiltins = True, smChannelTypes = [],
     smFiles = [], smDeps = [], smTuDeps = [], smEntryPoints = []\<rparr>"

subsection \<open>Wire form\<close>

definition emitChannelTypeSpec :: "ChannelTypeSpec \<Rightarrow> string \<Rightarrow> string" where
  "emitChannelTypeSpec spec out =
     (let b1 = putStr (qualifiedTypeName spec) out;
          b2 = putList putStr (produceMethods spec) b1;
          b3 = putList putStr (consumeMethods spec) b2
      in putStr (specCategory spec) b3)"

definition readChannelTypeSpec :: "Reader \<Rightarrow> ChannelTypeSpec \<times> Reader" where
  "readChannelTypeSpec r =
     (let (n, r1) = lenStr r; (p, r2) = readItems lenStr r1; (c, r3) = readItems lenStr r2; (g, r4) = lenStr r3
      in (\<lparr>qualifiedTypeName = n, produceMethods = p, consumeMethods = c, specCategory = g\<rparr>, r4))"

definition emitFileStamp :: "FileStamp \<Rightarrow> string \<Rightarrow> string" where
  "emitFileStamp f out = putU64 (stSize f) (putU64 (stMtime f) (putStr (stPath f) out))"

definition readFileStamp :: "Reader \<Rightarrow> FileStamp \<times> Reader" where
  "readFileStamp r =
     (let (p, r1) = lenStr r; (m, r2) = snU64 r1; (s, r3) = snU64 r2
      in (\<lparr>stPath = p, stMtime = m, stSize = s\<rparr>, r3))"

definition tu_dep_ids :: "SnapshotMeta \<Rightarrow> nat \<Rightarrow> 32 word list" where
  \<comment> \<open>\<open>i < meta.tuDeps.size() ? meta.tuDeps[i] : kNoDeps\<close>\<close>
  "tu_dep_ids meta i = (if i < length (smTuDeps meta) then smTuDeps meta ! i else [])"

definition emitMeta :: "SnapshotMeta \<Rightarrow> string \<Rightarrow> string" where
  "emitMeta meta out =
     (let b1 = putList putStr (smCollapsePaths meta) out;
          b2 = putList putStr (smLockAllowlist meta) b1;
          b3 = putU8 (if smLockBuiltins meta then 1 else 0) b2;
          b4 = putList emitChannelTypeSpec (smChannelTypes meta) b3;
          b5 = putList emitFileStamp (smFiles meta) b4;
          b6 = putList putStr (smEntryPoints meta) b5;
          b7 = putList emitFileStamp (smDeps meta) b6
      in fold (\<lambda>i b. putList putU32 (tu_dep_ids meta i) b) [0..<length (smFiles meta)] b7)"

definition read_dep_id :: "nat \<Rightarrow> Reader \<Rightarrow> 32 word list \<Rightarrow> Reader \<times> 32 word list" where
  \<comment> \<open>an index out of the table clears the flag and ends the loop\<close>
  "read_dep_id n r ids =
     (let (i, r1) = snU32 r in
      if unat i \<ge> n then (r1\<lparr>rdOk := False\<rparr>, ids) else (r1, ids @ [i]))"

definition read_tu_deps :: "nat \<Rightarrow> Reader \<Rightarrow> 32 word list list \<Rightarrow> Reader \<times> 32 word list list" where
  "read_tu_deps n r rows = (let (r1, ids) = count_loop (read_dep_id n) r [] in (r1, rows @ [ids]))"

definition readMeta :: "Reader \<Rightarrow> SnapshotMeta \<times> Reader" where
  \<comment> \<open>the Boolean it returns is \<open>rdOk\<close> of the reader it leaves; \<open>resize\<close> leaves empty rows behind
    the ones that were read\<close>
  "readMeta r =
     (let (collapse, r1) = readItems lenStr r;
          (allow, r2) = readItems lenStr r1;
          (builtins, r3) = snU8 r2;
          (types, r4) = readItems readChannelTypeSpec r3;
          (files, r5) = readItems readFileStamp r4;
          (entries, r6) = readItems lenStr r5;
          (deps, r7) = readItems readFileStamp r6;
          (r8, rows) = repeat_ok (length files) (read_tu_deps (length deps)) r7 []
      in (\<lparr>smCollapsePaths = collapse, smLockAllowlist = allow, smLockBuiltins = (builtins \<noteq> 0),
           smChannelTypes = types, smFiles = files, smDeps = deps,
           smTuDeps = rows @ replicate (length files - length rows) [], smEntryPoints = entries\<rparr>, r8))"

definition spec_fits :: "ChannelTypeSpec \<Rightarrow> bool" where
  "spec_fits s \<longleftrightarrow> str_fits (qualifiedTypeName s) \<and> list_fits str_fits (produceMethods s)
     \<and> list_fits str_fits (consumeMethods s) \<and> str_fits (specCategory s)"

definition stamp_fits :: "FileStamp \<Rightarrow> bool" where
  "stamp_fits s \<longleftrightarrow> str_fits (stPath s)"

interpretation channelSpecs: counted emitChannelTypeSpec readChannelTypeSpec spec_fits
  by unfold_locales
    (simp_all add: emitChannelTypeSpec_def readChannelTypeSpec_def spec_fits_def put_w snStrings.list_put sreads)

interpretation fileStamps: counted emitFileStamp readFileStamp stamp_fits
  by unfold_locales (simp_all add: emitFileStamp_def readFileStamp_def stamp_fits_def put_w sreads)

lemmas meta_puts = put_w snStrings.list_put channelSpecs.list_put fileStamps.list_put snIds.list_put

definition meta_fits :: "SnapshotMeta \<Rightarrow> bool" where
  "meta_fits m \<longleftrightarrow>
     list_fits str_fits (smCollapsePaths m) \<and> list_fits str_fits (smLockAllowlist m)
     \<and> list_fits spec_fits (smChannelTypes m) \<and> list_fits stamp_fits (smFiles m)
     \<and> list_fits stamp_fits (smDeps m) \<and> list_fits str_fits (smEntryPoints m)
     \<and> list_all (\<lambda>ids. list_fits (\<lambda>i. unat i < length (smDeps m)) ids) (smTuDeps m)"

definition settled_meta :: "SnapshotMeta \<Rightarrow> SnapshotMeta" where
  \<comment> \<open>one row of dependencies for every file\<close>
  "settled_meta m = m\<lparr>smTuDeps := map (tu_dep_ids m) [0..<length (smFiles m)]\<rparr>"

lemma fold_append_w: "fold (\<lambda>x b. b @ w x) xs b = b @ concat (map w xs)"
  by (induction xs arbitrary: b) simp_all

lemma emitMeta_w: "emitMeta meta out = out @ emitMeta meta []"
  by (simp add: emitMeta_def meta_puts fold_append_w)

lemma fold_snoc: "fold (\<lambda>x ys. ys @ [f x]) xs ys = ys @ map f xs"
  by (induction xs arbitrary: ys) simp_all

lemma wList_ids: "wList putU32 xs = wItems wU32 xs"
proof -
  have "fold putU32 xs b = b @ concat (map wU32 xs)" for b
    by (induction xs arbitrary: b) (simp_all add: put_w)
  then show ?thesis by (simp add: wItems_def snIds.wList_split)
qed

lemma read_tu_deps_at:
  assumes "list_fits (\<lambda>i. unat i < n) ids"
  shows "read_tu_deps n (reader_at pre (wList putU32 ids @ suf)) rows = (reader_at (pre @ wList putU32 ids) suf, rows @ [ids])"
proof -
  have "count_loop (read_dep_id n) (reader_at pre (wItems wU32 ids @ suf)) []
      = (reader_at (pre @ wItems wU32 ids) suf, fold (\<lambda>x ys. ys @ [x]) ids [])"
    using assms by (intro count_loop_items) (auto simp: list_fits_def list_all_iff read_dep_id_def snU32_at not_le)
  then show ?thesis using fold_snoc[of id ids "[]"] by (simp add: read_tu_deps_def wList_ids)
qed

lemma readMeta_at:
  assumes "meta_fits m"
  shows "readMeta (reader_at pre (emitMeta m [] @ suf)) = (settled_meta m, reader_at (pre @ emitMeta m []) suf)"
proof -
  let ?is = "[0..<length (smFiles m)]"
  have fits: "list_fits (\<lambda>i. unat i < length (smDeps m)) (tu_dep_ids m i)" for i
    using assms by (auto simp: meta_fits_def list_all_iff tu_dep_ids_def list_fits_def)
  have rows: "repeat_ok (length (smFiles m)) (read_tu_deps (length (smDeps m)))
      (reader_at p (concat (map (\<lambda>i. wList putU32 (tu_dep_ids m i)) ?is) @ suf)) []
    = (reader_at (p @ concat (map (\<lambda>i. wList putU32 (tu_dep_ids m i)) ?is)) suf, map (tu_dep_ids m) ?is)" for p
    using repeat_ok_items[of ?is "read_tu_deps (length (smDeps m))" "\<lambda>i. wList putU32 (tu_dep_ids m i)"
        "\<lambda>i rows. rows @ [tu_dep_ids m i]" p suf "[]"]
    by (simp add: read_tu_deps_at fits fold_snoc)
  show ?thesis
    using assms unfolding meta_fits_def
    by (simp add: readMeta_def emitMeta_def meta_puts fold_append_w sreads rows settled_meta_def)
qed

subsection \<open>Dependencies\<close>

definition stampFiles :: "(string \<Rightarrow> (64 word \<times> 64 word) option) \<Rightarrow> string list \<Rightarrow> FileStamp list" where
  "stampFiles stat files =
     map (\<lambda>f. case stat f of
                None \<Rightarrow> \<lparr>stPath = f, stMtime = 0, stSize = 0\<rparr>
              | Some (m, s) \<Rightarrow> \<lparr>stPath = f, stMtime = m, stSize = s\<rparr>) files"

definition kNsPerSecond :: "64 word" where
  "kNsPerSecond = 1000000000"

definition sameParsedVersion :: "FileStamp \<Rightarrow> FileStamp \<Rightarrow> bool" where
  "sameParsedVersion recorded now \<longleftrightarrow>
     stSize recorded = stSize now \<and> stMtime recorded = stMtime now - stMtime now mod kNsPerSecond"

definition recorded_files :: "SnapshotMeta \<Rightarrow> (string, nat) umap" where
  "recorded_files meta =
     fold (\<lambda>i m. AList.update (stPath (smFiles meta ! i)) i m) [0..<length (smFiles meta)] []"

definition dep_changed :: "(string \<Rightarrow> (64 word \<times> 64 word) option) \<Rightarrow> SnapshotMeta \<Rightarrow> bool list" where
  "dep_changed stat meta =
     (let depsNow = stampFiles stat (map stPath (smDeps meta))
      in map (\<lambda>i. \<not> sameParsedVersion (smDeps meta ! i) (depsNow ! i)) [0..<length (smDeps meta)])"

definition tu_dirty :: "SnapshotMeta \<Rightarrow> (string, nat) umap \<Rightarrow> bool list \<Rightarrow> FileStamp \<Rightarrow> bool \<times> bool" where
  \<comment> \<open>whether the unit is dirty, and whether only through a dependency\<close>
  "tu_dirty meta recorded depChanged cur =
     (case map_of recorded (stPath cur) of
        None \<Rightarrow> (True, False)
      | Some k \<Rightarrow>
          (if smFiles meta ! k \<noteq> cur then (True, False)
           else if k \<ge> length (smTuDeps meta) then (False, False)
           else if list_ex (\<lambda>i. unat i < length depChanged \<and> depChanged ! unat i) (smTuDeps meta ! k)
                then (True, True) else (False, False)))"

definition dirtyTUs :: "(string \<Rightarrow> (64 word \<times> 64 word) option) \<Rightarrow> SnapshotMeta \<Rightarrow> FileStamp list \<Rightarrow> bool list \<times> nat" where
  \<comment> \<open>one flag per unit, and the number of units that are dirty only through a dependency\<close>
  "dirtyTUs stat meta current =
     (let depChanged = dep_changed stat meta;
          verdicts = map (tu_dirty meta (recorded_files meta) depChanged) current
      in (map fst verdicts, length (filter snd verdicts)))"

type_synonym TuDependencies = "(string, FileStamp list) umap"

definition dependenciesOf :: "SnapshotMeta \<Rightarrow> TuDependencies" where
  "dependenciesOf meta =
     fold (\<lambda>i out.
         let path = stPath (smFiles meta ! i)
         in AList.update path
              (ulist out path @ map (\<lambda>k. smDeps meta ! unat k) (filter (\<lambda>k. unat k < length (smDeps meta)) (smTuDeps meta ! i))) out)
       [0..<min (length (smFiles meta)) (length (smTuDeps meta))] []"

record DepTable =
  dtDeps :: "FileStamp list"
  dtIds :: "(string, 32 word) umap"
  dtRow :: "32 word list"

definition record_dep :: "FileStamp \<Rightarrow> DepTable \<Rightarrow> DepTable" where
  "record_dep d t =
     (case map_of (dtIds t) (stPath d) of
        None \<Rightarrow> (let k = word_of_nat (length (dtDeps t)) in
               t\<lparr>dtIds := uemplace (stPath d) k (dtIds t), dtDeps := dtDeps t @ [d], dtRow := dtRow t @ [k]\<rparr>)
      | Some k \<Rightarrow> t\<lparr>dtDeps := (if stMtime d < stMtime (dtDeps t ! unat k) then (dtDeps t)[unat k := d] else dtDeps t),
                    dtRow := dtRow t @ [k]\<rparr>)"

definition record_file :: "TuDependencies \<Rightarrow> FileStamp \<Rightarrow> DepTable \<times> 32 word list list \<Rightarrow> DepTable \<times> 32 word list list" where
  "record_file deps f s =
     (case s of (t, rows) \<Rightarrow>
        (case map_of deps (stPath f) of
           None \<Rightarrow> (t, rows @ [[]])
         | Some ds \<Rightarrow> (let t1 = fold record_dep ds (t\<lparr>dtRow := []\<rparr>) in (t1, rows @ [dtRow t1]))))"

definition recordDependencies :: "TuDependencies \<Rightarrow> SnapshotMeta \<Rightarrow> SnapshotMeta" where
  "recordDependencies deps meta =
     (let (t, rows) = fold (record_file deps) (smFiles meta) (\<lparr>dtDeps = [], dtIds = [], dtRow = []\<rparr>, [])
      in meta\<lparr>smDeps := dtDeps t, smTuDeps := rows\<rparr>)"

end
