(* ===== verification/SnapshotGraph.thy ===== *)
theory SnapshotGraph
  imports SnapshotMeta CallGraphProps TuStore
begin

text \<open>
  The graph section of a snapshot: the interner table in id order, then nodes, live edges and the
  forward relations as raw ids (src/callgraph/Snapshot.cpp).  Line numbers, depths and counts are
  naturals in the graph and 32 bits on disk.  An enumeration byte outside the enumerators, which only
  a corrupt file holds, gives C++ an enumeration value without a name; the model has no such value
  and notes the fact in \<open>glNamed\<close>.  Nothing the loader decides depends on an enumeration value.
\<close>

subsection \<open>Enumerations\<close>

definition edgeKinds :: "EdgeKind list" where
  "edgeKinds = [DirectCall, VirtualDispatch, FunctionPointer, ConstructorCall, DestructorCall, OperatorCall,
     TemplateInstantiation, LambdaCall, ThreadEntry, FunctionPointerReturn]"

definition confidences :: "Confidence list" where
  "confidences = [Proven, Plausible, UnknownConfidence]"

definition execContexts :: "ExecutionContext list" where
  "execContexts = [Synchronous, ThreadSpawn, AsyncTask, PackagedTask, Invoke]"

definition enum_code :: "'a list \<Rightarrow> 'a \<Rightarrow> 8 word" where
  \<comment> \<open>\<open>static_cast<uint8_t>(e)\<close>: the position among the enumerators\<close>
  "enum_code xs x = word_of_nat (length (takeWhile (\<lambda>y. y \<noteq> x) xs))"

definition enum_of :: "'a list \<Rightarrow> 8 word \<Rightarrow> 'a option" where
  \<comment> \<open>\<open>static_cast<E>(code)\<close>\<close>
  "enum_of xs c = (if unat c < length xs then Some (xs ! unat c) else None)"

lemma enum_round: "x \<in> set xs \<Longrightarrow> length xs \<le> 256 \<Longrightarrow> enum_of xs (enum_code xs x) = Some x"
proof -
  assume x: "x \<in> set xs" and l: "length xs \<le> 256"
  let ?n = "length (takeWhile (\<lambda>y. y \<noteq> x) xs)"
  have n: "?n < length xs" "xs ! ?n = x"
    using x by (induction xs) auto
  then have "unat (word_of_nat ?n :: 8 word) = ?n" using l by (simp add: unat_of_nat take_bit_nat_eq_self)
  with n show ?thesis by (simp add: enum_of_def enum_code_def)
qed

lemma enum_all: "k \<in> set edgeKinds" "c \<in> set confidences" "x \<in> set execContexts"
proof -
  show "k \<in> set edgeKinds" by (cases k) (simp_all add: edgeKinds_def)
  show "c \<in> set confidences" by (cases c) (simp_all add: confidences_def)
  show "x \<in> set execContexts" by (cases x) (simp_all add: execContexts_def)
qed

lemma enum_rounds [simp]:
  "enum_of edgeKinds (enum_code edgeKinds k) = Some k" "enum_of confidences (enum_code confidences c) = Some c"
  "enum_of execContexts (enum_code execContexts x) = Some x"
  by (rule enum_round, rule enum_all, simp add: edgeKinds_def confidences_def execContexts_def)+

subsection \<open>Saving\<close>

definition emitInternerTable :: "interner \<Rightarrow> string \<Rightarrow> string" where
  "emitInternerTable I out = putList putStr (strings I) out"

definition emit_node :: "CallGraph \<Rightarrow> sid \<times> CallGraphNode \<Rightarrow> string \<Rightarrow> string" where
  "emit_node g p out =
     (case p of (nameId, node) \<Rightarrow>
        let displayId = find_id (cgInterner g) (qualifiedName node);
            b1 = putU32 nameId out;
            b2 = putU32 (case displayId of Some d \<Rightarrow> d | None \<Rightarrow> nameId) b1;
            b3 = putStr (nodeFile node) b2;
            b4 = putU32 (word_of_nat (nodeLine node)) b3;
            b5 = putU8 (two_flags (isEntryPoint node) (isVirtual node)) b4;
            b6 = putStr (enclosingClass node) b5
        in (case map_of (nodeContributors g) nameId of
              None \<Rightarrow> putU32 0 b6
            | Some tus \<Rightarrow> putList putU32 tus b6))"

definition edge_tus :: "CallGraph \<Rightarrow> (nat, sid list) umap" where
  \<comment> \<open>the contributing units of every live edge\<close>
  "edge_tus g = invert_units (\<lambda>i. refs (edges g ! i) \<noteq> 0) (tuEdges g)"

definition emit_edge :: "(nat, sid list) umap \<Rightarrow> CallGraph \<Rightarrow> nat \<Rightarrow> string \<Rightarrow> string" where
  "emit_edge edgeTus g i out =
     (let se = edges g ! i in
      if refs se = 0 then out
      else
        let b1 = putU32 (seCallSite se) (putU32 (seCallee se) (putU32 (seCaller se) out));
            b2 = putU8 (enum_code edgeKinds (seKind se)) b1;
            b3 = putU8 (enum_code confidences (seConfidence se)) b2;
            b4 = putU8 (enum_code execContexts (seExecContext se)) b3;
            b5 = putU32 (word_of_nat (refs se)) (putU32 (word_of_nat (seDepth se)) b4)
        in (case map_of edgeTus i of
              None \<Rightarrow> putU32 0 b5
            | Some tus \<Rightarrow> putList putU32 tus b5))"

definition emit_pairs :: "(sid, sid list) umap \<Rightarrow> string \<Rightarrow> string" where
  \<comment> \<open>\<open>emitVecPairs\<close> and \<open>emitSetPairs\<close>: the count, then the flat pairs\<close>
  "emit_pairs m out =
     fold (\<lambda>(a, bs). fold (\<lambda>b out. putU32 b (putU32 a out)) bs) m
       (putU32 (fold (\<lambda>(a, bs) n. n + word_of_nat (length bs)) m 0) out)"

definition emit_graph :: "CallGraph \<Rightarrow> string \<Rightarrow> string" where
  "emit_graph g data =
     (let b1 = emitInternerTable (cgInterner g) data;
          b2 = fold (emit_node g) (nodes g) (putU32 (word_of_nat (length (nodes g))) b1);
          edgeTus = edge_tus g;
          b3 = fold (emit_edge edgeTus g) [0..<length (edges g)] (putU32 (word_of_nat (liveEdgeCount g)) b2)
      in emit_pairs (functionReturns g) (emit_pairs (effectiveImplClasses g)
           (emit_pairs (methodOverrides g) (emit_pairs (derivedClasses g) b3))))"

subsection \<open>Loading\<close>

definition readInternerTable :: "Reader \<Rightarrow> interner \<Rightarrow> bool \<times> Reader \<times> interner" where
  "readInternerTable r I =
     (let (table, r1) = readItems lenStr r in
      if \<not> rdOk r1 then (False, r1, I)
      else let (installed, J) = installStrings table I in (installed, r1, J))"

definition gid :: "interner \<Rightarrow> sid \<times> Reader \<Rightarrow> sid \<times> Reader" where
  \<comment> \<open>an id outside the interner clears the flag\<close>
  "gid I p = (case p of (i, r) \<Rightarrow> (i, if unat i \<ge> length (strings I) then r\<lparr>rdOk := False\<rparr> else r))"

definition read_contributor :: "bool \<Rightarrow> interner \<Rightarrow> sid \<Rightarrow> Reader \<Rightarrow> CallGraph \<Rightarrow> Reader \<times> CallGraph" where
  "read_contributor mutableLoad I nameId r g =
     (let (tuId, r1) = gid I (snU32 r) in
      if \<not> rdOk r1 \<or> \<not> mutableLoad then (r1, g) else (r1, add_contributor nameId tuId g))"

definition read_node :: "bool \<Rightarrow> interner \<Rightarrow> Reader \<Rightarrow> CallGraph \<Rightarrow> Reader \<times> CallGraph" where
  "read_node mutableLoad I r g =
     (let (nameId, r1) = gid I (snU32 r);
          (displayId, r2) = gid I (snU32 r1);
          (file, r3) = lenStr r2;
          (line, r4) = snU32 r3;
          (flags, r5) = snU8 r4;
          (cls, r6) = lenStr r5;
          (contribCount, r7) = snCount r6
      in if \<not> rdOk r7 then (r7, g)
         else let node = \<lparr>qualifiedName = resolve I displayId, nodeFile = file, nodeLine = unat line,
                          isEntryPoint = flag 0 flags, isVirtual = flag 1 flags, enclosingClass = cls,
                          usr = resolve I nameId\<rparr>;
                  g1 = g\<lparr>byName := upush_new displayId nameId (byName g),
                         nodes := uemplace nameId node (nodes g)\<rparr>
              in repeat_ok (unat contribCount) (read_contributor mutableLoad I nameId) r7 g1)"

record GraphLoad =
  glGraph :: CallGraph
  glNamed :: bool

definition load_edge :: "bool \<Rightarrow> StoredEdge \<Rightarrow> CallGraph \<Rightarrow> CallGraph" where
  \<comment> \<open>the direct installation of a saved edge at the next position\<close>
  "load_edge mutableLoad se g =
     (let idx = length (edges g) in
      g\<lparr>outEdges := upush (seCaller se) idx (outEdges g),
        inEdges := upush (seCallee se) idx (inEdges g),
        edgeIndex := (if mutableLoad then uemplace (keyOf se) idx (edgeIndex g) else edgeIndex g),
        edges := edges g @ [se],
        liveEdgeCount := Suc (liveEdgeCount g)\<rparr>)"

definition read_edge_tu :: "bool \<Rightarrow> interner \<Rightarrow> nat \<Rightarrow> Reader \<Rightarrow> GraphLoad \<Rightarrow> Reader \<times> GraphLoad" where
  "read_edge_tu mutableLoad I idx r s =
     (let (tuId, r1) = gid I (snU32 r); g = glGraph s in
      if rdOk r1 \<and> mutableLoad then (r1, s\<lparr>glGraph := g\<lparr>tuEdges := upush tuId idx (tuEdges g)\<rparr>\<rparr>) else (r1, s))"

definition stored_edge :: "sid \<Rightarrow> sid \<Rightarrow> sid \<Rightarrow> 8 word \<Rightarrow> 8 word \<Rightarrow> 8 word \<Rightarrow> 32 word \<Rightarrow> 32 word \<Rightarrow> StoredEdge option" where
  "stored_edge caller callee siteId k c x depth n =
     (case (enum_of edgeKinds k, enum_of confidences c, enum_of execContexts x) of
        (Some ek, Some conf, Some ctx) \<Rightarrow>
          Some \<lparr>seCaller = caller, seCallee = callee, seCallSite = siteId, seKind = ek, seConfidence = conf,
                seExecContext = ctx, seDepth = unat depth, refs = unat n\<rparr>
      | _ \<Rightarrow> None)"

definition read_edge :: "bool \<Rightarrow> interner \<Rightarrow> Reader \<Rightarrow> GraphLoad \<Rightarrow> Reader \<times> GraphLoad" where
  "read_edge mutableLoad I r s =
     (let (caller, r1) = gid I (snU32 r);
          (callee, r2) = gid I (snU32 r1);
          (siteId, r3) = gid I (snU32 r2);
          (k, r4) = snU8 r3;
          (c, r5) = snU8 r4;
          (x, r6) = snU8 r5;
          (depth, r7) = snU32 r6;
          (n, r8) = snU32 r7;
          (contribCount, r9) = snCount r8;
          r10 = (if n = 0 then r9\<lparr>rdOk := False\<rparr> else r9)
      in if \<not> rdOk r10 then (r10, s)
         else let idx = length (edges (glGraph s));
                  s1 = (case stored_edge caller callee siteId k c x depth n of
                          None \<Rightarrow> s\<lparr>glNamed := False\<rparr>
                        | Some se \<Rightarrow> s\<lparr>glGraph := load_edge mutableLoad se (glGraph s)\<rparr>)
              in repeat_ok (unat contribCount) (read_edge_tu mutableLoad I idx) r10 s1)"

definition read_pair :: "interner \<Rightarrow> (sid \<Rightarrow> sid \<Rightarrow> CallGraph \<Rightarrow> CallGraph) \<Rightarrow> Reader \<Rightarrow> CallGraph \<Rightarrow> Reader \<times> CallGraph" where
  "read_pair I relate r g =
     (let (a, r1) = gid I (snU32 r); (b, r2) = gid I (snU32 r1) in
      if \<not> rdOk r2 then (r2, g) else (r2, relate a b g))"

definition load_derived :: "sid \<Rightarrow> sid \<Rightarrow> CallGraph \<Rightarrow> CallGraph" where
  "load_derived a b g = g\<lparr>derivedClasses := upush a b (derivedClasses g)\<rparr>"

definition load_override :: "sid \<Rightarrow> sid \<Rightarrow> CallGraph \<Rightarrow> CallGraph" where
  "load_override a b g = g\<lparr>methodOverrides := upush a b (methodOverrides g),
                           overrideBases := upush b a (overrideBases g)\<rparr>"

definition load_impl :: "sid \<Rightarrow> sid \<Rightarrow> CallGraph \<Rightarrow> CallGraph" where
  "load_impl impl cls g = g\<lparr>effectiveImplClasses := uinsert impl cls (effectiveImplClasses g)\<rparr>"

definition load_return :: "sid \<Rightarrow> sid \<Rightarrow> CallGraph \<Rightarrow> CallGraph" where
  "load_return fn ret g = g\<lparr>functionReturns := uinsert fn ret (functionReturns g),
                            returnedBy := upush ret fn (returnedBy g)\<rparr>"

definition load_graph :: "bool \<Rightarrow> Reader \<Rightarrow> (Reader \<times> GraphLoad) option" where
  "load_graph mutableLoad r =
     (let (installed, r0, I) = readInternerTable r empty_interner in
      if \<not> installed then None
      else let (r1, g1) = count_loop (read_node mutableLoad I) r0 (empty_graph\<lparr>cgInterner := I\<rparr>);
               (r2, s) = count_loop (read_edge mutableLoad I) r1 \<lparr>glGraph = g1, glNamed = True\<rparr>;
               (r3, g3) = count_loop (read_pair I load_derived) r2 (glGraph s);
               (r4, g4) = count_loop (read_pair I load_override) r3 g3;
               (r5, g5) = count_loop (read_pair I load_impl) r4 g4;
               (r6, g6) = count_loop (read_pair I load_return) r5 g5
           in Some (r6, s\<lparr>glGraph := g6\<rparr>))"

end
