(* ===== verification/SnapshotGraphSpec.thy ===== *)
theory SnapshotGraphSpec
  imports SnapshotGraph
begin

text \<open>
  Loading the bytes of a saved graph: the loops of the loader walk exactly the records that were
  written, and the graph they build is the fold of the direct installations over the saved nodes,
  live edges and pairs.
\<close>

subsection \<open>What is written\<close>

definition display_id :: "CallGraph \<Rightarrow> sid \<times> CallGraphNode \<Rightarrow> sid" where
  "display_id g p = (case find_id (cgInterner g) (qualifiedName (snd p)) of Some d \<Rightarrow> d | None \<Rightarrow> fst p)"

definition w_node :: "CallGraph \<Rightarrow> sid \<times> CallGraphNode \<Rightarrow> string" where
  "w_node g p =
     wU32 (fst p) @ wU32 (display_id g p) @ wStr (nodeFile (snd p)) @ wU32 (word_of_nat (nodeLine (snd p)))
     @ wU8 (two_flags (isEntryPoint (snd p)) (isVirtual (snd p))) @ wStr (enclosingClass (snd p))
     @ wItems wU32 (ulist (nodeContributors g) (fst p))"

definition w_edge :: "(nat, sid list) umap \<Rightarrow> CallGraph \<Rightarrow> nat \<Rightarrow> string" where
  "w_edge m g i =
     (let se = edges g ! i in
      wU32 (seCaller se) @ wU32 (seCallee se) @ wU32 (seCallSite se) @ wU8 (enum_code edgeKinds (seKind se))
      @ wU8 (enum_code confidences (seConfidence se)) @ wU8 (enum_code execContexts (seExecContext se))
      @ wU32 (word_of_nat (seDepth se)) @ wU32 (word_of_nat (refs se)) @ wItems wU32 (ulist m i))"

definition w_pair :: "sid \<times> sid \<Rightarrow> string" where
  "w_pair p = wU32 (fst p) @ wU32 (snd p)"

definition rel_pairs :: "(sid, sid list) umap \<Rightarrow> (sid \<times> sid) list" where
  "rel_pairs m = concat (map (\<lambda>(a, bs). map (Pair a) bs) m)"

definition live_indices :: "CallGraph \<Rightarrow> nat list" where
  "live_indices g = filter (\<lambda>i. refs (edges g ! i) \<noteq> 0) [0..<length (edges g)]"

lemma wItems_Nil [simp]: "wItems w [] = wU32 0"
  by (simp add: wItems_def)

lemma wItems_nonempty [simp]: "wItems w xs \<noteq> []"
  by (simp add: wItems_def)

lemma emit_node_w: "emit_node g p b = b @ w_node g p"
  by (cases p) (simp add: emit_node_def w_node_def display_id_def put_w snIds.list_put wList_ids ulist_def split: option.split)

lemma emit_edge_w: "emit_edge m g i b = b @ (if refs (edges g ! i) = 0 then [] else w_edge m g i)"
  by (simp add: emit_edge_def w_edge_def Let_def put_w snIds.list_put wList_ids ulist_def split: option.split)

lemma concat_filter: "concat (map (\<lambda>i. if P i then [] else w i) xs) = concat (map w (filter (\<lambda>i. \<not> P i) xs))"
  by (induction xs) simp_all

lemma emit_edges_w:
  "fold (emit_edge m g) [0..<length (edges g)] b = b @ concat (map (w_edge m g) (live_indices g))"
proof -
  have e: "emit_edge m g = (\<lambda>i b. b @ (if refs (edges g ! i) = 0 then [] else w_edge m g i))"
    by (intro ext) (rule emit_edge_w)
  show ?thesis unfolding e fold_append_w concat_filter live_indices_def ..
qed

lemma emit_nodes_w: "fold (emit_node g) ns b = b @ concat (map (w_node g) ns)"
proof -
  have e: "emit_node g = (\<lambda>p b. b @ w_node g p)" by (intro ext) (rule emit_node_w)
  show ?thesis unfolding e fold_append_w ..
qed

lemma pair_count: "fold (\<lambda>(a, bs) n. n + word_of_nat (length bs)) m k = k + (word_of_nat (length (rel_pairs m)) :: 32 word)"
  by (induction m arbitrary: k) (auto simp: rel_pairs_def)

lemma emit_pairs_w: "emit_pairs m b = b @ wItems w_pair (rel_pairs m)"
proof -
  have row: "fold (\<lambda>b out. putU32 b (putU32 a out)) bs out = out @ concat (map w_pair (map (Pair a) bs))" for a bs out
    by (induction bs arbitrary: out) (simp_all add: put_w w_pair_def)
  have "fold (\<lambda>(a, bs). fold (\<lambda>b out. putU32 b (putU32 a out)) bs) m out = out @ concat (map w_pair (rel_pairs m))" for out
    by (induction m arbitrary: out) (auto simp: row rel_pairs_def)
  then show ?thesis by (simp add: emit_pairs_def pair_count put_w wItems_def)
qed

subsection \<open>What is installed\<close>

definition loaded_interner :: "interner \<Rightarrow> interner" where
  "loaded_interner I = snd (installStrings (strings I) empty_interner)"

definition load_node :: "bool \<Rightarrow> CallGraph \<Rightarrow> sid \<times> CallGraphNode \<Rightarrow> CallGraph \<Rightarrow> CallGraph" where
  "load_node mutableLoad g p h =
     (let h1 = h\<lparr>byName := upush_new (display_id g p) (fst p) (byName h), nodes := uemplace (fst p) (snd p) (nodes h)\<rparr>
      in if mutableLoad then fold (add_contributor (fst p)) (ulist (nodeContributors g) (fst p)) h1 else h1)"

definition load_edge_tus :: "bool \<Rightarrow> (nat, sid list) umap \<Rightarrow> CallGraph \<Rightarrow> nat \<Rightarrow> CallGraph \<Rightarrow> CallGraph" where
  "load_edge_tus mutableLoad m g i h =
     (let h1 = load_edge mutableLoad (edges g ! i) h
      in if mutableLoad
         then h1\<lparr>tuEdges := fold (\<lambda>t. upush t (length (edges h))) (ulist m i) (tuEdges h1)\<rparr> else h1)"

definition load_pairs :: "(sid \<Rightarrow> sid \<Rightarrow> CallGraph \<Rightarrow> CallGraph) \<Rightarrow> (sid, sid list) umap \<Rightarrow> CallGraph \<Rightarrow> CallGraph" where
  "load_pairs relate m = fold (\<lambda>(a, b). relate a b) (rel_pairs m)"

definition reload_graph :: "bool \<Rightarrow> CallGraph \<Rightarrow> CallGraph" where
  "reload_graph mutableLoad g =
     (let h0 = empty_graph\<lparr>cgInterner := loaded_interner (cgInterner g)\<rparr>;
          h1 = fold (load_node mutableLoad g) (nodes g) h0;
          h2 = fold (load_edge_tus mutableLoad (edge_tus g) g) (live_indices g) h1
      in load_pairs load_return (functionReturns g) (load_pairs load_impl (effectiveImplClasses g)
           (load_pairs load_override (methodOverrides g) (load_pairs load_derived (derivedClasses g) h2))))"

definition node_fits :: "CallGraph \<Rightarrow> sid \<times> CallGraphNode \<Rightarrow> bool" where
  "node_fits g p \<longleftrightarrow> str_fits (nodeFile (snd p)) \<and> str_fits (enclosingClass (snd p)) \<and> nodeLine (snd p) < 2 ^ 32
     \<and> length (ulist (nodeContributors g) (fst p)) < 2 ^ 32"

definition graph_fits :: "CallGraph \<Rightarrow> bool" where
  \<comment> \<open>what is written fits its 32-bit counts\<close>
  "graph_fits g \<longleftrightarrow>
     list_fits str_fits (strings (cgInterner g)) \<and> list_fits (node_fits g) (nodes g)
     \<and> length (edges g) < 2 ^ 32 \<and> list_all (\<lambda>e. refs e < 2 ^ 32 \<and> seDepth e < 2 ^ 32) (edges g)
     \<and> length (rel_pairs (derivedClasses g)) < 2 ^ 32 \<and> length (rel_pairs (methodOverrides g)) < 2 ^ 32
     \<and> length (rel_pairs (effectiveImplClasses g)) < 2 ^ 32 \<and> length (rel_pairs (functionReturns g)) < 2 ^ 32"

subsection \<open>Reading the records\<close>

lemma loaded_strings [simp]: "strings (loaded_interner I) = strings I"
  by (simp add: loaded_interner_def installStrings_def empty_interner_def)

lemma loaded_ids [simp]: "valid_id (loaded_interner I) i = valid_id I i" "resolve (loaded_interner I) = resolve I"
  by (simp_all add: valid_id_def resolve_def fun_eq_iff)

lemma loaded_find: "wf_interner I \<Longrightarrow> find_id (loaded_interner I) s = find_id I s \<and> wf_interner (loaded_interner I)"
proof -
  assume wf: "wf_interner I"
  have "wf_interner (loaded_interner I)" unfolding loaded_interner_def
    by (rule installStrings_wf) (use wf wf_interner_distinct[OF wf] in \<open>auto simp: wf_interner_def empty_interner_def\<close>)
  then have "find_id (loaded_interner I) s = Some i \<longleftrightarrow> find_id I s = Some i" for i
    using wf by (simp add: find_id_iff)
  then have "find_id (loaded_interner I) s = find_id I s" by (metis option.exhaust)
  with \<open>wf_interner (loaded_interner I)\<close> show ?thesis by simp
qed

lemma gid_valid: "valid_id I i \<Longrightarrow> gid I (i, r) = (i, r)"
  by (simp add: gid_def valid_id_def)

lemma readInternerTable_at:
  "list_fits str_fits (strings I) \<Longrightarrow>
   readInternerTable (reader_at pre (wList putStr (strings I) @ suf)) empty_interner
     = (True, reader_at (pre @ wList putStr (strings I)) suf, loaded_interner I)"
  by (simp add: readInternerTable_def sreads loaded_interner_def installStrings_def empty_interner_def)

text \<open>A count and its elements, read by the two steps that the node and edge loops take apart.\<close>

lemma read_ids_at:
  assumes "\<And>x pre suf s. x \<in> set xs \<Longrightarrow> body (reader_at pre (wU32 x @ suf)) s = (reader_at (pre @ wU32 x) suf, f x s)"
    and "length xs < 2 ^ 32"
  shows "snCount (reader_at pre (wItems wU32 xs @ suf))
      = (word_of_nat (length xs), reader_at (pre @ wU32 (word_of_nat (length xs))) (concat (map wU32 xs) @ suf))"
    and "repeat_ok (length xs) body (reader_at pre (concat (map wU32 xs) @ suf)) s
      = (reader_at (pre @ concat (map wU32 xs)) suf, fold f xs s)"
  using snCount_items[of xs wU32 pre suf] assms(2) repeat_ok_items[of xs body wU32 f pre suf s] assms(1)
  by simp_all

lemma fold_id: "fold (\<lambda>x s. s) xs s = s"
  by (induction xs) simp_all

lemma read_node_at:
  assumes v: "valid_id J (fst p)" "valid_id J (display_id g p)"
    and c: "\<And>t. t \<in> set (ulist (nodeContributors g) (fst p)) \<Longrightarrow> valid_id J t"
    and r: "resolve J (fst p) = usr (snd p)" "resolve J (display_id g p) = qualifiedName (snd p)"
    and fits: "node_fits g p"
  shows "read_node mutableLoad J (reader_at pre (w_node g p @ suf)) h
     = (reader_at (pre @ w_node g p) suf, load_node mutableLoad g p h)"
proof -
  let ?cs = "ulist (nodeContributors g) (fst p)"
  have body: "read_contributor mutableLoad J u (reader_at a (wU32 t @ b)) k
      = (reader_at (a @ wU32 t) b, (if mutableLoad then add_contributor u t k else k))"
    if "t \<in> set ?cs" for u t a b k
    using c[OF that] by (simp add: read_contributor_def snU32_at gid_valid)
  have len: "length ?cs < 2 ^ 32" using fits by (simp add: node_fits_def)
  note ids = read_ids_at[of ?cs "read_contributor mutableLoad J (fst p)"
      "\<lambda>t k. if mutableLoad then add_contributor (fst p) t k else k", OF body len]
  have line: "unat (word_of_nat (nodeLine (snd p)) :: 32 word) = nodeLine (snd p)"
    using fits by (intro unat_length) (simp add: node_fits_def)
  have node: "\<lparr>qualifiedName = qualifiedName (snd p), nodeFile = nodeFile (snd p), nodeLine = nodeLine (snd p),
      isEntryPoint = isEntryPoint (snd p), isVirtual = isVirtual (snd p), enclosingClass = enclosingClass (snd p),
      usr = usr (snd p)\<rparr> = snd p" by simp
  have fold: "fold (\<lambda>t k. if mutableLoad then add_contributor u t k else k) xs k
      = (if mutableLoad then fold (add_contributor u) xs k else k)" for u xs k
    by (cases mutableLoad) (simp_all add: fold_id)
  show ?thesis using fits
    unfolding w_node_def node_fits_def
    by (simp add: read_node_def sreads gid_valid v ids unat_length[OF len] line r two_flags_facts
        two_flags_facts[unfolded One_nat_def] node fold load_node_def Let_def split del: if_split) (simp add: wItems_def)
qed

lemma stored_edge_code:
  "refs se < 2 ^ 32 \<Longrightarrow> seDepth se < 2 ^ 32 \<Longrightarrow>
   stored_edge (seCaller se) (seCallee se) (seCallSite se) (enum_code edgeKinds (seKind se))
     (enum_code confidences (seConfidence se)) (enum_code execContexts (seExecContext se))
     (word_of_nat (seDepth se)) (word_of_nat (refs se)) = Some se"
  by (simp add: stored_edge_def unat_length)

lemma word_of_refs: "refs se < 2 ^ 32 \<Longrightarrow> refs se \<noteq> 0 \<Longrightarrow> (word_of_nat (refs se) :: 32 word) \<noteq> 0"
  using unat_length[of "refs se"] by (metis unat_0)

lemma read_edge_at:
  assumes v: "edge_valid J (edges g ! i)" and c: "\<And>t. t \<in> set (ulist m i) \<Longrightarrow> valid_id J t"
    and fits: "refs (edges g ! i) < 2 ^ 32" "seDepth (edges g ! i) < 2 ^ 32" "length (ulist m i) < 2 ^ 32"
    and live: "refs (edges g ! i) \<noteq> 0"
  shows "read_edge mutableLoad J (reader_at pre (w_edge m g i @ suf)) \<lparr>glGraph = h, glNamed = True\<rparr>
     = (reader_at (pre @ w_edge m g i) suf, \<lparr>glGraph = load_edge_tus mutableLoad m g i h, glNamed = True\<rparr>)"
proof -
  let ?k = "length (edges h)"
  let ?f = "\<lambda>t s. if mutableLoad then s\<lparr>glGraph := (glGraph s)\<lparr>tuEdges := upush t ?k (tuEdges (glGraph s))\<rparr>\<rparr> else s"
  have body: "read_edge_tu mutableLoad J ?k (reader_at a (wU32 t @ b)) s = (reader_at (a @ wU32 t) b, ?f t s)"
    if "t \<in> set (ulist m i)" for t a b s
    using c[OF that] by (simp add: read_edge_tu_def snU32_at gid_valid Let_def)
  note ids = read_ids_at[of "ulist m i" "read_edge_tu mutableLoad J ?k" ?f, OF body fits(3)]
  have fold: "fold ?f ts \<lparr>glGraph = k, glNamed = True\<rparr>
      = \<lparr>glGraph = (if mutableLoad then k\<lparr>tuEdges := fold (\<lambda>t. upush t ?k) ts (tuEdges k)\<rparr> else k), glNamed = True\<rparr>" for ts k
    by (induction ts arbitrary: k) auto
  show ?thesis using v
    unfolding w_edge_def Let_def edge_valid_def
    by (simp add: read_edge_def sreads gid_valid ids unat_length[OF fits(3)] stored_edge_code[OF fits(1,2)]
        word_of_refs[OF fits(1) live] fold load_edge_tus_def Let_def split del: if_split) (simp add: wItems_def)
qed

lemma load_pairs_at:
  assumes "pairs_valid J (set (rel_pairs m))" and "length (rel_pairs m) < 2 ^ 32"
  shows "count_loop (read_pair J relate) (reader_at pre (wItems w_pair (rel_pairs m) @ suf)) h
     = (reader_at (pre @ wItems w_pair (rel_pairs m)) suf, load_pairs relate m h)"
proof -
  have body: "read_pair J relate (reader_at a (w_pair p @ b)) k = (reader_at (a @ w_pair p) b, (case p of (x, y) \<Rightarrow> relate x y) k)"
    if "p \<in> set (rel_pairs m)" for p a b k
    using that assms(1) by (cases p) (auto simp: read_pair_def w_pair_def snU32_at gid_valid pairs_valid_def)
  have "w_pair p \<noteq> []" for p by (simp add: w_pair_def)
  then show ?thesis
    unfolding load_pairs_def by (intro count_loop_items) (use assms(2) in \<open>simp_all add: body\<close>)
qed

subsection \<open>The whole section\<close>

lemma set_rel_pairs: "set (rel_pairs m) = {(a, b). \<exists>bs. (a, bs) \<in> set m \<and> b \<in> set bs}"
  by (auto simp: rel_pairs_def)

lemma rel_pairs_rel_of: "distinct (ukeys m) \<Longrightarrow> set (rel_pairs m) = rel_of m"
  by (auto simp: set_rel_pairs rel_of_def ulist_in_set dest: map_of_SomeD split: option.splits)
    (metis (no_types, lifting) empty_iff list.set(1) map_of_SomeD option.case_eq_if option.collapse ulist_def)

lemma live_count: "edge_inv g \<Longrightarrow> liveEdgeCount g = length (live_indices g)"
proof -
  assume "edge_inv g"
  moreover have "{i. live_at (edges g) i} = set (live_indices g)" by (auto simp: live_at_def live_indices_def)
  moreover have "distinct (live_indices g)" by (simp add: live_indices_def)
  ultimately show ?thesis by (simp add: edge_inv_def distinct_card)
qed

lemma edge_tus_length: "refs (edges g ! i) \<noteq> 0 \<Longrightarrow> length (ulist (edge_tus g) i) = ucount (tuEdges g) i"
  unfolding edge_tus_def by (rule length_invert_units)

lemma emit_graph_w:
  "edge_inv g \<Longrightarrow> emit_graph g b =
     b @ wList putStr (strings (cgInterner g)) @ wItems (w_node g) (nodes g) @ wItems (w_edge (edge_tus g) g) (live_indices g)
     @ wItems w_pair (rel_pairs (derivedClasses g)) @ wItems w_pair (rel_pairs (methodOverrides g))
     @ wItems w_pair (rel_pairs (effectiveImplClasses g)) @ wItems w_pair (rel_pairs (functionReturns g))"
  by (simp add: emit_graph_def emitInternerTable_def snStrings.list_put emit_nodes_w emit_edges_w emit_pairs_w put_w
      live_count wItems_def)

lemma load_graph_at:
  assumes wf: "wf_graph g" and fits: "graph_fits g"
  shows "load_graph mutableLoad (reader_at pre (emit_graph g [] @ suf))
     = Some (reader_at (pre @ emit_graph g []) suf, \<lparr>glGraph = reload_graph mutableLoad g, glNamed = True\<rparr>)"
proof -
  note W = wf_graphD[OF wf]
  let ?I = "cgInterner g" and ?J = "loaded_interner (cgInterner g)"
  have ids: "pairs_valid ?J (set (rel_pairs (derivedClasses g)))" "pairs_valid ?J (set (rel_pairs (methodOverrides g)))"
    "pairs_valid ?J (set (rel_pairs (effectiveImplClasses g)))" "pairs_valid ?J (set (rel_pairs (functionReturns g)))"
    using W(5) by (simp_all add: ids_ok_def rel_keys_ok_def rel_pairs_rel_of pairs_valid_def del: rel_of_iff)
  have F: "list_fits str_fits (strings ?I)" "length (nodes g) < 2 ^ 32" "length (edges g) < 2 ^ 32"
    "length (rel_pairs (derivedClasses g)) < 2 ^ 32" "length (rel_pairs (methodOverrides g)) < 2 ^ 32"
    "length (rel_pairs (effectiveImplClasses g)) < 2 ^ 32" "length (rel_pairs (functionReturns g)) < 2 ^ 32"
    using fits by (simp_all add: graph_fits_def list_fits_def)
  have nodes: "count_loop (read_node mutableLoad ?J) (reader_at p (wItems (w_node g) (nodes g) @ s)) h
      = (reader_at (p @ wItems (w_node g) (nodes g)) s, fold (load_node mutableLoad g) (nodes g) h)" for p s h
  proof (rule count_loop_items)
    fix x a b k assume x: "x \<in> set (nodes g)"
    obtain u n where un: "x = (u, n)" by fastforce
    have "map_of (nodes g) u = Some n"
      using x W(3) by (simp add: un nodes_ok_def nodes_ok_with_def names_ok_def)
    then have n: "valid_id ?I u" "resolve ?I u = usr n" "\<exists>d. find_id ?I (qualifiedName n) = Some d"
      using W(3) unfolding nodes_ok_def nodes_ok_with_def names_ok_def by blast+
    obtain d where d: "find_id ?I (qualifiedName n) = Some d" using n(3) by blast
    have "valid_id ?I d" "resolve ?I d = qualifiedName n" using d find_id_iff[OF W(1)] by auto
    moreover have "valid_id ?I t" if "t \<in> set (ulist (nodeContributors g) u)" for t
      using that W(5) by (auto simp: ids_ok_def pairs_valid_def rel_of_def)
    moreover have "node_fits g x" using x fits by (auto simp: graph_fits_def list_fits_def list_all_iff)
    ultimately show "read_node mutableLoad ?J (reader_at a (w_node g x @ b)) k = (reader_at (a @ w_node g x) b, load_node mutableLoad g x k)"
      using n d by (intro read_node_at) (simp_all add: un display_id_def)
  qed (use F(2) in \<open>simp_all add: w_node_def\<close>)
  have edges: "count_loop (read_edge mutableLoad ?J) (reader_at p (wItems (w_edge (edge_tus g) g) (live_indices g) @ s)) \<lparr>glGraph = h, glNamed = True\<rparr>
      = (reader_at (p @ wItems (w_edge (edge_tus g) g) (live_indices g)) s,
         \<lparr>glGraph = fold (load_edge_tus mutableLoad (edge_tus g) g) (live_indices g) h, glNamed = True\<rparr>)" for p s h
  proof -
    define step where "step = (\<lambda>i s. \<lparr>glGraph = load_edge_tus mutableLoad (edge_tus g) g i (glGraph s), glNamed = True\<rparr>)"
    have body: "read_edge mutableLoad ?J (reader_at a (w_edge (edge_tus g) g i @ b)) \<lparr>glGraph = k, glNamed = True\<rparr>
        = (reader_at (a @ w_edge (edge_tus g) g i) b, \<lparr>glGraph = load_edge_tus mutableLoad (edge_tus g) g i k, glNamed = True\<rparr>)"
      if i: "i \<in> set (live_indices g)" for i a b k
    proof (rule read_edge_at)
      have i': "i < length (edges g)" "refs (edges g ! i) \<noteq> 0" using i by (simp_all add: live_indices_def)
      show "edge_valid ?J (edges g ! i)" using W(5) i' by (simp add: ids_ok_def edge_valid_def)
      show "refs (edges g ! i) \<noteq> 0" by (rule i'(2))
      show f: "refs (edges g ! i) < 2 ^ 32" "seDepth (edges g ! i) < 2 ^ 32"
        using fits i'(1) by (auto simp: graph_fits_def list_all_iff)
      have "ucount (tuEdges g) i \<le> refs_at (edges g) i" using W(2) by (simp add: edge_inv_def backing_ok_def)
      then show "length (ulist (edge_tus g) i) < 2 ^ 32"
        using f(1) i' by (simp add: edge_tus_length refs_at_def)
      fix t assume "t \<in> set (ulist (edge_tus g) i)"
      moreover have "distinct (ukeys (tuEdges g))" using W(2) by (simp add: edge_inv_def backing_ok_def)
      ultimately have "i \<in> set (ulist (tuEdges g) t)" unfolding edge_tus_def by (intro in_invert_units)
      then have "ulist (tuEdges g) t \<noteq> []" by auto
      then show "valid_id ?J t" using W(5) by (simp add: ids_ok_def)
    qed
    have walk: "repeat_ok (length xs) (read_edge mutableLoad ?J) (reader_at a (concat (map (w_edge (edge_tus g) g) xs) @ b)) \<lparr>glGraph = k, glNamed = True\<rparr>
        = (reader_at (a @ concat (map (w_edge (edge_tus g) g) xs)) b, \<lparr>glGraph = fold (load_edge_tus mutableLoad (edge_tus g) g) xs k, glNamed = True\<rparr>)"
      if "set xs \<subseteq> set (live_indices g)" for xs a b k
      using that
    proof (induction xs arbitrary: a k)
      case (Cons i xs)
      then show ?case using Cons.IH[of "a @ w_edge (edge_tus g) g i"] by (simp add: body)
    qed simp
    have "length (live_indices g) \<le> length (edges g)" unfolding live_indices_def by (rule order.trans[OF length_filter_le]) simp
    then have len: "length (live_indices g) < 2 ^ 32" using F(3) by simp
    have "w_edge (edge_tus g) g i \<noteq> []" for i by (simp add: w_edge_def Let_def)
    then have "snCount (reader_at p (wItems (w_edge (edge_tus g) g) (live_indices g) @ s))
        = (word_of_nat (length (live_indices g)), reader_at (p @ wU32 (word_of_nat (length (live_indices g)))) (concat (map (w_edge (edge_tus g) g) (live_indices g)) @ s))"
      by (intro snCount_items len)
    then show ?thesis
      using walk[of "live_indices g" "p @ wU32 (word_of_nat (length (live_indices g)))" s h] unat_length[OF len]
      by (simp add: count_loop_def) (simp add: wItems_def)
  qed
  note pairs = load_pairs_at[OF ids(1) F(4)] load_pairs_at[OF ids(2) F(5)] load_pairs_at[OF ids(3) F(6)] load_pairs_at[OF ids(4) F(7)]
  show ?thesis
    unfolding emit_graph_w[OF W(2)]
    by (simp add: load_graph_def readInternerTable_at[OF F(1)] nodes edges pairs reload_graph_def Let_def)
qed

end
