(* ===== verification/SnapshotReload.thy ===== *)
theory SnapshotReload
  imports SnapshotGraphSpec
begin

text \<open>
  The reloaded graph: well formed, with the same nodes, contributors, relations, live edges and
  registration counts as the graph that was saved, so it answers the queries with the same calls
  and later removals and merges start from the same state.
\<close>

subsection \<open>Nodes\<close>

lemma load_node_register:
  "map_of (nodes h) (fst p) = None \<Longrightarrow>
   load_node True g p h = fold (add_contributor (fst p)) (ulist (nodeContributors g) (fst p))
     (register_node (fst p) (display_id g p) (snd p) h)"
  by (simp add: load_node_def register_node_def Let_def)

lemma contributors_fold:
  "set (ulist (nodeContributors (fold (add_contributor u) ts h)) x)
     = set (ulist (nodeContributors h) x) \<union> (if x = u then set ts else {})"
proof (induction ts arbitrary: h)
  case (Cons t ts)
  have "set (ulist (nodeContributors (add_contributor u t h)) x) = set (ulist (nodeContributors h) x) \<union> (if x = u then {t} else {})"
    by (auto simp: add_contributor_def umap_simps)
  then show ?case by (auto simp: Cons)
qed simp

lemma node_frame_contributors:
  "edge_part (fold (add_contributor u) ts h) = edge_part h"
  "nodes (fold (add_contributor u) ts h) = nodes h" "cgInterner (fold (add_contributor u) ts h) = cgInterner h"
  "derivedClasses (fold (add_contributor u) ts h) = derivedClasses h" "methodOverrides (fold (add_contributor u) ts h) = methodOverrides h"
  "effectiveImplClasses (fold (add_contributor u) ts h) = effectiveImplClasses h" "functionReturns (fold (add_contributor u) ts h) = functionReturns h"
  by (induction ts arbitrary: h) (simp_all add: add_contributor_def edge_part_def)

definition rel_part where
  "rel_part g = (derivedClasses g, methodOverrides g, effectiveImplClasses g, functionReturns g)"

lemma load_node_frame:
  "edge_part (load_node True g p h) = edge_part h" "rel_part (load_node True g p h) = rel_part h"
  "cgInterner (load_node True g p h) = cgInterner h"
  "nodes (load_node True g p h) = uemplace (fst p) (snd p) (nodes h)"
  by (simp_all add: load_node_def Let_def node_frame_contributors rel_part_def) (simp_all add: edge_part_def)

lemma uemplace_new: "map_of m k = None \<Longrightarrow> uemplace k v m = m @ [(k, v)]"
proof -
  assume n: "map_of m k = None"
  then have "k \<notin> fst ` set m" by (simp add: map_of_eq_None_iff)
  moreover have "k \<notin> fst ` set m \<Longrightarrow> AList.update k v m = m @ [(k, v)]"
    by (induction m) auto
  ultimately show ?thesis by (simp add: uemplace_def)
qed

lemma wf_add_contributors:
  assumes "wf_graph h" and "u \<in> fst ` set (nodes h)" and "\<And>t. t \<in> set ts \<Longrightarrow> valid_id (cgInterner h) t"
  shows "wf_graph (fold (add_contributor u) ts h)"
  using assms
proof (induction ts arbitrary: h)
  case (Cons t ts)
  have "wf_graph (add_contributor u t h)" using Cons.prems by (intro wf_add_contributor) auto
  then have "wf_graph (fold (add_contributor u) ts (add_contributor u t h))"
    using Cons.prems by (intro Cons.IH) (auto simp: add_contributor_fields)
  then show ?case by simp
qed simp

text \<open>The nodes of a well-formed graph, as the loader meets them.\<close>

lemma saved_node:
  assumes wf: "wf_graph g" and p: "p \<in> set (nodes g)"
  shows "valid_id (cgInterner g) (fst p)" and "resolve (cgInterner g) (fst p) = usr (snd p)"
    and "find_id (cgInterner g) (qualifiedName (snd p)) = Some (display_id g p)"
    and "t \<in> set (ulist (nodeContributors g) x) \<Longrightarrow> valid_id (cgInterner g) t"
proof -
  note W = wf_graphD[OF wf]
  have nok: "names_ok (cgInterner g) (nodes g) (byName g)" using W(3) by (simp add: nodes_ok_def nodes_ok_with_def)
  have m: "map_of (nodes g) (fst p) = Some (snd p)" using p names_okD(1)[OF nok] by simp
  show "valid_id (cgInterner g) (fst p)" "resolve (cgInterner g) (fst p) = usr (snd p)"
    using names_okD(4)[OF nok m] by auto
  show "find_id (cgInterner g) (qualifiedName (snd p)) = Some (display_id g p)"
    using names_okD(5)[OF nok m] by (auto simp: display_id_def)
  show "t \<in> set (ulist (nodeContributors g) x) \<Longrightarrow> valid_id (cgInterner g) t"
    using W(5) by (auto simp: ids_ok_def pairs_valid_def rel_of_def)
qed

lemma load_nodes_step:
  assumes wf: "wf_graph g" and ns: "set ns \<subseteq> set (nodes g)" "distinct (map fst ns)"
    and h: "wf_graph h" "cgInterner h = loaded_interner (cgInterner g)" "fst ` set (nodes h) \<inter> fst ` set ns = {}"
  shows "wf_graph (fold (load_node True g) ns h)" and "nodes (fold (load_node True g) ns h) = nodes h @ ns"
    and "edge_part (fold (load_node True g) ns h) = edge_part h" and "rel_part (fold (load_node True g) ns h) = rel_part h"
    and "cgInterner (fold (load_node True g) ns h) = cgInterner h"
    and "set (ulist (nodeContributors (fold (load_node True g) ns h)) x)
      = set (ulist (nodeContributors h) x) \<union> (if x \<in> fst ` set ns then set (ulist (nodeContributors g) x) else {})"
proof -
  let ?F = "\<lambda>ns h. fold (load_node True g) ns h"
  have "wf_graph (?F ns h) \<and> nodes (?F ns h) = nodes h @ ns \<and> edge_part (?F ns h) = edge_part h \<and> rel_part (?F ns h) = rel_part h
      \<and> cgInterner (?F ns h) = cgInterner h \<and> set (ulist (nodeContributors (?F ns h)) x)
      = set (ulist (nodeContributors h) x) \<union> (if x \<in> fst ` set ns then set (ulist (nodeContributors g) x) else {})"
    using ns h
  proof (induction ns arbitrary: h)
    case (Cons p ns)
    note S = saved_node[OF wf, of p]
    have p: "p \<in> set (nodes g)" using Cons.prems by simp
    have new: "map_of (nodes h) (fst p) = None" using Cons.prems(5) by (auto simp: map_of_eq_None_iff)
    let ?h = "load_node True g p h"
    let ?r = "register_node (fst p) (display_id g p) (snd p) h"
    have r: "wf_graph ?r" "fst p \<in> fst ` set (nodes ?r)"
      using wf_register_node[OF Cons.prems(3), of "fst p" "snd p" "display_id g p"] S(1-3)[OF p] loaded_find[OF wf_graphD(1)[OF wf]]
      by (simp_all add: Cons.prems(4))
    have "wf_graph ?h"
      unfolding load_node_register[OF new]
      by (rule wf_add_contributors[OF r]) (use S(4)[OF p] Cons.prems(4) in \<open>auto simp: register_node_fields\<close>)
    moreover have nodes: "nodes ?h = nodes h @ [p]" using uemplace_new[OF new] by (simp add: load_node_frame)
    moreover have "cgInterner ?h = cgInterner h" by (simp add: load_node_frame)
    ultimately have IH: "wf_graph (?F ns ?h) \<and> nodes (?F ns ?h) = nodes ?h @ ns \<and> edge_part (?F ns ?h) = edge_part ?h
      \<and> rel_part (?F ns ?h) = rel_part ?h \<and> cgInterner (?F ns ?h) = cgInterner ?h \<and> set (ulist (nodeContributors (?F ns ?h)) x)
      = set (ulist (nodeContributors ?h) x) \<union> (if x \<in> fst ` set ns then set (ulist (nodeContributors g) x) else {})"
      using Cons.prems by (intro Cons.IH) auto
    have "set (ulist (nodeContributors ?h) x) = set (ulist (nodeContributors h) x) \<union> (if x = fst p then set (ulist (nodeContributors g) (fst p)) else {})"
      unfolding load_node_register[OF new] contributors_fold by (simp add: register_node_fields)
    then show ?case using IH nodes by (auto simp: load_node_frame)
  qed simp
  then show "wf_graph (?F ns h)" "nodes (?F ns h) = nodes h @ ns" "edge_part (?F ns h) = edge_part h" "rel_part (?F ns h) = rel_part h"
    "cgInterner (?F ns h) = cgInterner h" "set (ulist (nodeContributors (?F ns h)) x)
      = set (ulist (nodeContributors h) x) \<union> (if x \<in> fst ` set ns then set (ulist (nodeContributors g) x) else {})" by blast+
qed

subsection \<open>Edges\<close>

lemma upush_fold:
  "ulist (fold (\<lambda>t. upush t k) ts m) t = ulist m t @ replicate (count_list ts t) k"
  "distinct (ukeys m) \<Longrightarrow> distinct (ukeys (fold (\<lambda>t. upush t k) ts m))"
  "distinct (ukeys m) \<Longrightarrow> ucount (fold (\<lambda>t. upush t k) ts m) j = ucount m j + (if j = k then length ts else 0)"
proof -
  show "ulist (fold (\<lambda>t. upush t k) ts m) t = ulist m t @ replicate (count_list ts t) k"
    by (induction ts arbitrary: m) (auto simp: umap_simps replicate_app_Cons_same)
  show "distinct (ukeys m) \<Longrightarrow> distinct (ukeys (fold (\<lambda>t. upush t k) ts m))"
    by (induction ts arbitrary: m) auto
  show "distinct (ukeys m) \<Longrightarrow> ucount (fold (\<lambda>t. upush t k) ts m) j = ucount m j + (if j = k then length ts else 0)"
    by (induction ts arbitrary: m) (auto simp: ucount_upush)
qed

lemma count_edge_tus:
  "distinct (ukeys (tuEdges g)) \<Longrightarrow> refs (edges g ! i) \<noteq> 0 \<Longrightarrow>
     count_list (ulist (edge_tus g) i) t = count_list (ulist (tuEdges g) t) i"
  unfolding edge_tus_def by (rule count_invert_units)

definition edges_loaded :: "CallGraph \<Rightarrow> nat list \<Rightarrow> CallGraph \<Rightarrow> bool" where
  "edges_loaded g is h \<longleftrightarrow>
     edges h = map ((!) (edges g)) is \<and> adjacency_ok seCaller (outEdges h) (edges h)
     \<and> adjacency_ok seCallee (inEdges h) (edges h) \<and> index_ok (edgeIndex h) (edges h)
     \<and> liveEdgeCount h = length is \<and> distinct (ukeys (tuEdges h))
     \<and> (\<forall>t j. count_list (ulist (tuEdges h) t) j = (if j < length is then count_list (ulist (tuEdges g) t) (is ! j) else 0))
     \<and> (\<forall>j. ucount (tuEdges h) j = (if j < length is then ucount (tuEdges g) (is ! j) else 0))"

lemma live_nth: "\<forall>i \<in> set is. live_at (edges g) i \<Longrightarrow> live_at (map ((!) (edges g)) is) j \<longleftrightarrow> j < length is"
  by (auto simp: live_at_def)

lemma edges_loaded_step:
  assumes g: "edge_inv g" and L: "edges_loaded g is h" and live: "\<forall>j \<in> set (is @ [i]). live_at (edges g) j" and d: "distinct (is @ [i])"
  shows "edges_loaded g (is @ [i]) (load_edge_tus True (edge_tus g) g i h)"
proof -
  let ?e = "edges g ! i" and ?k = "length is" and ?h = "load_edge_tus True (edge_tus g) g i h"
  let ?es = "map ((!) (edges g)) is"
  have E: "edges h = ?es" "adjacency_ok seCaller (outEdges h) ?es" "adjacency_ok seCallee (inEdges h) ?es"
    "index_ok (edgeIndex h) ?es" "liveEdgeCount h = ?k" "distinct (ukeys (tuEdges h))"
    and T: "\<And>t j. count_list (ulist (tuEdges h) t) j = (if j < ?k then count_list (ulist (tuEdges g) t) (is ! j) else 0)"
      "\<And>j. ucount (tuEdges h) j = (if j < ?k then ucount (tuEdges g) (is ! j) else 0)"
    using L unfolding edges_loaded_def by auto
  have r: "refs ?e \<noteq> 0" "refs ?e > 0" using live by (auto simp: live_at_def)
  have F: "edges ?h = ?es @ [?e]" "outEdges ?h = upush (seCaller ?e) ?k (outEdges h)" "inEdges ?h = upush (seCallee ?e) ?k (inEdges h)"
    "edgeIndex ?h = uemplace (keyOf ?e) ?k (edgeIndex h)" "liveEdgeCount ?h = Suc ?k"
    "tuEdges ?h = fold (\<lambda>t. upush t ?k) (ulist (edge_tus g) i) (tuEdges h)"
    by (simp_all add: load_edge_tus_def load_edge_def Let_def E)
  have ix: "index_ok (edgeIndex g) (edges g)" and dk: "distinct (ukeys (tuEdges g))"
    using g by (auto simp: edge_inv_def backing_ok_def)
  have fresh: "map_of (edgeIndex h) (keyOf ?e) = None"
  proof (rule ccontr)
    assume "map_of (edgeIndex h) (keyOf ?e) \<noteq> None"
    then obtain j where j: "live_at ?es j" "keyOf (?es ! j) = keyOf ?e" using index_ok_iff[OF E(4)] by blast
    then have "j < ?k" by (simp add: live_at_def)
    then have "is ! j = i" using j(2) live by (intro index_ok_inj[OF ix]) auto
    with d \<open>j < ?k\<close> show False by (auto simp: in_set_conv_nth)
  qed
  have "index_ok (edgeIndex ?h) (edges ?h)"
    unfolding F
  proof (rule index_okI)
    fix key n
    show "map_of (uemplace (keyOf ?e) ?k (edgeIndex h)) key = Some n \<longleftrightarrow> live_at (?es @ [?e]) n \<and> keyOf ((?es @ [?e]) ! n) = key"
      using index_ok_iff[OF E(4), of key n] fresh r unfolding live_at_def
      by (cases "key = keyOf ?e"; cases "n < ?k") (auto simp: umap_simps nth_append less_Suc_eq)
  qed
  moreover have "adjacency_ok seCaller (outEdges ?h) (edges ?h)" "adjacency_ok seCallee (inEdges ?h) (edges ?h)"
    using E(2,3) r by (auto simp: F adjacency_ok_def umap_simps)
  moreover have "count_list (ulist (tuEdges ?h) t) j = (if j < length (is @ [i]) then count_list (ulist (tuEdges g) t) ((is @ [i]) ! j) else 0)" for t j
  proof -
    have rep: "count_list (replicate n a) b = (if a = b then n else 0)" for n and a b :: nat
      by (induction n) auto
    show ?thesis using count_edge_tus[OF dk r(1), of t]
      by (auto simp: F upush_fold(1) T(1) rep nth_append less_Suc_eq)
  qed
  moreover have "ucount (tuEdges ?h) j = (if j < length (is @ [i]) then ucount (tuEdges g) ((is @ [i]) ! j) else 0)" for j
    using edge_tus_length[OF r(1)] by (auto simp: F upush_fold(3)[OF E(6)] T(2) nth_append less_Suc_eq)
  moreover have "distinct (ukeys (tuEdges ?h))" unfolding F by (rule upush_fold(2)[OF E(6)])
  ultimately show ?thesis by (simp add: edges_loaded_def F(1,5))
qed

lemma edges_loaded_fold:
  assumes g: "edge_inv g" and L: "edges_loaded g done h"
    and "\<forall>j \<in> set (done @ todo). live_at (edges g) j" and "distinct (done @ todo)"
  shows "edges_loaded g (done @ todo) (fold (load_edge_tus True (edge_tus g) g) todo h)"
  using assms(2-)
proof (induction todo arbitrary: "done" h)
  case (Cons i todo)
  have "edges_loaded g (done @ [i]) (load_edge_tus True (edge_tus g) g i h)"
    using Cons.prems by (intro edges_loaded_step[OF g]) auto
  then show ?case using Cons.IH[of "done @ [i]"] Cons.prems by simp
qed simp

lemma edges_loaded_inv:
  assumes g: "edge_inv g" and L: "edges_loaded g (live_indices g) h"
  shows "edge_inv h" and "key_refs h k = key_refs g k" and "tu_refs h t k = tu_refs g t k"
    and "live_edge h e = live_edge g e"
proof -
  let ?is = "live_indices g"
  have live: "\<forall>i \<in> set ?is. live_at (edges g) i" by (auto simp: live_indices_def live_at_def)
  have E: "edges h = map ((!) (edges g)) ?is" "adjacency_ok seCaller (outEdges h) (edges h)"
    "adjacency_ok seCallee (inEdges h) (edges h)" "index_ok (edgeIndex h) (edges h)" "liveEdgeCount h = length ?is" "distinct (ukeys (tuEdges h))"
    and T: "\<And>t j. count_list (ulist (tuEdges h) t) j = (if j < length ?is then count_list (ulist (tuEdges g) t) (?is ! j) else 0)"
      "\<And>j. ucount (tuEdges h) j = (if j < length ?is then ucount (tuEdges g) (?is ! j) else 0)"
    using L unfolding edges_loaded_def by auto
  have ix: "index_ok (edgeIndex g) (edges g)" and bk: "backing_ok (tuEdges g) (edges g)" using g by (auto simp: edge_inv_def)
  have "{i. live_at (edges h) i} = {..<length ?is}" unfolding E(1) live_nth[OF live] by auto
  moreover have "ucount (tuEdges h) j \<le> refs_at (edges h) j" for j
  proof (cases "j < length ?is")
    case True
    have "ucount (tuEdges g) (?is ! j) \<le> refs_at (edges g) (?is ! j)" using bk by (simp add: backing_ok_def)
    then show ?thesis using True live by (auto simp: T E(1) refs_at_def live_at_def split: if_splits)
  qed (simp add: T)
  ultimately show inv: "edge_inv h" using E by (simp add: edge_inv_def backing_ok_def)
  have idx: "map_of (edgeIndex h) k = Some j \<longleftrightarrow> j < length ?is \<and> map_of (edgeIndex g) k = Some (?is ! j)" for j
    unfolding index_ok_iff[OF E(4)] index_ok_iff[OF ix] using live unfolding E(1) live_nth[OF live] by auto
  have some: "\<exists>j < length ?is. ?is ! j = i" if "map_of (edgeIndex g) k = Some i" for i
    using that index_ok_iff[OF ix, of k i] by (auto simp: live_at_def live_indices_def in_set_conv_nth[symmetric])
  have cases: "(map_of (edgeIndex g) k = None \<and> map_of (edgeIndex h) k = None) \<or>
      (\<exists>j < length ?is. map_of (edgeIndex g) k = Some (?is ! j) \<and> map_of (edgeIndex h) k = Some j)"
  proof (cases "map_of (edgeIndex g) k")
    case None
    then have "map_of (edgeIndex h) k \<noteq> Some j" for j using idx[of j] by simp
    with None show ?thesis by (cases "map_of (edgeIndex h) k") auto
  next
    case (Some i)
    then obtain j where "j < length ?is" "?is ! j = i" using some by blast
    then show ?thesis using idx[of j] Some by auto
  qed
  then show "key_refs h k = key_refs g k" by (auto simp: key_refs_def E(1))
  from cases show "tu_refs h t k = tu_refs g t k"
    by (auto simp: tu_refs_eq_count[OF inv] tu_refs_eq_count[OF g] T)
  show "live_edge h e = live_edge g e"
    by (auto simp: live_edge_def E(1) live_indices_def in_set_conv_nth)
qed

lemma load_edges_frame:
  "nodes (fold (load_edge_tus mut m g) is h) = nodes h" "byName (fold (load_edge_tus mut m g) is h) = byName h"
  "cgInterner (fold (load_edge_tus mut m g) is h) = cgInterner h" "rel_part (fold (load_edge_tus mut m g) is h) = rel_part h"
  "nodeContributors (fold (load_edge_tus mut m g) is h) = nodeContributors h" "tuNodes (fold (load_edge_tus mut m g) is h) = tuNodes h"
  "overrideBases (fold (load_edge_tus mut m g) is h) = overrideBases h" "returnedBy (fold (load_edge_tus mut m g) is h) = returnedBy h"
  by (induction "is" arbitrary: h) (simp_all add: load_edge_tus_def load_edge_def Let_def rel_part_def)

subsection \<open>Relations\<close>

lemma wf_load_relation:
  assumes wf: "wf_graph h" and v: "valid_id (cgInterner h) a" "valid_id (cgInterner h) b"
  shows "wf_graph (load_derived a b h)" and "wf_graph (load_override a b h)"
    and "wf_graph (load_impl a b h)" and "wf_graph (load_return a b h)"
proof -
  note W = wf_graphD[OF wf]
  have ids: "ids_ok (load_derived a b h)" "ids_ok (load_override a b h)" "ids_ok (load_impl a b h)" "ids_ok (load_return a b h)"
    using W(5) v by (simp_all add: ids_ok_def rel_keys_ok_def load_derived_def load_override_def load_impl_def load_return_def del: rel_of_iff)
  have rels: "relations_ok (load_derived a b h)" "relations_ok (load_override a b h)" "relations_ok (load_impl a b h)" "relations_ok (load_return a b h)"
    using W(4) by (auto simp: relations_ok_def load_derived_def load_override_def load_impl_def load_return_def simp del: rel_of_iff)
  have nd: "nodes_ok (load_derived a b h)" "nodes_ok (load_override a b h)" "nodes_ok (load_impl a b h)" "nodes_ok (load_return a b h)"
    using W(3) by (simp_all add: nodes_ok_def nodes_ok_with_def load_derived_def load_override_def load_impl_def load_return_def)
  have "edge_part (load_derived a b h) = edge_part h" "edge_part (load_override a b h) = edge_part h"
    "edge_part (load_impl a b h) = edge_part h" "edge_part (load_return a b h) = edge_part h"
    by (simp_all add: edge_part_def load_derived_def load_override_def load_impl_def load_return_def)
  note ep = this[THEN edge_part_cong(1)]
  have I: "cgInterner (load_derived a b h) = cgInterner h" "cgInterner (load_override a b h) = cgInterner h"
    "cgInterner (load_impl a b h) = cgInterner h" "cgInterner (load_return a b h) = cgInterner h"
    by (simp_all add: load_derived_def load_override_def load_impl_def load_return_def)
  show "wf_graph (load_derived a b h)" "wf_graph (load_override a b h)" "wf_graph (load_impl a b h)" "wf_graph (load_return a b h)"
    using W(1,2) ids rels nd by (simp_all add: wf_graph_def ep I)
qed

lemma load_pairs_wf:
  assumes "wf_graph h" and "pairs_valid (cgInterner h) (set (rel_pairs m))"
    and "\<And>h a b. wf_graph h \<Longrightarrow> valid_id (cgInterner h) a \<Longrightarrow> valid_id (cgInterner h) b \<Longrightarrow> wf_graph (relate a b h)"
    and "\<And>h a b. cgInterner (relate a b h) = cgInterner h"
  shows "wf_graph (load_pairs relate m h)"
proof -
  have "wf_graph (fold (\<lambda>(a, b). relate a b) ps h)" if "wf_graph h" "pairs_valid (cgInterner h) (set ps)" for ps h
    using that
  proof (induction ps arbitrary: h)
    case (Cons p ps)
    obtain a b where p: "p = (a, b)" by fastforce
    have "wf_graph (relate a b h)" using Cons.prems assms(3) by (simp add: p pairs_valid_def)
    then show ?case using Cons.prems by (auto simp: p assms(4) pairs_valid_def intro!: Cons.IH)
  qed simp
  then show ?thesis using assms(1,2) by (simp add: load_pairs_def)
qed

lemma load_pairs_frame:
  "edge_part (load_pairs load_derived m h) = edge_part h" "edge_part (load_pairs load_override m h) = edge_part h"
  "edge_part (load_pairs load_impl m h) = edge_part h" "edge_part (load_pairs load_return m h) = edge_part h"
proof -
  have "edge_part (fold f ps h) = edge_part h" if "\<And>p h. edge_part (f p h) = edge_part h"
    for ps and f :: "sid \<times> sid \<Rightarrow> CallGraph \<Rightarrow> CallGraph"
    using that by (induction ps arbitrary: h) auto
  then show "edge_part (load_pairs load_derived m h) = edge_part h" "edge_part (load_pairs load_override m h) = edge_part h"
    "edge_part (load_pairs load_impl m h) = edge_part h" "edge_part (load_pairs load_return m h) = edge_part h"
    by (simp_all add: load_pairs_def edge_part_def load_derived_def load_override_def load_impl_def load_return_def split: prod.splits)
qed

definition node_part where
  "node_part g = (cgInterner g, nodes g, byName g, nodeContributors g, tuNodes g)"

lemma load_pairs_rest:
  "node_part (load_pairs load_derived m h) = node_part h" "node_part (load_pairs load_override m h) = node_part h"
  "node_part (load_pairs load_impl m h) = node_part h" "node_part (load_pairs load_return m h) = node_part h"
  "rel_of (derivedClasses (load_pairs load_derived m h)) = set (rel_pairs m) \<union> rel_of (derivedClasses h)"
  "methodOverrides (load_pairs load_derived m h) = methodOverrides h" "effectiveImplClasses (load_pairs load_derived m h) = effectiveImplClasses h"
  "functionReturns (load_pairs load_derived m h) = functionReturns h"
  "rel_of (methodOverrides (load_pairs load_override m h)) = set (rel_pairs m) \<union> rel_of (methodOverrides h)"
  "derivedClasses (load_pairs load_override m h) = derivedClasses h" "effectiveImplClasses (load_pairs load_override m h) = effectiveImplClasses h"
  "functionReturns (load_pairs load_override m h) = functionReturns h"
  "rel_of (effectiveImplClasses (load_pairs load_impl m h)) = set (rel_pairs m) \<union> rel_of (effectiveImplClasses h)"
  "derivedClasses (load_pairs load_impl m h) = derivedClasses h" "methodOverrides (load_pairs load_impl m h) = methodOverrides h"
  "functionReturns (load_pairs load_impl m h) = functionReturns h"
  "rel_of (functionReturns (load_pairs load_return m h)) = set (rel_pairs m) \<union> rel_of (functionReturns h)"
  "derivedClasses (load_pairs load_return m h) = derivedClasses h" "methodOverrides (load_pairs load_return m h) = methodOverrides h"
  "effectiveImplClasses (load_pairs load_return m h) = effectiveImplClasses h"
proof -
  let ?D = "\<lambda>ps. fold (\<lambda>(a, b). load_derived a b) ps" and ?O = "\<lambda>ps. fold (\<lambda>(a, b). load_override a b) ps"
  let ?E = "\<lambda>ps. fold (\<lambda>(a, b). load_impl a b) ps" and ?R = "\<lambda>ps. fold (\<lambda>(a, b). load_return a b) ps"
  have D: "node_part (?D ps h) = node_part h \<and> rel_of (derivedClasses (?D ps h)) = set ps \<union> rel_of (derivedClasses h)
      \<and> methodOverrides (?D ps h) = methodOverrides h \<and> effectiveImplClasses (?D ps h) = effectiveImplClasses h
      \<and> functionReturns (?D ps h) = functionReturns h" for ps h
    by (induction ps arbitrary: h) (auto simp: load_derived_def node_part_def simp del: rel_of_iff)
  have O: "node_part (?O ps h) = node_part h \<and> rel_of (methodOverrides (?O ps h)) = set ps \<union> rel_of (methodOverrides h)
      \<and> derivedClasses (?O ps h) = derivedClasses h \<and> effectiveImplClasses (?O ps h) = effectiveImplClasses h
      \<and> functionReturns (?O ps h) = functionReturns h" for ps h
    by (induction ps arbitrary: h) (auto simp: load_override_def node_part_def simp del: rel_of_iff)
  have E: "node_part (?E ps h) = node_part h \<and> rel_of (effectiveImplClasses (?E ps h)) = set ps \<union> rel_of (effectiveImplClasses h)
      \<and> derivedClasses (?E ps h) = derivedClasses h \<and> methodOverrides (?E ps h) = methodOverrides h
      \<and> functionReturns (?E ps h) = functionReturns h" for ps h
    by (induction ps arbitrary: h) (auto simp: load_impl_def node_part_def simp del: rel_of_iff)
  have R: "node_part (?R ps h) = node_part h \<and> rel_of (functionReturns (?R ps h)) = set ps \<union> rel_of (functionReturns h)
      \<and> derivedClasses (?R ps h) = derivedClasses h \<and> methodOverrides (?R ps h) = methodOverrides h
      \<and> effectiveImplClasses (?R ps h) = effectiveImplClasses h" for ps h
    by (induction ps arbitrary: h) (auto simp: load_return_def node_part_def simp del: rel_of_iff)
  show "node_part (load_pairs load_derived m h) = node_part h"
    "node_part (load_pairs load_override m h) = node_part h"
    "node_part (load_pairs load_impl m h) = node_part h"
    "node_part (load_pairs load_return m h) = node_part h"
    "rel_of (derivedClasses (load_pairs load_derived m h)) = set (rel_pairs m) \<union> rel_of (derivedClasses h)"
    "methodOverrides (load_pairs load_derived m h) = methodOverrides h"
    "effectiveImplClasses (load_pairs load_derived m h) = effectiveImplClasses h"
    "functionReturns (load_pairs load_derived m h) = functionReturns h"
    "rel_of (methodOverrides (load_pairs load_override m h)) = set (rel_pairs m) \<union> rel_of (methodOverrides h)"
    "derivedClasses (load_pairs load_override m h) = derivedClasses h"
    "effectiveImplClasses (load_pairs load_override m h) = effectiveImplClasses h"
    "functionReturns (load_pairs load_override m h) = functionReturns h"
    "rel_of (effectiveImplClasses (load_pairs load_impl m h)) = set (rel_pairs m) \<union> rel_of (effectiveImplClasses h)"
    "derivedClasses (load_pairs load_impl m h) = derivedClasses h"
    "methodOverrides (load_pairs load_impl m h) = methodOverrides h"
    "functionReturns (load_pairs load_impl m h) = functionReturns h"
    "rel_of (functionReturns (load_pairs load_return m h)) = set (rel_pairs m) \<union> rel_of (functionReturns h)"
    "derivedClasses (load_pairs load_return m h) = derivedClasses h"
    "methodOverrides (load_pairs load_return m h) = methodOverrides h"
    "effectiveImplClasses (load_pairs load_return m h) = effectiveImplClasses h"
    using D[of "rel_pairs m" h] O[of "rel_pairs m" h] E[of "rel_pairs m" h] R[of "rel_pairs m" h]
    unfolding load_pairs_def by simp_all
qed

subsection \<open>The reloaded graph\<close>

definition same_graph :: "CallGraph \<Rightarrow> CallGraph \<Rightarrow> bool" where
  \<comment> \<open>equal up to the order of the rows that the loader rebuilds\<close>
  "same_graph h g \<longleftrightarrow>
     wf_graph h \<and> strings (cgInterner h) = strings (cgInterner g) \<and> nodes h = nodes g
     \<and> (\<forall>d. set (ulist (byName h) d) = set (ulist (byName g) d))
     \<and> (\<forall>u. set (ulist (nodeContributors h) u) = set (ulist (nodeContributors g) u))
     \<and> rel_of (derivedClasses h) = rel_of (derivedClasses g) \<and> rel_of (methodOverrides h) = rel_of (methodOverrides g)
     \<and> rel_of (effectiveImplClasses h) = rel_of (effectiveImplClasses g) \<and> rel_of (functionReturns h) = rel_of (functionReturns g)
     \<and> (\<forall>e. live_edge h e = live_edge g e) \<and> (\<forall>k. key_refs h k = key_refs g k) \<and> (\<forall>t k. tu_refs h t k = tu_refs g t k)
     \<and> liveEdgeCount h = liveEdgeCount g \<and> length (edges h) = liveEdgeCount g"

lemma reload_same:
  assumes wf: "wf_graph g"
  shows "same_graph (reload_graph True g) g"
proof -
  note W = wf_graphD[OF wf]
  let ?J = "loaded_interner (cgInterner g)"
  let ?h0 = "empty_graph\<lparr>cgInterner := ?J\<rparr>"
  define h1 where "h1 = fold (load_node True g) (nodes g) ?h0"
  define h2 where "h2 = fold (load_edge_tus True (edge_tus g) g) (live_indices g) h1"
  define h3 where "h3 = load_pairs load_derived (derivedClasses g) h2"
  define h4 where "h4 = load_pairs load_override (methodOverrides g) h3"
  define h5 where "h5 = load_pairs load_impl (effectiveImplClasses g) h4"
  define h6 where "h6 = load_pairs load_return (functionReturns g) h5"
  have h: "reload_graph True g = h6"
    by (simp add: reload_graph_def h1_def h2_def h3_def h4_def h5_def h6_def Let_def)
  have J: "wf_interner ?J" "\<And>s. find_id ?J s = find_id (cgInterner g) s" using loaded_find[OF W(1)] by auto
  have "extends_interner (cgInterner empty_graph) ?J"
    using J(1) by (simp add: extends_interner_def empty_graph_def interner_le_def empty_interner_def[symmetric]) (simp add: empty_interner_def)
  then have w0: "wf_graph ?h0" by (rule wf_graph_interner[OF wf_graph_empty])
  have nok: "names_ok (cgInterner g) (nodes g) (byName g)" using W(3) by (simp add: nodes_ok_def nodes_ok_with_def)
  have dn: "distinct (map fst (nodes g))" using names_okD(1)[OF nok] by simp
  note N = load_nodes_step[OF wf order.refl dn w0, folded h1_def]
  have n1: "wf_graph h1" "nodes h1 = nodes g" "edge_part h1 = edge_part ?h0" "rel_part h1 = rel_part ?h0" "cgInterner h1 = ?J"
    "set (ulist (nodeContributors h1) x) = (if x \<in> fst ` set (nodes g) then set (ulist (nodeContributors g) x) else {})" for x
    using N by (simp_all add: empty_graph_def)
  have con: "set (ulist (nodeContributors h1) x) = set (ulist (nodeContributors g) x)" for x
  proof -
    have "provenance_ok (ulist (tuNodes g)) (nodeContributors g) (fst ` set (nodes g))" using W(3) by (simp add: nodes_ok_def nodes_ok_with_def)
    then have "ulist (nodeContributors g) x = []" if "x \<notin> fst ` set (nodes g)"
      using that provenance_okD(6) by (metis ulist_dom_or_Nil)
    then show ?thesis using n1(6)[of x] by auto
  qed
  have nok1: "names_ok ?J (nodes h1) (byName h1)" using wf_graphD(3)[OF n1(1)] n1(5) by (simp add: nodes_ok_def nodes_ok_with_def)
  have bn: "set (ulist (byName h1) d) = set (ulist (byName g) d)" for d
    using names_okD(6)[OF nok1] names_okD(6)[OF nok] n1(2) J(2) by auto
  have "edges_loaded g [] h1"
    using n1(3) by (auto simp: edges_loaded_def edge_part_def empty_graph_def adjacency_ok_def index_ok_def live_at_def)
  moreover have "\<forall>j \<in> set ([] @ live_indices g). live_at (edges g) j" "distinct ([] @ live_indices g)"
    by (auto simp: live_indices_def live_at_def)
  ultimately have L: "edges_loaded g (live_indices g) h2"
    unfolding h2_def using edges_loaded_fold[OF W(2)] by fastforce
  note E = edges_loaded_inv[OF W(2) L]
  have f2: "nodes h2 = nodes g" "byName h2 = byName h1" "cgInterner h2 = ?J" "rel_part h2 = rel_part ?h0"
    "nodeContributors h2 = nodeContributors h1" "tuNodes h2 = tuNodes h1" "overrideBases h2 = overrideBases h1" "returnedBy h2 = returnedBy h1"
    by (simp_all add: h2_def load_edges_frame n1)
  have r2: "derivedClasses h2 = []" "methodOverrides h2 = []" "effectiveImplClasses h2 = []" "functionReturns h2 = []"
    using f2(4) by (simp_all add: rel_part_def empty_graph_def)
  have w2: "wf_graph h2"
  proof -
    note W1 = wf_graphD[OF n1(1)]
    have nodes: "nodes_ok h2" using W1(3) by (simp add: nodes_ok_def nodes_ok_with_def f2 n1)
    have rels: "relations_ok h2" using W1(4) n1(4) by (simp add: relations_ok_def f2 r2 rel_part_def empty_graph_def)
    have "edge_valid ?J e" if "e \<in> set (edges h2)" for e
      using that W(5) L by (auto simp: edges_loaded_def ids_ok_def live_indices_def edge_valid_def)
    moreover have "valid_id ?J t" if "ulist (tuEdges h2) t \<noteq> []" for t
    proof -
      from that obtain j where j: "j \<in> set (ulist (tuEdges h2) t)" by (meson ex_in_conv set_empty)
      then have "count_list (ulist (tuEdges h2) t) j \<noteq> 0" by (simp add: count_list_0_iff)
      then have "count_list (ulist (tuEdges g) t) (live_indices g ! j) \<noteq> 0"
        using L unfolding edges_loaded_def by metis
      then have "ulist (tuEdges g) t \<noteq> []" by auto
      then show ?thesis using W(5) by (simp add: ids_ok_def)
    qed
    moreover have "pairs_valid ?J (rel_of (nodeContributors h2))" using W1(5) n1(5) by (simp add: ids_ok_def f2 del: rel_of_iff)
    ultimately have "ids_ok h2" by (simp add: ids_ok_def f2 r2 rel_keys_ok_def pairs_valid_def)
    then show ?thesis using nodes rels E(1) J(1) by (simp add: wf_graph_def f2)
  qed
  have rk: "set (rel_pairs (derivedClasses g)) = rel_of (derivedClasses g)" "set (rel_pairs (methodOverrides g)) = rel_of (methodOverrides g)"
    "set (rel_pairs (effectiveImplClasses g)) = rel_of (effectiveImplClasses g)" "set (rel_pairs (functionReturns g)) = rel_of (functionReturns g)"
    using W(5) by (simp_all add: ids_ok_def rel_keys_ok_def rel_pairs_rel_of del: rel_of_iff)
  have pv: "pairs_valid ?J (set (rel_pairs (derivedClasses g)))" "pairs_valid ?J (set (rel_pairs (methodOverrides g)))"
    "pairs_valid ?J (set (rel_pairs (effectiveImplClasses g)))" "pairs_valid ?J (set (rel_pairs (functionReturns g)))"
    unfolding rk using W(5) by (simp_all add: ids_ok_def pairs_valid_def del: rel_of_iff)
  have np: "node_part h3 = node_part h2" "node_part h4 = node_part h2" "node_part h5 = node_part h2" "node_part h6 = node_part h2"
    by (simp_all add: h3_def h4_def h5_def h6_def load_pairs_rest)
  then have cg: "cgInterner h3 = ?J" "cgInterner h4 = ?J" "cgInterner h5 = ?J" by (simp_all add: node_part_def f2)
  have "wf_graph h3" unfolding h3_def
    by (rule load_pairs_wf[OF w2]) (use pv wf_load_relation f2 in \<open>simp_all add: load_derived_def\<close>)
  then have "wf_graph h4" unfolding h4_def
    by (rule load_pairs_wf) (use pv wf_load_relation cg in \<open>simp_all add: load_override_def\<close>)
  then have "wf_graph h5" unfolding h5_def
    by (rule load_pairs_wf) (use pv wf_load_relation cg in \<open>simp_all add: load_impl_def\<close>)
  then have w6: "wf_graph h6" unfolding h6_def
    by (rule load_pairs_wf) (use pv wf_load_relation cg in \<open>simp_all add: load_return_def\<close>)
  have ep: "edge_part h6 = edge_part h2"
    by (simp add: h3_def h4_def h5_def h6_def load_pairs_frame)
  have e6: "live_edge h6 = live_edge h2" "liveEdgeCount h6 = liveEdgeCount h2" "edges h6 = edges h2"
    using ep by (simp_all add: edge_part_def live_edge_def fun_eq_iff)
  have "rel_of (derivedClasses h6) = rel_of (derivedClasses g)" "rel_of (methodOverrides h6) = rel_of (methodOverrides g)"
    "rel_of (effectiveImplClasses h6) = rel_of (effectiveImplClasses g)" "rel_of (functionReturns h6) = rel_of (functionReturns g)"
    by (simp_all add: h3_def h4_def h5_def h6_def load_pairs_rest rk r2 del: rel_of_iff)
  moreover have "nodes h6 = nodes g" "byName h6 = byName h1" "nodeContributors h6 = nodeContributors h1" "cgInterner h6 = ?J"
    using np(4) by (simp_all add: node_part_def f2)
  moreover have "liveEdgeCount h6 = liveEdgeCount g" "length (edges h6) = liveEdgeCount g"
    using L live_count[OF W(2)] by (simp_all add: e6 edges_loaded_def)
  moreover have "key_refs h6 k = key_refs g k" "tu_refs h6 t k = tu_refs g t k" for t k
    using edge_part_cong(2,3)[OF ep] E(2,3) by auto
  ultimately show ?thesis
    unfolding same_graph_def h using w6 bn con E(4) by (simp add: e6(1) del: rel_of_iff)
qed

subsection \<open>What the queries see\<close>

lemma same_graph_find:
  assumes "same_graph h g" and "wf_graph g"
  shows "find_id (cgInterner h) s = find_id (cgInterner g) s" and "resolve (cgInterner h) i = resolve (cgInterner g) i"
proof -
  have I: "wf_interner (cgInterner h)" "wf_interner (cgInterner g)" "strings (cgInterner h) = strings (cgInterner g)"
    using assms by (auto simp: same_graph_def wf_graph_def)
  have "find_id (cgInterner h) s = Some i \<longleftrightarrow> find_id (cgInterner g) s = Some i" for i
    using I by (simp add: find_id_iff valid_id_def resolve_def)
  then show "find_id (cgInterner h) s = find_id (cgInterner g) s" by (metis option.exhaust)
  show "resolve (cgInterner h) i = resolve (cgInterner g) i" by (simp add: resolve_def I(3))
qed

lemma same_graph_queries:
  assumes same: "same_graph h g" and wf: "wf_graph g"
  shows "set (resolveUsrIds h n) = set (resolveUsrIds g n)" and "call_reaches h a b s = call_reaches g a b s"
    and "call_triple ` set (calleesOf h n) = call_triple ` set (calleesOf g n)"
    and "call_triple ` set (callersOf h n) = call_triple ` set (callersOf g n)"
    and "set (usrsForName h n) = set (usrsForName g n)" and "set (getDerivedClasses h n) = set (getDerivedClasses g n)"
    and "edge_refs h k = edge_refs g k" and "tu_edge_refs h t k = tu_edge_refs g t k"
    and "contributors h u = contributors g u"
proof -
  note F = same_graph_find[OF same wf]
  have wh: "wf_graph h" using same by (simp add: same_graph_def)
  have S: "nodes h = nodes g" "\<And>d. set (ulist (byName h) d) = set (ulist (byName g) d)"
    "\<And>u. set (ulist (nodeContributors h) u) = set (ulist (nodeContributors g) u)"
    "rel_of (derivedClasses h) = rel_of (derivedClasses g)" "rel_of (methodOverrides h) = rel_of (methodOverrides g)"
    "rel_of (functionReturns h) = rel_of (functionReturns g)" "\<And>e. live_edge h e = live_edge g e"
    "\<And>k. key_refs h k = key_refs g k" "\<And>t k. tu_refs h t k = tu_refs g t k"
    using same by (auto simp: same_graph_def)
  have empty: "ulist (byName h) d = [] \<longleftrightarrow> ulist (byName g) d = []" for d using S(2)[of d] by (metis set_empty)
  show r: "set (resolveUsrIds h n) = set (resolveUsrIds g n)" for n
    using S(1,2) empty by (auto simp: resolveUsrIds_def F split: option.splits)
  have "edge_targets h e = edge_targets g e" for e
    using S(5,6) by (auto simp: edge_targets_def rel_of_def set_eq_iff)
  then show c: "call_reaches h a b s = call_reaches g a b s" for a b s by (simp add: call_reaches_def S(7))
  show "call_triple ` set (calleesOf h n) = call_triple ` set (calleesOf g n)"
    by (simp add: calleesOf_triples[OF wh] calleesOf_triples[OF wf] F r c)
  show "call_triple ` set (callersOf h n) = call_triple ` set (callersOf g n)"
    by (simp add: callersOf_triples[OF wh] callersOf_triples[OF wf] F r c)
  show "set (usrsForName h n) = set (usrsForName g n)" by (simp add: usrsForName_def r F)
  have "set (ulist (derivedClasses h) i) = set (ulist (derivedClasses g) i)" for i
    using S(4) by (auto simp: rel_of_def set_eq_iff)
  then show "set (getDerivedClasses h n) = set (getDerivedClasses g n)"
    by (simp add: getDerivedClasses_def F split: option.split)
  have ik: "id_key (cgInterner h) k = id_key (cgInterner g) k" for k
    by (cases k) (simp add: id_key_def F)
  show "edge_refs h k = edge_refs g k" "tu_edge_refs h t k = tu_edge_refs g t k"
    by (simp_all add: edge_refs_def tu_edge_refs_def F ik S split: option.split)
  show "contributors h u = contributors g u" by (simp add: contributors_def F S split: option.split)
qed

text \<open>A read-only load leaves out only what removal and merging need.\<close>

definition without_provenance :: "CallGraph \<Rightarrow> CallGraph" where
  "without_provenance g = g\<lparr>edgeIndex := [], tuEdges := [], nodeContributors := [], tuNodes := []\<rparr>"

lemma strip_contributors: "without_provenance (fold (add_contributor u) ts h) = without_provenance h"
  by (induction ts arbitrary: h) (simp_all add: add_contributor_def without_provenance_def)

lemma reload_readonly: "reload_graph False g = without_provenance (reload_graph True g)"
proof -
  have node: "load_node False g p (without_provenance h) = without_provenance (load_node True g p h)" for p h
    by (simp add: load_node_def Let_def strip_contributors) (simp add: without_provenance_def)
  have edge: "load_edge_tus False m g i (without_provenance h) = without_provenance (load_edge_tus True m g i h)" for m i h
    by (simp add: load_edge_tus_def load_edge_def Let_def without_provenance_def)
  have nodes: "fold (load_node False g) ns (without_provenance h) = without_provenance (fold (load_node True g) ns h)" for ns h
    by (induction ns arbitrary: h) (simp_all add: node)
  have edges: "fold (load_edge_tus False m g) is (without_provenance h) = without_provenance (fold (load_edge_tus True m g) is h)" for m "is" h
    by (induction "is" arbitrary: h) (simp_all add: edge)
  have step: "load_derived a b (without_provenance h) = without_provenance (load_derived a b h)"
    "load_override a b (without_provenance h) = without_provenance (load_override a b h)"
    "load_impl a b (without_provenance h) = without_provenance (load_impl a b h)"
    "load_return a b (without_provenance h) = without_provenance (load_return a b h)" for a b h
    by (simp_all add: without_provenance_def load_derived_def load_override_def load_impl_def load_return_def)
  have pairs: "load_pairs f m (without_provenance h) = without_provenance (load_pairs f m h)"
    if "\<And>a b h. f a b (without_provenance h) = without_provenance (f a b h)" for f m h
  proof -
    have "fold (\<lambda>(a, b). f a b) ps (without_provenance h) = without_provenance (fold (\<lambda>(a, b). f a b) ps h)" for ps h
      by (induction ps arbitrary: h) (auto simp: that)
    then show ?thesis by (simp add: load_pairs_def)
  qed
  have base: "empty_graph\<lparr>cgInterner := J\<rparr> = without_provenance (empty_graph\<lparr>cgInterner := J\<rparr>)" for J
    by (simp add: without_provenance_def empty_graph_def)
  note rels = pairs[of load_derived, OF step(1)] pairs[of load_override, OF step(2)]
    pairs[of load_impl, OF step(3)] pairs[of load_return, OF step(4)]
  show ?thesis unfolding reload_graph_def Let_def by (subst base) (simp only: nodes edges rels)
qed

lemma readonly_queries:
  "calleesOf (without_provenance g) n = calleesOf g n" "callersOf (without_provenance g) n = callersOf g n"
  "findNode (without_provenance g) n = findNode g n" "usrsForName (without_provenance g) n = usrsForName g n"
  "getDerivedClasses (without_provenance g) n = getDerivedClasses g n" "getOverrides (without_provenance g) n = getOverrides g n"
  "storedInDegree (without_provenance g) n = storedInDegree g n" "edgeCount (without_provenance g) = edgeCount g"
  "allNodes (without_provenance g) = allNodes g"
proof -
  let ?w = "without_provenance g"
  have f: "cgInterner ?w = cgInterner g" "nodes ?w = nodes g" "byName ?w = byName g" "edges ?w = edges g" "outEdges ?w = outEdges g"
    "inEdges ?w = inEdges g" "derivedClasses ?w = derivedClasses g" "methodOverrides ?w = methodOverrides g" "overrideBases ?w = overrideBases g"
    "functionReturns ?w = functionReturns g" "returnedBy ?w = returnedBy g" "liveEdgeCount ?w = liveEdgeCount g"
    by (simp_all add: without_provenance_def)
  have r: "resolveUsrIds ?w = resolveUsrIds g" by (simp add: fun_eq_iff resolveUsrIds_def f split: option.split)
  have d: "displayFor ?w = displayFor g" by (simp add: fun_eq_iff displayFor_def f split: option.split)
  have m: "materialize ?w = materialize g" by (simp add: fun_eq_iff materialize_def d f)
  have c: "callee_virtual ?w = callee_virtual g" "callee_returns ?w = callee_returns g"
    by (simp_all add: fun_eq_iff callee_virtual_def callee_returns_def f)
  have "calleeRefsOf ?w = calleeRefsOf g" "callerRefsOf ?w = callerRefsOf g"
    by (simp_all add: fun_eq_iff calleeRefsOf_def callerRefsOf_def f c cong: option.case_cong)
  then show "calleesOf ?w n = calleesOf g n" "callersOf ?w n = callersOf g n" by (simp_all add: calleesOf_def callersOf_def r m)
  show "findNode ?w n = findNode g n" "usrsForName ?w n = usrsForName g n" "getDerivedClasses ?w n = getDerivedClasses g n"
    "getOverrides ?w n = getOverrides g n" "storedInDegree ?w n = storedInDegree g n" "edgeCount ?w = edgeCount g" "allNodes ?w = allNodes g"
    by (simp_all add: findNode_def usrsForName_def getDerivedClasses_def getOverrides_def storedInDegree_def storedInDegree_id_def
        edgeCount_def allNodes_def r d f cong: option.case_cong)
qed

end
