(* ===== verification/SnapshotFlowSpec.thy ===== *)
theory SnapshotFlowSpec
  imports SnapshotGraphSpec ControlFlowRemove
begin

text \<open>
  The control flow section of a snapshot (src/callgraph/Snapshot.cpp): the interner table, the three
  set tables in table order and the live contexts as raw ids.  As in the graph section, an
  enumeration byte without a name, which only a corrupt file holds, is noted in a flag.
\<close>

subsection \<open>Enumerations\<close>

definition raiiKinds :: "RaiiKind list" where
  "raiiKinds = [Lock, SmartPtr, OtherRaii]"

definition noexceptSpecs :: "NoexceptSpec list" where
  "noexceptSpecs = [NoSpec, Noexcept, NoexceptFalse, ThrowNone, UnknownSpec]"

lemma flow_enum_rounds [simp]:
  "enum_of raiiKinds (enum_code raiiKinds k) = Some k" "enum_of noexceptSpecs (enum_code noexceptSpecs n) = Some n"
proof -
  have "k \<in> set raiiKinds" by (cases k) (simp_all add: raiiKinds_def)
  then show "enum_of raiiKinds (enum_code raiiKinds k) = Some k"
    by (rule enum_round) (simp add: raiiKinds_def)
  have "n \<in> set noexceptSpecs" by (cases n) (simp_all add: noexceptSpecs_def)
  then show "enum_of noexceptSpecs (enum_code noexceptSpecs n) = Some n"
    by (rule enum_round) (simp add: noexceptSpecs_def)
qed

subsection \<open>Saving\<close>

definition emit_flag :: "bool \<Rightarrow> string \<Rightarrow> string" where
  "emit_flag b out = putU8 (if b then 1 else 0) out"

definition emit_handler :: "CatchHandlerInfo \<Rightarrow> string \<Rightarrow> string" where
  "emit_handler h out =
     putStr (bodySummary h) (putStr (handlerLocation h) (emit_flag (isCatchAll h) (putStr (caughtType h) out)))"

definition emit_scope :: "TryCatchScope \<Rightarrow> string \<Rightarrow> string" where
  "emit_scope scope out =
     putList emit_handler (handlers scope)
       (putU32 (nestingDepth scope) (putStr (enclosingFunction scope) (putStr (tryLocation scope) out)))"

definition emit_guard :: "ConditionalGuard \<Rightarrow> string \<Rightarrow> string" where
  "emit_guard g out =
     emit_flag (isAssertion g) (emit_flag (inTrueBranch g) (putStr (guardLocation g) (putStr (conditionText g) out)))"

definition emit_local :: "StoredRaiiLocal \<Rightarrow> string \<Rightarrow> string" where
  "emit_local l out =
     putU8 (enum_code raiiKinds (srKind l))
       (putU32 (srDeclLocation l) (putU32 (srVarName l) (putU32 (srTypeName l) out)))"

definition emit_context :: "StoredContext \<Rightarrow> string \<Rightarrow> string" where
  "emit_context se out =
     (if \<not> scLive se then out
      else
        let b1 = putU32 (scCallee se) (putU32 (scCaller se) out);
            b2 = putU32 (scCalleeDisplay se) (putU32 (scCallerDisplay se) b1);
            b3 = putU32 (scTuPath se) (putU32 (scSite se) b2);
            b4 = putU32 (scRaiiSet se) (putU32 (scGuardSet se) (putU32 (scScopeSet se) b3))
        in emit_flag (scInsideCatchBlock se) (putU8 (enum_code noexceptSpecs (scCallerNoexcept se)) b4))"

definition emit_flow :: "ControlFlowIndex \<Rightarrow> string \<Rightarrow> string" where
  "emit_flow cf data =
     (let b1 = emitInternerTable (cfInterner cf) data;
          b2 = putList (putList emit_scope) (scopeSets cf) b1;
          b3 = putList (putList emit_guard) (guardSets cf) b2;
          b4 = putList (putList emit_local) (raiiSets cf) b3
      in fold emit_context (contexts cf) (putU32 (word_of_nat (liveCount cf)) b4))"

subsection \<open>Loading\<close>

definition read_flag :: "Reader \<Rightarrow> bool \<times> Reader" where
  "read_flag r = (let (v, r1) = snU8 r in (v \<noteq> 0, r1))"

definition read_handler :: "Reader \<Rightarrow> CatchHandlerInfo \<times> Reader" where
  "read_handler r =
     (let (t, r1) = lenStr r; (a, r2) = read_flag r1; (l, r3) = lenStr r2; (b, r4) = lenStr r3
      in (\<lparr>caughtType = t, isCatchAll = a, handlerLocation = l, bodySummary = b\<rparr>, r4))"

definition read_scope :: "Reader \<Rightarrow> TryCatchScope \<times> Reader" where
  "read_scope r =
     (let (t, r1) = lenStr r; (f, r2) = lenStr r1; (d, r3) = snU32 r2; (hs, r4) = readItems read_handler r3
      in (\<lparr>tryLocation = t, enclosingFunction = f, handlers = hs, nestingDepth = d\<rparr>, r4))"

definition read_guard :: "Reader \<Rightarrow> ConditionalGuard \<times> Reader" where
  "read_guard r =
     (let (c, r1) = lenStr r; (l, r2) = lenStr r1; (b, r3) = read_flag r2; (a, r4) = read_flag r3
      in (\<lparr>conditionText = c, guardLocation = l, inTrueBranch = b, isAssertion = a\<rparr>, r4))"

definition read_local :: "interner \<Rightarrow> Reader \<Rightarrow> StoredRaiiLocal list \<times> bool \<Rightarrow> Reader \<times> StoredRaiiLocal list \<times> bool" where
  "read_local I r s =
     (let (t, r1) = gid I (snU32 r); (v, r2) = gid I (snU32 r1); (d, r3) = gid I (snU32 r2); (k, r4) = snU8 r3
      in (r4, case (s, enum_of raiiKinds k) of
                ((xs, known), None) \<Rightarrow> (xs, False)
              | ((xs, known), Some kd) \<Rightarrow>
                  (xs @ [\<lparr>srTypeName = t, srVarName = v, srDeclLocation = d, srKind = kd\<rparr>], known)))"

definition read_local_set :: "interner \<Rightarrow> Reader \<Rightarrow> StoredRaiiLocal list list \<times> bool
    \<Rightarrow> Reader \<times> StoredRaiiLocal list list \<times> bool" where
  "read_local_set I r s =
     (case s of (sets, known) \<Rightarrow>
        let (r1, xs, known1) = count_loop (read_local I) r ([], known) in (r1, sets @ [xs], known1))"

definition missing_seed :: "'a list list \<Rightarrow> bool" where
  \<comment> \<open>the empty set must be entry 0\<close>
  "missing_seed sets \<longleftrightarrow> (case sets of [] \<Rightarrow> True | s # _ \<Rightarrow> s \<noteq> [])"

definition set_ids :: "('a list \<Rightarrow> string) \<Rightarrow> 'a list list \<Rightarrow> (string, 32 word) umap" where
  \<comment> \<open>the rebuilt dedup keys; entry 0 is never keyed\<close>
  "set_ids key sets = fold (\<lambda>i m. uemplace (key (sets ! i)) (word_of_nat i) m) [1..<length sets] []"

record FlowLoad =
  flIndex :: ControlFlowIndex
  flNamed :: bool

definition read_context :: "bool \<Rightarrow> interner \<Rightarrow> Reader \<Rightarrow> FlowLoad \<Rightarrow> Reader \<times> FlowLoad" where
  "read_context mutableLoad I r s =
     (let cf = flIndex s;
          (caller, r1) = gid I (snU32 r);
          (callee, r2) = gid I (snU32 r1);
          (callerDisplay, r3) = gid I (snU32 r2);
          (calleeDisplay, r4) = gid I (snU32 r3);
          (siteId, r5) = gid I (snU32 r4);
          (tuPath, r6) = (let (t, q) = snU32 r5 in if t \<noteq> kNoString then gid I (t, q) else (t, q));
          (scopeSet, r7) = snU32 r6;
          (guardSet, r8) = snU32 r7;
          (raiiSet, r9) = snU32 r8;
          (spec, r10) = snU8 r9;
          (insideCatch, r11) = read_flag r10;
          r12 = (if unat scopeSet \<ge> length (scopeSets cf) \<or> unat guardSet \<ge> length (guardSets cf)
                    \<or> unat raiiSet \<ge> length (raiiSets cf) then r11\<lparr>rdOk := False\<rparr> else r11)
      in if \<not> rdOk r12 then (r12, s)
         else (r12, case enum_of noexceptSpecs spec of
                      None \<Rightarrow> s\<lparr>flNamed := False\<rparr>
                    | Some noexceptSpec \<Rightarrow>
                        s\<lparr>flIndex := insertStored
                            \<lparr>scCaller = caller, scCallee = callee, scCallerDisplay = callerDisplay,
                             scCalleeDisplay = calleeDisplay, scSite = siteId, scTuPath = tuPath,
                             scScopeSet = scopeSet, scGuardSet = guardSet, scRaiiSet = raiiSet,
                             scCallerNoexcept = noexceptSpec, scInsideCatchBlock = insideCatch,
                             scLive = True\<rparr> mutableLoad cf\<rparr>))"

definition load_flow :: "bool \<Rightarrow> Reader \<Rightarrow> (Reader \<times> FlowLoad) option" where
  "load_flow mutableLoad r =
     (let (installed, r0, I) = readInternerTable r empty_interner in
      if \<not> installed then None
      else let (scopes, r1) = readItems (readItems read_scope) r0;
               (guards, r2) = readItems (readItems read_guard) r1;
               (r3, locals, known) = count_loop (read_local_set I) r2 ([], True);
               r4 = (if missing_seed scopes \<or> missing_seed guards \<or> missing_seed locals
                     then r3\<lparr>rdOk := False\<rparr> else r3);
               cf = empty_index\<lparr>cfInterner := I, scopeSets := scopes, guardSets := guards, raiiSets := locals\<rparr>;
               cf1 = (if rdOk r4 \<and> mutableLoad
                      then cf\<lparr>scopeSetIds := set_ids scopeSetKey scopes, guardSetIds := set_ids guardSetKey guards,
                              raiiSetIds := set_ids raiiSetKey locals\<rparr> else cf)
           in Some (count_loop (read_context mutableLoad I) r4 \<lparr>flIndex = cf1, flNamed = known\<rparr>))"

text \<open>
  Loading the bytes of a saved control flow index gives the set tables as they were and the live
  contexts inserted again in order; so the reloaded index satisfies the invariant, holds the same
  contexts and gives the answers of the saved index after compaction.  A read-only load differs
  only in the per-unit lists and the dedup keys, which no query reads.
\<close>

subsection \<open>Codecs of the set tables\<close>

definition handler_fits :: "CatchHandlerInfo \<Rightarrow> bool" where
  "handler_fits h \<longleftrightarrow> str_fits (caughtType h) \<and> str_fits (handlerLocation h) \<and> str_fits (bodySummary h)"

definition scope_fits :: "TryCatchScope \<Rightarrow> bool" where
  "scope_fits s \<longleftrightarrow> str_fits (tryLocation s) \<and> str_fits (enclosingFunction s) \<and> list_fits handler_fits (handlers s)"

definition guard_fits :: "ConditionalGuard \<Rightarrow> bool" where
  "guard_fits g \<longleftrightarrow> str_fits (conditionText g) \<and> str_fits (guardLocation g)"

lemma ok_fits: "str_ok = str_fits" "handler_ok = handler_fits" "scope_ok = scope_fits" "guard_ok = guard_fits"
proof -
  show s: "str_ok = str_fits" by (simp add: fun_eq_iff str_ok_def str_fits_def)
  show h: "handler_ok = handler_fits" by (simp add: fun_eq_iff handler_ok_def handler_fits_def s)
  show "scope_ok = scope_fits" by (auto simp: fun_eq_iff scope_ok_def scope_fits_def list_fits_def s h)
  show "guard_ok = guard_fits" by (simp add: fun_eq_iff guard_ok_def guard_fits_def s)
qed

interpretation snFlags: counted emit_flag read_flag "\<lambda>_. True"
  by unfold_locales (simp_all add: emit_flag_def read_flag_def put_w sreads)

lemma emit_flag_w: "emit_flag f b = b @ emit_flag f []"
  by (simp add: emit_flag_def put_w)

lemma read_flag_at [sreads]: "read_flag (reader_at pre (emit_flag f [] @ suf)) = (f, reader_at (pre @ emit_flag f []) suf)"
  by (rule snFlags.gets) simp

interpretation snHandlers: counted emit_handler read_handler handler_fits
proof unfold_locales
  fix h :: CatchHandlerInfo and b
  have e: "emit_handler h b = b @ wStr (caughtType h) @ emit_flag (isCatchAll h) [] @ wStr (handlerLocation h) @ wStr (bodySummary h)" for b
    by (simp add: emit_handler_def put_w emit_flag_w[of "isCatchAll h" "_ @ _"])
  show "emit_handler h b = b @ emit_handler h []" "emit_handler h [] \<noteq> []" by (simp_all add: e)
  fix pre suf assume "handler_fits h"
  then show "read_handler (reader_at pre (emit_handler h [] @ suf)) = (h, reader_at (pre @ emit_handler h []) suf)"
    by (simp add: read_handler_def handler_fits_def e sreads)
qed

interpretation snScopes: counted emit_scope read_scope scope_fits
  by unfold_locales
    (simp_all add: emit_scope_def read_scope_def scope_fits_def put_w snHandlers.list_put sreads snHandlers.list_nonempty)

interpretation snGuards: counted emit_guard read_guard guard_fits
proof unfold_locales
  fix g :: ConditionalGuard and b
  have e: "emit_guard g b = b @ wStr (conditionText g) @ wStr (guardLocation g) @ emit_flag (inTrueBranch g) [] @ emit_flag (isAssertion g) []" for b
    by (simp add: emit_guard_def put_w emit_flag_w[of "inTrueBranch g" "_ @ _"] emit_flag_w[of "isAssertion g" "_ @ _"])
  show "emit_guard g b = b @ emit_guard g []" "emit_guard g [] \<noteq> []" by (simp_all add: e)
  fix pre suf assume "guard_fits g"
  then show "read_guard (reader_at pre (emit_guard g [] @ suf)) = (g, reader_at (pre @ emit_guard g []) suf)"
    by (simp add: read_guard_def guard_fits_def e sreads)
qed

context counted begin

text \<open>Counted sequences of counted sequences.\<close>

lemma lists_counted: "counted (putList put) (readItems get) (list_fits fits)"
proof unfold_locales
  fix xs b
  show "putList put xs b = b @ putList put xs []" using list_put[of xs b] by (simp add: wList_def)
  show "putList put xs [] \<noteq> []" using list_nonempty[of xs] by (simp add: wList_def)
  fix pre suf assume "list_fits fits xs"
  then show "readItems get (reader_at pre (putList put xs [] @ suf)) = (xs, reader_at (pre @ putList put xs []) suf)"
    using items_get[of xs pre suf] by (simp add: wList_def)
qed

end

interpretation snScopeSets: counted "putList emit_scope" "readItems read_scope" "list_fits scope_fits"
  by (rule snScopes.lists_counted)

interpretation snGuardSets: counted "putList emit_guard" "readItems read_guard" "list_fits guard_fits"
  by (rule snGuards.lists_counted)

subsection \<open>What is written\<close>

lemma putList_w:
  assumes "\<And>x b. put x b = b @ w x"
  shows "putList put xs b = b @ wItems w xs"
proof -
  have "fold put xs b = b @ concat (map w xs)" for b
    by (induction xs arbitrary: b) (simp_all add: assms)
  then show ?thesis by (simp add: putList_def wItems_def put_w)
qed

definition w_local :: "StoredRaiiLocal \<Rightarrow> string" where
  "w_local l = wU32 (srTypeName l) @ wU32 (srVarName l) @ wU32 (srDeclLocation l) @ wU8 (enum_code raiiKinds (srKind l))"

definition w_context :: "StoredContext \<Rightarrow> string" where
  "w_context c =
     wU32 (scCaller c) @ wU32 (scCallee c) @ wU32 (scCallerDisplay c) @ wU32 (scCalleeDisplay c) @ wU32 (scSite c)
     @ wU32 (scTuPath c) @ wU32 (scScopeSet c) @ wU32 (scGuardSet c) @ wU32 (scRaiiSet c)
     @ wU8 (enum_code noexceptSpecs (scCallerNoexcept c)) @ emit_flag (scInsideCatchBlock c) []"

lemma emit_local_w: "emit_local l b = b @ w_local l"
  by (simp add: emit_local_def w_local_def put_w)

lemma emit_context_w: "emit_context c b = b @ (if \<not> scLive c then [] else w_context c)"
  by (simp add: emit_context_def w_context_def Let_def put_w emit_flag_w[of _ "_ @ _"])

lemma emit_contexts_w: "fold emit_context cs b = b @ concat (map w_context (filter scLive cs))"
proof -
  have e: "emit_context = (\<lambda>c b. b @ (if \<not> scLive c then [] else w_context c))" by (intro ext) (rule emit_context_w)
  show ?thesis unfolding e fold_append_w concat_filter by simp
qed

definition w_flow :: "ControlFlowIndex \<Rightarrow> string" where
  "w_flow cf =
     wList putStr (strings (cfInterner cf)) @ wList (putList emit_scope) (scopeSets cf)
     @ wList (putList emit_guard) (guardSets cf) @ wItems (wItems w_local) (raiiSets cf)
     @ wItems w_context (filter scLive (contexts cf))"

lemma emit_flow_w: "liveCount cf = length (filter scLive (contexts cf)) \<Longrightarrow> emit_flow cf b = b @ w_flow cf"
proof -
  assume n: "liveCount cf = length (filter scLive (contexts cf))"
  have l: "putList emit_local xs b = b @ wItems w_local xs" for xs b
    by (rule putList_w) (rule emit_local_w)
  have ls: "putList (putList emit_local) xss b = b @ wItems (wItems w_local) xss" for xss b
    by (rule putList_w) (rule l)
  show ?thesis
    by (simp add: emit_flow_def emitInternerTable_def w_flow_def snStrings.list_put snScopeSets.list_put
        snGuardSets.list_put ls emit_contexts_w put_w n wItems_def)
qed

subsection \<open>What is installed\<close>

definition flow_base :: "bool \<Rightarrow> ControlFlowIndex \<Rightarrow> ControlFlowIndex" where
  "flow_base mutableLoad cf =
     (let b = empty_index\<lparr>cfInterner := loaded_interner (cfInterner cf), scopeSets := scopeSets cf,
                guardSets := guardSets cf, raiiSets := raiiSets cf\<rparr>
      in if mutableLoad
         then b\<lparr>scopeSetIds := set_ids scopeSetKey (scopeSets cf), guardSetIds := set_ids guardSetKey (guardSets cf),
                raiiSetIds := set_ids raiiSetKey (raiiSets cf)\<rparr> else b)"

definition reload_flow :: "bool \<Rightarrow> ControlFlowIndex \<Rightarrow> ControlFlowIndex" where
  "reload_flow mutableLoad cf =
     fold (\<lambda>c t. if \<not> scLive c then t else insertStored c mutableLoad t) (contexts cf) (flow_base mutableLoad cf)"

definition flow_fits :: "ControlFlowIndex \<Rightarrow> bool" where
  \<comment> \<open>what is written fits its 32-bit counts\<close>
  "flow_fits cf \<longleftrightarrow>
     list_fits str_fits (strings (cfInterner cf)) \<and> list_fits (list_fits scope_fits) (scopeSets cf)
     \<and> list_fits (list_fits guard_fits) (guardSets cf) \<and> list_fits (\<lambda>xs. length xs < 2 ^ 32) (raiiSets cf)
     \<and> liveCount cf < 2 ^ 32"

subsection \<open>Reading the records\<close>

lemma read_local_sets_at:
  assumes v: "\<forall>xs \<in> set xss. \<forall>l \<in> set xs. local_valid J l" and fits: "list_fits (\<lambda>xs. length xs < 2 ^ 32) xss"
  shows "count_loop (read_local_set J) (reader_at pre (wItems (wItems w_local) xss @ suf)) ([], True)
     = (reader_at (pre @ wItems (wItems w_local) xss) suf, xss, True)"
proof -
  have one: "read_local J (reader_at a (w_local l @ b)) s = (reader_at (a @ w_local l) b, (\<lambda>(xs, k). (xs @ [l], k)) s)"
    if "local_valid J l" for l a b s
    using that by (simp add: read_local_def w_local_def sreads gid_valid local_valid_def split: prod.split)
  have ne: "w_local l \<noteq> []" for l by (simp add: w_local_def)
  have pairs: "fold (\<lambda>x (xs, k). (xs @ [x], k)) ys (xs, k) = (xs @ ys, k)" for ys xs :: "'b list" and k :: bool
    by (induction ys arbitrary: xs) simp_all
  have row: "count_loop (read_local J) (reader_at a (wItems w_local xs @ b)) ([], k) = (reader_at (a @ wItems w_local xs) b, xs, k)"
    if xs: "xs \<in> set xss" for xs a b k
  proof -
    have "count_loop (read_local J) (reader_at a (wItems w_local xs @ b)) ([], k)
        = (reader_at (a @ wItems w_local xs) b, fold (\<lambda>l (xs, k). (xs @ [l], k)) xs ([], k))"
      by (rule count_loop_items)
        (use v fits xs in \<open>auto simp: one ne list_fits_def list_all_iff\<close>)
    then show ?thesis by (simp add: pairs)
  qed
  have "count_loop (read_local_set J) (reader_at pre (wItems (wItems w_local) xss @ suf)) ([], True)
      = (reader_at (pre @ wItems (wItems w_local) xss) suf, fold (\<lambda>xs (sets, k). (sets @ [xs], k)) xss ([], True))"
    by (rule count_loop_items)
      (use fits in \<open>auto simp: read_local_set_def row list_fits_def split: prod.split\<close>)
  then show ?thesis by (simp add: pairs)
qed

definition same_data :: "ControlFlowIndex \<Rightarrow> ControlFlowIndex \<Rightarrow> bool" where
  "same_data s t \<longleftrightarrow> scopeSets s = scopeSets t \<and> guardSets s = guardSets t \<and> raiiSets s = raiiSets t"

lemma read_context_at:
  assumes v: "stored_valid cf c" and d: "same_data t cf" and live: "scLive c"
    and J: "\<And>i. valid_id J i = valid_id (cfInterner cf) i"
  shows "read_context mutableLoad J (reader_at a (w_context c @ b)) \<lparr>flIndex = t, flNamed = k\<rparr>
     = (reader_at (a @ w_context c) b, \<lparr>flIndex = insertStored c mutableLoad t, flNamed = k\<rparr>)"
proof -
  have ids: "valid_id J (scCaller c)" "valid_id J (scCallee c)" "valid_id J (scCallerDisplay c)"
    "valid_id J (scCalleeDisplay c)" "valid_id J (scSite c)"
    and tu: "scTuPath c \<noteq> kNoString \<Longrightarrow> valid_id J (scTuPath c)"
    and sets: "\<not> length (scopeSets t) \<le> unat (scScopeSet c)" "\<not> length (guardSets t) \<le> unat (scGuardSet c)"
      "\<not> length (raiiSets t) \<le> unat (scRaiiSet c)"
    using v d by (auto simp: stored_valid_def same_data_def J)
  have t: "(if scTuPath c \<noteq> kNoString then gid J (scTuPath c, r) else (scTuPath c, r)) = (scTuPath c, r)" for r
    using tu by (simp add: gid_valid)
  have rec: "\<lparr>scCaller = scCaller c, scCallee = scCallee c, scCallerDisplay = scCallerDisplay c,
      scCalleeDisplay = scCalleeDisplay c, scSite = scSite c, scTuPath = scTuPath c, scScopeSet = scScopeSet c,
      scGuardSet = scGuardSet c, scRaiiSet = scRaiiSet c, scCallerNoexcept = scCallerNoexcept c,
      scInsideCatchBlock = scInsideCatchBlock c, scLive = True\<rparr> = c"
    using live by (cases c) simp
  show ?thesis
    unfolding w_context_def
    by (simp add: read_context_def sreads gid_valid ids t sets rec Let_def)
qed

lemma insertStored_same_data: "same_data (insertStored c b t) s = same_data t s"
  by (simp add: same_data_def insertStored_fields)

lemma read_contexts_at:
  assumes v: "\<forall>c \<in> set cs. scLive c \<and> stored_valid cf c" and d: "same_data t cf"
    and J: "\<And>i. valid_id J i = valid_id (cfInterner cf) i" and len: "length cs < 2 ^ 32"
  shows "count_loop (read_context mutableLoad J) (reader_at a (wItems w_context cs @ b)) \<lparr>flIndex = t, flNamed = k\<rparr>
     = (reader_at (a @ wItems w_context cs) b, \<lparr>flIndex = fold (\<lambda>c. insertStored c mutableLoad) cs t, flNamed = k\<rparr>)"
proof -
  have walk: "repeat_ok (length cs) (read_context mutableLoad J) (reader_at a (concat (map w_context cs) @ b)) \<lparr>flIndex = t, flNamed = k\<rparr>
      = (reader_at (a @ concat (map w_context cs)) b, \<lparr>flIndex = fold (\<lambda>c. insertStored c mutableLoad) cs t, flNamed = k\<rparr>)" for a
    using v d
  proof (induction cs arbitrary: a t)
    case (Cons c cs)
    then show ?case
      using read_context_at[of cf c t J mutableLoad a "concat (map w_context cs) @ b" k]
        Cons.IH[of "insertStored c mutableLoad t" "a @ w_context c"] by (simp add: J insertStored_same_data)
  qed simp
  have ne: "w_context c \<noteq> []" for c by (simp add: w_context_def)
  show ?thesis using walk[of "a @ wU32 (word_of_nat (length cs))"] len
    by (simp add: count_loop_def snCount_items ne unat_length) (simp add: wItems_def)
qed

subsection \<open>The whole section\<close>

lemma missing_seed_iff: "missing_seed sets \<longleftrightarrow> sets = [] \<or> sets ! 0 \<noteq> []"
  by (cases sets) (simp_all add: missing_seed_def)

lemma fold_live: "fold (\<lambda>c t. if \<not> scLive c then t else insertStored c b t) cs t = fold (\<lambda>c. insertStored c b) (filter scLive cs) t"
  by (induction cs arbitrary: t) simp_all

lemma flow_base_same: "same_data (flow_base b cf) cf" "cfInterner (flow_base b cf) = loaded_interner (cfInterner cf)"
  by (simp_all add: flow_base_def same_data_def Let_def)

lemma load_flow_at:
  assumes inv: "cf_inv cf" and fits: "flow_fits cf"
  shows "load_flow mutableLoad (reader_at pre (w_flow cf @ suf))
     = Some (reader_at (pre @ w_flow cf) suf, \<lparr>flIndex = reload_flow mutableLoad cf, flNamed = True\<rparr>)"
proof -
  let ?J = "loaded_interner (cfInterner cf)"
  have F: "list_fits str_fits (strings (cfInterner cf))" "list_fits (list_fits scope_fits) (scopeSets cf)"
    "list_fits (list_fits guard_fits) (guardSets cf)" "list_fits (\<lambda>xs. length xs < 2 ^ 32) (raiiSets cf)"
    "liveCount cf < 2 ^ 32" using fits by (simp_all add: flow_fits_def)
  have seeds: "\<not> missing_seed (scopeSets cf)" "\<not> missing_seed (guardSets cf)" "\<not> missing_seed (raiiSets cf)"
    using inv by (simp_all add: missing_seed_iff cf_inv_def data_ok_def tables_ok_def table_ok_def)
  have locals: "\<forall>xs \<in> set (raiiSets cf). \<forall>l \<in> set xs. local_valid ?J l"
    using inv by (simp add: cf_inv_def data_ok_def local_valid_def)
  have live: "\<forall>c \<in> set (filter scLive (contexts cf)). scLive c \<and> stored_valid cf c"
    using inv by (simp add: cf_inv_def)
  have len: "length (filter scLive (contexts cf)) < 2 ^ 32"
    using inv F(5) by (simp add: cf_inv_def maps_ok_def)
  have base: "(if mutableLoad then empty_index\<lparr>cfInterner := ?J, scopeSets := scopeSets cf, guardSets := guardSets cf,
        raiiSets := raiiSets cf, scopeSetIds := set_ids scopeSetKey (scopeSets cf),
        guardSetIds := set_ids guardSetKey (guardSets cf), raiiSetIds := set_ids raiiSetKey (raiiSets cf)\<rparr>
      else empty_index\<lparr>cfInterner := ?J, scopeSets := scopeSets cf, guardSets := guardSets cf, raiiSets := raiiSets cf\<rparr>)
      = flow_base mutableLoad cf" by (simp add: flow_base_def)
  have ctx: "count_loop (read_context mutableLoad ?J) (reader_at a (wItems w_context (filter scLive (contexts cf)) @ b))
      \<lparr>flIndex = flow_base mutableLoad cf, flNamed = True\<rparr>
      = (reader_at (a @ wItems w_context (filter scLive (contexts cf))) b, \<lparr>flIndex = reload_flow mutableLoad cf, flNamed = True\<rparr>)" for a b
    using read_contexts_at[OF live flow_base_same(1)[of mutableLoad], where J = ?J and mutableLoad = mutableLoad and a = a and b = b and k = True] len
    by (simp add: reload_flow_def fold_live)
  show ?thesis
    unfolding w_flow_def
    by (simp add: load_flow_def readInternerTable_at[OF F(1)] snScopeSets.items_get[OF F(2)] snGuardSets.items_get[OF F(3)]
        read_local_sets_at[OF locals F(4)] seeds base ctx split del: if_split)
qed

subsection \<open>The reloaded index\<close>

lemma set_ids_at:
  assumes len: "length tbl \<le> 2 ^ 32" and w: "map_of (set_ids key tbl) k = Some w"
  shows "0 < unat w \<and> unat w < length tbl \<and> key (tbl ! unat w) = k"
proof -
  have "map_of (fold (\<lambda>i m. uemplace (key (tbl ! i)) (word_of_nat i) m) is m) k = Some w \<Longrightarrow>
      map_of m k = Some w \<or> (\<exists>i \<in> set is. w = word_of_nat i \<and> key (tbl ! i) = k)" for "is" m
    by (induction "is" arbitrary: m) (fastforce simp: umap_simps split: if_splits)+
  from this[of "[1..<length tbl]" "[]"] obtain i where i: "i \<in> set [1..<length tbl]" "w = word_of_nat i" "key (tbl ! i) = k"
    using w by (auto simp: set_ids_def)
  then show ?thesis using unat_length[of i] len by simp
qed

lemma table_reload: "table_ok key ok tbl ids \<Longrightarrow> table_ok key ok tbl (set_ids key tbl)"
  using set_ids_at[of tbl key] by (auto simp: table_ok_def)

lemma flow_base_inv:
  assumes "cf_inv cf"
  shows "cf_inv (flow_base True cf)" and "allContexts (flow_base True cf) = []"
    and "no_stale_keys (flow_base True cf)"
proof -
  have b: "contexts (flow_base True cf) = []" "byCallee (flow_base True cf) = []" "byCaller (flow_base True cf) = []"
    "byCalleeDisplay (flow_base True cf) = []" "byCallerDisplay (flow_base True cf) = []" "bySite (flow_base True cf) = []"
    "byTu (flow_base True cf) = []" "noProvenance (flow_base True cf) = []" "liveCount (flow_base True cf) = 0"
    "scopeSetIds (flow_base True cf) = set_ids scopeSetKey (scopeSets cf)"
    "guardSetIds (flow_base True cf) = set_ids guardSetKey (guardSets cf)"
    "raiiSetIds (flow_base True cf) = set_ids raiiSetKey (raiiSets cf)"
    by (simp_all add: flow_base_def empty_index_def)
  have d: "scopeSets (flow_base True cf) = scopeSets cf" "guardSets (flow_base True cf) = guardSets cf"
    "raiiSets (flow_base True cf) = raiiSets cf" using flow_base_same(1)[of True cf] by (simp_all add: same_data_def)
  have "tables_ok cf" using assms by (simp add: cf_inv_def data_ok_def)
  then have t: "tables_ok (flow_base True cf)" by (auto simp: tables_ok_def b d intro: table_reload)
  show "cf_inv (flow_base True cf)"
    using assms loaded_find[of "cfInterner cf"]
    by (simp add: cf_inv_def data_ok_def t maps_ok_def index_map_def b d flow_base_same(2) local_valid_def)
  show "allContexts (flow_base True cf) = []" by (simp add: allContexts_eq b)
  show "no_stale_keys (flow_base True cf)" by (simp add: no_stale_keys_def no_stale_def b)
qed

lemma reload_flow_spec:
  assumes inv: "cf_inv cf"
  shows "cf_inv (reload_flow True cf)" and "allContexts (reload_flow True cf) = allContexts cf"
    and "no_stale_keys (reload_flow True cf)" and "find_id (cfInterner (reload_flow True cf)) = find_id (cfInterner cf)"
proof -
  note B = flow_base_inv[OF inv]
  have same: "scopeSets (flow_base True cf) = scopeSets cf" "guardSets (flow_base True cf) = guardSets cf"
    "raiiSets (flow_base True cf) = raiiSets cf" using flow_base_same(1)[of True cf] by (simp_all add: same_data_def)
  have C: "stored_valid (flow_base True cf) c = stored_valid cf c"
    "materializeContext (flow_base True cf) = materializeContext cf" for c
    by (simp_all add: stored_valid_def materializeContext_def fun_eq_iff same flow_base_same(2))
  have v: "stored_valid (flow_base True cf) c" if "c \<in> set (contexts cf)" for c
    using that inv by (simp add: C cf_inv_def)
  note R = reinsert_spec[OF B(1) v, of "contexts cf", folded reload_flow_def]
  show "cf_inv (reload_flow True cf)" using R by simp
  show "allContexts (reload_flow True cf) = allContexts cf" using R by (simp add: B(2) C allContexts_eq[of cf])
  show "find_id (cfInterner (reload_flow True cf)) = find_id (cfInterner cf)"
    using R loaded_find[of "cfInterner cf"] inv by (auto simp: flow_base_same(2) cf_inv_def data_ok_def fun_eq_iff)
  have "no_stale_keys (fold (\<lambda>c. insertStored c True) cs t)" if "no_stale_keys t" for cs t
    using that by (induction cs arbitrary: t) (simp_all add: insertStored_no_stale)
  then show "no_stale_keys (reload_flow True cf)" using B(3) by (simp add: reload_flow_def fold_live)
qed

subsection \<open>Read-only loads\<close>

definition without_units :: "ControlFlowIndex \<Rightarrow> ControlFlowIndex" where
  "without_units s = s\<lparr>byTu := [], noProvenance := [], scopeSetIds := [], guardSetIds := [], raiiSetIds := []\<rparr>"

lemma reload_flow_readonly: "reload_flow False cf = without_units (reload_flow True cf)"
proof -
  have "fold (\<lambda>c. insertStored c False) cs (without_units t) = without_units (fold (\<lambda>c. insertStored c True) cs t)" for cs t
  proof (induction cs arbitrary: t)
    case (Cons c cs)
    have "insertStored c False (without_units t) = without_units (insertStored c True t)"
      by (simp add: insertStored_def without_units_def Let_def)
    with Cons show ?case by simp
  qed simp
  moreover have "flow_base False cf = without_units (flow_base True cf)"
    by (simp add: flow_base_def without_units_def empty_index_def)
  ultimately show ?thesis by (simp add: reload_flow_def fold_live)
qed

lemma without_units_queries:
  "allContexts (without_units s) = allContexts s" "contextsAtSite (without_units s) = contextsAtSite s"
  "contextAtSite (without_units s) = contextAtSite s" "contextAtSiteFor (without_units s) = contextAtSiteFor s"
  "contextsForCallee (without_units s) = contextsForCallee s" "contextsForCaller (without_units s) = contextsForCaller s"
  "protectedCallsTo (without_units s) = protectedCallsTo s" "unprotectedCallsTo (without_units s) = unprotectedCallsTo s"
proof -
  have m: "materializeContext (without_units s) = materializeContext s"
    by (simp add: fun_eq_iff materializeContext_def without_units_def)
  have f: "cfInterner (without_units s) = cfInterner s" "contexts (without_units s) = contexts s"
    "byCallee (without_units s) = byCallee s" "byCaller (without_units s) = byCaller s"
    "byCalleeDisplay (without_units s) = byCalleeDisplay s" "byCallerDisplay (without_units s) = byCallerDisplay s"
    "bySite (without_units s) = bySite s" by (simp_all add: without_units_def)
  have c: "collect_live (without_units s) P idxs = collect_live s P idxs" for P idxs
    by (simp add: collect_live_eq m f)
  have i: "indicesFor (without_units s) a b n = indicesFor s a b n" for a b n by (simp add: indicesFor_def f)
  have l: "first_live (without_units s) P idxs = first_live s P idxs" for P idxs by (simp add: first_live_head c)
  show "allContexts (without_units s) = allContexts s" by (simp add: allContexts_eq m f)
  show "contextsAtSite (without_units s) = contextsAtSite s" "contextAtSite (without_units s) = contextAtSite s"
    "contextAtSiteFor (without_units s) = contextAtSiteFor s"
    by (simp_all add: fun_eq_iff contextsAtSite_def contextAtSite_def contextAtSiteFor_def c l f cong: option.case_cong)
  show "contextsForCallee (without_units s) = contextsForCallee s" "contextsForCaller (without_units s) = contextsForCaller s"
    "protectedCallsTo (without_units s) = protectedCallsTo s" "unprotectedCallsTo (without_units s) = unprotectedCallsTo s"
    by (simp_all add: fun_eq_iff contextsForCallee_def contextsForCaller_def protectedCallsTo_def unprotectedCallsTo_def c i f cong: option.case_cong)
qed

end
