(* ===== verification/SnapshotChannelSpec.thy ===== *)
theory SnapshotChannelSpec
  imports SnapshotFlowSpec ChannelProps
begin

text \<open>
  The channel section of a snapshot (src/callgraph/Snapshot.cpp): every live site with its
  registration count, its guards and the units that contribute to it.  The unit recorded in a loaded
  site is the first of that list.
\<close>

definition channelOps :: "ChannelOperation list" where
  "channelOps = [Produce, Consume]"

lemma channelOps_round [simp]: "enum_of channelOps (enum_code channelOps p) = Some p"
proof -
  have "p \<in> set channelOps" by (cases p) (simp_all add: channelOps_def)
  then show ?thesis by (rule enum_round) (simp add: channelOps_def)
qed

subsection \<open>Saving\<close>

definition site_tus :: "ChannelIndex \<Rightarrow> (nat, string list) umap" where
  "site_tus c = invert_units (\<lambda>i. siteRefs (sites c ! i) \<noteq> 0) (chByTu c)"

definition emit_site :: "(nat, string list) umap \<Rightarrow> ChannelIndex \<Rightarrow> nat \<Rightarrow> string \<Rightarrow> string" where
  "emit_site siteTus c i out =
     (let se = sites c ! i; s = site se in
      if \<not> siteLive se then out
      else
        let b1 = putStr (category s) (putStr (channelTypeName s) (putStr (channelId s) out));
            b2 = putU8 (enum_code channelOps (op s)) b1;
            b3 = putStr (chCallSite s) (putStr (siteFunctionDisplay s) (putStr (siteFunctionUsr s) b2));
            b4 = putU32 (word_of_nat (siteRefs se)) b3;
            b5 = putList emit_guard (chEnclosingGuards s) b4
        in (case map_of siteTus i of
              None \<Rightarrow> putU32 0 b5
            | Some tus \<Rightarrow> putList putStr tus b5))"

definition emit_channels :: "ChannelIndex \<Rightarrow> string \<Rightarrow> string" where
  "emit_channels c data =
     (let siteTus = site_tus c
      in fold (emit_site siteTus c) [0..<length (sites c)] (putU32 (word_of_nat (chLiveCount c)) data))"

subsection \<open>Loading\<close>

record ChannelLoad =
  clIndex :: ChannelIndex
  clNamed :: bool

definition load_site :: "bool \<Rightarrow> StoredSite \<Rightarrow> string list \<Rightarrow> ChannelIndex \<Rightarrow> ChannelIndex" where
  \<comment> \<open>the direct installation of a saved site at the next position\<close>
  "load_site mutableLoad stored tus c =
     (let idx = length (sites c); s = site stored in
      c\<lparr>sites := sites c @ [stored],
        siteIndex := uemplace (siteKey s) idx (siteIndex c),
        byChannel := upush (channelId s) idx (byChannel c),
        byFunctionUsr := upush (siteFunctionUsr s) idx (byFunctionUsr c),
        byFunctionDisplay :=
          (if siteFunctionDisplay s \<noteq> siteFunctionUsr s
           then upush (siteFunctionDisplay s) idx (byFunctionDisplay c) else byFunctionDisplay c),
        chByTu := (if mutableLoad then fold (\<lambda>tu. upush tu idx) tus (chByTu c) else chByTu c),
        chLiveCount := Suc (chLiveCount c)\<rparr>)"

definition read_site :: "bool \<Rightarrow> Reader \<Rightarrow> ChannelLoad \<Rightarrow> Reader \<times> ChannelLoad" where
  "read_site mutableLoad r s =
     (let (ch, r1) = lenStr r;
          (ty, r2) = lenStr r1;
          (cat, r3) = lenStr r2;
          (oper, r4) = snU8 r3;
          (fnUsr, r5) = lenStr r4;
          (fnDisplay, r6) = lenStr r5;
          (callAt, r7) = lenStr r6;
          (n, r8) = snU32 r7;
          (guards, r9) = readItems read_guard r8;
          (tus, r10) = readItems lenStr r9
      in if \<not> rdOk r10 \<or> n = 0 then (r10\<lparr>rdOk := False\<rparr>, s)
         else (r10, case enum_of channelOps oper of
                      None \<Rightarrow> s\<lparr>clNamed := False\<rparr>
                    | Some p \<Rightarrow>
                        let st = \<lparr>channelId = ch, channelTypeName = ty, category = cat, op = p,
                                  siteFunctionUsr = fnUsr, siteFunctionDisplay = fnDisplay, chCallSite = callAt,
                                  chEnclosingGuards = guards, chTuPath = (case tus of [] \<Rightarrow> [] | t # _ \<Rightarrow> t)\<rparr>
                        in s\<lparr>clIndex := load_site mutableLoad
                               \<lparr>site = st, siteRefs = unat n, siteLive = True\<rparr> tus (clIndex s)\<rparr>))"

definition load_channels :: "bool \<Rightarrow> Reader \<Rightarrow> Reader \<times> ChannelLoad" where
  "load_channels mutableLoad r =
     count_loop (read_site mutableLoad) r \<lparr>clIndex = empty_channels, clNamed = True\<rparr>"

text \<open>
  Loading the bytes of a saved channel index: the sites come back in order with their counts and
  their units; only the unit recorded inside a site may be another one of its contributors.  The
  registration counts per site and per unit, the contract of \<open>tu_store\<close>, are those of the saved
  index.
\<close>

subsection \<open>What is written\<close>

definition w_site :: "ChannelIndex \<Rightarrow> nat \<Rightarrow> string" where
  "w_site c i =
     (let s = site (sites c ! i) in
      wStr (channelId s) @ wStr (channelTypeName s) @ wStr (category s) @ wU8 (enum_code channelOps (op s))
      @ wStr (siteFunctionUsr s) @ wStr (siteFunctionDisplay s) @ wStr (chCallSite s)
      @ wU32 (word_of_nat (siteRefs (sites c ! i))) @ wList emit_guard (chEnclosingGuards s)
      @ wList putStr (ulist (site_tus c) i))"

definition live_sites :: "ChannelIndex \<Rightarrow> nat list" where
  "live_sites c = filter (\<lambda>i. siteLive (sites c ! i)) [0..<length (sites c)]"

lemma putStrs_Nil: "wList putStr [] = wU32 0"
  by (simp add: wList_def putList_def wU32_def)

lemma emit_site_w: "emit_site (site_tus c) c i b = b @ (if \<not> siteLive (sites c ! i) then [] else w_site c i)"
  by (simp add: emit_site_def w_site_def Let_def put_w snGuards.list_put snStrings.list_put putStrs_Nil ulist_def
      split: option.split)

lemma live_sites_map: "map ((!) (sites c)) (live_sites c) = filter siteLive (sites c)"
  using map_nth_positions[of "sites c" siteLive] by (simp add: live_sites_def positions_def)

lemma emit_channels_w:
  assumes "ch_inv c"
  shows "emit_channels c b = b @ wItems (w_site c) (live_sites c)"
proof -
  have e: "emit_site (site_tus c) c = (\<lambda>i b. b @ (if \<not> siteLive (sites c ! i) then [] else w_site c i))"
    by (intro ext) (rule emit_site_w)
  have "chLiveCount c = length (live_sites c)"
    using ch_invD(7)[OF assms] by (simp add: live_sites_map[symmetric])
  then show ?thesis
    by (simp add: emit_channels_def Let_def e fold_append_w concat_filter put_w wItems_def live_sites_def)
qed

subsection \<open>What is installed\<close>

definition saved_site :: "ChannelIndex \<Rightarrow> nat \<Rightarrow> StoredSite" where
  \<comment> \<open>the stored site with the unit that the loader records\<close>
  "saved_site c i =
     \<lparr>site = (site (sites c ! i))\<lparr>chTuPath := (case ulist (site_tus c) i of [] \<Rightarrow> [] | t # _ \<Rightarrow> t)\<rparr>,
      siteRefs = siteRefs (sites c ! i), siteLive = True\<rparr>"

definition reload_channels :: "bool \<Rightarrow> ChannelIndex \<Rightarrow> ChannelIndex" where
  "reload_channels mutableLoad c =
     fold (\<lambda>i. load_site mutableLoad (saved_site c i) (ulist (site_tus c) i)) (live_sites c) empty_channels"

definition site_fits :: "ChannelIndex \<Rightarrow> nat \<Rightarrow> bool" where
  "site_fits c i \<longleftrightarrow>
     (let s = site (sites c ! i) in
      str_fits (channelId s) \<and> str_fits (channelTypeName s) \<and> str_fits (category s) \<and> str_fits (siteFunctionUsr s)
      \<and> str_fits (siteFunctionDisplay s) \<and> str_fits (chCallSite s) \<and> siteRefs (sites c ! i) < 2 ^ 32
      \<and> list_fits guard_fits (chEnclosingGuards s) \<and> list_fits str_fits (ulist (site_tus c) i))"

definition channels_fit :: "ChannelIndex \<Rightarrow> bool" where
  "channels_fit c \<longleftrightarrow> list_fits (site_fits c) (live_sites c)"

lemma read_site_at:
  assumes fits: "site_fits c i" and n: "siteRefs (sites c ! i) \<noteq> 0"
  shows "read_site mutableLoad (reader_at a (w_site c i @ b)) \<lparr>clIndex = h, clNamed = k\<rparr>
     = (reader_at (a @ w_site c i) b,
        \<lparr>clIndex = load_site mutableLoad (saved_site c i) (ulist (site_tus c) i) h, clNamed = k\<rparr>)"
proof -
  let ?s = "site (sites c ! i)" and ?n = "siteRefs (sites c ! i)"
  have u: "unat (word_of_nat ?n :: 32 word) = ?n" using fits by (intro unat_length) (simp add: site_fits_def Let_def)
  then have z: "(word_of_nat ?n :: 32 word) \<noteq> 0" using n by (metis unat_0)
  have F: "str_fits (channelId ?s)" "str_fits (channelTypeName ?s)" "str_fits (category ?s)" "str_fits (siteFunctionUsr ?s)"
    "str_fits (siteFunctionDisplay ?s)" "str_fits (chCallSite ?s)" "list_fits guard_fits (chEnclosingGuards ?s)"
    "list_fits str_fits (ulist (site_tus c) i)" using fits by (simp_all add: site_fits_def Let_def)
  have rec: "\<lparr>channelId = channelId ?s, channelTypeName = channelTypeName ?s, category = category ?s, op = op ?s,
      siteFunctionUsr = siteFunctionUsr ?s, siteFunctionDisplay = siteFunctionDisplay ?s, chCallSite = chCallSite ?s,
      chEnclosingGuards = chEnclosingGuards ?s, chTuPath = t\<rparr> = ?s\<lparr>chTuPath := t\<rparr>" for t by simp
  show ?thesis
    unfolding w_site_def Let_def
    by (simp add: read_site_def sreads F u z rec saved_site_def Let_def)
qed

lemma load_channels_at:
  assumes inv: "ch_inv c" and fits: "channels_fit c"
  shows "load_channels mutableLoad (reader_at a (wItems (w_site c) (live_sites c) @ b))
     = (reader_at (a @ wItems (w_site c) (live_sites c)) b, \<lparr>clIndex = reload_channels mutableLoad c, clNamed = True\<rparr>)"
proof -
  let ?step = "\<lambda>i. load_site mutableLoad (saved_site c i) (ulist (site_tus c) i)"
  have ok: "site_fits c i \<and> siteRefs (sites c ! i) \<noteq> 0" if "i \<in> set (live_sites c)" for i
    using that fits ch_invD(6)[OF inv] by (auto simp: channels_fit_def list_fits_def list_all_iff live_sites_def)
  have walk: "repeat_ok (length is) (read_site mutableLoad) (reader_at a (concat (map (w_site c) is) @ b)) \<lparr>clIndex = h, clNamed = True\<rparr>
      = (reader_at (a @ concat (map (w_site c) is)) b, \<lparr>clIndex = fold ?step is h, clNamed = True\<rparr>)"
    if "set is \<subseteq> set (live_sites c)" for "is" a h
    using that
  proof (induction "is" arbitrary: a h)
    case (Cons i "is")
    then show ?case
      using read_site_at[of c i mutableLoad a "concat (map (w_site c) is) @ b" h True] ok[of i]
        Cons.IH[of "a @ w_site c i" "?step i h"] by simp
  qed simp
  have ne: "w_site c i \<noteq> []" for i by (simp add: w_site_def Let_def)
  have len: "length (live_sites c) < 2 ^ 32" using fits by (simp add: channels_fit_def list_fits_def)
  show ?thesis
    using walk[of "live_sites c" "a @ wU32 (word_of_nat (length (live_sites c)))" empty_channels] len
    by (simp add: load_channels_def count_loop_def snCount_items ne unat_length reload_channels_def) (simp add: wItems_def)
qed

subsection \<open>The reloaded index\<close>

lemma site_tus_count:
  assumes "ch_inv c" and "i < length (sites c)" and "siteLive (sites c ! i)"
  shows "count_list (ulist (site_tus c) i) t = count_list (ulist (chByTu c) t) i"
    and "length (ulist (site_tus c) i) \<le> siteRefs (sites c ! i)"
proof -
  note I = ch_invD[OF assms(1)]
  have d: "distinct (ukeys (chByTu c))" and n: "siteRefs (sites c ! i) \<noteq> 0"
    using I(5) I(6)[OF assms(2)] assms(3) by (simp_all add: refs_backed_def)
  show "count_list (ulist (site_tus c) i) t = count_list (ulist (chByTu c) t) i"
    unfolding site_tus_def using d n by (intro count_invert_units)
  show "length (ulist (site_tus c) i) \<le> siteRefs (sites c ! i)"
    using I(5) assms(2) length_invert_units[where live = "\<lambda>i. siteRefs (sites c ! i) \<noteq> 0" and m = "chByTu c" and i = i] n
    by (auto simp: site_tus_def refs_backed_def dest!: spec[of _ i])
qed

lemma push_units:
  assumes "distinct (ukeys m)"
  shows "distinct (ukeys (fold (\<lambda>t. upush t k) ts m))
    \<and> ucount (fold (\<lambda>t. upush t k) ts m) j = ucount m j + (if j = k then length ts else 0)
    \<and> count_list (ulist (fold (\<lambda>t. upush t k) ts m) u) j = count_list (ulist m u) j + (if j = k then count_list ts u else 0)"
  using assms
proof (induction ts arbitrary: m)
  case (Cons t ts)
  show ?case using Cons.IH[of "upush t k m"] Cons.prems by (auto simp: ucount_upush umap_simps)
qed simp

lemma load_site_inv:
  assumes inv: "ch_inv h" and new: "map_of (siteIndex h) (siteKey (site st)) = None"
    and st: "siteLive st" "0 < siteRefs st" "length ts \<le> siteRefs st"
  shows "ch_inv (load_site True st ts h)"
proof -
  note I = ch_invD[OF inv]
  let ?n = "length (sites h)" and ?s = "site st" and ?h = "load_site True st ts h"
  have s: "sites ?h = sites h @ [st]" by (simp add: load_site_def Let_def)
  have rows: "rows_ok (\<lambda>s. Some (channelId s)) (byChannel ?h) (sites ?h)"
    "rows_ok (\<lambda>s. Some (siteFunctionUsr s)) (byFunctionUsr ?h) (sites ?h)"
    "rows_ok display_row (byFunctionDisplay ?h) (sites ?h)"
    using I(1-3) st(1) by (auto simp: load_site_def Let_def display_row_def intro: rows_push rows_skip)
  have none: "\<not> site_at (sites h) (siteKey ?s) i" for i using new index_exactD[OF I(4)] by (metis option.distinct(1))
  have ix: "index_exact (siteIndex ?h) (sites ?h)"
    using I(4) new none st(1) by (auto simp: load_site_def Let_def index_exact_def umap_simps site_at_def nth_append)
  have d: "distinct (ukeys (chByTu h))" and u: "ucount (chByTu h) j \<le> (if j < ?n then siteRefs (sites h ! j) else 0)" for j
    using I(5) by (simp_all add: refs_backed_def)
  have "ucount (chByTu ?h) j \<le> (if j < length (sites ?h) then siteRefs (sites ?h ! j) else 0)" for j
    using push_units[OF d, of ?n ts j] u[of j] st(3) by (auto simp: load_site_def Let_def nth_append)
  then have rb: "refs_backed (chByTu ?h) (sites ?h)"
    using push_units[OF d] by (simp add: refs_backed_def) (simp add: load_site_def Let_def)
  show ?thesis
    using rows ix rb inv st(1,2) unfolding ch_inv_def by (simp add: s) (simp add: load_site_def Let_def)
qed

definition sites_loaded :: "ChannelIndex \<Rightarrow> nat list \<Rightarrow> ChannelIndex \<Rightarrow> bool" where
  "sites_loaded c is h \<longleftrightarrow>
     ch_inv h \<and> sites h = map (saved_site c) is \<and>
     (\<forall>t. \<forall>j < length is. count_list (ulist (chByTu h) t) j = count_list (ulist (chByTu c) t) (is ! j))"

lemma sites_loaded_step:
  assumes L: "sites_loaded c is h" and inv: "ch_inv c" and i: "i \<in> set (live_sites c)" "i \<notin> set is"
    and sub: "set is \<subseteq> set (live_sites c)"
  shows "sites_loaded c (is @ [i]) (load_site True (saved_site c i) (ulist (site_tus c) i) h)"
proof -
  let ?st = "saved_site c i" and ?ts = "ulist (site_tus c) i" and ?n = "length is"
  let ?h = "load_site True ?st ?ts h"
  have h: "ch_inv h" "sites h = map (saved_site c) is" "length (sites h) = ?n"
    "\<And>t j. j < ?n \<Longrightarrow> count_list (ulist (chByTu h) t) j = count_list (ulist (chByTu c) t) (is ! j)"
    using L by (simp_all add: sites_loaded_def)
  have key: "siteKey (site (saved_site c j)) = siteKey (site (sites c ! j))" for j by (simp add: saved_site_def)
  have live: "j < length (sites c)" "siteLive (sites c ! j)" if "j \<in> set (live_sites c)" for j
    using that by (simp_all add: live_sites_def)
  have new: "map_of (siteIndex h) (siteKey (site ?st)) = None"
  proof (rule ccontr)
    assume "map_of (siteIndex h) (siteKey (site ?st)) \<noteq> None"
    then obtain j where "site_at (sites h) (siteKey (site ?st)) j" using index_exactD[OF ch_invD(4)[OF h(1)]] by blast
    then have j: "j < ?n" "siteKey (site (sites c ! (is ! j))) = siteKey (site (sites c ! i))"
      by (auto simp: site_at_def h(2) key)
    have "is ! j \<in> set (live_sites c)" using sub j(1) by auto
    then have "site_at (sites c) (siteKey (site (sites c ! i))) (is ! j)" "site_at (sites c) (siteKey (site (sites c ! i))) i"
      using live i(1) j(2) by (simp_all add: site_at_def)
    then have "is ! j = i" using index_exactD[OF ch_invD(4)[OF inv]] by (metis option.inject)
    then show False using i(2) j(1) by auto
  qed
  note li = live[OF i(1)]
  note T = site_tus_count[OF inv li]
  have "0 < siteRefs (sites c ! i)" using ch_invD(6)[OF inv li(1)] li(2) by simp
  then have "ch_inv ?h" using T(2) by (intro load_site_inv[OF h(1) new]) (simp_all add: saved_site_def)
  moreover have "sites ?h = map (saved_site c) (is @ [i])" by (simp add: load_site_def Let_def h(2))
  moreover have "count_list (ulist (chByTu ?h) t) j = count_list (ulist (chByTu c) t) ((is @ [i]) ! j)"
    if "j < length (is @ [i])" for t j
  proof -
    have d: "distinct (ukeys (chByTu h))" and b: "ucount (chByTu h) ?n = 0"
      using ch_invD(5)[OF h(1)] h(3) by (auto simp: refs_backed_def dest!: spec[of _ ?n])
    have z: "count_list (ulist (chByTu h) t) ?n = 0" using count_list_le_ucount[OF d, of t ?n] b by simp
    have "count_list (ulist (chByTu ?h) t) j = count_list (ulist (chByTu h) t) j + (if j = ?n then count_list ?ts t else 0)"
      using push_units[OF d, of ?n ?ts j t] by (simp add: load_site_def Let_def h(3))
    then show ?thesis using that h(4)[of j t] z T(1)[of t] by (cases "j = ?n") (auto simp: nth_append)
  qed
  ultimately show ?thesis by (simp add: sites_loaded_def)
qed

lemma reload_channels_loaded:
  assumes inv: "ch_inv c"
  shows "sites_loaded c (live_sites c) (reload_channels True c)"
proof -
  have "sites_loaded c (is @ js) (fold (\<lambda>i. load_site True (saved_site c i) (ulist (site_tus c) i)) js h)"
    if "sites_loaded c is h" "distinct (is @ js)" "set (is @ js) \<subseteq> set (live_sites c)" for "is" js h
    using that
  proof (induction js arbitrary: "is" h)
    case (Cons i js)
    have "sites_loaded c (is @ [i]) (load_site True (saved_site c i) (ulist (site_tus c) i) h)"
      using Cons.prems by (intro sites_loaded_step[OF _ inv]) auto
    from Cons.IH[OF this] Cons.prems(2,3) show ?case by simp
  qed simp
  from this[of "[]" empty_channels "live_sites c"] show ?thesis
    by (simp add: reload_channels_def sites_loaded_def ch_inv_empty) (simp add: empty_channels_def live_sites_def)
qed

definition untagged :: "ChannelSite \<Rightarrow> ChannelSite" where
  "untagged s = s\<lparr>chTuPath := []\<rparr>"

lemma reload_channels_spec:
  assumes inv: "ch_inv c"
  shows "ch_inv (reload_channels True c)"
    and "map untagged (allSites (reload_channels True c)) = map untagged (allSites c)"
    and "site_refs (reload_channels True c) k = site_refs c k"
    and "tu_site_refs (reload_channels True c) t k = tu_site_refs c t k"
proof -
  let ?h = "reload_channels True c" and ?is = "live_sites c"
  have L: "ch_inv ?h" "sites ?h = map (saved_site c) ?is"
    "\<And>t j. j < length ?is \<Longrightarrow> count_list (ulist (chByTu ?h) t) j = count_list (ulist (chByTu c) t) (?is ! j)"
    using reload_channels_loaded[OF inv] by (simp_all add: sites_loaded_def)
  show "ch_inv ?h" by (rule L(1))
  have live: "filter siteLive (map (saved_site c) is) = map (saved_site c) is" for "is"
    by (induction "is") (simp_all add: saved_site_def)
  show "map untagged (allSites ?h) = map untagged (allSites c)"
    unfolding allSites_eq L(2) live live_sites_map[symmetric] by (simp add: saved_site_def untagged_def)
  have at: "site_at (sites ?h) k j \<longleftrightarrow> j < length ?is \<and> site_at (sites c) k (?is ! j)" for j
  proof (cases "j < length ?is")
    case True
    then have "?is ! j \<in> set ?is" by simp
    then have "?is ! j < length (sites c)" "siteLive (sites c ! (?is ! j))" unfolding live_sites_def by simp_all
    then show ?thesis using True by (simp add: site_at_def L(2)) (simp add: saved_site_def)
  qed (simp add: site_at_def L(2))
  have H: "map_of (siteIndex ?h) k = Some j \<longleftrightarrow> j < length ?is \<and> map_of (siteIndex c) k = Some (?is ! j)" for j
    by (simp add: index_exactD[OF ch_invD(4)[OF L(1)]] index_exactD[OF ch_invD(4)[OF inv]] at)
  have both: "site_refs ?h k = site_refs c k \<and> tu_site_refs ?h t k = tu_site_refs c t k"
  proof (cases "map_of (siteIndex c) k")
    case None
    then have "map_of (siteIndex ?h) k = None" using H by (metis not_None_eq option.distinct(1))
    with None show ?thesis by (simp add: site_refs_def tu_site_refs_def)
  next
    case (Some i)
    then have "i \<in> set ?is" using index_exactD[OF ch_invD(4)[OF inv]] by (auto simp: site_at_def live_sites_def)
    then obtain j where j: "j < length ?is" "?is ! j = i" by (auto simp: in_set_conv_nth)
    then have "map_of (siteIndex ?h) k = Some j" using Some H by simp
    with Some show ?thesis using L(3)[OF j(1)] j by (simp add: site_refs_def tu_site_refs_def L(2)) (simp add: saved_site_def)
  qed
  then show "site_refs ?h k = site_refs c k" "tu_site_refs ?h t k = tu_site_refs c t k" by blast+
qed

lemma reload_channels_readonly: "reload_channels False c = (reload_channels True c)\<lparr>chByTu := []\<rparr>"
proof -
  have "fold (\<lambda>i. load_site False (saved_site c i) (ulist (site_tus c) i)) is (h\<lparr>chByTu := []\<rparr>)
      = (fold (\<lambda>i. load_site True (saved_site c i) (ulist (site_tus c) i)) is h)\<lparr>chByTu := []\<rparr>" for "is" h
  proof (induction "is" arbitrary: h)
    case (Cons i "is")
    have "load_site False (saved_site c i) (ulist (site_tus c) i) (h\<lparr>chByTu := []\<rparr>)
        = (load_site True (saved_site c i) (ulist (site_tus c) i) h)\<lparr>chByTu := []\<rparr>"
      by (simp add: load_site_def Let_def)
    with Cons show ?case by simp
  qed simp
  from this[of "live_sites c" empty_channels] show ?thesis
    by (simp add: reload_channels_def) (simp add: empty_channels_def)
qed

end
