(* ===== verification/Snapshot.thy ===== *)
theory Snapshot
  imports SnapshotReload SnapshotChannelSpec
begin

text \<open>
  \<open>SnapshotIO::save\<close> and \<open>SnapshotIO::load\<close> (src/callgraph/Snapshot.cpp): the header with the format
  version, the counts and the section table, then the four sections.  A file system is a map from
  paths to contents, and what goes wrong while saving is an argument.  Timing and the mutexes are not
  modelled, nor is the flag \<open>readOnly_\<close>, which only feeds assertions.
\<close>

definition kSnapshotMagic :: string where "kSnapshotMagic = ''VYCS''"
definition kFormatVersion :: "32 word" where "kFormatVersion = 9"
definition kHeaderBytes :: nat where "kHeaderBytes = 4 + 4 + 32 + 4 + 4 * 17"
definition kSectionKinds :: nat where "kSectionKinds = 4"
definition kMetaKind :: nat where "kMetaKind = 0"
definition kGraphKind :: nat where "kGraphKind = 1"
definition kControlFlowKind :: nat where "kControlFlowKind = 2"
definition kChannelsKind :: nat where "kChannelsKind = 3"

definition kSectionGraph :: "32 word" where "kSectionGraph = 1"
definition kSectionControlFlow :: "32 word" where "kSectionControlFlow = 2"
definition kSectionChannels :: "32 word" where "kSectionChannels = 4"
definition kSectionAll :: "32 word" where "kSectionAll = 7"

record IndexSummary =
  isNodes :: "64 word"
  isEdges :: "64 word"
  isCallSites :: "64 word"
  isChannelSites :: "64 word"

record SnapshotData =
  sdGraph :: CallGraph
  sdFlow :: ControlFlowIndex
  sdChannels :: ChannelIndex
  sdMeta :: SnapshotMeta
  sdSummary :: IndexSummary
  sdLoaded :: "32 word"

datatype LoadMode = Mutable | ReadOnly

subsection \<open>Saving\<close>

definition emit_entry :: "string list \<Rightarrow> nat \<Rightarrow> string \<times> nat \<Rightarrow> string \<times> nat" where
  "emit_entry sections kd s =
     (case s of (header, offset) \<Rightarrow>
        let len = length (sections ! kd)
        in (putU64 (word_of_nat len) (putU64 (word_of_nat offset) (putU8 (word_of_nat kd) header)), offset + len))"

definition emit_header :: "CallGraph \<Rightarrow> ControlFlowIndex \<Rightarrow> ChannelIndex \<Rightarrow> string list \<Rightarrow> string" where
  "emit_header graph cfIndex channels sections =
     (let h1 = putU32 kFormatVersion [];
          h2 = putU64 (word_of_nat (edgeCount graph)) (putU64 (word_of_nat (nodeCount graph)) h1);
          h3 = putU64 (word_of_nat (channelSize channels)) (putU64 (word_of_nat (contextCount cfIndex)) h2);
          h4 = putU32 (word_of_nat kSectionKinds) h3
      in fst (fold (emit_entry sections) [0..<kSectionKinds] (h4, kHeaderBytes)))"

definition emit_snapshot :: "CallGraph \<Rightarrow> ControlFlowIndex \<Rightarrow> SnapshotMeta \<Rightarrow> ChannelIndex \<Rightarrow> string" where
  \<comment> \<open>the bytes of the file\<close>
  "emit_snapshot graph cfIndex meta channels =
     (let sections = [emitMeta meta [], emit_graph graph [], emit_flow cfIndex [], emit_channels channels []]
      in kSnapshotMagic @ emit_header graph cfIndex channels sections @ concat sections)"

type_synonym FileSystem = "(string, string) umap"

datatype SaveFault = NoFault | OpenFails | WriteFails nat | RenameFails

definition save_snapshot :: "SaveFault \<Rightarrow> string \<Rightarrow> CallGraph \<Rightarrow> ControlFlowIndex \<Rightarrow> SnapshotMeta \<Rightarrow> ChannelIndex
    \<Rightarrow> FileSystem \<Rightarrow> bool \<times> FileSystem" where
  \<comment> \<open>the bytes go to a temporary file that is then renamed; a write that fails leaves some prefix\<close>
  "save_snapshot fault path graph cfIndex meta channels fs =
     (let tmpPath = path @ ''.tmp''; bytes = emit_snapshot graph cfIndex meta channels in
      case fault of
        OpenFails \<Rightarrow> (False, fs)
      | WriteFails n \<Rightarrow> (False, AList.update tmpPath (take n bytes) fs)
      | RenameFails \<Rightarrow> (False, AList.delete tmpPath (AList.update tmpPath bytes fs))
      | NoFault \<Rightarrow> (True, AList.delete tmpPath (AList.update path bytes fs)))"

subsection \<open>Loading\<close>

type_synonym Range = "64 word \<times> 64 word"

definition read_range :: "64 word \<Rightarrow> Reader \<Rightarrow> Range option list \<Rightarrow> Reader \<times> Range option list" where
  \<comment> \<open>one entry of the section table: offset and length\<close>
  "read_range fileSize r ranges =
     (let (kd, r1) = snU8 r; (offset, r2) = snU64 r1; (len, r3) = snU64 r2 in
      if \<not> rdOk r3 \<or> unat kd \<ge> kSectionKinds \<or> ranges ! unat kd \<noteq> None \<or> offset > fileSize
         \<or> len > fileSize - offset
      then (r3\<lparr>rdOk := False\<rparr>, ranges)
      else (r3, ranges[unat kd := Some (offset, len)]))"

definition read_header :: "string \<Rightarrow> (IndexSummary \<times> Range option list) option" where
  "read_header file =
     (let (magic, r1) = snBytes 4 (newReader file) in
      if \<not> rdOk r1 \<or> magic \<noteq> kSnapshotMagic then None
      else let (version, r2) = snU32 r1 in
      if version \<noteq> kFormatVersion then None
      else let (nn, r3) = snU64 r2; (ne, r4) = snU64 r3; (nc, r5) = snU64 r4; (ns, r6) = snU64 r5;
               (tableCount, r7) = snU32 r6 in
      if \<not> rdOk r7 \<or> tableCount \<noteq> word_of_nat kSectionKinds then None
      else let (r8, ranges) = repeat_ok (unat tableCount) (read_range (word_of_nat (length file))) r7
                                (replicate kSectionKinds None) in
      if \<not> rdOk r8 \<or> rdPos r8 \<noteq> kHeaderBytes then None
      else Some (\<lparr>isNodes = nn, isEdges = ne, isCallSites = nc, isChannelSites = ns\<rparr>, ranges))"

definition begin_section :: "string \<Rightarrow> Range option list \<Rightarrow> nat \<Rightarrow> Reader" where
  "begin_section file ranges kd =
     (case ranges ! kd of
        None \<Rightarrow> newReader []
      | Some (offset, len) \<Rightarrow> newReader (take (unat len) (drop (unat offset) file)))"

definition section_done :: "Reader \<Rightarrow> bool" where
  \<comment> \<open>no read failed and the section is consumed exactly\<close>
  "section_done r \<longleftrightarrow> rdOk r \<and> rdPos r = length (rdData r)"

datatype LoadResult =
    Rejected
  | Unnamed \<comment> \<open>an enumeration byte without a name\<close>
  | Loaded SnapshotData

definition wants :: "32 word \<Rightarrow> 32 word \<Rightarrow> bool" where
  "wants needs part \<longleftrightarrow> needs AND part \<noteq> 0"

definition load_parts :: "string \<Rightarrow> Range option list \<Rightarrow> bool \<Rightarrow> 32 word \<Rightarrow>
    (SnapshotMeta \<times> GraphLoad \<times> FlowLoad \<times> ChannelLoad) option" where
  \<comment> \<open>the sections that are asked for, in file order; the others stay empty\<close>
  "load_parts file ranges mutableLoad needs =
     (let (meta, rm) = readMeta (begin_section file ranges kMetaKind) in
      if \<not> section_done rm then None
      else
        case (if wants needs kSectionGraph then load_graph mutableLoad (begin_section file ranges kGraphKind)
              else Some (rm, \<lparr>glGraph = empty_graph, glNamed = True\<rparr>)) of
          None \<Rightarrow> None
        | Some (rg, gl) \<Rightarrow>
            if \<not> section_done rg then None
            else
              case (if wants needs kSectionControlFlow then load_flow mutableLoad (begin_section file ranges kControlFlowKind)
                    else Some (rg, \<lparr>flIndex = empty_index, flNamed = True\<rparr>)) of
                None \<Rightarrow> None
              | Some (rf, fl) \<Rightarrow>
                  if \<not> section_done rf then None
                  else let (rc, cl) =
                    (if wants needs kSectionChannels then load_channels mutableLoad (begin_section file ranges kChannelsKind)
                     else (rf, \<lparr>clIndex = empty_channels, clNamed = True\<rparr>))
                  in if \<not> section_done rc then None else Some (meta, gl, fl, cl))"

definition load_bytes :: "LoadMode \<Rightarrow> 32 word \<Rightarrow> string \<Rightarrow> LoadResult" where
  "load_bytes mode needs file =
     (case read_header file of
        None \<Rightarrow> Rejected
      | Some (summary, ranges) \<Rightarrow>
          (case load_parts file ranges (mode = Mutable) needs of
             None \<Rightarrow> Rejected
           | Some (meta, gl, fl, cl) \<Rightarrow>
               if \<not> (glNamed gl \<and> flNamed fl \<and> clNamed cl) then Unnamed
               else Loaded \<lparr>sdGraph = glGraph gl, sdFlow = flIndex fl, sdChannels = clIndex cl, sdMeta = meta,
                            sdSummary = summary,
                            sdLoaded = (if wants needs kSectionGraph then kSectionGraph else 0)
                              OR (if wants needs kSectionControlFlow then kSectionControlFlow else 0)
                              OR (if wants needs kSectionChannels then kSectionChannels else 0)\<rparr>))"

definition load_snapshot :: "LoadMode \<Rightarrow> 32 word \<Rightarrow> string \<Rightarrow> FileSystem \<Rightarrow> LoadResult" where
  "load_snapshot mode needs path fs =
     (case map_of fs path of None \<Rightarrow> Rejected | Some file \<Rightarrow> load_bytes mode needs file)"

end
