(* ===== verification/SnapshotSpec.thy ===== *)
theory SnapshotSpec
  imports Snapshot
begin

text \<open>
  Reading whole files: the header that was written, what a reader never does (leave its buffer), and
  the sections of a saved file.
\<close>

subsection \<open>The header\<close>

definition w_entry :: "nat \<times> nat \<times> nat \<Rightarrow> string" where
  "w_entry e = (case e of (kd, offset, len) \<Rightarrow> wU8 (word_of_nat kd) @ wU64 (word_of_nat offset) @ wU64 (word_of_nat len))"

definition section_offset :: "string list \<Rightarrow> nat \<Rightarrow> nat" where
  "section_offset secs kd = kHeaderBytes + length (concat (take kd secs))"

definition w_table :: "string list \<Rightarrow> string" where
  "w_table secs = concat (map (\<lambda>kd. w_entry (kd, section_offset secs kd, length (secs ! kd))) [0..<kSectionKinds])"

definition counts_of :: "CallGraph \<Rightarrow> ControlFlowIndex \<Rightarrow> ChannelIndex \<Rightarrow> IndexSummary" where
  "counts_of g cf ch = \<lparr>isNodes = word_of_nat (nodeCount g), isEdges = word_of_nat (edgeCount g),
     isCallSites = word_of_nat (contextCount cf), isChannelSites = word_of_nat (channelSize ch)\<rparr>"

definition w_summary :: "IndexSummary \<Rightarrow> string" where
  "w_summary s = wU64 (isNodes s) @ wU64 (isEdges s) @ wU64 (isCallSites s) @ wU64 (isChannelSites s)"

definition w_head :: "IndexSummary \<Rightarrow> string list \<Rightarrow> string" where
  "w_head s secs = kSnapshotMagic @ wU32 kFormatVersion @ w_summary s @ wU32 (word_of_nat kSectionKinds) @ w_table secs"

lemma kinds: "[0..<kSectionKinds] = [0, 1, 2, 3]" "kSectionKinds = 4"
  by (simp_all add: kSectionKinds_def upt_rec)

lemma four: "length secs = 4 \<Longrightarrow> \<exists>a b c d. secs = [a, b, c, d]"
  by (auto simp: numeral_eq_Suc length_Suc_conv)

lemma emit_snapshot_w:
  "emit_snapshot g cf m ch =
     (let secs = [emitMeta m [], emit_graph g [], emit_flow cf [], emit_channels ch []]
      in w_head (counts_of g cf ch) secs @ concat secs)"
  by (simp add: emit_snapshot_def emit_header_def kinds emit_entry_def Let_def put_w w_head_def w_summary_def counts_of_def
      w_table_def w_entry_def section_offset_def numeral_eq_Suc ac_simps)

lemma length_head [simp]: "length (w_head s secs) = kHeaderBytes"
  by (simp add: w_head_def w_summary_def w_table_def w_entry_def kinds(1) kSnapshotMagic_def kHeaderBytes_def)

definition in_file :: "64 word \<Rightarrow> nat \<Rightarrow> nat \<Rightarrow> bool" where
  "in_file fsz offset len \<longleftrightarrow> \<not> (word_of_nat offset > fsz \<or> word_of_nat len > fsz - word_of_nat offset)"

lemma read_range_at:
  assumes "kd < 4" and "ranges ! kd = None"
  shows "read_range fsz (reader_at pre (w_entry (kd, offset, len) @ suf)) ranges =
     (if in_file fsz offset len
      then (reader_at (pre @ w_entry (kd, offset, len)) suf, ranges[kd := Some (word_of_nat offset, word_of_nat len)])
      else ((reader_at (pre @ w_entry (kd, offset, len)) suf)\<lparr>rdOk := False\<rparr>, ranges))"
proof -
  have "unat (word_of_nat kd :: 8 word) = kd" using assms(1) by (simp add: unat_of_nat take_bit_nat_eq_self)
  then show ?thesis using assms
    by (auto simp: read_range_def w_entry_def sreads in_file_def kSectionKinds_def)
qed

lemma in_file_iff:
  "fsz < 2 ^ 64 \<Longrightarrow> offset + len < 2 ^ 64 \<Longrightarrow> in_file (word_of_nat fsz) offset len \<longleftrightarrow> offset + len \<le> fsz"
proof -
  assume s: "fsz < 2 ^ 64" and o: "offset + len < 2 ^ 64"
  have u: "unat (word_of_nat fsz :: 64 word) = fsz" "unat (word_of_nat offset :: 64 word) = offset" "unat (word_of_nat len :: 64 word) = len"
    using s o by (simp_all add: unat_of_nat take_bit_nat_eq_self)
  show ?thesis
  proof (cases "offset \<le> fsz")
    case True
    then have "unat (word_of_nat fsz - word_of_nat offset :: 64 word) = fsz - offset"
      by (simp add: unat_sub word_le_nat_alt u)
    then show ?thesis using True by (auto simp: in_file_def word_less_nat_alt u)
  qed (simp add: in_file_def word_less_nat_alt u)
qed

lemma repeat_ok_stop: "\<not> rdOk r \<Longrightarrow> repeat_ok n body r s = (r, s)"
  by (cases n) simp_all

lemma read_table_at:
  assumes len: "length secs = 4" and total: "section_offset secs 4 < 2 ^ 64" "fsz < 2 ^ 64"
  shows "section_offset secs 4 \<le> fsz \<Longrightarrow>
      repeat_ok 4 (read_range (word_of_nat fsz)) (reader_at pre (w_table secs @ suf)) (replicate 4 None)
        = (reader_at (pre @ w_table secs) suf,
           map (\<lambda>kd. Some (word_of_nat (section_offset secs kd), word_of_nat (length (secs ! kd)))) [0, 1, 2, 3])"
    and "fsz < section_offset secs 4 \<Longrightarrow>
      \<not> rdOk (fst (repeat_ok 4 (read_range (word_of_nat fsz)) (reader_at pre (w_table secs @ suf)) (replicate 4 None)))"
proof -
  obtain a b c d where s: "secs = [a, b, c, d]" using four[OF len] by blast
  have r4: "replicate 4 (None :: Range option) = [None, None, None, None]" by (simp add: numeral_eq_Suc)
  have n4: "(4 :: nat) = Suc (Suc (Suc (Suc 0)))" by simp
  have offs: "section_offset secs 4 = section_offset secs 3 + length (secs ! 3)" "section_offset secs 3 = section_offset secs 2 + length (secs ! 2)"
    "section_offset secs 2 = section_offset secs 1 + length (secs ! 1)" "section_offset secs 1 = section_offset secs 0 + length (secs ! 0)"
    by (simp_all add: s section_offset_def)
  have inf: "in_file (word_of_nat fsz) (section_offset secs kd) (length (secs ! kd)) \<longleftrightarrow> section_offset secs kd + length (secs ! kd) \<le> fsz"
    if "kd \<in> {0, 1, 2, 3}" for kd
    using total that offs by (intro in_file_iff) auto
  note I = inf[of 0] inf[of 1] inf[of 2] inf[of 3]
  have t: "w_table secs = w_entry (0, section_offset secs 0, length (secs ! 0)) @ w_entry (1, section_offset secs 1, length (secs ! 1))
      @ w_entry (2, section_offset secs 2, length (secs ! 2)) @ w_entry (3, section_offset secs 3, length (secs ! 3))"
    by (simp add: w_table_def kinds(1))
  show "repeat_ok 4 (read_range (word_of_nat fsz)) (reader_at pre (w_table secs @ suf)) (replicate 4 None)
      = (reader_at (pre @ w_table secs) suf,
         map (\<lambda>kd. Some (word_of_nat (section_offset secs kd), word_of_nat (length (secs ! kd)))) [0, 1, 2, 3])"
    if "section_offset secs 4 \<le> fsz"
    using that offs I unfolding r4 n4 repeat_ok.simps t by (simp add: read_range_at)
  show "\<not> rdOk (fst (repeat_ok 4 (read_range (word_of_nat fsz)) (reader_at pre (w_table secs @ suf)) (replicate 4 None)))"
    if "fsz < section_offset secs 4"
    using that offs I unfolding r4 n4 repeat_ok.simps t by (simp add: read_range_at)
qed

lemma read_header_at:
  assumes len: "length secs = 4" and total: "section_offset secs 4 < 2 ^ 64" "kHeaderBytes + length body < 2 ^ 64"
  shows "read_header (w_head s secs @ body) =
     (if section_offset secs 4 \<le> kHeaderBytes + length body
      then Some (s, map (\<lambda>kd. Some (word_of_nat (section_offset secs kd), word_of_nat (length (secs ! kd)))) [0, 1, 2, 3])
      else None)"
proof -
  let ?pre = "kSnapshotMagic @ wU32 kFormatVersion @ w_summary s @ wU32 (word_of_nat kSectionKinds)"
  let ?size = "kHeaderBytes + length body"
  have m: "snBytes 4 (reader_at [] (kSnapshotMagic @ x)) = (kSnapshotMagic, reader_at kSnapshotMagic x)" for x
    using snBytes_at[of kSnapshotMagic 4 "[]" x] by (simp add: kSnapshotMagic_def)
  have k: "unat (word_of_nat kSectionKinds :: 32 word) = 4" by (simp add: kSectionKinds_def)
  have whole: "length (w_head s secs @ body) = ?size" by simp
  have pos: "rdPos (reader_at (?pre @ w_table secs) body) = kHeaderBytes"
    using length_head[of s secs] by (simp add: reader_at_def w_head_def)
  have "read_header (w_head s secs @ body) =
     (let (r8, ranges) = repeat_ok 4 (read_range (word_of_nat ?size)) (reader_at ?pre (w_table secs @ body)) (replicate 4 None)
      in if \<not> rdOk r8 \<or> rdPos r8 \<noteq> kHeaderBytes then None else Some (s, ranges))"
    unfolding read_header_def whole newReader_at
    by (simp add: w_head_def w_summary_def m sreads k kSectionKinds_def[symmetric] Let_def split: prod.split)
  then show ?thesis
    using read_table_at[OF len total, where pre = ?pre and suf = body] pos
    by (cases "section_offset secs 4 \<le> ?size") (simp_all add: split_beta)
qed

subsection \<open>Readers stay inside their buffer\<close>

definition inside :: "string \<Rightarrow> Reader \<Rightarrow> bool" where
  "inside d r \<longleftrightarrow> rdData r = d \<and> rdPos r \<le> length d"

lemma inside_reads [simp]:
  "inside d r \<Longrightarrow> inside d (snd (snU8 r))" "inside d r \<Longrightarrow> inside d (snd (snU32 r))"
  "inside d r \<Longrightarrow> inside d (snd (snU64 r))" "inside d r \<Longrightarrow> inside d (snd (snBytes n r))"
  "inside d r \<Longrightarrow> inside d (r\<lparr>rdOk := b\<rparr>)"
  by (auto simp: inside_def snU8_def snU32_def snU64_def snBytes_def)

lemma inside_range: "inside d r \<Longrightarrow> inside d (fst (read_range n r rs))"
  by (simp add: read_range_def split_beta Let_def)

lemma inside_repeat:
  assumes "\<And>r s. inside d r \<Longrightarrow> inside d (fst (body r s))" and "inside d r"
  shows "inside d (fst (repeat_ok n body r s))"
  using assms(2)
proof (induction n arbitrary: r s)
  case (Suc n)
  show ?case using Suc.IH[OF assms(1)[OF Suc.prems, of s]] Suc.prems by (simp add: split_beta)
qed simp

lemma read_header_needs:
  assumes "read_header file = Some x"
  shows "kHeaderBytes \<le> length file" and "take 4 file = kSnapshotMagic" and "fst (snU32 (snd (snBytes 4 (newReader file)))) = kFormatVersion"
proof -
  have start: "inside file (newReader file)" by (simp add: inside_def newReader_def)
  let ?r1 = "snd (snBytes 4 (newReader file))" and ?m = "fst (snBytes 4 (newReader file))"
  let ?r2 = "snd (snU32 ?r1)"
  let ?r6 = "snd (snU64 (snd (snU64 (snd (snU64 (snd (snU64 ?r2)))))))"
  let ?r7 = "snd (snU32 ?r6)"
  let ?t = "repeat_ok (unat (fst (snU32 ?r6))) (read_range (word_of_nat (length file))) ?r7 (replicate kSectionKinds None)"
  have acc: "rdOk ?r1 \<and> ?m = kSnapshotMagic" "fst (snU32 ?r1) = kFormatVersion" "rdPos (fst ?t) = kHeaderBytes"
    using assms by (simp_all add: read_header_def split_beta Let_def split: if_splits)
  show "fst (snU32 ?r1) = kFormatVersion" by (rule acc(2))
  show "take 4 file = kSnapshotMagic" using acc(1) by (simp add: snBytes_def newReader_def split: if_splits)
  have "inside file (fst ?t)" by (intro inside_repeat) (simp_all add: inside_range start)
  then show "kHeaderBytes \<le> length file" using acc(3) by (simp add: inside_def)
qed

subsection \<open>The sections of a saved file\<close>

lemma section_start:
  assumes "kd < length secs" and "length h = kHeaderBytes"
  shows "take (length (secs ! kd)) (drop (section_offset secs kd) (h @ concat secs)) = secs ! kd"
proof -
  have "concat secs = concat (take kd secs) @ secs ! kd @ concat (drop (Suc kd) secs)"
    by (metis append_take_drop_id assms(1) concat.simps(2) concat_append Cons_nth_drop_Suc)
  then show ?thesis using assms(2) by (simp add: section_offset_def)
qed

lemma section_end: "section_offset secs (length secs) = kHeaderBytes + length (concat secs)"
  by (simp add: section_offset_def)

lemma begin_section_at:
  assumes len: "length secs = 4" and total: "section_offset secs 4 < 2 ^ 64" and kd: "kd < 4"
  shows "begin_section (w_head s secs @ concat secs)
      (map (\<lambda>kd. Some (word_of_nat (section_offset secs kd), word_of_nat (length (secs ! kd)))) [0, 1, 2, 3]) kd
    = reader_at [] (secs ! kd)"
proof -
  obtain a b c d where s: "secs = [a, b, c, d]" using four[OF len] by blast
  have "kd \<in> {0, 1, 2, 3}" using kd by auto
  then have "section_offset secs kd + length (secs ! kd) < 2 ^ 64" and
    "map (\<lambda>kd. Some (word_of_nat (section_offset secs kd) :: 64 word, word_of_nat (length (secs ! kd)) :: 64 word)) [0, 1, 2, 3] ! kd
      = Some (word_of_nat (section_offset secs kd), word_of_nat (length (secs ! kd)))"
    using total by (auto simp: s section_offset_def)
  moreover from this have "unat (word_of_nat (section_offset secs kd) :: 64 word) = section_offset secs kd"
    "unat (word_of_nat (length (secs ! kd)) :: 64 word) = length (secs ! kd)"
    by (simp_all add: unat_of_nat take_bit_nat_eq_self)
  ultimately show ?thesis
    using section_start[of kd secs "w_head s secs"] len kd by (simp add: begin_section_def newReader_at)
qed

lemma section_done_at [simp]: "section_done (reader_at pre [])"
  by (simp add: section_done_def reader_at_def)

end
