(* ===== verification/SnapshotDeps.thy ===== *)
theory SnapshotDeps
  imports SnapshotMeta
begin

text \<open>
  The dependency tables of a snapshot: what \<open>recordDependencies\<close> stores and what \<open>dirtyTUs\<close> and
  \<open>dependenciesOf\<close> read back.  A file that several units opened is stored once, with the oldest stamp
  that any of them saw.
\<close>

subsection \<open>The oldest stamp\<close>

definition keep_oldest :: "FileStamp \<Rightarrow> FileStamp option \<Rightarrow> FileStamp option" where
  "keep_oldest d kept =
     (case kept of None \<Rightarrow> Some d | Some k \<Rightarrow> if stMtime d < stMtime k then Some d else Some k)"

definition oldest :: "FileStamp list \<Rightarrow> string \<Rightarrow> FileStamp option" where
  \<comment> \<open>of the stamps of a path, the first with the least modification time\<close>
  "oldest seen p = fold keep_oldest (filter (\<lambda>d. stPath d = p) seen) None"

lemma oldest_snoc: "oldest (seen @ [d]) p = (if stPath d = p then keep_oldest d (oldest seen p) else oldest seen p)"
  by (simp add: oldest_def)

lemma oldest_Some:
  "d \<in> set seen \<Longrightarrow> \<exists>k. oldest seen (stPath d) = Some k"
  by (induction seen rule: rev_induct) (auto simp: oldest_snoc keep_oldest_def split: option.split)

lemma oldest_in: "oldest seen p = Some k \<Longrightarrow> k \<in> set seen \<and> stPath k = p \<and> (\<forall>d \<in> set seen. stPath d = p \<longrightarrow> stMtime k \<le> stMtime d)"
proof (induction seen arbitrary: k rule: rev_induct)
  case (snoc d seen)
  show ?case
  proof (cases "oldest seen p")
    case None
    then have "stPath x \<noteq> p" if "x \<in> set seen" for x using oldest_Some[OF that] by auto
    then show ?thesis using snoc.prems None by (auto simp: oldest_snoc keep_oldest_def split: if_splits)
  next
    case (Some j)
    then show ?thesis using snoc.prems snoc.IH[OF Some]
      by (fastforce simp: oldest_snoc keep_oldest_def not_less split: if_splits)
  qed
qed (simp add: oldest_def)

subsection \<open>Recording\<close>

definition table_of :: "FileStamp list \<Rightarrow> DepTable \<Rightarrow> bool" where
  \<comment> \<open>the table after the stamps \<open>seen\<close>\<close>
  "table_of seen t \<longleftrightarrow>
     length (dtDeps t) \<le> length seen \<and>
     (\<forall>p k. map_of (dtIds t) p = Some k \<longrightarrow> unat k < length (dtDeps t) \<and> oldest seen p = Some (dtDeps t ! unat k)) \<and>
     (\<forall>p. map_of (dtIds t) p = None \<longrightarrow> oldest seen p = None)"

definition stored_row :: "DepTable \<Rightarrow> 32 word list \<Rightarrow> string list \<Rightarrow> bool" where
  \<comment> \<open>a row of ids and the paths it stands for\<close>
  "stored_row t row paths \<longleftrightarrow> list_all2 (\<lambda>k p. map_of (dtIds t) p = Some k) row paths"

lemma record_dep_step:
  assumes T: "table_of seen t" and room: "length seen < 2 ^ 32"
  shows "table_of (seen @ [d]) (record_dep d t)"
    and "dtRow (record_dep d t) = dtRow t @ [the (map_of (dtIds (record_dep d t)) (stPath d))]"
    and "map_of (dtIds t) p = Some k \<Longrightarrow> map_of (dtIds (record_dep d t)) p = Some k"
    and "\<exists>k. map_of (dtIds (record_dep d t)) (stPath d) = Some k"
proof -
  have "table_of (seen @ [d]) (record_dep d t)
    \<and> dtRow (record_dep d t) = dtRow t @ [the (map_of (dtIds (record_dep d t)) (stPath d))]
    \<and> (map_of (dtIds t) p = Some k \<longrightarrow> map_of (dtIds (record_dep d t)) p = Some k)
    \<and> (\<exists>k. map_of (dtIds (record_dep d t)) (stPath d) = Some k)"
  proof (cases "map_of (dtIds t) (stPath d)")
    case None
    let ?n = "length (dtDeps t)" and ?k = "word_of_nat (length (dtDeps t)) :: 32 word"
    have n: "unat ?k = ?n" using T room by (intro unat_length) (auto simp: table_of_def)
    have r: "record_dep d t = t\<lparr>dtIds := uemplace (stPath d) ?k (dtIds t), dtDeps := dtDeps t @ [d], dtRow := dtRow t @ [?k]\<rparr>"
      using None by (simp add: record_dep_def Let_def)
    have o: "oldest seen (stPath d) = None" using T None by (auto simp: table_of_def)
    show ?thesis
      using T None unfolding r table_of_def
      by (auto simp: umap_simps oldest_snoc o keep_oldest_def n nth_append less_Suc_eq)
  next
    case (Some j)
    have j: "unat j < length (dtDeps t)" "oldest seen (stPath d) = Some (dtDeps t ! unat j)"
      using T Some by (auto simp: table_of_def)
    have uniq: "unat k' \<noteq> unat j" if "map_of (dtIds t) q = Some k'" "q \<noteq> stPath d" for q k'
      using that T oldest_in[OF j(2)] oldest_in[of seen q "dtDeps t ! unat k'"] by (auto simp: table_of_def)
    have r: "record_dep d t = t\<lparr>dtDeps := (if stMtime d < stMtime (dtDeps t ! unat j) then (dtDeps t)[unat j := d] else dtDeps t),
        dtRow := dtRow t @ [j]\<rparr>" using Some by (simp add: record_dep_def)
    have "oldest (seen @ [d]) q = Some (dtDeps (record_dep d t) ! unat k')" if q: "map_of (dtIds t) q = Some k'" for q k'
    proof (cases "q = stPath d")
      case True
      then show ?thesis using q Some j by (simp add: r oldest_snoc keep_oldest_def)
    next
      case False
      then show ?thesis using q T uniq[OF q False] by (auto simp: r oldest_snoc table_of_def nth_list_update)
    qed
    moreover have "oldest (seen @ [d]) q = None" if "map_of (dtIds t) q = None" for q
      using that T Some by (auto simp: oldest_snoc table_of_def)
    ultimately show ?thesis using T Some by (simp add: r table_of_def)
  qed
  then show "table_of (seen @ [d]) (record_dep d t)"
    "dtRow (record_dep d t) = dtRow t @ [the (map_of (dtIds (record_dep d t)) (stPath d))]"
    "map_of (dtIds t) p = Some k \<Longrightarrow> map_of (dtIds (record_dep d t)) p = Some k"
    "\<exists>k. map_of (dtIds (record_dep d t)) (stPath d) = Some k" by blast+
qed

definition ids_kept :: "DepTable \<Rightarrow> DepTable \<Rightarrow> bool" where
  "ids_kept t u \<longleftrightarrow> (\<forall>p k. map_of (dtIds t) p = Some k \<longrightarrow> map_of (dtIds u) p = Some k)"

lemma stored_row_kept: "ids_kept t u \<Longrightarrow> stored_row t row ps \<Longrightarrow> stored_row u row ps"
  by (auto simp: stored_row_def ids_kept_def elim: list.rel_mono_strong)

lemma record_deps:
  assumes "table_of seen t" and "length seen + length ds \<le> 2 ^ 32" and "stored_row t (dtRow t) ps"
  shows "table_of (seen @ ds) (fold record_dep ds t) \<and> ids_kept t (fold record_dep ds t)
    \<and> stored_row (fold record_dep ds t) (dtRow (fold record_dep ds t)) (ps @ map stPath ds)"
  using assms
proof (induction ds arbitrary: seen t ps)
  case (Cons d ds)
  have room: "length seen < 2 ^ 32" using Cons.prems(2) by simp
  note S = record_dep_step[OF Cons.prems(1) room, where d = d]
  have k: "ids_kept t (record_dep d t)" using S(3) by (simp add: ids_kept_def)
  obtain j where "map_of (dtIds (record_dep d t)) (stPath d) = Some j" using S(4) by blast
  then have row: "stored_row (record_dep d t) (dtRow (record_dep d t)) (ps @ [stPath d])"
    using stored_row_kept[OF k Cons.prems(3)] by (simp add: S(2) stored_row_def list_all2_appendI)
  have "length (seen @ [d]) + length ds \<le> 2 ^ 32" using Cons.prems(2) by simp
  from Cons.IH[OF S(1) this row] k show ?case by (auto simp: ids_kept_def)
qed (simp add: ids_kept_def)

definition deps_of :: "TuDependencies \<Rightarrow> FileStamp \<Rightarrow> FileStamp list" where
  "deps_of deps f = (case map_of deps (stPath f) of None \<Rightarrow> [] | Some ds \<Rightarrow> ds)"

definition all_deps :: "TuDependencies \<Rightarrow> FileStamp list \<Rightarrow> FileStamp list" where
  "all_deps deps fs = concat (map (deps_of deps) fs)"

lemma record_files:
  assumes "table_of seen t" and "length seen + length (all_deps deps fs) \<le> 2 ^ 32"
    and "list_all2 (stored_row t) rows pss"
  shows "\<exists>u rs. fold (record_file deps) fs (t, rows) = (u, rs) \<and> table_of (seen @ all_deps deps fs) u
    \<and> list_all2 (stored_row u) rs (pss @ map (\<lambda>f. map stPath (deps_of deps f)) fs)"
  using assms
proof (induction fs arbitrary: seen t rows pss)
  case (Cons f fs)
  define t1 where "t1 = (case map_of deps (stPath f) of None \<Rightarrow> t | Some ds \<Rightarrow> fold record_dep ds (t\<lparr>dtRow := []\<rparr>))"
  define row where "row = (case map_of deps (stPath f) of None \<Rightarrow> [] | Some ds \<Rightarrow> dtRow t1)"
  have step: "record_file deps f (t, rows) = (t1, rows @ [row])"
    by (simp add: record_file_def t1_def row_def Let_def split: option.split)
  have T: "table_of (seen @ deps_of deps f) t1 \<and> ids_kept t t1 \<and> stored_row t1 row (map stPath (deps_of deps f))"
  proof (cases "map_of deps (stPath f)")
    case None
    then show ?thesis using Cons.prems(1) by (simp add: t1_def row_def deps_of_def ids_kept_def stored_row_def)
  next
    case (Some ds)
    have "table_of seen (t\<lparr>dtRow := []\<rparr>)" "stored_row (t\<lparr>dtRow := []\<rparr>) (dtRow (t\<lparr>dtRow := []\<rparr>)) []"
      using Cons.prems(1) by (simp_all add: table_of_def stored_row_def)
    moreover have "length seen + length ds \<le> 2 ^ 32" using Cons.prems(2) Some by (simp add: all_deps_def deps_of_def)
    ultimately show ?thesis using record_deps[of seen "t\<lparr>dtRow := []\<rparr>" ds "[]"] Some
      by (simp add: t1_def row_def deps_of_def ids_kept_def)
  qed
  have "list_all2 (stored_row t1) rows pss"
    using Cons.prems(3) by (rule list_all2_mono) (use T stored_row_kept in blast)
  then have "list_all2 (stored_row t1) (rows @ [row]) (pss @ [map stPath (deps_of deps f)])"
    using T by (simp add: list_all2_appendI)
  moreover have "length (seen @ deps_of deps f) + length (all_deps deps fs) \<le> 2 ^ 32" using Cons.prems(2) by (simp add: all_deps_def)
  ultimately show ?case using Cons.IH[of "seen @ deps_of deps f" t1 "rows @ [row]"] T step by (fastforce simp: all_deps_def)
qed (simp add: all_deps_def)

text \<open>What a recorded meta section holds.\<close>

definition records :: "TuDependencies \<Rightarrow> SnapshotMeta \<Rightarrow> bool" where
  "records deps m \<longleftrightarrow>
     length (smTuDeps m) = length (smFiles m) \<and>
     (\<forall>i < length (smFiles m).
        list_all2 (\<lambda>k d. unat k < length (smDeps m) \<and> oldest (all_deps deps (smFiles m)) (stPath d) = Some (smDeps m ! unat k))
          (smTuDeps m ! i) (deps_of deps (smFiles m ! i)))"

lemma recordDependencies_records:
  assumes "length (all_deps deps (smFiles m)) \<le> 2 ^ 32"
  shows "records deps (recordDependencies deps m)" and "smFiles (recordDependencies deps m) = smFiles m"
proof -
  let ?t0 = "\<lparr>dtDeps = [], dtIds = [], dtRow = []\<rparr>" and ?seen = "all_deps deps (smFiles m)"
  have "table_of [] ?t0" by (simp add: table_of_def oldest_def)
  from record_files[OF this, of deps "smFiles m" "[]" "[]"] assms
  obtain u rs where r: "fold (record_file deps) (smFiles m) (?t0, []) = (u, rs)" and T: "table_of ?seen u"
    and rows: "list_all2 (stored_row u) rs (map (\<lambda>f. map stPath (deps_of deps f)) (smFiles m))" by auto
  have m: "recordDependencies deps m = m\<lparr>smDeps := dtDeps u, smTuDeps := rs\<rparr>"
    by (simp add: recordDependencies_def r)
  show "smFiles (recordDependencies deps m) = smFiles m" by (simp add: m)
  have "list_all2 (\<lambda>k d. unat k < length (dtDeps u) \<and> oldest ?seen (stPath d) = Some (dtDeps u ! unat k)) (rs ! i) (deps_of deps (smFiles m ! i))"
    if i: "i < length (smFiles m)" for i
  proof -
    have "stored_row u (rs ! i) (map stPath (deps_of deps (smFiles m ! i)))"
      using rows i by (auto simp: list_all2_conv_all_nth)
    then show ?thesis using T by (auto simp: stored_row_def list_all2_conv_all_nth table_of_def)
  qed
  then show "records deps (recordDependencies deps m)"
    using rows by (simp add: records_def m list_all2_lengthD[of "stored_row u"])
qed

subsection \<open>Reading back\<close>

definition stamp_now :: "(string \<Rightarrow> (64 word \<times> 64 word) option) \<Rightarrow> string \<Rightarrow> FileStamp" where
  "stamp_now stat p = hd (stampFiles stat [p])"

lemma nth_stampFiles: "i < length ps \<Longrightarrow> stampFiles stat ps ! i = stamp_now stat (ps ! i)"
  by (simp add: stampFiles_def stamp_now_def)

lemma dep_changed_nth:
  "length (dep_changed stat m) = length (smDeps m)"
  "i < length (smDeps m) \<Longrightarrow>
     dep_changed stat m ! i = (\<not> sameParsedVersion (smDeps m ! i) (stamp_now stat (stPath (smDeps m ! i))))"
  by (simp_all add: dep_changed_def Let_def nth_stampFiles)

lemma recorded_files_at:
  assumes "distinct (map stPath (smFiles m))"
  shows "map_of (recorded_files m) p = Some k \<longleftrightarrow> k < length (smFiles m) \<and> stPath (smFiles m ! k) = p"
proof -
  have "map_of (fold (\<lambda>i m'. AList.update (stPath (smFiles m ! i)) i m') [0..<n] []) p = Some k
      \<longleftrightarrow> k < n \<and> stPath (smFiles m ! k) = p" if "n \<le> length (smFiles m)" for n
    using that
  proof (induction n)
    case (Suc n)
    have "stPath (smFiles m ! j) \<noteq> stPath (smFiles m ! n)" if "j < n" for j
      using assms that Suc.prems by (auto simp: distinct_conv_nth)
    then show ?case using Suc by (auto simp: umap_simps less_Suc_eq)
  qed simp
  from this[of "length (smFiles m)"] show ?thesis by (simp add: recorded_files_def)
qed

definition unchanged :: "(string \<Rightarrow> (64 word \<times> 64 word) option) \<Rightarrow> TuDependencies \<Rightarrow> FileStamp list \<Rightarrow> FileStamp \<Rightarrow> bool" where
  \<comment> \<open>the unit is recorded with this stamp, and every file it opened is still the oldest version seen\<close>
  "unchanged stat deps recorded cur \<longleftrightarrow>
     cur \<in> set recorded \<and>
     (\<forall>d \<in> set (deps_of deps cur). \<exists>k. oldest (all_deps deps recorded) (stPath d) = Some k
        \<and> sameParsedVersion k (stamp_now stat (stPath d)))"

lemma tu_dirty_records:
  assumes r: "records deps m" and d: "distinct (map stPath (smFiles m))"
  shows "tu_dirty m (recorded_files m) (dep_changed stat m) cur
     = (\<not> unchanged stat deps (smFiles m) cur, cur \<in> set (smFiles m) \<and> \<not> unchanged stat deps (smFiles m) cur)"
proof (cases "cur \<in> set (smFiles m)")
  case False
  then have "smFiles m ! k \<noteq> cur" if "map_of (recorded_files m) (stPath cur) = Some k" for k
    using that recorded_files_at[OF d] by (auto simp: in_set_conv_nth)
  then show ?thesis using False by (simp add: tu_dirty_def unchanged_def split: option.split)
next
  case True
  then obtain k where k: "k < length (smFiles m)" "smFiles m ! k = cur" by (auto simp: in_set_conv_nth)
  then have look: "map_of (recorded_files m) (stPath cur) = Some k" using recorded_files_at[OF d] by simp
  have len: "length (smTuDeps m) = length (smFiles m)" using r by (simp add: records_def)
  have row: "list_all2 (\<lambda>k d. unat k < length (smDeps m) \<and> oldest (all_deps deps (smFiles m)) (stPath d) = Some (smDeps m ! unat k))
      (smTuDeps m ! k) (deps_of deps cur)" using r k by (auto simp: records_def)
  have path: "stPath (smDeps m ! unat j) = stPath x" if "oldest (all_deps deps (smFiles m)) (stPath x) = Some (smDeps m ! unat j)" for j x
    using oldest_in[OF that] by simp
  have "list_ex (\<lambda>i. unat i < length (dep_changed stat m) \<and> dep_changed stat m ! unat i) (smTuDeps m ! k)
      \<longleftrightarrow> \<not> (\<forall>d \<in> set (deps_of deps cur). \<exists>k. oldest (all_deps deps (smFiles m)) (stPath d) = Some k
            \<and> sameParsedVersion k (stamp_now stat (stPath d)))"
    using row by (induction rule: list_all2_induct) (auto simp: dep_changed_nth path)
  then show ?thesis using True k by (simp add: tu_dirty_def look len unchanged_def)
qed

lemma dirtyTUs_records:
  assumes "records deps m" and "distinct (map stPath (smFiles m))"
  shows "dirtyTUs stat m current =
     (map (\<lambda>cur. \<not> unchanged stat deps (smFiles m) cur) current,
      length (filter (\<lambda>cur. cur \<in> set (smFiles m) \<and> \<not> unchanged stat deps (smFiles m) cur) current))"
  using tu_dirty_records[OF assms, of stat]
  by (simp add: dirtyTUs_def Let_def comp_def filter_map)

lemma dependenciesOf_at:
  assumes d: "distinct (map stPath (smFiles m))" and len: "length (smTuDeps m) = length (smFiles m)" and k: "k < length (smFiles m)"
  shows "map_of (dependenciesOf m) (stPath (smFiles m ! k))
     = Some (map (\<lambda>i. smDeps m ! unat i) (filter (\<lambda>i. unat i < length (smDeps m)) (smTuDeps m ! k)))"
proof -
  let ?row = "\<lambda>i. map (\<lambda>k. smDeps m ! unat k) (filter (\<lambda>k. unat k < length (smDeps m)) (smTuDeps m ! i))"
  let ?f = "\<lambda>i out. let path = stPath (smFiles m ! i) in AList.update path (ulist out path @ ?row i) out"
  have "map_of (fold ?f [0..<n] []) (stPath (smFiles m ! k)) = (if k < n then Some (?row k) else None)"
    if "n \<le> length (smFiles m)" for n
    using that
  proof (induction n)
    case (Suc n)
    have "stPath (smFiles m ! k) = stPath (smFiles m ! n) \<longleftrightarrow> k = n"
      using nth_eq_iff_index_eq[OF d, of k n] k Suc.prems by simp
    then show ?case using Suc by (auto simp: umap_simps ulist_def Let_def)
  qed simp
  from this[of "length (smFiles m)"] k show ?thesis by (simp add: dependenciesOf_def len)
qed

lemma dependenciesOf_records:
  assumes r: "records deps m" and d: "distinct (map stPath (smFiles m))" and f: "f \<in> set (smFiles m)"
  shows "map_of (dependenciesOf m) (stPath f)
     = Some (map (\<lambda>x. the (oldest (all_deps deps (smFiles m)) (stPath x))) (deps_of deps f))"
proof -
  obtain k where k: "k < length (smFiles m)" "smFiles m ! k = f" using f by (auto simp: in_set_conv_nth)
  have "list_all2 (\<lambda>k d. unat k < length (smDeps m) \<and> oldest (all_deps deps (smFiles m)) (stPath d) = Some (smDeps m ! unat k))
      (smTuDeps m ! k) (deps_of deps f)" using r k by (auto simp: records_def)
  then have "map (\<lambda>i. smDeps m ! unat i) (filter (\<lambda>i. unat i < length (smDeps m)) (smTuDeps m ! k))
      = map (\<lambda>x. the (oldest (all_deps deps (smFiles m)) (stPath x))) (deps_of deps f)"
    by (induction rule: list_all2_induct) auto
  then show ?thesis using dependenciesOf_at[OF d _ k(1)] r k(2) by (simp add: records_def)
qed

lemma settled_records: "records deps m \<Longrightarrow> settled_meta m = m"
proof -
  assume "records deps m"
  then have n: "length (smTuDeps m) = length (smFiles m)" by (simp add: records_def)
  have "map (tu_dep_ids m) [0..<length (smTuDeps m)] = smTuDeps m"
    by (rule nth_equalityI) (simp_all add: tu_dep_ids_def)
  then show ?thesis by (simp add: settled_meta_def n[symmetric])
qed

end
