(* ===== verification/SnapshotProps.thy ===== *)
theory SnapshotProps
  imports SnapshotSpec SnapshotDeps ControlFlowProps
begin

text \<open>
  Properties of snapshots: a saved index is loaded as it was, whatever part of it is asked for and in
  either mode; a torn or foreign file is rejected; a save that fails leaves the old file; the units a
  warm start parses again are the changed ones, and taking them out of the loaded indexes has the
  effect it has on the indexes that were saved.
\<close>

subsection \<open>Loading what was saved\<close>

definition snapshot_fits :: "CallGraph \<Rightarrow> ControlFlowIndex \<Rightarrow> SnapshotMeta \<Rightarrow> ChannelIndex \<Rightarrow> bool" where
  \<comment> \<open>counts and lengths fit 32 bits, the file 64\<close>
  "snapshot_fits g cf m ch \<longleftrightarrow>
     graph_fits g \<and> flow_fits cf \<and> meta_fits m \<and> channels_fit ch \<and> length (emit_snapshot g cf m ch) < 2 ^ 64"

definition loaded_data :: "LoadMode \<Rightarrow> 32 word \<Rightarrow> CallGraph \<Rightarrow> ControlFlowIndex \<Rightarrow> SnapshotMeta \<Rightarrow> ChannelIndex \<Rightarrow> SnapshotData" where
  "loaded_data mode needs g cf m ch =
     \<lparr>sdGraph = (if wants needs kSectionGraph then reload_graph (mode = Mutable) g else empty_graph),
      sdFlow = (if wants needs kSectionControlFlow then reload_flow (mode = Mutable) cf else empty_index),
      sdChannels = (if wants needs kSectionChannels then reload_channels (mode = Mutable) ch else empty_channels),
      sdMeta = settled_meta m, sdSummary = counts_of g cf ch,
      sdLoaded = (if wants needs kSectionGraph then kSectionGraph else 0)
        OR (if wants needs kSectionControlFlow then kSectionControlFlow else 0)
        OR (if wants needs kSectionChannels then kSectionChannels else 0)\<rparr>"

lemma load_saved:
  assumes g: "built g" and cf: "cf_built cf" and ch: "ch_built ch" and fits: "snapshot_fits g cf m ch"
  shows "load_bytes mode needs (emit_snapshot g cf m ch) = Loaded (loaded_data mode needs g cf m ch)"
proof -
  define secs where "secs = [emitMeta m [], emit_graph g [], emit_flow cf [], emit_channels ch []]"
  let ?file = "w_head (counts_of g cf ch) secs @ concat secs"
  let ?rs = "map (\<lambda>kd. Some (word_of_nat (section_offset secs kd), word_of_nat (length (secs ! kd)))) [0, 1, 2, 3] :: Range option list"
  have whole: "emit_snapshot g cf m ch = ?file" by (simp add: emit_snapshot_w secs_def Let_def)
  have len: "length secs = 4" by (simp add: secs_def)
  have total: "section_offset secs 4 < 2 ^ 64" "section_offset secs 4 = kHeaderBytes + length (concat secs)"
    using fits section_end[of secs] by (simp_all add: snapshot_fits_def whole len)
  have head: "read_header ?file = Some (counts_of g cf ch, ?rs)"
    using read_header_at[OF len total(1), of "concat secs" "counts_of g cf ch"] total by simp
  note B = begin_section_at[OF len total(1), of _ "counts_of g cf ch"]
  have sec: "begin_section ?file ?rs kMetaKind = reader_at [] (emitMeta m [] @ [])"
    "begin_section ?file ?rs kGraphKind = reader_at [] (emit_graph g [] @ [])"
    "begin_section ?file ?rs kControlFlowKind = reader_at [] (w_flow cf @ [])"
    "begin_section ?file ?rs kChannelsKind = reader_at [] (wItems (w_site ch) (live_sites ch) @ [])"
    using B[of 0] B[of 1] B[of 2] B[of 3] emit_flow_w[of cf "[]"] cf_built_inv[OF cf] emit_channels_w[OF ch_built_inv[OF ch], of "[]"]
    by (simp_all only: kMetaKind_def kGraphKind_def kControlFlowKind_def kChannelsKind_def)
      (simp_all add: secs_def cf_inv_def maps_ok_def)
  have F: "meta_fits m" "graph_fits g" "flow_fits cf" "channels_fit ch" using fits by (simp_all add: snapshot_fits_def)
  note R = readMeta_at[OF F(1), of "[]" "[]"] load_graph_at[OF built_invariant[OF g] F(2), of _ "[]" "[]"]
    load_flow_at[OF cf_built_inv[OF cf] F(3), of _ "[]" "[]"] load_channels_at[OF ch_built_inv[OF ch] F(4), of _ "[]" "[]"]
  have parts: "load_parts ?file ?rs mut needs =
     Some (settled_meta m, \<lparr>glGraph = (if wants needs kSectionGraph then reload_graph mut g else empty_graph), glNamed = True\<rparr>,
       \<lparr>flIndex = (if wants needs kSectionControlFlow then reload_flow mut cf else empty_index), flNamed = True\<rparr>,
       \<lparr>clIndex = (if wants needs kSectionChannels then reload_channels mut ch else empty_channels), clNamed = True\<rparr>)" for mut
    unfolding load_parts_def sec R by (simp split: prod.split)
  show ?thesis unfolding whole load_bytes_def head option.case prod.case parts loaded_data_def by simp
qed

lemma reloaded_graph: "built g \<Longrightarrow> same_graph (reload_graph True g) g"
  by (rule reload_same[OF built_invariant])

lemma warm_parts:
  assumes g: "built g" and cf: "cf_built cf" and ch: "ch_built ch"
  shows "edge_refs (snd (removeTUs ts (reload_graph True g))) k = edge_refs (snd (removeTUs ts g)) k"
    and "tu_edge_refs (snd (removeTUs ts (reload_graph True g))) t k = tu_edge_refs (snd (removeTUs ts g)) t k"
    and "allContexts (snd (removeContexts ts (reload_flow True cf))) = allContexts (snd (removeContexts ts cf))"
    and "site_refs (snd (removeSites ts (reload_channels True ch))) sk = site_refs (snd (removeSites ts ch)) sk"
    and "tu_site_refs (snd (removeSites ts (reload_channels True ch))) t sk = tu_site_refs (snd (removeSites ts ch)) t sk"
proof -
  note S = reloaded_graph[OF g] and W = built_invariant[OF g]
  note Q = same_graph_queries(7,8)[OF S W]
  have H: "wf_graph (reload_graph True g)" using S by (simp add: same_graph_def)
  show "edge_refs (snd (removeTUs ts (reload_graph True g))) k = edge_refs (snd (removeTUs ts g)) k"
    "tu_edge_refs (snd (removeTUs ts (reload_graph True g))) t k = tu_edge_refs (snd (removeTUs ts g)) t k"
    by (simp_all add: removeTUs_laws[OF H] removeTUs_laws[OF W] Q)
  note F = reload_flow_spec[OF cf_built_inv[OF cf]]
  show "allContexts (snd (removeContexts ts (reload_flow True cf))) = allContexts (snd (removeContexts ts cf))"
    by (simp add: removeContexts_spec(2)[OF F(1)] removeContexts_spec(2)[OF cf_built_inv[OF cf]] F(2))
  note C = ch_built_inv[OF ch]
  note R = reload_channels_spec[OF C]
  show "site_refs (snd (removeSites ts (reload_channels True ch))) sk = site_refs (snd (removeSites ts ch)) sk"
    "tu_site_refs (snd (removeSites ts (reload_channels True ch))) t sk = tu_site_refs (snd (removeSites ts ch)) t sk"
    by (simp_all add: removeSites_spec[OF R(1)] removeSites_spec[OF C] R(3,4))
qed

lemma channel_readonly_queries:
  "producersOf (c\<lparr>chByTu := x\<rparr>) = producersOf c" "consumersOf (c\<lparr>chByTu := x\<rparr>) = consumersOf c"
  "sitesForFunction (c\<lparr>chByTu := x\<rparr>) = sitesForFunction c" "allSites (c\<lparr>chByTu := x\<rparr>) = allSites c"
proof -
  have c: "collect_sites (c\<lparr>chByTu := x\<rparr>) = collect_sites c" by (simp add: collect_sites_def fun_eq_iff cong: if_cong)
  show "producersOf (c\<lparr>chByTu := x\<rparr>) = producersOf c" "consumersOf (c\<lparr>chByTu := x\<rparr>) = consumersOf c"
    "sitesForFunction (c\<lparr>chByTu := x\<rparr>) = sitesForFunction c" "allSites (c\<lparr>chByTu := x\<rparr>) = allSites c"
    by (simp_all add: fun_eq_iff producersOf_def consumersOf_def sitesForFunction_def allSites_def c cong: option.case_cong)
qed

lemma mode_parts:
  "reload_graph (mode = Mutable) g = (if mode = Mutable then reload_graph True g else without_provenance (reload_graph True g))"
  "reload_flow (mode = Mutable) cf = (if mode = Mutable then reload_flow True cf else without_units (reload_flow True cf))"
  "reload_channels (mode = Mutable) ch = (if mode = Mutable then reload_channels True ch else (reload_channels True ch)\<lparr>chByTu := []\<rparr>)"
  by (cases mode; simp add: reload_readonly reload_flow_readonly reload_channels_readonly)+

subsection \<open>A small index\<close>

definition demo_meta :: SnapshotMeta where
  "demo_meta = empty_meta\<lparr>smCollapsePaths := [''third_party''], smEntryPoints := [''main''],
     smFiles := [\<lparr>stPath = ''m.cpp'', stMtime = 5000000007, stSize = 40\<rparr>]\<rparr>"

lemma demo_value:
  "demo =
     \<lparr>cgInterner = \<lparr>strings = [''u:f'', ''A::f'', ''a.cpp'', ''u:g'', ''B::f'', ''b.cpp'',
     ''u:main'', ''m.cpp:7'', ''m.cpp''], index = [(''u:f'', word_of_nat 0), (''A::f'', word_of_nat 1),
     (''a.cpp'', word_of_nat 2), (''u:g'', word_of_nat 3), (''B::f'', word_of_nat 4), (''b.cpp'',
     word_of_nat 5), (''u:main'', word_of_nat 6), (''m.cpp:7'', word_of_nat 7), (''m.cpp'',
     word_of_nat 8)]\<rparr>, nodes = [(word_of_nat 0, \<lparr>qualifiedName = ''A::f'', nodeFile = ''a.cpp'',
     nodeLine = 3, isEntryPoint = False, isVirtual = True, enclosingClass = ''A'', usr = ''u:f''\<rparr>),
     (word_of_nat 3, \<lparr>qualifiedName = ''B::f'', nodeFile = ''a.cpp'', nodeLine = 3,
     isEntryPoint = False, isVirtual = True, enclosingClass = ''A'', usr = ''u:g''\<rparr>)],
     byName = [(word_of_nat 1, [word_of_nat 0]), (word_of_nat 4, [word_of_nat 3])],
     edges = [\<lparr>seCaller = word_of_nat 6, seCallee = word_of_nat 0, seCallSite = word_of_nat 7,
     seKind = VirtualDispatch, seConfidence = Plausible, seExecContext = Synchronous, seDepth = 0,
     refs = 1\<rparr>], edgeIndex = [((word_of_nat 6, word_of_nat 0, word_of_nat 7, VirtualDispatch,
     Plausible, Synchronous, 0), 0)], outEdges = [(word_of_nat 6, [0])], inEdges = [(word_of_nat 0, [0])],
     derivedClasses = [], methodOverrides = [(word_of_nat 0, [word_of_nat 3])],
     overrideBases = [(word_of_nat 3, [word_of_nat 0])], effectiveImplClasses = [], functionReturns = [],
     returnedBy = [], tuEdges = [(word_of_nat 8, [0])], nodeContributors = [(word_of_nat 0, [word_of_nat 2]),
     (word_of_nat 3, [word_of_nat 5])], tuNodes = [(word_of_nat 2, [word_of_nat 0]), (word_of_nat 5,
     [word_of_nat 3])], liveEdgeCount = 1\<rparr>"
  by code_simp

lemma demo_scan_value:
  "scan demo_log =
     \<lparr>cfInterner = \<lparr>strings = [''g'', ''f'', ''c:f'', ''a:3'', ''a'', ''std::lock_guard'', ''l'',
     ''a:1'', ''c:g'', ''b:7'', ''b''], index = [(''g'', word_of_nat 0), (''f'', word_of_nat 1), (''c:f'',
     word_of_nat 2), (''a:3'', word_of_nat 3), (''a'', word_of_nat 4), (''std::lock_guard'', word_of_nat 5),
     (''l'', word_of_nat 6), (''a:1'', word_of_nat 7), (''c:g'', word_of_nat 8), (''b:7'', word_of_nat 9),
     (''b'', word_of_nat 10)]\<rparr>, contexts = [\<lparr>scCaller = word_of_nat 2, scCallee = word_of_nat 0,
     scCallerDisplay = word_of_nat 1, scCalleeDisplay = word_of_nat 0, scSite = word_of_nat 3,
     scTuPath = word_of_nat 4, scScopeSet = word_of_nat 1, scGuardSet = word_of_nat 1,
     scRaiiSet = word_of_nat 1, scCallerNoexcept = NoSpec, scInsideCatchBlock = False, scLive = True\<rparr>,
     \<lparr>scCaller = word_of_nat 2, scCallee = word_of_nat 8, scCallerDisplay = word_of_nat 1,
     scCalleeDisplay = word_of_nat 0, scSite = word_of_nat 9, scTuPath = word_of_nat 10, scScopeSet = 0,
     scGuardSet = word_of_nat 1, scRaiiSet = word_of_nat 1, scCallerNoexcept = NoSpec,
     scInsideCatchBlock = False, scLive = True\<rparr>], scopeSets = [[], [\<lparr>tryLocation = ''a:2'',
     enclosingFunction = ''f'', handlers = [\<lparr>caughtType = ''E'', isCatchAll = False,
     handlerLocation = ''a:4'', bodySummary = []\<rparr>], nestingDepth = 0\<rparr>]], guardSets = [[],
     [\<lparr>conditionText = ''p'', guardLocation = ''a:1'', inTrueBranch = True,
     isAssertion = False\<rparr>]], raiiSets = [[], [\<lparr>srTypeName = word_of_nat 5,
     srVarName = word_of_nat 6, srDeclLocation = word_of_nat 7, srKind = Lock\<rparr>]],
     scopeSetIds = [([CHR 0x03, CHR 0x00, CHR 0x00, CHR 0x00, CHR ''a'', CHR '':'', CHR ''2'', CHR 0x01,
     CHR 0x00, CHR 0x00, CHR 0x00, CHR ''f'', CHR 0x00, CHR 0x00, CHR 0x00, CHR 0x00, CHR 0x01, CHR 0x00,
     CHR 0x00, CHR 0x00, CHR 0x01, CHR 0x00, CHR 0x00, CHR 0x00, CHR ''E'', CHR 0x00, CHR 0x03, CHR 0x00,
     CHR 0x00, CHR 0x00, CHR ''a'', CHR '':'', CHR ''4'', CHR 0x00, CHR 0x00, CHR 0x00, CHR 0x00],
     word_of_nat 1)], guardSetIds = [([CHR 0x01, CHR 0x00, CHR 0x00, CHR 0x00, CHR ''p'', CHR 0x03, CHR 0x00,
     CHR 0x00, CHR 0x00, CHR ''a'', CHR '':'', CHR ''1'', CHR 0x01, CHR 0x00], word_of_nat 1)],
     raiiSetIds = [([CHR 0x05, CHR 0x00, CHR 0x00, CHR 0x00, CHR 0x06, CHR 0x00, CHR 0x00, CHR 0x00, CHR 0x07,
     CHR 0x00, CHR 0x00, CHR 0x00, CHR 0x00], word_of_nat 1)], byCallee = [(word_of_nat 0, [0]),
     (word_of_nat 8, [1])], byCaller = [(word_of_nat 2, [0, 1])], byCalleeDisplay = [(word_of_nat 0, [1])],
     byCallerDisplay = [(word_of_nat 1, [0, 1])], bySite = [(word_of_nat 3, [0]), (word_of_nat 9, [1])],
     byTu = [(word_of_nat 4, [0]), (word_of_nat 10, [1])], noProvenance = [], liveCount = 2\<rparr>"
  by code_simp

lemma demo_sites_value:
  "register_sites demo_sites =
     \<lparr>sites = [\<lparr>site = \<lparr>channelId = ''q'', channelTypeName = ''Queue'', category = ''queue'',
     op = Produce, siteFunctionUsr = ''c:f'', siteFunctionDisplay = ''f'', chCallSite = ''h:3'',
     chEnclosingGuards = [], chTuPath = ''a''\<rparr>, siteRefs = 2, siteLive = True\<rparr>,
     \<lparr>site = \<lparr>channelId = ''q'', channelTypeName = ''Queue'', category = ''queue'',
     op = Consume, siteFunctionUsr = ''c:f'', siteFunctionDisplay = ''f'', chCallSite = ''b:9'',
     chEnclosingGuards = [], chTuPath = ''b''\<rparr>, siteRefs = 1, siteLive = True\<rparr>],
     siteIndex = [(SiteKey ''q'' ''h:3'' ''c:f'' Produce, 0), (SiteKey ''q'' ''b:9'' ''c:f'' Consume, 1)],
     byChannel = [(''q'', [0, 1])], byFunctionUsr = [(''c:f'', [0, 1])], byFunctionDisplay = [(''f'', [0,
     1])], chByTu = [(''a'', [0]), (''b'', [0, 1])], chLiveCount = 2\<rparr>"
  by code_simp

lemma demo_graph_fits: "graph_fits demo"
  by (simp add: demo_value graph_fits_def list_fits_def str_fits_def node_fits_def rel_pairs_def ulist_def)

lemma demo_flow_fits: "flow_fits (scan demo_log)"
  by (simp add: demo_scan_value flow_fits_def list_fits_def str_fits_def scope_fits_def handler_fits_def guard_fits_def)

lemma demo_channels_fit: "channels_fit (register_sites demo_sites)"
  by (simp add: demo_sites_value channels_fit_def live_sites_def upt_rec list_fits_def site_fits_def Let_def str_fits_def
      site_tus_def ulist_invert_units)

lemma demo_meta_fits: "meta_fits demo_meta"
  by (simp add: demo_meta_def empty_meta_def meta_fits_def list_fits_def str_fits_def stamp_fits_def)

lemma length_wItems: "length (wItems w xs) = 4 + (\<Sum>x \<leftarrow> xs. length (w x))"
  by (simp add: wItems_def length_concat comp_def)

lemma demo_parts_length:
  "length (emit_graph demo []) < 1000" "length (emit_flow (scan demo_log) []) < 1000"
  "length (emit_channels (register_sites demo_sites) []) < 1000"
proof -
  show "length (emit_graph demo []) < 1000"
    unfolding emit_graph_w[OF wf_graphD(2)[OF built_invariant[OF built_demo]]]
    by (simp add: demo_value snStrings.wList_split put_w length_wItems w_node_def w_edge_def w_pair_def Let_def
        live_indices_def upt_rec edge_tus_def ulist_invert_units rel_pairs_def) (simp add: ulist_def)
  have live: "liveCount (scan demo_log) = length (filter scLive (contexts (scan demo_log)))"
    by (simp add: demo_scan_value)
  show "length (emit_flow (scan demo_log) []) < 1000"
    unfolding emit_flow_w[OF live]
    by (simp add: demo_scan_value w_flow_def snStrings.wList_split snScopeSets.wList_split snGuardSets.wList_split putList_def
        emit_scope_def emit_guard_def emit_handler_def emit_flag_def put_w length_wItems w_local_def w_context_def)
  show "length (emit_channels (register_sites demo_sites) []) < 1000"
    unfolding emit_channels_w[OF ch_built_inv[OF built_register]]
    by (simp add: demo_sites_value live_sites_def upt_rec length_wItems w_site_def Let_def snStrings.wList_split
        snGuards.wList_split put_w site_tus_def ulist_invert_units)
qed

lemma demo_length: "length (emit_snapshot demo (scan demo_log) demo_meta (register_sites demo_sites)) < 2 ^ 64"
proof -
  have m: "length (emitMeta demo_meta []) < 1000"
    by (simp add: demo_meta_def empty_meta_def emitMeta_def meta_puts snStrings.wList_split fileStamps.wList_split
        channelSpecs.wList_split emitFileStamp_def tu_dep_ids_def snIds.wList_split)
  show ?thesis using demo_parts_length m by (simp add: emit_snapshot_w Let_def kHeaderBytes_def)
qed

lemma demo_fits: "snapshot_fits demo (scan demo_log) demo_meta (register_sites demo_sites)"
  by (simp only: snapshot_fits_def demo_graph_fits demo_flow_fits demo_meta_fits demo_channels_fit demo_length simp_thms)

subsection \<open>Properties\<close>

text \<open>C17: A saved index is loaded as it was: the meta section and the counts, a graph with the same nodes,
  live edges, relations and registration counts, the same contexts in the same order, and the same
  channel sites with their counts per unit (the unit noted inside a site may be another contributor);
  the loaded parts satisfy their invariants.\<close>

theorem snapshot_roundtrip:
  assumes "built g" and "cf_built cf" and "ch_built ch" and "snapshot_fits g cf m ch"
  shows "\<exists>d. load_bytes Mutable kSectionAll (emit_snapshot g cf m ch) = Loaded d
     \<and> sdMeta d = settled_meta m \<and> sdSummary d = counts_of g cf ch \<and> sdLoaded d = kSectionAll
     \<and> same_graph (sdGraph d) g
     \<and> cf_inv (sdFlow d) \<and> allContexts (sdFlow d) = allContexts cf
     \<and> ch_inv (sdChannels d) \<and> map untagged (allSites (sdChannels d)) = map untagged (allSites ch)
     \<and> (\<forall>t k. site_refs (sdChannels d) k = site_refs ch k \<and> tu_site_refs (sdChannels d) t k = tu_site_refs ch t k)"
proof -
  have w: "wants kSectionAll kSectionGraph" "wants kSectionAll kSectionControlFlow" "wants kSectionAll kSectionChannels"
    "kSectionGraph OR kSectionControlFlow OR kSectionChannels = kSectionAll"
    by (simp_all add: wants_def kSectionAll_def kSectionGraph_def kSectionControlFlow_def kSectionChannels_def)
  show ?thesis
    by (rule exI[of _ "loaded_data Mutable kSectionAll g cf m ch"])
      (simp add: load_saved[OF assms] loaded_data_def w reloaded_graph[OF assms(1)] reload_flow_spec[OF cf_built_inv[OF assms(2)]]
        reload_channels_spec[OF ch_built_inv[OF assms(3)]])
qed

theorem snapshot_roundtrip_witness:
  "\<exists>d. load_bytes Mutable kSectionAll (emit_snapshot demo (scan demo_log) demo_meta (register_sites demo_sites)) = Loaded d
     \<and> allContexts (sdFlow d) = allContexts (scan demo_log)"
  using snapshot_roundtrip[OF built_demo built_demo_scan(1) built_register demo_fits] by blast

lemma map_untagged_filter:
  assumes "map untagged xs = map untagged ys" and "\<And>s. P (untagged s) = P s"
  shows "map untagged (filter P xs) = map untagged (filter P ys)"
proof -
  have "map untagged (filter P zs) = filter P (map untagged zs)" for zs
    using assms(2) by (simp add: filter_map comp_def)
  then show ?thesis using assms(1) by simp
qed

lemma reloaded_channel_queries:
  assumes "ch_built ch"
  shows "map untagged (producersOf (reload_channels True ch) n) = map untagged (producersOf ch n)"
    and "map untagged (consumersOf (reload_channels True ch) n) = map untagged (consumersOf ch n)"
    and "map untagged (sitesForFunction (reload_channels True ch) n) = map untagged (sitesForFunction ch n)"
proof -
  note inv = ch_built_inv[OF assms]
  note R = reload_channels_spec[OF inv]
  note Q = queries_spec(1-3)[OF R(1)] queries_spec(1-3)[OF inv]
  note F = map_untagged_filter[OF R(2)]
  show "map untagged (producersOf (reload_channels True ch) n) = map untagged (producersOf ch n)"
    "map untagged (consumersOf (reload_channels True ch) n) = map untagged (consumersOf ch n)"
    unfolding Q by (rule F, simp add: untagged_def)+
  show "map untagged (sitesForFunction (reload_channels True ch) n) = map untagged (sitesForFunction ch n)"
    unfolding Q map_append by (rule arg_cong2[of _ _ _ _ "(@)"]) (rule F, simp add: untagged_def)+
qed

lemma reloaded_flow_queries:
  assumes "cf_built cf"
  shows "contextsForCallee (reload_flow True cf) n = contextsForCallee (compactIndex cf) n"
    and "contextsForCaller (reload_flow True cf) n = contextsForCaller (compactIndex cf) n"
    and "protectedCallsTo (reload_flow True cf) n = protectedCallsTo (compactIndex cf) n"
    and "contextsAtSite (reload_flow True cf) n = contextsAtSite cf n"
    and "contextAtSiteFor (reload_flow True cf) n c = contextAtSiteFor cf n c"
proof -
  note inv = cf_built_inv[OF assms]
  note R = reload_flow_spec[OF inv] and K = compactIndex_spec[OF inv]
  note Q = name_queries[OF R(1,3)] name_queries[OF K(1,3)]
  show c: "contextsForCallee (reload_flow True cf) n = contextsForCallee (compactIndex cf) n"
    "contextsForCaller (reload_flow True cf) n = contextsForCaller (compactIndex cf) n" by (simp_all add: Q R(2) K(2))
  show "protectedCallsTo (reload_flow True cf) n = protectedCallsTo (compactIndex cf) n"
    by (simp only: Q(3,7) c)
  show "contextsAtSite (reload_flow True cf) n = contextsAtSite cf n"
    "contextAtSiteFor (reload_flow True cf) n c = contextAtSiteFor cf n c"
    by (simp_all add: site_queries[OF R(1)] site_queries[OF inv] R(2))
qed

text \<open>C18: Whatever sections a load asks for, and in either mode, every section it did ask for answers the
  queries as the saved index did: the same callees, callers, USRs of a name and nodes, the contexts of the
  compacted control flow index, the same channel sites.\<close>

theorem snapshot_queries:
  assumes "built g" and "cf_built cf" and "ch_built ch" and "snapshot_fits g cf m ch"
  shows "\<exists>d. load_bytes mode needs (emit_snapshot g cf m ch) = Loaded d
     \<and> (wants needs kSectionGraph \<longrightarrow>
          call_triple ` set (calleesOf (sdGraph d) n) = call_triple ` set (calleesOf g n)
          \<and> call_triple ` set (callersOf (sdGraph d) n) = call_triple ` set (callersOf g n)
          \<and> set (usrsForName (sdGraph d) n) = set (usrsForName g n) \<and> allNodes (sdGraph d) = allNodes g)
     \<and> (wants needs kSectionControlFlow \<longrightarrow>
          contextsForCallee (sdFlow d) n = contextsForCallee (compactIndex cf) n
          \<and> contextsForCaller (sdFlow d) n = contextsForCaller (compactIndex cf) n
          \<and> protectedCallsTo (sdFlow d) n = protectedCallsTo (compactIndex cf) n
          \<and> contextsAtSite (sdFlow d) n = contextsAtSite cf n \<and> contextAtSiteFor (sdFlow d) n c = contextAtSiteFor cf n c)
     \<and> (wants needs kSectionChannels \<longrightarrow>
          map untagged (producersOf (sdChannels d) n) = map untagged (producersOf ch n)
          \<and> map untagged (consumersOf (sdChannels d) n) = map untagged (consumersOf ch n)
          \<and> map untagged (sitesForFunction (sdChannels d) n) = map untagged (sitesForFunction ch n))"
proof -
  let ?d = "loaded_data mode needs g cf m ch"
  note S = reloaded_graph[OF assms(1)]
  note G = same_graph_queries(3-5)[OF S built_invariant[OF assms(1)]]
  have nodes: "allNodes (reload_graph True g) = allNodes g" using S by (simp add: same_graph_def allNodes_def)
  have d: "wants needs kSectionGraph \<Longrightarrow> sdGraph ?d = reload_graph (mode = Mutable) g"
    "wants needs kSectionControlFlow \<Longrightarrow> sdFlow ?d = reload_flow (mode = Mutable) cf"
    "wants needs kSectionChannels \<Longrightarrow> sdChannels ?d = reload_channels (mode = Mutable) ch" by (simp_all add: loaded_data_def)
  show ?thesis
    by (rule exI[of _ ?d])
      (simp add: load_saved[OF assms] d mode_parts G nodes readonly_queries without_units_queries
        reloaded_flow_queries[OF assms(2)] channel_readonly_queries reloaded_channel_queries[OF assms(3)])
qed

theorem snapshot_queries_witness:
  "\<exists>d. load_bytes ReadOnly kSectionControlFlow (emit_snapshot demo (scan demo_log) demo_meta (register_sites demo_sites)) = Loaded d
     \<and> contextsForCallee (sdFlow d) ''g'' = contextsForCallee (compactIndex (scan demo_log)) ''g''"
proof -
  have "wants kSectionControlFlow kSectionControlFlow" by (simp add: wants_def kSectionControlFlow_def)
  then show ?thesis
    using snapshot_queries[OF built_demo built_demo_scan(1) built_register demo_fits, of ReadOnly kSectionControlFlow "''g''"]
    by blast
qed

text \<open>C19: An incremental warm start: taking units out of the loaded indexes leaves the registration counts
  of edges and sites, per unit and in total, and the contexts that taking them out of the saved indexes
  leaves.\<close>

theorem warm_start:
  assumes "built g" and "cf_built cf" and "ch_built ch" and "snapshot_fits g cf m ch"
  shows "\<exists>d. load_bytes Mutable kSectionAll (emit_snapshot g cf m ch) = Loaded d
     \<and> (\<forall>t k. edge_refs (snd (removeTUs ts (sdGraph d))) k = edge_refs (snd (removeTUs ts g)) k
            \<and> tu_edge_refs (snd (removeTUs ts (sdGraph d))) t k = tu_edge_refs (snd (removeTUs ts g)) t k)
     \<and> allContexts (snd (removeContexts ts (sdFlow d))) = allContexts (snd (removeContexts ts cf))
     \<and> (\<forall>t k. site_refs (snd (removeSites ts (sdChannels d))) k = site_refs (snd (removeSites ts ch)) k
            \<and> tu_site_refs (snd (removeSites ts (sdChannels d))) t k = tu_site_refs (snd (removeSites ts ch)) t k)"
proof -
  have w: "wants kSectionAll kSectionGraph" "wants kSectionAll kSectionControlFlow" "wants kSectionAll kSectionChannels"
    by (simp_all add: wants_def kSectionAll_def kSectionGraph_def kSectionControlFlow_def kSectionChannels_def)
  show ?thesis
    by (rule exI[of _ "loaded_data Mutable kSectionAll g cf m ch"])
      (simp add: load_saved[OF assms] loaded_data_def w warm_parts[OF assms(1-3)])
qed

theorem warm_start_witness:
  "\<exists>d. load_bytes Mutable kSectionAll (emit_snapshot demo (scan demo_log) demo_meta (register_sites demo_sites)) = Loaded d
     \<and> allContexts (snd (removeContexts [''a''] (sdFlow d))) = allContexts (snd (removeContexts [''a''] (scan demo_log)))"
  using warm_start[OF built_demo built_demo_scan(1) built_register demo_fits, of "[''a'']"] by blast

lemma torn_rejected:
  assumes "length (emit_snapshot g cf m ch) < 2 ^ 64" and n: "n < length (emit_snapshot g cf m ch)"
  shows "load_bytes mode needs (take n (emit_snapshot g cf m ch)) = Rejected"
proof -
  define secs where "secs = [emitMeta m [], emit_graph g [], emit_flow cf [], emit_channels ch []]"
  let ?h = "w_head (counts_of g cf ch) secs"
  have whole: "emit_snapshot g cf m ch = ?h @ concat secs" by (simp add: emit_snapshot_w secs_def Let_def)
  have len: "length secs = 4" by (simp add: secs_def)
  have total: "section_offset secs 4 = kHeaderBytes + length (concat secs)" using section_end[of secs] by (simp add: len)
  have "read_header (take n (?h @ concat secs)) = None"
  proof (cases "n < kHeaderBytes")
    case True
    then have "length (take n (?h @ concat secs)) < kHeaderBytes" by simp
    then show ?thesis using read_header_needs(1) by (metis leD not_Some_eq)
  next
    case False
    let ?b = "take (n - kHeaderBytes) (concat secs)"
    have "n < kHeaderBytes + length (concat secs)" using n by (simp add: whole)
    then have b: "\<not> section_offset secs 4 \<le> kHeaderBytes + length ?b" "kHeaderBytes + length ?b < 2 ^ 64"
      using False total assms(1) by (auto simp: whole)
    have "take n (?h @ concat secs) = ?h @ ?b" using False by simp
    moreover have "section_offset secs 4 < 2 ^ 64" using assms(1) total by (simp add: whole)
    ultimately show ?thesis using read_header_at[OF len _ b(2), of "counts_of g cf ch"] b(1) by simp
  qed
  then show ?thesis by (simp add: load_bytes_def whole)
qed

text \<open>C20: What is not a whole snapshot of this format is rejected: every proper prefix of a saved file,
  whatever the load asks for, and every file that does not start with the magic bytes and the format
  version or is shorter than the header.\<close>

theorem bad_files_rejected:
  assumes "length (emit_snapshot g cf m ch) < 2 ^ 64"
  shows "(n < length (emit_snapshot g cf m ch) \<longrightarrow> load_bytes mode needs (take n (emit_snapshot g cf m ch)) = Rejected)
     \<and> (take 4 bytes \<noteq> kSnapshotMagic \<or> fst (snU32 (snd (snBytes 4 (newReader bytes)))) \<noteq> kFormatVersion
          \<or> length bytes < kHeaderBytes \<longrightarrow> load_bytes mode needs bytes = Rejected)"
proof (intro conjI impI)
  show "load_bytes mode needs (take n (emit_snapshot g cf m ch)) = Rejected" if "n < length (emit_snapshot g cf m ch)"
    by (rule torn_rejected[OF assms that])
  assume bad: "take 4 bytes \<noteq> kSnapshotMagic \<or> fst (snU32 (snd (snBytes 4 (newReader bytes)))) \<noteq> kFormatVersion
          \<or> length bytes < kHeaderBytes"
  have "read_header bytes = None"
  proof (rule ccontr)
    assume "read_header bytes \<noteq> None"
    then obtain x where "read_header bytes = Some x" by blast
    from read_header_needs[OF this] bad show False by simp
  qed
  then show "load_bytes mode needs bytes = Rejected" by (simp add: load_bytes_def)
qed

theorem bad_files_rejected_witness:
  "load_bytes Mutable 0 (take 112 (emit_snapshot demo (scan demo_log) demo_meta (register_sites demo_sites))) = Rejected
   \<and> load_bytes ReadOnly kSectionAll ''VYCS'' = Rejected"
proof -
  have n: "112 < length (emit_snapshot demo (scan demo_log) demo_meta (register_sites demo_sites))"
    by (simp add: emit_snapshot_w Let_def kHeaderBytes_def emitMeta_def demo_meta_def empty_meta_def meta_puts)
  have h: "length ''VYCS'' < kHeaderBytes" by (simp add: kHeaderBytes_def)
  show ?thesis
    using bad_files_rejected[OF demo_length, of 112 Mutable 0 "''VYCS''"]
      bad_files_rejected[OF demo_length, of 0 ReadOnly kSectionAll "''VYCS''"] n h by blast
qed

text \<open>A save that fails, at whatever step, leaves the file under the final name as it was.\<close>

lemma failed_save_keeps:
  "map_of (snd (save_snapshot fault path g cf m ch fs)) path
     = (if fst (save_snapshot fault path g cf m ch fs) then Some (emit_snapshot g cf m ch) else map_of fs path)"
  by (cases fault) (simp_all add: save_snapshot_def Let_def umap_simps)

text \<open>C21: After a bake has recorded the stamps its units saw, a unit is parsed again exactly when it is
  not recorded with its present stamp or some file it opened is not, at whole-second resolution, the
  oldest version that any unit saw; the count is that of the recorded units among them.  Reading the
  dependencies back gives every unit its own list, each stamp replaced by the oldest one.  A load does
  not change these tables.\<close>

theorem dirty_units:
  assumes "distinct (map stPath (smFiles m))" and "length (all_deps deps (smFiles m)) \<le> 2 ^ 32"
  shows "settled_meta (recordDependencies deps m) = recordDependencies deps m
     \<and> dirtyTUs stat (recordDependencies deps m) current =
         (map (\<lambda>cur. \<not> unchanged stat deps (smFiles m) cur) current,
          length (filter (\<lambda>cur. cur \<in> set (smFiles m) \<and> \<not> unchanged stat deps (smFiles m) cur) current))
     \<and> (\<forall>f \<in> set (smFiles m). map_of (dependenciesOf (recordDependencies deps m)) (stPath f)
          = Some (map (\<lambda>d. the (oldest (all_deps deps (smFiles m)) (stPath d))) (deps_of deps f)))"
proof -
  note R = recordDependencies_records[OF assms(2)]
  have d: "distinct (map stPath (smFiles (recordDependencies deps m)))" using assms(1) by (simp add: R(2))
  show ?thesis
    using settled_records[OF R(1)] dirtyTUs_records[OF R(1) d, of stat current] dependenciesOf_records[OF R(1) d]
    by (simp add: R(2))
qed

definition stamp :: "string \<Rightarrow> 64 word \<Rightarrow> FileStamp" where
  "stamp p m = \<lparr>stPath = p, stMtime = m, stSize = 9\<rparr>"

definition demo_bake :: SnapshotMeta where
  "demo_bake = empty_meta\<lparr>smFiles := [stamp ''a.cpp'' 7, stamp ''b.cpp'' 8]\<rparr>"

definition demo_deps :: TuDependencies where
  \<comment> \<open>the second unit saw a newer version of the header\<close>
  "demo_deps = [(''a.cpp'', [stamp ''h.h'' 1000000000]), (''b.cpp'', [stamp ''h.h'' 2000000000])]"

theorem dirty_units_witness:
  "dirtyTUs (\<lambda>_. Some (2000000005, 9)) (recordDependencies demo_deps demo_bake) [stamp ''a.cpp'' 7, stamp ''b.cpp'' 9]
     = ([True, True], 1)"
proof -
  have d: "distinct (map stPath (smFiles demo_bake))" by (simp add: demo_bake_def empty_meta_def stamp_def)
  have l: "length (all_deps demo_deps (smFiles demo_bake)) \<le> 2 ^ 32"
    by (simp add: demo_bake_def demo_deps_def empty_meta_def stamp_def all_deps_def deps_of_def)
  show ?thesis
    unfolding dirty_units[OF d l, THEN conjunct2, THEN conjunct1]
    by (simp add: demo_bake_def demo_deps_def empty_meta_def stamp_def unchanged_def all_deps_def deps_of_def oldest_def
        keep_oldest_def sameParsedVersion_def stamp_now_def stampFiles_def kNsPerSecond_def)
qed

text \<open>The older stamp hides the newer version: when the header is put back to the version that the first
  unit saw, the second unit is not parsed again although it was baked from the other version.\<close>

lemma older_stamp_hides_newer:
  "dirtyTUs (\<lambda>_. Some (1000000005, 9)) (recordDependencies demo_deps demo_bake) (smFiles demo_bake) = ([False, False], 0)"
  by code_simp

end
