(* ===== verification/QueryJson.thy ===== *)
theory QueryJson
  imports Render CallGraph
begin

text \<open>
  The JSON values the query tools exchange, and the result contract of
  include/vycor/query/Tools.h.  \<open>llvm::json::Object\<close> is an association list; \<open>obj[k] = v\<close> is
  \<^const>\<open>AList.update\<close>.  A number is \<open>JInt\<close> when it has an exact 64-bit value, which is when
  \<open>getInteger\<close> answers, and \<open>JReal\<close> with its spelling otherwise.
\<close>

datatype Json =
    JNull
  | JBool bool
  | JInt int
  | JReal string
  | JStr string
  | JArr "Json list"
  | JObj "(string \<times> Json) list"

type_synonym JsonObject = "(string, Json) umap"

definition getString :: "JsonObject \<Rightarrow> string \<Rightarrow> string option" where
  "getString args k = (case map_of args k of Some (JStr s) \<Rightarrow> Some s | _ \<Rightarrow> None)"

definition getInteger :: "JsonObject \<Rightarrow> string \<Rightarrow> int option" where
  "getInteger args k = (case map_of args k of Some (JInt i) \<Rightarrow> Some i | _ \<Rightarrow> None)"

definition getBoolean :: "JsonObject \<Rightarrow> string \<Rightarrow> bool option" where
  "getBoolean args k = (case map_of args k of Some (JBool b) \<Rightarrow> Some b | _ \<Rightarrow> None)"

definition getArray :: "JsonObject \<Rightarrow> string \<Rightarrow> Json list option" where
  "getArray args k = (case map_of args k of Some (JArr vs) \<Rightarrow> Some vs | _ \<Rightarrow> None)"

fun getAsString :: "Json \<Rightarrow> string option" where
  "getAsString (JStr s) = Some s"
| "getAsString _ = None"

fun getAsObject :: "Json \<Rightarrow> JsonObject option" where
  "getAsObject (JObj members) = Some members"
| "getAsObject _ = None"

definition jcount :: "'a list \<Rightarrow> Json" where
  \<comment> \<open>\<open>static_cast<int64_t>(xs.size())\<close>\<close>
  "jcount xs = JInt (int (length xs))"

definition string_items :: "JsonObject \<Rightarrow> string \<Rightarrow> string list" where
  \<comment> \<open>the loop over an array argument that keeps its strings\<close>
  "string_items args k =
     (case getArray args k of
        None \<Rightarrow> []
      | Some vs \<Rightarrow> fold (\<lambda>v acc. case getAsString v of Some s \<Rightarrow> acc @ [s] | None \<Rightarrow> acc) vs [])"

subsection \<open>The result contract\<close>

definition errorResult :: "string \<Rightarrow> Json" where
  "errorResult message = JObj [(''error'', JStr message)]"

definition errorMessage :: "Json \<Rightarrow> string option" where
  "errorMessage result =
     (case getAsObject result of None \<Rightarrow> None | Some obj \<Rightarrow> getString obj ''error'')"

definition isErrorResult :: "Json \<Rightarrow> bool" where
  "isErrorResult result = (errorMessage result \<noteq> None)"

definition isAmbiguousResult :: "Json \<Rightarrow> bool" where
  "isAmbiguousResult result =
     (case getAsObject result of
        None \<Rightarrow> False
      | Some obj \<Rightarrow> (case getBoolean obj ''ambiguous'' of Some b \<Rightarrow> b | None \<Rightarrow> False))"

named_theorems json_simps \<open>evaluation of the accessors\<close>

lemmas json_accessors [json_simps] =
  getString_def getInteger_def getBoolean_def getArray_def errorResult_def errorMessage_def
  isErrorResult_def isAmbiguousResult_def

lemma errorResult_contract [simp]:
  "errorMessage (errorResult m) = Some m" "isErrorResult (errorResult m)"
  "\<not> isAmbiguousResult (errorResult m)"
  by (simp_all add: json_simps)

lemma string_items_map_filter:
  "string_items args k =
     (case getArray args k of None \<Rightarrow> [] | Some vs \<Rightarrow> List.map_filter getAsString vs)"
proof -
  have "fold (\<lambda>v acc. case getAsString v of Some s \<Rightarrow> acc @ [s] | None \<Rightarrow> acc) vs acc =
      acc @ List.map_filter getAsString vs" for vs acc
    by (induction vs arbitrary: acc) (auto simp: List.map_filter_simps split: option.split)
  then show ?thesis by (simp add: string_items_def split: option.split)
qed

text \<open>What a client reads back from an answer.\<close>

definition jfield :: "Json \<Rightarrow> string \<Rightarrow> Json option" where
  "jfield v k = (case getAsObject v of None \<Rightarrow> None | Some obj \<Rightarrow> map_of obj k)"

definition jlist :: "Json \<Rightarrow> string \<Rightarrow> Json list" where
  "jlist v k = (case jfield v k of Some (JArr vs) \<Rightarrow> vs | _ \<Rightarrow> [])"

lemma jfield_obj [simp]: "jfield (JObj members) k = map_of members k"
  by (simp add: jfield_def)

end
