(* ===== verification/Extensions.thy ===== *)
theory Extensions
  imports Channel
begin

text \<open>
  \<open>ExtensionRegistry\<close> (include/vycor/ext/Extensions.h, src/ext/Extensions.cpp): the hooks an
  organization registers.  The process-wide instance is a value passed along; a check factory
  is the check it makes (\<open>None\<close> for a null pointer), of a type left open because a check is
  code outside the repository; \<open>llvm::Regex\<close> is a parameter that answers \<open>None\<close> for an
  invalid pattern and otherwise the matcher, which returns the whole match and the captured
  groups.
\<close>

record GuardAnnotation =
  annKind :: string
  annName :: string

type_synonym GuardClassifier = "ConditionalGuard \<Rightarrow> GuardAnnotation option"

type_synonym Regex = "string \<Rightarrow> (string \<Rightarrow> string list option) option"

record ('a, 'i) ExtensionRegistry =
  checkFactories :: "'a option list"
  indexCheckFactories :: "'i option list"
  lockTypes :: "string list"
  staticInitHazards :: "string list"
  channelTypes :: "ChannelTypeSpec list"
  classifiers :: "GuardClassifier list"
  checkGroups :: "(string, string list) umap"

definition empty_registry :: "('a, 'i) ExtensionRegistry" where
  "empty_registry = \<lparr>checkFactories = [], indexCheckFactories = [], lockTypes = [],
     staticInitHazards = [], channelTypes = [], classifiers = [], checkGroups = []\<rparr>"

subsection \<open>Registration\<close>

definition add_missing :: "'x list \<Rightarrow> 'x list \<Rightarrow> 'x list" where
  \<comment> \<open>\<open>for (auto &x : xs) if (find(v, x) == v.end()) v.push_back(x)\<close>\<close>
  "add_missing xs v = fold (\<lambda>x v. if x \<in> set v then v else v @ [x]) xs v"

definition addAnnealCheck :: "'a option \<Rightarrow> ('a, 'i) ExtensionRegistry \<Rightarrow> ('a, 'i) ExtensionRegistry" where
  "addAnnealCheck factory r = r\<lparr>checkFactories := checkFactories r @ [factory]\<rparr>"

definition addIndexCheck :: "'i option \<Rightarrow> ('a, 'i) ExtensionRegistry \<Rightarrow> ('a, 'i) ExtensionRegistry" where
  "addIndexCheck factory r = r\<lparr>indexCheckFactories := indexCheckFactories r @ [factory]\<rparr>"

definition addCheckGroup :: "string \<Rightarrow> string list \<Rightarrow> ('a, 'i) ExtensionRegistry \<Rightarrow> ('a, 'i) ExtensionRegistry" where
  "addCheckGroup grp checkNames r =
     r\<lparr>checkGroups := AList.update grp (add_missing checkNames (ulist (checkGroups r) grp)) (checkGroups r)\<rparr>"

definition addLockTypes :: "string list \<Rightarrow> ('a, 'i) ExtensionRegistry \<Rightarrow> ('a, 'i) ExtensionRegistry" where
  "addLockTypes qualifiedNames r = r\<lparr>lockTypes := add_missing qualifiedNames (lockTypes r)\<rparr>"

definition addChannelTypes :: "ChannelTypeSpec list \<Rightarrow> ('a, 'i) ExtensionRegistry \<Rightarrow> ('a, 'i) ExtensionRegistry" where
  "addChannelTypes specs r = r\<lparr>channelTypes := add_missing specs (channelTypes r)\<rparr>"

definition addGuardClassifier :: "GuardClassifier \<Rightarrow> ('a, 'i) ExtensionRegistry \<Rightarrow> ('a, 'i) ExtensionRegistry" where
  "addGuardClassifier c r = r\<lparr>classifiers := classifiers r @ [c]\<rparr>"

definition addStaticInitHazards :: "string list \<Rightarrow> ('a, 'i) ExtensionRegistry \<Rightarrow> ('a, 'i) ExtensionRegistry" where
  "addStaticInitHazards qualifiedNames r =
     r\<lparr>staticInitHazards := add_missing qualifiedNames (staticInitHazards r)\<rparr>"

definition flag_classifier :: "(string \<Rightarrow> string list option) \<Rightarrow> nat \<Rightarrow> GuardClassifier" where
  "flag_classifier regexMatch nameGroup g =
     (case regexMatch (conditionText g) of
        None \<Rightarrow> None
      | Some matches \<Rightarrow>
          Some \<lparr>annKind = ''feature-flag'',
                annName = (if nameGroup < length matches then matches ! nameGroup else matches ! 0)\<rparr>)"

definition addFeatureFlagPattern :: "Regex \<Rightarrow> string \<Rightarrow> nat \<Rightarrow> ('a, 'i) ExtensionRegistry \<Rightarrow>
    bool \<times> ('a, 'i) ExtensionRegistry" where
  "addFeatureFlagPattern regex pattern nameGroup r =
     (case regex pattern of
        None \<Rightarrow> (False, r)
      | Some m \<Rightarrow> (True, addGuardClassifier (flag_classifier m nameGroup) r))"

subsection \<open>Consumption\<close>

definition create_checks :: "('c \<Rightarrow> string) \<Rightarrow> 'c option list \<Rightarrow> string list \<Rightarrow> 'c list" where
  "create_checks checkName factories disabled =
     fold (\<lambda>factory checks. case factory of
               None \<Rightarrow> checks
             | Some check \<Rightarrow> if checkName check \<in> set disabled then checks else checks @ [check])
       factories []"

definition createAnnealChecks :: "('a \<Rightarrow> string) \<Rightarrow> ('a, 'i) ExtensionRegistry \<Rightarrow> string list \<Rightarrow> 'a list" where
  "createAnnealChecks checkName r disabled = create_checks checkName (checkFactories r) disabled"

definition createIndexChecks :: "('i \<Rightarrow> string) \<Rightarrow> ('a, 'i) ExtensionRegistry \<Rightarrow> string list \<Rightarrow> 'i list" where
  "createIndexChecks checkName r disabled = create_checks checkName (indexCheckFactories r) disabled"

definition allCheckNames :: "('a \<Rightarrow> string) \<Rightarrow> ('i \<Rightarrow> string) \<Rightarrow> ('a, 'i) ExtensionRegistry \<Rightarrow> string list" where
  "allCheckNames annealName indexName r =
     (let names = fold (\<lambda>factory names. case factory of None \<Rightarrow> names | Some c \<Rightarrow> names @ [annealName c])
                    (checkFactories r) []
      in fold (\<lambda>factory names. case factory of None \<Rightarrow> names | Some c \<Rightarrow> names @ [indexName c])
           (indexCheckFactories r) names)"

fun classify_with :: "GuardClassifier list \<Rightarrow> ConditionalGuard \<Rightarrow> GuardAnnotation option" where
  "classify_with [] g = None"
| "classify_with (c # cs) g = (case c g of Some ann \<Rightarrow> Some ann | None \<Rightarrow> classify_with cs g)"

definition classify :: "('a, 'i) ExtensionRegistry \<Rightarrow> ConditionalGuard \<Rightarrow> GuardAnnotation option" where
  "classify r g = classify_with (classifiers r) g"

definition clear_registry :: "('a, 'i) ExtensionRegistry \<Rightarrow> ('a, 'i) ExtensionRegistry" where
  "clear_registry r =
     r\<lparr>checkFactories := [], indexCheckFactories := [], lockTypes := [], staticInitHazards := [],
       channelTypes := [], classifiers := [], checkGroups := []\<rparr>"

subsection \<open>Laws of the registry\<close>

lemma add_missing_simps [simp]:
  "add_missing [] v = v"
  "add_missing (x # xs) v = add_missing xs (if x \<in> set v then v else v @ [x])"
  by (simp_all add: add_missing_def)

lemma set_add_missing [simp]: "set (add_missing xs v) = set v \<union> set xs"
  by (induction xs arbitrary: v) auto

lemma distinct_add_missing: "distinct v \<Longrightarrow> distinct (add_missing xs v)"
  by (induction xs arbitrary: v) auto

lemma add_missing_idem: "set xs \<subseteq> set v \<Longrightarrow> add_missing xs v = v"
  by (induction xs arbitrary: v) auto

lemma classify_with_append:
  "classify_with (cs @ ds) g = (case classify_with cs g of Some a \<Rightarrow> Some a | None \<Rightarrow> classify_with ds g)"
  by (induction cs) (auto split: option.split)

text \<open>Registering a classifier never changes the answer of the ones registered before it.\<close>

lemma classify_registered:
  "classify (addGuardClassifier c r) g = (case classify r g of Some a \<Rightarrow> Some a | None \<Rightarrow> c g)"
  by (simp add: classify_def addGuardClassifier_def classify_with_append split: option.split)

lemma create_checks_filter:
  "create_checks checkName factories disabled =
     filter (\<lambda>c. checkName c \<notin> set disabled) (List.map_filter (\<lambda>f. f) factories)"
proof -
  have "fold (\<lambda>factory checks. case factory of None \<Rightarrow> checks
      | Some check \<Rightarrow> if checkName check \<in> set disabled then checks else checks @ [check]) factories acc =
      acc @ filter (\<lambda>c. checkName c \<notin> set disabled) (List.map_filter (\<lambda>f. f) factories)" for acc
    by (induction factories arbitrary: acc) (auto simp: List.map_filter_simps split: option.split)
  then show ?thesis by (simp add: create_checks_def)
qed

lemma registered_lists_distinct:
  "distinct (lockTypes r) \<Longrightarrow> distinct (lockTypes (addLockTypes xs r))"
  "distinct (channelTypes r) \<Longrightarrow> distinct (channelTypes (addChannelTypes specs r))"
  "distinct (staticInitHazards r) \<Longrightarrow> distinct (staticInitHazards (addStaticInitHazards xs r))"
  by (simp_all add: addLockTypes_def addChannelTypes_def addStaticInitHazards_def distinct_add_missing)

end
