(* ===== verification/QuerySerialize.thy ===== *)
theory QuerySerialize
  imports QueryJson Extensions
begin

text \<open>
  src/query/Serialize.cpp: the names of the enumerations, their parsers, and the JSON form of
  edges, guards, scopes, RAII locals and channel sites.  The guard classifier of the process-wide
  registry is an argument.
\<close>

fun edgeKindToString :: "EdgeKind \<Rightarrow> string" where
  "edgeKindToString DirectCall = ''DirectCall''"
| "edgeKindToString VirtualDispatch = ''VirtualDispatch''"
| "edgeKindToString FunctionPointer = ''FunctionPointer''"
| "edgeKindToString ConstructorCall = ''ConstructorCall''"
| "edgeKindToString DestructorCall = ''DestructorCall''"
| "edgeKindToString OperatorCall = ''OperatorCall''"
| "edgeKindToString TemplateInstantiation = ''TemplateInstantiation''"
| "edgeKindToString LambdaCall = ''LambdaCall''"
| "edgeKindToString ThreadEntry = ''ThreadEntry''"
| "edgeKindToString FunctionPointerReturn = ''FunctionPointerReturn''"

fun executionContextToString :: "ExecutionContext \<Rightarrow> string" where
  "executionContextToString Synchronous = ''Synchronous''"
| "executionContextToString ThreadSpawn = ''ThreadSpawn''"
| "executionContextToString AsyncTask = ''AsyncTask''"
| "executionContextToString PackagedTask = ''PackagedTask''"
| "executionContextToString Invoke = ''Invoke''"

definition parseExecutionContext :: "string \<Rightarrow> ExecutionContext option" where
  "parseExecutionContext s =
     (if s = ''Synchronous'' then Some Synchronous
      else if s = ''ThreadSpawn'' then Some ThreadSpawn
      else if s = ''AsyncTask'' then Some AsyncTask
      else if s = ''PackagedTask'' then Some PackagedTask
      else if s = ''Invoke'' then Some Invoke
      else None)"

fun confidenceToString :: "Confidence \<Rightarrow> string" where
  "confidenceToString Proven = ''Proven''"
| "confidenceToString Plausible = ''Plausible''"
| "confidenceToString UnknownConfidence = ''Unknown''"

definition parseEdgeKind :: "string \<Rightarrow> EdgeKind" where
  "parseEdgeKind s =
     (if s = ''DirectCall'' then DirectCall
      else if s = ''VirtualDispatch'' then VirtualDispatch
      else if s = ''FunctionPointer'' then FunctionPointer
      else if s = ''ConstructorCall'' then ConstructorCall
      else if s = ''DestructorCall'' then DestructorCall
      else if s = ''OperatorCall'' then OperatorCall
      else if s = ''TemplateInstantiation'' then TemplateInstantiation
      else if s = ''LambdaCall'' then LambdaCall
      else if s = ''ThreadEntry'' then ThreadEntry
      else DirectCall)"

definition parseConfidence :: "string \<Rightarrow> Confidence" where
  "parseConfidence s =
     (if s = ''Proven'' then Proven else if s = ''Plausible'' then Plausible else UnknownConfidence)"

fun confidenceRank :: "Confidence \<Rightarrow> nat" where
  "confidenceRank Proven = 2"
| "confidenceRank Plausible = 1"
| "confidenceRank UnknownConfidence = 0"

definition execContext_field :: "ExecutionContext \<Rightarrow> JsonObject" where
  \<comment> \<open>\<open>if (e.execContext != Synchronous) obj["executionContext"] = ...\<close>\<close>
  "execContext_field c =
     (if c \<noteq> Synchronous then [(''executionContext'', JStr (executionContextToString c))] else [])"

definition edgeToJson :: "CallGraphEdge \<Rightarrow> Json" where
  "edgeToJson e =
     JObj ([(''callerName'', JStr (callerName e)),
            (''calleeName'', JStr (calleeName e)),
            (''kind'', JStr (edgeKindToString (kind e))),
            (''confidence'', JStr (confidenceToString (confidence e))),
            (''callSite'', JStr (callSite e))]
           @ (if indirectionDepth e > 0 then [(''indirectionDepth'', JInt (int (indirectionDepth e)))] else [])
           @ execContext_field (execContext e))"

definition channelOperationToString :: "ChannelOperation \<Rightarrow> string" where
  "channelOperationToString p = (if p = Produce then ''produce'' else ''consume'')"

definition serializeGuard :: "GuardClassifier \<Rightarrow> ConditionalGuard \<Rightarrow> Json" where
  "serializeGuard classifyGuard g =
     JObj ([(''conditionText'', JStr (conditionText g)),
            (''location'', JStr (guardLocation g)),
            (''inTrueBranch'', JBool (inTrueBranch g)),
            (''isAssertion'', JBool (isAssertion g))]
           @ (case classifyGuard g of
                None \<Rightarrow> []
              | Some ann \<Rightarrow>
                  [(''annotation'', JObj [(''kind'', JStr (annKind ann)), (''name'', JStr (annName ann))])]))"

definition serializeHandler :: "CatchHandlerInfo \<Rightarrow> Json" where
  "serializeHandler h =
     JObj [(''caughtType'', JStr (caughtType h)), (''isCatchAll'', JBool (isCatchAll h)),
           (''location'', JStr (handlerLocation h)), (''body'', JStr (bodySummary h))]"

definition serializeTryCatchScope :: "TryCatchScope \<Rightarrow> Json" where
  "serializeTryCatchScope scope =
     JObj [(''tryLocation'', JStr (tryLocation scope)),
           (''enclosingFunction'', JStr (enclosingFunction scope)),
           (''nestingDepth'', JInt (uint (nestingDepth scope))),
           (''handlers'', JArr (map serializeHandler (handlers scope)))]"

fun noexceptSpecToString :: "NoexceptSpec \<Rightarrow> string" where
  "noexceptSpecToString NoSpec = ''none''"
| "noexceptSpecToString Noexcept = ''noexcept''"
| "noexceptSpecToString NoexceptFalse = ''noexcept(false)''"
| "noexceptSpecToString ThrowNone = ''throw()''"
| "noexceptSpecToString UnknownSpec = ''unknown''"

fun raiiKindToString :: "RaiiKind \<Rightarrow> string" where
  "raiiKindToString Lock = ''lock''"
| "raiiKindToString SmartPtr = ''smart_ptr''"
| "raiiKindToString OtherRaii = ''other''"

definition serializeRaiiLocal :: "RaiiLocal \<Rightarrow> Json" where
  "serializeRaiiLocal l =
     JObj [(''typeName'', JStr (typeName l)), (''varName'', JStr (varName l)),
           (''declLocation'', JStr (declLocation l)), (''kind'', JStr (raiiKindToString (raiiKind l)))]"

definition serializeChannelSite :: "GuardClassifier \<Rightarrow> ChannelSite \<Rightarrow> Json" where
  "serializeChannelSite classifyGuard s =
     JObj [(''channelId'', JStr (channelId s)),
           (''channelType'', JStr (channelTypeName s)),
           (''category'', JStr (category s)),
           (''operation'', JStr (channelOperationToString (op s))),
           (''function'', JStr (siteFunctionDisplay s)),
           (''functionUsr'', JStr (siteFunctionUsr s)),
           (''callSite'', JStr (chCallSite s)),
           (''guards'', JArr (map (serializeGuard classifyGuard) (chEnclosingGuards s)))]"

subsection \<open>Names and parsers agree\<close>

lemma parse_executionContext: "parseExecutionContext (executionContextToString c) = Some c"
  by (cases c) (simp_all add: parseExecutionContext_def)

lemma parseExecutionContext_spec:
  "parseExecutionContext s = Some c \<longleftrightarrow> s = executionContextToString c"
  by (cases c) (auto simp: parseExecutionContext_def)

lemma parse_confidence: "parseConfidence (confidenceToString c) = c"
  by (cases c) (simp_all add: parseConfidence_def)

lemma confidenceToString_inj [simp]: "confidenceToString c = confidenceToString d \<longleftrightarrow> c = d"
  by (metis parse_confidence)

lemma executionContextToString_inj [simp]:
  "executionContextToString c = executionContextToString d \<longleftrightarrow> c = d"
  by (metis parse_executionContext option.inject)

lemma edgeKindToString_inj [simp]: "edgeKindToString k = edgeKindToString l \<longleftrightarrow> k = l"
  by (cases k; cases l; simp)

text \<open>Every kind but the deferred one survives a parse; that one falls back to a direct call.\<close>

lemma parse_edgeKind:
  "parseEdgeKind (edgeKindToString k) = (if k = FunctionPointerReturn then DirectCall else k)"
  by (cases k) (simp_all add: parseEdgeKind_def)

text \<open>An edge is determined, up to its two identities, by what the answer says of it.\<close>

lemma edgeToJson_inj:
  assumes "edgeToJson e = edgeToJson f"
  shows "callerName e = callerName f" and "calleeName e = calleeName f" and "kind e = kind f"
    and "confidence e = confidence f" and "callSite e = callSite f"
    and "execContext e = execContext f" and "indirectionDepth e = indirectionDepth f"
  using assms by (auto simp: edgeToJson_def execContext_field_def split: if_splits)

end
