(* ===== verification/QueryIdentity.thy ===== *)
theory QueryIdentity
  imports QuerySerialize Oracle CollapseFilter Snapshot
begin

text \<open>
  The context the tools read (include/vycor/query/Tools.h) and how they turn their identity
  parameters into one USR (src/query/Identity.cpp).  A resolution is a datatype: the identity,
  the response the handler must return instead, or nothing when no identity parameter is there.
  The guard classifier of the registry stands in the context; the cache is passed separately to
  the handlers that use it.
\<close>

record ToolContext =
  tcGraph :: CallGraph
  tcOracle :: ControlFlowOracle
  tcIndex :: ControlFlowIndex
  tcEntryPoints :: "string list"
  tcChannels :: "ChannelIndex option"
  tcSummary :: "IndexSummary option"
  tcClassify :: GuardClassifier

definition kMaxAmbiguousCandidates :: nat where
  "kMaxAmbiguousCandidates = 25"

definition em_dash :: string where
  "em_dash = [CHR 0xE2, CHR 0x80, CHR 0x94]"

definition quoted :: "string \<Rightarrow> string" where
  "quoted s = CHR 0x27 # s @ [CHR 0x27]"

subsection \<open>The disambiguation response\<close>

definition count_by :: "string list \<Rightarrow> (string \<times> int) list" where
  \<comment> \<open>the \<open>std::map\<close> filled by \<open>++m[x]\<close>\<close>
  "count_by xs = map (\<lambda>x. (x, int (count_list xs x))) (sort (remdups xs))"

definition candidate_json :: "CallGraph \<Rightarrow> string \<Rightarrow> string \<Rightarrow> Json" where
  "candidate_json g name u =
     JObj ((''usr'', JStr u) #
       (case findNode g u of
          Some node \<Rightarrow> [(''qualifiedName'', JStr (qualifiedName node)),
                         (''file'', JStr (nodeFile node)), (''line'', JInt (int (nodeLine node)))]
        | None \<Rightarrow> [(''qualifiedName'', JStr name)]))"

definition ambiguity_note :: "nat \<Rightarrow> string \<Rightarrow> string" where
  "ambiguity_note amount filterNote =
     ''Multiple functions share this name. Re-run with the 'usr' parameter of the intended candidate, or narrow with 'site' (a call-site 'file:line:col' resolves to the exact overload/instantiation called there) or 'filter' (a literal substring matched against candidate usr/name/file ''
     @ em_dash @ '' not type-aware).''
     @ (if amount > kMaxAmbiguousCandidates
        then '' Candidate list truncated to '' @ nat_string kMaxAmbiguousCandidates @ '' of ''
             @ nat_string amount @ ''.''
        else [])
     @ (if filterNote \<noteq> [] then '' '' @ filterNote else [])"

definition makeAmbiguousNameResult :: "ToolContext \<Rightarrow> string \<Rightarrow> string \<Rightarrow> string list \<Rightarrow> string \<Rightarrow> Json" where
  "makeAmbiguousNameResult ctx paramName name usrs0 filterNote =
     (let usrs = sort usrs0;
          amount = length usrs;
          truncated = (amount > kMaxAmbiguousCandidates);
          byFile = count_by (map nodeFile (List.map_filter (findNode (tcGraph ctx)) usrs))
      in JObj
        ([(''ambiguous'', JBool True),
          (''parameter'', JStr paramName),
          (''name'', JStr name),
          (''total_candidates'', JInt (int amount)),
          (''candidates'',
             JArr (map (candidate_json (tcGraph ctx) name) (take kMaxAmbiguousCandidates usrs)))]
         @ (if truncated
            then [(''truncated'', JBool True),
                  (''candidates_by_file'',
                     JArr (map (\<lambda>(f, n). JObj [(''file'', JStr f), (''count'', JInt n)]) byFile))]
            else [])
         @ [(''note'', JStr (ambiguity_note amount filterNote))]))"

subsection \<open>Resolution\<close>

definition companionParam :: "string \<Rightarrow> string \<Rightarrow> string" where
  "companionParam usrParam sfx =
     (let n = length usrParam in
      (if n \<ge> 3 \<and> drop (n - 3) usrParam = ''usr'' then take (n - 3) usrParam else usrParam) @ sfx)"

datatype Resolution = Resolved string | Respond Json | NoIdentity

definition callee_identity :: "CallSiteContext \<Rightarrow> string" where
  "callee_identity c = (if ctxCalleeUsr c = [] then ctxCalleeName c else ctxCalleeUsr c)"

definition std_set :: "string list \<Rightarrow> string list" where
  "std_set xs = sort (remdups xs)"

definition resolve_callees :: "ToolContext \<Rightarrow> string \<Rightarrow> string \<Rightarrow> string option \<Rightarrow> string list \<Rightarrow> Resolution" where
  \<comment> \<open>the end of the site branch: one callee, or the list of them\<close>
  "resolve_callees ctx usrParam siteSpelling name callees =
     (case callees of
        [u] \<Rightarrow> Resolved u
      | _ \<Rightarrow> Respond (makeAmbiguousNameResult ctx usrParam
               (case name of Some n \<Rightarrow> n | None \<Rightarrow> siteSpelling) callees
               ''Several distinct functions are called at this spelling (macro-expanded call site).''))"

definition resolve_site :: "ToolContext \<Rightarrow> string \<Rightarrow> string \<Rightarrow> string option \<Rightarrow> Resolution" where
  \<comment> \<open>the branch for a \<open>site\<close> parameter\<close>
  "resolve_site ctx usrParam siteSpelling name =
     (let callees = std_set (map callee_identity (contextsAtSite (tcIndex ctx) siteSpelling)) in
      if callees = []
      then Respond (errorResult (''No call site found at '' @ quoted siteSpelling
             @ '' (expected 'file:line:col' as spelled in the compile command; use query_call_site_context to inspect a site).''))
      else
        (case name of
           None \<Rightarrow> resolve_callees ctx usrParam siteSpelling name callees
         | Some n \<Rightarrow>
             (let agreeing = filter (\<lambda>c. c \<in> set (usrsForName (tcGraph ctx) n) \<or> c = n) callees in
              if agreeing = []
              then Respond (errorResult (''Call site '' @ quoted siteSpelling @ '' does not call '' @ quoted n
                     @ '' (it calls: '' @ hd callees @ (if length callees > 1 then '', ...'' else []) @ '').''))
              else resolve_callees ctx usrParam siteSpelling name agreeing)))"

definition candidate_matches :: "CallGraph \<Rightarrow> string \<Rightarrow> string \<Rightarrow> bool" where
  "candidate_matches g flt u =
     (str_contains flt u \<or>
      (case findNode g u of
         None \<Rightarrow> False
       | Some node \<Rightarrow> str_contains flt (qualifiedName node) \<or> str_contains flt (nodeFile node)))"

definition resolve_name :: "JsonObject \<Rightarrow> ToolContext \<Rightarrow> string \<Rightarrow> string \<Rightarrow> string \<Rightarrow> Resolution" where
  \<comment> \<open>the branch for a display name\<close>
  "resolve_name args ctx nameParam usrParam name =
     (let usrs = usrsForName (tcGraph ctx) name in
      if length usrs \<ge> 2
      then
        (case getString args (companionParam usrParam ''filter'') of
           None \<Rightarrow> Respond (makeAmbiguousNameResult ctx nameParam name usrs [])
         | Some flt \<Rightarrow>
             (case filter (candidate_matches (tcGraph ctx) flt) usrs of
                [u] \<Rightarrow> Resolved u
              | [] \<Rightarrow> Respond (makeAmbiguousNameResult ctx nameParam name usrs
                       (''The filter '' @ quoted flt @ '' matched no candidate; showing the unfiltered set.''))
              | kept \<Rightarrow> Respond (makeAmbiguousNameResult ctx nameParam name kept
                       (''Candidates already narrowed by filter '' @ quoted flt @ ''.''))))
      else if length usrs = 1 then Resolved (hd usrs)
      else Resolved name)"

definition resolveIdentity :: "JsonObject \<Rightarrow> ToolContext \<Rightarrow> string \<Rightarrow> string \<Rightarrow> Resolution" where
  "resolveIdentity args ctx nameParam usrParam =
     (case getString args usrParam of
        Some u \<Rightarrow> Resolved u
      | None \<Rightarrow>
          (case getString args (companionParam usrParam ''site'') of
             Some s \<Rightarrow> resolve_site ctx usrParam s (getString args nameParam)
           | None \<Rightarrow>
               (case getString args nameParam of
                  None \<Rightarrow> NoIdentity
                | Some name \<Rightarrow> resolve_name args ctx nameParam usrParam name)))"

definition attachUsr :: "ToolContext \<Rightarrow> string \<Rightarrow> string \<Rightarrow> JsonObject" where
  \<comment> \<open>the member \<open>attachUsr\<close> adds, if any\<close>
  "attachUsr ctx ident key =
     (case findNode (tcGraph ctx) ident of Some node \<Rightarrow> [(key, JStr (usr node))] | None \<Rightarrow> [])"

definition with_identity :: "JsonObject \<Rightarrow> ToolContext \<Rightarrow> string \<Rightarrow> string \<Rightarrow> string \<Rightarrow> (string \<Rightarrow> Json) \<Rightarrow> Json" where
  \<comment> \<open>how a handler opens: return the response, or the missing-parameter error, or go on\<close>
  "with_identity args ctx nameParam usrParam missing body =
     (case resolveIdentity args ctx nameParam usrParam of
        Respond answer \<Rightarrow> answer
      | NoIdentity \<Rightarrow> errorResult missing
      | Resolved ident \<Rightarrow> body ident)"

definition shown_name :: "JsonObject \<Rightarrow> string \<Rightarrow> string \<Rightarrow> Json" where
  \<comment> \<open>\<open>name ? name->str() : *ident\<close>\<close>
  "shown_name args nameParam ident =
     JStr (case getString args nameParam of Some n \<Rightarrow> n | None \<Rightarrow> ident)"

end
