(* ===== verification/GraphTools.thy ===== *)
theory GraphTools
  imports QueryIdentity DeadCode "HOL-Library.Product_Lexorder"
begin

text \<open>
  The handlers of src/query/GraphTools.cpp except \<open>find_call_chain\<close> (theory \<open>CallChain\<close>), each a
  function of the arguments and the context.  Handlers that use the optional \<open>QueryCache\<close> take it
  and return it; its two maps are split by the type of the objects they hold.  \<open>std::sort\<close> leaves
  the order of equal elements open; here they keep their order.
\<close>

record SearchEntry =
  lowerQualified :: string
  unqualifiedOffset :: nat
  entryNode :: CallGraphNode

record QueryCache =
  byKey :: "(string, Json) umap"
  searchObject :: "SearchEntry list option"
  livenessObjects :: "(string, (string, Liveness) umap) umap"

definition empty_cache :: QueryCache where
  "empty_cache = \<lparr>byKey = [], searchObject = None, livenessObjects = []\<rparr>"

definition clear_cache :: "QueryCache \<Rightarrow> QueryCache" where
  "clear_cache c = c\<lparr>byKey := [], searchObject := None, livenessObjects := []\<rparr>"

subsection \<open>The edge filter\<close>

record EdgeFilter =
  filterKinds :: "EdgeKind set"
  includeConfidences :: "Confidence set"
  useIncludeSet :: bool
  minConf :: Confidence
  filterContexts :: "ExecutionContext set"

definition default_filter :: EdgeFilter where
  "default_filter = \<lparr>filterKinds = {}, includeConfidences = {}, useIncludeSet = False,
     minConf = UnknownConfidence, filterContexts = {}\<rparr>"

definition allowsFields :: "EdgeFilter \<Rightarrow> EdgeKind \<Rightarrow> Confidence \<Rightarrow> ExecutionContext \<Rightarrow> bool" where
  "allowsFields f k c x =
     (if filterKinds f \<noteq> {} \<and> k \<notin> filterKinds f then False
      else if filterContexts f \<noteq> {} \<and> x \<notin> filterContexts f then False
      else if useIncludeSet f then c \<in> includeConfidences f
      else confidenceRank c \<ge> confidenceRank (minConf f))"

definition allows :: "EdgeFilter \<Rightarrow> CallGraphEdge \<Rightarrow> bool" where
  "allows f e = allowsFields f (kind e) (confidence e) (execContext e)"

definition allowsRef :: "EdgeFilter \<Rightarrow> EdgeRef \<Rightarrow> bool" where
  "allowsRef f r = allowsFields f (refKind r) (refConfidence r) (refExecContext r)"

fun parse_kinds :: "Json list \<Rightarrow> EdgeKind set \<Rightarrow> EdgeKind set" where
  "parse_kinds [] ks = ks"
| "parse_kinds (v # vs) ks =
     parse_kinds vs (case getAsString v of Some s \<Rightarrow> insert (parseEdgeKind s) ks | None \<Rightarrow> ks)"

fun parse_confidences :: "Json list \<Rightarrow> Confidence set \<Rightarrow> string + Confidence set" where
  "parse_confidences [] cs = Inr cs"
| "parse_confidences (v # vs) cs =
     (case getAsString v of
        None \<Rightarrow> parse_confidences vs cs
      | Some s \<Rightarrow>
          (if s \<noteq> ''Proven'' \<and> s \<noteq> ''Plausible'' \<and> s \<noteq> ''Unknown''
           then Inl (''Invalid value in include_confidences: '' @ quoted s
                     @ '' (expected Proven, Plausible, or Unknown)'')
           else parse_confidences vs (insert (parseConfidence s) cs)))"

fun parse_contexts :: "Json list \<Rightarrow> ExecutionContext set \<Rightarrow> string + ExecutionContext set" where
  "parse_contexts [] xs = Inr xs"
| "parse_contexts (v # vs) xs =
     (case getAsString v of
        None \<Rightarrow> parse_contexts vs xs
      | Some s \<Rightarrow>
          (case parseExecutionContext s of
             None \<Rightarrow> Inl (''Invalid value in execution_contexts: '' @ quoted s
                          @ '' (expected Synchronous, ThreadSpawn, AsyncTask, PackagedTask, or Invoke)'')
           | Some x \<Rightarrow> parse_contexts vs (insert x xs)))"

definition parse_confidence_args :: "JsonObject \<Rightarrow> EdgeFilter \<Rightarrow> string + EdgeFilter" where
  "parse_confidence_args args f =
     (case getArray args ''include_confidences'' of
        Some confs \<Rightarrow>
          (case parse_confidences confs {} of
             Inl err \<Rightarrow> Inl err
           | Inr cs \<Rightarrow> Inr (f\<lparr>useIncludeSet := True, includeConfidences := cs\<rparr>))
      | None \<Rightarrow>
          (case getString args ''min_confidence'' of
             Some mc \<Rightarrow> Inr (f\<lparr>minConf := parseConfidence mc\<rparr>)
           | None \<Rightarrow> Inr f))"

definition parseEdgeFilter :: "JsonObject \<Rightarrow> string + EdgeFilter" where
  "parseEdgeFilter args =
     (let f = default_filter\<lparr>filterKinds :=
                (case getArray args ''edge_kinds'' of Some vs \<Rightarrow> parse_kinds vs {} | None \<Rightarrow> {})\<rparr> in
      case parse_confidence_args args f of
        Inl err \<Rightarrow> Inl err
      | Inr f1 \<Rightarrow>
          (case getArray args ''execution_contexts'' of
             None \<Rightarrow> Inr f1
           | Some vs \<Rightarrow>
               (case parse_contexts vs {} of
                  Inl err \<Rightarrow> Inl err
                | Inr xs \<Rightarrow> Inr (f1\<lparr>filterContexts := xs\<rparr>))))"

subsection \<open>\<open>lookup_function\<close>\<close>

definition class_field :: "CallGraphNode \<Rightarrow> JsonObject" where
  "class_field node =
     (if enclosingClass node \<noteq> [] then [(''enclosingClass'', JStr (enclosingClass node))] else [])"

definition handleLookupFunction :: "JsonObject \<Rightarrow> ToolContext \<Rightarrow> Json" where
  "handleLookupFunction args ctx =
     with_identity args ctx ''name'' ''usr'' ''Missing required parameter 'name' (or 'usr')'' (\<lambda>ident.
       case findNode (tcGraph ctx) ident of
         None \<Rightarrow> errorResult (''Function not found: '' @ ident)
       | Some node \<Rightarrow>
           JObj ([(''qualifiedName'', JStr (qualifiedName node)), (''usr'', JStr (usr node)),
                  (''file'', JStr (nodeFile node)), (''line'', JInt (int (nodeLine node))),
                  (''isEntryPoint'', JBool (isEntryPoint node)),
                  (''isVirtual'', JBool (isVirtual node))] @ class_field node))"

subsection \<open>\<open>search_functions\<close>\<close>

definition lower_char :: "char \<Rightarrow> char" where
  "lower_char c = (let n = of_char c :: nat in if 65 \<le> n \<and> n \<le> 90 then char_of (n + 32) else c)"

definition lower :: "string \<Rightarrow> string" where
  "lower s = map lower_char s"

definition starts_with :: "string \<Rightarrow> string \<Rightarrow> bool" where
  "starts_with s p = (take (length p) s = p)"

definition unqualified_offset :: "string \<Rightarrow> nat" where
  \<comment> \<open>just after \<open>rfind("::")\<close>, or 0\<close>
  "unqualified_offset s =
     (case filter (\<lambda>i. take 2 (drop i s) = ''::'') [0..<length s] of
        [] \<Rightarrow> 0
      | seps \<Rightarrow> last seps + 2)"

definition build_search_index :: "CallGraph \<Rightarrow> SearchEntry list" where
  "build_search_index g =
     map (\<lambda>node. \<lparr>lowerQualified = lower (qualifiedName node),
                  unqualifiedOffset = unqualified_offset (qualifiedName node), entryNode = node\<rparr>)
       (allNodes g)"

definition search_tier :: "string \<Rightarrow> SearchEntry \<Rightarrow> nat" where
  "search_tier needle entry =
     (let unqLower = drop (unqualifiedOffset entry) (lowerQualified entry) in
      if unqLower = needle then 0 else if starts_with unqLower needle then 1 else 2)"

definition search_hits :: "string \<Rightarrow> SearchEntry list \<Rightarrow> (CallGraphNode \<times> nat) list" where
  "search_hits needle idx =
     sort_key (\<lambda>(node, tier). (tier, length (qualifiedName node), qualifiedName node))
       (map (\<lambda>entry. (entryNode entry, search_tier needle entry))
         (filter (\<lambda>entry. str_contains needle (lowerQualified entry)) idx))"

definition search_json :: "CallGraphNode \<Rightarrow> Json" where
  "search_json node =
     JObj ([(''qualifiedName'', JStr (qualifiedName node)), (''usr'', JStr (usr node)),
            (''file'', JStr (nodeFile node)), (''line'', JInt (int (nodeLine node)))]
           @ class_field node
           @ (if isVirtual node then [(''isVirtual'', JBool True)] else []))"

definition fetch_search_index :: "ToolContext \<Rightarrow> QueryCache option \<Rightarrow> SearchEntry list \<times> QueryCache option" where
  "fetch_search_index ctx cache =
     (case cache of
        None \<Rightarrow> (build_search_index (tcGraph ctx), None)
      | Some c \<Rightarrow>
          (case searchObject c of
             Some idx \<Rightarrow> (idx, cache)
           | None \<Rightarrow> (let built = build_search_index (tcGraph ctx) in (built, Some (c\<lparr>searchObject := Some built\<rparr>)))))"

definition answer_search :: "string \<Rightarrow> int \<Rightarrow> SearchEntry list \<Rightarrow> Json" where
  "answer_search query limit idx =
     (let hits = search_hits (lower query) idx;
          results = map (search_json \<circ> fst) (take (nat limit) hits)
      in JObj [(''query'', JStr query),
               (''totalMatches'', jcount hits),
               (''returned'', jcount results),
               (''truncated'', JBool (int (length hits) > limit)),
               (''matches'', JArr results)])"

definition handleSearchFunctions :: "JsonObject \<Rightarrow> ToolContext \<Rightarrow> QueryCache option \<Rightarrow> Json \<times> QueryCache option" where
  "handleSearchFunctions args ctx cache =
     (case getString args ''query'' of
        None \<Rightarrow> (errorResult (''Missing required parameter '' @ quoted ''query''), cache)
      | Some query \<Rightarrow>
          (if query = [] then (errorResult (''Missing required parameter '' @ quoted ''query''), cache)
           else
             (let limit = (case getInteger args ''limit'' of Some l \<Rightarrow> max 1 l | None \<Rightarrow> 25);
                  (idx, cache1) = fetch_search_index ctx cache
              in (answer_search query limit idx, cache1))))"

subsection \<open>\<open>get_callees\<close> and \<open>get_callers\<close>\<close>

definition handleGetCallees :: "JsonObject \<Rightarrow> ToolContext \<Rightarrow> Json" where
  "handleGetCallees args ctx =
     with_identity args ctx ''name'' ''usr'' ''Missing required parameter 'name' (or 'usr')'' (\<lambda>ident.
       case parseEdgeFilter args of
         Inl err \<Rightarrow> errorResult err
       | Inr flt \<Rightarrow>
           (let results = map edgeToJson (filter (allows flt) (calleesOf (tcGraph ctx) ident))
            in JObj ([(''function'', shown_name args ''name'' ident)] @ attachUsr ctx ident ''usr''
                     @ [(''calleeCount'', jcount results), (''callees'', JArr results)])))"

definition handleGetCallers :: "JsonObject \<Rightarrow> ToolContext \<Rightarrow> Json" where
  "handleGetCallers args ctx =
     with_identity args ctx ''name'' ''usr'' ''Missing required parameter 'name' (or 'usr')'' (\<lambda>ident.
       case parseEdgeFilter args of
         Inl err \<Rightarrow> errorResult err
       | Inr flt \<Rightarrow>
           (let results = map edgeToJson (filter (allows flt) (callersOf (tcGraph ctx) ident))
            in JObj ([(''function'', shown_name args ''name'' ident)] @ attachUsr ctx ident ''usr''
                     @ [(''callerCount'', jcount results), (''callers'', JArr results)])))"

subsection \<open>\<open>get_class_hierarchy\<close> and \<open>list_entry_points\<close>\<close>

definition override_entry :: "CallGraph \<Rightarrow> string \<Rightarrow> CallGraphNode \<Rightarrow> Json list" where
  \<comment> \<open>the body of the loop over the nodes\<close>
  "override_entry g className node =
     (if enclosingClass node \<noteq> className then []
      else if \<not> isVirtual node then []
      else let overrides = getOverrides g (usr node) in
           if overrides = [] then []
           else [JObj [(''baseMethod'', JStr (qualifiedName node)),
                       (''overrides'', JArr (map JStr overrides))]])"

definition handleGetClassHierarchy :: "JsonObject \<Rightarrow> ToolContext \<Rightarrow> Json" where
  "handleGetClassHierarchy args ctx =
     (case getString args ''class_name'' of
        None \<Rightarrow> errorResult (''Missing required parameter '' @ quoted ''class_name'')
      | Some className \<Rightarrow>
          (let transitive = (case getBoolean args ''include_transitive'' of Some b \<Rightarrow> b | None \<Rightarrow> False);
               includeOverrides = (case getBoolean args ''include_overrides'' of Some b \<Rightarrow> b | None \<Rightarrow> False);
               derived = (if transitive then getAllDerivedClasses (tcGraph ctx) className
                          else getDerivedClasses (tcGraph ctx) className)
           in JObj ([(''className'', JStr className), (''derivedClassCount'', jcount derived),
                     (''derivedClasses'', JArr (map JStr derived))]
                    @ (if includeOverrides
                       then [(''virtualMethodOverrides'',
                              JArr (concat (map (override_entry (tcGraph ctx) className)
                                             (allNodes (tcGraph ctx)))))]
                       else []))))"

definition entry_point_json :: "CallGraph \<Rightarrow> string \<Rightarrow> Json" where
  "entry_point_json g ep =
     JObj ((''name'', JStr ep) #
       (case findNode g ep of
          None \<Rightarrow> []
        | Some node \<Rightarrow> [(''file'', JStr (nodeFile node)), (''line'', JInt (int (nodeLine node)))]
                       @ class_field node))"

definition handleListEntryPoints :: "JsonObject \<Rightarrow> ToolContext \<Rightarrow> Json" where
  "handleListEntryPoints args ctx =
     (let entries = map (entry_point_json (tcGraph ctx)) (tcEntryPoints ctx)
      in JObj [(''count'', jcount entries), (''entryPoints'', JArr entries)])"

subsection \<open>\<open>graph_summary\<close>\<close>

definition all_call_edges :: "CallGraph \<Rightarrow> CallGraphEdge list" where
  \<comment> \<open>the edges in the order of the nested loops over the nodes and \<open>calleesOf(node->usr)\<close>\<close>
  "all_call_edges g = concat (map (\<lambda>node. calleesOf g (usr node)) (allNodes g))"

definition caller_fanout :: "CallGraph \<Rightarrow> (string \<times> int) list" where
  "caller_fanout g =
     concat (map (\<lambda>node. let es = calleesOf g (usr node) in
                          if es \<noteq> [] then [(qualifiedName node, int (length es))] else [])
              (allNodes g))"

definition top_n :: "(string \<times> int) list \<Rightarrow> nat \<Rightarrow> Json" where
  "top_n v n =
     JArr (map (\<lambda>(name, cnt). JObj [(''qualifiedName'', JStr name), (''count'', JInt cnt)])
            (take n (sort_key (\<lambda>p. - snd p) v)))"

definition count_where :: "('a \<Rightarrow> bool) \<Rightarrow> 'a list \<Rightarrow> Json" where
  "count_where P xs = jcount (filter P xs)"

definition reported_kinds :: "EdgeKind list" where
  "reported_kinds = [DirectCall, VirtualDispatch, FunctionPointer, ConstructorCall, DestructorCall,
     OperatorCall, TemplateInstantiation, LambdaCall, ThreadEntry]"

definition summarize_graph :: "ToolContext \<Rightarrow> Json" where
  "summarize_graph ctx =
     (let g = tcGraph ctx; es = all_call_edges g in
      JObj
        [(''nodeCount'', JInt (int (nodeCount g))),
         (''edgeCount'', jcount es),
         (''callSiteCount'',
            JInt (case tcSummary ctx of Some s \<Rightarrow> uint (isCallSites s)
                                      | None \<Rightarrow> int (contextCount (tcIndex ctx)))),
         (''entryPointCount'', jcount (tcEntryPoints ctx)),
         (''confidenceHistogram'',
            JObj [(''Proven'', count_where (\<lambda>e. confidence e = Proven) es),
                  (''Plausible'', count_where (\<lambda>e. confidence e = Plausible) es),
                  (''Unknown'', count_where (\<lambda>e. confidence e = UnknownConfidence) es)]),
         (''edgeKindHistogram'',
            JObj (map (\<lambda>k. (edgeKindToString k, count_where (\<lambda>e. kind e = k) es)) reported_kinds)),
         (''topFanoutCallers'', top_n (caller_fanout g) 5),
         (''topFanoutCallees'', top_n (count_by (map calleeName es)) 5)])"

definition handleGraphSummary :: "JsonObject \<Rightarrow> ToolContext \<Rightarrow> QueryCache option \<Rightarrow> Json \<times> QueryCache option" where
  "handleGraphSummary args ctx cache =
     (case cache of
        None \<Rightarrow> (summarize_graph ctx, None)
      | Some c \<Rightarrow>
          (case map_of (byKey c) ''graph_summary'' of
             Some out \<Rightarrow> (out, cache)
           | None \<Rightarrow>
               (let out = summarize_graph ctx
                in (out, Some (c\<lparr>byKey := AList.update ''graph_summary'' out (byKey c)\<rparr>)))))"

subsection \<open>\<open>list_callback_sites\<close> and \<open>list_concurrency_entry_points\<close>\<close>

definition callback_edges :: "string option \<Rightarrow> CallGraph \<Rightarrow> CallGraphEdge list" where
  "callback_edges targetFilter g =
     filter (\<lambda>e. (kind e = FunctionPointer \<or> kind e = LambdaCall) \<and>
                 (case targetFilter of None \<Rightarrow> True | Some p \<Rightarrow> starts_with (calleeName e) p))
       (all_call_edges g)"

definition callback_site_json :: "CallGraphEdge \<Rightarrow> Json" where
  "callback_site_json e =
     JObj ([(''caller'', JStr (callerName e)), (''callSite'', JStr (callSite e)),
            (''kind'', JStr (edgeKindToString (kind e))),
            (''confidence'', JStr (confidenceToString (confidence e)))]
           @ (if indirectionDepth e > 0 then [(''indirectionDepth'', JInt (int (indirectionDepth e)))] else [])
           @ execContext_field (execContext e))"

definition handleListCallbackSites :: "JsonObject \<Rightarrow> ToolContext \<Rightarrow> Json" where
  \<comment> \<open>\<open>byTarget\<close> is a \<open>std::map\<close>: the targets ascending, the sites of each in order of arrival\<close>
  "handleListCallbackSites args ctx =
     (let es = callback_edges (getString args ''target_prefix'') (tcGraph ctx);
          targets = map (\<lambda>t. let vs = filter (\<lambda>e. calleeName e = t) es in
                              JObj [(''target'', JStr t), (''siteCount'', jcount vs),
                                    (''sites'', JArr (map callback_site_json vs))])
                      (std_set (map calleeName es))
      in JObj [(''targetCount'', jcount targets), (''targets'', JArr targets)])"

definition spawn_json :: "CallGraphEdge \<Rightarrow> Json" where
  "spawn_json e =
     JObj [(''spawner'', JStr (callerName e)), (''target'', JStr (calleeName e)),
           (''executionContext'', JStr (executionContextToString (execContext e))),
           (''callSite'', JStr (callSite e)),
           (''confidence'', JStr (confidenceToString (confidence e)))]"

definition handleListConcurrencyEntryPoints :: "JsonObject \<Rightarrow> ToolContext \<Rightarrow> Json" where
  "handleListConcurrencyEntryPoints args ctx =
     (case (case getArray args ''execution_contexts'' of Some vs \<Rightarrow> parse_contexts vs {} | None \<Rightarrow> Inr {}) of
        Inl err \<Rightarrow> errorResult err
      | Inr ctxFilter \<Rightarrow>
          (let entries = map spawn_json
                 (filter (\<lambda>e. kind e = ThreadEntry \<and> (ctxFilter = {} \<or> execContext e \<in> ctxFilter))
                   (all_call_edges (tcGraph ctx)))
           in JObj [(''count'', jcount entries), (''entries'', JArr entries)]))"

end
