(* ===== verification/CallChain.thy ===== *)
theory CallChain
  imports GraphTools
begin

text \<open>
  \<open>find_call_chain\<close> (src/query/GraphTools.cpp): a reverse depth-first search from the target to
  the start functions over caller edges, pruned by a forward breadth-first search (the corridor),
  by a memo of dead ends and by a cut at functions with many callers.  Depths are \<open>unsigned\<close>: the
  budget is the 64-bit argument truncated to 32 bits and the corridor sum wraps.  The memo of
  \<open>callerRefsOf\<close> repeats a pure query and is left out; the path and its set are passed down, so
  the pops and erases are the return.
\<close>

definition u32 :: "int \<Rightarrow> nat" where
  \<comment> \<open>\<open>static_cast<unsigned>\<close> of an \<open>int64_t\<close>\<close>
  "u32 i = nat (i mod 2 ^ 32)"

lemma u32_small: "n < 2 ^ 32 \<Longrightarrow> u32 (int n) = n"
  by (simp add: u32_def)

lemma u32_bound: "u32 d < 2 ^ 32"
  by (simp add: u32_def nat_less_iff)

subsection \<open>The corridor\<close>

definition corridor_node :: "(sid \<Rightarrow> EdgeRef list) \<Rightarrow> (EdgeRef \<Rightarrow> bool) \<Rightarrow> nat \<Rightarrow> sid \<Rightarrow>
    (sid, nat) umap \<times> sid list \<Rightarrow> (sid, nat) umap \<times> sid list" where
  \<comment> \<open>the edges of one frontier node\<close>
  "corridor_node callees ok dist node s =
     fold (\<lambda>edge (m, nxt).
             if \<not> ok edge then (m, nxt)
             else if refCallee edge \<in> fst ` set m then (m, nxt)
             else (uemplace (refCallee edge) dist m, nxt @ [refCallee edge]))
       (callees node) s"

function corridor :: "(sid \<Rightarrow> EdgeRef list) \<Rightarrow> (EdgeRef \<Rightarrow> bool) \<Rightarrow> nat \<Rightarrow> nat \<Rightarrow> sid list \<Rightarrow>
    (sid, nat) umap \<Rightarrow> (sid, nat) umap" where
  \<comment> \<open>the loop \<open>while (!frontier.empty() && dist < budget)\<close>\<close>
  "corridor callees ok budget dist frontier m =
     (if frontier = [] \<or> \<not> dist < budget then m
      else let (m1, nxt) = fold (corridor_node callees ok (Suc dist)) frontier (m, [])
           in corridor callees ok budget (Suc dist) nxt m1)"
  by pat_completeness auto
termination
  by (relation "measure (\<lambda>(callees, ok, budget, dist, frontier, m). budget - dist)") auto

declare corridor.simps [simp del]

definition min_from :: "(sid \<Rightarrow> EdgeRef list) \<Rightarrow> (EdgeRef \<Rightarrow> bool) \<Rightarrow> nat \<Rightarrow> sid list \<Rightarrow> (sid, nat) umap" where
  "min_from callees ok budget starts =
     corridor callees ok budget 0 starts (fold (\<lambda>st. uemplace st 0) starts [])"

subsection \<open>The reverse search\<close>

record FoundPath =
  fpNodes :: "sid list"
  fpEdges :: "EdgeRef list"

record ChainQuery =
  cqGraph :: CallGraph
  cqFilter :: EdgeFilter
  cqStarts :: "sid list"
  cqMaxPaths :: int
  cqBudget :: nat
  cqMaxFanIn :: int
  cqMinFrom :: "(sid, nat) umap"

record ChainSearch =
  foundPaths :: "FoundPath list"
  deadAt :: "(sid, nat) umap"
  skippedHubs :: "(sid, nat) umap"

definition note_dead :: "sid \<Rightarrow> nat \<Rightarrow> (sid, nat) umap \<Rightarrow> (sid, nat) umap" where
  "note_dead node dep m =
     (case map_of m node of
        None \<Rightarrow> AList.update node dep m
      | Some old \<Rightarrow> if dep < old then AList.update node dep m else m)"

definition known_dead :: "ChainSearch \<Rightarrow> sid \<Rightarrow> nat \<Rightarrow> bool" where
  "known_dead s node dep = (case map_of (deadAt s) node of Some d \<Rightarrow> d \<le> dep | None \<Rightarrow> False)"

definition is_hub :: "ChainQuery \<Rightarrow> sid \<Rightarrow> bool" where
  "is_hub q node = (cqMaxFanIn q > 0 \<and> int (storedInDegree_id (cqGraph q) node) > cqMaxFanIn q)"

definition enough :: "ChainQuery \<Rightarrow> ChainSearch \<Rightarrow> bool" where
  "enough q s = (int (length (foundPaths s)) \<ge> cqMaxPaths q)"

definition in_corridor :: "ChainQuery \<Rightarrow> nat \<Rightarrow> sid \<Rightarrow> bool" where
  "in_corridor q dep caller =
     (case map_of (cqMinFrom q) caller of
        None \<Rightarrow> False
      | Some m \<Rightarrow> u32 (int (m + dep + 1)) \<le> cqBudget q)"

definition dfs_measure :: "ChainQuery \<times> sid \<times> nat \<times> sid list \<times> EdgeRef list \<times> ChainSearch
    + ChainQuery \<times> EdgeRef list \<times> nat \<times> sid list \<times> EdgeRef list \<times> (bool \<times> bool) \<times> ChainSearch
    \<Rightarrow> nat \<times> nat \<times> nat" where
  "dfs_measure x =
     (case x of
        Inl (q, node, dep, path, es, s) \<Rightarrow> (2 * (Suc (cqBudget q) - dep), 0, 0)
      | Inr (q, callers, dep, path, es, flags, s) \<Rightarrow> (2 * (Suc (cqBudget q) - dep) - 1, 1, length callers))"

function (sequential) chain_dfs :: "ChainQuery \<Rightarrow> sid \<Rightarrow> nat \<Rightarrow> sid list \<Rightarrow> EdgeRef list \<Rightarrow> ChainSearch \<Rightarrow>
    (bool \<times> bool) \<times> ChainSearch"
  and chain_callers :: "ChainQuery \<Rightarrow> EdgeRef list \<Rightarrow> nat \<Rightarrow> sid list \<Rightarrow> EdgeRef list \<Rightarrow> bool \<times> bool \<Rightarrow>
    ChainSearch \<Rightarrow> (bool \<times> bool) \<times> ChainSearch" where
  \<comment> \<open>the flags are the bits \<open>kFound\<close> and \<open>kBlocked\<close>\<close>
  "chain_dfs q node dep path es s =
     (if enough q s then ((False, True), s)
      else if dep > cqBudget q then ((False, False), s)
      else if known_dead s node dep then ((False, False), s)
      else let path1 = path @ [node] in
           if node \<in> set (cqStarts q)
           then ((True, False), s\<lparr>foundPaths := foundPaths s @ [\<lparr>fpNodes = rev path1, fpEdges = rev es\<rparr>]\<rparr>)
           else let (flags, s1) =
                      (if dep > 0 \<and> is_hub q node
                       then ((False, False),
                             s\<lparr>skippedHubs := uemplace node (storedInDegree_id (cqGraph q) node) (skippedHubs s)\<rparr>)
                       else chain_callers q (callerRefsOf (cqGraph q) node) dep path1 es (False, False) s)
                in if flags = (False, False)
                   then (flags, s1\<lparr>deadAt := note_dead node dep (deadAt s1)\<rparr>)
                   else (flags, s1))"
| "chain_callers q [] dep path es flags s = (flags, s)"
| "chain_callers q (edge # callers) dep path es flags s =
     (if refCaller edge \<in> set path then chain_callers q callers dep path es (fst flags, True) s
      else if \<not> allowsRef (cqFilter q) edge then chain_callers q callers dep path es flags s
      else if \<not> in_corridor q dep (refCaller edge) then chain_callers q callers dep path es flags s
      else let (fl, s1) = chain_dfs q (refCaller edge) (Suc dep) path (es @ [edge]) s;
               flags1 = (fst flags \<or> fst fl, snd flags \<or> snd fl)
           in if enough q s1 then ((fst flags1, True), s1)
              else chain_callers q callers dep path es flags1 s1)"
  by pat_completeness auto

termination
  by (relation "inv_image (less_than <*lex*> less_than <*lex*> less_than) dfs_measure")
    (auto simp: dfs_measure_def)

declare chain_dfs.simps [simp del]

definition chain_query :: "CallGraph \<Rightarrow> EdgeFilter \<Rightarrow> sid list \<Rightarrow> int \<Rightarrow> nat \<Rightarrow> int \<Rightarrow> ChainQuery" where
  "chain_query g f starts maxPaths budget maxFanIn =
     \<lparr>cqGraph = g, cqFilter = f, cqStarts = starts, cqMaxPaths = maxPaths, cqBudget = budget,
      cqMaxFanIn = maxFanIn, cqMinFrom = min_from (calleeRefsOf g) (allowsRef f) budget starts\<rparr>"

definition find_chains :: "ChainQuery \<Rightarrow> sid option \<Rightarrow> ChainSearch" where
  "find_chains q targetId =
     (let s0 = \<lparr>foundPaths = [], deadAt = [], skippedHubs = []\<rparr> in
      case targetId of
        None \<Rightarrow> s0
      | Some t \<Rightarrow>
          (case map_of (cqMinFrom q) t of
             None \<Rightarrow> s0
           | Some m \<Rightarrow> if m \<le> cqBudget q then snd (chain_dfs q t 0 [] [] s0) else s0))"

subsection \<open>The handler\<close>

definition start_ids :: "interner \<Rightarrow> string list \<Rightarrow> sid list" where
  \<comment> \<open>the \<open>std::set\<close> of the starts that \<open>find\<close> knows\<close>
  "start_ids I starts = sort (remdups (List.map_filter (find_id I) starts))"

definition hop_json :: "interner \<Rightarrow> EdgeRef \<Rightarrow> Json" where
  "hop_json I r =
     JObj ([(''from'', JStr (resolve I (refCaller r))), (''to'', JStr (resolve I (refCallee r))),
            (''kind'', JStr (edgeKindToString (refKind r))),
            (''confidence'', JStr (confidenceToString (refConfidence r))),
            (''callSite'', JStr (resolve I (refCallSite r)))]
           @ execContext_field (refExecContext r))"

definition hubs_note :: string where
  "hubs_note = ''Ancestry of these high-fan-in functions was not expanded (stored in-degree exceeds max_fan_in). Re-run with a higher max_fan_in or query them directly with get_callers.''"

definition chain_answer :: "JsonObject \<Rightarrow> ToolContext \<Rightarrow> string \<Rightarrow> ChainSearch \<Rightarrow> Json" where
  "chain_answer args ctx to s =
     (let I = cgInterner (tcGraph ctx) in
      JObj ([(''target'', shown_name args ''to'' to)] @ attachUsr ctx to ''targetUsr''
        @ [(''pathCount'', jcount (foundPaths s)),
           (''paths'', JArr (map (\<lambda>fp. JArr (map (hop_json I) (fpEdges fp))) (foundPaths s)))]
        @ (if skippedHubs s \<noteq> []
           then [(''skippedHubs'',
                  JArr (map (\<lambda>(i, d). JObj [(''name'', JStr (resolve I i)), (''inDegree'', JInt (int d))])
                         (sort_key fst (skippedHubs s)))),
                 (''skippedHubsNote'', JStr hubs_note)]
           else [])))"

definition run_chain :: "JsonObject \<Rightarrow> ToolContext \<Rightarrow> string \<Rightarrow> string list \<Rightarrow> EdgeFilter \<Rightarrow> Json" where
  \<comment> \<open>the handler once its parameters are resolved\<close>
  "run_chain args ctx to starts flt =
     (let maxPaths = (case getInteger args ''max_paths'' of Some mp \<Rightarrow> mp | None \<Rightarrow> 10);
          maxDepth = (case getInteger args ''max_depth'' of Some md \<Rightarrow> md | None \<Rightarrow> 20);
          maxFanIn = (case getInteger args ''max_fan_in'' of Some mf \<Rightarrow> max 0 mf | None \<Rightarrow> 1000);
          I = cgInterner (tcGraph ctx);
          q = chain_query (tcGraph ctx) flt (start_ids I starts) maxPaths (u32 maxDepth) maxFanIn
      in chain_answer args ctx to (find_chains q (find_id I to)))"

definition handleFindCallChain :: "JsonObject \<Rightarrow> ToolContext \<Rightarrow> Json" where
  "handleFindCallChain args ctx =
     with_identity args ctx ''to'' ''to_usr'' ''Missing required parameter 'to' (or 'to_usr')'' (\<lambda>to.
       case parseEdgeFilter args of
         Inl err \<Rightarrow> errorResult err
       | Inr flt \<Rightarrow>
           (case resolveIdentity args ctx ''from'' ''from_usr'' of
              Respond answer \<Rightarrow> answer
            | Resolved from \<Rightarrow> run_chain args ctx to [from] flt
            | NoIdentity \<Rightarrow> run_chain args ctx to (tcEntryPoints ctx) flt))"

end
