(* ===== verification/CallChainSpec.thy ===== *)
theory CallChainSpec
  imports CallChain CallGraphProps
begin

text \<open>
  What the pruned search of \<open>find_call_chain\<close> computes: the first paths, up to the bound, of the
  plain enumeration of cycle-free chains (\<open>chains_to\<close>), which has neither the corridor nor the
  memo of dead ends.
\<close>

subsection \<open>The reference enumeration\<close>

function chains_to :: "ChainQuery \<Rightarrow> sid \<Rightarrow> nat \<Rightarrow> sid list \<Rightarrow> EdgeRef list \<Rightarrow> FoundPath list" where
  "chains_to q node dep path es =
     (if dep > cqBudget q then []
      else if node \<in> set (cqStarts q) then [\<lparr>fpNodes = rev (path @ [node]), fpEdges = rev es\<rparr>]
      else if dep > 0 \<and> is_hub q node then []
      else concat (map (\<lambda>e. if refCaller e \<in> set (path @ [node]) \<or> \<not> allowsRef (cqFilter q) e then []
                            else chains_to q (refCaller e) (Suc dep) (path @ [node]) (es @ [e]))
                     (callerRefsOf (cqGraph q) node)))"
  by pat_completeness auto
termination
  by (relation "measure (\<lambda>(q, node, dep, path, es). Suc (cqBudget q) - dep)") auto

declare chains_to.simps [simp del]

definition next_chains :: "ChainQuery \<Rightarrow> nat \<Rightarrow> sid list \<Rightarrow> EdgeRef list \<Rightarrow> EdgeRef \<Rightarrow> FoundPath list" where
  "next_chains q dep path es e =
     (if refCaller e \<in> set path \<or> \<not> allowsRef (cqFilter q) e then []
      else chains_to q (refCaller e) (Suc dep) path (es @ [e]))"

lemma chains_to_unfold:
  assumes "dep \<le> cqBudget q" and "node \<notin> set (cqStarts q)" and "\<not> (dep > 0 \<and> is_hub q node)"
  shows "chains_to q node dep path es =
     concat (map (next_chains q dep (path @ [node]) es) (callerRefsOf (cqGraph q) node))"
  unfolding next_chains_def chains_to.simps[of q node dep path es] using assms
  by (simp only: not_less[symmetric] if_False if_not_P not_True_eq_False not_False_eq_True)

subsection \<open>Dead ends\<close>

fun ascends :: "ChainQuery \<Rightarrow> sid \<Rightarrow> nat \<Rightarrow> sid \<Rightarrow> bool" where
  \<comment> \<open>from the node a start is at most \<open>k\<close> allowed caller edges away, no hub but the target expanded\<close>
  "ascends q t 0 n = (n \<in> set (cqStarts q))"
| "ascends q t (Suc k) n =
     (n \<in> set (cqStarts q) \<or>
      (n = t \<or> \<not> is_hub q n) \<and>
      (\<exists>e \<in> set (callerRefsOf (cqGraph q) n). allowsRef (cqFilter q) e \<and> ascends q t k (refCaller e)))"

lemma ascends_start: "n \<in> set (cqStarts q) \<Longrightarrow> ascends q t k n"
  by (cases k) auto

lemma ascends_Suc: "ascends q t k n \<Longrightarrow> ascends q t (Suc k) n"
proof (induction k arbitrary: n)
  case (Suc k)
  have "ascends q t (Suc k) (refCaller e)" if "ascends q t k (refCaller e)" for e
    using Suc.IH that by blast
  with Suc.prems show ?case by (subst ascends.simps(2)) (use ascends.simps(2)[of q t k n] in blast)
qed simp

lemma ascends_mono: "ascends q t j n \<Longrightarrow> j \<le> k \<Longrightarrow> ascends q t k n"
  by (induction k) (auto simp: le_Suc_eq simp del: ascends.simps intro: ascends_Suc)

lemma chains_to_ascends:
  "chains_to q node dep path es \<noteq> [] \<Longrightarrow> dep = 0 \<longrightarrow> node = t \<Longrightarrow>
     dep \<le> cqBudget q \<and> ascends q t (cqBudget q - dep) node"
proof (induction q node dep path es rule: chains_to.induct)
  case (1 q node dep path es)
  have d: "dep \<le> cqBudget q" using "1.prems"(1) by (auto simp: chains_to.simps[of q node dep path es] split: if_splits)
  show ?case
  proof (cases "node \<in> set (cqStarts q)")
    case True
    then show ?thesis using d by (simp add: ascends_start)
  next
    case start: False
    have hub: "\<not> (dep > 0 \<and> is_hub q node)"
      using "1.prems"(1) start by (auto simp: chains_to.simps[of q node dep path es] split: if_splits)
    then obtain e where e: "e \<in> set (callerRefsOf (cqGraph q) node)"
      "\<not> (refCaller e \<in> set (path @ [node]) \<or> \<not> allowsRef (cqFilter q) e)"
      "chains_to q (refCaller e) (Suc dep) (path @ [node]) (es @ [e]) \<noteq> []"
      using "1.prems"(1) by (auto simp: chains_to_unfold[OF d start hub] next_chains_def split: if_splits)
    from "1.IH"[OF _ start hub e(1,2)] e(3) d
    have a: "Suc dep \<le> cqBudget q" "ascends q t (cqBudget q - Suc dep) (refCaller e)" by auto
    then obtain k where k: "cqBudget q - dep = Suc k" "k = cqBudget q - Suc dep" by (metis Suc_diff_Suc Suc_le_lessD)
    have "node = t \<or> \<not> is_hub q node" using hub "1.prems"(2) by auto
    then show ?thesis using a e(1,2) d k by auto
  qed
qed

definition dead_ok :: "ChainQuery \<Rightarrow> sid \<Rightarrow> ChainSearch \<Rightarrow> bool" where
  "dead_ok q t s \<longleftrightarrow>
     (\<forall>n d. map_of (deadAt s) n = Some d \<longrightarrow> d \<le> cqBudget q \<and> \<not> ascends q t (cqBudget q - d) n)"

lemma known_dead_ascends: "dead_ok q t s \<Longrightarrow> known_dead s n dep \<Longrightarrow> \<not> ascends q t (cqBudget q - dep) n"
  using ascends_mono[of q t "cqBudget q - dep" n]
  by (fastforce simp: dead_ok_def known_dead_def split: option.splits)

lemma dead_ok_note:
  assumes "dead_ok q t s" and "dep \<le> cqBudget q" and "\<not> ascends q t (cqBudget q - dep) n"
  shows "dead_ok q t (s\<lparr>deadAt := note_dead n dep (deadAt s)\<rparr>)"
  using assms by (auto simp: dead_ok_def note_dead_def umap_simps split: option.splits if_splits)

subsection \<open>The corridor never cuts a chain\<close>

definition filter_dual :: "CallGraph \<Rightarrow> EdgeFilter \<Rightarrow> bool" where
  \<comment> \<open>an edge the caller query shows and the filter allows has an allowed twin in the callee query\<close>
  "filter_dual g f \<longleftrightarrow>
     (\<forall>b. \<forall>r \<in> set (callerRefsOf g b). allowsRef f r \<longrightarrow>
        (\<exists>r' \<in> set (calleeRefsOf g (refCaller r)). refCallee r' = b \<and> allowsRef f r'))"

definition closed_at :: "(sid \<Rightarrow> EdgeRef list) \<Rightarrow> (EdgeRef \<Rightarrow> bool) \<Rightarrow> (sid, nat) umap \<Rightarrow> sid \<Rightarrow> nat \<Rightarrow> bool" where
  "closed_at callees ok m a v \<longleftrightarrow>
     (\<forall>r \<in> set (callees a). ok r \<longrightarrow> (\<exists>w \<le> Suc v. map_of m (refCallee r) = Some w))"

definition spread :: "nat \<Rightarrow> (sid, nat) umap \<times> sid list \<Rightarrow> (sid, nat) umap \<times> sid list \<Rightarrow> bool" where
  "spread D s s1 \<longleftrightarrow>
     map_of (fst s) \<subseteq>\<^sub>m map_of (fst s1) \<and> set (snd s) \<subseteq> set (snd s1) \<and>
     (\<forall>k v. map_of (fst s1) k = Some v \<longrightarrow> map_of (fst s) k = Some v \<or> v = D \<and> k \<in> set (snd s1))"

lemma map_le_SomeD: "m \<subseteq>\<^sub>m m1 \<Longrightarrow> m k = Some v \<Longrightarrow> m1 k = Some v"
  by (metis domI map_le_def)

lemma spread_refl: "spread D s s"
  by (auto simp: spread_def)

lemma spread_trans: "spread D s s1 \<Longrightarrow> spread D s1 s2 \<Longrightarrow> spread D s s2"
proof -
  assume a: "spread D s s1" "spread D s1 s2"
  have "map_of (fst s) \<subseteq>\<^sub>m map_of (fst s2)"
    using a map_le_trans by (auto simp: spread_def)
  moreover have "set (snd s) \<subseteq> set (snd s2)" using a by (auto simp: spread_def)
  moreover have "map_of (fst s) k = Some v \<or> v = D \<and> k \<in> set (snd s2)" if "map_of (fst s2) k = Some v" for k v
    using a that unfolding spread_def by blast
  ultimately show ?thesis by (simp add: spread_def)
qed

lemma spread_fold:
  assumes "\<And>x s. x \<in> set xs \<Longrightarrow> spread D s (f x s)"
    and "\<And>x s s1. x \<in> set xs \<Longrightarrow> spread D (f x s) s1 \<Longrightarrow> P x (fst s1)"
  shows "spread D s (fold f xs s) \<and> (\<forall>x \<in> set xs. \<forall>s1. spread D (fold f xs s) s1 \<longrightarrow> P x (fst s1))"
  using assms
proof (induction xs arbitrary: s)
  case Nil
  then show ?case by (simp add: spread_refl)
next
  case (Cons x xs)
  have g: "spread D s (f x s)" by (rule Cons.prems(1)) simp
  have IH: "spread D (f x s) (fold f xs (f x s)) \<and>
      (\<forall>y \<in> set xs. \<forall>s1. spread D (fold f xs (f x s)) s1 \<longrightarrow> P y (fst s1))"
    by (rule Cons.IH) (use Cons.prems in auto)
  have "P x (fst s1)" if "spread D (fold f xs (f x s)) s1" for s1
    by (rule Cons.prems(2)[of x s]) (simp, rule spread_trans[OF conjunct1[OF IH] that])
  moreover have "spread D s (fold f xs (f x s))" by (rule spread_trans[OF g conjunct1[OF IH]])
  ultimately show ?case using IH by (metis fold_simps(2) set_ConsD)
qed

lemma map_of_spread: "spread D s s1 \<Longrightarrow> map_of (fst s) k = Some v \<Longrightarrow> map_of (fst s1) k = Some v"
  unfolding spread_def map_le_def by (metis domI)

lemma corridor_node_spread:
  "spread D s (corridor_node callees ok D node s) \<and>
   (\<forall>r \<in> set (callees node). \<forall>s1. spread D (corridor_node callees ok D node s) s1 \<longrightarrow>
      ok r \<longrightarrow> refCallee r \<in> dom (map_of (fst s1)))"
  unfolding corridor_node_def
proof (rule spread_fold, goal_cases)
  case (1 r s)
  show ?case by (cases s) (auto simp: spread_def map_le_def umap_simps dom_map_of_conv_image_fst[symmetric])
next
  case (2 r s s1)
  show ?case
  proof
    assume "ok r"
    then obtain v where "map_of (fst ((\<lambda>(m, nxt). if \<not> ok r then (m, nxt)
             else if refCallee r \<in> fst ` set m then (m, nxt)
             else (uemplace (refCallee r) D m, nxt @ [refCallee r])) s)) (refCallee r) = Some v"
      by (cases s) (fastforce simp: umap_simps dom_map_of_conv_image_fst[symmetric] split: if_splits)
    from map_of_spread[OF 2(2) this] show "refCallee r \<in> dom (map_of (fst s1))" by auto
  qed
qed

definition layered :: "(sid \<Rightarrow> EdgeRef list) \<Rightarrow> (EdgeRef \<Rightarrow> bool) \<Rightarrow> nat \<Rightarrow> sid list \<Rightarrow> (sid, nat) umap \<Rightarrow> bool" where
  "layered callees ok dist frontier m \<longleftrightarrow>
     (\<forall>a v. map_of m a = Some v \<longrightarrow>
        v \<le> dist \<and> (v = dist \<longrightarrow> a \<in> set frontier) \<and> (v < dist \<longrightarrow> closed_at callees ok m a v))"

lemma corridor_round:
  assumes "layered callees ok dist frontier m"
    and "fold (corridor_node callees ok (Suc dist)) frontier (m, []) = (m1, nxt)"
  shows "layered callees ok (Suc dist) nxt m1" and "map_of m \<subseteq>\<^sub>m map_of m1"
proof -
  have "spread (Suc dist) (m, []) (fold (corridor_node callees ok (Suc dist)) frontier (m, [])) \<and>
      (\<forall>a \<in> set frontier. \<forall>s1. spread (Suc dist) (fold (corridor_node callees ok (Suc dist)) frontier (m, [])) s1 \<longrightarrow>
         (\<forall>r \<in> set (callees a). ok r \<longrightarrow> refCallee r \<in> dom (map_of (fst s1))))"
    by (rule spread_fold) (use corridor_node_spread in blast)+
  then have sp: "spread (Suc dist) (m, []) (m1, nxt)"
    and cov: "\<And>a r. a \<in> set frontier \<Longrightarrow> r \<in> set (callees a) \<Longrightarrow> ok r \<Longrightarrow> refCallee r \<in> dom (map_of m1)"
    using assms(2) spread_refl[of "Suc dist" "(m1, nxt)"] by fastforce+
  show mono: "map_of m \<subseteq>\<^sub>m map_of m1" using sp by (simp add: spread_def)
  have old: "map_of m a = Some v \<or> v = Suc dist \<and> a \<in> set nxt" if "map_of m1 a = Some v" for a v
    using sp that by (auto simp: spread_def)
  have lay: "v \<le> dist" "v = dist \<Longrightarrow> a \<in> set frontier" "v < dist \<Longrightarrow> closed_at callees ok m a v"
    if "map_of m a = Some v" for a v
    using assms(1) that unfolding layered_def by blast+
  have small: "v \<le> Suc dist" if "map_of m1 a = Some v" for a v
    using old[OF that] lay(1)[of a v] by auto
  have keep: "map_of m1 b = Some w" if "map_of m b = Some w" for b w
    by (rule map_le_SomeD[OF mono that])
  have "closed_at callees ok m1 a v" if v: "map_of m1 a = Some v" "v < Suc dist" for a v
  proof -
    have m: "map_of m a = Some v" using old[OF v(1)] v(2) by auto
    show ?thesis
    proof (cases "v = dist")
      case True
      from lay(2)[OF m True] have "\<exists>w. map_of m1 (refCallee r) = Some w" if "r \<in> set (callees a)" "ok r" for r
        using cov[OF _ that] by auto
      then show ?thesis using small True unfolding closed_at_def by blast
    next
      case False
      then have "closed_at callees ok m a v" using lay(1)[OF m] lay(3)[OF m] by simp
      then show ?thesis using keep unfolding closed_at_def by blast
    qed
  qed
  moreover have "a \<in> set nxt" if "map_of m1 a = Some (Suc dist)" for a
    using old[OF that] lay(1)[of a "Suc dist"] by auto
  ultimately show "layered callees ok (Suc dist) nxt m1"
    using small unfolding layered_def by blast
qed

lemma corridor_spec:
  assumes "layered callees ok dist frontier m" and "dist \<le> budget"
  shows "map_of m \<subseteq>\<^sub>m map_of (corridor callees ok budget dist frontier m) \<and>
     (\<forall>a v. map_of (corridor callees ok budget dist frontier m) a = Some v \<longrightarrow> v < budget \<longrightarrow>
        closed_at callees ok (corridor callees ok budget dist frontier m) a v)"
  using assms
proof (induction callees ok budget dist frontier m rule: corridor.induct)
  case (1 callees ok budget dist frontier m)
  show ?case
  proof (cases "frontier = [] \<or> \<not> dist < budget")
    case True
    then have "corridor callees ok budget dist frontier m = m" by (simp add: corridor.simps)
    moreover have "closed_at callees ok m a v" if "map_of m a = Some v" "v < budget" for a v
      using True that "1.prems" unfolding layered_def
      by (metis le_neq_implies_less linorder_not_less list.set(1) empty_iff order_antisym_conv)
    ultimately show ?thesis by auto
  next
    case False
    obtain m1 nxt where r: "fold (corridor_node callees ok (Suc dist)) frontier (m, []) = (m1, nxt)" by fastforce
    have c: "corridor callees ok budget dist frontier m = corridor callees ok budget (Suc dist) nxt m1"
      using False r by (subst corridor.simps) simp
    note round = corridor_round[OF "1.prems"(1) r]
    have "Suc dist \<le> budget" using False by simp
    from "1.IH"[OF False r[symmetric] refl round(1) this] round(2) show ?thesis
      unfolding c by (blast intro: map_le_trans)
  qed
qed

fun descends :: "(sid \<Rightarrow> EdgeRef list) \<Rightarrow> (EdgeRef \<Rightarrow> bool) \<Rightarrow> sid list \<Rightarrow> nat \<Rightarrow> sid \<Rightarrow> bool" where
  \<comment> \<open>\<open>k\<close> allowed callee edges lead from a start to the node\<close>
  "descends callees ok starts 0 n = (n \<in> set starts)"
| "descends callees ok starts (Suc k) n =
     (\<exists>a. descends callees ok starts k a \<and> (\<exists>r \<in> set (callees a). ok r \<and> refCallee r = n))"

lemma seeds_map: "map_of (fold (\<lambda>st. uemplace st 0) starts m) n =
     (case map_of m n of Some v \<Rightarrow> Some v | None \<Rightarrow> if n \<in> set starts then Some (0 :: nat) else None)"
  by (induction starts arbitrary: m) (auto simp: umap_simps split: option.splits)

lemma min_from_descends:
  assumes "descends callees ok starts k n" and "k \<le> budget"
  shows "\<exists>m \<le> k. map_of (min_from callees ok budget starts) n = Some m"
proof -
  let ?m0 = "fold (\<lambda>st. uemplace st (0 :: nat)) starts []"
  have "layered callees ok 0 starts ?m0" by (auto simp: layered_def seeds_map split: if_splits)
  note c = corridor_spec[OF this le0, of budget, folded min_from_def]
  note mono = conjunct1[OF c]
  have cl: "closed_at callees ok (min_from callees ok budget starts) a v"
    if "map_of (min_from callees ok budget starts) a = Some v" "v < budget" for a v
    using conjunct2[OF c] that by metis
  show ?thesis using assms
  proof (induction k arbitrary: n)
    case 0
    then have "map_of ?m0 n = Some 0" by (simp add: seeds_map)
    then have "map_of (min_from callees ok budget starts) n = Some 0"
      by (rule map_le_SomeD[OF mono])
    then show ?case by blast
  next
    case (Suc k)
    then obtain a r where a: "descends callees ok starts k a" "r \<in> set (callees a)" "ok r" "refCallee r = n"
      by auto
    from Suc.IH[OF a(1)] Suc.prems(2) obtain v where "v \<le> k" "map_of (min_from callees ok budget starts) a = Some v"
      by auto
    with cl[of a v] a Suc.prems(2) show ?case unfolding closed_at_def by force
  qed
qed

lemma ascends_descends:
  assumes "filter_dual (cqGraph q) (cqFilter q)"
  shows "ascends q t k n \<Longrightarrow>
     \<exists>j \<le> k. descends (calleeRefsOf (cqGraph q)) (allowsRef (cqFilter q)) (cqStarts q) j n"
proof (induction k arbitrary: n)
  case (Suc k)
  show ?case
  proof (cases "n \<in> set (cqStarts q)")
    case True
    then show ?thesis by (intro exI[of _ 0]) simp
  next
    case False
    then obtain e where e: "e \<in> set (callerRefsOf (cqGraph q) n)" "allowsRef (cqFilter q) e" "ascends q t k (refCaller e)"
      using Suc.prems by auto
    from Suc.IH[OF e(3)] obtain j where "j \<le> k"
      "descends (calleeRefsOf (cqGraph q)) (allowsRef (cqFilter q)) (cqStarts q) j (refCaller e)" by auto
    moreover obtain r where "r \<in> set (calleeRefsOf (cqGraph q) (refCaller e))" "refCallee r = n"
      "allowsRef (cqFilter q) r"
      using assms e(1,2) unfolding filter_dual_def by blast
    ultimately show ?thesis by (intro exI[of _ "Suc j"]) auto
  qed
qed simp

definition corridor_ok :: "ChainQuery \<Rightarrow> bool" where
  "corridor_ok q \<longleftrightarrow> cqBudget q < 2 ^ 32 \<and>
     (\<forall>t dep n. dep < cqBudget q \<longrightarrow> ascends q t (cqBudget q - Suc dep) n \<longrightarrow> in_corridor q dep n)"

lemma chain_query_simps [simp]:
  "cqGraph (chain_query g f starts mp b mf) = g" "cqFilter (chain_query g f starts mp b mf) = f"
  "cqStarts (chain_query g f starts mp b mf) = starts" "cqMaxPaths (chain_query g f starts mp b mf) = mp"
  "cqBudget (chain_query g f starts mp b mf) = b" "cqMaxFanIn (chain_query g f starts mp b mf) = mf"
  "cqMinFrom (chain_query g f starts mp b mf) = min_from (calleeRefsOf g) (allowsRef f) b starts"
  by (simp_all add: chain_query_def)

lemma ascends_min_from:
  assumes "filter_dual g f" and "ascends (chain_query g f starts mp b mf) t k n" and "k \<le> b"
  shows "\<exists>m \<le> k. map_of (min_from (calleeRefsOf g) (allowsRef f) b starts) n = Some m"
proof -
  from ascends_descends[of "chain_query g f starts mp b mf" t k n] assms(1,2)
  obtain j where "j \<le> k" "descends (calleeRefsOf g) (allowsRef f) starts j n" by auto
  with min_from_descends[of "calleeRefsOf g" "allowsRef f" starts j n b] assms(3) show ?thesis by force
qed

lemma corridor_ok_query:
  assumes "filter_dual g f" and "b < 2 ^ 32"
  shows "corridor_ok (chain_query g f starts mp b mf)"
  unfolding corridor_ok_def
proof (intro conjI allI impI)
  fix t dep n
  assume d: "dep < cqBudget (chain_query g f starts mp b mf)"
    "ascends (chain_query g f starts mp b mf) t (cqBudget (chain_query g f starts mp b mf) - Suc dep) n"
  from ascends_min_from[OF assms(1), of starts mp b mf t "b - Suc dep" n] d
  obtain m where "m \<le> b - Suc dep" "map_of (min_from (calleeRefsOf g) (allowsRef f) b starts) n = Some m"
    by auto
  then show "in_corridor (chain_query g f starts mp b mf) dep n"
    using d(1) assms(2) u32_small[of "m + dep + 1"] by (simp add: in_corridor_def)
qed (use assms in simp)

subsection \<open>The search agrees with the enumeration\<close>

definition upto_limit :: "ChainQuery \<Rightarrow> FoundPath list \<Rightarrow> FoundPath list" where
  "upto_limit q ps = take (nat (cqMaxPaths q)) ps"

definition state_ok :: "ChainQuery \<Rightarrow> sid \<Rightarrow> ChainSearch \<Rightarrow> bool" where
  "state_ok q t s \<longleftrightarrow> length (foundPaths s) \<le> nat (cqMaxPaths q) \<and> dead_ok q t s"

lemma enough_upto: "enough q s \<Longrightarrow> length (foundPaths s) \<le> nat (cqMaxPaths q) \<Longrightarrow>
    upto_limit q (foundPaths s @ ps) = foundPaths s"
  by (simp add: enough_def upto_limit_def nat_le_iff)

lemma upto_limit_same: "state_ok q t s \<Longrightarrow> upto_limit q (foundPaths s) = foundPaths s"
  by (simp add: upto_limit_def state_ok_def)

lemma upto_limit_assoc: "upto_limit q (upto_limit q xs @ ys) = upto_limit q (xs @ ys)"
  by (simp add: upto_limit_def min_def)

definition dead_caller :: "ChainQuery \<Rightarrow> sid \<Rightarrow> nat \<Rightarrow> EdgeRef \<Rightarrow> bool" where
  "dead_caller q t dep e \<longleftrightarrow>
     (allowsRef (cqFilter q) e \<longrightarrow> dep < cqBudget q \<longrightarrow> \<not> ascends q t (cqBudget q - Suc dep) (refCaller e))"

definition searched :: "ChainQuery \<Rightarrow> sid \<Rightarrow> ChainSearch \<Rightarrow> FoundPath list \<Rightarrow> ((bool \<times> bool) \<times> ChainSearch) \<Rightarrow> bool \<Rightarrow> bool" where
  \<comment> \<open>what a call owes its caller: the paths added, a sound memo, and truth of "no flag" claims\<close>
  "searched q t s ps r claim \<longleftrightarrow>
     foundPaths (snd r) = upto_limit q (foundPaths s @ ps) \<and> state_ok q t (snd r) \<and>
     (fst r = (False, False) \<longrightarrow> claim)"

lemma chains_dead: "\<not> ascends q t (cqBudget q - dep) node \<Longrightarrow> dep = 0 \<longrightarrow> node = t \<Longrightarrow>
    chains_to q node dep path es = []"
  using chains_to_ascends by blast

lemma next_chains_dead:
  assumes "corridor_ok q" and "\<not> in_corridor q dep (refCaller e)"
  shows "next_chains q dep path es e = []" and "dead_caller q t dep e"
proof -
  have d: "dep < cqBudget q \<longrightarrow> \<not> ascends q t' (cqBudget q - Suc dep) (refCaller e)" for t'
    using assms by (auto simp: corridor_ok_def)
  then show "dead_caller q t dep e" by (simp add: dead_caller_def)
  show "next_chains q dep path es e = []"
  proof (cases "dep < cqBudget q")
    case True
    with d[of "refCaller e"] show ?thesis by (simp add: next_chains_def chains_dead)
  next
    case False
    then show ?thesis by (simp add: next_chains_def chains_to.simps[of q _ "Suc dep"])
  qed
qed

lemma dead_expansion:
  assumes "dep \<le> cqBudget q" and "node \<notin> set (cqStarts q)"
    and "\<forall>e \<in> set (callerRefsOf (cqGraph q) node). dead_caller q t dep e"
  shows "\<not> ascends q t (cqBudget q - dep) node"
proof (cases "dep = cqBudget q")
  case False
  then obtain k where "cqBudget q - dep = Suc k" "k = cqBudget q - Suc dep" "dep < cqBudget q"
    using assms(1) by (metis Suc_diff_Suc le_neq_implies_less)
  then show ?thesis using assms(2,3) by (auto simp: dead_caller_def)
qed (use assms in simp)

lemma state_ok_deadI:
  assumes "state_ok q t s" and "dep \<le> cqBudget q" and "\<not> ascends q t (cqBudget q - dep) node"
  shows "state_ok q t (s\<lparr>deadAt := note_dead node dep (deadAt s)\<rparr>)"
  using assms dead_ok_note[of q t s dep node] by (simp add: state_ok_def)

lemma state_ok_hub [simp]: "state_ok q t (s\<lparr>skippedHubs := h\<rparr>) = state_ok q t s"
  by (simp add: state_ok_def dead_ok_def)

lemma not_enough_room: "\<not> enough q s \<Longrightarrow> Suc (length (foundPaths s)) \<le> nat (cqMaxPaths q)"
  by (simp add: enough_def)

lemma not_ascends_hub: "is_hub q node \<Longrightarrow> node \<noteq> t \<Longrightarrow> node \<notin> set (cqStarts q) \<Longrightarrow> \<not> ascends q t k node"
  by (cases k) auto

definition at_root :: "sid \<Rightarrow> nat \<Rightarrow> sid list \<Rightarrow> sid \<Rightarrow> bool" where
  \<comment> \<open>the target opens the path, and is met nowhere else\<close>
  "at_root t dep path node \<longleftrightarrow> (if dep = 0 then path = [] \<and> node = t else t \<in> set path \<and> node \<notin> set path)"

lemma dfs_stops:
  assumes ok: "state_ok q t s" and root: "at_root t dep path node"
    and stop: "enough q s \<or> cqBudget q < dep \<or> known_dead s node dep \<or> node \<in> set (cqStarts q) \<or>
      dep > 0 \<and> is_hub q node"
  shows "searched q t s (chains_to q node dep path es) (chain_dfs q node dep path es s)
       (\<not> ascends q t (cqBudget q - dep) node \<or> cqBudget q < dep)"
proof -
  note len = ok[unfolded state_ok_def, THEN conjunct1] and same = upto_limit_same[OF ok]
  note defs = chain_dfs.simps(1)[of q node dep path es s] searched_def chains_to.simps[of q node dep path es]
  consider "enough q s" | (deep) "\<not> enough q s" "cqBudget q < dep"
    | (dead) "\<not> enough q s" "\<not> cqBudget q < dep" "known_dead s node dep"
    | (start) "\<not> enough q s" "\<not> cqBudget q < dep" "\<not> known_dead s node dep" "node \<in> set (cqStarts q)"
    | (hub) "\<not> enough q s" "\<not> cqBudget q < dep" "\<not> known_dead s node dep" "node \<notin> set (cqStarts q)"
        "dep > 0 \<and> is_hub q node" using stop by blast
  then show ?thesis
  proof cases
    case 1
    then show ?thesis using ok enough_upto[OF 1 len] by (simp add: chain_dfs.simps searched_def)
  next
    case deep
    then show ?thesis using ok same by (simp add: defs)
  next
    case dead
    then have d: "\<not> ascends q t (cqBudget q - dep) node"
      using known_dead_ascends ok by (auto simp: state_ok_def)
    have "chains_to q node dep path es = []"
      by (rule chains_dead[OF d]) (use root in \<open>simp add: at_root_def\<close>)
    with d dead show ?thesis using ok same by (simp add: chain_dfs.simps searched_def)
  next
    case start
    then show ?thesis using ok not_enough_room[OF start(1)]
      by (simp add: defs upto_limit_def state_ok_def dead_ok_def)
  next
    case hub
    have "node \<noteq> t" using hub(5) root by (auto simp: at_root_def split: if_splits)
    then have d: "\<not> ascends q t (cqBudget q - dep) node" using hub by (intro not_ascends_hub) auto
    with hub show ?thesis
      using ok same state_ok_deadI[OF _ _ d, of "s\<lparr>skippedHubs := h\<rparr>" for h] by (simp add: defs)
  qed
qed

lemma chain_dfs_go:
  assumes go: "\<not> enough q s" "\<not> cqBudget q < dep" "\<not> known_dead s node dep" "node \<notin> set (cqStarts q)"
      "\<not> (dep > 0 \<and> is_hub q node)"
    and r: "chain_callers q (callerRefsOf (cqGraph q) node) dep (path @ [node]) es (False, False) s = (flags, s1)"
  shows "chain_dfs q node dep path es s =
     (flags, if flags = (False, False) then s1\<lparr>deadAt := note_dead node dep (deadAt s1)\<rparr> else s1)"
proof -
  have "(dep > 0 \<and> is_hub q node) = False" using go(5) by blast
  then show ?thesis using go(1-4) r by (subst chain_dfs.simps) (simp only: Let_def if_False refl, simp)
qed

lemma dfs_expands:
  assumes go: "\<not> enough q s" "\<not> cqBudget q < dep" "\<not> known_dead s node dep" "node \<notin> set (cqStarts q)"
      "\<not> (dep > 0 \<and> is_hub q node)"
    and below: "searched q t s (concat (map (next_chains q dep (path @ [node]) es) (callerRefsOf (cqGraph q) node)))
      (chain_callers q (callerRefsOf (cqGraph q) node) dep (path @ [node]) es (False, False) s)
      ((False, False) = (False, False) \<and> (\<forall>e \<in> set (callerRefsOf (cqGraph q) node). dead_caller q t dep e))"
  shows "searched q t s (chains_to q node dep path es) (chain_dfs q node dep path es s)
       (\<not> ascends q t (cqBudget q - dep) node \<or> cqBudget q < dep)"
proof -
  obtain flags s1 where r: "chain_callers q (callerRefsOf (cqGraph q) node) dep (path @ [node]) es (False, False) s = (flags, s1)"
    by fastforce
  have IH: "foundPaths s1 = upto_limit q (foundPaths s @ chains_to q node dep path es)" "state_ok q t s1"
    "flags = (False, False) \<longrightarrow> (\<forall>e \<in> set (callerRefsOf (cqGraph q) node). dead_caller q t dep e)"
    using below go r by (simp_all add: searched_def chains_to_unfold)
  show ?thesis
  proof (cases "flags = (False, False)")
    case True
    then have d: "\<not> ascends q t (cqBudget q - dep) node"
      using IH(3) go by (intro dead_expansion) auto
    show ?thesis using IH d True state_ok_deadI[OF IH(2) _ d] go by (simp add: searched_def chain_dfs_go[OF go r])
  next
    case False
    then show ?thesis using IH by (auto simp: searched_def chain_dfs_go[OF go r])
  qed
qed

lemma callers_enter:
  assumes enter: "refCaller edge \<notin> set path" "allowsRef (cqFilter q) edge" "in_corridor q dep (refCaller edge)"
    and r: "chain_dfs q (refCaller edge) (Suc dep) path (es @ [edge]) s = (fl, s1)"
    and here: "searched q t s (chains_to q (refCaller edge) (Suc dep) path (es @ [edge])) (fl, s1)
      (\<not> ascends q t (cqBudget q - Suc dep) (refCaller edge) \<or> cqBudget q < Suc dep)"
    and rest: "\<not> enough q s1 \<Longrightarrow> state_ok q t s1 \<Longrightarrow>
      searched q t s1 (concat (map (next_chains q dep path es) callers))
        (chain_callers q callers dep path es (fst flags \<or> fst fl, snd flags \<or> snd fl) s1)
        ((fst flags \<or> fst fl, snd flags \<or> snd fl) = (False, False) \<and> (\<forall>e \<in> set callers. dead_caller q t dep e))"
  shows "searched q t s (concat (map (next_chains q dep path es) (edge # callers)))
       (chain_callers q (edge # callers) dep path es flags s)
       (flags = (False, False) \<and> (\<forall>e \<in> set (edge # callers). dead_caller q t dep e))"
proof -
  have n: "next_chains q dep path es edge = chains_to q (refCaller edge) (Suc dep) path (es @ [edge])"
    using enter by (simp add: next_chains_def)
  have IH: "foundPaths s1 = upto_limit q (foundPaths s @ next_chains q dep path es edge)" "state_ok q t s1"
    "fl = (False, False) \<longrightarrow> dead_caller q t dep edge"
    using here by (auto simp: searched_def n dead_caller_def)
  let ?flags1 = "(fst flags \<or> fst fl, snd flags \<or> snd fl)"
  show ?thesis
  proof (cases "enough q s1")
    case True
    have "upto_limit q (foundPaths s1 @ concat (map (next_chains q dep path es) callers)) = foundPaths s1"
      by (rule enough_upto[OF True]) (use IH(2) in \<open>simp add: state_ok_def\<close>)
    then have "foundPaths s1 = upto_limit q (foundPaths s @ concat (map (next_chains q dep path es) (edge # callers)))"
      by (simp add: IH(1) upto_limit_assoc)
    then show ?thesis using enter r True IH(2) by (simp add: chain_dfs.simps searched_def)
  next
    case False
    have "chain_callers q (edge # callers) dep path es flags s = chain_callers q callers dep path es ?flags1 s1"
      using enter r False by (simp add: chain_dfs.simps)
    moreover have "?flags1 = (False, False) \<longleftrightarrow> flags = (False, False) \<and> fl = (False, False)"
      by (cases flags; cases fl) auto
    ultimately show ?thesis using rest[OF False IH(2)] IH(3) by (auto simp: searched_def IH(1) upto_limit_assoc)
  qed
qed

lemma chain_dfs_correct:
  "corridor_ok q \<Longrightarrow> state_ok q t s \<Longrightarrow> at_root t dep path node \<Longrightarrow>
     searched q t s (chains_to q node dep path es) (chain_dfs q node dep path es s)
       (\<not> ascends q t (cqBudget q - dep) node \<or> cqBudget q < dep)"
  and "corridor_ok q \<Longrightarrow> state_ok q t s \<Longrightarrow> t \<in> set path \<Longrightarrow>
     searched q t s (concat (map (next_chains q dep path es) callers))
       (chain_callers q callers dep path es flags s)
       (flags = (False, False) \<and> (\<forall>e \<in> set callers. dead_caller q t dep e))"
proof (induction q node dep path es s and q callers dep path es flags s rule: chain_dfs_chain_callers.induct)
  case (1 q node dep path es s)
  show ?case
  proof (cases "enough q s \<or> cqBudget q < dep \<or> known_dead s node dep \<or> node \<in> set (cqStarts q) \<or>
      dep > 0 \<and> is_hub q node")
    case True
    with "1.prems" show ?thesis by (intro dfs_stops)
  next
    case False
    then have go: "\<not> enough q s" "\<not> cqBudget q < dep" "\<not> known_dead s node dep" "node \<notin> set (cqStarts q)"
      "\<not> (dep > 0 \<and> is_hub q node)" by blast+
    have "t \<in> set (path @ [node])" using "1.prems"(3) by (auto simp: at_root_def split: if_splits)
    from dfs_expands[OF go "1.IH"[OF go(1-3) refl go(4,5) "1.prems"(1,2) this]] show ?thesis .
  qed
next
  case (2 q dep path es flags s)
  then show ?case using upto_limit_same[of q t s] by (simp add: chain_dfs.simps searched_def)
next
  case (3 q edge callers dep path es flags s)
  consider (onPath) "refCaller edge \<in> set path"
    | (refused) "refCaller edge \<notin> set path" "\<not> allowsRef (cqFilter q) edge"
    | (cut) "refCaller edge \<notin> set path" "allowsRef (cqFilter q) edge" "\<not> in_corridor q dep (refCaller edge)"
    | (enter) "refCaller edge \<notin> set path" "allowsRef (cqFilter q) edge" "in_corridor q dep (refCaller edge)"
    by blast
  then show ?case
  proof cases
    case onPath
    with "3.IH"(1)[OF onPath "3.prems"] show ?thesis
      by (simp add: chain_dfs.simps searched_def next_chains_def)
  next
    case refused
    with "3.IH"(2)[OF refused(1) _ "3.prems"] show ?thesis
      by (simp add: chain_dfs.simps searched_def next_chains_def dead_caller_def)
  next
    case cut
    with "3.IH"(3)[OF cut(1) _ _ "3.prems"] next_chains_dead[OF "3.prems"(1) cut(3)] show ?thesis
      by (simp add: chain_dfs.simps searched_def)
  next
    case enter
    obtain fl s1 where r: "chain_dfs q (refCaller edge) (Suc dep) path (es @ [edge]) s = (fl, s1)" by fastforce
    have "at_root t (Suc dep) path (refCaller edge)" using enter(1) "3.prems"(3) by (simp add: at_root_def)
    note here = "3.IH"(4)[OF enter(1) _ _ "3.prems"(1,2) this]
    note rest = "3.IH"(5)[OF enter(1) _ _ refl r[symmetric] refl _ "3.prems"(1) _ "3.prems"(3)]
    show ?thesis by (rule callers_enter[OF enter r]) (use here rest enter r in simp_all)
  qed
qed

subsection \<open>Which chains the enumeration lists\<close>

fun climb :: "ChainQuery \<Rightarrow> nat \<Rightarrow> sid list \<Rightarrow> sid \<Rightarrow> EdgeRef list \<Rightarrow> bool" where
  \<comment> \<open>the caller edges \<open>es\<close> lead from the node to a start, meeting no node of \<open>seen\<close> and none twice\<close>
  "climb q dep seen node [] = (dep \<le> cqBudget q \<and> node \<in> set (cqStarts q))"
| "climb q dep seen node (e # es) =
     (dep \<le> cqBudget q \<and> node \<notin> set (cqStarts q) \<and> \<not> (dep > 0 \<and> is_hub q node) \<and>
      e \<in> set (callerRefsOf (cqGraph q) node) \<and> allowsRef (cqFilter q) e \<and>
      refCaller e \<notin> set (seen @ [node]) \<and> climb q (Suc dep) (seen @ [node]) (refCaller e) es)"

definition chain_of :: "sid list \<Rightarrow> EdgeRef list \<Rightarrow> FoundPath" where
  "chain_of ns es = \<lparr>fpNodes = rev ns, fpEdges = rev es\<rparr>"

lemma set_chains_to:
  "set (chains_to q node dep path es0) =
     {chain_of (path @ node # map refCaller es) (es0 @ es) | es. climb q dep path node es}"
proof (induction q node dep path es0 rule: chains_to.induct)
  case (1 q node dep path es0)
  let ?R = "\<lambda>es. chain_of (path @ node # map refCaller es) (es0 @ es)"
  show ?case
  proof (cases "dep \<le> cqBudget q \<and> node \<notin> set (cqStarts q) \<and> \<not> (dep > 0 \<and> is_hub q node)")
    case False
    then have "climb q dep path node es \<longleftrightarrow> dep \<le> cqBudget q \<and> node \<in> set (cqStarts q) \<and> es = []" for es
      by (cases es) auto
    with False show ?thesis by (auto simp: chains_to.simps[of q node dep path es0] chain_of_def)
  next
    case True
    then have go: "\<not> cqBudget q < dep" "node \<notin> set (cqStarts q)" "\<not> (dep > 0 \<and> is_hub q node)" by auto
    have row: "set (next_chains q dep (path @ [node]) es0 e) = {?R (e # es) | es. climb q dep path node (e # es)}"
      if e: "e \<in> set (callerRefsOf (cqGraph q) node)" for e
    proof (cases "refCaller e \<in> set (path @ [node]) \<or> \<not> allowsRef (cqFilter q) e")
      case False
      with "1.IH"[OF go e False] True e show ?thesis by (simp add: next_chains_def)
    qed (auto simp: next_chains_def)
    have "set (chains_to q node dep path es0) =
        (\<Union>e \<in> set (callerRefsOf (cqGraph q) node). {?R (e # es) | es. climb q dep path node (e # es)})"
      using True row by (simp add: chains_to_unfold)
    also have "\<dots> = {?R es | es. climb q dep path node es}"
    proof (intro equalityI subsetI)
      fix x assume "x \<in> {?R es | es. climb q dep path node es}"
      then obtain es where es: "climb q dep path node es" "x = ?R es" by blast
      then obtain e es' where "es = e # es'" using True by (cases es) auto
      with es show "x \<in> (\<Union>e \<in> set (callerRefsOf (cqGraph q) node). {?R (e # es) | es. climb q dep path node (e # es)})"
        by auto
    qed blast
    finally show ?thesis .
  qed
qed

end
