(* ===== verification/CallChainProps.thy ===== *)
theory CallChainProps
  imports CallChainSpec
begin

text \<open>
  Properties of \<open>find_call_chain\<close>: the chains it reports are exactly the cycle-free chains within
  its limits, every reported chain is one whatever the filter, and an empty answer without a hub
  cut means that no start reaches the target within the budget.
\<close>

definition call_chain :: "ChainQuery \<Rightarrow> sid \<Rightarrow> FoundPath \<Rightarrow> bool" where
  \<comment> \<open>a cycle-free chain from a start to the target over allowed edges, no start inside, no hub expanded\<close>
  "call_chain q t fp \<longleftrightarrow>
     (\<exists>es. let ns = t # map refCaller es in
        fp = \<lparr>fpNodes = rev ns, fpEdges = rev es\<rparr> \<and> distinct ns \<and> length es \<le> cqBudget q \<and>
        last ns \<in> set (cqStarts q) \<and>
        (\<forall>i < length es. es ! i \<in> set (callerRefsOf (cqGraph q) (ns ! i)) \<and> allowsRef (cqFilter q) (es ! i) \<and>
           ns ! i \<notin> set (cqStarts q) \<and> (i > 0 \<longrightarrow> \<not> is_hub q (ns ! i))))"

lemma chain_climb_iff:
  "climb q dep path node es \<longleftrightarrow>
     (let ns = node # map refCaller es in
        dep + length es \<le> cqBudget q \<and> distinct (map refCaller es) \<and>
        set (map refCaller es) \<inter> set (path @ [node]) = {} \<and> last ns \<in> set (cqStarts q) \<and>
        (\<forall>i < length es. es ! i \<in> set (callerRefsOf (cqGraph q) (ns ! i)) \<and> allowsRef (cqFilter q) (es ! i) \<and>
           ns ! i \<notin> set (cqStarts q) \<and> (dep + i > 0 \<longrightarrow> \<not> is_hub q (ns ! i))))"
proof (induction es arbitrary: dep path node)
  case Nil
  then show ?case by simp
next
  case (Cons e es)
  show ?case
    unfolding climb.simps Cons.IH[of "Suc dep" "path @ [node]" "refCaller e"] Let_def
    by (auto simp: All_less_Suc2)
qed

lemma set_chains_to_target: "set (chains_to q t 0 [] []) = {fp. call_chain q t fp}"
  by (auto simp: set_chains_to chain_climb_iff call_chain_def chain_of_def Let_def)

text \<open>On a well-formed graph the two edge queries are dual, so the default filter is.\<close>

lemma default_filter_allows [simp]: "allowsRef default_filter r"
  by (cases "refConfidence r") (simp_all add: allowsRef_def allowsFields_def default_filter_def)

lemma caller_ref_reaches:
  assumes "wf_graph g" and "r \<in> set (callerRefsOf g b)"
  shows "call_reaches g (refCaller r) b (refCallSite r)" and "refCallee r = b"
proof -
  note E = callerRefsOf_spec[OF wf_graphD(2,4)[OF assms(1)]]
  show "call_reaches g (refCaller r) b (refCallSite r)" using E(1)[of b] assms(2) by auto
  show "refCallee r = b" using E(2)[OF assms(2)] by (metis expand_ref_simps(2))
qed

lemma callee_ref_exists:
  assumes "wf_graph g" and "call_reaches g a b s"
  shows "\<exists>r \<in> set (calleeRefsOf g a). refCallee r = b"
proof -
  have "(b, s) \<in> calleeKey ` set (calleeRefsOf g a)"
    using calleeRefsOf_spec(1)[OF wf_graphD(2)[OF assms(1)], of a] assms(2) by simp
  then show ?thesis by auto
qed

lemma filter_dual_default: "wf_graph g \<Longrightarrow> filter_dual g default_filter"
  by (simp add: filter_dual_def) (metis caller_ref_reaches(1) callee_ref_exists)

lemma find_chains_first:
  assumes "filter_dual g f" and "b < 2 ^ 32"
  shows "foundPaths (find_chains (chain_query g f starts mp b mf) (Some t)) =
     take (nat mp) (chains_to (chain_query g f starts mp b mf) t 0 [] [])"
proof -
  let ?q = "chain_query g f starts mp b mf"
  let ?s0 = "\<lparr>foundPaths = [], deadAt = [], skippedHubs = []\<rparr>"
  have "state_ok ?q t ?s0" "at_root t 0 [] t" by (simp_all add: state_ok_def dead_ok_def at_root_def)
  from chain_dfs_correct(1)[OF corridor_ok_query[OF assms] this]
  have found: "foundPaths (snd (chain_dfs ?q t 0 [] [] ?s0)) = take (nat mp) (chains_to ?q t 0 [] [])"
    unfolding searched_def upto_limit_def by fastforce
  have none: "chains_to ?q t 0 [] [] = []" if "\<not> (\<exists>m \<le> b. map_of (cqMinFrom ?q) t = Some m)"
  proof (rule ccontr)
    assume "chains_to ?q t 0 [] [] \<noteq> []"
    then have "ascends ?q t b t" using chains_to_ascends[where q = ?q and node = t and dep = 0 and t = t] by simp
    from ascends_min_from[OF assms(1) this order_refl] that show False by auto
  qed
  show ?thesis
  proof (cases "map_of (cqMinFrom ?q) t")
    case None
    with none show ?thesis by (simp add: find_chains_def)
  next
    case (Some m)
    with none found show ?thesis by (cases "m \<le> b") (auto simp: find_chains_def Let_def)
  qed
qed

subsection \<open>Soundness for every filter\<close>

definition only_adds :: "ChainQuery \<Rightarrow> ChainSearch \<Rightarrow> FoundPath set \<Rightarrow> ChainSearch \<Rightarrow> bool" where
  "only_adds q s P s1 \<longleftrightarrow> set (foundPaths s1) \<subseteq> set (foundPaths s) \<union> P \<and>
     (length (foundPaths s) \<le> nat (cqMaxPaths q) \<longrightarrow> length (foundPaths s1) \<le> nat (cqMaxPaths q))"

lemma only_adds_refl: "only_adds q s P s"
  by (simp add: only_adds_def)

lemma only_adds_trans: "only_adds q s P s1 \<Longrightarrow> only_adds q s1 Q s2 \<Longrightarrow> P \<union> Q \<subseteq> R \<Longrightarrow> only_adds q s R s2"
  by (fastforce simp: only_adds_def)

lemma only_adds_frame [simp]:
  "only_adds q s P (s1\<lparr>deadAt := d\<rparr>) = only_adds q s P s1"
  "only_adds q s P (s1\<lparr>skippedHubs := h\<rparr>) = only_adds q s P s1"
  by (simp_all add: only_adds_def)

lemma chain_dfs_sound:
  "only_adds q s (set (chains_to q node dep path es)) (snd (chain_dfs q node dep path es s))"
  and "only_adds q s (\<Union>e \<in> set callers. set (next_chains q dep path es e))
     (snd (chain_callers q callers dep path es flags s))"
proof (induction q node dep path es s and q callers dep path es flags s rule: chain_dfs_chain_callers.induct)
  case (1 q node dep path es s)
  show ?case
  proof (cases "enough q s \<or> cqBudget q < dep \<or> known_dead s node dep \<or> node \<in> set (cqStarts q) \<or>
      dep > 0 \<and> is_hub q node")
    case True
    then show ?thesis
      by (auto simp: chain_dfs.simps only_adds_refl)
        (auto simp: only_adds_def chains_to.simps[of q node dep] enough_def)
  next
    case False
    then have go: "\<not> enough q s" "\<not> cqBudget q < dep" "\<not> known_dead s node dep" "node \<notin> set (cqStarts q)"
      "\<not> (dep > 0 \<and> is_hub q node)" by blast+
    obtain flags s1 where r: "chain_callers q (callerRefsOf (cqGraph q) node) dep (path @ [node]) es (False, False) s = (flags, s1)"
      by fastforce
    have "only_adds q s (set (chains_to q node dep path es)) s1"
      using "1.IH"[OF go(1-3) refl go(4,5)] go r by (simp add: chains_to_unfold)
    then show ?thesis by (simp add: chain_dfs_go[OF go r])
  qed
next
  case (3 q edge callers dep path es flags s)
  consider (skip) "refCaller edge \<in> set path \<or> \<not> allowsRef (cqFilter q) edge \<or> \<not> in_corridor q dep (refCaller edge)"
    | (enter) "refCaller edge \<notin> set path" "allowsRef (cqFilter q) edge" "in_corridor q dep (refCaller edge)"
    by blast
  then show ?case
  proof cases
    case skip
    then have "only_adds q s (\<Union>e \<in> set callers. set (next_chains q dep path es e))
        (snd (chain_callers q (edge # callers) dep path es flags s))"
      using "3.IH"(1-3) by (cases "refCaller edge \<in> set path"; cases "allowsRef (cqFilter q) edge") (simp_all add: chain_dfs.simps)
    then show ?thesis by (rule only_adds_trans[OF only_adds_refl]) auto
  next
    case enter
    obtain fl s1 where r: "chain_dfs q (refCaller edge) (Suc dep) path (es @ [edge]) s = (fl, s1)" by fastforce
    have here: "only_adds q s (set (next_chains q dep path es edge)) s1"
      using "3.IH"(4)[OF enter(1)] enter r by (simp add: next_chains_def)
    show ?thesis
    proof (cases "enough q s1")
      case True
      then have "snd (chain_callers q (edge # callers) dep path es flags s) = s1"
        using enter r by (simp add: chain_dfs.simps)
      then show ?thesis using only_adds_trans[OF here only_adds_refl[of q s1 "{}"]] by auto
    next
      case False
      then have "only_adds q s1 (\<Union>e \<in> set callers. set (next_chains q dep path es e))
          (snd (chain_callers q (edge # callers) dep path es flags s))"
        using "3.IH"(5)[OF enter(1) _ _ refl r[symmetric] refl] enter r by (simp add: chain_dfs.simps)
      then show ?thesis by (rule only_adds_trans[OF here]) auto
    qed
  qed
qed (simp add: chain_dfs.simps only_adds_refl)

text \<open>C22: \<open>find_call_chain\<close> without filter arguments reports the first \<open>max_paths\<close> of the
  cycle-free chains of at most \<open>max_depth\<close> edges from a start to the target that pass through no
  other start and expand no hub: the corridor, the dead-end memo and the early stop lose nothing and
  add nothing.\<close>

theorem call_chains_exact:
  assumes "built g"
  shows "\<exists>ps. set ps = {fp. call_chain (chain_query g default_filter starts mp (u32 d) mf) t fp} \<and>
     foundPaths (find_chains (chain_query g default_filter starts mp (u32 d) mf) (Some t)) = take (nat mp) ps"
  using find_chains_first[OF filter_dual_default[OF built_invariant[OF assms]] u32_bound]
    set_chains_to_target by metis

text \<open>Whatever the filter and the limits, every chain \<open>find_call_chain\<close> reports is a cycle-free
  chain of caller edges the filter allows, from a start to the target within the budget, and no more
  than \<open>max_paths\<close> are reported.\<close>

theorem call_chains_sound:
  "length (foundPaths (find_chains q (Some t))) \<le> nat (cqMaxPaths q) \<and>
   set (foundPaths (find_chains q (Some t))) \<subseteq> {fp. call_chain q t fp}"
proof -
  let ?s0 = "\<lparr>foundPaths = [], deadAt = [], skippedHubs = []\<rparr>"
  have "find_chains q (Some t) = ?s0 \<or> find_chains q (Some t) = snd (chain_dfs q t 0 [] [] ?s0)"
    by (simp add: find_chains_def Let_def split: option.split)
  then have "only_adds q ?s0 (set (chains_to q t 0 [] [])) (find_chains q (Some t))"
    using only_adds_refl chain_dfs_sound(1) by metis
  then show ?thesis by (simp add: only_adds_def set_chains_to_target)
qed

subsection \<open>An empty answer\<close>

definition exact_rank :: "ChainQuery \<Rightarrow> sid \<Rightarrow> nat \<Rightarrow> sid \<Rightarrow> bool" where
  "exact_rank q t k n \<longleftrightarrow> ascends q t k n \<and> (\<forall>j < k. \<not> ascends q t j n)"

lemma exact_rank_exists: "ascends q t k n \<Longrightarrow> \<exists>j \<le> k. exact_rank q t j n"
  by (intro exI[of _ "LEAST j. ascends q t j n"])
    (auto simp: exact_rank_def simp del: ascends.simps intro: LeastI Least_le dest: not_less_Least)

lemma exact_rank_step:
  assumes "exact_rank q t (Suc k) n"
  shows "n \<notin> set (cqStarts q) \<and> (n = t \<or> \<not> is_hub q n) \<and>
     (\<exists>e \<in> set (callerRefsOf (cqGraph q) n). allowsRef (cqFilter q) e \<and> exact_rank q t k (refCaller e))"
proof -
  have n: "n \<notin> set (cqStarts q)" using assms ascends_start[of n q t 0] unfolding exact_rank_def by blast
  then obtain e where e: "n = t \<or> \<not> is_hub q n" "e \<in> set (callerRefsOf (cqGraph q) n)" "allowsRef (cqFilter q) e"
    "ascends q t k (refCaller e)"
    using assms by (auto simp: exact_rank_def)
  have "\<not> ascends q t j (refCaller e)" if "j < k" for j
  proof
    assume "ascends q t j (refCaller e)"
    with e have "ascends q t (Suc j) n" by auto
    with that assms show False by (auto simp: exact_rank_def simp del: ascends.simps)
  qed
  with e n show ?thesis by (auto simp: exact_rank_def)
qed

lemma shortest_climb:
  assumes "exact_rank q t k node" and "dep + k \<le> cqBudget q"
    and "\<forall>x \<in> set seen. \<not> ascends q t k x" and "if dep = 0 then node = t else t \<in> set seen"
  shows "\<exists>es. climb q dep seen node es"
  using assms
proof (induction k arbitrary: dep seen node)
  case 0
  then have "climb q dep seen node []" by (simp add: exact_rank_def)
  then show ?case by blast
next
  case (Suc k)
  from exact_rank_step[OF Suc.prems(1)] obtain e where e: "node \<notin> set (cqStarts q)" "node = t \<or> \<not> is_hub q node"
    "e \<in> set (callerRefsOf (cqGraph q) node)" "allowsRef (cqFilter q) e" "exact_rank q t k (refCaller e)" by blast
  have far: "\<not> ascends q t k x" if "x \<in> set (seen @ [node])" for x
    using that Suc.prems(1,3) ascends_Suc[of q t k x] by (auto simp: exact_rank_def simp del: ascends.simps)
  have new: "refCaller e \<notin> set (seen @ [node])" using far e(5) by (auto simp: exact_rank_def)
  have "ascends q t (Suc k) node" using Suc.prems(1) by (simp add: exact_rank_def del: ascends.simps)
  then have nt: "dep > 0 \<longrightarrow> node \<noteq> t" using Suc.prems(3,4) by (auto split: if_splits)
  have "t \<in> set (seen @ [node])" using Suc.prems(4) by (auto split: if_splits)
  then have "\<exists>es. climb q (Suc dep) (seen @ [node]) (refCaller e) es"
    using Suc.prems(2) far by (intro Suc.IH[OF e(5)]) simp_all
  then obtain es where "climb q (Suc dep) (seen @ [node]) (refCaller e) es" by blast
  with e new nt Suc.prems(2) have "climb q dep seen node (e # es)" by auto
  then show ?case by blast
qed

definition calls :: "CallGraph \<Rightarrow> (sid \<times> sid) set" where
  "calls g = {(a, b). \<exists>s. call_reaches g a b s}"

lemma ascends_relpow:
  assumes "wf_graph g"
  shows "ascends (chain_query g default_filter starts mp b 0) t k n \<longleftrightarrow>
     (\<exists>st \<in> set starts. \<exists>j \<le> k. (st, n) \<in> calls g ^^ j)"
proof (induction k arbitrary: n)
  case 0
  then show ?case by auto
next
  case (Suc k)
  let ?q = "chain_query g default_filter starts mp b 0"
  have callers: "(\<exists>e \<in> set (callerRefsOf g n). P (refCaller e)) \<longleftrightarrow> (\<exists>a. (a, n) \<in> calls g \<and> P a)" for P
    using callerRefsOf_spec(1)[OF wf_graphD(2,4)[OF assms], of n] by (force simp: calls_def set_eq_iff image_iff)
  have "ascends ?q t (Suc k) n \<longleftrightarrow> n \<in> set starts \<or> (\<exists>a. (a, n) \<in> calls g \<and> ascends ?q t k a)"
    using callers[of "ascends ?q t k"] by (auto simp: is_hub_def)
  also have "\<dots> \<longleftrightarrow> (\<exists>st \<in> set starts. \<exists>j \<le> Suc k. (st, n) \<in> calls g ^^ j)"
    unfolding Suc.IH
  proof (intro iffI; (elim disjE exE bexE conjE)?)
    fix st j assume a: "st \<in> set starts" "j \<le> Suc k" "(st, n) \<in> calls g ^^ j"
    show "n \<in> set starts \<or> (\<exists>a. (a, n) \<in> calls g \<and> (\<exists>st \<in> set starts. \<exists>j \<le> k. (st, a) \<in> calls g ^^ j))"
    proof (cases j)
      case (Suc i)
      then show ?thesis using a by (auto 4 3)
    qed (use a in auto)
  next
    fix a st j assume "(a, n) \<in> calls g" "st \<in> set starts" "j \<le> k" "(st, a) \<in> calls g ^^ j"
    then show "\<exists>st \<in> set starts. \<exists>j \<le> Suc k. (st, n) \<in> calls g ^^ j"
      by (intro bexI[of _ st] exI[of _ "Suc j"]) auto
  qed (intro bexI[of _ n] exI[of _ 0], auto)
  finally show ?case .
qed

text \<open>C23: With the hub cut disabled and room for a path, \<open>find_call_chain\<close> answers that there is no
  chain exactly when no start reaches the target in at most \<open>max_depth\<close> calls.\<close>

theorem no_chain_means_unreachable:
  assumes "built g" and "0 < mp"
  shows "foundPaths (find_chains (chain_query g default_filter starts mp (u32 d) 0) (Some t)) = [] \<longleftrightarrow>
     \<not> (\<exists>st \<in> set starts. \<exists>k \<le> u32 d. (st, t) \<in> calls g ^^ k)"
proof -
  note wf = built_invariant[OF assms(1)]
  let ?q = "chain_query g default_filter starts mp (u32 d) 0"
  have "chains_to ?q t 0 [] [] = [] \<longleftrightarrow> \<not> ascends ?q t (u32 d) t"
  proof
    assume "chains_to ?q t 0 [] [] = []"
    then have none: "\<not> climb ?q 0 [] t es" for es using set_chains_to[of ?q t 0 "[]" "[]"] by auto
    show "\<not> ascends ?q t (u32 d) t"
      using exact_rank_exists[of ?q t "u32 d" t] shortest_climb[of ?q t _ t 0 "[]"] none by fastforce
  next
    assume "\<not> ascends ?q t (u32 d) t"
    then show "chains_to ?q t 0 [] [] = []"
      using chains_to_ascends[where q = ?q and node = t and dep = 0 and t = t] by fastforce
  qed
  then show ?thesis using assms(2)
    by (simp add: find_chains_first[OF filter_dual_default[OF wf] u32_bound] ascends_relpow[OF wf])
qed

subsection \<open>A small program\<close>

definition chain_node :: "string \<Rightarrow> string \<Rightarrow> CallGraphNode" where
  "chain_node u n = \<lparr>qualifiedName = n, nodeFile = ''m.cpp'', nodeLine = 1, isEntryPoint = (n = ''main''),
     isVirtual = False, enclosingClass = [], usr = u\<rparr>"

definition chain_edge :: "string \<Rightarrow> string \<Rightarrow> string \<Rightarrow> CallGraphEdge" where
  "chain_edge a b s = \<lparr>callerName = a, calleeName = b, kind = DirectCall, confidence = Proven,
     callSite = s, indirectionDepth = 0, execContext = Synchronous, callerUsr = a, calleeUsr = b\<rparr>"

definition demo_calls :: CallGraph where
  \<comment> \<open>\<open>main\<close> calls \<open>f\<close>, \<open>f\<close> calls itself and \<open>g\<close>\<close>
  "demo_calls =
     addEdge (chain_edge ''u:f'' ''u:g'' ''m:4'') ''m.cpp''
       (addEdge (chain_edge ''u:f'' ''u:f'' ''m:3'') ''m.cpp''
         (addEdge (chain_edge ''u:main'' ''u:f'' ''m:2'') ''m.cpp''
           (addNode (chain_node ''u:g'' ''g'') ''m.cpp''
             (addNode (chain_node ''u:f'' ''f'') ''m.cpp''
               (addNode (chain_node ''u:main'' ''main'') ''m.cpp'' empty_graph)))))"

definition demo_ctx :: ToolContext where
  "demo_ctx = \<lparr>tcGraph = demo_calls,
     tcOracle = \<lparr>orGraph = demo_calls, orIndex = empty_index\<rparr>, tcIndex = empty_index,
     tcEntryPoints = [''main''], tcChannels = None, tcSummary = None, tcClassify = (\<lambda>_. None)\<rparr>"

lemma built_demo_calls: "built demo_calls"
  unfolding demo_calls_def
  by (rule built_small built.empty)+ (code_simp+)

definition demo_id :: "string \<Rightarrow> sid" where
  "demo_id u = the (find_id (cgInterner demo_calls) u)"

lemma demo_found:
  "foundPaths (find_chains (chain_query demo_calls default_filter [demo_id ''u:main''] 10 (u32 20) 0)
      (Some (demo_id ''u:g''))) =
     [\<lparr>fpNodes = map demo_id [''u:main'', ''u:f'', ''u:g''],
       fpEdges = [hd (callerRefsOf demo_calls (demo_id ''u:f'')), hd (callerRefsOf demo_calls (demo_id ''u:g''))]\<rparr>]"
  by code_simp

theorem call_chains_exact_witness:
  "\<exists>ps. set ps = {fp. call_chain (chain_query demo_calls default_filter [demo_id ''u:main''] 10 (u32 20) 0)
                        (demo_id ''u:g'') fp} \<and>
     length (take (nat 10) ps) = 1"
  using call_chains_exact[OF built_demo_calls, of "[demo_id ''u:main'']" 10 20 0 "demo_id ''u:g''"] demo_found
  by (metis length_Cons list.size(3) One_nat_def)

theorem no_chain_means_unreachable_witness:
  "\<exists>st \<in> {demo_id ''u:main''}. \<exists>k \<le> u32 20. (st, demo_id ''u:g'') \<in> calls demo_calls ^^ k"
  using no_chain_means_unreachable[OF built_demo_calls, of 10 "[demo_id ''u:main'']" 20 "demo_id ''u:g''"] demo_found
  by simp

text \<open>
  The default of \<open>from\<close>, the entry points of the context, never matches: they are display names,
  and their ids are not the ids edges are keyed by.  The same query with \<open>from\<close> set to the same
  name finds the chain.
\<close>

lemma entry_names_lost:
  "jfield (handleFindCallChain [(''to'', JStr ''g'')] demo_ctx) ''pathCount'' = Some (JInt 0) \<and>
   jfield (handleFindCallChain [(''to'', JStr ''g''), (''from'', JStr ''main'')] demo_ctx) ''pathCount'' = Some (JInt 1)"
  by code_simp

end
