(* ===== verification/LockTools.thy ===== *)
theory LockTools
  imports CallChain
begin

text \<open>
  The lock queries of src/query/LockTools.cpp: a reverse search from the target to the entry points
  that excludes the edges already on the path (not the nodes), and the locks live at the call sites
  of each path it finds.  Here a depth is the number of nodes of the path.  Hash maps and sets that
  are only probed are HOL sets; the memo of \<open>callerRefsOf\<close> is left out as in \<open>CallChain\<close>.
\<close>

type_synonym LockKey = "string \<times> string"

record LockOccurrence =
  loTypeName :: string
  loVarName :: string
  heldAt :: string

record PathResult =
  prEntryPoint :: string
  prPath :: "string list"
  locksHeld :: "LockOccurrence list"

definition kDefaultMaxDepth :: nat where "kDefaultMaxDepth = 20"
definition kMaxPaths :: int where "kMaxPaths = 512"
definition kDefaultMaxFanIn :: int where "kDefaultMaxFanIn = 1000"

definition lock_key :: "LockOccurrence \<Rightarrow> LockKey" where
  "lock_key l = (loTypeName l, loVarName l)"

definition collectLocksOnEdge :: "ControlFlowIndex \<Rightarrow> string \<Rightarrow> LockOccurrence list \<times> LockKey set \<Rightarrow>
    LockOccurrence list \<times> LockKey set" where
  "collectLocksOnEdge cf siteSpelling s =
     (case contextAtSite cf siteSpelling of
        None \<Rightarrow> s
      | Some cs \<Rightarrow>
          fold (\<lambda>l (out, seen).
                  if raiiKind l \<noteq> Lock then (out, seen)
                  else if (typeName l, varName l) \<in> seen then (out, seen)
                  else (out @ [\<lparr>loTypeName = typeName l, loVarName = varName l, heldAt = siteSpelling\<rparr>],
                        insert (typeName l, varName l) seen))
            (liveRaiiLocals cs) s)"

subsection \<open>The reverse search\<close>

type_synonym EdgeVisitKey = "sid \<times> sid \<times> sid"

record RawLockPath =
  rlEntryPoint :: sid
  rlNodes :: "sid list"
  rlEdgeSites :: "sid list"

record LockQuery =
  lqGraph :: CallGraph
  lqEntries :: "sid list"
  lqMinFrom :: "(sid, nat) umap"
  lqMaxDepth :: nat
  lqMaxFanIn :: int
  lqIndirect :: "sid option"

record LockSearch =
  lockOut :: "RawLockPath list"
  lockDead :: "(sid, nat) umap"
  lockHubs :: "(sid, nat) umap"
  lockTruncated :: bool

definition visit_key :: "EdgeRef \<Rightarrow> EdgeVisitKey" where
  "visit_key e = (refCaller e, refCallee e, refCallSite e)"

definition lock_full :: "LockSearch \<Rightarrow> bool" where
  "lock_full s = (int (length (lockOut s)) \<ge> kMaxPaths)"

definition lock_dead :: "LockSearch \<Rightarrow> sid \<Rightarrow> nat \<Rightarrow> bool" where
  "lock_dead s cur n = (case map_of (lockDead s) cur of Some d \<Rightarrow> d \<le> n | None \<Rightarrow> False)"

definition lock_hub :: "LockQuery \<Rightarrow> sid list \<Rightarrow> bool" where
  "lock_hub q path =
     (lqMaxFanIn q > 0 \<and> length path > 1 \<and>
      int (storedInDegree_id (lqGraph q) (last path)) > lqMaxFanIn q)"

definition lock_corridor :: "LockQuery \<Rightarrow> nat \<Rightarrow> sid \<Rightarrow> bool" where
  "lock_corridor q n caller =
     (case map_of (lqMinFrom q) caller of
        None \<Rightarrow> False
      | Some m \<Rightarrow> n + 1 + m \<le> lqMaxDepth q)"

definition lock_measure :: "LockQuery \<times> sid list \<times> sid list \<times> EdgeVisitKey set \<times> LockSearch
    + LockQuery \<times> EdgeRef list \<times> sid list \<times> sid list \<times> EdgeVisitKey set \<times> (bool \<times> bool) \<times> LockSearch
    \<Rightarrow> nat \<times> nat \<times> nat" where
  "lock_measure x =
     (case x of
        Inl (q, path, es, visited, s) \<Rightarrow> (2 * (lqMaxDepth q - length path), 0, 0)
      | Inr (q, callers, path, es, visited, flags, s) \<Rightarrow>
          (2 * (lqMaxDepth q - length path) - 1, 1, length callers))"

function (sequential) lockReverseDfs :: "LockQuery \<Rightarrow> sid list \<Rightarrow> sid list \<Rightarrow> EdgeVisitKey set \<Rightarrow> LockSearch \<Rightarrow>
    (bool \<times> bool) \<times> LockSearch"
  and lock_callers :: "LockQuery \<Rightarrow> EdgeRef list \<Rightarrow> sid list \<Rightarrow> sid list \<Rightarrow> EdgeVisitKey set \<Rightarrow> bool \<times> bool \<Rightarrow>
    LockSearch \<Rightarrow> (bool \<times> bool) \<times> LockSearch" where
  "lockReverseDfs q path edgeSites visited s =
     (if lock_full s then ((False, True), s\<lparr>lockTruncated := True\<rparr>)
      else if last path \<in> set (lqEntries q)
      then ((True, False), s\<lparr>lockOut := lockOut s @ [\<lparr>rlEntryPoint = last path, rlNodes = path,
                                                     rlEdgeSites = edgeSites\<rparr>]\<rparr>)
      else if length path \<ge> lqMaxDepth q then ((False, False), s)
      else if lock_dead s (last path) (length path) then ((False, False), s)
      else if lock_hub q path
      then ((False, False),
            s\<lparr>lockHubs := uemplace (last path) (storedInDegree_id (lqGraph q) (last path)) (lockHubs s)\<rparr>)
      else let (flags, s1) = lock_callers q (callerRefsOf (lqGraph q) (last path)) path edgeSites visited
                               (False, False) s
           in if flags = (False, False)
              then (flags, s1\<lparr>lockDead := note_dead (last path) (length path) (lockDead s1)\<rparr>)
              else (flags, s1))"
| "lock_callers q [] path edgeSites visited flags s = (flags, s)"
| "lock_callers q (edge # callers) path edgeSites visited flags s =
     (if lqIndirect q = Some (refCaller edge) then lock_callers q callers path edgeSites visited flags s
      else if \<not> lock_corridor q (length path) (refCaller edge)
      then lock_callers q callers path edgeSites visited flags s
      else if visit_key edge \<in> visited
      then lock_callers q callers path edgeSites visited (fst flags, True) s
      else let (fl, s1) = lockReverseDfs q (path @ [refCaller edge]) (edgeSites @ [refCallSite edge])
                            (insert (visit_key edge) visited) s;
               flags1 = (fst flags \<or> fst fl, snd flags \<or> snd fl)
           in if lock_full s1 then ((fst flags1, True), s1\<lparr>lockTruncated := True\<rparr>)
              else lock_callers q callers path edgeSites visited flags1 s1)"
  by pat_completeness auto

termination
  by (relation "inv_image (less_than <*lex*> less_than <*lex*> less_than) lock_measure")
    (auto simp: lock_measure_def)

declare lockReverseDfs.simps [simp del]

subsection \<open>Paths and the locks on them\<close>

definition path_result :: "interner \<Rightarrow> ControlFlowIndex \<Rightarrow> RawLockPath \<Rightarrow> PathResult" where
  "path_result I cf rp =
     \<lparr>prEntryPoint = resolve I (rlEntryPoint rp),
      prPath = map (resolve I) (rev (rlNodes rp)),
      locksHeld = fst (fold (\<lambda>s. collectLocksOnEdge cf (resolve I s)) (rlEdgeSites rp) ([], {}))\<rparr>"

definition lock_query :: "CallGraph \<Rightarrow> sid list \<Rightarrow> nat \<Rightarrow> int \<Rightarrow> LockQuery" where
  \<comment> \<open>the corridor runs while \<open>dist + 1 < maxDepth\<close>\<close>
  "lock_query g entries maxDepth maxFanIn =
     \<lparr>lqGraph = g, lqEntries = entries,
      lqMinFrom = min_from (calleeRefsOf g) (\<lambda>_. True) (maxDepth - 1) entries,
      lqMaxDepth = maxDepth, lqMaxFanIn = maxFanIn,
      lqIndirect = find_id (cgInterner g) ''<indirect>''\<rparr>"

definition run_locks :: "LockQuery \<Rightarrow> sid \<Rightarrow> LockSearch" where
  "run_locks q target =
     (let s0 = \<lparr>lockOut = [], lockDead = [], lockHubs = [], lockTruncated = False\<rparr> in
      case map_of (lqMinFrom q) target of
        None \<Rightarrow> s0
      | Some m \<Rightarrow> if m + 1 > lqMaxDepth q then s0 else snd (lockReverseDfs q [target] [] {} s0))"

definition collectLocksHeld :: "CallGraph \<Rightarrow> ControlFlowIndex \<Rightarrow> string \<Rightarrow> string list \<Rightarrow> nat \<Rightarrow> int \<Rightarrow>
    (string, nat) umap \<Rightarrow> PathResult list \<times> (string, nat) umap \<times> bool" where
  "collectLocksHeld g cf target entries maxDepth maxFanIn hubs =
     (if entries = [] then ([], hubs, False)
      else case find_id (cgInterner g) target of
        None \<Rightarrow> ([], hubs, False)
      | Some t \<Rightarrow>
          (let ids = start_ids (cgInterner g) entries in
           if ids = [] then ([], hubs, False)
           else let s = run_locks (lock_query g ids maxDepth maxFanIn) t in
                (map (path_result (cgInterner g) cf) (lockOut s),
                 fold (\<lambda>(i, d). uemplace (resolve (cgInterner g) i) d) (sort_key fst (lockHubs s)) hubs,
                 lockTruncated s)))"

definition lock_json :: "LockOccurrence \<Rightarrow> Json" where
  "lock_json l = JObj [(''typeName'', JStr (loTypeName l)), (''varName'', JStr (loVarName l)),
                       (''heldAt'', JStr (heldAt l))]"

definition pathResultToJson :: "PathResult \<Rightarrow> Json" where
  "pathResultToJson pr =
     JObj [(''entryPoint'', JStr (prEntryPoint pr)), (''path'', JArr (map JStr (prPath pr))),
           (''locksHeld'', JArr (map lock_json (locksHeld pr)))]"

subsection \<open>The handlers\<close>

definition entry_points_arg :: "JsonObject \<Rightarrow> ToolContext \<Rightarrow> string list" where
  "entry_points_arg args ctx =
     (let eps = string_items args ''entry_points'' in if eps = [] then tcEntryPoints ctx else eps)"

definition max_depth_arg :: "JsonObject \<Rightarrow> nat" where
  "max_depth_arg args =
     (case getInteger args ''max_depth'' of Some md \<Rightarrow> u32 (max 1 md) | None \<Rightarrow> kDefaultMaxDepth)"

definition max_fan_in_arg :: "JsonObject \<Rightarrow> int" where
  "max_fan_in_arg args =
     (case getInteger args ''max_fan_in'' of Some mf \<Rightarrow> max 0 mf | None \<Rightarrow> kDefaultMaxFanIn)"

definition hubs_field :: "(string, nat) umap \<Rightarrow> JsonObject" where
  "hubs_field hubs =
     (if hubs \<noteq> []
      then [(''skippedHubs'',
             JArr (map (\<lambda>(n, d). JObj [(''name'', JStr n), (''inDegree'', JInt (int d))]) (sort_key fst hubs)))]
      else [])"

definition handleQueryLocksHeld :: "JsonObject \<Rightarrow> ToolContext \<Rightarrow> Json" where
  "handleQueryLocksHeld args ctx =
     with_identity args ctx ''function'' ''usr'' ''Missing required parameter 'function' (or 'usr')'' (\<lambda>ident.
       let (prs, hubs, truncated) =
             collectLocksHeld (tcGraph ctx) (tcIndex ctx) ident (entry_points_arg args ctx)
               (max_depth_arg args) (max_fan_in_arg args) []
       in JObj ([(''function'', shown_name args ''function'' ident)] @ attachUsr ctx ident ''usr''
                @ [(''paths'', JArr (map pathResultToJson prs)), (''truncated'', JBool truncated),
                   (''pathCount'', jcount prs)]
                @ hubs_field hubs))"

definition locks_by_key :: "PathResult list \<Rightarrow> (LockKey, nat list) umap" where
  "locks_by_key prs =
     fold (\<lambda>i m. fold (\<lambda>l. upush (lock_key l) i) (locksHeld (prs ! i)) m) [0..<length prs] []"

definition shared_locks :: "(LockKey, nat list) umap \<Rightarrow> (LockKey, nat list) umap \<Rightarrow>
    (LockKey \<times> nat list \<times> nat list) list" where
  \<comment> \<open>the loop of the intersection\<close>
  "shared_locks byKeyA byKeyB =
     fold (\<lambda>(key, idxsA) acc. case map_of byKeyB key of None \<Rightarrow> acc | Some idxsB \<Rightarrow> acc @ [(key, idxsA, idxsB)])
       byKeyA []"

definition shared_json :: "PathResult list \<Rightarrow> PathResult list \<Rightarrow> LockKey \<times> nat list \<times> nat list \<Rightarrow> Json" where
  "shared_json pathsA pathsB x =
     (case x of (key, idxsA, idxsB) \<Rightarrow>
        JObj [(''typeName'', JStr (fst key)), (''varName'', JStr (snd key)),
              (''pathsA'', JArr (map (\<lambda>i. pathResultToJson (pathsA ! i)) idxsA)),
              (''pathsB'', JArr (map (\<lambda>i. pathResultToJson (pathsB ! i)) idxsB))])"

definition same_lock_answer :: "JsonObject \<Rightarrow> ToolContext \<Rightarrow> string \<Rightarrow> string \<Rightarrow> Json" where
  "same_lock_answer args ctx a b =
     (let collect = (\<lambda>f. collectLocksHeld (tcGraph ctx) (tcIndex ctx) f (entry_points_arg args ctx)
                            (max_depth_arg args) (max_fan_in_arg args));
          (pathsA, hubsA, truncA) = collect a [];
          (pathsB, hubs, truncB) = collect b hubsA;
          byKeyA = locks_by_key pathsA;
          byKeyB = locks_by_key pathsB;
          shared = shared_locks byKeyA byKeyB
      in JObj ([(''fn_a'', shown_name args ''fn_a'' a), (''fn_b'', shown_name args ''fn_b'' b)]
           @ attachUsr ctx a ''fn_a_usr'' @ attachUsr ctx b ''fn_b_usr''
           @ [(''sharedLocks'', JArr (map (shared_json pathsA pathsB) shared)),
              (''shared'', jcount shared),
              (''aOnly'', JInt (int (length byKeyA) - int (length shared))),
              (''bOnly'', JInt (int (length byKeyB) - int (length shared))),
              (''truncated'', JBool (truncA \<or> truncB))]
           @ hubs_field hubs))"

definition handleQuerySameLock :: "JsonObject \<Rightarrow> ToolContext \<Rightarrow> Json" where
  "handleQuerySameLock args ctx =
     (case resolveIdentity args ctx ''fn_a'' ''fn_a_usr'' of
        Respond answer \<Rightarrow> answer
      | ra \<Rightarrow>
          (case resolveIdentity args ctx ''fn_b'' ''fn_b_usr'' of
             Respond answer \<Rightarrow> answer
           | rb \<Rightarrow>
               (case (ra, rb) of
                  (Resolved a, Resolved b) \<Rightarrow> same_lock_answer args ctx a b
                | _ \<Rightarrow> errorResult ''Missing required parameters 'fn_a' and 'fn_b' (or their *_usr twins)'')))"

end
