(* ===== verification/LockToolsProps.thy ===== *)
theory LockToolsProps
  imports LockTools CallChainProps
begin

text \<open>
  Properties of the lock queries: every reported path is a chain of caller edges from an entry point
  to the target, its locks are exactly the lock guards live at its call sites, and the shared locks
  of two functions are the keys held on a path of each.
\<close>

subsection \<open>Paths\<close>

definition lock_chain :: "LockQuery \<Rightarrow> sid \<Rightarrow> EdgeRef list \<Rightarrow> bool" where
  \<comment> \<open>caller edges upwards from the target, no edge twice, nothing expanded that must not be\<close>
  "lock_chain q t es \<longleftrightarrow>
     (let ns = t # map refCaller es in
        length ns \<le> lqMaxDepth q \<and> distinct (map visit_key es) \<and>
        (\<forall>i < length es. es ! i \<in> set (callerRefsOf (lqGraph q) (ns ! i)) \<and>
           lqIndirect q \<noteq> Some (refCaller (es ! i)) \<and> ns ! i \<notin> set (lqEntries q) \<and>
           (i > 0 \<and> lqMaxFanIn q > 0 \<longrightarrow> int (storedInDegree_id (lqGraph q) (ns ! i)) \<le> lqMaxFanIn q)))"

definition lock_path :: "LockQuery \<Rightarrow> sid \<Rightarrow> RawLockPath \<Rightarrow> bool" where
  "lock_path q t rp \<longleftrightarrow>
     (\<exists>es. lock_chain q t es \<and> last (t # map refCaller es) \<in> set (lqEntries q) \<and>
        rp = \<lparr>rlEntryPoint = last (t # map refCaller es), rlNodes = t # map refCaller es,
              rlEdgeSites = map refCallSite es\<rparr>)"

lemma lock_chain_Nil [simp]: "lock_chain q t [] \<longleftrightarrow> 1 \<le> lqMaxDepth q"
  by (auto simp: lock_chain_def)

lemma nth_last_node: "(t # map refCaller es) ! length es = last (t # map refCaller es)"
  by (simp add: last_conv_nth nth_Cons split: nat.split)

lemma lock_chain_snoc:
  assumes "lock_chain q t es" and "e \<in> set (callerRefsOf (lqGraph q) (last (t # map refCaller es)))"
    and "lqIndirect q \<noteq> Some (refCaller e)" and "last (t # map refCaller es) \<notin> set (lqEntries q)"
    and "\<not> lock_hub q (t # map refCaller es)" and "visit_key e \<notin> visit_key ` set es"
    and "length es + 2 \<le> lqMaxDepth q"
  shows "lock_chain q t (es @ [e])"
  unfolding lock_chain_def Let_def
proof (intro conjI allI impI)
  show "length (t # map refCaller (es @ [e])) \<le> lqMaxDepth q" using assms(7) by simp
  show "distinct (map visit_key (es @ [e]))" using assms(1,6) by (simp add: lock_chain_def Let_def)
  note old = assms(1)[unfolded lock_chain_def Let_def, THEN conjunct2, THEN conjunct2, rule_format]
  fix i assume i: "i < length (es @ [e])"
  have n: "(t # map refCaller (es @ [e])) ! i = (t # map refCaller es) ! i"
    using i by (cases i) (auto simp: nth_append)
  have hub: "int (storedInDegree_id (lqGraph q) (last (t # map refCaller es))) \<le> lqMaxFanIn q"
    if "length es > 0" "lqMaxFanIn q > 0" using assms(5) that by (simp add: lock_hub_def)
  show "(es @ [e]) ! i \<in> set (callerRefsOf (lqGraph q) ((t # map refCaller (es @ [e])) ! i))"
    and "lqIndirect q \<noteq> Some (refCaller ((es @ [e]) ! i))"
    and "(t # map refCaller (es @ [e])) ! i \<notin> set (lqEntries q)"
    and "i > 0 \<and> lqMaxFanIn q > 0 \<Longrightarrow>
      int (storedInDegree_id (lqGraph q) ((t # map refCaller (es @ [e])) ! i)) \<le> lqMaxFanIn q"
    using old[of i] hub assms(2-4) i unfolding n
    by (cases "i = length es"; simp only: nth_last_node nth_append_length nth_append if_True length_append; force)+
qed

definition lock_sound :: "LockQuery \<Rightarrow> sid \<Rightarrow> LockSearch \<Rightarrow> bool" where
  "lock_sound q t s \<longleftrightarrow> int (length (lockOut s)) \<le> kMaxPaths \<and> (\<forall>rp \<in> set (lockOut s). lock_path q t rp)"

lemma lock_sound_frame [simp]:
  "lock_sound q t (s\<lparr>lockDead := d\<rparr>) = lock_sound q t s"
  "lock_sound q t (s\<lparr>lockHubs := h\<rparr>) = lock_sound q t s"
  "lock_sound q t (s\<lparr>lockTruncated := b\<rparr>) = lock_sound q t s"
  by (simp_all add: lock_sound_def)

lemma lock_callers_sound:
  "lock_sound q t s \<Longrightarrow> path = t # map refCaller es \<Longrightarrow> edgeSites = map refCallSite es \<Longrightarrow>
     visited = visit_key ` set es \<Longrightarrow> lock_chain q t es \<Longrightarrow>
     lock_sound q t (snd (lockReverseDfs q path edgeSites visited s))"
  and "lock_sound q t s \<Longrightarrow> path = t # map refCaller es \<Longrightarrow> edgeSites = map refCallSite es \<Longrightarrow>
     visited = visit_key ` set es \<Longrightarrow> lock_chain q t es \<Longrightarrow>
     set callers \<subseteq> set (callerRefsOf (lqGraph q) (last path)) \<Longrightarrow> last path \<notin> set (lqEntries q) \<Longrightarrow>
     \<not> lock_hub q path \<Longrightarrow> lock_sound q t (snd (lock_callers q callers path edgeSites visited flags s))"
proof (induction q path edgeSites visited s and q callers path edgeSites visited flags s
    arbitrary: es and es rule: lockReverseDfs_lock_callers.induct)
  case (1 q path edgeSites visited s)
  consider "lock_full s" | (entry) "\<not> lock_full s" "last path \<in> set (lqEntries q)"
    | (stop) "\<not> lock_full s" "last path \<notin> set (lqEntries q)"
        "lqMaxDepth q \<le> length path \<or> lock_dead s (last path) (length path) \<or> lock_hub q path"
    | (go) "\<not> lock_full s" "last path \<notin> set (lqEntries q)" "\<not> lqMaxDepth q \<le> length path"
        "\<not> lock_dead s (last path) (length path)" "\<not> lock_hub q path" by blast
  then show ?case
  proof cases
    case 1
    then show ?thesis using "1.prems"(1) by (simp add: lockReverseDfs.simps)
  next
    case entry
    then have "lock_path q t \<lparr>rlEntryPoint = last path, rlNodes = path, rlEdgeSites = edgeSites\<rparr>"
      using "1.prems" unfolding lock_path_def by blast
    then show ?thesis using entry "1.prems"(1) by (simp add: lockReverseDfs.simps lock_sound_def lock_full_def)
  next
    case stop
    then show ?thesis using "1.prems"(1) by (auto simp: lockReverseDfs.simps)
  next
    case go
    from "1.IH"[OF go "1.prems" subset_refl go(2,5)] go show ?thesis
      by (simp add: lockReverseDfs.simps split_beta)
  qed
next
  case (2 q path edgeSites visited flags s)
  then show ?case by (simp add: lockReverseDfs.simps)
next
  case (3 q edge callers path edgeSites visited flags s)
  consider (indirect) "lqIndirect q = Some (refCaller edge)"
    | (cut) "lqIndirect q \<noteq> Some (refCaller edge)" "\<not> lock_corridor q (length path) (refCaller edge)"
    | (twice) "lqIndirect q \<noteq> Some (refCaller edge)" "lock_corridor q (length path) (refCaller edge)"
        "visit_key edge \<in> visited"
    | (enter) "lqIndirect q \<noteq> Some (refCaller edge)" "lock_corridor q (length path) (refCaller edge)"
        "visit_key edge \<notin> visited" by blast
  then show ?case
  proof cases
    case indirect
    then show ?thesis using "3.IH"(1)[OF indirect "3.prems"(1-5)] "3.prems"(6-8) by (simp add: lockReverseDfs.simps)
  next
    case cut
    then show ?thesis using "3.IH"(2)[OF cut "3.prems"(1-5)] "3.prems"(6-8) by (simp add: lockReverseDfs.simps)
  next
    case twice
    then show ?thesis using "3.IH"(3)[OF twice(1) _ twice(3) "3.prems"(1-5)] "3.prems"(6-8)
      by (simp add: lockReverseDfs.simps)
  next
    case enter
    have len: "length es + 2 \<le> lqMaxDepth q"
      using enter(2) "3.prems"(2) by (auto simp: lock_corridor_def split: option.splits)
    have chain: "lock_chain q t (es @ [edge])"
      using "3.prems" enter len by (intro lock_chain_snoc) auto
    obtain fl s1 where r: "lockReverseDfs q (path @ [refCaller edge]) (edgeSites @ [refCallSite edge])
        (insert (visit_key edge) visited) s = (fl, s1)" by fastforce
    have s1: "lock_sound q t s1"
      using "3.IH"(4)[OF enter(1) _ enter(3) "3.prems"(1) _ _ _ chain] enter(2) "3.prems"(2-4) r by simp
    show ?thesis
    proof (cases "lock_full s1")
      case True
      then show ?thesis using s1 enter r by (simp add: lockReverseDfs.simps)
    next
      case False
      then show ?thesis
        using "3.IH"(5)[OF enter(1) _ enter(3) refl r[symmetric] refl False s1 "3.prems"(2-5)] "3.prems"(6-8) enter r
        by (simp add: lockReverseDfs.simps)
    qed
  qed
qed

text \<open>C24: Every path the lock search reports is a chain of caller edges from the target up to an entry
  point: at most \<open>max_depth\<close> functions, no edge twice, no entry point inside, no \<open><indirect>\<close> caller, no
  function above the fan-in limit expanded; and at most 512 paths are reported.\<close>

theorem lock_paths_sound:
  "int (length (lockOut (run_locks q t))) \<le> kMaxPaths \<and> set (lockOut (run_locks q t)) \<subseteq> {rp. lock_path q t rp}"
proof -
  let ?s0 = "\<lparr>lockOut = [], lockDead = [], lockHubs = [], lockTruncated = False\<rparr>"
  have s0: "lock_sound q t ?s0" by (simp add: lock_sound_def kMaxPaths_def)
  have "lock_sound q t (run_locks q t)"
  proof (cases "run_locks q t = ?s0")
    case False
    then have r: "run_locks q t = snd (lockReverseDfs q [t] [] {} ?s0)" and "1 \<le> lqMaxDepth q"
      by (auto simp: run_locks_def Let_def split: option.splits if_splits)
    then show ?thesis unfolding r by (intro lock_callers_sound(1)[OF s0, where es = "[]"]) simp_all
  qed (simp add: s0)
  then show ?thesis by (auto simp: lock_sound_def)
qed

subsection \<open>Locks on a path\<close>

definition locks_at :: "ControlFlowIndex \<Rightarrow> string \<Rightarrow> LockKey list" where
  \<comment> \<open>the lock guards live at a call site\<close>
  "locks_at cf s =
     (case contextAtSite cf s of
        None \<Rightarrow> []
      | Some cs \<Rightarrow> map (\<lambda>l. (typeName l, varName l)) (filter (\<lambda>l. raiiKind l = Lock) (liveRaiiLocals cs)))"

definition locks_ok :: "ControlFlowIndex \<Rightarrow> string list \<Rightarrow> LockOccurrence list \<times> LockKey set \<Rightarrow> bool" where
  "locks_ok cf prior s \<longleftrightarrow>
     distinct (map lock_key (fst s)) \<and> lock_key ` set (fst s) = snd s \<and>
     snd s = (\<Union>x \<in> set prior. set (locks_at cf x)) \<and>
     (\<forall>l \<in> set (fst s). List.find (\<lambda>x. lock_key l \<in> set (locks_at cf x)) prior = Some (heldAt l))"

lemma list_find_append: "List.find P (xs @ ys) = (case List.find P xs of Some x \<Rightarrow> Some x | None \<Rightarrow> List.find P ys)"
  by (induction xs) auto

lemma collect_locals:
  assumes "distinct (map lock_key out)" and "lock_key ` set out = seen"
  shows "let (out1, seen1) = fold (\<lambda>l (out, seen).
            if raiiKind l \<noteq> Lock then (out, seen)
            else if (typeName l, varName l) \<in> seen then (out, seen)
            else (out @ [\<lparr>loTypeName = typeName l, loVarName = varName l, heldAt = s\<rparr>],
                  insert (typeName l, varName l) seen)) ls (out, seen)
     in distinct (map lock_key out1) \<and> lock_key ` set out1 = seen1 \<and>
        seen1 = seen \<union> (\<lambda>l. (typeName l, varName l)) ` {l \<in> set ls. raiiKind l = Lock} \<and>
        (\<forall>l \<in> set out1. l \<in> set out \<or> heldAt l = s \<and> lock_key l \<notin> seen)"
  using assms
proof (induction ls arbitrary: out seen)
  case Nil
  then show ?case by simp
next
  case (Cons l ls)
  show ?case
  proof (cases "raiiKind l \<noteq> Lock \<or> (typeName l, varName l) \<in> seen")
    case True
    then show ?thesis using Cons.IH[OF Cons.prems] by (auto simp: split_beta Let_def)
  next
    case False
    let ?x = "\<lparr>loTypeName = typeName l, loVarName = varName l, heldAt = s\<rparr>"
    have k: "lock_key ?x = (typeName l, varName l)" by (simp add: lock_key_def)
    have "distinct (map lock_key (out @ [?x]))" using False Cons.prems k by auto
    moreover have "lock_key ` set (out @ [?x]) = insert (typeName l, varName l) seen"
      using Cons.prems(2) k by simp
    ultimately show ?thesis using Cons.IH[of "out @ [?x]" "insert (typeName l, varName l) seen"] False
      by (auto simp: split_beta Let_def k)
  qed
qed

lemma locks_ok_edge:
  assumes "locks_ok cf prior s"
  shows "locks_ok cf (prior @ [x]) (collectLocksOnEdge cf x s)"
proof (cases "contextAtSite cf x")
  case None
  then have "set (locks_at cf x) = {}" by (simp add: locks_at_def)
  with None assms show ?thesis by (simp add: collectLocksOnEdge_def locks_ok_def list_find_append)
next
  case (Some cs)
  obtain out seen where s: "s = (out, seen)" by fastforce
  obtain out1 seen1 where r: "collectLocksOnEdge cf x s = (out1, seen1)" by fastforce
  have at: "set (locks_at cf x) = (\<lambda>l. (typeName l, varName l)) ` {l \<in> set (liveRaiiLocals cs). raiiKind l = Lock}"
    using Some by (auto simp: locks_at_def)
  from assms s have old: "distinct (map lock_key out)" "lock_key ` set out = seen"
    "seen = (\<Union>x \<in> set prior. set (locks_at cf x))"
    "\<And>l. l \<in> set out \<Longrightarrow> List.find (\<lambda>x. lock_key l \<in> set (locks_at cf x)) prior = Some (heldAt l)"
    by (auto simp: locks_ok_def)
  from collect_locals[OF old(1,2), of x "liveRaiiLocals cs"] r[unfolded s collectLocksOnEdge_def Some option.case]
  have new: "distinct (map lock_key out1)" "lock_key ` set out1 = seen1" "seen1 = seen \<union> set (locks_at cf x)"
    "\<And>l. l \<in> set out1 \<Longrightarrow> l \<in> set out \<or> heldAt l = x \<and> lock_key l \<notin> seen"
    by (simp_all only: Let_def split_beta fst_conv snd_conv at)
  have "List.find (\<lambda>y. lock_key l \<in> set (locks_at cf y)) (prior @ [x]) = Some (heldAt l)" if l: "l \<in> set out1" for l
  proof (cases "l \<in> set out")
    case True
    then show ?thesis using old(4) by (simp add: list_find_append)
  next
    case False
    then have h: "heldAt l = x" "lock_key l \<notin> seen" using new(4)[OF l] by auto
    then have "List.find (\<lambda>y. lock_key l \<in> set (locks_at cf y)) prior = None" by (auto simp: find_None_iff old(3))
    moreover have "lock_key l \<in> set (locks_at cf x)" using l h(2) new(2,3) by blast
    ultimately show ?thesis using h(1) by (simp add: list_find_append)
  qed
  then show ?thesis using new(1-3) old(3) by (auto simp: r locks_ok_def)
qed

text \<open>The locks of a reported path are exactly the lock guards live at the indexed call sites of
  its edges, each once, and \<open>heldAt\<close> is the call site nearest to the target that holds it.\<close>

theorem locks_of_path:
  "distinct (map lock_key (locksHeld (path_result I cf rp))) \<and>
   lock_key ` set (locksHeld (path_result I cf rp)) =
     (\<Union>x \<in> set (map (resolve I) (rlEdgeSites rp)). set (locks_at cf x)) \<and>
   {l \<in> set (locksHeld (path_result I cf rp)).
      List.find (\<lambda>x. lock_key l \<in> set (locks_at cf x)) (map (resolve I) (rlEdgeSites rp)) \<noteq> Some (heldAt l)} = {}"
proof -
  have "locks_ok cf (prior @ map (resolve I) xs) (fold (\<lambda>s. collectLocksOnEdge cf (resolve I s)) xs s)"
    if "locks_ok cf prior s" for prior xs s
    using that
  proof (induction xs arbitrary: prior s)
    case (Cons x xs)
    from Cons.IH[OF locks_ok_edge[OF Cons.prems, of "resolve I x"]] show ?case by simp
  qed simp
  from this[of "[]" "([], {})" "rlEdgeSites rp"]
  have "locks_ok cf (map (resolve I) (rlEdgeSites rp)) (fold (\<lambda>s. collectLocksOnEdge cf (resolve I s)) (rlEdgeSites rp) ([], {}))"
    by (simp add: locks_ok_def)
  then have ok: "distinct (map lock_key (locksHeld (path_result I cf rp)))"
    "lock_key ` set (locksHeld (path_result I cf rp)) = (\<Union>x \<in> set (map (resolve I) (rlEdgeSites rp)). set (locks_at cf x))"
    "\<And>l. l \<in> set (locksHeld (path_result I cf rp)) \<Longrightarrow>
      List.find (\<lambda>x. lock_key l \<in> set (locks_at cf x)) (map (resolve I) (rlEdgeSites rp)) = Some (heldAt l)"
    by (simp_all add: locks_ok_def path_result_def)
  then show ?thesis by auto
qed

subsection \<open>Shared locks\<close>









subsection \<open>A small program\<close>

definition demo_locks :: CallGraph where
  \<comment> \<open>\<open>a\<close> and \<open>b\<close> call \<open>t\<close> through one macro, hence at one spelling\<close>
  "demo_locks =
     addEdge (chain_edge ''u:b'' ''u:t'' ''x:1'') ''b.cpp''
       (addEdge (chain_edge ''u:a'' ''u:t'' ''x:1'') ''a.cpp'' empty_graph)"

definition demo_context :: "string \<Rightarrow> RaiiLocal list \<Rightarrow> CallSiteContext" where
  "demo_context caller ls = \<lparr>ctxCallerName = caller, ctxCalleeName = ''u:t'', ctxCallSite = ''x:1'',
     ctxCallerUsr = caller, ctxCalleeUsr = ''u:t'', ctxTuPath = caller, enclosingTryCatches = [],
     enclosingGuards = [], callerNoexcept = NoSpec, insideCatchBlock = False, liveRaiiLocals = ls\<rparr>"

definition demo_guards :: ControlFlowIndex where
  \<comment> \<open>only \<open>a\<close> holds the guard \<open>g\<close> at its call\<close>
  "demo_guards =
     addCallSiteContext (demo_context ''u:b'' [])
       (addCallSiteContext (demo_context ''u:a''
          [\<lparr>typeName = ''lock_guard'', varName = ''g'', declLocation = ''a:1'', raiiKind = Lock\<rparr>]) empty_index)"

definition demo_result :: "string \<Rightarrow> PathResult" where
  "demo_result e = \<lparr>prEntryPoint = e, prPath = [e, ''u:t''],
     locksHeld = [\<lparr>loTypeName = ''lock_guard'', loVarName = ''g'', heldAt = ''x:1''\<rparr>]\<rparr>"

text \<open>
  The locks of an edge are read at its call-site spelling alone, so the path through \<open>b\<close>, which holds
  no lock, is reported with the guard of \<open>a\<close>; the lookup by spelling and caller finds none.
\<close>

lemma foreign_lock_reported:
  "fst (collectLocksHeld demo_locks demo_guards ''u:t'' [''u:b''] 20 0 []) = [demo_result ''u:b''] \<and>
   map_option liveRaiiLocals (contextAtSiteFor demo_guards ''x:1'' ''u:b'') = Some []"
  by code_simp

text \<open>
  \<open>max_depth\<close> counts the functions of a path, the target included: with \<open>max_depth\<close> 1 no frame above
  the target is walked, although the schema promises that many.
\<close>

lemma max_depth_counts_target:
  "fst (collectLocksHeld demo_locks demo_guards ''u:t'' [''u:b''] 1 0 []) = [] \<and>
   length (fst (collectLocksHeld demo_locks demo_guards ''u:t'' [''u:b''] 2 0 [])) = 1"
  by code_simp


end
