(* ===== verification/ToolSchema.thy ===== *)
theory ToolSchema
  imports QueryIdentity
begin

text \<open>
  The input schemas of the tools (src/query/Schema.h and the \<open>register*Tools\<close> functions of
  src/query): for every tool its description, its parameters with their JSON types and
  descriptions, and the parameters it requires.
\<close>

subsection \<open>Schema builders\<close>

definition stringProp :: "string \<Rightarrow> Json" where
  "stringProp desc = JObj [(''type'', JStr ''string''), (''description'', JStr desc)]"

definition intProp :: "string \<Rightarrow> Json" where
  "intProp desc = JObj [(''type'', JStr ''integer''), (''description'', JStr desc)]"

definition boolProp :: "string \<Rightarrow> Json" where
  "boolProp desc = JObj [(''type'', JStr ''boolean''), (''description'', JStr desc)]"

definition stringArrayProp :: "string \<Rightarrow> Json" where
  "stringArrayProp desc =
     JObj [(''type'', JStr ''array''), (''items'', JObj [(''type'', JStr ''string'')]), (''description'', JStr desc)]"

definition identityRefinementProps :: "string \<Rightarrow> JsonObject" where
  \<comment> \<open>the members \<open>addIdentityRefinementProps\<close> adds\<close>
  "identityRefinementProps prefix =
     [(prefix @ ''site'', stringProp
         (''Call site 'file:line:col' (as spelled in the compile command). Resolves the ''
          @ ''identity to the exact overload/template instantiation called at that site ''
          @ em_dash
          @ '' the most precise disambiguator when you are looking at a specific call.'')),
      (prefix @ ''filter'', stringProp
         (''Literal substring matched against candidate usr, qualified name, and file to narrow ''
          @ ''an ambiguous name; resolves when exactly one candidate survives. NOT type-aware: ''
          @ ''use names that appear literally (e.g. a template argument's class name), not ''
          @ ''guessed signatures.''))]"

definition object_schema :: "JsonObject \<Rightarrow> string list \<Rightarrow> Json" where
  \<comment> \<open>\<open>required\<close> is set only by the tools that require something\<close>
  "object_schema props required_params =
     JObj ([(''type'', JStr ''object''), (''properties'', JObj props)]
       @ (if required_params = [] then [] else [(''required'', JArr (map JStr required_params))]))"

definition functionProps :: JsonObject where
  \<comment> \<open>shared by the path tools\<close>
  "functionProps =
     [(''function'', stringProp
         (''Target function qualified name. Provide 'function' or 'usr' (usr wins when both are ''
          @ ''present).'')),
      (''usr'', stringProp
         (''Exact USR of the target function. Bypasses name resolution ''
          @ em_dash
          @ '' use it to pick one overload/specialization when the name is ambiguous.''))]
     @ identityRefinementProps []"

subsection \<open>The tools\<close>

definition desc_lookup_function :: string where
  "desc_lookup_function =
     ''Look up metadata for a function by qualified name. Returns file, line, class ''
     @ ''membership, and virtual status. If several functions share the name (overloads, ''
     @ ''template specializations), returns {ambiguous:true, candidates:[...]} ''
     @ em_dash
     @ '' re-query with the 'usr' of the intended candidate.''"

definition schema_lookup_function :: Json where
  "schema_lookup_function =
     object_schema
      ([(''name'', stringProp
           (''Qualified function name (e.g. 'MyClass::process'). Provide 'name' or 'usr' (usr ''
            @ ''wins when both are present).'')),
        (''usr'', stringProp
           (''Exact function USR (from search_functions results or a prior disambiguation ''
            @ ''response). Bypasses name resolution entirely ''
            @ em_dash
            @ '' use it to pick one overload/specialization when a name is ambiguous.''))]
       @ identityRefinementProps [])
      []"

definition desc_get_callees :: string where
  "desc_get_callees =
     ''List all functions called by a given function. Supports filtering by edge kind and ''
     @ ''confidence level. An ambiguous name returns {ambiguous:true, candidates:[...]} ''
     @ em_dash
     @ '' re-query with 'usr'.''"

definition schema_get_callees :: Json where
  "schema_get_callees =
     object_schema
      ([(''name'', stringProp
           (''Qualified name of the caller function. Provide 'name' or 'usr' (usr wins when both ''
            @ ''are present).'')),
        (''usr'', stringProp
           (''Exact function USR of the caller. Bypasses name resolution ''
            @ em_dash
            @ '' use it to pick one overload/specialization when the name is ambiguous.''))]
       @ identityRefinementProps []
       @ [(''edge_kinds'', stringArrayProp
           (''Filter by edge kind: DirectCall, VirtualDispatch, FunctionPointer, ConstructorCall, ''
            @ ''DestructorCall, OperatorCall, TemplateInstantiation, LambdaCall, ThreadEntry'')),
        (''min_confidence'', stringProp
           (''Inclusive minimum confidence tier: Proven, Plausible, or Unknown (default: ''
            @ ''Unknown). Plausible includes both Plausible and Proven edges. Use ''
            @ ''include_confidences to select exact tiers.'')),
        (''include_confidences'', stringArrayProp
           (''Explicit set of confidence tiers to include (e.g. [\"Plausible\"] returns only ''
            @ ''Plausible edges). Overrides min_confidence.'')),
        (''execution_contexts'', stringArrayProp
           (''Filter by execution context: Synchronous, ThreadSpawn, AsyncTask, PackagedTask, ''
            @ ''Invoke. Default: all contexts.''))])
      []"

definition desc_get_callers :: string where
  "desc_get_callers =
     ''List all functions that call a given function. Supports filtering by edge kind and ''
     @ ''confidence level. An ambiguous name returns {ambiguous:true, candidates:[...]} ''
     @ em_dash
     @ '' re-query with 'usr'.''"

definition schema_get_callers :: Json where
  "schema_get_callers =
     object_schema
      ([(''name'', stringProp
           (''Qualified name of the callee function. Provide 'name' or 'usr' (usr wins when both ''
            @ ''are present).'')),
        (''usr'', stringProp
           (''Exact function USR of the callee. Bypasses name resolution ''
            @ em_dash
            @ '' use it to pick one overload/specialization when the name is ambiguous.''))]
       @ identityRefinementProps []
       @ [(''edge_kinds'', stringArrayProp
           (''Filter by edge kind: DirectCall, VirtualDispatch, FunctionPointer, ConstructorCall, ''
            @ ''DestructorCall, OperatorCall, TemplateInstantiation, LambdaCall, ThreadEntry'')),
        (''min_confidence'', stringProp
           (''Inclusive minimum confidence tier: Proven, Plausible, or Unknown (default: ''
            @ ''Unknown). Plausible includes both Plausible and Proven edges. Use ''
            @ ''include_confidences to select exact tiers.'')),
        (''include_confidences'', stringArrayProp
           (''Explicit set of confidence tiers to include. Overrides min_confidence.'')),
        (''execution_contexts'', stringArrayProp
           (''Filter by execution context: Synchronous, ThreadSpawn, AsyncTask, PackagedTask, ''
            @ ''Invoke. Default: all contexts.''))])
      []"

definition desc_find_call_chain :: string where
  "desc_find_call_chain =
     ''Find call chains from a source function (or entry points) to a target function. ''
     @ ''Each path is an array of hop objects with {from, to, kind, confidence, callSite, ''
     @ ''executionContext?}. executionContext is only emitted on ThreadEntry hops and other ''
     @ ''non-Synchronous edges. An ambiguous 'from' or 'to' name returns {ambiguous:true, ''
     @ ''candidates:[...]} ''
     @ em_dash
     @ '' re-query with the *_usr parameter.''"

definition schema_find_call_chain :: Json where
  "schema_find_call_chain =
     object_schema
      ([(''from'', stringProp
           (''Source function qualified name (omit to use entry points)'')),
        (''from_usr'', stringProp
           (''Exact USR of the source function. Bypasses name resolution for 'from' when the name ''
            @ ''is ambiguous.''))]
       @ identityRefinementProps ''from_''
       @ [(''to'', stringProp
           (''Target function qualified name. Provide 'to' or 'to_usr' (to_usr wins when both are ''
            @ ''present).'')),
        (''to_usr'', stringProp
           (''Exact USR of the target function. Bypasses name resolution for 'to' when the name ''
            @ ''is ambiguous.''))]
       @ identityRefinementProps ''to_''
       @ [(''max_paths'', intProp
           (''Maximum number of paths to return (default: 10)'')),
        (''max_depth'', intProp
           (''Maximum number of edges in a chain, i.e. node count minus one (default: 20)'')),
        (''edge_kinds'', stringArrayProp
           (''Prune hops whose edge kind is not in this set.'')),
        (''min_confidence'', stringProp
           (''Inclusive minimum confidence tier applied to every hop on the path (default: ''
            @ ''Unknown).'')),
        (''include_confidences'', stringArrayProp
           (''Explicit set of confidence tiers allowed at every hop. Overrides min_confidence.'')),
        (''max_fan_in'', intProp
           (''Skip expanding the ancestry of functions with more stored callers than this ''
            @ ''(high-fan-in hubs like loggers); skipped hubs are listed in the response. 0 ''
            @ ''disables the cutoff (default: 1000).''))])
      []"

definition desc_search_functions :: string where
  "desc_search_functions =
     ''Find functions by name substring when the exact qualified name is unknown. Returns ''
     @ ''candidates ranked by match quality (exact unqualified name, then prefix, then ''
     @ ''substring). Use this before lookup_function / get_callers when unsure of the ''
     @ ''precise name.''"

definition schema_search_functions :: Json where
  "schema_search_functions =
     object_schema
      ([(''query'', stringProp
           (''Case-insensitive substring to match against qualified function names (e.g. ''
            @ CHR 0x27 # ''execute' or 'TransformPipeline').'')),
        (''limit'', intProp
           (''Maximum matches to return (default: 25)''))])
      [''query'']"

definition desc_get_class_hierarchy :: string where
  "desc_get_class_hierarchy =
     ''Query class inheritance relationships and virtual method overrides. Shows derived ''
     @ ''classes and optionally which methods are overridden in each.''"

definition schema_get_class_hierarchy :: Json where
  "schema_get_class_hierarchy =
     object_schema
      ([(''class_name'', stringProp
           (''Qualified class name'')),
        (''include_transitive'', boolProp
           (''Include all descendants, not just direct (default: false)'')),
        (''include_overrides'', boolProp
           (''Include virtual method override info (default: false)''))])
      [''class_name'']"

definition desc_list_entry_points :: string where
  "desc_list_entry_points =
     ''List the configured entry-point functions with their file/line when resolved in the ''
     @ ''call graph. Useful for orientation before calling find_call_chain or ''
     @ ''analyze_dead_code.''"

definition schema_list_entry_points :: Json where
  "schema_list_entry_points =
     object_schema
      ([])
      []"

definition desc_graph_summary :: string where
  "desc_graph_summary =
     ''Return aggregate statistics about the call graph: node and edge counts, call-site ''
     @ ''count, entry-point count, top-5 fan-out callers and callees, and histograms by ''
     @ ''confidence and edge kind.''"

definition schema_graph_summary :: Json where
  "schema_graph_summary =
     object_schema
      ([])
      []"

definition desc_list_callback_sites :: string where
  "desc_list_callback_sites =
     ''List every callback registration or invocation site grouped by target. Covers ''
     @ ''FunctionPointer and LambdaCall edges, including synthetic lambda targets named ''
     @ CHR 0x27 # ''lambda#file:line:col#enclosing'. Returns {target, siteCount, sites:[{caller, ''
     @ ''callSite, kind, confidence, indirectionDepth?, executionContext?}]}.''"

definition schema_list_callback_sites :: Json where
  "schema_list_callback_sites =
     object_schema
      ([(''target_prefix'', stringProp
           (''Optional qualified-name prefix; only targets whose name starts with this prefix are ''
            @ ''returned.''))])
      []"

definition desc_list_concurrency_entry_points :: string where
  "desc_list_concurrency_entry_points =
     ''List every ThreadEntry edge: functions (including synthetic lambda targets) that ''
     @ ''are handed to std::thread, std::jthread, std::async, std::packaged_task, ''
     @ ''std::invoke, or std::bind. Returns {count, entries:[{spawner, target, ''
     @ ''executionContext, callSite, confidence}]}.''"

definition schema_list_concurrency_entry_points :: Json where
  "schema_list_concurrency_entry_points =
     object_schema
      ([(''execution_contexts'', stringArrayProp
           (''Filter by execution context: ThreadSpawn, AsyncTask, PackagedTask, Invoke. Default: ''
            @ ''all ThreadEntry contexts.''))])
      []"

definition desc_query_exception_safety :: string where
  "desc_query_exception_safety =
     ''Determine whether a function is protected by try/catch on its call paths from entry ''
     @ ''points. Reports always, sometimes, or never caught. An ambiguous name returns ''
     @ ''{ambiguous:true, candidates:[...]} ''
     @ em_dash
     @ '' re-query with 'usr'.''"

definition schema_query_exception_safety :: Json where
  "schema_query_exception_safety =
     object_schema
      ([(''function'', stringProp
           (''Target function qualified name. Provide 'function' or 'usr' (usr wins when both are ''
            @ ''present).'')),
        (''usr'', stringProp
           (''Exact USR of the target function. Bypasses name resolution ''
            @ em_dash
            @ '' use it to pick one overload/specialization when the name is ambiguous.''))]
       @ identityRefinementProps []
       @ [(''exception_type'', stringProp
           (''Exception type to check (e.g. 'std::runtime_error')'')),
        (''entry_points'', stringArrayProp
           (''Entry point function names (default: configured entry points)''))])
      []"

definition desc_query_call_site_context :: string where
  "desc_query_call_site_context =
     ''Get exception handling and guard context at a specific call site location ''
     @ ''(file:line:col). Shows enclosing try/catch scopes and conditional guards. A ''
     @ ''spelling shared by several call sites (macro expansion) returns {ambiguous:true, ''
     @ ''candidates:[...]} ''
     @ em_dash
     @ '' re-query with 'caller'.''"

definition schema_query_call_site_context :: Json where
  "schema_query_call_site_context =
     object_schema
      ([(''call_site'', stringProp
           (''Call site location formatted as 'file:line:col'. The file path must match the ''
            @ ''compilation database canonicalization (typically an absolute path). Returns isError ''
            @ ''if the site is not indexed.'')),
        (''caller'', stringProp
           (''Optional enclosing function (qualified name or USR). Needed when several call sites ''
            @ ''share one spelling (a macro expanded in different functions); without it such a ''
            @ ''spelling returns {ambiguous:true, candidates:[...]} listing the callers.''))])
      [''call_site'']"

definition desc_query_raii_scopes_at_callsite :: string where
  "desc_query_raii_scopes_at_callsite =
     ''List RAII-capable locals (non-trivial-destructor) live at a call site. Each entry ''
     @ ''is {typeName, varName, kind, declLocation}, kind in {lock, smart_ptr, other}. Use ''
     @ ''`kinds` to narrow the response (e.g. [\"lock\"] for concurrency audits). A spelling ''
     @ ''shared by several call sites (macro expansion) returns {ambiguous:true, ''
     @ ''candidates:[...]} ''
     @ em_dash
     @ '' re-query with 'caller'.''"

definition schema_query_raii_scopes_at_callsite :: Json where
  "schema_query_raii_scopes_at_callsite =
     object_schema
      ([(''call_site'', stringProp
           (''Call site location formatted as 'file:line:col'. Must match the compilation ''
            @ ''database canonicalization.'')),
        (''caller'', stringProp
           (''Optional enclosing function (qualified name or USR). Needed when several call sites ''
            @ ''share one spelling (a macro expanded in different functions); without it such a ''
            @ ''spelling returns {ambiguous:true, candidates:[...]} listing the callers.'')),
        (''kinds'', stringArrayProp
           (''Filter by kind: lock, smart_ptr, other. Default: all kinds.''))])
      [''call_site'']"

definition desc_query_throw_propagation :: string where
  "desc_query_throw_propagation =
     ''If a function throws the given exception type, is it caught before unwinding to an ''
     @ ''entry point? Reports the protection verdict plus every call path with its try/catch ''
     @ ''scopes, guards, and where the throw would be caught. An ambiguous name returns ''
     @ ''{ambiguous:true, candidates:[...]} ''
     @ em_dash
     @ '' re-query with 'usr'.''"

definition schema_query_throw_propagation :: Json where
  "schema_query_throw_propagation =
     object_schema
      (functionProps
       @ [(''exception_type'', stringProp
           (''Exception type the function throws (e.g. 'std::runtime_error'); empty matches any ''
            @ ''handler'')),
        (''entry_points'', stringArrayProp
           (''Entry point function names (default: configured entry points)''))])
      []"

definition desc_query_all_path_contexts :: string where
  "desc_query_all_path_contexts =
     ''Enumerate the call paths from the entry points to a function, each with the ''
     @ ''try/catch scopes and conditional guards along it. The exception-context counterpart ''
     @ ''of find_call_chain. An ambiguous name returns {ambiguous:true, candidates:[...]} ''
     @ em_dash
     @ '' re-query with 'usr'.''"

definition schema_query_all_path_contexts :: Json where
  "schema_query_all_path_contexts =
     object_schema
      (functionProps
       @ [(''entry_points'', stringArrayProp
           (''Entry point function names (default: configured entry points)'')),
        (''max_paths'', intProp
           (''Maximum number of paths to enumerate (default 100)''))])
      []"

definition desc_query_nearest_catches :: string where
  "desc_query_nearest_catches =
     ''For each call path into a function, the nearest enclosing try/catch walking up the ''
     @ ''callers: the handler scope, how many frames up it sits, and the path segment ''
     @ ''between. Empty when nothing on any path catches. An ambiguous name returns ''
     @ ''{ambiguous:true, candidates:[...]} ''
     @ em_dash
     @ '' re-query with 'usr'.''"

definition schema_query_nearest_catches :: Json where
  "schema_query_nearest_catches =
     object_schema
      (functionProps)
      []"

definition desc_query_locks_held :: string where
  "desc_query_locks_held =
     ''For each entry point, enumerate call paths reaching `function` via reverse-walking ''
     @ ''the call graph, and report Lock-kind RAII locals live on any edge of each path. ''
     @ ''Result: {paths:[{entryPoint, path:[fn...], locksHeld:[{typeName, varName, ''
     @ ''heldAt}]}], truncated, pathCount}. Truncated at 512 paths total. Walks only through ''
     @ ''edges with stable callee identity (indirect/function-pointer targets are skipped). ''
     @ ''An ambiguous name returns {ambiguous:true, candidates:[...]} ''
     @ em_dash
     @ '' re-query with 'usr'.''"

definition schema_query_locks_held :: Json where
  "schema_query_locks_held =
     object_schema
      ([(''function'', stringProp
           (''Qualified name of the target function. Provide 'function' or 'usr' (usr wins when ''
            @ ''both are present).'')),
        (''usr'', stringProp
           (''Exact USR of the target function. Bypasses name resolution ''
            @ em_dash
            @ '' use it to pick one overload/specialization when the name is ambiguous.''))]
       @ identityRefinementProps []
       @ [(''max_depth'', intProp
           (''Maximum number of frames above the target to walk (default: 20)'')),
        (''max_fan_in'', intProp
           (''Skip expanding functions with more stored callers than this; skipped hubs are ''
            @ ''listed in the response. 0 disables (default: 1000).'')),
        (''entry_points'', stringArrayProp
           (''Entry points to root the reverse walk (default: configured entry points)''))])
      []"

definition desc_query_same_lock :: string where
  "desc_query_same_lock =
     ''Compute the intersection of locks held across paths reaching fn_a and fn_b. Lock ''
     @ ''identity is the tuple (typeName, varName); the same physical mutex under different ''
     @ ''variable names will not match. Result: {sharedLocks:[{typeName, varName, pathsA, ''
     @ ''pathsB}], shared, aOnly, bOnly, truncated}. An ambiguous name returns ''
     @ ''{ambiguous:true, candidates:[...]} ''
     @ em_dash
     @ '' re-query with the *_usr parameter.''"

definition schema_query_same_lock :: Json where
  "schema_query_same_lock =
     object_schema
      ([(''fn_a'', stringProp
           (''First function qualified name. Provide 'fn_a' or 'fn_a_usr' (the usr wins when both ''
            @ ''are present).'')),
        (''fn_a_usr'', stringProp
           (''Exact USR of the first function. Bypasses name resolution for 'fn_a' when the name ''
            @ ''is ambiguous.''))]
       @ identityRefinementProps ''fn_a_''
       @ [(''fn_b'', stringProp
           (''Second function qualified name. Provide 'fn_b' or 'fn_b_usr' (the usr wins when ''
            @ ''both are present).'')),
        (''fn_b_usr'', stringProp
           (''Exact USR of the second function. Bypasses name resolution for 'fn_b' when the name ''
            @ ''is ambiguous.''))]
       @ identityRefinementProps ''fn_b_''
       @ [(''max_depth'', intProp
           (''Maximum number of frames above each target to walk (default: 20)'')),
        (''max_fan_in'', intProp
           (''Skip expanding functions with more stored callers than this; skipped hubs are ''
            @ ''listed in the response. 0 disables (default: 1000).'')),
        (''entry_points'', stringArrayProp
           (''Entry points to root the reverse walk (default: configured entry points)''))])
      []"

definition desc_analyze_dead_code :: string where
  "desc_analyze_dead_code =
     ''Run dead code analysis via call graph reachability. Reports dead, ''
     @ ''optimistically-alive, and alive functions from the configured entry points. ''
     @ ''System-header functions are excluded by default; use include_system to include them.''"

definition schema_analyze_dead_code :: Json where
  "schema_analyze_dead_code =
     object_schema
      ([(''entry_points'', stringArrayProp
           (''Entry point function names (default: configured entry points). Entry points are ''
            @ ''reachability SEEDS: a name shared by several functions (overloads) seeds ALL of ''
            @ ''them (deliberate union semantics ''
            @ em_dash
            @ '' no disambiguation round-trip here).'')),
        (''include_optimistic'', boolProp
           (''Include optimistically-alive functions (default: true)'')),
        (''include_system'', boolProp
           (''Include functions whose source file lives in a system include directory such as ''
            @ ''/usr/include or compiler-internal clang/gcc include dirs (default: false). Stdlib ''
            @ ''template instantiations otherwise dominate the response.'')),
        (''name_prefix'', stringProp
           (''Only include dead functions whose qualified name starts with this prefix.'')),
        (''file_prefix'', stringProp
           (''Only include dead functions whose source file path starts with this prefix.'')),
        (''limit'', intProp
           (''Maximum number of dead entries to return after filtering (default: 500).'')),
        (''offset'', intProp
           (''Number of filtered dead entries to skip before returning (default: 0). Use with ''
            @ ''limit to paginate.''))])
      []"

definition desc_list_channels :: string where
  "desc_list_channels =
     ''List every tracked channel (queue/map/event-bus instance registered via ''
     @ ''--channel-types-json) with its type, category, and producer/consumer site counts. ''
     @ ''Empty (not an error) when the server was started without --channel-types-json. Use ''
     @ ''query_channel on a channelId for the full site list.''"

definition schema_list_channels :: Json where
  "schema_list_channels =
     object_schema
      ([])
      []"

definition desc_query_channel :: string where
  "desc_query_channel =
     ''List every producer and consumer call site on one channel: {producers:[...], ''
     @ ''consumers:[...]}, each site {channelType, category, operation, function, ''
     @ ''functionUsr, callSite, guards:[{conditionText, location, inTrueBranch, ''
     @ ''isAssertion}]}. A channel with multiple producers/consumers lists all of them ''
     @ em_dash
     @ '' there is no single caller/callee edge to name.''"

definition schema_query_channel :: Json where
  "schema_query_channel =
     object_schema
      ([(''channel_id'', stringProp
           (''Channel identity from list_channels or a channelId in another channel tool's ''
            @ ''response.''))])
      [''channel_id'']"

definition desc_query_channels_for_function :: string where
  "desc_query_channels_for_function =
     ''List the channel sites (producer or consumer) inside one function. Use this when ''
     @ ''you already know a function pushes/pops on some tracked channel but not which ''
     @ ''channel or where its counterpart is.''"

definition schema_query_channels_for_function :: Json where
  "schema_query_channels_for_function =
     object_schema
      ([(''function'', stringProp
           (''Qualified function name or USR whose channel producer/consumer call sites to list.''))])
      [''function'']"

definition desc_explain_ordering :: string where
  "desc_explain_ordering =
     ''Compare two channel call sites for the evidence needed to explain an ordering ''
     @ ''assumption between them: whether they're the same channel, each site's enclosing ''
     @ ''guard conditions (e.g. only reachable when some flag is true), and which ''
     @ ''ThreadEntry/AsyncTask/PackagedTask/Invoke boundaries reach each site's enclosing ''
     @ ''function. Returns structural evidence for a human/LLM to build the explanation from ''
     @ em_dash
     @ '' an empty concurrencyBoundaries list is absence of evidence, not proof of ''
     @ ''synchronous execution.''"

definition schema_explain_ordering :: Json where
  "schema_explain_ordering =
     object_schema
      ([(''call_site_a'', stringProp
           (''First channel call site, 'file:line:col' (from query_channel or ''
            @ ''query_channels_for_function).'')),
        (''call_site_b'', stringProp
           (''Second channel call site.''))])
      [''call_site_a'', ''call_site_b'']"

definition desc_reindex_tu :: string where
  "desc_reindex_tu =
     ''Re-index a single translation unit after source changes. Removes stale ''
     @ ''edges/contexts and re-runs all three analysis phases for the given file. Returns ''
     @ ''counts of edges and contexts removed and current totals.''"

definition schema_reindex_tu :: Json where
  "schema_reindex_tu =
     object_schema
      ([(''file'', stringProp
           (''Absolute path of the TU to re-index''))])
      [''file'']"

end
