(* ===== verification/ExceptionTools.thy ===== *)
theory ExceptionTools
  imports LockTools
begin

text \<open>
  The exception and call-site tools of src/query/ExceptionTools.cpp over the queries of theory
  \<open>Oracle\<close>.  \<open>rfind\<close> answers \<open>None\<close> for \<open>npos\<close>.
\<close>

fun protectionToStr :: "Protection \<Rightarrow> string" where
  "protectionToStr AlwaysCaught = ''always_caught''"
| "protectionToStr SometimesCaught = ''sometimes_caught''"
| "protectionToStr NeverCaught = ''never_caught''"
| "protectionToStr NoexceptBarrier = ''noexcept_barrier''"
| "protectionToStr UnknownProtection = ''unknown''"

definition entryPointsArg :: "JsonObject \<Rightarrow> ToolContext \<Rightarrow> string list" where
  "entryPointsArg args ctx =
     (let eps = string_items args ''entry_points'' in if eps = [] then tcEntryPoints ctx else eps)"

definition exception_type_arg :: "JsonObject \<Rightarrow> string" where
  "exception_type_arg args = (case getString args ''exception_type'' of Some et \<Rightarrow> et | None \<Rightarrow> [])"

definition missing_function :: string where
  "missing_function = ''Missing required parameter 'function' (or 'usr')''"

definition handleQueryExceptionSafety :: "JsonObject \<Rightarrow> ToolContext \<Rightarrow> Json" where
  "handleQueryExceptionSafety args ctx =
     with_identity args ctx ''function'' ''usr'' missing_function (\<lambda>ident.
       let result = queryExceptionProtection (tcOracle ctx) ident (exception_type_arg args) (entryPointsArg args ctx)
       in JObj ([(''function'', shown_name args ''function'' ident)] @ attachUsr ctx ident ''usr''
                @ [(''protection'', JStr (protectionToStr (protection result))),
                   (''totalPaths'', jcount (paths result)),
                   (''summary'', JStr (summary result)),
                   (''caughtPaths'', count_where isCaught (paths result)),
                   (''uncaughtPaths'', count_where (\<lambda>p. \<not> isCaught p) (paths result))]))"

subsection \<open>One call site\<close>

definition site_candidate :: "CallSiteContext \<Rightarrow> Json" where
  "site_candidate c = JObj [(''callSite'', JStr (ctxCallSite c)), (''callerUsr'', JStr (ctxCallerUsr c)),
                            (''callerName'', JStr (ctxCallerName c))]"

definition makeAmbiguousSiteResult :: "string \<Rightarrow> CallSiteContext list \<Rightarrow> Json" where
  "makeAmbiguousSiteResult siteSpelling ctxs =
     JObj [(''ambiguous'', JBool True), (''parameter'', JStr ''caller''), (''callSite'', JStr siteSpelling),
           (''candidates'', JArr (map site_candidate (sort_key ctxCallerUsr ctxs))),
           (''note'', JStr ''Multiple call sites share this spelling (macro expansion). Re-run with the 'caller' parameter (USR or qualified name) of the intended enclosing function.'')]"

datatype SiteResolution = SiteContext CallSiteContext | SiteResponse Json | NotIndexed

definition resolveCallSiteContext :: "JsonObject \<Rightarrow> ToolContext \<Rightarrow> string \<Rightarrow> SiteResolution" where
  "resolveCallSiteContext args ctx siteSpelling =
     (case getString args ''caller'' of
        Some caller \<Rightarrow>
          (case contextAtSiteFor (tcIndex ctx) siteSpelling caller of
             Some c \<Rightarrow> SiteContext c | None \<Rightarrow> NotIndexed)
      | None \<Rightarrow>
          (case contextsAtSite (tcIndex ctx) siteSpelling of
             [] \<Rightarrow> NotIndexed
           | [c] \<Rightarrow> SiteContext c
           | ctxs \<Rightarrow> SiteResponse (makeAmbiguousSiteResult siteSpelling ctxs)))"

definition rfind_from :: "char \<Rightarrow> string \<Rightarrow> nat \<Rightarrow> nat option" where
  \<comment> \<open>\<open>s.rfind(c, pos)\<close>: the last index at most \<open>pos\<close>\<close>
  "rfind_from c s pos =
     (case filter (\<lambda>i. s ! i = c) [0..<min (Suc pos) (length s)] of [] \<Rightarrow> None | is \<Rightarrow> Some (last is))"

definition isDigits :: "string \<Rightarrow> bool" where
  "isDigits s = (s \<noteq> [] \<and> list_all (\<lambda>c. 48 \<le> (of_char c :: nat) \<and> (of_char c :: nat) \<le> 57) s)"

definition valid_call_site :: "string \<Rightarrow> bool" where
  \<comment> \<open>the negation of the format test; \<open>rfind(':', 0 - 1)\<close> searches the whole string\<close>
  "valid_call_site raw =
     (case rfind_from CHR '':'' raw (length raw) of
        None \<Rightarrow> False
      | Some lastColon \<Rightarrow>
          (case rfind_from CHR '':'' raw (if lastColon = 0 then length raw else lastColon - 1) of
             None \<Rightarrow> False
           | Some secondLast \<Rightarrow>
               secondLast \<noteq> 0 \<and>
               isDigits (take (lastColon - secondLast - 1) (drop (secondLast + 1) raw)) \<and>
               isDigits (drop (lastColon + 1) raw)))"

definition not_indexed :: "string \<Rightarrow> Json" where
  "not_indexed raw =
     errorResult (''Call site not indexed: '' @ quoted raw
       @ ''. Ensure the path matches the compilation database canonicalization (typically an absolute path).'')"

definition call_site_json :: "ToolContext \<Rightarrow> CallSiteContext \<Rightarrow> Json" where
  "call_site_json ctx c =
     JObj [(''callSite'', JStr (ctxCallSite c)), (''caller'', JStr (ctxCallerName c)),
           (''callerUsr'', JStr (ctxCallerUsr c)), (''callee'', JStr (ctxCalleeName c)),
           (''isUnderTryCatch'', JBool (enclosingTryCatches c \<noteq> [])),
           (''wouldTerminateIfThrows'', JBool (callerNoexcept c = Noexcept)),
           (''enclosingScopeCount'', jcount (enclosingTryCatches c)),
           (''enclosingGuardCount'', jcount (enclosingGuards c)),
           (''liveRaiiLocalsCount'', jcount (liveRaiiLocals c)),
           (''enclosingScopes'', JArr (map serializeTryCatchScope (enclosingTryCatches c))),
           (''enclosingGuards'', JArr (map (serializeGuard (tcClassify ctx)) (enclosingGuards c)))]"

definition missing_call_site :: Json where
  "missing_call_site = errorResult (''Missing required parameter '' @ quoted ''call_site'')"

definition handleQueryCallSiteContext :: "JsonObject \<Rightarrow> ToolContext \<Rightarrow> Json" where
  "handleQueryCallSiteContext args ctx =
     (case getString args ''call_site'' of
        None \<Rightarrow> missing_call_site
      | Some raw \<Rightarrow>
          (if \<not> valid_call_site raw
           then errorResult (''Invalid call_site format: expected 'file:line:col' (e.g. 'src/foo.cpp:12:3'), got '' @ quoted raw)
           else
             (case resolveCallSiteContext args ctx raw of
                SiteResponse answer \<Rightarrow> answer
              | NotIndexed \<Rightarrow> not_indexed raw
              | SiteContext c \<Rightarrow> call_site_json ctx c)))"

definition parseRaiiKind :: "string \<Rightarrow> RaiiKind option" where
  "parseRaiiKind s =
     (if s = ''lock'' then Some Lock else if s = ''smart_ptr'' then Some SmartPtr
      else if s = ''other'' then Some OtherRaii else None)"

fun parse_raii_kinds :: "Json list \<Rightarrow> RaiiKind set \<Rightarrow> string + RaiiKind set" where
  "parse_raii_kinds [] ks = Inr ks"
| "parse_raii_kinds (v # vs) ks =
     (case getAsString v of
        None \<Rightarrow> parse_raii_kinds vs ks
      | Some s \<Rightarrow>
          (case parseRaiiKind s of
             None \<Rightarrow> Inl (''Invalid value in kinds: '' @ quoted s @ '' (expected lock, smart_ptr, or other)'')
           | Some k \<Rightarrow> parse_raii_kinds vs (insert k ks)))"

definition handleQueryRaiiScopesAtCallsite :: "JsonObject \<Rightarrow> ToolContext \<Rightarrow> Json" where
  "handleQueryRaiiScopesAtCallsite args ctx =
     (case getString args ''call_site'' of
        None \<Rightarrow> missing_call_site
      | Some spelling \<Rightarrow>
          (case (case getArray args ''kinds'' of Some vs \<Rightarrow> parse_raii_kinds vs {} | None \<Rightarrow> Inr {}) of
             Inl err \<Rightarrow> errorResult err
           | Inr allowed \<Rightarrow>
               (case resolveCallSiteContext args ctx spelling of
                  SiteResponse answer \<Rightarrow> answer
                | NotIndexed \<Rightarrow> not_indexed spelling
                | SiteContext c \<Rightarrow>
                    JObj [(''callSite'', JStr spelling), (''caller'', JStr (ctxCallerName c)),
                          (''callerUsr'', JStr (ctxCallerUsr c)), (''callee'', JStr (ctxCalleeName c)),
                          (''locals'', JArr (map serializeRaiiLocal
                             (filter (\<lambda>l. \<not> (allowed \<noteq> {} \<and> raiiKind l \<notin> allowed)) (liveRaiiLocals c))))])))"

subsection \<open>The path-level queries\<close>

definition serializePathInfo :: "ToolContext \<Rightarrow> PathInfo \<Rightarrow> Json" where
  "serializePathInfo ctx p =
     JObj ([(''callChain'', JArr (map JStr (callChain p))), (''isCaught'', JBool (isCaught p))]
       @ (if isCaught p then [(''caughtAt'', JStr (caughtAt p)), (''caughtBy'', JStr (caughtBy p))] else [])
       @ [(''tryCatchesOnPath'', JArr (map serializeTryCatchScope (tryCatchesOnPath p))),
          (''guardsOnPath'', JArr (map (serializeGuard (tcClassify ctx)) (guardsOnPath p)))])"

definition serializePaths :: "ToolContext \<Rightarrow> PathInfo list \<Rightarrow> Json" where
  "serializePaths ctx ps = JArr (map (serializePathInfo ctx) ps)"

definition handleQueryThrowPropagation :: "JsonObject \<Rightarrow> ToolContext \<Rightarrow> Json" where
  "handleQueryThrowPropagation args ctx =
     with_identity args ctx ''function'' ''usr'' missing_function (\<lambda>ident.
       let exceptionType = exception_type_arg args;
           result = queryThrowPropagation (tcOracle ctx) ident exceptionType (entryPointsArg args ctx)
       in JObj ([(''function'', shown_name args ''function'' ident)] @ attachUsr ctx ident ''usr''
                @ [(''exceptionType'', JStr exceptionType),
                   (''protection'', JStr (protectionToStr (protection result))),
                   (''totalPaths'', jcount (paths result)),
                   (''summary'', JStr (summary result)),
                   (''paths'', serializePaths ctx (paths result))]))"

definition max_paths_arg :: "JsonObject \<Rightarrow> string + nat" where
  "max_paths_arg args =
     (case getInteger args ''max_paths'' of
        None \<Rightarrow> Inr 100
      | Some mp \<Rightarrow> if mp \<le> 0 then Inl ''Invalid max_paths: must be positive'' else Inr (u32 mp))"

definition handleQueryAllPathContexts :: "JsonObject \<Rightarrow> ToolContext \<Rightarrow> Json" where
  "handleQueryAllPathContexts args ctx =
     with_identity args ctx ''function'' ''usr'' missing_function (\<lambda>ident.
       case max_paths_arg args of
         Inl err \<Rightarrow> errorResult err
       | Inr maxPaths \<Rightarrow>
           (let ps = queryAllPathContexts (tcOracle ctx) ident (entryPointsArg args ctx) maxPaths
            in JObj ([(''function'', shown_name args ''function'' ident)] @ attachUsr ctx ident ''usr''
                     @ [(''totalPaths'', jcount ps), (''maxPaths'', JInt (int maxPaths)),
                        (''paths'', serializePaths ctx ps)])))"

definition nearest_json :: "NearestCatchInfo \<Rightarrow> Json" where
  "nearest_json c =
     JObj [(''framesFromTarget'', JInt (int (framesFromTarget c))),
           (''pathSegment'', JArr (map JStr (pathSegment c))),
           (''scope'', serializeTryCatchScope (ncScope c))]"

definition handleQueryNearestCatches :: "JsonObject \<Rightarrow> ToolContext \<Rightarrow> Json" where
  "handleQueryNearestCatches args ctx =
     with_identity args ctx ''function'' ''usr'' missing_function (\<lambda>ident.
       JObj ([(''function'', shown_name args ''function'' ident)] @ attachUsr ctx ident ''usr''
             @ [(''catches'', JArr (map nearest_json (queryNearestCatches (tcOracle ctx) ident)))]))"

end
