(* ===== verification/ChannelTools.thy ===== *)
theory ChannelTools
  imports GraphTools
begin

text \<open>
  The channel tools of src/query/ChannelTools.cpp.  The worklist of \<open>findConcurrencyBoundaries\<close> is
  the list it appends to with the read position \<open>qi\<close>.
\<close>

definition opt_channels :: "ToolContext \<Rightarrow> (ChannelIndex \<Rightarrow> Json list) \<Rightarrow> Json list" where
  "opt_channels ctx f = (case tcChannels ctx of None \<Rightarrow> [] | Some c \<Rightarrow> f c)"

definition channel_entry :: "ChannelIndex \<Rightarrow> string \<Rightarrow> Json" where
  "channel_entry c i =
     (let producers = producersOf c i; consumers = consumersOf c i;
          sample = (if producers \<noteq> [] then Some (hd producers)
                    else if consumers \<noteq> [] then Some (hd consumers) else None)
      in JObj ([(''channelId'', JStr i)]
           @ (case sample of
                None \<Rightarrow> []
              | Some s \<Rightarrow> [(''channelType'', JStr (channelTypeName s)), (''category'', JStr (category s))])
           @ [(''producerCount'', jcount producers), (''consumerCount'', jcount consumers)]))"

definition handleListChannels :: "JsonObject \<Rightarrow> ToolContext \<Rightarrow> Json" where
  "handleListChannels args ctx =
     (let entries = opt_channels ctx (\<lambda>c. map (channel_entry c) (allChannelIds c))
      in JObj [(''count'', jcount entries), (''channels'', JArr entries)])"

definition no_channel_index :: Json where
  "no_channel_index = errorResult ''No channel index loaded (server started without --channel-types-json)''"

definition handleQueryChannel :: "JsonObject \<Rightarrow> ToolContext \<Rightarrow> Json" where
  "handleQueryChannel args ctx =
     (case getString args ''channel_id'' of
        None \<Rightarrow> errorResult ''Requires 'channel_id' (from list_channels)''
      | Some i \<Rightarrow>
          (case tcChannels ctx of
             None \<Rightarrow> no_channel_index
           | Some c \<Rightarrow>
               (if producersOf c i = [] \<and> consumersOf c i = []
                then errorResult (''No channel found with id '' @ quoted i)
                else JObj [(''channelId'', JStr i),
                           (''producers'', JArr (map (serializeChannelSite (tcClassify ctx)) (producersOf c i))),
                           (''consumers'', JArr (map (serializeChannelSite (tcClassify ctx)) (consumersOf c i)))])))"

definition handleQueryChannelsForFunction :: "JsonObject \<Rightarrow> ToolContext \<Rightarrow> Json" where
  "handleQueryChannelsForFunction args ctx =
     (case getString args ''function'' of
        None \<Rightarrow> errorResult ''Requires 'function' (qualified name or usr)''
      | Some f \<Rightarrow>
          (let arr = opt_channels ctx (\<lambda>c. map (serializeChannelSite (tcClassify ctx)) (sitesForFunction c f))
           in JObj [(''function'', JStr f), (''count'', jcount arr), (''sites'', JArr arr)]))"

subsection \<open>\<open>explain_ordering\<close>\<close>

record ConcurrencyBoundary =
  cbSpawner :: string
  cbTarget :: string
  cbExecutionContext :: string
  cbCallSite :: string

definition kMaxBoundaryWalkNodes :: int where
  "kMaxBoundaryWalkNodes = 2000"

record BoundaryWalk =
  bwFound :: "ConcurrencyBoundary list"
  bwVisited :: "string set"
  bwQueue :: "string list"

definition boundary_of :: "CallGraphEdge \<Rightarrow> ConcurrencyBoundary" where
  "boundary_of e = \<lparr>cbSpawner = callerName e, cbTarget = calleeName e,
     cbExecutionContext = executionContextToString (execContext e), cbCallSite = callSite e\<rparr>"

definition boundary_edge :: "CallGraphEdge \<Rightarrow> BoundaryWalk \<Rightarrow> BoundaryWalk" where
  "boundary_edge e w =
     (if execContext e \<noteq> Synchronous then w\<lparr>bwFound := bwFound w @ [boundary_of e]\<rparr>
      else if callerName e \<in> bwVisited w then w
      else w\<lparr>bwVisited := insert (callerName e) (bwVisited w), bwQueue := bwQueue w @ [callerName e]\<rparr>)"

definition unvisited :: "CallGraph \<Rightarrow> BoundaryWalk \<Rightarrow> nat" where
  "unvisited g w = card (display_names g - bwVisited w)"

lemma boundary_edge_size:
  assumes "callerName e \<in> display_names g"
  shows "unvisited g (boundary_edge e w) + length (bwQueue (boundary_edge e w)) = unvisited g w + length (bwQueue w)"
  using card_unvisited[OF finite_display_names assms, of "bwVisited w"]
  by (auto simp: boundary_edge_def unvisited_def)

lemma boundary_edges_size:
  "set es \<subseteq> set (callersOf g f) \<Longrightarrow>
     unvisited g (fold boundary_edge es w) + length (bwQueue (fold boundary_edge es w)) =
     unvisited g w + length (bwQueue w)"
proof (induction es arbitrary: w)
  case (Cons e es)
  then have "callerName e \<in> display_names g" by (intro callerName_display_names[of e _ f]) simp
  then show ?case using Cons by (simp add: boundary_edge_size)
qed simp

function boundary_walk :: "CallGraph \<Rightarrow> nat \<Rightarrow> BoundaryWalk \<Rightarrow> BoundaryWalk" where
  \<comment> \<open>\<open>while (qi < queue.size() && queue.size() < kMaxBoundaryWalkNodes)\<close>\<close>
  "boundary_walk g qi w =
     (if qi < length (bwQueue w) \<and> int (length (bwQueue w)) < kMaxBoundaryWalkNodes
      then boundary_walk g (Suc qi) (fold boundary_edge (callersOf g (bwQueue w ! qi)) w)
      else w)"
  by pat_completeness auto
termination
proof (relation "measure (\<lambda>(g, qi, w). unvisited g w + length (bwQueue w) - qi)")
  fix g qi and w :: BoundaryWalk
  assume a: "qi < length (bwQueue w) \<and> int (length (bwQueue w)) < kMaxBoundaryWalkNodes"
  show "((g, Suc qi, fold boundary_edge (callersOf g (bwQueue w ! qi)) w), g, qi, w)
      \<in> measure (\<lambda>(g, qi, w). unvisited g w + length (bwQueue w) - qi)"
    using boundary_edges_size[OF order_refl, of g "bwQueue w ! qi" w] conjunct1[OF a] by simp
qed simp

declare boundary_walk.simps [simp del]

definition findConcurrencyBoundaries :: "CallGraph \<Rightarrow> string \<Rightarrow> ConcurrencyBoundary list" where
  "findConcurrencyBoundaries g f =
     bwFound (boundary_walk g 0 \<lparr>bwFound = [], bwVisited = {f}, bwQueue = [f]\<rparr>)"

definition findChannelSiteAt :: "ChannelIndex \<Rightarrow> string \<Rightarrow> ChannelSite option" where
  "findChannelSiteAt c spelling = List.find (\<lambda>s. chCallSite s = spelling) (allSites c)"

definition boundary_json :: "ConcurrencyBoundary \<Rightarrow> Json" where
  "boundary_json b =
     JObj [(''spawner'', JStr (cbSpawner b)), (''target'', JStr (cbTarget b)),
           (''executionContext'', JStr (cbExecutionContext b)), (''callSite'', JStr (cbCallSite b))]"

definition ordering_note :: string where
  "ordering_note = ''sameChannel=false, together with differing guard conditions on siteA/siteB, proves the two sends are not guaranteed to be routed the same way. concurrencyBoundaries* lists ThreadEntry/AsyncTask/PackagedTask/Invoke edges found walking backward from each site's enclosing function toward entry points (within 2000 nodes). An EMPTY list is absence of evidence in the visible call graph, not proof of synchronous execution: it means no enforced ordering was found structurally, not that a race is proven.''"

definition ordering_answer :: "ToolContext \<Rightarrow> ChannelSite \<Rightarrow> ChannelSite \<Rightarrow> Json" where
  "ordering_answer ctx siteA siteB =
     JObj [(''sameChannel'', JBool (channelId siteA = channelId siteB)),
           (''siteA'', serializeChannelSite (tcClassify ctx) siteA),
           (''siteB'', serializeChannelSite (tcClassify ctx) siteB),
           (''concurrencyBoundariesA'',
              JArr (map boundary_json (findConcurrencyBoundaries (tcGraph ctx) (siteFunctionUsr siteA)))),
           (''concurrencyBoundariesB'',
              JArr (map boundary_json (findConcurrencyBoundaries (tcGraph ctx) (siteFunctionUsr siteB)))),
           (''note'', JStr ordering_note)]"

definition handleExplainOrdering :: "JsonObject \<Rightarrow> ToolContext \<Rightarrow> Json" where
  "handleExplainOrdering args ctx =
     (case (getString args ''call_site_a'', getString args ''call_site_b'') of
        (Some a, Some b) \<Rightarrow>
          (case tcChannels ctx of
             None \<Rightarrow> no_channel_index
           | Some c \<Rightarrow>
               (case findChannelSiteAt c a of
                  None \<Rightarrow> errorResult (''No channel site indexed at '' @ quoted a)
                | Some siteA \<Rightarrow>
                    (case findChannelSiteAt c b of
                       None \<Rightarrow> errorResult (''No channel site indexed at '' @ quoted b)
                     | Some siteB \<Rightarrow> ordering_answer ctx siteA siteB)))
      | _ \<Rightarrow> errorResult ''Requires 'call_site_a' and 'call_site_b' (file:line:col, from query_channel or query_channels_for_function)'')"

end
