(* ===== verification/DeadCodeTools.thy ===== *)
theory DeadCodeTools
  imports LockTools
begin

text \<open>
  \<open>analyze_dead_code\<close> (src/query/DeadCodeTools.cpp): the arguments, the two cache layers, the
  filters and the pagination.  The sum \<open>start + limit\<close> is taken as unbounded.
\<close>

definition isSystemPath :: "string \<Rightarrow> bool" where
  "isSystemPath path =
     (if path = [] then False
      else if list_ex (starts_with path)
                [''/usr/include/'', ''/usr/lib/'', ''/usr/local/include/'', ''/usr/local/lib/'',
                 ''/Library/Developer/'', ''/Applications/Xcode.app/'', ''/opt/homebrew/'']
      then True
      else str_contains ''/lib/clang/'' path \<or> str_contains ''/lib/gcc/'' path)"

record DeadQuery =
  dqEntryPoints :: "string list"
  includeOptimistic :: bool
  includeSystem :: bool
  namePrefix :: string
  filePrefix :: string
  dqLimit :: int
  dqOffset :: int

definition dead_args :: "JsonObject \<Rightarrow> ToolContext \<Rightarrow> DeadQuery" where
  "dead_args args ctx =
     \<lparr>dqEntryPoints = entry_points_arg args ctx,
      includeOptimistic = (case getBoolean args ''include_optimistic'' of Some b \<Rightarrow> b | None \<Rightarrow> True),
      includeSystem = (case getBoolean args ''include_system'' of Some b \<Rightarrow> b | None \<Rightarrow> False),
      namePrefix = (case getString args ''name_prefix'' of Some s \<Rightarrow> s | None \<Rightarrow> []),
      filePrefix = (case getString args ''file_prefix'' of Some s \<Rightarrow> s | None \<Rightarrow> []),
      dqLimit = max 0 (case getInteger args ''limit'' of Some l \<Rightarrow> l | None \<Rightarrow> 500),
      dqOffset = max 0 (case getInteger args ''offset'' of Some f \<Rightarrow> f | None \<Rightarrow> 0)\<rparr>"

definition key_flag :: "bool \<Rightarrow> string" where
  "key_flag b = (if b then ''1'' else ''0'')"

definition key_entries :: "string list \<Rightarrow> string" where
  \<comment> \<open>\<open>for (ep : entryPoints) { key += '|'; key += ep; }\<close>\<close>
  "key_entries eps = fold (\<lambda>ep key. key @ ''|'' @ ep) eps []"

definition full_key :: "DeadQuery \<Rightarrow> string" where
  "full_key d =
     ''dead_code_json|'' @ key_flag (includeOptimistic d) @ key_flag (includeSystem d)
     @ ''|'' @ namePrefix d @ ''|'' @ filePrefix d @ ''|'' @ nat_string (nat (dqLimit d))
     @ ''|'' @ nat_string (nat (dqOffset d)) @ key_entries (dqEntryPoints d)"

definition liveness_key :: "DeadQuery \<Rightarrow> string" where
  "liveness_key d = ''dead_code|'' @ key_flag (includeOptimistic d) @ key_entries (dqEntryPoints d)"

definition compute_liveness :: "ToolContext \<Rightarrow> DeadQuery \<Rightarrow> (string, Liveness) umap" where
  "compute_liveness ctx d =
     (let a = analyzePessimistic (newAnalyzer (tcGraph ctx) (dqEntryPoints d) []);
          a1 = (if includeOptimistic d then analyzeOptimistic a else a)
      in getResults a1)"

definition fetch_liveness :: "ToolContext \<Rightarrow> DeadQuery \<Rightarrow> QueryCache option \<Rightarrow>
    (string, Liveness) umap \<times> QueryCache option" where
  "fetch_liveness ctx d cache =
     (case cache of
        None \<Rightarrow> (compute_liveness ctx d, None)
      | Some c \<Rightarrow>
          (case map_of (livenessObjects c) (liveness_key d) of
             Some results \<Rightarrow> (results, cache)
           | None \<Rightarrow>
               (let results = compute_liveness ctx d
                in (results, Some (c\<lparr>livenessObjects := AList.update (liveness_key d) results (livenessObjects c)\<rparr>)))))"

definition passes_filter :: "DeadQuery \<Rightarrow> CallGraphNode option \<Rightarrow> string \<Rightarrow> bool" where
  "passes_filter d node name =
     (if \<not> includeSystem d \<and> (case node of Some n \<Rightarrow> isSystemPath (nodeFile n) | None \<Rightarrow> False) then False
      else if namePrefix d \<noteq> [] \<and> \<not> starts_with name (namePrefix d) then False
      else if filePrefix d \<noteq> [] \<and> (case node of None \<Rightarrow> True | Some n \<Rightarrow> \<not> starts_with (nodeFile n) (filePrefix d))
      then False
      else True)"

definition dead_entry :: "CallGraph \<Rightarrow> string \<Rightarrow> Json" where
  "dead_entry g name =
     JObj ((''name'', JStr name) #
       (case findNode g name of
          None \<Rightarrow> []
        | Some n \<Rightarrow> [(''file'', JStr (nodeFile n)), (''line'', JInt (int (nodeLine n))), (''usr'', JStr (usr n))]))"

definition verdict_names :: "ToolContext \<Rightarrow> DeadQuery \<Rightarrow> Liveness \<Rightarrow> (string, Liveness) umap \<Rightarrow> string list" where
  \<comment> \<open>the names the loop lists for one verdict\<close>
  "verdict_names ctx d v results =
     map fst (filter (\<lambda>kv. snd kv = v \<and> passes_filter d (findNode (tcGraph ctx) (fst kv)) (fst kv)) results)"

definition page :: "int \<Rightarrow> int \<Rightarrow> 'a list \<Rightarrow> 'a list" where
  "page offset limit xs =
     (let n = int (length xs); start = min offset n; stop = min (start + limit) n
      in take (nat (stop - start)) (drop (nat start) xs))"

definition dead_answer :: "ToolContext \<Rightarrow> DeadQuery \<Rightarrow> (string, Liveness) umap \<Rightarrow> Json" where
  "dead_answer ctx d results =
     (let deadAll = map (dead_entry (tcGraph ctx)) (verdict_names ctx d Dead results);
          optimistic = map (dead_entry (tcGraph ctx)) (verdict_names ctx d OptimisticallyAlive results);
          n = int (length deadAll);
          dead = page (dqOffset d) (dqLimit d) deadAll
      in JObj
        [(''totalFunctions'', jcount results),
         (''aliveCount'', count_where (\<lambda>kv. snd kv = Alive) results),
         (''optimisticallyAliveCount'', count_where (\<lambda>kv. snd kv = OptimisticallyAlive) results),
         (''totalDead'', JInt n),
         (''deadCount'', jcount dead),
         (''offset'', JInt (dqOffset d)),
         (''limit'', JInt (dqLimit d)),
         (''truncated'', JBool (min (min (dqOffset d) n + dqLimit d) n < n)),
         (''dead'', JArr dead),
         (''optimisticallyAlive'', JArr optimistic)])"

definition handleAnalyzeDeadCode :: "JsonObject \<Rightarrow> ToolContext \<Rightarrow> QueryCache option \<Rightarrow> Json \<times> QueryCache option" where
  "handleAnalyzeDeadCode args ctx cache =
     (let d = dead_args args ctx in
      case (case cache of None \<Rightarrow> None | Some c \<Rightarrow> map_of (byKey c) (full_key d)) of
        Some out \<Rightarrow> (out, cache)
      | None \<Rightarrow>
          (let (results, cache1) = fetch_liveness ctx d cache;
               out = dead_answer ctx d results
           in (out, map_option (\<lambda>c. c\<lparr>byKey := AList.update (full_key d) out (byKey c)\<rparr>) cache1)))"

end
