(* ===== verification/ToolRegistry.thy ===== *)
theory ToolRegistry
  imports ToolSchema ExceptionTools ChannelTools DeadCodeTools
begin

text \<open>
  The registry of the tools (src/query/Registry.cpp): which handler answers which name, the member
  that holds the records of an answer and the index sections a tool declares to read.  A handler
  takes and returns the cache; the ones that ignore it pass it through.
\<close>

unbundle bit_operations_syntax

type_synonym ToolHandler = "JsonObject \<Rightarrow> ToolContext \<Rightarrow> QueryCache option \<Rightarrow> Json \<times> QueryCache option"

record ToolEntry =
  toolName :: string
  toolDescription :: string
  inputSchema :: Json
  toolHandler :: "ToolHandler option"
  recordsKey :: string
  needs :: "32 word"

definition uncached :: "(JsonObject \<Rightarrow> ToolContext \<Rightarrow> Json) \<Rightarrow> ToolHandler" where
  "uncached h args ctx cache = (h args ctx, cache)"

definition tool :: "string \<Rightarrow> string \<Rightarrow> Json \<Rightarrow> ToolHandler \<Rightarrow> ToolEntry" where
  "tool name desc schema h =
     \<lparr>toolName = name, toolDescription = desc, inputSchema = schema, toolHandler = Some h,
      recordsKey = [], needs = kSectionGraph\<rparr>"

definition registerGraphTools :: "ToolEntry list" where
  "registerGraphTools =
     [tool ''lookup_function'' desc_lookup_function schema_lookup_function (uncached handleLookupFunction),
      tool ''get_callees'' desc_get_callees schema_get_callees (uncached handleGetCallees),
      tool ''get_callers'' desc_get_callers schema_get_callers (uncached handleGetCallers),
      tool ''find_call_chain'' desc_find_call_chain schema_find_call_chain (uncached handleFindCallChain),
      tool ''search_functions'' desc_search_functions schema_search_functions handleSearchFunctions,
      tool ''get_class_hierarchy'' desc_get_class_hierarchy schema_get_class_hierarchy (uncached handleGetClassHierarchy),
      tool ''list_entry_points'' desc_list_entry_points schema_list_entry_points (uncached handleListEntryPoints),
      tool ''graph_summary'' desc_graph_summary schema_graph_summary handleGraphSummary,
      tool ''list_callback_sites'' desc_list_callback_sites schema_list_callback_sites (uncached handleListCallbackSites),
      tool ''list_concurrency_entry_points'' desc_list_concurrency_entry_points schema_list_concurrency_entry_points (uncached handleListConcurrencyEntryPoints)]"

definition registerExceptionTools :: "ToolEntry list" where
  "registerExceptionTools =
     [tool ''query_exception_safety'' desc_query_exception_safety schema_query_exception_safety (uncached handleQueryExceptionSafety),
      tool ''query_call_site_context'' desc_query_call_site_context schema_query_call_site_context (uncached handleQueryCallSiteContext),
      tool ''query_raii_scopes_at_callsite'' desc_query_raii_scopes_at_callsite schema_query_raii_scopes_at_callsite (uncached handleQueryRaiiScopesAtCallsite),
      tool ''query_throw_propagation'' desc_query_throw_propagation schema_query_throw_propagation (uncached handleQueryThrowPropagation),
      tool ''query_all_path_contexts'' desc_query_all_path_contexts schema_query_all_path_contexts (uncached handleQueryAllPathContexts),
      tool ''query_nearest_catches'' desc_query_nearest_catches schema_query_nearest_catches (uncached handleQueryNearestCatches)]"

definition registerLockTools :: "ToolEntry list" where
  "registerLockTools =
     [tool ''query_locks_held'' desc_query_locks_held schema_query_locks_held (uncached handleQueryLocksHeld),
      tool ''query_same_lock'' desc_query_same_lock schema_query_same_lock (uncached handleQuerySameLock)]"

definition registerDeadCodeTools :: "ToolEntry list" where
  "registerDeadCodeTools = [tool ''analyze_dead_code'' desc_analyze_dead_code schema_analyze_dead_code handleAnalyzeDeadCode]"

definition registerChannelTools :: "ToolEntry list" where
  "registerChannelTools =
     [tool ''list_channels'' desc_list_channels schema_list_channels (uncached handleListChannels),
      tool ''query_channel'' desc_query_channel schema_query_channel (uncached handleQueryChannel),
      tool ''query_channels_for_function'' desc_query_channels_for_function schema_query_channels_for_function (uncached handleQueryChannelsForFunction),
      tool ''explain_ordering'' desc_explain_ordering schema_explain_ordering (uncached handleExplainOrdering)]"

definition kExtraNeeds :: "(string \<times> 32 word) list" where
  "kExtraNeeds =
     [(''query_exception_safety'', kSectionControlFlow), (''query_call_site_context'', kSectionControlFlow),
      (''query_raii_scopes_at_callsite'', kSectionControlFlow),
      (''query_throw_propagation'', kSectionControlFlow), (''query_all_path_contexts'', kSectionControlFlow),
      (''query_nearest_catches'', kSectionControlFlow), (''query_locks_held'', kSectionControlFlow),
      (''query_same_lock'', kSectionControlFlow), (''list_channels'', kSectionChannels),
      (''query_channel'', kSectionChannels), (''query_channels_for_function'', kSectionChannels),
      (''explain_ordering'', kSectionChannels)]"

definition kRecordsKeys :: "(string \<times> string) list" where
  "kRecordsKeys =
     [(''search_functions'', ''matches''), (''get_callees'', ''callees''), (''get_callers'', ''callers''),
      (''find_call_chain'', ''paths''), (''get_class_hierarchy'', ''derivedClasses''),
      (''list_entry_points'', ''entryPoints''), (''list_callback_sites'', ''targets''),
      (''list_concurrency_entry_points'', ''entries''), (''query_raii_scopes_at_callsite'', ''locals''),
      (''query_throw_propagation'', ''paths''), (''query_all_path_contexts'', ''paths''),
      (''query_nearest_catches'', ''catches''), (''query_locks_held'', ''paths''),
      (''query_same_lock'', ''sharedLocks''), (''analyze_dead_code'', ''dead''),
      (''list_channels'', ''channels''), (''query_channels_for_function'', ''sites'')]"

definition sectionNames :: "32 word \<Rightarrow> string list" where
  "sectionNames n =
     (if n AND kSectionGraph \<noteq> 0 then [''graph''] else [])
     @ (if n AND kSectionControlFlow \<noteq> 0 then [''control_flow''] else [])
     @ (if n AND kSectionChannels \<noteq> 0 then [''channels''] else [])"

definition complete_tool :: "ToolEntry \<Rightarrow> ToolEntry" where
  \<comment> \<open>the loop of \<open>getRegisteredTools\<close>\<close>
  "complete_tool t =
     t\<lparr>recordsKey := (case map_of kRecordsKeys (toolName t) of Some k \<Rightarrow> k | None \<Rightarrow> recordsKey t),
       needs := kSectionGraph OR (case map_of kExtraNeeds (toolName t) of Some n \<Rightarrow> n | None \<Rightarrow> 0)\<rparr>"

definition getRegisteredTools :: "ToolEntry list" where
  "getRegisteredTools =
     map complete_tool (registerGraphTools @ registerExceptionTools @ registerLockTools
       @ registerDeadCodeTools @ registerChannelTools)
     @ [\<lparr>toolName = ''reindex_tu'', toolDescription = desc_reindex_tu, inputSchema = schema_reindex_tu,
          toolHandler = None, recordsKey = [], needs = kSectionAll\<rparr>]"

end
