(* ===== verification/QueryProps.thy ===== *)
theory QueryProps
  imports ToolRegistry CallChainProps "HOL-Library.Multiset"
begin

text \<open>
  Properties of the query layer: how identities resolve, what a disambiguation answer lists, the
  order of search results, the record list of every tool, the format of call sites.
\<close>

subsection \<open>Identities\<close>

definition site_identities :: "ToolContext \<Rightarrow> string \<Rightarrow> string option \<Rightarrow> string set" where
  \<comment> \<open>what is called at a spelling, and agrees with a name given along\<close>
  "site_identities ctx s name =
     {u \<in> callee_identity ` set (contextsAtSite (tcIndex ctx) s).
        case name of None \<Rightarrow> True | Some n \<Rightarrow> u \<in> set (usrsForName (tcGraph ctx) n) \<or> u = n}"

lemma std_set_props [simp]: "set (std_set xs) = set xs" "distinct (std_set xs)" "sorted (std_set xs)"
  by (simp_all add: std_set_def)

lemma resolve_callees_Resolved: "resolve_callees ctx p s name cs = Resolved u \<Longrightarrow> cs = [u]"
  by (auto simp: resolve_callees_def split: list.splits)

lemma resolve_site_Resolved:
  assumes "resolve_site ctx p s name = Resolved u"
  shows "site_identities ctx s name = {u}"
proof (cases name)
  case None
  with assms have "std_set (map callee_identity (contextsAtSite (tcIndex ctx) s)) = [u]"
    by (auto simp: resolve_site_def Let_def dest: resolve_callees_Resolved split: if_splits)
  then have "callee_identity ` set (contextsAtSite (tcIndex ctx) s) = {u}"
    using std_set_props(1)[of "map callee_identity (contextsAtSite (tcIndex ctx) s)"] by simp
  with None show ?thesis by (simp add: site_identities_def)
next
  case (Some n)
  let ?callees = "std_set (map callee_identity (contextsAtSite (tcIndex ctx) s))"
  let ?ok = "\<lambda>c. c \<in> set (usrsForName (tcGraph ctx) n) \<or> c = n"
  from assms Some have "filter ?ok ?callees = [u]"
    by (auto simp: resolve_site_def Let_def dest: resolve_callees_Resolved split: if_splits)
  then have "set (filter ?ok ?callees) = {u}" by simp
  with Some show ?thesis by (simp add: site_identities_def)
qed

lemma resolve_name_Resolved:
  assumes "resolve_name args ctx n p name = Resolved u"
  shows "usrsForName (tcGraph ctx) name = [u] \<or> (usrsForName (tcGraph ctx) name = [] \<and> u = name) \<or>
     (\<exists>flt. getString args (companionParam p ''filter'') = Some flt \<and>
        filter (candidate_matches (tcGraph ctx) flt) (usrsForName (tcGraph ctx) name) = [u])"
proof -
  consider "usrsForName (tcGraph ctx) name = []" | v where "usrsForName (tcGraph ctx) name = [v]"
    | (many) "length (usrsForName (tcGraph ctx) name) \<ge> 2"
    by (cases "usrsForName (tcGraph ctx) name"; cases "tl (usrsForName (tcGraph ctx) name)") auto
  then show ?thesis
  proof cases
    case many
    then show ?thesis using assms by (auto simp: resolve_name_def Let_def split: option.splits list.splits)
  qed (use assms in \<open>simp_all add: resolve_name_def\<close>)
qed

text \<open>C26: An identity resolves to one function only when the arguments single it out: its USR was
  given, or it is the only function called at the given call site that the given name denotes, or
  the name denotes at most one USR, or it is the only USR of the name that the filter matches. A name
  is never resolved to a silent choice among several.\<close>

theorem resolution_singles_out:
  assumes "resolveIdentity args ctx nameParam usrParam = Resolved u"
  shows "getString args usrParam = Some u \<or>
     (\<exists>s. getString args (companionParam usrParam ''site'') = Some s \<and>
        site_identities ctx s (getString args nameParam) = {u}) \<or>
     (\<exists>name. getString args nameParam = Some name \<and>
        (usrsForName (tcGraph ctx) name = [u] \<or> (usrsForName (tcGraph ctx) name = [] \<and> u = name) \<or>
         (\<exists>flt. getString args (companionParam usrParam ''filter'') = Some flt \<and>
            filter (candidate_matches (tcGraph ctx) flt) (usrsForName (tcGraph ctx) name) = [u])))"
proof (cases "getString args usrParam")
  case (Some v)
  then show ?thesis using assms by (simp add: resolveIdentity_def)
next
  case usr: None
  show ?thesis
  proof (cases "getString args (companionParam usrParam ''site'')")
    case (Some s)
    with usr assms have "resolve_site ctx usrParam s (getString args nameParam) = Resolved u"
      by (simp add: resolveIdentity_def)
    from resolve_site_Resolved[OF this] Some show ?thesis by blast
  next
    case None
    with usr assms obtain name where n: "getString args nameParam = Some name"
      "resolve_name args ctx nameParam usrParam name = Resolved u"
      by (auto simp: resolveIdentity_def split: option.splits)
    from resolve_name_Resolved[OF n(2)] n(1) show ?thesis by blast
  qed
qed

definition named_f :: JsonObject where
  "named_f = [(''function'', JStr ''f'')]"

theorem resolution_singles_out_witness:
  "getString named_f ''usr'' = Some ''u:f'' \<or>
     (\<exists>s. getString named_f (companionParam ''usr'' ''site'') = Some s \<and>
        site_identities demo_ctx s (getString named_f ''function'') = {''u:f''}) \<or>
     (\<exists>name. getString named_f ''function'' = Some name \<and>
        (usrsForName (tcGraph demo_ctx) name = [''u:f''] \<or> (usrsForName (tcGraph demo_ctx) name = [] \<and> ''u:f'' = name) \<or>
         (\<exists>flt. getString named_f (companionParam ''usr'' ''filter'') = Some flt \<and>
            filter (candidate_matches (tcGraph demo_ctx) flt) (usrsForName (tcGraph demo_ctx) name) = [''u:f''])))"
proof (rule resolution_singles_out)
  show "resolveIdentity named_f demo_ctx ''function'' ''usr'' = Resolved ''u:f''" by code_simp
qed

lemma ambiguous_answer_kind:
  "isAmbiguousResult (makeAmbiguousNameResult ctx p name usrs remark)"
  "\<not> isErrorResult (makeAmbiguousNameResult ctx p name usrs remark)"
  by (simp_all add: makeAmbiguousNameResult_def Let_def json_simps)

text \<open>A disambiguation answer is marked ambiguous and is no error; it counts all candidates and
  lists the 25 least of them in ascending order, whatever order they were found in; it says that it is
  truncated exactly when there are more.\<close>

theorem ambiguous_answer:
  "isAmbiguousResult (makeAmbiguousNameResult ctx p name usrs remark) \<and>
   \<not> isErrorResult (makeAmbiguousNameResult ctx p name usrs remark) \<and>
   jfield (makeAmbiguousNameResult ctx p name usrs remark) ''total_candidates'' = Some (JInt (int (length usrs))) \<and>
   map (\<lambda>c. jfield c ''usr'') (jlist (makeAmbiguousNameResult ctx p name usrs remark) ''candidates'') =
     map (\<lambda>u. Some (JStr u)) (take 25 (sort usrs)) \<and>
   jfield (makeAmbiguousNameResult ctx p name usrs remark) ''truncated'' =
     (if length usrs > 25 then Some (JBool True) else None)"
  using ambiguous_answer_kind[of ctx p name usrs remark]
proof (intro conjI)
  show "map (\<lambda>c. jfield c ''usr'') (jlist (makeAmbiguousNameResult ctx p name usrs remark) ''candidates'') =
     map (\<lambda>u. Some (JStr u)) (take 25 (sort usrs))"
    by (simp add: makeAmbiguousNameResult_def Let_def jlist_def comp_def candidate_json_def
        kMaxAmbiguousCandidates_def)
qed (simp_all add: makeAmbiguousNameResult_def Let_def kMaxAmbiguousCandidates_def)

subsection \<open>Search\<close>

definition search_key :: "string \<Rightarrow> CallGraphNode \<Rightarrow> nat \<times> nat \<times> string" where
  \<comment> \<open>an exact unqualified name, then a prefix of it, then the rest; shorter names first\<close>
  "search_key needle node =
     (let unq = drop (unqualified_offset (qualifiedName node)) (lower (qualifiedName node)) in
      (if unq = needle then 0 else if starts_with unq needle then 1 else 2,
       length (qualifiedName node), qualifiedName node))"

lemma sort_key_map: "sort_key f (map g xs) = map g (sort_key (f \<circ> g) xs)"
proof (induction xs)
  case (Cons x xs)
  have "insort_key f (g x) (map g ys) = map g (insort_key (f \<circ> g) x ys)" for ys
    by (induction ys) auto
  with Cons show ?case by (simp add: comp_def)
qed simp

lemma search_hits_nodes:
  "map fst (search_hits needle (build_search_index g)) =
     sort_key (search_key needle) (filter (\<lambda>n. str_contains needle (lower (qualifiedName n))) (allNodes g))"
proof -
  let ?hits = "map (\<lambda>n. (n, fst (search_key needle n)))
    (filter (\<lambda>n. str_contains needle (lower (qualifiedName n))) (allNodes g))"
  have tier: "search_tier needle \<lparr>lowerQualified = lower (qualifiedName n),
      unqualifiedOffset = unqualified_offset (qualifiedName n), entryNode = n\<rparr> = fst (search_key needle n)" for n
    by (simp add: search_tier_def search_key_def Let_def)
  have "search_hits needle (build_search_index g) =
      sort_key (\<lambda>(node, tier). (tier, length (qualifiedName node), qualifiedName node)) ?hits"
    by (simp add: search_hits_def build_search_index_def filter_map comp_def tier)
  also have "\<dots> = map (\<lambda>n. (n, fst (search_key needle n))) (sort_key (search_key needle)
      (filter (\<lambda>n. str_contains needle (lower (qualifiedName n))) (allNodes g)))"
  proof -
    have "(\<lambda>(node, tier). (tier, length (qualifiedName node), qualifiedName node)) \<circ>
        (\<lambda>n. (n, fst (search_key needle n))) = search_key needle"
      by (simp add: fun_eq_iff search_key_def Let_def)
    then show ?thesis by (simp only: sort_key_map)
  qed
  finally show ?thesis by (simp add: comp_def)
qed

text \<open>C27: \<open>search_functions\<close> answers with the best \<open>limit\<close> matches: of all functions whose qualified
  name contains the query, ignoring case, ranked by exact unqualified name, prefix and substring,
  then by length and name; the total and the truncation flag count them all.\<close>

theorem search_ranks_matches:
  assumes "getString args ''query'' = Some query" and "query \<noteq> []"
  shows "\<exists>hits. mset hits = {#n \<in># mset (allNodes (tcGraph ctx)). str_contains (lower query) (lower (qualifiedName n))#} \<and>
     sorted (map (search_key (lower query)) hits) \<and>
     jlist (fst (handleSearchFunctions args ctx None)) ''matches'' =
       map search_json (take (nat (case getInteger args ''limit'' of Some l \<Rightarrow> max 1 l | None \<Rightarrow> 25)) hits) \<and>
     jfield (fst (handleSearchFunctions args ctx None)) ''totalMatches'' = Some (jcount hits)"
proof -
  let ?idx = "build_search_index (tcGraph ctx)"
  let ?hits = "map fst (search_hits (lower query) ?idx)"
  have "fst (handleSearchFunctions args ctx None) =
      answer_search query (case getInteger args ''limit'' of Some l \<Rightarrow> max 1 l | None \<Rightarrow> 25) ?idx"
    using assms by (simp add: handleSearchFunctions_def fetch_search_index_def)
  then have "jlist (fst (handleSearchFunctions args ctx None)) ''matches'' =
       map search_json (take (nat (case getInteger args ''limit'' of Some l \<Rightarrow> max 1 l | None \<Rightarrow> 25)) ?hits)"
    and "jfield (fst (handleSearchFunctions args ctx None)) ''totalMatches'' = Some (jcount ?hits)"
    by (simp_all add: answer_search_def Let_def jlist_def take_map jcount_def)
  then show ?thesis
    by (intro exI[of _ ?hits]) (simp add: search_hits_nodes)
qed

definition search_f :: JsonObject where
  "search_f = [(''query'', JStr ''F''), (''limit'', JInt 1)]"

theorem search_ranks_matches_witness:
  "\<exists>hits. mset hits = {#n \<in># mset (allNodes (tcGraph demo_ctx)). str_contains (lower ''F'') (lower (qualifiedName n))#} \<and>
     sorted (map (search_key (lower ''F'')) hits) \<and>
     jlist (fst (handleSearchFunctions search_f demo_ctx None)) ''matches'' =
       map search_json (take (nat (case getInteger search_f ''limit'' of Some l \<Rightarrow> max 1 l | None \<Rightarrow> 25)) hits) \<and>
     jfield (fst (handleSearchFunctions search_f demo_ctx None)) ''totalMatches'' = Some (jcount hits)"
proof (rule search_ranks_matches)
  show "getString search_f ''query'' = Some ''F''" by code_simp
qed simp

subsection \<open>The shape of an answer\<close>

definition answers :: "string \<Rightarrow> Json \<Rightarrow> bool" where
  \<comment> \<open>an error, a disambiguation, or a payload with the record list under \<open>k\<close>; never two of them\<close>
  "answers k r \<longleftrightarrow>
     (isErrorResult r \<and> \<not> isAmbiguousResult r) \<or> (isAmbiguousResult r \<and> \<not> isErrorResult r) \<or>
     (\<not> isErrorResult r \<and> \<not> isAmbiguousResult r \<and>
        (\<exists>obj. r = JObj obj \<and> (k \<noteq> [] \<longrightarrow> (\<exists>vs. map_of obj k = Some (JArr vs)))))"

lemma answers_error [simp]: "answers k (errorResult m)"
  by (simp add: answers_def)

lemma answers_ambiguous: "isAmbiguousResult r \<Longrightarrow> \<not> isErrorResult r \<Longrightarrow> answers k r"
  by (simp add: answers_def)

lemma answers_obj:
  assumes "map_of obj ''error'' = None" and "map_of obj ''ambiguous'' = None"
    and "k \<noteq> [] \<Longrightarrow> \<exists>vs. map_of obj k = Some (JArr vs)"
  shows "answers k (JObj obj)"
  using assms by (simp add: answers_def json_simps)

lemma answers_ambiguous_name [simp]: "answers k (makeAmbiguousNameResult ctx p name usrs remark)"
  using ambiguous_answer_kind[of ctx p name usrs remark] by (simp add: answers_ambiguous)

lemma answers_ambiguous_site [simp]: "answers k (makeAmbiguousSiteResult s cs)"
  by (simp add: answers_ambiguous makeAmbiguousSiteResult_def json_simps)

lemma answers_resolution:
  assumes "resolveIdentity args ctx n p = Respond r"
  shows "answers k r"
proof -
  have callees: "answers k r" if "resolve_callees ctx p s m cs = Respond r" for s m cs r
    using that by (auto simp: resolve_callees_def split: list.splits)
  show ?thesis using assms callees
    by (auto simp: resolveIdentity_def resolve_site_def resolve_name_def Let_def
        split: option.splits if_splits list.splits)
qed

lemma answers_with_identity:
  "(\<And>ident. answers k (body ident)) \<Longrightarrow> answers k (with_identity args ctx n p m body)"
  by (auto simp: with_identity_def answers_resolution split: Resolution.split)

lemma answers_resolved_site:
  "resolveCallSiteContext args ctx s = SiteResponse r \<Longrightarrow> answers k r"
  by (auto simp: resolveCallSiteContext_def split: option.splits list.splits)

lemma optional_fields:
  "k \<noteq> ''usr'' \<Longrightarrow> map_of (attachUsr ctx ident ''usr'') k = None"
  "k \<noteq> ''targetUsr'' \<Longrightarrow> map_of (attachUsr ctx ident ''targetUsr'') k = None"
  "k \<noteq> ''fn_a_usr'' \<Longrightarrow> map_of (attachUsr ctx ident ''fn_a_usr'') k = None"
  "k \<noteq> ''fn_b_usr'' \<Longrightarrow> map_of (attachUsr ctx ident ''fn_b_usr'') k = None"
  "k \<noteq> ''enclosingClass'' \<Longrightarrow> map_of (class_field node) k = None"
  "k \<noteq> ''skippedHubs'' \<Longrightarrow> map_of (hubs_field hubs) k = None"
  by (simp_all add: attachUsr_def class_field_def hubs_field_def split: option.split)

lemmas answer_fields = optional_fields shown_name_def Let_def map_add_def

named_theorems handler_answers \<open>the shape of each handler's answer\<close>

lemma graph_tool_answers [handler_answers]:
  "answers [] (handleLookupFunction args ctx)"
  "answers ''callees'' (handleGetCallees args ctx)"
  "answers ''callers'' (handleGetCallers args ctx)"
  "answers ''matches'' (fst (handleSearchFunctions args ctx cache))"
  "answers ''derivedClasses'' (handleGetClassHierarchy args ctx)"
  "answers ''entryPoints'' (handleListEntryPoints args ctx)"
  "answers ''targets'' (handleListCallbackSites args ctx)"
  "answers ''entries'' (handleListConcurrencyEntryPoints args ctx)"
  by (auto simp: handleLookupFunction_def handleGetCallees_def handleGetCallers_def
      handleSearchFunctions_def answer_search_def handleGetClassHierarchy_def handleListEntryPoints_def
      handleListCallbackSites_def handleListConcurrencyEntryPoints_def answer_fields
      split: option.split sum.split prod.split intro!: answers_with_identity answers_obj)

lemma chain_tool_answers [handler_answers]: "answers ''paths'' (handleFindCallChain args ctx)"
  by (auto simp: handleFindCallChain_def run_chain_def chain_answer_def answer_fields
      split: sum.split Resolution.split intro!: answers_with_identity answers_obj intro: answers_resolution)

lemma exception_tool_answers [handler_answers]:
  "answers [] (handleQueryExceptionSafety args ctx)"
  "answers ''paths'' (handleQueryThrowPropagation args ctx)"
  "answers ''paths'' (handleQueryAllPathContexts args ctx)"
  "answers ''catches'' (handleQueryNearestCatches args ctx)"
  by (auto simp: handleQueryExceptionSafety_def handleQueryThrowPropagation_def serializePaths_def
      handleQueryAllPathContexts_def handleQueryNearestCatches_def answer_fields
      split: sum.split intro!: answers_with_identity answers_obj)

lemma site_tool_answers [handler_answers]:
  "answers [] (handleQueryCallSiteContext args ctx)"
  "answers ''locals'' (handleQueryRaiiScopesAtCallsite args ctx)"
  by (auto simp: handleQueryCallSiteContext_def handleQueryRaiiScopesAtCallsite_def call_site_json_def
      missing_call_site_def not_indexed_def
      split: option.split sum.split SiteResolution.split intro!: answers_obj intro: answers_resolved_site)

lemma lock_tool_answers [handler_answers]:
  "answers ''paths'' (handleQueryLocksHeld args ctx)"
  "answers ''sharedLocks'' (handleQuerySameLock args ctx)"
  by (auto simp: handleQueryLocksHeld_def handleQuerySameLock_def same_lock_answer_def answer_fields split_beta
      split: Resolution.split intro!: answers_with_identity answers_obj intro: answers_resolution)

lemma dead_code_tool_answers [handler_answers]: "answers ''dead'' (fst (handleAnalyzeDeadCode args ctx None))"
  by (simp add: handleAnalyzeDeadCode_def fetch_liveness_def dead_answer_def Let_def answers_obj)

lemma summary_tool_answers [handler_answers]: "answers [] (fst (handleGraphSummary args ctx None))"
  by (simp add: handleGraphSummary_def summarize_graph_def Let_def answers_obj)

lemma channel_tool_answers [handler_answers]:
  "answers ''channels'' (handleListChannels args ctx)"
  "answers [] (handleQueryChannel args ctx)"
  "answers ''sites'' (handleQueryChannelsForFunction args ctx)"
  "answers [] (handleExplainOrdering args ctx)"
  by (auto simp: handleListChannels_def handleQueryChannel_def handleQueryChannelsForFunction_def
      handleExplainOrdering_def ordering_answer_def no_channel_index_def Let_def
      split: option.split intro!: answers_obj)

text \<open>C28: Every registered tool with a handler answers with exactly one of an error, a disambiguation
  or a payload, and the payload holds an array under the tool's \<open>recordsKey\<close> when it has one.\<close>

theorem tools_keep_contract:
  "list_all (\<lambda>t. case toolHandler t of
       None \<Rightarrow> toolName t = ''reindex_tu''
     | Some h \<Rightarrow> answers (recordsKey t) (fst (h args ctx None))) getRegisteredTools"
  by (simp add: getRegisteredTools_def complete_tool_def kRecordsKeys_def registerGraphTools_def
      registerExceptionTools_def registerLockTools_def registerDeadCodeTools_def registerChannelTools_def
      tool_def uncached_def handler_answers)

text \<open>
  The format of a call site, the sections a \<open>site\<close> parameter needs, and the concurrency boundaries
  of \<open>explain_ordering\<close>.
\<close>

subsection \<open>Call sites\<close>

lemma contextsAtSite_empty [simp]: "contextsAtSite empty_index s = []"
  by (simp add: contextsAtSite_def empty_index_def split: option.split)

lemma last_filter_upt:
  "filter P [0..<n] \<noteq> [] \<and> last (filter P [0..<n]) = i \<longleftrightarrow>
     i < n \<and> P i \<and> (\<forall>j. i < j \<and> j < n \<longrightarrow> \<not> P j)"
proof (induction n)
  case (Suc n)
  show ?case
  proof (cases "P n")
    case True
    then show ?thesis by (auto simp: less_Suc_eq)
  next
    case False
    then have "filter P [0..<Suc n] = filter P [0..<n]" by simp
    with Suc False show ?thesis by (auto simp: less_Suc_eq simp del: upt_Suc)
  qed
qed simp

lemma rfind_from_Some:
  "rfind_from c s pos = Some i \<longleftrightarrow>
     i < min (Suc pos) (length s) \<and> s ! i = c \<and> (\<forall>j. i < j \<and> j < min (Suc pos) (length s) \<longrightarrow> s ! j \<noteq> c)"
proof -
  have "(case ks of [] \<Rightarrow> None | j # js \<Rightarrow> Some (last (j # js))) = Some i \<longleftrightarrow> ks \<noteq> [] \<and> last ks = i"
    for ks :: "nat list" by (cases ks) auto
  then show ?thesis unfolding rfind_from_def by (simp only: last_filter_upt)
qed

lemma rfind_from_after:
  \<comment> \<open>the last occurrence, seen from its two sides\<close>
  "c \<notin> set l \<Longrightarrow> length f + length l \<le> pos \<Longrightarrow> rfind_from c (f @ c # l) pos = Some (length f)"
  by (auto simp: rfind_from_Some nth_append nth_Cons split: nat.splits dest: nth_mem)

lemma option_eqI: "(\<And>i. x = Some i \<longleftrightarrow> y = Some i) \<Longrightarrow> x = y"
  by (cases x; cases y) auto

lemma rfind_from_take:
  "pos < length s \<Longrightarrow> rfind_from c s pos = rfind_from c (take (Suc pos) s) (length s)"
  by (rule option_eqI) (auto simp: rfind_from_Some)

lemma isDigits_props: "isDigits s \<Longrightarrow> s \<noteq> []" "isDigits s \<Longrightarrow> CHR '':'' \<notin> set s"
  by (auto simp: isDigits_def list_all_iff)

lemma site_split:
  assumes "valid_call_site raw"
  shows "\<exists>f l c. raw = f @ '':'' @ l @ '':'' @ c \<and> f \<noteq> [] \<and> isDigits l \<and> isDigits c"
proof -
  from assms obtain a b where a: "rfind_from CHR '':'' raw (length raw) = Some a"
    and b: "rfind_from CHR '':'' raw (if a = 0 then length raw else a - 1) = Some b"
    and ne: "b \<noteq> 0" and l: "isDigits (take (a - b - 1) (drop (b + 1) raw))" and c: "isDigits (drop (a + 1) raw)"
    by (auto simp: valid_call_site_def split: option.splits)
  have "a \<noteq> 0"
  proof
    assume "a = 0"
    with a b have "b = 0" by simp
    with ne show False ..
  qed
  with a b have ab: "b < a" "a < length raw" "raw ! a = CHR '':''" "raw ! b = CHR '':''"
    by (auto simp: rfind_from_Some)
  have "raw = take b raw @ '':'' @ drop (b + 1) raw" using ab id_take_nth_drop[of b raw] by simp
  moreover have "drop (b + 1) raw = take (a - b - 1) (drop (b + 1) raw) @ '':'' @ drop (a + 1) raw"
    using ab id_take_nth_drop[of "a - b - 1" "drop (b + 1) raw"] by simp
  ultimately have "raw = take b raw @ '':'' @ take (a - b - 1) (drop (b + 1) raw) @ '':'' @ drop (a + 1) raw"
    by simp
  moreover have "take b raw \<noteq> []" using ne ab by auto
  ultimately show ?thesis using l c by blast
qed

lemma site_join:
  assumes "f \<noteq> []" "isDigits l" "isDigits c"
  shows "valid_call_site (f @ '':'' @ l @ '':'' @ c)"
proof -
  let ?raw = "f @ '':'' @ l @ '':'' @ c"
  let ?a = "length f + 1 + length l"
  have a: "rfind_from CHR '':'' ?raw (length ?raw) = Some ?a"
    using rfind_from_after[of "CHR '':''" c "f @ '':'' @ l" "length ?raw"] isDigits_props(2)[OF assms(3)] by simp
  have "rfind_from CHR '':'' ?raw (?a - 1) = rfind_from CHR '':'' (f @ '':'' @ l) (length ?raw)"
    using rfind_from_take[of "?a - 1" ?raw "CHR '':''"] by simp
  then have b: "rfind_from CHR '':'' ?raw (?a - 1) = Some (length f)"
    using rfind_from_after[of "CHR '':''" l f "length ?raw"] isDigits_props(2)[OF assms(2)] by simp
  show ?thesis using a b assms by (simp add: valid_call_site_def)
qed

text \<open>A call site is accepted exactly when it has the form \<open>file:line:column\<close> with a non-empty
  file name, which may itself contain colons, and decimal line and column.\<close>

theorem call_site_format:
  "valid_call_site raw = (\<exists>f l c. raw = f @ '':'' @ l @ '':'' @ c \<and> f \<noteq> [] \<and> isDigits l \<and> isDigits c)"
  using site_split[of raw] site_join by auto

text \<open>
  \<open>get_callees\<close>, like the other graph tools, takes a \<open>site\<close> parameter but declares only the graph
  section; with the control flow section left undecoded no call site is ever found.
\<close>

lemma site_without_contexts:
  assumes "tcIndex ctx = empty_index" and "getString args usrParam = None"
    and "getString args (companionParam usrParam ''site'') = Some s"
  shows "\<exists>m. resolveIdentity args ctx nameParam usrParam = Respond (errorResult m)"
  using assms by (simp add: resolveIdentity_def resolve_site_def std_set_def Let_def) blast

lemma site_tool_needs: "needs (complete_tool (tool ''get_callees'' desc schema h)) AND kSectionControlFlow = 0"
  by (simp add: complete_tool_def tool_def kExtraNeeds_def kSectionGraph_def kSectionControlFlow_def)

end
