(* ===== verification/CacheProps.thy ===== *)
theory CacheProps
  imports QueryProps
begin

text \<open>
  The query cache and the pages of \<open>analyze_dead_code\<close>: one cache threaded through any sequence of
  reqs changes no answer as long as the strings that make up the cache keys are free of the
  separator, and the pages of a dead-code answer tile the list of dead functions.
\<close>

subsection \<open>Cache keys\<close>

definition bar_free :: "string \<Rightarrow> bool" where
  "bar_free s \<longleftrightarrow> CHR ''|'' \<notin> set s"

definition clean_query :: "DeadQuery \<Rightarrow> bool" where
  \<comment> \<open>no part of the cache keys contains their separator\<close>
  "clean_query d \<longleftrightarrow> bar_free (namePrefix d) \<and> bar_free (filePrefix d) \<and> list_all bar_free (dqEntryPoints d) \<and>
     dqLimit d \<ge> 0 \<and> dqOffset d \<ge> 0"

lemma key_entries_concat: "key_entries eps = concat (map ((@) ''|'') eps)"
proof -
  have "fold (\<lambda>ep key. key @ ''|'' @ ep) eps acc = acc @ concat (map ((@) ''|'') eps)" for acc
    by (induction eps arbitrary: acc) auto
  then show ?thesis by (simp add: key_entries_def)
qed

lemma split_entries: "list_all bar_free eps \<Longrightarrow> bar_free w \<Longrightarrow> split_on CHR ''|'' (w @ key_entries eps) = w # eps"
proof (induction eps arbitrary: w)
  case (Cons e eps)
  have "split_on CHR ''|'' (w @ key_entries (e # eps)) = split_on CHR ''|'' w @ split_on CHR ''|'' (e @ key_entries eps)"
    by (simp add: key_entries_concat split_on_append)
  with Cons show ?case by (simp add: split_on_free bar_free_def)
qed (simp add: key_entries_concat split_on_free bar_free_def)

lemma nat_string_bar_free: "bar_free (nat_string n)"
proof (induction n rule: nat_string.induct)
  case (1 n)
  have "CHR ''|'' \<noteq> char_of (48 + m)" if "m < 10" for m :: nat
  proof
    assume "CHR ''|'' = char_of (48 + m)"
    then have "of_char CHR ''|'' = (of_char (char_of (48 + m) :: char) :: nat)" by simp
    with that show False by simp
  qed
  with 1 show ?case by (subst nat_string.simps) (auto simp: bar_free_def)
qed

lemma key_flag_props [simp]: "bar_free (key_flag b)" "key_flag b = key_flag c \<longleftrightarrow> b = c"
  by (auto simp: key_flag_def bar_free_def)

lemma split_full_key:
  assumes "clean_query d"
  shows "split_on CHR ''|'' (full_key d) =
     [''dead_code_json'', key_flag (includeOptimistic d) @ key_flag (includeSystem d), namePrefix d, filePrefix d,
      nat_string (nat (dqLimit d)), nat_string (nat (dqOffset d))] @ dqEntryPoints d"
proof -
  have "full_key d = ''dead_code_json'' @ key_entries
      ([key_flag (includeOptimistic d) @ key_flag (includeSystem d), namePrefix d, filePrefix d,
        nat_string (nat (dqLimit d)), nat_string (nat (dqOffset d))] @ dqEntryPoints d)"
    by (simp add: full_key_def key_entries_concat)
  moreover have "bar_free (key_flag b @ key_flag c)" for b c by (simp add: bar_free_def[of "_ @ _"]) (simp add: bar_free_def[symmetric])
  ultimately show ?thesis using assms
    by (simp only:) (subst split_entries; simp add: clean_query_def nat_string_bar_free bar_free_def[of "''dead_code_json''"])
qed

lemma full_key_inj: "clean_query d \<Longrightarrow> clean_query e \<Longrightarrow> full_key d = full_key e \<Longrightarrow> d = e"
proof -
  assume c: "clean_query d" "clean_query e" and "full_key d = full_key e"
  then have "split_on CHR ''|'' (full_key d) = split_on CHR ''|'' (full_key e)" by simp
  then show "d = e" using c unfolding split_full_key[OF c(1)] split_full_key[OF c(2)]
    by (cases d; cases e) (auto simp: key_flag_def nat_string_inj clean_query_def split: if_splits)
qed

lemma liveness_key_inj:
  "clean_query d \<Longrightarrow> clean_query e \<Longrightarrow> liveness_key d = liveness_key e \<Longrightarrow> compute_liveness ctx d = compute_liveness ctx e"
proof -
  have key: "split_on CHR ''|'' (liveness_key d) = [''dead_code'', key_flag (includeOptimistic d)] @ dqEntryPoints d"
    if "clean_query d" for d
  proof -
    have "liveness_key d = ''dead_code'' @ key_entries (key_flag (includeOptimistic d) # dqEntryPoints d)"
      by (simp add: liveness_key_def key_entries_concat)
    then show ?thesis using that
      by (simp only:) (subst split_entries; simp add: clean_query_def bar_free_def[of "''dead_code''"])
  qed
  assume "clean_query d" "clean_query e" "liveness_key d = liveness_key e"
  with key[of d] key[of e] show ?thesis by (simp add: compute_liveness_def)
qed

lemma full_key_summary [simp]: "full_key d \<noteq> ''graph_summary''" "''graph_summary'' \<noteq> full_key d"
  by (simp_all add: full_key_def)

subsection \<open>A cache that tells the truth\<close>

definition live_answer :: "ToolContext \<Rightarrow> DeadQuery \<Rightarrow> Json" where
  "live_answer ctx d = dead_answer ctx d (compute_liveness ctx d)"

definition cache_ok :: "ToolContext \<Rightarrow> QueryCache \<Rightarrow> bool" where
  "cache_ok ctx c \<longleftrightarrow>
     (\<forall>out. map_of (byKey c) ''graph_summary'' = Some out \<longrightarrow> out = summarize_graph ctx) \<and>
     (\<forall>idx. searchObject c = Some idx \<longrightarrow> idx = build_search_index (tcGraph ctx)) \<and>
     (\<forall>d r. clean_query d \<longrightarrow> map_of (livenessObjects c) (liveness_key d) = Some r \<longrightarrow> r = compute_liveness ctx d) \<and>
     (\<forall>d out. clean_query d \<longrightarrow> map_of (byKey c) (full_key d) = Some out \<longrightarrow> out = live_answer ctx d)"

lemma cache_ok_empty: "cache_ok ctx empty_cache"
  by (simp add: cache_ok_def empty_cache_def)

definition cached_as :: "ToolContext \<Rightarrow> Json \<Rightarrow> Json \<times> QueryCache option \<Rightarrow> bool" where
  \<comment> \<open>the answer is \<open>r\<close> and the cache still tells the truth\<close>
  "cached_as ctx r x \<longleftrightarrow> fst x = r \<and> (\<exists>c. snd x = Some c \<and> cache_ok ctx c)"

lemma cached_summary:
  assumes "cache_ok ctx c"
  shows "cached_as ctx (fst (handleGraphSummary args ctx None)) (handleGraphSummary args ctx (Some c))"
proof (cases "map_of (byKey c) ''graph_summary''")
  case None
  have "cache_ok ctx (c\<lparr>byKey := AList.update ''graph_summary'' (summarize_graph ctx) (byKey c)\<rparr>)"
    using assms by (simp add: cache_ok_def umap_simps)
  with None show ?thesis by (simp add: handleGraphSummary_def cached_as_def Let_def)
next
  case (Some out)
  with assms show ?thesis by (auto simp: handleGraphSummary_def cached_as_def cache_ok_def)
qed

lemma cached_search:
  assumes "cache_ok ctx c"
  shows "cached_as ctx (fst (handleSearchFunctions args ctx None)) (handleSearchFunctions args ctx (Some c))"
proof -
  have "\<exists>c1. fetch_search_index ctx (Some c) = (build_search_index (tcGraph ctx), Some c1) \<and> cache_ok ctx c1"
    using assms by (auto simp: fetch_search_index_def Let_def cache_ok_def split: option.split)
  moreover have "fetch_search_index ctx None = (build_search_index (tcGraph ctx), None)"
    by (simp add: fetch_search_index_def)
  ultimately show ?thesis using assms
    by (auto simp: handleSearchFunctions_def cached_as_def split: option.split)
qed

lemma cached_dead_code:
  assumes c: "cache_ok ctx c" and d: "clean_query (dead_args args ctx)"
  shows "cached_as ctx (fst (handleAnalyzeDeadCode args ctx None)) (handleAnalyzeDeadCode args ctx (Some c))"
proof -
  let ?d = "dead_args args ctx"
  have plain: "fst (handleAnalyzeDeadCode args ctx None) = live_answer ctx ?d"
    by (simp add: handleAnalyzeDeadCode_def fetch_liveness_def live_answer_def Let_def)
  show ?thesis
  proof (cases "map_of (byKey c) (full_key ?d)")
    case (Some out)
    with c d have "out = live_answer ctx ?d" by (auto simp: cache_ok_def)
    with Some c show ?thesis unfolding plain by (simp add: handleAnalyzeDeadCode_def cached_as_def Let_def)
  next
    case None
    have "\<exists>c1. fetch_liveness ctx ?d (Some c) = (compute_liveness ctx ?d, Some c1) \<and> cache_ok ctx c1"
    proof (cases "map_of (livenessObjects c) (liveness_key ?d)")
      case (Some r)
      with c d have "r = compute_liveness ctx ?d" by (auto simp: cache_ok_def)
      with Some c show ?thesis by (simp add: fetch_liveness_def)
    next
      case None
      have "cache_ok ctx (c\<lparr>livenessObjects := AList.update (liveness_key ?d) (compute_liveness ctx ?d) (livenessObjects c)\<rparr>)"
        using c liveness_key_inj[OF d] by (auto simp: cache_ok_def umap_simps)
      with None show ?thesis by (simp add: fetch_liveness_def Let_def)
    qed
    then obtain c1 where c1: "fetch_liveness ctx ?d (Some c) = (compute_liveness ctx ?d, Some c1)" "cache_ok ctx c1"
      by blast
    have "cache_ok ctx (c1\<lparr>byKey := AList.update (full_key ?d) (live_answer ctx ?d) (byKey c1)\<rparr>)"
      using c1(2) by (auto simp: cache_ok_def umap_simps dest: full_key_inj[OF _ d])
    with None c1 show ?thesis unfolding plain by (simp add: handleAnalyzeDeadCode_def cached_as_def live_answer_def Let_def)
  qed
qed

fun run_calls :: "(ToolHandler \<times> JsonObject) list \<Rightarrow> ToolContext \<Rightarrow> QueryCache option \<Rightarrow> Json list" where
  \<comment> \<open>the calls of a session, one cache threaded through them\<close>
  "run_calls [] ctx cache = []"
| "run_calls ((h, args) # reqs) ctx cache =
     (let (out, cache1) = h args ctx cache in out # run_calls reqs ctx cache1)"

lemma handler_cached:
  assumes "\<exists>t \<in> set getRegisteredTools. toolHandler t = Some h" and "cache_ok ctx c"
    and "clean_query (dead_args args ctx)"
  shows "cached_as ctx (fst (h args ctx None)) (h args ctx (Some c))"
proof -
  have u: "cached_as ctx (fst (uncached f args ctx None)) (uncached f args ctx (Some c))" for f
    using assms(2) by (simp add: uncached_def cached_as_def)
  show ?thesis using assms(1) u cached_summary[OF assms(2)] cached_search[OF assms(2)]
      cached_dead_code[OF assms(2,3)]
    by (auto simp: getRegisteredTools_def complete_tool_def registerGraphTools_def registerExceptionTools_def
        registerLockTools_def registerDeadCodeTools_def registerChannelTools_def tool_def)
qed

text \<open>C29: One cache threaded through any sequence of calls to the registered tools on the same
  indexes changes no answer, as long as the entry points and prefixes of the dead-code calls are free
  of the key separator.\<close>

theorem cache_transparent:
  assumes "\<forall>(h, args) \<in> set reqs. (\<exists>t \<in> set getRegisteredTools. toolHandler t = Some h) \<and>
     clean_query (dead_args args ctx)"
  shows "run_calls reqs ctx (Some empty_cache) = map (\<lambda>(h, args). fst (h args ctx None)) reqs"
proof -
  have "run_calls reqs ctx (Some c) = map (\<lambda>(h, args). fst (h args ctx None)) reqs" if "cache_ok ctx c" for c
    using assms that
  proof (induction reqs arbitrary: c)
    case (Cons x reqs)
    obtain h args where x: "x = (h, args)" by fastforce
    from Cons.prems(1) have "cached_as ctx (fst (h args ctx None)) (h args ctx (Some c))"
      by (intro handler_cached Cons.prems(2)) (auto simp: x)
    then obtain c1 where "h args ctx (Some c) = (fst (h args ctx None), Some c1)" "cache_ok ctx c1"
      by (auto simp: cached_as_def) (metis prod.collapse)
    then show ?case using Cons by (simp add: x)
  qed simp
  from this[OF cache_ok_empty] show ?thesis .
qed

subsection \<open>Pages\<close>

lemma page_nth:
  assumes "0 \<le> k" and "0 \<le> m"
  shows "page k m xs = take (nat m) (drop (nat k) xs)"
  using assms by (auto simp: page_def Let_def min_def take_all_iff nat_add_distrib)

text \<open>The pages of \<open>analyze_dead_code\<close> at offsets 0, \<open>limit\<close>, twice \<open>limit\<close> and so on are the
  dead functions that pass the filters, in order, none missing and none twice.\<close>

theorem pages_tile:
  assumes "0 < m" and "int (length xs) \<le> int n * m"
  shows "concat (map (\<lambda>i. page (int i * m) m xs) [0..<n]) = xs"
proof -
  have "concat (map (\<lambda>i. page (int i * m) m xs) [0..<n]) = take (n * nat m) xs" for n
  proof (induction n)
    case (Suc n)
    have "nat (int n * m) = n * nat m" using assms(1) by (simp add: nat_mult_distrib)
    moreover have "take (Suc n * nat m) xs = take (n * nat m) xs @ take (nat m) (drop (n * nat m) xs)"
      by (simp add: take_add[symmetric] add.commute)
    ultimately show ?case using Suc assms(1) by (simp add: page_nth del: mult_Suc)
  qed simp
  moreover have "length xs \<le> n * nat m"
    using assms by (metis (no_types) int_nat_eq less_imp_le of_nat_le_iff of_nat_mult)
  ultimately show ?thesis by simp
qed

theorem pages_tile_witness:
  "concat (map (\<lambda>i. page (int i * 2) 2 [1 :: nat, 2, 3]) [0..<2]) = [1, 2, 3]"
  by (rule pages_tile) simp_all

definition demo_session :: "(ToolHandler \<times> JsonObject) list" where
  "demo_session = [(handleGraphSummary, []), (handleGraphSummary, []), (handleSearchFunctions, [(''query'', JStr ''f'')])]"

theorem cache_transparent_witness:
  "run_calls demo_session demo_ctx (Some empty_cache) = map (\<lambda>(h, args). fst (h args demo_ctx None)) demo_session"
proof (rule cache_transparent)
  have "clean_query (dead_args [] demo_ctx)" "clean_query (dead_args [(''query'', JStr ''f'')] demo_ctx)"
    by (simp_all add: clean_query_def dead_args_def entry_points_arg_def string_items_def json_simps demo_ctx_def bar_free_def)
  moreover have "\<exists>t \<in> set getRegisteredTools. toolHandler t = Some handleGraphSummary"
    "\<exists>t \<in> set getRegisteredTools. toolHandler t = Some handleSearchFunctions"
    by (simp_all add: getRegisteredTools_def registerGraphTools_def complete_tool_def tool_def)
  ultimately show "\<forall>(h, args) \<in> set demo_session.
      (\<exists>t \<in> set getRegisteredTools. toolHandler t = Some h) \<and> clean_query (dead_args args demo_ctx)"
    by (simp add: demo_session_def)
qed

text \<open>
  Without that condition two different requests share their keys: the entry points \<open>main\<close> and \<open>f\<close>
  against the one entry point \<open>main|f\<close>.  The second call of a session is then answered with the
  result of the first.
\<close>

definition two_entries :: JsonObject where
  "two_entries = [(''entry_points'', JArr [JStr ''main'', JStr ''f''])]"

definition one_entry :: JsonObject where
  "one_entry = [(''entry_points'', JArr [JStr ''main|f''])]"

lemma demo_alive_counts:
  "jfield (fst (handleAnalyzeDeadCode two_entries demo_ctx None)) ''aliveCount'' = Some (JInt 3)"
  "jfield (fst (handleAnalyzeDeadCode one_entry demo_ctx None)) ''aliveCount'' = Some (JInt 0)"
  by code_simp+

lemma cache_key_collision:
  "run_calls [(handleAnalyzeDeadCode, two_entries), (handleAnalyzeDeadCode, one_entry)] demo_ctx (Some empty_cache) ! 1 \<noteq>
     fst (handleAnalyzeDeadCode one_entry demo_ctx None)"
proof -
  have "full_key (dead_args two_entries demo_ctx) = full_key (dead_args one_entry demo_ctx)"
    by (simp add: full_key_def dead_args_def two_entries_def one_entry_def entry_points_arg_def string_items_def
        json_simps key_entries_def)
  then have "run_calls [(handleAnalyzeDeadCode, two_entries), (handleAnalyzeDeadCode, one_entry)] demo_ctx (Some empty_cache) ! 1 =
      fst (handleAnalyzeDeadCode two_entries demo_ctx None)"
    by (simp add: handleAnalyzeDeadCode_def fetch_liveness_def Let_def empty_cache_def umap_simps)
  then show ?thesis using demo_alive_counts by auto
qed

end
