(* ===== verification/CliArgs.thy ===== *)
theory CliArgs
  imports ToolRegistry
begin

text \<open>
  Names and flags of the query verbs (src/cli/MegascopeCli.cpp): tool names on the command line, the
  default index path, the flags derived from a tool's schema, and the common flags.  A failed
  \<open>llvm::Expected\<close> is \<open>Inl\<close> with the message.  \<open>StringRef::getAsInteger(10, n)\<close> and
  \<open>llvm::sys::path::append\<close> are arguments.
\<close>

subsection \<open>Names and paths\<close>

definition defaultIndexPath :: "(string \<Rightarrow> string list \<Rightarrow> string) \<Rightarrow> string \<Rightarrow> string" where
  "defaultIndexPath joinPath buildPath =
     joinPath (if buildPath = [] then ''.'' else buildPath) [''.vycor'', ''megascope.vycs'']"

definition resolveIndexPath :: "(string \<Rightarrow> string list \<Rightarrow> string) \<Rightarrow> string \<Rightarrow> string \<Rightarrow> string \<Rightarrow> string" where
  "resolveIndexPath joinPath explicitIndex envIndex buildPath =
     (if explicitIndex \<noteq> [] then explicitIndex
      else if envIndex \<noteq> [] then envIndex
      else defaultIndexPath joinPath buildPath)"

definition canonicalToolName :: "string \<Rightarrow> string" where
  "canonicalToolName verb = map (\<lambda>c. if c = CHR ''-'' then CHR ''_'' else c) verb"

definition hyphenated :: "string \<Rightarrow> string" where
  "hyphenated name = map (\<lambda>c. if c = CHR ''_'' then CHR ''-'' else c) name"

definition isMegascopeQueryVerb :: "string \<Rightarrow> bool" where
  "isMegascopeQueryVerb verb =
     (verb \<noteq> [] \<and> \<not> starts_with verb ''-'' \<and> verb \<noteq> ''index'' \<and> verb \<noteq> ''serve'')"

subsection \<open>Schema to flags\<close>

record FlagSpec =
  flagName :: string
  flagType :: string
  itemType :: string
  flagDescription :: string
  flagRequired :: bool

definition getObject :: "JsonObject \<Rightarrow> string \<Rightarrow> JsonObject option" where
  "getObject obj k = (case map_of obj k of Some (JObj ms) \<Rightarrow> Some ms | _ \<Rightarrow> None)"

definition string_or :: "string \<Rightarrow> JsonObject \<Rightarrow> string \<Rightarrow> string" where
  \<comment> \<open>\<open>getString(k).value_or(d)\<close>\<close>
  "string_or d obj k = (case getString obj k of Some s \<Rightarrow> s | None \<Rightarrow> d)"

definition flag_spec :: "string list \<Rightarrow> string \<times> Json \<Rightarrow> FlagSpec" where
  "flag_spec req kv =
     (let f = \<lparr>flagName = fst kv, flagType = ''string'', itemType = [], flagDescription = [],
               flagRequired = fst kv \<in> set req\<rparr> in
      case getAsObject (snd kv) of
        None \<Rightarrow> f
      | Some p \<Rightarrow>
          (let t = string_or ''string'' p ''type'' in
           f\<lparr>flagType := t, flagDescription := string_or [] p ''description'',
             itemType := (if t = ''array''
                          then (case getObject p ''items'' of
                                  Some items \<Rightarrow> string_or ''string'' items ''type''
                                | None \<Rightarrow> ''string'')
                          else [])\<rparr>))"

definition schemaFlags :: "ToolEntry \<Rightarrow> FlagSpec list" where
  "schemaFlags t =
     (case getAsObject (inputSchema t) of
        None \<Rightarrow> []
      | Some schema \<Rightarrow>
          (case getObject schema ''properties'' of
             None \<Rightarrow> []
           | Some props \<Rightarrow> sort_key flagName (map (flag_spec (string_items schema ''required'')) props)))"

definition flagList :: "FlagSpec list \<Rightarrow> string" where
  "flagList specs = join '', '' (map (\<lambda>f. ''--'' @ hyphenated (flagName f)) specs)"

definition wrap_word :: "nat \<Rightarrow> string \<Rightarrow> string \<Rightarrow> string \<times> nat \<Rightarrow> string \<times> nat" where
  \<comment> \<open>the loop body of \<open>wrapText\<close>: the text so far and \<open>col\<close>\<close>
  "wrap_word width indent w s =
     (let (os, col) = s;
          (os1, col1) = (if col \<noteq> 0 \<and> col + 1 + length w > width
                         then (os @ [CHR 0x0A] @ indent, 0) else (os, col));
          (os2, col2) = (if col1 \<noteq> 0 then (os1 @ '' '', col1 + 1) else (os1, col1))
      in (os2 @ w, col2 + length w))"

fun split_words :: "string \<Rightarrow> string \<Rightarrow> string list" where
  \<comment> \<open>\<open>text.split(words, ' ', -1, false)\<close>, the word read so far first\<close>
  "split_words w [] = (if w = [] then [] else [w])"
| "split_words w (c # cs) =
     (if c = CHR '' '' then (if w = [] then [] else [w]) @ split_words [] cs
      else split_words (w @ [c]) cs)"

definition wrapText :: "string \<Rightarrow> nat \<Rightarrow> string \<Rightarrow> string" where
  "wrapText s width indent =
     fst (fold (wrap_word width indent) (split_words [] s) (indent, 0)) @ [CHR 0x0A]"

subsection \<open>Tool flags\<close>

definition split_eq :: "string \<Rightarrow> string \<times> string" where
  \<comment> \<open>\<open>body.split('=')\<close>\<close>
  "split_eq s = (takeWhile (\<lambda>c. c \<noteq> CHR ''='') s, drop 1 (dropWhile (\<lambda>c. c \<noteq> CHR ''='') s))"

definition take_value :: "bool \<Rightarrow> string \<Rightarrow> string list \<Rightarrow> (string \<times> string list) option" where
  \<comment> \<open>the inline value, or the next argument unless it is a flag\<close>
  "take_value hasInline inlineVal rest =
     (if hasInline then Some (inlineVal, rest)
      else case rest of
        [] \<Rightarrow> None
      | v # rest1 \<Rightarrow> if starts_with v ''--'' then None else Some (v, rest1))"

lemma take_value_length: "take_value h i rest = Some (v, rest1) \<Longrightarrow> length rest1 \<le> length rest"
  by (auto simp: take_value_def split: if_splits list.splits)

definition parse_bool :: "string \<Rightarrow> bool option" where
  "parse_bool s =
     (if s = ''true'' \<or> s = ''1'' then Some True
      else if s = ''false'' \<or> s = ''0'' then Some False else None)"

definition flag_value :: "(string \<Rightarrow> int option) \<Rightarrow> string \<Rightarrow> bool \<Rightarrow> string \<Rightarrow> string + Json" where
  \<comment> \<open>a scalar or an array item, read as an integer when the schema says so\<close>
  "flag_value toInt rawKey is_int s =
     (if is_int
      then (case toInt s of
              None \<Rightarrow> Inl (''flag '' @ quoted (''--'' @ rawKey) @ '' expects an integer, got '' @ quoted s)
            | Some n \<Rightarrow> Inr (JInt n))
      else Inr (JStr s))"

definition add_item :: "string \<Rightarrow> string list \<Rightarrow> JsonObject \<Rightarrow> Json \<Rightarrow> JsonObject" where
  \<comment> \<open>the first use of an array flag replaces a seeded value\<close>
  "add_item key arraysSeen args v =
     AList.update key
       (JArr ((if key \<in> set arraysSeen then (case getArray args key of Some vs \<Rightarrow> vs | None \<Rightarrow> []) else []) @ [v])) args"

function parse_flags :: "(string \<Rightarrow> int option) \<Rightarrow> FlagSpec list \<Rightarrow> string list \<Rightarrow> string list \<Rightarrow> JsonObject \<Rightarrow>
    string + JsonObject" where
  "parse_flags toInt specs [] arraysSeen args = Inr args"
| "parse_flags toInt specs (a # rest) arraysSeen args =
     (if \<not> starts_with a ''--'' \<or> length a = 2 then Inl (''unexpected argument '' @ quoted a)
      else
        let body = drop 2 a; hasInline = (CHR ''='' \<in> set body);
            rawKey = fst (split_eq body); inlineVal = snd (split_eq body); key = canonicalToolName rawKey in
        case List.find (\<lambda>f. flagName f = key) specs of
          None \<Rightarrow> Inl (''unknown flag '' @ quoted (''--'' @ rawKey))
        | Some spec \<Rightarrow>
            if flagType spec = ''boolean''
            then (case if hasInline then parse_bool inlineVal else Some True of
                    None \<Rightarrow> Inl (''flag '' @ quoted (''--'' @ rawKey) @ '' expects true or false'')
                  | Some b \<Rightarrow> parse_flags toInt specs rest arraysSeen (AList.update key (JBool b) args))
            else
              (case take_value hasInline inlineVal rest of
                 None \<Rightarrow> Inl (''flag '' @ quoted (''--'' @ rawKey) @ '' requires a value'')
               | Some (s, rest1) \<Rightarrow>
                   if flagType spec = ''array''
                   then (case flag_value toInt rawKey (itemType spec = ''integer'') s of
                           Inl e \<Rightarrow> Inl e
                         | Inr v \<Rightarrow> parse_flags toInt specs rest1 (key # arraysSeen) (add_item key arraysSeen args v))
                   else (case flag_value toInt rawKey (flagType spec = ''integer'') s of
                           Inl e \<Rightarrow> Inl e
                         | Inr v \<Rightarrow> parse_flags toInt specs rest1 arraysSeen (AList.update key v args))))"
  by pat_completeness auto
termination
  by (relation "measure (\<lambda>(toInt, specs, argv, arraysSeen, args). length argv)")
    (auto dest: take_value_length)

declare parse_flags.simps(2) [simp del]

definition parseToolArgs :: "(string \<Rightarrow> int option) \<Rightarrow> ToolEntry \<Rightarrow> string list \<Rightarrow> JsonObject \<Rightarrow> string + JsonObject" where
  "parseToolArgs toInt t argv seed =
     (let specs = schemaFlags t;
          fail = (\<lambda>msg. Inl (msg @ '' (valid flags for '' @ hyphenated (toolName t) @ '': '' @ flagList specs @ '')'')) in
      case parse_flags toInt specs argv [] seed of
        Inl msg \<Rightarrow> fail msg
      | Inr args \<Rightarrow>
          (case List.find (\<lambda>f. flagRequired f \<and> map_of args (flagName f) = None) specs of
             Some f \<Rightarrow> fail (''missing required flag '' @ quoted (''--'' @ hyphenated (flagName f)))
           | None \<Rightarrow> Inr args))"

definition flag_help :: "FlagSpec \<Rightarrow> string" where
  "flag_help f =
     ''  --'' @ hyphenated (flagName f)
     @ (if flagType f = ''integer'' then '' <int>''
        else if flagType f = ''array'' then '' <'' @ itemType f @ ''>  (repeatable)''
        else if flagType f \<noteq> ''boolean'' then '' <'' @ flagType f @ ''>'' else [])
     @ (if flagRequired f then ''  [required]'' else []) @ [CHR 0x0A]
     @ (if flagDescription f \<noteq> [] then wrapText (flagDescription f) 78 ''      '' else [])"

subsection \<open>Common flags\<close>

record CommonOpts =
  coIndex :: string
  coBuildPath :: string
  coArgsJson :: string
  coFormat :: string
  coPretty :: bool
  coVerbose :: bool
  coHelp :: bool
  coFiles :: bool
  coEntryPoints :: "string list"
  coSources :: "string list"
  coSourceList :: string
  coSourceRe :: string
  coSkipPaths :: "string list"
  coCollapsePaths :: "string list"
  coThreads :: string
  coOrgConfig :: string
  coRest :: "string list"

definition no_opts :: CommonOpts where
  "no_opts = \<lparr>coIndex = [], coBuildPath = [], coArgsJson = [], coFormat = [], coPretty = False,
     coVerbose = False, coHelp = False, coFiles = False, coEntryPoints = [], coSources = [],
     coSourceList = [], coSourceRe = [], coSkipPaths = [], coCollapsePaths = [], coThreads = [],
     coOrgConfig = [], coRest = []\<rparr>"

definition ephemeral :: "CommonOpts \<Rightarrow> bool" where
  "ephemeral o1 = (coSources o1 \<noteq> [] \<or> coSourceList o1 \<noteq> [] \<or> coSourceRe o1 \<noteq> [])"

definition value_target :: "string \<Rightarrow> (string \<Rightarrow> CommonOpts \<Rightarrow> CommonOpts) option" where
  \<comment> \<open>where the value of a common flag goes\<close>
  "value_target key =
     (if key = ''index'' then Some (\<lambda>v. coIndex_update (\<lambda>_. v))
      else if key = ''build-path'' then Some (\<lambda>v. coBuildPath_update (\<lambda>_. v))
      else if key = ''args'' then Some (\<lambda>v. coArgsJson_update (\<lambda>_. v))
      else if key = ''format'' then Some (\<lambda>v. coFormat_update (\<lambda>_. v))
      else if key = ''source-list'' then Some (\<lambda>v. coSourceList_update (\<lambda>_. v))
      else if key = ''source-re'' then Some (\<lambda>v. coSourceRe_update (\<lambda>_. v))
      else if key = ''threads'' then Some (\<lambda>v. coThreads_update (\<lambda>_. v))
      else if key = ''org-config'' then Some (\<lambda>v. coOrgConfig_update (\<lambda>_. v))
      else if key = ''entry-point'' then Some (\<lambda>v. coEntryPoints_update (\<lambda>vs. vs @ [v]))
      else if key = ''source'' then Some (\<lambda>v. coSources_update (\<lambda>vs. vs @ [v]))
      else if key = ''skip-paths'' then Some (\<lambda>v. coSkipPaths_update (\<lambda>vs. vs @ [v]))
      else if key = ''collapse-paths'' then Some (\<lambda>v. coCollapsePaths_update (\<lambda>vs. vs @ [v]))
      else None)"

definition switch_target :: "bool \<Rightarrow> string \<Rightarrow> (CommonOpts \<Rightarrow> CommonOpts) option" where
  "switch_target acceptFiles a =
     (if a = ''-h'' \<or> a = ''--help'' then Some (coHelp_update (\<lambda>_. True))
      else if a = ''-v'' \<or> a = ''--verbose'' then Some (coVerbose_update (\<lambda>_. True))
      else if a = ''--pretty'' then Some (coPretty_update (\<lambda>_. True))
      else if acceptFiles \<and> a = ''--files'' then Some (coFiles_update (\<lambda>_. True))
      else None)"

function split_common :: "bool \<Rightarrow> string list \<Rightarrow> CommonOpts \<Rightarrow> string + CommonOpts" where
  "split_common acceptFiles [] o1 = Inr o1"
| "split_common acceptFiles (a # rest) o1 =
     (case switch_target acceptFiles a of
        Some set_switch \<Rightarrow> split_common acceptFiles rest (set_switch o1)
      | None \<Rightarrow>
          let is_flag = starts_with a ''--''; body = (if is_flag then drop 2 a else a);
              hasInline = (is_flag \<and> CHR ''='' \<in> set body);
              key = hyphenated (fst (split_eq body)) in
          (case if is_flag then value_target key else None of
             None \<Rightarrow> split_common acceptFiles rest (coRest_update (\<lambda>vs. vs @ [a]) o1)
           | Some set_value \<Rightarrow>
               (case take_value hasInline (snd (split_eq body)) rest of
                  None \<Rightarrow> Inl (''flag '' @ quoted (''--'' @ key) @ '' requires a value'')
                | Some (v, rest1) \<Rightarrow> split_common acceptFiles rest1 (set_value v o1))))"
  by pat_completeness auto
termination
  by (relation "measure (\<lambda>(acceptFiles, argv, o1). length argv)") (auto dest: take_value_length)

declare split_common.simps(2) [simp del]

definition splitCommonFlags :: "string list \<Rightarrow> bool \<Rightarrow> string + CommonOpts" where
  "splitCommonFlags argv acceptFiles = split_common acceptFiles argv no_opts"

datatype OutputFormat = Json_format | Ndjson_format | Tsv_format

definition parseFormat :: "string \<Rightarrow> string + OutputFormat" where
  "parseFormat s =
     (if s = ''json'' then Inr Json_format
      else if s = ''ndjson'' then Inr Ndjson_format
      else if s = ''tsv'' then Inr Tsv_format
      else Inl (''unknown --format '' @ quoted s @ '' (expected json, ndjson, or tsv)''))"

text \<open>
  The output contract of the query verbs (src/cli/MegascopeCli.cpp): exit codes, the three formats
  and help.  How \<open>llvm::json\<close> prints a value, compact or indented, is an argument.
\<close>

definition newline :: string where
  "newline = [CHR 0x0A]"

definition tab :: string where
  "tab = [CHR 0x09]"

subsection \<open>Exit codes\<close>

definition kExitResults :: int where "kExitResults = 0"
definition kExitEmpty :: int where "kExitEmpty = 1"
definition kExitUsage :: int where "kExitUsage = 2"
definition kExitIndex :: int where "kExitIndex = 3"
definition kExitAmbiguous :: int where "kExitAmbiguous = 4"

definition isUsageMessage :: "string \<Rightarrow> bool" where
  "isUsageMessage msg = (starts_with msg ''Missing'' \<or> starts_with msg ''Requires'' \<or> starts_with msg ''Invalid'')"

definition effectiveRecordsKey :: "Json \<Rightarrow> string \<Rightarrow> string" where
  "effectiveRecordsKey payload key = (if isAmbiguousResult payload then ''candidates'' else key)"

definition recordsOf :: "Json \<Rightarrow> string \<Rightarrow> Json list option" where
  "recordsOf payload key =
     (case getAsObject payload of
        None \<Rightarrow> None
      | Some obj \<Rightarrow>
          (let k = effectiveRecordsKey payload key in if k = [] then None else getArray obj k))"

definition exitCodeFor :: "Json \<Rightarrow> string \<Rightarrow> int" where
  "exitCodeFor payload key =
     (case errorMessage payload of
        Some msg \<Rightarrow> if isUsageMessage msg then kExitUsage else kExitEmpty
      | None \<Rightarrow>
          if isAmbiguousResult payload then kExitAmbiguous
          else (case recordsOf payload key of
                  Some records \<Rightarrow> if records = [] then kExitEmpty else kExitResults
                | None \<Rightarrow> kExitResults))"

subsection \<open>Formats\<close>

record JsonPrinter =
  compact :: "Json \<Rightarrow> string"
  indented :: "Json \<Rightarrow> string"

definition writeJson :: "JsonPrinter \<Rightarrow> Json \<Rightarrow> bool \<Rightarrow> string" where
  "writeJson pr v pretty = (if pretty then indented pr v else compact pr v) @ newline"

definition escape_char :: "char \<Rightarrow> string" where
  "escape_char c =
     (if c = CHR 0x09 then [CHR 0x5C, CHR ''t'']
      else if c = CHR 0x0A then [CHR 0x5C, CHR ''n'']
      else if c = CHR 0x0D then [CHR 0x5C, CHR ''r'']
      else if c = CHR 0x5C then [CHR 0x5C, CHR 0x5C]
      else [c])"

definition tsvEscape :: "string \<Rightarrow> string" where
  "tsvEscape s = concat (map escape_char s)"

definition tsv_cell :: "JsonPrinter \<Rightarrow> Json option \<Rightarrow> string" where
  \<comment> \<open>\<open>writeTsvCell\<close>\<close>
  "tsv_cell pr v =
     (case v of
        None \<Rightarrow> []
      | Some JNull \<Rightarrow> []
      | Some (JStr s) \<Rightarrow> tsvEscape s
      | Some j \<Rightarrow> compact pr j)"

definition tsv_columns :: "Json list \<Rightarrow> string list" where
  \<comment> \<open>the sorted union of the members of the rows that are objects\<close>
  "tsv_columns rows = std_set (concat (map (\<lambda>r. case getAsObject r of Some obj \<Rightarrow> map fst obj | None \<Rightarrow> []) rows))"

definition tsv_row :: "JsonPrinter \<Rightarrow> string list \<Rightarrow> Json \<Rightarrow> string" where
  "tsv_row pr cols r =
     join tab (map (\<lambda>c. tsv_cell pr (case getAsObject r of Some obj \<Rightarrow> map_of obj c | None \<Rightarrow> None)) cols)"

definition tsv_table :: "JsonPrinter \<Rightarrow> Json list \<Rightarrow> string" where
  \<comment> \<open>the header and the rows\<close>
  "tsv_table pr rows =
     (if \<not> list_ex (\<lambda>r. getAsObject r \<noteq> None) rows
      then ''value'' @ newline @ concat (map (\<lambda>r. tsv_cell pr (Some r) @ newline) rows)
      else let cols = tsv_columns rows in
           join tab cols @ newline @ concat (map (\<lambda>r. tsv_row pr cols r @ newline) rows))"

definition writeTsv :: "JsonPrinter \<Rightarrow> Json \<Rightarrow> string \<Rightarrow> string" where
  "writeTsv pr payload key =
     (case recordsOf payload key of
        Some [] \<Rightarrow> []
      | Some records \<Rightarrow> tsv_table pr records
      | None \<Rightarrow> tsv_table pr [payload])"

definition ndjson_summary :: "Json \<Rightarrow> string \<Rightarrow> Json" where
  "ndjson_summary payload key =
     JObj [(''_summary'', JObj (filter (\<lambda>kv. fst kv \<noteq> effectiveRecordsKey payload key)
       (case getAsObject payload of Some obj \<Rightarrow> obj | None \<Rightarrow> [])))]"

definition writeNdjson :: "JsonPrinter \<Rightarrow> Json \<Rightarrow> string \<Rightarrow> string" where
  "writeNdjson pr payload key =
     (case recordsOf payload key of
        None \<Rightarrow> writeJson pr payload False
      | Some records \<Rightarrow>
          writeJson pr (ndjson_summary payload key) False
          @ concat (map (\<lambda>r. writeJson pr r False) records))"

definition emitToolResult :: "JsonPrinter \<Rightarrow> Json \<Rightarrow> string \<Rightarrow> OutputFormat \<Rightarrow> bool \<Rightarrow> string \<Rightarrow> int \<times> string \<times> string" where
  \<comment> \<open>the exit code, the text for stdout and the text for stderr\<close>
  "emitToolResult pr payload key format pretty t =
     (let code = exitCodeFor payload key in
      case errorMessage payload of
        Some msg \<Rightarrow>
          (code,
           if format = Tsv_format then ''error'' @ newline @ tsvEscape msg @ newline
           else writeJson pr payload (pretty \<and> format = Json_format),
           if t \<noteq> [] then ''megascope '' @ t @ '': '' @ msg @ newline else [])
      | None \<Rightarrow>
          (code,
           case format of
             Json_format \<Rightarrow> writeJson pr payload pretty
           | Ndjson_format \<Rightarrow> writeNdjson pr payload key
           | Tsv_format \<Rightarrow> writeTsv pr payload key,
           []))"

end
