(* ===== verification/OrgConfig.thy ===== *)
theory OrgConfig
  imports QueryIdentity CollapseFilter
begin

text \<open>
  The organization configuration and the channel type list (src/ext/OrgConfig.cpp,
  src/cli/BakeConfig.cpp): reading them from JSON, installing them in the extension registry and
  merging the registry into the options of a bake.  Reading a file, parsing JSON and compiling a
  regular expression are arguments.  A function that returns false and fills \<open>error\<close> is \<open>Inl\<close> with
  the error; what it has written to its output by then is only kept where a caller still sees it.
\<close>

record FeatureFlagPattern =
  ffPattern :: string
  ffNameGroup :: nat

record OrgConfig =
  ocLockTypes :: "string list"
  ocStaticInitHazards :: "string list"
  ocChannelTypes :: "ChannelTypeSpec list"
  ocFeatureFlags :: "FeatureFlagPattern list"
  ocCollapsePaths :: "string list"
  ocDisabledAnnealChecks :: "string list"

definition empty_org_config :: OrgConfig where
  "empty_org_config = \<lparr>ocLockTypes = [], ocStaticInitHazards = [], ocChannelTypes = [],
     ocFeatureFlags = [], ocCollapsePaths = [], ocDisabledAnnealChecks = []\<rparr>"

subsection \<open>Reading\<close>

fun getAsArray :: "Json \<Rightarrow> Json list option" where
  "getAsArray (JArr vs) = Some vs"
| "getAsArray _ = None"

fun string_entries :: "Json list \<Rightarrow> string list \<Rightarrow> string list option" where
  "string_entries [] out = Some out"
| "string_entries (entry # es) out =
     (case getAsString entry of None \<Rightarrow> None | Some s \<Rightarrow> string_entries es (out @ [s]))"

definition parseStringArray :: "JsonObject \<Rightarrow> string \<Rightarrow> string list \<Rightarrow> string + string list" where
  "parseStringArray obj key out =
     (let err = Inl (quoted key @ '' must be an array of strings'') in
      case map_of obj key of
        None \<Rightarrow> Inr out
      | Some v \<Rightarrow>
          (case getAsArray v of
             None \<Rightarrow> err
           | Some arr \<Rightarrow> (case string_entries arr out of Some ss \<Rightarrow> Inr ss | None \<Rightarrow> err)))"

definition knownKeys :: "string list" where
  "knownKeys = [''lockTypes'', ''channelTypes'', ''featureFlags'', ''collapsePaths'',
     ''disabledAnnealChecks'', ''staticInitHazards'']"

definition channel_spec :: "JsonObject \<Rightarrow> string \<Rightarrow> ChannelTypeSpec" where
  \<comment> \<open>an entry whose \<open>type\<close> is given; items that are not strings are passed over\<close>
  "channel_spec obj t =
     \<lparr>qualifiedTypeName = t, produceMethods = string_items obj ''produce'',
      consumeMethods = string_items obj ''consume'',
      specCategory = (case getString obj ''category'' of Some c \<Rightarrow> c | None \<Rightarrow> [])\<rparr>"

fun org_channel_entries :: "Json list \<Rightarrow> ChannelTypeSpec list \<Rightarrow> string + ChannelTypeSpec list" where
  "org_channel_entries [] out = Inr out"
| "org_channel_entries (entry # es) out =
     (case getAsObject entry of
        None \<Rightarrow> Inl (quoted ''channelTypes'' @ '' entries must be objects'')
      | Some obj \<Rightarrow>
          (case getString obj ''type'' of
             None \<Rightarrow> Inl (quoted ''channelTypes'' @ '' entry missing required '' @ quoted ''type'')
           | Some t \<Rightarrow> org_channel_entries es (out @ [channel_spec obj t])))"

fun org_flag_entries :: "Json list \<Rightarrow> FeatureFlagPattern list \<Rightarrow> string + FeatureFlagPattern list" where
  "org_flag_entries [] out = Inr out"
| "org_flag_entries (entry # es) out =
     (case getAsObject entry of
        None \<Rightarrow> Inl (quoted ''featureFlags'' @ '' entries must be objects'')
      | Some obj \<Rightarrow>
          (case getString obj ''pattern'' of
             None \<Rightarrow> Inl (quoted ''featureFlags'' @ '' entry missing required '' @ quoted ''pattern'')
           | Some p \<Rightarrow>
               (case getInteger obj ''nameGroup'' of
                  None \<Rightarrow> org_flag_entries es (out @ [\<lparr>ffPattern = p, ffNameGroup = 0\<rparr>])
                | Some g \<Rightarrow>
                    if g < 0 then Inl (quoted ''featureFlags'' @ '' nameGroup must be >= 0'')
                    else org_flag_entries es (out @ [\<lparr>ffPattern = p, ffNameGroup = nat (g mod 2 ^ 32)\<rparr>]))))"

definition org_lists :: "JsonObject \<Rightarrow> OrgConfig \<Rightarrow> string + OrgConfig" where
  \<comment> \<open>the four arrays of strings, in the order of the conjunction\<close>
  "org_lists root out =
     (case parseStringArray root ''staticInitHazards'' (ocStaticInitHazards out) of
        Inl e \<Rightarrow> Inl e
      | Inr hazards \<Rightarrow>
          (case parseStringArray root ''lockTypes'' (ocLockTypes out) of
             Inl e \<Rightarrow> Inl e
           | Inr locks \<Rightarrow>
               (case parseStringArray root ''collapsePaths'' (ocCollapsePaths out) of
                  Inl e \<Rightarrow> Inl e
                | Inr paths1 \<Rightarrow>
                    (case parseStringArray root ''disabledAnnealChecks'' (ocDisabledAnnealChecks out) of
                       Inl e \<Rightarrow> Inl e
                     | Inr disabled \<Rightarrow>
                         Inr (out\<lparr>ocStaticInitHazards := hazards, ocLockTypes := locks,
                                  ocCollapsePaths := paths1, ocDisabledAnnealChecks := disabled\<rparr>)))))"

definition org_member :: "JsonObject \<Rightarrow> string \<Rightarrow> (Json list \<Rightarrow> 'x list \<Rightarrow> string + 'x list) \<Rightarrow> 'x list \<Rightarrow> string + 'x list" where
  \<comment> \<open>an optional member that must be an array of objects\<close>
  "org_member root key read out =
     (case map_of root key of
        None \<Rightarrow> Inr out
      | Some v \<Rightarrow>
          (case getAsArray v of
             None \<Rightarrow> Inl (quoted key @ '' must be an array of objects'')
           | Some arr \<Rightarrow> read arr out))"

definition parseOrgConfigJson :: "(string \<Rightarrow> string + Json) \<Rightarrow> string \<Rightarrow> OrgConfig \<Rightarrow> string + OrgConfig" where
  "parseOrgConfigJson parse buffer out =
     (case parse buffer of
        Inl e \<Rightarrow> Inl (''parse error: '' @ e)
      | Inr v \<Rightarrow>
          (case getAsObject v of
             None \<Rightarrow> Inl ''top level must be a JSON object''
           | Some root \<Rightarrow>
               (case List.find (\<lambda>kv. fst kv \<notin> set knownKeys) root of
                  Some kv \<Rightarrow> Inl (''unknown key '' @ quoted (fst kv)
                    @ '' (expected one of: lockTypes, channelTypes, featureFlags, collapsePaths, disabledAnnealChecks, staticInitHazards)'')
                | None \<Rightarrow>
                    (case org_lists root out of
                       Inl e \<Rightarrow> Inl e
                     | Inr out1 \<Rightarrow>
                         (case org_member root ''channelTypes'' org_channel_entries (ocChannelTypes out1) of
                            Inl e \<Rightarrow> Inl e
                          | Inr channels \<Rightarrow>
                              (case org_member root ''featureFlags'' org_flag_entries (ocFeatureFlags out1) of
                                 Inl e \<Rightarrow> Inl e
                               | Inr pats \<Rightarrow>
                                   Inr (out1\<lparr>ocChannelTypes := channels, ocFeatureFlags := pats\<rparr>)))))))"

definition loadOrgConfigFile :: "(string \<Rightarrow> string + string) \<Rightarrow> (string \<Rightarrow> string + Json) \<Rightarrow> string \<Rightarrow> OrgConfig \<Rightarrow>
    string + OrgConfig" where
  "loadOrgConfigFile readFile parse path out =
     (case readFile path of
        Inl e \<Rightarrow> Inl (''cannot read '' @ path @ '': '' @ e)
      | Inr buffer \<Rightarrow>
          (case parseOrgConfigJson parse buffer out of
             Inl e \<Rightarrow> Inl (path @ '': '' @ e)
           | Inr cfg \<Rightarrow> Inr cfg))"

fun add_flags :: "Regex \<Rightarrow> FeatureFlagPattern list \<Rightarrow> ('a, 'i) ExtensionRegistry \<Rightarrow>
    string option \<times> ('a, 'i) ExtensionRegistry" where
  "add_flags regex [] r = (None, r)"
| "add_flags regex (pat # pats) r =
     (let (ok, r1) = addFeatureFlagPattern regex (ffPattern pat) (ffNameGroup pat) r in
      if ok then add_flags regex pats r1
      else (Some (''featureFlags pattern is not a valid regex: '' @ ffPattern pat), r1))"

definition applyOrgConfig :: "Regex \<Rightarrow> OrgConfig \<Rightarrow> ('a, 'i) ExtensionRegistry \<Rightarrow> string option \<times> ('a, 'i) ExtensionRegistry" where
  \<comment> \<open>the error, if any, and the registry as far as it got\<close>
  "applyOrgConfig regex cfg r =
     add_flags regex (ocFeatureFlags cfg)
       (addChannelTypes (ocChannelTypes cfg)
         (addStaticInitHazards (ocStaticInitHazards cfg) (addLockTypes (ocLockTypes cfg) r)))"

definition loadOrgConfigIfSet :: "(string \<Rightarrow> string + string) \<Rightarrow> (string \<Rightarrow> string + Json) \<Rightarrow> Regex \<Rightarrow> string \<Rightarrow>
    ('a, 'i) ExtensionRegistry \<Rightarrow> (string + OrgConfig) \<times> ('a, 'i) ExtensionRegistry" where
  "loadOrgConfigIfSet readFile parse regex path r =
     (if path = [] then (Inr empty_org_config, r)
      else case loadOrgConfigFile readFile parse path empty_org_config of
        Inl e \<Rightarrow> (Inl (''org-config: '' @ e), r)
      | Inr cfg \<Rightarrow>
          (case applyOrgConfig regex cfg r of
             (Some e, r1) \<Rightarrow> (Inl (''org-config: '' @ e), r1)
           | (None, r1) \<Rightarrow> (Inr cfg, r1)))"

subsection \<open>Bake options\<close>

record BakeOptions =
  boLockAllowlist :: "string list"
  boLockBuiltins :: bool
  boChannelTypes :: "ChannelTypeSpec list"
  boCollapsePaths :: "string list"

fun channel_type_entries :: "Json list \<Rightarrow> ChannelTypeSpec list \<Rightarrow> string + ChannelTypeSpec list" where
  "channel_type_entries [] out = Inr out"
| "channel_type_entries (entry # es) out =
     (case getAsObject entry of
        None \<Rightarrow> Inl ''channel-types-json: each entry must be an object''
      | Some obj \<Rightarrow>
          (case getString obj ''type'' of
             None \<Rightarrow> Inl (''channel-types-json: entry missing required '' @ quoted ''type'')
           | Some t \<Rightarrow> channel_type_entries es (out @ [channel_spec obj t])))"

definition parseChannelTypesJson :: "(string \<Rightarrow> string + string) \<Rightarrow> (string \<Rightarrow> string + Json) \<Rightarrow> string \<Rightarrow>
    ChannelTypeSpec list \<Rightarrow> string + ChannelTypeSpec list" where
  "parseChannelTypesJson readFile parse path out =
     (case readFile path of
        Inl e \<Rightarrow> Inl (''channel-types-json: cannot read '' @ path @ '': '' @ e)
      | Inr buffer \<Rightarrow>
          (case parse buffer of
             Inl e \<Rightarrow> Inl (''channel-types-json: parse error in '' @ path @ '': '' @ e)
           | Inr v \<Rightarrow>
               (case getAsArray v of
                  None \<Rightarrow> Inl (''channel-types-json: '' @ path @ '' must contain a top-level JSON array'')
                | Some arr \<Rightarrow> channel_type_entries arr out)))"

definition mergeExtensionConfig :: "OrgConfig \<Rightarrow> ('a, 'i) ExtensionRegistry \<Rightarrow> BakeOptions \<Rightarrow> BakeOptions" where
  "mergeExtensionConfig cfg r b =
     b\<lparr>boLockAllowlist := add_missing (lockTypes r) (boLockAllowlist b),
       boChannelTypes := add_missing (channelTypes r) (boChannelTypes b),
       boCollapsePaths := add_missing (ocCollapsePaths cfg) (boCollapsePaths b)\<rparr>"

text \<open>
  Which translation units a bake covers (src/cli/SourceSelection.cpp).  Making a path absolute without
  dots, the lines \<open>llvm::line_iterator\<close> yields, the regular expressions, file contents, the extension
  of a path and the test for a regular file are arguments, as is the compilation database, of which
  only the list of files is read.
\<close>

record SourceSelection =
  ssExplicit :: "string list"
  ssListFile :: string
  ssRegex :: string
  ssSkipPaths :: "string list"
  ssRecorded :: "string list"

record SourceWorld =
  swCanonical :: "string \<Rightarrow> string"
  swReadFile :: "string \<Rightarrow> string + string"
  swLines :: "string \<Rightarrow> string list"
  swRegex :: "string \<Rightarrow> string + (string \<Rightarrow> bool)"
  swExtension :: "string \<Rightarrow> string"
  swRegularFile :: "string \<Rightarrow> bool"

record SelectionStats =
  stBase :: nat
  stRegexDropped :: nat
  stSkipDropped :: nat
  stDbSkipped :: nat
  stBaseSource :: string

definition appendUnique :: "SourceWorld \<Rightarrow> string \<Rightarrow> string list \<Rightarrow> string list" where
  \<comment> \<open>the set \<open>seen\<close> holds the elements of the vector\<close>
  "appendUnique w path out = (let c = swCanonical w path in if c \<in> set out then out else out @ [c])"

definition whitespace :: string where
  "whitespace = [CHR '' '', CHR 0x09, CHR 0x0A, CHR 0x0B, CHR 0x0C, CHR 0x0D]"

definition trim :: "string \<Rightarrow> string" where
  "trim s = rev (dropWhile (\<lambda>c. c \<in> set whitespace) (rev (dropWhile (\<lambda>c. c \<in> set whitespace) s)))"

definition appendListLine :: "SourceWorld \<Rightarrow> string \<Rightarrow> string list \<Rightarrow> string list" where
  "appendListLine w line out =
     (let s = trim line in
      if s \<noteq> [] \<and> take 1 s \<noteq> ''#'' then appendUnique w s out else out)"

definition sourceExtensions :: "string list" where
  "sourceExtensions = [''.c'', ''.cc'', ''.cp'', ''.cpp'', ''.cxx'', ''.c++'', ''.C'', ''.m'', ''.mm'', ''.cu'']"

definition isCppSourceOnDisk :: "SourceWorld \<Rightarrow> string \<Rightarrow> bool" where
  "isCppSourceOnDisk w path = (swExtension w path \<in> set sourceExtensions \<and> swRegularFile w path)"

definition getlines :: "string \<Rightarrow> string list" where
  \<comment> \<open>what \<open>while (std::getline(in, line))\<close> reads: a last line without a newline counts when not empty\<close>
  "getlines s = (let ls = split_on CHR 0x0A s in if last ls = [] then butlast ls else ls)"

definition listed_files :: "SourceWorld \<Rightarrow> SourceSelection \<Rightarrow> string \<Rightarrow> string list \<Rightarrow> string + string list" where
  "listed_files w sel stdin_text files =
     (if ssListFile sel = [] then Inr files
      else if ssListFile sel = ''-'' then Inr (fold (appendListLine w) (getlines stdin_text) files)
      else (case swReadFile w (ssListFile sel) of
              Inl e \<Rightarrow> Inl (''cannot read --source-list '' @ ssListFile sel @ '': '' @ e)
            | Inr buf \<Rightarrow> Inr (fold (appendListLine w) (swLines w buf) files)))"

definition base_files :: "SourceWorld \<Rightarrow> string list \<Rightarrow> SourceSelection \<Rightarrow> string list \<Rightarrow>
    string + (string list \<times> string \<times> nat)" where
  \<comment> \<open>the base set, its name and the entries of the database that were skipped\<close>
  "base_files w all sel files =
     (if ssExplicit sel \<noteq> [] \<and> ssListFile sel \<noteq> [] then Inr (files, ''source + source-list'', 0)
      else if ssExplicit sel \<noteq> [] then Inr (files, ''source'', 0)
      else if ssListFile sel \<noteq> [] then Inr (files, ''source-list'', 0)
      else if ssRegex sel = [] \<and> ssRecorded sel \<noteq> []
      then Inr (fold (appendUnique w) (ssRecorded sel) files, ''index'', 0)
      else if all = []
      then Inl ''the compilation database lists no files (a compile_flags.txt database cannot be enumerated); pass --source or --source-list''
      else Inr (sort (fold (appendUnique w) (filter (isCppSourceOnDisk w) all) files), ''database'',
                length (filter (\<lambda>f. \<not> isCppSourceOnDisk w f) all)))"

definition selectSources :: "SourceWorld \<Rightarrow> string list \<Rightarrow> SourceSelection \<Rightarrow> string \<Rightarrow>
    string + (string list \<times> SelectionStats)" where
  "selectSources w all sel stdin_text =
     (case if ssRegex sel = [] then Inr None else map_sum id Some (swRegex w (ssRegex sel)) of
        Inl e \<Rightarrow> Inl (''invalid --source-re '' @ quoted (ssRegex sel) @ '': '' @ e)
      | Inr re \<Rightarrow>
          (case listed_files w sel stdin_text (fold (appendUnique w) (ssExplicit sel) []) of
             Inl e \<Rightarrow> Inl e
           | Inr files \<Rightarrow>
               (case base_files w all sel files of
                  Inl e \<Rightarrow> Inl e
                | Inr (base, source, dbSkipped) \<Rightarrow>
                    let kept = (case re of None \<Rightarrow> base | Some matches \<Rightarrow> filter matches base);
                        final = (if ssSkipPaths sel = [] then kept
                                 else filter (\<lambda>f. \<not> isCollapsed (newCollapseFilter (ssSkipPaths sel)) f) kept)
                    in Inr (final, \<lparr>stBase = length base, stRegexDropped = length base - length kept,
                                    stSkipDropped = length kept - length final,
                                    stDbSkipped = dbSkipped, stBaseSource = source\<rparr>))))"

end
