(* ===== verification/CliRunner.thy ===== *)
theory CliRunner
  imports CliArgs OrgConfig
begin

text \<open>
  The query verbs (src/cli/MegascopeCli.cpp): \<open>tools\<close>, \<open>info\<close>, \<open>batch\<close>, \<open>dump\<close>, \<open>call\<close> and one verb
  per tool, over a saved index or one baked in memory.  A run takes the arguments, the text of stdin
  and a world of what the code does not contain (the files, JSON, LLVM's number and path functions,
  the compilation database, the bake itself) and gives the exit code, stdout and stderr.  It is
  \<open>None\<close> when the index holds an enumeration byte without a name, see \<^const>\<open>load_snapshot\<close>.
\<close>

record CliWorld =
  cwInt :: "string \<Rightarrow> int option"
  cwUnsigned :: "string \<Rightarrow> nat option"
  cwParse :: "string \<Rightarrow> string + Json"
  cwPrinter :: JsonPrinter
  cwJoinPath :: "string \<Rightarrow> string list \<Rightarrow> string"
  cwEnvIndex :: "string option"
  cwFiles :: FileSystem
  cwSources :: SourceWorld
  cwRegex :: Regex
  cwDatabase :: "string \<Rightarrow> string + string list"
  cwRegistry :: "(unit, unit) ExtensionRegistry"
  cwBake :: "string \<Rightarrow> string list \<Rightarrow> BakeOptions \<Rightarrow> nat \<Rightarrow> CallGraph \<times> ControlFlowIndex \<times> ChannelIndex"
  cwTimings :: string

type_synonym CliResult = "int \<times> string \<times> string"

definition usage_error :: "string \<Rightarrow> CliResult" where
  "usage_error msg = (kExitUsage, [], msg @ newline)"

subsection \<open>Help and the tool list\<close>

definition help_lines :: "string list \<Rightarrow> string" where
  "help_lines ls = concat (map (\<lambda>l. l @ newline) ls)"

definition verbHelp :: string where
  \<comment> \<open>what \<open>printVerbHelp\<close> writes\<close>
  "verbHelp = help_lines
       [''Usage: vycor-cpp megascope <verb> [flags]'',
        [],
        ''Verbs:'',
        ''  index     Bake the call graph and control-flow index for a'',
        ''            compilation database and save it (--build-path;'',
        ''            --source/--source-list/--source-re/--skip-paths'',
        ''            select TUs, default: the TUs already in the index,'',
        ''            else the whole database; `megascope index --help`)'',
        ''  serve     Bake or warm-start (same flags as index), then serve'',
        ''            the tools over MCP stdio'',
        ''  <tool>    Run one query tool against a saved index, e.g.'',
        ''            `megascope get-callers --name Foo::bar`'',
        ''  call      Run a tool from a JSON argument object:'',
        ''            `megascope call get_callers --args '{\"name\":\"f\"}'`'',
        ''  tools     List the query tools (--format json for schemas)'',
        ''  info      Describe a saved index (--files lists indexed TUs)'',
        ''  batch     Answer NDJSON requests {\"tool\":..,\"args\":{..}} from'',
        ''            stdin, one JSON response per line, on one loaded index'',
        ''  dump      Stream every call-site context and channel site'',
        ''            (--format ndjson, the default, or json)'',
        [],
        ''Query verbs read the index from --index, $VYCOR_INDEX,'',
        ''<build-path>/.vycor/megascope.vycs, or ./.vycor/megascope.vycs.'',
        ''Given --source/--source-list/--source-re (with --build-path) they'',
        ''bake the selected TUs in memory instead and answer from that; no'',
        ''index is read or written (--skip-paths, --collapse-paths,'',
        ''--threads, and --org-config qualify the bake as for `index`).'',
        ''Run `megascope <tool> --help` for a tool's flags.'',
        [],
        ''Exit codes: 0 results, 1 empty, 2 usage, 3 index missing or'',
        ''unreadable, 4 ambiguous identity (candidates on stdout).'']"

definition commonFlagsHelp :: string where
  "commonFlagsHelp = help_lines
       [[],
        ''Common flags:'',
        ''  --index <file>        Index file. Default: $VYCOR_INDEX, then'',
        ''                        <build-path>/.vycor/megascope.vycs, then'',
        ''                        ./.vycor/megascope.vycs'',
        ''  --build-path <dir>    Build directory the default index path is'',
        ''                        derived from'',
        ''  --entry-point <name>  Default entry point set for tools that take'',
        ''                        one (repeatable; default: main)'',
        ''  --args <json>         JSON object of arguments; explicit flags'',
        ''                        override its members'',
        ''  --format <fmt>        json (default) | ndjson | tsv'',
        ''  --pretty              Indent JSON output'',
        ''  -v, --verbose         Progress on stderr'',
        [],
        ''Exit codes: 0 results, 1 empty, 2 usage, 3 index missing or'',
        ''unreadable, 4 ambiguous identity (candidates on stdout).'']"

definition toolHelp :: "ToolEntry \<Rightarrow> string" where
  \<comment> \<open>what \<open>printToolHelp\<close> writes\<close>
  "toolHelp t =
     (let specs = schemaFlags t in
      ''Usage: vycor-cpp megascope '' @ hyphenated (toolName t) @ '' [--index <file>] [flags]'' @ newline @ newline
      @ wrapText (toolDescription t) 78 []
      @ (if specs \<noteq> [] then newline @ ''Flags (from the tool's input schema):'' @ newline else [])
      @ concat (map flag_help specs) @ commonFlagsHelp)"

definition ends_with :: "string \<Rightarrow> string \<Rightarrow> bool" where
  "ends_with s p = (drop (length s - length p) s = p)"

fun sentence_from :: "string \<Rightarrow> string \<Rightarrow> string" where
  \<comment> \<open>the text read so far, and the rest\<close>
  "sentence_from before [] = before"
| "sentence_from before (c # cs) =
     (if c = CHR ''.'' \<and> cs \<noteq> [] \<and> hd cs = CHR '' '' \<and>
         \<not> ends_with before ''e.g'' \<and> \<not> ends_with before ''i.e'' \<and> \<not> ends_with before ''vs''
      then before @ [c]
      else sentence_from (before @ [c]) cs)"

definition firstSentence :: "string \<Rightarrow> string" where
  "firstSentence s = sentence_from [] s"

definition tool_line :: "nat \<Rightarrow> ToolEntry \<Rightarrow> string" where
  "tool_line width t =
     (let verb = hyphenated (toolName t) in
      ''  '' @ verb @ replicate (width + 2 - length verb) CHR '' '' @ firstSentence (toolDescription t)
      @ (if toolHandler t = None then ''  [serve only]'' else []) @ newline)"

definition tool_json :: "ToolEntry \<Rightarrow> Json" where
  "tool_json t =
     JObj [(''name'', JStr (toolName t)), (''verb'', JStr (hyphenated (toolName t))),
           (''description'', JStr (toolDescription t)), (''inputSchema'', inputSchema t),
           (''records'', JStr (recordsKey t)), (''needs'', JArr (map JStr (sectionNames (needs t)))),
           (''cli'', JBool (toolHandler t \<noteq> None))]"

definition runTools :: "CliWorld \<Rightarrow> ToolEntry list \<Rightarrow> CommonOpts \<Rightarrow> CliResult" where
  "runTools w tools common =
     (if coRest common \<noteq> []
      then usage_error (''megascope tools: unexpected argument '' @ quoted (hd (coRest common)))
      else if coFormat common = []
      then (kExitResults,
            (let width = fold (\<lambda>t n. max n (length (hyphenated (toolName t)))) tools 0
             in concat (map (tool_line width) tools)), [])
      else case parseFormat (coFormat common) of
        Inl e \<Rightarrow> usage_error (''megascope tools: '' @ e)
      | Inr format \<Rightarrow>
          emitToolResult (cwPrinter w)
            (JObj [(''count'', jcount tools), (''tools'', JArr (map tool_json tools))])
            ''tools'' format (coPretty common) [])"

subsection \<open>info and dump\<close>

definition strings_json :: "string list \<Rightarrow> Json" where
  "strings_json ss = JArr (map JStr ss)"

definition channel_type_json :: "ChannelTypeSpec \<Rightarrow> Json" where
  "channel_type_json ct =
     JObj [(''type'', JStr (qualifiedTypeName ct)), (''category'', JStr (specCategory ct)),
           (''produce'', strings_json (produceMethods ct)), (''consume'', strings_json (consumeMethods ct))]"

definition stamp_json :: "FileStamp \<Rightarrow> Json" where
  "stamp_json f =
     JObj [(''path'', JStr (stPath f)), (''mtime_ns'', JInt (sint (stMtime f))), (''size'', JInt (sint (stSize f)))]"

definition info_json :: "CliWorld \<Rightarrow> SnapshotData \<Rightarrow> string \<Rightarrow> bool \<Rightarrow> Json" where
  "info_json w snap indexPath files =
     (let m = sdMeta snap; s = sdSummary snap in
      JObj ([(''index'', JStr indexPath), (''format_version'', JInt (uint kFormatVersion))]
        @ (case map_of (cwFiles w) indexPath of Some bytes \<Rightarrow> [(''index_bytes'', jcount bytes)] | None \<Rightarrow> [])
        @ [(''file_count'', jcount (smFiles m)), (''dependency_count'', jcount (smDeps m)),
           (''nodes'', JInt (sint (isNodes s))), (''edges'', JInt (sint (isEdges s))),
           (''call_sites'', JInt (sint (isCallSites s))), (''channel_sites'', JInt (sint (isChannelSites s))),
           (''entry_points'', strings_json (smEntryPoints m)),
           (''config'', JObj
             [(''collapse_paths'', strings_json (smCollapsePaths m)),
              (''lock_types'', strings_json (smLockAllowlist m)),
              (''lock_builtins'', JBool (smLockBuiltins m)),
              (''channel_types'', JArr (map channel_type_json (smChannelTypes m)))])]
        @ (if files then [(''files'', JArr (map stamp_json (smFiles m)))] else [])))"

definition runInfo :: "CliWorld \<Rightarrow> SnapshotData \<Rightarrow> string \<Rightarrow> CommonOpts \<Rightarrow> OutputFormat \<Rightarrow> CliResult" where
  "runInfo w snap indexPath common format =
     (let (code, out, err) = emitToolResult (cwPrinter w) (info_json w snap indexPath (coFiles common))
            (if coFiles common then ''files'' else []) format (coPretty common) []
      in (if code = kExitEmpty then kExitResults else code, out, err))"

definition dumpRecord :: "GuardClassifier \<Rightarrow> CallSiteContext \<Rightarrow> JsonObject" where
  "dumpRecord cl c =
     [(''callerName'', JStr (ctxCallerName c)), (''callerUsr'', JStr (ctxCallerUsr c)),
      (''calleeName'', JStr (ctxCalleeName c)), (''calleeUsr'', JStr (ctxCalleeUsr c)),
      (''callSite'', JStr (ctxCallSite c)), (''tu'', JStr (ctxTuPath c)),
      (''callerNoexcept'', JStr (noexceptSpecToString (callerNoexcept c))),
      (''insideCatchBlock'', JBool (insideCatchBlock c)),
      (''enclosingTryCatches'', JArr (map serializeTryCatchScope (enclosingTryCatches c))),
      (''enclosingGuards'', JArr (map (serializeGuard cl) (enclosingGuards c))),
      (''liveRaiiLocals'', JArr (map serializeRaiiLocal (liveRaiiLocals c)))]"

definition with_kind :: "string \<Rightarrow> Json \<Rightarrow> Json" where
  "with_kind k v = (case v of JObj rec \<Rightarrow> JObj (AList.update ''kind'' (JStr k) rec) | _ \<Rightarrow> v)"

definition dump_ndjson :: "JsonPrinter \<Rightarrow> GuardClassifier \<Rightarrow> SnapshotData \<Rightarrow> string" where
  "dump_ndjson pr cl snap =
     writeJson pr (JObj [(''_summary'', JObj [(''callSiteCount'', JInt (int (contextCount (sdFlow snap)))),
                                             (''channelSiteCount'', jcount (allSites (sdChannels snap)))])]) False
     @ forEachContext (sdFlow snap)
         (\<lambda>c out. out @ writeJson pr (with_kind ''call_site'' (JObj (dumpRecord cl c))) False) []
     @ concat (map (\<lambda>s. writeJson pr (with_kind ''channel_site'' (serializeChannelSite cl s)) False)
                (allSites (sdChannels snap)))"

definition dump_json :: "GuardClassifier \<Rightarrow> SnapshotData \<Rightarrow> Json" where
  \<comment> \<open>the document that is streamed\<close>
  "dump_json cl snap =
     JObj [(''callSiteCount'', JInt (int (contextCount (sdFlow snap)))),
           (''callSites'', JArr (forEachContext (sdFlow snap) (\<lambda>c out. out @ [JObj (dumpRecord cl c)]) [])),
           (''channelSiteCount'', jcount (allSites (sdChannels snap))),
           (''channelSites'', JArr (map (serializeChannelSite cl) (allSites (sdChannels snap))))]"

definition runDump :: "CliWorld \<Rightarrow> GuardClassifier \<Rightarrow> SnapshotData \<Rightarrow> CommonOpts \<Rightarrow> OutputFormat \<Rightarrow> CliResult" where
  "runDump w cl snap common format =
     (if coRest common \<noteq> []
      then usage_error (''megascope dump: unexpected argument '' @ quoted (hd (coRest common)))
      else if format = Tsv_format
      then usage_error ''megascope dump: records are nested; --format tsv is not available (use ndjson or json)''
      else (if contextCount (sdFlow snap) + length (allSites (sdChannels snap)) > 0 then kExitResults else kExitEmpty,
            if format = Ndjson_format then dump_ndjson (cwPrinter w) cl snap
            else writeJson (cwPrinter w) (dump_json cl snap) (coPretty common),
            []))"

subsection \<open>batch\<close>

definition tools_by_name :: "ToolEntry list \<Rightarrow> (string, ToolEntry) umap" where
  "tools_by_name tools = fold (\<lambda>t m. AList.update (toolName t) t m) tools []"

definition batch_error :: "nat \<Rightarrow> JsonObject \<Rightarrow> string \<Rightarrow> Json" where
  "batch_error lineNo resp msg =
     JObj (resp @ [(''error'', JStr (''line '' @ nat_string lineNo @ '': '' @ msg)), (''exit'', JInt kExitUsage)])"

definition batch_args :: "JsonObject \<Rightarrow> JsonObject" where
  "batch_args req =
     (case getObject req ''args'' of
        Some a \<Rightarrow> a
      | None \<Rightarrow> (case getObject req ''arguments'' of Some a \<Rightarrow> a | None \<Rightarrow> []))"

definition batch_line :: "CliWorld \<Rightarrow> (string, ToolEntry) umap \<Rightarrow> ToolContext \<Rightarrow> nat \<Rightarrow> string \<Rightarrow>
    QueryCache option \<Rightarrow> Json \<times> QueryCache option" where
  \<comment> \<open>the answer to one line that is not blank\<close>
  "batch_line w toolMap ctx lineNo line cache =
     (case cwParse w line of
        Inl e \<Rightarrow> (batch_error lineNo [] e, cache)
      | Inr v \<Rightarrow>
          (case getAsObject v of
             None \<Rightarrow> (batch_error lineNo [] ''request must be a JSON object'', cache)
           | Some req \<Rightarrow>
               let resp = (case map_of req ''id'' of Some i \<Rightarrow> [(''id'', i)] | None \<Rightarrow> []) in
               (case getString req ''tool'' of
                  None \<Rightarrow> (batch_error lineNo resp (''missing '' @ quoted ''tool''), cache)
                | Some t \<Rightarrow>
                    let canon = canonicalToolName t; resp1 = resp @ [(''tool'', JStr canon)] in
                    (case map_of toolMap canon of
                       Some entry \<Rightarrow>
                         (case toolHandler entry of
                            None \<Rightarrow> (batch_error lineNo resp1 (''unknown tool '' @ quoted t), cache)
                          | Some h \<Rightarrow>
                              let (payload, cache1) = h (batch_args req) ctx cache in
                              (JObj (resp1 @ [(''exit'', JInt (exitCodeFor payload (recordsKey entry))),
                                              (''result'', payload)]), cache1))
                     | None \<Rightarrow> (batch_error lineNo resp1 (''unknown tool '' @ quoted t), cache)))))"

fun batch_lines :: "CliWorld \<Rightarrow> (string, ToolEntry) umap \<Rightarrow> ToolContext \<Rightarrow> nat \<Rightarrow> string list \<Rightarrow>
    QueryCache option \<Rightarrow> string" where
  "batch_lines w toolMap ctx lineNo [] cache = []"
| "batch_lines w toolMap ctx lineNo (line # ls) cache =
     (if trim line = [] then batch_lines w toolMap ctx (Suc lineNo) ls cache
      else let (answer, cache1) = batch_line w toolMap ctx (Suc lineNo) line cache in
           writeJson (cwPrinter w) answer False @ batch_lines w toolMap ctx (Suc lineNo) ls cache1)"

definition runBatch :: "CliWorld \<Rightarrow> ToolEntry list \<Rightarrow> ToolContext \<Rightarrow> string \<Rightarrow> QueryCache option \<Rightarrow> CliResult" where
  "runBatch w tools ctx stdin_text cache =
     (kExitResults, batch_lines w (tools_by_name tools) ctx 0 (getlines stdin_text) cache, [])"

text \<open>
  Running one query verb (src/cli/MegascopeCli.cpp): the bake in memory, the choice of the index and
  of its sections, the dispatch of the verbs.
\<close>

subsection \<open>Indexes in memory\<close>

definition baked_snapshot :: "string list \<Rightarrow> CallGraph \<times> ControlFlowIndex \<times> ChannelIndex \<Rightarrow> SnapshotData" where
  "baked_snapshot collapsePaths baked =
     (case baked of (g, cf, ch) \<Rightarrow>
        \<lparr>sdGraph = g, sdFlow = cf, sdChannels = ch,
         sdMeta = empty_meta\<lparr>smCollapsePaths := collapsePaths\<rparr>,
         sdSummary = \<lparr>isNodes = of_nat (nodeCount g), isEdges = of_nat (edgeCount g),
                      isCallSites = of_nat (contextCount cf), isChannelSites = of_nat (channelSize ch)\<rparr>,
         sdLoaded = kSectionAll\<rparr>)"

definition size_note :: "IndexSummary \<Rightarrow> string" where
  "size_note s =
     ''('' @ nat_string (unat (isNodes s)) @ '' nodes, '' @ nat_string (unat (isEdges s)) @ '' edges, ''
     @ nat_string (unat (isCallSites s)) @ '' call sites) in ''"

definition selection_of :: "CommonOpts \<Rightarrow> SourceSelection" where
  "selection_of common =
     \<lparr>ssExplicit = coSources common, ssListFile = coSourceList common, ssRegex = coSourceRe common,
      ssSkipPaths = coSkipPaths common, ssRecorded = []\<rparr>"

definition bake_usage :: "CliWorld \<Rightarrow> CommonOpts \<Rightarrow> string \<Rightarrow> string option" where
  \<comment> \<open>the checks before anything is read\<close>
  "bake_usage w common verb =
     (if coIndex common \<noteq> []
      then Some ''--source/--source-list/--source-re bake the selected TUs in memory; drop --index, or run `megascope index` to bake to a file''
      else if coBuildPath common = []
      then Some ''--build-path is required with --source/--source-list/--source-re''
      else if verb = ''info''
      then Some ''describes a saved index; `megascope index` writes one''
      else if verb = ''batch'' \<and> coSourceList common = ''-''
      then Some ''stdin carries the requests; --source-list - cannot read it too''
      else if coThreads common \<noteq> [] \<and> cwUnsigned w (coThreads common) = None
      then Some (''--threads expects a number, got '' @ quoted (coThreads common))
      else None)"

definition bake_selected :: "CliWorld \<Rightarrow> CommonOpts \<Rightarrow> string list \<Rightarrow> OrgConfig \<Rightarrow> (unit, unit) ExtensionRegistry \<Rightarrow>
    SnapshotData \<times> string" where
  \<comment> \<open>the baked indexes, and what \<open>--verbose\<close> reports\<close>
  "bake_selected w common files orgCfg registry =
     (let b = mergeExtensionConfig orgCfg registry
                \<lparr>boLockAllowlist = [], boLockBuiltins = True, boChannelTypes = [], boCollapsePaths = coCollapsePaths common\<rparr>;
          threads = (case cwUnsigned w (coThreads common) of Some n \<Rightarrow> if coThreads common = [] then 0 else n | None \<Rightarrow> 0);
          snap = baked_snapshot (boCollapsePaths b) (cwBake w (coBuildPath common) files b threads)
      in (snap,
          if coVerbose common
          then ''megascope: baked '' @ nat_string (length files) @ '' TU(s) in memory '' @ size_note (sdSummary snap)
               @ cwTimings w @ '' ms'' @ newline
          else []))"

definition bakeEphemeral :: "CliWorld \<Rightarrow> CommonOpts \<Rightarrow> string \<Rightarrow> string \<Rightarrow>
    CliResult + (SnapshotData \<times> (unit, unit) ExtensionRegistry \<times> string)" where
  "bakeEphemeral w common verb stdin_text =
     (case bake_usage w common verb of
        Some e \<Rightarrow> Inl (usage_error (''megascope '' @ verb @ '': '' @ e))
      | None \<Rightarrow>
          (case cwDatabase w (coBuildPath common) of
             Inl e \<Rightarrow> Inl (kExitIndex, [], ''megascope: cannot load compilation database from ''
                            @ coBuildPath common @ '': '' @ e @ newline)
           | Inr all \<Rightarrow>
               (case selectSources (cwSources w) all (selection_of common) stdin_text of
                  Inl e \<Rightarrow> Inl (usage_error (''megascope: '' @ e))
                | Inr (files, stats) \<Rightarrow>
                    if files = []
                    then Inl (kExitIndex, [], ''megascope: the selection matches no TU of '' @ coBuildPath common @ newline)
                    else
                      (case loadOrgConfigIfSet (swReadFile (cwSources w)) (cwParse w) (cwRegex w) (coOrgConfig common)
                              (cwRegistry w) of
                         (Inl e, r) \<Rightarrow> Inl (usage_error e)
                       | (Inr orgCfg, r) \<Rightarrow>
                           (let (snap, note1) = bake_selected w common files orgCfg r in Inr (snap, r, note1))))))"

subsection \<open>Saved indexes\<close>

definition stray_flag :: "CommonOpts \<Rightarrow> string option" where
  "stray_flag common =
     (if coSkipPaths common \<noteq> [] then Some ''--skip-paths''
      else if coCollapsePaths common \<noteq> [] then Some ''--collapse-paths''
      else if coThreads common \<noteq> [] then Some ''--threads''
      else if coOrgConfig common \<noteq> [] then Some ''--org-config''
      else None)"

definition index_path :: "CliWorld \<Rightarrow> CommonOpts \<Rightarrow> string" where
  "index_path w common =
     resolveIndexPath (cwJoinPath w) (coIndex common) (case cwEnvIndex w of Some p \<Rightarrow> p | None \<Rightarrow> [])
       (coBuildPath common)"

datatype Opened = Refused CliResult | Opened SnapshotData string | OpenedUnnamed

definition openIndex :: "CliWorld \<Rightarrow> CommonOpts \<Rightarrow> string \<Rightarrow> 32 word \<Rightarrow> Opened" where
  \<comment> \<open>the branch for a saved index\<close>
  "openIndex w common verb needed =
     (case stray_flag common of
        Some stray \<Rightarrow>
          Refused (usage_error (''megascope '' @ verb @ '': '' @ stray
            @ '' only applies with --source/--source-list/--source-re (the in-memory bake); a saved index carries its own''))
      | None \<Rightarrow>
          let path = index_path w common in
          if map_of (cwFiles w) path = None
          then Refused (kExitIndex, [], ''megascope: no index at '' @ path
                 @ '' (run `vycor-cpp megascope index --build-path <dir> ...` first, pass --index, or pass --source to bake in memory)''
                 @ newline)
          else
            (case load_snapshot ReadOnly needed path (cwFiles w) of
               Rejected \<Rightarrow> Refused (kExitIndex, [], ''megascope: cannot load index '' @ path
                              @ '' (wrong format version or unreadable; re-run `megascope index`)'' @ newline)
             | Unnamed \<Rightarrow> OpenedUnnamed
             | Loaded snap \<Rightarrow>
                 Opened snap
                   (if coVerbose common
                    then ''megascope: loaded '' @ path @ '' '' @ size_note (sdSummary snap) @ cwTimings w @ newline
                    else [])))"

subsection \<open>Verbs\<close>

definition verb_tool :: "string \<Rightarrow> string list \<Rightarrow> string + (string \<times> string \<times> string list)" where
  \<comment> \<open>the name as typed, the canonical name (empty when the verb is no tool) and the arguments left\<close>
  "verb_tool verb tail =
     (if verb = ''call''
      then (if tail = [] \<or> starts_with (hd tail) ''-''
            then Inl ''megascope call: expected a tool name, e.g. `megascope call get_callers --args '{\"name\":\"f\"}'`''
            else Inr (hd tail, canonicalToolName (hd tail), tl tail))
      else if verb \<noteq> ''tools'' \<and> verb \<noteq> ''info'' \<and> verb \<noteq> ''batch'' \<and> verb \<noteq> ''dump''
      then Inr (verb, canonicalToolName verb, tail)
      else Inr (verb, [], tail))"

definition find_tool :: "ToolEntry list \<Rightarrow> string \<Rightarrow> ToolEntry option" where
  \<comment> \<open>the loop keeps the last tool of that name\<close>
  "find_tool tools n = fold (\<lambda>t found. if toolName t = n then Some t else found) tools None"

definition needed_sections :: "string \<Rightarrow> ToolEntry option \<Rightarrow> 32 word" where
  "needed_sections verb t =
     (if verb = ''info'' then 0
      else if verb = ''dump'' then kSectionControlFlow OR kSectionChannels
      else if verb = ''batch'' then kSectionAll
      else case t of Some te \<Rightarrow> needs te | None \<Rightarrow> kSectionAll)"

definition tool_arguments :: "CliWorld \<Rightarrow> string \<Rightarrow> ToolEntry option \<Rightarrow> CommonOpts \<Rightarrow> string + JsonObject" where
  \<comment> \<open>validated before the index is read\<close>
  "tool_arguments w verb t common =
     (case t of
        None \<Rightarrow>
          if coRest common \<noteq> []
          then Inl (''megascope '' @ verb @ '': unexpected argument '' @ quoted (hd (coRest common)))
          else Inr []
      | Some te \<Rightarrow>
          (case if coArgsJson common = [] then Inr []
                else (case cwParse w (coArgsJson common) of
                        Inl e \<Rightarrow> Inl (''megascope '' @ hyphenated (toolName te) @ '': --args must be a JSON object: '' @ e)
                      | Inr v \<Rightarrow>
                          (case getAsObject v of
                             None \<Rightarrow> Inl (''megascope '' @ hyphenated (toolName te) @ '': --args must be a JSON object'')
                           | Some seed \<Rightarrow> Inr seed)) of
             Inl e \<Rightarrow> Inl e
           | Inr seed \<Rightarrow>
               (case parseToolArgs (cwInt w) te (coRest common) seed of
                  Inl e \<Rightarrow> Inl (''megascope '' @ hyphenated (toolName te) @ '': '' @ e)
                | Inr args \<Rightarrow> Inr args)))"

definition query_entry_points :: "CommonOpts \<Rightarrow> SnapshotData \<Rightarrow> string list" where
  "query_entry_points common snap =
     (if coEntryPoints common \<noteq> [] then coEntryPoints common
      else if smEntryPoints (sdMeta snap) \<noteq> [] then smEntryPoints (sdMeta snap)
      else [''main''])"

definition query_context :: "CommonOpts \<Rightarrow> SnapshotData \<Rightarrow> (unit, unit) ExtensionRegistry \<Rightarrow> ToolContext" where
  "query_context common snap registry =
     \<lparr>tcGraph = sdGraph snap, tcOracle = \<lparr>orGraph = sdGraph snap, orIndex = sdFlow snap\<rparr>,
      tcIndex = sdFlow snap, tcEntryPoints = query_entry_points common snap,
      tcChannels = Some (sdChannels snap), tcSummary = Some (sdSummary snap), tcClassify = classify registry\<rparr>"

definition answer_verb :: "CliWorld \<Rightarrow> string \<Rightarrow> ToolEntry option \<Rightarrow> CommonOpts \<Rightarrow> OutputFormat \<Rightarrow> JsonObject \<Rightarrow>
    string \<Rightarrow> SnapshotData \<Rightarrow> (unit, unit) ExtensionRegistry \<Rightarrow> CliResult" where
  \<comment> \<open>once the indexes are there\<close>
  "answer_verb w verb t common format toolArgs stdin_text snap registry =
     (if verb = ''info'' then runInfo w snap (index_path w common) common format
      else if verb = ''dump'' then runDump w (classify registry) snap common format
      else let ctx = query_context common snap registry in
        (case t of
           None \<Rightarrow> runBatch w getRegisteredTools ctx stdin_text (Some empty_cache)
         | Some te \<Rightarrow>
             (case toolHandler te of
                None \<Rightarrow> usage_error []
              | Some h \<Rightarrow>
                  emitToolResult (cwPrinter w) (fst (h toolArgs ctx (Some empty_cache))) (recordsKey te) format
                    (coPretty common) (hyphenated (toolName te)))))"

definition add_err :: "string \<Rightarrow> CliResult \<Rightarrow> CliResult" where
  "add_err note1 r = (case r of (code, out, err) \<Rightarrow> (code, out, note1 @ err))"

definition run_verb :: "CliWorld \<Rightarrow> string \<Rightarrow> ToolEntry option \<Rightarrow> CommonOpts \<Rightarrow> string \<Rightarrow> CliResult option" where
  \<comment> \<open>from the split flags on\<close>
  "run_verb w verb t common stdin_text =
     (if coHelp common
      then Some (kExitResults, (case t of Some te \<Rightarrow> toolHelp te | None \<Rightarrow> verbHelp), [])
      else if verb = ''tools'' then Some (runTools w getRegisteredTools common)
      else
        (case parseFormat (if coFormat common = [] then (if verb = ''dump'' then ''ndjson'' else ''json'')
                           else coFormat common) of
           Inl e \<Rightarrow> Some (usage_error (''megascope '' @ verb @ '': '' @ e))
         | Inr format \<Rightarrow>
             (case tool_arguments w verb t common of
                Inl e \<Rightarrow> Some (usage_error e)
              | Inr toolArgs \<Rightarrow>
                  if ephemeral common
                  then (case bakeEphemeral w common verb stdin_text of
                          Inl r \<Rightarrow> Some r
                        | Inr (snap, registry, note1) \<Rightarrow>
                            Some (add_err note1 (answer_verb w verb t common format toolArgs stdin_text snap registry)))
                  else (case openIndex w common verb (needed_sections verb t) of
                          Refused r \<Rightarrow> Some r
                        | OpenedUnnamed \<Rightarrow> None
                        | Opened snap note1 \<Rightarrow>
                            Some (add_err note1
                              (answer_verb w verb t common format toolArgs stdin_text snap (cwRegistry w)))))))"

definition runMegascopeQueryVerb :: "CliWorld \<Rightarrow> string list \<Rightarrow> string \<Rightarrow> CliResult option" where
  "runMegascopeQueryVerb w args stdin_text =
     (case args of
        [] \<Rightarrow> Some (kExitUsage, [], verbHelp)
      | verb # tail \<Rightarrow>
          if verb = ''help'' \<or> verb = ''--help'' \<or> verb = ''-h'' then Some (kExitResults, verbHelp, [])
          else
            (case verb_tool verb tail of
               Inl e \<Rightarrow> Some (usage_error e)
             | Inr (typed, n, rest) \<Rightarrow>
                 let t = (if n = [] then None else find_tool getRegisteredTools n) in
                 if n \<noteq> [] \<and> t = None
                 then Some (usage_error (''megascope: unknown verb or tool '' @ quoted typed
                        @ ''. Verbs: index, serve, tools, info, batch, dump, call, <tool>; run `vycor-cpp megascope tools` for the tool list.''))
                 else if (case t of Some te \<Rightarrow> toolHandler te = None | None \<Rightarrow> False)
                 then Some (usage_error (''megascope: '' @ hyphenated n
                        @ '' mutates the index and is only available through `serve`''))
                 else
                   (case splitCommonFlags rest (verb = ''info'') of
                      Inl e \<Rightarrow> Some (usage_error (''megascope '' @ verb @ '': '' @ e))
                    | Inr common \<Rightarrow> run_verb w verb t common stdin_text)))"

end
