(* ===== verification/SchemaProps.thy ===== *)
theory SchemaProps
  imports CliArgs CallChain
begin

text \<open>
  Schemas against handlers: the parameters a tool declares are the only ones its answer depends on.
\<close>

subsection \<open>Declared parameters\<close>

fun param_names :: "Json \<Rightarrow> string list" where
  "param_names (JObj ms) = (case getObject ms ''properties'' of Some props \<Rightarrow> map fst props | None \<Rightarrow> [])"
| "param_names _ = []"

lemma param_names_object: "param_names (object_schema props req) = map fst props"
  by (simp add: object_schema_def getObject_def)

lemma flagName_flag_spec [simp]: "flagName (flag_spec req kv) = fst kv"
  by (simp add: flag_spec_def Let_def split: option.split)

lemma set_flag_names: "flagName ` set (schemaFlags t) = set (param_names (inputSchema t))"
proof (cases "inputSchema t")
  case (JObj ms)
  then show ?thesis by (cases "getObject ms ''properties''") (simp_all add: schemaFlags_def image_image)
qed (simp_all add: schemaFlags_def)

lemma identity_params:
  "map fst (identityRefinementProps prefix) = [prefix @ ''site'', prefix @ ''filter'']"
  "map fst functionProps = [''function'', ''usr'', ''site'', ''filter'']"
  by (simp_all add: identityRefinementProps_def functionProps_def)

lemma schema_params:
  "param_names schema_lookup_function =
     [''name'', ''usr'', ''site'', ''filter'']"
  "param_names schema_get_callees =
     [''name'', ''usr'', ''site'', ''filter'', ''edge_kinds'', ''min_confidence'',
      ''include_confidences'', ''execution_contexts'']"
  "param_names schema_get_callers =
     [''name'', ''usr'', ''site'', ''filter'', ''edge_kinds'', ''min_confidence'',
      ''include_confidences'', ''execution_contexts'']"
  "param_names schema_find_call_chain =
     [''from'', ''from_usr'', ''from_site'', ''from_filter'', ''to'', ''to_usr'', ''to_site'',
      ''to_filter'', ''max_paths'', ''max_depth'', ''edge_kinds'', ''min_confidence'',
      ''include_confidences'', ''max_fan_in'']"
  "param_names schema_search_functions =
     [''query'', ''limit'']"
  "param_names schema_get_class_hierarchy =
     [''class_name'', ''include_transitive'', ''include_overrides'']"
  "param_names schema_list_entry_points =
     []"
  "param_names schema_graph_summary =
     []"
  "param_names schema_list_callback_sites =
     [''target_prefix'']"
  "param_names schema_list_concurrency_entry_points =
     [''execution_contexts'']"
  "param_names schema_query_exception_safety =
     [''function'', ''usr'', ''site'', ''filter'', ''exception_type'', ''entry_points'']"
  "param_names schema_query_call_site_context =
     [''call_site'', ''caller'']"
  "param_names schema_query_raii_scopes_at_callsite =
     [''call_site'', ''caller'', ''kinds'']"
  "param_names schema_query_throw_propagation =
     [''function'', ''usr'', ''site'', ''filter'', ''exception_type'', ''entry_points'']"
  "param_names schema_query_all_path_contexts =
     [''function'', ''usr'', ''site'', ''filter'', ''entry_points'', ''max_paths'']"
  "param_names schema_query_nearest_catches =
     [''function'', ''usr'', ''site'', ''filter'']"
  "param_names schema_query_locks_held =
     [''function'', ''usr'', ''site'', ''filter'', ''max_depth'', ''max_fan_in'',
      ''entry_points'']"
  "param_names schema_query_same_lock =
     [''fn_a'', ''fn_a_usr'', ''fn_a_site'', ''fn_a_filter'', ''fn_b'', ''fn_b_usr'',
      ''fn_b_site'', ''fn_b_filter'', ''max_depth'', ''max_fan_in'', ''entry_points'']"
  "param_names schema_analyze_dead_code =
     [''entry_points'', ''include_optimistic'', ''include_system'', ''name_prefix'',
      ''file_prefix'', ''limit'', ''offset'']"
  "param_names schema_list_channels =
     []"
  "param_names schema_query_channel =
     [''channel_id'']"
  "param_names schema_query_channels_for_function =
     [''function'']"
  "param_names schema_explain_ordering =
     [''call_site_a'', ''call_site_b'']"
  "param_names schema_reindex_tu =
     [''file'']"
  unfolding schema_lookup_function_def
    schema_get_callees_def
    schema_get_callers_def
    schema_find_call_chain_def
    schema_search_functions_def
    schema_get_class_hierarchy_def
    schema_list_entry_points_def
    schema_graph_summary_def
    schema_list_callback_sites_def
    schema_list_concurrency_entry_points_def
    schema_query_exception_safety_def
    schema_query_call_site_context_def
    schema_query_raii_scopes_at_callsite_def
    schema_query_throw_propagation_def
    schema_query_all_path_contexts_def
    schema_query_nearest_catches_def
    schema_query_locks_held_def
    schema_query_same_lock_def
    schema_analyze_dead_code_def
    schema_list_channels_def
    schema_query_channel_def
    schema_query_channels_for_function_def
    schema_explain_ordering_def
    schema_reindex_tu_def
    param_names_object
  by (simp_all only: list.map map_append identity_params fst_conv append_Cons append_Nil)

subsection \<open>What a handler reads\<close>

definition only :: "string list \<Rightarrow> JsonObject \<Rightarrow> JsonObject" where
  "only ks args = filter (\<lambda>kv. fst kv \<in> set ks) args"

lemma map_of_only: "map_of (only ks args) k = (if k \<in> set ks then map_of args k else None)"
  by (induction args) (auto simp: only_def)

named_theorems reads \<open>readers that look at declared members only\<close>

lemma get_only [reads]:
  assumes "k \<in> set ks"
  shows "getString (only ks args) k = getString args k" "getInteger (only ks args) k = getInteger args k"
    "getBoolean (only ks args) k = getBoolean args k" "getArray (only ks args) k = getArray args k"
  using assms by (simp_all add: getString_def getInteger_def getBoolean_def getArray_def map_of_only)

lemma string_items_only [reads]: "k \<in> set ks \<Longrightarrow> string_items (only ks args) k = string_items args k"
  by (simp add: string_items_def get_only)

lemma shown_name_only [reads]: "k \<in> set ks \<Longrightarrow> shown_name (only ks args) k ident = shown_name args k ident"
  by (simp add: shown_name_def get_only)

lemma resolveIdentity_only [reads]:
  assumes "set [n, p, companionParam p ''site'', companionParam p ''filter''] \<subseteq> set ks"
  shows "resolveIdentity (only ks args) ctx n p = resolveIdentity args ctx n p"
  using assms by (simp add: resolveIdentity_def resolve_name_def get_only Let_def cong: if_cong option.case_cong)

lemma with_identity_only [reads]:
  assumes "set [n, p, companionParam p ''site'', companionParam p ''filter''] \<subseteq> set ks"
  shows "with_identity (only ks args) ctx n p m body = with_identity args ctx n p m body"
  unfolding with_identity_def resolveIdentity_only[OF assms] ..

lemma companions [simp]:
  "companionParam ''usr'' ''site'' = ''site''" "companionParam ''usr'' ''filter'' = ''filter''"
  "companionParam ''to_usr'' ''site'' = ''to_site''" "companionParam ''to_usr'' ''filter'' = ''to_filter''"
  "companionParam ''from_usr'' ''site'' = ''from_site''" "companionParam ''from_usr'' ''filter'' = ''from_filter''"
  "companionParam ''fn_a_usr'' ''site'' = ''fn_a_site''" "companionParam ''fn_a_usr'' ''filter'' = ''fn_a_filter''"
  "companionParam ''fn_b_usr'' ''site'' = ''fn_b_site''" "companionParam ''fn_b_usr'' ''filter'' = ''fn_b_filter''"
  by code_simp+

lemma argument_readers_only [reads]:
  "set [''edge_kinds'', ''min_confidence'', ''include_confidences'', ''execution_contexts''] \<subseteq> set ks \<Longrightarrow>
     parseEdgeFilter (only ks args) = parseEdgeFilter args"
  "''entry_points'' \<in> set ks \<Longrightarrow> entry_points_arg (only ks args) ctx = entry_points_arg args ctx"
  "''entry_points'' \<in> set ks \<Longrightarrow> entryPointsArg (only ks args) ctx = entryPointsArg args ctx"
  "''max_depth'' \<in> set ks \<Longrightarrow> max_depth_arg (only ks args) = max_depth_arg args"
  "''max_fan_in'' \<in> set ks \<Longrightarrow> max_fan_in_arg (only ks args) = max_fan_in_arg args"
  "''exception_type'' \<in> set ks \<Longrightarrow> exception_type_arg (only ks args) = exception_type_arg args"
  "''max_paths'' \<in> set ks \<Longrightarrow> max_paths_arg (only ks args) = max_paths_arg args"
  "''caller'' \<in> set ks \<Longrightarrow> resolveCallSiteContext (only ks args) ctx s = resolveCallSiteContext args ctx s"
  by (simp_all add: parseEdgeFilter_def parse_confidence_args_def entry_points_arg_def entryPointsArg_def
      max_depth_arg_def max_fan_in_arg_def exception_type_arg_def max_paths_arg_def resolveCallSiteContext_def reads Let_def cong: if_cong option.case_cong sum.case_cong)

lemma handlers_only:
  "handleLookupFunction (only (param_names schema_lookup_function) args) ctx = handleLookupFunction args ctx"
  "handleGetCallees (only (param_names schema_get_callees) args) ctx = handleGetCallees args ctx"
  "handleGetCallers (only (param_names schema_get_callers) args) ctx = handleGetCallers args ctx"
  "handleSearchFunctions (only (param_names schema_search_functions) args) ctx cache = handleSearchFunctions args ctx cache"
  "handleGetClassHierarchy (only (param_names schema_get_class_hierarchy) args) ctx = handleGetClassHierarchy args ctx"
  "handleListEntryPoints (only (param_names schema_list_entry_points) args) ctx = handleListEntryPoints args ctx"
  "handleGraphSummary (only (param_names schema_graph_summary) args) ctx cache = handleGraphSummary args ctx cache"
  "handleListCallbackSites (only (param_names schema_list_callback_sites) args) ctx = handleListCallbackSites args ctx"
  "handleListConcurrencyEntryPoints (only (param_names schema_list_concurrency_entry_points) args) ctx =
     handleListConcurrencyEntryPoints args ctx"
  unfolding schema_params
  by (simp_all add: handleLookupFunction_def handleGetCallees_def handleGetCallers_def handleSearchFunctions_def
      handleGetClassHierarchy_def handleListEntryPoints_def handleGraphSummary_def handleListCallbackSites_def
      handleListConcurrencyEntryPoints_def reads Let_def cong: if_cong option.case_cong sum.case_cong)

lemma chain_handler_only:
  "handleFindCallChain (only (''execution_contexts'' # param_names schema_find_call_chain) args) ctx = handleFindCallChain args ctx"
  unfolding schema_params
  by (simp add: handleFindCallChain_def run_chain_def chain_answer_def reads Let_def
      cong: if_cong option.case_cong sum.case_cong Resolution.case_cong)

lemma exception_handlers_only:
  "handleQueryExceptionSafety (only (param_names schema_query_exception_safety) args) ctx = handleQueryExceptionSafety args ctx"
  "handleQueryThrowPropagation (only (param_names schema_query_throw_propagation) args) ctx = handleQueryThrowPropagation args ctx"
  "handleQueryAllPathContexts (only (param_names schema_query_all_path_contexts) args) ctx = handleQueryAllPathContexts args ctx"
  "handleQueryNearestCatches (only (param_names schema_query_nearest_catches) args) ctx = handleQueryNearestCatches args ctx"
  "handleQueryCallSiteContext (only (param_names schema_query_call_site_context) args) ctx = handleQueryCallSiteContext args ctx"
  "handleQueryRaiiScopesAtCallsite (only (param_names schema_query_raii_scopes_at_callsite) args) ctx =
     handleQueryRaiiScopesAtCallsite args ctx"
  unfolding schema_params
  by (simp_all add: handleQueryExceptionSafety_def handleQueryThrowPropagation_def handleQueryAllPathContexts_def
      handleQueryNearestCatches_def handleQueryCallSiteContext_def handleQueryRaiiScopesAtCallsite_def reads Let_def
      cong: if_cong option.case_cong sum.case_cong)

lemma lock_handlers_only:
  "handleQueryLocksHeld (only (param_names schema_query_locks_held) args) ctx = handleQueryLocksHeld args ctx"
  "handleQuerySameLock (only (param_names schema_query_same_lock) args) ctx = handleQuerySameLock args ctx"
  unfolding schema_params
  by (simp_all add: handleQueryLocksHeld_def handleQuerySameLock_def same_lock_answer_def reads Let_def
      cong: if_cong option.case_cong sum.case_cong Resolution.case_cong)

lemma other_handlers_only:
  "handleAnalyzeDeadCode (only (param_names schema_analyze_dead_code) args) ctx cache = handleAnalyzeDeadCode args ctx cache"
  "handleListChannels (only (param_names schema_list_channels) args) ctx = handleListChannels args ctx"
  "handleQueryChannel (only (param_names schema_query_channel) args) ctx = handleQueryChannel args ctx"
  "handleQueryChannelsForFunction (only (param_names schema_query_channels_for_function) args) ctx =
     handleQueryChannelsForFunction args ctx"
  "handleExplainOrdering (only (param_names schema_explain_ordering) args) ctx = handleExplainOrdering args ctx"
  unfolding schema_params
  by (simp_all add: handleAnalyzeDeadCode_def dead_args_def handleListChannels_def handleQueryChannel_def
      handleQueryChannelsForFunction_def handleExplainOrdering_def reads Let_def cong: if_cong option.case_cong)

definition tool_params :: "ToolEntry \<Rightarrow> string list" where
  \<comment> \<open>what the schema declares, and the one parameter that is read without being declared\<close>
  "tool_params t =
     (if toolName t = ''find_call_chain'' then [''execution_contexts''] else []) @ map flagName (schemaFlags t)"

lemma only_cong: "set ks = set ks' \<Longrightarrow> only ks args = only ks' args"
  by (simp add: only_def)

lemma only_tool_params:
  "only (tool_params t) args =
     only ((if toolName t = ''find_call_chain'' then [''execution_contexts''] else []) @ param_names (inputSchema t)) args"
  by (rule only_cong) (simp add: tool_params_def set_flag_names)

text \<open>C30: The answer of every tool depends only on the parameters its input schema declares, with one
  exception: \<open>find_call_chain\<close> also reads \<open>execution_contexts\<close>, which it does not declare.  Any other
  member of the arguments changes neither the answer nor the cache.\<close>

theorem declared_params_suffice:
  "list_all (\<lambda>t. case toolHandler t of
       None \<Rightarrow> toolName t = ''reindex_tu''
     | Some h \<Rightarrow> h (only (tool_params t) args) ctx cache = h args ctx cache) getRegisteredTools"
  by (simp add: getRegisteredTools_def complete_tool_def registerGraphTools_def
      registerExceptionTools_def registerLockTools_def registerDeadCodeTools_def registerChannelTools_def
      tool_def uncached_def only_tool_params handlers_only chain_handler_only exception_handlers_only
      lock_handlers_only other_handlers_only)

end
