(* ===== verification/CliProps.thy ===== *)
theory CliProps
  imports CliRunner SchemaProps SnapshotProps QueryProps CacheProps CliArgs CollapseFilter
begin

text \<open>
  Properties of the command line: the flags of a tool carry any arguments its schema allows, no flag
  of a tool is taken for a common flag, and a verb answers what the tool answers.
\<close>

subsection \<open>Arguments as flags\<close>

definition int_string :: "int \<Rightarrow> string" where
  "int_string n = (if n < 0 then ''-'' @ nat_string (nat (- n)) else nat_string (nat n))"

definition flag_text :: "string \<Rightarrow> string \<Rightarrow> string" where
  "flag_text k s = ''--'' @ hyphenated k @ ''='' @ s"

fun scalar_text :: "Json \<Rightarrow> string" where
  "scalar_text (JStr s) = s"
| "scalar_text (JInt n) = int_string n"
| "scalar_text (JBool b) = (if b then ''true'' else ''false'')"
| "scalar_text _ = []"

fun render_flag :: "string \<times> Json \<Rightarrow> string list" where
  \<comment> \<open>\<open>--name=value\<close>, once per item of an array\<close>
  "render_flag (k, JArr vs) = map (\<lambda>v. flag_text k (scalar_text v)) vs"
| "render_flag (k, v) = [flag_text k (scalar_text v)]"

definition render_args :: "JsonObject \<Rightarrow> string list" where
  "render_args args = concat (map render_flag args)"

definition int64 :: "int \<Rightarrow> bool" where
  "int64 n \<longleftrightarrow> - (2 ^ 63) \<le> n \<and> n < 2 ^ 63"

fun fits :: "FlagSpec \<Rightarrow> Json \<Rightarrow> bool" where
  \<comment> \<open>a value of the type the schema declares; an array of strings has an item\<close>
  "fits f (JStr s) = (flagType f \<notin> {''boolean'', ''integer'', ''array''})"
| "fits f (JInt n) = (flagType f = ''integer'' \<and> int64 n)"
| "fits f (JBool b) = (flagType f = ''boolean'')"
| "fits f (JArr vs) = (flagType f = ''array'' \<and> itemType f \<noteq> ''integer'' \<and> vs \<noteq> [] \<and> (\<forall>v \<in> set vs. getAsString v \<noteq> None))"
| "fits f _ = False"

definition valid_args :: "ToolEntry \<Rightarrow> JsonObject \<Rightarrow> bool" where
  \<comment> \<open>declared members of the declared types, each once, and all the required ones\<close>
  "valid_args t args \<longleftrightarrow>
     distinct (map fst args) \<and>
     (\<forall>(k, v) \<in> set args. \<exists>f \<in> set (schemaFlags t). flagName f = k \<and> fits f v) \<and>
     (\<forall>f \<in> set (schemaFlags t). flagRequired f \<longrightarrow> flagName f \<in> fst ` set args)"

definition flag_name_ok :: "string \<Rightarrow> bool" where
  \<comment> \<open>a name that survives its spelling with hyphens\<close>
  "flag_name_ok k \<longleftrightarrow> CHR ''-'' \<notin> set k \<and> CHR ''='' \<notin> set k"

lemma canonical_hyphenated: "CHR ''-'' \<notin> set k \<Longrightarrow> canonicalToolName (hyphenated k) = k"
  by (induction k) (auto simp: canonicalToolName_def hyphenated_def)

lemma hyphenated_no_eq: "CHR ''='' \<notin> set k \<Longrightarrow> CHR ''='' \<notin> set (hyphenated k)"
  by (auto simp: hyphenated_def)

lemma split_eq_flag: "CHR ''='' \<notin> set k \<Longrightarrow> split_eq (k @ CHR ''='' # s) = (k, s)"
  unfolding split_eq_def by (induction k) auto

lemma find_by_key:
  assumes "f \<in> set fs" and "distinct (map key fs)"
  shows "List.find (\<lambda>x. key x = key f) fs = Some f"
  using assms by (induction fs) auto

lemma fresh_update: "k \<notin> fst ` set args \<Longrightarrow> AList.update k v args = args @ [(k, v)]"
  by (induction args) auto

locale flag_reader =
  fixes toInt :: "string \<Rightarrow> int option" and specs :: "FlagSpec list"
  assumes toInt: "int64 n \<Longrightarrow> toInt (int_string n) = Some n"
    and names: "distinct (map flagName specs)" "f \<in> set specs \<Longrightarrow> flag_name_ok (flagName f)"
begin

lemma flag_step:
  assumes "f \<in> set specs"
  shows "parse_flags toInt specs (flag_text (flagName f) s # rest) seen args =
     (if flagType f = ''boolean''
      then (case parse_bool s of
              None \<Rightarrow> Inl (''flag '' @ quoted (''--'' @ hyphenated (flagName f)) @ '' expects true or false'')
            | Some b \<Rightarrow> parse_flags toInt specs rest seen (AList.update (flagName f) (JBool b) args))
      else if flagType f = ''array''
      then (case flag_value toInt (hyphenated (flagName f)) (itemType f = ''integer'') s of
              Inl e \<Rightarrow> Inl e
            | Inr v \<Rightarrow> parse_flags toInt specs rest (flagName f # seen) (add_item (flagName f) seen args v))
      else (case flag_value toInt (hyphenated (flagName f)) (flagType f = ''integer'') s of
              Inl e \<Rightarrow> Inl e
            | Inr v \<Rightarrow> parse_flags toInt specs rest seen (AList.update (flagName f) v args)))"
proof -
  let ?k = "hyphenated (flagName f)"
  have ok: "CHR ''='' \<notin> set ?k" "canonicalToolName ?k = flagName f"
    using names(2)[OF assms] by (simp_all add: flag_name_ok_def hyphenated_no_eq canonical_hyphenated)
  have "split_eq (drop 2 (flag_text (flagName f) s)) = (?k, s)" "CHR ''='' \<in> set (drop 2 (flag_text (flagName f) s))"
    "starts_with (flag_text (flagName f) s) ''--''" "length (flag_text (flagName f) s) \<noteq> 2"
    using split_eq_flag[OF ok(1)] by (simp_all add: flag_text_def starts_with_def)
  then show ?thesis using ok(2) find_by_key[OF assms names(1)]
    by (simp add: parse_flags.simps(2) take_value_def Let_def cong: if_cong option.case_cong sum.case_cong)
qed

lemma array_flags:
  assumes f: "f \<in> set specs" "flagType f = ''array''" "itemType f \<noteq> ''integer''"
    and vs: "\<forall>v \<in> set vs. getAsString v \<noteq> None"
    and s: "flagName f \<in> set seen" "map_of args (flagName f) = Some (JArr us)"
  shows "\<exists>seen'. set seen' = set seen \<and>
     parse_flags toInt specs (map (\<lambda>v. flag_text (flagName f) (scalar_text v)) vs @ rest) seen args =
       parse_flags toInt specs rest seen' (AList.update (flagName f) (JArr (us @ vs)) args)"
  using vs s
proof (induction vs arbitrary: seen args us)
  case Nil
  have "AList.update (flagName f) (JArr us) args = args" if "map_of args (flagName f) = Some (JArr us)" for args
    using that by (induction args) auto
  with Nil show ?case by auto
next
  case (Cons v vs)
  from Cons.prems(1) obtain x where v: "v = JStr x" by (cases v) auto
  let ?args = "AList.update (flagName f) (JArr (us @ [v])) args"
  have step: "parse_flags toInt specs (flag_text (flagName f) (scalar_text v) # tail1) seen args =
      parse_flags toInt specs tail1 (flagName f # seen) ?args" for tail1
    using f Cons.prems(2,3) v by (subst flag_step[OF f(1)]) (simp add: flag_value_def add_item_def getArray_def)
  have "AList.update (flagName f) (JArr ((us @ [v]) @ vs)) ?args = AList.update (flagName f) (JArr (us @ v # vs)) args"
    by (induction args) auto
  with Cons.IH[of "flagName f # seen" ?args "us @ [v]"] Cons.prems show ?case
    by (auto simp: step umap_simps insert_absorb)
qed

lemma one_arg:
  assumes f: "f \<in> set specs" "fits f v" and new: "flagName f \<notin> set seen" "flagName f \<notin> fst ` set args"
  shows "\<exists>seen'. set seen' \<subseteq> insert (flagName f) (set seen) \<and>
     parse_flags toInt specs (render_flag (flagName f, v) @ rest) seen args =
       parse_flags toInt specs rest seen' (args @ [(flagName f, v)])"
proof (cases v)
  case (JArr vs)
  with f(2) obtain x ws where vs: "vs = JStr x # ws" "flagType f = ''array''" "itemType f \<noteq> ''integer''"
    "\<forall>v \<in> set ws. getAsString v \<noteq> None"
    by (cases vs; cases "hd vs") auto
  let ?args = "args @ [(flagName f, JArr [JStr x])]"
  have none: "map_of args (flagName f) = None" using new(2) by (simp add: map_of_eq_None_iff)
  have "parse_flags toInt specs (flag_text (flagName f) x # tail1) seen args =
      parse_flags toInt specs tail1 (flagName f # seen) ?args" for tail1
    using vs new by (subst flag_step[OF f(1)]) (simp add: flag_value_def add_item_def fresh_update)
  moreover have "AList.update (flagName f) (JArr ([JStr x] @ ws)) ?args = args @ [(flagName f, v)]"
    using new(2) JArr vs(1) by (induction args) auto
  moreover have "map_of ?args (flagName f) = Some (JArr [JStr x])" using none by (simp add: map_add_def)
  ultimately show ?thesis
    using array_flags[OF f(1) vs(2,3,4), of "flagName f # seen" ?args "[JStr x]" rest] JArr vs(1) by auto
qed (use assms in \<open>auto simp: flag_step[OF f(1)] flag_value_def toInt fresh_update parse_bool_def split: if_splits intro!: exI[of _ seen]\<close>)

lemma render_parses:
  assumes "distinct (map fst kvs)" and "\<forall>(k, v) \<in> set kvs. \<exists>f \<in> set specs. flagName f = k \<and> fits f v"
    and "set seen \<subseteq> fst ` set args" and "fst ` set args \<inter> fst ` set kvs = {}"
  shows "parse_flags toInt specs (render_args kvs) seen args = Inr (args @ kvs)"
  using assms
proof (induction kvs arbitrary: seen args)
  case (Cons kv kvs)
  obtain f v where f: "f \<in> set specs" "fits f v" and kv: "kv = (flagName f, v)"
    using Cons.prems(2) by (cases kv) auto
  have new: "flagName f \<notin> set seen" "flagName f \<notin> fst ` set args" using Cons.prems(3,4) kv by auto
  obtain seen' where s: "set seen' \<subseteq> insert (flagName f) (set seen)"
    "parse_flags toInt specs (render_flag (flagName f, v) @ render_args kvs) seen args =
       parse_flags toInt specs (render_args kvs) seen' (args @ [(flagName f, v)])"
    using one_arg[OF f new] by blast
  have "parse_flags toInt specs (render_args kvs) seen' (args @ [kv]) = Inr ((args @ [kv]) @ kvs)"
    using Cons.prems kv s(1) by (intro Cons.IH) auto
  with s(2) kv show ?case by (simp add: render_args_def)
qed (simp add: render_args_def)

end


subsection \<open>The registered tools\<close>

definition params_ok :: "string list \<Rightarrow> bool" where
  "params_ok ks \<longleftrightarrow> distinct ks \<and>
     list_all (\<lambda>k. CHR ''-'' \<notin> set k \<and> CHR ''='' \<notin> set k \<and> Option.is_none (value_target (hyphenated k))) ks"

lemma schema_params_ok:
  "params_ok (param_names schema_lookup_function)"
  "params_ok (param_names schema_get_callees)"
  "params_ok (param_names schema_get_callers)"
  "params_ok (param_names schema_find_call_chain)"
  "params_ok (param_names schema_search_functions)"
  "params_ok (param_names schema_get_class_hierarchy)"
  "params_ok (param_names schema_list_entry_points)"
  "params_ok (param_names schema_graph_summary)"
  "params_ok (param_names schema_list_callback_sites)"
  "params_ok (param_names schema_list_concurrency_entry_points)"
  "params_ok (param_names schema_query_exception_safety)"
  "params_ok (param_names schema_query_call_site_context)"
  "params_ok (param_names schema_query_raii_scopes_at_callsite)"
  "params_ok (param_names schema_query_throw_propagation)"
  "params_ok (param_names schema_query_all_path_contexts)"
  "params_ok (param_names schema_query_nearest_catches)"
  "params_ok (param_names schema_query_locks_held)"
  "params_ok (param_names schema_query_same_lock)"
  "params_ok (param_names schema_analyze_dead_code)"
  "params_ok (param_names schema_list_channels)"
  "params_ok (param_names schema_query_channel)"
  "params_ok (param_names schema_query_channels_for_function)"
  "params_ok (param_names schema_explain_ordering)"
  "params_ok (param_names schema_reindex_tu)"
  unfolding schema_params by code_simp+

lemma registered_params_ok: "list_all (\<lambda>t. params_ok (param_names (inputSchema t))) getRegisteredTools"
  by (simp add: getRegisteredTools_def complete_tool_def registerGraphTools_def registerExceptionTools_def
      registerLockTools_def registerDeadCodeTools_def registerChannelTools_def tool_def schema_params_ok)

lemma registered_names:
  "map toolName getRegisteredTools =
     [''lookup_function'',
      ''get_callees'',
      ''get_callers'',
      ''find_call_chain'',
      ''search_functions'',
      ''get_class_hierarchy'',
      ''list_entry_points'',
      ''graph_summary'',
      ''list_callback_sites'',
      ''list_concurrency_entry_points'',
      ''query_exception_safety'',
      ''query_call_site_context'',
      ''query_raii_scopes_at_callsite'',
      ''query_throw_propagation'',
      ''query_all_path_contexts'',
      ''query_nearest_catches'',
      ''query_locks_held'',
      ''query_same_lock'',
      ''analyze_dead_code'',
      ''list_channels'',
      ''query_channel'',
      ''query_channels_for_function'',
      ''explain_ordering'',
      ''reindex_tu'']"
  by (simp add: getRegisteredTools_def complete_tool_def registerGraphTools_def registerExceptionTools_def
      registerLockTools_def registerDeadCodeTools_def registerChannelTools_def tool_def)

definition tool_name_ok :: "string \<Rightarrow> bool" where
  "tool_name_ok n \<longleftrightarrow> n \<noteq> [] \<and> canonicalToolName (hyphenated n) = n \<and>
     hyphenated n \<notin> set [''help'', ''--help'', ''-h'', ''call'', ''tools'', ''info'', ''batch'', ''dump'']"

lemma registered_names_ok:
  "distinct (map toolName getRegisteredTools)" "list_all tool_name_ok (map toolName getRegisteredTools)"
  unfolding registered_names by code_simp+

lemma find_tool_registered:
  assumes "t \<in> set getRegisteredTools"
  shows "find_tool getRegisteredTools (toolName t) = Some t"
proof -
  have keep: "fold (\<lambda>t found. if toolName t = n then Some t else found) ts acc = acc"
    if "n \<notin> toolName ` set ts" for n ts acc
    using that by (induction ts arbitrary: acc) auto
  obtain ts us where split: "getRegisteredTools = ts @ t # us" using assms by (meson split_list)
  have "toolName t \<notin> toolName ` set us" using registered_names_ok(1) unfolding split by auto
  then show ?thesis unfolding find_tool_def split by (simp add: keep)
qed

lemma sort_key_map_names: "map flagName (sort_key flagName fs) = sort (map flagName fs)"
proof (induction fs)
  case (Cons f fs)
  have "map flagName (insort_key flagName f gs) = insort (flagName f) (map flagName gs)" for gs
    by (induction gs) auto
  with Cons show ?case by simp
qed simp

lemma flag_names_sorted: "map flagName (schemaFlags t) = sort (param_names (inputSchema t))"
proof (cases "inputSchema t")
  case (JObj ms)
  then show ?thesis
    by (cases "getObject ms ''properties''") (simp_all add: schemaFlags_def sort_key_map_names comp_def)
qed (simp_all add: schemaFlags_def)

lemma registered_flags:
  assumes "t \<in> set getRegisteredTools"
  shows "distinct (map flagName (schemaFlags t))"
    and "f \<in> set (schemaFlags t) \<Longrightarrow> flag_name_ok (flagName f) \<and> value_target (hyphenated (flagName f)) = None"
proof -
  have ok: "params_ok (param_names (inputSchema t))"
    using registered_params_ok assms by (simp add: list_all_iff)
  then show "distinct (map flagName (schemaFlags t))" by (simp add: flag_names_sorted params_ok_def)
  assume "f \<in> set (schemaFlags t)"
  then have "flagName f \<in> set (param_names (inputSchema t))" using set_flag_names by blast
  with ok show "flag_name_ok (flagName f) \<and> value_target (hyphenated (flagName f)) = None"
    by (auto simp: params_ok_def flag_name_ok_def list_all_iff Option.is_none_def)
qed

lemma reader_registered:
  assumes "t \<in> set getRegisteredTools" and "\<And>n. int64 n \<Longrightarrow> toInt (int_string n) = Some n"
  shows "flag_reader toInt (schemaFlags t)"
  using registered_flags[OF assms(1)] assms(2) by unfold_locales auto

text \<open>C31: Any arguments that fit a tool's schema can be given as flags: spelled as \<open>--name=value\<close>, an
  array once per item, they are parsed back to exactly these arguments, whatever characters the
  strings contain.\<close>

theorem flags_roundtrip:
  assumes "t \<in> set getRegisteredTools" and "valid_args t args"
    and "\<And>n. int64 n \<Longrightarrow> toInt (int_string n) = Some n"
  shows "parseToolArgs toInt t (render_args args) [] = Inr args"
proof -
  have "parse_flags toInt (schemaFlags t) (render_args args) [] [] = Inr args"
    using flag_reader.render_parses[OF reader_registered[OF assms(1,3)], of args "[]" "[]"] assms(2)
    by (simp add: valid_args_def)
  moreover have "List.find (\<lambda>f. flagRequired f \<and> map_of args (flagName f) = None) (schemaFlags t) = None"
    using assms(2) by (auto simp: find_None_iff valid_args_def map_of_eq_None_iff)
  ultimately show ?thesis by (simp add: parseToolArgs_def)
qed

subsection \<open>Reading decimal numbers\<close>

definition decimal_int :: "string \<Rightarrow> int option" where
  \<comment> \<open>an optional minus sign and digits, within 64 bits\<close>
  "decimal_int s =
     (let neg = take 1 s = ''-''; ds = (if neg then drop 1 s else s);
          n = (if neg then - int (digits_value ds) else int (digits_value ds)) in
      if isDigits ds \<and> - (2 ^ 63) \<le> n \<and> n < 2 ^ 63 then Some n else None)"

lemma nat_string_digits: "isDigits (nat_string n)"
proof (induction n rule: nat_string.induct)
  case (1 n)
  have digit: "isDigits [char_of (48 + m)]" if "m < 10" for m :: nat using that by (simp add: isDigits_def)
  have "isDigits (xs @ ys)" if "isDigits xs" "isDigits ys" for xs ys using that by (simp add: isDigits_def)
  with 1 digit show ?case by (subst nat_string.simps) simp
qed

lemma nat_string_no_minus: "take 1 (nat_string n) \<noteq> ''-''"
  using nat_string_digits[of n] by (cases "nat_string n") (auto simp: isDigits_def)

lemma decimal_int_string: "int64 n \<Longrightarrow> decimal_int (int_string n) = Some n"
  using nat_string_no_minus[of "nat n"]
  by (auto simp: decimal_int_def int_string_def int64_def nat_string_digits nat_string_value Let_def)

definition get_callees_tool :: ToolEntry where
  "get_callees_tool = complete_tool
     (tool ''get_callees'' desc_get_callees schema_get_callees (uncached handleGetCallees))"

lemma get_callees_registered: "get_callees_tool \<in> set getRegisteredTools"
  by (simp add: getRegisteredTools_def registerGraphTools_def get_callees_tool_def)

interpretation callee_flags: flag_reader decimal_int "schemaFlags get_callees_tool"
  by (rule reader_registered[OF get_callees_registered decimal_int_string])

definition callee_args :: JsonObject where
  "callee_args = [(''name'', JStr ''a=b --x''), (''edge_kinds'', JArr [JStr ''DirectCall'', JStr ''LambdaCall''])]"

lemma callee_args_valid: "valid_args get_callees_tool callee_args"
proof -
  have flags: "flag_spec req (k, stringProp d) = \<lparr>flagName = k, flagType = ''string'', itemType = [],
      flagDescription = d, flagRequired = k \<in> set req\<rparr>"
    "flag_spec req (k, stringArrayProp d) = \<lparr>flagName = k, flagType = ''array'', itemType = ''string'',
      flagDescription = d, flagRequired = k \<in> set req\<rparr>" for req k d
    by (simp_all add: flag_spec_def stringProp_def stringArrayProp_def string_or_def getString_def getObject_def Let_def)
  have "schemaFlags get_callees_tool = sort_key flagName (map (flag_spec [])
      (case getObject (the (getAsObject schema_get_callees)) ''properties'' of Some props \<Rightarrow> props | None \<Rightarrow> []))"
    by (simp add: schemaFlags_def get_callees_tool_def complete_tool_def tool_def schema_get_callees_def
        object_schema_def getObject_def string_items_def getArray_def)
  then have "set (schemaFlags get_callees_tool) = flag_spec [] ` set
      (case getObject (the (getAsObject schema_get_callees)) ''properties'' of Some props \<Rightarrow> props | None \<Rightarrow> [])"
    by simp
  then show ?thesis
    by (auto simp: valid_args_def callee_args_def schema_get_callees_def object_schema_def getObject_def flags
        identityRefinementProps_def)
qed

theorem flags_roundtrip_witness:
  "parseToolArgs decimal_int get_callees_tool (render_args callee_args) [] = Inr callee_args"
  by (rule flags_roundtrip[OF get_callees_registered callee_args_valid decimal_int_string])

subsection \<open>One verb, one tool\<close>

lemma render_flag_shape: "a \<in> set (render_flag (k, v)) \<Longrightarrow> \<exists>s. a = flag_text k s"
  by (cases v) auto

lemma switch_no_eq: "CHR ''='' \<in> set a \<Longrightarrow> switch_target acceptFiles a = None"
proof -
  assume e: "CHR ''='' \<in> set a"
  have "\<forall>x \<in> set [''-h'', ''--help'', ''-v'', ''--verbose'', ''--pretty'', ''--files'']. CHR ''='' \<notin> set x" by simp
  then have "a \<notin> set [''-h'', ''--help'', ''-v'', ''--verbose'', ''--pretty'', ''--files'']" using e by blast
  then show ?thesis by (simp add: switch_target_def)
qed

lemma common_passes_flag:
  assumes "flag_name_ok k" and "value_target (hyphenated k) = None"
  shows "split_common acceptFiles (flag_text k s # rest) o1 =
     split_common acceptFiles rest (coRest_update (\<lambda>vs. vs @ [flag_text k s]) o1)"
proof -
  have e: "CHR ''='' \<notin> set (hyphenated k)" using assms(1) by (simp add: flag_name_ok_def hyphenated_no_eq)
  have h: "hyphenated (hyphenated k) = hyphenated k" by (simp add: hyphenated_def)
  have "split_eq (drop 2 (flag_text k s)) = (hyphenated k, s)" "starts_with (flag_text k s) ''--''"
    "switch_target acceptFiles (flag_text k s) = None"
    using split_eq_flag[OF e] by (simp_all add: flag_text_def starts_with_def switch_no_eq)
  then show ?thesis using assms(2) h by (simp add: split_common.simps(2) Let_def)
qed

lemma common_passes_flags:
  assumes "\<forall>a \<in> set as. \<exists>k s. a = flag_text k s \<and> flag_name_ok k \<and> value_target (hyphenated k) = None"
  shows "split_common acceptFiles as o1 = Inr (coRest_update (\<lambda>vs. vs @ as) o1)"
  using assms
proof (induction as arbitrary: o1)
  case (Cons a as)
  then obtain k s where "a = flag_text k s" "flag_name_ok k" "value_target (hyphenated k) = None" by auto
  with Cons show ?case by (simp add: common_passes_flag comp_def)
qed simp

lemma render_args_pass:
  assumes "t \<in> set getRegisteredTools" and "valid_args t args"
  shows "split_common acceptFiles (render_args args) o1 = Inr (coRest_update (\<lambda>vs. vs @ render_args args) o1)"
proof (rule common_passes_flags, rule ballI)
  fix a
  assume "a \<in> set (render_args args)"
  then obtain k v where kv: "(k, v) \<in> set args" "a \<in> set (render_flag (k, v))" by (auto simp: render_args_def)
  from kv(1) assms(2) obtain f where f: "f \<in> set (schemaFlags t)" "flagName f = k" by (auto simp: valid_args_def)
  from registered_flags(2)[OF assms(1) f(1)] have "flag_name_ok k \<and> value_target (hyphenated k) = None"
    unfolding f(2) .
  moreover obtain s where "a = flag_text k s" using render_flag_shape[OF kv(2)] by blast
  ultimately show "\<exists>k s. a = flag_text k s \<and> flag_name_ok k \<and> value_target (hyphenated k) = None"
    by (intro exI[of _ k] exI[of _ s]) simp
qed

text \<open>C32: Running the verb of a tool on a saved index, with the arguments spelled as flags, prints what
  the tool answers on that index and these arguments, and exits with the code of that answer; of the
  index it decodes the sections the tool declares.\<close>

theorem verb_answers_tool:
  assumes "t \<in> set getRegisteredTools" and "toolHandler t = Some h" and "valid_args t args"
    and "\<And>n. int64 n \<Longrightarrow> cwInt w (int_string n) = Some n"
    and "path \<noteq> []" and "load_snapshot ReadOnly (needs t) path (cwFiles w) = Loaded snap"
  shows "runMegascopeQueryVerb w (hyphenated (toolName t) # (''--index='' @ path) # render_args args) stdin_text =
     Some (emitToolResult (cwPrinter w)
       (fst (h args (query_context no_opts snap (cwRegistry w)) (Some empty_cache)))
       (recordsKey t) Json_format False (hyphenated (toolName t)))"
proof -
  let ?verb = "hyphenated (toolName t)"
  let ?common = "no_opts\<lparr>coIndex := path, coRest := render_args args\<rparr>"
  have n: "tool_name_ok (toolName t)" using registered_names_ok(2) assms(1) by (simp add: list_all_iff)
  then have tool: "verb_tool ?verb rest = Inr (?verb, toolName t, rest)" for rest
    by (simp add: verb_tool_def tool_name_ok_def)
  have "splitCommonFlags ((''--index='' @ path) # render_args args) acceptFiles =
      split_common acceptFiles (render_args args) (no_opts\<lparr>coIndex := path\<rparr>)" for acceptFiles
    by (simp add: splitCommonFlags_def split_common.simps(2) switch_no_eq starts_with_def split_eq_def
        take_value_def hyphenated_def value_target_def Let_def)
  then have common: "splitCommonFlags ((''--index='' @ path) # render_args args) acceptFiles = Inr ?common" for acceptFiles
    using render_args_pass[OF assms(1,3)] by (simp add: no_opts_def)
  have args: "tool_arguments w ?verb (Some t) ?common = Inr args"
    using flags_roundtrip[OF assms(1,3,4)] by (simp add: tool_arguments_def no_opts_def)
  have needed: "needed_sections ?verb (Some t) = needs t"
    using n by (simp add: needed_sections_def tool_name_ok_def)
  have "map_of (cwFiles w) path \<noteq> None"
    using assms(6) by (auto simp: load_snapshot_def split: option.splits)
  then have "openIndex w ?common ?verb (needs t) = Opened snap []"
    using assms(5,6) by (simp add: openIndex_def stray_flag_def no_opts_def index_path_def resolveIndexPath_def Let_def)
  moreover have "\<not> ephemeral ?common" "\<not> coHelp ?common" "coFormat ?common = []" "query_context ?common snap r = query_context no_opts snap r" for r
    by (simp_all add: ephemeral_def no_opts_def query_context_def query_entry_points_def)
  moreover have "answer_verb w ?verb (Some t) ?common Json_format args stdin_text snap (cwRegistry w) =
      emitToolResult (cwPrinter w) (fst (h args (query_context no_opts snap (cwRegistry w)) (Some empty_cache)))
        (recordsKey t) Json_format False ?verb"
    using n assms(2) calculation(5) by (simp add: answer_verb_def tool_name_ok_def no_opts_def Let_def)
  ultimately have "run_verb w ?verb (Some t) ?common stdin_text =
      Some (emitToolResult (cwPrinter w) (fst (h args (query_context no_opts snap (cwRegistry w)) (Some empty_cache)))
        (recordsKey t) Json_format False ?verb)"
    using n args needed
    by (simp add: run_verb_def parseFormat_def add_err_def tool_name_ok_def split: prod.split)
  then show ?thesis
    using n tool common find_tool_registered[OF assms(1)] assms(2)
    by (simp add: runMegascopeQueryVerb_def tool_name_ok_def Let_def)
qed

definition demo_world :: CliWorld where
  \<comment> \<open>one saved index; no JSON is read and nothing is baked\<close>
  "demo_world =
     \<lparr>cwInt = decimal_int, cwUnsigned = (\<lambda>_. None), cwParse = (\<lambda>_. Inl []),
      cwPrinter = \<lparr>compact = (\<lambda>_. ''{}''), indented = (\<lambda>_. ''{}'')\<rparr>,
      cwJoinPath = (\<lambda>p ps. join ''/'' (p # ps)), cwEnvIndex = None,
      cwFiles = [(''i.vycs'', emit_snapshot demo (scan demo_log) demo_meta (register_sites demo_sites))],
      cwSources = \<lparr>swCanonical = id, swReadFile = (\<lambda>_. Inl []), swLines = split_on CHR 0x0A,
        swRegex = (\<lambda>_. Inl []), swExtension = id, swRegularFile = (\<lambda>_. True)\<rparr>,
      cwRegex = (\<lambda>_. None), cwDatabase = (\<lambda>_. Inl []), cwRegistry = empty_registry,
      cwBake = (\<lambda>_ _ _ _. (demo, scan demo_log, register_sites demo_sites)), cwTimings = []\<rparr>"

theorem verb_answers_tool_witness:
  "runMegascopeQueryVerb demo_world (hyphenated (toolName get_callees_tool) # (''--index='' @ ''i.vycs'') # render_args callee_args) [] =
     Some (emitToolResult (cwPrinter demo_world)
       (fst (uncached handleGetCallees callee_args
          (query_context no_opts (loaded_data ReadOnly (needs get_callees_tool) demo (scan demo_log) demo_meta (register_sites demo_sites))
             (cwRegistry demo_world)) (Some empty_cache)))
       (recordsKey get_callees_tool) Json_format False (hyphenated (toolName get_callees_tool)))"
proof (rule verb_answers_tool[OF get_callees_registered _ callee_args_valid])
  show "toolHandler get_callees_tool = Some (uncached handleGetCallees)"
    by (simp add: get_callees_tool_def complete_tool_def tool_def)
  show "load_snapshot ReadOnly (needs get_callees_tool) ''i.vycs'' (cwFiles demo_world) =
      Loaded (loaded_data ReadOnly (needs get_callees_tool) demo (scan demo_log) demo_meta (register_sites demo_sites))"
    by (simp add: load_snapshot_def demo_world_def load_saved[OF built_demo built_demo_scan(1) built_register demo_fits])
qed (simp_all add: demo_world_def decimal_int_string)

subsection \<open>Two surprises\<close>

text \<open>The value of a tool flag that looks like a switch is taken by the common flags.\<close>

lemma value_taken_for_switch:
  "splitCommonFlags [''--query'', ''-v''] False = Inr (no_opts\<lparr>coVerbose := True, coRest := [''--query'']\<rparr>)"
  by code_simp

text \<open>A \<open>--site\<close> given to \<open>get-callees\<close> on a saved index is looked up in a section that was not decoded.\<close>

lemma site_flag_lost:
  assumes "getString args ''usr'' = None" and "getString args ''site'' = Some s"
  shows "isErrorResult (handleGetCallees args
     (query_context no_opts (loaded_data ReadOnly (needs get_callees_tool) g cf m ch) r))"
proof -
  let ?ctx = "query_context no_opts (loaded_data ReadOnly (needs get_callees_tool) g cf m ch) r"
  have "tcIndex ?ctx = empty_index"
    using site_tool_needs by (simp add: query_context_def loaded_data_def wants_def get_callees_tool_def)
  then obtain msg where "resolveIdentity args ?ctx ''name'' ''usr'' = Respond (errorResult msg)"
    using site_without_contexts[of ?ctx args "''usr''" s "''name''"] assms by auto
  then show ?thesis by (simp add: handleGetCallees_def with_identity_def json_simps)
qed

text \<open>\<open>find_call_chain\<close> reads \<open>execution_contexts\<close> although its schema does not declare it; the command
  line, which knows a tool by its schema, refuses the flag.\<close>

lemma undeclared_filter_read:
  "isErrorResult (handleFindCallChain [(''to_usr'', JStr u), (''execution_contexts'', JArr [JStr ''x''])] ctx)"
  "''execution_contexts'' \<notin> set (param_names schema_find_call_chain)"
proof -
  have "resolveIdentity [(''to_usr'', JStr u), (''execution_contexts'', JArr [JStr ''x''])] ctx ''to'' ''to_usr'' = Resolved u"
    by (simp add: resolveIdentity_def json_simps)
  moreover have "\<exists>e. parseEdgeFilter [(''to_usr'', JStr u), (''execution_contexts'', JArr [JStr ''x''])] = Inl e"
    by (simp add: parseEdgeFilter_def parse_confidence_args_def json_simps parseExecutionContext_def)
  ultimately show "isErrorResult (handleFindCallChain [(''to_usr'', JStr u), (''execution_contexts'', JArr [JStr ''x''])] ctx)"
    by (auto simp: handleFindCallChain_def with_identity_def json_simps)
qed (simp add: schema_params)

text \<open>A batch of requests on one loaded index against the same requests one by one.\<close>

definition request_args :: "CliWorld \<Rightarrow> string \<Rightarrow> JsonObject option" where
  \<comment> \<open>the arguments of a line that holds a request\<close>
  "request_args w line =
     (case cwParse w line of Inl _ \<Rightarrow> None | Inr v \<Rightarrow> map_option batch_args (getAsObject v))"

definition requests :: "string \<Rightarrow> (nat \<times> string) list" where
  \<comment> \<open>the lines that are not blank, with their numbers\<close>
  "requests stdin_text = filter (\<lambda>(i, line). trim line \<noteq> []) (enumerate 1 (getlines stdin_text))"

definition clean_lines :: "CliWorld \<Rightarrow> ToolContext \<Rightarrow> string list \<Rightarrow> bool" where
  "clean_lines w ctx ls \<longleftrightarrow>
     (\<forall>line \<in> set ls. case request_args w line of Some args \<Rightarrow> clean_query (dead_args args ctx) | None \<Rightarrow> True)"

lemma tools_by_name_registered:
  assumes "map_of (tools_by_name tools) n = Some t"
  shows "t \<in> set tools"
proof -
  have "map_of (fold (\<lambda>t m. AList.update (toolName t) t m) ts m) n = Some t \<Longrightarrow> t \<in> set ts \<or> map_of m n = Some t"
    for ts m
  proof (induction ts arbitrary: m)
    case (Cons u ts)
    then have "t \<in> set ts \<or> map_of (AList.update (toolName u) u m) n = Some t" by simp
    then show ?case by (auto simp: umap_simps split: if_splits)
  qed simp
  from this[of tools "[]"] assms show ?thesis by (simp add: tools_by_name_def)
qed

lemma batch_line_cached:
  assumes ok: "cache_ok ctx c" and clean: "clean_lines w ctx [line]"
  shows "cached_as ctx (fst (batch_line w (tools_by_name getRegisteredTools) ctx i line None))
     (batch_line w (tools_by_name getRegisteredTools) ctx i line (Some c))"
proof -
  have keep: "cached_as ctx r (r, Some c)" for r using ok by (simp add: cached_as_def)
  show ?thesis
  proof (cases "cwParse w line")
    case (Inr v)
    show ?thesis
    proof (cases "getAsObject v")
      case (Some req)
      then have q: "clean_query (dead_args (batch_args req) ctx)"
        using clean Inr by (simp add: clean_lines_def request_args_def)
      have run: "cached_as ctx (fst (h (batch_args req) ctx None)) (h (batch_args req) ctx (Some c))"
        if "map_of (tools_by_name getRegisteredTools) n = Some entry" "toolHandler entry = Some h" for n entry h
        using that tools_by_name_registered by (intro handler_cached[OF _ ok q]) blast
      show ?thesis using Inr Some keep
        by (auto simp: batch_line_def Let_def split_beta cached_as_def split: option.split dest: run)
    qed (use Inr keep in \<open>simp add: batch_line_def\<close>)
  qed (use keep in \<open>simp add: batch_line_def\<close>)
qed

lemma batch_lines_cached:
  assumes "cache_ok ctx c" and "clean_lines w ctx ls"
  shows "batch_lines w (tools_by_name getRegisteredTools) ctx n ls (Some c) =
     concat (map (\<lambda>(i, line). writeJson (cwPrinter w)
         (fst (batch_line w (tools_by_name getRegisteredTools) ctx i line None)) False)
       (filter (\<lambda>(i, line). trim line \<noteq> []) (enumerate (Suc n) ls)))"
  using assms
proof (induction ls arbitrary: n c)
  case (Cons line ls)
  have clean: "clean_lines w ctx [line]" "clean_lines w ctx ls" using Cons.prems(2) by (simp_all add: clean_lines_def)
  show ?case
  proof (cases "trim line = []")
    case False
    obtain c1 where c1: "batch_line w (tools_by_name getRegisteredTools) ctx (Suc n) line (Some c) =
        (fst (batch_line w (tools_by_name getRegisteredTools) ctx (Suc n) line None), Some c1)" "cache_ok ctx c1"
      using batch_line_cached[OF Cons.prems(1) clean(1), of "Suc n"] by (auto simp: cached_as_def prod_eq_iff)
    with False Cons.IH[OF c1(2) clean(2), of "Suc n"] show ?thesis by simp
  qed (use Cons.IH[OF Cons.prems(1) clean(2), of "Suc n"] in simp)
qed simp

text \<open>C33: \<open>batch\<close> answers every line that is not blank, in order and one line each, with what a fresh
  call without a cache answers, although all its calls share one cache; blank lines are skipped but
  count in the line numbers of errors.  It holds while the entry points and prefixes of the
  dead-code requests are free of the key separator.\<close>

theorem batch_answers_each_line:
  assumes "clean_lines w ctx (getlines stdin_text)"
  shows "runBatch w getRegisteredTools ctx stdin_text (Some empty_cache) =
     (kExitResults,
      concat (map (\<lambda>(i, line). writeJson (cwPrinter w)
          (fst (batch_line w (tools_by_name getRegisteredTools) ctx i line None)) False) (requests stdin_text)),
      [])"
  unfolding runBatch_def requests_def by (simp add: batch_lines_cached[OF cache_ok_empty assms])

definition batch_world :: CliWorld where
  \<comment> \<open>every line reads as the same request\<close>
  "batch_world =
     \<lparr>cwInt = (\<lambda>_. None), cwUnsigned = (\<lambda>_. None), cwParse = (\<lambda>_. Inr (JObj [(''tool'', JStr ''graph-summary'')])),
      cwPrinter = \<lparr>compact = (\<lambda>_. ''{}''), indented = (\<lambda>_. ''{}'')\<rparr>,
      cwJoinPath = (\<lambda>p ps. p), cwEnvIndex = None, cwFiles = [],
      cwSources = \<lparr>swCanonical = id, swReadFile = (\<lambda>_. Inl []), swLines = split_on CHR 0x0A,
        swRegex = (\<lambda>_. Inl []), swExtension = id, swRegularFile = (\<lambda>_. True)\<rparr>,
      cwRegex = (\<lambda>_. None), cwDatabase = (\<lambda>_. Inl []), cwRegistry = empty_registry,
      cwBake = (\<lambda>_ _ _ _. (demo_calls, empty_index, empty_channels)), cwTimings = []\<rparr>"

theorem batch_answers_each_line_witness:
  "runBatch batch_world getRegisteredTools demo_ctx ''{}'' (Some empty_cache) =
     (kExitResults,
      concat (map (\<lambda>(i, line). writeJson (cwPrinter batch_world)
          (fst (batch_line batch_world (tools_by_name getRegisteredTools) demo_ctx i line None)) False) (requests ''{}'')),
      [])"
proof (rule batch_answers_each_line)
  show "clean_lines batch_world demo_ctx (getlines ''{}'')"
    by (simp add: clean_lines_def getlines_def request_args_def batch_world_def batch_args_def getObject_def
        clean_query_def dead_args_def entry_points_arg_def string_items_def json_simps demo_ctx_def bar_free_def)
qed

text \<open>
  The tab-separated output loses nothing: a table can be cut into lines and cells again, and an
  escaped string can be read back.
\<close>

fun tsvUnescape :: "string \<Rightarrow> string" where
  "tsvUnescape [] = []"
| "tsvUnescape [c] = [c]"
| "tsvUnescape (c # d # cs) =
     (if c = CHR 0x5C
      then (if d = CHR ''t'' then CHR 0x09 else if d = CHR ''n'' then CHR 0x0A
            else if d = CHR ''r'' then CHR 0x0D else d) # tsvUnescape cs
      else c # tsvUnescape (d # cs))"

definition one_cell :: "string \<Rightarrow> bool" where
  \<comment> \<open>no tab and no newline\<close>
  "one_cell s \<longleftrightarrow> CHR 0x09 \<notin> set s \<and> CHR 0x0A \<notin> set s"

lemma unescape_escape: "tsvUnescape (tsvEscape s) = s"
proof (induction s)
  case (Cons c s)
  have plain: "tsvUnescape (c # cs) = c # tsvUnescape cs" if "c \<noteq> CHR 0x5C" for cs
    using that by (cases cs) auto
  show ?case using Cons plain by (auto simp: tsvEscape_def escape_char_def)
qed (simp add: tsvEscape_def)

lemma escaped_one_cell: "one_cell (tsvEscape s)"
  by (auto simp: one_cell_def tsvEscape_def escape_char_def split: if_splits)

lemma cell_one_cell:
  assumes "\<And>j. one_cell (compact pr j)"
  shows "one_cell (tsv_cell pr v)"
  using assms by (auto simp: tsv_cell_def escaped_one_cell split: option.split Json.split) (auto simp: one_cell_def)

lemma split_join_tab:
  assumes "ws \<noteq> []" and "\<forall>x \<in> set ws. CHR 0x09 \<notin> set x"
  shows "split_on CHR 0x09 (join tab ws) = ws"
  using assms
proof (induction ws)
  case (Cons x ws)
  then show ?case
    by (cases ws) (simp_all add: split_on_free tab_def split_on_append[of _ x, simplified])
qed simp

lemma split_lines:
  assumes "\<forall>x \<in> set ls. CHR 0x0A \<notin> set x"
  shows "butlast (split_on CHR 0x0A (concat (map (\<lambda>x. x @ newline) ls))) = ls"
  using assms
proof (induction ls)
  case (Cons x ls)
  then show ?case by (simp add: newline_def split_on_append split_on_free butlast_append)
qed (simp add: newline_def)

lemma join_one_line: "\<forall>x \<in> set ws. CHR 0x0A \<notin> set x \<Longrightarrow> CHR 0x0A \<notin> set (join tab ws)"
proof (induction ws)
  case (Cons x ws)
  then show ?case by (cases ws) (auto simp: tab_def)
qed simp

definition cells_of :: "string \<Rightarrow> string list list" where
  \<comment> \<open>the lines of a table, each cut at its tabs\<close>
  "cells_of s = map (split_on CHR 0x09) (butlast (split_on CHR 0x0A s))"

text \<open>C34: A table of records can be read back from its tab-separated form: cut at newlines and tabs it
  gives the sorted member names and, per record and in order, the cell of every member; the cell of a
  string unescapes to that string.  This needs compact JSON and the member names to contain no tab
  and no newline.\<close>

theorem tsv_reads_back:
  assumes "\<And>j. one_cell (compact pr j)" and "\<And>c. c \<in> set (tsv_columns rows) \<Longrightarrow> one_cell c"
    and "tsv_columns rows \<noteq> []"
  shows "cells_of (tsv_table pr rows) =
       tsv_columns rows # map (\<lambda>r. map (\<lambda>c. tsv_cell pr (case getAsObject r of Some obj \<Rightarrow> map_of obj c | None \<Rightarrow> None))
                                      (tsv_columns rows)) rows \<and>
     tsvUnescape (tsv_cell pr (Some (JStr s))) = s"
proof -
  let ?cols = "tsv_columns rows"
  let ?cell = "\<lambda>r c. tsv_cell pr (case getAsObject r of Some obj \<Rightarrow> map_of obj c | None \<Rightarrow> None)"
  let ?lines = "join tab ?cols # map (tsv_row pr ?cols) rows"
  have "list_ex (\<lambda>r. getAsObject r \<noteq> None) rows"
  proof (rule ccontr)
    assume "\<not> list_ex (\<lambda>r. getAsObject r \<noteq> None) rows"
    then have none: "concat (map (\<lambda>r. case getAsObject r of Some obj \<Rightarrow> map fst obj | None \<Rightarrow> []) rows) = []"
      by (auto simp: list_ex_iff)
    have "?cols = []" unfolding tsv_columns_def none by (simp add: std_set_def)
    with assms(3) show False ..
  qed
  then have table: "tsv_table pr rows = concat (map (\<lambda>x. x @ newline) ?lines)"
    by (simp add: tsv_table_def Let_def comp_def)
  have row: "tsv_row pr ?cols r = join tab (map (?cell r) ?cols)" for r by (simp add: tsv_row_def)
  have clean: "one_cell (?cell r c)" for r c by (rule cell_one_cell[OF assms(1)])
  have "\<forall>x \<in> set ?lines. CHR 0x0A \<notin> set x"
    using assms(2) clean by (auto simp: row one_cell_def intro!: join_one_line)
  then have "cells_of (tsv_table pr rows) = map (split_on CHR 0x09) ?lines"
    unfolding cells_of_def table by (simp only: split_lines)
  also have "\<dots> = ?cols # map (\<lambda>r. map (?cell r) ?cols) rows"
    using assms(2,3) clean by (auto simp: row one_cell_def intro!: split_join_tab)
  finally show ?thesis by (simp add: tsv_cell_def unescape_escape)
qed

definition demo_printer :: JsonPrinter where
  "demo_printer = \<lparr>compact = (\<lambda>_. ''1''), indented = (\<lambda>_. ''1'')\<rparr>"

definition demo_rows :: "Json list" where
  "demo_rows = [JObj [(''b'', JInt 1), (''a'', JStr [CHR 0x09])], JObj [(''a'', JNull)]]"

theorem tsv_reads_back_witness:
  "cells_of (tsv_table demo_printer demo_rows) =
       tsv_columns demo_rows
         # map (\<lambda>r. map (\<lambda>c. tsv_cell demo_printer (case getAsObject r of Some obj \<Rightarrow> map_of obj c | None \<Rightarrow> None))
                       (tsv_columns demo_rows)) demo_rows \<and>
     tsvUnescape (tsv_cell demo_printer (Some (JStr [CHR 0x09]))) = [CHR 0x09]"
proof (rule tsv_reads_back)
  have cols: "tsv_columns demo_rows = [''a'', ''b'']" by code_simp
  show "one_cell (compact demo_printer j)" for j by (simp add: demo_printer_def one_cell_def)
  show "one_cell c" if "c \<in> set (tsv_columns demo_rows)" for c using that by (auto simp: cols one_cell_def)
  show "tsv_columns demo_rows \<noteq> []" by (simp add: cols)
qed

end
