(* ===== verification/McpServer.thy ===== *)
theory McpServer
  imports CliArgs CliRunner
begin

text \<open>
  JSON-RPC over stdin and stdout (src/mcp/McpProtocol.cpp).  stdin is the list of the bytes that are
  still to be read, stdout the list of the bytes written; \<open>g_framing\<close> is the third field of the
  state.  The parser and the printer of \<open>llvm::json\<close> are arguments; the log on stderr is left out.
\<close>

datatype McpFraming = LineFraming | LengthFraming

record McpRequest =
  rqId :: Json
  rqMethod :: string
  rqParams :: JsonObject

record McpIo =
  ioIn :: string
  ioFraming :: McpFraming
  ioOut :: string

definition kParseError :: int where "kParseError = -32700"
definition kInvalidRequest :: int where "kInvalidRequest = -32600"
definition kMethodNotFound :: int where "kMethodNotFound = -32601"

definition isNotification :: "McpRequest \<Rightarrow> bool" where
  "isNotification req \<longleftrightarrow> rqId req = JNull"

subsection \<open>Framing\<close>

definition carriage :: char where
  "carriage = CHR 0x0D"

fun readHeaderLine :: "string \<Rightarrow> string \<Rightarrow> (string \<times> string) option" where
  \<comment> \<open>the line and the input after it; the second argument is the line so far\<close>
  "readHeaderLine [] line = None"
| "readHeaderLine (ch # rest) line =
     (if ch = carriage
      then (if rest \<noteq> [] \<and> hd rest = CHR 0x0A then Some (line, tl rest)
            else readHeaderLine rest (line @ [carriage]))
      else if ch = CHR 0x0A then Some (line, rest)
      else readHeaderLine rest (line @ [ch]))"

definition is_space :: "char \<Rightarrow> bool" where
  \<comment> \<open>\<open>isspace\<close> in the C locale\<close>
  "is_space c \<longleftrightarrow> c = CHR '' '' \<or> (9 \<le> (of_char c :: nat) \<and> (of_char c :: nat) \<le> 13)"

definition digit_of :: "char \<Rightarrow> nat option" where
  "digit_of c = (if 48 \<le> (of_char c :: nat) \<and> (of_char c :: nat) \<le> 57 then Some (of_char c - 48) else None)"

fun read_digits :: "string \<Rightarrow> nat \<Rightarrow> nat" where
  "read_digits [] n = n"
| "read_digits (c # cs) n = (case digit_of c of Some d \<Rightarrow> read_digits cs (10 * n + d) | None \<Rightarrow> n)"

definition atoi :: "string \<Rightarrow> int" where
  \<comment> \<open>as in glibc: \<open>strtol\<close>, which saturates at 64 bits, cut to 32 bits\<close>
  "atoi s =
     (let t = dropWhile is_space s;
          v = (case t of
                 [] \<Rightarrow> 0
               | c # cs \<Rightarrow>
                   if c = CHR ''-'' then - int (read_digits cs 0)
                   else if c = CHR ''+'' then int (read_digits cs 0)
                   else int (read_digits t 0))
      in sint (word_of_int (max (- (2 ^ 63)) (min (2 ^ 63 - 1) v)) :: 32 word))"

definition parseContentLength :: "string \<Rightarrow> int" where
  "parseContentLength line =
     (let prefix = ''Content-Length:''; n = length prefix in
      if length line < n then -1
      else if map lower_char (take n line) \<noteq> map lower_char prefix then -1
      else let pos = dropWhile (\<lambda>c. c = CHR '' '') (drop n line) in
           if pos = [] then -1 else atoi pos)"

lemma readHeaderLine_shorter: "readHeaderLine s line = Some (h, after) \<Longrightarrow> length after < length s"
proof (induction s line rule: readHeaderLine.induct)
  case (2 ch rest line)
  then show ?case
    by (cases rest) (auto split: if_splits)
qed simp

function readHeaders :: "string \<Rightarrow> int \<Rightarrow> (int \<times> string) option" where
  "readHeaders s contentLength =
     (case readHeaderLine s [] of
        None \<Rightarrow> None
      | Some (headerLine, rest) \<Rightarrow>
          if headerLine = [] then Some (contentLength, rest)
          else let len = parseContentLength headerLine in
               readHeaders rest (if len \<ge> 0 then len else contentLength))"
  by pat_completeness auto

termination
  by (relation "measure (length \<circ> fst)") (auto dest: readHeaderLine_shorter)

declare readHeaders.simps [simp del]

definition strip_returns :: "string \<Rightarrow> string" where
  \<comment> \<open>\<open>while (!body.empty() && body.back() == '\r') body.pop_back()\<close>\<close>
  "strip_returns s = rev (dropWhile (\<lambda>c. c = carriage) (rev s))"

definition blank :: "char \<Rightarrow> bool" where
  "blank c \<longleftrightarrow> c = CHR 0x0A \<or> c = carriage \<or> c = CHR '' '' \<or> c = CHR 0x09"

definition readMessageBody :: "McpFraming \<Rightarrow> string \<Rightarrow> McpFraming \<times> (string \<times> string) option" where
  \<comment> \<open>the framing, and the body with the input after it; \<open>None\<close> is EOF or a framing error\<close>
  "readMessageBody framing s =
     (case dropWhile blank s of
        [] \<Rightarrow> (framing, None)
      | first # rest \<Rightarrow>
          if first = CHR ''{''
          then (LineFraming,
                let line = takeWhile (\<lambda>c. c \<noteq> CHR 0x0A) rest;
                    after = drop (Suc (length line)) rest in
                Some (strip_returns (CHR ''{'' # line), after))
          else (LengthFraming,
                case readHeaders (first # rest) (-1) of
                  None \<Rightarrow> None
                | Some (contentLength, after) \<Rightarrow>
                    if contentLength < 0 then None
                    else let n = nat contentLength in
                         if length (take n after) \<noteq> n then None else Some (take n after, drop n after)))"

subsection \<open>Responses\<close>

definition mcp_frame :: "McpFraming \<Rightarrow> string \<Rightarrow> string" where
  "mcp_frame framing body =
     (if framing = LengthFraming
      then ''Content-Length: '' @ nat_string (length body) @ [carriage, CHR 0x0A, carriage, CHR 0x0A] @ body
      else body @ newline)"

definition writeRaw :: "(Json \<Rightarrow> string) \<Rightarrow> Json \<Rightarrow> McpIo \<Rightarrow> McpIo" where
  "writeRaw pr msg st = st\<lparr>ioOut := ioOut st @ mcp_frame (ioFraming st) (pr msg)\<rparr>"

definition result_message :: "Json \<Rightarrow> Json \<Rightarrow> Json" where
  "result_message ident r = JObj [(''jsonrpc'', JStr ''2.0''), (''id'', ident), (''result'', r)]"

definition writeResult :: "(Json \<Rightarrow> string) \<Rightarrow> Json \<Rightarrow> Json \<Rightarrow> McpIo \<Rightarrow> McpIo" where
  "writeResult pr ident r = writeRaw pr (result_message ident r)"

definition error_message :: "Json \<Rightarrow> int \<Rightarrow> string \<Rightarrow> Json" where
  "error_message ident code message =
     JObj [(''jsonrpc'', JStr ''2.0''), (''id'', ident),
           (''error'', JObj [(''code'', JInt code), (''message'', JStr message)])]"

definition writeError :: "(Json \<Rightarrow> string) \<Rightarrow> Json \<Rightarrow> int \<Rightarrow> string \<Rightarrow> McpIo \<Rightarrow> McpIo" where
  "writeError pr ident code message = writeRaw pr (error_message ident code message)"

subsection \<open>Requests\<close>

definition check_request :: "(string \<Rightarrow> string + Json) \<Rightarrow> string \<Rightarrow> (Json \<times> int \<times> string) + JsonObject" where
  \<comment> \<open>the checks of one body: the error to answer, or the object that has a method\<close>
  "check_request parse body =
     (case parse body of
        Inl _ \<Rightarrow> Inl (JNull, kParseError, ''JSON parse error'')
      | Inr v \<Rightarrow>
          (case getAsObject v of
             None \<Rightarrow> Inl (JNull, kInvalidRequest, ''Request must be a JSON object'')
           | Some obj \<Rightarrow>
               (case getString obj ''method'' of
                  None \<Rightarrow> Inl (case map_of obj ''id'' of Some i \<Rightarrow> i | None \<Rightarrow> JNull, kInvalidRequest,
                              ''Missing '' @ quoted ''method'' @ '' field'')
                | Some _ \<Rightarrow> Inr obj)))"

definition make_request :: "JsonObject \<Rightarrow> McpRequest" where
  "make_request obj =
     \<lparr>rqId = (case map_of obj ''id'' of Some i \<Rightarrow> i | None \<Rightarrow> JNull),
      rqMethod = (case getString obj ''method'' of Some m \<Rightarrow> m | None \<Rightarrow> []),
      rqParams = (case map_of obj ''params'' of
                    Some p \<Rightarrow> (case getAsObject p of Some o' \<Rightarrow> o' | None \<Rightarrow> [])
                  | None \<Rightarrow> [])\<rparr>"

lemma readMessageBody_shorter:
  assumes "readMessageBody framing s = (framing1, Some (body, after))"
  shows "length after < length s"
proof -
  have d: "length (dropWhile blank s) \<le> length s" by (rule length_dropWhile_le)
  have h: "length after < length s" if "readHeaders s n = Some (k, after)" for s n k after
    using that
  proof (induction s n rule: readHeaders.induct)
    case (1 s n)
    then show ?case
      by (subst (asm) (2) readHeaders.simps)
         (fastforce simp: Let_def split: option.splits if_splits dest: readHeaderLine_shorter)
  qed
  show ?thesis using assms d
    by (auto simp: readMessageBody_def Let_def split: list.splits if_splits option.splits dest!: h)
qed

function readRequest :: "(string \<Rightarrow> string + Json) \<Rightarrow> (Json \<Rightarrow> string) \<Rightarrow> McpIo \<Rightarrow> McpRequest option \<times> McpIo" where
  "readRequest parse pr st =
     (case readMessageBody (ioFraming st) (ioIn st) of
        (framing, None) \<Rightarrow> (None, st\<lparr>ioFraming := framing\<rparr>)
      | (framing, Some (body, after)) \<Rightarrow>
          let st1 = st\<lparr>ioFraming := framing, ioIn := after\<rparr> in
          (case check_request parse body of
             Inl (ident, code, message) \<Rightarrow> readRequest parse pr (writeError pr ident code message st1)
           | Inr obj \<Rightarrow> (Some (make_request obj), st1)))"
  by pat_completeness auto

termination
  by (relation "measure (\<lambda>(_, _, st). length (ioIn st))")
     (auto simp: writeError_def writeRaw_def dest!: readMessageBody_shorter[OF sym])

declare readRequest.simps [simp del]

text \<open>
  The stdio server (src/mcp/McpServer.cpp): the indexes it owns, the three methods, the tool calls
  and the one operation that changes the indexes, \<open>reindex_tu\<close>.  The bake of one unit, which runs
  clang, is a function on the three indexes that is there when a compilation database is.
\<close>

record McpWorld =
  mwParse :: "string \<Rightarrow> string + Json"
  mwPrint :: "Json \<Rightarrow> string"
  mwVersion :: string
  mwClassify :: GuardClassifier

type_synonym Indexes = "CallGraph \<times> ControlFlowIndex \<times> ChannelIndex"

record McpServer =
  msGraph :: CallGraph
  msFlow :: ControlFlowIndex
  msChannels :: ChannelIndex
  msEntryPoints :: "string list"
  msBake :: "(string \<Rightarrow> Indexes \<Rightarrow> Indexes) option"
  msCache :: QueryCache
  msInitialized :: bool

definition new_server :: "Indexes \<Rightarrow> string list \<Rightarrow> (string \<Rightarrow> Indexes \<Rightarrow> Indexes) option \<Rightarrow> McpServer" where
  "new_server ix eps bake =
     (case ix of (g, cf, ch) \<Rightarrow>
        \<lparr>msGraph = g, msFlow = cf, msChannels = ch, msEntryPoints = eps, msBake = bake,
         msCache = empty_cache, msInitialized = False\<rparr>)"

subsection \<open>Results\<close>

definition mcpTextResult :: "string \<Rightarrow> bool \<Rightarrow> Json" where
  "mcpTextResult t isError =
     JObj ((''content'', JArr [JObj [(''type'', JStr ''text''), (''text'', JStr t)]])
           # (if isError then [(''isError'', JBool True)] else []))"

definition wrapToolResult :: "(Json \<Rightarrow> string) \<Rightarrow> Json \<Rightarrow> Json" where
  "wrapToolResult pr payload =
     (case errorMessage payload of
        Some msg \<Rightarrow> mcpTextResult msg True
      | None \<Rightarrow> mcpTextResult (pr payload) False)"

subsection \<open>Reindexing one unit\<close>

record ReindexResult =
  edgesRemoved :: nat
  edgesAfter :: nat
  contextsRemoved :: nat
  contextsAfter :: nat

definition reindexTU :: "string \<Rightarrow> McpServer \<Rightarrow> ReindexResult \<times> McpServer" where
  "reindexTU filePath srv =
     (let (ne, g) = removeTU filePath (msGraph srv);
          (nc, cf) = removeContextsOf filePath (msFlow srv);
          ch = snd (removeSitesOf filePath (msChannels srv));
          (g1, cf1, ch1) = (case msBake srv of Some bake \<Rightarrow> bake filePath (g, cf, ch) | None \<Rightarrow> (g, cf, ch))
      in (\<lparr>edgesRemoved = ne, edgesAfter = edgeCount g1, contextsRemoved = nc, contextsAfter = contextCount cf1\<rparr>,
          srv\<lparr>msGraph := g1, msFlow := cf1, msChannels := ch1, msCache := empty_cache\<rparr>))"

definition reindex_report :: "string \<Rightarrow> ReindexResult \<Rightarrow> string" where
  "reindex_report filePath r =
     ''Reindexed '' @ filePath @ newline
     @ ''Edges removed: '' @ nat_string (edgesRemoved r) @ '', total edges: '' @ nat_string (edgesAfter r) @ newline
     @ ''Contexts removed: '' @ nat_string (contextsRemoved r) @ '', total contexts: ''
     @ nat_string (contextsAfter r)"

subsection \<open>Methods\<close>

definition handleInitialize :: "McpWorld \<Rightarrow> JsonObject \<Rightarrow> Json" where
  "handleInitialize w params =
     JObj [(''protocolVersion'', JStr (case getString params ''protocolVersion'' of Some v \<Rightarrow> v | None \<Rightarrow> ''2024-11-05'')),
           (''capabilities'', JObj [(''tools'', JObj [])]),
           (''serverInfo'', JObj [(''name'', JStr ''vycor-cpp''), (''version'', JStr (mwVersion w))])]"

definition handleToolsList :: Json where
  "handleToolsList =
     JObj [(''tools'', JArr (map (\<lambda>t. JObj [(''name'', JStr (toolName t)), (''description'', JStr (toolDescription t)),
        (''inputSchema'', inputSchema t)]) getRegisteredTools))]"

definition server_context :: "McpWorld \<Rightarrow> McpServer \<Rightarrow> ToolContext" where
  "server_context w srv =
     \<lparr>tcGraph = msGraph srv, tcOracle = \<lparr>orGraph = msGraph srv, orIndex = msFlow srv\<rparr>, tcIndex = msFlow srv,
      tcEntryPoints = msEntryPoints srv, tcChannels = Some (msChannels srv), tcSummary = None,
      tcClassify = mwClassify w\<rparr>"

definition call_args :: "JsonObject \<Rightarrow> JsonObject" where
  "call_args params =
     (case map_of params ''arguments'' of
        Some v \<Rightarrow> (case getAsObject v of Some obj \<Rightarrow> obj | None \<Rightarrow> [])
      | None \<Rightarrow> [])"

definition reindex_call :: "JsonObject \<Rightarrow> McpServer \<Rightarrow> Json \<times> McpServer" where
  "reindex_call args srv =
     (case getString args ''file'' of
        None \<Rightarrow> (mcpTextResult (''Missing required '' @ quoted ''file'' @ '' argument'') True, srv)
      | Some filePath \<Rightarrow>
          if msBake srv = None
          then (mcpTextResult ''reindex_tu unavailable: no compilation database'' True, srv)
          else (let (r, srv1) = reindexTU filePath srv in (mcpTextResult (reindex_report filePath r) False, srv1)))"

definition tool_call :: "McpWorld \<Rightarrow> ToolHandler \<Rightarrow> JsonObject \<Rightarrow> McpServer \<Rightarrow> Json \<times> McpServer" where
  "tool_call w h args srv =
     (case h args (server_context w srv) (Some (msCache srv)) of
        (out, cache) \<Rightarrow>
          (wrapToolResult (mwPrint w) out,
           srv\<lparr>msCache := (case cache of Some c \<Rightarrow> c | None \<Rightarrow> msCache srv)\<rparr>))"

definition handleToolsCall :: "McpWorld \<Rightarrow> JsonObject \<Rightarrow> McpServer \<Rightarrow> Json \<times> McpServer" where
  "handleToolsCall w params srv =
     (case getString params ''name'' of
        None \<Rightarrow> (mcpTextResult (''Missing '' @ quoted ''name'' @ '' field in tools/call request'') True, srv)
      | Some n \<Rightarrow>
          (case map_of (tools_by_name getRegisteredTools) n of
             None \<Rightarrow> (mcpTextResult (''Unknown tool: '' @ n) True, srv)
           | Some entry \<Rightarrow>
               if n = ''reindex_tu'' then reindex_call (call_args params) srv
               else (case toolHandler entry of
                       Some h \<Rightarrow> tool_call w h (call_args params) srv
                     | None \<Rightarrow> (JNull, srv))))"
  \<comment> \<open>the last branch is never taken: only \<open>reindex_tu\<close> has no handler\<close>

definition dispatch :: "McpWorld \<Rightarrow> McpRequest \<Rightarrow> McpServer \<Rightarrow> Json \<times> McpServer" where
  \<comment> \<open>the one response of a request, and the server after it\<close>
  "dispatch w req srv =
     (if rqMethod req = ''initialize''
      then (result_message (rqId req) (handleInitialize w (rqParams req)), srv)
      else if rqMethod req = ''tools/list'' then (result_message (rqId req) handleToolsList, srv)
      else if rqMethod req = ''tools/call''
      then (case handleToolsCall w (rqParams req) srv of (r, srv1) \<Rightarrow> (result_message (rqId req) r, srv1))
      else (error_message (rqId req) kMethodNotFound (''Unknown method: '' @ rqMethod req), srv))"

definition notified :: "McpRequest \<Rightarrow> McpServer \<Rightarrow> McpServer" where
  "notified req srv =
     (if rqMethod req = ''notifications/initialized'' then srv\<lparr>msInitialized := True\<rparr> else srv)"

subsection \<open>The loop\<close>

partial_function (option) mcp_loop :: "McpWorld \<Rightarrow> McpServer \<Rightarrow> McpIo \<Rightarrow> (McpServer \<times> McpIo) option" where
  \<comment> \<open>\<open>McpServer::run\<close>; \<open>None\<close> is a run that does not end\<close>
  "mcp_loop w srv st =
     (case readRequest (mwParse w) (mwPrint w) st of
        (None, st1) \<Rightarrow> Some (srv, st1)
      | (Some req, st1) \<Rightarrow>
          if isNotification req then mcp_loop w (notified req srv) st1
          else let (response, srv1) = dispatch w req srv in
               mcp_loop w srv1 (writeRaw (mwPrint w) response st1))"

definition mcp_run :: "McpWorld \<Rightarrow> McpServer \<Rightarrow> string \<Rightarrow> (McpServer \<times> string) option" where
  \<comment> \<open>stdin as a whole, and what is written to stdout\<close>
  "mcp_run w srv input =
     map_option (\<lambda>(srv1, st). (srv1, ioOut st))
       (mcp_loop w srv \<lparr>ioIn = input, ioFraming = LineFraming, ioOut = []\<rparr>)"

end
