(* ===== verification/McpProps.thy ===== *)
theory McpProps
  imports McpServer CliProps
begin

text \<open>
  The server as a function of its input: it ends on every input, it answers framed messages one by
  one whatever they hold, and its cache is invisible, also across \<open>reindex_tu\<close>.
\<close>

subsection \<open>The loop ends\<close>

lemma readRequest_shorter:
  "readRequest parse pr st = (Some req, st1) \<Longrightarrow> length (ioIn st1) < length (ioIn st)"
proof (induction parse pr st rule: readRequest.induct)
  case (1 parse pr st)
  obtain f r where body: "readMessageBody (ioFraming st) (ioIn st) = (f, r)" by fastforce
  from 1(2) body obtain b after where r: "r = Some (b, after)"
    by (subst (asm) readRequest.simps) (cases r; fastforce)
  with body have shorter: "length after < length (ioIn st)" by (simp add: readMessageBody_shorter)
  show ?case
  proof (cases "check_request parse b")
    case (Inl e)
    obtain ident code message where e: "e = (ident, code, message)" by (cases e) auto
    let ?st = "writeError pr ident code message (st\<lparr>ioFraming := f, ioIn := after\<rparr>)"
    have "readRequest parse pr ?st = (Some req, st1)"
      using 1(2) body r Inl e by (subst (asm) readRequest.simps) (simp add: Let_def)
    then have "length (ioIn st1) < length (ioIn ?st)"
      using 1(1)[OF body[symmetric] r refl refl Inl e[symmetric] refl] by simp
    with shorter show ?thesis by (simp add: writeError_def writeRaw_def)
  next
    case (Inr obj)
    with 1(2) body r shorter show ?thesis by (subst (asm) readRequest.simps) auto
  qed
qed

lemma mcp_loop_returns: "\<exists>r. mcp_loop w srv st = Some r"
proof (induction "length (ioIn st)" arbitrary: srv st rule: less_induct)
  case less
  obtain req st1 where r: "readRequest (mwParse w) (mwPrint w) st = (req, st1)" by fastforce
  show ?case
  proof (cases req)
    case (Some q)
    with r have "length (ioIn st1) < length (ioIn st)" by (simp add: readRequest_shorter)
    then have "\<exists>r. mcp_loop w s st2 = Some r" if "ioIn st2 = ioIn st1" for s st2
      using less[of st2 s] that by simp
    with Some r show ?thesis by (subst mcp_loop.simps) (simp add: split_beta writeRaw_def)
  qed (use r in \<open>simp add: mcp_loop.simps\<close>)
qed

text \<open>C35: The server ends on every input, whatever the parser makes of it: each pass of the reading
  loop takes at least one byte, and the end of stdin or a broken header block ends the run.\<close>

theorem mcp_run_returns: "\<exists>srv1 out. mcp_run w srv input = Some (srv1, out)"
proof -
  obtain r where "mcp_loop w srv \<lparr>ioIn = input, ioFraming = LineFraming, ioOut = []\<rparr> = Some r"
    using mcp_loop_returns by blast
  then show ?thesis by (simp add: mcp_run_def split_beta)
qed

subsection \<open>Reading one framed message\<close>

definition well_framed :: "string \<times> McpFraming \<times> string \<Rightarrow> bool" where
  \<comment> \<open>blank bytes, then a body its framing can carry\<close>
  "well_framed m = (case m of (gap, framing, body) \<Rightarrow>
     list_all blank gap \<and>
     (case framing of
        LineFraming \<Rightarrow> body \<noteq> [] \<and> hd body = CHR ''{'' \<and> CHR 0x0A \<notin> set body \<and> last body \<noteq> carriage
      | LengthFraming \<Rightarrow> length body < 2 ^ 31))"

definition wire_message :: "string \<times> McpFraming \<times> string \<Rightarrow> string" where
  "wire_message m = (case m of (gap, framing, body) \<Rightarrow> gap @ mcp_frame framing body)"

lemma blank_simps [simp]: "\<not> blank CHR ''{''" "\<not> blank CHR ''C''" "carriage \<noteq> CHR 0x0A" "CHR 0x0A \<noteq> carriage"
  by (simp_all add: blank_def carriage_def)

lemma drop_gap: "list_all blank gap \<Longrightarrow> dropWhile blank (gap @ s) = dropWhile blank s"
  by (induction gap) auto

lemma header_line:
  "carriage \<notin> set s \<Longrightarrow> CHR 0x0A \<notin> set s \<Longrightarrow>
   readHeaderLine (s @ carriage # CHR 0x0A # rest) line = Some (line @ s, rest)"
  by (induction s arbitrary: line) auto

lemma nat_string_digit: "c \<in> set (nat_string n) \<Longrightarrow> digit_of c \<noteq> None"
proof (induction n rule: nat_string.induct)
  case (1 n)
  have "digit_of (char_of (48 + m)) \<noteq> None" if "m < 10" for m :: nat
    using that by (simp add: digit_of_def)
  with 1 show ?case by (subst (asm) nat_string.simps) (auto split: if_splits)
qed

lemma read_digits_append:
  "\<forall>c \<in> set s. digit_of c \<noteq> None \<Longrightarrow> read_digits (s @ t) n = read_digits t (read_digits s n)"
  by (induction s arbitrary: n) (auto split: option.split)

lemma read_digits_nat_string: "read_digits (nat_string n) 0 = n"
proof (induction n rule: nat_string.induct)
  case (1 n)
  have d: "digit_of (char_of (48 + m)) = Some m" if "m < 10" for m :: nat
    using that by (simp add: digit_of_def)
  show ?case
  proof (cases "n < 10")
    case True
    then show ?thesis by (subst nat_string.simps) (simp add: d)
  next
    case False
    have "read_digits (nat_string n) 0 = read_digits [char_of (48 + n mod 10)] (read_digits (nat_string (n div 10)) 0)"
      using False nat_string_digit by (subst nat_string.simps) (simp add: read_digits_append)
    with False 1 show ?thesis by (simp add: d)
  qed
qed

lemma nat_string_head: "\<exists>c cs. nat_string n = c # cs \<and> digit_of c \<noteq> None"
proof -
  have "nat_string n \<noteq> []" by (subst nat_string.simps) simp
  then obtain c cs where "nat_string n = c # cs" by (cases "nat_string n") auto
  with nat_string_digit[of c n] show ?thesis by simp
qed

lemma digit_not: "digit_of c \<noteq> None \<Longrightarrow> \<not> is_space c \<and> c \<noteq> CHR ''-'' \<and> c \<noteq> CHR ''+'' \<and> c \<noteq> carriage \<and> c \<noteq> CHR 0x0A \<and> c \<noteq> CHR '' ''"
  by (auto simp: digit_of_def is_space_def carriage_def split: if_splits)

lemma atoi_nat_string: "n < 2 ^ 31 \<Longrightarrow> atoi (nat_string n) = int n"
proof -
  assume n: "n < 2 ^ 31"
  obtain c cs where c: "nat_string n = c # cs" "digit_of c \<noteq> None" using nat_string_head by blast
  have "uint (word_of_nat n :: 32 word) = int n"
    using n by (simp add: unsigned_of_nat take_bit_nat_eq_self)
  then have "sint (word_of_nat n :: 32 word) = int n"
    using n by (simp add: sint_uint signed_take_bit_int_eq_self)
  then show ?thesis using c n digit_not[OF c(2)] read_digits_nat_string[of n]
    by (simp add: atoi_def Let_def)
qed

lemma parse_length: "n < 2 ^ 31 \<Longrightarrow> parseContentLength (''Content-Length: '' @ nat_string n) = int n"
proof -
  assume n: "n < 2 ^ 31"
  obtain c cs where c: "nat_string n = c # cs" "digit_of c \<noteq> None" using nat_string_head by blast
  with n digit_not[OF c(2)] atoi_nat_string[OF n] show ?thesis
    by (simp add: parseContentLength_def Let_def)
qed

lemma length_headers:
  assumes "n < 2 ^ 31"
  shows "readHeaders (''Content-Length: '' @ nat_string n @ [carriage, CHR 0x0A, carriage, CHR 0x0A] @ rest) (-1) =
    Some (int n, rest)"
proof -
  let ?h = "''Content-Length: '' @ nat_string n"
  have "c \<noteq> carriage \<and> c \<noteq> CHR 0x0A" if "c \<in> set (nat_string n)" for c
    using digit_not[OF nat_string_digit[OF that]] by blast
  then have "carriage \<notin> set ?h" "CHR 0x0A \<notin> set ?h" by (auto simp: carriage_def)
  then have "readHeaderLine (?h @ carriage # CHR 0x0A # carriage # CHR 0x0A # rest) [] =
      Some (?h, carriage # CHR 0x0A # rest)"
    by (rule header_line[of ?h _ "[]", unfolded append_Nil])
  moreover have "readHeaders (carriage # CHR 0x0A # rest) k = Some (k, rest)" for k
    by (subst readHeaders.simps) simp
  ultimately show ?thesis using parse_length[OF assms]
    by (subst readHeaders.simps) (simp add: Let_def)
qed

lemma strip_kept: "s = [] \<or> last s \<noteq> carriage \<Longrightarrow> strip_returns s = s"
  by (cases s rule: rev_cases) (auto simp: strip_returns_def)

lemma read_framed:
  assumes "well_framed (gap, framing, body)"
  shows "readMessageBody f (wire_message (gap, framing, body) @ rest) = (framing, Some (body, rest))"
proof (cases framing)
  case LineFraming
  with assms obtain line where body: "body = CHR ''{'' # line" "CHR 0x0A \<notin> set line"
    by (cases body) (auto simp: well_framed_def)
  have "takeWhile (\<lambda>c. c \<noteq> CHR 0x0A) (line @ CHR 0x0A # rest) = line"
    using body(2) by (induction line) auto
  moreover have "strip_returns (CHR ''{'' # line) = CHR ''{'' # line"
    using assms LineFraming body by (intro strip_kept) (simp add: well_framed_def)
  ultimately show ?thesis using assms LineFraming body
    by (simp add: wire_message_def mcp_frame_def newline_def readMessageBody_def drop_gap well_framed_def Let_def)
next
  case LengthFraming
  with assms have n: "length body < 2 ^ 31" and gap: "list_all blank gap" by (simp_all add: well_framed_def)
  have "dropWhile blank (wire_message (gap, framing, body) @ rest) =
      ''Content-Length: '' @ nat_string (length body) @ [carriage, CHR 0x0A, carriage, CHR 0x0A] @ body @ rest"
    using LengthFraming gap by (simp add: wire_message_def mcp_frame_def drop_gap)
  then show ?thesis using LengthFraming length_headers[OF n, of "body @ rest"]
    by (simp add: readMessageBody_def)
qed

subsection \<open>The server over message bodies\<close>

definition body_reply :: "McpWorld \<Rightarrow> string \<Rightarrow> McpServer \<Rightarrow> Json option \<times> McpServer" where
  \<comment> \<open>what one message body makes the server say and become\<close>
  "body_reply w body srv =
     (case check_request (mwParse w) body of
        Inl (ident, code, message) \<Rightarrow> (Some (error_message ident code message), srv)
      | Inr obj \<Rightarrow>
          (let req = make_request obj in
           if isNotification req then (None, notified req srv)
           else map_prod Some id (dispatch w req srv)))"

definition reply_bytes :: "McpWorld \<Rightarrow> McpFraming \<Rightarrow> Json option \<Rightarrow> string" where
  "reply_bytes w framing r = (case r of Some j \<Rightarrow> mcp_frame framing (mwPrint w j) | None \<Rightarrow> [])"

fun session :: "McpWorld \<Rightarrow> McpServer \<Rightarrow> (string \<times> McpFraming \<times> string) list \<Rightarrow> McpServer \<times> string" where
  "session w srv [] = (srv, [])"
| "session w srv ((gap, framing, body) # ms) =
     (let (r, srv1) = body_reply w body srv;
          (srv2, out) = session w srv1 ms
      in (srv2, reply_bytes w framing r @ out))"

lemma mcp_loop_body:
  assumes "readMessageBody (ioFraming st) (ioIn st) = (f, Some (body, after))"
  shows "mcp_loop w srv st =
     (case body_reply w body srv of (r, srv1) \<Rightarrow>
        mcp_loop w srv1 \<lparr>ioIn = after, ioFraming = f, ioOut = ioOut st @ reply_bytes w f r\<rparr>)"
proof (cases "check_request (mwParse w) body")
  case (Inl e)
  obtain ident code message where e: "e = (ident, code, message)" by (cases e) auto
  let ?st = "writeError (mwPrint w) ident code message (st\<lparr>ioFraming := f, ioIn := after\<rparr>)"
  have "readRequest (mwParse w) (mwPrint w) st = readRequest (mwParse w) (mwPrint w) ?st"
    using assms Inl e by (subst readRequest.simps) simp
  then have "mcp_loop w srv st = mcp_loop w srv ?st" by (simp add: mcp_loop.simps)
  moreover have "?st = \<lparr>ioIn = after, ioFraming = f, ioOut = ioOut st @ mcp_frame f (mwPrint w (error_message ident code message))\<rparr>"
    by (cases st) (simp add: writeError_def writeRaw_def)
  ultimately show ?thesis using Inl e by (simp add: body_reply_def reply_bytes_def)
next
  case (Inr obj)
  then have "readRequest (mwParse w) (mwPrint w) st = (Some (make_request obj), st\<lparr>ioFraming := f, ioIn := after\<rparr>)"
    using assms by (subst readRequest.simps) simp
  with Inr show ?thesis
    by (subst mcp_loop.simps) (cases st, simp add: body_reply_def Let_def split_beta writeRaw_def reply_bytes_def)
qed

lemma mcp_loop_session:
  assumes "list_all well_framed ms"
  shows "mcp_loop w srv \<lparr>ioIn = concat (map wire_message ms), ioFraming = f, ioOut = out\<rparr> =
     Some (fst (session w srv ms),
           \<lparr>ioIn = [], ioFraming = last (f # map (fst \<circ> snd) ms), ioOut = out @ snd (session w srv ms)\<rparr>)"
  using assms
proof (induction ms arbitrary: srv f out)
  case Nil
  show ?case by (subst mcp_loop.simps, subst readRequest.simps) (simp add: readMessageBody_def)
next
  case (Cons m ms)
  obtain gap framing body where m: "m = (gap, framing, body)" by (cases m) auto
  with Cons.prems have "well_framed (gap, framing, body)" by simp
  from mcp_loop_body[of "\<lparr>ioIn = concat (map wire_message (m # ms)), ioFraming = f, ioOut = out\<rparr>"]
    read_framed[OF this, of f "concat (map wire_message ms)"]
  show ?case using Cons.prems Cons.IH by (simp add: m split_beta)
qed

text \<open>C36: The loop over bytes implements the server over messages: on any sequence of messages in
  either framing, with blanks between them, every body is read as it was sent and answered in order.
  A body that is no JSON, no object or has no method gets one error response and the next message is
  read in step; a notification gets none; each response is framed as its request was.\<close>

theorem mcp_answers_messages:
  assumes "list_all well_framed ms"
  shows "mcp_run w srv (concat (map wire_message ms)) = Some (session w srv ms)"
  unfolding mcp_run_def by (simp add: mcp_loop_session[OF assms])

definition server_world :: McpWorld where
  \<comment> \<open>a body of two bytes is an empty object, a longer one a request\<close>
  "server_world =
     \<lparr>mwParse = (\<lambda>s. Inr (JObj (if length s < 3 then [] else [(''id'', JInt 1), (''method'', JStr ''tools/list'')]))),
      mwPrint = (\<lambda>_. ''{}''), mwVersion = ''1'', mwClassify = (\<lambda>_. None)\<rparr>"

definition demo_messages :: "(string \<times> McpFraming \<times> string) list" where
  "demo_messages = [('' '', LineFraming, ''{}''), ([], LengthFraming, ''{ }''), ([], LineFraming, ''{ }'')]"

theorem mcp_answers_messages_witness:
  "mcp_run server_world (new_server (demo_calls, empty_index, empty_channels) [''main''] None)
     (concat (map wire_message demo_messages)) =
   Some (session server_world (new_server (demo_calls, empty_index, empty_channels) [''main''] None) demo_messages)"
  by (rule mcp_answers_messages) (simp add: demo_messages_def well_framed_def blank_def carriage_def)

text \<open>
  A line that does not begin with \<open>{\<close> is no such message: it opens a block of headers, the lines
  after it are headers too, and without a blank line the run ends at the end of stdin with no answer
  to any of them.
\<close>

lemma header_lines_swallow:
  assumes "\<forall>l \<in> set ls. l \<noteq> [] \<and> CHR 0x0A \<notin> set l \<and> carriage \<notin> set l"
  shows "readHeaders (concat (map (\<lambda>l. l @ newline) ls)) n = None"
proof -
  have line: "readHeaderLine (l @ CHR 0x0A # rest) acc = Some (acc @ l, rest)"
    if "CHR 0x0A \<notin> set l" "carriage \<notin> set l" for l rest acc
    using that by (induction l arbitrary: acc) auto
  show ?thesis using assms
  proof (induction ls arbitrary: n)
    case Nil
    show ?case by (simp add: readHeaders.simps)
  next
    case (Cons l ls)
    have "readHeaderLine (l @ CHR 0x0A # concat (map (\<lambda>l. l @ newline) ls)) [] = Some (l, concat (map (\<lambda>l. l @ newline) ls))"
      using Cons.prems line[of l "concat (map (\<lambda>l. l @ newline) ls)" "[]"] by simp
    with Cons show ?case by (subst readHeaders.simps) (simp add: newline_def Let_def)
  qed
qed

theorem garbled_line_ends_server:
  assumes "first \<noteq> CHR ''{''" and "\<not> blank first"
    and "\<forall>l \<in> set ((first # garbled) # ls). l \<noteq> [] \<and> CHR 0x0A \<notin> set l \<and> carriage \<notin> set l"
  shows "mcp_run w srv (concat (map (\<lambda>l. l @ newline) ((first # garbled) # ls))) = Some (srv, [])"
proof -
  let ?in = "concat (map (\<lambda>l. l @ newline) ((first # garbled) # ls))"
  obtain tail where "?in = first # tail" by simp
  then have "readMessageBody LineFraming ?in = (LengthFraming, None)"
    using assms(1,2) header_lines_swallow[OF assms(3), of "-1"] by (simp add: readMessageBody_def)
  then have "readRequest (mwParse w) (mwPrint w) \<lparr>ioIn = ?in, ioFraming = LineFraming, ioOut = []\<rparr> =
      (None, \<lparr>ioIn = ?in, ioFraming = LengthFraming, ioOut = []\<rparr>)"
    by (subst readRequest.simps) simp
  then show ?thesis unfolding mcp_run_def by (subst mcp_loop.simps) simp
qed

subsection \<open>The cache of the server\<close>

definition server_ok :: "McpWorld \<Rightarrow> McpServer \<Rightarrow> bool" where
  "server_ok w srv \<longleftrightarrow> cache_ok (server_context w srv) (msCache srv)"

definition cold :: "McpServer \<Rightarrow> McpServer" where
  \<comment> \<open>the same indexes, nothing remembered\<close>
  "cold srv = srv\<lparr>msCache := empty_cache\<rparr>"

definition clean_body :: "McpWorld \<Rightarrow> string list \<Rightarrow> string \<Rightarrow> bool" where
  \<comment> \<open>the dead-code arguments of a call are free of the separator of the cache keys\<close>
  "clean_body w eps body =
     (case check_request (mwParse w) body of
        Inl _ \<Rightarrow> True
      | Inr obj \<Rightarrow>
          clean_query (dead_args (call_args (rqParams (make_request obj)))
            (server_context w (new_server (empty_graph, empty_index, empty_channels) eps None))))"

lemma dead_args_entry_points:
  "tcEntryPoints ctx = tcEntryPoints ctx1 \<Longrightarrow> dead_args args ctx = dead_args args ctx1"
  by (simp add: dead_args_def entry_points_arg_def Let_def)

definition same_server :: "McpWorld \<Rightarrow> McpServer \<Rightarrow> 'a \<times> McpServer \<Rightarrow> 'a \<times> McpServer \<Rightarrow> bool" where
  \<comment> \<open>the same answer, servers alike up to their caches, the first one with a true cache\<close>
  "same_server w srv x y \<longleftrightarrow>
     fst x = fst y \<and> cold (snd x) = cold (snd y) \<and> server_ok w (snd x) \<and>
     msEntryPoints (snd x) = msEntryPoints srv"

lemma server_context_simps [simp]:
  "server_context w (cold srv) = server_context w srv"
  "server_context w (srv\<lparr>msCache := c\<rparr>) = server_context w srv"
  "server_context w (notified req srv) = server_context w srv"
  by (simp_all add: server_context_def cold_def notified_def)

lemma tool_call_cold:
  assumes "server_ok w srv" and "\<exists>t \<in> set getRegisteredTools. toolHandler t = Some h"
    and "clean_query (dead_args args (server_context w srv))"
  shows "same_server w srv (tool_call w h args srv) (tool_call w h args (cold srv))"
proof -
  let ?ctx = "server_context w srv"
  have "\<exists>c1. h args ?ctx (Some c) = (fst (h args ?ctx None), Some c1) \<and> cache_ok ?ctx c1" if "cache_ok ?ctx c" for c
    using handler_cached[OF assms(2) that assms(3)] by (auto simp: cached_as_def prod_eq_iff)
  from this[of "msCache srv"] this[of empty_cache] assms(1) show ?thesis
    by (auto simp: tool_call_def same_server_def server_ok_def cold_def cache_ok_empty)
qed

lemma reindex_call_cold:
  assumes "server_ok w srv"
  shows "same_server w srv (reindex_call args srv) (reindex_call args (cold srv))"
proof -
  have "reindexTU f (cold srv) = reindexTU f srv" for f
    by (simp add: reindexTU_def cold_def Let_def split_beta cong: option.case_cong)
  moreover have "server_ok w (snd (reindexTU f srv))" "msEntryPoints (snd (reindexTU f srv)) = msEntryPoints srv" for f
    by (simp_all add: reindexTU_def server_ok_def cache_ok_empty Let_def split_beta)
  moreover have "msBake (cold srv) = msBake srv" "cold (cold srv) = cold srv" by (simp_all add: cold_def)
  ultimately show ?thesis using assms
    by (cases "msBake srv") (simp_all add: reindex_call_def same_server_def split_beta Let_def split: option.split)
qed

lemma tools_call_cold:
  assumes "server_ok w srv" and "clean_query (dead_args (call_args params) (server_context w srv))"
  shows "same_server w srv (handleToolsCall w params srv) (handleToolsCall w params (cold srv))"
proof -
  have keep: "same_server w srv (r, srv) (r, cold srv)" for r
    using assms(1) by (simp add: same_server_def) (simp add: cold_def)
  have call: "same_server w srv (tool_call w h (call_args params) srv) (tool_call w h (call_args params) (cold srv))"
    if "map_of (tools_by_name getRegisteredTools) n = Some entry" "toolHandler entry = Some h" for n entry h
    using that tools_by_name_registered by (intro tool_call_cold assms) blast
  show ?thesis using keep call reindex_call_cold[OF assms(1)]
    by (auto simp: handleToolsCall_def split: option.split)
qed

lemma body_reply_cold:
  assumes ok: "server_ok w srv" and clean: "clean_body w (msEntryPoints srv) body"
  shows "same_server w srv (body_reply w body srv) (body_reply w body (cold srv))"
proof (cases "check_request (mwParse w) body")
  case (Inl e)
  with ok show ?thesis by (cases e) (simp add: body_reply_def same_server_def, simp add: cold_def)
next
  case (Inr obj)
  let ?req = "make_request obj"
  have keep: "same_server w srv (r, srv) (r, cold srv)" for r :: "Json option"
    using ok by (simp add: same_server_def) (simp add: cold_def)
  have note1: "same_server w srv (None :: Json option, notified ?req srv) (None, notified ?req (cold srv))"
    using ok by (auto simp: same_server_def server_ok_def notified_def cold_def server_context_def)
  have "clean_query (dead_args (call_args (rqParams ?req)) (server_context w srv))"
    using clean Inr dead_args_entry_points[of "server_context w srv"
        "server_context w (new_server (empty_graph, empty_index, empty_channels) (msEntryPoints srv) None)"]
    by (simp add: clean_body_def server_context_def new_server_def)
  from tools_call_cold[OF ok this] have call: "same_server w srv
      (map_prod (\<lambda>r. Some (result_message (rqId ?req) r)) id (handleToolsCall w (rqParams ?req) srv))
      (map_prod (\<lambda>r. Some (result_message (rqId ?req) r)) id (handleToolsCall w (rqParams ?req) (cold srv)))"
    by (simp add: same_server_def map_prod_def split_beta)
  show ?thesis using Inr keep note1 call
    by (simp add: body_reply_def dispatch_def Let_def map_prod_def split_beta)
qed

fun cold_session :: "McpWorld \<Rightarrow> McpServer \<Rightarrow> (string \<times> McpFraming \<times> string) list \<Rightarrow> McpServer \<times> string" where
  \<comment> \<open>a server that forgets before every message\<close>
  "cold_session w srv [] = (srv, [])"
| "cold_session w srv ((gap, framing, body) # ms) =
     (let (r, srv1) = body_reply w body (cold srv);
          (srv2, out) = cold_session w srv1 ms
      in (srv2, reply_bytes w framing r @ out))"

lemma cold_session_cold: "snd (cold_session w (cold srv) ms) = snd (cold_session w srv ms)"
  by (cases ms) (auto simp: cold_def split_beta)

lemma session_cold:
  assumes "server_ok w srv" and "list_all (\<lambda>(_, _, body). clean_body w (msEntryPoints srv) body) ms"
  shows "snd (session w srv ms) = snd (cold_session w srv ms)"
  using assms
proof (induction ms arbitrary: srv)
  case (Cons m ms)
  obtain gap framing body where m: "m = (gap, framing, body)" by (cases m) auto
  obtain r srv1 where s: "body_reply w body srv = (r, srv1)" by fastforce
  obtain r2 srv2 where s2: "body_reply w body (cold srv) = (r2, srv2)" by fastforce
  from Cons.prems have "same_server w srv (r, srv1) (r2, srv2)"
    using body_reply_cold[of w srv body] by (simp add: m s s2)
  then have same: "r = r2" "cold srv1 = cold srv2" "server_ok w srv1" "msEntryPoints srv1 = msEntryPoints srv"
    by (simp_all add: same_server_def)
  with Cons.prems have "snd (session w srv1 ms) = snd (cold_session w srv1 ms)"
    by (intro Cons.IH) (simp_all add: m)
  also have "\<dots> = snd (cold_session w srv2 ms)" using same(2) by (metis cold_session_cold)
  finally show ?case by (simp add: m s s2 same(1) split_beta)
qed simp

text \<open>C37: The cache of the server is invisible: on any sequence of messages, \<open>reindex_tu\<close> among them,
  the bytes written are those of a server that empties its cache before every message, so each answer
  is the one for the indexes as the last \<open>reindex_tu\<close> left them.  It holds while the entry points and
  prefixes of the dead-code calls are free of the key separator.\<close>

theorem reindex_never_stale:
  assumes "list_all (\<lambda>(_, _, body). clean_body w eps body) ms"
  shows "snd (session w (new_server ix eps bake) ms) = snd (cold_session w (new_server ix eps bake) ms)"
proof (rule session_cold)
  show "server_ok w (new_server ix eps bake)"
    by (cases ix) (simp add: server_ok_def new_server_def cache_ok_empty)
  show "list_all (\<lambda>(_, _, body). clean_body w (msEntryPoints (new_server ix eps bake)) body) ms"
    using assms by (cases ix) (simp add: new_server_def)
qed

definition reindexing_world :: McpWorld where
  \<comment> \<open>a body of two bytes asks for a summary, a longer one reindexes\<close>
  "reindexing_world =
     \<lparr>mwParse = (\<lambda>s. Inr (JObj [(''id'', JInt 1), (''method'', JStr ''tools/call''),
        (''params'', JObj (if length s < 3 then [(''name'', JStr ''graph_summary'')]
           else [(''name'', JStr ''reindex_tu''), (''arguments'', JObj [(''file'', JStr ''a.cpp'')])]))])),
      mwPrint = (\<lambda>_. ''{}''), mwVersion = ''1'', mwClassify = (\<lambda>_. None)\<rparr>"

theorem reindex_never_stale_witness:
  "snd (session reindexing_world (new_server (demo_calls, empty_index, empty_channels) [''main''] (Some (\<lambda>_ ix. ix)))
      [([], LineFraming, ''{}''), ([], LineFraming, ''{ }''), ([], LineFraming, ''{}'')]) =
   snd (cold_session reindexing_world (new_server (demo_calls, empty_index, empty_channels) [''main''] (Some (\<lambda>_ ix. ix)))
      [([], LineFraming, ''{}''), ([], LineFraming, ''{ }''), ([], LineFraming, ''{}'')])"
proof (rule reindex_never_stale)
  show "list_all (\<lambda>(_, _, body). clean_body reindexing_world [''main''] body)
      [([], LineFraming, ''{}''), ([], LineFraming, ''{ }''), ([], LineFraming, ''{}'')]"
    by (simp add: clean_body_def check_request_def reindexing_world_def make_request_def call_args_def json_simps
        server_context_def new_server_def clean_query_def dead_args_def entry_points_arg_def string_items_def bar_free_def)
qed

end
