(* ===== verification/CheckSet.thy ===== *)
theory CheckSet
  imports OrgConfig "HOL-Library.Monad_Syntax"
begin

text \<open>
  Which checks anneal runs (src/anneal/CheckSet.cpp and the anneal part of src/main.cpp): the table of
  built-in checks, the resolution of a specification over names and groups, the configuration file
  and its discovery, the switches derived from the enabled set, and the specification a worker
  process is started with.  \<open>std::set<std::string>\<close> is a set; the organization's checks and groups come
  from the extension registry.
\<close>

record CheckInfo =
  ckName :: string
  ckSummary :: string
  ckDefaultOn :: bool
  ckGroups :: "string list"

definition check_info :: "string \<Rightarrow> string \<Rightarrow> bool \<Rightarrow> string list \<Rightarrow> CheckInfo" where
  "check_info n descr on groups = \<lparr>ckName = n, ckSummary = descr, ckDefaultOn = on, ckGroups = groups\<rparr>"

definition builtinAnnealChecks :: "CheckInfo list" where
  "builtinAnnealChecks =
     [check_info ''adl-visibility''
         ''Fragile ADL resolutions: an invisible overload would win or tie''
         True [],
      check_info ''ctad-visibility''
         ''CTAD deducing differently because a deduction guide is not included''
         True [],
      check_info ''specialization-visibility''
         ''TU instantiates a primary template whose explicit specialization exists elsewhere (IFNDR)''
         True [],
      check_info ''default-arg-divergence''
         ''Declaration sites that disagree on a parameter's default argument''
         True [],
      check_info ''static-init-order''
         ''Dynamic initializers reading another TU's dynamically-initialized global (SIOF)''
         True [],
      check_info ''static-init-hazards''
         ''Static initializers reaching dlopen/dlsym or thread create/join (loader-lock deadlock risk)''
         False [''compute-heavy''],
      check_info ''header-static-duplication''
         ''Mutable header-defined statics materialized by multiple TUs (forked per-TU state)''
         True [],
      check_info ''exception-spec-divergence''
         ''Declaration sites that disagree on whether a function can throw''
         True [],
      check_info ''exception-escape''
         ''noexcept functions that can transitively reach an uncaught throw across TUs''
         False [''noisy''],
      check_info ''odr-violations''
         ''Vague-linkage definitions that differ across sites or TUs''
         False [''compute-heavy''],
      check_info ''coverage-properties''
         ''GVA linkage / COMDAT properties that make coverage records vanish''
         False [''noisy''],
      check_info ''dead-code''
         ''Functions unreachable from the entry points via the call graph''
         False [''compute-heavy'']]"

record OrgChecks =
  \<comment> \<open>\<open>allCheckNames()\<close> and \<open>checkGroups()\<close> of the registry\<close>
  orgNames :: "string list"
  orgGroups :: "(string, string list) umap"

definition registered_checks :: "('a \<Rightarrow> string) \<Rightarrow> ('i \<Rightarrow> string) \<Rightarrow> ('a, 'i) ExtensionRegistry \<Rightarrow> OrgChecks" where
  "registered_checks annealName indexName r =
     \<lparr>orgNames = allCheckNames annealName indexName r, orgGroups = checkGroups r\<rparr>"

definition defaultCheckSet :: "OrgChecks \<Rightarrow> string set" where
  "defaultCheckSet org = set (map ckName (filter ckDefaultOn builtinAnnealChecks)) \<union> set (orgNames org)"

subsection \<open>Specifications\<close>

definition known_checks :: "OrgChecks \<Rightarrow> string list" where
  "known_checks org = map ckName builtinAnnealChecks @ orgNames org"

definition check_groups :: "OrgChecks \<Rightarrow> (string, string list) umap" where
  "check_groups org =
     fold (\<lambda>(grp, members) m. AList.update grp (ulist m grp @ members) m) (orgGroups org)
       (fold (\<lambda>n. upush ''all'' n) (orgNames org)
         (fold (\<lambda>c m. fold (\<lambda>grp. upush grp (ckName c)) (ckGroups c) (upush ''all'' (ckName c) m))
            builtinAnnealChecks []))"

definition entry_disables :: "string \<Rightarrow> bool" where
  "entry_disables raw \<longleftrightarrow> raw \<noteq> [] \<and> hd raw = CHR ''-''"

definition entry_name :: "string \<Rightarrow> string" where
  "entry_name raw = (if entry_disables raw then tl raw else raw)"

definition entry_members :: "OrgChecks \<Rightarrow> string \<Rightarrow> string + string list" where
  \<comment> \<open>the checks an entry switches\<close>
  "entry_members org raw =
     (let n = entry_name raw in
      if n = [] then Inl ''empty entry in checks specification''
      else case map_of (check_groups org) n of
        Some members \<Rightarrow> Inr members
      | None \<Rightarrow>
          if n \<notin> set (known_checks org)
          then Inl (''unknown check or group '' @ quoted n @ '' (see docs/checks/README.md for the list)'')
          else Inr [n])"

fun resolveCheckSpec :: "OrgChecks \<Rightarrow> string list \<Rightarrow> string set \<Rightarrow> string option \<times> string set" where
  \<comment> \<open>the error, and \<open>enabled\<close> as it is left; entries before a bad one have been applied\<close>
  "resolveCheckSpec org [] enabled = (None, enabled)"
| "resolveCheckSpec org (raw # spec) enabled =
     (case entry_members org raw of
        Inl err \<Rightarrow> (Some err, enabled)
      | Inr members \<Rightarrow>
          resolveCheckSpec org spec
            (if entry_disables raw then enabled - set members else enabled \<union> set members))"

subsection \<open>The configuration file\<close>

definition parseChecksConfigJson :: "(string \<Rightarrow> string + Json) \<Rightarrow> string \<Rightarrow> string list \<Rightarrow> string + string list" where
  "parseChecksConfigJson parse buffer spec =
     (case parse buffer of
        Inl e \<Rightarrow> Inl (''parse error: '' @ e)
      | Inr v \<Rightarrow>
          (case getAsObject v of
             None \<Rightarrow> Inl ''top level must be a JSON object''
           | Some root \<Rightarrow>
               (case List.find (\<lambda>kv. fst kv \<noteq> ''checks'') root of
                  Some kv \<Rightarrow> Inl (''unknown key '' @ quoted (fst kv) @ '' (expected: checks)'')
                | None \<Rightarrow> parseStringArray root ''checks'' spec)))"

record PathWorld =
  pwAbsolute :: "string \<Rightarrow> string"
  pwJoin :: "string \<Rightarrow> string \<Rightarrow> string"
  pwParent :: "string \<Rightarrow> string"
  pwExists :: "string \<Rightarrow> bool"

partial_function (option) config_above :: "PathWorld \<Rightarrow> string \<Rightarrow> string option" where
  \<comment> \<open>the loop over the parent directories; \<open>None\<close> is a loop that does not end\<close>
  "config_above w dir =
     (let candidate = pwJoin w dir ''.vycor-anneal.json'' in
      if pwExists w candidate then Some candidate
      else let parent = pwParent w dir in
           if parent = [] \<or> parent = dir then Some []
           else config_above w parent)"

definition findChecksConfig :: "PathWorld \<Rightarrow> string \<Rightarrow> string option" where
  "findChecksConfig w startDir = config_above w (pwAbsolute w startDir)"

subsection \<open>Selection on the command line\<close>

record CheckFlags =
  cfChecksConfig :: string
  cfChecks :: string
  cfCoverageDiag :: bool
  cfOdrDiag :: bool
  cfDeadCode :: bool

definition strip_spaces :: "string \<Rightarrow> string" where
  "strip_spaces s = rev (dropWhile (\<lambda>c. c = CHR '' '') (rev (dropWhile (\<lambda>c. c = CHR '' '') s)))"

definition split_checks :: "string \<Rightarrow> string list" where
  \<comment> \<open>the loop over the commas of \<open>--checks\<close>\<close>
  "split_checks cli = filter (\<lambda>e. e \<noteq> []) (map strip_spaces (split_on CHR '','' cli))"

definition legacy_entries :: "CheckFlags \<Rightarrow> string list" where
  "legacy_entries f =
     (if cfCoverageDiag f then [''coverage-properties''] else [])
     @ (if cfOdrDiag f then [''odr-violations''] else [])
     @ (if cfDeadCode f then [''dead-code''] else [])"

definition config_entries :: "(string \<Rightarrow> string + string) \<Rightarrow> (string \<Rightarrow> string + Json) \<Rightarrow> string \<Rightarrow> string + string list" where
  "config_entries readFile parse cfgPath =
     (if cfgPath = [] then Inr []
      else case readFile cfgPath of
        Inl e \<Rightarrow> Inl (''anneal: checks-config: cannot read '' @ cfgPath @ '': '' @ e)
      | Inr buf \<Rightarrow>
          (case parseChecksConfigJson parse buf [] of
             Inl e \<Rightarrow> Inl (''anneal: checks-config: '' @ cfgPath @ '': '' @ e)
           | Inr spec \<Rightarrow> Inr spec))"

definition select_checks :: "OrgChecks \<Rightarrow> CheckFlags \<Rightarrow> string list \<Rightarrow> string + string set" where
  \<comment> \<open>the default set, then the entries of the file, of \<open>--checks\<close> and of the legacy flags\<close>
  "select_checks org f config =
     (case resolveCheckSpec org (config @ split_checks (cfChecks f) @ legacy_entries f) (defaultCheckSet org) of
        (Some err, _) \<Rightarrow> Inl (''anneal: checks: '' @ err)
      | (None, enabled) \<Rightarrow> Inr enabled)"

definition anneal_checks :: "PathWorld \<Rightarrow> (string \<Rightarrow> string + string) \<Rightarrow> (string \<Rightarrow> string + Json) \<Rightarrow> OrgChecks \<Rightarrow>
    CheckFlags \<Rightarrow> (string + string set) option" where
  \<comment> \<open>\<open>None\<close> when the search for the file does not end\<close>
  "anneal_checks w readFile parse org f =
     map_option (\<lambda>cfgPath. case config_entries readFile parse cfgPath of
          Inl e \<Rightarrow> Inl e
        | Inr config \<Rightarrow> select_checks org f config)
       (if cfChecksConfig f \<noteq> [] then Some (cfChecksConfig f) else findChecksConfig w ''.'')"

subsection \<open>What the set switches\<close>

record AnalysisSwitches =
  enableAdlDiag :: bool
  enableCtadDiag :: bool
  enableSpecializationDiag :: bool
  enableDefaultArgDiag :: bool
  enableStaticInitOrderDiag :: bool
  enableExceptionEscapeDiag :: bool
  enableHeaderStaticDiag :: bool
  enableExceptionSpecDiag :: bool
  enableCoverageDiag :: bool
  enableOdrDiag :: bool
  disabledChecks :: "string list"

definition analysis_switches :: "OrgChecks \<Rightarrow> string list \<Rightarrow> string set \<Rightarrow> AnalysisSwitches" where
  "analysis_switches org orgDisabled enabled =
     \<lparr>enableAdlDiag = (''adl-visibility'' \<in> enabled),
      enableCtadDiag = (''ctad-visibility'' \<in> enabled),
      enableSpecializationDiag = (''specialization-visibility'' \<in> enabled),
      enableDefaultArgDiag = (''default-arg-divergence'' \<in> enabled),
      enableStaticInitOrderDiag = (''static-init-order'' \<in> enabled),
      enableExceptionEscapeDiag = (''exception-escape'' \<in> enabled),
      enableHeaderStaticDiag = (''header-static-duplication'' \<in> enabled),
      enableExceptionSpecDiag = (''exception-spec-divergence'' \<in> enabled),
      enableCoverageDiag = (''coverage-properties'' \<in> enabled),
      enableOdrDiag = (''odr-violations'' \<in> enabled),
      disabledChecks = orgDisabled @ filter (\<lambda>n. n \<notin> enabled) (orgNames org)\<rparr>"

definition wants_dead_code :: "string set \<Rightarrow> bool" where
  "wants_dead_code enabled \<longleftrightarrow> ''dead-code'' \<in> enabled"

definition wants_init_hazards :: "string set \<Rightarrow> bool" where
  "wants_init_hazards enabled \<longleftrightarrow> ''static-init-hazards'' \<in> enabled"

definition workerChecks :: "string set \<Rightarrow> string" where
  \<comment> \<open>the value of \<open>--checks\<close> for a worker process\<close>
  "workerChecks enabled = fold (\<lambda>n s. s @ '','' @ n) (sorted_list_of_set enabled) ''-all''"


end
