(* ===== verification/CheckProps.thy ===== *)
theory CheckProps
  imports CheckSet
begin

text \<open>
  The check selection: the last entry that mentions a check decides, and a worker process that is
  given the resolved set ends with the set of its parent.
\<close>

subsection \<open>The last entry decides\<close>

definition entry_switches :: "OrgChecks \<Rightarrow> string \<Rightarrow> string \<Rightarrow> bool" where
  \<comment> \<open>the entry names the check or a group it belongs to\<close>
  "entry_switches org c raw \<longleftrightarrow> (case entry_members org raw of Inr members \<Rightarrow> c \<in> set members | Inl _ \<Rightarrow> False)"

lemma resolve_append:
  "resolveCheckSpec org (xs @ ys) enabled =
     (case resolveCheckSpec org xs enabled of
        (Some err, r) \<Rightarrow> (Some err, r)
      | (None, r) \<Rightarrow> resolveCheckSpec org ys r)"
  by (induction xs arbitrary: enabled) (auto split: sum.split)

text \<open>C39: In a specification without errors a check ends enabled exactly when the last entry that names
  it, by itself or through a group, enables it; a check no entry names keeps its default.\<close>

theorem last_entry_decides:
  assumes "resolveCheckSpec org spec enabled = (None, r)"
  shows "c \<in> r \<longleftrightarrow>
     (case List.find (entry_switches org c) (rev spec) of
        Some raw \<Rightarrow> \<not> entry_disables raw
      | None \<Rightarrow> c \<in> enabled)"
  using assms
proof (induction spec arbitrary: r rule: rev_induct)
  case (snoc raw spec)
  then obtain r1 where r1: "resolveCheckSpec org spec enabled = (None, r1)"
    by (cases "resolveCheckSpec org spec enabled") (auto simp: resolve_append split: option.splits)
  with snoc.prems obtain members where m: "entry_members org raw = Inr members"
    and r: "r = (if entry_disables raw then r1 - set members else r1 \<union> set members)"
    by (auto simp: resolve_append split: sum.splits)
  show ?case using snoc.IH[OF r1] r m by (auto simp: entry_switches_def)
qed simp

theorem last_entry_decides_witness:
  "''dead-code'' \<in> snd (resolveCheckSpec \<lparr>orgNames = [], orgGroups = []\<rparr> [''all'', ''-noisy'', ''-dead-code'', ''compute-heavy''] {})
   \<longleftrightarrow> (case List.find (entry_switches \<lparr>orgNames = [], orgGroups = []\<rparr> ''dead-code'')
           (rev [''all'', ''-noisy'', ''-dead-code'', ''compute-heavy'']) of
        Some raw \<Rightarrow> \<not> entry_disables raw
      | None \<Rightarrow> ''dead-code'' \<in> {})"
proof (rule last_entry_decides)
  have "fst (resolveCheckSpec \<lparr>orgNames = [], orgGroups = []\<rparr> [''all'', ''-noisy'', ''-dead-code'', ''compute-heavy''] {}) = None"
    by code_simp
  then show "resolveCheckSpec \<lparr>orgNames = [], orgGroups = []\<rparr> [''all'', ''-noisy'', ''-dead-code'', ''compute-heavy''] {} =
      (None, snd (resolveCheckSpec \<lparr>orgNames = [], orgGroups = []\<rparr> [''all'', ''-noisy'', ''-dead-code'', ''compute-heavy''] {}))"
    by (metis prod.collapse)
qed

subsection \<open>Workers\<close>

definition plain_name :: "string \<Rightarrow> bool" where
  \<comment> \<open>survives being joined with commas and split again\<close>
  "plain_name n \<longleftrightarrow> n \<noteq> [] \<and> hd n \<noteq> CHR ''-'' \<and> CHR '','' \<notin> set n \<and> hd n \<noteq> CHR '' '' \<and> last n \<noteq> CHR '' ''"

definition plain_checks :: "OrgChecks \<Rightarrow> bool" where
  \<comment> \<open>no check is named like a group, and groups hold known checks only\<close>
  "plain_checks org \<longleftrightarrow>
     (\<forall>n \<in> set (orgNames org). plain_name n) \<and>
     (\<forall>n \<in> set (known_checks org). map_of (check_groups org) n = None) \<and>
     (\<forall>grp members. (grp, members) \<in> set (orgGroups org) \<longrightarrow> set members \<subseteq> set (known_checks org))"

lemma builtin_plain: "c \<in> set builtinAnnealChecks \<Longrightarrow> plain_name (ckName c)"
proof -
  have "list_all (\<lambda>c. plain_name (ckName c)) builtinAnnealChecks" by code_simp
  then show "c \<in> set builtinAnnealChecks \<Longrightarrow> plain_name (ckName c)" by (simp add: list_all_iff)
qed

lemma known_plain: "plain_checks org \<Longrightarrow> n \<in> set (known_checks org) \<Longrightarrow> plain_name n"
  by (auto simp: known_checks_def plain_checks_def builtin_plain)

text \<open>The members of the groups.\<close>

lemma upush_mem: "x \<in> set (ulist (upush k v m) g) \<longleftrightarrow> x \<in> set (ulist m g) \<or> (g = k \<and> x = v)"
  by (auto simp: umap_simps)

definition listed :: "(string, string list) umap \<Rightarrow> string \<Rightarrow> string \<Rightarrow> bool" where
  "listed m g x \<longleftrightarrow> x \<in> set (ulist m g)"

lemma org_fold_members:
  "x \<in> set (ulist (fold (\<lambda>(grp, members) m. AList.update grp (ulist m grp @ members) m) gs m) g) \<longleftrightarrow>
     x \<in> set (ulist m g) \<or> (\<exists>members. (g, members) \<in> set gs \<and> x \<in> set members)"
proof (induction gs arbitrary: m)
  case (Cons p gs)
  obtain grp members where p: "p = (grp, members)" by fastforce
  have "x \<in> set (ulist (AList.update grp (ulist m grp @ members) m) g) \<longleftrightarrow>
      x \<in> set (ulist m g) \<or> (g = grp \<and> x \<in> set members)"
    by (auto simp: ulist_def umap_simps split: option.splits)
  with Cons show ?case by (auto simp: p)
qed simp

lemma push_all_members:
  "x \<in> set (ulist (fold (\<lambda>n. upush k n) ns m) g) \<longleftrightarrow> x \<in> set (ulist m g) \<or> (g = k \<and> x \<in> set ns)"
  by (induction ns arbitrary: m) (auto simp: upush_mem)

lemma push_groups_members:
  "x \<in> set (ulist (fold (\<lambda>grp. upush grp n) gs m) g) \<longleftrightarrow> x \<in> set (ulist m g) \<or> (x = n \<and> g \<in> set gs)"
  by (induction gs arbitrary: m) (auto simp: upush_mem)

lemma builtin_members:
  "x \<in> set (ulist (fold (\<lambda>c m. fold (\<lambda>grp. upush grp (ckName c)) (ckGroups c) (upush ''all'' (ckName c) m)) cs m) g) \<longleftrightarrow>
     x \<in> set (ulist m g) \<or> (\<exists>c \<in> set cs. x = ckName c \<and> (g = ''all'' \<or> g \<in> set (ckGroups c)))"
  by (induction cs arbitrary: m) (auto simp: push_groups_members upush_mem)

lemma group_members:
  "x \<in> set (ulist (check_groups org) g) \<longleftrightarrow>
     (\<exists>c \<in> set builtinAnnealChecks. x = ckName c \<and> (g = ''all'' \<or> g \<in> set (ckGroups c))) \<or>
     (g = ''all'' \<and> x \<in> set (orgNames org)) \<or> (\<exists>members. (g, members) \<in> set (orgGroups org) \<and> x \<in> set members)"
proof -
  have none: "ulist [] g = []" by (simp add: ulist_def)
  show ?thesis by (auto simp: check_groups_def org_fold_members push_all_members builtin_members none)
qed

lemma all_members: "set (known_checks org) \<subseteq> set (ulist (check_groups org) ''all'')"
  by (auto simp: group_members known_checks_def)

lemma members_known:
  assumes "plain_checks org" and "entry_members org raw = Inr members"
  shows "set members \<subseteq> set (known_checks org)"
proof (cases "map_of (check_groups org) (entry_name raw)")
  case (Some ms)
  then have ms: "set ms = set (ulist (check_groups org) (entry_name raw))" by (simp add: ulist_def)
  have "members = ms" using assms(2) Some by (auto simp: entry_members_def Let_def split: if_splits)
  moreover have "set ms \<subseteq> set (known_checks org)"
    unfolding ms using assms(1) by (fastforce simp: group_members known_checks_def plain_checks_def)
  ultimately show ?thesis by simp
qed (use assms(2) in \<open>auto simp: entry_members_def Let_def split: if_splits\<close>)

lemma default_known: "defaultCheckSet org \<subseteq> set (known_checks org)"
  by (auto simp: defaultCheckSet_def known_checks_def)

lemma resolve_known:
  assumes "plain_checks org" and "enabled \<subseteq> set (known_checks org)"
  shows "snd (resolveCheckSpec org spec enabled) \<subseteq> set (known_checks org)"
  using assms(2)
proof (induction spec arbitrary: enabled)
  case (Cons raw spec)
  show ?case
  proof (cases "entry_members org raw")
    case (Inr members)
    then have "set members \<subseteq> set (known_checks org)" by (rule members_known[OF assms(1)])
    then have "enabled - set members \<subseteq> set (known_checks org)" "enabled \<union> set members \<subseteq> set (known_checks org)"
      using Cons.prems by auto
    then show ?thesis using Inr Cons.IH by simp
  qed (use Cons.prems in simp)
qed simp

text \<open>The specification of a worker.\<close>

lemma strip_plain: "plain_name n \<Longrightarrow> strip_spaces n = n"
proof -
  assume n: "plain_name n"
  then have "dropWhile (\<lambda>c. c = CHR '' '') n = n" by (cases n) (auto simp: plain_name_def)
  moreover have "dropWhile (\<lambda>c. c = CHR '' '') (rev n) = rev n"
    using n by (cases n rule: rev_cases) (auto simp: plain_name_def)
  ultimately show ?thesis by (simp add: strip_spaces_def)
qed

lemma split_worker:
  assumes "\<And>n. n \<in> set ns \<Longrightarrow> plain_name n" and "CHR '','' \<notin> set s"
  shows "split_on CHR '','' (fold (\<lambda>n s. s @ '','' @ n) ns s) = s # ns"
proof -
  have "fold (\<lambda>n s. s @ '','' @ n) ns s = s @ concat (map (\<lambda>n. CHR '','' # n) ns)" for s
    by (induction ns arbitrary: s) simp_all
  moreover have "split_on CHR '','' (s @ concat (map (\<lambda>n. CHR '','' # n) ns)) = s # ns"
    using assms
  proof (induction ns arbitrary: s)
    case (Cons n ns)
    have "CHR '','' \<notin> set n" using Cons.prems(1)[of n] by (simp add: plain_name_def)
    then have "split_on CHR '','' (n @ concat (map (\<lambda>n. CHR '','' # n) ns)) = n # ns"
      using Cons.prems(1) by (intro Cons.IH) auto
    with Cons.prems(2) show ?case by (simp add: split_on_append split_on_free)
  qed (simp add: split_on_free)
  ultimately show ?thesis by simp
qed

lemma worker_entries:
  assumes "finite enabled" and "\<And>n. n \<in> enabled \<Longrightarrow> plain_name n"
  shows "split_checks (workerChecks enabled) = ''-all'' # sorted_list_of_set enabled"
proof -
  have "map strip_spaces (sorted_list_of_set enabled) = sorted_list_of_set enabled"
    using assms by (intro map_idI) (simp add: strip_plain)
  moreover have "filter (\<lambda>e. e \<noteq> []) (sorted_list_of_set enabled) = sorted_list_of_set enabled"
    using assms by (auto simp: filter_id_conv plain_name_def)
  moreover have "split_on CHR '','' (workerChecks enabled) = ''-all'' # sorted_list_of_set enabled"
    unfolding workerChecks_def using assms by (intro split_worker) simp_all
  moreover have "strip_spaces ''-all'' = ''-all''" by (simp add: strip_spaces_def)
  ultimately show ?thesis by (simp add: split_checks_def)
qed

lemma resolve_names:
  assumes "plain_checks org" and "set ns \<subseteq> set (known_checks org)"
  shows "resolveCheckSpec org ns s = (None, s \<union> set ns)"
  using assms(2)
proof (induction ns arbitrary: s)
  case (Cons n ns)
  then have n: "n \<in> set (known_checks org)" "\<not> entry_disables n" "n \<noteq> []"
    using known_plain[OF assms(1), of n] by (auto simp: plain_name_def entry_disables_def)
  then have "entry_members org n = Inr [n]"
    using assms(1) by (simp add: entry_members_def entry_name_def Let_def plain_checks_def)
  with n Cons show ?case by simp
qed simp

lemma resolve_minus_all:
  assumes "plain_checks org" and "s \<subseteq> set (known_checks org)"
  shows "resolveCheckSpec org (''-all'' # ns) s = resolveCheckSpec org ns {}"
proof -
  obtain members where m: "map_of (check_groups org) ''all'' = Some members"
  proof (cases "map_of (check_groups org) ''all''")
    case None
    then have "known_checks org = []" using all_members[of org] by (simp add: ulist_def)
    then show thesis by (simp add: known_checks_def builtinAnnealChecks_def)
  qed (use that in blast)
  then have empty: "s - set members = {}" using assms(2) all_members[of org] by (auto simp: ulist_def)
  show ?thesis using m
    by (simp add: entry_members_def entry_name_def entry_disables_def Let_def empty del: Diff_eq_empty_iff)
qed

definition worker_flags :: "string set \<Rightarrow> CheckFlags" where
  \<comment> \<open>the check flags of a worker's command line\<close>
  "worker_flags enabled =
     \<lparr>cfChecksConfig = [], cfChecks = workerChecks enabled, cfCoverageDiag = False, cfOdrDiag = False, cfDeadCode = False\<rparr>"

text \<open>C40: A worker process started with the resolved set of its parent resolves to exactly that set,
  whatever valid configuration file it discovers.  It needs groups to hold known checks only, no check
  to be named like a group, and the names of organization checks to be free of commas and of blanks at
  their ends.\<close>

theorem workers_run_same_checks:
  assumes "plain_checks org" and "select_checks org f config = Inr enabled"
    and "fst (resolveCheckSpec org found (defaultCheckSet org)) = None"
  shows "select_checks org (worker_flags enabled) found = Inr enabled"
proof -
  obtain base where base: "resolveCheckSpec org found (defaultCheckSet org) = (None, base)"
    using assms(3) by (cases "resolveCheckSpec org found (defaultCheckSet org)") simp
  have base_known: "base \<subseteq> set (known_checks org)"
    using resolve_known[OF assms(1) default_known, of found] by (simp add: base)
  have "enabled = snd (resolveCheckSpec org (config @ split_checks (cfChecks f) @ legacy_entries f) (defaultCheckSet org))"
    (is "_ = snd ?r") using assms(2) by (cases ?r; cases "fst ?r") (auto simp: select_checks_def)
  then have known: "enabled \<subseteq> set (known_checks org)" by (simp only: resolve_known[OF assms(1) default_known])
  then have fin: "finite enabled" by (rule finite_subset) simp
  have "split_checks (workerChecks enabled) = ''-all'' # sorted_list_of_set enabled"
    using known by (intro worker_entries[OF fin] known_plain[OF assms(1)]) auto
  then have "resolveCheckSpec org (found @ split_checks (workerChecks enabled)) (defaultCheckSet org) = (None, enabled)"
    using known fin by (simp add: resolve_append base resolve_minus_all[OF assms(1) base_known] resolve_names[OF assms(1)]
        del: resolveCheckSpec.simps)
  then show ?thesis by (simp add: select_checks_def worker_flags_def legacy_entries_def)
qed

definition demo_org :: OrgChecks where
  "demo_org = \<lparr>orgNames = [''house-style''], orgGroups = [(''house'', [''house-style'', ''dead-code''])]\<rparr>"

definition demo_flags :: CheckFlags where
  "demo_flags = \<lparr>cfChecksConfig = [], cfChecks = ''-all, house'', cfCoverageDiag = False, cfOdrDiag = True, cfDeadCode = False\<rparr>"

theorem workers_run_same_checks_witness:
  "select_checks demo_org (worker_flags {''house-style'', ''dead-code'', ''odr-violations''}) [''noisy''] =
     Inr {''house-style'', ''dead-code'', ''odr-violations''}"
proof (rule workers_run_same_checks)
  have "\<forall>n \<in> set (orgNames demo_org). plain_name n" by (simp add: demo_org_def plain_name_def)
  moreover have "\<forall>n \<in> set (known_checks demo_org). map_of (check_groups demo_org) n = None" by code_simp
  moreover have "set members \<subseteq> set (known_checks demo_org)" if "(grp, members) \<in> set (orgGroups demo_org)" for grp members
  proof -
    have "list_all (\<lambda>n. n \<in> set (known_checks demo_org)) [''house-style'', ''dead-code'']" by code_simp
    with that show ?thesis by (simp add: demo_org_def)
  qed
  ultimately show "plain_checks demo_org" by (auto simp: plain_checks_def)
  show "select_checks demo_org demo_flags [] = Inr {''house-style'', ''dead-code'', ''odr-violations''}" by code_simp
  show "fst (resolveCheckSpec demo_org [''noisy''] (defaultCheckSet demo_org)) = None" by code_simp
qed

text \<open>A group with a member that no check has is accepted by the parent and refused by every worker; a
  bad entry in the file a worker discovers stops it although its own specification is complete.\<close>

lemma unknown_member_stops_workers:
  "select_checks \<lparr>orgNames = [], orgGroups = [(''house'', [''nosuch''])]\<rparr>
     \<lparr>cfChecksConfig = [], cfChecks = ''-all,house'', cfCoverageDiag = False, cfOdrDiag = False, cfDeadCode = False\<rparr> [] =
     Inr {''nosuch''}"
  "\<exists>e. select_checks \<lparr>orgNames = [], orgGroups = [(''house'', [''nosuch''])]\<rparr> (worker_flags {''nosuch''}) [] = Inl e"
proof -
  show "select_checks \<lparr>orgNames = [], orgGroups = [(''house'', [''nosuch''])]\<rparr>
     \<lparr>cfChecksConfig = [], cfChecks = ''-all,house'', cfCoverageDiag = False, cfOdrDiag = False, cfDeadCode = False\<rparr> [] =
     Inr {''nosuch''}" by code_simp
  let ?x = "select_checks \<lparr>orgNames = [], orgGroups = [(''house'', [''nosuch''])]\<rparr> (worker_flags {''nosuch''}) []"
  have "(case ?x of Inl _ \<Rightarrow> True | Inr _ \<Rightarrow> False)" by code_simp
  then show "\<exists>e. ?x = Inl e" by (cases ?x) simp_all
qed

lemma bad_file_stops_worker:
  assumes "entry_members org raw = Inl err"
  shows "select_checks org (worker_flags enabled) (raw # config) = Inl (''anneal: checks: '' @ err)"
  using assms by (simp add: select_checks_def)

end
