(* ===== verification/BakeIndex.thy ===== *)
theory BakeIndex
  imports McpServer
begin

text \<open>
  \<open>megascope index\<close> and \<open>megascope serve\<close> (the megascope part of src/main.cpp): which units are baked,
  whether a saved index is refreshed or rebuilt, what is saved, and the server that is started.  The
  bake, which runs clang in this process or in worker processes, is an argument from a list of files
  and the bake options to the three indexes and the files each parse opened; the precompiled headers,
  the statistics file and the messages on stderr are left out.
\<close>

datatype MegascopeVerb = LegacyVerb | IndexVerb | ServeVerb

record IndexOptions =
  ioBuildPath :: string
  ioIndex :: string
  ioSources :: "string list"
  ioSourceList :: string
  ioSourceRe :: string
  ioSkipPaths :: "string list"
  ioCollapsePaths :: "string list"
  ioLockTypes :: "string list"
  ioChannelTypesJson :: string
  ioOrgConfig :: string
  ioEntryPoints :: "string list"
  ioForce :: bool
  ioMcp :: bool
  ioDumpNodes :: string

record BakedIndexes =
  bkGraph :: CallGraph
  bkFlow :: ControlFlowIndex
  bkChannels :: ChannelIndex
  bkDeps :: TuDependencies

type_synonym Bake = "string list \<Rightarrow> BakedIndexes"

record IndexWorld =
  iwCli :: CliWorld
  iwStat :: "string \<Rightarrow> (64 word \<times> 64 word) option"
  iwSaveFault :: SaveFault
  iwBake :: "BakeOptions \<Rightarrow> Bake"
  iwReindex :: "BakeOptions \<Rightarrow> string \<Rightarrow> Indexes \<Rightarrow> Indexes"

subsection \<open>Refresh or rebuild\<close>

definition config_match :: "SnapshotMeta \<Rightarrow> BakeOptions \<Rightarrow> bool" where
  "config_match m b \<longleftrightarrow>
     smCollapsePaths m = boCollapsePaths b \<and> smLockAllowlist m = boLockAllowlist b \<and>
     smLockBuiltins m = boLockBuiltins b \<and> smChannelTypes m = boChannelTypes b"

datatype Plan =
    FullBuild
  | Refresh "string list" "string list" nat \<comment> \<open>units to drop, units to bake, units dirty through a header\<close>

definition dropped_units :: "SnapshotMeta \<Rightarrow> string list \<Rightarrow> string list" where
  "dropped_units m files = filter (\<lambda>p. p \<notin> set files) (map stPath (smFiles m))"

definition dirty_paths :: "FileStamp list \<Rightarrow> bool list \<Rightarrow> string list" where
  "dirty_paths stamps dirty = map (\<lambda>(s, _). stPath s) (filter snd (zip stamps dirty))"

definition refresh_plan :: "(string \<Rightarrow> (64 word \<times> 64 word) option) \<Rightarrow> bool \<Rightarrow> BakeOptions \<Rightarrow> SnapshotMeta \<Rightarrow>
    string list \<Rightarrow> FileStamp list \<Rightarrow> Plan" where
  "refresh_plan stat force b m files stamps =
     (let (dirty, viaDeps) = dirtyTUs stat m stamps in
      if force then FullBuild
      else if \<not> config_match m b then FullBuild
      else if length (filter id dirty) * 2 > length files then FullBuild
      else Refresh (dropped_units m files) (dirty_paths stamps dirty) viaDeps)"

definition warm_refresh :: "Bake \<Rightarrow> SnapshotMeta \<Rightarrow> SnapshotData \<Rightarrow> string list \<Rightarrow> string list \<Rightarrow> BakedIndexes" where
  \<comment> \<open>one batched removal of the dropped and the known dirty units, then one bake that is merged\<close>
  "warm_refresh bake m full toDrop toBake =
     (let recorded = set (map stPath (smFiles m));
          toRemove = toDrop @ filter (\<lambda>p. p \<in> recorded) toBake;
          kept = \<lparr>bkGraph = snd (removeTUs toRemove (sdGraph full)),
                  bkFlow = snd (removeContexts toRemove (sdFlow full)),
                  bkChannels = snd (removeSites toRemove (sdChannels full)),
                  bkDeps = fold AList.delete (toDrop @ toBake) (dependenciesOf m)\<rparr>
      in if toBake = [] then kept
         else let fresh = bake toBake in
              \<lparr>bkGraph = absorb (bkGraph fresh) (bkGraph kept),
               bkFlow = absorbIndex (bkFlow fresh) (bkFlow kept),
               bkChannels = absorbChannels (bkChannels fresh) (bkChannels kept),
               bkDeps = fold (\<lambda>(p, ds). AList.update p ds) (bkDeps fresh) (bkDeps kept)\<rparr>)"

record BuildOutcome =
  outIndexes :: "BakedIndexes option" \<comment> \<open>\<open>None\<close> when the saved index was not decoded\<close>
  outCold :: bool
  outChanged :: bool
  outRefreshed :: nat
  outViaDeps :: nat
  outDropped :: nat

definition cold_build :: "Bake \<Rightarrow> string list \<Rightarrow> BuildOutcome" where
  "cold_build bake files =
     \<lparr>outIndexes = Some (bake files), outCold = True, outChanged = True, outRefreshed = 0, outViaDeps = 0,
      outDropped = 0\<rparr>"

definition build_indexes :: "IndexWorld \<Rightarrow> IndexOptions \<Rightarrow> MegascopeVerb \<Rightarrow> string \<Rightarrow> BakeOptions \<Rightarrow>
    SnapshotData option \<Rightarrow> string list \<Rightarrow> FileStamp list \<Rightarrow> BuildOutcome option" where
  \<comment> \<open>\<open>None\<close> when the saved index holds an enumeration byte without a name\<close>
  "build_indexes w opts verb path b snap files stamps =
     (let bake = iwBake w b in
      case snap of
        None \<Rightarrow> Some (cold_build bake files)
      | Some s \<Rightarrow>
          (case refresh_plan (iwStat w) (ioForce opts) b (sdMeta s) files stamps of
             FullBuild \<Rightarrow> Some (cold_build bake files)
           | Refresh toDrop toBake viaDeps \<Rightarrow>
               if toDrop = [] \<and> toBake = [] \<and> verb = IndexVerb \<and> ioDumpNodes opts = []
               then Some \<lparr>outIndexes = None, outCold = False, outChanged = False, outRefreshed = 0,
                          outViaDeps = 0, outDropped = 0\<rparr>
               else
                 (case load_snapshot Mutable kSectionAll path (cwFiles (iwCli w)) of
                    Rejected \<Rightarrow> Some (cold_build bake files)
                  | Unnamed \<Rightarrow> None
                  | Loaded full \<Rightarrow>
                      Some \<lparr>outIndexes = Some (warm_refresh bake (sdMeta s) full toDrop toBake), outCold = False,
                            outChanged = (toBake \<noteq> [] \<or> toDrop \<noteq> []), outRefreshed = length toBake,
                            outViaDeps = viaDeps, outDropped = length toDrop\<rparr>)))"

subsection \<open>What is saved and reported\<close>

definition saved_meta :: "BakeOptions \<Rightarrow> FileStamp list \<Rightarrow> TuDependencies \<Rightarrow> string list \<Rightarrow> SnapshotMeta" where
  "saved_meta b stamps deps eps =
     (recordDependencies deps
        (empty_meta\<lparr>smCollapsePaths := boCollapsePaths b, smLockAllowlist := boLockAllowlist b,
           smLockBuiltins := boLockBuiltins b, smChannelTypes := boChannelTypes b, smFiles := stamps\<rparr>))
       \<lparr>smEntryPoints := eps\<rparr>"

definition save_index :: "IndexWorld \<Rightarrow> IndexOptions \<Rightarrow> string \<Rightarrow> BakeOptions \<Rightarrow> FileStamp list \<Rightarrow> BuildOutcome \<Rightarrow>
    bool \<times> FileSystem" where
  \<comment> \<open>whether saving failed, and the files after it\<close>
  "save_index w opts path b stamps out =
     (let fs = cwFiles (iwCli w) in
      if path = [] \<or> \<not> outChanged out then (False, fs)
      else case outIndexes out of
        None \<Rightarrow> (False, fs)
      | Some ix \<Rightarrow>
          (let (ok, fs1) = save_snapshot (iwSaveFault w) path (bkGraph ix) (bkFlow ix)
                 (saved_meta b stamps (bkDeps ix) (ioEntryPoints opts)) (bkChannels ix) fs
           in (\<not> ok, fs1)))"

definition live_counts :: "SnapshotData option \<Rightarrow> BuildOutcome \<Rightarrow> IndexSummary" where
  \<comment> \<open>the counts of the header when the graph was not decoded\<close>
  "live_counts snap out =
     (case outIndexes out of
        Some ix \<Rightarrow> \<lparr>isNodes = of_nat (nodeCount (bkGraph ix)), isEdges = of_nat (edgeCount (bkGraph ix)),
                    isCallSites = of_nat (contextCount (bkFlow ix)), isChannelSites = of_nat (channelSize (bkChannels ix))\<rparr>
      | None \<Rightarrow> (case snap of Some s \<Rightarrow> sdSummary s
                 | None \<Rightarrow> \<lparr>isNodes = 0, isEdges = 0, isCallSites = 0, isChannelSites = 0\<rparr>))"

definition index_summary :: "string \<Rightarrow> string list \<Rightarrow> SnapshotData option \<Rightarrow> BuildOutcome \<Rightarrow> Json" where
  "index_summary path files snap out =
     (let n = live_counts snap out in
      JObj [(''index'', JStr path), (''mode'', JStr (if outCold out then ''cold'' else ''warm'')),
            (''files'', jcount files), (''refreshed'', JInt (int (outRefreshed out))),
            (''refreshed_for_headers'', JInt (int (outViaDeps out))), (''dropped'', JInt (int (outDropped out))),
            (''nodes'', JInt (sint (isNodes n))), (''edges'', JInt (sint (isEdges n))),
            (''call_sites'', JInt (sint (isCallSites n))), (''channel_sites'', JInt (sint (isChannelSites n)))])"

definition serve_entry_points :: "IndexOptions \<Rightarrow> SnapshotData option \<Rightarrow> string list" where
  "serve_entry_points opts snap =
     (if ioEntryPoints opts \<noteq> [] then ioEntryPoints opts
      else case snap of
        Some s \<Rightarrow> if smEntryPoints (sdMeta s) \<noteq> [] then smEntryPoints (sdMeta s) else [''main'']
      | None \<Rightarrow> [''main''])"

subsection \<open>The two verbs\<close>

datatype IndexRun =
    IndexExit int string FileSystem \<comment> \<open>the exit code, stdout and the files\<close>
  | IndexServes McpServer FileSystem

definition early_refusal :: "IndexWorld \<Rightarrow> IndexOptions \<Rightarrow> MegascopeVerb \<Rightarrow> bool" where
  \<comment> \<open>no build path, a list that is no regular file while stdin is the server's, no transport\<close>
  "early_refusal w opts verb \<longleftrightarrow>
     ioBuildPath opts = [] \<or>
     (ioSourceList opts \<noteq> [] \<and> verb \<noteq> IndexVerb \<and>
        (ioSourceList opts = ''-'' \<or> \<not> swRegularFile (cwSources (iwCli w)) (ioSourceList opts))) \<or>
     (\<not> ioMcp opts \<and> verb \<noteq> IndexVerb)"

definition written_index :: "IndexWorld \<Rightarrow> IndexOptions \<Rightarrow> MegascopeVerb \<Rightarrow> string" where
  "written_index w opts verb =
     (if verb \<noteq> LegacyVerb \<and> ioIndex opts = [] then defaultIndexPath (cwJoinPath (iwCli w)) (ioBuildPath opts)
      else ioIndex opts)"

definition index_selection :: "IndexOptions \<Rightarrow> SnapshotData option \<Rightarrow> SourceSelection" where
  "index_selection opts snap =
     \<lparr>ssExplicit = ioSources opts, ssListFile = ioSourceList opts, ssRegex = ioSourceRe opts,
      ssSkipPaths = ioSkipPaths opts,
      ssRecorded = (case snap of Some s \<Rightarrow> map stPath (smFiles (sdMeta s)) | None \<Rightarrow> [])\<rparr>"

definition bake_options :: "IndexWorld \<Rightarrow> IndexOptions \<Rightarrow> BakeOptions option" where
  \<comment> \<open>\<open>None\<close> when one of the two configuration files is bad\<close>
  "bake_options w opts =
     (let cli = iwCli w; readFile = swReadFile (cwSources cli) in
      case (if ioChannelTypesJson opts = [] then Inr []
            else parseChannelTypesJson readFile (cwParse cli) (ioChannelTypesJson opts) []) of
        Inl _ \<Rightarrow> None
      | Inr channels \<Rightarrow>
          (case loadOrgConfigIfSet readFile (cwParse cli) (cwRegex cli) (ioOrgConfig opts) (cwRegistry cli) of
             (Inl _, _) \<Rightarrow> None
           | (Inr org, r) \<Rightarrow>
               Some (mergeExtensionConfig org r
                 \<lparr>boLockAllowlist = ioLockTypes opts, boLockBuiltins = True, boChannelTypes = channels,
                  boCollapsePaths = ioCollapsePaths opts\<rparr>)))"

definition finish_index :: "IndexWorld \<Rightarrow> IndexOptions \<Rightarrow> MegascopeVerb \<Rightarrow> string \<Rightarrow> BakeOptions \<Rightarrow>
    SnapshotData option \<Rightarrow> string list \<Rightarrow> FileStamp list \<Rightarrow> BuildOutcome \<Rightarrow> IndexRun" where
  "finish_index w opts verb path b snap files stamps out =
     (let (saveFailed, fs) = save_index w opts path b stamps out in
      case outIndexes out of
        Some ix \<Rightarrow>
          if verb = IndexVerb
          then (if saveFailed then IndexExit 1 [] fs
                else IndexExit 0 (writeJson (cwPrinter (iwCli w)) (index_summary path files snap out) False) fs)
          else IndexServes (new_server (bkGraph ix, bkFlow ix, bkChannels ix) (serve_entry_points opts snap)
                              (Some (iwReindex w b))) fs
      | None \<Rightarrow> IndexExit 0 (writeJson (cwPrinter (iwCli w)) (index_summary path files snap out) False) fs)"

definition run_index :: "IndexWorld \<Rightarrow> IndexOptions \<Rightarrow> MegascopeVerb \<Rightarrow> string \<Rightarrow> IndexRun option" where
  "run_index w opts verb stdin_text =
     (let cli = iwCli w; fs = cwFiles cli; failed = Some (IndexExit 1 [] fs) in
      if early_refusal w opts verb then failed
      else case cwDatabase cli (ioBuildPath opts) of
        Inl _ \<Rightarrow> failed
      | Inr all \<Rightarrow>
          (let path = written_index w opts verb in
           case (if path = [] then Rejected else load_snapshot ReadOnly 0 path fs) of
             Unnamed \<Rightarrow> None
           | loaded \<Rightarrow>
               (let snap = (case loaded of Loaded s \<Rightarrow> Some s | _ \<Rightarrow> None) in
                case selectSources (cwSources cli) all (index_selection opts snap) stdin_text of
                  Inl _ \<Rightarrow> failed
                | Inr (files, _) \<Rightarrow>
                    if files = [] then failed
                    else case bake_options w opts of
                      None \<Rightarrow> failed
                    | Some b \<Rightarrow>
                        (let stamps = stampFiles (iwStat w) files in
                         map_option (finish_index w opts verb path b snap files stamps)
                           (build_indexes w opts verb path b snap files stamps)))))"

end
