(* ===== verification/BakeIndexProps.thy ===== *)
theory BakeIndexProps
  imports BakeIndex CliProps "HOL-Library.Multiset"
begin

text \<open>
  The refresh of a saved index against a rebuild: whatever \<open>megascope index\<close> decides, the index it
  ends with holds the facts a cold bake of the selected units would give.  The facts are the
  registrations of every call edge, in total and per unit, the call-site contexts as a multiset, and
  the registrations of every channel site.
\<close>

subsection \<open>Facts of units\<close>

record UnitFacts =
  \<comment> \<open>what one unit contributes to the three indexes\<close>
  ufEdges :: "string \<Rightarrow> SKey \<Rightarrow> nat"
  ufContexts :: "string \<Rightarrow> CallSiteContext list"
  ufSites :: "string \<Rightarrow> SiteKey \<Rightarrow> nat"

definition holds_units :: "UnitFacts \<Rightarrow> string set \<Rightarrow> BakedIndexes \<Rightarrow> bool" where
  \<comment> \<open>the indexes hold the facts of these units and no others\<close>
  "holds_units F us b \<longleftrightarrow>
     built (bkGraph b) \<and> cf_built (bkFlow b) \<and> ch_built (bkChannels b) \<and>
     (\<forall>k. edge_refs (bkGraph b) k = (\<Sum>u \<in> us. ufEdges F u k)) \<and>
     (\<forall>t k. tu_edge_refs (bkGraph b) t k = (if t \<in> us then ufEdges F t k else 0)) \<and>
     mset (allContexts (bkFlow b)) = (\<Sum>u \<in> us. mset (ufContexts F u)) \<and>
     (\<forall>k. site_refs (bkChannels b) k = (\<Sum>u \<in> us. ufSites F u k))"

definition site_provenance :: "UnitFacts \<Rightarrow> string set \<Rightarrow> BakedIndexes \<Rightarrow> bool" where
  "site_provenance F us b \<longleftrightarrow> (\<forall>t k. tu_site_refs (bkChannels b) t k = (if t \<in> us then ufSites F t k else 0))"

definition contexts_tagged :: "UnitFacts \<Rightarrow> bool" where
  "contexts_tagged F \<longleftrightarrow> (\<forall>u. \<forall>c \<in> set (ufContexts F u). ctxTuPath c = u \<and> u \<noteq> [])"

definition same_facts :: "BakedIndexes \<Rightarrow> BakedIndexes \<Rightarrow> bool" where
  "same_facts a b \<longleftrightarrow>
     (\<forall>t k. edge_refs (bkGraph a) k = edge_refs (bkGraph b) k \<and>
        tu_edge_refs (bkGraph a) t k = tu_edge_refs (bkGraph b) t k) \<and>
     mset (allContexts (bkFlow a)) = mset (allContexts (bkFlow b)) \<and>
     (\<forall>k. site_refs (bkChannels a) k = site_refs (bkChannels b) k)"

definition unit_alike :: "UnitFacts \<Rightarrow> UnitFacts \<Rightarrow> string \<Rightarrow> bool" where
  "unit_alike F G u \<longleftrightarrow> ufEdges F u = ufEdges G u \<and> ufContexts F u = ufContexts G u \<and> ufSites F u = ufSites G u"

subsection \<open>Sums over units\<close>

lemma refresh_sum:
  fixes old new :: "string \<Rightarrow> 'm :: {cancel_comm_monoid_add, comm_monoid_diff}"
  assumes fin: "finite R" "finite Fs" and B: "B \<subseteq> Fs" "Fs - B \<subseteq> R"
    and same: "\<And>u. u \<in> Fs - B \<Longrightarrow> old u = new u"
  shows "(\<Sum>u \<in> R. old u) - (\<Sum>u \<in> (R - Fs) \<union> (B \<inter> R). old u) + (\<Sum>u \<in> B. new u) = (\<Sum>u \<in> Fs. new u)"
proof -
  let ?gone = "(R - Fs) \<union> (B \<inter> R)"
  have "R = ?gone \<union> (Fs - B)" "?gone \<inter> (Fs - B) = {}" using B by auto
  then have "(\<Sum>u \<in> R. old u) = (\<Sum>u \<in> ?gone. old u) + (\<Sum>u \<in> Fs - B. old u)"
    using fin by (metis finite_Un sum.union_disjoint)
  then have "(\<Sum>u \<in> R. old u) - (\<Sum>u \<in> ?gone. old u) = (\<Sum>u \<in> Fs - B. old u)" by simp
  moreover have "(\<Sum>u \<in> Fs - B. old u) = (\<Sum>u \<in> Fs - B. new u)" using same by (intro sum.cong) auto
  moreover have "(\<Sum>u \<in> Fs - B. new u) + (\<Sum>u \<in> B. new u) = (\<Sum>u \<in> Fs. new u)"
    using fin B by (metis sum.subset_diff)
  ultimately show ?thesis by simp
qed

lemma contexts_kept:
  assumes tag: "contexts_tagged F" and fin: "finite R"
  shows "filter_mset (\<lambda>c. \<not> removed_from ts c) (\<Sum>u \<in> R. mset (ufContexts F u)) = (\<Sum>u \<in> R - set ts. mset (ufContexts F u))"
proof -
  have one: "filter_mset (\<lambda>c. \<not> removed_from ts c) (mset (ufContexts F u)) = (if u \<in> set ts then {#} else mset (ufContexts F u))" for u
  proof -
    have "\<not> removed_from ts c \<longleftrightarrow> u \<notin> set ts" if "c \<in> set (ufContexts F u)" for c
      using tag that by (auto simp: contexts_tagged_def removed_from_def)
    then have "filter (\<lambda>c. \<not> removed_from ts c) (ufContexts F u) = filter (\<lambda>_. u \<notin> set ts) (ufContexts F u)"
      by (intro filter_cong) auto
    then show ?thesis by (simp flip: mset_filter)
  qed
  have "filter_mset (\<lambda>c. \<not> removed_from ts c) (\<Sum>u \<in> R. mset (ufContexts F u)) =
      (\<Sum>u \<in> R. filter_mset (\<lambda>c. \<not> removed_from ts c) (mset (ufContexts F u)))"
    using fin by (induction R rule: finite_induct) auto
  also have "\<dots> = (\<Sum>u \<in> R - set ts. mset (ufContexts F u))"
    unfolding one using fin by (simp add: sum.If_cases Diff_eq)
  finally show ?thesis .
qed

subsection \<open>The plan\<close>

lemma zip_dirty:
  "length dirty = length stamps \<Longrightarrow>
   set (dirty_paths stamps dirty) = {stPath (stamps ! i) | i. i < length stamps \<and> dirty ! i}"
  by (force simp: dirty_paths_def set_zip)

lemma stamp_paths: "map stPath (stampFiles stat files) = files"
  by (induction files) (auto simp: stampFiles_def split: option.split)

lemma recorded_some:
  "map_of (recorded_files m) p \<noteq> None \<longleftrightarrow> p \<in> set (map stPath (smFiles m))"
proof -
  have "map_of (fold (\<lambda>i r. AList.update (stPath (smFiles m ! i)) i r) is r) p \<noteq> None \<longleftrightarrow>
      map_of r p \<noteq> None \<or> p \<in> (\<lambda>i. stPath (smFiles m ! i)) ` set is" for "is" r
    by (induction "is" arbitrary: r) (auto simp: umap_simps split: if_splits)
  note all = this[of "[0..<length (smFiles m)]" "[]"]
  have "map (\<lambda>i. stPath (smFiles m ! i)) [0..<length (smFiles m)] = map stPath (smFiles m)"
    by (rule nth_equalityI) simp_all
  then have "(\<lambda>i. stPath (smFiles m ! i)) ` set [0..<length (smFiles m)] = set (map stPath (smFiles m))"
    by (metis list.set_map)
  then show ?thesis using all by (simp add: recorded_files_def)
qed

lemma plan_units:
  assumes "refresh_plan stat force b m files (stampFiles stat files) = Refresh toDrop toBake viaDeps"
  shows "set toDrop = set (map stPath (smFiles m)) - set files"
    and "set toBake \<subseteq> set files" and "set files - set toBake \<subseteq> set (map stPath (smFiles m))"
proof -
  let ?st = "stampFiles stat files" and ?dirty = "fst (dirtyTUs stat m (stampFiles stat files))"
  have t: "toDrop = dropped_units m files" "toBake = dirty_paths ?st ?dirty"
    using assms by (auto simp: refresh_plan_def split_beta split: if_splits)
  have len: "length ?dirty = length ?st" by (simp add: dirtyTUs_def Let_def)
  have path: "stPath (?st ! i) = files ! i" if "i < length files" for i
    using stamp_paths[of stat files] that by (metis length_map nth_map)
  have n: "length ?st = length files" using stamp_paths[of stat files] by (metis length_map)
  show "set toDrop = set (map stPath (smFiles m)) - set files" by (auto simp: t dropped_units_def)
  show "set toBake \<subseteq> set files" unfolding t zip_dirty[OF len] using n path by auto
  show "set files - set toBake \<subseteq> set (map stPath (smFiles m))"
  proof
    fix p assume p: "p \<in> set files - set toBake"
    then obtain i where i: "i < length files" "files ! i = p" by (auto simp: in_set_conv_nth)
    with p have "\<not> ?dirty ! i" unfolding t zip_dirty[OF len] using n path by auto
    then have "\<not> fst (tu_dirty m (recorded_files m) (dep_changed stat m) (?st ! i))"
      using i n by (simp add: dirtyTUs_def Let_def)
    then have "map_of (recorded_files m) p \<noteq> None"
      using path[OF i(1)] i(2) by (auto simp: tu_dirty_def split: option.splits)
    then show "p \<in> set (map stPath (smFiles m))" by (simp only: recorded_some)
  qed
qed

subsection \<open>The refresh\<close>

definition refresh_room :: "BakedIndexes \<Rightarrow> BakedIndexes \<Rightarrow> bool" where
  \<comment> \<open>the string and set tables of the fresh bake fit behind those of the saved index\<close>
  "refresh_room baked old \<longleftrightarrow>
     has_room (length (strings (cgInterner (bkGraph baked)))) (cgInterner (bkGraph old)) \<and>
     merge_room (bkFlow baked) (bkFlow old)"

definition tables :: "ControlFlowIndex \<Rightarrow> string list \<times> TryCatchScope list list \<times> ConditionalGuard list list \<times> StoredRaiiLocal list list" where
  "tables s = (strings (cfInterner s), scopeSets s, guardSets s, raiiSets s)"

lemma release_tables: "tables (crIndex (fold (release_context P) is r)) = tables (crIndex r)"
  by (induction "is" arbitrary: r) (simp_all add: release_context_def Let_def tables_def)

lemma removed_tables: "tables (snd (removeContexts ts s)) = tables s"
  using release_tables[of "fromRemovedTu s ts" "noProvenance s"] release_tables[of "\<lambda>_. True"]
  by (simp add: removeContexts_def Let_def tables_def)

lemma reloaded_tables: "tables (reload_flow b cf) = tables cf"
proof -
  have "tables (fold (\<lambda>c t. if \<not> scLive c then t else insertStored c b t) cs t) = tables t" for cs t
    by (induction cs arbitrary: t) (simp_all add: tables_def insertStored_fields)
  then show ?thesis by (simp add: reload_flow_def) (simp add: tables_def flow_base_def Let_def)
qed

lemma merge_room_tables: "tables s = tables t \<Longrightarrow> merge_room shard s = merge_room shard t"
  by (simp add: merge_room_def tables_def)

definition reloaded :: "BakedIndexes \<Rightarrow> SnapshotData \<Rightarrow> bool" where
  "reloaded old d \<longleftrightarrow>
     sdGraph d = reload_graph True (bkGraph old) \<and> sdFlow d = reload_flow True (bkFlow old) \<and>
     sdChannels d = reload_channels True (bkChannels old)"

lemma holds_unitsD:
  assumes "holds_units F us b"
  shows "built (bkGraph b)" and "cf_built (bkFlow b)" and "ch_built (bkChannels b)"
    and "edge_refs (bkGraph b) k = (\<Sum>u \<in> us. ufEdges F u k)"
    and "tu_edge_refs (bkGraph b) t k = (if t \<in> us then ufEdges F t k else 0)"
    and "mset (allContexts (bkFlow b)) = (\<Sum>u \<in> us. mset (ufContexts F u))"
    and "site_refs (bkChannels b) sk = (\<Sum>u \<in> us. ufSites F u sk)"
  using assms unfolding holds_units_def by blast+

lemma removed_facts:
  \<comment> \<open>the saved index after the batched removal of some of its units\<close>
  assumes old: "holds_units F R old" "site_provenance F R old" and tag: "contexts_tagged F" and fin: "finite R"
    and ts: "set ts \<subseteq> R"
  shows "edge_refs (snd (removeTUs ts (reload_graph True (bkGraph old)))) k =
      (\<Sum>u \<in> R. ufEdges F u k) - (\<Sum>u \<in> set ts. ufEdges F u k)"
    and "tu_edge_refs (snd (removeTUs ts (reload_graph True (bkGraph old)))) t k =
      (if t \<in> R - set ts then ufEdges F t k else 0)"
    and "mset (allContexts (snd (removeContexts ts (reload_flow True (bkFlow old))))) =
      (\<Sum>u \<in> R - set ts. mset (ufContexts F u))"
    and "site_refs (snd (removeSites ts (reload_channels True (bkChannels old)))) sk =
      (\<Sum>u \<in> R. ufSites F u sk) - (\<Sum>u \<in> set ts. ufSites F u sk)"
proof -
  note H = holds_unitsD[OF old(1)]
  note W = warm_parts[OF H(1-3)]
  note G = removeTUs_laws[OF built_invariant[OF H(1)]]
  have known: "(\<Sum>u \<in> set ts. if u \<in> R then f u else 0) = (\<Sum>u \<in> set ts. f u :: nat)" for f
    using ts by (intro sum.cong) auto
  show "edge_refs (snd (removeTUs ts (reload_graph True (bkGraph old)))) k =
      (\<Sum>u \<in> R. ufEdges F u k) - (\<Sum>u \<in> set ts. ufEdges F u k)"
    by (simp add: W(1) G(1) H(4,5) known)
  show "tu_edge_refs (snd (removeTUs ts (reload_graph True (bkGraph old)))) t k =
      (if t \<in> R - set ts then ufEdges F t k else 0)"
    by (simp add: W(2) G(2) H(5))
  show "mset (allContexts (snd (removeContexts ts (reload_flow True (bkFlow old))))) =
      (\<Sum>u \<in> R - set ts. mset (ufContexts F u))"
    by (simp add: W(3) removeContexts_spec(2)[OF cf_built_inv[OF H(2)]] H(6) contexts_kept[OF tag fin])
  show "site_refs (snd (removeSites ts (reload_channels True (bkChannels old)))) sk =
      (\<Sum>u \<in> R. ufSites F u sk) - (\<Sum>u \<in> set ts. ufSites F u sk)"
    using old(2) by (simp add: W(4) removeSites_spec(2)[OF ch_built_inv[OF H(3)]] H(7) site_provenance_def known)
qed

lemma merged_facts:
  \<comment> \<open>the reloaded index after the removal, with a fresh bake merged in\<close>
  assumes old: "holds_units F R old" and baked: "holds_units G B baked" and room: "refresh_room baked old"
  shows "edge_refs (absorb (bkGraph baked) (snd (removeTUs ts (reload_graph True (bkGraph old))))) k =
      edge_refs (snd (removeTUs ts (reload_graph True (bkGraph old)))) k + (\<Sum>u \<in> B. ufEdges G u k)"
    and "tu_edge_refs (absorb (bkGraph baked) (snd (removeTUs ts (reload_graph True (bkGraph old))))) t k =
      tu_edge_refs (snd (removeTUs ts (reload_graph True (bkGraph old)))) t k + (if t \<in> B then ufEdges G t k else 0)"
    and "mset (allContexts (absorbIndex (bkFlow baked) (snd (removeContexts ts (reload_flow True (bkFlow old)))))) =
      mset (allContexts (snd (removeContexts ts (reload_flow True (bkFlow old))))) + (\<Sum>u \<in> B. mset (ufContexts G u))"
    and "site_refs (absorbChannels (bkChannels baked) (snd (removeSites ts (reload_channels True (bkChannels old))))) sk =
      site_refs (snd (removeSites ts (reload_channels True (bkChannels old)))) sk + (\<Sum>u \<in> B. ufSites G u sk)"
proof -
  note H = holds_unitsD[OF old] and N = holds_unitsD[OF baked]
  note S = reloaded_graph[OF H(1)]
  have g: "wf_graph (reload_graph True (bkGraph old))" using S by (simp add: same_graph_def)
  have r: "has_room (length (strings (cgInterner (bkGraph baked)))) (cgInterner (snd (removeTUs ts (reload_graph True (bkGraph old)))))"
    using room S by (simp add: wf_removeTUs(2)[OF g] refresh_room_def same_graph_def has_room_def)
  note A = absorb_laws[OF wf_removeTUs(1)[OF g] built_invariant[OF N(1)] r]
  show "edge_refs (absorb (bkGraph baked) (snd (removeTUs ts (reload_graph True (bkGraph old))))) k =
      edge_refs (snd (removeTUs ts (reload_graph True (bkGraph old)))) k + (\<Sum>u \<in> B. ufEdges G u k)"
    "tu_edge_refs (absorb (bkGraph baked) (snd (removeTUs ts (reload_graph True (bkGraph old))))) t k =
      tu_edge_refs (snd (removeTUs ts (reload_graph True (bkGraph old)))) t k + (if t \<in> B then ufEdges G t k else 0)"
    by (simp_all only: A(2,3) N(4,5))
  have f: "cf_inv (snd (removeContexts ts (reload_flow True (bkFlow old))))"
    by (rule removeContexts_spec(1)[OF reload_flow_spec(1)[OF cf_built_inv[OF H(2)]]])
  have m: "merge_room (bkFlow baked) (snd (removeContexts ts (reload_flow True (bkFlow old))))"
    unfolding merge_room_tables[of "snd (removeContexts ts (reload_flow True (bkFlow old)))" "bkFlow old", unfolded removed_tables reloaded_tables, OF refl]
    using room by (simp add: refresh_room_def)
  show "mset (allContexts (absorbIndex (bkFlow baked) (snd (removeContexts ts (reload_flow True (bkFlow old)))))) =
      mset (allContexts (snd (removeContexts ts (reload_flow True (bkFlow old))))) + (\<Sum>u \<in> B. mset (ufContexts G u))"
    by (simp add: absorbIndex_spec(2)[OF f cf_built_inv[OF N(2)] m] N(6))
  note c = removeSites_spec(1)[OF reload_channels_spec(1)[OF ch_built_inv[OF H(3)]]]
  show "site_refs (absorbChannels (bkChannels baked) (snd (removeSites ts (reload_channels True (bkChannels old))))) sk =
      site_refs (snd (removeSites ts (reload_channels True (bkChannels old)))) sk + (\<Sum>u \<in> B. ufSites G u sk)"
    by (simp add: absorbChannels_spec(2)[OF c ch_built_inv[OF N(3)]] N(7))
qed

lemma dirty_paths_distinct: "distinct (map stPath stamps) \<Longrightarrow> distinct (dirty_paths stamps dirty)"
proof (induction stamps arbitrary: dirty)
  case (Cons s ss)
  have sub: "set (dirty_paths ss ds) \<subseteq> stPath ` set ss" for ds
    by (auto simp: dirty_paths_def dest: set_zip_leftD)
  show ?case using Cons sub[of "tl dirty"] by (cases dirty) (auto simp: dirty_paths_def)
qed (simp add: dirty_paths_def)

definition unit_hypotheses :: "UnitFacts \<Rightarrow> UnitFacts \<Rightarrow> BakedIndexes \<Rightarrow> string set \<Rightarrow> Bake \<Rightarrow> string list \<Rightarrow> bool" where
  \<comment> \<open>the saved index holds the old facts of the recorded units; a bake gives the facts of its units\<close>
  "unit_hypotheses F G old R bake files \<longleftrightarrow>
     holds_units F R old \<and> site_provenance F R old \<and> contexts_tagged F \<and>
     (\<forall>fs. distinct fs \<longrightarrow> set fs \<subseteq> set files \<longrightarrow> holds_units G (set fs) (bake fs))"

lemma warm_refresh_facts:
  assumes plan: "refresh_plan stat force b m files (stampFiles stat files) = Refresh toDrop toBake viaDeps"
    and hyp: "unit_hypotheses F G old (set (map stPath (smFiles m))) bake files" and files: "distinct files"
    and clean: "\<forall>u \<in> set files - set toBake. unit_alike F G u"
    and room: "toBake \<noteq> [] \<longrightarrow> refresh_room (bake toBake) old" and data: "reloaded old full"
  shows "same_facts (warm_refresh bake m full toDrop toBake) (bake files)"
proof -
  let ?R = "set (map stPath (smFiles m))" and ?B = "set toBake" and ?Fs = "set files"
  define ts where "ts = toDrop @ filter (\<lambda>p. p \<in> ?R) toBake"
  note P = plan_units[OF plan]
  have h: "holds_units F ?R old" "site_provenance F ?R old" "contexts_tagged F" using hyp by (simp_all add: unit_hypotheses_def)
  have gone: "set ts = (?R - ?Fs) \<union> (?B \<inter> ?R)" using P(1) by (auto simp: ts_def)
  have rest: "?R - set ts = ?Fs - ?B" using P(2,3) unfolding gone by auto
  have dB: "distinct toBake" using plan files dirty_paths_distinct[of "stampFiles stat files"]
    by (auto simp: refresh_plan_def split_beta stamp_paths split: if_splits)
  have baked: "holds_units G ?B (bake toBake)" and all: "holds_units G ?Fs (bake files)"
    using hyp dB files P(2) by (simp_all add: unit_hypotheses_def)
  note N = holds_unitsD[OF all]
  have sub: "set ts \<subseteq> ?R" using gone by auto
  note K = removed_facts[OF h finite_set sub]
  have same: "ufEdges F u k = ufEdges G u k" "ufContexts F u = ufContexts G u" "ufSites F u sk = ufSites G u sk"
    if "u \<in> ?Fs - ?B" for u k sk
    using clean that by (simp_all add: unit_alike_def)
  note S = refresh_sum[OF finite_set finite_set P(2,3), folded gone]
  define kg where "kg = snd (removeTUs ts (reload_graph True (bkGraph old)))"
  define kf where "kf = snd (removeContexts ts (reload_flow True (bkFlow old)))"
  define kc where "kc = snd (removeSites ts (reload_channels True (bkChannels old)))"
  have facts: "edge_refs kg k + (\<Sum>u \<in> ?B. ufEdges G u k) = edge_refs (bkGraph (bake files)) k"
    "tu_edge_refs kg t k + (if t \<in> ?B then ufEdges G t k else 0) = tu_edge_refs (bkGraph (bake files)) t k"
    "mset (allContexts kf) + (\<Sum>u \<in> ?B. mset (ufContexts G u)) = mset (allContexts (bkFlow (bake files)))"
    "site_refs kc sk + (\<Sum>u \<in> ?B. ufSites G u sk) = site_refs (bkChannels (bake files)) sk" for k t sk
  proof -
    show "edge_refs kg k + (\<Sum>u \<in> ?B. ufEdges G u k) = edge_refs (bkGraph (bake files)) k"
      unfolding kg_def K(1) N(4) by (rule S) (rule same(1))
    show "tu_edge_refs kg t k + (if t \<in> ?B then ufEdges G t k else 0) = tu_edge_refs (bkGraph (bake files)) t k"
      unfolding kg_def K(2) N(5) rest using same(1)[of t k] P(2) by auto
    show "site_refs kc sk + (\<Sum>u \<in> ?B. ufSites G u sk) = site_refs (bkChannels (bake files)) sk"
      unfolding kc_def K(4) N(7) by (rule S) (rule same(3))
    have "(\<Sum>u \<in> ?Fs - ?B. mset (ufContexts F u)) = (\<Sum>u \<in> ?Fs - ?B. mset (ufContexts G u))"
      by (intro sum.cong refl) (simp add: same(2))
    then show "mset (allContexts kf) + (\<Sum>u \<in> ?B. mset (ufContexts G u)) = mset (allContexts (bkFlow (bake files)))"
      unfolding kf_def K(3) N(6) rest using sum.subset_diff[OF P(2) finite_set, of "\<lambda>u. mset (ufContexts G u)"] by simp
  qed
  show ?thesis
  proof (cases "toBake = []")
    case True
    then show ?thesis using facts data
      by (simp add: same_facts_def warm_refresh_def reloaded_def ts_def kg_def kf_def kc_def)
  next
    case False
    note M = merged_facts[OF h(1) baked room[rule_format, OF False], of ts, folded kg_def kf_def kc_def]
    have "warm_refresh bake m full toDrop toBake =
        \<lparr>bkGraph = absorb (bkGraph (bake toBake)) kg, bkFlow = absorbIndex (bkFlow (bake toBake)) kf,
         bkChannels = absorbChannels (bkChannels (bake toBake)) kc,
         bkDeps = bkDeps (warm_refresh bake m full toDrop toBake)\<rparr>"
      using False data by (simp add: warm_refresh_def reloaded_def ts_def kg_def kf_def kc_def Let_def)
    then show ?thesis using facts M unfolding same_facts_def
      by (metis BakedIndexes.select_convs(1-3))
  qed
qed

subsection \<open>The index a run ends with\<close>

definition recorded_units :: "SnapshotMeta \<Rightarrow> string set" where
  "recorded_units m = set (map stPath (smFiles m))"

definition clean_plan :: "UnitFacts \<Rightarrow> UnitFacts \<Rightarrow> Bake \<Rightarrow> BakedIndexes \<Rightarrow> string list \<Rightarrow> Plan \<Rightarrow> bool" where
  \<comment> \<open>the units that are not baked again have not changed, and the tables hold the fresh bake\<close>
  "clean_plan F G bake old files plan \<longleftrightarrow>
     (case plan of
        FullBuild \<Rightarrow> True
      | Refresh toDrop toBake viaDeps \<Rightarrow>
          (\<forall>u \<in> set files - set toBake. unit_alike F G u) \<and> (toBake \<noteq> [] \<longrightarrow> refresh_room (bake toBake) old))"

definition ends_with :: "BakedIndexes \<Rightarrow> BuildOutcome \<Rightarrow> BakedIndexes" where
  \<comment> \<open>the indexes that are on disk or in memory after the build\<close>
  "ends_with old out = (case outIndexes out of Some ix \<Rightarrow> ix | None \<Rightarrow> old)"

lemma same_facts_refl: "same_facts b b"
  by (simp add: same_facts_def)

lemma untouched_facts:
  assumes "holds_units F us a" and "holds_units G us b" and "\<And>u. u \<in> us \<Longrightarrow> unit_alike F G u"
  shows "same_facts a b"
proof -
  note A = holds_unitsD[OF assms(1)] and B = holds_unitsD[OF assms(2)]
  have e: "ufEdges F u = ufEdges G u" "ufContexts F u = ufContexts G u" "ufSites F u = ufSites G u" if "u \<in> us" for u
    using assms(3)[OF that] by (simp_all add: unit_alike_def)
  show ?thesis unfolding same_facts_def A(4-7) B(4-7) using e by (auto intro!: sum.cong)
qed

lemma load_whole:
  assumes stored: "map_of fs path = Some (emit_snapshot (bkGraph old) (bkFlow old) m (bkChannels old))"
    and old: "holds_units F R old" and fits: "snapshot_fits (bkGraph old) (bkFlow old) m (bkChannels old)"
  shows "load_snapshot mode wanted path fs = Loaded (loaded_data mode wanted (bkGraph old) (bkFlow old) m (bkChannels old))"
    and "reloaded old (loaded_data Mutable kSectionAll (bkGraph old) (bkFlow old) m (bkChannels old))"
proof -
  note H = holds_unitsD(1-3)[OF old]
  show "load_snapshot mode wanted path fs = Loaded (loaded_data mode wanted (bkGraph old) (bkFlow old) m (bkChannels old))"
    by (simp add: load_snapshot_def stored load_saved[OF H fits])
  have w: "wants kSectionAll kSectionGraph" "wants kSectionAll kSectionControlFlow" "wants kSectionAll kSectionChannels"
    by (simp_all add: wants_def kSectionAll_def kSectionGraph_def kSectionControlFlow_def kSectionChannels_def)
  show "reloaded old (loaded_data Mutable kSectionAll (bkGraph old) (bkFlow old) m (bkChannels old))"
    by (simp add: reloaded_def loaded_data_def w)
qed

text \<open>C38: Whatever \<open>megascope index\<close> or \<open>serve\<close> decides about a saved index - keep it undecoded, refresh it in
  place, rebuild it - the index it ends with has the call edges (registrations in total and per unit),
  the call-site contexts and the channel sites of a cold bake of the selected units, provided a unit
  that is not stale still has the facts it had.\<close>

theorem index_equals_cold_bake:
  assumes "map_of (cwFiles (iwCli w)) path = Some (emit_snapshot (bkGraph old) (bkFlow old) m (bkChannels old))"
    and "snapshot_fits (bkGraph old) (bkFlow old) m (bkChannels old)"
    and "load_snapshot ReadOnly 0 path (cwFiles (iwCli w)) = Loaded s"
    and "unit_hypotheses F G old (recorded_units m) (iwBake w b) files" and "distinct files"
    and "clean_plan F G (iwBake w b) old files
           (refresh_plan (iwStat w) (ioForce opts) b (sdMeta s) files (stampFiles (iwStat w) files))"
  shows "\<exists>out. build_indexes w opts verb path b (Some s) files (stampFiles (iwStat w) files) = Some out \<and>
     same_facts (ends_with old out) (iwBake w b files)"
proof -
  let ?plan = "refresh_plan (iwStat w) (ioForce opts) b (sdMeta s) files (stampFiles (iwStat w) files)"
  have old: "holds_units F (recorded_units m) old" using assms(4) by (simp add: unit_hypotheses_def)
  note L = load_whole[OF assms(1) old assms(2)]
  have meta: "sdMeta s = settled_meta m" using assms(3) L(1)[of ReadOnly 0] by (auto simp: loaded_data_def)
  have units: "set (map stPath (smFiles (settled_meta m))) = recorded_units m"
    by (simp add: settled_meta_def recorded_units_def)
  show ?thesis
  proof (cases ?plan)
    case FullBuild
    then show ?thesis by (simp add: build_indexes_def cold_build_def ends_with_def same_facts_refl)
  next
    case (Refresh toDrop toBake viaDeps)
    note P = Refresh[unfolded meta]
    have clean: "\<forall>u \<in> set files - set toBake. unit_alike F G u" "toBake \<noteq> [] \<longrightarrow> refresh_room (iwBake w b toBake) old"
      using assms(6) Refresh by (simp_all add: clean_plan_def)
    show ?thesis
    proof (cases "toDrop = [] \<and> toBake = [] \<and> verb = IndexVerb \<and> ioDumpNodes opts = []")
      case True
      then have "recorded_units m = set files"
        using plan_units[OF P, unfolded units] by auto
      then have "same_facts old (iwBake w b files)"
        using untouched_facts[OF old, of G "iwBake w b files"] assms(4,5) clean(1) True
        by (simp add: unit_hypotheses_def)
      then show ?thesis using Refresh True by (simp add: build_indexes_def ends_with_def)
    next
      case False
      have "same_facts (warm_refresh (iwBake w b) (settled_meta m)
          (loaded_data Mutable kSectionAll (bkGraph old) (bkFlow old) m (bkChannels old)) toDrop toBake) (iwBake w b files)"
        by (rule warm_refresh_facts[OF P assms(4)[folded units] assms(5) clean L(2)])
      then show ?thesis 
        by (simp only: build_indexes_def if_not_P[OF False] meta P L(1) option.case Plan.case LoadResult.case Let_def ends_with_def
            BuildOutcome.select_convs option.inject ex_simps) simp
    qed
  qed
qed

subsection \<open>A refresh\<close>

definition saved_meta_demo :: SnapshotMeta where
  \<comment> \<open>the index of three units\<close>
  "saved_meta_demo = empty_meta\<lparr>smFiles := map (\<lambda>p. \<lparr>stPath = p, stMtime = 7, stSize = 40\<rparr>) [''m.cpp'', ''a'', ''b'']\<rparr>"

definition saved_demo :: BakedIndexes where
  "saved_demo = \<lparr>bkGraph = demo, bkFlow = scan demo_log, bkChannels = register_sites demo_sites, bkDeps = []\<rparr>"

definition old_facts :: UnitFacts where
  "old_facts =
     \<lparr>ufEdges = tu_edge_refs demo, ufContexts = (\<lambda>u. filter (\<lambda>c. ctxTuPath c = u) (allContexts (scan demo_log))),
      ufSites = tu_site_refs (register_sites demo_sites)\<rparr>"

definition new_facts :: UnitFacts where
  \<comment> \<open>the unit \<open>a\<close> has been emptied\<close>
  "new_facts = \<lparr>ufEdges = tu_edge_refs demo, ufContexts = (\<lambda>_. []), ufSites = (\<lambda>_ _. 0)\<rparr>"

definition bake_demo :: Bake where
  "bake_demo fs =
     \<lparr>bkGraph = (if ''m.cpp'' \<in> set fs then demo else empty_graph), bkFlow = empty_index, bkChannels = empty_channels,
      bkDeps = []\<rparr>"

definition index_world :: IndexWorld where
  \<comment> \<open>\<open>b\<close> is no longer selected and \<open>a\<close> has a new time\<close>
  "index_world =
     \<lparr>iwCli = demo_world\<lparr>cwFiles := [(''i.vycs'', emit_snapshot demo (scan demo_log) saved_meta_demo (register_sites demo_sites))]\<rparr>,
      iwStat = (\<lambda>p. Some (if p = ''a'' then 8 else 7, 40)), iwSaveFault = NoFault, iwBake = (\<lambda>_. bake_demo),
      iwReindex = (\<lambda>_ _ ix. ix)\<rparr>"

lemma demo_edge_units:
  "edge_refs demo k = tu_edge_refs demo ''m.cpp'' k"
  "t \<noteq> ''m.cpp'' \<Longrightarrow> tu_edge_refs demo t k = 0"
proof -
  have c: "find_id (cgInterner demo) ''m.cpp'' = Some (word_of_nat 8)" "edges demo ! 0 = hd (edges demo)"
    "tuEdges demo = [(word_of_nat 8, [0])]" "refs (hd (edges demo)) = 1" "edgeIndex demo = [(keyOf (hd (edges demo)), 0)]"
    by (simp_all add: demo_value find_id_def keyOf_def)
  show "edge_refs demo k = tu_edge_refs demo ''m.cpp'' k"
    by (auto simp: edge_refs_def tu_edge_refs_def key_refs_def tu_refs_def ulist_def c split: option.split)
  have "find_id (cgInterner demo) t \<noteq> Some (word_of_nat 8)" if "t \<noteq> ''m.cpp''"
    using that by (auto simp: demo_value find_id_def)
  then show "t \<noteq> ''m.cpp'' \<Longrightarrow> tu_edge_refs demo t k = 0"
    by (auto simp: tu_edge_refs_def tu_refs_def ulist_def c split: option.split)
qed

lemma demo_site_units:
  "site_refs (register_sites demo_sites) k =
     tu_site_refs (register_sites demo_sites) ''a'' k + tu_site_refs (register_sites demo_sites) ''b'' k"
  "t \<noteq> ''a'' \<Longrightarrow> t \<noteq> ''b'' \<Longrightarrow> tu_site_refs (register_sites demo_sites) t k = 0"
  by (auto simp: site_refs_def tu_site_refs_def demo_sites_value ulist_def split: option.split)

lemma demo_context_units: "map ctxTuPath (allContexts (scan demo_log)) = [''a'', ''b'']"
  by (simp add: demo_scan_value allContexts_eq materializeContext_def resolve_def kNoString_def)

lemma saved_holds:
  "holds_units old_facts (recorded_units saved_meta_demo) saved_demo"
  "site_provenance old_facts (recorded_units saved_meta_demo) saved_demo" "contexts_tagged old_facts"
proof -
  have R: "recorded_units saved_meta_demo = {''m.cpp'', ''a'', ''b''}"
    by (simp add: recorded_units_def saved_meta_demo_def)
  obtain c d where cd: "allContexts (scan demo_log) = [c, d]" "ctxTuPath c = ''a''" "ctxTuPath d = ''b''"
    using demo_context_units by (auto simp: map_eq_Cons_conv)
  show "holds_units old_facts (recorded_units saved_meta_demo) saved_demo"
    by (simp add: holds_units_def R saved_demo_def old_facts_def built_demo built_demo_scan(1) built_register
        demo_edge_units demo_site_units cd)
  show "site_provenance old_facts (recorded_units saved_meta_demo) saved_demo"
    by (simp add: site_provenance_def R saved_demo_def old_facts_def demo_site_units)
  show "contexts_tagged old_facts" by (auto simp: contexts_tagged_def old_facts_def cd)
qed

lemma saved_fits: "snapshot_fits demo (scan demo_log) saved_meta_demo (register_sites demo_sites)"
proof -
  have m: "length (emitMeta saved_meta_demo []) < 1000"
    by (simp add: saved_meta_demo_def empty_meta_def emitMeta_def meta_puts snStrings.wList_split fileStamps.wList_split
        channelSpecs.wList_split emitFileStamp_def tu_dep_ids_def snIds.wList_split)
  have "length (emit_snapshot demo (scan demo_log) saved_meta_demo (register_sites demo_sites)) < 2 ^ 64"
    using demo_parts_length m by (simp add: emit_snapshot_w Let_def kHeaderBytes_def)
  moreover have "meta_fits saved_meta_demo"
    by (simp add: saved_meta_demo_def empty_meta_def meta_fits_def list_fits_def str_fits_def stamp_fits_def)
  ultimately show ?thesis
    by (simp only: snapshot_fits_def demo_graph_fits demo_flow_fits demo_channels_fit simp_thms)
qed

lemma bake_demo_holds: "set fs \<subseteq> {''m.cpp'', ''a''} \<Longrightarrow> holds_units new_facts (set fs) (bake_demo fs)"
proof -
  assume sub: "set fs \<subseteq> {''m.cpp'', ''a''}"
  have s: "(\<Sum>u \<in> set fs. tu_edge_refs demo u k) = (if ''m.cpp'' \<in> set fs then tu_edge_refs demo ''m.cpp'' k else 0)" for k
  proof -
    have "(\<Sum>u \<in> set fs. tu_edge_refs demo u k) = (\<Sum>u \<in> set fs. if u = ''m.cpp'' then tu_edge_refs demo u k else 0)"
      by (intro sum.cong) (auto simp: demo_edge_units)
    then show ?thesis by simp
  qed
  show ?thesis
    using built_demo built.empty cf_built.empty ch_built.empty
    by (auto simp: holds_units_def bake_demo_def new_facts_def refs_empty s demo_edge_units allContexts_empty site_refs_def empty_channels_def
        intro: demo_edge_units(2))
qed

definition index_flags :: IndexOptions where
  "index_flags =
     \<lparr>ioBuildPath = ''build'', ioIndex = ''i.vycs'', ioSources = [''m.cpp'', ''a''], ioSourceList = [], ioSourceRe = [],
      ioSkipPaths = [], ioCollapsePaths = [], ioLockTypes = [], ioChannelTypesJson = [], ioOrgConfig = [],
      ioEntryPoints = [], ioForce = False, ioMcp = False, ioDumpNodes = []\<rparr>"

definition plain_bake :: BakeOptions where
  "plain_bake = \<lparr>boLockAllowlist = [], boLockBuiltins = True, boChannelTypes = [], boCollapsePaths = []\<rparr>"

lemma demo_plan:
  \<comment> \<open>\<open>b\<close> is dropped, \<open>a\<close> is baked again, \<open>m.cpp\<close> is kept\<close>
  "refresh_plan (iwStat index_world) False plain_bake (settled_meta saved_meta_demo) [''m.cpp'', ''a'']
     (stampFiles (iwStat index_world) [''m.cpp'', ''a'']) = Refresh [''b''] [''a''] 0"
  by (simp add: refresh_plan_def index_world_def saved_meta_demo_def settled_meta_def empty_meta_def stampFiles_def
      dirtyTUs_def tu_dirty_def recorded_files_def dep_changed_def tu_dep_ids_def config_match_def plain_bake_def
      dropped_units_def dirty_paths_def upt_rec)

lemma demo_room: "refresh_room (bake_demo [''a'']) saved_demo"
  by (simp add: refresh_room_def bake_demo_def saved_demo_def empty_graph_def empty_interner_def has_room_def demo_value
      demo_scan_value merge_room_def empty_index_def)

lemma demo_hypotheses: "unit_hypotheses old_facts new_facts saved_demo (recorded_units saved_meta_demo) bake_demo [''m.cpp'', ''a'']"
  using saved_holds bake_demo_holds by (simp add: unit_hypotheses_def)

lemma demo_alike: "unit_alike old_facts new_facts ''m.cpp''"
proof -
  have "filter (\<lambda>c. ctxTuPath c = ''m.cpp'') (allContexts (scan demo_log)) = []"
    using demo_context_units by (auto simp: filter_empty_conv map_eq_Cons_conv)
  then show ?thesis
    by (simp add: unit_alike_def old_facts_def new_facts_def demo_site_units fun_eq_iff)
qed

theorem index_equals_cold_bake_witness:
  "\<exists>out. build_indexes index_world index_flags IndexVerb ''i.vycs'' plain_bake
       (Some (loaded_data ReadOnly 0 demo (scan demo_log) saved_meta_demo (register_sites demo_sites)))
       [''m.cpp'', ''a''] (stampFiles (iwStat index_world) [''m.cpp'', ''a'']) = Some out \<and>
     same_facts (ends_with saved_demo out) (bake_demo [''m.cpp'', ''a''])"
proof -
  have old: "bkGraph saved_demo = demo" "bkFlow saved_demo = scan demo_log" "bkChannels saved_demo = register_sites demo_sites"
    by (simp_all add: saved_demo_def)
  have stored: "map_of (cwFiles (iwCli index_world)) ''i.vycs'' =
      Some (emit_snapshot (bkGraph saved_demo) (bkFlow saved_demo) saved_meta_demo (bkChannels saved_demo))"
    by (simp add: index_world_def old)
  have fits: "snapshot_fits (bkGraph saved_demo) (bkFlow saved_demo) saved_meta_demo (bkChannels saved_demo)"
    by (simp add: old saved_fits)
  have plan: "clean_plan old_facts new_facts bake_demo saved_demo [''m.cpp'', ''a''] (Refresh [''b''] [''a''] 0)"
    using demo_room demo_alike by (auto simp: clean_plan_def)
  let ?s = "loaded_data ReadOnly 0 demo (scan demo_log) saved_meta_demo (register_sites demo_sites)"
  have bake: "iwBake index_world plain_bake = bake_demo" by (simp add: index_world_def)
  have meta: "sdMeta ?s = settled_meta saved_meta_demo" "ioForce index_flags = False"
    by (simp_all add: loaded_data_def index_flags_def)
  have hyp: "unit_hypotheses old_facts new_facts saved_demo (recorded_units saved_meta_demo) (iwBake index_world plain_bake) [''m.cpp'', ''a'']"
    by (simp add: bake demo_hypotheses)
  have go: "clean_plan old_facts new_facts (iwBake index_world plain_bake) saved_demo [''m.cpp'', ''a'']
      (refresh_plan (iwStat index_world) (ioForce index_flags) plain_bake (sdMeta ?s) [''m.cpp'', ''a'']
        (stampFiles (iwStat index_world) [''m.cpp'', ''a'']))"
    unfolding bake meta demo_plan by (rule plan)
  have two: "distinct [''m.cpp'', ''a'']" by simp
  show ?thesis
    using index_equals_cold_bake[OF stored fits load_whole(1)[OF stored saved_holds(1) fits, unfolded old] hyp two go]
    by (simp add: bake)
qed

subsection \<open>Entry points of a saved index\<close>

text \<open>\<open>--entry-point\<close> is recorded only by a run that changes the index: given to a run that finds
  nothing stale it is ignored.\<close>

lemma unchanged_run_keeps_roots:
  assumes "refresh_plan (iwStat w) (ioForce opts) b (sdMeta s) files stamps = Refresh [] [] viaDeps"
    and "ioDumpNodes opts = []"
  shows "\<exists>out. build_indexes w opts IndexVerb path b (Some s) files stamps = Some out \<and>
     save_index w opts path b stamps out = (False, cwFiles (iwCli w))"
  using assms by (simp add: build_indexes_def save_index_def)

text \<open>A run without \<open>--entry-point\<close> serves the recorded ones, yet records the empty list when it saves.\<close>

lemma refresh_forgets_roots:
  assumes "ioEntryPoints opts = []" and "smEntryPoints (sdMeta s) \<noteq> []"
  shows "serve_entry_points opts (Some s) = smEntryPoints (sdMeta s)"
    and "smEntryPoints (saved_meta b stamps deps (ioEntryPoints opts)) = []"
  using assms by (simp_all add: serve_entry_points_def saved_meta_def)

end
