(* ===== verification/Spec2Isabelle.thy ===== *)
theory Spec2Isabelle
  imports CallGraphProps ControlFlowProps ChannelProps DeadCodeProps OracleProps CollapseFilter GlobalIndexProps CheckpointProps SnapshotProps CallChainProps LockToolsProps QueryProps CacheProps CliProps McpProps CheckProps BakeIndexProps
begin

text \<open>Verification development of the vycor-cpp indexes and analyses.\<close>

end
